(* ===== verification/UR_Prelude.thy ===== *)
theory UR_Prelude
  imports Main "HOL-Library.Word" "HOL-Library.List_Lexorder" "HOL-Library.Char_ord"
begin

text \<open>
  What every component of the development shares: the result codes of the API, the fragment of
  the C++ standard library the sources use (\<open>std::string\<close>, \<open>std::getline\<close>, \<open>std::stoi\<close>,
  \<open>std::stoul\<close>, \<open>std::map\<close>), machine words, and the generic lemmas about them. Exceptions are
  values: a computation that may throw has type \<open>cpp_exn + 'a\<close>.
\<close>

named_theorems cstring_simps \<open>character and string operations of the C++ library\<close>
named_theorems word_size_simps \<open>machine words read as natural numbers\<close>

section \<open>Result codes, exceptions and machine words\<close>

text \<open>
  The members of \<open>ur_result_t\<close> (include/unified-runtime/ur_api.h) that the modelled code
  returns or compares against.
\<close>

datatype ur_result =
    UR_RESULT_SUCCESS
  | UR_RESULT_ERROR_INVALID_VALUE
  | UR_RESULT_ERROR_INVALID_PLATFORM
  | UR_RESULT_ERROR_INVALID_PROGRAM
  | UR_RESULT_ERROR_INVALID_NULL_HANDLE
  | UR_RESULT_ERROR_INVALID_NULL_POINTER
  | UR_RESULT_ERROR_INVALID_KERNEL_ARGUMENT_SIZE
  | UR_RESULT_ERROR_INVALID_SIZE
  | UR_RESULT_ERROR_INVALID_ARGUMENT
  | UR_RESULT_ERROR_INVALID_ENUMERATION
  | UR_RESULT_ERROR_DEVICE_NOT_FOUND
  | UR_RESULT_ERROR_DEVICE_PARTITION_FAILED
  | UR_RESULT_ERROR_LAYER_NOT_PRESENT
  | UR_RESULT_ERROR_UNINITIALIZED
  | UR_RESULT_ERROR_OUT_OF_HOST_MEMORY
  | UR_RESULT_ERROR_OUT_OF_DEVICE_MEMORY
  | UR_RESULT_ERROR_OUT_OF_RESOURCES
  | UR_RESULT_ERROR_UNSUPPORTED_FEATURE
  | UR_RESULT_ERROR_UNSUPPORTED_ENUMERATION
  | UR_RESULT_ERROR_PROFILING_INFO_NOT_AVAILABLE
  | UR_RESULT_ERROR_INVALID_EVENT
  | UR_RESULT_ERROR_INVALID_MEM_OBJECT
  | UR_RESULT_ERROR_INVALID_BUFFER_SIZE
  | UR_RESULT_ERROR_INVALID_USM_SIZE
  | UR_RESULT_ERROR_UNSUPPORTED_ALIGNMENT
  | UR_RESULT_ERROR_INVALID_KERNEL
  | UR_RESULT_ERROR_INVALID_WORK_DIMENSION
  | UR_RESULT_ERROR_INVALID_WORK_GROUP_SIZE
  | UR_RESULT_ERROR_ADAPTER_SPECIFIC
  | UR_RESULT_ERROR_UNKNOWN

text \<open>The exceptions the modelled code throws or catches.\<close>

datatype cpp_exn =
    Invalid_argument
  | Out_of_range
  | Bad_alloc
  | Throw_result ur_result
  | Other_exception

type_synonym u8 = "8 word"
type_synonym u32 = "32 word"
type_synonym u64 = "64 word"

definition size_max :: nat where
  "size_max = 2 ^ 64 - 1"

section \<open>Characters and strings\<close>

text \<open>\<open>tolower\<close>, \<open>toupper\<close>, \<open>isdigit\<close> and \<open>isspace\<close> of the C locale.\<close>

definition isdigit :: "char \<Rightarrow> bool" where
  "isdigit c \<longleftrightarrow> 48 \<le> (of_char c :: nat) \<and> (of_char c :: nat) \<le> 57"

definition tolower :: "char \<Rightarrow> char" where
  "tolower c =
     (if 65 \<le> (of_char c :: nat) \<and> (of_char c :: nat) \<le> 90 then char_of ((of_char c :: nat) + 32) else c)"

definition toupper :: "char \<Rightarrow> char" where
  "toupper c =
     (if 97 \<le> (of_char c :: nat) \<and> (of_char c :: nat) \<le> 122 then char_of ((of_char c :: nat) - 32) else c)"

definition isspace :: "char \<Rightarrow> bool" where
  "isspace c \<longleftrightarrow> (of_char c :: nat) = 32 \<or> 9 \<le> (of_char c :: nat) \<and> (of_char c :: nat) \<le> 13"

definition to_lower :: "string \<Rightarrow> string" where
  "to_lower s = map tolower s"

text \<open>\<open>s.find(c)\<close>, \<open>s.find(c, pos)\<close>, \<open>s.rfind(c)\<close> and \<open>s.find(t)\<close>; \<open>npos\<close> is \<open>None\<close>.\<close>

fun find_char :: "char \<Rightarrow> string \<Rightarrow> nat option" where
  "find_char c [] = None"
| "find_char c (x # xs) = (if x = c then Some 0 else map_option Suc (find_char c xs))"

definition find_char_from :: "char \<Rightarrow> nat \<Rightarrow> string \<Rightarrow> nat option" where
  "find_char_from c pos s = map_option ((+) pos) (find_char c (drop pos s))"

definition rfind_char :: "char \<Rightarrow> string \<Rightarrow> nat option" where
  "rfind_char c s = map_option (\<lambda>i. length s - 1 - i) (find_char c (rev s))"

definition is_prefix :: "string \<Rightarrow> string \<Rightarrow> bool" where
  "is_prefix t s \<longleftrightarrow> take (length t) s = t"

fun find_str :: "string \<Rightarrow> string \<Rightarrow> nat option" where
  "find_str t [] = (if t = [] then Some 0 else None)"
| "find_str t (x # xs) =
     (if is_prefix t (x # xs) then Some 0 else map_option Suc (find_str t xs))"

definition substr :: "nat \<Rightarrow> nat \<Rightarrow> string \<Rightarrow> string" where
  "substr pos n s = take n (drop pos s)"

text \<open>
  The tokens a loop of \<open>std::getline(ss, token, delim)\<close> reads: a trailing delimiter opens no
  further token, and an empty stream has none.
\<close>

function getline_tokens :: "char \<Rightarrow> string \<Rightarrow> string list" where
  "getline_tokens d s =
     (if s = [] then []
      else case find_char d s of
             None \<Rightarrow> [s]
           | Some p \<Rightarrow> take p s # getline_tokens d (drop (Suc p) s))"
  by pat_completeness auto
termination
  by (relation "measure (length \<circ> snd)") auto

declare getline_tokens.simps [simp del]

text \<open>
  \<open>std::stoi\<close> and \<open>std::stoul\<close> in base ten: skip white space, read an optional sign and the
  longest run of digits; no digit is \<open>invalid_argument\<close>, a value outside the type is
  \<open>out_of_range\<close>. \<open>strtoul\<close> negates a value read after a minus sign modulo \<open>2^64\<close>.
\<close>

definition digit_value :: "char \<Rightarrow> nat" where
  "digit_value c = of_char c - 48"

definition nat_of_digits :: "string \<Rightarrow> nat" where
  "nat_of_digits ds = foldl (\<lambda>n c. 10 * n + digit_value c) 0 ds"

definition read_integer :: "string \<Rightarrow> (bool \<times> nat) option" where
  "read_integer s =
     (let t = dropWhile isspace s;
          neg = (t \<noteq> [] \<and> hd t = CHR ''-'');
          u = (if t \<noteq> [] \<and> (hd t = CHR ''-'' \<or> hd t = CHR ''+'') then tl t else t);
          ds = takeWhile isdigit u
      in if ds = [] then None else Some (neg, nat_of_digits ds))"

definition stoi :: "string \<Rightarrow> cpp_exn + int" where
  "stoi s =
     (case read_integer s of
        None \<Rightarrow> Inl Invalid_argument
      | Some (neg, n) \<Rightarrow>
          let v = (if neg then - int n else int n)
          in if - (2 ^ 31) \<le> v \<and> v < 2 ^ 31 then Inr v else Inl Out_of_range)"

definition stoul :: "string \<Rightarrow> cpp_exn + u64" where
  "stoul s =
     (case read_integer s of
        None \<Rightarrow> Inl Invalid_argument
      | Some (neg, n) \<Rightarrow>
          if n < 2 ^ 64 then Inr (if neg then - of_nat n else of_nat n) else Inl Out_of_range)"

section \<open>Lemmas about strings\<close>

lemma find_char_None [cstring_simps]: "find_char c s = None \<longleftrightarrow> c \<notin> set s"
  by (induction s) auto

lemma find_char_less: "find_char c s = Some p \<Longrightarrow> p < length s"
  by (induction s arbitrary: p) (auto split: if_splits)

lemma find_char_nth: "find_char c s = Some p \<Longrightarrow> s ! p = c"
  by (induction s arbitrary: p) (auto split: if_splits)

lemma find_char_take: "find_char c s = Some p \<Longrightarrow> c \<notin> set (take p s)"
  by (induction s arbitrary: p) (auto split: if_splits)

lemma find_char_append [cstring_simps]:
  "c \<notin> set xs \<Longrightarrow> find_char c (xs @ c # ys) = Some (length xs)"
  by (induction xs) auto

lemma find_char_append_no [cstring_simps]:
  "c \<notin> set xs \<Longrightarrow> find_char c (xs @ ys) = map_option ((+) (length xs)) (find_char c ys)"
  by (cases "find_char c ys"; induction xs) auto

lemma find_char_split:
  assumes "find_char c s = Some p"
  shows "s = take p s @ c # drop (Suc p) s"
  using id_take_nth_drop [OF find_char_less [OF assms]] find_char_nth [OF assms] by simp

lemma getline_tokens_Nil [simp]: "getline_tokens d [] = []"
  by (simp add: getline_tokens.simps)

lemma getline_tokens_single [cstring_simps]:
  "d \<notin> set s \<Longrightarrow> s \<noteq> [] \<Longrightarrow> getline_tokens d s = [s]"
  by (simp add: getline_tokens.simps [of d s] find_char_None [THEN iffD2])

lemma getline_tokens_append [cstring_simps]:
  "d \<notin> set xs \<Longrightarrow> getline_tokens d (xs @ d # ys) = xs # getline_tokens d ys"
  by (simp add: getline_tokens.simps [of d "xs @ d # ys"] find_char_append)

lemma getline_tokens_no_delim: "t \<in> set (getline_tokens d s) \<Longrightarrow> d \<notin> set t"
proof (induction d s rule: getline_tokens.induct)
  case (1 d s)
  show ?case
  proof (cases "s = []")
    case True
    with "1.prems" show ?thesis by simp
  next
    case False
    with "1" show ?thesis
      by (auto simp: getline_tokens.simps [of d s] find_char_None dest: find_char_take split: option.splits)
  qed
qed

text \<open>The text that a list of fields makes when it is written with a delimiter between them.\<close>

fun join_with :: "char \<Rightarrow> string list \<Rightarrow> string" where
  "join_with d [] = []"
| "join_with d [x] = x"
| "join_with d (x # y # ys) = x @ d # join_with d (y # ys)"

lemma getline_tokens_join:
  assumes "\<And>x. x \<in> set xs \<Longrightarrow> d \<notin> set x" and "xs \<noteq> []" and "last xs \<noteq> []"
  shows "getline_tokens d (join_with d xs) = xs"
  using assms by (induction d xs rule: join_with.induct) (auto simp: cstring_simps)

lemma join_with_no: "c \<noteq> d \<Longrightarrow> (\<And>x. x \<in> set xs \<Longrightarrow> c \<notin> set x) \<Longrightarrow> c \<notin> set (join_with d xs)"
  by (induction d xs rule: join_with.induct) auto

lemma join_with_neq_Nil: "xs \<noteq> [] \<Longrightarrow> (\<And>x. x \<in> set xs \<Longrightarrow> x \<noteq> []) \<Longrightarrow> join_with d xs \<noteq> []"
  by (induction d xs rule: join_with.induct) auto

lemma to_lower_idem [simp]: "to_lower (to_lower s) = to_lower s"
proof -
  have "tolower (tolower c) = tolower c" for c
    by (auto simp: tolower_def)
  then show ?thesis by (simp add: to_lower_def)
qed

section \<open>Ordered maps\<close>

text \<open>
  \<open>std::map\<close> iterates in key order, and code that loops over one depends on it. The interface
  below is what the sources use; \<open>contents\<close> is the iteration. The model of the class is an
  association list kept strictly sorted by key.
\<close>

locale ordered_map =
  fixes emp :: "'m"
    and ins :: "'k::linorder \<Rightarrow> 'v \<Rightarrow> 'm \<Rightarrow> 'm"
    and del :: "'k \<Rightarrow> 'm \<Rightarrow> 'm"
    and look :: "'m \<Rightarrow> 'k \<Rightarrow> 'v option"
    and contents :: "'m \<Rightarrow> ('k \<times> 'v) list"
    and wf :: "'m \<Rightarrow> bool"
  assumes look_emp: "look emp k = None"
    and look_ins: "wf m \<Longrightarrow> look (ins k v m) k' = (if k' = k then Some v else look m k')"
    and look_del: "wf m \<Longrightarrow> look (del k m) k' = (if k' = k then None else look m k')"
    and contents_look: "wf m \<Longrightarrow> (k, v) \<in> set (contents m) \<longleftrightarrow> look m k = Some v"
    and contents_sorted: "wf m \<Longrightarrow> sorted_wrt (<) (map fst (contents m))"
    and wf_emp: "wf emp"
    and wf_ins: "wf m \<Longrightarrow> wf (ins k v m)"
    and wf_del: "wf m \<Longrightarrow> wf (del k m)"
begin

text \<open>A loop of insertions, as the parsers of environment variables run it.\<close>

lemma wf_ins_all: "wf m \<Longrightarrow> wf (fold (\<lambda>(k, v). ins k v) kvs m)"
  by (induction kvs arbitrary: m) (auto intro: wf_ins)

lemma look_ins_all:
  assumes "wf m" and "distinct (map fst kvs)"
  shows "look (fold (\<lambda>(k, v). ins k v) kvs m) k =
           (case map_of kvs k of None \<Rightarrow> look m k | Some v \<Rightarrow> Some v)"
  using assms
proof (induction kvs arbitrary: m)
  case Nil
  then show ?case by simp
next
  case (Cons kv kvs)
  obtain k0 v0 where kv: "kv = (k0, v0)" by (cases kv)
  with Cons.prems have wf': "wf (ins k0 v0 m)" and k0: "map_of kvs k0 = None"
    by (auto simp: wf_ins map_of_eq_None_iff)
  from Cons.prems have "look (fold (\<lambda>(k, v). ins k v) (kv # kvs) m) k =
      (case map_of kvs k of None \<Rightarrow> look (ins k0 v0 m) k | Some v \<Rightarrow> Some v)"
    using Cons.IH [OF wf'] by (simp add: kv)
  with k0 Cons.prems(1) show ?case
    by (cases "k = k0") (simp_all add: kv look_ins split: option.split)
qed

lemma contents_keys_distinct: "wf m \<Longrightarrow> distinct (map fst (contents m))"
  using contents_sorted [of m] by (simp add: strict_sorted_iff)

lemma contents_eq_iff:
  assumes "wf m" and "wf m'" and "\<And>k. look m k = look m' k"
  shows "contents m = contents m'"
proof (rule map_sorted_distinct_set_unique [where f = fst])
  show "sorted (map fst (contents m))" "sorted (map fst (contents m'))"
    using contents_sorted [OF assms(1)] contents_sorted [OF assms(2)]
    by (auto simp: strict_sorted_iff)
  show "distinct (map fst (contents m))" "distinct (map fst (contents m'))"
    using assms by (auto intro: contents_keys_distinct)
  show "set (contents m) = set (contents m')"
    using contents_look [OF assms(1)] contents_look [OF assms(2)] assms(3) by auto
  show "inj_on fst (set (contents m) \<union> set (contents m'))"
    using contents_look [OF assms(1)] contents_look [OF assms(2)] assms(3)
    by (auto simp: inj_on_def)
qed

end

type_synonym ('k, 'v) omap = "('k \<times> 'v) list"

fun omap_insert :: "'k::linorder \<Rightarrow> 'v \<Rightarrow> ('k, 'v) omap \<Rightarrow> ('k, 'v) omap" where
  "omap_insert k v [] = [(k, v)]"
| "omap_insert k v ((k', v') # m) =
     (if k < k' then (k, v) # (k', v') # m
      else if k = k' then (k, v) # m
      else (k', v') # omap_insert k v m)"

definition omap_erase :: "'k \<Rightarrow> ('k, 'v) omap \<Rightarrow> ('k, 'v) omap" where
  "omap_erase k m = filter (\<lambda>p. fst p \<noteq> k) m"

definition omap_wf :: "('k::linorder, 'v) omap \<Rightarrow> bool" where
  "omap_wf m \<longleftrightarrow> sorted_wrt (<) (map fst m)"

lemma set_keys_omap_insert: "set (map fst (omap_insert k v m)) = insert k (set (map fst m))"
proof (induction m)
  case (Cons p m)
  then show ?case by (cases p) (simp add: insert_commute)
qed simp

lemma omap_wf_insert: "omap_wf m \<Longrightarrow> omap_wf (omap_insert k v m)"
proof (induction m)
  case Nil
  then show ?case by (simp add: omap_wf_def)
next
  case (Cons p m)
  then show ?case
    using set_keys_omap_insert [of k v m]
    by (cases p) (auto simp: omap_wf_def simp flip: set_map)
qed

lemma map_of_omap_insert:
  "omap_wf m \<Longrightarrow> map_of (omap_insert k v m) k' = (if k' = k then Some v else map_of m k')"
  by (induction m) (auto simp: omap_wf_def)

lemma map_of_omap_insert_any [simp]: "map_of (omap_insert k v m) = (map_of m)(k \<mapsto> v)"
  by (rule ext, induction m) auto

lemma map_of_omap_erase: "map_of (omap_erase k m) k' = (if k' = k then None else map_of m k')"
  by (induction m) (auto simp: omap_erase_def)

lemma omap_wf_erase: "omap_wf m \<Longrightarrow> omap_wf (omap_erase k m)"
  by (induction m) (auto simp: omap_wf_def omap_erase_def)

lemma omap_wf_distinct: "omap_wf m \<Longrightarrow> distinct (map fst m)"
  by (auto simp: omap_wf_def strict_sorted_iff)

lemma omap_wf_Nil: "omap_wf []"
  by (simp add: omap_wf_def)

interpretation om: ordered_map "[]" omap_insert omap_erase map_of "\<lambda>m. m" omap_wf
proof unfold_locales
  fix m :: "('a, 'b) omap" and k v
  assume "omap_wf m"
  then show "(k, v) \<in> set m \<longleftrightarrow> map_of m k = Some v"
    by (simp add: omap_wf_distinct)
qed (simp_all add: map_of_omap_insert map_of_omap_erase omap_wf_insert omap_wf_erase omap_wf_Nil,
     simp add: omap_wf_def)

section \<open>Machine words\<close>

lemma unat_of_nat_u64 [word_size_simps]: "n < 2 ^ 64 \<Longrightarrow> unat (of_nat n :: u64) = n"
  by (simp add: unat_of_nat take_bit_nat_eq_self)

lemma unat_u64_less [word_size_simps]: "unat (w :: u64) < 2 ^ 64"
  using unsigned_less [of w] by simp

lemma unat_max_u64 [word_size_simps]: "unat (- 1 :: u64) = 2 ^ 64 - 1"
  by (simp add: unsigned_minus_1_eq_mask mask_eq_exp_minus_1)

lemma unat_add_u64 [word_size_simps]:
  "unat (a :: u64) + unat b < 2 ^ 64 \<Longrightarrow> unat (a + b) = unat a + unat b"
  by (simp add: unat_word_ariths)

lemma unat_sub_u64 [word_size_simps]:
  "unat (b :: u64) \<le> unat a \<Longrightarrow> unat (a - b) = unat a - unat b"
  by (simp add: unat_sub word_le_nat_alt)

lemma unat_inc_u32: "Suc (unat (c :: u32)) < 2 ^ 32 \<Longrightarrow> unat (c + 1) = Suc (unat c)"
  by (simp add: unat_word_ariths)

end
