(* ===== verification/UR_Util.thy ===== *)
theory UR_Util
  imports UR_Prelude
begin

text \<open>
  The shared utilities of source/common (ur_util.hpp, ur_util.cpp, ur_ref_count.hpp): reading and
  parsing environment variables, overflow-checked multiplication, sub-buffer flags, the helpers on
  names and numbers, and the reference counts. The process environment is a parameter
  \<open>env\<close>, the function \<open>getenv\<close> computes.
\<close>

unbundle bit_operations_syntax

section \<open>Environment variables\<close>

type_synonym environment = "string \<Rightarrow> string option"

text \<open>\<open>ur_getenv\<close> on POSIX: an empty value counts as unset.\<close>

definition ur_getenv :: "environment \<Rightarrow> string \<Rightarrow> string option" where
  "ur_getenv env name =
     (case env name of
        None \<Rightarrow> None
      | Some s \<Rightarrow> if s \<noteq> [] then Some s else None)"

definition true_strings :: "string list" where
  "true_strings = [''y'', ''yes'', ''t'', ''true'', ''1'']"

definition getenv_tobool :: "environment \<Rightarrow> string \<Rightarrow> bool \<Rightarrow> bool" where
  "getenv_tobool env name dflt =
     (case ur_getenv env name of
        Some s \<Rightarrow> to_lower s \<in> set true_strings
      | None \<Rightarrow> dflt)"

text \<open>\<open>std::stoi\<close> gives an \<open>int\<close>; the conversion to \<open>uint64_t\<close> wraps a negative value.\<close>

definition getenv_to_unsigned :: "environment \<Rightarrow> string \<Rightarrow> u64 option" where
  "getenv_to_unsigned env name =
     (case ur_getenv env name of
        None \<Rightarrow> None
      | Some s \<Rightarrow> (case stoi s of Inl _ \<Rightarrow> None | Inr v \<Rightarrow> Some (of_int v)))"

abbreviation squote :: char where "squote \<equiv> CHR 0x27"
abbreviation dquote :: char where "dquote \<equiv> CHR 0x22"
abbreviation colon :: char where "colon \<equiv> CHR '':''"
abbreviation semicolon :: char where "semicolon \<equiv> CHR '';''"
abbreviation comma :: char where "comma \<equiv> CHR '',''"

definition is_quoted :: "string \<Rightarrow> bool" where
  "is_quoted s \<longleftrightarrow>
     2 \<le> length s \<and>
     (hd s = squote \<and> last s = squote \<or> hd s = dquote \<and> last s = dquote)"

definition has_colon :: "string \<Rightarrow> bool" where
  "has_colon s \<longleftrightarrow> find_char colon s \<noteq> None"

definition has_semicolon :: "string \<Rightarrow> bool" where
  "has_semicolon s \<longleftrightarrow> find_char semicolon s \<noteq> None"

definition unquote :: "string \<Rightarrow> string" where
  "unquote s = (if is_quoted s then substr 1 (length s - 2) s else s)"

text \<open>The loop of \<open>getenv_to_vec\<close> over the values \<open>std::getline\<close> reads.\<close>

fun vec_loop :: "string list \<Rightarrow> string list \<Rightarrow> cpp_exn + string list" where
  "vec_loop values_vec [] = Inr values_vec"
| "vec_loop values_vec (value # rest) =
     (if value = [] \<or> (\<not> is_quoted value \<and> (has_colon value \<or> has_semicolon value))
      then Inl Invalid_argument
      else vec_loop (values_vec @ [unquote value]) rest)"

definition getenv_to_vec :: "environment \<Rightarrow> string \<Rightarrow> cpp_exn + string list option" where
  "getenv_to_vec env name =
     (case ur_getenv env name of
        None \<Rightarrow> Inr None
      | Some s \<Rightarrow>
          (case vec_loop [] (getline_tokens comma s) of
             Inl e \<Rightarrow> Inl e
           | Inr vs \<Rightarrow> Inr (Some vs)))"

type_synonym env_var_map = "(string, string list) omap"

text \<open>
  The inner loop of \<open>getenv_to_map\<close>: the values of one parameter, by position. It stops when no
  further comma is found and \<open>start\<close> has reached the end.
\<close>

function values_loop :: "string \<Rightarrow> nat \<Rightarrow> string list \<Rightarrow> cpp_exn + string list" where
  "values_loop values start values_vec =
     (let found = find_char_from comma start values
      in if found \<noteq> None \<or> start < length values
         then let pos = (case found of None \<Rightarrow> length values | Some q \<Rightarrow> q);
                  value = substr start (pos - start) values
              in if value = [] \<or> (has_colon value \<and> \<not> is_quoted value)
                 then Inl Invalid_argument
                 else values_loop values (pos + 1) (values_vec @ [unquote value])
         else Inr values_vec)"
  by pat_completeness auto
termination
  by (relation "measure (\<lambda>(values, start, _). Suc (length values) - start)")
    (auto simp: find_char_from_def dest!: find_char_less split: option.splits)

declare values_loop.simps [simp del]

text \<open>
  The outer loop. The duplicate check reads the key as it was written, before \<open>lower\<close> is
  applied; the insertion uses the converted key.
\<close>

fun map_loop ::
  "bool \<Rightarrow> bool \<Rightarrow> bool \<Rightarrow> env_var_map \<Rightarrow> string list \<Rightarrow> cpp_exn + env_var_map" where
  "map_loop reject_empty allow_duplicate lower m [] = Inr m"
| "map_loop reject_empty allow_duplicate lower m (key_value # rest) =
     (if reject_empty \<and> \<not> has_colon key_value then Inl Invalid_argument
      else case find_char colon key_value of
             None \<Rightarrow> Inl Invalid_argument
           | Some colon_pos \<Rightarrow>
               let key = substr 0 colon_pos key_value;
                   values = drop (colon_pos + 1) key_value
               in if key = [] \<or> (reject_empty \<and> values = [])
                     \<or> (map_of m key \<noteq> None \<and> \<not> allow_duplicate)
                  then Inl Invalid_argument
                  else let key' = (if lower then to_lower key else key)
                       in case values_loop values 0 [] of
                            Inl e \<Rightarrow> Inl e
                          | Inr vs \<Rightarrow>
                              (case map_of m key' of
                                 Some old \<Rightarrow>
                                   map_loop reject_empty allow_duplicate lower
                                     (omap_insert key' (old @ vs) m) rest
                               | None \<Rightarrow>
                                   map_loop reject_empty allow_duplicate lower
                                     (omap_insert key' vs m) rest))"

definition getenv_to_map ::
  "environment \<Rightarrow> string \<Rightarrow> bool \<Rightarrow> bool \<Rightarrow> bool \<Rightarrow> cpp_exn + env_var_map option" where
  "getenv_to_map env name reject_empty allow_duplicate lower =
     (case ur_getenv env name of
        None \<Rightarrow> Inr None
      | Some s \<Rightarrow>
          (case map_loop reject_empty allow_duplicate lower [] (getline_tokens semicolon s) of
             Inl e \<Rightarrow> Inl e
           | Inr m \<Rightarrow> Inr (Some m)))"

section \<open>Arithmetic, flags and names\<close>

text \<open>
  \<open>multiplyWithOverflowCheck\<close> has two bodies, selected by the compiler: the overflow builtins
  and, for MSVC, divisions.
\<close>

definition builtin_mul_overflow :: "u64 \<Rightarrow> u64 \<Rightarrow> bool \<times> u64" where
  "builtin_mul_overflow a b = (2 ^ 64 \<le> unat a * unat b, a * b)"

definition multiplyWithOverflowCheck :: "u64 \<Rightarrow> u64 \<Rightarrow> u64 \<Rightarrow> u64" where
  "multiplyWithOverflowCheck a b c =
     (if a = 0 \<or> b = 0 \<or> c = 0 then 0
      else let (o1, product) = builtin_mul_overflow a b
           in if o1 then - 1
              else let (o2, product') = builtin_mul_overflow product c
                   in if o2 then - 1 else product')"

definition multiplyWithOverflowCheck_msvc :: "u64 \<Rightarrow> u64 \<Rightarrow> u64 \<Rightarrow> u64" where
  "multiplyWithOverflowCheck_msvc a b c =
     (let MaxSizeTVal = - 1
      in if a = 0 \<or> b = 0 \<or> c = 0 then 0
         else if MaxSizeTVal div a < b then MaxSizeTVal
         else let product = a * b
              in if MaxSizeTVal div product < c then MaxSizeTVal
                 else product * c)"

text \<open>\<open>ur_mem_flag_t\<close>, include/unified-runtime/ur_api.h.\<close>

definition UR_MEM_FLAG_READ_WRITE :: u32 where "UR_MEM_FLAG_READ_WRITE = 1"
definition UR_MEM_FLAG_WRITE_ONLY :: u32 where "UR_MEM_FLAG_WRITE_ONLY = 2"
definition UR_MEM_FLAG_READ_ONLY :: u32 where "UR_MEM_FLAG_READ_ONLY = 4"
definition UR_MEM_FLAG_USE_HOST_POINTER :: u32 where "UR_MEM_FLAG_USE_HOST_POINTER = 8"
definition UR_MEM_FLAG_ALLOC_HOST_POINTER :: u32 where "UR_MEM_FLAG_ALLOC_HOST_POINTER = 16"
definition UR_MEM_FLAG_ALLOC_COPY_HOST_POINTER :: u32 where
  "UR_MEM_FLAG_ALLOC_COPY_HOST_POINTER = 32"

lemmas mem_flag_defs =
  UR_MEM_FLAG_READ_WRITE_def UR_MEM_FLAG_WRITE_ONLY_def UR_MEM_FLAG_READ_ONLY_def
  UR_MEM_FLAG_USE_HOST_POINTER_def UR_MEM_FLAG_ALLOC_HOST_POINTER_def
  UR_MEM_FLAG_ALLOC_COPY_HOST_POINTER_def

definition subBufferFlagsAreLegal :: "u32 \<Rightarrow> u32 \<Rightarrow> bool" where
  "subBufferFlagsAreLegal parent child =
     (if child AND (UR_MEM_FLAG_ALLOC_COPY_HOST_POINTER OR UR_MEM_FLAG_ALLOC_HOST_POINTER
                    OR UR_MEM_FLAG_USE_HOST_POINTER) \<noteq> 0 then False
      else if parent AND UR_MEM_FLAG_WRITE_ONLY \<noteq> 0
              \<and> child AND (UR_MEM_FLAG_READ_WRITE OR UR_MEM_FLAG_READ_ONLY) \<noteq> 0 then False
      else if parent AND UR_MEM_FLAG_READ_ONLY \<noteq> 0
              \<and> child AND (UR_MEM_FLAG_READ_WRITE OR UR_MEM_FLAG_WRITE_ONLY) \<noteq> 0 then False
      else True)"

definition splitMetadataName :: "string \<Rightarrow> string \<times> string" where
  "splitMetadataName metadataName =
     (case rfind_char (CHR 0x40) metadataName of
        None \<Rightarrow> (metadataName, [])
      | Some splitPos \<Rightarrow>
          (substr 0 splitPos metadataName, substr splitPos (length metadataName) metadataName))"

text \<open>\<open>std::to_string\<close> of an integer, and the loop of \<open>groupDigits\<close> over its digits.\<close>

fun nat_to_string :: "nat \<Rightarrow> string" where
  "nat_to_string n =
     (if n < 10 then [char_of (48 + n)] else nat_to_string (n div 10) @ [char_of (48 + n mod 10)])"

declare nat_to_string.simps [simp del]

definition int_to_string :: "int \<Rightarrow> string" where
  "int_to_string z =
     (if z < 0 then CHR ''-'' # nat_to_string (nat (- z)) else nat_to_string (nat z))"

fun group_loop :: "string \<Rightarrow> string" where
  "group_loop [] = []"
| "group_loop (d # ds) =
     (if ds \<noteq> [] \<and> length ds mod 3 = 0 then d # squote # group_loop ds else d # group_loop ds)"

definition groupDigits :: "int \<Rightarrow> string" where
  "groupDigits numeric =
     (let number = int_to_string numeric;
          sign = (if 0 \<le> numeric then [] else ''-'');
          digits = substr (length sign) (length number - length sign) number
      in sign @ group_loop digits)"

definition isPointerAlignedTo :: "u32 \<Rightarrow> u64 \<Rightarrow> bool" where
  "isPointerAlignedTo Alignment Ptr \<longleftrightarrow> Alignment = 0 \<or> Ptr mod ucast Alignment = 0"

fun exceptionToResult :: "cpp_exn option \<Rightarrow> ur_result" where
  "exceptionToResult None = UR_RESULT_SUCCESS"
| "exceptionToResult (Some Bad_alloc) = UR_RESULT_ERROR_OUT_OF_HOST_MEMORY"
| "exceptionToResult (Some (Throw_result r)) = r"
| "exceptionToResult (Some _) = UR_RESULT_ERROR_UNKNOWN"

section \<open>Lemmas about the parsers\<close>

text \<open>How a value is written so that the parsers read it back.\<close>

definition quote :: "string \<Rightarrow> string" where
  "quote v = dquote # v @ [dquote]"

definition spell :: "string \<Rightarrow> string" where
  "spell v = (if v = [] \<or> has_colon v \<or> has_semicolon v \<or> is_quoted v then quote v else v)"

definition spell_entry :: "string \<times> string list \<Rightarrow> string" where
  "spell_entry kv = fst kv @ colon # join_with comma (map spell (snd kv))"

lemma is_quoted_quote [simp]: "is_quoted (quote v)"
  by (simp add: is_quoted_def quote_def)

lemma unquote_quote [simp]: "unquote (quote v) = v"
  by (simp add: unquote_def) (simp add: quote_def substr_def)

lemma quote_neq_Nil [simp]: "quote v \<noteq> []"
  by (simp add: quote_def)

lemma unquote_spell [simp]: "unquote (spell v) = v"
  by (auto simp: spell_def unquote_def [of v])

lemma spell_neq_Nil [simp]: "spell v \<noteq> []"
  by (simp add: spell_def)

lemma spell_has_colon: "has_colon (spell v) \<Longrightarrow> is_quoted (spell v)"
  by (auto simp: spell_def split: if_splits)

lemma spell_has_semicolon: "has_semicolon (spell v) \<Longrightarrow> is_quoted (spell v)"
  by (auto simp: spell_def split: if_splits)

lemma spell_chars: "c \<noteq> dquote \<Longrightarrow> c \<notin> set v \<Longrightarrow> c \<notin> set (spell v)"
  by (auto simp: spell_def quote_def)

lemma vec_loop_spell: "vec_loop acc (map spell vs) = Inr (acc @ vs)"
  by (induction vs arbitrary: acc) (auto dest: spell_has_colon spell_has_semicolon)

text \<open>The positional loop of \<open>getenv_to_map\<close> reads the same values as \<open>std::getline\<close> would.\<close>

fun value_tokens :: "string list \<Rightarrow> string list \<Rightarrow> cpp_exn + string list" where
  "value_tokens values_vec [] = Inr values_vec"
| "value_tokens values_vec (value # rest) =
     (if value = [] \<or> (has_colon value \<and> \<not> is_quoted value) then Inl Invalid_argument
      else value_tokens (values_vec @ [unquote value]) rest)"

lemma values_loop_tokens:
  "values_loop vals start acc = value_tokens acc (getline_tokens comma (drop start vals))"
proof (induction vals start acc rule: values_loop.induct)
  case (1 vals start acc)
  let ?found = "find_char_from comma start vals"
  show ?case
  proof (cases "?found \<noteq> None \<or> start < length vals")
    case False
    then show ?thesis by (simp add: values_loop.simps [of vals start acc] Let_def)
  next
    case True
    then have ne: "drop start vals \<noteq> []"
      by (auto simp: find_char_from_def)
    show ?thesis
    proof (cases "find_char comma (drop start vals)")
      case None
      then have "?found = None" by (simp add: find_char_from_def)
      with True ne None "1" show ?thesis
        by (simp add: values_loop.simps [of vals start acc] getline_tokens.simps [of comma "drop start vals"]
            substr_def Let_def)
    next
      case (Some p)
      then have "?found = Some (start + p)" by (simp add: find_char_from_def)
      with True ne Some "1" show ?thesis
        by (simp add: values_loop.simps [of vals start acc] getline_tokens.simps [of comma "drop start vals"]
            substr_def Let_def add.commute)
    qed
  qed
qed

lemma value_tokens_spell: "value_tokens acc (map spell vs) = Inr (acc @ vs)"
  by (induction vs arbitrary: acc) (auto dest: spell_has_colon)

lemma value_tokens_length:
  "value_tokens acc ts = Inr vs \<Longrightarrow> length vs = length acc + length ts"
  by (induction acc ts rule: value_tokens.induct) (auto split: if_splits)

lemma values_loop_spell:
  assumes "\<And>v. v \<in> set vs \<Longrightarrow> comma \<notin> set v" and "vs \<noteq> []"
  shows "values_loop (join_with comma (map spell vs)) 0 [] = Inr vs"
proof -
  have "getline_tokens comma (join_with comma (map spell vs)) = map spell vs"
    using assms by (intro getline_tokens_join) (auto simp: spell_chars last_map)
  then show ?thesis by (simp add: values_loop_tokens value_tokens_spell)
qed

lemma getline_tokens_neq_Nil: "s \<noteq> [] \<Longrightarrow> getline_tokens d s \<noteq> []"
  by (simp add: getline_tokens.simps [of d s] split: option.splits)

lemma values_loop_nonempty: "values_loop values 0 [] = Inr vs \<Longrightarrow> values \<noteq> [] \<Longrightarrow> vs \<noteq> []"
  by (auto simp: values_loop_tokens dest!: value_tokens_length getline_tokens_neq_Nil [of _ comma])

lemma set_value_tokens:
  "value_tokens acc ts = Inr vs \<Longrightarrow> v \<in> set vs \<Longrightarrow> v \<in> set acc \<or> (\<exists>t\<in>set ts. v = unquote t)"
  by (induction acc ts rule: value_tokens.induct) (fastforce split: if_splits)+

lemma unquote_chars: "c \<notin> set t \<Longrightarrow> c \<notin> set (unquote t)"
  by (auto simp: unquote_def substr_def dest: in_set_takeD in_set_dropD)

lemma values_loop_no_comma: "values_loop values 0 [] = Inr vs \<Longrightarrow> v \<in> set vs \<Longrightarrow> comma \<notin> set v"
  by (auto simp: values_loop_tokens dest!: set_value_tokens dest: getline_tokens_no_delim unquote_chars)

text \<open>What every map a parser returns satisfies.\<close>

definition env_map_ok :: "bool \<Rightarrow> bool \<Rightarrow> env_var_map \<Rightarrow> bool" where
  "env_map_ok reject_empty lower m \<longleftrightarrow>
     omap_wf m \<and>
     (\<forall>(k, vs) \<in> set m.
        k \<noteq> [] \<and> colon \<notin> set k \<and> (lower \<longrightarrow> to_lower k = k) \<and>
        (reject_empty \<longrightarrow> vs \<noteq> []) \<and> (\<forall>v \<in> set vs. comma \<notin> set v))"

lemma tolower_eq_colon: "tolower c = colon \<Longrightarrow> c = colon"
proof -
  assume eq: "tolower c = colon"
  show "c = colon"
  proof (cases "65 \<le> (of_char c :: nat) \<and> (of_char c :: nat) \<le> 90")
    case True
    from eq have "(of_char (tolower c) :: nat) = of_char colon" by simp
    with True show ?thesis by (simp add: tolower_def)
  next
    case False
    with eq show ?thesis by (auto simp: tolower_def)
  qed
qed

lemma to_lower_no_colon: "colon \<notin> set s \<Longrightarrow> colon \<notin> set (to_lower s)"
  by (auto simp: to_lower_def dest!: tolower_eq_colon [OF sym])

lemma env_map_ok_insert:
  assumes "env_map_ok re lo m" and "k \<noteq> []" and "colon \<notin> set k" and "lo \<Longrightarrow> to_lower k = k"
    and "re \<Longrightarrow> vs \<noteq> []" and "\<And>v. v \<in> set vs \<Longrightarrow> comma \<notin> set v"
  shows "env_map_ok re lo (omap_insert k vs m)"
proof -
  have wf: "omap_wf m" and wf': "omap_wf (omap_insert k vs m)"
    using assms(1) by (auto simp: env_map_ok_def intro: omap_wf_insert)
  have "(a, b) \<in> set (omap_insert k vs m) \<Longrightarrow> (a, b) = (k, vs) \<or> (a, b) \<in> set m" for a b
    using wf wf' by (auto simp: om.contents_look map_of_omap_insert split: if_splits)
  then show ?thesis
    using assms wf' by (fastforce simp: env_map_ok_def)
qed

lemma map_loop_ok:
  assumes "env_map_ok re lo m" and "map_loop re ad lo m kvs = Inr m'"
  shows "env_map_ok re lo m'"
  using assms
proof (induction kvs arbitrary: m)
  case Nil
  then show ?case by simp
next
  case (Cons kv kvs)
  from Cons.prems(2) obtain p where p: "find_char colon kv = Some p"
    by (auto split: if_splits option.splits)
  define key where "key = substr 0 p kv"
  define key' where "key' = (if lo then to_lower key else key)"
  define vals where "vals = drop (p + 1) kv"
  from Cons.prems(2) p obtain vs where key: "key \<noteq> []" and ne: "re \<Longrightarrow> vals \<noteq> []"
    and vs: "values_loop vals 0 [] = Inr vs"
    by (auto simp: key_def vals_def Let_def split: if_splits sum.splits option.splits)
  have "colon \<notin> set key"
    using find_char_take [OF p] by (simp add: key_def substr_def)
  with key have key': "key' \<noteq> []" "colon \<notin> set key'" "lo \<Longrightarrow> to_lower key' = key'"
    by (auto simp: key'_def to_lower_no_colon) (simp add: to_lower_def)
  have vs_ok: "re \<Longrightarrow> vs \<noteq> []" "\<And>v. v \<in> set vs \<Longrightarrow> comma \<notin> set v"
    using values_loop_nonempty [OF vs] values_loop_no_comma [OF vs] ne by auto
  have old_ok: "map_of m key' = Some old \<Longrightarrow> v \<in> set old \<Longrightarrow> comma \<notin> set v" for old v
    using Cons.prems(1) by (fastforce simp: env_map_ok_def dest: map_of_SomeD)
  from Cons.prems(2) p vs obtain vs' where
    step: "map_loop re ad lo (omap_insert key' vs' m) kvs = Inr m'"
    and vs': "vs' = (case map_of m key' of Some old \<Rightarrow> old @ vs | None \<Rightarrow> vs)"
    by (auto simp: key_def key'_def vals_def Let_def split: if_splits option.splits)
  have "env_map_ok re lo (omap_insert key' vs' m)"
    using Cons.prems(1) key' vs_ok old_ok
    by (intro env_map_ok_insert) (auto simp: vs' split: option.splits)
  from Cons.IH [OF this step] show ?case .
qed

section \<open>Properties of the utilities\<close>

text \<open>
  \<open>getenv_to_vec\<close> reads back any nonempty list of values that was written comma-separated,
  with a value quoted when it is empty, holds a colon or a semicolon, or is itself quoted.
\<close>

theorem getenv_to_vec_roundtrip:
  assumes "vs \<noteq> []" and "\<forall>v \<in> set vs. comma \<notin> set v"
    and "env name = Some (join_with comma (map spell vs))"
  shows "getenv_to_vec env name = Inr (Some vs)"
proof -
  have "getline_tokens comma (join_with comma (map spell vs)) = map spell vs"
    using assms(1,2) by (intro getline_tokens_join) (auto simp: spell_chars last_map)
  moreover have "join_with comma (map spell vs) \<noteq> []"
    using assms(1) by (intro join_with_neq_Nil) auto
  ultimately show ?thesis
    by (simp add: getenv_to_vec_def ur_getenv_def assms(3) vec_loop_spell)
qed

theorem getenv_to_vec_roundtrip_witness:
  "getenv_to_vec [''UR_ADAPTERS_SEARCH_PATH'' \<mapsto> ''/opt/ur,\"C:;\",\"\"''] ''UR_ADAPTERS_SEARCH_PATH''
     = Inr (Some [''/opt/ur'', ''C:;'', ''''])"
proof -
  have "join_with comma (map spell [''/opt/ur'', ''C:;'', '''']) = ''/opt/ur,\"C:;\",\"\"''"
    by code_simp
  then show ?thesis
    using getenv_to_vec_roundtrip [of "[''/opt/ur'', ''C:;'', '''']"
        "[''UR_ADAPTERS_SEARCH_PATH'' \<mapsto> ''/opt/ur,\"C:;\",\"\"'']" "''UR_ADAPTERS_SEARCH_PATH''"]
    by simp
qed

lemma map_loop_spell:
  assumes "omap_wf m" and "distinct (map fst kvs)" and "\<forall>kv \<in> set kvs. map_of m (fst kv) = None"
    and "\<forall>(k, vs) \<in> set kvs. k \<noteq> [] \<and> colon \<notin> set k \<and> vs \<noteq> [] \<and> (\<forall>v \<in> set vs. comma \<notin> set v)"
  shows "map_loop re ad False m (map spell_entry kvs) =
           Inr (fold (\<lambda>(k, v). omap_insert k v) kvs m)"
  using assms
proof (induction kvs arbitrary: m)
  case Nil
  then show ?case by simp
next
  case (Cons kv kvs)
  obtain k vs where kv: "kv = (k, vs)" by (cases kv)
  let ?vals = "join_with comma (map spell vs)"
  from Cons.prems kv have ok: "k \<noteq> []" "colon \<notin> set k" "vs \<noteq> []" "\<And>v. v \<in> set vs \<Longrightarrow> comma \<notin> set v"
    and new: "map_of m k = None" by auto
  have entry: "find_char colon (spell_entry kv) = Some (length k)"
    using ok by (simp add: kv spell_entry_def find_char_append)
  have "?vals \<noteq> []"
    using ok(3) by (intro join_with_neq_Nil) auto
  moreover have "values_loop ?vals 0 [] = Inr vs"
    using ok by (intro values_loop_spell) auto
  moreover have "\<forall>kv \<in> set kvs. map_of (omap_insert k vs m) (fst kv) = None"
    using Cons.prems kv by (auto simp: map_of_omap_insert image_iff)
  ultimately show ?case
    using Cons.prems kv entry new ok Cons.IH [of "omap_insert k vs m"]
    by (auto simp: has_colon_def Let_def substr_def spell_entry_def omap_wf_insert)
qed

text \<open>
  \<open>getenv_to_map\<close> reads back any nonempty parameter map written as
  \<open>key:value,value;key:value\<close>: the result is well formed and maps exactly the given keys to
  exactly the given value lists, whatever \<open>reject_empty\<close> and \<open>allow_duplicate\<close> say.
\<close>

theorem getenv_to_map_roundtrip:
  assumes "kvs \<noteq> []" and "distinct (map fst kvs)"
    and "\<forall>(k, vs) \<in> set kvs. k \<noteq> [] \<and> colon \<notin> set k \<and> semicolon \<notin> set k \<and> vs \<noteq> []
           \<and> (\<forall>v \<in> set vs. comma \<notin> set v \<and> semicolon \<notin> set v)"
    and "env name = Some (join_with semicolon (map spell_entry kvs))"
  shows "\<exists>m. getenv_to_map env name reject_empty allow_duplicate False = Inr (Some m)
           \<and> omap_wf m \<and> map_of m = map_of kvs"
proof -
  let ?m = "fold (\<lambda>(k, v). omap_insert k v) kvs []"
  have no_semi: "semicolon \<notin> set (spell_entry kv)" if "kv \<in> set kvs" for kv
  proof (cases kv)
    case (Pair k vs)
    with that assms(3) have "semicolon \<notin> set k" "\<And>v. v \<in> set vs \<Longrightarrow> semicolon \<notin> set v"
      by auto
    moreover from this have "semicolon \<notin> set (join_with comma (map spell vs))"
      by (intro join_with_no) (auto dest: spell_chars [rotated])
    ultimately show ?thesis by (simp add: Pair spell_entry_def)
  qed
  have ne: "spell_entry kv \<noteq> []" for kv
    by (simp add: spell_entry_def)
  have toks: "getline_tokens semicolon (join_with semicolon (map spell_entry kvs)) = map spell_entry kvs"
    using assms(1) no_semi ne by (intro getline_tokens_join) (auto simp: last_map)
  have "map_loop reject_empty allow_duplicate False [] (map spell_entry kvs) = Inr ?m"
    using assms(2,3) by (intro map_loop_spell) (auto simp: omap_wf_Nil)
  moreover have "join_with semicolon (map spell_entry kvs) \<noteq> []"
    using assms(1) ne by (intro join_with_neq_Nil) auto
  moreover have "omap_wf ?m"
    by (rule om.wf_ins_all) (rule omap_wf_Nil)
  moreover have "map_of ?m = map_of kvs"
    using om.look_ins_all [OF omap_wf_Nil assms(2)] by (auto simp: fun_eq_iff split: option.splits)
  ultimately show ?thesis
    by (simp add: getenv_to_map_def ur_getenv_def assms(4) toks)
qed

theorem getenv_to_map_roundtrip_witness:
  "\<exists>m. getenv_to_map [''UR_LOG_LOADER'' \<mapsto> ''level:debug;output:file,\"C:a\"''] ''UR_LOG_LOADER'' True False False
         = Inr (Some m)
       \<and> omap_wf m
       \<and> map_of m = map_of [(''level'', [''debug'']), (''output'', [''file'', ''C:a''])]"
proof -
  have "join_with semicolon (map spell_entry [(''level'', [''debug'']), (''output'', [''file'', ''C:a''])])
      = ''level:debug;output:file,\"C:a\"''"
    by code_simp
  then show ?thesis
    by (intro getenv_to_map_roundtrip) simp_all
qed

text \<open>
  C39: Whatever the variable holds, a map that \<open>getenv_to_map\<close> returns is sorted with distinct
  keys; no key is empty or holds a colon, keys are lower case when \<open>lower\<close> is set, no value holds
  a comma, and under \<open>reject_empty\<close> every parameter has a non-empty list of values. Callers that take
  \<open>second.front()\<close> without a check rest on the last part. A value of the list may be the empty
  string: a pair of quotes passes the check and is then stripped (\<open>quoted_empty_value_accepted\<close>).
\<close>

theorem getenv_to_map_sound:
  assumes "getenv_to_map env name reject_empty allow_duplicate lower = Inr (Some m)"
  shows "env_map_ok reject_empty lower m"
proof -
  from assms obtain s where "map_loop reject_empty allow_duplicate lower [] (getline_tokens semicolon s) = Inr m"
    by (auto simp: getenv_to_map_def split: option.splits sum.splits)
  moreover have "env_map_ok reject_empty lower []"
    by (simp add: env_map_ok_def omap_wf_Nil)
  ultimately show ?thesis using map_loop_ok by blast
qed

theorem getenv_to_map_sound_witness:
  "\<exists>m. getenv_to_map [''UR_LAYER_ASAN_OPTIONS'' \<mapsto> ''redzone:32;debug:1''] ''UR_LAYER_ASAN_OPTIONS'' True False False
      = Inr (Some m) \<and> env_map_ok True False m \<and> m = [(''debug'', [''1'']), (''redzone'', [''32''])]"
proof -
  have call: "getenv_to_map [''UR_LAYER_ASAN_OPTIONS'' \<mapsto> ''redzone:32;debug:1''] ''UR_LAYER_ASAN_OPTIONS'' True False False
      = Inr (Some [(''debug'', [''1'']), (''redzone'', [''32''])])"
    by code_simp
  from call getenv_to_map_sound [OF call] show ?thesis by blast
qed

text \<open>The value of the documentation's \<open>reject_empty\<close> is checked before the quotes are removed.\<close>

theorem quoted_empty_value_accepted:
  "getenv_to_map [''UR_LOG_LOADER'' \<mapsto> ''level:\"\"''] ''UR_LOG_LOADER'' True False False = Inr (Some [(''level'', [[]])])"
  by code_simp

text \<open>
  \<open>multiplyWithOverflowCheck\<close> is multiplication saturated at the largest \<open>size_t\<close>, for
  every argument.
\<close>

theorem multiplyWithOverflowCheck_saturates:
  "unat (multiplyWithOverflowCheck a b c) = min (unat a * unat b * unat c) size_max"
proof (cases "a = 0 \<or> b = 0 \<or> c = 0")
  case True
  then show ?thesis by (auto simp: multiplyWithOverflowCheck_def)
next
  case False
  then have pos: "0 < unat a" "0 < unat b" "0 < unat c"
    by (auto simp: unat_gt_0)
  show ?thesis
  proof (cases "unat a * unat b < 2 ^ 64")
    case True
    then have ab: "unat (a * b) = unat a * unat b"
      by (simp add: unat_word_ariths)
    show ?thesis
    proof (cases "unat a * unat b * unat c < 2 ^ 64")
      case True
      with False \<open>unat a * unat b < 2 ^ 64\<close> ab show ?thesis
        by (simp add: multiplyWithOverflowCheck_def builtin_mul_overflow_def size_max_def
            unat_word_ariths(2) [of "a * b" c])
    next
      case no: False
      with False \<open>unat a * unat b < 2 ^ 64\<close> ab show ?thesis
        by (simp add: multiplyWithOverflowCheck_def builtin_mul_overflow_def size_max_def unat_max_u64)
    qed
  next
    case no: False
    then have "2 ^ 64 \<le> unat a * unat b" by simp
    also have "\<dots> \<le> unat a * unat b * unat c" using pos(3) by simp
    finally have "min (unat a * unat b * unat c) size_max = size_max"
      by (simp add: size_max_def)
    with no False show ?thesis
      by (simp add: multiplyWithOverflowCheck_def builtin_mul_overflow_def size_max_def unat_max_u64)
  qed
qed

lemma max_div_less_iff: "a \<noteq> 0 \<Longrightarrow> (- 1 :: u64) div a < b \<longleftrightarrow> 2 ^ 64 \<le> unat a * unat b"
proof -
  assume "a \<noteq> 0"
  then have "0 < unat a" by (simp add: unat_gt_0)
  then have "(2 ^ 64 - 1) div unat a < unat b \<longleftrightarrow> 2 ^ 64 - 1 < unat b * unat a"
    by (rule div_less_iff_less_mult)
  then show ?thesis
    by (auto simp: word_less_nat_alt unat_div_distrib unat_max_u64 mult.commute)
qed

text \<open>
  The two bodies of \<open>multiplyWithOverflowCheck\<close>, the one with overflow builtins and the one
  with divisions for MSVC, compute the same value for every argument.
\<close>

theorem multiplyWithOverflowCheck_bodies_agree:
  "multiplyWithOverflowCheck_msvc a b c = multiplyWithOverflowCheck a b c"
proof (cases "a = 0 \<or> b = 0 \<or> c = 0")
  case True
  then show ?thesis
    by (auto simp: multiplyWithOverflowCheck_def multiplyWithOverflowCheck_msvc_def)
next
  case False
  then have pos: "0 < unat a * unat b" by (simp add: unat_gt_0)
  show ?thesis
  proof (cases "2 ^ 64 \<le> unat a * unat b")
    case True
    with False show ?thesis
      by (simp add: multiplyWithOverflowCheck_def multiplyWithOverflowCheck_msvc_def
          builtin_mul_overflow_def max_div_less_iff)
  next
    case no: False
    then have "unat (a * b) = unat a * unat b" by (simp add: unat_word_ariths)
    with pos have "a * b \<noteq> 0" by (metis less_irrefl unat_0)
    with False no show ?thesis
      by (simp add: multiplyWithOverflowCheck_def multiplyWithOverflowCheck_msvc_def
          builtin_mul_overflow_def max_div_less_iff Let_def)
  qed
qed

lemma rfind_char_Some:
  assumes "rfind_char c s = Some p"
  shows "p < length s" and "s ! p = c" and "c \<notin> set (drop (Suc p) s)"
proof -
  from assms obtain i where i: "find_char c (rev s) = Some i" "p = length s - 1 - i"
    by (auto simp: rfind_char_def)
  from find_char_less [OF i(1)] have lt: "i < length s" by simp
  with i(2) show "p < length s" by simp
  show "s ! p = c"
    using find_char_nth [OF i(1)] lt i(2) by (simp add: rev_nth)
  have "Suc p = length s - i"
    using lt i(2) by simp
  then have "take i (rev s) = rev (drop (Suc p) s)"
    by (simp add: take_rev)
  with find_char_take [OF i(1)] show "c \<notin> set (drop (Suc p) s)" by simp
qed

text \<open>
  \<open>splitMetadataName\<close> loses nothing: the two parts concatenate to the name, the second part
  is empty or starts with the last at-sign of the name, and it is empty exactly when the name has
  none.
\<close>

theorem splitMetadataName_correct:
  "fst (splitMetadataName s) @ snd (splitMetadataName s) = s
   \<and> (snd (splitMetadataName s) = [] \<longleftrightarrow> CHR 0x40 \<notin> set s)
   \<and> CHR 0x40 \<notin> set (tl (snd (splitMetadataName s)))"
proof (cases "rfind_char (CHR 0x40) s")
  case None
  then have "CHR 0x40 \<notin> set s"
    by (simp add: rfind_char_def find_char_None)
  with None show ?thesis
    by (simp add: splitMetadataName_def)
next
  case (Some p)
  note p = rfind_char_Some [OF Some]
  then have "CHR 0x40 \<in> set s" by (metis nth_mem)
  with Some p show ?thesis
    by (simp add: splitMetadataName_def substr_def tl_drop drop_Suc)
qed

lemma group_loop_filter: "squote \<notin> set ds \<Longrightarrow> filter (\<lambda>c. c \<noteq> squote) (group_loop ds) = ds"
  by (induction ds rule: group_loop.induct) auto

lemma nat_to_string_digits: "c \<in> set (nat_to_string n) \<Longrightarrow> isdigit c"
proof (induction n rule: nat_to_string.induct)
  case (1 n)
  show ?case
  proof (cases "n < 10")
    case True
    with "1.prems" show ?thesis
      by (subst (asm) nat_to_string.simps) (auto simp: isdigit_def)
  next
    case False
    with "1" show ?thesis
      by (subst (asm) nat_to_string.simps) (auto simp: isdigit_def)
  qed
qed

lemma squote_not_digit: "squote \<notin> set (nat_to_string n)"
  using nat_to_string_digits [of squote n] by (auto simp: isdigit_def)

text \<open>
  \<open>groupDigits\<close> only adds separators: taking them out of its result gives the decimal text
  of the number, sign included.
\<close>

theorem groupDigits_digits: "filter (\<lambda>c. c \<noteq> squote) (groupDigits n) = int_to_string n"
  using group_loop_filter [OF squote_not_digit]
  by (auto simp: groupDigits_def int_to_string_def substr_def Let_def)

end
