(* ===== verification/UR_RefCount.thy ===== *)
theory UR_RefCount
  imports UR_Util
begin

text \<open>
  Reference counts: \<open>ur::RefCount\<close> (source/common/ur_ref_count.hpp), \<open>Rc\<close> and
  \<open>AtomicSingleton\<close> (source/common/ur_util.hpp). The interface they share is the locale
  \<open>refcounted\<close>; every counter of the library interprets it, so that the destruction law is
  proved once. Each atomic operation, and each critical section of the spinlock, is one step.
\<close>

section \<open>The interface\<close>

datatype rc_op = Retain | Release

text \<open>A history of calls on one object, with what each \<open>release\<close> reports.\<close>

fun rc_run :: "('s \<Rightarrow> 's) \<Rightarrow> ('s \<Rightarrow> bool \<times> 's) \<Rightarrow> 's \<Rightarrow> rc_op list \<Rightarrow> bool list \<times> 's" where
  "rc_run ret rel s [] = ([], s)"
| "rc_run ret rel s (Retain # ops) = rc_run ret rel (ret s) ops"
| "rc_run ret rel s (Release # ops) =
     (let (d, s') = rel s; (ds, s'') = rc_run ret rel s' ops in (d # ds, s''))"

text \<open>
  A legal history never touches an object whose count has reached zero and never retains it past
  \<open>limit\<close>; \<open>rc_balance\<close> is the count it leaves.
\<close>

fun rc_legal :: "nat \<Rightarrow> nat \<Rightarrow> rc_op list \<Rightarrow> bool" where
  "rc_legal limit n [] = True"
| "rc_legal limit n (Retain # ops) = (0 < n \<and> Suc n < limit \<and> rc_legal limit (Suc n) ops)"
| "rc_legal limit n (Release # ops) = (0 < n \<and> rc_legal limit (n - 1) ops)"

fun rc_balance :: "nat \<Rightarrow> rc_op list \<Rightarrow> nat" where
  "rc_balance n [] = n"
| "rc_balance n (Retain # ops) = rc_balance (Suc n) ops"
| "rc_balance n (Release # ops) = rc_balance (n - 1) ops"

locale refcounted =
  fixes count :: "'s \<Rightarrow> nat"
    and retain :: "'s \<Rightarrow> 's"
    and release :: "'s \<Rightarrow> bool \<times> 's"
    and limit :: nat
  assumes count_retain: "0 < count s \<Longrightarrow> Suc (count s) < limit \<Longrightarrow> count (retain s) = Suc (count s)"
    and count_release: "0 < count s \<Longrightarrow> count (snd (release s)) = count s - 1"
    and release_reports: "0 < count s \<Longrightarrow> fst (release s) \<longleftrightarrow> count s = 1"
begin

lemma run_count:
  "rc_legal limit (count s) ops \<Longrightarrow>
     count (snd (rc_run retain release s ops)) = rc_balance (count s) ops"
proof (induction ops arbitrary: s)
  case Nil
  then show ?case by simp
next
  case (Cons op ops)
  then show ?case
    by (cases op) (auto simp: count_retain count_release case_prod_beta Let_def)
qed

lemma legal_zero: "rc_legal lim 0 ops \<Longrightarrow> ops = []"
  by (cases ops; cases "hd ops") auto

text \<open>Exactly one \<open>release\<close> of a legal history reports the last reference, and it is the last call.\<close>

lemma run_destroys_once:
  "rc_legal limit (count s) ops \<Longrightarrow>
     length (filter (\<lambda>d. d) (fst (rc_run retain release s ops))) =
       (if ops \<noteq> [] \<and> rc_balance (count s) ops = 0 then 1 else 0)"
proof (induction ops arbitrary: s)
  case Nil
  then show ?case by simp
next
  case (Cons op ops)
  show ?case
  proof (cases op)
    case Retain
    with Cons show ?thesis
      by (cases ops) (auto simp: count_retain)
  next
    case Release
    with Cons.prems have pos: "0 < count s"
      and legal: "rc_legal limit (count (snd (release s))) ops"
      by (auto simp: count_release)
    show ?thesis
    proof (cases "count s = 1")
      case True
      with legal pos have "ops = []"
        using legal_zero by (simp add: count_release)
      with True Release pos show ?thesis
        by (simp add: release_reports case_prod_beta Let_def)
    next
      case False
      with Cons.IH [OF legal] Release pos show ?thesis
        by (cases ops) (auto simp: release_reports count_release case_prod_beta Let_def)
    qed
  qed
qed

end

section \<open>\<open>ur::RefCount\<close>\<close>

record ref_count = Count :: u32

definition rc_getCount :: "ref_count \<Rightarrow> u32" where
  "rc_getCount r = Count r"

definition rc_retain :: "ref_count \<Rightarrow> u32 \<times> ref_count" where
  "rc_retain r = (let c = Count r + 1 in (c, r\<lparr>Count := c\<rparr>))"

definition rc_release :: "ref_count \<Rightarrow> bool \<times> ref_count" where
  "rc_release r = (let c = Count r - 1 in (c = 0, r\<lparr>Count := c\<rparr>))"

definition rc_reset :: "u32 \<Rightarrow> ref_count \<Rightarrow> ref_count" where
  "rc_reset v r = r\<lparr>Count := v\<rparr>"

lemma unat_dec_u32: "0 < unat (c :: u32) \<Longrightarrow> unat (c - 1) = unat c - 1"
  by (simp add: unat_minus_one unat_gt_0)

lemma dec_eq_0_u32: "0 < unat (c :: u32) \<Longrightarrow> c - 1 = 0 \<longleftrightarrow> unat c = 1"
  by (metis eq_iff_diff_eq_0 unat_1 word_unat_eq_iff)

interpretation ur_rc: refcounted "\<lambda>r. unat (Count r)" "\<lambda>r. snd (rc_retain r)" rc_release "2 ^ 32"
proof unfold_locales
  fix r :: ref_count
  show "Suc (unat (Count r)) < 2 ^ 32 \<Longrightarrow> unat (Count (snd (rc_retain r))) = Suc (unat (Count r))"
    using unat_inc_u32 [of "Count r"] by (simp add: rc_retain_def Let_def)
  show "0 < unat (Count r) \<Longrightarrow> unat (Count (snd (rc_release r))) = unat (Count r) - 1"
    using unat_dec_u32 [of "Count r"] by (simp add: rc_release_def Let_def)
  show "0 < unat (Count r) \<Longrightarrow> fst (rc_release r) = (unat (Count r) = 1)"
    using dec_eq_0_u32 [of "Count r"] by (simp add: rc_release_def Let_def)
qed

text \<open>
  C40: An object guarded by \<open>ur::RefCount\<close> is destroyed exactly once: in every history of
  retains and releases that uses it only while it is alive and below the 32-bit limit, exactly one
  \<open>release\<close> returns true if the count ends at zero, and none otherwise.
\<close>

theorem RefCount_destroys_once:
  assumes "rc_legal (2 ^ 32) (unat (Count r)) ops" and "ops \<noteq> []"
  shows "length (filter (\<lambda>d. d) (fst (rc_run (\<lambda>r. snd (rc_retain r)) rc_release r ops))) =
           (if rc_balance (unat (Count r)) ops = 0 then 1 else 0)"
  using ur_rc.run_destroys_once [OF assms(1)] assms(2) by simp

theorem RefCount_destroys_once_witness:
  "length (filter (\<lambda>d. d) (fst (rc_run (\<lambda>r. snd (rc_retain r)) rc_release
       \<lparr>Count = 1\<rparr> [Retain, Release, Retain, Release, Release]))) = 1"
  using RefCount_destroys_once [of "\<lparr>Count = 1\<rparr>" "[Retain, Release, Retain, Release, Release]"]
  by simp

section \<open>\<open>Rc\<close> and \<open>AtomicSingleton\<close>\<close>

text \<open>
  \<open>new T()\<close> is the argument \<open>fresh\<close>. \<open>rcp_release\<close> returns the code, the pointers the deleter is
  called with, and the new state.
\<close>

record 'a rc_ptr =
  ptr :: "'a option"
  refcount :: u64

definition rcp_get_or_create :: "'a \<Rightarrow> bool \<Rightarrow> 'a rc_ptr \<Rightarrow> 'a \<times> 'a rc_ptr" where
  "rcp_get_or_create fresh counted r =
     (let r1 = (if counted then r\<lparr>refcount := refcount r + 1\<rparr> else r)
      in case ptr r1 of
           None \<Rightarrow> (fresh, r1\<lparr>ptr := Some fresh\<rparr>)
         | Some p \<Rightarrow> (p, r1))"

definition rcp_release :: "'a rc_ptr \<Rightarrow> int \<times> 'a option list \<times> 'a rc_ptr" where
  "rcp_release r =
     (if refcount r \<le> 0 then (- 1, [], r)
      else let r1 = r\<lparr>refcount := refcount r - 1\<rparr>
           in if refcount r1 = 0 then (0, [ptr r1], r1\<lparr>ptr := None\<rparr>) else (0, [], r1))"

definition rcp_forceDelete :: "'a rc_ptr \<Rightarrow> 'a rc_ptr" where
  "rcp_forceDelete r = r\<lparr>refcount := 0, ptr := None\<rparr>"

definition singleton_get :: "'a \<Rightarrow> 'a rc_ptr \<Rightarrow> 'a \<times> 'a rc_ptr" where
  "singleton_get fresh r = rcp_get_or_create fresh True r"

definition singleton_get_direct :: "'a \<Rightarrow> 'a rc_ptr \<Rightarrow> 'a \<times> 'a rc_ptr" where
  "singleton_get_direct fresh r =
     (case ptr r of
        Some p \<Rightarrow> (p, r)
      | None \<Rightarrow> rcp_get_or_create fresh False r)"

definition singleton_release :: "'a rc_ptr \<Rightarrow> int \<times> 'a option list \<times> 'a rc_ptr" where
  "singleton_release r = rcp_release r"

definition singleton_init :: "'a rc_ptr" where
  "singleton_init = \<lparr>ptr = None, refcount = 0\<rparr>"

inductive singleton_step :: "'a rc_ptr \<Rightarrow> 'a rc_ptr \<Rightarrow> bool" where
  step_get: "singleton_step r (snd (singleton_get fresh r))"
| step_get_direct: "singleton_step r (snd (singleton_get_direct fresh r))"
| step_release: "singleton_step r (snd (snd (singleton_release r)))"
| step_force: "singleton_step r (rcp_forceDelete r)"

inductive singleton_reachable :: "'a rc_ptr \<Rightarrow> bool" where
  reach_init: "singleton_reachable singleton_init"
| reach_step: "singleton_reachable r \<Longrightarrow> singleton_step r r' \<Longrightarrow> singleton_reachable r'"

definition singleton_inv :: "'a rc_ptr \<Rightarrow> bool" where
  "singleton_inv r \<longleftrightarrow> (refcount r \<noteq> 0 \<longrightarrow> ptr r \<noteq> None)"

lemmas singleton_defs =
  singleton_get_def singleton_get_direct_def singleton_release_def rcp_get_or_create_def
  rcp_release_def rcp_forceDelete_def singleton_init_def singleton_inv_def

inductive_cases singleton_stepE: "singleton_step r r'"

lemma singleton_step_inv: "singleton_step r r' \<Longrightarrow> singleton_inv r \<Longrightarrow> singleton_inv r'"
  by (erule singleton_stepE) (auto simp: singleton_defs Let_def split: option.splits)

lemma singleton_reachable_inv: "singleton_reachable r \<Longrightarrow> singleton_inv r"
proof (induction rule: singleton_reachable.induct)
  case reach_init
  show ?case by (simp add: singleton_defs)
next
  case (reach_step r r')
  then show ?case by (blast intro: singleton_step_inv)
qed

text \<open>
  In every state the process-wide singleton can reach, \<open>release\<close> fails with -1 exactly when
  no reference is held and then changes nothing; otherwise it returns 0 and calls the deleter at
  most once, on a live object, exactly when it drops the last reference.
\<close>

theorem AtomicSingleton_release_safe:
  assumes "singleton_reachable r"
  shows "(refcount r = 0 \<longrightarrow> singleton_release r = (- 1, [], r))
       \<and> (refcount r \<noteq> 0 \<longrightarrow> fst (singleton_release r) = 0)
       \<and> (refcount r = 1 \<longrightarrow> (\<exists>obj. fst (snd (singleton_release r)) = [Some obj] \<and> ptr r = Some obj))
       \<and> (refcount r \<noteq> 1 \<longrightarrow> fst (snd (singleton_release r)) = [])"
  using singleton_reachable_inv [OF assms] by (auto simp: singleton_defs Let_def)

theorem AtomicSingleton_release_safe_witness:
  "fst (snd (singleton_release \<lparr>ptr = Some (7 :: nat), refcount = 1\<rparr>)) = [Some 7]"
proof -
  have eq: "snd (singleton_get 7 singleton_init) = \<lparr>ptr = Some (7 :: nat), refcount = 1\<rparr>"
    by (simp add: singleton_defs)
  have "singleton_reachable (snd (singleton_get (7 :: nat) singleton_init))"
    by (rule singleton_reachable.reach_step [OF singleton_reachable.reach_init singleton_step.step_get])
  then have "singleton_reachable \<lparr>ptr = Some (7 :: nat), refcount = 1\<rparr>"
    by (simp only: eq)
  from AtomicSingleton_release_safe [OF this] show ?thesis by simp
qed

end
