(* ===== verification/UR_Select.thy ===== *)
theory UR_Select
  imports UR_Util "HOL-Library.Multiset"
begin

text \<open>
  Device selection, \<open>ur_lib::urDeviceGetSelected\<close> of source/loader/ur_lib.cpp: the checks of the
  arguments, the parsing of ONEAPI_DEVICE_SELECTOR into accept and discard filters, the enumeration
  of root devices, sub-devices and sub-sub-devices, the filtering, and the outputs. The calls into
  the adapters (\<open>urPlatformGetInfo\<close>, \<open>urDeviceGet\<close>, \<open>urDevicePartition\<close>, \<open>urDeviceGetInfo\<close>,
  \<open>urPlatformGet\<close>) are the fields of the parameter \<open>api\<close>. A handle is a number, null is 0; a call
  that fails gives its code in \<open>Inl\<close>. The result is \<open>Inl\<close> when a C++ exception leaves the function.
\<close>

section \<open>Types\<close>

type_synonym handle = nat

datatype ur_backend =
    UR_BACKEND_UNKNOWN
  | UR_BACKEND_LEVEL_ZERO
  | UR_BACKEND_OPENCL
  | UR_BACKEND_CUDA
  | UR_BACKEND_HIP
  | UR_BACKEND_NATIVE_CPU
  | UR_BACKEND_OFFLOAD

datatype ur_device_type =
    UR_DEVICE_TYPE_DEFAULT
  | UR_DEVICE_TYPE_ALL
  | UR_DEVICE_TYPE_GPU
  | UR_DEVICE_TYPE_CPU
  | UR_DEVICE_TYPE_FPGA
  | UR_DEVICE_TYPE_MCA
  | UR_DEVICE_TYPE_VPU
  | UR_DEVICE_TYPE_CUSTOM
  | UR_DEVICE_TYPE_FORCE_UINT32

datatype part_level = ROOT | SUB | SUBSUB

record device_spec =
  level :: part_level
  hwType :: ur_device_type
  rootId :: u64
  subId :: u64
  subsubId :: u64
  urDeviceHandle :: handle

text \<open>\<open>constexpr DeviceIdType DeviceIdTypeALL = -1\<close> on \<open>unsigned long\<close>.\<close>

definition DeviceIdTypeALL :: u64 where
  "DeviceIdTypeALL = - 1"

record adapter_api =
  platformBackend :: "handle \<Rightarrow> ur_result + ur_backend"
  platformAdapter :: "handle \<Rightarrow> ur_result + handle"
  platformCount :: "handle \<Rightarrow> ur_result + nat"
  platformList :: "handle \<Rightarrow> nat \<Rightarrow> ur_result + handle list"
  deviceCountOf :: "handle \<Rightarrow> ur_result + u32"
  deviceList :: "handle \<Rightarrow> u32 \<Rightarrow> ur_result + handle list"
  deviceType :: "handle \<Rightarrow> ur_result + ur_device_type"
  partitionCount :: "handle \<Rightarrow> ur_result + u32"
  partitionList :: "handle \<Rightarrow> u32 \<Rightarrow> ur_result + handle list"

text \<open>
  What a call leaves behind: the code, the handles stored through \<open>phDevices\<close>, and the value
  stored through \<open>pNumDevices\<close> (\<open>None\<close> when nothing is stored).
\<close>

record selection =
  sel_result :: ur_result
  sel_devices :: "handle list"
  sel_count :: "u32 option"

definition fails_with :: "ur_result \<Rightarrow> selection" where
  "fails_with r = \<lparr>sel_result = r, sel_devices = [], sel_count = None\<rparr>"

section \<open>Arguments\<close>

definition selected_args_check ::
  "handle \<Rightarrow> ur_device_type \<Rightarrow> u32 \<Rightarrow> bool \<Rightarrow> bool \<Rightarrow> ur_result" where
  "selected_args_check hPlatform DeviceType NumEntries phDevices pNumDevices =
     (if hPlatform = 0 then UR_RESULT_ERROR_INVALID_NULL_HANDLE
      else if NumEntries > 0 \<and> \<not> phDevices then UR_RESULT_ERROR_INVALID_NULL_POINTER
      else if NumEntries = 0 \<and> \<not> pNumDevices then UR_RESULT_ERROR_INVALID_SIZE
      else if DeviceType \<in> {UR_DEVICE_TYPE_ALL, UR_DEVICE_TYPE_GPU, UR_DEVICE_TYPE_DEFAULT,
                            UR_DEVICE_TYPE_CPU, UR_DEVICE_TYPE_FPGA, UR_DEVICE_TYPE_MCA,
                            UR_DEVICE_TYPE_CUSTOM}
           then UR_RESULT_SUCCESS
      else UR_RESULT_ERROR_INVALID_ENUMERATION)"

section \<open>Filters\<close>

definition adapters :: "(ur_backend \<times> string) list" where
  "adapters =
     [(UR_BACKEND_UNKNOWN, ''*''), (UR_BACKEND_LEVEL_ZERO, ''level_zero''),
      (UR_BACKEND_OPENCL, ''opencl''), (UR_BACKEND_CUDA, ''cuda''), (UR_BACKEND_HIP, ''hip''),
      (UR_BACKEND_NATIVE_CPU, ''native_cpu''), (UR_BACKEND_OFFLOAD, ''offload'')]"

definition getRootHardwareType :: "string \<Rightarrow> ur_device_type" where
  "getRootHardwareType input =
     (let lowerInput = to_lower input
      in if lowerInput = ''cpu'' then UR_DEVICE_TYPE_CPU
         else if lowerInput = ''gpu'' then UR_DEVICE_TYPE_GPU
         else if lowerInput = ''fpga'' then UR_DEVICE_TYPE_FPGA
         else UR_DEVICE_TYPE_ALL)"

text \<open>
  \<open>find_first_not_of\<close> finds nothing in an empty string, so an empty part reaches
  \<open>std::stoul\<close>, which throws.
\<close>

definition getDeviceId :: "string \<Rightarrow> cpp_exn + u64" where
  "getDeviceId input = (if list_all isdigit input then stoul input else Inr DeviceIdTypeALL)"

text \<open>Every occurrence of the pattern star-dot must start the pattern star-dot-star.\<close>

definition find_str_from :: "string \<Rightarrow> nat \<Rightarrow> string \<Rightarrow> nat option" where
  "find_str_from t pos s = map_option ((+) pos) (find_str t (drop pos s))"

lemma find_str_Some: "find_str t s = Some p \<Longrightarrow> take (length t) (drop p s) = t \<and> p \<le> length s"
  by (induction s arbitrary: p) (auto simp: is_prefix_def split: if_splits)

function bad_wildcard :: "string \<Rightarrow> nat \<Rightarrow> bool" where
  "bad_wildcard s pos =
     (case find_str_from ''*.'' pos s of
        None \<Rightarrow> False
      | Some p \<Rightarrow> if substr p 3 s \<noteq> ''*.*'' then True else bad_wildcard s (p + 2))"
  by pat_completeness auto
termination
proof (relation "measure (\<lambda>(s, pos). length s - pos)")
  fix s :: string and pos p :: nat
  assume "find_str_from ''*.'' pos s = Some p"
  then obtain q where q: "find_str ''*.'' (drop pos s) = Some q" "p = pos + q"
    by (auto simp: find_str_from_def)
  from find_str_Some [OF this(1)] have "take 2 (drop q (drop pos s)) = ''*.''"
    by (simp add: numeral_2_eq_2)
  then have "2 \<le> length (drop q (drop pos s))"
    by (metis length_take list.size(3,4) min.absorb_iff2 min.cobounded1 One_nat_def Suc_1 add_0 plus_1_eq_Suc)
  with q(2) show "((s, p + 2), s, pos) \<in> measure (\<lambda>(s, pos). length s - pos)"
    by simp
qed simp

declare bad_wildcard.simps [simp del]

text \<open>
  One filter string, \<open>root[.sub[.subsub]]\<close>. The length given to \<open>substr\<close> for the second part
  is \<open>locationDot2 - locationDot1\<close>.
\<close>

definition parse_filter :: "string \<Rightarrow> cpp_exn + device_spec" where
  "parse_filter filterString =
     (case find_char (CHR ''.'') filterString of
        Some locationDot1 \<Rightarrow>
          let firstPart = substr 0 locationDot1 filterString;
              hardwareType = getRootHardwareType firstPart
          in (case getDeviceId firstPart of
                Inl e \<Rightarrow> Inl e
              | Inr firstDeviceId \<Rightarrow>
                  let locationDot2 = find_char_from (CHR ''.'') (locationDot1 + 1) filterString;
                      secondPart =
                        (case locationDot2 of
                           None \<Rightarrow> drop (locationDot1 + 1) filterString
                         | Some d2 \<Rightarrow> substr (locationDot1 + 1) (d2 - locationDot1) filterString)
                  in (case getDeviceId secondPart of
                        Inl e \<Rightarrow> Inl e
                      | Inr secondDeviceId \<Rightarrow>
                          (case locationDot2 of
                             Some d2 \<Rightarrow>
                               (case getDeviceId (drop (d2 + 1) filterString) of
                                  Inl e \<Rightarrow> Inl e
                                | Inr thirdDeviceId \<Rightarrow>
                                    Inr \<lparr>level = SUBSUB, hwType = hardwareType, rootId = firstDeviceId,
                                         subId = secondDeviceId, subsubId = thirdDeviceId,
                                         urDeviceHandle = 0\<rparr>)
                           | None \<Rightarrow>
                               Inr \<lparr>level = SUB, hwType = hardwareType, rootId = firstDeviceId,
                                    subId = secondDeviceId, subsubId = 0, urDeviceHandle = 0\<rparr>)))
      | None \<Rightarrow>
          (case getDeviceId filterString of
             Inl e \<Rightarrow> Inl e
           | Inr firstDeviceId \<Rightarrow>
               Inr \<lparr>level = ROOT, hwType = getRootHardwareType filterString, rootId = firstDeviceId,
                    subId = 0, subsubId = 0, urDeviceHandle = 0\<rparr>))"

fun parse_filters :: "string list \<Rightarrow> cpp_exn + device_spec list" where
  "parse_filters [] = Inr []"
| "parse_filters (s # ss) =
     (case parse_filter s of
        Inl e \<Rightarrow> Inl e
      | Inr f \<Rightarrow> (case parse_filters ss of Inl e \<Rightarrow> Inl e | Inr fs \<Rightarrow> Inr (f # fs)))"

text \<open>
  One term of the selector. \<open>Skip\<close> is \<open>continue\<close>, \<open>Stop\<close> an early return of the whole function.
  \<open>front()\<close> of an empty backend reads the terminating NUL.
\<close>

datatype term_outcome =
    Skip
  | Stop ur_result
  | Accept "device_spec list"
  | Discard "device_spec list"

definition front :: "string \<Rightarrow> char" where
  "front s = (case s of [] \<Rightarrow> CHR 0x00 | c # _ \<Rightarrow> c)"

definition term_filters :: "string list \<Rightarrow> bool \<Rightarrow> cpp_exn + term_outcome" where
  "term_filters filterStrings accept =
     (if filterStrings = [] then Inr (Stop UR_RESULT_ERROR_INVALID_VALUE)
      else if list_ex (\<lambda>s. s = []) filterStrings then Inr Skip
      else if list_ex (\<lambda>s. count_list s (CHR ''.'') > 2) filterStrings
           then Inr (Stop UR_RESULT_ERROR_INVALID_VALUE)
      else if list_ex (\<lambda>s. bad_wildcard s 0) filterStrings
           then Inr (Stop UR_RESULT_ERROR_INVALID_VALUE)
      else case parse_filters filterStrings of
             Inl e \<Rightarrow> Inl e
           | Inr fs \<Rightarrow> Inr (if accept then Accept fs else Discard fs))"

definition parse_term :: "ur_backend \<Rightarrow> string \<times> string list \<Rightarrow> cpp_exn + term_outcome" where
  "parse_term thisBackend termPair =
     (let backend0 = fst termPair
      in if backend0 = [] then Inr Skip
         else let accept = (front backend0 \<noteq> CHR ''!'');
                  backend = (if accept then backend0 else tl backend0)
              in if front backend \<noteq> CHR ''*''
                 then (case find (\<lambda>p. snd p = backend) adapters of
                         None \<Rightarrow> Inr (Stop UR_RESULT_ERROR_INVALID_VALUE)
                       | Some p \<Rightarrow>
                           if fst p \<noteq> thisBackend then Inr Skip
                           else term_filters (snd termPair) accept)
                 else term_filters (snd termPair) accept)"

text \<open>The loop over the terms, in the order of the map: the accept list, then the discard list.\<close>

fun parse_terms ::
  "ur_backend \<Rightarrow> env_var_map \<Rightarrow> device_spec list \<Rightarrow> device_spec list
     \<Rightarrow> cpp_exn + (ur_result + device_spec list \<times> device_spec list)" where
  "parse_terms backend [] accepts discards = Inr (Inr (accepts, discards))"
| "parse_terms backend (t # ts) accepts discards =
     (case parse_term backend t of
        Inl e \<Rightarrow> Inl e
      | Inr Skip \<Rightarrow> parse_terms backend ts accepts discards
      | Inr (Stop r) \<Rightarrow> Inr (Inl r)
      | Inr (Accept fs) \<Rightarrow> parse_terms backend ts (accepts @ fs) discards
      | Inr (Discard fs) \<Rightarrow> parse_terms backend ts accepts (discards @ fs))"

definition deviceIdsInUse :: "device_spec list \<Rightarrow> device_spec list \<Rightarrow> bool" where
  "deviceIdsInUse accepts discards =
     list_ex (\<lambda>f. rootId f \<noteq> DeviceIdTypeALL) (accepts @ discards)"

definition accept_all :: device_spec where
  "accept_all = \<lparr>level = ROOT, hwType = UR_DEVICE_TYPE_ALL, rootId = DeviceIdTypeALL,
                 subId = 0, subsubId = 0, urDeviceHandle = 0\<rparr>"

section \<open>Devices of the platform\<close>

text \<open>The number of devices of the platforms before this one, added up in \<open>uint32_t\<close>.\<close>

fun count_before :: "adapter_api \<Rightarrow> handle \<Rightarrow> handle list \<Rightarrow> u32 \<Rightarrow> ur_result + u32" where
  "count_before api hPlatform [] startIdCount = Inr startIdCount"
| "count_before api hPlatform (p # ps) startIdCount =
     (if p = hPlatform then Inr startIdCount
      else case deviceCountOf api p of
             Inl _ \<Rightarrow> Inl UR_RESULT_ERROR_INVALID_PLATFORM
           | Inr n \<Rightarrow> count_before api hPlatform ps (startIdCount + n))"

definition start_id :: "adapter_api \<Rightarrow> handle \<Rightarrow> bool \<Rightarrow> ur_result + u32" where
  "start_id api hPlatform idsInUse =
     (if \<not> idsInUse then Inr 0
      else case platformAdapter api hPlatform of
             Inl _ \<Rightarrow> Inl UR_RESULT_ERROR_INVALID_PLATFORM
           | Inr adapter \<Rightarrow>
               (case platformCount api adapter of
                  Inl _ \<Rightarrow> Inl UR_RESULT_ERROR_INVALID_PLATFORM
                | Inr numPlatforms \<Rightarrow>
                    (case platformList api adapter numPlatforms of
                       Inl _ \<Rightarrow> Inl UR_RESULT_ERROR_INVALID_PLATFORM
                     | Inr platforms \<Rightarrow> count_before api hPlatform platforms 0)))"

definition root_handles :: "adapter_api \<Rightarrow> handle \<Rightarrow> ur_result + handle list" where
  "root_handles api hPlatform =
     (case deviceCountOf api hPlatform of
        Inl _ \<Rightarrow> Inl UR_RESULT_ERROR_DEVICE_NOT_FOUND
      | Inr n \<Rightarrow>
          (case deviceList api hPlatform n of
             Inl _ \<Rightarrow> Inl UR_RESULT_ERROR_DEVICE_NOT_FOUND
           | Inr hs \<Rightarrow> Inr hs))"

fun root_specs :: "adapter_api \<Rightarrow> u64 \<Rightarrow> handle list \<Rightarrow> device_spec list" where
  "root_specs api deviceCount [] = []"
| "root_specs api deviceCount (h # hs) =
     \<lparr>level = ROOT,
      hwType = (case deviceType api h of Inl _ \<Rightarrow> UR_DEVICE_TYPE_DEFAULT | Inr t \<Rightarrow> t),
      rootId = deviceCount, subId = DeviceIdTypeALL, subsubId = DeviceIdTypeALL,
      urDeviceHandle = h\<rparr> # root_specs api (deviceCount + 1) hs"

definition keep_type :: "ur_device_type \<Rightarrow> device_spec \<Rightarrow> bool" where
  "keep_type DeviceType d \<longleftrightarrow>
     DeviceType = UR_DEVICE_TYPE_ALL \<or> DeviceType = UR_DEVICE_TYPE_DEFAULT \<or> DeviceType = hwType d"

text \<open>The lambda's error code is dropped by \<open>std::for_each\<close>: a failing partition adds nothing.\<close>

definition partition_handles :: "adapter_api \<Rightarrow> handle \<Rightarrow> handle list" where
  "partition_handles api h =
     (case partitionCount api h of
        Inl _ \<Rightarrow> []
      | Inr n \<Rightarrow> (case partitionList api h n of Inl _ \<Rightarrow> [] | Inr hs \<Rightarrow> hs))"

fun sub_specs :: "device_spec \<Rightarrow> u64 \<Rightarrow> handle list \<Rightarrow> device_spec list" where
  "sub_specs d n [] = []"
| "sub_specs d n (h # hs) =
     d\<lparr>level := SUB, subId := n, subsubId := DeviceIdTypeALL, urDeviceHandle := h\<rparr>
       # sub_specs d (n + 1) hs"

fun subsub_specs :: "device_spec \<Rightarrow> u64 \<Rightarrow> handle list \<Rightarrow> device_spec list" where
  "subsub_specs d n [] = []"
| "subsub_specs d n (h # hs) =
     d\<lparr>level := SUBSUB, subsubId := n, urDeviceHandle := h\<rparr> # subsub_specs d (n + 1) hs"

definition sub_devices :: "adapter_api \<Rightarrow> device_spec list \<Rightarrow> device_spec list" where
  "sub_devices api ds =
     concat (map (\<lambda>d. sub_specs d 0 (partition_handles api (urDeviceHandle d))) ds)"

definition subsub_devices :: "adapter_api \<Rightarrow> device_spec list \<Rightarrow> device_spec list" where
  "subsub_devices api ds =
     concat (map (\<lambda>d. subsub_specs d 0 (partition_handles api (urDeviceHandle d))) ds)"

section \<open>Filtering\<close>

definition ApplyFilter :: "device_spec \<Rightarrow> device_spec \<Rightarrow> bool" where
  "ApplyFilter flt device =
     (if rootId flt = DeviceIdTypeALL
      then hwType flt = hwType device \<or> hwType flt = UR_DEVICE_TYPE_ALL
      else if rootId flt \<noteq> rootId device then False
      else if level flt = ROOT then True
      else if subId flt = DeviceIdTypeALL then True
      else if subId flt \<noteq> subId device then False
      else if level flt = SUB then True
      else if subsubId flt = DeviceIdTypeALL then True
      else subsubId flt = subsubId device)"

text \<open>The three vectors, and the handles selected so far.\<close>

record device_lists =
  rootDevices :: "device_spec list"
  subDevices :: "device_spec list"
  subSubDevices :: "device_spec list"

definition at_level :: "part_level \<Rightarrow> device_lists \<Rightarrow> device_spec list" where
  "at_level l ds =
     (case l of ROOT \<Rightarrow> rootDevices ds | SUB \<Rightarrow> subDevices ds | SUBSUB \<Rightarrow> subSubDevices ds)"

definition remove_matching :: "device_spec \<Rightarrow> device_lists \<Rightarrow> device_lists" where
  "remove_matching f ds =
     (case level f of
        ROOT \<Rightarrow> ds\<lparr>rootDevices := [d \<leftarrow> rootDevices ds. \<not> ApplyFilter f d]\<rparr>
      | SUB \<Rightarrow> ds\<lparr>subDevices := [d \<leftarrow> subDevices ds. \<not> ApplyFilter f d]\<rparr>
      | SUBSUB \<Rightarrow> ds\<lparr>subSubDevices := [d \<leftarrow> subSubDevices ds. \<not> ApplyFilter f d]\<rparr>)"

fun apply_discards :: "device_spec list \<Rightarrow> device_lists \<Rightarrow> device_lists" where
  "apply_discards [] ds = ds"
| "apply_discards (f # fs) ds = apply_discards fs (remove_matching f ds)"

fun apply_accepts ::
  "device_spec list \<Rightarrow> device_lists \<Rightarrow> handle list \<Rightarrow> handle list \<times> device_lists" where
  "apply_accepts [] ds selectedDevices = (selectedDevices, ds)"
| "apply_accepts (f # fs) ds selectedDevices =
     apply_accepts fs (remove_matching f ds)
       (selectedDevices @ map urDeviceHandle [d \<leftarrow> at_level (level f) ds. ApplyFilter f d])"

section \<open>The function\<close>

definition store_selection :: "u32 \<Rightarrow> bool \<Rightarrow> handle list \<Rightarrow> selection" where
  "store_selection NumEntries pNumDevices selectedDevices =
     (if NumEntries = 0
      then \<lparr>sel_result = UR_RESULT_SUCCESS, sel_devices = [],
            sel_count = Some (of_nat (length selectedDevices))\<rparr>
      else let numToCopy = min (unat NumEntries) (length selectedDevices)
           in if pNumDevices
              then \<lparr>sel_result = UR_RESULT_ERROR_ADAPTER_SPECIFIC,
                    sel_devices = take numToCopy selectedDevices,
                    sel_count = Some (of_nat numToCopy)\<rparr>
              else \<lparr>sel_result = UR_RESULT_SUCCESS,
                    sel_devices = take numToCopy selectedDevices, sel_count = None\<rparr>)"

definition platform_devices ::
  "adapter_api \<Rightarrow> handle \<Rightarrow> ur_device_type \<Rightarrow> bool \<Rightarrow> ur_result + device_lists" where
  "platform_devices api hPlatform DeviceType idsInUse =
     (case root_handles api hPlatform of
        Inl r \<Rightarrow> Inl r
      | Inr hs \<Rightarrow>
          (case start_id api hPlatform idsInUse of
             Inl r \<Rightarrow> Inl r
           | Inr startIdCount \<Rightarrow>
               let roots = filter (keep_type DeviceType) (root_specs api (ucast startIdCount) hs);
                   subs = sub_devices api roots
               in Inr \<lparr>rootDevices = roots, subDevices = subs,
                       subSubDevices = subsub_devices api subs\<rparr>))"

definition select_devices :: "device_spec list \<Rightarrow> device_spec list \<Rightarrow> device_lists \<Rightarrow> handle list" where
  "select_devices accepts discards ds = fst (apply_accepts accepts (apply_discards discards ds) [])"

definition selector_map :: "environment \<Rightarrow> cpp_exn + env_var_map" where
  "selector_map env =
     (case getenv_to_map env ''ONEAPI_DEVICE_SELECTOR'' False False True of
        Inl e \<Rightarrow> Inl e
      | Inr None \<Rightarrow> Inr [(''*'', [''*''])]
      | Inr (Some m) \<Rightarrow> Inr m)"

definition urDeviceGetSelected ::
  "adapter_api \<Rightarrow> environment \<Rightarrow> handle \<Rightarrow> ur_device_type \<Rightarrow> u32 \<Rightarrow> bool \<Rightarrow> bool
     \<Rightarrow> cpp_exn + selection" where
  "urDeviceGetSelected api env hPlatform DeviceType NumEntries phDevices pNumDevices =
     (let check = selected_args_check hPlatform DeviceType NumEntries phDevices pNumDevices
      in if check \<noteq> UR_RESULT_SUCCESS then Inr (fails_with check)
         else case selector_map env of
           Inl _ \<Rightarrow> Inr (fails_with UR_RESULT_ERROR_INVALID_VALUE)
         | Inr mapODS \<Rightarrow>
             (case platformBackend api hPlatform of
                Inl _ \<Rightarrow> Inr (fails_with UR_RESULT_ERROR_INVALID_PLATFORM)
              | Inr backend \<Rightarrow>
                  (case parse_terms backend mapODS [] [] of
                     Inl e \<Rightarrow> Inl e
                   | Inr (Inl r) \<Rightarrow> Inr (fails_with r)
                   | Inr (Inr (accepts, discards)) \<Rightarrow>
                       if accepts = [] \<and> discards = [] then Inr (fails_with UR_RESULT_SUCCESS)
                       else let accepts' = (if accepts = [] then [accept_all] else accepts)
                            in case platform_devices api hPlatform DeviceType
                                      (deviceIdsInUse accepts discards) of
                                 Inl r \<Rightarrow> Inr (fails_with r)
                               | Inr ds \<Rightarrow>
                                   Inr (store_selection NumEntries pNumDevices
                                          (select_devices accepts' discards ds)))))"

section \<open>Lemmas about filtering\<close>

definition all_devices :: "device_lists \<Rightarrow> device_spec list" where
  "all_devices ds = rootDevices ds @ subDevices ds @ subSubDevices ds"

definition levelled :: "device_lists \<Rightarrow> bool" where
  "levelled ds \<longleftrightarrow> (\<forall>l. \<forall>d \<in> set (at_level l ds). level d = l)"

text \<open>What the selector means: some accept filter of the device's level, no discard filter of it.\<close>

definition selects :: "device_spec list \<Rightarrow> device_spec list \<Rightarrow> device_spec \<Rightarrow> bool" where
  "selects accepts discards d \<longleftrightarrow>
     (\<exists>f \<in> set accepts. level f = level d \<and> ApplyFilter f d) \<and>
     \<not> (\<exists>f \<in> set discards. level f = level d \<and> ApplyFilter f d)"

lemma at_level_remove:
  "at_level l (remove_matching f ds) = [d \<leftarrow> at_level l ds. \<not> (level f = l \<and> ApplyFilter f d)]"
  by (cases "level f"; cases l) (simp_all add: at_level_def remove_matching_def)

lemma at_level_discards:
  "at_level l (apply_discards fs ds) =
     [d \<leftarrow> at_level l ds. \<not> (\<exists>f \<in> set fs. level f = l \<and> ApplyFilter f d)]"
  by (induction fs arbitrary: ds) (auto simp: at_level_remove intro: filter_cong)

definition level_union :: "(part_level \<Rightarrow> 'a multiset) \<Rightarrow> 'a multiset" where
  "level_union g = g ROOT + g SUB + g SUBSUB"

lemma level_union_add: "level_union g + level_union h = level_union (\<lambda>l. g l + h l)"
  by (simp add: level_union_def ac_simps)

lemma level_union_single: "level_union (\<lambda>l. if l = k then m else {#}) = m"
  by (cases k) (simp_all add: level_union_def)

lemma mset_accepts:
  "mset (fst (apply_accepts fs ds sel)) =
     mset sel + level_union (\<lambda>l. mset (map urDeviceHandle
       [d \<leftarrow> at_level l ds. \<exists>f \<in> set fs. level f = l \<and> ApplyFilter f d]))"
proof (induction fs arbitrary: ds sel)
  case Nil
  show ?case by (simp add: level_union_def)
next
  case (Cons f fs)
  let ?now = "\<lambda>l. mset (map urDeviceHandle [d \<leftarrow> at_level l ds. level f = l \<and> ApplyFilter f d])"
  let ?later = "\<lambda>l. mset (map urDeviceHandle [d \<leftarrow> at_level l (remove_matching f ds).
      \<exists>g \<in> set fs. level g = l \<and> ApplyFilter g d])"
  let ?both = "\<lambda>l. mset (map urDeviceHandle [d \<leftarrow> at_level l ds.
      \<exists>g \<in> set (f # fs). level g = l \<and> ApplyFilter g d])"
  have split: "?now l + ?later l = ?both l" for l
  proof -
    have "filter_mset (\<lambda>d. \<exists>g \<in> set (f # fs). level g = l \<and> ApplyFilter g d) (mset (at_level l ds))
        = filter_mset (\<lambda>d. level f = l \<and> ApplyFilter f d) (mset (at_level l ds))
        + filter_mset (\<lambda>d. \<not> (level f = l \<and> ApplyFilter f d)
            \<and> (\<exists>g \<in> set fs. level g = l \<and> ApplyFilter g d)) (mset (at_level l ds))"
      by (subst multiset_partition [of _ "\<lambda>d. level f = l \<and> ApplyFilter f d"])
        (auto simp: filter_filter_mset intro!: arg_cong2 [where f = "(+)"] filter_mset_cong)
    then show ?thesis
      by (simp add: at_level_remove filter_filter_mset conj_commute conj_left_commute)
  qed
  have first: "mset (map urDeviceHandle [d \<leftarrow> at_level (level f) ds. ApplyFilter f d]) = level_union ?now"
    by (cases "level f") (simp_all add: level_union_def)
  have "mset (fst (apply_accepts (f # fs) ds sel)) = mset sel + level_union ?now + level_union ?later"
    by (simp only: apply_accepts.simps Cons.IH mset_append first)
  also have "\<dots> = mset sel + level_union ?both"
    by (simp only: add.assoc level_union_add split)
  finally show ?case .
qed

lemma mset_all_devices: "mset (all_devices ds) = level_union (\<lambda>l. mset (at_level l ds))"
  by (simp add: all_devices_def level_union_def at_level_def ac_simps)

lemma select_devices_mset:
  assumes "levelled ds"
  shows "mset (select_devices accepts discards ds) =
           image_mset urDeviceHandle (filter_mset (selects accepts discards) (mset (all_devices ds)))"
proof -
  have "mset (map urDeviceHandle
          [d \<leftarrow> [d \<leftarrow> at_level l ds. \<not> (\<exists>f \<in> set discards. level f = l \<and> ApplyFilter f d)].
             \<exists>f \<in> set accepts. level f = l \<and> ApplyFilter f d])
      = image_mset urDeviceHandle (filter_mset (selects accepts discards) (mset (at_level l ds)))" for l
    using assms
    by (auto simp: levelled_def selects_def filter_filter_mset simp flip: mset_filter mset_map
        intro!: arg_cong [where f = "\<lambda>xs. mset (map urDeviceHandle xs)"] filter_cong)
  then show ?thesis
    by (simp add: select_devices_def mset_accepts at_level_discards mset_all_devices level_union_def)
qed

lemma level_root_specs: "d \<in> set (root_specs api n hs) \<Longrightarrow> level d = ROOT"
  by (induction hs arbitrary: n) auto

lemma level_sub_specs: "d \<in> set (sub_specs e n hs) \<Longrightarrow> level d = SUB"
  by (induction hs arbitrary: n) auto

lemma level_subsub_specs: "d \<in> set (subsub_specs e n hs) \<Longrightarrow> level d = SUBSUB"
  by (induction hs arbitrary: n) auto

lemma platform_devices_levelled:
  "platform_devices api hPlatform DeviceType ids = Inr ds \<Longrightarrow> levelled ds"
  by (auto simp: platform_devices_def levelled_def at_level_def sub_devices_def subsub_devices_def
      Let_def split: sum.splits part_level.splits
      dest: level_root_specs level_sub_specs level_subsub_specs)

text \<open>Evaluation of the parser on a literal; the number parsers compare with \<open>2^64\<close>, which code
  evaluation would count up to.\<close>

lemmas parse_simps =
  parse_filter_def getDeviceId_def getRootHardwareType_def find_char_from_def substr_def stoul_def
  read_integer_def nat_of_digits_def digit_value_def isdigit_def isspace_def to_lower_def
  tolower_def Let_def

lemma getDeviceId_not_number: "c \<in> set s \<Longrightarrow> \<not> isdigit c \<Longrightarrow> getDeviceId s = Inr DeviceIdTypeALL"
  by (auto simp: getDeviceId_def list_all_iff)

lemma parse_filter_subsub:
  assumes "parse_filter s = Inr f" and "level f = SUBSUB"
  shows "subId f = DeviceIdTypeALL"
proof -
  from assms obtain d1 d2 where d1: "find_char (CHR ''.'') s = Some d1"
    and d2: "find_char_from (CHR ''.'') (d1 + 1) s = Some d2"
    and id2: "getDeviceId (substr (d1 + 1) (d2 - d1) s) = Inr (subId f)"
    by (auto simp: parse_filter_def Let_def split: option.splits sum.splits)
  from d2 obtain q where q: "find_char (CHR ''.'') (drop (d1 + 1) s) = Some q" "d2 = d1 + 1 + q"
    by (auto simp: find_char_from_def)
  note lt = find_char_less [OF q(1)] and nth = find_char_nth [OF q(1)]
  have "substr (d1 + 1) (d2 - d1) s = take (Suc q) (drop (d1 + 1) s)"
    by (simp add: substr_def q(2))
  with lt nth have "CHR ''.'' \<in> set (substr (d1 + 1) (d2 - d1) s)"
    by (simp add: take_Suc_conv_app_nth)
  then show ?thesis
    using id2 getDeviceId_not_number [of "CHR ''.''"] by (simp add: isdigit_def)
qed

lemma root_specs_handles: "map urDeviceHandle (root_specs api n hs) = hs"
  by (induction hs arbitrary: n) simp_all

section \<open>Properties of the selection\<close>

text \<open>
  Filtering implements its specification: whatever the platform enumerates, the handles
  selected are, as a multiset, exactly those of the devices for which some accept filter of their
  level matches and no discard filter of their level does. No device is selected twice, dropped
  or invented, and the order of the discard filters does not matter.
\<close>

theorem select_devices_spec:
  assumes "platform_devices api hPlatform DeviceType ids = Inr ds"
  shows "mset (select_devices accepts discards ds) =
           image_mset urDeviceHandle (filter_mset (selects accepts discards) (mset (all_devices ds)))"
  using platform_devices_levelled [OF assms] by (rule select_devices_mset)

text \<open>An adapter with one platform of two GPUs; the first splits into two sub-devices.\<close>

definition demo_api :: adapter_api where
  "demo_api =
     \<lparr>platformBackend = (\<lambda>_. Inr UR_BACKEND_LEVEL_ZERO), platformAdapter = (\<lambda>_. Inr 1),
      platformCount = (\<lambda>_. Inr 1), platformList = (\<lambda>_ _. Inr [5]),
      deviceCountOf = (\<lambda>_. Inr 2), deviceList = (\<lambda>_ _. Inr [10, 20]),
      deviceType = (\<lambda>_. Inr UR_DEVICE_TYPE_GPU),
      partitionCount = (\<lambda>h. if h \<in> {10, 11, 12} then Inr 2 else Inl UR_RESULT_ERROR_INVALID_VALUE),
      partitionList = (\<lambda>h _. if h = 10 then Inr [11, 12] else Inr [10 * h, 10 * h + 1])\<rparr>"

definition demo_lists :: device_lists where
  "demo_lists =
     (case platform_devices demo_api 5 UR_DEVICE_TYPE_ALL False of
        Inr ds \<Rightarrow> ds | Inl _ \<Rightarrow> \<lparr>rootDevices = [], subDevices = [], subSubDevices = []\<rparr>)"

lemma demo_platform_devices: "platform_devices demo_api 5 UR_DEVICE_TYPE_ALL False = Inr demo_lists"
  by (simp add: platform_devices_def demo_lists_def root_handles_def start_id_def demo_api_def keep_type_def Let_def)

theorem select_devices_spec_witness:
  "mset (select_devices [accept_all] [accept_all\<lparr>rootId := 0\<rparr>] demo_lists) =
     image_mset urDeviceHandle
       (filter_mset (selects [accept_all] [accept_all\<lparr>rootId := 0\<rparr>]) (mset (all_devices demo_lists)))
   \<and> select_devices [accept_all] [accept_all\<lparr>rootId := 0\<rparr>] demo_lists = [20]"
proof
  show "mset (select_devices [accept_all] [accept_all\<lparr>rootId := 0\<rparr>] demo_lists) =
     image_mset urDeviceHandle
       (filter_mset (selects [accept_all] [accept_all\<lparr>rootId := 0\<rparr>]) (mset (all_devices demo_lists)))"
    by (rule select_devices_spec [OF demo_platform_devices])
  show "select_devices [accept_all] [accept_all\<lparr>rootId := 0\<rparr>] demo_lists = [20]"
    by code_simp
qed

text \<open>
  A filter string with two dots never selects by its second or third number: the second part is
  cut one character too long, holds the second dot, and is read as a wildcard. Such a filter matches
  every sub-sub-device of the root device it names.
\<close>

theorem subsub_filter_ignores_ids:
  assumes "parse_filter s = Inr f" and "level f = SUBSUB" and "rootId f \<noteq> DeviceIdTypeALL"
  shows "ApplyFilter f d \<longleftrightarrow> rootId f = rootId d"
  using parse_filter_subsub [OF assms(1,2)] assms(2,3) by (auto simp: ApplyFilter_def)

definition filter_0_1_0 :: device_spec where
  "filter_0_1_0 = \<lparr>level = SUBSUB, hwType = UR_DEVICE_TYPE_ALL, rootId = 0, subId = DeviceIdTypeALL,
     subsubId = 0, urDeviceHandle = 0\<rparr>"

theorem subsub_filter_ignores_ids_witness:
  "ApplyFilter filter_0_1_0 (filter_0_1_0\<lparr>subId := 7, subsubId := 9\<rparr>)"
proof -
  have "parse_filter ''0.1.0'' = Inr filter_0_1_0"
    by (simp add: filter_0_1_0_def parse_simps)
  then show ?thesis
    using subsub_filter_ignores_ids [of "''0.1.0''" filter_0_1_0] by (simp add: filter_0_1_0_def DeviceIdTypeALL_def)
qed

text \<open>
  With ONEAPI_DEVICE_SELECTOR unset or empty, the call returns the root devices of the platform
  that have the requested type, in the order the adapter reports them, truncated to
  \<open>NumEntries\<close>, and never a sub-device.
\<close>

theorem urDeviceGetSelected_default:
  assumes "ur_getenv env ''ONEAPI_DEVICE_SELECTOR'' = None"
    and "selected_args_check hPlatform DeviceType NumEntries True False = UR_RESULT_SUCCESS"
    and "platformBackend api hPlatform = Inr backend"
    and "root_handles api hPlatform = Inr hs"
  shows "urDeviceGetSelected api env hPlatform DeviceType NumEntries True False =
           Inr \<lparr>sel_result = UR_RESULT_SUCCESS,
                sel_devices = take (unat NumEntries)
                  (map urDeviceHandle (filter (keep_type DeviceType) (root_specs api 0 hs))),
                sel_count = None\<rparr>"
proof -
  let ?roots = "filter (keep_type DeviceType) (root_specs api 0 hs)"
  from assms(2) have pos: "NumEntries \<noteq> 0"
    by (auto simp: selected_args_check_def split: if_splits)
  have sel: "selector_map env = Inr [(''*'', [''*''])]"
    using assms(1) by (simp add: selector_map_def getenv_to_map_def)
  have terms: "parse_term backend (''*'', [''*'']) = Inr (Accept [accept_all])"
    by (simp add: parse_term_def term_filters_def front_def accept_all_def bad_wildcard.simps
        find_str_from_def is_prefix_def parse_simps)
  have devs: "platform_devices api hPlatform DeviceType (deviceIdsInUse [accept_all] []) =
      Inr \<lparr>rootDevices = ?roots, subDevices = sub_devices api ?roots,
           subSubDevices = subsub_devices api (sub_devices api ?roots)\<rparr>"
    using assms(4)
    by (simp add: platform_devices_def start_id_def deviceIdsInUse_def accept_all_def Let_def)
  have all: "ApplyFilter accept_all d" for d
    by (simp add: ApplyFilter_def accept_all_def)
  show ?thesis
    using assms(2,3) pos
    by (simp add: urDeviceGetSelected_def sel terms devs select_devices_def all at_level_def
        accept_all_def [THEN arg_cong, of level] store_selection_def Let_def min_def)
qed

theorem urDeviceGetSelected_default_witness:
  "urDeviceGetSelected demo_api (\<lambda>_. None) 5 UR_DEVICE_TYPE_ALL 1 True False =
     Inr \<lparr>sel_result = UR_RESULT_SUCCESS,
          sel_devices = take (unat (1 :: u32))
            (map urDeviceHandle (filter (keep_type UR_DEVICE_TYPE_ALL) (root_specs demo_api 0 [10, 20]))),
          sel_count = None\<rparr>"
  by (rule urDeviceGetSelected_default)
    (simp_all add: ur_getenv_def selected_args_check_def demo_api_def root_handles_def)

text \<open>
  The two-call protocol works: if a query for the number of devices succeeds and stores a
  nonzero count, a second call with an array of that size and no count pointer succeeds and fills
  the array exactly.
\<close>

theorem urDeviceGetSelected_two_calls:
  assumes "urDeviceGetSelected api env hPlatform DeviceType 0 ph True = Inr s"
    and "sel_result s = UR_RESULT_SUCCESS" and "sel_count s = Some n" and "n \<noteq> 0"
  shows "\<exists>devs. urDeviceGetSelected api env hPlatform DeviceType n True False =
             Inr \<lparr>sel_result = UR_RESULT_SUCCESS, sel_devices = devs, sel_count = None\<rparr>
           \<and> length devs = unat n"
proof -
  have check: "selected_args_check hPlatform DeviceType 0 ph True = UR_RESULT_SUCCESS"
    using assms(1-3) by (auto simp: urDeviceGetSelected_def fails_with_def Let_def split: if_splits)
  then have check': "selected_args_check hPlatform DeviceType n True False = UR_RESULT_SUCCESS"
    using assms(4) by (auto simp: selected_args_check_def split: if_splits)
  have len: "unat (of_nat L :: u32) \<le> L" for L
    by (simp add: unat_of_nat take_bit_nat_less_eq_self)
  show ?thesis
    using assms check check'
    by (auto simp: urDeviceGetSelected_def fails_with_def store_selection_def Let_def min_def len
        split: if_splits sum.splits prod.splits)
qed

theorem urDeviceGetSelected_two_calls_witness:
  "\<exists>devs. urDeviceGetSelected demo_api (\<lambda>_. None) 5 UR_DEVICE_TYPE_ALL 2 True False =
             Inr \<lparr>sel_result = UR_RESULT_SUCCESS, sel_devices = devs, sel_count = None\<rparr>
           \<and> length devs = unat (2 :: u32)"
proof (rule urDeviceGetSelected_two_calls)
  show "urDeviceGetSelected demo_api (\<lambda>_. None) 5 UR_DEVICE_TYPE_ALL 0 False True =
      Inr \<lparr>sel_result = UR_RESULT_SUCCESS, sel_devices = [], sel_count = Some 2\<rparr>"
    by (simp add: urDeviceGetSelected_def selected_args_check_def selector_map_def getenv_to_map_def
        ur_getenv_def parse_term_def term_filters_def front_def bad_wildcard.simps find_str_from_def
        is_prefix_def parse_simps demo_api_def platform_devices_def root_handles_def start_id_def
        deviceIdsInUse_def keep_type_def select_devices_def at_level_def ApplyFilter_def
        store_selection_def)
qed simp_all

text \<open>
  A call that asks for handles and for their number at once reports an error even when it
  delivers: whenever it stores at least one handle, its code is UR_RESULT_ERROR_ADAPTER_SPECIFIC.
\<close>

theorem urDeviceGetSelected_count_and_handles:
  assumes "urDeviceGetSelected api env hPlatform DeviceType NumEntries True True = Inr s"
    and "sel_devices s \<noteq> []"
  shows "sel_result s = UR_RESULT_ERROR_ADAPTER_SPECIFIC"
  using assms
  by (auto simp: urDeviceGetSelected_def fails_with_def store_selection_def Let_def
      split: if_splits sum.splits prod.splits)

theorem urDeviceGetSelected_count_and_handles_witness:
  "\<exists>s. urDeviceGetSelected demo_api (\<lambda>_. None) 5 UR_DEVICE_TYPE_ALL 2 True True = Inr s
     \<and> sel_devices s = [10, 20] \<and> sel_result s = UR_RESULT_ERROR_ADAPTER_SPECIFIC"
proof -
  obtain s where s: "urDeviceGetSelected demo_api (\<lambda>_. None) 5 UR_DEVICE_TYPE_ALL 2 True True = Inr s"
    "sel_devices s = [10, 20]"
    by (simp add: urDeviceGetSelected_def selected_args_check_def selector_map_def getenv_to_map_def
        ur_getenv_def parse_term_def term_filters_def front_def bad_wildcard.simps find_str_from_def
        is_prefix_def parse_simps demo_api_def platform_devices_def root_handles_def start_id_def
        deviceIdsInUse_def keep_type_def select_devices_def at_level_def ApplyFilter_def
        store_selection_def)
  with urDeviceGetSelected_count_and_handles [OF s(1)] show ?thesis by auto
qed

lemma find_str_None: "t \<noteq> [] \<Longrightarrow> find_str t s = None \<Longrightarrow> \<not> is_prefix t (drop i s)"
proof (induction s arbitrary: i)
  case Nil
  then show ?case by (simp add: is_prefix_def)
next
  case (Cons x xs)
  then show ?case by (cases i) (auto split: if_splits)
qed

lemma find_str_first: "find_str t s = Some p \<Longrightarrow> i < p \<Longrightarrow> \<not> is_prefix t (drop i s)"
proof (induction s arbitrary: i p)
  case Nil
  then show ?case by (auto split: if_splits)
next
  case (Cons x xs)
  then show ?case by (cases i) (auto split: if_splits)
qed

lemma star_dot_next: "is_prefix ''*.'' s \<Longrightarrow> \<not> is_prefix ''*.'' (drop 1 s)"
  by (cases s; cases "tl s") (auto simp: is_prefix_def)

text \<open>
  The search for bad wildcards, which jumps two characters after each hit, finds every one:
  a filter string is refused exactly when a star-dot stands somewhere in it that does not start
  star-dot-star.
\<close>

theorem bad_wildcard_iff:
  "bad_wildcard s 0 \<longleftrightarrow> (\<exists>i. is_prefix ''*.'' (drop i s) \<and> \<not> is_prefix ''*.*'' (drop i s))"
proof -
  have gen: "bad_wildcard s pos \<longleftrightarrow>
      (\<exists>i \<ge> pos. is_prefix ''*.'' (drop i s) \<and> \<not> is_prefix ''*.*'' (drop i s))" for pos
  proof (induction s pos rule: bad_wildcard.induct)
    case (1 s pos)
    show ?case
    proof (cases "find_str ''*.'' (drop pos s)")
      case None
      then have "\<not> is_prefix ''*.'' (drop i s)" if "pos \<le> i" for i
        using find_str_None [of "''*.''" "drop pos s" "i - pos"] that by simp
      with None show ?thesis
        by (auto simp: bad_wildcard.simps [of s pos] find_str_from_def)
    next
      case (Some q)
      let ?p = "pos + q"
      have here: "is_prefix ''*.'' (drop ?p s)"
        using find_str_Some [OF Some] by (simp add: is_prefix_def add.commute)
      have before: "\<not> is_prefix ''*.'' (drop i s)" if "pos \<le> i" "i < ?p" for i
        using find_str_first [OF Some, of "i - pos"] that by simp
      have after: "\<not> is_prefix ''*.'' (drop (Suc ?p) s)"
        using star_dot_next [OF here] by simp
      have skip: "?p + 2 \<le> i" if "pos \<le> i" "is_prefix ''*.'' (drop i s)" "i \<noteq> ?p" for i
        using before [of i] after that by (cases "i = Suc ?p") force+
      have sub: "substr ?p 3 s = ''*.*'' \<longleftrightarrow> is_prefix ''*.*'' (drop ?p s)"
        by (simp add: substr_def is_prefix_def eval_nat_numeral)
      have step: "bad_wildcard s pos \<longleftrightarrow>
          \<not> is_prefix ''*.*'' (drop ?p s) \<or> bad_wildcard s (?p + 2)"
        using Some by (simp add: bad_wildcard.simps [of s pos] find_str_from_def sub)
      show ?thesis
      proof (cases "is_prefix ''*.*'' (drop ?p s)")
        case False
        with step here show ?thesis by (auto intro: exI [of _ ?p])
      next
        case True
        with Some have IH: "bad_wildcard s (?p + 2) \<longleftrightarrow>
            (\<exists>i \<ge> ?p + 2. is_prefix ''*.'' (drop i s) \<and> \<not> is_prefix ''*.*'' (drop i s))"
          by (intro "1.IH") (simp_all add: find_str_from_def sub)
        with step True skip show ?thesis by (metis add_leD1 trans_le_add1)
      qed
    qed
  qed
  show ?thesis by (simp add: gen)
qed

end
