(* ===== verification/UR_Registry.thy ===== *)
theory UR_Registry
  imports UR_Select
begin

text \<open>
  Adapter discovery: \<open>ur_loader::FilterTerm\<close> and \<open>ur_loader::AdapterRegistry\<close>
  (source/loader/ur_adapter_registry.hpp), the manifest table (source/loader/ur_manifests.hpp) and
  \<open>ur_loader::context_t::init\<close> (source/loader/ur_loader.cpp), on Linux. The file system, the
  directory of the loader library, the dynamic linker and the build options are the fields of the
  parameter \<open>host\<close>. A path is its string.
\<close>

section \<open>Paths\<close>

text \<open>
  \<open>operator/\<close>, \<open>filename\<close> and \<open>extension\<close> of \<open>std::filesystem::path\<close> for POSIX paths.
\<close>

abbreviation slash :: char where "slash \<equiv> CHR ''/''"
abbreviation dot :: char where "dot \<equiv> CHR ''.''"

definition path_append :: "string \<Rightarrow> string \<Rightarrow> string" where
  "path_append p q =
     (if q \<noteq> [] \<and> hd q = slash then q
      else if p = [] \<or> last p = slash then p @ q
      else p @ [slash] @ q)"

definition path_filename :: "string \<Rightarrow> string" where
  "path_filename p = (case rfind_char slash p of None \<Rightarrow> p | Some i \<Rightarrow> drop (Suc i) p)"

definition path_extension :: "string \<Rightarrow> string" where
  "path_extension p =
     (let f = path_filename p
      in if f = ''.'' \<or> f = ''..'' then []
         else case rfind_char dot f of
                None \<Rightarrow> []
              | Some i \<Rightarrow> if i = 0 then [] else drop i f)"

section \<open>Manifests and filter terms\<close>

record ur_adapter_manifest =
  man_name :: string
  man_library :: string
  man_backend :: ur_backend
  man_device_types :: "ur_device_type list"

text \<open>\<open>MAKE_LIBRARY_NAME(NAME, "0")\<close> on Linux, without the debug postfix.\<close>

definition make_library_name :: "string \<Rightarrow> string" where
  "make_library_name name = ''lib'' @ name @ ''.so.0''"

definition ur_adapter_manifests :: "ur_adapter_manifest list" where
  "ur_adapter_manifests =
     [\<lparr>man_name = ''opencl'', man_library = make_library_name ''ur_adapter_opencl'',
       man_backend = UR_BACKEND_OPENCL,
       man_device_types = [UR_DEVICE_TYPE_CPU, UR_DEVICE_TYPE_GPU, UR_DEVICE_TYPE_FPGA,
         UR_DEVICE_TYPE_MCA, UR_DEVICE_TYPE_VPU, UR_DEVICE_TYPE_CUSTOM]\<rparr>,
      \<lparr>man_name = ''cuda'', man_library = make_library_name ''ur_adapter_cuda'',
       man_backend = UR_BACKEND_CUDA, man_device_types = [UR_DEVICE_TYPE_GPU]\<rparr>,
      \<lparr>man_name = ''hip'', man_library = make_library_name ''ur_adapter_hip'',
       man_backend = UR_BACKEND_HIP, man_device_types = [UR_DEVICE_TYPE_GPU]\<rparr>,
      \<lparr>man_name = ''level_zero'', man_library = make_library_name ''ur_adapter_level_zero'',
       man_backend = UR_BACKEND_LEVEL_ZERO,
       man_device_types = [UR_DEVICE_TYPE_CPU, UR_DEVICE_TYPE_GPU, UR_DEVICE_TYPE_FPGA,
         UR_DEVICE_TYPE_MCA, UR_DEVICE_TYPE_VPU]\<rparr>,
      \<lparr>man_name = ''level_zero_v2'', man_library = make_library_name ''ur_adapter_level_zero_v2'',
       man_backend = UR_BACKEND_LEVEL_ZERO,
       man_device_types = [UR_DEVICE_TYPE_CPU, UR_DEVICE_TYPE_GPU, UR_DEVICE_TYPE_FPGA,
         UR_DEVICE_TYPE_MCA, UR_DEVICE_TYPE_VPU]\<rparr>,
      \<lparr>man_name = ''native_cpu'', man_library = make_library_name ''ur_adapter_native_cpu'',
       man_backend = UR_BACKEND_NATIVE_CPU, man_device_types = [UR_DEVICE_TYPE_CPU]\<rparr>,
      \<lparr>man_name = ''offload'', man_library = make_library_name ''ur_adapter_offload'',
       man_backend = UR_BACKEND_OFFLOAD,
       man_device_types = [UR_DEVICE_TYPE_CPU, UR_DEVICE_TYPE_GPU]\<rparr>]"

record filter_term =
  ft_backend :: string
  ft_devices :: "string list"

definition backendNameMap :: "(string \<times> ur_backend) list" where
  "backendNameMap =
     [(''opencl'', UR_BACKEND_OPENCL), (''level_zero'', UR_BACKEND_LEVEL_ZERO),
      (''cuda'', UR_BACKEND_CUDA), (''hip'', UR_BACKEND_HIP),
      (''native_cpu'', UR_BACKEND_NATIVE_CPU), (''offload'', UR_BACKEND_OFFLOAD)]"

definition deviceTypeMap :: "(string \<times> ur_device_type) list" where
  "deviceTypeMap =
     [(''cpu'', UR_DEVICE_TYPE_CPU), (''gpu'', UR_DEVICE_TYPE_GPU), (''fpga'', UR_DEVICE_TYPE_FPGA)]"

definition matchesBackend :: "filter_term \<Rightarrow> ur_backend \<Rightarrow> bool" where
  "matchesBackend f match_backend =
     (if front (ft_backend f) = CHR ''*'' then True
      else case map_of backendNameMap (ft_backend f) of
             None \<Rightarrow> False
           | Some b \<Rightarrow> b = match_backend)"

fun matches_any_device :: "ur_device_type \<Rightarrow> string list \<Rightarrow> bool" where
  "matches_any_device match_device [] = False"
| "matches_any_device match_device (s # rest) =
     (if front s = CHR ''*'' \<or> isdigit (front s) then True
      else case map_of deviceTypeMap s of
             None \<Rightarrow> matches_any_device match_device rest
           | Some t \<Rightarrow> if t = match_device then True else matches_any_device match_device rest)"

definition matchesDevices :: "filter_term \<Rightarrow> ur_device_type \<Rightarrow> bool" where
  "matchesDevices f match_device = matches_any_device match_device (ft_devices f)"

definition ft_matches :: "filter_term \<Rightarrow> ur_backend \<times> ur_device_type \<Rightarrow> bool" where
  "ft_matches f tuple =
     (if \<not> matchesBackend f (fst tuple) then False else matchesDevices f (snd tuple))"

section \<open>The pre-filter\<close>

definition default_ods :: env_var_map where
  "default_ods = [(''*'', [''*''])]"

definition legal_backend :: "string \<Rightarrow> bool" where
  "legal_backend k =
     (k = ''*'' \<or> k = ''!*'' \<or>
      list_ex (\<lambda>m. k = man_name m \<or> k = ''!'' @ man_name m) ur_adapter_manifests)"

text \<open>The map the terms are read from: malformed, unset or naming an unknown backend is the default.\<close>

definition prefilter_map :: "environment \<Rightarrow> env_var_map" where
  "prefilter_map env =
     (let odsEnvMap = (case getenv_to_map env ''ONEAPI_DEVICE_SELECTOR'' False True False of
                         Inl _ \<Rightarrow> None | Inr m \<Rightarrow> m);
          mapODS = (case odsEnvMap of Some m \<Rightarrow> m | None \<Rightarrow> default_ods)
      in if list_all (\<lambda>e. legal_backend (fst e)) mapODS then mapODS else default_ods)"

fun split_terms ::
  "env_var_map \<Rightarrow> filter_term list \<Rightarrow> filter_term list \<Rightarrow> filter_term list \<times> filter_term list" where
  "split_terms [] positive negative = (positive, negative)"
| "split_terms (e # rest) positive negative =
     (let backend = fst e
      in if backend = [] then split_terms rest positive negative
         else if front backend \<noteq> CHR ''!''
         then split_terms rest
                (positive @ [\<lparr>ft_backend = to_lower backend, ft_devices = snd e\<rparr>]) negative
         else split_terms rest positive
                (negative @ [\<lparr>ft_backend = to_lower (tl backend), ft_devices = snd e\<rparr>]))"

definition insert_library ::
  "filter_term list \<Rightarrow> filter_term list \<Rightarrow> string list \<Rightarrow> ur_adapter_manifest \<times> ur_device_type
     \<Rightarrow> string list" where
  "insert_library positive negative names md =
     (let single_device = (man_backend (fst md), snd md)
      in if list_ex (\<lambda>f. ft_matches f single_device) positive
            \<and> \<not> list_ex (\<lambda>f. ft_matches f single_device) negative
         then insort_insert (man_library (fst md)) names
         else names)"

definition getFilteredAdapterNames :: "environment \<Rightarrow> string list" where
  "getFilteredAdapterNames env =
     (let (positive, negative) = split_terms (prefilter_map env) [] [];
          positive' = (if positive = [] then [\<lparr>ft_backend = ''*'', ft_devices = [''*'']\<rparr>] else positive)
      in foldl (insert_library positive' negative) []
           (concat (map (\<lambda>m. map (Pair m) (man_device_types m)) ur_adapter_manifests)))"

section \<open>The registry\<close>

record host =
  fs_exists :: "string \<Rightarrow> cpp_exn + bool"
  loaderLibPath :: "string option"
  loaderDirFirst :: bool
  staticAdapters :: "string list"
  loadAdapterLibrary :: "string \<Rightarrow> bool"

record registry =
  adaptersLoadPaths :: "string list list"
  forceLoaded :: bool
  staticLoadedAdapters :: "string list"

fun existing_paths :: "host \<Rightarrow> string list \<Rightarrow> cpp_exn + string list" where
  "existing_paths h [] = Inr []"
| "existing_paths h (p # ps) =
     (case fs_exists h p of
        Inl e \<Rightarrow> Inl e
      | Inr b \<Rightarrow>
          (case existing_paths h ps of
             Inl e \<Rightarrow> Inl e
           | Inr qs \<Rightarrow> Inr (if b then p # qs else qs)))"

definition getEnvAdapterSearchPaths :: "host \<Rightarrow> environment \<Rightarrow> cpp_exn + string list option" where
  "getEnvAdapterSearchPaths h env =
     (case getenv_to_vec env ''UR_ADAPTERS_SEARCH_PATH'' of
        Inl _ \<Rightarrow> Inr None
      | Inr None \<Rightarrow> Inr None
      | Inr (Some ss) \<Rightarrow>
          (case existing_paths h ss of
             Inl e \<Rightarrow> Inl e
           | Inr paths \<Rightarrow> Inr (if paths = [] then None else Some paths)))"

text \<open>\<open>getAdapterNameAsPath\<close> of source/loader/linux/adapter_search.cpp never fails.\<close>

definition getAdapterNameAsPath :: "string \<Rightarrow> string option" where
  "getAdapterNameAsPath adapterName = Some adapterName"

definition load_paths :: "host \<Rightarrow> string list option \<Rightarrow> string \<Rightarrow> string list" where
  "load_paths h searchPathsEnvOpt adapterName =
     (let fromEnv = (case searchPathsEnvOpt of
                       None \<Rightarrow> [] | Some ps \<Rightarrow> map (\<lambda>p. path_append p adapterName) ps);
          os = (case getAdapterNameAsPath adapterName of None \<Rightarrow> [] | Some p \<Rightarrow> [p]);
          lib = (case loaderLibPath h of None \<Rightarrow> [] | Some d \<Rightarrow> [path_append d adapterName])
      in fromEnv @ (if loaderDirFirst h then lib @ os else os @ lib))"

definition adapter_names :: "environment \<Rightarrow> string list" where
  "adapter_names env =
     (if getenv_tobool env ''UR_LOADER_PRELOAD_FILTER'' True then getFilteredAdapterNames env
      else foldl (\<lambda>names m. insort_insert (man_library m) names) [] ur_adapter_manifests)"

definition discoverKnownAdapters :: "host \<Rightarrow> environment \<Rightarrow> registry \<Rightarrow> cpp_exn + registry" where
  "discoverKnownAdapters h env r =
     (case getEnvAdapterSearchPaths h env of
        Inl e \<Rightarrow> Inl e
      | Inr searchPathsEnvOpt \<Rightarrow>
          Inr (r\<lparr>adaptersLoadPaths :=
                   adaptersLoadPaths r @ map (load_paths h searchPathsEnvOpt) (adapter_names env)\<rparr>))"

fun force_load :: "host \<Rightarrow> string list \<Rightarrow> registry \<Rightarrow> registry" where
  "force_load h [] r = r"
| "force_load h (s # rest) r =
     (if path_extension (path_filename s) = ''.a'' then force_load h rest r
      else case fs_exists h s of
             Inr True \<Rightarrow>
               force_load h rest
                 (r\<lparr>forceLoaded := True, adaptersLoadPaths := adaptersLoadPaths r @ [[s]]\<rparr>)
           | _ \<Rightarrow> force_load h rest r)"

definition AdapterRegistry :: "host \<Rightarrow> environment \<Rightarrow> cpp_exn + registry" where
  "AdapterRegistry h env =
     (let r = \<lparr>adaptersLoadPaths = [], forceLoaded = False, staticLoadedAdapters = []\<rparr>
      in case getenv_to_vec env ''UR_ADAPTERS_FORCE_LOAD'' of
           Inr (Some ss) \<Rightarrow> Inr (force_load h ss r)
         | _ \<Rightarrow> discoverKnownAdapters h env r)"

definition markAdapterAsStaticallyLoaded :: "string \<Rightarrow> registry \<Rightarrow> registry" where
  "markAdapterAsStaticallyLoaded adapterName r =
     r\<lparr>staticLoadedAdapters := insort_insert adapterName (staticLoadedAdapters r)\<rparr>"

definition isStaticallyLoaded :: "registry \<Rightarrow> string \<Rightarrow> bool" where
  "isStaticallyLoaded r adapterPath =
     list_ex (\<lambda>name. find_str name adapterPath \<noteq> None) (staticLoadedAdapters r)"

definition includesAdapter :: "registry \<Rightarrow> string \<Rightarrow> bool" where
  "includesAdapter r adapterName =
     list_ex (list_ex (\<lambda>path. find_str adapterName path \<noteq> None)) (adaptersLoadPaths r)"

definition enableMock :: "host \<Rightarrow> registry \<Rightarrow> registry" where
  "enableMock h r =
     (let mock = make_library_name ''ur_adapter_mock''
      in r\<lparr>adaptersLoadPaths :=
             [mock # (case loaderLibPath h of None \<Rightarrow> [] | Some d \<Rightarrow> [path_append d mock])],
           forceLoaded := True\<rparr>)"

section \<open>The loader context\<close>

datatype platform = Static_adapter string | Dynamic_adapter string

record loader_context =
  platforms :: "platform list"
  adapter_registry :: registry
  forceIntercept :: bool
  intercept_enabled :: bool

text \<open>
  The three conditional blocks for statically linked adapters have one shape;
  \<open>staticAdapters\<close> lists the ones of the build, in the order of the blocks.
\<close>

definition static_adapter_order :: "string list" where
  "static_adapter_order = [''ur_adapter_level_zero'', ''ur_adapter_level_zero_v2'', ''ur_adapter_opencl'']"

definition register_static :: "loader_context \<Rightarrow> string \<Rightarrow> loader_context" where
  "register_static c name =
     (if includesAdapter (adapter_registry c) name
      then c\<lparr>platforms := platforms c @ [Static_adapter name],
             adapter_registry := markAdapterAsStaticallyLoaded name (adapter_registry c)\<rparr>
      else c)"

definition load_dynamic :: "host \<Rightarrow> registry \<Rightarrow> string list \<Rightarrow> platform list" where
  "load_dynamic h r adapterPaths =
     (if adapterPaths \<noteq> [] \<and> isStaticallyLoaded r (hd adapterPaths) then []
      else case find (loadAdapterLibrary h) adapterPaths of
             None \<Rightarrow> []
           | Some p \<Rightarrow> [Dynamic_adapter p])"

definition loader_init :: "host \<Rightarrow> environment \<Rightarrow> loader_context \<Rightarrow> ur_result \<times> loader_context" where
  "loader_init h env c =
     (let c1 = (if \<not> forceLoaded (adapter_registry c)
                then foldl register_static c
                       (filter (\<lambda>n. n \<in> set (staticAdapters h)) static_adapter_order)
                else c);
          r = adapter_registry c1;
          ps = platforms c1 @ concat (map (load_dynamic h r) (adaptersLoadPaths r));
          fi = getenv_tobool env ''UR_ENABLE_LOADER_INTERCEPT'' False
      in (UR_RESULT_SUCCESS,
          c1\<lparr>platforms := ps, forceIntercept := fi,
             intercept_enabled := (if fi \<or> length ps > 1 then True else intercept_enabled c1)\<rparr>))"

section \<open>The pre-filter keeps what the terms ask for\<close>

definition term_of :: "string \<times> string list \<Rightarrow> filter_term" where
  "term_of e =
     \<lparr>ft_backend = to_lower (if front (fst e) = CHR ''!'' then tl (fst e) else fst e),
      ft_devices = snd e\<rparr>"

definition positive_entry :: "string \<times> string list \<Rightarrow> bool" where
  "positive_entry e \<longleftrightarrow> fst e \<noteq> [] \<and> front (fst e) \<noteq> CHR ''!''"

definition negative_entry :: "string \<times> string list \<Rightarrow> bool" where
  "negative_entry e \<longleftrightarrow> fst e \<noteq> [] \<and> front (fst e) = CHR ''!''"

lemma split_terms_eq:
  "split_terms es ps ns =
     (ps @ map term_of (filter positive_entry es), ns @ map term_of (filter negative_entry es))"
  by (induction es arbitrary: ps ns)
    (auto simp: term_of_def positive_entry_def negative_entry_def Let_def)

lemma foldl_insert_library:
  "set (foldl (insert_library ps ns) names mds) =
     set names \<union> {man_library m | m t. (m, t) \<in> set mds
        \<and> list_ex (\<lambda>f. ft_matches f (man_backend m, t)) ps
        \<and> \<not> list_ex (\<lambda>f. ft_matches f (man_backend m, t)) ns}"
proof (induction mds arbitrary: names)
  case Nil
  then show ?case by simp
next
  case (Cons md mds)
  obtain m t where [simp]: "md = (m, t)" by (cases md)
  have step: "set (insert_library ps ns names (m, t)) =
      set names \<union> (if list_ex (\<lambda>f. ft_matches f (man_backend m, t)) ps
                     \<and> \<not> list_ex (\<lambda>f. ft_matches f (man_backend m, t)) ns then {man_library m} else {})"
    by (simp add: insert_library_def Let_def set_insort_insert)
  show ?case
    by (simp add: Cons.IH step) blast
qed

lemma foldl_insert_library_sorted:
  "sorted names \<Longrightarrow> distinct names \<Longrightarrow>
     sorted (foldl (insert_library ps ns) names mds) \<and> distinct (foldl (insert_library ps ns) names mds)"
  by (induction mds arbitrary: names)
    (auto simp: insert_library_def Let_def sorted_insort_insert distinct_insort_insert)

text \<open>A manifest entry is wanted for a device type when a positive term, if there is one, matches it and no negative term does.\<close>

definition wanted :: "env_var_map \<Rightarrow> ur_backend \<Rightarrow> ur_device_type \<Rightarrow> bool" where
  "wanted mapODS b t \<longleftrightarrow>
     ((\<exists>e \<in> set mapODS. positive_entry e) \<longrightarrow>
        (\<exists>e \<in> set mapODS. positive_entry e \<and> ft_matches (term_of e) (b, t)))
     \<and> \<not> (\<exists>e \<in> set mapODS. negative_entry e \<and> ft_matches (term_of e) (b, t))"

lemma match_all: "ft_matches \<lparr>ft_backend = ''*'', ft_devices = [''*'']\<rparr> bt"
  by (simp add: ft_matches_def matchesBackend_def matchesDevices_def front_def)

lemma wanted_iff_terms:
  "wanted es b t \<longleftrightarrow>
     (let (ps, ns) = split_terms es [] [];
          ps' = (if ps = [] then [\<lparr>ft_backend = ''*'', ft_devices = [''*'']\<rparr>] else ps)
      in list_ex (\<lambda>f. ft_matches f (b, t)) ps' \<and> \<not> list_ex (\<lambda>f. ft_matches f (b, t)) ns)"
  by (auto simp: wanted_def split_terms_eq list_ex_iff match_all filter_empty_conv)

lemma getFilteredAdapterNames_set:
  "set (getFilteredAdapterNames env) =
     {man_library m | m t. m \<in> set ur_adapter_manifests \<and> t \<in> set (man_device_types m)
        \<and> wanted (prefilter_map env) (man_backend m) t}"
  unfolding getFilteredAdapterNames_def wanted_iff_terms
  by (simp add: foldl_insert_library split_beta Let_def image_iff)

lemma getFilteredAdapterNames_sorted:
  "sorted (getFilteredAdapterNames env) \<and> distinct (getFilteredAdapterNames env)"
  unfolding getFilteredAdapterNames_def
  by (simp add: foldl_insert_library_sorted split_beta Let_def)

text \<open>
  The pre-filter keeps exactly the adapter libraries of the manifest table that have a device
  type matched by some positive term of ONEAPI_DEVICE_SELECTOR (by every type when it has no
  positive term) and by no negative term, each library once and in the order of \<open>std::set\<close>.
\<close>

theorem getFilteredAdapterNames_spec:
  "sorted (getFilteredAdapterNames env) \<and> distinct (getFilteredAdapterNames env)
   \<and> set (getFilteredAdapterNames env) =
       {man_library m | m t. m \<in> set ur_adapter_manifests \<and> t \<in> set (man_device_types m)
          \<and> wanted (prefilter_map env) (man_backend m) t}"
  using getFilteredAdapterNames_sorted getFilteredAdapterNames_set by blast

lemma manifest_libraries_distinct: "distinct (map man_library ur_adapter_manifests)"
  by code_simp

lemma matches_any_device_index: "v \<in> set vs \<Longrightarrow> isdigit (front v) \<Longrightarrow> matches_any_device t vs"
  by (induction vs) (auto split: option.splits)

text \<open>
  A negative term with a device index removes the whole adapter. The pre-filter cannot see
  indices and matches any number, so \<open>!cuda:0\<close>, which discards one device in
  \<open>urDeviceGetSelected\<close>, keeps the library of the backend from being loaded at all.
\<close>

theorem negative_index_drops_adapter:
  assumes "(CHR ''!'' # name, vs) \<in> set (prefilter_map env)" and "v \<in> set vs" and "isdigit (front v)"
    and "map_of backendNameMap (to_lower name) = Some b"
    and "m \<in> set ur_adapter_manifests" and "man_backend m = b"
  shows "man_library m \<notin> set (getFilteredAdapterNames env)"
proof -
  have inj: "m' = m" if "m' \<in> set ur_adapter_manifests" "man_library m' = man_library m" for m'
    using that assms(5) manifest_libraries_distinct by (auto simp: distinct_map dest: inj_onD)
  have "negative_entry (CHR ''!'' # name, vs)"
    by (simp add: negative_entry_def front_def)
  moreover have "ft_matches (term_of (CHR ''!'' # name, vs)) (b, t)" for t
    using assms(4) matches_any_device_index [OF assms(2,3)]
    by (simp add: ft_matches_def matchesBackend_def matchesDevices_def term_of_def front_def)
  ultimately have "\<not> wanted (prefilter_map env) b t" for t
    using assms(1) by (auto simp: wanted_def)
  with assms(6) inj show ?thesis
    by (auto simp: getFilteredAdapterNames_set)
qed

definition ods_env :: "string \<Rightarrow> environment" where
  "ods_env s = (\<lambda>n. if n = ''ONEAPI_DEVICE_SELECTOR'' then Some s else None)"

lemma prefilter_negative_index: "prefilter_map (ods_env ''!cuda:0'') = [(''!cuda'', [''0''])]"
  by code_simp

theorem negative_index_drops_adapter_witness:
  "make_library_name ''ur_adapter_cuda'' \<notin> set (getFilteredAdapterNames (ods_env ''!cuda:0''))"
proof -
  have "ur_adapter_manifests ! 1 \<in> set ur_adapter_manifests"
    by (simp add: ur_adapter_manifests_def)
  moreover have "man_backend (ur_adapter_manifests ! 1) = UR_BACKEND_CUDA"
    "man_library (ur_adapter_manifests ! 1) = make_library_name ''ur_adapter_cuda''"
    by (simp_all add: ur_adapter_manifests_def)
  moreover have "map_of backendNameMap (to_lower ''cuda'') = Some UR_BACKEND_CUDA"
    by code_simp
  moreover have "isdigit (front ''0'')"
    by code_simp
  ultimately show ?thesis
    using negative_index_drops_adapter [of "''cuda''" "[''0'']" "ods_env ''!cuda:0''" "''0''"
        UR_BACKEND_CUDA "ur_adapter_manifests ! 1"] prefilter_negative_index
    by simp
qed

text \<open>
  The name \<open>level_zero_v2\<close> passes the check of backend names but is no key of
  \<open>backendNameMap\<close>: a selector whose only positive terms name it leaves no adapter to load.
\<close>

theorem level_zero_v2_selects_nothing:
  assumes "prefilter_map env = [(''level_zero_v2'', vs)]"
  shows "getFilteredAdapterNames env = []"
proof -
  have "\<not> ft_matches (term_of (''level_zero_v2'', vs)) bt" for bt
    by (simp add: ft_matches_def matchesBackend_def term_of_def front_def backendNameMap_def
        to_lower_def tolower_def)
  moreover have "positive_entry (''level_zero_v2'', vs)"
    by (simp add: positive_entry_def front_def)
  ultimately have "\<not> wanted (prefilter_map env) b t" for b t
    using assms by (simp add: wanted_def)
  then have "set (getFilteredAdapterNames env) = {}"
    by (auto simp: getFilteredAdapterNames_set)
  then show ?thesis by simp
qed

theorem level_zero_v2_selects_nothing_witness:
  "getFilteredAdapterNames (ods_env ''level_zero_v2:gpu'') = []"
proof (rule level_zero_v2_selects_nothing)
  show "prefilter_map (ods_env ''level_zero_v2:gpu'') = [(''level_zero_v2'', [''gpu''])]"
    by code_simp
qed

section \<open>Candidate paths\<close>

lemma path_filename_dir: "slash \<notin> set n \<Longrightarrow> path_filename (p @ slash # n) = n"
  using find_char_append [of slash "rev n" "rev p"]
  by (simp add: path_filename_def rfind_char_def)

lemma path_filename_plain: "slash \<notin> set n \<Longrightarrow> path_filename n = n"
  by (simp add: path_filename_def rfind_char_def find_char_None [THEN iffD2])

lemma path_filename_append:
  assumes "slash \<notin> set n"
  shows "path_filename (path_append p n) = n"
proof (cases p rule: rev_cases)
  case Nil
  with assms show ?thesis by (auto simp: path_append_def path_filename_plain)
next
  case (snoc q c)
  have "hd n \<noteq> slash" if "n \<noteq> []"
    using assms that by (cases n) auto
  with snoc assms path_filename_dir [OF assms, of q] path_filename_dir [OF assms, of p]
  show ?thesis by (auto simp: path_append_def)
qed

lemma load_paths_filename:
  "slash \<notin> set n \<Longrightarrow> load_paths h sp n \<noteq> [] \<and> (\<forall>p \<in> set (load_paths h sp n). path_filename p = n)"
  by (auto simp: load_paths_def getAdapterNameAsPath_def Let_def path_filename_append path_filename_plain
      split: option.splits)

lemma manifest_library_no_slash: "m \<in> set ur_adapter_manifests \<Longrightarrow> slash \<notin> set (man_library m)"
  by (auto simp: ur_adapter_manifests_def make_library_name_def)

lemma foldl_insert_set:
  "sorted names \<Longrightarrow> distinct names \<Longrightarrow>
     sorted (foldl (\<lambda>ns m. insort_insert (f m) ns) names ms)
     \<and> distinct (foldl (\<lambda>ns m. insort_insert (f m) ns) names ms)
     \<and> set (foldl (\<lambda>ns m. insort_insert (f m) ns) names ms) = set names \<union> f ` set ms"
  by (induction ms arbitrary: names)
    (simp_all add: sorted_insort_insert distinct_insort_insert set_insort_insert)

lemma adapter_names_ok:
  "sorted (adapter_names env) \<and> distinct (adapter_names env)
   \<and> set (adapter_names env) \<subseteq> man_library ` set ur_adapter_manifests"
  using getFilteredAdapterNames_sorted [of env] foldl_insert_set [of "[]" man_library ur_adapter_manifests]
  by (auto simp: adapter_names_def getFilteredAdapterNames_set)

text \<open>
  Without forced loading, the registry has one candidate list per selected adapter, in the
  order of the library names and without repetition; every list is non-empty and each of its
  candidates is a file with the name of that adapter's library, so the loader never opens a
  library outside the manifest table.
\<close>

theorem discovered_candidates:
  assumes "AdapterRegistry h env = Inr r" and "ur_getenv env ''UR_ADAPTERS_FORCE_LOAD'' = None"
  shows "\<exists>names. sorted names \<and> distinct names \<and> set names \<subseteq> man_library ` set ur_adapter_manifests
           \<and> list_all2 (\<lambda>n ps. ps \<noteq> [] \<and> (\<forall>p \<in> set ps. path_filename p = n)) names (adaptersLoadPaths r)
           \<and> \<not> forceLoaded r"
proof -
  from assms obtain sp where r: "r = \<lparr>adaptersLoadPaths = map (load_paths h sp) (adapter_names env),
      forceLoaded = False, staticLoadedAdapters = []\<rparr>"
    by (auto simp: AdapterRegistry_def getenv_to_vec_def discoverKnownAdapters_def Let_def split: sum.splits)
  have "load_paths h sp n \<noteq> [] \<and> (\<forall>p \<in> set (load_paths h sp n). path_filename p = n)"
    if "n \<in> set (adapter_names env)" for n
    using that adapter_names_ok [of env] manifest_library_no_slash by (intro load_paths_filename) auto
  then have "list_all2 (\<lambda>n ps. ps \<noteq> [] \<and> (\<forall>p \<in> set ps. path_filename p = n))
      (adapter_names env) (map (load_paths h sp) (adapter_names env))"
    by (simp add: list_all2_conv_all_nth)
  with r adapter_names_ok [of env] show ?thesis by fastforce
qed

definition demo_host :: host where
  "demo_host =
     \<lparr>fs_exists = (\<lambda>_. Inr True), loaderLibPath = Some ''/opt/ur'', loaderDirFirst = True,
      staticAdapters = [''ur_adapter_level_zero''], loadAdapterLibrary = (\<lambda>p. hd p = slash)\<rparr>"

theorem discovered_candidates_witness:
  "\<exists>r. AdapterRegistry demo_host (ods_env ''hip:*'') = Inr r
     \<and> adaptersLoadPaths r = [[''/opt/ur/libur_adapter_hip.so.0'', ''libur_adapter_hip.so.0'']]
     \<and> (\<exists>names. sorted names \<and> distinct names \<and> set names \<subseteq> man_library ` set ur_adapter_manifests
          \<and> list_all2 (\<lambda>n ps. ps \<noteq> [] \<and> (\<forall>p \<in> set ps. path_filename p = n)) names (adaptersLoadPaths r)
          \<and> \<not> forceLoaded r)"
proof -
  have r: "AdapterRegistry demo_host (ods_env ''hip:*'') =
      Inr \<lparr>adaptersLoadPaths = [[''/opt/ur/libur_adapter_hip.so.0'', ''libur_adapter_hip.so.0'']],
           forceLoaded = False, staticLoadedAdapters = []\<rparr>"
    by code_simp
  have "ur_getenv (ods_env ''hip:*'') ''UR_ADAPTERS_FORCE_LOAD'' = None"
    by (simp add: ur_getenv_def ods_env_def)
  from discovered_candidates [OF r this] r show ?thesis by auto
qed

section \<open>Loading\<close>

text \<open>
  In a build without statically linked adapters, initialisation appends for every candidate
  list, in order, the first candidate that the dynamic linker opens and nothing when none does;
  calls are intercepted exactly when the environment forces it or more than one adapter is present.
\<close>

theorem loader_init_dynamic:
  assumes "staticAdapters h = []" and "staticLoadedAdapters (adapter_registry c) = []"
    and "platforms c = []" and "\<not> intercept_enabled c"
  shows "platforms (snd (loader_init h env c)) =
           map Dynamic_adapter (List.map_filter (find (loadAdapterLibrary h)) (adaptersLoadPaths (adapter_registry c)))
         \<and> (intercept_enabled (snd (loader_init h env c)) \<longleftrightarrow>
              getenv_tobool env ''UR_ENABLE_LOADER_INTERCEPT'' False \<or> length (platforms (snd (loader_init h env c))) > 1)"
proof -
  have "concat (map (load_dynamic h r) pss) =
      map Dynamic_adapter (List.map_filter (find (loadAdapterLibrary h)) pss)"
    if "staticLoadedAdapters r = []" for r pss
    using that
    by (induction pss)
      (auto simp: load_dynamic_def isStaticallyLoaded_def map_filter_simps split: option.splits)
  with assms show ?thesis
    by (simp add: loader_init_def Let_def)
qed

definition dynamic_host :: host where
  "dynamic_host = demo_host\<lparr>staticAdapters := []\<rparr>"

definition demo_context :: loader_context where
  "demo_context =
     \<lparr>platforms = [],
      adapter_registry = \<lparr>adaptersLoadPaths = [[''a.so'', ''/opt/a.so''], [''b.so'']],
                          forceLoaded = False, staticLoadedAdapters = []\<rparr>,
      forceIntercept = False, intercept_enabled = False\<rparr>"

theorem loader_init_dynamic_witness:
  "platforms (snd (loader_init dynamic_host (\<lambda>_. None) demo_context)) = [Dynamic_adapter ''/opt/a.so'']"
  using loader_init_dynamic [of dynamic_host demo_context "\<lambda>_. None"]
  by (simp add: dynamic_host_def demo_host_def demo_context_def map_filter_simps)

lemma find_str_infix: "find_str t s \<noteq> None \<longleftrightarrow> (\<exists>a b. s = a @ t @ b)"
proof
  assume "find_str t s \<noteq> None"
  then obtain p where "find_str t s = Some p" by blast
  then have "take (length t) (drop p s) = t"
    using find_str_Some by blast
  then have "s = take p s @ t @ drop (length t) (drop p s)"
    by (metis append_take_drop_id)
  then show "\<exists>a b. s = a @ t @ b" by blast
next
  assume "\<exists>a b. s = a @ t @ b"
  then obtain a b where "s = a @ t @ b" by blast
  then show "find_str t s \<noteq> None"
    by (induction a arbitrary: s) (cases t; cases b; auto simp: is_prefix_def)+
qed

lemma find_str_trans: "find_str u t \<noteq> None \<Longrightarrow> find_str t s \<noteq> None \<Longrightarrow> find_str u s \<noteq> None"
  unfolding find_str_infix by (metis append.assoc)

lemma register_static_keeps:
  "adaptersLoadPaths (adapter_registry (register_static c n)) = adaptersLoadPaths (adapter_registry c)
   \<and> set (staticLoadedAdapters (adapter_registry c))
       \<subseteq> set (staticLoadedAdapters (adapter_registry (register_static c n)))
   \<and> (includesAdapter (adapter_registry c) n \<longrightarrow>
        n \<in> set (staticLoadedAdapters (adapter_registry (register_static c n))))"
  by (auto simp: register_static_def markAdapterAsStaticallyLoaded_def set_insort_insert)

lemma foldl_register_static:
  "adaptersLoadPaths (adapter_registry (foldl register_static c ns)) = adaptersLoadPaths (adapter_registry c)
   \<and> set (staticLoadedAdapters (adapter_registry c))
       \<subseteq> set (staticLoadedAdapters (adapter_registry (foldl register_static c ns)))
   \<and> (\<forall>n \<in> set ns. includesAdapter (adapter_registry c) n \<longrightarrow>
        n \<in> set (staticLoadedAdapters (adapter_registry (foldl register_static c ns))))"
proof (induction ns arbitrary: c)
  case Nil
  then show ?case by simp
next
  case (Cons n ns)
  have same: "includesAdapter (adapter_registry (register_static c n)) k = includesAdapter (adapter_registry c) k" for k
    using register_static_keeps [of c n] by (simp add: includesAdapter_def)
  show ?case
    using Cons.IH [of "register_static c n"] register_static_keeps [of c n] same by auto
qed

text \<open>
  A build that links the first Level Zero adapter statically never loads the second one
  dynamically. The tests for a registered name look for substrings and the name of the first
  adapter is a prefix of the name of the second, so every candidate list of
  \<open>ur_adapter_level_zero_v2\<close> counts as already loaded.
\<close>

theorem static_level_zero_hides_v2:
  assumes "''ur_adapter_level_zero'' \<in> set (staticAdapters h)" and "\<not> forceLoaded (adapter_registry c)"
    and "ps \<in> set (adaptersLoadPaths (adapter_registry c))" and "ps \<noteq> []"
    and "find_str ''ur_adapter_level_zero_v2'' (hd ps) \<noteq> None"
  shows "load_dynamic h (adapter_registry (snd (loader_init h env c))) ps = []"
proof -
  let ?ns = "filter (\<lambda>n. n \<in> set (staticAdapters h)) static_adapter_order"
  have "find_str ''ur_adapter_level_zero'' ''ur_adapter_level_zero_v2'' \<noteq> None"
    by code_simp
  from find_str_trans [OF this assms(5)] have sub: "find_str ''ur_adapter_level_zero'' (hd ps) \<noteq> None" .
  with assms(3,4) have "includesAdapter (adapter_registry c) ''ur_adapter_level_zero''"
    by (auto simp: includesAdapter_def list_ex_iff intro!: bexI [of _ ps] bexI [of _ "hd ps"])
  moreover have "''ur_adapter_level_zero'' \<in> set ?ns"
    using assms(1) by (simp add: static_adapter_order_def)
  ultimately have "''ur_adapter_level_zero'' \<in>
      set (staticLoadedAdapters (adapter_registry (foldl register_static c ?ns)))"
    using foldl_register_static [of c ?ns] by blast
  with sub assms(2,4) show ?thesis
    by (auto simp: load_dynamic_def loader_init_def Let_def isStaticallyLoaded_def list_ex_iff)
qed

definition v2_context :: loader_context where
  "v2_context =
     demo_context\<lparr>adapter_registry := (adapter_registry demo_context)
       \<lparr>adaptersLoadPaths := [[''/opt/ur/libur_adapter_level_zero_v2.so.0'']]\<rparr>\<rparr>"

theorem static_level_zero_hides_v2_witness:
  "load_dynamic demo_host (adapter_registry (snd (loader_init demo_host (\<lambda>_. None) v2_context)))
     [''/opt/ur/libur_adapter_level_zero_v2.so.0''] = []
   \<and> platforms (snd (loader_init demo_host (\<lambda>_. None) v2_context)) = [Static_adapter ''ur_adapter_level_zero'']"
proof
  have "find_str ''ur_adapter_level_zero_v2'' ''/opt/ur/libur_adapter_level_zero_v2.so.0'' \<noteq> None"
    by code_simp
  then show "load_dynamic demo_host (adapter_registry (snd (loader_init demo_host (\<lambda>_. None) v2_context)))
      [''/opt/ur/libur_adapter_level_zero_v2.so.0''] = []"
    by (intro static_level_zero_hides_v2) (simp_all add: demo_host_def v2_context_def demo_context_def)
  show "platforms (snd (loader_init demo_host (\<lambda>_. None) v2_context)) = [Static_adapter ''ur_adapter_level_zero'']"
    by code_simp
qed

text \<open>
  After \<open>enableMock\<close>, whatever the registry held and whatever adapters the build links
  statically, initialising a fresh context registers at most one adapter, and it is the mock library.
\<close>

theorem mock_adapter_alone:
  assumes "platforms c = []" and "staticLoadedAdapters (adapter_registry c) = []"
  shows "length (platforms (snd (loader_init h env (c\<lparr>adapter_registry := enableMock h (adapter_registry c)\<rparr>)))) \<le> 1
       \<and> (\<forall>p \<in> set (platforms (snd (loader_init h env (c\<lparr>adapter_registry := enableMock h (adapter_registry c)\<rparr>)))).
            \<exists>path. p = Dynamic_adapter path \<and> path_filename path = make_library_name ''ur_adapter_mock'')"
proof -
  let ?mock = "make_library_name ''ur_adapter_mock''"
  have noslash: "slash \<notin> set ?mock" by (simp add: make_library_name_def)
  show ?thesis
    using assms path_filename_plain [OF noslash] path_filename_append [OF noslash]
    by (auto simp: loader_init_def Let_def enableMock_def load_dynamic_def isStaticallyLoaded_def
        split: option.splits)
qed

theorem mock_adapter_alone_witness:
  "platforms (snd (loader_init demo_host (\<lambda>_. None)
      (v2_context\<lparr>adapter_registry := enableMock demo_host (adapter_registry v2_context)\<rparr>)))
     = [Dynamic_adapter ''/opt/ur/libur_adapter_mock.so.0'']
   \<and> length (platforms (snd (loader_init demo_host (\<lambda>_. None)
      (v2_context\<lparr>adapter_registry := enableMock demo_host (adapter_registry v2_context)\<rparr>)))) \<le> 1"
proof
  show "platforms (snd (loader_init demo_host (\<lambda>_. None)
      (v2_context\<lparr>adapter_registry := enableMock demo_host (adapter_registry v2_context)\<rparr>)))
     = [Dynamic_adapter ''/opt/ur/libur_adapter_mock.so.0'']"
    by code_simp
  show "length (platforms (snd (loader_init demo_host (\<lambda>_. None)
      (v2_context\<lparr>adapter_registry := enableMock demo_host (adapter_registry v2_context)\<rparr>)))) \<le> 1"
    using mock_adapter_alone [of v2_context demo_host "\<lambda>_. None"]
    by (simp add: v2_context_def demo_context_def)
qed

end
