(* ===== verification/UR_Loader.thy ===== *)
theory UR_Loader
  imports UR_RefCount UR_Registry
begin

text \<open>
  The life cycle of the loader, source/loader/ur_lib.cpp and ur_lib.hpp: the loader configuration
  object (\<open>urLoaderConfigCreate\<close>, \<open>Retain\<close>, \<open>Release\<close>, \<open>GetInfo\<close>, \<open>EnableLayer\<close>,
  \<open>SetCodeLocationCallback\<close>, \<open>SetMockingEnabled\<close>) and the context (\<open>Init\<close>, \<open>initLayers\<close>,
  \<open>tearDownLayers\<close>, \<open>urLoaderInit\<close>, \<open>urLoaderTearDown\<close>). Configurations live in a heap from
  handles to objects; \<open>trace\<close> records the calls that leave the modelled code, in order. The
  generated \<open>ddiInit\<close> and the layers are parameters.
\<close>

section \<open>The configuration object\<close>

record codeloc_data =
  codelocCb :: nat
  codelocUserdata :: nat

record loader_config =
  enabledLayers :: "string list"
  refCount :: u32
  codelocData :: codeloc_data
  cfgEnableMock :: bool

type_synonym config_heap = "handle \<Rightarrow> loader_config option"

definition new_config :: loader_config where
  "new_config =
     \<lparr>enabledLayers = [], refCount = 1, codelocData = \<lparr>codelocCb = 0, codelocUserdata = 0\<rparr>,
      cfgEnableMock = False\<rparr>"

text \<open>\<open>fresh\<close> is the address \<open>new\<close> returns; \<open>ph\<close> says whether \<open>phLoaderConfig\<close> is non-null.\<close>

definition urLoaderConfigCreate :: "handle \<Rightarrow> bool \<Rightarrow> config_heap \<Rightarrow> ur_result \<times> handle option \<times> config_heap" where
  "urLoaderConfigCreate fresh ph H =
     (if \<not> ph then (UR_RESULT_ERROR_INVALID_NULL_POINTER, None, H)
      else (UR_RESULT_SUCCESS, Some fresh, H(fresh \<mapsto> new_config)))"

definition with_config :: "config_heap \<Rightarrow> handle \<Rightarrow> (loader_config \<Rightarrow> loader_config option) \<Rightarrow> config_heap" where
  "with_config H hLoaderConfig f =
     (case H hLoaderConfig of None \<Rightarrow> H | Some c \<Rightarrow> H(hLoaderConfig := f c))"

definition urLoaderConfigRetain :: "handle \<Rightarrow> config_heap \<Rightarrow> ur_result \<times> config_heap" where
  "urLoaderConfigRetain hLoaderConfig H =
     (if hLoaderConfig = 0 then (UR_RESULT_ERROR_INVALID_NULL_HANDLE, H)
      else (UR_RESULT_SUCCESS, with_config H hLoaderConfig (\<lambda>c. Some (c\<lparr>refCount := refCount c + 1\<rparr>))))"

definition urLoaderConfigRelease :: "handle \<Rightarrow> config_heap \<Rightarrow> ur_result \<times> config_heap" where
  "urLoaderConfigRelease hLoaderConfig H =
     (if hLoaderConfig = 0 then (UR_RESULT_ERROR_INVALID_NULL_HANDLE, H)
      else (UR_RESULT_SUCCESS,
            with_config H hLoaderConfig
              (\<lambda>c. let n = refCount c - 1 in if n = 0 then None else Some (c\<lparr>refCount := n\<rparr>))))"

datatype loader_config_info =
    UR_LOADER_CONFIG_INFO_AVAILABLE_LAYERS
  | UR_LOADER_CONFIG_INFO_REFERENCE_COUNT
  | UR_LOADER_CONFIG_INFO_FORCE_UINT32

datatype info_value = Info_chars string | Info_uint32 u32

record info_out =
  info_result :: ur_result
  info_value :: "info_value option"
  info_size :: "nat option"

text \<open>\<open>names\<close> lists \<open>getNames()\<close> of the layers of the build, in order; \<open>pop_back\<close> drops the last separator.\<close>

definition validation_names :: "string list" where
  "validation_names =
     [''UR_LAYER_FULL_VALIDATION'', ''UR_LAYER_PARAMETER_VALIDATION'', ''UR_LAYER_LEAK_CHECKING'',
      ''UR_LAYER_BOUNDS_CHECKING'', ''UR_LAYER_LIFETIME_VALIDATION'']"

definition tracing_names :: "string list" where
  "tracing_names = [''UR_LAYER_TRACING'']"

definition sanitizer_names :: "string list" where
  "sanitizer_names = [''UR_LAYER_ASAN'', ''UR_LAYER_MSAN'', ''UR_LAYER_TSAN'']"

definition availableLayers :: "bool \<Rightarrow> bool \<Rightarrow> string" where
  "availableLayers enable_tracing enable_sanitizer =
     butlast (concat (map (\<lambda>name. name @ '';'')
       (validation_names @ (if enable_tracing then tracing_names else [])
          @ (if enable_sanitizer then sanitizer_names else []))))"

definition urLoaderConfigGetInfo ::
  "string \<Rightarrow> config_heap \<Rightarrow> handle \<Rightarrow> loader_config_info \<Rightarrow> nat \<Rightarrow> bool \<Rightarrow> bool \<Rightarrow> info_out" where
  "urLoaderConfigGetInfo available H hLoaderConfig propName propSize pPropValue pPropSizeRet =
     (if hLoaderConfig = 0
      then \<lparr>info_result = UR_RESULT_ERROR_INVALID_NULL_HANDLE, info_value = None, info_size = None\<rparr>
      else if \<not> pPropValue \<and> \<not> pPropSizeRet
      then \<lparr>info_result = UR_RESULT_ERROR_INVALID_NULL_POINTER, info_value = None, info_size = None\<rparr>
      else let answer = (\<lambda>truePropSize v.
             let sz = (if pPropSizeRet then Some truePropSize else None)
             in if pPropValue
                then (if propSize \<noteq> truePropSize
                      then \<lparr>info_result = UR_RESULT_ERROR_INVALID_SIZE, info_value = None, info_size = sz\<rparr>
                      else \<lparr>info_result = UR_RESULT_SUCCESS, info_value = Some v, info_size = sz\<rparr>)
                else \<lparr>info_result = UR_RESULT_SUCCESS, info_value = None, info_size = sz\<rparr>)
           in case propName of
                UR_LOADER_CONFIG_INFO_AVAILABLE_LAYERS \<Rightarrow>
                  answer (length available + 1) (Info_chars (available @ [CHR 0x00]))
              | UR_LOADER_CONFIG_INFO_REFERENCE_COUNT \<Rightarrow>
                  answer 4 (Info_uint32 (case H hLoaderConfig of None \<Rightarrow> 0 | Some c \<Rightarrow> refCount c))
              | _ \<Rightarrow> \<lparr>info_result = UR_RESULT_ERROR_INVALID_ENUMERATION, info_value = None, info_size = None\<rparr>)"

definition urLoaderConfigEnableLayer ::
  "string \<Rightarrow> handle \<Rightarrow> string option \<Rightarrow> config_heap \<Rightarrow> ur_result \<times> config_heap" where
  "urLoaderConfigEnableLayer available hLoaderConfig pLayerName H =
     (if hLoaderConfig = 0 then (UR_RESULT_ERROR_INVALID_NULL_HANDLE, H)
      else case pLayerName of
             None \<Rightarrow> (UR_RESULT_ERROR_INVALID_NULL_POINTER, H)
           | Some name \<Rightarrow>
               if find_str name available = None then (UR_RESULT_ERROR_LAYER_NOT_PRESENT, H)
               else (UR_RESULT_SUCCESS,
                     with_config H hLoaderConfig
                       (\<lambda>c. Some (c\<lparr>enabledLayers := insort_insert name (enabledLayers c)\<rparr>))))"

definition urLoaderConfigSetCodeLocationCallback ::
  "handle \<Rightarrow> nat \<Rightarrow> nat \<Rightarrow> config_heap \<Rightarrow> ur_result \<times> config_heap" where
  "urLoaderConfigSetCodeLocationCallback hLoaderConfig pfnCodeloc pUserData H =
     (if hLoaderConfig = 0 then (UR_RESULT_ERROR_INVALID_NULL_HANDLE, H)
      else if pfnCodeloc = 0 then (UR_RESULT_ERROR_INVALID_NULL_POINTER, H)
      else (UR_RESULT_SUCCESS,
            with_config H hLoaderConfig
              (\<lambda>c. Some (c\<lparr>codelocData := \<lparr>codelocCb = pfnCodeloc, codelocUserdata = pUserData\<rparr>\<rparr>))))"

definition urLoaderConfigSetMockingEnabled :: "handle \<Rightarrow> bool \<Rightarrow> config_heap \<Rightarrow> ur_result \<times> config_heap" where
  "urLoaderConfigSetMockingEnabled hLoaderConfig enable H =
     (if hLoaderConfig = 0 then (UR_RESULT_ERROR_INVALID_NULL_HANDLE, H)
      else (UR_RESULT_SUCCESS, with_config H hLoaderConfig (\<lambda>c. Some (c\<lparr>cfgEnableMock := enable\<rparr>))))"

section \<open>The library context\<close>

datatype event =
    Ev_layer_init string
  | Ev_layer_tearDown string
  | Ev_layer_destroy string
  | Ev_loader_forceDelete
  | Ev_context_delete
  | Ev_umfInit
  | Ev_umfTearDown

record 'd layer =
  lay_name :: string
  lay_init :: "'d \<Rightarrow> string list \<Rightarrow> codeloc_data \<Rightarrow> ur_result \<times> 'd"

record 'd lib_context =
  initOnce :: bool
  urDdiTable :: 'd
  enabledLayerNames :: "string list"
  ctxCodelocData :: codeloc_data

record 'd build =
  bld_host :: host
  bld_layers :: "'d layer list"
  bld_ddi0 :: 'd
  bld_ddiInit :: "loader_context \<Rightarrow> 'd \<Rightarrow> ur_result \<times> 'd"
  bld_static_umf :: bool

record 'd process =
  lib :: "'d lib_context rc_ptr"
  ldr :: "loader_context rc_ptr"
  configs :: config_heap
  trace :: "event list"

definition parseEnvEnabledLayers :: "environment \<Rightarrow> string list \<Rightarrow> cpp_exn + string list" where
  "parseEnvEnabledLayers env names =
     (case getenv_to_vec env ''UR_ENABLE_LAYERS'' of
        Inl e \<Rightarrow> Inl e
      | Inr None \<Rightarrow> Inr names
      | Inr (Some layers) \<Rightarrow> Inr (foldl (\<lambda>ns layer. insort_insert layer ns) names layers))"

text \<open>\<open>layers\<close> is walked in order and the walk stops at the first failure.\<close>

fun initLayers ::
  "'d layer list \<Rightarrow> string list \<Rightarrow> codeloc_data \<Rightarrow> 'd \<Rightarrow> event list \<Rightarrow> ur_result \<times> 'd \<times> event list" where
  "initLayers [] names codeloc ddi tr = (UR_RESULT_SUCCESS, ddi, tr)"
| "initLayers (l # ls) names codeloc ddi tr =
     (let (result, ddi') = lay_init l ddi names codeloc;
          tr' = tr @ [Ev_layer_init (lay_name l)]
      in if result \<noteq> UR_RESULT_SUCCESS then (result, ddi', tr')
         else initLayers ls names codeloc ddi' tr')"

definition tearDownLayers :: "'d layer list \<Rightarrow> event list" where
  "tearDownLayers layers =
     concat (map (\<lambda>l. [Ev_layer_tearDown (lay_name l), Ev_layer_destroy (lay_name l)]) (rev layers))"

text \<open>\<open>a.merge(b)\<close> of \<open>std::set\<close> moves the elements of \<open>b\<close> that \<open>a\<close> lacks and leaves the others in \<open>b\<close>.\<close>

definition set_merge :: "string list \<Rightarrow> string list \<Rightarrow> string list \<times> string list" where
  "set_merge target source =
     (foldl (\<lambda>ns x. insort_insert x ns) target source, filter (\<lambda>x. x \<in> set target) source)"

text \<open>\<open>ur_loader::getContext()\<close>: the first use constructs the registry, which may throw.\<close>

definition get_loader :: "host \<Rightarrow> environment \<Rightarrow> loader_context rc_ptr \<Rightarrow> cpp_exn + loader_context" where
  "get_loader h env r =
     (case ptr r of
        Some c \<Rightarrow> Inr c
      | None \<Rightarrow>
          (case AdapterRegistry h env of
             Inl e \<Rightarrow> Inl e
           | Inr reg \<Rightarrow>
               Inr \<lparr>platforms = [], adapter_registry = reg, forceIntercept = False, intercept_enabled = False\<rparr>))"

definition Init ::
  "'d build \<Rightarrow> environment \<Rightarrow> handle \<Rightarrow> 'd lib_context \<Rightarrow> 'd process
     \<Rightarrow> cpp_exn + ur_result \<times> 'd lib_context \<times> 'd process" where
  "Init b env hLoaderConfig ctx p =
     (let cfg = (if hLoaderConfig = 0 then None else configs p hLoaderConfig)
      in case get_loader (bld_host b) env (ldr p) of
           Inl e \<Rightarrow> Inl e
         | Inr lc0 \<Rightarrow>
             let lc1 = (case cfg of
                          Some c \<Rightarrow> if cfgEnableMock c
                                    then lc0\<lparr>adapter_registry := enableMock (bld_host b) (adapter_registry lc0)\<rparr>
                                    else lc0
                        | None \<Rightarrow> lc0);
                 (result1, lc2) = loader_init (bld_host b) env lc1;
                 p1 = p\<lparr>ldr := (ldr p)\<lparr>ptr := Some lc2\<rparr>\<rparr>;
                 (result2, ddi) = (if result1 = UR_RESULT_SUCCESS then bld_ddiInit b lc2 (urDdiTable ctx)
                                   else (result1, urDdiTable ctx));
                 (ctx1, p2) = (case cfg of
                     None \<Rightarrow> (ctx\<lparr>urDdiTable := ddi\<rparr>, p1)
                   | Some c \<Rightarrow>
                       let (merged, left) = set_merge (enabledLayerNames ctx) (enabledLayers c)
                       in (ctx\<lparr>urDdiTable := ddi, ctxCodelocData := codelocData c, enabledLayerNames := merged\<rparr>,
                           p1\<lparr>configs := (configs p1)(hLoaderConfig \<mapsto> c\<lparr>enabledLayers := left\<rparr>)\<rparr>));
                 (result3, ddi', tr) =
                   (if result2 = UR_RESULT_SUCCESS \<and> enabledLayerNames ctx1 \<noteq> []
                    then initLayers (bld_layers b) (enabledLayerNames ctx1) (ctxCodelocData ctx1) ddi (trace p2)
                    else (result2, ddi, trace p2));
                 tr' = (if bld_static_umf b \<and> result3 = UR_RESULT_SUCCESS then tr @ [Ev_umfInit] else tr)
             in Inr (result3, ctx1\<lparr>urDdiTable := ddi'\<rparr>, p2\<lparr>trace := tr'\<rparr>))"

definition UR_DEVICE_INIT_FLAGS_MASK :: u32 where
  "UR_DEVICE_INIT_FLAGS_MASK = 0xffffffe0"

unbundle bit_operations_syntax

text \<open>
  \<open>std::call_once\<close> runs \<open>Init\<close> unless an earlier call returned from it, with whatever code; the
  later calls leave \<open>result\<close> at its initial value. The constructor of the context, which reads
  UR_ENABLE_LAYERS, runs only when there is none.
\<close>

definition urLoaderInit ::
  "'d build \<Rightarrow> environment \<Rightarrow> u32 \<Rightarrow> handle \<Rightarrow> 'd process \<Rightarrow> cpp_exn + ur_result \<times> 'd process" where
  "urLoaderInit b env device_flags hLoaderConfig p =
     (if UR_DEVICE_INIT_FLAGS_MASK AND device_flags \<noteq> 0 then Inr (UR_RESULT_ERROR_INVALID_ENUMERATION, p)
      else case (if ptr (lib p) = None then parseEnvEnabledLayers env [] else Inr []) of
        Inl e \<Rightarrow> Inl e
      | Inr names \<Rightarrow>
          let fresh = \<lparr>initOnce = False, urDdiTable = bld_ddi0 b, enabledLayerNames = names,
                       ctxCodelocData = \<lparr>codelocCb = 0, codelocUserdata = 0\<rparr>\<rparr>;
              (context, lib') = singleton_get fresh (lib p);
              p1 = p\<lparr>lib := lib'\<rparr>
          in if initOnce context then Inr (UR_RESULT_SUCCESS, p1)
             else case Init b env hLoaderConfig context p1 of
                    Inl e \<Rightarrow> Inl e
                  | Inr (result, context', p2) \<Rightarrow>
                      Inr (result, p2\<lparr>lib := (lib p2)\<lparr>ptr := Some (context'\<lparr>initOnce := True\<rparr>)\<rparr>\<rparr>))"

definition urLoaderTearDown :: "'d build \<Rightarrow> 'd process \<Rightarrow> ur_result \<times> 'd process" where
  "urLoaderTearDown b p =
     (let (ret, deleted, lib') = singleton_release (lib p);
          p1 = (if deleted = [] then p\<lparr>lib := lib'\<rparr>
                else p\<lparr>lib := lib', ldr := rcp_forceDelete (ldr p),
                       trace := trace p @ tearDownLayers (bld_layers b) @ [Ev_loader_forceDelete, Ev_context_delete]\<rparr>);
          p2 = (if bld_static_umf b \<and> ret = 0 then p1\<lparr>trace := trace p1 @ [Ev_umfTearDown]\<rparr> else p1)
      in (if ret = 0 then UR_RESULT_SUCCESS else UR_RESULT_ERROR_UNINITIALIZED, p2))"

section \<open>The configuration is counted like every other object\<close>

definition config_count :: "handle \<Rightarrow> config_heap \<Rightarrow> nat" where
  "config_count h H = (case H h of None \<Rightarrow> 0 | Some c \<Rightarrow> unat (refCount c))"

definition config_retain :: "handle \<Rightarrow> config_heap \<Rightarrow> config_heap" where
  "config_retain h H = snd (urLoaderConfigRetain h H)"

definition config_release :: "handle \<Rightarrow> config_heap \<Rightarrow> bool \<times> config_heap" where
  "config_release h H =
     (let H' = snd (urLoaderConfigRelease h H) in (H h \<noteq> None \<and> H' h = None, H'))"

lemmas config_defs =
  config_count_def config_retain_def config_release_def urLoaderConfigRetain_def
  urLoaderConfigRelease_def with_config_def

interpretation cfg_rc: refcounted "config_count (Suc n)" "config_retain (Suc n)" "config_release (Suc n)" "2 ^ 32"
  for n
proof unfold_locales
  fix H :: config_heap
  show "0 < config_count (Suc n) H \<Longrightarrow> Suc (config_count (Suc n) H) < 2 ^ 32 \<Longrightarrow>
      config_count (Suc n) (config_retain (Suc n) H) = Suc (config_count (Suc n) H)"
    using unat_inc_u32 by (auto simp: config_defs split: option.splits)
  show "0 < config_count (Suc n) H \<Longrightarrow>
      config_count (Suc n) (snd (config_release (Suc n) H)) = config_count (Suc n) H - 1"
    using unat_dec_u32 dec_eq_0_u32 by (auto simp: config_defs Let_def split: option.splits)
  show "0 < config_count (Suc n) H \<Longrightarrow>
      fst (config_release (Suc n) H) = (config_count (Suc n) H = 1)"
    using dec_eq_0_u32 by (auto simp: config_defs Let_def split: option.splits)
qed

text \<open>
  A loader configuration is deleted exactly once: in every history of
  \<open>urLoaderConfigRetain\<close> and \<open>urLoaderConfigRelease\<close> on a live handle that stays below the 32-bit
  limit, exactly one release deletes the object if the references balance out, none otherwise.
\<close>

theorem LoaderConfig_deleted_once:
  assumes "h \<noteq> 0" and "rc_legal (2 ^ 32) (config_count h H) ops" and "ops \<noteq> []"
  shows "length (filter (\<lambda>d. d) (fst (rc_run (config_retain h) (config_release h) H ops))) =
           (if rc_balance (config_count h H) ops = 0 then 1 else 0)"
proof -
  obtain n where "h = Suc n" using assms(1) by (cases h) auto
  with cfg_rc.run_destroys_once [of n H ops] assms show ?thesis by simp
qed

theorem LoaderConfig_deleted_once_witness:
  "length (filter (\<lambda>d. d) (fst (rc_run (config_retain 9) (config_release 9)
      (snd (snd (urLoaderConfigCreate 9 True (\<lambda>_. None)))) [Retain, Release, Release]))) = 1"
  using LoaderConfig_deleted_once [of 9 "snd (snd (urLoaderConfigCreate 9 True (\<lambda>_. None)))"
      "[Retain, Release, Release]"]
  by (simp add: config_count_def urLoaderConfigCreate_def new_config_def)

text \<open>
  \<open>urLoaderConfigGetInfo\<close> keeps the two-call contract: for both properties a size query
  succeeds with some size, a call with a buffer of exactly that size succeeds and fills it, and a
  call with any other size fails with UR_RESULT_ERROR_INVALID_SIZE and writes nothing to the buffer.
\<close>

theorem urLoaderConfigGetInfo_two_calls:
  assumes "h \<noteq> 0" and "info \<noteq> UR_LOADER_CONFIG_INFO_FORCE_UINT32"
  shows "\<exists>n v. urLoaderConfigGetInfo av H h info m False True =
             \<lparr>info_result = UR_RESULT_SUCCESS, info_value = None, info_size = Some n\<rparr>
           \<and> urLoaderConfigGetInfo av H h info n True False =
             \<lparr>info_result = UR_RESULT_SUCCESS, info_value = Some v, info_size = None\<rparr>
           \<and> (\<forall>k r. k \<noteq> n \<longrightarrow>
                info_result (urLoaderConfigGetInfo av H h info k True r) = UR_RESULT_ERROR_INVALID_SIZE
                \<and> info_value (urLoaderConfigGetInfo av H h info k True r) = None)"
  using assms by (cases info) (auto simp: urLoaderConfigGetInfo_def)

theorem urLoaderConfigGetInfo_two_calls_witness:
  "\<exists>n v. urLoaderConfigGetInfo (availableLayers True False) (\<lambda>_. None) 9
           UR_LOADER_CONFIG_INFO_AVAILABLE_LAYERS 0 False True =
             \<lparr>info_result = UR_RESULT_SUCCESS, info_value = None, info_size = Some n\<rparr>
         \<and> urLoaderConfigGetInfo (availableLayers True False) (\<lambda>_. None) 9
             UR_LOADER_CONFIG_INFO_AVAILABLE_LAYERS n True False =
             \<lparr>info_result = UR_RESULT_SUCCESS, info_value = Some v, info_size = None\<rparr>"
  using urLoaderConfigGetInfo_two_calls [of 9 UR_LOADER_CONFIG_INFO_AVAILABLE_LAYERS
      "availableLayers True False" "\<lambda>_. None" 0]
  by auto

text \<open>
  \<open>urLoaderConfigEnableLayer\<close> accepts a name exactly when it is a substring of the list of
  available layers. Every available layer is accepted, but so is any fragment of the list, such as
  the empty name or one that spans a separator, which no layer will recognise later.
\<close>

theorem enable_layer_accepts_substrings:
  assumes "h \<noteq> 0"
  shows "fst (urLoaderConfigEnableLayer av h (Some name) H) = UR_RESULT_SUCCESS \<longleftrightarrow>
           (\<exists>a b. av = a @ name @ b)"
proof -
  have "fst (urLoaderConfigEnableLayer av h (Some name) H) = UR_RESULT_SUCCESS \<longleftrightarrow> find_str name av \<noteq> None"
    using assms by (simp add: urLoaderConfigEnableLayer_def)
  then show ?thesis
    using find_str_infix [of name av] by blast
qed

theorem enable_layer_accepts_substrings_witness:
  "fst (urLoaderConfigEnableLayer (availableLayers True True) 9 (Some ''VALIDATION;UR'') (\<lambda>_. None))
     = UR_RESULT_SUCCESS"
proof -
  have "availableLayers True True =
      ''UR_LAYER_FULL_'' @ ''VALIDATION;UR'' @
      ''_LAYER_PARAMETER_VALIDATION;UR_LAYER_LEAK_CHECKING;UR_LAYER_BOUNDS_CHECKING;UR_LAYER_LIFETIME_VALIDATION;UR_LAYER_TRACING;UR_LAYER_ASAN;UR_LAYER_MSAN;UR_LAYER_TSAN''"
    by code_simp
  then have "\<exists>a b. availableLayers True True = a @ ''VALIDATION;UR'' @ b" by blast
  then show ?thesis
    using enable_layer_accepts_substrings [of 9 "availableLayers True True" "''VALIDATION;UR''" "\<lambda>_. None"] by simp
qed

section \<open>Initialisation and teardown\<close>

fun init_times :: "'d build \<Rightarrow> environment \<Rightarrow> u32 \<Rightarrow> handle \<Rightarrow> nat \<Rightarrow> 'd process \<Rightarrow> cpp_exn + ur_result list \<times> 'd process" where
  "init_times b env flags h 0 p = Inr ([], p)"
| "init_times b env flags h (Suc k) p =
     (case urLoaderInit b env flags h p of
        Inl e \<Rightarrow> Inl e
      | Inr (r, p') \<Rightarrow>
          (case init_times b env flags h k p' of Inl e \<Rightarrow> Inl e | Inr (rs, p'') \<Rightarrow> Inr (r # rs, p'')))"

fun teardown_times :: "'d build \<Rightarrow> nat \<Rightarrow> 'd process \<Rightarrow> ur_result list \<times> 'd process" where
  "teardown_times b 0 p = ([], p)"
| "teardown_times b (Suc k) p =
     (let (r, p') = urLoaderTearDown b p; (rs, p'') = teardown_times b k p' in (r # rs, p''))"

definition umf_end :: "'d build \<Rightarrow> event list" where
  "umf_end b = (if bld_static_umf b then [Ev_umfTearDown] else [])"

definition final_events :: "'d build \<Rightarrow> event list" where
  "final_events b = tearDownLayers (bld_layers b) @ [Ev_loader_forceDelete, Ev_context_delete] @ umf_end b"

lemma Init_lib: "Init b env h ctx p = Inr (r, ctx', p') \<Longrightarrow> lib p' = lib p"
  by (auto simp: Init_def Let_def split: sum.splits option.splits prod.splits if_splits)

lemma first_init:
  assumes "urLoaderInit b env flags h p = Inr (r, p1)" and "lib p = singleton_init"
    and "UR_DEVICE_INIT_FLAGS_MASK AND flags = 0"
  shows "\<exists>c. lib p1 = \<lparr>ptr = Some c, refcount = 1\<rparr> \<and> initOnce c"
  using assms
  by (auto simp: urLoaderInit_def singleton_init_def singleton_get_def rcp_get_or_create_def Let_def
      dest!: Init_lib split: sum.splits)

lemma init_again:
  assumes "lib p = \<lparr>ptr = Some c, refcount = n\<rparr>" and "initOnce c" and "UR_DEVICE_INIT_FLAGS_MASK AND flags = 0"
  shows "urLoaderInit b env flags h p = Inr (UR_RESULT_SUCCESS, p\<lparr>lib := \<lparr>ptr = Some c, refcount = n + 1\<rparr>\<rparr>)"
  using assms by (simp add: urLoaderInit_def singleton_get_def rcp_get_or_create_def)

lemma init_times_again:
  assumes "lib p = \<lparr>ptr = Some c, refcount = n\<rparr>" and "initOnce c" and "UR_DEVICE_INIT_FLAGS_MASK AND flags = 0"
  shows "init_times b env flags h k p =
           Inr (replicate k UR_RESULT_SUCCESS, p\<lparr>lib := \<lparr>ptr = Some c, refcount = n + of_nat k\<rparr>\<rparr>)"
  using assms
proof (induction k arbitrary: p n)
  case 0
  then show ?case by (cases p) simp
next
  case (Suc k)
  let ?p = "p\<lparr>lib := \<lparr>ptr = Some c, refcount = n + 1\<rparr>\<rparr>"
  have "init_times b env flags h k ?p =
      Inr (replicate k UR_RESULT_SUCCESS, ?p\<lparr>lib := \<lparr>ptr = Some c, refcount = n + 1 + of_nat k\<rparr>\<rparr>)"
    by (rule Suc.IH) (simp_all add: Suc.prems)
  with init_again [OF Suc.prems] show ?case by (simp add: algebra_simps)
qed

lemma teardown_kept:
  assumes "lib p = \<lparr>ptr = Some c, refcount = n + 1\<rparr>" and "n \<noteq> 0" and "n + 1 \<noteq> 0"
  shows "urLoaderTearDown b p =
           (UR_RESULT_SUCCESS, p\<lparr>lib := \<lparr>ptr = Some c, refcount = n\<rparr>, trace := trace p @ umf_end b\<rparr>)"
  using assms by (simp add: urLoaderTearDown_def singleton_release_def rcp_release_def umf_end_def)

lemma teardown_last:
  assumes "lib p = \<lparr>ptr = Some c, refcount = 1\<rparr>"
  shows "urLoaderTearDown b p =
           (UR_RESULT_SUCCESS,
            p\<lparr>lib := singleton_init, ldr := rcp_forceDelete (ldr p), trace := trace p @ final_events b\<rparr>)"
  using assms
  by (simp add: urLoaderTearDown_def singleton_release_def rcp_release_def umf_end_def final_events_def
      singleton_init_def)

lemma u64_of_nat_neq_0: "0 < k \<Longrightarrow> k < 2 ^ 64 \<Longrightarrow> (of_nat k :: u64) \<noteq> 0"
  by (metis neq0_conv unat_0 unat_of_nat_u64)

lemma teardown_times_kept:
  assumes "lib p = \<lparr>ptr = Some c, refcount = of_nat (Suc k)\<rparr>" and "Suc k < 2 ^ 64"
  shows "teardown_times b k p =
           (replicate k UR_RESULT_SUCCESS,
            p\<lparr>lib := \<lparr>ptr = Some c, refcount = 1\<rparr>, trace := trace p @ concat (replicate k (umf_end b))\<rparr>)"
  using assms
proof (induction k arbitrary: p)
  case 0
  then show ?case by simp
next
  case (Suc k)
  let ?p = "p\<lparr>lib := \<lparr>ptr = Some c, refcount = of_nat (Suc k)\<rparr>, trace := trace p @ umf_end b\<rparr>"
  have "urLoaderTearDown b p = (UR_RESULT_SUCCESS, ?p)"
    using Suc.prems u64_of_nat_neq_0 [of "Suc k"] u64_of_nat_neq_0 [of "Suc (Suc k)"]
    by (intro teardown_kept) (simp_all add: algebra_simps)
  moreover have "teardown_times b k ?p = (replicate k UR_RESULT_SUCCESS,
      ?p\<lparr>lib := \<lparr>ptr = Some c, refcount = 1\<rparr>, trace := trace ?p @ concat (replicate k (umf_end b))\<rparr>)"
    using Suc.prems by (intro Suc.IH) simp_all
  ultimately show ?case by simp
qed

text \<open>
  C36: The life cycle of the loader in a build without statically linked UMF. After a first
  \<open>urLoaderInit\<close> on a fresh process that succeeded, any number \<open>k\<close> of further calls succeed without
  running initialisation again; the first \<open>k\<close> calls of \<open>urLoaderTearDown\<close> succeed, run nothing and
  keep both contexts; the next one tears the layers down in reverse order, each once, deletes both
  contexts and restores the initial state; and one more fails with UR_RESULT_ERROR_UNINITIALIZED.
  (With UMF linked statically each of the first \<open>k\<close> calls also releases a reference to UMF, and after a
  first call that failed the others still succeed: \<open>umf_references_unbalanced\<close> and
  \<open>failed_init_then_success\<close> below.)
\<close>

theorem loader_life_cycle:
  assumes "urLoaderInit b env flags h p = Inr (UR_RESULT_SUCCESS, p1)" and "lib p = singleton_init"
    and "UR_DEVICE_INIT_FLAGS_MASK AND flags = 0" and "Suc k < 2 ^ 64" and "\<not> bld_static_umf b"
  shows "\<exists>p2 p3 p4. init_times b env flags h k p1 = Inr (replicate k UR_RESULT_SUCCESS, p2)
           \<and> trace p2 = trace p1
           \<and> teardown_times b k p2 = (replicate k UR_RESULT_SUCCESS, p3)
           \<and> trace p3 = trace p1 \<and> ptr (lib p3) = ptr (lib p1) \<and> ldr p3 = ldr p1
           \<and> urLoaderTearDown b p3 = (UR_RESULT_SUCCESS, p4)
           \<and> trace p4 = trace p1 @ tearDownLayers (bld_layers b) @ [Ev_loader_forceDelete, Ev_context_delete]
           \<and> lib p4 = singleton_init \<and> ptr (ldr p4) = None
           \<and> urLoaderTearDown b p4 = (UR_RESULT_ERROR_UNINITIALIZED, p4)"
proof -
  obtain c where c: "lib p1 = \<lparr>ptr = Some c, refcount = 1\<rparr>" "initOnce c"
    using first_init [OF assms(1-3)] by blast
  let ?p2 = "p1\<lparr>lib := \<lparr>ptr = Some c, refcount = of_nat (Suc k)\<rparr>\<rparr>"
  let ?p3 = "?p2\<lparr>lib := \<lparr>ptr = Some c, refcount = 1\<rparr>, trace := trace ?p2 @ concat (replicate k (umf_end b))\<rparr>"
  let ?p4 = "?p3\<lparr>lib := singleton_init, ldr := rcp_forceDelete (ldr ?p3), trace := trace ?p3 @ final_events b\<rparr>"
  have none: "umf_end b = []" using assms(5) by (simp add: umf_end_def)
  have "init_times b env flags h k p1 = Inr (replicate k UR_RESULT_SUCCESS, ?p2)"
    using init_times_again [OF c assms(3)] by simp
  moreover have "teardown_times b k ?p2 = (replicate k UR_RESULT_SUCCESS, ?p3)"
    using assms(4) by (intro teardown_times_kept) simp_all
  moreover have "urLoaderTearDown b ?p3 = (UR_RESULT_SUCCESS, ?p4)"
    by (rule teardown_last) simp
  moreover have "urLoaderTearDown b ?p4 = (UR_RESULT_ERROR_UNINITIALIZED, ?p4)"
    by (simp add: urLoaderTearDown_def singleton_release_def rcp_release_def singleton_init_def)
  moreover have "trace ?p2 = trace p1" "trace ?p3 = trace p1" "ptr (lib ?p3) = ptr (lib p1)" "ldr ?p3 = ldr p1"
    "trace ?p4 = trace p1 @ tearDownLayers (bld_layers b) @ [Ev_loader_forceDelete, Ev_context_delete]"
    "lib ?p4 = singleton_init" "ptr (ldr ?p4) = None"
    using c by (simp_all add: rcp_forceDelete_def none final_events_def)
  ultimately show ?thesis by blast
qed

text \<open>A build with two layers, the second of which fails to come up, and a process that has done nothing yet.\<close>

definition demo_build :: "bool \<Rightarrow> ur_result \<Rightarrow> nat build" where
  "demo_build umf outcome =
     \<lparr>bld_host = dynamic_host,
      bld_layers = [\<lparr>lay_name = ''validation'', lay_init = (\<lambda>d _ _. (UR_RESULT_SUCCESS, d + 1))\<rparr>,
                    \<lparr>lay_name = ''sanitizer'', lay_init = (\<lambda>d _ _. (outcome, d))\<rparr>],
      bld_ddi0 = 0, bld_ddiInit = (\<lambda>_ d. (UR_RESULT_SUCCESS, d)), bld_static_umf = umf\<rparr>"

definition layers_env :: environment where
  "layers_env = (\<lambda>n. if n = ''UR_ENABLE_LAYERS'' then Some ''UR_LAYER_ASAN'' else None)"

definition demo_process :: "nat process" where
  "demo_process = \<lparr>lib = singleton_init, ldr = singleton_init, configs = (\<lambda>_. None), trace = []\<rparr>"

lemma demo_layers: "parseEnvEnabledLayers layers_env [] = Inr [''UR_LAYER_ASAN'']"
  by code_simp

lemma demo_registry: "\<exists>reg. AdapterRegistry dynamic_host layers_env = Inr reg"
  by (auto simp: AdapterRegistry_def discoverKnownAdapters_def getEnvAdapterSearchPaths_def
      getenv_to_vec_def ur_getenv_def layers_env_def Let_def split: sum.splits)

lemma demo_init:
  "\<exists>p1. urLoaderInit (demo_build umf outcome) layers_env 0 0 demo_process = Inr (outcome, p1)
     \<and> trace p1 = [Ev_layer_init ''validation'', Ev_layer_init ''sanitizer'']
         @ (if umf \<and> outcome = UR_RESULT_SUCCESS then [Ev_umfInit] else [])"
proof -
  obtain reg where "AdapterRegistry dynamic_host layers_env = Inr reg"
    using demo_registry by blast
  then show ?thesis
    by (simp add: urLoaderInit_def demo_layers demo_process_def demo_build_def Init_def get_loader_def
        loader_init_def singleton_get_def rcp_get_or_create_def singleton_init_def Let_def)
qed

theorem loader_life_cycle_witness:
  "\<exists>p1 p2 p3 p4. urLoaderInit (demo_build False UR_RESULT_SUCCESS) layers_env 0 0 demo_process
         = Inr (UR_RESULT_SUCCESS, p1)
     \<and> init_times (demo_build False UR_RESULT_SUCCESS) layers_env 0 0 3 p1 = Inr (replicate 3 UR_RESULT_SUCCESS, p2)
     \<and> teardown_times (demo_build False UR_RESULT_SUCCESS) 3 p2 = (replicate 3 UR_RESULT_SUCCESS, p3)
     \<and> trace p3 = trace p1 \<and> urLoaderTearDown (demo_build False UR_RESULT_SUCCESS) p3 = (UR_RESULT_SUCCESS, p4)
     \<and> urLoaderTearDown (demo_build False UR_RESULT_SUCCESS) p4 = (UR_RESULT_ERROR_UNINITIALIZED, p4)"
proof -
  obtain p1 where p1: "urLoaderInit (demo_build False UR_RESULT_SUCCESS) layers_env 0 0 demo_process
      = Inr (UR_RESULT_SUCCESS, p1)"
    using demo_init by blast
  have "lib demo_process = singleton_init"
    by (simp add: demo_process_def)
  from loader_life_cycle [OF p1 this, of 3] p1 show ?thesis by (auto simp: demo_build_def)
qed

text \<open>
  An initialisation that failed is reported only once: after \<open>urLoaderInit\<close> returned an error,
  the next call returns UR_RESULT_SUCCESS although nothing has been initialised since.
\<close>

theorem failed_init_then_success:
  assumes "urLoaderInit b env flags h p = Inr (r, p1)" and "r \<noteq> UR_RESULT_SUCCESS"
    and "lib p = singleton_init" and "UR_DEVICE_INIT_FLAGS_MASK AND flags = 0"
  shows "\<exists>p2. urLoaderInit b env flags h p1 = Inr (UR_RESULT_SUCCESS, p2) \<and> trace p2 = trace p1 \<and> ldr p2 = ldr p1"
  using first_init [OF assms(1,3,4)] init_again [of p1 _ 1 flags b env h] assms(4) by auto

theorem failed_init_then_success_witness:
  "\<exists>p1 p2. urLoaderInit (demo_build False UR_RESULT_ERROR_LAYER_NOT_PRESENT) layers_env 0 0 demo_process
         = Inr (UR_RESULT_ERROR_LAYER_NOT_PRESENT, p1)
     \<and> urLoaderInit (demo_build False UR_RESULT_ERROR_LAYER_NOT_PRESENT) layers_env 0 0 p1 = Inr (UR_RESULT_SUCCESS, p2)"
proof -
  obtain p1 where p1: "urLoaderInit (demo_build False UR_RESULT_ERROR_LAYER_NOT_PRESENT) layers_env 0 0 demo_process
      = Inr (UR_RESULT_ERROR_LAYER_NOT_PRESENT, p1)"
    using demo_init by blast
  have "lib demo_process = singleton_init"
    by (simp add: demo_process_def)
  from failed_init_then_success [OF p1 _ this] p1 show ?thesis by auto
qed

text \<open>
  With UMF linked statically the references to it do not balance: \<open>k + 1\<close> calls of
  \<open>urLoaderInit\<close> of which the first succeeds, followed by as many of \<open>urLoaderTearDown\<close>, call
  \<open>umfInit\<close> once and \<open>umfTearDown\<close> \<open>k + 1\<close> times, the first of them before the layers are torn down.
\<close>

theorem umf_references_unbalanced:
  assumes "urLoaderInit b env flags h p = Inr (UR_RESULT_SUCCESS, p1)" and "lib p = singleton_init"
    and "UR_DEVICE_INIT_FLAGS_MASK AND flags = 0" and "Suc k < 2 ^ 64" and "bld_static_umf b"
    and "init_times b env flags h k p1 = Inr (rs, p2)" and "teardown_times b (Suc k) p2 = (rs', p3)"
  shows "count_list (trace p3) Ev_umfTearDown = count_list (trace p1) Ev_umfTearDown + Suc k
       \<and> count_list (trace p3) Ev_umfInit = count_list (trace p1) Ev_umfInit"
proof -
  obtain c where c: "lib p1 = \<lparr>ptr = Some c, refcount = 1\<rparr>" "initOnce c"
    using first_init [OF assms(1-3)] by blast
  have p2: "p2 = p1\<lparr>lib := \<lparr>ptr = Some c, refcount = of_nat (Suc k)\<rparr>\<rparr>"
    using init_times_again [OF c assms(3)] assms(6) by simp
  have snoc: "teardown_times b (Suc n) q = (let (r1, q1) = teardown_times b n q; (r2, q2) = urLoaderTearDown b q1
      in (r1 @ [r2], q2))" for n q
    by (induction n arbitrary: q) (auto simp: case_prod_beta Let_def)
  let ?q = "p2\<lparr>lib := \<lparr>ptr = Some c, refcount = 1\<rparr>, trace := trace p2 @ concat (replicate k (umf_end b))\<rparr>"
  have q: "teardown_times b k p2 = (replicate k UR_RESULT_SUCCESS, ?q)"
    using assms(4) by (intro teardown_times_kept) (simp_all add: p2)
  have "urLoaderTearDown b ?q = (UR_RESULT_SUCCESS, ?q\<lparr>lib := singleton_init, ldr := rcp_forceDelete (ldr ?q),
      trace := trace ?q @ final_events b\<rparr>)"
    by (rule teardown_last) simp
  with assms(7) snoc [of k p2] q have "trace p3 = trace p1 @ concat (replicate k (umf_end b)) @ final_events b"
    by (auto simp: p2 Let_def)
  moreover have "count_list (concat (replicate k (umf_end b))) Ev_umfTearDown = k"
    "count_list (concat (replicate k (umf_end b))) Ev_umfInit = 0"
    using assms(5) by (induction k) (simp_all add: umf_end_def)
  moreover have "count_list (tearDownLayers ls) e = 0" if "e \<in> {Ev_umfTearDown, Ev_umfInit}"
    for ls :: "'a layer list" and e
    using that by (induction ls) (auto simp: tearDownLayers_def)
  ultimately show ?thesis
    using assms(5) by (simp add: final_events_def umf_end_def)
qed

theorem umf_references_unbalanced_witness:
  "\<exists>p1 p2 p3 rs rs'. urLoaderInit (demo_build True UR_RESULT_SUCCESS) layers_env 0 0 demo_process
         = Inr (UR_RESULT_SUCCESS, p1)
     \<and> init_times (demo_build True UR_RESULT_SUCCESS) layers_env 0 0 1 p1 = Inr (rs, p2)
     \<and> teardown_times (demo_build True UR_RESULT_SUCCESS) (Suc 1) p2 = (rs', p3)
     \<and> count_list (trace p3) Ev_umfTearDown = 2 \<and> count_list (trace p3) Ev_umfInit = 1"
proof -
  let ?b = "demo_build True UR_RESULT_SUCCESS"
  obtain p1 where p1: "urLoaderInit ?b layers_env 0 0 demo_process = Inr (UR_RESULT_SUCCESS, p1)"
    and tr: "trace p1 = [Ev_layer_init ''validation'', Ev_layer_init ''sanitizer'', Ev_umfInit]"
    using demo_init [of True UR_RESULT_SUCCESS] by auto
  have l: "lib demo_process = singleton_init" by (simp add: demo_process_def)
  obtain c where "lib p1 = \<lparr>ptr = Some c, refcount = 1\<rparr>" "initOnce c"
    using first_init [OF p1 l] by auto
  then obtain rs p2 where p2: "init_times ?b layers_env 0 0 1 p1 = Inr (rs, p2)"
    using init_times_again [of p1 c 1 0 ?b layers_env 0 1] by auto
  obtain rs' p3 where p3: "teardown_times ?b (Suc 1) p2 = (rs', p3)" by fastforce
  have "bld_static_umf ?b" by (simp add: demo_build_def)
  from umf_references_unbalanced [OF p1 l _ _ this p2 p3] p1 p2 p3 tr show ?thesis by auto
qed

text \<open>
  \<open>urLoaderInit\<close> empties the configuration it is given: \<open>std::set::merge\<close> moves the layer
  names out of it, so only names that UR_ENABLE_LAYERS already listed remain, and initialising again
  with the same configuration after a teardown no longer enables the layers the caller chose.
\<close>

theorem init_consumes_config:
  assumes "urLoaderInit b env flags h p = Inr (r, p1)" and "lib p = singleton_init"
    and "UR_DEVICE_INIT_FLAGS_MASK AND flags = 0" and "h \<noteq> 0" and "configs p h = Some c"
    and "parseEnvEnabledLayers env [] = Inr names"
  shows "\<exists>c'. configs p1 h = Some c' \<and> enabledLayers c' = filter (\<lambda>n. n \<in> set names) (enabledLayers c)"
  using assms
  by (auto simp: urLoaderInit_def Init_def singleton_init_def singleton_get_def rcp_get_or_create_def
      set_merge_def Let_def split: sum.splits prod.splits)

definition config_process :: "nat process" where
  "config_process =
     demo_process\<lparr>configs := [9 \<mapsto> new_config\<lparr>enabledLayers := [''UR_LAYER_ASAN'', ''UR_LAYER_TRACING'']\<rparr>]\<rparr>"

theorem init_consumes_config_witness:
  "\<exists>p1 c'. urLoaderInit (demo_build False UR_RESULT_SUCCESS) layers_env 0 9 config_process = Inr (UR_RESULT_SUCCESS, p1)
     \<and> configs p1 9 = Some c' \<and> enabledLayers c' = [''UR_LAYER_ASAN'']"
proof -
  obtain reg where "AdapterRegistry dynamic_host layers_env = Inr reg"
    using demo_registry by blast
  moreover have "insort_insert ''UR_LAYER_TRACING'' (insort_insert ''UR_LAYER_ASAN'' [''UR_LAYER_ASAN'']) =
      [''UR_LAYER_ASAN'', ''UR_LAYER_TRACING'']"
    by code_simp
  ultimately have
    "\<exists>p1. urLoaderInit (demo_build False UR_RESULT_SUCCESS) layers_env 0 9 config_process = Inr (UR_RESULT_SUCCESS, p1)"
    by (simp add: urLoaderInit_def demo_layers config_process_def demo_process_def demo_build_def Init_def
        get_loader_def loader_init_def singleton_get_def rcp_get_or_create_def singleton_init_def
        set_merge_def new_config_def Let_def)
  then obtain p1 where p1:
    "urLoaderInit (demo_build False UR_RESULT_SUCCESS) layers_env 0 9 config_process = Inr (UR_RESULT_SUCCESS, p1)"
    by blast
  have "lib config_process = singleton_init"
    "configs config_process 9 = Some (new_config\<lparr>enabledLayers := [''UR_LAYER_ASAN'', ''UR_LAYER_TRACING'']\<rparr>)"
    by (simp_all add: config_process_def demo_process_def)
  from init_consumes_config [OF p1 this(1) _ _ this(2) demo_layers] p1 show ?thesis by auto
qed

end
