(* ===== verification/UR_Validation.thy ===== *)
theory UR_Validation
  imports UR_RefCount UR_Loader
begin

text \<open>
  The validation layer (source/loader/layers/validation): the bounds checks of
  ur_validation_layer.cpp, the reference tracker \<open>RefCountContext\<close> of ur_leak_check.hpp, the
  switches set by \<open>context_t::init\<close> and the entry points for adapter handles of ur_valddi.cpp. The
  queries to the adapter are arguments; \<open>RETURN_ON_FAILURE\<close> is modelled for a build without
  assertions. Counts are 64-bit in the code and integers here; no run reaches the limit.
\<close>

section \<open>Bounds checks\<close>

text \<open>The macro \<open>RETURN_ON_FAILURE\<close>: queries the adapter lacks switch the check off.\<close>

definition return_on_failure :: "ur_result + 'a \<Rightarrow> ('a \<Rightarrow> ur_result) \<Rightarrow> ur_result" where
  "return_on_failure q k =
     (case q of
        Inl r \<Rightarrow> if r = UR_RESULT_ERROR_UNSUPPORTED_ENUMERATION \<or> r = UR_RESULT_ERROR_UNSUPPORTED_FEATURE
                 then UR_RESULT_SUCCESS else r
      | Inr v \<Rightarrow> k v)"

record rect3 =
  rx :: u64
  ry :: u64
  rz :: u64

definition bounds_buffer :: "ur_result + u64 \<Rightarrow> u64 \<Rightarrow> u64 \<Rightarrow> ur_result" where
  "bounds_buffer getSize offset sz =
     return_on_failure getSize
       (\<lambda>bufferSize. if sz + offset > bufferSize then UR_RESULT_ERROR_INVALID_SIZE else UR_RESULT_SUCCESS)"

definition bounds_rect :: "ur_result + u64 \<Rightarrow> rect3 \<Rightarrow> rect3 \<Rightarrow> ur_result" where
  "bounds_rect getSize offset region =
     return_on_failure getSize
       (\<lambda>bufferSize.
          if rx offset \<ge> bufferSize \<or> ry offset \<ge> bufferSize \<or> rz offset \<ge> bufferSize
          then UR_RESULT_ERROR_INVALID_SIZE
          else if (rx region + rx offset) * (ry region + ry offset) * (rz region + rz offset) > bufferSize
          then UR_RESULT_ERROR_INVALID_SIZE
          else UR_RESULT_SUCCESS)"

text \<open>\<open>usmKnown\<close> is whether the allocation type is other than UR_USM_TYPE_UNKNOWN.\<close>

definition bounds_usm :: "ur_result + handle \<Rightarrow> (handle \<Rightarrow> ur_result + bool) \<Rightarrow> (handle \<Rightarrow> ur_result + u64)
     \<Rightarrow> u64 \<Rightarrow> u64 \<Rightarrow> ur_result" where
  "bounds_usm getContext usmKnown allocSize offset sz =
     return_on_failure getContext
       (\<lambda>urContext. return_on_failure (usmKnown urContext)
          (\<lambda>known. if \<not> known then UR_RESULT_SUCCESS
             else return_on_failure (allocSize urContext)
                    (\<lambda>n. if sz + offset > n then UR_RESULT_ERROR_INVALID_SIZE else UR_RESULT_SUCCESS)))"

definition boundsImage ::
  "ur_result + u64 \<Rightarrow> ur_result + u64 \<Rightarrow> ur_result + u64 \<Rightarrow> rect3 \<Rightarrow> rect3 \<Rightarrow> ur_result" where
  "boundsImage getWidth getHeight getDepth origin region =
     return_on_failure getWidth
       (\<lambda>width. if rx region + rx origin > width then UR_RESULT_ERROR_INVALID_SIZE
          else return_on_failure getHeight
            (\<lambda>h0. let height = (if h0 = 0 then 1 else h0)
                   in if ry region + ry origin > height then UR_RESULT_ERROR_INVALID_SIZE
                      else return_on_failure getDepth
                        (\<lambda>d0. let depth = (if d0 = 0 then 1 else d0)
                               in if rz region + rz origin > depth then UR_RESULT_ERROR_INVALID_SIZE
                                  else UR_RESULT_SUCCESS)))"

section \<open>The reference tracker\<close>

record ref_info =
  ri_refCount :: int
  ri_type :: nat

datatype update_type =
    REFCOUNT_CREATE_OR_INCREASE
  | REFCOUNT_CREATE
  | REFCOUNT_INCREASE
  | REFCOUNT_DECREASE

datatype log_entry =
    Already_exists handle
  | Retain_nonexistent handle
  | Release_nonexistent handle
  | Count_changed handle int
  | Leaked handle int

record tracker =
  counts :: "(handle, ref_info) omap"
  adapterCount :: int
  logged :: "log_entry list"

definition logInvalidReferences :: "tracker \<Rightarrow> tracker" where
  "logInvalidReferences t =
     t\<lparr>logged := logged t @ map (\<lambda>(p, i). Leaked p (ri_refCount i)) (counts t)\<rparr>"

text \<open>What follows the \<open>switch\<close> of \<open>updateRefCount\<close>; \<open>i\<close> is what the iterator points to.\<close>

definition update_tail :: "handle \<Rightarrow> ref_info \<Rightarrow> tracker \<Rightarrow> tracker" where
  "update_tail p i t =
     (let t1 = t\<lparr>counts := omap_insert p i (counts t), logged := logged t @ [Count_changed p (ri_refCount i)]\<rparr>;
          t2 = (if ri_refCount i = 0 then t1\<lparr>counts := omap_erase p (counts t1)\<rparr> else t1)
      in if adapterCount t2 = 0 then (logInvalidReferences t2)\<lparr>counts := []\<rparr> else t2)"

definition updateRefCount :: "update_type \<Rightarrow> handle \<Rightarrow> nat \<Rightarrow> bool \<Rightarrow> tracker \<Rightarrow> tracker" where
  "updateRefCount type p ty isAdapterHandle t =
     (case type of
        REFCOUNT_CREATE_OR_INCREASE \<Rightarrow>
          (case map_of (counts t) p of
             None \<Rightarrow>
               update_tail p \<lparr>ri_refCount = 1, ri_type = ty\<rparr>
                 (if isAdapterHandle then t\<lparr>adapterCount := adapterCount t + 1\<rparr> else t)
           | Some i \<Rightarrow> update_tail p (i\<lparr>ri_refCount := ri_refCount i + 1\<rparr>) t)
      | REFCOUNT_CREATE \<Rightarrow>
          (case map_of (counts t) p of
             None \<Rightarrow> update_tail p \<lparr>ri_refCount = 1, ri_type = ty\<rparr> t
           | Some i \<Rightarrow> t\<lparr>logged := logged t @ [Already_exists p]\<rparr>)
      | REFCOUNT_INCREASE \<Rightarrow>
          (case map_of (counts t) p of
             None \<Rightarrow> t\<lparr>logged := logged t @ [Retain_nonexistent p]\<rparr>
           | Some i \<Rightarrow> update_tail p (i\<lparr>ri_refCount := ri_refCount i + 1\<rparr>) t)
      | REFCOUNT_DECREASE \<Rightarrow>
          (let i = (case map_of (counts t) p of
                      None \<Rightarrow> \<lparr>ri_refCount = - 1, ri_type = ty\<rparr>
                    | Some i \<Rightarrow> i\<lparr>ri_refCount := ri_refCount i - 1\<rparr>);
               t1 = (if ri_refCount i < 0 then t\<lparr>logged := logged t @ [Release_nonexistent p]\<rparr>
                     else if ri_refCount i = 0 \<and> isAdapterHandle
                     then t\<lparr>adapterCount := adapterCount t - 1\<rparr> else t)
           in update_tail p i t1))"

definition createRefCount :: "handle \<Rightarrow> nat \<Rightarrow> tracker \<Rightarrow> tracker" where
  "createRefCount p ty t = updateRefCount REFCOUNT_CREATE p ty False t"

definition incrementRefCount :: "handle \<Rightarrow> nat \<Rightarrow> bool \<Rightarrow> tracker \<Rightarrow> tracker" where
  "incrementRefCount p ty isAdapterHandle t = updateRefCount REFCOUNT_INCREASE p ty isAdapterHandle t"

definition decrementRefCount :: "handle \<Rightarrow> nat \<Rightarrow> bool \<Rightarrow> tracker \<Rightarrow> tracker" where
  "decrementRefCount p ty isAdapterHandle t = updateRefCount REFCOUNT_DECREASE p ty isAdapterHandle t"

definition createOrIncrementRefCount :: "handle \<Rightarrow> nat \<Rightarrow> bool \<Rightarrow> tracker \<Rightarrow> tracker" where
  "createOrIncrementRefCount p ty isAdapterHandle t =
     updateRefCount REFCOUNT_CREATE_OR_INCREASE p ty isAdapterHandle t"

definition isReferenceValid :: "handle \<Rightarrow> nat \<Rightarrow> tracker \<Rightarrow> bool" where
  "isReferenceValid p ty t =
     (case map_of (counts t) p of
        None \<Rightarrow> False
      | Some i \<Rightarrow> if ri_refCount i < 1 then False else ri_type i = ty)"

section \<open>The layer\<close>

record val_context =
  enableParameterValidation :: bool
  enableBoundsChecking :: bool
  enableLeakChecking :: bool
  enableLifetimeValidation :: bool
  refCountContext :: tracker

text \<open>The generated calls of \<open>urGet...ProcAddrTable\<close>, each of which replaces entries of the table.\<close>

fun install_tables :: "('d \<Rightarrow> ur_result \<times> 'd) list \<Rightarrow> 'd \<Rightarrow> ur_result \<times> 'd" where
  "install_tables [] ddi = (UR_RESULT_SUCCESS, ddi)"
| "install_tables (f # fs) ddi =
     (let (r, ddi') = f ddi in if r = UR_RESULT_SUCCESS then install_tables fs ddi' else (r, ddi'))"

definition set_switches :: "string list \<Rightarrow> val_context \<Rightarrow> val_context" where
  "set_switches names c =
     (if ''UR_LAYER_FULL_VALIDATION'' \<in> set names
      then c\<lparr>enableParameterValidation := True, enableBoundsChecking := True,
             enableLeakChecking := True, enableLifetimeValidation := True\<rparr>
      else let c1 = (if ''UR_LAYER_BOUNDS_CHECKING'' \<in> set names then c\<lparr>enableBoundsChecking := True\<rparr> else c);
               c2 = (if ''UR_LAYER_PARAMETER_VALIDATION'' \<in> set names
                     then c1\<lparr>enableParameterValidation := True\<rparr> else c1);
               c3 = (if ''UR_LAYER_LEAK_CHECKING'' \<in> set names then c2\<lparr>enableLeakChecking := True\<rparr> else c2)
           in if ''UR_LAYER_LIFETIME_VALIDATION'' \<in> set names
              then c3\<lparr>enableLifetimeValidation := True, enableLeakChecking := True\<rparr> else c3)"

definition val_init :: "('d \<Rightarrow> ur_result \<times> 'd) list \<Rightarrow> string list \<Rightarrow> val_context \<Rightarrow> 'd
     \<Rightarrow> ur_result \<times> val_context \<times> 'd" where
  "val_init tables names c ddi =
     (let c' = set_switches names c
      in if \<not> enableParameterValidation c' \<and> \<not> enableLeakChecking c' \<and> \<not> enableLifetimeValidation c'
         then (UR_RESULT_SUCCESS, c', ddi)
         else let (r, ddi') = install_tables tables ddi in (r, c', ddi'))"

definition val_tearDown :: "val_context \<Rightarrow> ur_result \<times> val_context" where
  "val_tearDown c =
     (UR_RESULT_SUCCESS,
      if enableLeakChecking c then c\<lparr>refCountContext := logInvalidReferences (refCountContext c)\<rparr> else c)"

text \<open>
  Adapter handles. \<open>buffer\<close> is the memory behind \<open>phAdapters\<close> before the call (at least
  \<open>NumEntries\<close> slots); the adapter writes \<open>written\<close> over a prefix of it.
\<close>

definition adapter_type :: nat where "adapter_type = 0"

definition urAdapterGet ::
  "(u32 \<Rightarrow> ur_result \<times> handle list) option \<Rightarrow> u32 \<Rightarrow> handle list option \<Rightarrow> val_context \<Rightarrow> ur_result \<times> val_context" where
  "urAdapterGet pfnGet NumEntries phAdapters c =
     (case pfnGet of None \<Rightarrow> (UR_RESULT_ERROR_UNINITIALIZED, c) | Some pfn \<Rightarrow>
      if enableParameterValidation c \<and> NumEntries = 0 \<and> phAdapters \<noteq> None
      then (UR_RESULT_ERROR_INVALID_SIZE, c)
      else let (result, written) = pfn NumEntries
           in case phAdapters of
                None \<Rightarrow> (result, c)
              | Some buffer \<Rightarrow>
                  if enableLeakChecking c \<and> result = UR_RESULT_SUCCESS
                  then (result,
                        c\<lparr>refCountContext :=
                            foldl (\<lambda>t h. createOrIncrementRefCount h adapter_type True t) (refCountContext c)
                              (take (unat NumEntries) (written @ drop (length written) buffer))\<rparr>)
                  else (result, c))"

definition urAdapterRelease :: "(handle \<Rightarrow> ur_result) option \<Rightarrow> handle \<Rightarrow> val_context \<Rightarrow> ur_result \<times> val_context" where
  "urAdapterRelease pfnRelease hAdapter c =
     (case pfnRelease of None \<Rightarrow> (UR_RESULT_ERROR_UNINITIALIZED, c) | Some pfn \<Rightarrow>
      if enableParameterValidation c \<and> hAdapter = 0 then (UR_RESULT_ERROR_INVALID_NULL_HANDLE, c)
      else let c' = (if enableLeakChecking c
                     then c\<lparr>refCountContext := decrementRefCount hAdapter adapter_type True (refCountContext c)\<rparr>
                     else c)
           in (pfn hAdapter, c'))"

definition urAdapterRetain :: "(handle \<Rightarrow> ur_result) option \<Rightarrow> handle \<Rightarrow> val_context \<Rightarrow> ur_result \<times> val_context" where
  "urAdapterRetain pfnRetain hAdapter c =
     (case pfnRetain of None \<Rightarrow> (UR_RESULT_ERROR_UNINITIALIZED, c) | Some pfn \<Rightarrow>
      if enableParameterValidation c \<and> hAdapter = 0 then (UR_RESULT_ERROR_INVALID_NULL_HANDLE, c)
      else let result = pfn hAdapter
           in (result,
               if enableLeakChecking c
               then c\<lparr>refCountContext := incrementRefCount hAdapter adapter_type True (refCountContext c)\<rparr>
               else c))"

section \<open>What the bounds checks accept\<close>

lemma unat_add_wrap_u64:
  "unat (a + b :: u64) = (if unat a + unat b < 2 ^ 64 then unat a + unat b else unat a + unat b - 2 ^ 64)"
  using unat_u64_less [of a] unat_u64_less [of b]
  by (simp add: unat_word_ariths mod_if)

lemma u64_greater_iff: "(a :: u64) > b \<longleftrightarrow> unat a > unat b"
  by (simp add: word_less_nat_alt)

text \<open>
  The bounds check of a buffer access accepts exactly the accesses inside the buffer and those
  whose \<open>size + offset\<close> wraps around 64 bits to a value inside it: an access that starts far outside
  the buffer passes when its end overflows.
\<close>

theorem bounds_buffer_accepts:
  "bounds_buffer (Inr n) offset sz = UR_RESULT_SUCCESS \<longleftrightarrow>
     unat offset + unat sz \<le> unat n
     \<or> (2 ^ 64 \<le> unat offset + unat sz \<and> unat offset + unat sz - 2 ^ 64 \<le> unat n)"
  using unat_u64_less [of n]
  by (auto simp: bounds_buffer_def return_on_failure_def u64_greater_iff unat_add_wrap_u64 add.commute)

section \<open>What the tracker computes\<close>

definition tracked :: "tracker \<Rightarrow> handle \<Rightarrow> int" where
  "tracked t p = (case map_of (counts t) p of None \<Rightarrow> 0 | Some i \<Rightarrow> ri_refCount i)"

text \<open>What one call does to the count of its handle: the cases of \<open>updateRefCount\<close> without the map and the log.\<close>

fun net_step :: "update_type \<Rightarrow> int \<Rightarrow> int" where
  "net_step REFCOUNT_CREATE_OR_INCREASE v = v + 1"
| "net_step REFCOUNT_CREATE v = (if v = 0 then 1 else v)"
| "net_step REFCOUNT_INCREASE v = (if v = 0 then 0 else v + 1)"
| "net_step REFCOUNT_DECREASE v = v - 1"

definition nonzero_entries :: "tracker \<Rightarrow> bool" where
  "nonzero_entries t \<longleftrightarrow> (\<forall>p i. map_of (counts t) p = Some i \<longrightarrow> ri_refCount i \<noteq> 0)"

definition live_adapters :: "handle set \<Rightarrow> tracker \<Rightarrow> handle set" where
  "live_adapters A t = {p \<in> A. tracked t p \<ge> 1}"

definition tracker_inv :: "handle set \<Rightarrow> tracker \<Rightarrow> bool" where
  "tracker_inv A t \<longleftrightarrow>
     omap_wf (counts t) \<and> nonzero_entries t \<and> (adapterCount t = 0 \<longrightarrow> counts t = [])
     \<and> adapterCount t = int (card (live_adapters A t))"

lemma map_of_erase_insert:
  "map_of (omap_erase p (omap_insert p i m)) = (map_of m)(p := None)"
  by (rule ext) (simp add: map_of_omap_erase)

lemma tracked_update_tail:
  "tracked (update_tail p i t) = (if adapterCount t = 0 then (\<lambda>_. 0) else (tracked t)(p := ri_refCount i))"
  by (rule ext) (auto simp: update_tail_def Let_def tracked_def map_of_erase_insert logInvalidReferences_def)

lemma nonzero_update_tail: "nonzero_entries t \<Longrightarrow> nonzero_entries (update_tail p i t)"
  by (auto simp: update_tail_def Let_def nonzero_entries_def map_of_erase_insert logInvalidReferences_def
      split: if_splits)

lemma wf_update_tail: "omap_wf (counts t) \<Longrightarrow> omap_wf (counts (update_tail p i t))"
  by (auto simp: update_tail_def Let_def omap_wf_insert omap_wf_erase omap_wf_Nil logInvalidReferences_def)

lemma adapterCount_update_tail [simp]: "adapterCount (update_tail p i t) = adapterCount t"
  by (simp add: update_tail_def Let_def logInvalidReferences_def)

lemma counts_update_tail: "adapterCount t = 0 \<Longrightarrow> counts (update_tail p i t) = []"
  by (simp add: update_tail_def Let_def logInvalidReferences_def)

lemma tracked_eq_0: "nonzero_entries t \<Longrightarrow> tracked t p = 0 \<longleftrightarrow> map_of (counts t) p = None"
  by (auto simp: tracked_def nonzero_entries_def split: option.splits)

lemma tracked_upd [simp]:
  "tracked (t\<lparr>adapterCount := n\<rparr>) = tracked t" "tracked (t\<lparr>logged := l\<rparr>) = tracked t"
  by (simp_all add: tracked_def fun_eq_iff)

lemma nonzero_upd [simp]:
  "nonzero_entries (t\<lparr>adapterCount := n\<rparr>) = nonzero_entries t" "nonzero_entries (t\<lparr>logged := l\<rparr>) = nonzero_entries t"
  by (simp_all add: nonzero_entries_def)

lemma updateRefCount_tracked:
  assumes "nonzero_entries t" and "adapterCount t = 0 \<longrightarrow> counts t = []"
  shows "tracked (updateRefCount type p ty adp t) =
           (if adapterCount (updateRefCount type p ty adp t) = 0 then (\<lambda>_. 0)
            else (tracked t)(p := net_step type (tracked t p)))"
proof -
  have empty: "tracked t = (\<lambda>_. 0)" if "counts t = []"
    using that by (simp add: tracked_def fun_eq_iff)
  have [simp]: "tracked t p = 0" if "map_of (counts t) p = None"
    using that by (simp add: tracked_def)
  have [simp]: "tracked t p = ri_refCount i" "ri_refCount i \<noteq> 0" if "map_of (counts t) p = Some i" for i
    using that assms(1) by (simp_all add: tracked_def nonzero_entries_def)
  show ?thesis
    using assms(2) empty
    by (cases type)
      (auto simp: updateRefCount_def Let_def tracked_update_tail fun_upd_idem split: option.splits)
qed

text \<open>
  The tracker refines the simple counting of calls: one update changes the count of its handle
  as the kind of the call says and no other count, except that when no adapter is held any more
  every count is dropped.
\<close>

theorem updateRefCount_refines:
  assumes "tracker_inv A t"
  shows "tracked (updateRefCount type p ty adp t) =
           (if adapterCount (updateRefCount type p ty adp t) = 0 then (\<lambda>_. 0)
            else (tracked t)(p := net_step type (tracked t p)))"
  using assms by (intro updateRefCount_tracked) (simp_all add: tracker_inv_def)

lemma finite_live_adapters: "finite (live_adapters A t)"
proof (rule finite_subset)
  show "live_adapters A t \<subseteq> dom (map_of (counts t))"
    by (auto simp: live_adapters_def tracked_def split: option.splits)
qed (rule finite_dom_map_of)

definition legal_call :: "handle set \<Rightarrow> update_type \<Rightarrow> handle \<Rightarrow> bool" where
  "legal_call A type p \<longleftrightarrow> (type = REFCOUNT_CREATE \<longrightarrow> p \<notin> A)"

lemma updateRefCount_adapterCount:
  assumes "nonzero_entries t" and "legal_call A type p"
  shows "adapterCount (updateRefCount type p ty (p \<in> A) t) =
           adapterCount t
           + (if p \<in> A then (if net_step type (tracked t p) \<ge> 1 then 1 else 0) - (if tracked t p \<ge> 1 then 1 else 0)
              else 0)"
proof -
  have "tracked t p = (case map_of (counts t) p of None \<Rightarrow> 0 | Some i \<Rightarrow> ri_refCount i)"
    by (simp add: tracked_def)
  moreover have "1 \<le> ri_refCount i" if "map_of (counts t) p = Some i" "0 \<le> ri_refCount i" for i
  proof -
    have "ri_refCount i \<noteq> 0" using assms(1) that(1) by (simp add: nonzero_entries_def)
    with that(2) show ?thesis by simp
  qed
  ultimately show ?thesis
    using assms
    by (cases type)
      (auto simp: updateRefCount_def Let_def nonzero_entries_def legal_call_def split: option.splits)
qed

lemma card_live_upd:
  assumes "tracked t' = (tracked t)(p := v)"
  shows "int (card (live_adapters A t')) =
           int (card (live_adapters A t))
           + (if p \<in> A then (if v \<ge> 1 then 1 else 0) - (if tracked t p \<ge> 1 then 1 else 0) else 0)"
proof -
  have eq: "live_adapters A t' = (if p \<in> A \<and> v \<ge> 1 then insert p (live_adapters A t) else live_adapters A t - {p})"
    using assms by (auto simp: live_adapters_def)
  have mem: "p \<in> live_adapters A t \<longleftrightarrow> p \<in> A \<and> tracked t p \<ge> 1"
    by (simp add: live_adapters_def)
  show ?thesis
    using finite_live_adapters [of A t] card_gt_0_iff [of "live_adapters A t"] mem
    by (auto simp: eq card_insert_if card_Diff_singleton_if int_diff_cases of_nat_diff)
qed

lemma updateRefCount_wf:
  assumes "tracker_inv A t"
  shows "omap_wf (counts (updateRefCount type p ty adp t)) \<and> nonzero_entries (updateRefCount type p ty adp t)
       \<and> (adapterCount (updateRefCount type p ty adp t) = 0 \<longrightarrow> counts (updateRefCount type p ty adp t) = [])"
  using assms
  by (cases type)
    (auto simp: tracker_inv_def updateRefCount_def Let_def wf_update_tail nonzero_update_tail
      counts_update_tail split: option.splits)

lemma updateRefCount_inv:
  assumes "tracker_inv A t" and "legal_call A type p"
  shows "tracker_inv A (updateRefCount type p ty (p \<in> A) t)"
proof -
  let ?t' = "updateRefCount type p ty (p \<in> A) t"
  have "adapterCount ?t' = int (card (live_adapters A ?t'))"
  proof (cases "adapterCount ?t' = 0")
    case True
    with updateRefCount_wf [OF assms(1)] have "live_adapters A ?t' = {}"
      by (simp add: live_adapters_def tracked_def)
    with True show ?thesis by simp
  next
    case False
    have nz: "nonzero_entries t" using assms(1) by (simp add: tracker_inv_def)
    from False updateRefCount_refines [OF assms(1), of type p ty "p \<in> A"]
    have "tracked ?t' = (tracked t)(p := net_step type (tracked t p))" by simp
    from card_live_upd [OF this, of A] updateRefCount_adapterCount [OF nz assms(2), of ty] assms(1)
    show ?thesis by (simp add: tracker_inv_def)
  qed
  with updateRefCount_wf [OF assms(1), of type p ty "p \<in> A"] show ?thesis
    by (simp add: tracker_inv_def)
qed

definition no_refs :: tracker where
  "no_refs = \<lparr>counts = [], adapterCount = 0, logged = []\<rparr>"

lemma no_refs_inv: "tracker_inv A no_refs"
  by (simp add: tracker_inv_def no_refs_def omap_wf_Nil nonzero_entries_def live_adapters_def tracked_def)

theorem updateRefCount_refines_witness:
  "tracked (updateRefCount REFCOUNT_CREATE_OR_INCREASE 1 0 True no_refs) = (tracked no_refs)(1 := 1)"
  using updateRefCount_refines [OF no_refs_inv, of REFCOUNT_CREATE_OR_INCREASE 1 0 True]
  by (simp add: updateRefCount_def no_refs_def tracked_def)

type_synonym call = "update_type \<times> handle \<times> nat"

definition tracker_run :: "handle set \<Rightarrow> call list \<Rightarrow> tracker \<Rightarrow> tracker" where
  "tracker_run A cs t = foldl (\<lambda>t (type, p, ty). updateRefCount type p ty (p \<in> A) t) t cs"

definition legal_calls :: "handle set \<Rightarrow> call list \<Rightarrow> bool" where
  "legal_calls A cs \<longleftrightarrow> list_all (\<lambda>(type, p, _). legal_call A type p) cs"

text \<open>
  What the application does, without regard to the tracker: the balance of a handle is the number of
  calls that create or retain it less the number of calls that release it. In a proper history a
  handle is created only when its calls balance and retained only while its creations and retains
  outnumber its releases; it may be released too rarely or too often.
\<close>

definition gains :: "update_type \<Rightarrow> int" where
  "gains type = (if type = REFCOUNT_DECREASE then - 1 else 1)"

definition balance :: "call list \<Rightarrow> handle \<Rightarrow> int" where
  "balance cs p = (\<Sum>(type, q, _)\<leftarrow>cs. if q = p then gains type else 0)"

definition proper_call :: "handle set \<Rightarrow> call list \<Rightarrow> call \<Rightarrow> bool" where
  "proper_call A before = (\<lambda>(type, p, _). legal_call A type p \<and>
     (type = REFCOUNT_CREATE \<longrightarrow> balance before p = 0) \<and> (type = REFCOUNT_INCREASE \<longrightarrow> 0 < balance before p))"

definition proper_history :: "handle set \<Rightarrow> call list \<Rightarrow> bool" where
  "proper_history A cs \<longleftrightarrow> (\<forall>i < length cs. proper_call A (take i cs) (cs ! i))"

text \<open>After every call the application holds a reference to some adapter.\<close>

definition adapter_held :: "handle set \<Rightarrow> call list \<Rightarrow> bool" where
  "adapter_held A cs \<longleftrightarrow> (\<forall>n < length cs. \<exists>b \<in> A. 0 < balance (take (Suc n) cs) b)"

lemma balance_snoc: "balance (cs @ [(type, q, ty)]) p = balance cs p + (if q = p then gains type else 0)"
  by (simp add: balance_def)

lemma proper_history_snoc: "proper_history A (cs @ [c]) \<longleftrightarrow> proper_history A cs \<and> proper_call A cs c"
  by (auto simp: proper_history_def nth_append less_Suc_eq)

lemma adapter_held_snoc: "adapter_held A (cs @ [c]) \<longleftrightarrow> adapter_held A cs \<and> (\<exists>b \<in> A. 0 < balance (cs @ [c]) b)"
  by (auto simp: adapter_held_def less_Suc_eq)

lemma proper_history_legal: "proper_history A cs \<Longrightarrow> legal_calls A cs"
proof (induction cs rule: rev_induct)
  case (snoc c cs)
  then show ?case by (cases c) (simp add: proper_history_snoc legal_calls_def proper_call_def)
qed (simp add: legal_calls_def)

lemma tracker_run_snoc:
  "tracker_run A (cs @ [(type, p, ty)]) t = updateRefCount type p ty (p \<in> A) (tracker_run A cs t)"
  by (simp add: tracker_run_def)

lemma tracker_run_inv: "legal_calls A cs \<Longrightarrow> tracker_inv A (tracker_run A cs no_refs)"
proof (induction cs rule: rev_induct)
  case Nil
  then show ?case using no_refs_inv by (simp add: tracker_run_def)
next
  case (snoc c cs)
  obtain type p ty where "c = (type, p, ty)" by (cases c)
  with snoc show ?case by (simp add: tracker_run_snoc updateRefCount_inv legal_calls_def)
qed

text \<open>
  In every history of calls that creates no adapter handle by \<open>createRefCount\<close>, the tracker's
  adapter count is the number of adapter handles with a positive count, its map has no entry with
  count zero, and it holds no entry at all while no adapter is held.
\<close>

theorem tracker_reachable_inv:
  assumes "legal_calls A cs"
  shows "adapterCount (tracker_run A cs no_refs) = int (card {p \<in> A. tracked (tracker_run A cs no_refs) p \<ge> 1})
       \<and> (\<forall>p i. map_of (counts (tracker_run A cs no_refs)) p = Some i \<longrightarrow> ri_refCount i \<noteq> 0)
       \<and> (adapterCount (tracker_run A cs no_refs) = 0 \<longrightarrow> counts (tracker_run A cs no_refs) = [])"
  using tracker_run_inv [OF assms]
  by (auto simp: tracker_inv_def nonzero_entries_def live_adapters_def)

theorem tracker_reachable_inv_witness:
  "adapterCount (tracker_run {1} [(REFCOUNT_CREATE_OR_INCREASE, 1, 0), (REFCOUNT_CREATE, 7, 3)] no_refs) = 1
   \<and> counts (tracker_run {1} [(REFCOUNT_CREATE_OR_INCREASE, 1, 0), (REFCOUNT_CREATE, 7, 3)] no_refs) \<noteq> []"
proof -
  let ?cs = "[(REFCOUNT_CREATE_OR_INCREASE, 1, 0), (REFCOUNT_CREATE, 7, 3)]"
  have one: "adapterCount (tracker_run {1} ?cs no_refs) = 1"
    by code_simp
  have "legal_calls {1} ?cs" by (simp add: legal_calls_def legal_call_def)
  from tracker_reachable_inv [OF this] one
  have "counts (tracker_run {1} ?cs no_refs) = [] \<Longrightarrow> False"
    by (simp add: tracked_def)
  with one show ?thesis by blast
qed

text \<open>As long as an adapter has a positive count after a call, the tracker does not drop its counts.\<close>

lemma adapter_kept:
  assumes inv: "tracker_inv A t" and legal: "legal_call A type p"
    and b: "b \<in> A" "0 < ((tracked t)(p := net_step type (tracked t p))) b"
  shows "adapterCount (updateRefCount type p ty (p \<in> A) t) \<noteq> 0"
proof -
  let ?L = "live_adapters A t"
  have count: "adapterCount t = int (card ?L)" and nz: "nonzero_entries t" using inv by (simp_all add: tracker_inv_def)
  have live: "q \<in> ?L \<longleftrightarrow> q \<in> A \<and> tracked t q \<ge> 1" for q by (simp add: live_adapters_def)
  have "card S \<le> card ?L" if "S \<subseteq> ?L" for S using card_mono [OF finite_live_adapters that] .
  from this [of "{b}"] this [of "{p}"] this [of "{b, p}"] show ?thesis
    using b live [of b] live [of p]
    unfolding updateRefCount_adapterCount [OF nz legal] count
    by (auto simp: card_insert_if split: if_splits)
qed

lemma net_step_gains:
  "type = REFCOUNT_CREATE \<longrightarrow> v = 0 \<Longrightarrow> type = REFCOUNT_INCREASE \<longrightarrow> 0 < v \<Longrightarrow> net_step type v = v + gains type"
  by (cases type) (simp_all add: gains_def)

lemma tracker_run_balance:
  "proper_history A cs \<Longrightarrow> adapter_held A cs \<Longrightarrow> tracked (tracker_run A cs no_refs) = balance cs"
proof (induction cs rule: rev_induct)
  case Nil
  then show ?case by (simp add: tracker_run_def no_refs_def tracked_def balance_def fun_eq_iff)
next
  case (snoc c cs)
  obtain type p ty where c: "c = (type, p, ty)" by (cases c)
  let ?t = "tracker_run A cs no_refs"
  have hist: "proper_history A cs" "proper_call A cs c" and held: "adapter_held A cs"
    using snoc.prems by (simp_all add: proper_history_snoc adapter_held_snoc)
  note IH = snoc.IH [OF hist(1) held]
  have inv: "tracker_inv A ?t" using hist(1) by (intro tracker_run_inv proper_history_legal)
  have step: "(tracked ?t)(p := net_step type (tracked ?t p)) = balance (cs @ [c])"
    using hist(2) net_step_gains [of type "balance cs p"]
    by (auto simp: IH c balance_snoc proper_call_def fun_eq_iff)
  from snoc.prems(2) obtain b where b: "b \<in> A" "0 < balance (cs @ [c]) b" by (auto simp: adapter_held_snoc)
  have "legal_call A type p" using hist(2) by (simp add: c proper_call_def)
  from adapter_kept [OF inv this b(1)] b(2) step
  have "adapterCount (updateRefCount type p ty (p \<in> A) ?t) \<noteq> 0" by simp
  with updateRefCount_refines [OF inv, of type p ty "p \<in> A"] step show ?case
    by (simp add: c tracker_run_snoc)
qed

lemma decrement_last_adapter:
  assumes "map_of (counts t) a = Some i" and "ri_refCount i = 1" and "adapterCount t = 1"
  shows "logged (decrementRefCount a ty True t) =
           logged t @ Count_changed a 0 #
             map (\<lambda>(p, j). Leaked p (ri_refCount j)) (omap_erase a (omap_insert a (i\<lparr>ri_refCount := 0\<rparr>) (counts t)))"
  using assms by (simp add: decrementRefCount_def updateRefCount_def Let_def update_tail_def logInvalidReferences_def)

text \<open>
  C38: The leak report is exact for histories in which a handle is created only when its calls
  balance, retained only while creations and retains outnumber releases, and in which the application
  holds some adapter after every call; no adapter handle is made by \<open>createRefCount\<close>. Releasing the
  last reference to the last adapter then reports precisely the other handles whose creations and
  retains are not as many as their releases, each with the difference, which is negative when it was
  released too often.
\<close>

theorem leak_report_exact:
  assumes "proper_history A cs" and "adapter_held A cs" and "a \<in> A"
    and "balance cs a = 1" and "\<forall>b \<in> A. b \<noteq> a \<longrightarrow> balance cs b \<le> 0"
  shows "\<exists>report. logged (decrementRefCount a ty True (tracker_run A cs no_refs)) =
             logged (tracker_run A cs no_refs) @ Count_changed a 0 # report
           \<and> set report = {Leaked p (balance cs p) | p. p \<noteq> a \<and> balance cs p \<noteq> 0}"
proof -
  let ?t = "tracker_run A cs no_refs"
  have inv: "tracker_inv A ?t" using assms(1) by (intro tracker_run_inv proper_history_legal)
  have net: "tracked ?t = balance cs" by (rule tracker_run_balance [OF assms(1,2)])
  then have "tracked ?t a = 1"
    using assms(4) by simp
  then obtain i where i: "map_of (counts ?t) a = Some i" "ri_refCount i = 1"
    by (auto simp: tracked_def split: option.splits)
  have "live_adapters A ?t = {a}" using assms(3-5) by (force simp: live_adapters_def net)
  then have one: "adapterCount ?t = 1" using inv by (simp add: tracker_inv_def)
  let ?m = "omap_erase a (omap_insert a (i\<lparr>ri_refCount := 0\<rparr>) (counts ?t))"
  have wf: "omap_wf ?m"
    using inv by (simp add: tracker_inv_def omap_wf_insert omap_wf_erase)
  have mem: "(p, j) \<in> set ?m \<longleftrightarrow> p \<noteq> a \<and> map_of (counts ?t) p = Some j" for p j
    using map_of_eq_Some_iff [OF omap_wf_distinct [OF wf], of p j] by (auto simp: map_of_erase_insert split: if_splits)
  have "balance cs p = ri_refCount j" if "map_of (counts ?t) p = Some j" for p j
    using that fun_cong [OF net, of p] by (simp add: tracked_def)
  moreover have "\<exists>j. map_of (counts ?t) p = Some j" if "balance cs p \<noteq> 0" for p
    using that fun_cong [OF net, of p] by (simp add: tracked_def split: option.splits)
  moreover have "ri_refCount j \<noteq> 0" if "map_of (counts ?t) p = Some j" for p j
    using that inv by (simp add: tracker_inv_def nonzero_entries_def)
  ultimately have "set (map (\<lambda>(p, j). Leaked p (ri_refCount j)) ?m) =
      {Leaked p (balance cs p) | p. p \<noteq> a \<and> balance cs p \<noteq> 0}"
    by (force simp: mem)
  with decrement_last_adapter [OF i one, of ty] show ?thesis by blast
qed

text \<open>Handle 7 keeps one reference, 8 is released without being created, 9 balances.\<close>

definition leaky_calls :: "call list" where
  "leaky_calls =
     [(REFCOUNT_CREATE_OR_INCREASE, 1, 0), (REFCOUNT_CREATE, 7, 3), (REFCOUNT_INCREASE, 7, 3),
      (REFCOUNT_DECREASE, 7, 3), (REFCOUNT_DECREASE, 8, 3), (REFCOUNT_CREATE, 9, 3), (REFCOUNT_DECREASE, 9, 3)]"

lemma leaky_balance: "balance leaky_calls p = (if p = 1 then 1 else if p = 7 then 1 else if p = 8 then - 1 else 0)"
  by (simp add: leaky_calls_def balance_def gains_def)

lemma leaky_proper: "proper_history {1} leaky_calls" and leaky_held: "adapter_held {1} leaky_calls"
  by (simp_all add: leaky_calls_def proper_history_def adapter_held_def proper_call_def legal_call_def balance_def gains_def
      All_less_Suc2 numeral_eq_Suc)

theorem leak_report_exact_witness:
  "\<exists>report. logged (decrementRefCount 1 0 True (tracker_run {1} leaky_calls no_refs)) =
       logged (tracker_run {1} leaky_calls no_refs) @ Count_changed 1 0 # report
     \<and> set report = {Leaked 7 1, Leaked 8 (- 1)}"
proof -
  have "{Leaked p (balance leaky_calls p) | p. p \<noteq> 1 \<and> balance leaky_calls p \<noteq> 0} = {Leaked 7 1, Leaked 8 (- 1)}"
    by (auto simp: leaky_balance split: if_splits)
  then show ?thesis
    using leak_report_exact [OF leaky_proper leaky_held, of 1 0] by (simp add: leaky_balance)
qed

text \<open>
  A retain of a handle the tracker does not know is logged and not counted, while the release that
  goes with it is: a handle whose one retain and one release balance is reported as a leak.
\<close>

theorem balanced_handle_reported:
  "\<exists>A cs a. adapter_held A cs \<and> balance cs 8 = 0 \<and>
     Leaked 8 (- 1) \<in> set (logged (decrementRefCount a 0 True (tracker_run A cs no_refs)))"
proof (intro exI conjI)
  let ?cs = "[(REFCOUNT_CREATE_OR_INCREASE, 1, 0), (REFCOUNT_INCREASE, 8, 3), (REFCOUNT_DECREASE, 8, 3)] :: call list"
  show "adapter_held {1} ?cs"
    by (simp add: adapter_held_def balance_def gains_def All_less_Suc2 numeral_eq_Suc)
  show "balance ?cs 8 = 0" by (simp add: balance_def gains_def)
  show "Leaked 8 (- 1) \<in> set (logged (decrementRefCount 1 0 True (tracker_run {1} ?cs no_refs)))" by code_simp
qed

text \<open>A handle that is no adapter is counted like every other object while an adapter is held.\<close>

definition held_count :: "handle \<Rightarrow> tracker \<Rightarrow> nat" where
  "held_count p t = (if adapterCount t = 0 then 0 else nat (tracked t p))"

definition held_release :: "handle \<Rightarrow> nat \<Rightarrow> tracker \<Rightarrow> bool \<times> tracker" where
  "held_release p ty t =
     (let t' = decrementRefCount p ty False t in (map_of (counts t') p = None, t'))"

interpretation trk_rc: refcounted "held_count p" "incrementRefCount p ty False" "held_release p ty" "2 ^ 63"
  for p ty
proof unfold_locales
  fix t :: tracker
  have entry: "\<exists>i. map_of (counts t) p = Some i \<and> ri_refCount i = int (held_count p t) \<and> adapterCount t \<noteq> 0"
    if "0 < held_count p t"
    using that by (auto simp: held_count_def tracked_def split: if_splits option.splits)
  show "0 < held_count p t \<Longrightarrow> Suc (held_count p t) < 2 ^ 63 \<Longrightarrow>
      held_count p (incrementRefCount p ty False t) = Suc (held_count p t)"
    by (drule entry) (auto simp: incrementRefCount_def updateRefCount_def held_count_def [of p "update_tail _ _ _"]
        tracked_update_tail)
  show "0 < held_count p t \<Longrightarrow> held_count p (snd (held_release p ty t)) = held_count p t - 1"
    by (drule entry) (auto simp: held_release_def decrementRefCount_def updateRefCount_def Let_def
        held_count_def [of p "update_tail _ _ _"] tracked_update_tail)
  show "0 < held_count p t \<Longrightarrow> fst (held_release p ty t) = (held_count p t = 1)"
    by (drule entry) (auto simp: held_release_def decrementRefCount_def updateRefCount_def Let_def
        update_tail_def map_of_erase_insert)
qed

section \<open>Switching the layer on\<close>

text \<open>
  Enabling only UR_LAYER_BOUNDS_CHECKING does nothing: the switch is set, but initialisation
  returns before it installs any entry of the dispatch table, so no bounds check ever runs.
\<close>

theorem bounds_checking_alone_is_off:
  assumes "set names \<inter> {''UR_LAYER_FULL_VALIDATION'', ''UR_LAYER_PARAMETER_VALIDATION'',
             ''UR_LAYER_LEAK_CHECKING'', ''UR_LAYER_LIFETIME_VALIDATION''} = {}"
    and "''UR_LAYER_BOUNDS_CHECKING'' \<in> set names"
    and "\<not> enableParameterValidation c" and "\<not> enableLeakChecking c" and "\<not> enableLifetimeValidation c"
  shows "val_init tables names c ddi = (UR_RESULT_SUCCESS, c\<lparr>enableBoundsChecking := True\<rparr>, ddi)"
  using assms by (auto simp: val_init_def set_switches_def Let_def)

definition val_off :: val_context where
  "val_off = \<lparr>enableParameterValidation = False, enableBoundsChecking = False, enableLeakChecking = False,
     enableLifetimeValidation = False, refCountContext = no_refs\<rparr>"

theorem bounds_checking_alone_is_off_witness:
  "val_init [\<lambda>d :: nat. (UR_RESULT_SUCCESS, d + 1)] [''UR_LAYER_BOUNDS_CHECKING''] val_off 0 =
     (UR_RESULT_SUCCESS, val_off\<lparr>enableBoundsChecking := True\<rparr>, 0)"
  by (rule bounds_checking_alone_is_off) (simp_all add: val_off_def)

end
