(* ===== verification/UR_Stream_Queue.thy ===== *)
theory UR_Stream_Queue
  imports UR_Prelude
begin

text \<open>
  The out-of-order queue of the CUDA and HIP adapters, \<open>stream_queue_t\<close> of
  source/common/cuda-hip/stream_queue.hpp: round-robin selection of native in-order streams, reuse
  of the stream of a dependency, and the synchronisation that a barrier or a finish performs. A
  method is one step; \<open>mkC\<close> and \<open>mkT\<close> stand for the adapter's \<open>createStreamWithPriority\<close> on a
  slot of the two vectors. Indices are 32-bit as in the code.
\<close>

section \<open>State\<close>

record stream_queue =
  ComputeStreams :: "nat list"
  NumComputeStreams :: u32
  TransferStreams :: "nat list"
  NumTransferStreams :: u32
  ComputeStreamIndex :: u32
  TransferStreamIndex :: u32
  LastSyncComputeStreams :: u32
  LastSyncTransferStreams :: u32
  DelayCompute :: "bool list"

abbreviation compute_size :: "stream_queue \<Rightarrow> nat" where
  "compute_size q \<equiv> length (ComputeStreams q)"

abbreviation transfer_size :: "stream_queue \<Rightarrow> nat" where
  "transfer_size q \<equiv> length (TransferStreams q)"

text \<open>The two constructors.\<close>

definition new_stream_queue :: "nat \<Rightarrow> nat \<Rightarrow> bool \<Rightarrow> stream_queue" where
  "new_stream_queue CS TS IsOutOfOrder =
     (let n = (if IsOutOfOrder then CS else 1); k = (if IsOutOfOrder then TS else 0)
      in \<lparr>ComputeStreams = replicate n 0, NumComputeStreams = 0,
          TransferStreams = replicate k 0, NumTransferStreams = 0,
          ComputeStreamIndex = 0, TransferStreamIndex = 0,
          LastSyncComputeStreams = 0, LastSyncTransferStreams = 0,
          DelayCompute = replicate n False\<rparr>)"

definition native_stream_queue :: "nat \<Rightarrow> stream_queue" where
  "native_stream_queue stream =
     \<lparr>ComputeStreams = [stream], NumComputeStreams = 1, TransferStreams = [], NumTransferStreams = 0,
      ComputeStreamIndex = 0, TransferStreamIndex = 0,
      LastSyncComputeStreams = 0, LastSyncTransferStreams = 0, DelayCompute = [False]\<rparr>"

section \<open>Choosing a stream\<close>

definition create_compute :: "(nat \<Rightarrow> nat) \<Rightarrow> stream_queue \<Rightarrow> stream_queue" where
  "create_compute mkC q =
     (if unat (NumComputeStreams q) < compute_size q
      then q\<lparr>ComputeStreams := (ComputeStreams q)[unat (NumComputeStreams q) := mkC (unat (NumComputeStreams q))],
             NumComputeStreams := NumComputeStreams q + 1\<rparr>
      else q)"

lemma clear_delay_less:
  "i < length ds \<Longrightarrow> ds ! i \<Longrightarrow> count_list (ds[i := False]) True < count_list ds True"
proof (induction ds arbitrary: i)
  case Nil
  then show ?case by simp
next
  case (Cons d ds)
  then show ?case by (cases i) auto
qed

lemma create_compute_keeps [simp]:
  "DelayCompute (create_compute mkC q) = DelayCompute q"
  "ComputeStreamIndex (create_compute mkC q) = ComputeStreamIndex q"
  "LastSyncComputeStreams (create_compute mkC q) = LastSyncComputeStreams q"
  "length (ComputeStreams (create_compute mkC q)) = compute_size q"
  by (simp_all add: create_compute_def)

text \<open>The loop of \<open>getNextComputeStream(StreamToken)\<close>; the result is the token, the stream and the state.\<close>

function getNextComputeStream :: "(nat \<Rightarrow> nat) \<Rightarrow> stream_queue \<Rightarrow> u32 \<times> nat \<times> stream_queue" where
  "getNextComputeStream mkC q =
     (let q1 = create_compute mkC q;
          Token = ComputeStreamIndex q1;
          q2 = q1\<lparr>ComputeStreamIndex := Token + 1\<rparr>;
          StreamI = unat Token mod compute_size q2
      in if StreamI < length (DelayCompute q2) \<and> DelayCompute q2 ! StreamI
         then getNextComputeStream mkC (q2\<lparr>DelayCompute := (DelayCompute q2)[StreamI := False]\<rparr>)
         else (Token, ComputeStreams q2 ! StreamI, q2))"
  by pat_completeness auto
termination
  by (relation "measure (\<lambda>(mkC, q). count_list (DelayCompute q) True)") (auto intro: clear_delay_less)

declare getNextComputeStream.simps [simp del]

definition no_token :: u32 where
  "no_token = - 1"

definition hasBeenSynchronized :: "stream_queue \<Rightarrow> u32 \<Rightarrow> bool" where
  "hasBeenSynchronized q StreamToken =
     (if StreamToken = no_token then False else LastSyncComputeStreams q > StreamToken)"

definition canReuseStream :: "stream_queue \<Rightarrow> u32 \<Rightarrow> bool" where
  "canReuseStream q StreamToken =
     (if StreamToken = no_token then False
      else unat (ComputeStreamIndex q - StreamToken) \<le> compute_size q \<and> \<not> hasBeenSynchronized q StreamToken)"

text \<open>An event of the wait list: whether its queue is this one, its token and its stream.\<close>

record sq_event =
  ev_here :: bool
  ev_token :: u32
  ev_stream :: nat

fun getNextComputeStream_reuse :: "(nat \<Rightarrow> nat) \<Rightarrow> sq_event list \<Rightarrow> stream_queue \<Rightarrow> u32 \<times> nat \<times> stream_queue" where
  "getNextComputeStream_reuse mkC [] q = getNextComputeStream mkC q"
| "getNextComputeStream_reuse mkC (e # es) q =
     (if ev_here e \<and> canReuseStream q (ev_token e)
      then let StreamI = unat (ev_token e) mod length (DelayCompute q)
           in (ev_token e, ev_stream e, q\<lparr>DelayCompute := (DelayCompute q)[StreamI := True]\<rparr>)
      else getNextComputeStream_reuse mkC es q)"

definition create_transfer :: "(nat \<Rightarrow> nat) \<Rightarrow> stream_queue \<Rightarrow> stream_queue" where
  "create_transfer mkT q =
     (if unat (NumTransferStreams q) < transfer_size q
      then q\<lparr>TransferStreams := (TransferStreams q)[unat (NumTransferStreams q) := mkT (unat (NumTransferStreams q))],
             NumTransferStreams := NumTransferStreams q + 1\<rparr>
      else q)"

definition getNextTransferStream :: "(nat \<Rightarrow> nat) \<Rightarrow> (nat \<Rightarrow> nat) \<Rightarrow> stream_queue \<Rightarrow> nat \<times> stream_queue" where
  "getNextTransferStream mkC mkT q =
     (if TransferStreams q = [] then snd (getNextComputeStream mkC q)
      else let q1 = create_transfer mkT q;
               StreamI = unat (TransferStreamIndex q1) mod transfer_size q1
           in (TransferStreams q1 ! StreamI, q1\<lparr>TransferStreamIndex := TransferStreamIndex q1 + 1\<rparr>))"

section \<open>Synchronising\<close>

text \<open>
  The slots \<open>syncStreams\<close> visits, in order, for one of the two vectors. \<open>Start\<close>, \<open>End\<close> and the
  difference are unsigned 32-bit values.
\<close>

definition sync_slots :: "nat \<Rightarrow> u32 \<Rightarrow> u32 \<Rightarrow> nat list" where
  "sync_slots Size Start End =
     (if unat (End - Start) \<ge> Size then [0..<Size]
      else let s = unat Start mod Size; e = unat End mod Size
           in if s \<le> e then [s..<e] else [s..<Size] @ [0..<e])"

definition syncStreams :: "bool \<Rightarrow> stream_queue \<Rightarrow> nat list \<times> stream_queue" where
  "syncStreams ResetUsed q =
     (let Start = LastSyncComputeStreams q;
          End = (if unat (NumComputeStreams q) < compute_size q then NumComputeStreams q else ComputeStreamIndex q);
          slots = sync_slots (compute_size q) Start End;
          q1 = q\<lparr>LastSyncComputeStreams := (if ResetUsed then End else LastSyncComputeStreams q),
                 DelayCompute := map (\<lambda>i. if i \<in> set slots then False else DelayCompute q ! i)
                                   [0..<length (DelayCompute q)]\<rparr>;
          synced = map (\<lambda>i. ComputeStreams q ! i) slots
      in if TransferStreams q = [] then (synced, q1)
         else let tStart = LastSyncTransferStreams q;
                  tEnd = (if unat (NumTransferStreams q) < transfer_size q then NumTransferStreams q
                          else TransferStreamIndex q);
                  tslots = sync_slots (transfer_size q) tStart tEnd
              in (synced @ map (\<lambda>i. TransferStreams q ! i) tslots,
                  q1\<lparr>LastSyncTransferStreams := (if ResetUsed then tEnd else LastSyncTransferStreams q)\<rparr>))"

text \<open>\<open>forEachStream\<close> and \<open>allOf\<close> visit the streams created so far.\<close>

definition created_streams :: "stream_queue \<Rightarrow> nat list" where
  "created_streams q =
     take (min (compute_size q) (unat (NumComputeStreams q))) (ComputeStreams q)
     @ take (min (transfer_size q) (unat (NumTransferStreams q))) (TransferStreams q)"

definition allOf :: "(nat \<Rightarrow> bool) \<Rightarrow> stream_queue \<Rightarrow> bool" where
  "allOf F q = list_all F (created_streams q)"

section \<open>The visited slots are those of the tokens handed out\<close>

lemma mod_image_full:
  assumes "0 < n" and "s + n \<le> e"
  shows "(\<lambda>t. t mod n) ` {s..<e} = {0..<n :: nat}"
proof
  show "(\<lambda>t. t mod n) ` {s..<e} \<subseteq> {0..<n}"
    using assms(1) by auto
  show "{0..<n} \<subseteq> (\<lambda>t. t mod n) ` {s..<e}"
  proof
    fix i assume i: "i \<in> {0..<n}"
    let ?t = "s + (i + n - s mod n) mod n"
    have "s mod n < n" using assms(1) by simp
    then have le: "s mod n \<le> i + n" by simp
    have "?t mod n = (s mod n + (i + n - s mod n) mod n) mod n"
      by (simp add: mod_simps)
    also have "\<dots> = (s mod n + (i + n - s mod n)) mod n"
      by (simp add: mod_simps)
    also have "\<dots> = i"
      using le i by simp
    finally have "?t mod n = i" .
    moreover have "?t \<in> {s..<e}"
      using assms mod_less_divisor [OF assms(1), of "i + n - s mod n"] by (simp del: mod_less_divisor)
    ultimately show "i \<in> (\<lambda>t. t mod n) ` {s..<e}" by (metis image_eqI)
  qed
qed

lemma mod_wrap: "n \<le> x \<Longrightarrow> x < 2 * n \<Longrightarrow> x mod n = x - (n :: nat)"
  by (simp add: le_mod_geq)

lemma mod_image_short:
  assumes "s \<le> e" and "e - s < n"
  shows "(\<lambda>t. t mod n) ` {s..<e} =
           (if s mod n \<le> e mod n then {s mod n..<e mod n} else {s mod n..<n} \<union> {0..<e mod n :: nat})"
proof -
  obtain k where e: "e = s + k" and k: "k < n"
    using assms by (metis add_diff_inverse_nat not_less)
  have n: "0 < n" using k by simp
  have img: "(\<lambda>t. t mod n) ` {s..<e} = (\<lambda>j. (s mod n + j) mod n) ` {0..<k}"
  proof -
    have "{s..<e} = (\<lambda>j. s + j) ` {0..<k}" by (simp add: e add.commute)
    then show ?thesis by (simp only: image_image mod_add_left_eq)
  qed
  have emod: "e mod n = (s mod n + k) mod n" by (simp add: e mod_simps)
  let ?a = "s mod n"
  have a: "?a < n" using n by simp
  show ?thesis
  proof (cases "?a + k < n")
    case True
    then have "(\<lambda>j. (?a + j) mod n) ` {0..<k} = (\<lambda>j. ?a + j) ` {0..<k}"
      by (intro image_cong) auto
    with True show ?thesis by (simp add: img emod add.commute)
  next
    case False
    have lt: "?a + k < 2 * n" using a k by linarith
    from False have em: "e mod n = ?a + k - n"
      using mod_wrap [of n "?a + k"] lt by (simp add: emod)
    have "(\<lambda>j. (?a + j) mod n) ` {0..<k} = {?a..<n} \<union> {0..<?a + k - n}"
    proof (intro equalityI subsetI)
      fix i assume "i \<in> (\<lambda>j. (?a + j) mod n) ` {0..<k}"
      then obtain j where "j < k" "i = (?a + j) mod n" by auto
      then show "i \<in> {?a..<n} \<union> {0..<?a + k - n}"
        using a k lt mod_wrap [of n "?a + j"] by (cases "?a + j < n") auto
    next
      fix i assume i: "i \<in> {?a..<n} \<union> {0..<?a + k - n}"
      show "i \<in> (\<lambda>j. (?a + j) mod n) ` {0..<k}"
      proof (cases "?a \<le> i")
        case True
        with i k a False have "i - ?a < k" "(?a + (i - ?a)) mod n = i" by auto
        then show ?thesis by (metis atLeastLessThan_iff image_eqI zero_le)
      next
        case False
        with i have b: "i < ?a + k - n" "i < ?a" by auto
        then have sum: "?a + (i + n - ?a) = i + n" using a by linarith
        have "i + n - ?a < k" using b a by linarith
        moreover have "(?a + (i + n - ?a)) mod n = i" using less_trans [OF b(2) a] unfolding sum by simp
        ultimately show ?thesis by (metis atLeastLessThan_iff image_eqI zero_le)
      qed
    qed
    with em a k False show ?thesis by (auto simp: img)
  qed
qed

lemma sync_slots_set:
  assumes "0 < n" and "unat s \<le> unat e"
  shows "set (sync_slots n s e) = (\<lambda>t. t mod n) ` {unat s..<unat e}"
proof -
  have diff: "unat (e - s) = unat e - unat s"
    using assms(2) by (simp add: unat_sub word_le_nat_alt)
  show ?thesis
  proof (cases "unat e - unat s \<ge> n")
    case True
    then have "unat s + n \<le> unat e" using assms(1) by linarith
    with mod_image_full [OF assms(1)] True show ?thesis
      by (simp add: sync_slots_def diff)
  next
    case False
    with mod_image_short [OF assms(2), of n] show ?thesis
      by (auto simp: sync_slots_def diff Let_def)
  qed
qed

section \<open>Invariant\<close>

definition compute_ok :: "stream_queue \<Rightarrow> bool" where
  "compute_ok q \<longleftrightarrow>
     0 < compute_size q \<and> compute_size q < 2 ^ 32 \<and> length (DelayCompute q) = compute_size q
     \<and> unat (LastSyncComputeStreams q) \<le> unat (ComputeStreamIndex q)
     \<and> (unat (NumComputeStreams q) = compute_size q
        \<or> unat (NumComputeStreams q) < compute_size q \<and> NumComputeStreams q = ComputeStreamIndex q)"

definition transfer_ok :: "stream_queue \<Rightarrow> bool" where
  "transfer_ok q \<longleftrightarrow>
     transfer_size q < 2 ^ 32 \<and> unat (LastSyncTransferStreams q) \<le> unat (TransferStreamIndex q)
     \<and> (unat (NumTransferStreams q) = transfer_size q
        \<or> unat (NumTransferStreams q) < transfer_size q \<and> NumTransferStreams q = TransferStreamIndex q)"

text \<open>The stream of a token, and the streams handed out since the last resetting synchronisation.\<close>

definition compute_stream :: "stream_queue \<Rightarrow> nat \<Rightarrow> nat" where
  "compute_stream q t = ComputeStreams q ! (t mod compute_size q)"

definition transfer_stream :: "stream_queue \<Rightarrow> nat \<Rightarrow> nat" where
  "transfer_stream q t = TransferStreams q ! (t mod transfer_size q)"

definition recent_compute :: "stream_queue \<Rightarrow> nat set" where
  "recent_compute q =
     compute_stream q ` {unat (LastSyncComputeStreams q)..<unat (ComputeStreamIndex q)}"

definition recent_transfer :: "stream_queue \<Rightarrow> nat set" where
  "recent_transfer q =
     (if TransferStreams q = [] then {}
      else transfer_stream q ` {unat (LastSyncTransferStreams q)..<unat (TransferStreamIndex q)})"

lemma create_compute_ok:
  assumes "compute_ok q" and "Suc (unat (ComputeStreamIndex q)) < 2 ^ 32"
  shows "compute_ok ((create_compute mkC q)\<lparr>ComputeStreamIndex := ComputeStreamIndex q + 1\<rparr>)"
    and "t < unat (ComputeStreamIndex q) \<Longrightarrow> compute_stream (create_compute mkC q) t = compute_stream q t"
proof -
  let ?n = "NumComputeStreams q"
  have inc: "unat (?n + 1) = Suc (unat ?n)" if "unat ?n < compute_size q"
    using that assms(1) by (intro unat_inc_u32) (simp add: compute_ok_def)
  show "compute_ok ((create_compute mkC q)\<lparr>ComputeStreamIndex := ComputeStreamIndex q + 1\<rparr>)"
    using assms inc unat_inc_u32 [OF assms(2)] by (auto simp: compute_ok_def create_compute_def)
  show "compute_stream (create_compute mkC q) t = compute_stream q t" if "t < unat (ComputeStreamIndex q)"
    using assms(1) that by (auto simp: compute_ok_def create_compute_def compute_stream_def)
qed

text \<open>What the loop of \<open>getNextComputeStream\<close> establishes.\<close>

definition handed_out :: "stream_queue \<Rightarrow> u32 \<Rightarrow> nat \<Rightarrow> stream_queue \<Rightarrow> bool" where
  "handed_out q tok s q' \<longleftrightarrow>
     compute_ok q' \<and> compute_size q' = compute_size q
     \<and> LastSyncComputeStreams q' = LastSyncComputeStreams q
     \<and> unat (ComputeStreamIndex q) \<le> unat tok \<and> unat (ComputeStreamIndex q') = Suc (unat tok)
     \<and> s = compute_stream q' (unat tok)
     \<and> (\<forall>t < unat (ComputeStreamIndex q). compute_stream q' t = compute_stream q t)
     \<and> TransferStreams q' = TransferStreams q \<and> NumTransferStreams q' = NumTransferStreams q
     \<and> TransferStreamIndex q' = TransferStreamIndex q \<and> LastSyncTransferStreams q' = LastSyncTransferStreams q"

lemma compute_ok_delay:
  "compute_ok (q\<lparr>DelayCompute := ds\<rparr>) \<longleftrightarrow> compute_ok q"
  if "length ds = length (DelayCompute q)"
  using that by (simp add: compute_ok_def)

lemma compute_stream_upd [simp]:
  "compute_stream (q\<lparr>DelayCompute := ds\<rparr>) = compute_stream q"
  "compute_stream (q\<lparr>ComputeStreamIndex := i\<rparr>) = compute_stream q"
  by (simp_all add: compute_stream_def fun_eq_iff)

lemma create_compute_transfer [simp]:
  "TransferStreams (create_compute mkC q) = TransferStreams q"
  "NumTransferStreams (create_compute mkC q) = NumTransferStreams q"
  "TransferStreamIndex (create_compute mkC q) = TransferStreamIndex q"
  "LastSyncTransferStreams (create_compute mkC q) = LastSyncTransferStreams q"
  by (simp_all add: create_compute_def)

lemma getNextComputeStream_handed_out:
  assumes "compute_ok q"
    and "unat (ComputeStreamIndex q) + count_list (DelayCompute q) True + 1 < 2 ^ 32"
    and "getNextComputeStream mkC q = (tok, s, q')"
  shows "handed_out q tok s q'"
  using assms
proof (induction mkC q arbitrary: tok s q' rule: getNextComputeStream.induct)
  case (1 mkC q)
  let ?q2 = "(create_compute mkC q)\<lparr>ComputeStreamIndex := ComputeStreamIndex q + 1\<rparr>"
  let ?i = "unat (ComputeStreamIndex q) mod compute_size q"
  have room: "Suc (unat (ComputeStreamIndex q)) < 2 ^ 32"
    using 1(3) by simp
  note ok2 = create_compute_ok(1) [OF 1(2) room] and same = create_compute_ok(2) [OF 1(2) room]
  note idx2 = unat_inc_u32 [OF room]
  have len: "?i < length (DelayCompute q)"
    using 1(2) by (simp add: compute_ok_def)
  show ?case
  proof (cases "DelayCompute q ! ?i")
    case True
    let ?q3 = "?q2\<lparr>DelayCompute := (DelayCompute q)[?i := False]\<rparr>"
    have rec: "getNextComputeStream mkC ?q3 = (tok, s, q')"
      using 1(4) True len by (subst (asm) getNextComputeStream.simps) (simp add: Let_def)
    have "handed_out ?q3 tok s q'"
      using 1(1) [OF refl refl refl refl] 1(3) True len rec ok2 idx2 clear_delay_less [OF len True]
      by (simp add: compute_ok_delay)
    then show ?thesis
      using same idx2 by (auto simp: handed_out_def)
  next
    case False
    then have "tok = ComputeStreamIndex q" "s = ComputeStreams ?q2 ! ?i" "q' = ?q2"
      using 1(4) len by (subst (asm) getNextComputeStream.simps, simp add: Let_def)+
    then show ?thesis
      using ok2 same idx2 by (auto simp: handed_out_def compute_stream_def)
  qed
qed

lemma recent_compute_handed_out:
  assumes "handed_out q tok s q'" and "compute_ok q"
  shows "insert s (recent_compute q) \<subseteq> recent_compute q' \<and> recent_transfer q' = recent_transfer q"
proof -
  have "compute_stream q t \<in> recent_compute q'"
    if "unat (LastSyncComputeStreams q) \<le> t" "t < unat (ComputeStreamIndex q)" for t
  proof -
    have "compute_stream q t = compute_stream q' t"
      using assms(1) that by (simp add: handed_out_def)
    moreover have "t \<in> {unat (LastSyncComputeStreams q')..<unat (ComputeStreamIndex q')}"
      using assms(1) that by (simp add: handed_out_def)
    ultimately show ?thesis by (simp add: recent_compute_def)
  qed
  moreover have "s \<in> recent_compute q'"
    using assms by (auto simp: handed_out_def recent_compute_def compute_ok_def)
  moreover have "recent_transfer q' = recent_transfer q"
    using assms(1) by (auto simp: handed_out_def recent_transfer_def transfer_stream_def)
  ultimately show ?thesis by (auto simp: recent_compute_def)
qed

section \<open>Histories\<close>

text \<open>
  One host thread at a time: a command is submitted to the stream in the same step that hands it
  out. \<open>pending\<close> holds the streams that received a command since the last resetting
  synchronisation. An event of the wait list that belongs to this queue carries a token handed out
  before and the stream of that token; the indices stay below their 32-bit limit.
\<close>

definition event_ok :: "stream_queue \<Rightarrow> sq_event \<Rightarrow> bool" where
  "event_ok q e \<longleftrightarrow>
     (ev_here e \<and> ev_token e \<noteq> no_token \<longrightarrow>
        unat (ev_token e) < unat (ComputeStreamIndex q) \<and> ev_stream e = compute_stream q (unat (ev_token e)))"

definition index_room :: "stream_queue \<Rightarrow> bool" where
  "index_room q \<longleftrightarrow>
     unat (ComputeStreamIndex q) + count_list (DelayCompute q) True + 1 < 2 ^ 32
     \<and> unat (TransferStreamIndex q) + 1 < 2 ^ 32"

inductive queue_reach :: "(nat \<Rightarrow> nat) \<Rightarrow> (nat \<Rightarrow> nat) \<Rightarrow> stream_queue \<Rightarrow> nat set \<Rightarrow> bool" for mkC mkT where
  reach_new: "0 < CS \<Longrightarrow> CS < 2 ^ 32 \<Longrightarrow> TS < 2 ^ 32 \<Longrightarrow> queue_reach mkC mkT (new_stream_queue CS TS ooo) {}"
| reach_native: "queue_reach mkC mkT (native_stream_queue stream) {}"
| reach_compute: "queue_reach mkC mkT q pending \<Longrightarrow> index_room q \<Longrightarrow>
     list_all (event_ok q) es \<Longrightarrow> getNextComputeStream_reuse mkC es q = (tok, s, q') \<Longrightarrow>
     queue_reach mkC mkT q' (insert s pending)"
| reach_transfer: "queue_reach mkC mkT q pending \<Longrightarrow> index_room q \<Longrightarrow>
     getNextTransferStream mkC mkT q = (s, q') \<Longrightarrow> queue_reach mkC mkT q' (insert s pending)"
| reach_sync: "queue_reach mkC mkT q pending \<Longrightarrow> syncStreams False q = (synced, q') \<Longrightarrow>
     queue_reach mkC mkT q' pending"
| reach_reset: "queue_reach mkC mkT q pending \<Longrightarrow> syncStreams True q = (synced, q') \<Longrightarrow>
     queue_reach mkC mkT q' {}"

definition queue_inv :: "stream_queue \<Rightarrow> nat set \<Rightarrow> bool" where
  "queue_inv q pending \<longleftrightarrow>
     compute_ok q \<and> transfer_ok q \<and> pending \<subseteq> recent_compute q \<union> recent_transfer q"

lemma handed_out_inv:
  assumes "queue_inv q pending" and "handed_out q tok s q'"
  shows "queue_inv q' (insert s pending)"
proof -
  have "transfer_ok q'"
    using assms by (auto simp: queue_inv_def handed_out_def transfer_ok_def)
  moreover have "compute_ok q'"
    using assms(2) by (simp add: handed_out_def)
  ultimately show ?thesis
    using recent_compute_handed_out [OF assms(2)] assms(1) by (auto simp: queue_inv_def)
qed

lemma recent_delay [simp]:
  "recent_compute (q\<lparr>DelayCompute := ds\<rparr>) = recent_compute q"
  "recent_transfer (q\<lparr>DelayCompute := ds\<rparr>) = recent_transfer q"
  by (simp_all add: recent_compute_def recent_transfer_def transfer_stream_def)

lemma reuse_inv:
  assumes "queue_inv q pending" and "index_room q" and "list_all (event_ok q) es"
    and "getNextComputeStream_reuse mkC es q = (tok, s, q')"
  shows "queue_inv q' (insert s pending)"
  using assms
proof (induction mkC es q rule: getNextComputeStream_reuse.induct)
  case (1 mkC q)
  then have "handed_out q tok s q'"
    by (intro getNextComputeStream_handed_out) (simp_all add: queue_inv_def index_room_def)
  with 1 show ?case by (simp add: handed_out_inv)
next
  case (2 mkC e es q)
  show ?case
  proof (cases "ev_here e \<and> canReuseStream q (ev_token e)")
    case True
    then have tok: "unat (ev_token e) < unat (ComputeStreamIndex q)"
        "ev_stream e = compute_stream q (unat (ev_token e))"
        "unat (LastSyncComputeStreams q) \<le> unat (ev_token e)"
      using 2(4)
      by (auto simp: event_ok_def canReuseStream_def hasBeenSynchronized_def word_less_nat_alt split: if_splits)
    from True 2(5) have "s = ev_stream e"
      "q' = q\<lparr>DelayCompute := (DelayCompute q)[unat (ev_token e) mod length (DelayCompute q) := True]\<rparr>"
      by (auto simp: Let_def)
    moreover have "ev_stream e \<in> recent_compute q"
      using tok by (auto simp: recent_compute_def)
    ultimately show ?thesis
      using 2(2) by (auto simp: queue_inv_def compute_ok_delay transfer_ok_def)
  next
    case False
    then have rec: "getNextComputeStream_reuse mkC es q = (tok, s, q')"
      using 2(5) by auto
    show ?thesis
      using 2(4) by (intro 2(1) [OF False 2(2,3) _ rec]) simp
  qed
qed

lemma transfer_inv:
  assumes "queue_inv q pending" and "index_room q" and "getNextTransferStream mkC mkT q = (s, q')"
  shows "queue_inv q' (insert s pending)"
proof (cases "TransferStreams q = []")
  case True
  then obtain tok where "getNextComputeStream mkC q = (tok, s, q')"
    using assms(3) by (cases "getNextComputeStream mkC q") (simp add: getNextTransferStream_def)
  then show ?thesis
    using assms by (intro handed_out_inv getNextComputeStream_handed_out) (simp_all add: queue_inv_def index_room_def)
next
  case False
  let ?q1 = "create_transfer mkT q"
  have q': "q' = ?q1\<lparr>TransferStreamIndex := TransferStreamIndex q + 1\<rparr>"
    and s: "s = transfer_stream ?q1 (unat (TransferStreamIndex q))"
    using False assms(3) by (auto simp: getNextTransferStream_def Let_def transfer_stream_def create_transfer_def)
  have room: "Suc (unat (TransferStreamIndex q)) < 2 ^ 32"
    using assms(2) by (simp add: index_room_def)
  have inc: "unat (NumTransferStreams q + 1) = Suc (unat (NumTransferStreams q))"
    if "unat (NumTransferStreams q) < transfer_size q"
    using that assms(1) by (intro unat_inc_u32) (simp add: queue_inv_def transfer_ok_def)
  have ok: "transfer_ok q'"
    using assms(1) inc unat_inc_u32 [OF room]
    by (auto simp: queue_inv_def transfer_ok_def q' create_transfer_def)
  have same: "transfer_stream ?q1 t = transfer_stream q t" if "t < unat (TransferStreamIndex q)" for t
    using assms(1) that False by (auto simp: queue_inv_def transfer_ok_def create_transfer_def transfer_stream_def)
  have stream: "transfer_stream q' = transfer_stream ?q1"
    by (simp add: q' transfer_stream_def fun_eq_iff)
  have ne: "TransferStreams q' \<noteq> []"
    using False by (auto simp: q' create_transfer_def)
  have last: "LastSyncTransferStreams q' = LastSyncTransferStreams q"
    by (simp add: q' create_transfer_def)
  have idx: "unat (TransferStreamIndex q') = Suc (unat (TransferStreamIndex q))"
    using unat_inc_u32 [OF room] by (simp add: q')
  have "recent_transfer q \<subseteq> recent_transfer q'"
    using same False ne
    by (auto simp: recent_transfer_def stream last idx intro!: rev_image_eqI less_SucI)
  moreover have "s \<in> recent_transfer q'"
    using assms(1) ne by (auto simp: recent_transfer_def stream last idx s queue_inv_def transfer_ok_def)
  moreover have "recent_compute q' = recent_compute q" "compute_ok q' = compute_ok q"
    by (simp_all add: q' create_transfer_def recent_compute_def compute_stream_def compute_ok_def)
  ultimately show ?thesis
    using assms(1) ok by (auto simp: queue_inv_def)
qed

lemma sync_end:
  assumes "compute_ok q"
  shows "(if unat (NumComputeStreams q) < compute_size q then NumComputeStreams q else ComputeStreamIndex q)
           = ComputeStreamIndex q"
  using assms by (auto simp: compute_ok_def)

lemma sync_end_transfer:
  assumes "transfer_ok q"
  shows "(if unat (NumTransferStreams q) < transfer_size q then NumTransferStreams q else TransferStreamIndex q)
           = TransferStreamIndex q"
  using assms by (auto simp: transfer_ok_def)

lemma synced_exact:
  assumes "compute_ok q" and "transfer_ok q"
  shows "set (fst (syncStreams r q)) = recent_compute q \<union> recent_transfer q"
proof -
  have c: "set (map (\<lambda>i. ComputeStreams q ! i)
      (sync_slots (compute_size q) (LastSyncComputeStreams q) (ComputeStreamIndex q))) = recent_compute q"
    using assms(1) by (simp add: sync_slots_set compute_ok_def recent_compute_def compute_stream_def image_image)
  have t: "set (map (\<lambda>i. TransferStreams q ! i)
      (sync_slots (transfer_size q) (LastSyncTransferStreams q) (TransferStreamIndex q))) = recent_transfer q"
    if "TransferStreams q \<noteq> []"
    using that assms(2) by (simp add: sync_slots_set transfer_ok_def recent_transfer_def transfer_stream_def image_image)
  show ?thesis
    unfolding syncStreams_def Let_def sync_end [OF assms(1)] sync_end_transfer [OF assms(2)]
    using c t by (cases "TransferStreams q = []") (simp_all add: recent_transfer_def [of q])
qed

lemma sync_state:
  assumes "compute_ok q" and "transfer_ok q" and "syncStreams r q = (synced, q')"
  shows "compute_ok q' \<and> transfer_ok q'
       \<and> recent_compute q' = (if r then {} else recent_compute q)
       \<and> recent_transfer q' = (if r then {} else recent_transfer q)"
proof -
  have fields: "ComputeStreams q' = ComputeStreams q" "NumComputeStreams q' = NumComputeStreams q"
    "ComputeStreamIndex q' = ComputeStreamIndex q" "length (DelayCompute q') = length (DelayCompute q)"
    "TransferStreams q' = TransferStreams q" "NumTransferStreams q' = NumTransferStreams q"
    "TransferStreamIndex q' = TransferStreamIndex q"
    "LastSyncComputeStreams q' = (if r then ComputeStreamIndex q else LastSyncComputeStreams q)"
    "LastSyncTransferStreams q' =
       (if r \<and> TransferStreams q \<noteq> [] then TransferStreamIndex q else LastSyncTransferStreams q)"
    using assms(3) sync_end [OF assms(1)] sync_end_transfer [OF assms(2)]
    by (auto simp: syncStreams_def Let_def split: if_splits)
  show ?thesis
    using assms(1,2)
    by (auto simp: compute_ok_def transfer_ok_def recent_compute_def recent_transfer_def compute_stream_def
        transfer_stream_def fields)
qed

lemma queue_reach_inv: "queue_reach mkC mkT q pending \<Longrightarrow> queue_inv q pending"
proof (induction rule: queue_reach.induct)
  case (reach_new CS TS ooo)
  then show ?case
    by (auto simp: queue_inv_def compute_ok_def transfer_ok_def new_stream_queue_def Let_def)
next
  case (reach_native stream)
  then show ?case by (simp add: queue_inv_def compute_ok_def transfer_ok_def native_stream_queue_def)
next
  case (reach_compute q pending es tok s q')
  then show ?case by (blast intro: reuse_inv)
next
  case (reach_transfer q pending s q')
  then show ?case by (blast intro: transfer_inv)
next
  case (reach_sync q pending synced q')
  then show ?case using sync_state [of q False synced q'] by (simp add: queue_inv_def)
next
  case (reach_reset q pending synced q')
  then show ?case using sync_state [of q True synced q'] by (simp add: queue_inv_def)
qed

text \<open>
  C37: A synchronisation reaches every stream with outstanding work, as long as the 32-bit round-robin
  indices have not wrapped (\<open>index_room\<close> at every request). In every such history of stream requests
  (new, reused from a dependency, transfer) and synchronisations issued by one thread at a
  time, \<open>syncStreams\<close> visits all streams that received a command since the last resetting
  synchronisation, although it only walks the window of round-robin indices since then.
\<close>

theorem syncStreams_covers_pending:
  assumes "queue_reach mkC mkT q pending"
  shows "pending \<subseteq> set (fst (syncStreams r q))"
  using queue_reach_inv [OF assms] synced_exact [of q r] by (auto simp: queue_inv_def)

lemma new_queue_room: "index_room (new_stream_queue CS TS ooo)"
  by (simp add: index_room_def new_stream_queue_def Let_def count_list_0_iff)

definition demo_queue :: stream_queue where
  "demo_queue =
     \<lparr>ComputeStreams = [100, 0], NumComputeStreams = 1, TransferStreams = [], NumTransferStreams = 0,
      ComputeStreamIndex = 1, TransferStreamIndex = 0,
      LastSyncComputeStreams = 0, LastSyncTransferStreams = 0, DelayCompute = [False, False]\<rparr>"

lemma demo_next: "getNextComputeStream (\<lambda>i. 100 + i) (new_stream_queue 2 0 True) = (0, 100, demo_queue)"
  by (subst getNextComputeStream.simps)
    (simp add: new_stream_queue_def create_compute_def demo_queue_def numeral_2_eq_2)

lemma demo_reach: "queue_reach (\<lambda>i. 100 + i) mkT demo_queue {100}"
proof -
  have "queue_reach (\<lambda>i. 100 + i) mkT (new_stream_queue 2 0 True) {}"
    by (rule queue_reach.reach_new) simp_all
  then show ?thesis
    by (rule queue_reach.reach_compute [where es = "[]"]) (simp_all add: demo_next new_queue_room)
qed

theorem syncStreams_covers_pending_witness:
  "queue_reach (\<lambda>i. 100 + i) (\<lambda>_. 0) demo_queue {100} \<and> 100 \<in> set (fst (syncStreams True demo_queue))"
  using demo_reach syncStreams_covers_pending [OF demo_reach, of True] by simp

text \<open>
  After the indices wrap, synchronised tokens are taken for new ones: a queue of 128 streams
  whose index has come round to 20 and has been synchronised there reuses the stream of a dependency whose token
  was handed out 30 requests before, since that token is larger than the index of the synchronisation.
  The next synchronisation visits no stream, so the new command on that stream is missed.
\<close>

definition wrapped_queue :: stream_queue where
  "wrapped_queue =
     \<lparr>ComputeStreams = [0..<128], NumComputeStreams = 128, TransferStreams = [], NumTransferStreams = 0,
      ComputeStreamIndex = 20, TransferStreamIndex = 0,
      LastSyncComputeStreams = 20, LastSyncTransferStreams = 0, DelayCompute = replicate 128 False\<rparr>"

theorem reuse_after_wrap_missed:
  "\<exists>q'. getNextComputeStream_reuse mkC [\<lparr>ev_here = True, ev_token = - 10, ev_stream = 118\<rparr>] wrapped_queue = (- 10, 118, q') \<and>
     compute_stream wrapped_queue (unat (- 10 :: u32)) = 118 \<and> fst (syncStreams r q') = []"
  by (simp add: wrapped_queue_def canReuseStream_def hasBeenSynchronized_def no_token_def compute_stream_def
      syncStreams_def sync_slots_def Let_def word_less_nat_alt)

text \<open>
  The synchronisation does not cover a command that is submitted after it to a stream handed
  out before it: right after a resetting synchronisation the next one visits no stream at all, so
  when one thread takes a stream, another finishes the queue and the first then submits its
  command, later synchronisations miss that command until the stream is handed out again.
\<close>

theorem syncStreams_misses_late_submission:
  assumes "queue_reach mkC mkT q pending" and "getNextComputeStream mkC q = (tok, s, q1)" and "index_room q"
    and "syncStreams True q1 = (synced, q2)"
  shows "s \<in> set synced \<and> fst (syncStreams r q2) = []"
proof -
  have "getNextComputeStream_reuse mkC [] q = (tok, s, q1)"
    using assms(2) by simp
  from queue_reach_inv [OF queue_reach.reach_compute [OF assms(1,3) _ this]]
  have inv: "queue_inv q1 (insert s pending)" by simp
  then have "s \<in> set synced"
    using synced_exact [of q1 True] assms(4) by (auto simp: queue_inv_def)
  moreover have "set (fst (syncStreams r q2)) = {}"
    using inv sync_state [OF _ _ assms(4)] synced_exact [of q2 r] by (auto simp: queue_inv_def)
  ultimately show ?thesis by simp
qed

theorem syncStreams_misses_late_submission_witness:
  "fst (syncStreams False (snd (syncStreams True demo_queue))) = []"
proof -
  have "queue_reach (\<lambda>i. 100 + i) mkT (new_stream_queue 2 0 True) {}"
    by (rule queue_reach.reach_new) simp_all
  then show ?thesis
    using syncStreams_misses_late_submission [OF _ demo_next new_queue_room, of _ _ "fst (syncStreams True demo_queue)"
        "snd (syncStreams True demo_queue)" False]
    by auto
qed

end
