(* ===== verification/San_Common.thy ===== *)
theory San_Common
  imports UR_Prelude
begin

text \<open>
  The arithmetic the sanitizers share (layers/sanitizer/sanitizer_common/sanitizer_common.hpp):
  powers of two, rounding, the sizes of redzones, on 64-bit words as in the code, and the allocation
  routine \<open>SafeAllocate\<close>. The lemmas
  read the bit operations as division and remainder of natural numbers.
\<close>

unbundle bit_operations_syntax

section \<open>Definitions\<close>

definition IsPowerOfTwo :: "u64 \<Rightarrow> bool" where
  "IsPowerOfTwo x \<longleftrightarrow> x AND (x - 1) = 0 \<and> x \<noteq> 0"

definition smear :: "nat \<Rightarrow> u64 \<Rightarrow> u64" where
  "smear k x = x OR drop_bit k x"

definition RoundUpToPowerOfTwo :: "u64 \<Rightarrow> u64" where
  "RoundUpToPowerOfTwo x =
     (if x = 0 then 1
      else smear 32 (smear 16 (smear 8 (smear 4 (smear 2 (smear 1 (x - 1)))))) + 1)"

definition RoundUpTo :: "u64 \<Rightarrow> u64 \<Rightarrow> u64" where
  "RoundUpTo Size boundary = (Size + boundary - 1) AND NOT (boundary - 1)"

definition RoundDownTo :: "u64 \<Rightarrow> u64 \<Rightarrow> u64" where
  "RoundDownTo x boundary = x AND NOT (boundary - 1)"

definition IsAligned :: "u64 \<Rightarrow> u64 \<Rightarrow> bool" where
  "IsAligned a alignment \<longleftrightarrow> a AND (alignment - 1) = 0"

text \<open>The literal 16 is an \<open>int\<close>, so the shift is 32 bits wide and its result is sign-extended.\<close>

definition RZLog2Size :: "u64 \<Rightarrow> u64" where
  "RZLog2Size rz_log = scast (push_bit (unat rz_log) 16 :: u32)"

fun log2_floor :: "nat \<Rightarrow> nat" where
  "log2_floor n = (if n < 2 then 0 else Suc (log2_floor (n div 2)))"

declare log2_floor.simps [simp del]

definition RZSize2Log :: "u64 \<Rightarrow> u64" where
  "RZSize2Log rz_size = of_nat (log2_floor (unat rz_size) - 4)"

definition ComputeRZLog :: "u64 \<Rightarrow> u64 \<Rightarrow> u64" where
  "ComputeRZLog user_requested_size min_size =
     (let rz_log = (if user_requested_size \<le> 64 - 16 then 0
                    else if user_requested_size \<le> 128 - 32 then 1
                    else if user_requested_size \<le> 512 - 64 then 2
                    else if user_requested_size \<le> 4096 - 128 then 3
                    else if user_requested_size \<le> 16384 - 256 then 4
                    else if user_requested_size \<le> 32768 - 512 then 5
                    else if user_requested_size \<le> 65536 - 1024 then 6
                    else 7)
      in max rz_log (RZSize2Log min_size))"

definition AlignTo :: "u64 \<Rightarrow> u64 \<Rightarrow> u64" where
  "AlignTo Value Align = (Value + Align - 1) div Align * Align"

definition GetSizeAndRedzoneSizeForLocal :: "u64 \<Rightarrow> u64 \<Rightarrow> u64 \<Rightarrow> u64" where
  "GetSizeAndRedzoneSizeForLocal Size Granularity Alignment =
     (let Res = (if Size \<le> 4 then 16
                 else if Size \<le> 16 then 32
                 else if Size \<le> 128 then Size + 32
                 else if Size \<le> 512 then Size + 64
                 else if Size \<le> 4096 then Size + 128
                 else Size + 256)
      in AlignTo (max Res (2 * Granularity)) Alignment)"

text \<open>
  Allocation on behalf of the sanitizers (sanitizer_allocator.hpp and .cpp). The adapter's entry
  points are the fields of a parameter; they return the result or the address. The assertions on
  the address ranges are not compiled in release builds and are hypotheses where a proof needs them.
\<close>

datatype alloc_type =
  UNKNOWN | DEVICE_USM | SHARED_USM | HOST_USM | MEM_BUFFER | DEVICE_GLOBAL | EXPORTABLE_MEM

record usm_services =
  pfnDeviceAlloc :: "u64 \<Rightarrow> ur_result + u64"
  pfnHostAlloc :: "u64 \<Rightarrow> ur_result + u64"
  pfnSharedAlloc :: "u64 \<Rightarrow> ur_result + u64"
  pfnUSMFree :: "u64 \<Rightarrow> ur_result"

definition SafeAllocate :: "'a usm_services_scheme \<Rightarrow> bool \<Rightarrow> alloc_type \<Rightarrow> u64 \<Rightarrow> ur_result + u64" where
  "SafeAllocate api hasDevice t Size =
     (if \<not> hasDevice \<and> t \<in> {DEVICE_USM, MEM_BUFFER, SHARED_USM} then Inl UR_RESULT_ERROR_INVALID_NULL_HANDLE
      else case t of
             DEVICE_USM \<Rightarrow> pfnDeviceAlloc api Size
           | MEM_BUFFER \<Rightarrow> pfnDeviceAlloc api Size
           | HOST_USM \<Rightarrow> pfnHostAlloc api Size
           | SHARED_USM \<Rightarrow> pfnSharedAlloc api Size
           | _ \<Rightarrow> Inl UR_RESULT_ERROR_INVALID_ARGUMENT)"

lemma SafeAllocate_device [simp]: "SafeAllocate api True DEVICE_USM n = pfnDeviceAlloc api n"
  by (simp add: SafeAllocate_def)

text \<open>The kinds of devices (\<open>DeviceType\<close> in sanitizer_libdevice.hpp) that have a shadow.\<close>

datatype device_kind = CPU | GPU_PVC | GPU_DG2

section \<open>Powers of two\<close>

lemma power_minus_one_mask: "(2 ^ n :: u64) - 1 = mask n"
  by (simp add: mask_eq_exp_minus_1)

lemma unat_pow2 [word_size_simps]: "n < 64 \<Longrightarrow> unat (2 ^ n :: u64) = 2 ^ n"
proof -
  assume "n < 64"
  then have "(2 :: nat) ^ n < 2 ^ 64" by (rule power_strict_increasing) simp
  then show ?thesis using unat_of_nat_u64 [of "2 ^ n"] by simp
qed

lemma bit_at_top:
  assumes "2 ^ n \<le> unat (x :: u64)" and "unat x < 2 ^ Suc n"
  shows "bit x n"
proof -
  have "unat x div 2 ^ n = 1"
    using assms by (intro div_nat_eqI) auto
  then have "bit (unat x) n" by (simp add: bit_iff_odd)
  then show ?thesis by (simp add: bit_unsigned_iff)
qed

lemma ex_top_bit:
  assumes "x \<noteq> (0 :: u64)"
  shows "\<exists>n < 64. 2 ^ n \<le> unat x \<and> unat x < 2 ^ Suc n"
proof -
  have "1 \<le> unat x" using assms by (simp add: Suc_le_eq unat_gt_0)
  then obtain n where n: "2 ^ n \<le> unat x" "unat x < 2 ^ (n + 1)"
    using ex_power_ivl1 [of 2 "unat x"] by auto
  have "(2 :: nat) ^ n < 2 ^ 64"
    using n(1) unat_u64_less [of x] by linarith
  then have "n < 64" by (rule power_less_imp_less_exp [rotated]) simp
  with n show ?thesis by auto
qed

lemma IsPowerOfTwo_iff: "IsPowerOfTwo x \<longleftrightarrow> (\<exists>n < 64. x = 2 ^ n)"
proof
  assume p: "IsPowerOfTwo x"
  then have "x \<noteq> 0" by (simp add: IsPowerOfTwo_def)
  then obtain n where n: "n < 64" "2 ^ n \<le> unat x" "unat x < 2 ^ Suc n"
    using ex_top_bit by blast
  have un: "unat (2 ^ n :: u64) = 2 ^ n"
    using n(1) by (rule unat_pow2)
  have "unat x = 2 ^ n"
  proof (rule ccontr)
    assume "unat x \<noteq> 2 ^ n"
    with n have gt: "2 ^ n < unat x" by simp
    then have "unat (x - 1) = unat x - 1"
      using \<open>x \<noteq> 0\<close> by (simp add: unat_minus_one)
    with gt n have "bit (x - 1) n" by (intro bit_at_top) auto
    moreover have "bit x n" using n by (intro bit_at_top) auto
    ultimately have "bit (x AND (x - 1)) n" by (simp add: bit_and_iff)
    with p show False by (simp add: IsPowerOfTwo_def)
  qed
  with un have "x = 2 ^ n" by (simp add: word_unat_eq_iff)
  with n(1) show "\<exists>n < 64. x = 2 ^ n" by blast
next
  assume "\<exists>n < 64. x = 2 ^ n"
  then obtain n where n: "n < 64" "x = 2 ^ n" by blast
  have "x AND (x - 1) = 0"
    unfolding n(2) power_minus_one_mask
    by (rule bit_word_eqI) (auto simp: bit_simps)
  moreover have "x \<noteq> 0"
    using n by (auto simp: exp_eq_0_imp_not_bit dest!: arg_cong [where f = "\<lambda>w. bit w n"] simp: bit_simps)
  ultimately show "IsPowerOfTwo x" by (simp add: IsPowerOfTwo_def)
qed

section \<open>Rounding\<close>


lemma and_not_mask: "(x :: u64) AND NOT (mask n) = x - take_bit n x"
proof -
  have "push_bit n (drop_bit n x) = x AND NOT (mask n)"
    by (rule bit_word_eqI) (auto simp: bit_simps)
  then show ?thesis
    using bits_ident [of n x] by (metis add_diff_cancel_right')
qed

lemma unat_take_bit: "unat (take_bit n (x :: u64)) = unat x mod 2 ^ n"
  unfolding unsigned_take_bit_eq by (simp add: take_bit_eq_mod)

lemma unat_and_not_mask: "unat ((x :: u64) AND NOT (mask n)) = unat x div 2 ^ n * 2 ^ n"
  by (simp add: and_not_mask unat_sub_u64 unat_take_bit minus_mod_eq_div_mult)

lemma unat_RoundDownTo [word_size_simps]:
  "unat (RoundDownTo x (2 ^ n)) = unat x div 2 ^ n * 2 ^ n"
  by (simp add: RoundDownTo_def power_minus_one_mask unat_and_not_mask)

lemma unat_RoundUpTo [word_size_simps]:
  assumes "n < 64" and "unat x + 2 ^ n \<le> 2 ^ 64"
  shows "unat (RoundUpTo x (2 ^ n)) = (unat x + 2 ^ n - 1) div 2 ^ n * 2 ^ n"
proof -
  have m: "unat (mask n :: u64) = 2 ^ n - 1"
    using unat_pow2 [OF assms(1)] by (simp add: unat_sub_u64 mask_eq_exp_minus_1)
  have "unat (x + mask n) = unat x + 2 ^ n - 1"
    using assms by (subst unat_add_u64) (auto simp: m)
  moreover have "x + 2 ^ n - 1 = x + mask n"
    by (simp add: mask_eq_exp_minus_1)
  ultimately show ?thesis
    by (simp only: RoundUpTo_def power_minus_one_mask unat_and_not_mask)
qed

lemma IsAligned_iff [word_size_simps]: "IsAligned a (2 ^ n) \<longleftrightarrow> unat a mod 2 ^ n = 0"
proof -
  have "a AND mask n = take_bit n a" by (simp add: take_bit_eq_mask)
  then show ?thesis
    using unat_take_bit [of n a] by (simp add: IsAligned_def power_minus_one_mask flip: unat_eq_0)
qed

lemma unat_and_mask: "unat ((a :: u64) AND mask n) = unat a mod 2 ^ n"
  by (simp add: take_bit_eq_mask [symmetric] unat_take_bit)

lemma and_high_zero: "(a :: u64) AND NOT (mask n) = 0 \<longleftrightarrow> unat a < 2 ^ n"
proof -
  have "(a AND NOT (mask n) = 0) = (unat (a AND NOT (mask n)) = 0)" by (simp add: unat_eq_0)
  then show ?thesis by (simp add: unat_and_not_mask div_eq_0_iff)
qed

lemma RoundDown_range:
  assumes "unat lo \<le> unat s"
  shows "unat (RoundDownTo lo (2 ^ k)) \<le> unat (RoundDownTo s (2 ^ k))"
    and "unat (RoundDownTo s (2 ^ k)) \<le> unat s" and "unat (RoundDownTo s (2 ^ k)) mod 2 ^ k = 0"
  using assms by (simp_all add: unat_RoundDownTo div_le_mono)

lemma next_multiple:
  assumes "m mod d = 0" and "n mod d = 0" and "m \<le> (n :: nat)"
  shows "n = m \<or> m + d \<le> n"
proof -
  have "d dvd n - m" using assms by (simp add: mod_0_imp_dvd dvd_diff_nat)
  with assms(3) show ?thesis by (cases "n = m") (auto dest!: dvd_imp_le)
qed

lemma unat_last_byte:
  fixes Ptr Size :: u64
  assumes "Size \<noteq> 0" and "unat Ptr + unat Size \<le> 2 ^ 64"
  shows "unat (Ptr + Size - 1) = unat Ptr + unat Size - 1"
proof -
  have pos: "0 < unat Size" using assms(1) by (simp add: unat_gt_0)
  have "unat (Ptr + (Size - 1)) = unat Ptr + unat (Size - 1)"
    using assms pos by (intro unat_add_u64) (simp add: unat_minus_one)
  with assms(1) pos show ?thesis by (simp add: unat_minus_one algebra_simps)
qed

section \<open>Redzones\<close>

lemma RZLog2Size_eq:
  assumes "unat k \<le> 26"
  shows "RZLog2Size k = 2 ^ (unat k + 4)"
proof -
  have "push_bit (unat k) 16 = (2 ^ (unat k + 4) :: u32)"
    by (simp add: push_bit_eq_mult power_add)
  then show ?thesis
    using assms unfolding RZLog2Size_def
    by (intro bit_word_eqI) (auto simp: bit_simps bit_word_scast_iff)
qed

lemma log2_floor_power: "log2_floor (2 ^ m) = m"
proof (induction m)
  case 0
  then show ?case by (simp add: log2_floor.simps)
next
  case (Suc m)
  have "\<not> 2 * 2 ^ m < (2 :: nat)" by simp
  with Suc show ?case by (subst log2_floor.simps) simp
qed

text \<open>
  The redzone of an allocation: a power of two, at least the configured minimum, and larger for
  larger allocations.
\<close>

definition redzone_log :: "u64 \<Rightarrow> nat \<Rightarrow> nat" where
  "redzone_log sz m = max (unat (ComputeRZLog sz 16) + 4) m"

lemma RZSize2Log_power: "4 \<le> m \<Longrightarrow> m < 64 \<Longrightarrow> unat (RZSize2Log (2 ^ m)) = m - 4"
proof -
  assume "4 \<le> m" "m < 64"
  then have "unat (of_nat (m - 4) :: u64) = m - 4" by (intro unat_of_nat_u64) simp
  with \<open>m < 64\<close> show ?thesis by (simp only: RZSize2Log_def unat_pow2 log2_floor_power)
qed

lemma RZ_size:
  assumes "4 \<le> m" and "m \<le> 30"
  shows "\<exists>k. RZLog2Size (ComputeRZLog sz (2 ^ m)) = 2 ^ k \<and> m \<le> k \<and> k \<le> 30"
proof -
  let ?r = "ComputeRZLog sz (2 ^ m)"
  have m4: "unat (RZSize2Log (2 ^ m)) = m - 4"
    using assms by (intro RZSize2Log_power) auto
  have bounds: "m - 4 \<le> unat ?r \<and> unat ?r \<le> 26"
  proof -
    have "max (a :: u64) b = (if unat a \<le> unat b then b else a)" for a b
      by (simp add: max_def word_le_nat_alt)
    with m4 assms show ?thesis by (auto simp: ComputeRZLog_def Let_def)
  qed
  then have "RZLog2Size ?r = 2 ^ (unat ?r + 4)"
    by (intro RZLog2Size_eq) simp
  with bounds assms show ?thesis by (intro exI [of _ "unat ?r + 4"]) auto
qed

section \<open>Rounding up to a power of two\<close>

lemma smear_bits:
  assumes "\<And>i. bit y i \<longleftrightarrow> (\<exists>j < m. bit (x :: u64) (i + j))"
  shows "bit (smear m y) i \<longleftrightarrow> (\<exists>j < 2 * m. bit x (i + j))"
proof
  assume "bit (smear m y) i"
  then have "bit y i \<or> bit y (m + i)"
    by (auto simp: smear_def bit_simps)
  then show "\<exists>j < 2 * m. bit x (i + j)"
  proof
    assume "bit y i"
    then obtain j where "j < m" "bit x (i + j)" using assms by blast
    then show ?thesis by (intro exI [of _ j]) auto
  next
    assume "bit y (m + i)"
    then obtain j where "j < m" "bit x (m + i + j)" using assms by blast
    then show ?thesis by (intro exI [of _ "m + j"]) (auto simp: add.assoc add.left_commute)
  qed
next
  assume "\<exists>j < 2 * m. bit x (i + j)"
  then obtain j where j: "j < 2 * m" "bit x (i + j)" by blast
  show "bit (smear m y) i"
  proof (cases "j < m")
    case True
    with j assms have "bit y i" by blast
    then show ?thesis by (simp add: smear_def bit_simps)
  next
    case False
    then have "i + j = m + i + (j - m)" "j - m < m" using j by auto
    with j assms have "bit y (m + i)" by metis
    then show ?thesis by (simp add: smear_def bit_simps)
  qed
qed

lemma smear_all:
  "bit (smear 32 (smear 16 (smear 8 (smear 4 (smear 2 (smear 1 x)))))) i \<longleftrightarrow> (\<exists>j < 64. bit x (i + j))"
proof -
  have b1: "bit (smear 1 x) i \<longleftrightarrow> (\<exists>j < 2. bit x (i + j))" for i
    using smear_bits [of x 1 x i] by simp
  have b2: "bit (smear 2 (smear 1 x)) i \<longleftrightarrow> (\<exists>j < 4. bit x (i + j))" for i
    using smear_bits [of "smear 1 x" 2 x i] b1 by simp
  have b4: "bit (smear 4 (smear 2 (smear 1 x))) i \<longleftrightarrow> (\<exists>j < 8. bit x (i + j))" for i
    using smear_bits [of "smear 2 (smear 1 x)" 4 x i] b2 by simp
  have b8: "bit (smear 8 (smear 4 (smear 2 (smear 1 x)))) i \<longleftrightarrow> (\<exists>j < 16. bit x (i + j))" for i
    using smear_bits [of "smear 4 (smear 2 (smear 1 x))" 8 x i] b4 by simp
  have b16: "bit (smear 16 (smear 8 (smear 4 (smear 2 (smear 1 x))))) i \<longleftrightarrow> (\<exists>j < 32. bit x (i + j))" for i
    using smear_bits [of "smear 8 (smear 4 (smear 2 (smear 1 x)))" 16 x i] b8 by simp
  show ?thesis
    using smear_bits [of "smear 16 (smear 8 (smear 4 (smear 2 (smear 1 x))))" 32 x i] b16 by simp
qed

lemma bit_above: "unat (x :: u64) < 2 ^ k \<Longrightarrow> k \<le> n \<Longrightarrow> \<not> bit x n"
proof -
  assume "unat x < 2 ^ k" "k \<le> n"
  then have "unat x < 2 ^ n" by (meson less_le_trans one_le_numeral power_increasing)
  then have "\<not> bit (unat x) n" by (simp add: bit_iff_odd)
  then show ?thesis by (auto simp: bit_unsigned_iff dest: bit_imp_le_length)
qed

lemma smear_eq_mask:
  assumes "2 ^ n \<le> unat x" and "unat x < 2 ^ Suc n" and "n < 64"
  shows "smear 32 (smear 16 (smear 8 (smear 4 (smear 2 (smear 1 x))))) = mask (Suc n)"
proof (rule bit_word_eqI)
  fix i assume i: "i < LENGTH(64)"
  have "(\<exists>j < 64. bit x (i + j)) \<longleftrightarrow> i \<le> n"
  proof
    assume "\<exists>j < 64. bit x (i + j)"
    then obtain j where "bit x (i + j)" by blast
    with bit_above [OF assms(2), of "i + j"] show "i \<le> n" by fastforce
  next
    assume "i \<le> n"
    then have "bit x (i + (n - i))" using bit_at_top [OF assms(1,2)] by simp
    with assms(3) show "\<exists>j < 64. bit x (i + j)" by (intro exI [of _ "n - i"]) auto
  qed
  moreover have "bit (mask (Suc n) :: u64) i \<longleftrightarrow> i \<le> n"
    using i by (auto simp: bit_simps)
  ultimately show "bit (smear 32 (smear 16 (smear 8 (smear 4 (smear 2 (smear 1 x)))))) i
      \<longleftrightarrow> bit (mask (Suc n) :: u64) i"
    by (simp only: smear_all)
qed

text \<open>
  For every value from 1 to 2^63, \<open>RoundUpToPowerOfTwo\<close> returns the least power of two that is
  not below it, although it only smears bits and increments.
\<close>

theorem RoundUpToPowerOfTwo_least:
  assumes "x \<noteq> 0" and "unat x \<le> 2 ^ 63"
  shows "\<exists>n. unat (RoundUpToPowerOfTwo x) = 2 ^ n \<and> unat x \<le> 2 ^ n \<and> (\<forall>k. unat x \<le> 2 ^ k \<longrightarrow> n \<le> k)"
proof (cases "x = 1")
  case True
  then show ?thesis by (intro exI [of _ 0]) (simp add: RoundUpToPowerOfTwo_def smear_def)
next
  case False
  with assms(1) have "x - 1 \<noteq> 0" by simp
  then obtain n where n: "n < 64" "2 ^ n \<le> unat (x - 1)" "unat (x - 1) < 2 ^ Suc n"
    using ex_top_bit by blast
  have dec: "unat (x - 1) = unat x - 1" using assms(1) by (simp add: unat_minus_one)
  have pos: "0 < unat x" using assms(1) by (simp add: unat_gt_0)
  have "(2 :: nat) ^ n < 2 ^ 63" using n(2) assms(2) dec pos by linarith
  then have n63: "n < 63" by (rule power_less_imp_less_exp [rotated]) simp
  have "RoundUpToPowerOfTwo x = 2 ^ Suc n"
    using assms(1) smear_eq_mask [OF n(2,3,1)] by (simp add: RoundUpToPowerOfTwo_def mask_eq_exp_minus_1)
  then have "unat (RoundUpToPowerOfTwo x) = 2 ^ Suc n"
    using unat_pow2 [of "Suc n"] n63 by simp
  moreover have "unat x \<le> 2 ^ Suc n" using n(3) dec pos by linarith
  moreover have "Suc n \<le> k" if "unat x \<le> 2 ^ k" for k
  proof (rule ccontr)
    assume "\<not> Suc n \<le> k"
    then have "(2 :: nat) ^ k \<le> 2 ^ n" by (simp add: power_increasing)
    with that n(2) dec pos show False by linarith
  qed
  ultimately show ?thesis by blast
qed

theorem RoundUpToPowerOfTwo_least_witness:
  "\<exists>n. unat (RoundUpToPowerOfTwo 5) = 2 ^ n \<and> unat (5 :: u64) \<le> 2 ^ n \<and> (\<forall>k. unat (5 :: u64) \<le> 2 ^ k \<longrightarrow> n \<le> k)"
  by (rule RoundUpToPowerOfTwo_least) simp_all

end
