(* ===== verification/Asan_Shadow.thy ===== *)
theory Asan_Shadow
  imports San_Common
begin

text \<open>
  The shadow memory of the address sanitizer (layers/sanitizer/asan/asan_shadow.cpp and .hpp): the
  three mappings from application memory to shadow bytes, poisoning, set-up, the shadows of local
  and private memory, and destruction. The shadow bytes are a function from addresses; the calls
  into the adapter are the fields of the parameter \<open>api\<close> and a fill that succeeds has its effect at
  once, as the internal queue is finished before a kernel starts. The locale \<open>shadow_mapping\<close> states what
  the rest of the sanitizer relies on; each mapping interprets it on the address ranges its header
  comment documents.
\<close>

section \<open>Mappings\<close>

definition ASAN_SHADOW_SCALE :: nat where "ASAN_SHADOW_SCALE = 4"
definition ASAN_SHADOW_GRANULARITY :: u64 where "ASAN_SHADOW_GRANULARITY = push_bit ASAN_SHADOW_SCALE 1"
definition ASAN_MAX_WG_LOCAL :: u32 where "ASAN_MAX_WG_LOCAL = 8192"
definition ASAN_MAX_SG_PRIVATE :: u32 where "ASAN_MAX_SG_PRIVATE = 256"
definition ASAN_PRIVATE_SIZE :: u64 where "ASAN_PRIVATE_SIZE = 0xffffff + 1"
definition kNullPointerRedzoneMagic :: u8 where "kNullPointerRedzoneMagic = 0x86"

definition MemToShadow_CPU :: "u64 \<Rightarrow> u64 \<Rightarrow> u64" where
  "MemToShadow_CPU ShadowBegin Ptr = ShadowBegin + drop_bit ASAN_SHADOW_SCALE Ptr"

definition MemToShadow_PVC :: "u64 \<Rightarrow> u64 \<Rightarrow> u64" where
  "MemToShadow_PVC ShadowBegin Ptr =
     (if Ptr AND 0xFF00000000000000 \<noteq> 0
      then ShadowBegin + 0x80000000000 + drop_bit ASAN_SHADOW_SCALE (Ptr AND 0xFFFFFFFFFFFF)
      else ShadowBegin + drop_bit ASAN_SHADOW_SCALE (Ptr AND 0x7FFFFFFFFFFF))"

definition MemToShadow_DG2 :: "u64 \<Rightarrow> u64 \<Rightarrow> u64" where
  "MemToShadow_DG2 ShadowBegin Ptr =
     (if Ptr AND 0xFFFF000000000000 \<noteq> 0
      then ShadowBegin + 0x80000000000 + drop_bit ASAN_SHADOW_SCALE (Ptr AND 0x7FFFFFFFFFFF)
      else ShadowBegin + drop_bit ASAN_SHADOW_SCALE Ptr)"

definition MemToShadow :: "device_kind \<Rightarrow> u64 \<Rightarrow> u64 \<Rightarrow> u64" where
  "MemToShadow kind ShadowBegin Ptr =
     (case kind of
        CPU \<Rightarrow> MemToShadow_CPU ShadowBegin Ptr
      | GPU_PVC \<Rightarrow> MemToShadow_PVC ShadowBegin Ptr
      | GPU_DG2 \<Rightarrow> MemToShadow_DG2 ShadowBegin Ptr)"

definition GetShadowSize :: "device_kind \<Rightarrow> u64" where
  "GetShadowSize kind =
     (case kind of CPU \<Rightarrow> 0x80000000000 | GPU_PVC \<Rightarrow> 0x180000000000 | GPU_DG2 \<Rightarrow> 0x100000000000)"

section \<open>State and services\<close>

record shadow_memory =
  ShadowBegin :: u64
  ShadowEnd :: u64
  ShadowLowerBound :: u64
  ShadowUpperBound :: u64
  VirtualMemMaps :: "u64 list"
  shadow_bytes :: "u64 \<Rightarrow> u8"
  LocalShadowOffset :: u64
  PrivateShadowOffset :: u64
  PrivateBasePtr :: u64
  usm_freed :: "u64 list"
  vm_freed :: "u64 list"

text \<open>
  The function-local \<open>static\<close> variables. There is one of each in the process, not one for each
  shadow: the operations that use them take and return them beside the shadow.
\<close>

record shadow_statics =
  LastAllocedSize :: u64
  LastPrivateBaseAllocedSize :: u64
  LastPrivateShadowAllocedSize :: u64
  DestoryResult :: "ur_result option"

definition new_shadow :: "shadow_memory" where
  "new_shadow = \<lparr>ShadowBegin = 0, ShadowEnd = 0, ShadowLowerBound = 0xffffffffffffffff, ShadowUpperBound = 0,
     VirtualMemMaps = [], shadow_bytes = (\<lambda>_. 0), LocalShadowOffset = 0, PrivateShadowOffset = 0,
     PrivateBasePtr = 0, usm_freed = [], vm_freed = []\<rparr>"

definition statics_init :: shadow_statics where
  "statics_init = \<lparr>LastAllocedSize = 0, LastPrivateBaseAllocedSize = 0, LastPrivateShadowAllocedSize = 0,
     DestoryResult = None\<rparr>"

record shadow_api = usm_services +
  MmapNoReserve :: "u64 \<Rightarrow> u64"
  pfnReserve :: "u64 \<Rightarrow> ur_result + u64"
  GetVirtualMemGranularity :: u64
  pfnPhysicalMemCreate :: "u64 \<Rightarrow> ur_result"
  pfnVirtualMemMap :: "u64 \<Rightarrow> ur_result"
  pfnUSMFill :: "u64 \<Rightarrow> u8 \<Rightarrow> u64 \<Rightarrow> ur_result"
  pfnVirtualMemFree :: "u64 \<Rightarrow> ur_result"
  pfnVirtualMemUnmap :: "u64 \<Rightarrow> ur_result"
  pfnPhysicalMemRelease :: "u64 \<Rightarrow> ur_result"
  GetDeviceLocalMemorySize :: u64

definition EnqueueUSMSet :: "shadow_api \<Rightarrow> u64 \<Rightarrow> u8 \<Rightarrow> u64 \<Rightarrow> ur_result" where
  "EnqueueUSMSet api Ptr Value Size = pfnUSMFill api Ptr Value Size"

definition EnqueueUSMSetZero :: "shadow_api \<Rightarrow> u64 \<Rightarrow> u64 \<Rightarrow> ur_result" where
  "EnqueueUSMSetZero api Ptr Size = pfnUSMFill api Ptr 0 Size"

definition set_bytes :: "u64 \<Rightarrow> nat \<Rightarrow> u8 \<Rightarrow> (u64 \<Rightarrow> u8) \<Rightarrow> u64 \<Rightarrow> u8" where
  "set_bytes lo n v sh = (\<lambda>s. if unat lo \<le> unat s \<and> unat s < unat lo + n then v else sh s)"

section \<open>Poisoning\<close>

definition EnqueuePoisonShadow_CPU :: "u64 \<Rightarrow> u64 \<Rightarrow> u8 \<Rightarrow> shadow_memory \<Rightarrow> ur_result \<times> shadow_memory" where
  "EnqueuePoisonShadow_CPU Ptr Size Value sm =
     (if Size = 0 then (UR_RESULT_SUCCESS, sm)
      else let b = MemToShadow_CPU (ShadowBegin sm) Ptr;
               e = MemToShadow_CPU (ShadowBegin sm) (Ptr + Size - 1)
           in (UR_RESULT_SUCCESS, sm\<lparr>shadow_bytes := set_bytes b (unat (e - b + 1)) Value (shadow_bytes sm)\<rparr>))"

text \<open>
  The loop that maps the pages of the shadow range; \<open>None\<close> is a loop that does not end, which
  happens when the next page lies beyond the end of the address space.
\<close>

partial_function (option) map_pages ::
  "shadow_api \<Rightarrow> u64 \<Rightarrow> u64 \<Rightarrow> shadow_memory \<Rightarrow> (ur_result \<times> shadow_memory) option" where
  "map_pages api MappedPtr e sm =
     (if MappedPtr \<le> e
      then let PageSize = GetVirtualMemGranularity api
           in if MappedPtr \<in> set (VirtualMemMaps sm) then map_pages api (MappedPtr + PageSize) e sm
              else if pfnPhysicalMemCreate api MappedPtr \<noteq> UR_RESULT_SUCCESS
              then Some (pfnPhysicalMemCreate api MappedPtr, sm)
              else if pfnVirtualMemMap api MappedPtr \<noteq> UR_RESULT_SUCCESS
              then Some (pfnVirtualMemMap api MappedPtr, sm)
              else if EnqueueUSMSetZero api MappedPtr PageSize \<noteq> UR_RESULT_SUCCESS
              then Some (EnqueueUSMSetZero api MappedPtr PageSize, sm)
              else map_pages api (MappedPtr + PageSize) e
                     (sm\<lparr>shadow_bytes := set_bytes MappedPtr (unat PageSize) 0 (shadow_bytes sm),
                         VirtualMemMaps := MappedPtr # VirtualMemMaps sm\<rparr>)
      else Some (UR_RESULT_SUCCESS, sm))"

text \<open>
  The page size of \<open>EnqueuePoisonShadow\<close> is a \<open>static\<close> too: the granularity of the first device that
  poisons. The model takes it from \<open>api\<close>, for a process whose devices have one granularity.
\<close>

definition EnqueuePoisonShadow_GPU ::
  "shadow_api \<Rightarrow> device_kind \<Rightarrow> u64 \<Rightarrow> u64 \<Rightarrow> u8 \<Rightarrow> shadow_memory \<Rightarrow> (ur_result \<times> shadow_memory) option" where
  "EnqueuePoisonShadow_GPU api kind Ptr Size Value sm =
     (if Size = 0 then Some (UR_RESULT_SUCCESS, sm)
      else let b = MemToShadow kind (ShadowBegin sm) Ptr;
               e = MemToShadow kind (ShadowBegin sm) (Ptr + Size - 1);
               PageSize = GetVirtualMemGranularity api
           in case map_pages api (RoundDownTo b PageSize) e sm of
                None \<Rightarrow> None
              | Some (r, sm1) \<Rightarrow>
                  if r \<noteq> UR_RESULT_SUCCESS then Some (r, sm1)
                  else let sm2 = sm1\<lparr>ShadowLowerBound := min (ShadowLowerBound sm1) (RoundDownTo b PageSize),
                                     ShadowUpperBound := max (ShadowUpperBound sm1) (RoundUpTo e PageSize)\<rparr>;
                           r2 = EnqueueUSMSet api b Value (e - b + 1)
                       in if r2 \<noteq> UR_RESULT_SUCCESS then Some (r2, sm2)
                          else Some (UR_RESULT_SUCCESS,
                                     sm2\<lparr>shadow_bytes := set_bytes b (unat (e - b + 1)) Value (shadow_bytes sm2)\<rparr>))"

definition EnqueuePoisonShadow ::
  "shadow_api \<Rightarrow> device_kind \<Rightarrow> u64 \<Rightarrow> u64 \<Rightarrow> u8 \<Rightarrow> shadow_memory \<Rightarrow> (ur_result \<times> shadow_memory) option" where
  "EnqueuePoisonShadow api kind Ptr Size Value sm =
     (case kind of
        CPU \<Rightarrow> Some (EnqueuePoisonShadow_CPU Ptr Size Value sm)
      | _ \<Rightarrow> EnqueuePoisonShadow_GPU api kind Ptr Size Value sm)"

section \<open>Set-up and destruction\<close>

definition Setup :: "shadow_api \<Rightarrow> device_kind \<Rightarrow> shadow_memory \<Rightarrow> (ur_result \<times> shadow_memory) option" where
  "Setup api kind sm =
     (case kind of
        CPU \<Rightarrow>
          (let begin = MmapNoReserve api (GetShadowSize CPU)
           in if begin = 0 then Some (UR_RESULT_ERROR_OUT_OF_HOST_MEMORY, sm\<lparr>ShadowBegin := 0\<rparr>)
              else EnqueuePoisonShadow api CPU 0 4096 kNullPointerRedzoneMagic
                     (sm\<lparr>ShadowBegin := begin, ShadowEnd := begin + GetShadowSize CPU\<rparr>))
      | _ \<Rightarrow>
          (case pfnReserve api (GetShadowSize kind) of
             Inl r \<Rightarrow> Some (r, sm)
           | Inr begin \<Rightarrow>
               EnqueuePoisonShadow api kind 0 (push_bit ASAN_SHADOW_SCALE (GetVirtualMemGranularity api))
                 kNullPointerRedzoneMagic
                 (sm\<lparr>ShadowBegin := begin, ShadowEnd := begin + GetShadowSize kind\<rparr>)))"

text \<open>\<open>UR_CALL\<close> leaves the function with the code of a call that failed.\<close>

fun unmap_all :: "shadow_api \<Rightarrow> u64 list \<Rightarrow> ur_result" where
  "unmap_all api [] = UR_RESULT_SUCCESS"
| "unmap_all api (p # ps) =
     (if pfnVirtualMemUnmap api p \<noteq> UR_RESULT_SUCCESS then pfnVirtualMemUnmap api p
      else if pfnPhysicalMemRelease api p \<noteq> UR_RESULT_SUCCESS then pfnPhysicalMemRelease api p
      else unmap_all api ps)"

definition free_usm :: "shadow_api \<Rightarrow> u64 \<Rightarrow> (shadow_memory \<Rightarrow> shadow_memory) \<Rightarrow> shadow_memory
     \<Rightarrow> ur_result \<times> shadow_memory" where
  "free_usm api p clear sm =
     (if p = 0 then (UR_RESULT_SUCCESS, sm)
      else let sm1 = sm\<lparr>usm_freed := usm_freed sm @ [p]\<rparr>
           in if pfnUSMFree api p \<noteq> UR_RESULT_SUCCESS then (pfnUSMFree api p, sm1)
              else (UR_RESULT_SUCCESS, clear sm1))"

text \<open>
  The result of unmapping is a \<open>static\<close> of the function: it is computed by the first call that
  finds a mapped shadow and returned by all later ones.
\<close>

definition Destory_CPU :: "(u64 \<Rightarrow> u64 \<Rightarrow> bool) \<Rightarrow> shadow_statics \<times> shadow_memory \<Rightarrow> ur_result \<times> shadow_statics" where
  "Destory_CPU Munmap = (\<lambda>(st, sm).
     (if ShadowBegin sm = 0 then (UR_RESULT_SUCCESS, st)
      else case DestoryResult st of
             Some r \<Rightarrow> (r, st)
           | None \<Rightarrow>
               let r = (if Munmap (ShadowBegin sm) (GetShadowSize CPU) then UR_RESULT_SUCCESS
                        else UR_RESULT_ERROR_UNKNOWN)
               in (r, st\<lparr>DestoryResult := Some r\<rparr>)))"

definition Destory_GPU :: "shadow_api \<Rightarrow> shadow_memory \<Rightarrow> ur_result \<times> shadow_memory" where
  "Destory_GPU api sm =
     (let (r1, sm1) = free_usm api (PrivateShadowOffset sm) (PrivateShadowOffset_update (\<lambda>_. 0)) sm
      in if r1 \<noteq> UR_RESULT_SUCCESS then (r1, sm1) else
      let (r2, sm2) = free_usm api (PrivateBasePtr sm1) (PrivateBasePtr_update (\<lambda>_. 0)) sm1
      in if r2 \<noteq> UR_RESULT_SUCCESS then (r2, sm2) else
      let (r3, sm3) = free_usm api (LocalShadowOffset sm2) (LocalShadowOffset_update (\<lambda>_. 0)) sm2
      in if r3 \<noteq> UR_RESULT_SUCCESS then (r3, sm3) else
      let r4 = unmap_all api (VirtualMemMaps sm3)
      in if r4 \<noteq> UR_RESULT_SUCCESS then (r4, sm3) else
      let r5 = pfnVirtualMemFree api (ShadowBegin sm3);
          sm5 = sm3\<lparr>vm_freed := vm_freed sm3 @ [ShadowBegin sm3]\<rparr>
      in if r5 \<noteq> UR_RESULT_SUCCESS then (r5, sm5)
         else if ShadowBegin sm5 = 0 then (UR_RESULT_SUCCESS, sm5)
         else let r6 = pfnVirtualMemFree api (ShadowBegin sm5);
                  sm6 = sm5\<lparr>vm_freed := vm_freed sm5 @ [ShadowBegin sm5]\<rparr>
              in if r6 \<noteq> UR_RESULT_SUCCESS then (r6, sm6)
                 else (UR_RESULT_SUCCESS, sm6\<lparr>ShadowBegin := 0, ShadowEnd := 0\<rparr>))"

section \<open>Local and private shadows\<close>

text \<open>
  The result is the code, \<open>Begin\<close> and \<open>End\<close>, and the new state; on an error path the code leaves
  \<open>Begin\<close> and \<open>End\<close> as they were, written \<open>None\<close> here.
\<close>

definition AllocLocalShadow_CPU :: "shadow_memory \<Rightarrow> ur_result \<times> (u64 \<times> u64) option" where
  "AllocLocalShadow_CPU sm = (UR_RESULT_SUCCESS, Some (ShadowBegin sm, ShadowEnd sm))"

definition local_shadow_size :: "shadow_api \<Rightarrow> u32 \<Rightarrow> u64" where
  "local_shadow_size api NumWG =
     drop_bit ASAN_SHADOW_SCALE (ucast (min ASAN_MAX_WG_LOCAL NumWG) * GetDeviceLocalMemorySize api)"

definition AllocLocalShadow_GPU ::
  "shadow_api \<Rightarrow> u32 \<Rightarrow> shadow_statics \<times> shadow_memory
     \<Rightarrow> ur_result \<times> (u64 \<times> u64) option \<times> shadow_statics \<times> shadow_memory" where
  "AllocLocalShadow_GPU api NumWG = (\<lambda>(st, sm).
     (let Required = local_shadow_size api NumWG;
          finish = (\<lambda>st s. (UR_RESULT_SUCCESS,
                      Some (LocalShadowOffset s, LocalShadowOffset s + Required - 1), st, s))
      in if Required > LastAllocedSize st
         then let (r1, sm1) = free_usm api (LocalShadowOffset sm) (LocalShadowOffset_update (\<lambda>_. 0)) sm;
                  st1 = (if LocalShadowOffset sm \<noteq> 0 then st\<lparr>LastAllocedSize := 0\<rparr> else st)
              in if r1 \<noteq> UR_RESULT_SUCCESS then (r1, None, st, sm1)
                 else case SafeAllocate api True DEVICE_USM Required of
                        Inl r \<Rightarrow> (r, None, st1, sm1)
                      | Inr p \<Rightarrow>
                          let sm2 = sm1\<lparr>LocalShadowOffset := p\<rparr>
                          in if EnqueueUSMSetZero api p Required \<noteq> UR_RESULT_SUCCESS
                             then let sm3 = sm2\<lparr>usm_freed := usm_freed sm2 @ [p]\<rparr>
                                  in if pfnUSMFree api p \<noteq> UR_RESULT_SUCCESS
                                     then (pfnUSMFree api p, None, st1, sm3)
                                     else finish (st1\<lparr>LastAllocedSize := Required\<rparr>)
                                                 (sm3\<lparr>LocalShadowOffset := 0\<rparr>)
                             else finish (st1\<lparr>LastAllocedSize := Required\<rparr>)
                                    (sm2\<lparr>shadow_bytes := set_bytes p (unat Required) 0 (shadow_bytes sm2)\<rparr>)
         else finish st sm))"

text \<open>The handler of \<open>AllocPrivateShadow\<close>: both allocations are released, results ignored.\<close>

definition private_rollback :: "shadow_statics \<times> shadow_memory \<Rightarrow> shadow_statics \<times> shadow_memory" where
  "private_rollback = (\<lambda>(st, sm).
     (let (st1, sm1) =
            (if PrivateBasePtr sm \<noteq> 0
             then (st\<lparr>LastPrivateBaseAllocedSize := 0\<rparr>,
                   sm\<lparr>usm_freed := usm_freed sm @ [PrivateBasePtr sm], PrivateBasePtr := 0\<rparr>)
             else (st, sm))
      in if PrivateShadowOffset sm1 \<noteq> 0
         then (st1\<lparr>LastPrivateShadowAllocedSize := 0\<rparr>,
               sm1\<lparr>usm_freed := usm_freed sm1 @ [PrivateShadowOffset sm1], PrivateShadowOffset := 0\<rparr>)
         else (st1, sm1)))"

definition alloc_private_base ::
  "shadow_api \<Rightarrow> u64 \<Rightarrow> shadow_statics \<times> shadow_memory \<Rightarrow> ur_result \<times> shadow_statics \<times> shadow_memory" where
  "alloc_private_base api n = (\<lambda>(st, sm).
     (if n > LastPrivateBaseAllocedSize st
      then let (r1, sm1) = free_usm api (PrivateBasePtr sm) (PrivateBasePtr_update (\<lambda>_. 0)) sm;
               st1 = (if PrivateBasePtr sm \<noteq> 0 then st\<lparr>LastPrivateBaseAllocedSize := 0\<rparr> else st)
           in if r1 \<noteq> UR_RESULT_SUCCESS then (r1, st, sm1)
              else case SafeAllocate api True DEVICE_USM n of
                     Inl r \<Rightarrow> (r, st1, sm1)
                   | Inr p \<Rightarrow> (UR_RESULT_SUCCESS, st1\<lparr>LastPrivateBaseAllocedSize := n\<rparr>, sm1\<lparr>PrivateBasePtr := p\<rparr>)
      else (UR_RESULT_SUCCESS, st, sm)))"

definition alloc_private_shadow ::
  "shadow_api \<Rightarrow> u64 \<Rightarrow> shadow_statics \<times> shadow_memory \<Rightarrow> ur_result \<times> shadow_statics \<times> shadow_memory" where
  "alloc_private_shadow api n = (\<lambda>(st, sm).
     (if n > LastPrivateShadowAllocedSize st
      then let (r1, sm1) = free_usm api (PrivateShadowOffset sm) (PrivateShadowOffset_update (\<lambda>_. 0)) sm;
               st1 = (if PrivateShadowOffset sm \<noteq> 0 then st\<lparr>LastPrivateShadowAllocedSize := 0\<rparr> else st)
           in if r1 \<noteq> UR_RESULT_SUCCESS then (r1, st, sm1)
              else case SafeAllocate api True DEVICE_USM n of
                     Inl r \<Rightarrow> (r, st1, sm1)
                   | Inr p \<Rightarrow>
                       let st2 = st1\<lparr>LastPrivateShadowAllocedSize := n\<rparr>; sm2 = sm1\<lparr>PrivateShadowOffset := p\<rparr>
                       in if EnqueueUSMSetZero api p n \<noteq> UR_RESULT_SUCCESS
                          then (EnqueueUSMSetZero api p n, st2, sm2)
                          else (UR_RESULT_SUCCESS, st2,
                                sm2\<lparr>shadow_bytes := set_bytes p (unat n) 0 (shadow_bytes sm2)\<rparr>)
      else (UR_RESULT_SUCCESS, st, sm)))"

definition private_shadow_size :: "u32 \<Rightarrow> u64" where
  "private_shadow_size NumSG = drop_bit ASAN_SHADOW_SCALE (ucast NumSG * ASAN_PRIVATE_SIZE)"

definition AllocPrivateShadow_GPU ::
  "shadow_api \<Rightarrow> u32 \<Rightarrow> shadow_statics \<times> shadow_memory
     \<Rightarrow> ur_result \<times> (u64 \<times> u64 \<times> u64) option \<times> shadow_statics \<times> shadow_memory" where
  "AllocPrivateShadow_GPU api NumSG0 w =
     (let NumSG = min NumSG0 ASAN_MAX_SG_PRIVATE;
          (r1, w1) = alloc_private_base api (ucast NumSG * 8) w
      in if r1 \<noteq> UR_RESULT_SUCCESS then (r1, None, private_rollback w1)
         else let (r2, w2) = alloc_private_shadow api (private_shadow_size NumSG) w1
              in if r2 \<noteq> UR_RESULT_SUCCESS then (r2, None, private_rollback w2)
                 else (UR_RESULT_SUCCESS,
                       Some (PrivateBasePtr (snd w2), PrivateShadowOffset (snd w2),
                             PrivateShadowOffset (snd w2) + private_shadow_size NumSG - 1), w2))"

section \<open>The contract of a mapping\<close>

text \<open>
  Inside a region that starts at an address divisible by 16, consecutive granules of 16 bytes have
  consecutive shadow bytes.
\<close>

locale shadow_mapping =
  fixes M :: "u64 \<Rightarrow> u64" and R :: "u64 \<Rightarrow> bool" and org base :: nat
  assumes shadow_at: "R a \<Longrightarrow> unat (M a) = base + (unat a - org) div 16"
    and region_above: "R a \<Longrightarrow> org \<le> unat a"
    and origin_aligned: "org mod 16 = 0"
begin

lemma granule_number: "R a \<Longrightarrow> unat (M a) = base + (unat a div 16 - org div 16)"
proof -
  assume a: "R a"
  obtain k where k: "org = 16 * k" using origin_aligned by (metis mod_0_imp_dvd dvdE)
  with region_above [OF a] have "(unat a - org) div 16 = unat a div 16 - org div 16"
    by (simp add: div_diff)
  with shadow_at [OF a] show ?thesis by simp
qed

lemma same_shadow_iff: "R a \<Longrightarrow> R b \<Longrightarrow> M a = M b \<longleftrightarrow> unat a div 16 = unat b div 16"
  using granule_number [of a] granule_number [of b]
    div_le_mono [OF region_above [of a], of 16] div_le_mono [OF region_above [of b], of 16]
  unfolding word_unat_eq_iff by linarith

lemma shadow_le_iff: "R a \<Longrightarrow> R b \<Longrightarrow> unat (M a) \<le> unat (M b) \<longleftrightarrow> unat a div 16 \<le> unat b div 16"
  using granule_number [of a] granule_number [of b]
    div_le_mono [OF region_above [of a], of 16] div_le_mono [OF region_above [of b], of 16]
  by linarith

lemma range_length:
  assumes "R p" and "R q" and "unat p \<le> unat q"
  shows "unat (M q - M p + 1) = unat (M q) - unat (M p) + 1"
proof -
  have le: "unat (M p) \<le> unat (M q)"
    using assms by (simp add: shadow_le_iff div_le_mono)
  have "unat (M q) - unat (M p) \<le> unat q div 16"
    using granule_number [OF assms(1)] granule_number [OF assms(2)] by linarith
  then have "unat (M q) - unat (M p) + 1 < 2 ^ 64"
    using unat_u64_less [of q] by simp
  with le show ?thesis
    by (simp add: unat_sub_u64 unat_add_u64)
qed

lemma set_bytes_shadow:
  assumes "R p" and "R q" and "unat p \<le> unat q" and "R a"
  shows "set_bytes (M p) (unat (M q - M p + 1)) v sh (M a) =
           (if unat p div 16 \<le> unat a div 16 \<and> unat a div 16 \<le> unat q div 16 then v else sh (M a))"
proof -
  have "unat (M p) \<le> unat (M q)"
    using assms by (simp add: shadow_le_iff div_le_mono)
  moreover have "unat (M a) < unat (M p) + (unat (M q) - unat (M p) + 1) \<longleftrightarrow> unat (M a) \<le> unat (M q)"
    using \<open>unat (M p) \<le> unat (M q)\<close> by linarith
  ultimately show ?thesis
    using assms by (simp add: set_bytes_def range_length shadow_le_iff)
qed

end

section \<open>The mappings\<close>

text \<open>
  The address ranges of the header comments: 47-bit host and shared memory, and the ranges of
  device memory on the two kinds of GPU. \<open>shadow_fits\<close> says that the reserved shadow does not reach
  beyond the end of the address space.
\<close>

definition low_region :: "u64 \<Rightarrow> bool" where
  "low_region a \<longleftrightarrow> unat a < 2 ^ 47"

definition device_origin :: "device_kind \<Rightarrow> nat" where
  "device_origin kind = (case kind of CPU \<Rightarrow> 0 | GPU_PVC \<Rightarrow> 0xFF00000000000000 | GPU_DG2 \<Rightarrow> 0xFFFF800000000000)"

definition device_region :: "device_kind \<Rightarrow> u64 \<Rightarrow> bool" where
  "device_region kind a \<longleftrightarrow>
     (case kind of
        CPU \<Rightarrow> False
      | GPU_PVC \<Rightarrow> device_origin GPU_PVC \<le> unat a \<and> unat a < device_origin GPU_PVC + 2 ^ 48
      | GPU_DG2 \<Rightarrow> device_origin GPU_DG2 \<le> unat a)"

definition shadow_fits :: "device_kind \<Rightarrow> u64 \<Rightarrow> bool" where
  "shadow_fits kind SB \<longleftrightarrow> unat SB + unat (GetShadowSize kind) \<le> 2 ^ 64"

lemma unat_drop_bit_scale: "unat (drop_bit ASAN_SHADOW_SCALE (a :: u64)) = unat a div 16"
  unfolding unat_drop_bit_eq ASAN_SHADOW_SCALE_def by (simp add: drop_bit_eq_div)

lemma masks:
  "(0x7FFFFFFFFFFF :: u64) = mask 47" "(0xFFFFFFFFFFFF :: u64) = mask 48"
  "(0xFF00000000000000 :: u64) = NOT (mask 56)" "(0xFFFF000000000000 :: u64) = NOT (mask 48)"
  by (simp_all add: mask_eq_exp_minus_1)


lemma low_masks:
  assumes "low_region a"
  shows "a AND 0xFF00000000000000 = 0" "a AND 0xFFFF000000000000 = 0" "unat (a AND 0x7FFFFFFFFFFF) = unat a"
  using assms unfolding masks and_high_zero unat_and_mask low_region_def by auto

lemma low_shadow:
  assumes "shadow_fits kind SB" and "low_region a"
  shows "unat (MemToShadow kind SB a) = unat SB + unat a div 16"
proof -
  have "2 ^ 43 \<le> unat (GetShadowSize kind)" by (cases kind) (simp_all add: GetShadowSize_def)
  moreover have "unat a div 16 < 2 ^ 43" using assms(2) by (simp add: low_region_def)
  ultimately have "unat SB + unat a div 16 < 2 ^ 64" using assms(1) unfolding shadow_fits_def by linarith
  then show ?thesis using low_masks [OF assms(2)]
    by (cases kind) (simp_all add: MemToShadow_def MemToShadow_CPU_def MemToShadow_PVC_def
        MemToShadow_DG2_def unat_drop_bit_scale unat_add_u64 del: drop_bit_and)
qed

lemma device_masks:
  "device_region GPU_PVC a \<Longrightarrow> a AND 0xFF00000000000000 \<noteq> 0"
  "device_region GPU_PVC a \<Longrightarrow> unat (a AND 0xFFFFFFFFFFFF) = unat a - device_origin GPU_PVC"
  "device_region GPU_DG2 a \<Longrightarrow> a AND 0xFFFF000000000000 \<noteq> 0"
  "device_region GPU_DG2 a \<Longrightarrow> unat (a AND 0x7FFFFFFFFFFF) = unat a - device_origin GPU_DG2"
  unfolding masks and_high_zero unat_and_mask 
  using unat_u64_less [of a] by (auto simp: device_region_def device_origin_def intro!: mod_nat_eqI)

lemma device_shadow:
  assumes "shadow_fits kind SB" and "device_region kind a"
  shows "unat (MemToShadow kind SB a) = unat SB + 2 ^ 43 + (unat a - device_origin kind) div 16"
proof -
  have "unat SB + 2 ^ 43 + (unat a - device_origin kind) div 16 < 2 ^ 64"
    using assms unat_u64_less [of a]
    by (cases kind) (auto simp: shadow_fits_def GetShadowSize_def device_region_def device_origin_def)
  then have "unat (SB + 0x80000000000 + b) = unat SB + 2 ^ 43 + (unat a - device_origin kind) div 16"
    if "unat b = (unat a - device_origin kind) div 16" for b
    using that by (subst unat_add_u64; simp add: unat_add_u64)
  then show ?thesis using assms(2) device_masks [of a]
    by (cases kind) (simp_all add: MemToShadow_def MemToShadow_PVC_def
        MemToShadow_DG2_def unat_drop_bit_scale device_region_def [of CPU] del: drop_bit_and)
qed

interpretation low: shadow_mapping "MemToShadow kind SB" "\<lambda>a. shadow_fits kind SB \<and> low_region a" 0 "unat SB"
  for kind SB
  by unfold_locales (simp_all add: low_shadow)

interpretation dev: shadow_mapping "MemToShadow kind SB" "\<lambda>a. shadow_fits kind SB \<and> device_region kind a"
    "device_origin kind" "unat SB + 2 ^ 43"
  for kind SB
  by unfold_locales (auto simp: device_shadow device_region_def device_origin_def split: device_kind.splits)


section \<open>Poisoning\<close>

text \<open>The state of one page loop: pages only become mapped, and mapped pages keep their bytes.\<close>

definition maps_more :: "u64 \<Rightarrow> shadow_memory \<Rightarrow> shadow_memory \<Rightarrow> bool" where
  "maps_more PageSize sm sm' \<longleftrightarrow>
     set (VirtualMemMaps sm) \<subseteq> set (VirtualMemMaps sm') \<and> ShadowBegin sm' = ShadowBegin sm \<and>
     (\<forall>s. RoundDownTo s PageSize \<in> set (VirtualMemMaps sm) \<longrightarrow> shadow_bytes sm' s = shadow_bytes sm s)"

lemma maps_more_refl: "maps_more PageSize sm sm"
  by (simp add: maps_more_def)

lemma maps_more_trans: "maps_more PageSize s1 s2 \<Longrightarrow> maps_more PageSize s2 s3 \<Longrightarrow> maps_more PageSize s1 s3"
  unfolding maps_more_def by auto

lemma maps_more_page:
  assumes "unat p mod 2 ^ k = 0" and "p \<notin> set (VirtualMemMaps sm)" and "k < 64"
  shows "maps_more (2 ^ k) sm
           (sm\<lparr>shadow_bytes := set_bytes p (unat (2 ^ k :: u64)) 0 (shadow_bytes sm),
               VirtualMemMaps := p # VirtualMemMaps sm\<rparr>)"
proof -
  have "RoundDownTo s (2 ^ k) = p" if "unat p \<le> unat s" "unat s < unat p + 2 ^ k" for s
  proof -
    obtain q where q: "unat p = 2 ^ k * q" using assms(1) by (metis mod_0_imp_dvd dvdE)
    then have "unat s div 2 ^ k = q" using that by (intro div_nat_eqI) (auto simp: mult.commute)
    then show ?thesis using q by (simp add: word_unat_eq_iff unat_RoundDownTo mult.commute)
  qed
  then show ?thesis
    using assms(2) unat_pow2 [OF assms(3)] by (auto simp: maps_more_def set_bytes_def)
qed

text \<open>The services poisoning uses, when none of them fails.\<close>

definition poison_services_ok :: "shadow_api \<Rightarrow> bool" where
  "poison_services_ok api \<longleftrightarrow>
     pfnPhysicalMemCreate api = (\<lambda>_. UR_RESULT_SUCCESS) \<and> pfnVirtualMemMap api = (\<lambda>_. UR_RESULT_SUCCESS) \<and>
     pfnUSMFill api = (\<lambda>_ _ _. UR_RESULT_SUCCESS)"

lemma map_pages_returns:
  assumes "GetVirtualMemGranularity api = 2 ^ k" and "k < 64"
    and "unat p mod 2 ^ k = 0" and "unat e + 2 ^ k < 2 ^ 64"
  shows "\<exists>r sm'. map_pages api p e sm = Some (r, sm') \<and> maps_more (2 ^ k) sm sm' \<and>
           (poison_services_ok api \<longrightarrow> r = UR_RESULT_SUCCESS) \<and>
           (r = UR_RESULT_SUCCESS \<longrightarrow>
             (\<forall>q. unat q mod 2 ^ k = 0 \<and> unat p \<le> unat q \<and> unat q \<le> unat e \<longrightarrow> q \<in> set (VirtualMemMaps sm')))"
  using assms(3)
proof (induction "unat e + 1 - unat p" arbitrary: p sm rule: less_induct)
  case less
  note step = map_pages.simps [of api p e sm, unfolded assms(1) Let_def]
  show ?case
  proof (cases "p \<le> e")
    case False
    then show ?thesis by (auto simp: step maps_more_refl word_le_nat_alt)
  next
    case True
    then have le: "unat p \<le> unat e" by (simp add: word_le_nat_alt)
    have next_p: "unat (p + 2 ^ k) = unat p + 2 ^ k"
      using le assms(4) by (subst unat_add_u64) (simp_all add: unat_pow2 [OF assms(2)])
    have pages: "q = p \<or> unat (p + 2 ^ k) \<le> unat q"
      if "unat q mod 2 ^ k = 0" "unat p \<le> unat q" for q
      using next_multiple [OF less.prems that] unfolding next_p word_unat_eq_iff by auto
    have rest: "\<exists>r sm''. map_pages api (p + 2 ^ k) e sm' = Some (r, sm'') \<and> maps_more (2 ^ k) sm' sm'' \<and>
        (poison_services_ok api \<longrightarrow> r = UR_RESULT_SUCCESS) \<and>
        (r = UR_RESULT_SUCCESS \<longrightarrow> (\<forall>q. unat q mod 2 ^ k = 0 \<and> unat (p + 2 ^ k) \<le> unat q \<and> unat q \<le> unat e
           \<longrightarrow> q \<in> set (VirtualMemMaps sm'')))" for sm'
      using le less.prems by (intro less.hyps) (simp_all add: next_p diff_less_mono2)
    have advance: ?thesis
      if "map_pages api p e sm = map_pages api (p + 2 ^ k) e sm'" "maps_more (2 ^ k) sm sm'"
        "p \<in> set (VirtualMemMaps sm')" for sm'
    proof -
      obtain r sm'' where r: "map_pages api (p + 2 ^ k) e sm' = Some (r, sm'')" "maps_more (2 ^ k) sm' sm''"
          "poison_services_ok api \<longrightarrow> r = UR_RESULT_SUCCESS"
        and q: "r = UR_RESULT_SUCCESS \<longrightarrow> (\<forall>q. unat q mod 2 ^ k = 0 \<and> unat (p + 2 ^ k) \<le> unat q \<and> unat q \<le> unat e
           \<longrightarrow> q \<in> set (VirtualMemMaps sm''))"
        using rest [of sm'] by (elim exE conjE) (rule that)
      have "p \<in> set (VirtualMemMaps sm'')" using r(2) that(3) by (auto simp: maps_more_def)
      with q pages have "r = UR_RESULT_SUCCESS \<longrightarrow> (\<forall>q. unat q mod 2 ^ k = 0 \<and> unat p \<le> unat q \<and> unat q \<le> unat e
           \<longrightarrow> q \<in> set (VirtualMemMaps sm''))"
        by metis
      with r maps_more_trans [OF that(2) r(2)] that(1) show ?thesis
        by (intro exI [of _ r] exI [of _ sm'']) simp
    qed
    show ?thesis
    proof (cases "p \<in> set (VirtualMemMaps sm)")
      case True
      then show ?thesis using \<open>p \<le> e\<close> by (intro advance [of sm]) (simp_all add: step maps_more_refl)
    next
      case False
      then show ?thesis using \<open>p \<le> e\<close> advance [OF _ maps_more_page [OF less.prems False assms(2)]]
        by (auto simp: step maps_more_refl poison_services_ok_def EnqueueUSMSetZero_def)
    qed
  qed
qed


definition same_region :: "device_kind \<Rightarrow> u64 \<Rightarrow> u64 \<Rightarrow> bool" where
  "same_region kind a b \<longleftrightarrow> low_region a \<and> low_region b \<or> device_region kind a \<and> device_region kind b"

lemma regions_disjoint: "low_region a \<Longrightarrow> \<not> device_region kind a"
  by (cases kind) (simp_all add: low_region_def device_region_def device_origin_def)

lemma set_bytes_region:
  assumes "shadow_fits kind SB" and "same_region kind p q" and "unat p \<le> unat q" and "same_region kind p a"
  defines "M \<equiv> MemToShadow kind SB"
  shows "set_bytes (M p) (unat (M q - M p + 1)) v sh (M a) =
           (if unat p div 16 \<le> unat a div 16 \<and> unat a div 16 \<le> unat q div 16 then v else sh (M a))"
  unfolding M_def using assms(1-4) regions_disjoint [of p kind]
    low.set_bytes_shadow [of kind SB p q a] dev.set_bytes_shadow [of kind SB p q a]
  by (auto simp: same_region_def)

lemma shadow_within:
  assumes "shadow_fits kind SB" and "low_region a \<or> device_region kind a"
  shows "unat (MemToShadow kind SB a) < unat SB + unat (GetShadowSize kind)"
proof (cases "low_region a")
  case True
  then show ?thesis using low_shadow [OF assms(1) True]
    by (cases kind) (simp_all add: low_region_def GetShadowSize_def)
next
  case False
  with assms have d: "device_region kind a" by simp
  then show ?thesis using device_shadow [OF assms(1) d] unat_u64_less [of a]
    by (cases kind) (auto simp: device_region_def device_origin_def GetShadowSize_def)
qed

lemma region_shadow_le_iff:
  assumes "shadow_fits kind SB" and "same_region kind a b"
  shows "unat (MemToShadow kind SB a) \<le> unat (MemToShadow kind SB b) \<longleftrightarrow> unat a div 16 \<le> unat b div 16"
  using assms low.shadow_le_iff [of kind SB a b] dev.shadow_le_iff [of kind SB a b]
  by (auto simp: same_region_def)

lemma same_region_trans: "same_region kind a b \<Longrightarrow> same_region kind a c \<Longrightarrow> same_region kind c b"
  using regions_disjoint by (auto simp: same_region_def)

text \<open>
  The view the clients have: the shadow byte of an address, whether its page is mapped, and the
  granules a range of addresses touches.
\<close>

definition shadow_at :: "device_kind \<Rightarrow> shadow_memory \<Rightarrow> u64 \<Rightarrow> u8" where
  "shadow_at kind sm a = shadow_bytes sm (MemToShadow kind (ShadowBegin sm) a)"

definition backed :: "device_kind \<Rightarrow> nat \<Rightarrow> shadow_memory \<Rightarrow> u64 \<Rightarrow> bool" where
  "backed kind k sm a \<longleftrightarrow>
     kind = CPU \<or> RoundDownTo (MemToShadow kind (ShadowBegin sm) a) (2 ^ k) \<in> set (VirtualMemMaps sm)"

definition shadow_ready :: "device_kind \<Rightarrow> nat \<Rightarrow> shadow_memory \<Rightarrow> bool" where
  "shadow_ready kind k sm \<longleftrightarrow> unat (ShadowBegin sm) + unat (GetShadowSize kind) + 2 ^ k \<le> 2 ^ 64"

definition touches :: "u64 \<Rightarrow> u64 \<Rightarrow> u64 \<Rightarrow> bool" where
  "touches Ptr Size a \<longleftrightarrow>
     Size \<noteq> 0 \<and> unat Ptr div 16 \<le> unat a div 16 \<and> unat a div 16 \<le> (unat Ptr + unat Size - 1) div 16"

definition poisoned :: "device_kind \<Rightarrow> nat \<Rightarrow> u64 \<Rightarrow> u64 \<Rightarrow> u8 \<Rightarrow> shadow_memory \<Rightarrow> shadow_memory \<Rightarrow> bool" where
  "poisoned kind k Ptr Size v sm sm' \<longleftrightarrow>
     shadow_ready kind k sm' \<and>
     (\<forall>a. same_region kind Ptr a \<longrightarrow>
        (if touches Ptr Size a then shadow_at kind sm' a = v \<and> backed kind k sm' a
         else backed kind k sm a \<longrightarrow> backed kind k sm' a \<and> shadow_at kind sm' a = shadow_at kind sm a))"

lemma EnqueuePoisonShadow_effect:
  assumes page: "GetVirtualMemGranularity api = 2 ^ k" "k < 64" and ready: "shadow_ready kind k sm"
    and range: "Size \<noteq> 0 \<Longrightarrow> unat Ptr + unat Size \<le> 2 ^ 64 \<and> same_region kind Ptr (Ptr + Size - 1)"
  shows "\<exists>r sm'. EnqueuePoisonShadow api kind Ptr Size v sm = Some (r, sm') \<and>
           (poison_services_ok api \<longrightarrow> r = UR_RESULT_SUCCESS) \<and>
           (r = UR_RESULT_SUCCESS \<longrightarrow> poisoned kind k Ptr Size v sm sm')"
proof (cases "Size = 0")
  case True
  with ready show ?thesis
    by (cases kind) (simp_all add: EnqueuePoisonShadow_def EnqueuePoisonShadow_CPU_def
        EnqueuePoisonShadow_GPU_def poisoned_def touches_def)
next
  case False
  define Last where "Last = Ptr + Size - 1"
  define M where "M = MemToShadow kind (ShadowBegin sm)"
  have Last: "unat Last = unat Ptr + unat Size - 1" "same_region kind Ptr Last"
    using False range unat_last_byte [OF False] by (simp_all add: Last_def)
  have "0 < unat Size" using False by (simp add: unat_gt_0)
  with Last(1) have le: "unat Ptr \<le> unat Last" by linarith
  have fits: "shadow_fits kind (ShadowBegin sm)" using ready by (simp add: shadow_fits_def shadow_ready_def)
  have tch: "touches Ptr Size a \<longleftrightarrow> unat Ptr div 16 \<le> unat a div 16 \<and> unat a div 16 \<le> unat Last div 16" for a
    using False by (simp add: touches_def Last(1))
  note set_exact = set_bytes_region [OF fits Last(2) le, folded M_def]
  show ?thesis
  proof (cases "kind = CPU")
    case True
    then show ?thesis using False set_exact ready
      by (simp add: EnqueuePoisonShadow_def EnqueuePoisonShadow_CPU_def Let_def M_def Last_def [symmetric]
          MemToShadow_def poisoned_def shadow_at_def backed_def tch shadow_ready_def)
  next
    case notCPU: False
    have lastM: "unat (M Last) + 2 ^ k < 2 ^ 64"
      using shadow_within [OF fits, of Last] Last(2) ready by (auto simp: M_def same_region_def shadow_ready_def)
    have aligned: "unat (RoundDownTo (M Ptr) (2 ^ k)) mod 2 ^ k = 0" by (simp add: unat_RoundDownTo)
    obtain r sm1 where r: "map_pages api (RoundDownTo (M Ptr) (2 ^ k)) (M Last) sm = Some (r, sm1)"
        "maps_more (2 ^ k) sm sm1" "poison_services_ok api \<longrightarrow> r = UR_RESULT_SUCCESS"
      and mapped: "\<And>q. r = UR_RESULT_SUCCESS \<Longrightarrow> unat q mod 2 ^ k = 0 \<Longrightarrow>
          unat (RoundDownTo (M Ptr) (2 ^ k)) \<le> unat q \<Longrightarrow> unat q \<le> unat (M Last) \<Longrightarrow> q \<in> set (VirtualMemMaps sm1)"
      using map_pages_returns [OF page aligned lastM, of sm] by auto
    have in_range: "RoundDownTo (M a) (2 ^ k) \<in> set (VirtualMemMaps sm1)"
      if "r = UR_RESULT_SUCCESS" "same_region kind Ptr a" "touches Ptr Size a" for a
      using that Last(2) same_region_trans [OF Last(2) that(2)] RoundDown_range [of "M Ptr" "M a" k]
        region_shadow_le_iff [OF fits, of Ptr a] region_shadow_le_iff [OF fits, of a Last]
      by (intro mapped) (auto simp: M_def tch)
    have eq: "EnqueuePoisonShadow api kind Ptr Size v sm = EnqueuePoisonShadow_GPU api kind Ptr Size v sm"
      using notCPU by (cases kind) (simp_all add: EnqueuePoisonShadow_def)
    show ?thesis
      unfolding eq using notCPU r False in_range set_exact ready
      by (auto simp: EnqueuePoisonShadow_GPU_def Let_def page(1) M_def [symmetric] Last_def [symmetric]
          maps_more_def poison_services_ok_def EnqueueUSMSet_def poisoned_def shadow_at_def backed_def tch
          shadow_ready_def)
  qed
qed

text \<open>
  C4: Poisoning a range inside one region of the address space ends, succeeds when the services it
  uses do, and then every shadow byte of the range is backed by a mapped page and holds the value,
  and the shadow bytes of all other granules of the region keep theirs where their page was mapped
  before. Poisoning part of a granule poisons the whole granule of 16 bytes.
\<close>

theorem EnqueuePoisonShadow_exact:
  assumes "GetVirtualMemGranularity api = 2 ^ k" and "k < 64" and "shadow_ready kind k sm"
    and "Size \<noteq> 0" and "unat Ptr + unat Size \<le> 2 ^ 64" and "same_region kind Ptr (Ptr + Size - 1)"
  shows "\<exists>r sm'. EnqueuePoisonShadow api kind Ptr Size v sm = Some (r, sm') \<and>
           (poison_services_ok api \<longrightarrow> r = UR_RESULT_SUCCESS) \<and>
           (r = UR_RESULT_SUCCESS \<longrightarrow>
             (\<forall>a. same_region kind Ptr a \<longrightarrow>
                (if unat Ptr div 16 \<le> unat a div 16 \<and> unat a div 16 \<le> (unat Ptr + unat Size - 1) div 16
                 then shadow_at kind sm' a = v \<and> backed kind k sm' a
                 else backed kind k sm a \<longrightarrow> shadow_at kind sm' a = shadow_at kind sm a)))"
  using EnqueuePoisonShadow_effect [OF assms(1-3), of Size Ptr v] assms(4-6)
  by (auto simp: poisoned_def touches_def)

text \<open>Services that only refuse large allocations, with pages of 64 KB; used to evaluate the model.\<close>

definition sample_api :: shadow_api where
  "sample_api = \<lparr>pfnDeviceAlloc = (\<lambda>n. if n \<le> 0x1000000 then Inr 0xFF00000000001000 else Inl UR_RESULT_ERROR_OUT_OF_DEVICE_MEMORY),
     pfnHostAlloc = (\<lambda>n. if n \<le> 0x1000000 then Inr 0x10000 else Inl UR_RESULT_ERROR_OUT_OF_HOST_MEMORY),
     pfnSharedAlloc = (\<lambda>n. if n \<le> 0x1000000 then Inr 0x70000000000 else Inl UR_RESULT_ERROR_OUT_OF_DEVICE_MEMORY), pfnUSMFree = (\<lambda>_. UR_RESULT_SUCCESS),
     MmapNoReserve = (\<lambda>_. 0x100000000), pfnReserve = (\<lambda>_. Inr 0x100000000000000),
     GetVirtualMemGranularity = 2 ^ 16, pfnPhysicalMemCreate = (\<lambda>_. UR_RESULT_SUCCESS),
     pfnVirtualMemMap = (\<lambda>_. UR_RESULT_SUCCESS), pfnUSMFill = (\<lambda>_ _ _. UR_RESULT_SUCCESS),
     pfnVirtualMemFree = (\<lambda>_. UR_RESULT_SUCCESS), pfnVirtualMemUnmap = (\<lambda>_. UR_RESULT_SUCCESS),
     pfnPhysicalMemRelease = (\<lambda>_. UR_RESULT_SUCCESS), GetDeviceLocalMemorySize = 65536\<rparr>"

definition sample_shadow :: shadow_memory where
  "sample_shadow = new_shadow\<lparr>ShadowBegin := 0x100000000000000\<rparr>"

theorem EnqueuePoisonShadow_exact_witness:
  "\<exists>sm'. EnqueuePoisonShadow sample_api GPU_PVC 0x1000 33 0x81 sample_shadow = Some (UR_RESULT_SUCCESS, sm') \<and>
     shadow_at GPU_PVC sm' 0x1020 = 0x81"
proof -
  have ok: "poison_services_ok sample_api" by (simp add: poison_services_ok_def sample_api_def)
  have "shadow_ready GPU_PVC 16 sample_shadow"
    by (simp add: shadow_ready_def sample_shadow_def GetShadowSize_def)
  then show ?thesis
    using EnqueuePoisonShadow_exact [where api = sample_api and k = 16 and sm = sample_shadow and kind = GPU_PVC
        and Ptr = "0x1000" and Size = 33 and v = "0x81"] ok
    by (auto simp: sample_api_def same_region_def low_region_def dest!: spec [of _ "0x1020"])
qed

section \<open>Local and private shadows\<close>

text \<open>
  The size of the last local shadow is one variable for the whole process. Once one device has
  got its local shadow, a second device that asks for no larger one gets success with the range
  beginning at the null pointer, and nothing is allocated for it.
\<close>

theorem AllocLocalShadow_second_device_null:
  assumes "LastAllocedSize st = 0" and "local_shadow_size api n \<noteq> 0" and "local_shadow_size api n' \<le> local_shadow_size api n"
    and "pfnDeviceAlloc api (local_shadow_size api n) = Inr p"
    and "EnqueueUSMSetZero api p (local_shadow_size api n) = UR_RESULT_SUCCESS"
    and "LocalShadowOffset sm1 = 0" and "LocalShadowOffset sm2 = 0"
  shows "\<exists>st' sm1'. AllocLocalShadow_GPU api n (st, sm1)
             = (UR_RESULT_SUCCESS, Some (p, p + local_shadow_size api n - 1), st', sm1') \<and>
           AllocLocalShadow_GPU api n' (st', sm2)
             = (UR_RESULT_SUCCESS, Some (0, local_shadow_size api n' - 1), st', sm2)"
proof -
  have "\<not> local_shadow_size api n < local_shadow_size api n'" using assms(3) by (simp add: not_less)
  with assms show ?thesis by (simp add: AllocLocalShadow_GPU_def free_usm_def Let_def word_gt_0)
qed

theorem AllocLocalShadow_second_device_null_witness:
  "\<exists>st' sm1'. AllocLocalShadow_GPU sample_api 2 (statics_init, new_shadow)
             = (UR_RESULT_SUCCESS, Some (0xFF00000000001000, 0xFF00000000001000 + 8192 - 1), st', sm1') \<and>
           AllocLocalShadow_GPU sample_api 1 (st', sample_shadow)
             = (UR_RESULT_SUCCESS, Some (0, 4096 - 1), st', sample_shadow)"
proof -
  have sizes: "local_shadow_size sample_api 2 = 8192" "local_shadow_size sample_api 1 = 4096"
    by (simp_all add: local_shadow_size_def sample_api_def ASAN_MAX_WG_LOCAL_def ASAN_SHADOW_SCALE_def min_def
        word_le_nat_alt)
  show ?thesis
    using AllocLocalShadow_second_device_null [of statics_init sample_api 2 1 "0xFF00000000001000" new_shadow sample_shadow]
    unfolding sizes
    by (simp add: sample_api_def EnqueueUSMSetZero_def statics_init_def new_shadow_def sample_shadow_def)
qed

text \<open>
  A private buffer that is not held has recorded size zero. This holds as long as one shadow alone
  uses the recorded sizes (\<open>gpu_life\<close> below), not of every shadow of the process.
\<close>

definition private_inv :: "shadow_statics \<times> shadow_memory \<Rightarrow> bool" where
  "private_inv = (\<lambda>(st, sm).
     (PrivateBasePtr sm = 0 \<longrightarrow> LastPrivateBaseAllocedSize st = 0) \<and>
     (PrivateShadowOffset sm = 0 \<longrightarrow> LastPrivateShadowAllocedSize st = 0))"

text \<open>What the documentation of the allocation entry points promises.\<close>

definition alloc_spec :: "shadow_api \<Rightarrow> bool" where
  "alloc_spec api \<longleftrightarrow> (\<forall>n. pfnDeviceAlloc api n \<noteq> Inl UR_RESULT_SUCCESS \<and> pfnDeviceAlloc api n \<noteq> Inr 0)"

lemma alloc_private_base_cases:
  assumes "alloc_spec api" and "private_inv w"
    and "alloc_private_base api n w = (r, w')"
  shows "private_inv w' \<and> (r = UR_RESULT_SUCCESS \<longrightarrow> n \<le> LastPrivateBaseAllocedSize (fst w')) \<and>
     LastPrivateShadowAllocedSize (fst w') = LastPrivateShadowAllocedSize (fst w) \<and> PrivateShadowOffset (snd w') = PrivateShadowOffset (snd w)"
  using assms
  by (cases w) (auto simp: alloc_private_base_def private_inv_def free_usm_def Let_def not_less
      alloc_spec_def split: if_splits sum.splits)

lemma alloc_private_shadow_cases:
  assumes "alloc_spec api" and "private_inv w"
    and "alloc_private_shadow api n w = (r, w')"
  shows "private_inv w' \<and> (r = UR_RESULT_SUCCESS \<longrightarrow> n \<le> LastPrivateShadowAllocedSize (fst w')) \<and>
     LastPrivateBaseAllocedSize (fst w') = LastPrivateBaseAllocedSize (fst w) \<and> PrivateBasePtr (snd w') = PrivateBasePtr (snd w)"
  using assms
  by (cases w) (auto simp: alloc_private_shadow_def private_inv_def free_usm_def Let_def not_less
      alloc_spec_def split: if_splits sum.splits)

lemma private_rollback_empty:
  assumes "private_inv w"
  shows "case private_rollback w of (st, sm) \<Rightarrow> PrivateBasePtr sm = 0 \<and> PrivateShadowOffset sm = 0 \<and>
     LastPrivateBaseAllocedSize st = 0 \<and> LastPrivateShadowAllocedSize st = 0"
  using assms by (cases w) (simp add: private_rollback_def private_inv_def Let_def)

lemma AllocPrivateShadow_cases:
  assumes alloc: "alloc_spec api" and inv: "private_inv w"
    and call: "AllocPrivateShadow_GPU api n w = (r, res, st', sm')"
  shows "private_inv (st', sm') \<and>
    (case res of
       Some (b, lo, hi) \<Rightarrow>
         r = UR_RESULT_SUCCESS \<and> b = PrivateBasePtr sm' \<and> lo = PrivateShadowOffset sm' \<and>
         hi = lo + private_shadow_size (min n ASAN_MAX_SG_PRIVATE) - 1 \<and>
         ucast (min n ASAN_MAX_SG_PRIVATE) * 8 \<le> LastPrivateBaseAllocedSize st' \<and>
         private_shadow_size (min n ASAN_MAX_SG_PRIVATE) \<le> LastPrivateShadowAllocedSize st'
     | None \<Rightarrow>
         r \<noteq> UR_RESULT_SUCCESS \<and> PrivateBasePtr sm' = 0 \<and> PrivateShadowOffset sm' = 0 \<and>
         LastPrivateBaseAllocedSize st' = 0 \<and> LastPrivateShadowAllocedSize st' = 0)"
proof -
  obtain r1 w1 where b: "alloc_private_base api (ucast (min n ASAN_MAX_SG_PRIVATE) * 8) w = (r1, w1)"
    by (meson surj_pair)
  note base = alloc_private_base_cases [OF alloc inv b]
  obtain r2 w2 where s: "alloc_private_shadow api (private_shadow_size (min n ASAN_MAX_SG_PRIVATE)) w1 = (r2, w2)"
    by (meson surj_pair)
  note shadow = alloc_private_shadow_cases [OF alloc _ s]
  show ?thesis
    using call base shadow private_rollback_empty [of w1] private_rollback_empty [of w2]
    by (auto simp: AllocPrivateShadow_GPU_def b s Let_def private_inv_def split: if_splits)
qed

text \<open>The sizes asked for at least one sub-group are not zero.\<close>

lemma private_sizes_nonzero:
  assumes "n \<noteq> 0"
  defines "m \<equiv> min n ASAN_MAX_SG_PRIVATE"
  shows "(ucast m :: u64) * 8 \<noteq> 0" and "private_shadow_size m \<noteq> 0"
proof -
  have m: "0 < unat m" "unat m \<le> 256"
    using assms(1) by (auto simp: m_def min_def ASAN_MAX_SG_PRIVATE_def word_le_nat_alt unat_gt_0)
  have u: "unat (ucast m :: u64) = unat m" by (simp add: unsigned_ucast_eq take_bit_nat_eq_self_iff) 
      (use m in linarith)
  have a: "unat ((ucast m :: u64) * 8) = unat m * 8"
    using m by (subst unat_mult_lem [THEN iffD1]) (simp_all add: u)
  then show "(ucast m :: u64) * 8 \<noteq> 0" using m by force
  have "unat ((ucast m :: u64) * 0x1000000) = unat m * 0x1000000"
    using m by (subst unat_mult_lem [THEN iffD1]) (simp_all add: u)
  then have "unat (private_shadow_size m) = unat m * 0x100000"
    by (simp add: private_shadow_size_def ASAN_PRIVATE_SIZE_def ASAN_SHADOW_SCALE_def unat_div_distrib drop_bit_eq_div)
  then show "private_shadow_size m \<noteq> 0" using m by force
qed

text \<open>Poisoning, set-up and the local shadows leave the private buffers and their sizes alone.\<close>

definition private_fields :: "shadow_memory \<Rightarrow> u64 \<times> u64" where
  "private_fields sm = (PrivateBasePtr sm, PrivateShadowOffset sm)"

lemma map_pages_private:
  assumes "map_pages api p e sm = Some (r, sm')"
  shows "private_fields sm' = private_fields sm"
proof -
  have "case out of (r, sm') \<Rightarrow> private_fields sm' = private_fields sm"
    if "map_pages api p e sm = Some out" for out
  proof (rule map_pages.raw_induct [OF _ that, where P = "\<lambda>api p e sm (out :: ur_result \<times> shadow_memory).
      case out of (r, sm') \<Rightarrow> private_fields sm' = private_fields sm"], goal_cases)
    case (1 mp api p e sm out)
    show ?case using 1(2)
      by (auto simp: Let_def private_fields_def split: if_splits dest!: 1(1))
  qed
  then show ?thesis using assms by simp
qed

lemma EnqueuePoisonShadow_private:
  "EnqueuePoisonShadow api kind Ptr Size v sm = Some (r, sm') \<Longrightarrow> private_fields sm' = private_fields sm"
  by (cases kind)
    (auto simp: EnqueuePoisonShadow_def EnqueuePoisonShadow_CPU_def EnqueuePoisonShadow_GPU_def Let_def
      private_fields_def [of "_\<lparr>shadow_bytes := _\<rparr>"] private_fields_def [of "_\<lparr>ShadowLowerBound := _, ShadowUpperBound := _\<rparr>"]
      private_fields_def dest!: map_pages_private split: if_splits option.splits prod.splits)

lemma Setup_private: "Setup api kind sm = Some (r, sm') \<Longrightarrow> private_fields sm' = private_fields sm"
  by (cases kind)
    (auto simp: Setup_def Let_def private_fields_def dest!: EnqueuePoisonShadow_private split: if_splits sum.splits)

lemma AllocLocalShadow_private:
  assumes "AllocLocalShadow_GPU api n (st, sm) = (r, res, st', sm')"
  shows "private_fields sm' = private_fields sm \<and>
    LastPrivateBaseAllocedSize st' = LastPrivateBaseAllocedSize st \<and>
    LastPrivateShadowAllocedSize st' = LastPrivateShadowAllocedSize st"
  using assms
  by (auto simp: AllocLocalShadow_GPU_def Let_def free_usm_def private_fields_def split: if_splits sum.splits)

text \<open>
  The life of the only GPU shadow of a process that is asked for private shadows, up to its
  destruction. Every call has services of its own, so that any of them can fail at any time; other
  shadows may ask for their local shadows in between.
\<close>

inductive gpu_life :: "device_kind \<Rightarrow> shadow_statics \<times> shadow_memory \<Rightarrow> bool" for kind where
  created: "gpu_life kind (statics_init, new_shadow)"
| set_up: "gpu_life kind (st, sm) \<Longrightarrow> Setup api kind sm = Some (r, sm') \<Longrightarrow> gpu_life kind (st, sm')"
| poison: "gpu_life kind (st, sm) \<Longrightarrow> EnqueuePoisonShadow api kind Ptr Size v sm = Some (r, sm') \<Longrightarrow>
    gpu_life kind (st, sm')"
| local_alloc: "gpu_life kind (st, sm) \<Longrightarrow> AllocLocalShadow_GPU api n (st, sm) = (r, res, st', sm') \<Longrightarrow>
    gpu_life kind (st', sm')"
| other_local: "gpu_life kind (st, sm) \<Longrightarrow> AllocLocalShadow_GPU api n (st, other) = (r, res, st', other') \<Longrightarrow>
    gpu_life kind (st', sm)"
| private_alloc: "gpu_life kind w \<Longrightarrow> alloc_spec api \<Longrightarrow>
    AllocPrivateShadow_GPU api n w = (r, res, st', sm') \<Longrightarrow> gpu_life kind (st', sm')"

lemma private_inv_fields:
  "private_inv (st, sm) \<Longrightarrow> private_fields sm' = private_fields sm \<Longrightarrow>
   LastPrivateBaseAllocedSize st' = LastPrivateBaseAllocedSize st \<Longrightarrow>
   LastPrivateShadowAllocedSize st' = LastPrivateShadowAllocedSize st \<Longrightarrow> private_inv (st', sm')"
  by (simp add: private_inv_def private_fields_def)

lemma gpu_life_inv: "gpu_life kind w \<Longrightarrow> private_inv w"
proof (induction rule: gpu_life.induct)
  case created
  show ?case by (simp add: private_inv_def statics_init_def new_shadow_def)
next
  case (private_alloc w api n r res st' sm')
  then show ?case using AllocPrivateShadow_cases by blast
qed (blast intro: private_inv_fields dest: Setup_private EnqueuePoisonShadow_private AllocLocalShadow_private)+

text \<open>
  C6: Take the only GPU shadow of a process that is asked for private shadows, from its creation and
  as long as it is not destroyed, after any history of set-up, poisoning, local shadows (its own and
  those of other devices) and earlier calls, with services that may fail at any of them.
  \<open>AllocPrivateShadow\<close> is then all or nothing: when it succeeds, the base array and the shadow it
  returns are the ones held, are not null unless no sub-group was asked for, and are large enough for
  the sub-groups asked for; when any step fails, neither is held any more and both recorded sizes are
  zero, so the next call starts afresh.
\<close>

theorem AllocPrivateShadow_all_or_nothing:
  assumes life: "gpu_life kind w" and alloc: "alloc_spec api"
    and call: "AllocPrivateShadow_GPU api n w = (r, res, st', sm')"
  shows "case res of
       Some (b, lo, hi) \<Rightarrow>
         r = UR_RESULT_SUCCESS \<and> b = PrivateBasePtr sm' \<and> lo = PrivateShadowOffset sm' \<and>
         hi = lo + private_shadow_size (min n ASAN_MAX_SG_PRIVATE) - 1 \<and>
         ucast (min n ASAN_MAX_SG_PRIVATE) * 8 \<le> LastPrivateBaseAllocedSize st' \<and>
         private_shadow_size (min n ASAN_MAX_SG_PRIVATE) \<le> LastPrivateShadowAllocedSize st' \<and>
         (n \<noteq> 0 \<longrightarrow> b \<noteq> 0 \<and> lo \<noteq> 0)
     | None \<Rightarrow>
         r \<noteq> UR_RESULT_SUCCESS \<and> PrivateBasePtr sm' = 0 \<and> PrivateShadowOffset sm' = 0 \<and>
         LastPrivateBaseAllocedSize st' = 0 \<and> LastPrivateShadowAllocedSize st' = 0"
  using AllocPrivateShadow_cases [OF alloc gpu_life_inv [OF life] call] private_sizes_nonzero [of n]
  by (auto simp: private_inv_def split: option.splits)

theorem AllocPrivateShadow_all_or_nothing_witness:
  "\<exists>st' sm'. AllocPrivateShadow_GPU sample_api 2 (statics_init, new_shadow)
      = (UR_RESULT_SUCCESS, Some (0xFF00000000001000, 0xFF00000000001000, 0xFF00000000001000 + 0x200000 - 1), st', sm') \<and>
     gpu_life GPU_PVC (st', sm') \<and> PrivateBasePtr sm' = 0xFF00000000001000 \<and>
     0x200000 \<le> LastPrivateShadowAllocedSize st'"
proof -
  have m: "min 2 ASAN_MAX_SG_PRIVATE = 2" by (simp add: ASAN_MAX_SG_PRIVATE_def min_def word_le_nat_alt)
  have sz: "private_shadow_size 2 = 0x200000"
    by (simp add: private_shadow_size_def ASAN_PRIVATE_SIZE_def ASAN_SHADOW_SCALE_def)
  have a: "alloc_spec sample_api"
    by (simp add: alloc_spec_def sample_api_def)
  have "\<exists>st' sm'. AllocPrivateShadow_GPU sample_api 2 (statics_init, new_shadow)
      = (UR_RESULT_SUCCESS, Some (0xFF00000000001000, 0xFF00000000001000, 0xFF00000000001000 + 0x200000 - 1), st', sm')"
    by (simp add: AllocPrivateShadow_GPU_def m sz alloc_private_base_def alloc_private_shadow_def sample_api_def
        EnqueueUSMSetZero_def statics_init_def new_shadow_def free_usm_def word_less_nat_alt)
  then obtain st' sm' where call: "AllocPrivateShadow_GPU sample_api 2 (statics_init, new_shadow)
      = (UR_RESULT_SUCCESS, Some (0xFF00000000001000, 0xFF00000000001000, 0xFF00000000001000 + 0x200000 - 1), st', sm')"
    by blast
  show ?thesis
    using AllocPrivateShadow_all_or_nothing [OF gpu_life.created a call] private_alloc [OF gpu_life.created a call] call
    by (auto simp: m sz)
qed

text \<open>
  The recorded sizes are variables of the function, shared by all GPU shadows, and destroying a
  shadow does not reset them: a shadow that holds no private buffers (a second device's, or one set up
  anew) and is asked for no more sub-groups than an earlier call got success with null pointers.
\<close>

theorem AllocPrivateShadow_other_shadow_null:
  assumes "PrivateBasePtr sm2 = 0" and "PrivateShadowOffset sm2 = 0"
    and "ucast (min n ASAN_MAX_SG_PRIVATE) * 8 \<le> LastPrivateBaseAllocedSize st"
    and "private_shadow_size (min n ASAN_MAX_SG_PRIVATE) \<le> LastPrivateShadowAllocedSize st"
  shows "AllocPrivateShadow_GPU api n (st, sm2) =
     (UR_RESULT_SUCCESS, Some (0, 0, private_shadow_size (min n ASAN_MAX_SG_PRIVATE) - 1), st, sm2)"
  using assms by (simp add: AllocPrivateShadow_GPU_def alloc_private_base_def alloc_private_shadow_def Let_def not_less [symmetric])

theorem AllocPrivateShadow_other_shadow_null_witness:
  "\<exists>st' sm' b lo hi. AllocPrivateShadow_GPU sample_api 2 (statics_init, new_shadow)
      = (UR_RESULT_SUCCESS, Some (b, lo, hi), st', sm') \<and>
     AllocPrivateShadow_GPU sample_api 2 (st', sample_shadow) = (UR_RESULT_SUCCESS, Some (0, 0, 0x200000 - 1), st', sample_shadow)"
proof -
  have m: "min 2 ASAN_MAX_SG_PRIVATE = 2" by (simp add: ASAN_MAX_SG_PRIVATE_def min_def word_le_nat_alt)
  have sz: "private_shadow_size 2 = 0x200000"
    by (simp add: private_shadow_size_def ASAN_PRIVATE_SIZE_def ASAN_SHADOW_SCALE_def)
  have "\<exists>st' sm' b lo hi. AllocPrivateShadow_GPU sample_api 2 (statics_init, new_shadow)
      = (UR_RESULT_SUCCESS, Some (b, lo, hi), st', sm') \<and>
      LastPrivateBaseAllocedSize st' = 16 \<and> LastPrivateShadowAllocedSize st' = 0x200000"
    by (simp add: AllocPrivateShadow_GPU_def m sz alloc_private_base_def alloc_private_shadow_def sample_api_def
        EnqueueUSMSetZero_def statics_init_def new_shadow_def free_usm_def word_less_nat_alt)
  then show ?thesis
    using AllocPrivateShadow_other_shadow_null [of sample_shadow 2 _ sample_api]
    by (fastforce simp: m sz sample_shadow_def new_shadow_def)
qed

text \<open>
  Destroying the shadow of a GPU whose services succeed releases each of the buffers it holds
  once, but frees the reserved shadow range twice.
\<close>

lemma unmap_all_ok:
  assumes "pfnVirtualMemUnmap api = (\<lambda>_. UR_RESULT_SUCCESS)" and "pfnPhysicalMemRelease api = (\<lambda>_. UR_RESULT_SUCCESS)"
  shows "unmap_all api ps = UR_RESULT_SUCCESS"
  using assms by (induction ps) simp_all

theorem Destory_GPU_frees_shadow_twice:
  assumes "pfnVirtualMemUnmap api = (\<lambda>_. UR_RESULT_SUCCESS)" and "pfnPhysicalMemRelease api = (\<lambda>_. UR_RESULT_SUCCESS)"
    and "pfnUSMFree api = (\<lambda>_. UR_RESULT_SUCCESS)" and "pfnVirtualMemFree api = (\<lambda>_. UR_RESULT_SUCCESS)"
    and "ShadowBegin sm \<noteq> 0"
  shows "\<exists>sm'. Destory_GPU api sm = (UR_RESULT_SUCCESS, sm') \<and>
     usm_freed sm' = usm_freed sm @ [p \<leftarrow> [PrivateShadowOffset sm, PrivateBasePtr sm, LocalShadowOffset sm]. p \<noteq> 0] \<and>
     PrivateShadowOffset sm' = 0 \<and> PrivateBasePtr sm' = 0 \<and> LocalShadowOffset sm' = 0 \<and>
     vm_freed sm' = vm_freed sm @ [ShadowBegin sm, ShadowBegin sm]"
  using assms by (auto simp: Destory_GPU_def free_usm_def Let_def unmap_all_ok)

theorem Destory_GPU_frees_shadow_twice_witness:
  "\<exists>sm'. Destory_GPU sample_api sample_shadow = (UR_RESULT_SUCCESS, sm') \<and>
     vm_freed sm' = [0x100000000000000, 0x100000000000000]"
  using Destory_GPU_frees_shadow_twice [of sample_api sample_shadow]
  by (auto simp: sample_api_def sample_shadow_def new_shadow_def)

end
