(* ===== verification/Asan_Interceptor.thy ===== *)
theory Asan_Interceptor
  imports Asan_Shadow
begin

text \<open>
  The bookkeeping of the address sanitizer (asan_interceptor.cpp, asan_allocator.hpp,
  asan_quarantine.cpp and .hpp, asan_statistics.cpp, asan_validator.cpp): how an allocation is laid
  out between its redzones, how it is recorded, released, quarantined and freed, and how its shadow
  is written. An \<open>AllocInfo\<close> is shared between the allocation map, the pending lists of devices and
  the quarantine, so it is an object of a store and the containers hold its number; an iterator
  into the allocation map is the pair of key and number of its node.
\<close>

section \<open>Data\<close>

record alloc_info =
  AllocBegin :: u64
  UserBegin :: u64
  UserEnd :: u64
  AllocSize :: u64
  AType :: alloc_type
  IsReleased :: bool
  AContext :: nat
  ADevice :: "nat option"

definition getRedzoneSize :: "alloc_info \<Rightarrow> u64" where
  "getRedzoneSize ai = AllocSize ai - (UserEnd ai - UserBegin ai)"

type_synonym alloc_iter = "u64 \<times> nat"

record quarantine_cache =
  m_List :: "alloc_iter list"
  m_Size :: u64

record quarantine =
  q_Map :: "nat option \<Rightarrow> quarantine_cache"
  m_MaxQuarantineSize :: u64

record asan_stats =
  UsmMalloced :: u64
  UsmMallocedRedzones :: u64
  UsmFreed :: u64

record context_info =
  DeviceList :: "nat list"
  m_Quarantine :: "quarantine option"
  Stats :: "asan_stats option"

record device_info =
  DKind :: device_kind
  DAlignment :: u64
  IsSupportSharedSystemUSM :: bool
  AllocInfos :: "nat list"

record asan_options =
  MinRZSize :: u64
  HaltOnError :: bool
  MaxQuarantineSizeMB :: u64

datatype asan_report =
  Bad_free u64 | Bad_context u64 | Double_free u64 | Memory_leak u64

record interceptor =
  infos :: "nat \<Rightarrow> alloc_info"
  next_info :: nat
  m_AllocationMap :: "(u64, nat) omap"
  ContextInfo :: "nat \<Rightarrow> context_info"
  DeviceInfo :: "nat \<Rightarrow> device_info"
  freed :: "u64 list"
  reports :: "asan_report list"

text \<open>
  How an operation ends: with a result, by leaving the process after a report, or by using the
  null device of an allocation that has none.
\<close>

datatype outcome = Ret ur_result | Exit_with_errors | Null_device

section \<open>Statistics\<close>

text \<open>Without the option that asks for statistics the wrapper does nothing.\<close>

definition UpdateUSMMalloced :: "u64 \<Rightarrow> u64 \<Rightarrow> asan_stats option \<Rightarrow> asan_stats option" where
  "UpdateUSMMalloced MallocedSize RedzoneSize = map_option (\<lambda>st.
     st\<lparr>UsmMalloced := UsmMalloced st + MallocedSize,
        UsmMallocedRedzones := UsmMallocedRedzones st + RedzoneSize\<rparr>)"

definition UpdateUSMFreed :: "u64 \<Rightarrow> asan_stats option \<Rightarrow> asan_stats option" where
  "UpdateUSMFreed FreedSize = map_option (\<lambda>st. st\<lparr>UsmFreed := UsmFreed st + FreedSize\<rparr>)"

definition UpdateUSMRealFreed :: "asan_options \<Rightarrow> u64 \<Rightarrow> u64 \<Rightarrow> asan_stats option \<Rightarrow> asan_stats option" where
  "UpdateUSMRealFreed opts FreedSize RedzoneSize = map_option (\<lambda>st.
     let st1 = st\<lparr>UsmMalloced := UsmMalloced st - FreedSize,
                  UsmMallocedRedzones := UsmMallocedRedzones st - RedzoneSize\<rparr>
     in if MaxQuarantineSizeMB opts \<noteq> 0 then st1\<lparr>UsmFreed := UsmFreed st1 - FreedSize\<rparr> else st1)"

definition update_stats ::
  "nat \<Rightarrow> (asan_stats option \<Rightarrow> asan_stats option) \<Rightarrow> interceptor \<Rightarrow> interceptor" where
  "update_stats Context f s = s\<lparr>ContextInfo := (ContextInfo s)(Context := Stats_update f (ContextInfo s Context))\<rparr>"

section \<open>Allocation\<close>

text \<open>\<open>insertAllocInfo\<close> of one device, and of all devices of a context.\<close>

definition insertAllocInfo :: "nat \<Rightarrow> nat \<Rightarrow> interceptor \<Rightarrow> interceptor" where
  "insertAllocInfo i dev s =
     s\<lparr>DeviceInfo := (DeviceInfo s)(dev := (DeviceInfo s dev)\<lparr>AllocInfos := AllocInfos (DeviceInfo s dev) @ [i]\<rparr>)\<rparr>"

definition insert_all_devices :: "nat \<Rightarrow> nat \<Rightarrow> interceptor \<Rightarrow> interceptor" where
  "insert_all_devices Context i s = fold (insertAllocInfo i) (DeviceList (ContextInfo s Context)) s"

text \<open>\<open>std::map::emplace\<close> keeps an entry that is already there.\<close>

definition emplace_info :: "u64 \<Rightarrow> nat \<Rightarrow> interceptor \<Rightarrow> interceptor" where
  "emplace_info k i s =
     (if map_of (m_AllocationMap s) k = None then s\<lparr>m_AllocationMap := omap_insert k i (m_AllocationMap s)\<rparr> else s)"

definition new_info :: "alloc_info \<Rightarrow> interceptor \<Rightarrow> nat \<times> interceptor" where
  "new_info ai s = (next_info s, s\<lparr>infos := (infos s)(next_info s := ai), next_info := Suc (next_info s)\<rparr>)"

record alloc_params =
  USMDesc_align :: "u64 option"
  PAlignment :: u64

definition requested_alignment :: "alloc_params \<Rightarrow> u64" where
  "requested_alignment Params = (case USMDesc_align Params of Some a \<Rightarrow> a | None \<Rightarrow> PAlignment Params)"

definition effective_alignment :: "u64 \<Rightarrow> u64 option \<Rightarrow> u64" where
  "effective_alignment a devAlign =
     (let a1 = (if a = 0 then (case devAlign of Some d \<Rightarrow> d | None \<Rightarrow> ASAN_SHADOW_GRANULARITY) else a)
      in if a1 < ASAN_SHADOW_GRANULARITY then ASAN_SHADOW_GRANULARITY else a1)"

definition redzone_size :: "asan_options \<Rightarrow> u64 \<Rightarrow> u64" where
  "redzone_size opts Size = RZLog2Size (ComputeRZLog Size (MinRZSize opts))"

definition needed_size :: "asan_options \<Rightarrow> u64 \<Rightarrow> u64 \<Rightarrow> u64" where
  "needed_size opts Size Alignment =
     (let n = RoundUpTo Size Alignment + redzone_size opts Size * 2
      in if Alignment > ASAN_SHADOW_GRANULARITY then n + Alignment else n)"

definition user_begin :: "asan_options \<Rightarrow> u64 \<Rightarrow> u64 \<Rightarrow> u64 \<Rightarrow> u64" where
  "user_begin opts Size Alignment Begin =
     (let u = Begin + redzone_size opts Size in if \<not> IsAligned u Alignment then RoundUpTo u Alignment else u)"

text \<open>
  The block comes from \<open>SafeAllocate\<close> or, for exportable memory, from the entry point
  \<open>pfnExportable\<close>, which takes the alignment and the size and needs a device.
\<close>

definition allocate_block ::
  "'a usm_services_scheme \<Rightarrow> (u64 \<Rightarrow> u64 \<Rightarrow> ur_result + u64) \<Rightarrow> nat option \<Rightarrow> u64 \<Rightarrow> alloc_type \<Rightarrow> u64
     \<Rightarrow> ur_result + u64" where
  "allocate_block api pfnExportable Device Alignment T NeededSize =
     (if T \<noteq> EXPORTABLE_MEM then SafeAllocate api (Device \<noteq> None) T NeededSize
      else if Device = None then Inl UR_RESULT_ERROR_INVALID_ARGUMENT
      else pfnExportable Alignment NeededSize)"

definition record_block ::
  "nat \<Rightarrow> nat option \<Rightarrow> u64 \<Rightarrow> alloc_type \<Rightarrow> u64 \<Rightarrow> u64 \<Rightarrow> u64 \<Rightarrow> interceptor \<Rightarrow> interceptor" where
  "record_block Context Device Size T NeededSize Begin User s =
     (let s1 = update_stats Context (UpdateUSMMalloced NeededSize (NeededSize - Size)) s;
          (i, s2) = new_info \<lparr>AllocBegin = Begin, UserBegin = User, UserEnd = User + Size, AllocSize = NeededSize,
                       AType = T, IsReleased = False, AContext = Context, ADevice = Device\<rparr> s1;
          s3 = (case Device of Some d \<Rightarrow> insertAllocInfo i d s2 | None \<Rightarrow> insert_all_devices Context i s2)
      in emplace_info Begin i s3)"

definition allocateMemory ::
  "asan_options \<Rightarrow> 'a usm_services_scheme \<Rightarrow> (u64 \<Rightarrow> u64 \<Rightarrow> ur_result + u64) \<Rightarrow> nat \<Rightarrow> nat option \<Rightarrow> alloc_params
     \<Rightarrow> u64 \<Rightarrow> alloc_type \<Rightarrow> interceptor \<Rightarrow> (ur_result + u64) \<times> interceptor" where
  "allocateMemory opts api pfnExportable Context Device Params Size T s =
     (let req = requested_alignment Params
      in if req AND (req - 1) \<noteq> 0 then (Inl UR_RESULT_ERROR_INVALID_ARGUMENT, s)
      else let Alignment = effective_alignment req (map_option (\<lambda>d. DAlignment (DeviceInfo s d)) Device);
               NeededSize = needed_size opts Size Alignment
           in case allocate_block api pfnExportable Device Alignment T NeededSize of
                Inl r \<Rightarrow> (Inl r, s)
              | Inr p \<Rightarrow>
                  let User = user_begin opts Size Alignment p
                  in (Inr User, record_block Context Device Size T NeededSize p User s))"

section \<open>Look-up\<close>

text \<open>The entry before the upper bound of the address, if the address lies in it.\<close>

definition entry_at :: "u64 \<Rightarrow> (u64, nat) omap \<Rightarrow> alloc_iter option" where
  "entry_at addr m = (case filter (\<lambda>e. fst e \<le> addr) m of [] \<Rightarrow> None | es \<Rightarrow> Some (last es))"

definition findAllocInfoByAddress :: "u64 \<Rightarrow> interceptor \<Rightarrow> alloc_iter option" where
  "findAllocInfoByAddress Address s =
     (case entry_at Address (m_AllocationMap s) of
        None \<Rightarrow> None
      | Some (k, i) \<Rightarrow>
          let ai = infos s i
          in if Address < AllocBegin ai \<or> Address \<ge> AllocBegin ai + AllocSize ai then None else Some (k, i))"

definition findAllocInfoByContext :: "nat \<Rightarrow> interceptor \<Rightarrow> alloc_iter list" where
  "findAllocInfoByContext Context s = filter (\<lambda>e. AContext (infos s (snd e)) = Context) (m_AllocationMap s)"

section \<open>Quarantine\<close>

text \<open>
  The loop of \<open>Quarantine::put\<close>: elements are dequeued while the cache and the new element exceed
  the limit. It returns the dequeued elements, the rest and the size of the rest.
\<close>

fun evict :: "(nat \<Rightarrow> alloc_info) \<Rightarrow> u64 \<Rightarrow> u64 \<Rightarrow> alloc_iter list \<Rightarrow> u64 \<Rightarrow> alloc_iter list \<times> alloc_iter list \<times> u64" where
  "evict objs AllocSz MaxSize [] sz = ([], [], sz)"
| "evict objs AllocSz MaxSize (e # es) sz =
     (if sz + AllocSz > MaxSize
      then let (out, rest, sz') = evict objs AllocSz MaxSize es (sz - AllocSize (objs (snd e))) in (e # out, rest, sz')
      else ([], e # es, sz))"

definition put :: "(nat \<Rightarrow> alloc_info) \<Rightarrow> nat option \<Rightarrow> alloc_iter \<Rightarrow> quarantine \<Rightarrow> alloc_iter list \<times> quarantine" where
  "put objs Device It q =
     (let cache = q_Map q Device;
          n = AllocSize (objs (snd It));
          (out, rest, sz) = evict objs n (m_MaxQuarantineSize q) (m_List cache) (m_Size cache)
      in (out, q\<lparr>q_Map := (q_Map q)(Device := \<lparr>m_List = rest @ [It], m_Size = sz + n\<rparr>)\<rparr>))"

section \<open>Release\<close>

record free_services =
  pfnFree :: "u64 \<Rightarrow> ur_result"
  pfnFreeExportableMemoryExp :: "u64 \<Rightarrow> ur_result"

definition free_block :: "free_services \<Rightarrow> alloc_info \<Rightarrow> ur_result" where
  "free_block api ai =
     (if AType ai \<noteq> EXPORTABLE_MEM then pfnFree api (AllocBegin ai) else pfnFreeExportableMemoryExp api (AllocBegin ai))"

text \<open>The loop over the elements that left the quarantine; \<open>UR_CALL\<close> leaves it on an error.\<close>

fun free_evicted :: "asan_options \<Rightarrow> free_services \<Rightarrow> nat \<Rightarrow> alloc_iter list \<Rightarrow> interceptor \<Rightarrow> ur_result \<times> interceptor" where
  "free_evicted opts api Context [] s = (UR_RESULT_SUCCESS, s)"
| "free_evicted opts api Context (e # es) s =
     (let ai = infos s (snd e);
          s1 = update_stats Context (UpdateUSMRealFreed opts (AllocSize ai) (getRedzoneSize ai)) s;
          s2 = s1\<lparr>freed := freed s1 @ [AllocBegin ai]\<rparr>
      in if free_block api ai \<noteq> UR_RESULT_SUCCESS then (free_block api ai, s2)
         else free_evicted opts api Context es (s2\<lparr>m_AllocationMap := omap_erase (fst e) (m_AllocationMap s2)\<rparr>))"

definition report_error :: "asan_options \<Rightarrow> asan_report \<Rightarrow> interceptor \<Rightarrow> outcome \<times> interceptor" where
  "report_error opts r s =
     (if HaltOnError opts then Exit_with_errors else Ret UR_RESULT_SUCCESS, s\<lparr>reports := reports s @ [r]\<rparr>)"

text \<open>What happens to an allocation once it is known to be released correctly.\<close>

definition free_or_quarantine ::
  "asan_options \<Rightarrow> free_services \<Rightarrow> nat \<Rightarrow> alloc_iter \<Rightarrow> interceptor \<Rightarrow> outcome \<times> interceptor" where
  "free_or_quarantine opts api Context It s =
     (let ai = infos s (snd It)
      in case m_Quarantine (ContextInfo s Context) of
           None \<Rightarrow>
             let s1 = update_stats Context (UpdateUSMRealFreed opts (AllocSize ai) (getRedzoneSize ai)) s
             in (Ret (free_block api ai),
                 s1\<lparr>m_AllocationMap := omap_erase (fst It) (m_AllocationMap s1), freed := freed s1 @ [AllocBegin ai]\<rparr>)
         | Some q \<Rightarrow>
             let (ReleaseList, q') = put (infos s) (ADevice ai) It q;
                 s1 = s\<lparr>ContextInfo := (ContextInfo s)(Context := (ContextInfo s Context)\<lparr>m_Quarantine := Some q'\<rparr>)\<rparr>;
                 (r, s2) = free_evicted opts api Context ReleaseList s1
             in if r \<noteq> UR_RESULT_SUCCESS then (Ret r, s2)
                else (Ret UR_RESULT_SUCCESS, update_stats Context (UpdateUSMFreed (AllocSize ai)) s2))"

definition mark_released :: "nat \<Rightarrow> interceptor \<Rightarrow> interceptor" where
  "mark_released i s = s\<lparr>infos := (infos s)(i := (infos s i)\<lparr>IsReleased := True\<rparr>)\<rparr>"

definition releaseMemory ::
  "asan_options \<Rightarrow> free_services \<Rightarrow> nat \<Rightarrow> u64 \<Rightarrow> interceptor \<Rightarrow> outcome \<times> interceptor" where
  "releaseMemory opts api Context Addr s =
     (case findAllocInfoByAddress Addr s of
        None \<Rightarrow> report_error opts (Bad_free Addr) s
      | Some (k, i) \<Rightarrow>
          let ai = infos s i
          in if AContext ai \<noteq> Context
             then report_error opts (if UserBegin ai = Addr then Bad_context Addr else Bad_free Addr) s
             else if Addr \<noteq> UserBegin ai then report_error opts (Bad_free Addr) s
             else if IsReleased ai then report_error opts (Double_free Addr) s
             else let s1 = mark_released i s
                  in if AType ai = HOST_USM
                     then free_or_quarantine opts api Context (k, i) (insert_all_devices Context i s1)
                     else case ADevice ai of
                            None \<Rightarrow> (Null_device, s1)
                          | Some d \<Rightarrow> free_or_quarantine opts api Context (k, i) (insertAllocInfo i d s1))"

section \<open>Memory of other processes and device globals\<close>

definition registerIPCMemory :: "nat \<Rightarrow> nat \<Rightarrow> u64 \<Rightarrow> u64 \<Rightarrow> interceptor \<Rightarrow> ur_result \<times> interceptor" where
  "registerIPCMemory Context Device Addr Size s =
     (let (i, s1) = new_info \<lparr>AllocBegin = Addr, UserBegin = Addr, UserEnd = Addr + Size, AllocSize = Size,
            AType = DEVICE_USM, IsReleased = False, AContext = Context, ADevice = Some Device\<rparr> s
      in (UR_RESULT_SUCCESS, emplace_info Addr i (insertAllocInfo i Device s1)))"

definition unregisterIPCMemory :: "u64 \<Rightarrow> interceptor \<Rightarrow> outcome \<times> interceptor" where
  "unregisterIPCMemory Addr s =
     (case findAllocInfoByAddress Addr s of
        None \<Rightarrow> (Ret UR_RESULT_SUCCESS, s)
      | Some (k, i) \<Rightarrow>
          let s1 = mark_released i s
          in case ADevice (infos s i) of
               None \<Rightarrow> (Null_device, s1)
             | Some d \<Rightarrow>
                 let s2 = insertAllocInfo i d s1
                 in (Ret UR_RESULT_SUCCESS, s2\<lparr>m_AllocationMap := omap_erase k (m_AllocationMap s2)\<rparr>))"

text \<open>One entry of the metadata of device globals: size, size with redzone, address.\<close>

record device_global =
  GSize :: u64
  SizeWithRedZone :: u64
  GAddr :: u64

definition register_global :: "nat \<Rightarrow> nat \<Rightarrow> device_global \<Rightarrow> interceptor \<Rightarrow> interceptor" where
  "register_global Context Device g s =
     (let (i, s1) = new_info \<lparr>AllocBegin = GAddr g, UserBegin = GAddr g, UserEnd = GAddr g + GSize g,
            AllocSize = SizeWithRedZone g, AType = DEVICE_GLOBAL, IsReleased = False, AContext = Context,
            ADevice = Some Device\<rparr> s
      in emplace_info (GAddr g) i (insertAllocInfo i Device s1))"

section \<open>Writing the shadow\<close>

definition kUsmDeviceRedzoneMagic :: u8 where "kUsmDeviceRedzoneMagic = 0x81"
definition kUsmHostRedzoneMagic :: u8 where "kUsmHostRedzoneMagic = 0x82"
definition kUsmSharedRedzoneMagic :: u8 where "kUsmSharedRedzoneMagic = 0x83"
definition kMemBufferRedzoneMagic :: u8 where "kMemBufferRedzoneMagic = 0x84"
definition kDeviceGlobalRedzoneMagic :: u8 where "kDeviceGlobalRedzoneMagic = 0x85"
definition kExportableMemRedzoneMagic :: u8 where "kExportableMemRedzoneMagic = 0x87"
definition kUsmDeviceDeallocatedMagic :: u8 where "kUsmDeviceDeallocatedMagic = 0x91"
definition kUsmHostDeallocatedMagic :: u8 where "kUsmHostDeallocatedMagic = 0x92"
definition kUsmSharedDeallocatedMagic :: u8 where "kUsmSharedDeallocatedMagic = 0x93"
definition kMemBufferDeallocatedMagic :: u8 where "kMemBufferDeallocatedMagic = 0x94"
definition kExportableMemDeallocatedMagic :: u8 where "kExportableMemDeallocatedMagic = 0x95"
definition kUnknownMagic :: u8 where "kUnknownMagic = 0xff"
definition kZeroMagic :: u8 where "kZeroMagic = 0"

definition deallocated_magic :: "alloc_type \<Rightarrow> u8" where
  "deallocated_magic t =
     (case t of
        HOST_USM \<Rightarrow> kUsmHostDeallocatedMagic
      | DEVICE_USM \<Rightarrow> kUsmDeviceDeallocatedMagic
      | SHARED_USM \<Rightarrow> kUsmSharedDeallocatedMagic
      | MEM_BUFFER \<Rightarrow> kMemBufferDeallocatedMagic
      | EXPORTABLE_MEM \<Rightarrow> kExportableMemDeallocatedMagic
      | _ \<Rightarrow> kUnknownMagic)"

definition redzone_magic :: "alloc_type \<Rightarrow> u8" where
  "redzone_magic t =
     (case t of
        HOST_USM \<Rightarrow> kUsmHostRedzoneMagic
      | DEVICE_USM \<Rightarrow> kUsmDeviceRedzoneMagic
      | SHARED_USM \<Rightarrow> kUsmSharedRedzoneMagic
      | MEM_BUFFER \<Rightarrow> kMemBufferRedzoneMagic
      | DEVICE_GLOBAL \<Rightarrow> kDeviceGlobalRedzoneMagic
      | EXPORTABLE_MEM \<Rightarrow> kExportableMemRedzoneMagic
      | _ \<Rightarrow> kUnknownMagic)"

definition ur_then ::
  "(ur_result \<times> 's) option \<Rightarrow> ('s \<Rightarrow> (ur_result \<times> 's) option) \<Rightarrow> (ur_result \<times> 's) option" where
  "ur_then x f = (case x of None \<Rightarrow> None | Some (r, s) \<Rightarrow> if r \<noteq> UR_RESULT_SUCCESS then Some (r, s) else f s)"

definition enqueueAllocInfo ::
  "shadow_api \<Rightarrow> device_kind \<Rightarrow> alloc_info \<Rightarrow> shadow_memory \<Rightarrow> (ur_result \<times> shadow_memory) option" where
  "enqueueAllocInfo api kind ai sm =
     (let poison = EnqueuePoisonShadow api kind
      in if IsReleased ai then poison (AllocBegin ai) (AllocSize ai) (deallocated_magic (AType ai)) sm
      else ur_then (poison (AllocBegin ai) (AllocSize ai) kZeroMagic sm) (\<lambda>sm1.
        if UserEnd ai = AllocBegin ai + AllocSize ai then Some (UR_RESULT_SUCCESS, sm1)
        else let TailBegin = RoundUpTo (UserEnd ai) ASAN_SHADOW_GRANULARITY;
                 TailEnd = AllocBegin ai + AllocSize ai;
                 value = UserEnd ai - RoundDownTo (UserEnd ai) ASAN_SHADOW_GRANULARITY
             in ur_then (if TailBegin \<noteq> UserEnd ai then poison (UserEnd ai) 1 (ucast value) sm1
                         else Some (UR_RESULT_SUCCESS, sm1)) (\<lambda>sm2.
                ur_then (poison (AllocBegin ai) (UserBegin ai - AllocBegin ai) (redzone_magic (AType ai)) sm2) (\<lambda>sm3.
                poison TailBegin (TailEnd - TailBegin) (redzone_magic (AType ai)) sm3))))"

fun enqueue_all ::
  "shadow_api \<Rightarrow> device_kind \<Rightarrow> alloc_info list \<Rightarrow> shadow_memory \<Rightarrow> (ur_result \<times> shadow_memory) option" where
  "enqueue_all api kind [] sm = Some (UR_RESULT_SUCCESS, sm)"
| "enqueue_all api kind (ai # ais) sm = ur_then (enqueueAllocInfo api kind ai sm) (enqueue_all api kind ais)"

text \<open>The pending list is cleared only when every entry has been written.\<close>

definition updateShadowMemory ::
  "shadow_api \<Rightarrow> nat \<Rightarrow> interceptor \<times> shadow_memory \<Rightarrow> (ur_result \<times> interceptor \<times> shadow_memory) option" where
  "updateShadowMemory api dev = (\<lambda>(s, sm).
     (let di = DeviceInfo s dev
      in case enqueue_all api (DKind di) (map (infos s) (AllocInfos di)) sm of
           None \<Rightarrow> None
         | Some (r, sm') \<Rightarrow>
             if r \<noteq> UR_RESULT_SUCCESS then Some (r, s, sm')
             else Some (UR_RESULT_SUCCESS, s\<lparr>DeviceInfo := (DeviceInfo s)(dev := di\<lparr>AllocInfos := []\<rparr>)\<rparr>, sm')))"

section \<open>Validation of pointers and leaks\<close>

datatype validate_result =
  VALID | MAYBE_HOST_POINTER | RELEASED_POINTER nat | BAD_CONTEXT nat | BAD_DEVICE nat | OUT_OF_BOUNDS nat

definition IsSameDevice :: "(nat \<Rightarrow> nat option) \<Rightarrow> nat \<Rightarrow> nat \<Rightarrow> bool" where
  "IsSameDevice GetParentDevice d1 d2 =
     (if d1 = d2 then True
      else (case GetParentDevice d1 of Some p \<Rightarrow> p | None \<Rightarrow> d1) = (case GetParentDevice d2 of Some p \<Rightarrow> p | None \<Rightarrow> d2))"

definition ValidateUSMPointer ::
  "(nat \<Rightarrow> nat option) \<Rightarrow> bool \<Rightarrow> nat \<Rightarrow> nat \<Rightarrow> u64 \<Rightarrow> interceptor \<Rightarrow> validate_result" where
  "ValidateUSMPointer GetParentDevice IsIndirectAccess Context Device Ptr s =
     (case findAllocInfoByAddress Ptr s of
        None \<Rightarrow> if IsSupportSharedSystemUSM (DeviceInfo s Device) then VALID else MAYBE_HOST_POINTER
      | Some (k, i) \<Rightarrow>
          let ai = infos s i
          in if \<not> IsIndirectAccess \<and> AContext ai \<noteq> Context then BAD_CONTEXT i
             else if (case ADevice ai of None \<Rightarrow> False | Some d \<Rightarrow> \<not> IsSameDevice GetParentDevice d Device) then BAD_DEVICE i
             else if IsReleased ai then RELEASED_POINTER i
             else if Ptr < UserBegin ai \<or> Ptr \<ge> UserEnd ai then OUT_OF_BOUNDS i
             else VALID)"

definition report_leaks :: "nat \<Rightarrow> interceptor \<Rightarrow> interceptor" where
  "report_leaks Context s =
     s\<lparr>reports := reports s @
        map (\<lambda>e. Memory_leak (AllocBegin (infos s (snd e))))
          (filter (\<lambda>e. \<not> IsReleased (infos s (snd e))) (findAllocInfoByContext Context s))\<rparr>"

section \<open>Layout\<close>

lemma granularity_eq: "ASAN_SHADOW_GRANULARITY = 2 ^ 4"
  by (simp add: ASAN_SHADOW_GRANULARITY_def ASAN_SHADOW_SCALE_def)

lemma round_up_bounds:
  fixes x d :: nat
  assumes "0 < d"
  shows "x \<le> (x + d - 1) div d * d" and "(x + d - 1) div d * d \<le> x + d - 1"
proof -
  have "(x + d - 1) mod d + (x + d - 1) div d * d = x + d - 1" by simp
  moreover have "(x + d - 1) mod d \<le> d - 1" using assms by (simp add: less_Suc_eq_le [symmetric])
  ultimately show "x \<le> (x + d - 1) div d * d" "(x + d - 1) div d * d \<le> x + d - 1"
    using assms by linarith+
qed

lemma effective_alignment_power:
  assumes "a AND (a - 1) = 0" and "\<And>d. dev = Some d \<Longrightarrow> \<exists>n < 64. d = 2 ^ n"
  shows "\<exists>n. 4 \<le> n \<and> n < 64 \<and> effective_alignment a dev = 2 ^ n"
proof -
  let ?a1 = "if a = 0 then (case dev of Some d \<Rightarrow> d | None \<Rightarrow> ASAN_SHADOW_GRANULARITY) else a"
  have "\<exists>n < 64. ?a1 = 2 ^ n"
  proof (cases "a = 0")
    case True
    then show ?thesis using assms(2) granularity_eq by (cases dev) (auto intro: exI [of _ 4])
  next
    case False
    then show ?thesis using assms(1) IsPowerOfTwo_iff [of a] by (simp add: IsPowerOfTwo_def)
  qed
  then obtain n where n: "n < 64" "?a1 = 2 ^ n" by blast
  show ?thesis
  proof (cases "4 \<le> n")
    case True
    then have "\<not> (2 ^ n :: u64) < ASAN_SHADOW_GRANULARITY"
      using power_increasing [of 4 n "2 :: nat"]
      unfolding granularity_eq word_less_nat_alt unat_pow2 [OF n(1)] by simp
    with n True show ?thesis by (auto simp: effective_alignment_def Let_def)
  next
    case False
    then have "(2 ^ n :: u64) < ASAN_SHADOW_GRANULARITY"
      using power_strict_increasing [of n 4 "2 :: nat"]
      unfolding granularity_eq word_less_nat_alt unat_pow2 [OF n(1)] by simp
    with n show ?thesis by (auto simp: effective_alignment_def Let_def granularity_eq intro: exI [of _ 4])
  qed
qed

lemma redzone_size_power:
  assumes "MinRZSize opts = 2 ^ m" and "4 \<le> m" and "m \<le> 30"
  shows "\<exists>k. redzone_size opts Size = 2 ^ k \<and> 4 \<le> k \<and> m \<le> k \<and> k \<le> 30"
  using RZ_size [OF assms(2,3), of Size] assms by (auto simp: redzone_size_def)

definition laid_out :: "nat \<Rightarrow> nat \<Rightarrow> alloc_info \<Rightarrow> bool" where
  "laid_out rz al ai \<longleftrightarrow>
     unat (UserBegin ai) mod al = 0 \<and> unat (AllocBegin ai) + rz \<le> unat (UserBegin ai) \<and>
     unat (UserBegin ai) \<le> unat (UserEnd ai) \<and> 
     (unat (UserEnd ai) + 15) div 16 * 16 < unat (AllocBegin ai) + unat (AllocSize ai) \<and>
     unat (AllocBegin ai) + unat (AllocSize ai) < 2 ^ 64"

lemma round_up_multiple: "0 < d \<Longrightarrow> x mod d = 0 \<Longrightarrow> (x + d - 1) div d * d = (x :: nat)"
proof -
  assume d: "0 < d" and "x mod d = 0"
  then obtain q where q: "x = d * q" by (auto elim: dvdE)
  have "x + d - 1 = (d - 1) + q * d" using d q by (simp add: mult.commute)
  then have "(x + d - 1) div d = q" using d by (simp only: div_mult_self1) simp
  then show ?thesis using q by simp
qed

lemma unat_user_begin:
  assumes rz: "redzone_size opts Size = 2 ^ k" "k \<le> 30" and n: "n < 64"
    and room: "unat p + 2 ^ k + 2 ^ n \<le> 2 ^ 64"
  shows "unat (user_begin opts Size (2 ^ n) p) = (unat p + 2 ^ k + 2 ^ n - 1) div 2 ^ n * 2 ^ n"
proof -
  have pos: "0 < (2 :: nat) ^ n" by simp
  have "unat p + 2 ^ k < 2 ^ 64" using room pos by linarith
  then have u: "unat (p + 2 ^ k) = unat p + 2 ^ k"
    using rz(2) unat_pow2 [of k] by (subst unat_add_u64) simp_all
  show ?thesis
  proof (cases "IsAligned (p + 2 ^ k) (2 ^ n)")
    case True
    then have "(unat p + 2 ^ k) mod 2 ^ n = 0" unfolding IsAligned_iff u .
    from round_up_multiple [OF pos this] True u show ?thesis
      by (simp add: user_begin_def rz(1) Let_def)
  next
    case False
    then show ?thesis using unat_RoundUpTo [OF n, of "p + 2 ^ k"] room
      by (simp only: user_begin_def rz(1) Let_def u) simp
  qed
qed

lemma div_plus_multiple: "(16 * q + x) div 16 * 16 = 16 * q + x div 16 * (16 :: nat)"
  by simp

lemma layout_arith:
  fixes p sz k n :: nat
  defines "u \<equiv> (p + 2 ^ k + 2 ^ n - 1) div 2 ^ n * 2 ^ n"
    and "need \<equiv> (sz + 2 ^ n - 1) div 2 ^ n * 2 ^ n + 2 ^ k * 2 + (if 4 < n then 2 ^ n else 0)"
  assumes "4 \<le> k" and "4 \<le> n"
  shows "u mod 2 ^ n = 0" and "p + 2 ^ k \<le> u" and "(u + sz + 15) div 16 * 16 < p + need"
    and "4 < n \<or> p mod 16 = 0 \<Longrightarrow> u + sz + 2 ^ k \<le> p + need"
proof -
  have pos: "0 < (2 :: nat) ^ n" by simp
  note ub = round_up_bounds [OF pos, of "p + 2 ^ k", folded u_def]
  note sb = round_up_bounds [OF pos, of sz]
  have k16: "16 \<le> (2 :: nat) ^ k"
    using power_increasing [OF assms(3), of "2 :: nat"] by simp
  show "u mod 2 ^ n = 0" by (simp add: u_def)
  show "p + 2 ^ k \<le> u" by (rule ub)
  show "(u + sz + 15) div 16 * 16 < p + need"
  proof (cases "4 < n")
    case True
    have "(u + sz + 15) div 16 * 16 \<le> u + sz + 15" by (rule div_times_less_eq_dividend)
    with True ub sb k16 show ?thesis unfolding need_def by simp
  next
    case False
    with assms(4) have n: "n = 4" by simp
    have "u = 16 * ((p + 2 ^ k + 2 ^ n - 1) div 2 ^ n)" by (simp add: u_def n)
    then have "(u + sz + 15) div 16 * 16 = u + (sz + 15) div 16 * 16"
      by (metis div_plus_multiple add.assoc)
    with ub sb k16 show ?thesis unfolding need_def n by (simp add: add.commute)
  qed
  show "u + sz + 2 ^ k \<le> p + need" if "4 < n \<or> p mod 16 = 0"
  proof (cases "4 < n")
    case True
    with ub sb k16 show ?thesis unfolding need_def by simp
  next
    case False
    with assms(4) have n: "n = 4" by simp
    have "16 dvd (2 :: nat) ^ k" using le_imp_power_dvd [OF assms(3), of "2 :: nat"] by simp
    with that False have "(p + 2 ^ k) mod 2 ^ n = 0" by (auto simp: n)
    from round_up_multiple [OF pos this] have "u = p + 2 ^ k" unfolding u_def .
    with sb show ?thesis unfolding need_def by simp
  qed
qed


lemma unat_needed_size:
  assumes rz: "redzone_size opts Size = 2 ^ k" "k \<le> 30" and n: "n < 64"
    and room: "unat Size + 2 * 2 ^ n + 2 ^ 31 \<le> 2 ^ 64"
  shows "unat (needed_size opts Size (2 ^ n)) =
           (unat Size + 2 ^ n - 1) div 2 ^ n * 2 ^ n + 2 ^ k * 2 + (if 4 < n then 2 ^ n else 0)"
proof -
  let ?r = "(unat Size + 2 ^ n - 1) div 2 ^ n * 2 ^ n"
  have pos: "0 < (2 :: nat) ^ n" by simp
  have r: "?r \<le> unat Size + 2 ^ n - 1" by (rule round_up_bounds [OF pos])
  have k: "2 ^ k * 2 \<le> (2 :: nat) ^ 31" using power_increasing [OF rz(2), of "2 :: nat"] by simp
  have ur: "unat (RoundUpTo Size (2 ^ n)) = ?r" using room by (intro unat_RoundUpTo [OF n]) simp
  have uk: "unat ((2 ^ k :: u64) * 2) = 2 ^ k * 2"
  proof -
    have "(2 ^ k :: u64) * 2 = 2 ^ Suc k" by simp
    then show ?thesis using unat_pow2 [of "Suc k"] rz(2) by (simp add: mult.commute)
  qed
  have u1: "unat (RoundUpTo Size (2 ^ n) + 2 ^ k * 2) = ?r + 2 ^ k * 2"
    unfolding ur [symmetric] uk [symmetric] by (rule unat_add_u64) (use ur uk r k room pos in linarith)
  have u2: "unat (RoundUpTo Size (2 ^ n) + 2 ^ k * 2 + 2 ^ n) = ?r + 2 ^ k * 2 + 2 ^ n"
  proof -
    have "unat (RoundUpTo Size (2 ^ n) + 2 ^ k * 2) + unat (2 ^ n :: u64) < 2 ^ 64"
      using u1 unat_pow2 [OF n] r k room pos by linarith
    from unat_add_u64 [OF this] u1 unat_pow2 [OF n] show ?thesis by simp
  qed
  have "(ASAN_SHADOW_GRANULARITY < 2 ^ n) = (4 < n)"
    unfolding granularity_eq word_less_nat_alt unat_pow2 [OF n]
    using power_strict_increasing_iff [of "2 :: nat" 4 n] by simp
  then show ?thesis using u1 u2 by (simp add: needed_size_def rz(1) Let_def)
qed


text \<open>What the allocator promises: a block inside the address space that is not in use.\<close>

definition fresh_block :: "interceptor \<Rightarrow> u64 \<Rightarrow> u64 \<Rightarrow> bool" where
  "fresh_block s n p \<longleftrightarrow> unat p + unat n < 2 ^ 64 \<and> map_of (m_AllocationMap s) p = None"

definition allocator_ok :: "'a usm_services_scheme \<Rightarrow> (u64 \<Rightarrow> u64 \<Rightarrow> ur_result + u64) \<Rightarrow> interceptor \<Rightarrow> bool" where
  "allocator_ok api pfnExportable s \<longleftrightarrow>
     (\<forall>n p. pfnDeviceAlloc api n = Inr p \<or> pfnHostAlloc api n = Inr p \<or> pfnSharedAlloc api n = Inr p \<or>
        (\<exists>a. pfnExportable a n = Inr p) \<longrightarrow> fresh_block s n p)"

lemma allocate_block_fresh:
  assumes "allocator_ok api ex s" and "allocate_block api ex Device A T n = Inr p"
  shows "fresh_block s n p"
  using assms unfolding allocator_ok_def allocate_block_def SafeAllocate_def
  by (auto split: if_splits alloc_type.splits)

lemma insertAllocInfo_frame [simp]:
  "infos (insertAllocInfo i d s) = infos s" "m_AllocationMap (insertAllocInfo i d s) = m_AllocationMap s"
  "next_info (insertAllocInfo i d s) = next_info s" "freed (insertAllocInfo i d s) = freed s"
  "ContextInfo (insertAllocInfo i d s) = ContextInfo s"
  by (simp_all add: insertAllocInfo_def)

lemma insert_all_devices_frame [simp]:
  "infos (insert_all_devices c i s) = infos s" "m_AllocationMap (insert_all_devices c i s) = m_AllocationMap s"
  "next_info (insert_all_devices c i s) = next_info s" "freed (insert_all_devices c i s) = freed s"
  "ContextInfo (insert_all_devices c i s) = ContextInfo s"
proof -
  have "infos (fold (insertAllocInfo i) ds s) = infos s \<and>
      m_AllocationMap (fold (insertAllocInfo i) ds s) = m_AllocationMap s \<and>
      next_info (fold (insertAllocInfo i) ds s) = next_info s \<and> freed (fold (insertAllocInfo i) ds s) = freed s \<and>
      ContextInfo (fold (insertAllocInfo i) ds s) = ContextInfo s" for ds
    by (induction ds arbitrary: s) simp_all
  then show "infos (insert_all_devices c i s) = infos s" "m_AllocationMap (insert_all_devices c i s) = m_AllocationMap s"
  "next_info (insert_all_devices c i s) = next_info s" "freed (insert_all_devices c i s) = freed s"
  "ContextInfo (insert_all_devices c i s) = ContextInfo s"
    by (simp_all add: insert_all_devices_def)
qed

lemma update_stats_frame [simp]:
  "infos (update_stats c f s) = infos s" "m_AllocationMap (update_stats c f s) = m_AllocationMap s"
  "next_info (update_stats c f s) = next_info s" "freed (update_stats c f s) = freed s"
  "DeviceInfo (update_stats c f s) = DeviceInfo s"
  "m_Quarantine (ContextInfo (update_stats c f s) c') = m_Quarantine (ContextInfo s c')"
  by (simp_all add: update_stats_def)

lemma record_block_frame:
  assumes "map_of (m_AllocationMap s) p = None"
    and s': "s' = record_block c dev Size T n p u s"
  shows "m_AllocationMap s' = omap_insert p (next_info s) (m_AllocationMap s)" "next_info s' = Suc (next_info s)"
    "infos s' = (infos s)(next_info s := \<lparr>AllocBegin = p, UserBegin = u, UserEnd = u + Size, AllocSize = n,
       AType = T, IsReleased = False, AContext = c, ADevice = dev\<rparr>)"
    "freed s' = freed s" "m_Quarantine (ContextInfo s' c') = m_Quarantine (ContextInfo s c')"
  using assms(1) by (cases dev; simp add: s' record_block_def Let_def new_info_def emplace_info_def)+

text \<open>A successful allocation records one new object under the address the allocator returned.\<close>

lemma allocateMemory_records:
  assumes call: "allocateMemory opts api ex Context Device Params Size T s = (Inr u, s')"
    and ok: "allocator_ok api ex s"
  defines "A \<equiv> effective_alignment (requested_alignment Params) (map_option (\<lambda>d. DAlignment (DeviceInfo s d)) Device)"
  shows "\<exists>p. u = user_begin opts Size A p \<and> fresh_block s (needed_size opts Size A) p \<and>
           requested_alignment Params AND (requested_alignment Params - 1) = 0 \<and>
           m_AllocationMap s' = omap_insert p (next_info s) (m_AllocationMap s) \<and> next_info s' = Suc (next_info s) \<and>
           infos s' = (infos s)(next_info s := \<lparr>AllocBegin = p, UserBegin = u, UserEnd = u + Size,
             AllocSize = needed_size opts Size A, AType = T, IsReleased = False, AContext = Context, ADevice = Device\<rparr>) \<and>
           freed s' = freed s \<and> (\<forall>c. m_Quarantine (ContextInfo s' c) = m_Quarantine (ContextInfo s c))"
proof -
  have pow: "requested_alignment Params AND (requested_alignment Params - 1) = 0"
    using call by (auto simp: allocateMemory_def Let_def split: if_splits)
  obtain p where p: "allocate_block api ex Device A T (needed_size opts Size A) = Inr p"
      "u = user_begin opts Size A p" "s' = record_block Context Device Size T (needed_size opts Size A) p u s"
    using call pow unfolding allocateMemory_def Let_def A_def [symmetric] by (auto split: sum.splits)
  show ?thesis
    using pow p(2) allocate_block_fresh [OF ok p(1)] record_block_frame [OF _ p(3)]
    by (intro exI [of _ p]) (simp add: fresh_block_def)
qed

text \<open>
  C3: A successful allocation of any size that leaves room for redzones is recorded under the
  block's address; the returned pointer has the alignment asked for, a left redzone of at least the
  configured size precedes it, and the user's bytes end before the block does, so the assertion of
  the code holds and a right redzone follows.
\<close>

theorem allocateMemory_layout:
  assumes opts: "MinRZSize opts = 2 ^ m" "4 \<le> m" "m \<le> 30"
    and dev: "\<And>d. Device = Some d \<Longrightarrow> \<exists>n < 64. DAlignment (DeviceInfo s d) = 2 ^ n"
    and A: "A = effective_alignment (requested_alignment Params) (map_option (\<lambda>d. DAlignment (DeviceInfo s d)) Device)"
    and small: "unat Size + 2 * unat A + 2 ^ 31 \<le> 2 ^ 64"
    and ok: "allocator_ok api ex s"
    and call: "allocateMemory opts api ex Context Device Params Size T s = (Inr u, s')"
  shows "\<exists>i. map_of (m_AllocationMap s') (AllocBegin (infos s' i)) = Some i \<and>
           UserBegin (infos s' i) = u \<and> unat (UserEnd (infos s' i)) = unat u + unat Size \<and>
           \<not> IsReleased (infos s' i) \<and> AContext (infos s' i) = Context \<and> laid_out (2 ^ m) (unat A) (infos s' i)"
proof -
  obtain p where p: "u = user_begin opts Size A p" "fresh_block s (needed_size opts Size A) p"
      "requested_alignment Params AND (requested_alignment Params - 1) = 0"
      "m_AllocationMap s' = omap_insert p (next_info s) (m_AllocationMap s)"
      "infos s' = (infos s)(next_info s := \<lparr>AllocBegin = p, UserBegin = u, UserEnd = u + Size,
             AllocSize = needed_size opts Size A, AType = T, IsReleased = False, AContext = Context, ADevice = Device\<rparr>)"
    using allocateMemory_records [OF call ok] unfolding A by blast
  obtain n where n: "4 \<le> n" "n < 64" "A = 2 ^ n"
    using effective_alignment_power [OF p(3), of "map_option (\<lambda>d. DAlignment (DeviceInfo s d)) Device"] dev
    unfolding A by auto
  have An: "unat A = 2 ^ n" using n unat_pow2 by simp
  obtain k where k: "redzone_size opts Size = 2 ^ k" "4 \<le> k" "m \<le> k" "k \<le> 30"
    using redzone_size_power [OF opts] by blast
  have room: "unat Size + 2 * 2 ^ n + 2 ^ 31 \<le> 2 ^ 64" using small by (simp only: An)
  note need = unat_needed_size [OF k(1,4) n(2) room, folded n(3)]
  have block: "unat p + unat (needed_size opts Size A) < 2 ^ 64" using p(2) by (simp add: fresh_block_def)
  have "2 ^ k + 2 ^ n \<le> unat (needed_size opts Size A)"
    using n(1) power_increasing [OF k(2), of "2 :: nat"] unfolding need by (cases "4 < n") simp_all
  then have "unat p + 2 ^ k + 2 ^ n \<le> 2 ^ 64" using block by linarith
  from unat_user_begin [OF k(1,4) n(2) this] p(1) n(3)
  have u: "unat u = (unat p + 2 ^ k + 2 ^ n - 1) div 2 ^ n * 2 ^ n" by simp
  have lay: "unat u mod 2 ^ n = 0" "unat p + 2 ^ k \<le> unat u"
      "(unat u + unat Size + 15) div 16 * 16 < unat p + unat (needed_size opts Size A)"
    using layout_arith(1-3) [OF k(2) n(1)] unfolding u need by blast+
  have le: "unat u + unat Size \<le> (unat u + unat Size + 15) div 16 * 16"
    using round_up_bounds(1) [of 16 "unat u + unat Size"] by simp
  then have "unat u + unat Size < 2 ^ 64" using lay(3) block by linarith
  then have ue: "unat (u + Size) = unat u + unat Size" by (rule unat_add_u64)
  have "(2 :: nat) ^ m \<le> 2 ^ k" using k(3) by (simp add: power_increasing)
  with lay(2) have "unat p + 2 ^ m \<le> unat u" by linarith
  then have "laid_out (2 ^ m) (unat A) (infos s' (next_info s))"
    using lay block by (simp add: laid_out_def p(5) An ue)
  then show ?thesis by (intro exI [of _ "next_info s"]) (simp add: p(4,5) ue)
qed

text \<open>A state with one context and one device, used to evaluate the model.\<close>

definition sample_opts :: asan_options where
  "sample_opts = \<lparr>MinRZSize = 16, HaltOnError = False, MaxQuarantineSizeMB = 8\<rparr>"

definition sample_state :: interceptor where
  "sample_state = \<lparr>infos = (\<lambda>_. \<lparr>AllocBegin = 0, UserBegin = 0, UserEnd = 0, AllocSize = 0, AType = UNKNOWN,
     IsReleased = False, AContext = 0, ADevice = None\<rparr>), next_info = 0, m_AllocationMap = [],
     ContextInfo = (\<lambda>_. \<lparr>DeviceList = [0], m_Quarantine = Some \<lparr>q_Map = (\<lambda>_. \<lparr>m_List = [], m_Size = 0\<rparr>),
       m_MaxQuarantineSize = 0x800000\<rparr>, Stats = None\<rparr>),
     DeviceInfo = (\<lambda>_. \<lparr>DKind = GPU_PVC, DAlignment = 128, IsSupportSharedSystemUSM = False, AllocInfos = []\<rparr>),
     freed = [], reports = []\<rparr>"

theorem allocateMemory_layout_witness:
  "\<exists>u s' i. allocateMemory sample_opts sample_api (\<lambda>_ _. Inl UR_RESULT_ERROR_UNKNOWN) 0 (Some 0)
       \<lparr>USMDesc_align = None, PAlignment = 0\<rparr> 100 DEVICE_USM sample_state = (Inr u, s') \<and>
     UserBegin (infos s' i) = u \<and> laid_out 16 128 (infos s' i)"
proof -
  let ?ex = "\<lambda>_ _. Inl UR_RESULT_ERROR_UNKNOWN" and ?P = "\<lparr>USMDesc_align = None, PAlignment = 0\<rparr>"
  have A: "effective_alignment (requested_alignment ?P) (map_option (\<lambda>d. DAlignment (DeviceInfo sample_state d)) (Some 0)) = 128"
    by (simp add: effective_alignment_def requested_alignment_def sample_state_def granularity_eq)
  have ok: "allocator_ok sample_api ?ex sample_state"
    by (auto simp: allocator_ok_def fresh_block_def sample_api_def sample_state_def word_le_nat_alt split: if_splits)
  have rz: "redzone_size sample_opts 100 = 64"
    by (simp add: redzone_size_def sample_opts_def ComputeRZLog_def RZSize2Log_def log2_floor.simps RZLog2Size_def
        word_le_nat_alt max_def)
  have "needed_size sample_opts 100 128 = 384"
    by (simp add: needed_size_def rz RoundUpTo_def granularity_eq word_less_nat_alt)
  then have b: "allocate_block sample_api ?ex (Some 0) 128 DEVICE_USM (needed_size sample_opts 100 128) = Inr 0xFF00000000001000"
    by (simp add: allocate_block_def sample_api_def word_le_nat_alt)
  obtain u s' where call: "allocateMemory sample_opts sample_api ?ex 0 (Some 0) ?P 100 DEVICE_USM sample_state = (Inr u, s')"
    unfolding allocateMemory_def A Let_def b by (simp add: requested_alignment_def)
  have d: "\<exists>n < 64. DAlignment (DeviceInfo sample_state d) = 2 ^ n" for d
    by (intro exI [of _ 7]) (simp add: sample_state_def)
  have m: "MinRZSize sample_opts = 2 ^ 4" by (simp add: sample_opts_def)
  have "\<exists>i. UserBegin (infos s' i) = u \<and> laid_out 16 128 (infos s' i)"
    using allocateMemory_layout [OF m _ _ d A [symmetric] _ ok call] by auto
  with call show ?thesis by blast
qed

section \<open>The shadow of an allocation\<close>

text \<open>
  How a shadow byte is read by the checks in the kernels: negative bytes forbid every access, zero
  allows all, and a small positive number allows the first bytes of the granule.
\<close>

definition accessible :: "u8 \<Rightarrow> u64 \<Rightarrow> bool" where
  "accessible v a \<longleftrightarrow> v = 0 \<or> 0 < sint v \<and> int (unat a mod 16) < sint v"

lemma magic_inaccessible: "\<not> accessible (redzone_magic t) a" "\<not> accessible (deallocated_magic t) a"
  by (cases t; simp add: accessible_def redzone_magic_def deallocated_magic_def
      kUsmDeviceRedzoneMagic_def kUsmHostRedzoneMagic_def kUsmSharedRedzoneMagic_def kMemBufferRedzoneMagic_def
      kDeviceGlobalRedzoneMagic_def kExportableMemRedzoneMagic_def kUsmDeviceDeallocatedMagic_def
      kUsmHostDeallocatedMagic_def kUsmSharedDeallocatedMagic_def kMemBufferDeallocatedMagic_def
      kExportableMemDeallocatedMagic_def kUnknownMagic_def)+

lemma accessible_tail: "n < 16 \<Longrightarrow> accessible (of_nat n) a \<longleftrightarrow> n = 0 \<or> unat a mod 16 < n"
proof -
  assume "n < 16"
  then have "sint (of_nat n :: u8) = int n"
    by (simp add: signed_of_nat signed_take_bit_int_eq_self)
  then show ?thesis using \<open>n < 16\<close> by (auto simp: accessible_def)
qed


text \<open>The bytes of an allocation, and the shadow they are to have.\<close>

definition in_block :: "alloc_info \<Rightarrow> u64 \<Rightarrow> bool" where
  "in_block ai a \<longleftrightarrow> unat (AllocBegin ai) \<le> unat a \<and> unat a < unat (AllocBegin ai) + unat (AllocSize ai)"

definition alloc_shadow :: "alloc_info \<Rightarrow> u64 \<Rightarrow> u8" where
  "alloc_shadow ai a =
     (if IsReleased ai then deallocated_magic (AType ai)
      else if unat a < unat (UserBegin ai) \<or> (unat (UserEnd ai) + 15) div 16 * 16 \<le> unat a then redzone_magic (AType ai)
      else if unat a div 16 = unat (UserEnd ai) div 16 then of_nat (unat (UserEnd ai) mod 16)
      else 0)"

lemma tail_unaligned:
  assumes "a div 16 = e div 16" and "a < (e + 15) div 16 * (16 :: nat)"
  shows "e mod 16 \<noteq> 0"
proof
  assume "e mod 16 = 0"
  then have "(e + 15) div 16 * 16 = e" "e = e div 16 * 16" using round_up_multiple [of 16 e] by (auto simp: add.commute)
  moreover have "a div 16 * 16 \<le> a" by (rule div_times_less_eq_dividend)
  ultimately show False using assms by linarith
qed

lemma before_tail:
  assumes "a div 16 \<noteq> e div 16" and "a < (e + 15) div 16 * (16 :: nat)"
  shows "a < e"
proof (rule ccontr)
  assume "\<not> a < e"
  then have "e div 16 \<le> a div 16" by (simp add: div_le_mono)
  with assms(1) have "e div 16 + 1 \<le> a div 16" by simp
  moreover have "(e + 15) div 16 \<le> (e + 16) div 16" by (rule div_le_mono) simp
  moreover have "a div 16 * 16 \<le> a" by (rule div_times_less_eq_dividend)
  moreover have "(e + 16) div 16 = e div 16 + 1" by simp
  ultimately show False using assms(2) by linarith
qed

lemma alloc_shadow_accessible:
  assumes "unat (UserBegin ai) \<le> unat (UserEnd ai)"
  shows "accessible (alloc_shadow ai a) a \<longleftrightarrow>
     \<not> IsReleased ai \<and> unat (UserBegin ai) \<le> unat a \<and> unat a < unat (UserEnd ai)"
proof -
  let ?a = "unat a" and ?e = "unat (UserEnd ai)"
  have up: "?e \<le> (?e + 15) div 16 * 16" using round_up_bounds(1) [of 16 ?e] by simp
  have tail: "accessible (of_nat (?e mod 16)) a \<longleftrightarrow> ?a < ?e"
    if "?a div 16 = ?e div 16" "?a < (?e + 15) div 16 * 16"
  proof -
    have "?e mod 16 \<noteq> 0" using that by (rule tail_unaligned)
    moreover have "?a mod 16 < ?e mod 16 \<longleftrightarrow> ?a < ?e" using that(1)
      by (metis add_less_cancel_left mult_div_mod_eq)
    ultimately show ?thesis by (simp add: accessible_tail)
  qed
  have zero: "?a < ?e" if "?a div 16 \<noteq> ?e div 16" "?a < (?e + 15) div 16 * 16"
    using that by (rule before_tail)
  show ?thesis
    using up tail zero magic_inaccessible accessible_tail [of 0 a]
    by (auto simp: alloc_shadow_def not_le)
qed


lemma unat_tail_value:
  fixes e :: u64
  shows "(ucast (e - RoundDownTo e ASAN_SHADOW_GRANULARITY) :: u8) = of_nat (unat e mod 16)"
proof -
  have "unat (e - RoundDownTo e (2 ^ 4)) = unat e mod 16"
    using unat_RoundDownTo [of e 4] by (simp add: unat_sub_u64 minus_div_mult_eq_mod)
  then show ?thesis
    by (simp add: granularity_eq word_unat_eq_iff unsigned_ucast_eq unsigned_of_nat)
qed


text \<open>Poisoning with services that do not fail, as one step of a sequence.\<close>

lemma poison_ok:
  assumes "poison_services_ok api" and "GetVirtualMemGranularity api = 2 ^ k" and "k < 64" and "shadow_ready kind k sm"
    and "Size \<noteq> 0 \<Longrightarrow> unat Ptr + unat Size \<le> 2 ^ 64 \<and> same_region kind Ptr (Ptr + Size - 1)"
  shows "\<exists>sm'. EnqueuePoisonShadow api kind Ptr Size v sm = Some (UR_RESULT_SUCCESS, sm') \<and>
    poisoned kind k Ptr Size v sm sm'"
  using EnqueuePoisonShadow_effect [OF assms(2-5), of v] assms(1) by auto

text \<open>An allocation that the shadow can describe: inside one region, with an aligned user part.\<close>

definition describable :: "device_kind \<Rightarrow> alloc_info \<Rightarrow> bool" where
  "describable kind ai \<longleftrightarrow>
     AllocSize ai \<noteq> 0 \<and> laid_out 0 16 ai \<and> same_region kind (AllocBegin ai) (AllocBegin ai + AllocSize ai - 1)"

lemma block_region:
  assumes "describable kind ai" and "in_block ai a"
  shows "same_region kind (AllocBegin ai) a"
proof -
  have last: "unat (AllocBegin ai + AllocSize ai - 1) = unat (AllocBegin ai) + unat (AllocSize ai) - 1"
    using assms(1) by (intro unat_last_byte) (simp_all add: describable_def laid_out_def)
  show ?thesis
    using assms last unat_u64_less [of a]
    by (cases kind) (auto simp: describable_def in_block_def same_region_def low_region_def device_region_def device_origin_def)
qed

lemma laid_out_weaken: "laid_out rz al ai \<Longrightarrow> 16 dvd al \<Longrightarrow> laid_out 0 16 ai"
  by (auto simp: laid_out_def)

text \<open>Poisoning a part of a block, seen from the bytes of the block.\<close>

definition repainted ::
  "device_kind \<Rightarrow> nat \<Rightarrow> alloc_info \<Rightarrow> u64 \<Rightarrow> u64 \<Rightarrow> u8 \<Rightarrow> shadow_memory \<Rightarrow> shadow_memory \<Rightarrow> bool" where
  "repainted kind k ai Ptr Size v sm sm' \<longleftrightarrow>
     shadow_ready kind k sm' \<and>
     (\<forall>a. in_block ai a \<longrightarrow>
        (if touches Ptr Size a then shadow_at kind sm' a = v \<and> backed kind k sm' a
         else backed kind k sm a \<longrightarrow> backed kind k sm' a \<and> shadow_at kind sm' a = shadow_at kind sm a))"

lemma poison_part:
  assumes svc: "poison_services_ok api" "GetVirtualMemGranularity api = 2 ^ k" "k < 64"
    and ready: "shadow_ready kind k sm" and ai: "describable kind ai"
    and part: "Size \<noteq> 0 \<Longrightarrow> unat (AllocBegin ai) \<le> unat Ptr \<and>
       unat Ptr + unat Size \<le> unat (AllocBegin ai) + unat (AllocSize ai)"
  shows "\<exists>sm'. EnqueuePoisonShadow api kind Ptr Size v sm = Some (UR_RESULT_SUCCESS, sm') \<and>
    repainted kind k ai Ptr Size v sm sm'"
proof (cases "Size = 0")
  case True
  then show ?thesis using ready
    by (cases kind) (simp_all add: EnqueuePoisonShadow_def EnqueuePoisonShadow_CPU_def
        EnqueuePoisonShadow_GPU_def repainted_def touches_def)
next
  case False
  have pos: "0 < unat Size" using False by (simp add: unat_gt_0)
  have fit: "unat Ptr + unat Size < 2 ^ 64"
    using part [OF False] ai by (auto simp: describable_def laid_out_def)
  have last: "unat (Ptr + Size - 1) = unat Ptr + unat Size - 1" using fit by (intro unat_last_byte [OF False]) simp
  have "in_block ai Ptr" "in_block ai (Ptr + Size - 1)"
    using part [OF False] pos last by (auto simp: in_block_def)
  note regs = this [THEN block_region [OF ai]]
  have "same_region kind Ptr (Ptr + Size - 1)" using same_region_trans [OF regs(2,1)] .
  with fit obtain sm' where sm': "EnqueuePoisonShadow api kind Ptr Size v sm = Some (UR_RESULT_SUCCESS, sm')"
      "poisoned kind k Ptr Size v sm sm'"
    using poison_ok [OF svc ready, of Size Ptr v] by auto
  have "same_region kind Ptr a" if "in_block ai a" for a
    using same_region_trans [OF block_region [OF ai that] regs(1)] .
  with sm' show ?thesis by (auto simp: repainted_def poisoned_def)
qed

lemma describable_layout:
  assumes "describable kind ai"
  defines "T \<equiv> RoundUpTo (UserEnd ai) ASAN_SHADOW_GRANULARITY"
  shows "unat T = (unat (UserEnd ai) + 15) div 16 * 16" and "unat (UserEnd ai) \<le> unat T"
    and "unat T < unat (AllocBegin ai + AllocSize ai)"
    and "unat (AllocBegin ai + AllocSize ai) = unat (AllocBegin ai) + unat (AllocSize ai)"
proof -
  let ?e = "unat (UserEnd ai)"
  have lay: "(?e + 15) div 16 * 16 < unat (AllocBegin ai) + unat (AllocSize ai)"
      "unat (AllocBegin ai) + unat (AllocSize ai) < 2 ^ 64"
    using assms(1) by (simp_all add: describable_def laid_out_def)
  have up: "?e \<le> (?e + 15) div 16 * 16" using round_up_bounds(1) [of 16 ?e] by simp
  have "(?e + 15) div 16 * 16 < 2 ^ 60 * 16" using lay by simp
  then have "Suc ((?e + 15) div 16) * 16 \<le> 2 ^ 60 * 16"
    unfolding mult_less_cancel2 mult_le_cancel2 by simp
  then have "?e + 2 ^ 4 \<le> 2 ^ 64" using up by simp
  from unat_RoundUpTo [OF _ this] show T: "unat T = (?e + 15) div 16 * 16" 
    by (simp add: T_def granularity_eq add.commute)
  show "?e \<le> unat T" using up T by simp
  show sum: "unat (AllocBegin ai + AllocSize ai) = unat (AllocBegin ai) + unat (AllocSize ai)"
    using lay(2) by (rule unat_add_u64)
  show "unat T < unat (AllocBegin ai + AllocSize ai)" unfolding T sum by (rule lay(1))
qed

lemma enqueueAllocInfo_live:
  assumes svc: "poison_services_ok api" "GetVirtualMemGranularity api = 2 ^ k" "k < 64"
    and ready: "shadow_ready kind k sm" and ai: "describable kind ai" and live: "\<not> IsReleased ai"
  defines "B \<equiv> AllocBegin ai" and "n \<equiv> AllocSize ai" and "E \<equiv> UserEnd ai" and "U \<equiv> UserBegin ai"
    and "m \<equiv> redzone_magic (AType ai)" and "T \<equiv> RoundUpTo (UserEnd ai) ASAN_SHADOW_GRANULARITY"
  shows "\<exists>sm1 sm2 sm3 sm4. enqueueAllocInfo api kind ai sm = Some (UR_RESULT_SUCCESS, sm4) \<and>
     repainted kind k ai B n 0 sm sm1 \<and> (if T \<noteq> E then repainted kind k ai E 1 (of_nat (unat E mod 16)) sm1 sm2 else sm2 = sm1) \<and>
     repainted kind k ai B (U - B) m sm2 sm3 \<and> repainted kind k ai T (B + n - T) m sm3 sm4"
proof -
  note lay = describable_layout [OF ai, folded B_def n_def E_def T_def]
  have ord: "unat B \<le> unat U" "unat U \<le> unat E" using ai by (simp_all add: describable_def laid_out_def B_def U_def E_def)
  note part = poison_part [OF svc _ ai, folded B_def n_def]
  obtain sm1 where s1: "EnqueuePoisonShadow api kind B n kZeroMagic sm = Some (UR_RESULT_SUCCESS, sm1)" 
      "repainted kind k ai B n kZeroMagic sm sm1"
    using part [OF ready, where Size = n and Ptr = B and v = kZeroMagic] by auto
  have r1: "shadow_ready kind k sm1" using s1(2) by (simp add: repainted_def)
  have ne: "E \<noteq> B + n" using lay(2,3) by auto
  obtain sm2 where s2: "(if T \<noteq> E then EnqueuePoisonShadow api kind E 1 (of_nat (unat E mod 16)) sm1
        else Some (UR_RESULT_SUCCESS, sm1)) = Some (UR_RESULT_SUCCESS, sm2)"
      "if T \<noteq> E then repainted kind k ai E 1 (of_nat (unat E mod 16)) sm1 sm2 else sm2 = sm1"
    using part [OF r1, where Size = 1 and Ptr = E and v = "of_nat (unat E mod 16)"] ord lay by (cases "T = E") auto
  have r2: "shadow_ready kind k sm2" using s2(2) r1 by (auto simp: repainted_def split: if_splits)
  have UB: "unat (U - B) = unat U - unat B" using ord(1) by (rule unat_sub_u64)
  obtain sm3 where s3: "EnqueuePoisonShadow api kind B (U - B) m sm2 = Some (UR_RESULT_SUCCESS, sm3)"
      "repainted kind k ai B (U - B) m sm2 sm3"
    using part [OF r2, where Size = "U - B" and Ptr = B and v = m] ord lay UB by auto
  have r3: "shadow_ready kind k sm3" using s3(2) by (simp add: repainted_def)
  have TB: "unat (B + n - T) = unat (B + n) - unat T" using lay(3) by (intro unat_sub_u64) simp
  obtain sm4 where s4: "EnqueuePoisonShadow api kind T (B + n - T) m sm3 = Some (UR_RESULT_SUCCESS, sm4)"
      "repainted kind k ai T (B + n - T) m sm3 sm4"
    using part [OF r3, where Size = "B + n - T" and Ptr = T and v = m] ord lay TB by auto
  have "enqueueAllocInfo api kind ai sm = Some (UR_RESULT_SUCCESS, sm4)"
    using live ne s1(1) s2(1) s3(1) s4(1)
    unfolding enqueueAllocInfo_def Let_def unat_tail_value T_def [symmetric]
    by (auto simp: ur_then_def simp flip: B_def n_def E_def U_def m_def split: if_splits)
  with s1(2) s2(2) s3(2) s4(2) show ?thesis unfolding kZeroMagic_def by blast
qed


lemma touches_block:
  assumes "in_block ai a"
  shows "touches (AllocBegin ai) (AllocSize ai) a"
proof -
  have "AllocSize ai \<noteq> 0" using assms by (auto simp: in_block_def)
  moreover have "unat a \<le> unat (AllocBegin ai) + unat (AllocSize ai) - 1" using assms by (auto simp: in_block_def)
  ultimately show ?thesis using assms by (simp add: touches_def in_block_def div_le_mono)
qed

lemma touches_left:
  assumes "in_block ai a" and "unat (UserBegin ai) mod 16 = 0" and "unat (AllocBegin ai) \<le> unat (UserBegin ai)"
  shows "touches (AllocBegin ai) (UserBegin ai - AllocBegin ai) a \<longleftrightarrow> unat a < unat (UserBegin ai)"
proof -
  let ?b = "unat (AllocBegin ai)" and ?u = "unat (UserBegin ai)" and ?a = "unat a"
  have d: "unat (UserBegin ai - AllocBegin ai) = ?u - ?b" using assms(3) by (rule unat_sub_u64)
  have nz: "UserBegin ai - AllocBegin ai \<noteq> 0 \<longleftrightarrow> ?b < ?u"
    unfolding word_unat_eq_iff d using assms(3) by auto
  have "?b div 16 \<le> ?a div 16" using assms(1) by (simp add: in_block_def div_le_mono)
  moreover have "?a div 16 \<le> (?u - 1) div 16 \<longleftrightarrow> ?a < ?u" if "?b < ?u"
  proof
    assume le: "?a div 16 \<le> (?u - 1) div 16"
    obtain q where q: "?u = 16 * q" using assms(2) by auto
    with that have "0 < q" by (cases q) auto
    then have "(?u - 1) div 16 < q" unfolding q by (simp add: less_mult_imp_div_less)
    with le have "?a div 16 < q" by simp
    then show "?a < ?u" unfolding q by (simp add: div_less_iff_less_mult mult.commute)
  next
    assume "?a < ?u"
    then show "?a div 16 \<le> (?u - 1) div 16" by (intro div_le_mono) simp
  qed
  moreover have "?b < ?u" if "?a < ?u" using assms(1) that by (simp add: in_block_def)
  ultimately show ?thesis using assms(3) unfolding touches_def nz d by auto
qed

lemma touches_right:
  assumes "in_block ai a" and "unat T mod 16 = 0" and "unat T < unat (AllocBegin ai + AllocSize ai)"
    and "unat (AllocBegin ai + AllocSize ai) = unat (AllocBegin ai) + unat (AllocSize ai)"
  shows "touches T (AllocBegin ai + AllocSize ai - T) a \<longleftrightarrow> unat T \<le> unat a"
proof -
  have d: "unat (AllocBegin ai + AllocSize ai - T) = unat (AllocBegin ai + AllocSize ai) - unat T"
    using assms(3) by (intro unat_sub_u64) simp
  have "AllocBegin ai + AllocSize ai - T \<noteq> 0" using assms(3) by auto
  moreover have "unat a div 16 \<le> (unat T + unat (AllocBegin ai + AllocSize ai - T) - 1) div 16"
    using assms(1,3,4) unfolding d by (intro div_le_mono) (auto simp: in_block_def)
  moreover have "unat T div 16 \<le> unat a div 16 \<longleftrightarrow> unat T \<le> unat a"
    using assms(2) by (metis div_le_mono div_times_less_eq_dividend dvd_div_mult_self le_trans mod_0_imp_dvd mult_le_mono1)
  ultimately show ?thesis by (simp add: touches_def)
qed

lemma enqueueAllocInfo_shadow:
  assumes svc: "poison_services_ok api" "GetVirtualMemGranularity api = 2 ^ k" "k < 64"
    and ready: "shadow_ready kind k sm" and ai: "describable kind ai"
  shows "\<exists>sm'. enqueueAllocInfo api kind ai sm = Some (UR_RESULT_SUCCESS, sm') \<and> shadow_ready kind k sm' \<and>
           (\<forall>a. in_block ai a \<longrightarrow> shadow_at kind sm' a = alloc_shadow ai a)"
proof (cases "IsReleased ai")
  case True
  obtain sm' where "EnqueuePoisonShadow api kind (AllocBegin ai) (AllocSize ai) (deallocated_magic (AType ai)) sm
        = Some (UR_RESULT_SUCCESS, sm')" "repainted kind k ai (AllocBegin ai) (AllocSize ai) (deallocated_magic (AType ai)) sm sm'"
    using poison_part [OF svc ready ai, where Size = "AllocSize ai" and Ptr = "AllocBegin ai"
        and v = "deallocated_magic (AType ai)"] by auto
  with True show ?thesis
    by (auto simp: enqueueAllocInfo_def repainted_def alloc_shadow_def touches_block)
next
  case False
  let ?B = "AllocBegin ai" and ?n = "AllocSize ai" and ?U = "UserBegin ai" and ?E = "UserEnd ai"
  let ?m = "redzone_magic (AType ai)" and ?T = "RoundUpTo (UserEnd ai) ASAN_SHADOW_GRANULARITY"
  obtain sm1 sm2 sm3 sm4 where r: "enqueueAllocInfo api kind ai sm = Some (UR_RESULT_SUCCESS, sm4)"
      and p1: "repainted kind k ai ?B ?n 0 sm sm1"
      and p2: "if ?T \<noteq> ?E then repainted kind k ai ?E 1 (of_nat (unat ?E mod 16)) sm1 sm2 else sm2 = sm1"
      and p3: "repainted kind k ai ?B (?U - ?B) ?m sm2 sm3" and p4: "repainted kind k ai ?T (?B + ?n - ?T) ?m sm3 sm4"
    using enqueueAllocInfo_live [OF svc ready ai False] by blast
  note lay = describable_layout [OF ai]
  have u: "unat ?U mod 16 = 0" "unat ?B \<le> unat ?U" "unat ?U \<le> unat ?E"
    using ai by (simp_all add: describable_def laid_out_def)
  have "shadow_at kind sm4 a = alloc_shadow ai a" if a: "in_block ai a" for a
  proof -
    have s1: "shadow_at kind sm1 a = 0 \<and> backed kind k sm1 a"
      using p1 a touches_block [OF a] by (simp add: repainted_def)
    have t2: "touches ?E 1 a \<longleftrightarrow> unat a div 16 = unat ?E div 16" by (auto simp: touches_def)
    have s2: "backed kind k sm2 a \<and> shadow_at kind sm2 a =
        (if ?T \<noteq> ?E \<and> unat a div 16 = unat ?E div 16 then of_nat (unat ?E mod 16) else 0)"
      using p2 a s1 by (auto simp: repainted_def t2 split: if_splits)
    have s3: "backed kind k sm3 a \<and> shadow_at kind sm3 a = (if unat a < unat ?U then ?m else shadow_at kind sm2 a)"
      using p3 a s2 touches_left [OF a u(1,2)] by (auto simp: repainted_def)
    have Tm: "unat ?T mod 16 = 0" by (simp add: lay(1))
    have s4: "shadow_at kind sm4 a = (if unat ?T \<le> unat a then ?m else shadow_at kind sm3 a)"
      using p4 a s3 touches_right [OF a Tm lay(3,4)] by (auto simp: repainted_def)
    have "unat ?E mod 16 = 0" if "?T = ?E" using Tm that by simp
    then show ?thesis using False s2 s3 s4 by (auto simp: alloc_shadow_def lay(1))
  qed
  with r p4 show ?thesis by (auto simp: repainted_def)
qed


text \<open>
  C1: Once an allocation's entry has been written to the shadow, a byte of its block passes the
  check in the kernels exactly if the allocation has not been released and the byte is one of the
  user's bytes; redzones, the rest of the last granule and released memory do not pass.
\<close>

theorem enqueueAllocInfo_exact:
  assumes "poison_services_ok api" and "GetVirtualMemGranularity api = 2 ^ k" and "k < 64"
    and "shadow_ready kind k sm" and "describable kind ai"
  shows "\<exists>sm'. enqueueAllocInfo api kind ai sm = Some (UR_RESULT_SUCCESS, sm') \<and>
           (\<forall>a. in_block ai a \<longrightarrow>
              (accessible (shadow_at kind sm' a) a \<longleftrightarrow>
                 \<not> IsReleased ai \<and> unat (UserBegin ai) \<le> unat a \<and> unat a < unat (UserEnd ai)))"
proof -
  have "unat (UserBegin ai) \<le> unat (UserEnd ai)" using assms(5) by (simp add: describable_def laid_out_def)
  from alloc_shadow_accessible [OF this] enqueueAllocInfo_shadow [OF assms] show ?thesis by auto
qed

definition sample_info :: alloc_info where
  "sample_info = \<lparr>AllocBegin = 0xFF00000000001000, UserBegin = 0xFF00000000001080, UserEnd = 0xFF000000000010E4,
     AllocSize = 384, AType = DEVICE_USM, IsReleased = False, AContext = 0, ADevice = Some 0\<rparr>"

theorem enqueueAllocInfo_exact_witness:
  "\<exists>sm'. enqueueAllocInfo sample_api GPU_PVC sample_info sample_shadow = Some (UR_RESULT_SUCCESS, sm') \<and>
     accessible (shadow_at GPU_PVC sm' 0xFF000000000010E3) 0xFF000000000010E3 \<and>
     \<not> accessible (shadow_at GPU_PVC sm' 0xFF000000000010E4) 0xFF000000000010E4 \<and>
     \<not> accessible (shadow_at GPU_PVC sm' 0xFF0000000000107F) 0xFF0000000000107F"
proof -
  have d: "describable GPU_PVC sample_info"
    by (simp add: describable_def laid_out_def sample_info_def same_region_def device_region_def device_origin_def)
  have r: "shadow_ready GPU_PVC 16 sample_shadow"
    by (simp add: shadow_ready_def sample_shadow_def GetShadowSize_def)
  have ok: "poison_services_ok sample_api" "GetVirtualMemGranularity sample_api = 2 ^ 16"
    by (simp_all add: poison_services_ok_def sample_api_def)
  obtain sm' where sm': "enqueueAllocInfo sample_api GPU_PVC sample_info sample_shadow = Some (UR_RESULT_SUCCESS, sm')"
      "\<And>a. in_block sample_info a \<Longrightarrow> accessible (shadow_at GPU_PVC sm' a) a \<longleftrightarrow>
         \<not> IsReleased sample_info \<and> unat (UserBegin sample_info) \<le> unat a \<and> unat a < unat (UserEnd sample_info)"
    using enqueueAllocInfo_exact [OF ok _ r d] by auto
  show ?thesis
    using sm'(1) sm'(2) [of "0xFF000000000010E3"] sm'(2) [of "0xFF000000000010E4"] sm'(2) [of "0xFF0000000000107F"]
    by (intro exI [of _ sm']) (simp_all add: in_block_def, simp_all add: sample_info_def)
qed

end
