(* ===== verification/Asan_Lifecycle.thy ===== *)
theory Asan_Lifecycle
  imports Asan_Interceptor "HOL-Library.Multiset"
begin

text \<open>
  What the bookkeeping of the address sanitizer guarantees over time: the quarantine stays within
  its limit, and in every history of allocations and releases each block of the allocator is given
  back at most once and none is forgotten.
\<close>

section \<open>Quarantine\<close>

definition total_size :: "(nat \<Rightarrow> alloc_info) \<Rightarrow> alloc_iter list \<Rightarrow> nat" where
  "total_size objs es = (\<Sum>e\<leftarrow>es. unat (AllocSize (objs (snd e))))"

text \<open>
  The loop of \<open>put\<close> dequeues a shortest prefix that makes room, or everything; the size it keeps is
  the sum of the sizes of the rest.
\<close>

lemma evict_spec:
  assumes "evict objs n MaxSize es sz = (out, rest, sz')" and "unat sz = total_size objs es"
    and "total_size objs es + unat n < 2 ^ 64"
  shows "es = out @ rest \<and> unat sz' = total_size objs rest \<and>
     (rest = [] \<or> unat sz' + unat n \<le> unat MaxSize) \<and>
     (out \<noteq> [] \<longrightarrow> unat MaxSize < total_size objs (last out # rest) + unat n)"
  using assms
proof (induction objs n MaxSize es sz arbitrary: out rest sz' rule: evict.induct)
  case (1 objs n MaxSize sz)
  then show ?case by simp
next
  case (2 objs n MaxSize e es sz)
  have sum: "unat (sz + n) = unat sz + unat n" using "2.prems"(2,3) by (intro unat_add_u64) simp
  show ?case
  proof (cases "sz + n > MaxSize")
    case False
    with "2.prems" sum show ?thesis by (auto simp: not_less word_le_nat_alt)
  next
    case True
    obtain out' where r: "evict objs n MaxSize es (sz - AllocSize (objs (snd e))) = (out', rest, sz')" "out = e # out'"
      using True "2.prems"(1) by (auto simp: Let_def split: prod.splits)
    have sub: "unat (sz - AllocSize (objs (snd e))) = total_size objs es"
      using "2.prems"(2) by (subst unat_sub_u64) (simp_all add: total_size_def)
    have "total_size objs es + unat n < 2 ^ 64" using "2.prems"(3) by (simp add: total_size_def)
    note IH = "2.IH" [OF True r(1) sub this]
    have "unat MaxSize < total_size objs (e # es) + unat n"
      using True sum "2.prems"(2) by (simp add: word_less_nat_alt)
    with IH r(2) show ?thesis by (cases out') auto
  qed
qed

lemma evict_append: "evict objs n MaxSize es sz = (out, rest, sz') \<Longrightarrow> es = out @ rest"
  by (induction objs n MaxSize es sz arbitrary: out rest sz' rule: evict.induct)
    (auto simp: Let_def split: if_splits prod.splits)

lemma put_split:
  assumes "put objs d It q = (out, q')"
  shows "\<exists>rest. m_List (q_Map q d) = out @ rest \<and> m_List (q_Map q' d) = rest @ [It] \<and>
     (\<forall>d'. d' \<noteq> d \<longrightarrow> q_Map q' d' = q_Map q d')"
  using assms evict_append by (auto simp: put_def Let_def split: prod.splits)

definition cache_ok :: "(nat \<Rightarrow> alloc_info) \<Rightarrow> quarantine_cache \<Rightarrow> bool" where
  "cache_ok objs c \<longleftrightarrow> unat (m_Size c) = total_size objs (m_List c)"

text \<open>
  C5: Putting an allocation into the quarantine keeps the recorded size exact, keeps the oldest
  elements from the front only as long as they do not fit, and leaves the cache within the limit
  unless the new allocation alone exceeds it.
\<close>

theorem put_bounded:
  assumes "cache_ok objs (q_Map q d)"
    and "total_size objs (m_List (q_Map q d)) + unat (AllocSize (objs (snd It))) < 2 ^ 64"
    and "put objs d It q = (out, q')"
  shows "\<exists>rest. m_List (q_Map q d) = out @ rest \<and> m_List (q_Map q' d) = rest @ [It] \<and> cache_ok objs (q_Map q' d) \<and>
     (rest = [] \<or> total_size objs (m_List (q_Map q' d)) \<le> unat (m_MaxQuarantineSize q)) \<and>
     (out \<noteq> [] \<longrightarrow> unat (m_MaxQuarantineSize q) < total_size objs (last out # m_List (q_Map q' d))) \<and>
     (\<forall>d'. d' \<noteq> d \<longrightarrow> q_Map q' d' = q_Map q d')"
proof -
  let ?n = "AllocSize (objs (snd It))" and ?c = "q_Map q d"
  obtain rest sz where e: "evict objs ?n (m_MaxQuarantineSize q) (m_List ?c) (m_Size ?c) = (out, rest, sz)"
      "q' = q\<lparr>q_Map := (q_Map q)(d := \<lparr>m_List = rest @ [It], m_Size = sz + ?n\<rparr>)\<rparr>"
    using assms(3) by (auto simp: put_def Let_def split: prod.splits)
  note ev = evict_spec [OF e(1) assms(1) [unfolded cache_ok_def] assms(2)]
  have "total_size objs rest \<le> total_size objs (m_List ?c)" using ev by (simp add: total_size_def)
  then have "unat (sz + ?n) = total_size objs rest + unat ?n"
    using ev assms(2) by (subst unat_add_u64) auto
  then show ?thesis
    using ev by (intro exI [of _ rest]) (auto simp: e(2) cache_ok_def total_size_def)
qed


text \<open>A cache of 8 MB that holds 6 MB and takes 4 MB more drops its element.\<close>

definition sample_objs :: "nat \<Rightarrow> alloc_info" where
  "sample_objs i = sample_info\<lparr>AllocSize := (if i = 0 then 0x600000 else 0x400000), IsReleased := True\<rparr>"

definition sample_quarantine :: quarantine where
  "sample_quarantine = \<lparr>q_Map = (\<lambda>_. \<lparr>m_List = [(0x1000, 0)], m_Size = 0x600000\<rparr>), m_MaxQuarantineSize = 0x800000\<rparr>"

theorem put_bounded_witness:
  "\<exists>q'. put sample_objs None (0x2000, 1) sample_quarantine = ([(0x1000, 0)], q') \<and>
     total_size sample_objs (m_List (q_Map q' None)) = 0x400000 \<and> cache_ok sample_objs (q_Map q' None)"
proof -
  have c: "cache_ok sample_objs (q_Map sample_quarantine None)"
    by (simp add: cache_ok_def total_size_def sample_objs_def sample_quarantine_def)
  have t: "total_size sample_objs (m_List (q_Map sample_quarantine None)) + unat (AllocSize (sample_objs (snd (0x2000 :: u64, 1)))) < 2 ^ 64"
    by (simp add: total_size_def sample_objs_def sample_quarantine_def)
  obtain q' where p: "put sample_objs None (0x2000, 1) sample_quarantine = ([(0x1000, 0)], q')"
    by (simp add: put_def Let_def sample_objs_def sample_quarantine_def word_less_nat_alt)
  show ?thesis
    using put_bounded [OF c t p] p
    by (auto simp: sample_quarantine_def total_size_def) (simp add: sample_objs_def)
qed

section \<open>Blocks are freed once\<close>

definition frees_ok :: "free_services \<Rightarrow> bool" where
  "frees_ok api \<longleftrightarrow> pfnFree api = (\<lambda>_. UR_RESULT_SUCCESS) \<and> pfnFreeExportableMemoryExp api = (\<lambda>_. UR_RESULT_SUCCESS)"

lemma free_block_ok [simp]: "frees_ok api \<Longrightarrow> free_block api ai = UR_RESULT_SUCCESS"
  by (simp add: frees_ok_def free_block_def)

definition map_inv :: "interceptor \<Rightarrow> bool" where
  "map_inv s \<longleftrightarrow> omap_wf (m_AllocationMap s) \<and>
     (\<forall>e \<in> set (m_AllocationMap s). snd e < next_info s \<and> AllocBegin (infos s (snd e)) = fst e)"

definition quarantined :: "interceptor \<Rightarrow> nat \<Rightarrow> nat option \<Rightarrow> alloc_iter list" where
  "quarantined s c d = (case m_Quarantine (ContextInfo s c) of None \<Rightarrow> [] | Some q \<Rightarrow> m_List (q_Map q d))"

definition quarantine_inv :: "interceptor \<Rightarrow> bool" where
  "quarantine_inv s \<longleftrightarrow>
     (\<forall>c d. distinct (quarantined s c d) \<and>
        (\<forall>e \<in> set (quarantined s c d). e \<in> set (m_AllocationMap s) \<and> IsReleased (infos s (snd e)) \<and>
           AContext (infos s (snd e)) = c \<and> ADevice (infos s (snd e)) = d))"

lemma quarantine_invD:
  assumes "quarantine_inv s"
  shows "distinct (quarantined s c d)"
    and "e \<in> set (quarantined s c d) \<Longrightarrow> e \<in> set (m_AllocationMap s)"
    and "e \<in> set (quarantined s c d) \<Longrightarrow> IsReleased (infos s (snd e))"
    and "e \<in> set (quarantined s c d) \<Longrightarrow> AContext (infos s (snd e)) = c \<and> ADevice (infos s (snd e)) = d"
  using assms by (simp_all add: quarantine_inv_def)

lemma omap_erase_entry:
  assumes "omap_wf m" and "e \<in> set m"
  shows "omap_erase (fst e) m = filter (\<lambda>x. x \<noteq> e) m"
proof -
  have "fst x = fst e \<longleftrightarrow> x = e" if "x \<in> set m" for x
    using omap_wf_distinct [OF assms(1)] assms(2) that by (auto simp: distinct_map inj_on_def)
  then show ?thesis unfolding omap_erase_def by (intro filter_cong) auto
qed

lemma omap_wf_filter: "omap_wf m \<Longrightarrow> omap_wf (filter P m)"
  by (simp add: omap_wf_def sorted_wrt_map sorted_wrt_filter)

lemma free_evicted_frees:
  assumes "frees_ok api" and "omap_wf (m_AllocationMap s)" and "distinct es" and "set es \<subseteq> set (m_AllocationMap s)"
  shows "\<exists>s'. free_evicted opts api c es s = (UR_RESULT_SUCCESS, s') \<and> infos s' = infos s \<and> next_info s' = next_info s \<and>
     m_AllocationMap s' = filter (\<lambda>x. x \<notin> set es) (m_AllocationMap s) \<and>
     freed s' = freed s @ map (\<lambda>e. AllocBegin (infos s (snd e))) es \<and>
     (\<forall>c'. m_Quarantine (ContextInfo s' c') = m_Quarantine (ContextInfo s c'))"
  using assms
proof (induction opts api c es s rule: free_evicted.induct)
  case (1 opts api c s)
  then show ?case by simp
next
  case (2 opts api c e es s)
  define ai where "ai = infos s (snd e)"
  define s1 where "s1 = update_stats c (UpdateUSMRealFreed opts (AllocSize ai) (getRedzoneSize ai)) s"
  define s2 where "s2 = s1\<lparr>freed := freed s1 @ [AllocBegin ai]\<rparr>"
  define s3 where "s3 = s2\<lparr>m_AllocationMap := omap_erase (fst e) (m_AllocationMap s2)\<rparr>"
  have m: "m_AllocationMap s3 = filter (\<lambda>x. x \<noteq> e) (m_AllocationMap s)"
    using "2.prems" by (simp add: s3_def s2_def s1_def omap_erase_entry)
  have step: "free_evicted opts api c (e # es) s = free_evicted opts api c es s3"
    using "2.prems"(1) by (simp add: Let_def s3_def s2_def s1_def ai_def)
  have "\<exists>s'. free_evicted opts api c es s3 = (UR_RESULT_SUCCESS, s') \<and> infos s' = infos s3 \<and> next_info s' = next_info s3 \<and>
     m_AllocationMap s' = filter (\<lambda>x. x \<notin> set es) (m_AllocationMap s3) \<and>
     freed s' = freed s3 @ map (\<lambda>e. AllocBegin (infos s3 (snd e))) es \<and>
     (\<forall>c'. m_Quarantine (ContextInfo s' c') = m_Quarantine (ContextInfo s3 c'))"
    using "2.prems" m unfolding s3_def s2_def s1_def ai_def
    by (intro "2.IH") (auto simp: omap_wf_filter)
  then show ?case unfolding step m by (auto simp: s3_def s2_def s1_def ai_def intro: filter_cong)
qed


definition balanced :: "u64 list \<Rightarrow> interceptor \<Rightarrow> bool" where
  "balanced blocks s \<longleftrightarrow> mset blocks = mset (freed s) + mset (map fst (m_AllocationMap s))"

definition life_inv :: "u64 list \<Rightarrow> interceptor \<Rightarrow> bool" where
  "life_inv blocks s \<longleftrightarrow> map_inv s \<and> quarantine_inv s \<and> balanced blocks s"

lemma mset_remove_entries:
  assumes "distinct m" and "distinct es" and "set es \<subseteq> set m"
  shows "mset (map f m) = mset (map f (filter (\<lambda>x. x \<notin> set es) m)) + mset (map f es)"
proof -
  have "mset (filter (\<lambda>x. x \<in> set es) m) = mset es"
    using assms by (intro set_eq_iff_mset_eq_distinct [THEN iffD1]) auto
  then have "mset m = mset (filter (\<lambda>x. x \<notin> set es) m) + mset es"
    using multiset_partition [of "mset m" "\<lambda>x. x \<in> set es"] by (simp add: add.commute)
  then show ?thesis by (metis image_mset_union mset_map)
qed

lemma life_inv_drop:
  assumes inv: "map_inv s" "balanced blocks s" and es: "distinct es" "set es \<subseteq> set (m_AllocationMap s)"
    and s': "infos s' = infos s" "next_info s' = next_info s"
      "m_AllocationMap s' = filter (\<lambda>x. x \<notin> set es) (m_AllocationMap s)"
      "freed s' = freed s @ map (\<lambda>e. AllocBegin (infos s (snd e))) es"
  shows "map_inv s' \<and> balanced blocks s'"
proof -
  have keys: "map (\<lambda>e. AllocBegin (infos s (snd e))) es = map fst es"
    using inv(1) es(2) by (auto simp: map_inv_def)
  have "distinct (m_AllocationMap s)"
    using inv(1) omap_wf_distinct by (auto simp: map_inv_def distinct_map)
  from mset_remove_entries [OF this es, of fst] inv(2)
  have "balanced blocks s'" unfolding balanced_def s'(3,4) keys by simp
  moreover have "map_inv s'" using inv(1) by (simp add: map_inv_def s' omap_wf_filter)
  ultimately show ?thesis by simp
qed

lemma free_or_quarantine_inv:
  assumes api: "frees_ok api" and inv: "life_inv blocks s"
    and It: "It \<in> set (m_AllocationMap s)" "IsReleased (infos s (snd It))" "AContext (infos s (snd It)) = c"
    and new: "\<And>c d. It \<notin> set (quarantined s c d)"
    and call: "free_or_quarantine opts api c It s = (out, s')"
  shows "life_inv blocks s'"
proof (cases "m_Quarantine (ContextInfo s c)")
  case None
  have mi: "map_inv s" "balanced blocks s" and qi: "quarantine_inv s" using inv by (simp_all add: life_inv_def)
  have s': "infos s' = infos s" "next_info s' = next_info s"
      "m_AllocationMap s' = filter (\<lambda>x. x \<notin> set [It]) (m_AllocationMap s)"
      "freed s' = freed s @ map (\<lambda>e. AllocBegin (infos s (snd e))) [It]"
      "\<And>c'. m_Quarantine (ContextInfo s' c') = m_Quarantine (ContextInfo s c')"
    using call None omap_erase_entry [OF _ It(1)] mi(1)
    by (auto simp: free_or_quarantine_def Let_def map_inv_def)
  have "quarantined s' = quarantined s" by (intro ext) (simp add: quarantined_def s'(5))
  with qi new have "quarantine_inv s'" by (auto simp: quarantine_inv_def s'(1,3))
  with life_inv_drop [OF mi _ _ s'(1-4)] It(1) show ?thesis by (simp add: life_inv_def)
next
  case (Some q)
  have mi: "map_inv s" "balanced blocks s" and qi: "quarantine_inv s" using inv by (simp_all add: life_inv_def)
  let ?d = "ADevice (infos s (snd It))"
  obtain out' q' where p: "put (infos s) ?d It q = (out', q')" by (meson surj_pair)
  then obtain rest where rest: "m_List (q_Map q ?d) = out' @ rest" "m_List (q_Map q' ?d) = rest @ [It]"
      "\<And>d'. d' \<noteq> ?d \<Longrightarrow> q_Map q' d' = q_Map q d'"
    using put_split [OF p] by blast
  define s1 where "s1 = s\<lparr>ContextInfo := (ContextInfo s)(c := (ContextInfo s c)\<lparr>m_Quarantine := Some q'\<rparr>)\<rparr>"
  have qd: "quarantined s c ?d = out' @ rest" using Some rest(1) by (simp add: quarantined_def)
  have es: "distinct out'" "set out' \<subseteq> set (m_AllocationMap s1)"
    using quarantine_invD(1,2) [OF qi, where c = c and d = ?d] unfolding qd s1_def by auto
  obtain s2 where s2: "free_evicted opts api c out' s1 = (UR_RESULT_SUCCESS, s2)" "infos s2 = infos s1" "next_info s2 = next_info s1"
     "m_AllocationMap s2 = filter (\<lambda>x. x \<notin> set out') (m_AllocationMap s1)"
     "freed s2 = freed s1 @ map (\<lambda>e. AllocBegin (infos s1 (snd e))) out'"
     "\<And>c'. m_Quarantine (ContextInfo s2 c') = m_Quarantine (ContextInfo s1 c')"
    using free_evicted_frees [OF api _ es, of opts c] mi(1) by (auto simp: map_inv_def s1_def)
  have s': "s' = update_stats c (UpdateUSMFreed (AllocSize (infos s (snd It)))) s2"
    using call Some p s2(1) by (simp add: free_or_quarantine_def Let_def s1_def)
  have mi1: "map_inv s1" "balanced blocks s1" using mi by (simp_all add: map_inv_def balanced_def s1_def)
  from life_inv_drop [OF mi1 es, of s'] s2 have A: "map_inv s' \<and> balanced blocks s'" by (simp add: s')
  have q': "quarantined s' c' d' = (if c' = c \<and> d' = ?d then rest @ [It] else quarantined s c' d')" for c' d'
    using Some rest(2,3) s2(6) by (simp add: quarantined_def s' s1_def)
  have out_home: "AContext (infos s (snd e)) = c \<and> ADevice (infos s (snd e)) = ?d" if "e \<in> set out'" for e
    using quarantine_invD(4) [OF qi, of e c ?d] that qd by simp
  have dist: "distinct (out' @ rest)" using quarantine_invD(1) [OF qi, of c ?d] qd by simp
  have "quarantine_inv s'"
    unfolding quarantine_inv_def
  proof (intro allI conjI ballI)
    fix c' d'
    show "distinct (quarantined s' c' d')"
      using dist new [of c ?d] quarantine_invD(1) [OF qi] by (auto simp: q' qd)
    fix e assume e: "e \<in> set (quarantined s' c' d')"
    have infos': "infos s' = infos s" and m': "m_AllocationMap s' = filter (\<lambda>x. x \<notin> set out') (m_AllocationMap s)"
      by (simp_all add: s' s2 s1_def)
    consider "e = It" "c' = c" "d' = ?d" | "e \<in> set rest" "c' = c" "d' = ?d"
      | "e \<in> set (quarantined s c' d')" "\<not> (c' = c \<and> d' = ?d)"
      using e by (auto simp: q' split: if_splits)
    then have "e \<in> set (m_AllocationMap s) \<and> IsReleased (infos s (snd e)) \<and> AContext (infos s (snd e)) = c' \<and>
        ADevice (infos s (snd e)) = d' \<and> e \<notin> set out'"
    proof cases
      case 1
      with It new [of c ?d] qd show ?thesis by auto
    next
      case 2
      with quarantine_invD(2-4) [OF qi, of e c ?d] qd dist show ?thesis by auto
    next
      case 3
      with quarantine_invD(2-4) [OF qi 3(1)] out_home [of e] show ?thesis by auto
    qed
    then show "e \<in> set (m_AllocationMap s')" "IsReleased (infos s' (snd e))" "AContext (infos s' (snd e)) = c'"
      "ADevice (infos s' (snd e)) = d'"
      by (simp_all add: infos' m')
  qed
  with A show ?thesis by (simp add: life_inv_def)
qed

lemma life_inv_frame:
  assumes "life_inv blocks s" and "m_AllocationMap s' = m_AllocationMap s" and "next_info s' = next_info s"
    and "freed s' = freed s" and "\<And>c. m_Quarantine (ContextInfo s' c) = m_Quarantine (ContextInfo s c)"
    and "\<And>i. AllocBegin (infos s' i) = AllocBegin (infos s i) \<and> AContext (infos s' i) = AContext (infos s i) \<and>
        ADevice (infos s' i) = ADevice (infos s i) \<and> (IsReleased (infos s i) \<longrightarrow> IsReleased (infos s' i))"
  shows "life_inv blocks s'"
proof -
  have "quarantined s' = quarantined s" by (intro ext) (simp add: quarantined_def assms(5))
  with assms show ?thesis by (auto simp: life_inv_def map_inv_def quarantine_inv_def balanced_def)
qed

lemma findAllocInfoByAddress_entry:
  "findAllocInfoByAddress a s = Some e \<Longrightarrow> e \<in> set (m_AllocationMap s)"
proof -
  assume "findAllocInfoByAddress a s = Some e"
  then have "entry_at a (m_AllocationMap s) = Some e"
    by (auto simp: findAllocInfoByAddress_def Let_def split: option.splits if_splits)
  then have "e = last (filter (\<lambda>e. fst e \<le> a) (m_AllocationMap s))" "filter (\<lambda>e. fst e \<le> a) (m_AllocationMap s) \<noteq> []"
    by (auto simp: entry_at_def split: list.splits)
  then show ?thesis using last_in_set [of "filter (\<lambda>e. fst e \<le> a) (m_AllocationMap s)"] by simp
qed

lemma releaseMemory_inv:
  assumes api: "frees_ok api" and inv: "life_inv blocks s" and call: "releaseMemory opts api c a s = (out, s')"
  shows "life_inv blocks s'"
proof (cases "findAllocInfoByAddress a s")
  case None
  with call show ?thesis
    by (auto simp: releaseMemory_def report_error_def intro!: life_inv_frame [OF inv])
next
  case (Some e)
  obtain k i where e: "e = (k, i)" by (cases e)
  have em: "(k, i) \<in> set (m_AllocationMap s)" using findAllocInfoByAddress_entry [OF Some] e by simp
  define s1 where "s1 = mark_released i s"
  show ?thesis
  proof (cases "AContext (infos s i) = c \<and> a = UserBegin (infos s i) \<and> \<not> IsReleased (infos s i)")
    case False
    with call Some e show ?thesis
      by (auto simp: releaseMemory_def report_error_def Let_def intro!: life_inv_frame [OF inv] split: if_splits)
  next
    case True
    have new: "(k, i) \<notin> set (quarantined s c' d')" for c' d'
      using True inv quarantine_invD(3) [of s "(k, i)" c' d'] by (auto simp: life_inv_def)
    have inv1: "life_inv blocks s1" by (rule life_inv_frame [OF inv]) (simp_all add: s1_def mark_released_def)
    have go: "life_inv blocks s'" if "free_or_quarantine opts api c (k, i) s2 = (out, s')"
        "infos s2 = infos s1" "m_AllocationMap s2 = m_AllocationMap s1" "next_info s2 = next_info s1"
        "freed s2 = freed s1" "ContextInfo s2 = ContextInfo s1" for s2
    proof (rule free_or_quarantine_inv [OF api _ _ _ _ _ that(1)])
      show "life_inv blocks s2" by (rule life_inv_frame [OF inv1]) (simp_all add: that)
      show "(k, i) \<notin> set (quarantined s2 c' d')" for c' d'
        using new [of c' d'] that(6) by (simp add: quarantined_def s1_def mark_released_def)
    qed (use em True that in \<open>simp_all add: s1_def mark_released_def\<close>)
    show ?thesis
      using call Some e True inv1 go [of "insert_all_devices c i s1"] go [of "insertAllocInfo i d s1" for d]
      by (auto simp: releaseMemory_def Let_def simp flip: s1_def split: if_splits option.splits)
  qed
qed


lemma mset_omap_insert: "map_of m k = None \<Longrightarrow> mset (omap_insert k v m) = add_mset (k, v) (mset m)"
  by (induction m) (auto split: if_splits)

lemma set_omap_insert: "map_of m k = None \<Longrightarrow> set (omap_insert k v m) = insert (k, v) (set m)"
  by (induction m) (auto split: if_splits)

lemma allocateMemory_inv:
  assumes inv: "life_inv blocks s" and ok: "allocator_ok api ex s"
    and call: "allocateMemory opts api ex c d P n T s = (Inr u, s')"
  shows "life_inv (blocks @ [AllocBegin (infos s' (next_info s))]) s'"
proof -
  obtain p ai where p: "map_of (m_AllocationMap s) p = None" "m_AllocationMap s' = omap_insert p (next_info s) (m_AllocationMap s)"
      "next_info s' = Suc (next_info s)" "infos s' = (infos s)(next_info s := ai)" "AllocBegin ai = p" "freed s' = freed s"
      "\<And>c. m_Quarantine (ContextInfo s' c) = m_Quarantine (ContextInfo s c)"
    using allocateMemory_records [OF call ok] by (force simp: fresh_block_def)
  have old: "infos s' (snd e) = infos s (snd e)" if "e \<in> set (m_AllocationMap s)" for e
    using inv that by (auto simp: life_inv_def map_inv_def p(4))
  have "map_inv s'"
    using inv p(5) old omap_wf_insert [of "m_AllocationMap s" p "next_info s"]
    by (auto simp: life_inv_def map_inv_def p(2,3) set_omap_insert [OF p(1)]) (auto simp: p(4))
  moreover have "balanced (blocks @ [AllocBegin (infos s' (next_info s))]) s'"
    using inv by (simp add: life_inv_def balanced_def p(2,4-6) mset_omap_insert [OF p(1)])
  moreover have "quarantined s' = quarantined s" by (intro ext) (simp add: quarantined_def p(7))
  then have "quarantine_inv s'"
    using inv old by (auto simp: life_inv_def quarantine_inv_def p(2) set_omap_insert [OF p(1)])
  ultimately show ?thesis by (simp add: life_inv_def)
qed

text \<open>
  Histories of allocations and releases. The releases take any context and any pointer, so they
  include double and wild frees. The first argument lists the blocks the allocator has handed out.
\<close>

inductive life :: "asan_options \<Rightarrow> free_services \<Rightarrow> u64 list \<Rightarrow> interceptor \<Rightarrow> bool" for opts fapi where
  start: "m_AllocationMap s = [] \<Longrightarrow> freed s = [] \<Longrightarrow> (\<And>c d. quarantined s c d = []) \<Longrightarrow> life opts fapi [] s"
| allocate: "life opts fapi blocks s \<Longrightarrow> allocator_ok (api :: usm_services) ex s \<Longrightarrow>
    allocateMemory opts api ex c d P n T s = (Inr u, s') \<Longrightarrow>
    life opts fapi (blocks @ [AllocBegin (infos s' (next_info s))]) s'"
| allocate_fails: "life opts fapi blocks s \<Longrightarrow> allocateMemory opts (api :: usm_services) ex c d P n T s = (Inl r, s') \<Longrightarrow>
    life opts fapi blocks s'"
| release: "life opts fapi blocks s \<Longrightarrow> releaseMemory opts fapi c a s = (out, s') \<Longrightarrow> life opts fapi blocks s'"

lemma life_life_inv: "life opts fapi blocks s \<Longrightarrow> frees_ok fapi \<Longrightarrow> life_inv blocks s"
proof (induction rule: life.induct)
  case (start s)
  then show ?case by (simp add: life_inv_def map_inv_def omap_wf_Nil quarantine_inv_def balanced_def)
next
  case (allocate blocks s api ex c d P n T u s')
  then show ?case by (blast intro: allocateMemory_inv)
next
  case (allocate_fails blocks s api ex c d P n T r s')
  then show ?case by (auto simp: allocateMemory_def Let_def split: if_splits sum.splits)
next
  case (release blocks s c a out s')
  then show ?case by (blast intro: releaseMemory_inv)
qed

text \<open>
  C2: In every history, whatever pointers the program releases, the blocks the allocator handed out
  are exactly the blocks given back and the blocks still recorded, each as often as it was handed
  out: no block is freed twice and none is lost; and the quarantine only holds recorded blocks that
  were released.
\<close>

theorem blocks_freed_once:
  assumes "frees_ok fapi" and "life opts fapi blocks s"
  shows "mset blocks = mset (freed s) + mset (map fst (m_AllocationMap s)) \<and>
     (\<forall>c d. distinct (quarantined s c d) \<and>
        (\<forall>e \<in> set (quarantined s c d). e \<in> set (m_AllocationMap s) \<and> IsReleased (infos s (snd e))))"
  using life_life_inv [OF assms(2,1)] by (auto simp: life_inv_def balanced_def quarantine_inv_def)

definition sample_free :: free_services where
  "sample_free = \<lparr>pfnFree = (\<lambda>_. UR_RESULT_SUCCESS), pfnFreeExportableMemoryExp = (\<lambda>_. UR_RESULT_SUCCESS)\<rparr>"


definition sample_usm :: usm_services where
  "sample_usm = \<lparr>pfnDeviceAlloc = (\<lambda>n. if n \<le> 0x1000 then Inr 0xFF00000000001000 else Inl UR_RESULT_ERROR_OUT_OF_DEVICE_MEMORY),
     pfnHostAlloc = (\<lambda>_. Inl UR_RESULT_ERROR_OUT_OF_HOST_MEMORY),
     pfnSharedAlloc = (\<lambda>_. Inl UR_RESULT_ERROR_OUT_OF_DEVICE_MEMORY), pfnUSMFree = (\<lambda>_. UR_RESULT_SUCCESS)\<rparr>"

theorem blocks_freed_once_witness:
  "\<exists>u s s' out. life sample_opts sample_free [0xFF00000000001000] s \<and>
     releaseMemory sample_opts sample_free 0 u s = (out, s') \<and>
     mset [0xFF00000000001000] = mset (freed s') + mset (map fst (m_AllocationMap s'))"
proof -
  let ?ex = "\<lambda>_ _. Inl UR_RESULT_ERROR_UNKNOWN" and ?P = "\<lparr>USMDesc_align = None, PAlignment = 16\<rparr>"
  have rz: "redzone_size sample_opts 100 = 64"
    by (simp add: redzone_size_def sample_opts_def ComputeRZLog_def RZSize2Log_def log2_floor.simps RZLog2Size_def
        word_le_nat_alt max_def)
  have A: "effective_alignment (requested_alignment ?P) (map_option (\<lambda>d. DAlignment (DeviceInfo sample_state d)) (Some 0)) = 16"
    by (simp add: effective_alignment_def requested_alignment_def granularity_eq)
  have b: "allocate_block sample_usm ?ex (Some 0) 16 DEVICE_USM (needed_size sample_opts 100 16) = Inr 0xFF00000000001000"
    by (simp add: needed_size_def rz RoundUpTo_def granularity_eq allocate_block_def sample_usm_def word_le_nat_alt)
  have ok: "allocator_ok sample_usm ?ex sample_state"
    by (auto simp: allocator_ok_def fresh_block_def sample_usm_def sample_state_def word_le_nat_alt split: if_splits)
  obtain u s where call: "allocateMemory sample_opts sample_usm ?ex 0 (Some 0) ?P 100 DEVICE_USM sample_state = (Inr u, s)"
      and rec: "s = record_block 0 (Some 0) 100 DEVICE_USM (needed_size sample_opts 100 16) 0xFF00000000001000 u sample_state"
    unfolding allocateMemory_def A Let_def b by (simp add: requested_alignment_def)
  have st: "life sample_opts sample_free [] sample_state"
    by (rule life.start) (simp_all add: sample_state_def quarantined_def)
  have "AllocBegin (infos s (next_info sample_state)) = 0xFF00000000001000"
    using record_block_frame(3) [OF _ rec] by (simp add: sample_state_def)
  with life.allocate [OF st ok call] have l: "life sample_opts sample_free [0xFF00000000001000] s" by simp
  obtain out s' where r: "releaseMemory sample_opts sample_free 0 u s = (out, s')" by (meson surj_pair)
  have "frees_ok sample_free" by (simp add: frees_ok_def sample_free_def)
  from blocks_freed_once [OF this life.release [OF l r]] l r show ?thesis by blast
qed

end
