(* ===== verification/UR_Pool_Config.thy ===== *)
theory UR_Pool_Config
  imports UR_Prelude
begin

text \<open>
  The configuration of the disjoint memory pools (common/umf_pools/disjoint_pool_config_parser.cpp
  and .hpp): the defaults and the parser of the environment variable. An access outside a string
  and a call that throws are values of \<open>pool_error\<close>. The printing of the settings under \<open>trace\<close> is not
  modelled; the shared limits object is its limit.
\<close>

section \<open>Data\<close>

datatype pool_error = Undefined_access | Throws cpp_exn

datatype mem_type = Host | Device | Shared | SharedReadOnly

record pool_config =
  SlabMinSize :: u64
  MaxPoolableSize :: u64
  Capacity :: u64
  MinBucketSize :: u64
  PoolTrace :: int
  PoolName :: string

record all_configs =
  EnableBuffers :: u64
  limits :: u64
  Configs :: "mem_type \<Rightarrow> pool_config"

abbreviation KB :: u64 where "KB \<equiv> 1024"
abbreviation MB :: u64 where "MB \<equiv> 1024 * 1024"
abbreviation GB :: u64 where "GB \<equiv> 1024 * 1024 * 1024"

definition DisjointPoolAllConfigs :: "int \<Rightarrow> all_configs" where
  "DisjointPoolAllConfigs trace =
     \<lparr>EnableBuffers = 1, limits = 0, Configs = (\<lambda>t. case t of
        Host \<Rightarrow> \<lparr>SlabMinSize = 64 * KB, MaxPoolableSize = 2 * MB, Capacity = 4, MinBucketSize = 256,
                  PoolTrace = trace, PoolName = ''Host''\<rparr>
      | Device \<Rightarrow> \<lparr>SlabMinSize = 64 * KB, MaxPoolableSize = 4 * MB, Capacity = 4, MinBucketSize = 512,
                  PoolTrace = trace, PoolName = ''Device''\<rparr>
      | Shared \<Rightarrow> \<lparr>SlabMinSize = 2 * MB, MaxPoolableSize = 0, Capacity = 0, MinBucketSize = 512,
                  PoolTrace = trace, PoolName = ''Shared''\<rparr>
      | SharedReadOnly \<Rightarrow> \<lparr>SlabMinSize = 2 * MB, MaxPoolableSize = 4 * MB, Capacity = 4, MinBucketSize = 512,
                  PoolTrace = trace, PoolName = ''SharedReadOnly''\<rparr>)\<rparr>"

section \<open>Values\<close>

text \<open>One test for a unit letter before position \<open>Length\<close>; position 0 has no letter before it.\<close>

definition strip_unit :: "char \<Rightarrow> u64 \<Rightarrow> string \<Rightarrow> nat \<times> u64 \<Rightarrow> pool_error + nat \<times> u64" where
  "strip_unit c mult Param = (\<lambda>(Length, Multiplier).
     if Length = 0 then Inl Undefined_access
     else if tolower (Param ! (Length - 1)) = c then Inr (Length - 1, mult)
     else Inr (Length, Multiplier))"

definition sum_bind :: "'e + 'a \<Rightarrow> ('a \<Rightarrow> 'e + 'b) \<Rightarrow> 'e + 'b" where
  "sum_bind x f = (case x of Inl e \<Rightarrow> Inl e | Inr a \<Rightarrow> f a)"

definition GetValue :: "string \<Rightarrow> nat \<Rightarrow> u64 \<Rightarrow> pool_error + u64" where
  "GetValue Param Length Setting =
     sum_bind (strip_unit (CHR ''k'') KB Param (Length, 1)) (\<lambda>p1.
     sum_bind (strip_unit (CHR ''m'') MB Param p1) (\<lambda>p2.
     sum_bind (strip_unit (CHR ''g'') GB Param p2) (\<lambda>(n, Multiplier).
       let TheNumber = substr 0 n Param
       in if list_all isdigit TheNumber
          then (case stoi TheNumber of
                  Inl e \<Rightarrow> Inl (Throws e)
                | Inr v \<Rightarrow> Inr (of_int v * Multiplier))
          else Inr Setting)))"

text \<open>The result is the rest of the parameters, the setting, and the flags \<open>ParamWasSet\<close> and \<open>More\<close>.\<close>

definition ParamParser :: "string \<Rightarrow> u64 \<Rightarrow> bool \<Rightarrow> pool_error + string \<times> u64 \<times> bool \<times> bool" where
  "ParamParser Params Setting ParamWasSet =
     (if Params = [] then Inr (Params, Setting, False, False)
      else case find_char (CHR '','') Params of
             Some Pos \<Rightarrow>
               if Pos > 0
               then sum_bind (GetValue Params Pos Setting) (\<lambda>v. Inr (drop (Pos + 1) Params, v, True, True))
               else Inr (drop (Pos + 1) Params, Setting, ParamWasSet, True)
           | None \<Rightarrow> sum_bind (GetValue Params (length Params) Setting) (\<lambda>v. Inr (Params, v, True, False)))"

section \<open>Limits\<close>

text \<open>
  One setting of \<open>MemParser\<close>: it is read into the entry of \<open>LM\<close> and, without a memory type, copied
  from there to every entry. \<open>None\<close> is the enumerator \<open>All\<close>. The code does not initialise the flag
  \<open>ParamWasSet\<close>, and the first call does not assign it when the parameters begin with a comma: the
  argument \<open>junk\<close> is the value the flag happens to have.
\<close>

definition parse_setting ::
  "(pool_config \<Rightarrow> u64) \<Rightarrow> ((u64 \<Rightarrow> u64) \<Rightarrow> pool_config \<Rightarrow> pool_config) \<Rightarrow> mem_type option
     \<Rightarrow> string \<times> bool \<times> (mem_type \<Rightarrow> pool_config)
     \<Rightarrow> pool_error + (string \<times> bool \<times> (mem_type \<Rightarrow> pool_config)) \<times> bool" where
  "parse_setting get upd memType = (\<lambda>(Params, was, cfgs).
     (let LM = (case memType of None \<Rightarrow> Host | Some t \<Rightarrow> t)
      in sum_bind (ParamParser Params (get (cfgs LM)) was) (\<lambda>(Params', v, was', More).
           let cfgs1 = cfgs(LM := upd (\<lambda>_. v) (cfgs LM));
               cfgs2 = (if was' \<and> memType = None then (\<lambda>t. upd (\<lambda>_. v) (cfgs1 t)) else cfgs1)
           in Inr ((Params', was', cfgs2), More))))"

definition MemParser :: "bool \<Rightarrow> string \<Rightarrow> mem_type option \<Rightarrow> (mem_type \<Rightarrow> pool_config) \<Rightarrow> pool_error + (mem_type \<Rightarrow> pool_config)" where
  "MemParser junk Params memType cfgs =
     sum_bind (parse_setting MaxPoolableSize MaxPoolableSize_update memType (Params, junk, cfgs)) (\<lambda>(st1, More1).
     sum_bind (if More1 then parse_setting Capacity Capacity_update memType st1 else Inr (st1, False)) (\<lambda>(st2, More2).
     sum_bind (if More2 then parse_setting SlabMinSize SlabMinSize_update memType st2 else Inr (st2, False)) (\<lambda>(st3, _).
       Inr (snd (snd st3)))))"

definition memtype_prefixes :: "(string \<times> mem_type) list" where
  "memtype_prefixes = [(''host:'', Host), (''device:'', Device), (''shared:'', Shared),
     (''read_only_shared:'', SharedReadOnly)]"

definition MemTypeParser :: "bool \<Rightarrow> string \<Rightarrow> (mem_type \<Rightarrow> pool_config) \<Rightarrow> pool_error + (mem_type \<Rightarrow> pool_config)" where
  "MemTypeParser junk Params cfgs =
     (case find (\<lambda>(p, _). is_prefix p Params) memtype_prefixes of
        Some (p, t) \<Rightarrow> MemParser junk (drop (length p) Params) (Some t) cfgs
      | None \<Rightarrow> MemParser junk Params None cfgs)"

section \<open>The parser\<close>

text \<open>The pieces between semicolons; unlike \<open>getline_tokens\<close> a trailing semicolon opens an empty one.\<close>

function split_params :: "string \<Rightarrow> string list" where
  "split_params s =
     (case find_char (CHR '';'') s of
        None \<Rightarrow> [s]
      | Some p \<Rightarrow> take p s # split_params (drop (Suc p) s))"
  by pat_completeness auto
termination
  by (relation "measure length") (auto dest: find_char_less)

declare split_params.simps [simp del]

record parse_state =
  ps_EnableBuffers :: u64
  ps_MaxSize :: u64
  EnableBuffersSet :: bool
  MaxSizeSet :: bool
  ps_Configs :: "mem_type \<Rightarrow> pool_config"

definition optional_value :: "string \<Rightarrow> u64 \<Rightarrow> pool_error + u64" where
  "optional_value Param Setting = (if Param \<noteq> [] then GetValue Param (length Param) Setting else Inr Setting)"

definition parse_param :: "bool \<Rightarrow> string \<Rightarrow> parse_state \<Rightarrow> pool_error + parse_state" where
  "parse_param junk Param st =
     (let number = (Param = [] \<or> isdigit (hd Param))
      in if \<not> EnableBuffersSet st \<and> number
         then sum_bind (optional_value Param (ps_EnableBuffers st)) (\<lambda>v.
                Inr (st\<lparr>ps_EnableBuffers := v, EnableBuffersSet := True\<rparr>))
         else if \<not> MaxSizeSet st \<and> number
         then sum_bind (optional_value Param (ps_MaxSize st)) (\<lambda>v.
                Inr (st\<lparr>ps_MaxSize := v, MaxSizeSet := True\<rparr>))
         else sum_bind (MemTypeParser junk Param (ps_Configs st)) (\<lambda>c. Inr (st\<lparr>ps_Configs := c\<rparr>)))"

fun parse_params :: "bool \<Rightarrow> string list \<Rightarrow> parse_state \<Rightarrow> pool_error + parse_state" where
  "parse_params junk [] st = Inr st"
| "parse_params junk (p # ps) st = sum_bind (parse_param junk p st) (parse_params junk ps)"

definition parse_start :: parse_state where
  "parse_start = \<lparr>ps_EnableBuffers = 1, ps_MaxSize = - 1, EnableBuffersSet = False, MaxSizeSet = False,
     ps_Configs = Configs (DisjointPoolAllConfigs 0)\<rparr>"

definition parseDisjointPoolConfig :: "bool \<Rightarrow> string \<Rightarrow> int \<Rightarrow> pool_error + all_configs" where
  "parseDisjointPoolConfig junk config trace =
     sum_bind (parse_params junk (split_params config) parse_start) (\<lambda>st.
       Inr \<lparr>EnableBuffers = ps_EnableBuffers st, limits = ps_MaxSize st,
            Configs = (\<lambda>t. (ps_Configs st t)\<lparr>PoolTrace := trace\<rparr>)\<rparr>)"

definition parseDisjointPoolConfigOptional :: "bool \<Rightarrow> string \<Rightarrow> int \<Rightarrow> pool_error + all_configs option" where
  "parseDisjointPoolConfigOptional junk config trace =
     sum_bind (parseDisjointPoolConfig junk config trace) (\<lambda>c.
       Inr (if EnableBuffers c = 0 then None else Some c))"

section \<open>Spelling a configuration\<close>

text \<open>Decimal numbers with a unit, and the configurations of the grammar in the header.\<close>

fun dec :: "nat \<Rightarrow> string" where
  "dec n = (if n < 10 then [char_of (48 + n)] else dec (n div 10) @ [char_of (48 + n mod 10)])"

declare dec.simps [simp del]

datatype size_unit = Bytes | Kilo | Mega | Giga

definition unit_suffix :: "size_unit \<Rightarrow> string" where
  "unit_suffix u = (case u of Bytes \<Rightarrow> [] | Kilo \<Rightarrow> ''K'' | Mega \<Rightarrow> ''M'' | Giga \<Rightarrow> ''G'')"

definition unit_factor :: "size_unit \<Rightarrow> u64" where
  "unit_factor u = (case u of Bytes \<Rightarrow> 1 | Kilo \<Rightarrow> KB | Mega \<Rightarrow> MB | Giga \<Rightarrow> GB)"

type_synonym amount = "nat \<times> size_unit"

definition print_amount :: "amount \<Rightarrow> string" where
  "print_amount = (\<lambda>(n, u). dec n @ unit_suffix u)"

definition amount_value :: "amount \<Rightarrow> u64" where
  "amount_value = (\<lambda>(n, u). of_nat n * unit_factor u)"

definition fits_int :: "amount \<Rightarrow> bool" where
  "fits_int a \<longleftrightarrow> fst a < 2 ^ 31"

type_synonym limit_spec = "mem_type option \<times> amount \<times> amount \<times> amount"

definition type_prefix :: "mem_type option \<Rightarrow> string" where
  "type_prefix t = (case t of None \<Rightarrow> [] | Some Host \<Rightarrow> ''host:'' | Some Device \<Rightarrow> ''device:''
     | Some Shared \<Rightarrow> ''shared:'' | Some SharedReadOnly \<Rightarrow> ''read_only_shared:'')"

definition print_limits :: "limit_spec \<Rightarrow> string" where
  "print_limits = (\<lambda>(t, a, b, c).
     type_prefix t @ print_amount a @ CHR '','' # print_amount b @ CHR '','' # print_amount c)"

definition set_limits :: "amount \<times> amount \<times> amount \<Rightarrow> pool_config \<Rightarrow> pool_config" where
  "set_limits = (\<lambda>(a, b, c) cfg.
     cfg\<lparr>MaxPoolableSize := amount_value a, Capacity := amount_value b, SlabMinSize := amount_value c\<rparr>)"

definition apply_limits :: "limit_spec \<Rightarrow> (mem_type \<Rightarrow> pool_config) \<Rightarrow> mem_type \<Rightarrow> pool_config" where
  "apply_limits = (\<lambda>(t, l) cfgs.
     (case t of None \<Rightarrow> set_limits l \<circ> cfgs | Some t \<Rightarrow> cfgs(t := set_limits l (cfgs t))))"

section \<open>Reading back\<close>

lemma isdigit_digit: "(d :: nat) < 10 \<Longrightarrow> isdigit (char_of (48 + d))"
  by (simp add: isdigit_def)

lemma dec_isdigit: "c \<in> set (dec n) \<Longrightarrow> isdigit c"
  by (induction n rule: dec.induct) (subst (asm) (2) dec.simps, auto simp: isdigit_digit split: if_splits)

lemma dec_neq_Nil [simp]: "dec n \<noteq> []"
  by (simp add: dec.simps)

lemma nat_of_digits_snoc: "nat_of_digits (ds @ [c]) = 10 * nat_of_digits ds + digit_value c"
  by (simp add: nat_of_digits_def)

lemma nat_of_digits_dec: "nat_of_digits (dec n) = n"
proof (induction n rule: dec.induct)
  case (1 n)
  show ?case
  proof (cases "n < 10")
    case True
    then show ?thesis by (simp add: dec.simps nat_of_digits_def digit_value_def)
  next
    case False
    with 1 have "nat_of_digits (dec (n div 10) @ [char_of (48 + n mod 10)]) = 10 * (n div 10) + n mod 10"
      by (simp add: nat_of_digits_snoc digit_value_def)
    with False show ?thesis by (simp add: dec.simps [of n])
  qed
qed

lemma digit_not_special:
  "isdigit c \<Longrightarrow> \<not> isspace c \<and> c \<noteq> CHR ''-'' \<and> c \<noteq> CHR ''+'' \<and> c \<noteq> CHR '','' \<and> c \<noteq> CHR '';'' \<and> tolower c = c"
  by (auto simp: isdigit_def isspace_def tolower_def)

lemma stoi_dec:
  assumes "n < 2 ^ 31"
  shows "stoi (dec n) = Inr (int n)"
proof -
  obtain c cs where d: "dec n = c # cs" by (cases "dec n") auto
  have "isdigit c" using dec_isdigit [of c n] d by simp
  note c = digit_not_special [OF this]
  have "takeWhile isdigit (dec n) = dec n" using dec_isdigit by (simp add: takeWhile_eq_all_conv)
  then have "read_integer (dec n) = Some (False, n)"
    using c nat_of_digits_dec [of n] by (simp add: read_integer_def Let_def d)
  then show ?thesis using assms by (simp add: stoi_def)
qed

lemma tolower_units: "tolower CHR ''K'' = CHR ''k''" "tolower CHR ''M'' = CHR ''m''" "tolower CHR ''G'' = CHR ''g''"
  by code_simp+

lemma GetValue_print:
  assumes "fits_int a"
  shows "GetValue (print_amount a @ rest) (length (print_amount a)) v = Inr (amount_value a)"
proof -
  obtain n u where a: "a = (n, u)" by (cases a)
  define d where "d = dec n"
  have ne: "d \<noteq> []" by (simp add: d_def)
  have dig: "list_all isdigit d" using dec_isdigit by (simp add: d_def list_all_iff)
  have st: "stoi d = Inr (int n)" using assms a by (simp add: d_def stoi_dec fits_int_def)
  have lst: "(d @ x) ! (length d - 1) = last d" for x using ne by (simp add: last_conv_nth nth_append)
  have "isdigit (last d)" using dig ne by (simp add: list_all_iff)
  then have l: "tolower (last d) \<noteq> CHR ''k''" "tolower (last d) \<noteq> CHR ''m''" "tolower (last d) \<noteq> CHR ''g''"
    using digit_not_special [of "last d"] by (auto simp: isdigit_def)
  show ?thesis
    using ne dig st lst l
    by (cases u) (simp_all add: a print_amount_def amount_value_def unit_suffix_def unit_factor_def GetValue_def
        strip_unit_def sum_bind_def substr_def tolower_units nth_append flip: d_def)
qed

lemma print_amount_chars:
  "c \<in> set (print_amount a) \<Longrightarrow> c \<noteq> CHR '','' \<and> c \<noteq> CHR '';'' \<and> c \<noteq> CHR '':''"
proof -
  obtain n u where a: "a = (n, u)" by (cases a)
  assume "c \<in> set (print_amount a)"
  then have "c \<in> set (dec n) \<or> c \<in> set (unit_suffix u)" by (auto simp: a print_amount_def)
  then show ?thesis
  proof
    assume "c \<in> set (dec n)"
    then have "isdigit c" by (rule dec_isdigit)
    then show ?thesis by (auto simp: isdigit_def)
  next
    assume "c \<in> set (unit_suffix u)"
    then show ?thesis by (cases u) (auto simp: unit_suffix_def)
  qed
qed

lemma print_amount_hd: "print_amount a \<noteq> [] \<and> isdigit (hd (print_amount a))"
proof -
  obtain n u where a: "a = (n, u)" by (cases a)
  then show ?thesis using dec_isdigit [of "hd (dec n)" n] by (simp add: print_amount_def)
qed

lemma ParamParser_more:
  assumes "fits_int a"
  shows "ParamParser (print_amount a @ CHR '','' # rest) v was = Inr (rest, amount_value a, True, True)"
proof -
  have "CHR '','' \<notin> set (print_amount a)" using print_amount_chars by blast
  then have "find_char (CHR '','') (print_amount a @ CHR '','' # rest) = Some (length (print_amount a))"
    by (rule find_char_append)
  then show ?thesis using print_amount_hd [of a] GetValue_print [OF assms]
    by (simp add: ParamParser_def sum_bind_def)
qed

lemma ParamParser_last:
  assumes "fits_int a"
  shows "ParamParser (print_amount a) v was = Inr (print_amount a, amount_value a, True, False)"
proof -
  have "CHR '','' \<notin> set (print_amount a)" using print_amount_chars by blast
  then show ?thesis using print_amount_hd [of a] GetValue_print [OF assms, of "[]"]
    by (simp add: ParamParser_def sum_bind_def find_char_None [THEN iffD2])
qed

lemma MemParser_limits:
  assumes "fits_int a" and "fits_int b" and "fits_int c"
  shows "MemParser junk (print_amount a @ CHR '','' # print_amount b @ CHR '','' # print_amount c) t cfgs =
           Inr (apply_limits (t, a, b, c) cfgs)"
  using assms
  by (cases t) (simp_all add: MemParser_def parse_setting_def sum_bind_def ParamParser_more ParamParser_last
      apply_limits_def set_limits_def fun_eq_iff)

lemma is_prefix_hd: "is_prefix (x # p) s \<Longrightarrow> s \<noteq> [] \<and> hd s = x"
  by (cases s) (auto simp: is_prefix_def)

lemma MemTypeParser_limits:
  assumes "fits_int a" and "fits_int b" and "fits_int c"
  shows "MemTypeParser junk (print_limits (t, a, b, c)) cfgs = Inr (apply_limits (t, a, b, c) cfgs)"
proof (cases t)
  case None
  let ?s = "print_amount a @ CHR '','' # print_amount b @ CHR '','' # print_amount c"
  have "isdigit (hd ?s)" using print_amount_hd [of a] by simp
  then have "\<not> is_prefix (x # p) ?s" if "\<not> isdigit x" for x p using is_prefix_hd [of x p ?s] that by auto
  then have "find (\<lambda>(p, _). is_prefix p ?s) memtype_prefixes = None"
    by (simp add: memtype_prefixes_def isdigit_def)
  then show ?thesis using MemParser_limits [OF assms, of junk None cfgs]
    by (simp add: MemTypeParser_def print_limits_def None type_prefix_def)
next
  case (Some m)
  then show ?thesis using MemParser_limits [OF assms, of junk "Some m" cfgs]
    by (cases m) (simp_all add: MemTypeParser_def print_limits_def type_prefix_def memtype_prefixes_def is_prefix_def)
qed

lemma split_params_join:
  assumes "xs \<noteq> []" and "\<And>x. x \<in> set xs \<Longrightarrow> CHR '';'' \<notin> set x"
  shows "split_params (join_with (CHR '';'') xs) = xs"
  using assms
proof (induction "CHR '';''" xs rule: join_with.induct)
  case 1
  then show ?case by simp
next
  case (2 x)
  then show ?case by (simp add: split_params.simps [of x] find_char_None [THEN iffD2])
next
  case (3 x y ys)
  have "find_char (CHR '';'') (x @ CHR '';'' # join_with CHR '';'' (y # ys)) = Some (length x)"
    using 3 by (intro find_char_append) simp
  with 3 show ?case by (simp add: split_params.simps [of "x @ _"])
qed

text \<open>A configuration of the grammar: the two numbers and the limits, in order.\<close>

definition print_config :: "amount \<Rightarrow> amount \<Rightarrow> limit_spec list \<Rightarrow> string" where
  "print_config buffers poolsize ls = join_with (CHR '';'') (print_amount buffers # print_amount poolsize # map print_limits ls)"

definition limits_fit :: "limit_spec \<Rightarrow> bool" where
  "limits_fit = (\<lambda>(t, a, b, c). fits_int a \<and> fits_int b \<and> fits_int c)"

lemma parse_limits_list:
  assumes "EnableBuffersSet st" and "MaxSizeSet st" and "list_all limits_fit ls"
  shows "parse_params junk (map print_limits ls) st = Inr (st\<lparr>ps_Configs := fold apply_limits ls (ps_Configs st)\<rparr>)"
  using assms
proof (induction ls arbitrary: st)
  case Nil
  then show ?case by simp
next
  case (Cons l ls)
  obtain t a b c where l: "l = (t, a, b, c)" by (cases l)
  have "parse_param junk (print_limits l) st = Inr (st\<lparr>ps_Configs := apply_limits l (ps_Configs st)\<rparr>)"
    using Cons.prems MemTypeParser_limits [of a b c junk t "ps_Configs st"]
    by (simp add: parse_param_def sum_bind_def l limits_fit_def)
  then show ?case using Cons by (simp add: sum_bind_def)
qed

text \<open>
  C12: Parsing the spelling of a configuration gives it back: the number of buffers and the pool size
  in their units, and the limits applied from left to right over the defaults, so that the
  right-most of several limits for a memory type takes effect and limits without a type apply to all.
\<close>

theorem pool_config_roundtrip:
  assumes "fits_int buffers" and "fits_int poolsize" and "list_all limits_fit ls"
  shows "parseDisjointPoolConfig junk (print_config buffers poolsize ls) trace =
     Inr \<lparr>EnableBuffers = amount_value buffers, limits = amount_value poolsize,
          Configs = (\<lambda>t. (fold apply_limits ls (Configs (DisjointPoolAllConfigs 0)) t)\<lparr>PoolTrace := trace\<rparr>)\<rparr>"
proof -
  let ?xs = "print_amount buffers # print_amount poolsize # map print_limits ls"
  have tp: "CHR '';'' \<notin> set (type_prefix t)" for t
    by (auto simp: type_prefix_def split: option.splits mem_type.splits)
  have pa: "CHR '';'' \<notin> set (print_amount a)" for a using print_amount_chars by blast
  have "CHR '';'' \<notin> set x" if "x \<in> set ?xs" for x
    using that by (auto simp: print_limits_def tp pa)
  then have split: "split_params (print_config buffers poolsize ls) = ?xs"
    unfolding print_config_def by (intro split_params_join) simp_all
  have val: "optional_value (print_amount a) v = Inr (amount_value a)" if "fits_int a" for a v
    using GetValue_print [OF that, of "[]"] print_amount_hd [of a] by (simp add: optional_value_def)
  show ?thesis
    using assms print_amount_hd [of buffers] print_amount_hd [of poolsize]
    by (simp add: parseDisjointPoolConfig_def split parse_param_def parse_start_def sum_bind_def val parse_limits_list)
qed

theorem pool_config_roundtrip_witness:
  "parseDisjointPoolConfig False ''1;32M;host:1M,4,64K;shared:0,0,2M'' 1 =
     Inr \<lparr>EnableBuffers = 1, limits = 32 * MB,
          Configs = (\<lambda>t. (fold apply_limits [(Some Host, (1, Mega), (4, Bytes), (64, Kilo)), (Some Shared, (0, Bytes), (0, Bytes), (2, Mega))]
            (Configs (DisjointPoolAllConfigs 0)) t)\<lparr>PoolTrace := 1\<rparr>)\<rparr>"
proof -
  let ?ls = "[(Some Host, (1, Mega), (4, Bytes), (64, Kilo)), (Some Shared, (0, Bytes), (0, Bytes), (2, Mega))]"
  have "print_config (1, Bytes) (32, Mega) ?ls = ''1;32M;host:1M,4,64K;shared:0,0,2M''"
    by code_simp
  with pool_config_roundtrip [of "(1, Bytes)" "(32, Mega)" ?ls False 1] show ?thesis
    by (simp add: fits_int_def limits_fit_def amount_value_def unit_factor_def)
qed

section \<open>Malformed limits\<close>

text \<open>
  A limit that is not a number still counts as set. Without a memory type the host's current value
  is then copied to every memory type.
\<close>

lemma bad_limit_copies_host:
  assumes "w \<noteq> []" and "CHR '','' \<notin> set w" and "\<not> list_all isdigit w"
    and "tolower (last w) \<notin> {CHR ''k'', CHR ''m'', CHR ''g''}"
  shows "MemParser junk w None cfgs = Inr (\<lambda>t. (cfgs t)\<lparr>MaxPoolableSize := MaxPoolableSize (cfgs Host)\<rparr>)"
proof -
  have "w ! (length w - 1) = last w" using assms(1) by (simp add: last_conv_nth)
  with assms have "GetValue w (length w) v = Inr v" for v
    by (simp add: GetValue_def strip_unit_def sum_bind_def substr_def)
  with assms(1,2) have "ParamParser w v was = Inr (w, v, True, False)" for v was
    by (simp add: ParamParser_def sum_bind_def find_char_None [THEN iffD2])
  then show ?thesis by (simp add: MemParser_def parse_setting_def sum_bind_def fun_eq_iff)
qed

text \<open>
  Limits that begin with a comma and name no memory type depend on the value of a variable that is
  not initialised: the device's largest poolable size is 4 MB or the host's 2 MB.
\<close>

lemma leading_comma_depends_on_junk:
  assumes "MemParser junk '',8'' None (Configs (DisjointPoolAllConfigs 0)) = Inr cfgs"
  shows "MaxPoolableSize (cfgs Device) = (if junk then 2 * MB else 4 * MB)"
proof -
  have g: "GetValue ''8'' (Suc 0) 4 = Inr 8" by code_simp
  have p: "ParamParser '',8'' v was = Inr (''8'', v, was, True)" "ParamParser ''8'' 4 was = Inr (''8'', 8, True, False)" for v was
    by (simp_all add: ParamParser_def sum_bind_def g)
  show ?thesis using assms
    by (cases junk) (auto simp: MemParser_def parse_setting_def sum_bind_def DisjointPoolAllConfigs_def p)
qed

text \<open>A unit letter without a number makes the parser read before the string.\<close>

lemma lone_unit_undefined: "MemParser junk ''k'' (Some t) cfgs = Inl Undefined_access"
  by (simp add: MemParser_def parse_setting_def ParamParser_def sum_bind_def GetValue_def strip_unit_def tolower_def)

end
