(* ===== verification/L0_Lending.thy ===== *)
theory L0_Lending
  imports UR_Prelude "HOL-Library.Multiset"
begin

text \<open>
  The contract of a cache that lends resources, as the event providers, the event pools and the
  command list cache of the second Level Zero adapter all do it: a request takes a free resource or
  makes a new one, the holder gives it back later. Resources are numbered in the order they are
  made. The locale states what a cache has to guarantee for one request and one return; the lemmas
  show, for every sequence of them, that no resource is ever held twice.
\<close>

section \<open>Sequences of requests and returns\<close>

datatype 'k lend_op = Take 'k | Give nat

text \<open>
  The holders are a list of the keys and resources that are out. A failed request has no holder;
  \<open>Give j\<close> returns the resource of the holder at position \<open>j\<close>, if there is one.
\<close>

fun lend_step ::
  "('k \<Rightarrow> 's \<Rightarrow> nat option \<times> 's) \<Rightarrow> ('k \<Rightarrow> nat \<Rightarrow> 's \<Rightarrow> 's) \<Rightarrow> 'k lend_op \<Rightarrow> 's \<times> ('k \<times> nat) list \<Rightarrow> 's \<times> ('k \<times> nat) list" where
  "lend_step get put (Take k) (s, held) =
     (case get k s of (None, s') \<Rightarrow> (s', held) | (Some r, s') \<Rightarrow> (s', (k, r) # held))"
| "lend_step get put (Give j) (s, held) =
     (if j < length held then (put (fst (held ! j)) (snd (held ! j)) s, take j held @ drop (Suc j) held) else (s, held))"

definition lend_run ::
  "('k \<Rightarrow> 's \<Rightarrow> nat option \<times> 's) \<Rightarrow> ('k \<Rightarrow> nat \<Rightarrow> 's \<Rightarrow> 's) \<Rightarrow> 'k lend_op list \<Rightarrow> 's \<Rightarrow> 's \<times> ('k \<times> nat) list" where
  "lend_run get put ops s = fold (lend_step get put) ops (s, [])"

text \<open>
  Resources come from the free ones or are new: what \<open>C\<close> holds after the call was in \<open>A\<close> before it or
  has a number the call has added.
\<close>

definition draws :: "nat multiset \<Rightarrow> nat \<Rightarrow> nat multiset \<Rightarrow> nat \<Rightarrow> bool" where
  "draws A m C n \<longleftrightarrow> m \<le> n \<and> C \<subseteq># A + mset_set {m..<n}"

lemma made_more: "l \<le> m \<Longrightarrow> m \<le> n \<Longrightarrow> mset_set {l..<n} = mset_set {l..<m} + mset_set {m..<n :: nat}"
  by (subst mset_set_Union [symmetric]) (auto simp: ivl_disj_un)

lemma draws_refl [simp]: "draws A m A m"
  by (simp add: draws_def)

lemma draws_new [simp]: "draws A n (add_mset n A) (Suc n)"
  by (simp add: draws_def)

lemma draws_less: "C \<subseteq># A \<Longrightarrow> draws A n C n"
  by (simp add: draws_def)

lemma draws_mono: "draws A m C n \<Longrightarrow> draws (A + B) m (C + B) n"
  unfolding draws_def using subset_mset.add_right_mono [of C "A + mset_set {m..<n}" B] by (simp add: ac_simps)

lemma draws_trans:
  assumes "draws A l B m" "draws B m C n"
  shows "draws A l C n"
proof -
  have le: "l \<le> m" "m \<le> n" using assms by (simp_all add: draws_def)
  have "C \<subseteq># B + mset_set {m..<n}" using assms(2) by (simp add: draws_def)
  also have "\<dots> \<subseteq># (A + mset_set {l..<m}) + mset_set {m..<n}"
    using assms(1) by (simp add: draws_def)
  finally show ?thesis using le by (simp add: draws_def made_more [OF le] add.assoc)
qed

text \<open>Everything drawn from nothing is there once and has a number.\<close>

lemma draws_once:
  assumes "draws {#} 0 C n"
  shows "count C x \<le> 1" and "x \<in># C \<Longrightarrow> x < n"
proof -
  have sub: "C \<subseteq># mset_set {0..<n}" using assms by (simp add: draws_def)
  have "count (mset_set {0..<n}) x \<le> 1" by (cases "x < n") simp_all
  then show "count C x \<le> 1" using mset_subset_eq_count [OF sub, of x] by linarith
  show "x < n" if "x \<in># C" using mset_subset_eqD [OF sub that] by simp
qed

lemma draws_distinct:
  assumes "draws {#} 0 (A + mset xs) n" shows "distinct xs" and "set xs \<inter> set_mset A = {}"
proof -
  have once: "count A x + count (mset xs) x \<le> 1" for x using draws_once(1) [OF assms, of x] by simp
  then have "count (mset xs) x \<le> 1" for x using le_trans add_leD2 by blast
  then show "distinct xs"
    unfolding distinct_count_atmost_1
    by (metis count_eq_zero_iff le_antisym less_one not_less set_mset_mset)
  show "set xs \<inter> set_mset A = {}"
  proof (rule ccontr)
    assume "set xs \<inter> set_mset A \<noteq> {}"
    then obtain x where "x \<in># mset xs" "x \<in># A" by auto
    then have "1 \<le> count (mset xs) x" "1 \<le> count A x" by (simp_all add: Suc_le_eq)
    then show False using once [of x] by linarith
  qed
qed

section \<open>The contract\<close>

locale lender =
  fixes get :: "'k \<Rightarrow> 's \<Rightarrow> nat option \<times> 's"
    and put :: "'k \<Rightarrow> nat \<Rightarrow> 's \<Rightarrow> 's"
    and avail :: "'s \<Rightarrow> nat multiset"
    and fresh :: "'s \<Rightarrow> nat"
    and home :: "'s \<Rightarrow> 'k \<Rightarrow> nat \<Rightarrow> bool"
    and wf :: "'s \<Rightarrow> bool"
  assumes get_some: "wf s \<Longrightarrow> get k s = (Some r, s') \<Longrightarrow>
      draws (avail s) (fresh s) (add_mset r (avail s')) (fresh s') \<and> wf s' \<and> home s' k r"
    and get_none: "wf s \<Longrightarrow> get k s = (None, s') \<Longrightarrow>
      draws (avail s) (fresh s) (avail s') (fresh s') \<and> wf s'"
    and put_back: "wf s \<Longrightarrow> home s k r \<Longrightarrow>
      fresh (put k r s) = fresh s \<and> avail (put k r s) = add_mset r (avail s) \<and> wf (put k r s)"
    and home_get: "wf s \<Longrightarrow> home s k r \<Longrightarrow> home (snd (get k' s)) k r"
    and home_put: "wf s \<Longrightarrow> home s k r \<Longrightarrow> home s k' r' \<Longrightarrow> home (put k' r' s) k r"
begin

definition lend_inv :: "'s \<times> ('k \<times> nat) list \<Rightarrow> bool" where
  "lend_inv = (\<lambda>(s, held). wf s \<and> draws {#} 0 (avail s + mset (map snd held)) (fresh s) \<and>
     (\<forall>(k, r) \<in> set held. home s k r))"

lemma lend_step_inv: "lend_inv (s, held) \<Longrightarrow> lend_inv (lend_step get put op (s, held))"
proof (cases op)
  case (Take k)
  assume inv: "lend_inv (s, held)"
  then have wf: "wf s" and sub: "draws {#} 0 (avail s + mset (map snd held)) (fresh s)"
    and homes: "\<forall>(k, r) \<in> set held. home s k r"
    by (simp_all add: lend_inv_def)
  obtain res s' where g: "get k s = (res, s')" by (cases "get k s")
  have keep: "\<forall>(k, r) \<in> set held. home s' k r"
    using homes home_get [OF wf, of _ _ k] by (auto simp: g)
  have grow: "draws {#} 0 (A + mset (map snd held)) (fresh s')" if "draws (avail s) (fresh s) A (fresh s')" for A
    using draws_trans [OF sub draws_mono [OF that]] .
  show ?thesis
  proof (cases res)
    case None
    with get_none [OF wf, of k s'] g keep grow [of "avail s'"] Take show ?thesis by (simp add: lend_inv_def)
  next
    case (Some r)
    with get_some [OF wf, of k r s'] g keep grow [of "add_mset r (avail s')"] Take show ?thesis
      by (simp add: lend_inv_def)
  qed
next
  case (Give j)
  assume inv: "lend_inv (s, held)"
  then have wf: "wf s" and sub: "draws {#} 0 (avail s + mset (map snd held)) (fresh s)"
    and homes: "\<forall>(k, r) \<in> set held. home s k r"
    by (simp_all add: lend_inv_def)
  show ?thesis
  proof (cases "j < length held")
    case False
    with inv Give show ?thesis by simp
  next
    case True
    obtain k r where e: "held ! j = (k, r)" by (cases "held ! j")
    have split: "held = take j held @ (k, r) # drop (Suc j) held" using id_take_nth_drop [OF True] e by simp
    have h: "home s k r" using homes nth_mem [OF True] e by auto
    have "mset (map snd held) = add_mset r (mset (map snd (take j held @ drop (Suc j) held)))"
      by (subst split) simp
    moreover have "\<forall>(k', r') \<in> set (take j held @ drop (Suc j) held). home (put k r s) k' r'"
    proof -
      have "set (take j held @ drop (Suc j) held) \<subseteq> set held"
        using set_take_subset [of j held] set_drop_subset [of "Suc j" held] by auto
      then show ?thesis using homes home_put [OF wf _ h] by blast
    qed
    ultimately show ?thesis
      using put_back [OF wf h] sub True Give e by (simp add: lend_inv_def)
  qed
qed

lemma lend_run_inv:
  assumes "wf s" and "draws {#} 0 (avail s) (fresh s)"
  shows "lend_inv (lend_run get put ops s)"
proof -
  have "lend_inv (fold (lend_step get put) ops st)" if "lend_inv st" for st
    using that
  proof (induction ops arbitrary: st)
    case (Cons op ops)
    obtain s held where "st = (s, held)" by (cases st)
    with Cons lend_step_inv [of s held op] show ?case by simp
  qed simp
  then show ?thesis using assms by (simp add: lend_run_def lend_inv_def)
qed

text \<open>No resource is with two holders, none that is out is also free, and each is where it belongs.\<close>

lemma lend_exclusive:
  assumes "wf s" and "draws {#} 0 (avail s) (fresh s)" and "lend_run get put ops s = (s', held)"
  shows "distinct (map snd held) \<and> set (map snd held) \<inter> set_mset (avail s') = {} \<and> (\<forall>(k, r) \<in> set held. r < fresh s' \<and> home s' k r)"
proof -
  have inv: "draws {#} 0 (avail s' + mset (map snd held)) (fresh s')" "\<forall>(k, r) \<in> set held. home s' k r"
    using lend_run_inv [OF assms(1,2), of ops] assms(3) by (simp_all add: lend_inv_def)
  have "r < fresh s'" if "(k, r) \<in> set held" for k r
    using draws_once(2) [OF inv(1), of r] that by force
  then show ?thesis using inv(2) draws_distinct [OF inv(1)] by auto
qed

end

end
