(* ===== verification/L0_Command_Lists.thy ===== *)
theory L0_Command_Lists
  imports L0_Lending
begin

text \<open>
  The cache of command lists of the second Level Zero adapter
  (adapters/level_zero/v2/command_list_cache.cpp and .hpp). The map is a list of entries found by
  hash and comparison, as \<open>std::unordered_map\<close> does it; the stack of an entry is a list with its top
  first. \<open>std::hash\<close> of a field is the parameter \<open>h\<close>; the driver's calls are parameters. The command
  lists the driver has made are numbered, with the descriptor each was made for.
\<close>

unbundle bit_operations_syntax

section \<open>Descriptors\<close>

record immediate_desc =
  i_ZeDevice :: nat
  i_IsInOrder :: bool
  i_Ordinal :: nat
  i_CopyOffloadEnabled :: bool
  i_Mode :: nat
  i_Priority :: nat
  i_Index :: "nat option"

record regular_desc =
  r_ZeDevice :: nat
  r_IsInOrder :: bool
  r_Ordinal :: nat
  r_CopyOffloadEnabled :: bool
  r_Mutable :: bool

datatype command_list_descriptor = Immediate immediate_desc | Regular regular_desc

fun desc_eq :: "command_list_descriptor \<Rightarrow> command_list_descriptor \<Rightarrow> bool" where
  "desc_eq (Immediate a) (Immediate b) \<longleftrightarrow>
     i_ZeDevice a = i_ZeDevice b \<and> i_IsInOrder a = i_IsInOrder b \<and> i_Mode a = i_Mode b \<and>
     i_Priority a = i_Priority b \<and> i_Index a = i_Index b"
| "desc_eq (Regular a) (Regular b) \<longleftrightarrow>
     r_ZeDevice a = r_ZeDevice b \<and> r_Ordinal a = r_Ordinal b \<and> r_IsInOrder a = r_IsInOrder b \<and>
     r_Mutable a = r_Mutable b"
| "desc_eq _ _ \<longleftrightarrow> False"

text \<open>
  \<open>std::hash\<close> of the fields, with the value of an empty \<open>std::optional\<close>; that of a filled one is the
  hash of its content.
\<close>

type_synonym std_hash = "nat option \<Rightarrow> u64"

text \<open>\<open>combine_hashes\<close> joins the hashes of its arguments by exclusive or.\<close>

definition combine_hashes :: "std_hash \<Rightarrow> u64 \<Rightarrow> nat option list \<Rightarrow> u64" where
  "combine_hashes h seed vs = foldl (\<lambda>a v. a XOR h v) seed vs"

fun desc_hash :: "std_hash \<Rightarrow> command_list_descriptor \<Rightarrow> u64" where
  "desc_hash h (Immediate d) =
     combine_hashes h 0 [Some (i_ZeDevice d), Some (i_Ordinal d), Some (of_bool (i_IsInOrder d)), Some (i_Mode d),
       Some (i_Priority d), i_Index d]"
| "desc_hash h (Regular d) =
     combine_hashes h 0 [Some (r_ZeDevice d), Some (of_bool (r_IsInOrder d)), Some (r_Ordinal d), Some (of_bool (r_Mutable d))]"

definition same_key :: "std_hash \<Rightarrow> command_list_descriptor \<Rightarrow> command_list_descriptor \<Rightarrow> bool" where
  "same_key h a b \<longleftrightarrow> desc_hash h a = desc_hash h b \<and> desc_eq a b"

section \<open>Creation\<close>

record extensions =
  ZeCopyOffloadExtensionSupported :: bool
  ZeMutableCmdListExtentionSupported :: bool
  ZeCopyOffloadQueueFlagSupported :: bool
  ZeCopyOffloadListFlagSupported :: bool
  ForceDisableCopyOffload :: bool

text \<open>
  What the driver is asked for: the fields of its descriptor. \<open>ze_offload_flag\<close> is the hint among the
  flags, \<open>ze_offload_ext\<close> the chained extension structure with its value.
\<close>

record ze_list_desc =
  ze_immediate :: bool
  ze_device :: nat
  ze_ordinal :: nat
  ze_in_order :: bool
  ze_mode :: nat
  ze_priority :: nat
  ze_index :: "nat option"
  ze_offload_flag :: bool
  ze_offload_ext :: "bool option"
  ze_mutable :: bool

definition requested_offload :: "extensions \<Rightarrow> command_list_descriptor \<Rightarrow> bool" where
  "requested_offload ext desc =
     (let r0 = (case desc of Immediate d \<Rightarrow> i_CopyOffloadEnabled d | Regular d \<Rightarrow> r_CopyOffloadEnabled d);
          r1 = (if ForceDisableCopyOffload ext \<and> r0 then False else r0)
      in if \<not> ZeCopyOffloadExtensionSupported ext \<and> r1 then False else r1)"

definition list_desc :: "extensions \<Rightarrow> command_list_descriptor \<Rightarrow> ur_result + ze_list_desc" where
  "list_desc ext desc =
     (let off = requested_offload ext desc
      in case desc of
           Immediate d \<Rightarrow>
             (let flag = (off \<and> ZeCopyOffloadQueueFlagSupported ext)
              in Inr \<lparr>ze_immediate = True, ze_device = i_ZeDevice d, ze_ordinal = i_Ordinal d, ze_in_order = i_IsInOrder d,
                      ze_mode = i_Mode d, ze_priority = i_Priority d, ze_index = i_Index d, ze_offload_flag = flag,
                      ze_offload_ext = (if flag then None else Some off), ze_mutable = False\<rparr>)
         | Regular d \<Rightarrow>
             if \<not> ZeMutableCmdListExtentionSupported ext \<and> r_Mutable d then Inl UR_RESULT_ERROR_UNSUPPORTED_FEATURE
             else (let flag = (off \<and> ZeCopyOffloadListFlagSupported ext)
                   in Inr \<lparr>ze_immediate = False, ze_device = r_ZeDevice d, ze_ordinal = r_Ordinal d, ze_in_order = r_IsInOrder d,
                           ze_mode = 0, ze_priority = 0, ze_index = None, ze_offload_flag = flag,
                           ze_offload_ext = (if flag then None else Some off), ze_mutable = r_Mutable d\<rparr>))"

section \<open>The cache\<close>

text \<open>
  A call of the driver may fail at one time and succeed at another: its result depends on the number
  of the driver calls made so far, which \<open>driver_calls\<close> counts.
\<close>

record cl_cache =
  ZeCommandListCache :: "(command_list_descriptor \<times> nat list) list"
  made_lists :: "(command_list_descriptor \<times> ze_list_desc) list"
  driver_calls :: nat

record ze_driver =
  zeCommandListCreate :: "nat \<Rightarrow> ze_list_desc \<Rightarrow> ur_result"
  zeCommandListReset :: "nat \<Rightarrow> nat \<Rightarrow> ur_result"

definition createCommandList ::
  "extensions \<Rightarrow> ze_driver \<Rightarrow> command_list_descriptor \<Rightarrow> cl_cache \<Rightarrow> (ur_result + nat) \<times> cl_cache" where
  "createCommandList ext drv desc s =
     (case list_desc ext desc of
        Inl r \<Rightarrow> (Inl r, s)
      | Inr z \<Rightarrow>
          let res = zeCommandListCreate drv (driver_calls s) z; s' = s\<lparr>driver_calls := Suc (driver_calls s)\<rparr>
          in if res \<noteq> UR_RESULT_SUCCESS then (Inl res, s')
             else (Inr (length (made_lists s')), s'\<lparr>made_lists := made_lists s' @ [(desc, z)]\<rparr>))"

text \<open>Popping the entry that is found; an entry whose stack becomes empty is erased.\<close>

fun pop_entry ::
  "std_hash \<Rightarrow> command_list_descriptor \<Rightarrow> (command_list_descriptor \<times> nat list) list
     \<Rightarrow> (nat \<times> (command_list_descriptor \<times> nat list) list) option" where
  "pop_entry h desc [] = None"
| "pop_entry h desc ((d, rs) # m) =
     (if same_key h desc d
      then (case rs of [] \<Rightarrow> None | r # rs' \<Rightarrow> Some (r, if rs' = [] then m else (d, rs') # m))
      else map_option (\<lambda>(r, m'). (r, (d, rs) # m')) (pop_entry h desc m))"

fun push_entry ::
  "std_hash \<Rightarrow> command_list_descriptor \<Rightarrow> nat \<Rightarrow> (command_list_descriptor \<times> nat list) list
     \<Rightarrow> (command_list_descriptor \<times> nat list) list" where
  "push_entry h desc r [] = [(desc, [r])]"
| "push_entry h desc r ((d, rs) # m) =
     (if same_key h desc d then (d, r # rs) # m else (d, rs) # push_entry h desc r m)"

definition getCommandList ::
  "std_hash \<Rightarrow> extensions \<Rightarrow> ze_driver \<Rightarrow> command_list_descriptor \<Rightarrow> cl_cache \<Rightarrow> (ur_result + nat) \<times> cl_cache" where
  "getCommandList h ext drv desc s =
     (case pop_entry h desc (ZeCommandListCache s) of
        None \<Rightarrow> createCommandList ext drv desc s
      | Some (r, m) \<Rightarrow>
          let s' = s\<lparr>ZeCommandListCache := m\<rparr>
          in (case desc of
                Regular _ \<Rightarrow>
                  let res = zeCommandListReset drv (driver_calls s') r;
                      s2 = s'\<lparr>driver_calls := Suc (driver_calls s')\<rparr>
                  in if res \<noteq> UR_RESULT_SUCCESS then (Inl res, s2) else (Inr r, s2)
              | Immediate _ \<Rightarrow> (Inr r, s')))"

definition addCommandList :: "std_hash \<Rightarrow> command_list_descriptor \<Rightarrow> nat \<Rightarrow> cl_cache \<Rightarrow> cl_cache" where
  "addCommandList h desc r s = s\<lparr>ZeCommandListCache := push_entry h desc r (ZeCommandListCache s)\<rparr>"

text \<open>
  The two entry points build the descriptor; the holder's deleter calls \<open>addCommandList\<close> with the
  same descriptor.
\<close>

record list_request =
  q_IsInOrder :: bool
  q_Ordinal :: nat
  q_CopyOffloadEnable :: bool
  q_Mutable :: bool

definition immediate_desc_of :: "nat \<Rightarrow> list_request \<Rightarrow> nat \<Rightarrow> nat \<Rightarrow> nat option \<Rightarrow> command_list_descriptor" where
  "immediate_desc_of ZeDevice q Mode Priority Index = Immediate
     \<lparr>i_ZeDevice = ZeDevice, i_IsInOrder = q_IsInOrder q, i_Ordinal = q_Ordinal q,
      i_CopyOffloadEnabled = q_CopyOffloadEnable q, i_Mode = Mode, i_Priority = Priority, i_Index = Index\<rparr>"

definition getImmediateCommandList ::
  "std_hash \<Rightarrow> extensions \<Rightarrow> ze_driver \<Rightarrow> nat \<Rightarrow> list_request \<Rightarrow> nat \<Rightarrow> nat \<Rightarrow> nat option \<Rightarrow> cl_cache
     \<Rightarrow> (ur_result + nat) \<times> cl_cache" where
  "getImmediateCommandList h ext drv ZeDevice q Mode Priority Index =
     getCommandList h ext drv (immediate_desc_of ZeDevice q Mode Priority Index)"

definition regular_desc_of :: "nat \<Rightarrow> list_request \<Rightarrow> command_list_descriptor" where
  "regular_desc_of ZeDevice q = Regular
     \<lparr>r_ZeDevice = ZeDevice, r_IsInOrder = q_IsInOrder q, r_Ordinal = q_Ordinal q,
      r_CopyOffloadEnabled = q_CopyOffloadEnable q, r_Mutable = q_Mutable q\<rparr>"

definition getRegularCommandList ::
  "std_hash \<Rightarrow> extensions \<Rightarrow> ze_driver \<Rightarrow> nat \<Rightarrow> list_request \<Rightarrow> cl_cache \<Rightarrow> (ur_result + nat) \<times> cl_cache" where
  "getRegularCommandList h ext drv ZeDevice q = getCommandList h ext drv (regular_desc_of ZeDevice q)"

definition is_immediate :: "command_list_descriptor \<Rightarrow> bool" where
  "is_immediate d = (case d of Immediate _ \<Rightarrow> True | Regular _ \<Rightarrow> False)"

definition getNumImmediateCommandLists :: "cl_cache \<Rightarrow> nat" where
  "getNumImmediateCommandLists s = (\<Sum>(d, rs)\<leftarrow>ZeCommandListCache s. if is_immediate d then length rs else 0)"

definition getNumRegularCommandLists :: "cl_cache \<Rightarrow> nat" where
  "getNumRegularCommandLists s = (\<Sum>(d, rs)\<leftarrow>ZeCommandListCache s. if \<not> is_immediate d then length rs else 0)"

section \<open>Lending\<close>

definition take_list ::
  "std_hash \<Rightarrow> extensions \<Rightarrow> ze_driver \<Rightarrow> command_list_descriptor \<Rightarrow> cl_cache \<Rightarrow> nat option \<times> cl_cache" where
  "take_list h ext drv d s = (case getCommandList h ext drv d s of (Inl _, s') \<Rightarrow> (None, s') | (Inr r, s') \<Rightarrow> (Some r, s'))"

definition cached :: "cl_cache \<Rightarrow> nat multiset" where
  "cached s = mset (concat (map snd (ZeCommandListCache s)))"

text \<open>A command list may be lent for a descriptor whose key is that of the one it was made for.\<close>

definition made_for :: "std_hash \<Rightarrow> extensions \<Rightarrow> cl_cache \<Rightarrow> command_list_descriptor \<Rightarrow> nat \<Rightarrow> bool" where
  "made_for h ext s d r \<longleftrightarrow> r < length (made_lists s) \<and> same_key h d (fst (made_lists s ! r)) \<and>
     list_desc ext (fst (made_lists s ! r)) = Inr (snd (made_lists s ! r))"

definition cache_wf :: "std_hash \<Rightarrow> extensions \<Rightarrow> cl_cache \<Rightarrow> bool" where
  "cache_wf h ext s \<longleftrightarrow> (\<forall>(d, rs) \<in> set (ZeCommandListCache s). rs \<noteq> [] \<and> (\<forall>r \<in> set rs. made_for h ext s d r))"

lemma desc_eq_sym: "desc_eq a b \<Longrightarrow> desc_eq b a"
  by (induction a b rule: desc_eq.induct) auto

lemma desc_eq_trans: "desc_eq a b \<Longrightarrow> desc_eq b c \<Longrightarrow> desc_eq a c"
  by (cases a; cases b; cases c) auto

lemma desc_eq_refl: "desc_eq a a"
  by (cases a) auto

lemma same_key_sym: "same_key h a b \<Longrightarrow> same_key h b a"
  by (auto simp: same_key_def intro: desc_eq_sym)

lemma same_key_trans: "same_key h a b \<Longrightarrow> same_key h b c \<Longrightarrow> same_key h a c"
  by (auto simp: same_key_def intro: desc_eq_trans)

lemma same_key_refl: "same_key h a a"
  by (simp add: same_key_def desc_eq_refl)

lemma pop_entry_mset:
  "pop_entry h d m = Some (r, m') \<Longrightarrow> mset (concat (map snd m)) = add_mset r (mset (concat (map snd m')))"
proof (induction m arbitrary: m')
  case (Cons e m)
  obtain d' rs where "e = (d', rs)" by (cases e)
  with Cons show ?case by (auto split: if_splits list.splits)
qed simp

lemma pop_entry_found:
  "pop_entry h d m = Some (r, m') \<Longrightarrow> \<exists>d' rs. (d', rs) \<in> set m \<and> r \<in> set rs \<and> same_key h d d'"
proof (induction m arbitrary: m')
  case (Cons e m)
  obtain d' rs where e: "e = (d', rs)" by (cases e)
  show ?case
  proof (cases "same_key h d d'")
    case True
    with Cons.prems e have "r \<in> set rs" by (cases rs) auto
    with True e show ?thesis by (intro exI [of _ d'] exI [of _ rs]) simp
  next
    case False
    with Cons.prems e obtain m2 where "pop_entry h d m = Some (r, m2)" by auto
    from Cons.IH [OF this] show ?thesis by auto
  qed
qed simp

lemma pop_entry_entries:
  "pop_entry h d m = Some (r, m') \<Longrightarrow> (d', rs') \<in> set m' \<Longrightarrow>
     (d', rs') \<in> set m \<or> rs' \<noteq> [] \<and> (\<exists>rs. (d', rs) \<in> set m \<and> set rs' \<subseteq> set rs)"
proof (induction m arbitrary: m')
  case (Cons e m)
  obtain d2 rs2 where e: "e = (d2, rs2)" by (cases e)
  show ?case
  proof (cases "same_key h d d2")
    case True
    with Cons.prems e show ?thesis by (cases rs2) (auto split: if_splits)
  next
    case False
    with Cons.prems e obtain m2 where m2: "pop_entry h d m = Some (r, m2)" "m' = (d2, rs2) # m2" by auto
    then show ?thesis using Cons.IH [OF m2(1)] Cons.prems(2) e by auto
  qed
qed simp

lemma push_entry_mset: "mset (concat (map snd (push_entry h d r m))) = add_mset r (mset (concat (map snd m)))"
  by (induction h d r m rule: push_entry.induct) auto

lemma push_entry_entries:
  "(d', rs') \<in> set (push_entry h d r m) \<Longrightarrow>
     rs' \<noteq> [] \<and> (\<exists>rs. set rs' \<subseteq> insert r (set rs) \<and> (r \<in> set rs' - set rs \<longrightarrow> same_key h d d') \<and> (rs = [] \<or> (d', rs) \<in> set m)) \<or>
     (d', rs') \<in> set m"
  by (induction h d r m rule: push_entry.induct) (auto simp: same_key_refl split: if_splits)


lemma made_for_cong: "made_lists s' = made_lists s \<Longrightarrow> made_for h ext s' = made_for h ext s"
  by (simp add: made_for_def fun_eq_iff)

lemma made_for_more: "made_lists s' = made_lists s @ xs \<Longrightarrow> made_for h ext s d r \<Longrightarrow> made_for h ext s' d r"
  by (auto simp: made_for_def nth_append)

lemma cache_wfD: "cache_wf h ext s \<Longrightarrow> (d, rs) \<in> set (ZeCommandListCache s) \<Longrightarrow> rs \<noteq> [] \<and> (\<forall>r \<in> set rs. made_for h ext s d r)"
  by (auto simp: cache_wf_def)

lemma made_for_key: "made_for h ext s d r \<Longrightarrow> same_key h d' d \<Longrightarrow> made_for h ext s d' r"
  by (auto simp: made_for_def intro: same_key_trans)

lemma popped:
  assumes pop: "pop_entry h d (ZeCommandListCache s) = Some (r, m)" and wf: "cache_wf h ext s"
  shows "cache_wf h ext (s\<lparr>ZeCommandListCache := m, driver_calls := n\<rparr>)" "made_for h ext s d r"
    "cached s = add_mset r (cached (s\<lparr>ZeCommandListCache := m, driver_calls := n\<rparr>))"
proof -
  show "cached s = add_mset r (cached (s\<lparr>ZeCommandListCache := m, driver_calls := n\<rparr>))"
    using pop_entry_mset [OF pop] by (simp add: cached_def)
  show "made_for h ext s d r"
    using pop_entry_found [OF pop] cache_wfD [OF wf] made_for_key by blast
  have "rs' \<noteq> [] \<and> (\<forall>x \<in> set rs'. made_for h ext s d' x)" if "(d', rs') \<in> set m" for d' rs'
    using pop_entry_entries [OF pop that] cache_wfD [OF wf] by blast
  then show "cache_wf h ext (s\<lparr>ZeCommandListCache := m, driver_calls := n\<rparr>)"
    by (auto simp: cache_wf_def made_for_def)
qed

lemma pushed:
  assumes wf: "cache_wf h ext s" and home: "made_for h ext s d r"
  shows "cache_wf h ext (addCommandList h d r s)"
proof -
  have "rs' \<noteq> [] \<and> (\<forall>x \<in> set rs'. made_for h ext s d' x)" if "(d', rs') \<in> set (push_entry h d r (ZeCommandListCache s))" for d' rs'
    using push_entry_entries [OF that] cache_wfD [OF wf] made_for_key [OF home] same_key_sym by fastforce
  then show ?thesis by (auto simp: cache_wf_def addCommandList_def made_for_def)
qed

lemma cache_wf_more:
  assumes "cache_wf h ext s" and "made_lists s' = made_lists s @ xs" and "ZeCommandListCache s' = ZeCommandListCache s"
  shows "cache_wf h ext s'"
  using made_for_more [OF assms(2), of h ext] assms(1,3) by (fastforce simp: cache_wf_def)

lemma created:
  assumes "createCommandList ext drv d s = (res, s')" "cache_wf h ext s"
  shows "cached s' = cached s \<and> cache_wf h ext s' \<and>
    (case res of Inl _ \<Rightarrow> made_lists s' = made_lists s
     | Inr r \<Rightarrow> r = length (made_lists s) \<and> (\<exists>z. made_lists s' = made_lists s @ [(d, z)]) \<and> made_for h ext s' d r)"
  using assms
  by (auto simp: createCommandList_def cached_def made_for_def nth_append same_key_refl Let_def
      split: sum.splits if_splits intro: cache_wf_more)

lemma take_list_cases:
  assumes "take_list h ext drv d s = (res, s')"
  obtains (popped) r m n where "pop_entry h d (ZeCommandListCache s) = Some (r, m)"
      "s' = s\<lparr>ZeCommandListCache := m, driver_calls := n\<rparr>" "res = Some r \<or> res = None"
  | (made) r where "createCommandList ext drv d s = (Inr r, s')" "res = Some r"
  | (failed) e where "createCommandList ext drv d s = (Inl e, s')" "res = None"
proof (cases "pop_entry h d (ZeCommandListCache s)")
  case None
  with assms show ?thesis using made failed by (auto simp: take_list_def getCommandList_def split: prod.splits sum.splits)
next
  case (Some e)
  obtain r m where e: "e = (r, m)" by (cases e)
  have "s\<lparr>ZeCommandListCache := m\<rparr> = s\<lparr>ZeCommandListCache := m, driver_calls := driver_calls s\<rparr>" by simp
  with assms Some e show ?thesis
    by (intro that(1) [of r m "driver_calls s'"])
      (auto simp: take_list_def getCommandList_def Let_def split: command_list_descriptor.splits if_splits)
qed

interpretation cl: lender "take_list h ext drv" "addCommandList h" cached "\<lambda>s. length (made_lists s)" "made_for h ext" "cache_wf h ext"
  for h ext drv
proof unfold_locales
  fix s d r s'
  assume wf: "cache_wf h ext s" and get: "take_list h ext drv d s = (Some r, s')"
  from get show "draws (cached s) (length (made_lists s)) (add_mset r (cached s')) (length (made_lists s')) \<and>
      cache_wf h ext s' \<and> made_for h ext s' d r"
  proof (cases rule: take_list_cases)
    case (popped r' m n)
    then show ?thesis using L0_Command_Lists.popped [OF popped(1) wf] by (auto simp: made_for_def)
  next
    case (made r')
    with created [OF made(1) wf] show ?thesis by auto
  qed simp
next
  fix s d s'
  assume wf: "cache_wf h ext s" and get: "take_list h ext drv d s = (None, s')"
  from get show "draws (cached s) (length (made_lists s)) (cached s') (length (made_lists s')) \<and> cache_wf h ext s'"
  proof (cases rule: take_list_cases)
    case (popped r' m n)
    then show ?thesis using L0_Command_Lists.popped(1,3) [OF popped(1) wf, of n] by (auto simp: draws_def)
  next
    case (failed e)
    with created [OF failed(1) wf] wf show ?thesis by auto
  qed simp
next
  fix s d r
  assume "cache_wf h ext s" "made_for h ext s d r"
  then show "length (made_lists (addCommandList h d r s)) = length (made_lists s) \<and>
      cached (addCommandList h d r s) = add_mset r (cached s) \<and> cache_wf h ext (addCommandList h d r s)"
    using pushed push_entry_mset by (auto simp: addCommandList_def cached_def)
next
  fix s d r d'
  assume wf: "cache_wf h ext s" and home: "made_for h ext s d r"
  show "made_for h ext (snd (take_list h ext drv d' s)) d r"
  proof -
    obtain res s' where get: "take_list h ext drv d' s = (res, s')" by (cases "take_list h ext drv d' s")
    from get show ?thesis
    proof (cases rule: take_list_cases)
      case (popped r' m n)
      with get home show ?thesis by (simp add: made_for_def)
    next
      case (made r')
      with created [OF made(1) wf] get made_for_more [OF _ home] show ?thesis by auto
    next
      case (failed e)
      with created [OF failed(1) wf] get home made_for_cong [of s' s] show ?thesis by auto
    qed
  qed
next
  fix s d r d' r'
  assume "made_for h ext s d r"
  then show "made_for h ext (addCommandList h d' r' s) d r" by (simp add: addCommandList_def made_for_def)
qed

section \<open>What the holder of a command list gets\<close>

text \<open>A command list made by the driver fits a request in everything but the copy-offload hint.\<close>

fun fits :: "command_list_descriptor \<Rightarrow> ze_list_desc \<Rightarrow> bool" where
  "fits (Immediate d) z \<longleftrightarrow> ze_immediate z \<and> ze_device z = i_ZeDevice d \<and> ze_in_order z = i_IsInOrder d \<and>
     ze_mode z = i_Mode d \<and> ze_priority z = i_Priority d \<and> ze_index z = i_Index d"
| "fits (Regular d) z \<longleftrightarrow> \<not> ze_immediate z \<and> ze_device z = r_ZeDevice d \<and> ze_in_order z = r_IsInOrder d \<and>
     ze_ordinal z = r_Ordinal d \<and> ze_mutable z = r_Mutable d"

lemma same_key_fits: "same_key h d d' \<Longrightarrow> list_desc ext d' = Inr z \<Longrightarrow> fits d z"
  by (cases d; cases d') (auto simp: same_key_def list_desc_def Let_def split: if_splits)

text \<open>
  The equality of immediate descriptors leaves out the ordinal; it is only in the hash. Where the hash
  of the ordinals tells them apart, as the identity does, equal keys have equal ordinals.
\<close>

lemma xor_cancel_right: "a XOR c = b XOR c \<longleftrightarrow> a = b" for a b c :: u64
proof
  assume "a XOR c = b XOR c"
  then have "(a XOR c) XOR c = (b XOR c) XOR c" by simp
  then show "a = b" by (simp add: xor.assoc)
qed simp

lemma xor_cancel_left: "c XOR a = c XOR b \<longleftrightarrow> a = b" for a b c :: u64
  using xor_cancel_right [of a c b] by (simp add: xor.commute)

lemmas xor_cancel = xor_cancel_right xor_cancel_left

lemma same_key_ordinal:
  assumes "same_key h (Immediate a) (Immediate b)" and "\<And>m n. P m \<Longrightarrow> P n \<Longrightarrow> h (Some m) = h (Some n) \<Longrightarrow> m = n"
    and "P (i_Ordinal a)" "P (i_Ordinal b)"
  shows "i_Ordinal a = i_Ordinal b"
proof -
  have "h (Some (i_Ordinal a)) = h (Some (i_Ordinal b))"
    using assms(1) by (auto simp: same_key_def combine_hashes_def xor_cancel)
  then show ?thesis using assms(2-4) by blast
qed

definition new_cache :: cl_cache where
  "new_cache = \<lparr>ZeCommandListCache = [], made_lists = [], driver_calls = 0\<rparr>"

text \<open>
  C8: whatever sequence of requests and returns the command list cache serves, and whichever calls of
  the driver fail, no command list is
  with two holders, none that is out is also in the cache, and every holder has a list that the driver
  was asked to make for the same device, order, mode, priority and index (immediate) or the same
  device, order, group and mutability (regular).
\<close>

theorem command_lists_exclusive:
  assumes "lend_run (take_list h ext drv) (addCommandList h) ops new_cache = (s, held)"
  shows "distinct (map snd held) \<and> set (map snd held) \<inter> set_mset (cached s) = {} \<and>
     (\<forall>(d, r) \<in> set held. r < length (made_lists s) \<and> same_key h d (fst (made_lists s ! r)) \<and> fits d (snd (made_lists s ! r)))"
proof -
  have "cache_wf h ext new_cache" "draws {#} 0 (cached new_cache) (length (made_lists new_cache))"
    by (simp_all add: new_cache_def cache_wf_def cached_def)
  from cl.lend_exclusive [OF this assms] show ?thesis
    unfolding made_for_def using same_key_fits by blast
qed

text \<open>
  An immediate list of device 1, returned and asked for again. The driver of the second run fails every
  other call: requests fail in between, and a regular list whose reset fails is neither lent nor kept.
\<close>

definition sample_immediate :: "bool \<Rightarrow> command_list_descriptor" where
  "sample_immediate off = immediate_desc_of 1 \<lparr>q_IsInOrder = True, q_Ordinal = 0, q_CopyOffloadEnable = off, q_Mutable = False\<rparr> 0 0 None"

definition sample_regular :: command_list_descriptor where
  "sample_regular = regular_desc_of 1 \<lparr>q_IsInOrder = True, q_Ordinal = 0, q_CopyOffloadEnable = False, q_Mutable = False\<rparr>"

definition sample_ext :: extensions where
  "sample_ext = \<lparr>ZeCopyOffloadExtensionSupported = True, ZeMutableCmdListExtentionSupported = True,
     ZeCopyOffloadQueueFlagSupported = True, ZeCopyOffloadListFlagSupported = True, ForceDisableCopyOffload = False\<rparr>"

definition sample_driver :: ze_driver where
  "sample_driver = \<lparr>zeCommandListCreate = (\<lambda>_ _. UR_RESULT_SUCCESS), zeCommandListReset = (\<lambda>_ _. UR_RESULT_SUCCESS)\<rparr>"

definition flaky_driver :: ze_driver where
  "flaky_driver = \<lparr>zeCommandListCreate = (\<lambda>n _. if even n then UR_RESULT_ERROR_UNKNOWN else UR_RESULT_SUCCESS),
     zeCommandListReset = (\<lambda>n _. if even n then UR_RESULT_ERROR_UNKNOWN else UR_RESULT_SUCCESS)\<rparr>"

definition sample_hash :: std_hash where
  "sample_hash v = (case v of None \<Rightarrow> - 3333 | Some n \<Rightarrow> word_of_nat n)"

lemmas sample_defs = sample_immediate_def sample_regular_def sample_ext_def sample_driver_def flaky_driver_def sample_hash_def
  immediate_desc_of_def regular_desc_of_def new_cache_def take_list_def getCommandList_def createCommandList_def
  addCommandList_def list_desc_def requested_offload_def same_key_def combine_hashes_def lend_run_def Let_def

lemma sample_run:
  "lend_run (take_list sample_hash sample_ext sample_driver) (addCommandList sample_hash)
     [Take (sample_immediate True), Give 0, Take (sample_immediate False)] new_cache =
   (\<lparr>ZeCommandListCache = [],
     made_lists = [(sample_immediate True, \<lparr>ze_immediate = True, ze_device = 1, ze_ordinal = 0, ze_in_order = True, ze_mode = 0,
       ze_priority = 0, ze_index = None, ze_offload_flag = True, ze_offload_ext = None, ze_mutable = False\<rparr>)],
     driver_calls = 1\<rparr>,
    [(sample_immediate False, 0)])"
  by (simp add: sample_defs)

lemma flaky_run:
  "\<exists>s. lend_run (take_list sample_hash sample_ext flaky_driver) (addCommandList sample_hash)
     [Take sample_regular, Take sample_regular, Give 0, Take sample_regular, Take sample_regular, Take (sample_immediate True),
      Take (sample_immediate True)] new_cache = (s, [(sample_immediate True, 2), (sample_regular, 1)])"
  by (simp add: sample_defs)

theorem command_lists_exclusive_witness:
  "\<exists>s. lend_run (take_list sample_hash sample_ext flaky_driver) (addCommandList sample_hash)
     [Take sample_regular, Take sample_regular, Give 0, Take sample_regular, Take sample_regular, Take (sample_immediate True),
      Take (sample_immediate True)] new_cache = (s, [(sample_immediate True, 2), (sample_regular, 1)]) \<and>
     {1, 2} \<inter> set_mset (cached s) = {} \<and> fits sample_regular (snd (made_lists s ! 1)) \<and>
     fits (sample_immediate True) (snd (made_lists s ! 2))"
proof -
  obtain s where run: "lend_run (take_list sample_hash sample_ext flaky_driver) (addCommandList sample_hash)
     [Take sample_regular, Take sample_regular, Give 0, Take sample_regular, Take sample_regular, Take (sample_immediate True),
      Take (sample_immediate True)] new_cache = (s, [(sample_immediate True, 2), (sample_regular, 1)])"
    using flaky_run by blast
  from command_lists_exclusive [OF this] show ?thesis
    by (intro exI [of _ s] conjI run) auto
qed

text \<open>
  The descriptors' equality leaves the copy-offload setting out as well, and so does their hash: a
  queue that asks for a command list without copy offload is given a cached one that was made with it.
\<close>

theorem cached_list_keeps_copy_offload:
  "\<exists>h ext drv d s r.
     lend_run (take_list h ext drv) (addCommandList h) [Take (sample_immediate True), Give 0, Take d] new_cache = (s, [(d, r)]) \<and>
     \<not> requested_offload ext d \<and> ze_offload_flag (snd (made_lists s ! r))"
  by (rule exI [of _ sample_hash], rule exI [of _ sample_ext], rule exI [of _ sample_driver],
      rule exI [of _ "sample_immediate False"], rule exI, rule exI, intro conjI, rule sample_run)
    (simp_all add: requested_offload_def sample_immediate_def immediate_desc_of_def)

end
