(* ===== verification/UR_Double.thy ===== *)
theory UR_Double
  imports Complex_Main UR_Prelude "HOL-Library.Log_Nat"
begin

text \<open>
  The C++ type \<open>double\<close> as far as the timers of the adapters use it: non-negative finite numbers of
  the IEEE binary64 format, represented by their rational values, and the rounding of an exact
  result to the nearest of them, to the even one when it lies in the middle. Subnormal numbers are
  included; results of \<open>2^1024\<close> and more, which the format makes infinite, do not occur where the
  definitions are used.
\<close>

section \<open>Rounding\<close>

text \<open>The nearest integer, ties to even.\<close>

definition round_even :: "rat \<Rightarrow> int" where
  "round_even x =
     (let f = \<lfloor>x\<rfloor>; d = x - of_int f
      in if d < 1 / 2 then f else if 1 / 2 < d then f + 1 else if even f then f else f + 1)"

text \<open>The exponent of the leading binary digit of a positive rational, from the lengths of its numerator and denominator.\<close>

definition exponent_of :: "rat \<Rightarrow> int" where
  "exponent_of x =
     (let (a, b) = quotient_of x; e = bitlen a - bitlen b
      in if 2 powi e \<le> x then e else e - 1)"

text \<open>The distance of neighbouring doubles at \<open>x\<close>: 53 significant digits, at least \<open>2^-1074\<close>.\<close>

definition ulp_exp :: "rat \<Rightarrow> int" where
  "ulp_exp x = max (exponent_of x - 52) (- 1074)"

definition to_double :: "rat \<Rightarrow> rat" where
  "to_double x = (if x \<le> 0 then 0 else of_int (round_even (x / 2 powi ulp_exp x)) * 2 powi ulp_exp x)"

text \<open>The operations of the code: conversion of a 64-bit integer, product, sum, and truncation to 64 bits.\<close>

definition double_of_u64 :: "u64 \<Rightarrow> rat" where
  "double_of_u64 t = to_double (of_nat (unat t))"

definition double_mult :: "rat \<Rightarrow> rat \<Rightarrow> rat" where
  "double_mult x y = to_double (x * y)"

definition double_plus :: "rat \<Rightarrow> rat \<Rightarrow> rat" where
  "double_plus x y = to_double (x + y)"

definition u64_of_double :: "rat \<Rightarrow> u64" where
  "u64_of_double x = word_of_int \<lfloor>x\<rfloor>"

section \<open>The nearest integer\<close>

lemma round_even_of_int [simp]: "round_even (of_int n) = n"
  by (simp add: round_even_def)

lemma round_even_near: "\<bar>of_int (round_even x) - x\<bar> \<le> 1 / 2"
proof -
  have "of_int \<lfloor>x\<rfloor> \<le> x" "x < of_int \<lfloor>x\<rfloor> + 1" by linarith+
  then show ?thesis by (auto simp: round_even_def Let_def abs_le_iff not_less)
qed

lemma round_even_mono:
  assumes "x \<le> y" shows "round_even x \<le> round_even y"
proof (cases "\<lfloor>x\<rfloor> = \<lfloor>y\<rfloor>")
  case True
  with assms show ?thesis by (auto simp: round_even_def Let_def)
next
  case False
  with floor_mono [OF assms] have "\<lfloor>x\<rfloor> + 1 \<le> \<lfloor>y\<rfloor>" by simp
  moreover have "round_even x \<le> \<lfloor>x\<rfloor> + 1" "\<lfloor>y\<rfloor> \<le> round_even y" by (auto simp: round_even_def Let_def)
  ultimately show ?thesis by linarith
qed

lemma round_even_le_int: "x \<le> of_int n \<Longrightarrow> round_even x \<le> n"
  using round_even_mono [of x "of_int n"] by simp

lemma round_even_ge_int: "of_int n \<le> x \<Longrightarrow> n \<le> round_even x"
  using round_even_mono [of "of_int n" x] by simp

section \<open>Exponents\<close>

lemma pow2_pos [simp]: "0 < (2 powi e :: rat)"
  by (simp add: zero_less_power_int)

lemma pow2_mono: "e \<le> f \<Longrightarrow> 2 powi e \<le> (2 powi f :: rat)"
  by (simp add: power_int_increasing)

lemma pow2_less_iff: "2 powi e < (2 powi f :: rat) \<longleftrightarrow> e < f"
  by (metis leD linorder_le_less_linear pow2_mono power_int_strict_increasing one_less_numeral_iff semiring_norm(76))

lemma pow2_diff: "2 powi e / 2 powi f = (2 powi (e - f) :: rat)"
  by (simp add: power_int_diff)

text \<open>A power with a non-negative exponent is an integer.\<close>

lemma pow2_int: "0 \<le> e \<Longrightarrow> (2 powi e :: rat) = of_int (2 ^ nat e)"
  by (simp add: power_int_def)

lemma exponent_bounds:
  assumes "0 < x"
  shows "2 powi exponent_of x \<le> x" "x < 2 powi (exponent_of x + 1)"
proof -
  obtain a b where q: "quotient_of x = (a, b)" by (cases "quotient_of x")
  have b: "0 < b" and x: "x = of_int a / of_int b"
    using quotient_of_denom_pos [OF q] quotient_of_div [OF q] by simp_all
  with assms have a: "0 < a" by (simp add: zero_less_divide_iff)
  have pow: "2 ^ nat k = (2 powi k :: rat)" if "0 \<le> k" for k :: int using that by (simp add: power_int_def)
  have lengths: "0 < bitlen a" "0 < bitlen b" using a b bitlen_eq_zero_iff bitlen_nonneg by (metis le_less less_le_not_le)+
  have "of_int (2 ^ nat (bitlen a - 1)) \<le> (of_int a :: rat)" "(of_int a :: rat) < of_int (2 ^ nat (bitlen a))"
    "of_int (2 ^ nat (bitlen b - 1)) \<le> (of_int b :: rat)" "(of_int b :: rat) < of_int (2 ^ nat (bitlen b))"
    using bitlen_bounds [OF a] bitlen_bounds [OF b] by (simp_all only: of_int_le_iff of_int_less_iff)
  then have A: "2 powi (bitlen a - 1) \<le> (of_int a :: rat)" "(of_int a :: rat) < 2 powi bitlen a"
    and B: "2 powi (bitlen b - 1) \<le> (of_int b :: rat)" "(of_int b :: rat) < 2 powi bitlen b"
    using lengths by (simp_all add: pow)
  define e where "e = bitlen a - bitlen b"
  have up: "x < 2 powi (e + 1)"
  proof -
    have "x \<le> of_int a / 2 powi (bitlen b - 1)" unfolding x using A B a b by (intro divide_left_mono) auto
    also have "\<dots> < 2 powi bitlen a / 2 powi (bitlen b - 1)" using A by (intro divide_strict_right_mono) auto
    also have "\<dots> = 2 powi (e + 1)" by (simp add: pow2_diff e_def algebra_simps)
    finally show ?thesis .
  qed
  have down: "2 powi (e - 1) \<le> x"
  proof -
    have "2 powi (e - 1) = (2 powi (bitlen a - 1) / 2 powi bitlen b :: rat)" by (simp add: pow2_diff e_def algebra_simps)
    also have "\<dots> \<le> of_int a / 2 powi bitlen b" using A by (intro divide_right_mono) auto
    also have "\<dots> \<le> x" unfolding x using A B a b by (intro divide_left_mono) auto
    finally show ?thesis .
  qed
  show "2 powi exponent_of x \<le> x" "x < 2 powi (exponent_of x + 1)"
    using up down by (auto simp: exponent_of_def q Let_def e_def not_le)
qed

lemma exponent_unique:
  assumes "2 powi e \<le> x" "x < 2 powi (e + 1)" shows "exponent_of x = e"
proof -
  have "0 < x" using assms(1) pow2_pos [of e] by linarith
  note b = exponent_bounds [OF this]
  have "(2 powi e :: rat) < 2 powi (exponent_of x + 1)" "(2 powi exponent_of x :: rat) < 2 powi (e + 1)"
    using assms b by linarith+
  then show ?thesis by (simp only: pow2_less_iff)
qed

lemma exponent_mono:
  assumes "0 < x" "x \<le> y" shows "exponent_of x \<le> exponent_of y"
proof -
  have "(2 powi exponent_of x :: rat) < 2 powi (exponent_of y + 1)"
    using exponent_bounds [OF assms(1)] exponent_bounds [of y] assms by linarith
  then show ?thesis by (simp add: pow2_less_iff)
qed

section \<open>Doubles\<close>

lemma to_double_nonneg: "0 \<le> to_double x"
  using round_even_ge_int [of 0 "x / 2 powi ulp_exp x"] by (auto simp: to_double_def)

text \<open>A multiple of the unit is not rounded.\<close>

lemma to_double_exact:
  assumes "0 < x" and "x / 2 powi ulp_exp x = of_int n"
  shows "to_double x = x"
  using assms by (simp add: to_double_def) (metis eq_divide_eq less_irrefl pow2_pos)

lemma to_double_mono:
  assumes "x \<le> y" shows "to_double x \<le> to_double y"
proof (cases "0 < x")
  case False
  then show ?thesis using to_double_nonneg [of y] by (simp add: to_double_def)
next
  case x: True
  then have y: "0 < y" using assms by simp
  show ?thesis
  proof (cases "ulp_exp x = ulp_exp y")
    case True
    have "x / 2 powi ulp_exp y \<le> y / 2 powi ulp_exp y" using assms by (intro divide_right_mono) auto
    from round_even_mono [OF this] show ?thesis using x y True by (simp add: to_double_def)
  next
    case False
    let ?e = "exponent_of y"
    have less: "ulp_exp x < ulp_exp y" "ulp_exp y = ?e - 52" "exponent_of x < ?e"
      using False exponent_mono [OF x assms] by (auto simp: ulp_exp_def)
    have "(2 powi (exponent_of x + 1) :: rat) \<le> 2 powi ?e" using less(3) by (intro pow2_mono) simp
    then have "x \<le> 2 powi ?e" using exponent_bounds(2) [OF x] by linarith
    then have "x / 2 powi ulp_exp x \<le> 2 powi ?e / 2 powi ulp_exp x" by (intro divide_right_mono) auto
    also have "\<dots> = of_int (2 ^ nat (?e - ulp_exp x))" using less by (simp only: pow2_diff) (simp add: pow2_int)
    finally have "(of_int (round_even (x / 2 powi ulp_exp x)) :: rat) \<le> of_int (2 ^ nat (?e - ulp_exp x))"
      using round_even_le_int of_int_le_iff by blast
    also have "\<dots> = 2 powi ?e / 2 powi ulp_exp x" using less by (simp only: pow2_diff) (simp add: pow2_int)
    finally have 1: "to_double x \<le> 2 powi ?e" using x by (simp add: to_double_def pos_le_divide_eq)
    have "of_int (2 ^ 52) \<le> y / 2 powi ulp_exp y"
      using exponent_bounds(1) [OF y] pow2_int [of 52] pow2_diff [of ?e "?e - 52"] by (simp add: less(2) divide_simps)
    from round_even_ge_int [OF this] have "of_int (2 ^ 52) \<le> (of_int (round_even (y / 2 powi ulp_exp y)) :: rat)"
      using of_int_le_iff by blast
    then have "of_int (2 ^ 52) * 2 powi ulp_exp y \<le> to_double y"
      using y by (simp add: to_double_def)
    moreover have "of_int (2 ^ 52) * 2 powi ulp_exp y = (2 powi ?e :: rat)"
      using pow2_int [of 52] by (simp add: less(2) power_int_diff)
    ultimately show ?thesis using 1 by linarith
  qed
qed

text \<open>Integers of up to 53 bits are doubles.\<close>

lemma to_double_int:
  assumes "0 \<le> n" "n < 2 ^ 53" shows "to_double (of_int n) = of_int n"
proof (cases "n = 0")
  case False
  with assms have n: "0 < (of_int n :: rat)" "0 < n" by simp_all
  let ?e = "exponent_of (of_int n)"
  have "(of_int n :: rat) < of_int (2 ^ 53)" using assms(2) by (simp only: of_int_less_iff)
  then have "(2 powi ?e :: rat) < 2 powi 53" using exponent_bounds(1) [OF n(1)] pow2_int [of 53] by simp
  moreover have "(2 powi 0 :: rat) < 2 powi (?e + 1)" using exponent_bounds(2) [OF n(1)] n(2) by (simp add: order_le_less_trans [of 1 "of_int n"])
  ultimately have e: "?e \<le> 52" "0 \<le> ?e" by (simp_all only: pow2_less_iff)
  then have u: "ulp_exp (of_int n) = ?e - 52" by (simp add: ulp_exp_def)
  have "of_int n / 2 powi (?e - 52) = (of_int (n * 2 ^ nat (52 - ?e)) :: rat)"
    using pow2_int [of "52 - ?e"] e power_int_minus [of "2 :: rat" "52 - ?e"] by (simp add: divide_inverse)
  then show ?thesis using to_double_exact [OF n(1)] u by metis
qed (simp add: to_double_def)

lemma to_double_near:
  assumes "1 \<le> x" shows "\<bar>to_double x - x\<bar> \<le> x / 2 ^ 53"
proof -
  let ?u = "2 powi ulp_exp x :: rat"
  have x: "0 < x" using assms by simp
  have "(2 powi 0 :: rat) < 2 powi (exponent_of x + 1)" using exponent_bounds(2) [OF x] assms by simp
  then have "0 \<le> exponent_of x" by (simp only: pow2_less_iff)
  then have u: "ulp_exp x = exponent_of x - 52" by (simp add: ulp_exp_def)
  have "?u * 2 ^ 52 = 2 powi exponent_of x" using pow2_int [of 52] by (simp add: u power_int_diff)
  then have unit: "?u \<le> x / 2 ^ 52" using exponent_bounds(1) [OF x] by (simp add: pos_le_divide_eq)
  have "to_double x - x = (of_int (round_even (x / ?u)) - x / ?u) * ?u"
    using x pow2_pos [of "ulp_exp x"] by (simp add: to_double_def left_diff_distrib)
  then have "\<bar>to_double x - x\<bar> = \<bar>of_int (round_even (x / ?u)) - x / ?u\<bar> * ?u"
    by (simp only: abs_mult abs_of_pos [OF pow2_pos])
  also have "\<dots> \<le> 1 / 2 * ?u" using round_even_near [of "x / ?u"] by (intro mult_right_mono) auto
  also have "\<dots> \<le> x / 2 ^ 53" using unit by simp
  finally show ?thesis .
qed

end
