(* ===== verification/L0_Event_Providers.thy ===== *)
theory L0_Event_Providers
  imports L0_Lending
begin

text \<open>
  The event providers of the second Level Zero adapter (adapters/level_zero/v2/event_provider.hpp,
  event_provider_counter.cpp, event_provider_normal.cpp): a provider lends the driver's events, taking
  one from a free list or asking the driver for more. The driver's calls are parameters that see the
  number of the call, so that any of them may fail at any time. Events are numbered in the order
  they are asked for; a vector is a list in its order, so that \<open>back\<close> is the last element.
\<close>

unbundle bit_operations_syntax

section \<open>Flags and the driver\<close>

type_synonym event_flags = u32

definition EVENT_FLAGS_COUNTER :: event_flags where "EVENT_FLAGS_COUNTER = 1"
definition EVENT_FLAGS_PROFILING_ENABLED :: event_flags where "EVENT_FLAGS_PROFILING_ENABLED = 2"
definition EVENT_FLAGS_IPC :: event_flags where "EVENT_FLAGS_IPC = 4"
definition EVENT_FLAGS_IPC_IMPORTED :: event_flags where "EVENT_FLAGS_IPC_IMPORTED = 8"
definition EVENT_FLAGS_USED_BITS :: nat where "EVENT_FLAGS_USED_BITS = 3"

definition has_flag :: "event_flags \<Rightarrow> event_flags \<Rightarrow> bool" where
  "has_flag flags f \<longleftrightarrow> flags AND f \<noteq> 0"

datatype queue_type = QUEUE_REGULAR | QUEUE_IMMEDIATE

definition EVENTS_BURST :: nat where "EVENTS_BURST = 64"

record pool_desc =
  pd_count :: nat
  pd_kernel_timestamp :: bool
  pd_counter_based :: "(bool \<times> bool) option" \<comment> \<open>immediate, non-immediate\<close>

record counter_desc =
  cd_kernel_timestamp :: bool
  cd_ipc :: bool
  cd_immediate :: bool
  cd_non_immediate :: bool

record ze_events =
  zeEventPoolCreate :: "nat \<Rightarrow> pool_desc \<Rightarrow> ur_result"
  zeEventCreate :: "nat \<Rightarrow> nat \<Rightarrow> ur_result"
  eventCreateFunc :: "nat \<Rightarrow> counter_desc \<Rightarrow> ur_result"

section \<open>Pools of events\<close>

record provider_pool =
  pool_id :: nat
  pool_freelist :: "nat list"

definition pool_desc_of :: "queue_type \<Rightarrow> event_flags \<Rightarrow> pool_desc" where
  "pool_desc_of queue flags =
     \<lparr>pd_count = EVENTS_BURST, pd_kernel_timestamp = has_flag flags EVENT_FLAGS_PROFILING_ENABLED,
      pd_counter_based = (if has_flag flags EVENT_FLAGS_COUNTER then Some (queue = QUEUE_IMMEDIATE, True) else None)\<rparr>"

function create_events :: "ze_events \<Rightarrow> nat \<Rightarrow> nat \<Rightarrow> ur_result + nat list" where
  "create_events drv p i =
     (if i < EVENTS_BURST
      then (if zeEventCreate drv p i \<noteq> UR_RESULT_SUCCESS then Inl (zeEventCreate drv p i)
            else (case create_events drv p (i + 1) of Inl r \<Rightarrow> Inl r | Inr es \<Rightarrow> Inr ((p * EVENTS_BURST + i) # es)))
      else Inr [])"
  by pat_completeness auto
termination by (relation "measure (\<lambda>(drv, p, i). EVENTS_BURST - i)") auto

declare create_events.simps [simp del]

definition provider_pool_new :: "ze_events \<Rightarrow> nat \<Rightarrow> queue_type \<Rightarrow> event_flags \<Rightarrow> ur_result + provider_pool" where
  "provider_pool_new drv p queue flags =
     (let r = zeEventPoolCreate drv p (pool_desc_of queue flags)
      in if r \<noteq> UR_RESULT_SUCCESS then Inl r
         else (case create_events drv p 0 of Inl e \<Rightarrow> Inl e | Inr es \<Rightarrow> Inr \<lparr>pool_id = p, pool_freelist = es\<rparr>))"

definition pool_allocate :: "provider_pool \<Rightarrow> (nat \<times> provider_pool) option" where
  "pool_allocate p =
     (if pool_freelist p = [] then None
      else Some (last (pool_freelist p), p\<lparr>pool_freelist := butlast (pool_freelist p)\<rparr>))"

definition nfree :: "provider_pool \<Rightarrow> nat" where
  "nfree p = length (pool_freelist p)"

section \<open>The normal provider\<close>

text \<open>\<open>pool_calls\<close> counts the pools asked for, those that could not be made included.\<close>

record provider_normal =
  pn_queueType :: queue_type
  pn_flags :: event_flags
  pools :: "provider_pool list"
  pool_calls :: nat

definition add_pool :: "ze_events \<Rightarrow> provider_normal \<Rightarrow> ur_result option \<times> provider_normal" where
  "add_pool drv s =
     (let s' = s\<lparr>pool_calls := pool_calls s + 1\<rparr>
      in case provider_pool_new drv (pool_calls s) (pn_queueType s) (pn_flags s) of
           Inl r \<Rightarrow> (Some r, s')
         | Inr p \<Rightarrow> (None, s'\<lparr>pools := pools s @ [p]\<rparr>))"

definition alloc_back :: "provider_normal \<Rightarrow> (nat \<times> provider_normal) option" where
  "alloc_back s =
     (case pool_allocate (last (pools s)) of
        None \<Rightarrow> None
      | Some (e, p) \<Rightarrow> Some (e, s\<lparr>pools := butlast (pools s) @ [p]\<rparr>))"

lemma create_events_all:
  "create_events drv p i = Inr es \<Longrightarrow> es = map (\<lambda>j. p * EVENTS_BURST + j) [i..<EVENTS_BURST]"
proof (induction drv p i arbitrary: es rule: create_events.induct)
  case (1 drv p i)
  show ?case
  proof (cases "i < EVENTS_BURST")
    case True
    with "1.prems" obtain es' where es': "create_events drv p (i + 1) = Inr es'" "es = (p * EVENTS_BURST + i) # es'"
      "zeEventCreate drv p i = UR_RESULT_SUCCESS"
      by (subst (asm) create_events.simps) (auto split: if_splits sum.splits)
    with "1.IH" [OF True] True show ?thesis by (simp add: upt_conv_Cons)
  next
    case False
    with "1.prems" show ?thesis by (subst (asm) create_events.simps) simp
  qed
qed

lemma provider_pool_new_full:
  "provider_pool_new drv p queue flags = Inr q \<Longrightarrow>
     q = \<lparr>pool_id = p, pool_freelist = map (\<lambda>j. p * EVENTS_BURST + j) [0..<EVENTS_BURST]\<rparr>"
  by (auto simp: provider_pool_new_def Let_def dest: create_events_all split: if_splits sum.splits)

lemma add_pool_None:
  "add_pool drv s = (None, s') \<Longrightarrow>
     s' = s\<lparr>pool_calls := pool_calls s + 1, pools := pools s @
       [\<lparr>pool_id = pool_calls s, pool_freelist = map (\<lambda>j. pool_calls s * EVENTS_BURST + j) [0..<EVENTS_BURST]\<rparr>]\<rparr>"
  by (auto simp: add_pool_def Let_def dest: provider_pool_new_full split: sum.splits)

lemma add_pool_Some: "add_pool drv s = (Some r, s') \<Longrightarrow> s' = s\<lparr>pool_calls := pool_calls s + 1\<rparr>"
  by (auto simp: add_pool_def Let_def split: sum.splits)

lemma alloc_back_None: "alloc_back s = None \<longleftrightarrow> pool_freelist (last (pools s)) = []"
  by (auto simp: alloc_back_def pool_allocate_def split: option.splits if_splits)

text \<open>
  \<open>std::sort\<close> leaves the order of pools with equally many free events open: it is the parameter
  \<open>srt\<close>. An exception is the left value.
\<close>

function normal_allocate ::
  "(provider_pool list \<Rightarrow> provider_pool list) \<Rightarrow> ze_events \<Rightarrow> provider_normal \<Rightarrow> (ur_result + nat) \<times> provider_normal" where
  "normal_allocate srt drv s =
     (case (if pools s = [] then add_pool drv s else (None, s)) of
        (Some r, s1) \<Rightarrow> (Inl r, s1)
      | (None, s1) \<Rightarrow>
          (case alloc_back s1 of
             Some (e, s2) \<Rightarrow> (Inr e, s2)
           | None \<Rightarrow>
               (let s3 = s1\<lparr>pools := srt (pools s1)\<rparr>
                in case alloc_back s3 of
                     Some (e, s4) \<Rightarrow> (Inr e, s4)
                   | None \<Rightarrow>
                       (case add_pool drv s3 of
                          (Some r, s5) \<Rightarrow> (Inl r, s5)
                        | (None, s5) \<Rightarrow> normal_allocate srt drv s5))))"
  by pat_completeness auto
termination
  by (relation "measure (\<lambda>(srt, drv, s). if pools s \<noteq> [] \<and> pool_freelist (last (pools s)) \<noteq> [] then 0 else 1 :: nat)")
    (auto simp: alloc_back_None EVENTS_BURST_def dest!: add_pool_None [OF sym] split: if_splits)

declare normal_allocate.simps [simp del]

text \<open>The deleter of a lent event puts it back on the free list of the pool it came from.\<close>

definition normal_free :: "nat \<Rightarrow> provider_normal \<Rightarrow> provider_normal" where
  "normal_free e s = s\<lparr>pools := map (\<lambda>p. if pool_id p = e div EVENTS_BURST then p\<lparr>pool_freelist := pool_freelist p @ [e]\<rparr> else p) (pools s)\<rparr>"

definition provider_normal_new :: "queue_type \<Rightarrow> event_flags \<Rightarrow> provider_normal" where
  "provider_normal_new queue flags = \<lparr>pn_queueType = queue, pn_flags = flags, pools = [], pool_calls = 0\<rparr>"

section \<open>The counter-based provider\<close>

record provider_counter =
  pc_queueType :: queue_type
  pc_flags :: event_flags
  pc_freelist :: "nat list"
  event_calls :: nat

definition createZeFlags :: "queue_type \<Rightarrow> event_flags \<Rightarrow> counter_desc" where
  "createZeFlags queue flags =
     \<lparr>cd_kernel_timestamp = has_flag flags EVENT_FLAGS_PROFILING_ENABLED, cd_ipc = has_flag flags EVENT_FLAGS_IPC,
      cd_immediate = (queue = QUEUE_IMMEDIATE), cd_non_immediate = True\<rparr>"

definition counter_allocate :: "ze_events \<Rightarrow> provider_counter \<Rightarrow> (ur_result + nat) \<times> provider_counter" where
  "counter_allocate drv s =
     (let e = event_calls s;
          r = eventCreateFunc drv e (createZeFlags (pc_queueType s) (pc_flags s));
          s1 = (if pc_freelist s = [] then s\<lparr>event_calls := e + 1\<rparr> else s)
      in if pc_freelist s = [] \<and> r \<noteq> UR_RESULT_SUCCESS then (Inl r, s1)
         else (let s2 = (if pc_freelist s = [] then s1\<lparr>pc_freelist := [e]\<rparr> else s1)
               in (Inr (last (pc_freelist s2)), s2\<lparr>pc_freelist := butlast (pc_freelist s2)\<rparr>)))"

definition counter_free :: "nat \<Rightarrow> provider_counter \<Rightarrow> provider_counter" where
  "counter_free e s = s\<lparr>pc_freelist := pc_freelist s @ [e]\<rparr>"

text \<open>The constructor asks the driver for the function and translates two handles; each may fail.\<close>

record counter_ctor =
  getExtensionFunction :: ur_result
  translateContext :: ur_result
  translateDevice :: ur_result

definition provider_counter_new :: "counter_ctor \<Rightarrow> queue_type \<Rightarrow> event_flags \<Rightarrow> ur_result + provider_counter" where
  "provider_counter_new ctor queue flags =
     (if getExtensionFunction ctor \<noteq> UR_RESULT_SUCCESS then Inl (getExtensionFunction ctor)
      else if translateContext ctor \<noteq> UR_RESULT_SUCCESS then Inl (translateContext ctor)
      else if translateDevice ctor \<noteq> UR_RESULT_SUCCESS then Inl (translateDevice ctor)
      else Inr \<lparr>pc_queueType = queue, pc_flags = flags, pc_freelist = [], event_calls = 0\<rparr>)"

section \<open>Providers\<close>

datatype event_provider = Counter provider_counter | Normal provider_normal

definition createProvider :: "counter_ctor \<Rightarrow> queue_type \<Rightarrow> event_flags \<Rightarrow> event_provider" where
  "createProvider ctor queue flags =
     (if has_flag flags EVENT_FLAGS_COUNTER
      then (case provider_counter_new ctor queue flags of
              Inr c \<Rightarrow> Counter c
            | Inl _ \<Rightarrow> Normal (provider_normal_new queue flags))
      else Normal (provider_normal_new queue flags))"

fun provider_allocate ::
  "(provider_pool list \<Rightarrow> provider_pool list) \<Rightarrow> ze_events \<Rightarrow> event_provider \<Rightarrow> (ur_result + nat) \<times> event_provider" where
  "provider_allocate srt drv (Counter c) = (case counter_allocate drv c of (r, c') \<Rightarrow> (r, Counter c'))"
| "provider_allocate srt drv (Normal n) = (case normal_allocate srt drv n of (r, n') \<Rightarrow> (r, Normal n'))"

fun provider_free :: "nat \<Rightarrow> event_provider \<Rightarrow> event_provider" where
  "provider_free e (Counter c) = Counter (counter_free e c)"
| "provider_free e (Normal n) = Normal (normal_free e n)"

fun eventFlags :: "event_provider \<Rightarrow> event_flags" where
  "eventFlags (Counter c) = pc_flags c"
| "eventFlags (Normal n) = pn_flags n"

section \<open>Lending by the normal provider\<close>

definition normal_avail :: "provider_normal \<Rightarrow> nat multiset" where
  "normal_avail s = mset (concat (map pool_freelist (pools s)))"

definition normal_fresh :: "provider_normal \<Rightarrow> nat" where
  "normal_fresh s = pool_calls s * EVENTS_BURST"

definition normal_wf :: "provider_normal \<Rightarrow> bool" where
  "normal_wf s \<longleftrightarrow> distinct (map pool_id (pools s)) \<and>
     (\<forall>p \<in> set (pools s). pool_id p < pool_calls s \<and> (\<forall>e \<in> set (pool_freelist p). e div EVENTS_BURST = pool_id p))"

definition normal_home :: "provider_normal \<Rightarrow> nat \<Rightarrow> bool" where
  "normal_home s e \<longleftrightarrow> e div EVENTS_BURST \<in> pool_id ` set (pools s)"

text \<open>What one call keeps: the ids of the pools only grow, and events come from the free lists or are new.\<close>

definition normal_grows :: "nat multiset \<Rightarrow> provider_normal \<Rightarrow> provider_normal \<Rightarrow> bool" where
  "normal_grows out s s' \<longleftrightarrow> normal_wf s' \<and> pool_id ` set (pools s) \<subseteq> pool_id ` set (pools s') \<and>
     draws (normal_avail s) (normal_fresh s) (out + normal_avail s') (normal_fresh s')"

lemma normal_grows_trans:
  "normal_grows {#} s s' \<Longrightarrow> normal_grows out s' s'' \<Longrightarrow> normal_grows out s s''"
  by (auto simp: normal_grows_def intro: draws_trans)

lemma normal_grows_refl: "normal_wf s \<Longrightarrow> normal_grows {#} s s"
  by (simp add: normal_grows_def)

lemma normal_grows_wf: "normal_grows out s s' \<Longrightarrow> normal_wf s'"
  by (simp add: normal_grows_def)

lemma upt_mset_set: "mset (map (\<lambda>j. n + j) [0..<m]) = mset_set {n..<n + m}"
proof -
  have "map (\<lambda>j. n + j) [0..<m] = [n..<n + m]" using map_add_upt [of n m] by (simp add: add.commute)
  then show ?thesis by (simp del: mset_map add: mset_upt)
qed

lemma add_pool_grows:
  assumes wf: "normal_wf s" and add: "add_pool drv s = (None, s')"
  shows "normal_grows {#} s s'"
proof -
  define p where "p = \<lparr>pool_id = pool_calls s, pool_freelist = map (\<lambda>j. pool_calls s * EVENTS_BURST + j) [0..<EVENTS_BURST]\<rparr>"
  have s': "s' = s\<lparr>pool_calls := pool_calls s + 1, pools := pools s @ [p]\<rparr>"
    using add_pool_None [OF add] by (simp add: p_def)
  have new: "mset (pool_freelist p) = mset_set {normal_fresh s..<normal_fresh s'}" "normal_fresh s \<le> normal_fresh s'"
    using upt_mset_set [of "pool_calls s * EVENTS_BURST" EVENTS_BURST] by (simp_all add: p_def s' normal_fresh_def add.commute)
  have ids: "pool_id p = pool_calls s" "\<forall>e \<in> set (pool_freelist p). e div EVENTS_BURST = pool_id p"
    by (auto simp: p_def EVENTS_BURST_def)
  have "normal_wf s'"
    using wf ids by (auto simp: s' normal_wf_def less_Suc_eq)
  moreover have "normal_avail s' = normal_avail s + mset_set {normal_fresh s..<normal_fresh s'}"
    using new(1) by (simp add: normal_avail_def s')
  ultimately show ?thesis
    using new(2) by (auto simp: normal_grows_def draws_def s')
qed

lemma add_pool_fails_grows: "normal_wf s \<Longrightarrow> add_pool drv s = (Some r, s') \<Longrightarrow> normal_grows {#} s s'"
  by (auto dest!: add_pool_Some simp: normal_grows_def normal_wf_def normal_avail_def normal_fresh_def draws_def less_Suc_eq)

lemma alloc_back_grows:
  assumes wf: "normal_wf s" and bk: "alloc_back s = Some (e, s')" and ne: "pools s \<noteq> []"
  shows "normal_grows {#e#} s s'" and "normal_home s' e"
proof -
  obtain ps p where ps: "pools s = ps @ [p]" using ne by (cases "pools s" rule: rev_cases) auto
  have fl: "pool_freelist p = butlast (pool_freelist p) @ [e]"
    and s': "s' = s\<lparr>pools := ps @ [p\<lparr>pool_freelist := butlast (pool_freelist p)\<rparr>]\<rparr>"
    using bk ps by (auto simp: alloc_back_def pool_allocate_def split: if_splits)
  have e: "e \<in> set (pool_freelist p)" by (subst fl) simp
  have "mset (pool_freelist p) = add_mset e (mset (butlast (pool_freelist p)))" by (subst fl) simp
  then show "normal_grows {#e#} s s'"
    using wf ps by (auto simp: s' normal_grows_def normal_wf_def normal_avail_def normal_fresh_def draws_def dest: in_set_butlastD)
  show "normal_home s' e"
    using wf ps e by (auto simp: s' normal_home_def normal_wf_def)
qed

lemma normal_allocate_back:
  "pools s \<noteq> [] \<Longrightarrow> alloc_back s = Some (e, s') \<Longrightarrow> normal_allocate srt drv s = (Inr e, s')"
  by (subst normal_allocate.simps) simp

text \<open>What \<open>std::sort\<close> promises: a permutation in ascending order of the key.\<close>

locale std_sort =
  fixes srt :: "provider_pool list \<Rightarrow> provider_pool list"
  assumes srt_mset: "mset (srt ps) = mset ps"
    and srt_sorted: "sorted (map nfree (srt ps))"
begin

lemma srt_grows: "normal_wf s \<Longrightarrow> normal_grows {#} s (s\<lparr>pools := srt (pools s)\<rparr>)"
proof -
  assume wf: "normal_wf s"
  have "mset (map pool_id (srt (pools s))) = mset (map pool_id (pools s))"
    by (simp add: srt_mset)
  then have "distinct (map pool_id (srt (pools s))) \<longleftrightarrow> distinct (map pool_id (pools s))"
    by (rule mset_eq_imp_distinct_iff)
  moreover have "mset (concat (map pool_freelist (srt ps))) = mset (concat (map pool_freelist ps))" for ps
    by (simp add: mset_concat srt_mset flip: sum_mset_sum_list)
  moreover have "set (srt ps) = set ps" for ps
    using srt_mset mset_eq_setD by blast
  ultimately show ?thesis
    using wf by (simp add: normal_grows_def normal_wf_def normal_avail_def normal_fresh_def)
qed

lemma normal_allocate_grows:
  assumes wf: "normal_wf s" and alloc: "normal_allocate srt drv s = (res, s')"
  shows "normal_grows (case res of Inl _ \<Rightarrow> {#} | Inr e \<Rightarrow> {#e#}) s s' \<and> (\<forall>e. res = Inr e \<longrightarrow> normal_home s' e)"
proof -
  obtain f s1 where first: "(if pools s = [] then add_pool drv s else (None, s)) = (f, s1)" by force
  have g1: "normal_grows {#} s s1"
    using first add_pool_grows [OF wf] add_pool_fails_grows [OF wf] normal_grows_refl [OF wf]
    by (cases f) (auto split: if_splits)
  have step: ?thesis if "normal_grows {#} s s2" "pools s2 \<noteq> []" "alloc_back s2 = Some (e, s')" "res = Inr e" for s2 e
    using that alloc_back_grows [OF normal_grows_wf [OF that(1)] that(3,2)] normal_grows_trans [OF that(1)] by auto
  show ?thesis
  proof (cases f)
    case (Some r)
    with alloc first g1 show ?thesis by (subst (asm) normal_allocate.simps) auto
  next
    case None
    have ne1: "pools s1 \<noteq> []" using first None by (auto dest!: add_pool_None split: if_splits)
    let ?s3 = "s1\<lparr>pools := srt (pools s1)\<rparr>"
    have g3: "normal_grows {#} s ?s3" and wf3: "normal_wf ?s3" and ne3: "pools ?s3 \<noteq> []"
      using normal_grows_trans [OF g1 srt_grows [OF normal_grows_wf [OF g1]]]
        normal_grows_wf [OF srt_grows [OF normal_grows_wf [OF g1]]] ne1 srt_mset [of "pools s1"] by auto
    note unfolded = alloc [unfolded normal_allocate.simps [of srt drv s] first None Let_def, simplified]
    show ?thesis
    proof (cases "alloc_back s1")
      case (Some x)
      with unfolded None step [OF g1 ne1] show ?thesis by (cases x) auto
    next
      case n1: None
      show ?thesis
      proof (cases "alloc_back ?s3")
        case (Some x)
        with unfolded n1 step [OF g3 ne3] show ?thesis by (cases x) auto
      next
        case n3: None
        obtain f5 s5 where add: "add_pool drv ?s3 = (f5, s5)" by force
        show ?thesis
        proof (cases f5)
          case (Some r)
          with unfolded n1 n3 add normal_grows_trans [OF g3 add_pool_fails_grows [OF wf3]] show ?thesis by auto
        next
          case None
          with add obtain e s6 where e: "alloc_back s5 = Some (e, s6)" and ne5: "pools s5 \<noteq> []"
            by (cases "alloc_back s5") (auto simp: alloc_back_None EVENTS_BURST_def dest!: add_pool_None)
          with None unfolded n1 n3 add have "res = Inr e" "s' = s6"
            by (auto simp: normal_allocate_back)
          with e ne5 step [of s5 e] normal_grows_trans [OF g3 add_pool_grows [OF wf3]] add None show ?thesis by auto
        qed
      qed
    qed
  qed
qed

end

lemma free_once:
  "distinct (map pool_id ps) \<Longrightarrow> i \<in> pool_id ` set ps \<Longrightarrow>
     mset (concat (map pool_freelist (map (\<lambda>p. if pool_id p = i then p\<lparr>pool_freelist := pool_freelist p @ [e]\<rparr> else p) ps))) =
     add_mset e (mset (concat (map pool_freelist ps)))"
proof (induction ps)
  case (Cons p ps)
  have same: "map (\<lambda>q. if pool_id q = i then q\<lparr>pool_freelist := pool_freelist q @ [e]\<rparr> else q) ps = ps" if "i \<notin> pool_id ` set ps"
    using that by (induction ps) auto
  show ?case
  proof (cases "pool_id p = i")
    case True
    with Cons.prems(1) have "i \<notin> pool_id ` set ps" by auto
    from same [OF this] True show ?thesis by simp
  next
    case False
    with Cons show ?thesis by simp
  qed
qed simp

lemma normal_free_ids: "map pool_id (pools (normal_free e s)) = map pool_id (pools s)"
  by (auto simp: normal_free_def)

lemma normal_free_wf:
  assumes "normal_wf s" and "normal_home s e"
  shows "normal_wf (normal_free e s)" "normal_avail (normal_free e s) = add_mset e (normal_avail s)"
    "normal_fresh (normal_free e s) = normal_fresh s"
proof -
  have "pool_id p < pool_calls s \<and> (\<forall>x \<in> set (pool_freelist p). x div EVENTS_BURST = pool_id p)"
    if "p \<in> set (pools (normal_free e s))" for p
    using that assms(1) by (auto simp: normal_wf_def normal_free_def)
  moreover have "distinct (map pool_id (pools (normal_free e s)))" "pool_calls (normal_free e s) = pool_calls s"
    using assms(1) normal_free_ids [of e s] by (simp_all add: normal_wf_def) (simp add: normal_free_def)
  ultimately show "normal_wf (normal_free e s)"
    by (simp add: normal_wf_def)
  show "normal_avail (normal_free e s) = add_mset e (normal_avail s)"
    using assms free_once [of "pools s" "e div EVENTS_BURST" e]
    by (simp add: normal_wf_def normal_home_def normal_avail_def normal_free_def)
  show "normal_fresh (normal_free e s) = normal_fresh s"
    by (simp add: normal_fresh_def normal_free_def)
qed

lemma normal_home_free: "normal_home s e \<Longrightarrow> normal_home (normal_free e' s) e"
  unfolding normal_home_def set_map [symmetric] normal_free_ids .

section \<open>Lending by any provider\<close>

fun provider_avail :: "event_provider \<Rightarrow> nat multiset" where
  "provider_avail (Counter c) = mset (pc_freelist c)"
| "provider_avail (Normal n) = normal_avail n"

fun provider_fresh :: "event_provider \<Rightarrow> nat" where
  "provider_fresh (Counter c) = event_calls c"
| "provider_fresh (Normal n) = normal_fresh n"

fun provider_wf :: "event_provider \<Rightarrow> bool" where
  "provider_wf (Counter c) \<longleftrightarrow> True"
| "provider_wf (Normal n) \<longleftrightarrow> normal_wf n"

fun provider_home :: "event_provider \<Rightarrow> nat \<Rightarrow> bool" where
  "provider_home (Counter c) e \<longleftrightarrow> True"
| "provider_home (Normal n) e \<longleftrightarrow> normal_home n e"

definition take_event ::
  "(provider_pool list \<Rightarrow> provider_pool list) \<Rightarrow> ze_events \<Rightarrow> unit \<Rightarrow> event_provider \<Rightarrow> nat option \<times> event_provider" where
  "take_event srt drv k s = (case provider_allocate srt drv s of (Inl _, s') \<Rightarrow> (None, s') | (Inr e, s') \<Rightarrow> (Some e, s'))"

lemma counter_allocate_draws:
  assumes "counter_allocate drv c = (res, c')"
  shows "draws (mset (pc_freelist c)) (event_calls c)
           ((case res of Inl _ \<Rightarrow> {#} | Inr e \<Rightarrow> {#e#}) + mset (pc_freelist c')) (event_calls c')"
proof (cases "pc_freelist c" rule: rev_cases)
  case Nil
  with assms show ?thesis by (auto simp: counter_allocate_def Let_def draws_def split: if_splits)
next
  case (snoc es e)
  with assms show ?thesis by (auto simp: counter_allocate_def Let_def)
qed

context std_sort
begin

lemma provider_allocate_draws:
  assumes "provider_wf s" and "provider_allocate srt drv s = (res, s')"
  shows "draws (provider_avail s) (provider_fresh s)
           ((case res of Inl _ \<Rightarrow> {#} | Inr e \<Rightarrow> {#e#}) + provider_avail s') (provider_fresh s')"
    and "provider_wf s'" and "res = Inr e \<Longrightarrow> provider_home s' e" and "provider_home s e' \<Longrightarrow> provider_home s' e'"
  using assms counter_allocate_draws normal_allocate_grows
  by (cases s; force simp: normal_grows_def normal_home_def split: prod.splits)+

end

sublocale std_sort < ev: lender "take_event srt drv" "\<lambda>_. provider_free" provider_avail provider_fresh "\<lambda>s _. provider_home s" provider_wf
  for drv
proof unfold_locales
  fix s :: event_provider and k r s'
  assume wf: "provider_wf s" and get: "take_event srt drv k s = (Some r, s')"
  then have "provider_allocate srt drv s = (Inr r, s')" by (auto simp: take_event_def split: prod.splits sum.splits)
  from provider_allocate_draws [OF wf this]
  show "draws (provider_avail s) (provider_fresh s) (add_mset r (provider_avail s')) (provider_fresh s') \<and>
      provider_wf s' \<and> provider_home s' r" by simp
next
  fix s :: event_provider and k s'
  assume wf: "provider_wf s" and get: "take_event srt drv k s = (None, s')"
  then obtain e where "provider_allocate srt drv s = (Inl e, s')" by (auto simp: take_event_def split: prod.splits sum.splits)
  from provider_allocate_draws [OF wf this]
  show "draws (provider_avail s) (provider_fresh s) (provider_avail s') (provider_fresh s') \<and> provider_wf s'" by simp
next
  fix s :: event_provider and k :: unit and r
  assume "provider_wf s" "provider_home s r"
  then show "provider_fresh (provider_free r s) = provider_fresh s \<and>
      provider_avail (provider_free r s) = add_mset r (provider_avail s) \<and> provider_wf (provider_free r s)"
    using normal_free_wf by (cases s) (auto simp: counter_free_def)
next
  fix s :: event_provider and k k' r
  assume wf: "provider_wf s" and home: "provider_home s r"
  obtain res s' where "provider_allocate srt drv s = (res, s')" by force
  then show "provider_home (snd (take_event srt drv k' s)) r"
    using provider_allocate_draws(4) [OF wf _ home] by (auto simp: take_event_def split: sum.splits)
next
  fix s :: event_provider and k k' :: unit and r r'
  assume "provider_home s r"
  then show "provider_home (provider_free r' s) r" using normal_home_free by (cases s) auto
qed

interpretation stable: std_sort "sort_key nfree"
  by unfold_locales simp_all

section \<open>What a provider promises\<close>

lemma added_pool:
  assumes "provider_pool_new drv (pool_calls s) (pn_queueType s) (pn_flags s) = Inr p"
  shows "\<exists>s5 s6. add_pool drv s = (None, s5) \<and> pools s5 \<noteq> [] \<and> alloc_back s5 = Some (last (pool_freelist p), s6) \<and>
    pool_calls s6 = pool_calls s + 1"
  using assms provider_pool_new_full [OF assms]
  by (simp add: add_pool_def alloc_back_def pool_allocate_def EVENTS_BURST_def)

context std_sort
begin

lemma last_has_most:
  assumes "p \<in> set ps" shows "nfree p \<le> nfree (last (srt ps))"
proof -
  have "p \<in> set (srt ps)" using assms srt_mset [of ps] by (metis set_mset_mset)
  then obtain qs q where qs: "srt ps = qs @ [q]" "p \<in> set (qs @ [q])" by (cases "srt ps" rule: rev_cases) auto
  then show ?thesis using srt_sorted [of ps] by (auto simp: sorted_append)
qed

lemma normal_allocate_existing:
  assumes "p \<in> set (pools s)" "pool_freelist p \<noteq> []"
  shows "\<exists>e s'. normal_allocate srt drv s = (Inr e, s') \<and> pool_calls s' = pool_calls s"
proof (cases "alloc_back s")
  case (Some x)
  then obtain e s' where "alloc_back s = Some (e, s')" by (cases x) auto
  with assms show ?thesis
    by (subst normal_allocate.simps) (auto simp: alloc_back_def split: option.splits)
next
  case None
  let ?s3 = "s\<lparr>pools := srt (pools s)\<rparr>"
  have "alloc_back ?s3 \<noteq> None"
    using last_has_most [OF assms(1)] assms(2) by (auto simp: alloc_back_None nfree_def)
  then obtain e s' where "alloc_back ?s3 = Some (e, s')" by auto
  moreover from this have "pool_calls s' = pool_calls s" by (auto simp: alloc_back_def split: option.splits)
  ultimately show ?thesis using None assms
    by (subst normal_allocate.simps) (auto simp: Let_def split: prod.splits)
qed

lemma normal_allocate_new:
  assumes none: "\<forall>p \<in> set (pools s). pool_freelist p = []"
  shows "pool_calls (snd (normal_allocate srt drv s)) = pool_calls s + 1 \<and>
     fst (normal_allocate srt drv s) =
       map_sum id (\<lambda>p. last (pool_freelist p)) (provider_pool_new drv (pool_calls s) (pn_queueType s) (pn_flags s))"
proof (cases "pools s = []")
  case True
  show ?thesis
  proof (cases "provider_pool_new drv (pool_calls s) (pn_queueType s) (pn_flags s)")
    case (Inl r)
    with True show ?thesis by (subst (1 2) normal_allocate.simps) (simp add: add_pool_def)
  next
    case (Inr p)
    from added_pool [OF Inr] True Inr show ?thesis by (subst (1 2) normal_allocate.simps) auto
  qed
next
  case False
  let ?s3 = "s\<lparr>pools := srt (pools s)\<rparr>"
  have "set (srt (pools s)) = set (pools s)" using srt_mset mset_eq_setD by blast
  moreover from this False have "srt (pools s) \<noteq> []" by auto
  ultimately have empty: "alloc_back s = None" "alloc_back ?s3 = None"
    using none False last_in_set [of "srt (pools s)"] by (auto simp: alloc_back_None)
  show ?thesis
  proof (cases "provider_pool_new drv (pool_calls s) (pn_queueType s) (pn_flags s)")
    case (Inl r)
    with empty False show ?thesis by (subst (1 2) normal_allocate.simps) (simp add: add_pool_def Let_def)
  next
    case (Inr p)
    obtain s5 s6 where s5: "add_pool drv ?s3 = (None, s5)" "pools s5 \<noteq> []" "alloc_back s5 = Some (last (pool_freelist p), s6)"
      "pool_calls s6 = pool_calls s + 1"
      using added_pool [of drv ?s3 p] Inr by auto
    then have "normal_allocate srt drv s = (Inr (last (pool_freelist p)), s6)"
      using empty False by (subst normal_allocate.simps) (simp add: Let_def normal_allocate_back)
    with s5 Inr show ?thesis by simp
  qed
qed

lemma provider_exclusive:
  assumes "provider_wf p" and "draws {#} 0 (provider_avail p) (provider_fresh p)"
    and "lend_run (take_event srt drv) (\<lambda>_. provider_free) ops p = (s, held)"
  shows "distinct (map snd held) \<and> set (map snd held) \<inter> set_mset (provider_avail s) = {}"
  using ev.lend_exclusive [OF assms] by blast

end

lemma createProvider_wf:
  "provider_wf (createProvider ctor queue flags)" "provider_avail (createProvider ctor queue flags) = {#}"
  by (auto simp: createProvider_def provider_normal_new_def provider_counter_new_def normal_wf_def normal_avail_def
      split: sum.splits if_splits)

text \<open>
  C9: the events a provider lends are exclusive: whatever sequence of allocations and returns it
  serves, and wherever the driver refuses, no event of the driver is out twice and none that is out
  is on a free list.
\<close>

theorem provider_events_exclusive:
  assumes "std_sort srt"
    and "lend_run (take_event srt drv) (\<lambda>_. provider_free) ops (createProvider ctor queue flags) = (s, held)"
  shows "distinct (map snd held) \<and> set (map snd held) \<inter> set_mset (provider_avail s) = {}"
  using std_sort.provider_exclusive [OF assms(1) _ _ assms(2)] createProvider_wf by (simp add: draws_def)

definition sample_ze :: ze_events where
  "sample_ze = \<lparr>zeEventPoolCreate = (\<lambda>_ _. UR_RESULT_SUCCESS), zeEventCreate = (\<lambda>_ _. UR_RESULT_SUCCESS),
     eventCreateFunc = (\<lambda>_ _. UR_RESULT_SUCCESS)\<rparr>"

definition sample_ctor :: counter_ctor where
  "sample_ctor = \<lparr>getExtensionFunction = UR_RESULT_SUCCESS, translateContext = UR_RESULT_SUCCESS, translateDevice = UR_RESULT_SUCCESS\<rparr>"

text \<open>The driver refuses its second event; three are made, two of them are out at the end and one is free.\<close>

definition refusing_ze :: ze_events where
  "refusing_ze = sample_ze\<lparr>eventCreateFunc := (\<lambda>n _. if n = 1 then UR_RESULT_ERROR_OUT_OF_HOST_MEMORY else UR_RESULT_SUCCESS)\<rparr>"

lemma sample_counter_run:
  "lend_run (take_event (sort_key nfree) refusing_ze) (\<lambda>_. provider_free)
     [Take (), Take (), Take (), Give 1, Take (), Take (), Give 0]
     (createProvider sample_ctor QUEUE_IMMEDIATE EVENT_FLAGS_COUNTER) =
   (Counter \<lparr>pc_queueType = QUEUE_IMMEDIATE, pc_flags = 1, pc_freelist = [3], event_calls = 4\<rparr>, [((), 0), ((), 2)])"
  by (simp add: lend_run_def take_event_def createProvider_def provider_counter_new_def sample_ctor_def sample_ze_def
      refusing_ze_def has_flag_def EVENT_FLAGS_COUNTER_def counter_allocate_def counter_free_def)

theorem provider_events_exclusive_witness:
  "\<exists>s held. lend_run (take_event (sort_key nfree) refusing_ze) (\<lambda>_. provider_free)
     [Take (), Take (), Take (), Give 1, Take (), Take (), Give 0]
     (createProvider sample_ctor QUEUE_IMMEDIATE EVENT_FLAGS_COUNTER) = (s, held) \<and>
     held = [((), 0), ((), 2)] \<and> provider_avail s = {#3#} \<and>
     distinct (map snd held) \<and> set (map snd held) \<inter> set_mset (provider_avail s) = {}"
  using sample_counter_run provider_events_exclusive [OF stable.std_sort_axioms sample_counter_run] by simp

text \<open>
  C10: the normal provider asks the driver for a pool of 64 events exactly if none of its pools has
  a free one: as long as one has, an event is returned without a call of the driver, and otherwise
  the result is that of making one pool. The recursion in the code ends.
\<close>

theorem normal_allocate_on_demand:
  assumes "std_sort srt"
  shows "if \<exists>p \<in> set (pools s). pool_freelist p \<noteq> []
     then pool_calls (snd (normal_allocate srt drv s)) = pool_calls s \<and> (\<exists>e. fst (normal_allocate srt drv s) = Inr e)
     else pool_calls (snd (normal_allocate srt drv s)) = pool_calls s + 1 \<and>
       fst (normal_allocate srt drv s) =
         map_sum id (\<lambda>p. last (pool_freelist p)) (provider_pool_new drv (pool_calls s) (pn_queueType s) (pn_flags s))"
  using std_sort.normal_allocate_existing [OF assms, of _ s drv] std_sort.normal_allocate_new [OF assms, of s drv] by force

theorem normal_allocate_on_demand_witness:
  "fst (normal_allocate (sort_key nfree) sample_ze (provider_normal_new QUEUE_REGULAR 0)) =
     map_sum id (\<lambda>p. last (pool_freelist p)) (provider_pool_new sample_ze 0 QUEUE_REGULAR 0)"
  using normal_allocate_on_demand [OF stable.std_sort_axioms, of "provider_normal_new QUEUE_REGULAR 0" sample_ze]
  by (simp add: provider_normal_new_def)

end
