(* ===== verification/L0_Events.thy ===== *)
theory L0_Events
  imports UR_Double L0_Event_Providers UR_RefCount
begin

text \<open>
  Events of the second Level Zero adapter and the pools they come from
  (adapters/level_zero/v2/event.cpp, event.hpp, event_pool.cpp, event_pool.hpp). A pooled event is an
  index into the pool's \<open>events\<close>. The driver is a parameter as for the providers; the timer resolution
  is a \<open>double\<close>, and so are the products and sums with it (UR_Double).
\<close>

unbundle bit_operations_syntax

section \<open>Profiling data\<close>

record profiling_data =
  recordEventEndTimestamp :: u64
  adjustedEventEndTimestamp :: u64
  zeTimerResolution :: rat
  timestampMaxValue :: u64
  timestampRecorded :: bool

definition profiling_new :: profiling_data where
  "profiling_new = \<lparr>recordEventEndTimestamp = 0, adjustedEventEndTimestamp = 0, zeTimerResolution = 0,
     timestampMaxValue = 0, timestampRecorded = False\<rparr>"

text \<open>
  A count of ticks in nanoseconds: the count becomes a \<open>double\<close>, is multiplied by the resolution and
  the product truncated by the assignment to \<open>uint64_t\<close>. The correction of a wrapped end adds in
  \<open>double\<close> as well, since one operand is one.
\<close>

definition scale :: "rat \<Rightarrow> u64 \<Rightarrow> u64" where
  "scale res t = u64_of_double (double_mult (double_of_u64 t) res)"

definition adjustEndEventTimestamp :: "u64 \<Rightarrow> u64 \<Rightarrow> u64 \<Rightarrow> rat \<Rightarrow> u64" where
  "adjustEndEventTimestamp adjustedStart end_ticks maxValue res =
     (let adjusted = scale res (end_ticks AND maxValue)
      in if adjusted < adjustedStart
         then u64_of_double (double_plus (double_of_u64 adjusted) (double_mult (double_of_u64 maxValue) res))
         else adjusted)"

definition profiling_reset :: "profiling_data \<Rightarrow> profiling_data" where
  "profiling_reset p = p\<lparr>adjustedEventEndTimestamp := 0, timestampRecorded := False\<rparr>"

definition profiling_initTimestampRecording :: "rat \<Rightarrow> u64 \<Rightarrow> profiling_data \<Rightarrow> profiling_data" where
  "profiling_initTimestampRecording res msk p =
     p\<lparr>zeTimerResolution := res, timestampMaxValue := msk, timestampRecorded := True\<rparr>"

text \<open>\<open>ready\<close> is whether \<open>zeEventQueryStatus\<close> succeeds.\<close>

definition getEventEndTimestamp :: "bool \<Rightarrow> profiling_data \<Rightarrow> u64 \<times> profiling_data" where
  "getEventEndTimestamp ready p =
     (if adjustedEventEndTimestamp p \<noteq> 0 then (adjustedEventEndTimestamp p, p)
      else if \<not> ready then (0, p)
      else (let t = scale (zeTimerResolution p) (recordEventEndTimestamp p AND timestampMaxValue p)
            in (t, p\<lparr>adjustedEventEndTimestamp := t\<rparr>)))"

section \<open>Events\<close>

datatype event_variant = Cache_borrowed nat | Ze_event nat bool | Ipc_event nat

fun variant_handle :: "event_variant \<Rightarrow> nat" where
  "variant_handle (Cache_borrowed e) = e"
| "variant_handle (Ze_event e own) = e"
| "variant_handle (Ipc_event e) = e"

record ur_event =
  RefCount :: ref_count
  hZeEvent :: event_variant
  ev_flags :: event_flags
  hQueue :: "nat option"
  hDevice :: "nat option"
  batchGeneration :: "int option"
  commandType :: u32
  profilingData :: profiling_data

definition UR_COMMAND_FORCE_UINT32 :: u32 where "UR_COMMAND_FORCE_UINT32 = 0x7fffffff"

definition event_new :: "event_variant \<Rightarrow> event_flags \<Rightarrow> ur_event" where
  "event_new v flags = \<lparr>RefCount = \<lparr>Count = 1\<rparr>, hZeEvent = v, ev_flags = flags, hQueue = None, hDevice = None,
     batchGeneration = None, commandType = UR_COMMAND_FORCE_UINT32, profilingData = profiling_new\<rparr>"

definition getZeEvent :: "ur_event \<Rightarrow> nat" where
  "getZeEvent e = variant_handle (hZeEvent e)"

text \<open>
  \<open>qdev\<close> is the queue's answer to \<open>UR_QUEUE_INFO_DEVICE\<close>. When it fails the queue is already set and
  the exception leaves the rest as it was.
\<close>

definition setQueue :: "(nat \<Rightarrow> ur_result + nat) \<Rightarrow> nat option \<Rightarrow> ur_event \<Rightarrow> ur_result option \<times> ur_event" where
  "setQueue qdev q e =
     (let e1 = e\<lparr>hQueue := q\<rparr>;
          fin = (\<lambda>d. e1\<lparr>hDevice := d, profilingData := profiling_reset (profilingData e1)\<rparr>)
      in case q of
           None \<Rightarrow> (None, fin None)
         | Some h \<Rightarrow> (case qdev h of Inl r \<Rightarrow> (Some r, e1) | Inr d \<Rightarrow> (None, fin (Some d))))"

definition setBatch :: "int \<Rightarrow> ur_event \<Rightarrow> ur_event" where
  "setBatch g e = e\<lparr>batchGeneration := Some g\<rparr>"

definition setCommandType :: "u32 \<Rightarrow> ur_event \<Rightarrow> ur_event" where
  "setCommandType c e = e\<lparr>commandType := c\<rparr>"

text \<open>The first component lists the driver's events that are reset from the host.\<close>

definition event_reset :: "ur_event \<Rightarrow> nat list \<times> ur_event" where
  "event_reset e =
     ((if has_flag (ev_flags e) EVENT_FLAGS_COUNTER then [] else [getZeEvent e]), e\<lparr>batchGeneration := None\<rparr>)"

definition event_retain :: "ur_event \<Rightarrow> ur_event" where
  "event_retain e = e\<lparr>RefCount := snd (rc_retain (RefCount e))\<rparr>"

definition isTimestamped :: "ur_event \<Rightarrow> bool" where
  "isTimestamped e = timestampRecorded (profilingData e)"

definition isProfilingEnabled :: "ur_event \<Rightarrow> bool" where
  "isProfilingEnabled e = has_flag (ev_flags e) EVENT_FLAGS_PROFILING_ENABLED"

datatype profiling_info = COMMAND_QUEUED | COMMAND_SUBMIT | COMMAND_START | COMMAND_END | COMMAND_COMPLETE | OTHER_INFO

text \<open>What the device and the driver say: resolution, mask, and the two ticks of the kernel, or an error.\<close>

record ze_device_timer =
  timer_res :: rat
  timer_mask :: u64

definition urEventGetProfilingInfo ::
  "(nat \<Rightarrow> ze_device_timer) \<Rightarrow> bool \<Rightarrow> ur_result + (u64 \<times> u64) \<Rightarrow> profiling_info \<Rightarrow> ur_event \<Rightarrow> (ur_result + u64) \<times> ur_event" where
  "urEventGetProfilingInfo dev ready query info e =
     (if \<not> isProfilingEnabled e \<and> \<not> isTimestamped e then (Inl UR_RESULT_ERROR_PROFILING_INFO_NOT_AVAILABLE, e)
      else if isTimestamped e
      then (let (t, p) = getEventEndTimestamp ready (profilingData e) in (Inr t, e\<lparr>profilingData := p\<rparr>))
      else (case hDevice e of
              None \<Rightarrow> (Inl UR_RESULT_ERROR_PROFILING_INFO_NOT_AVAILABLE, e)
            | Some d \<Rightarrow>
                (let res = timer_res (dev d); msk = timer_mask (dev d)
                 in case info of
                      COMMAND_START \<Rightarrow>
                        (case query of Inl r \<Rightarrow> (Inl r, e) | Inr (ks, ke) \<Rightarrow> (Inr (scale res (ks AND msk)), e))
                    | COMMAND_END \<Rightarrow>
                        (case query of Inl r \<Rightarrow> (Inl r, e) | Inr (ks, ke) \<Rightarrow> (Inr (adjustEndEventTimestamp (ks AND msk) ke msk res), e))
                    | COMMAND_COMPLETE \<Rightarrow>
                        (case query of Inl r \<Rightarrow> (Inl r, e) | Inr (ks, ke) \<Rightarrow> (Inr (adjustEndEventTimestamp (ks AND msk) ke msk res), e))
                    | COMMAND_QUEUED \<Rightarrow> (Inr 0, e)
                    | COMMAND_SUBMIT \<Rightarrow> (Inr 0, e)
                    | OTHER_INFO \<Rightarrow> (Inl UR_RESULT_ERROR_INVALID_VALUE, e))))"

section \<open>The event pool\<close>

record event_pool =
  provider :: event_provider
  events :: "ur_event list"
  freelist :: "nat list"

definition event_pool_new :: "event_provider \<Rightarrow> event_pool" where
  "event_pool_new p = \<lparr>provider = p, events = [], freelist = []\<rparr>"

definition getFlags :: "event_pool \<Rightarrow> event_flags" where
  "getFlags s = eventFlags (provider s)"

text \<open>The loop that fills an empty pool: an exception leaves the events made so far on the free list.\<close>

fun fill ::
  "(provider_pool list \<Rightarrow> provider_pool list) \<Rightarrow> ze_events \<Rightarrow> nat \<Rightarrow> event_pool \<Rightarrow> ur_result option \<times> event_pool" where
  "fill srt drv 0 s = (None, s)"
| "fill srt drv (Suc n) s =
     (case provider_allocate srt drv (provider s) of
        (Inl r, p) \<Rightarrow> (Some r, s\<lparr>provider := p\<rparr>)
      | (Inr z, p) \<Rightarrow>
          fill srt drv n (s\<lparr>provider := p, events := events s @ [event_new (Cache_borrowed z) (eventFlags p)],
                           freelist := freelist s @ [length (events s)]\<rparr>))"

definition pop_event :: "bool \<Rightarrow> event_pool \<Rightarrow> nat \<times> event_pool" where
  "pop_event debug s =
     (let i = last (freelist s);
          e = events s ! i;
          e' = (if debug then setCommandType UR_COMMAND_FORCE_UINT32 (snd (setQueue (\<lambda>_. Inl UR_RESULT_ERROR_UNKNOWN) None e)) else e)
      in (i, s\<lparr>freelist := butlast (freelist s), events := (events s)[i := e']\<rparr>))"

definition pool_allocate_event ::
  "bool \<Rightarrow> (provider_pool list \<Rightarrow> provider_pool list) \<Rightarrow> ze_events \<Rightarrow> event_pool \<Rightarrow> (ur_result + nat) \<times> event_pool" where
  "pool_allocate_event debug srt drv s =
     (case (if freelist s = [] then fill srt drv EVENTS_BURST s else (None, s)) of
        (Some r, s1) \<Rightarrow> (Inl r, s1)
      | (None, s1) \<Rightarrow> (case pop_event debug s1 of (i, s2) \<Rightarrow> (Inr i, s2)))"

text \<open>A detached event takes the driver's event out of the provider for good.\<close>

definition allocateDetached ::
  "(provider_pool list \<Rightarrow> provider_pool list) \<Rightarrow> ze_events \<Rightarrow> event_pool \<Rightarrow> (ur_result + ur_event) \<times> event_pool" where
  "allocateDetached srt drv s =
     (case provider_allocate srt drv (provider s) of
        (Inl r, p) \<Rightarrow> (Inl r, s\<lparr>provider := p\<rparr>)
      | (Inr z, p) \<Rightarrow> (Inr (event_new (Ze_event z True) (eventFlags p)), s\<lparr>provider := p\<rparr>))"

definition pool_free_event :: "nat \<Rightarrow> event_pool \<Rightarrow> nat list \<times> event_pool" where
  "pool_free_event i s =
     (let (resets, e) = event_reset (events s ! i)
      in (resets, s\<lparr>events := (events s)[i := event_retain e], freelist := freelist s @ [i]\<rparr>))"

text \<open>Releasing a pooled event: the teardown of a borrowed event gives it back to its pool.\<close>

definition release_pooled :: "nat \<Rightarrow> event_pool \<Rightarrow> nat list \<times> event_pool" where
  "release_pooled i s =
     (let (zero, rc) = rc_release (RefCount (events s ! i));
          s1 = s\<lparr>events := (events s)[i := (events s ! i)\<lparr>RefCount := rc\<rparr>]\<rparr>
      in if \<not> zero then ([], s1) else pool_free_event i s1)"

definition retain_pooled :: "nat \<Rightarrow> event_pool \<Rightarrow> event_pool" where
  "retain_pooled i s = s\<lparr>events := (events s)[i := event_retain (events s ! i)]\<rparr>"

text \<open>
  What the last release of any event does: a borrowed one goes to its pool, a native one is deleted
  with the driver's event if it owns it, an imported one closes its handle.
\<close>

datatype teardown = Still_used | Pool_free nat | Ze_destroy nat | Ze_keep nat | Ipc_close nat

definition event_release :: "ur_event \<Rightarrow> teardown \<times> ur_event" where
  "event_release e =
     (let (zero, rc) = rc_release (RefCount e); e' = e\<lparr>RefCount := rc\<rparr>
      in if \<not> zero then (Still_used, e')
         else (case hZeEvent e of
                 Ze_event z own \<Rightarrow> (if own then Ze_destroy z else Ze_keep z, e')
               | Ipc_event z \<Rightarrow> (Ipc_close z, e')
               | Cache_borrowed z \<Rightarrow> (Pool_free z, e')))"

section \<open>Histories of a pool\<close>

text \<open>
  A state is the pool, the number of references its users hold on each event, and the driver's events
  that have left with detached events. A user who holds an event may change everything in it but its
  count, its handle and its flags; the count stays below its width.
\<close>

inductive ep_reach ::
  "bool \<Rightarrow> (provider_pool list \<Rightarrow> provider_pool list) \<Rightarrow> ze_events \<Rightarrow> event_pool \<times> (nat \<Rightarrow> nat) \<times> nat list \<Rightarrow> bool"
  for debug srt drv where
  init: "ep_reach debug srt drv (event_pool_new (createProvider ctor queue flags), \<lambda>_. 0, [])"
| alloc: "ep_reach debug srt drv (s, refs, out) \<Longrightarrow> pool_allocate_event debug srt drv s = (Inr i, s') \<Longrightarrow>
    ep_reach debug srt drv (s', refs(i := refs i + 1), out)"
| alloc_fail: "ep_reach debug srt drv (s, refs, out) \<Longrightarrow> pool_allocate_event debug srt drv s = (Inl r, s') \<Longrightarrow>
    ep_reach debug srt drv (s', refs, out)"
| detach: "ep_reach debug srt drv (s, refs, out) \<Longrightarrow> allocateDetached srt drv s = (Inr e, s') \<Longrightarrow>
    ep_reach debug srt drv (s', refs, getZeEvent e # out)"
| detach_fail: "ep_reach debug srt drv (s, refs, out) \<Longrightarrow> allocateDetached srt drv s = (Inl r, s') \<Longrightarrow>
    ep_reach debug srt drv (s', refs, out)"
| use: "ep_reach debug srt drv (s, refs, out) \<Longrightarrow> 0 < refs i \<Longrightarrow> RefCount e = RefCount (events s ! i) \<Longrightarrow>
    hZeEvent e = hZeEvent (events s ! i) \<Longrightarrow> ev_flags e = ev_flags (events s ! i) \<Longrightarrow>
    ep_reach debug srt drv (s\<lparr>events := (events s)[i := e]\<rparr>, refs, out)"
| retain: "ep_reach debug srt drv (s, refs, out) \<Longrightarrow> 0 < refs i \<Longrightarrow> refs i < 2 ^ 32 - 1 \<Longrightarrow>
    ep_reach debug srt drv (retain_pooled i s, refs(i := refs i + 1), out)"
| release: "ep_reach debug srt drv (s, refs, out) \<Longrightarrow> 0 < refs i \<Longrightarrow> release_pooled i s = (resets, s') \<Longrightarrow>
    ep_reach debug srt drv (s', refs(i := refs i - 1), out)"

text \<open>
  The invariant: an event on the free list is unreferenced, has the count 1 and no batch; every other
  event is counted exactly; the driver's events are all different.
\<close>

definition counted :: "event_pool \<Rightarrow> (nat \<Rightarrow> nat) \<Rightarrow> bool" where
  "counted s refs \<longleftrightarrow> distinct (freelist s) \<and> set (freelist s) \<subseteq> {..<length (events s)} \<and>
     (\<forall>i. length (events s) \<le> i \<longrightarrow> refs i = 0) \<and>
     (\<forall>i < length (events s).
        if i \<in> set (freelist s) then refs i = 0 \<and> Count (RefCount (events s ! i)) = 1 \<and> batchGeneration (events s ! i) = None
        else 0 < refs i \<and> unat (Count (RefCount (events s ! i))) = refs i)"

definition handles_apart :: "event_pool \<Rightarrow> nat list \<Rightarrow> bool" where
  "handles_apart s out \<longleftrightarrow> provider_wf (provider s) \<and>
     draws {#} 0 (provider_avail (provider s) + mset (map getZeEvent (events s) @ out)) (provider_fresh (provider s))"

lemma handles_apart_distinct: "handles_apart s out \<Longrightarrow> distinct (map getZeEvent (events s) @ out)"
  using draws_distinct handles_apart_def by blast

lemma counted_new:
  assumes "counted s refs" "Count (RefCount e) = 1" "batchGeneration e = None"
  shows "counted (s\<lparr>provider := p, events := events s @ [e], freelist := freelist s @ [length (events s)]\<rparr>) refs"
  using assms by (auto simp: counted_def nth_append less_Suc_eq)

lemma counted_provider [simp]: "counted (s\<lparr>provider := p\<rparr>) refs = counted s refs"
  by (simp add: counted_def)

lemma pop_counted:
  assumes "counted s refs" "freelist s \<noteq> []" "pop_event debug s = (i, s')"
  shows "counted s' (refs(i := refs i + 1)) \<and> refs i = 0 \<and> i < length (events s') \<and>
    Count (RefCount (events s' ! i)) = 1 \<and> batchGeneration (events s' ! i) = None"
proof -
  obtain fs where fs: "freelist s = fs @ [i]"
    using assms(2,3) by (cases "freelist s" rule: rev_cases) (auto simp: pop_event_def Let_def)
  have "i < length (events s)" "refs i = 0" "Count (RefCount (events s ! i)) = 1" "batchGeneration (events s ! i) = None" "i \<notin> set fs"
    using assms(1) fs by (auto simp: counted_def)
  moreover have "s' = s\<lparr>freelist := fs, events := (events s)[i := if debug
      then setCommandType UR_COMMAND_FORCE_UINT32 (snd (setQueue (\<lambda>_. Inl UR_RESULT_ERROR_UNKNOWN) None (events s ! i)))
      else events s ! i]\<rparr>"
    using assms(3) fs by (auto simp: pop_event_def Let_def)
  ultimately show ?thesis
    using assms(1) fs by (auto simp: counted_def nth_list_update setQueue_def setCommandType_def)
qed

lemma same_handles:
  assumes "hZeEvent e = hZeEvent (es ! i)"
  shows "map getZeEvent (es[i := e]) = map getZeEvent es"
proof (cases "i < length es")
  case True
  then have "(map getZeEvent es)[i := getZeEvent (es ! i)] = map getZeEvent es" by (metis list_update_id map_update)
  then show ?thesis using assms by (simp add: map_update getZeEvent_def)
qed (simp add: list_update_beyond)

lemma handles_apart_cong:
  "provider s' = provider s \<Longrightarrow> map getZeEvent (events s') = map getZeEvent (events s) \<Longrightarrow>
     handles_apart s' out = handles_apart s out"
  unfolding handles_apart_def by presburger

lemma handles_apart_update:
  "hZeEvent e = hZeEvent (events s ! i) \<Longrightarrow>
     handles_apart (s\<lparr>freelist := fs, events := (events s)[i := e]\<rparr>) out = handles_apart s out"
  "hZeEvent e = hZeEvent (events s ! i) \<Longrightarrow>
     handles_apart (s\<lparr>events := (events s)[i := e]\<rparr>) out = handles_apart s out"
  "hZeEvent e = hZeEvent (events s ! i) \<Longrightarrow>
     handles_apart (s\<lparr>events := (events s)[i := e], freelist := fs\<rparr>) out = handles_apart s out"
  by (auto intro!: handles_apart_cong simp: same_handles)

lemma pop_handles: "handles_apart s out \<Longrightarrow> pop_event debug s = (i, s') \<Longrightarrow> handles_apart s' out"
  by (auto simp: pop_event_def Let_def handles_apart_update setQueue_def setCommandType_def)

context std_sort
begin

lemma provider_take:
  assumes "handles_apart s out" "provider_allocate srt drv (provider s) = (res, p)"
  shows "draws {#} 0 ((case res of Inl _ \<Rightarrow> {#} | Inr z \<Rightarrow> {#z#}) + provider_avail p + mset (map getZeEvent (events s) @ out))
      (provider_fresh p) \<and> provider_wf p"
proof -
  have wf: "provider_wf (provider s)" using assms(1) by (simp add: handles_apart_def)
  note got = provider_allocate_draws(1,2) [OF wf assms(2)]
  show ?thesis
    using draws_trans [OF _ draws_mono [OF got(1)]] assms(1) got(2) unfolding handles_apart_def by blast
qed

lemma fill_inv:
  "handles_apart s out \<Longrightarrow> counted s refs \<Longrightarrow> fill srt drv n s = (r, s') \<Longrightarrow>
     handles_apart s' out \<and> counted s' refs \<and> (r = None \<longrightarrow> length (freelist s') = length (freelist s) + n)"
proof (induction n arbitrary: s)
  case (Suc n)
  obtain res p where alloc: "provider_allocate srt drv (provider s) = (res, p)" by force
  note drawn = provider_take [OF Suc.prems(1) alloc]
  show ?case
  proof (cases res)
    case (Inl e)
    with Suc.prems alloc drawn show ?thesis by (auto simp: handles_apart_def)
  next
    case (Inr z)
    let ?s = "s\<lparr>provider := p, events := events s @ [event_new (Cache_borrowed z) (eventFlags p)],
                freelist := freelist s @ [length (events s)]\<rparr>"
    have "counted ?s refs" by (rule counted_new) (simp_all add: Suc.prems event_new_def)
    moreover have "handles_apart ?s out"
      using drawn Inr by (simp add: handles_apart_def event_new_def getZeEvent_def ac_simps)
    moreover have "fill srt drv n ?s = (r, s')" using Suc.prems(3) alloc Inr by simp
    ultimately show ?thesis using Suc.IH [of ?s] by simp
  qed
qed simp

lemma allocate_event_inv:
  assumes "handles_apart s out" "counted s refs" "pool_allocate_event debug srt drv s = (res, s')"
  shows "handles_apart s' out"
    and "case res of
           Inl _ \<Rightarrow> counted s' refs
         | Inr i \<Rightarrow> counted s' (refs(i := refs i + 1)) \<and> refs i = 0 \<and> i < length (events s') \<and>
             Count (RefCount (events s' ! i)) = 1 \<and> batchGeneration (events s' ! i) = None"
proof -
  obtain r s1 where f: "(if freelist s = [] then fill srt drv EVENTS_BURST s else (None, s)) = (r, s1)" by force
  have s1: "handles_apart s1 out" "counted s1 refs" "r = None \<Longrightarrow> freelist s1 \<noteq> []"
    using f fill_inv [OF assms(1,2), of drv EVENTS_BURST r s1] assms(1,2) by (auto simp: EVENTS_BURST_def split: if_splits)
  show "handles_apart s' out"
    using assms(3) f s1 pop_handles by (cases r) (auto simp: pool_allocate_event_def split: prod.splits)
  show "case res of
           Inl _ \<Rightarrow> counted s' refs
         | Inr i \<Rightarrow> counted s' (refs(i := refs i + 1)) \<and> refs i = 0 \<and> i < length (events s') \<and>
             Count (RefCount (events s' ! i)) = 1 \<and> batchGeneration (events s' ! i) = None"
  proof (cases r)
    case (Some e)
    with assms(3) f s1 show ?thesis by (auto simp: pool_allocate_event_def)
  next
    case None
    obtain i s2 where pop: "pop_event debug s1 = (i, s2)" by force
    with assms(3) f None have "res = Inr i" "s' = s2" by (auto simp: pool_allocate_event_def)
    with pop_counted [OF s1(2) s1(3) [OF None] pop] show ?thesis by auto
  qed
qed

lemma detach_inv:
  assumes "handles_apart s out" "allocateDetached srt drv s = (res, s')"
  shows "handles_apart s' (case res of Inl _ \<Rightarrow> out | Inr e \<Rightarrow> getZeEvent e # out)" and "counted s' refs = counted s refs"
proof -
  obtain r p where alloc: "provider_allocate srt drv (provider s) = (r, p)" by force
  from provider_take [OF assms(1) alloc] show "handles_apart s' (case res of Inl _ \<Rightarrow> out | Inr e \<Rightarrow> getZeEvent e # out)"
    using assms(2) alloc
    by (cases r) (auto simp: allocateDetached_def handles_apart_def event_new_def getZeEvent_def ac_simps)
  show "counted s' refs = counted s refs"
    using assms(2) alloc by (cases r) (auto simp: allocateDetached_def)
qed

end

lemma held_event:
  assumes "counted s refs" "0 < refs i"
  shows "i < length (events s) \<and> i \<notin> set (freelist s) \<and> unat (Count (RefCount (events s ! i))) = refs i"
proof -
  have i: "i < length (events s)"
  proof (rule ccontr)
    assume "\<not> i < length (events s)"
    then have "refs i = 0" using assms(1) by (simp add: counted_def)
    with assms(2) show False by simp
  qed
  then have "if i \<in> set (freelist s) then refs i = 0 else unat (Count (RefCount (events s ! i))) = refs i"
    using assms(1) by (auto simp: counted_def)
  with i assms(2) show ?thesis by (auto split: if_splits)
qed

lemma retain_inv:
  assumes "counted s refs" "0 < refs i" "refs i < 2 ^ 32 - 1"
  shows "counted (retain_pooled i s) (refs(i := refs i + 1))"
proof -
  have i: "i < length (events s)" "i \<notin> set (freelist s)" "unat (Count (RefCount (events s ! i))) = refs i"
    using held_event [OF assms(1,2)] by simp_all
  then have "unat (Count (RefCount (events s ! i)) + 1) = refs i + 1"
    using assms(3) by (simp add: unat_word_ariths)
  then show ?thesis
    using assms(1) i by (auto simp: counted_def retain_pooled_def event_retain_def rc_retain_def Let_def nth_list_update)
qed

lemma use_inv:
  assumes "counted s refs" "0 < refs i" "RefCount e = RefCount (events s ! i)"
  shows "counted (s\<lparr>events := (events s)[i := e]\<rparr>) refs"
  using assms held_event [OF assms(1,2)] by (auto simp: counted_def nth_list_update)

lemma release_inv:
  assumes "counted s refs" "0 < refs i" "release_pooled i s = (resets, s')"
  shows "counted s' (refs(i := refs i - 1))"
proof -
  let ?c = "Count (RefCount (events s ! i))"
  have i: "i < length (events s)" "i \<notin> set (freelist s)" "unat ?c = refs i"
    using held_event [OF assms(1,2)] by simp_all
  have nz: "?c \<noteq> 0" using i(3) assms(2) by auto
  show ?thesis
  proof (cases "refs i = 1")
    case True
    then have c: "?c = 1" using i(3) by (metis unat_1 word_unat_eq_iff)
    then have "s' = s\<lparr>events := (events s)[i := (events s ! i)\<lparr>batchGeneration := None, RefCount := (RefCount (events s ! i))\<lparr>Count := 1\<rparr>\<rparr>],
        freelist := freelist s @ [i]\<rparr>"
      using assms(3) i
      by (auto simp: release_pooled_def rc_release_def pool_free_event_def event_reset_def event_retain_def rc_retain_def Let_def)
    then show ?thesis using assms(1) i True by (auto simp: counted_def nth_list_update)
  next
    case False
    have "?c - 1 \<noteq> 0" using False i(3) by auto
    then have s': "s' = s\<lparr>events := (events s)[i := (events s ! i)\<lparr>RefCount := (RefCount (events s ! i))\<lparr>Count := ?c - 1\<rparr>\<rparr>]\<rparr>"
      using assms(3) by (auto simp: release_pooled_def rc_release_def Let_def)
    have "unat (?c - 1) = refs i - 1" using unat_minus_one [OF nz] i(3) by simp
    then show ?thesis using assms(1,2) i False by (auto simp: s' counted_def nth_list_update)
  qed
qed

lemma retain_handles: "handles_apart (retain_pooled i s) out = handles_apart s out"
  by (simp add: retain_pooled_def handles_apart_update event_retain_def)

lemma release_handles:
  "release_pooled i s = (resets, s') \<Longrightarrow> i < length (events s) \<Longrightarrow> handles_apart s out \<Longrightarrow> handles_apart s' out"
  by (auto simp: release_pooled_def pool_free_event_def event_reset_def event_retain_def Let_def handles_apart_update
      split: prod.splits if_splits)

context std_sort
begin

lemma ep_reach_inv: "ep_reach debug srt drv (s, refs, out) \<Longrightarrow> counted s refs \<and> handles_apart s out"
proof (induction "(s, refs, out)" arbitrary: s refs out rule: ep_reach.induct)
  case (init ctor queue flags)
  then show ?case
    using createProvider_wf by (simp add: counted_def handles_apart_def event_pool_new_def draws_def)
next
  case (alloc s refs out i s')
  then show ?case using allocate_event_inv [of s out refs debug drv "Inr i" s'] by auto
next
  case (alloc_fail s refs out r s')
  then show ?case using allocate_event_inv [of s out refs debug drv "Inl r" s'] by auto
next
  case (detach s refs out e s')
  then show ?case using detach_inv [of s out drv "Inr e" s'] by auto
next
  case (detach_fail s refs out r s')
  then show ?case using detach_inv [of s out drv "Inl r" s'] by auto
next
  case (use s refs out i e)
  then show ?case using use_inv handles_apart_update(2) by blast
next
  case (retain s refs out i)
  then show ?case using retain_inv retain_handles by blast
next
  case (release s refs out i resets s')
  then show ?case using release_inv release_handles held_event by metis
qed

lemma allocated_event_free:
  assumes "ep_reach debug srt drv (s, refs, out)" "pool_allocate_event debug srt drv s = (Inr i, s')"
  shows "refs i = 0 \<and> i < length (events s') \<and> rc_getCount (RefCount (events s' ! i)) = 1 \<and>
    batchGeneration (events s' ! i) = None \<and> distinct (map getZeEvent (events s') @ out)"
proof -
  have inv: "handles_apart s out" "counted s refs" using ep_reach_inv [OF assms(1)] by simp_all
  from allocate_event_inv [OF inv assms(2)] show ?thesis
    using handles_apart_distinct [of s' out] by (auto simp: rc_getCount_def)
qed

end

text \<open>
  C7: whatever its users have done with a pool's events - allocations, references taken and given
  back, detached events, failures of the driver in the middle of a burst - an event the pool hands
  out next is one that nobody holds, has the count 1 and no batch, and no two events, pooled or
  detached, share an event of the driver.
\<close>

theorem event_pool_hands_out_free_events:
  assumes "std_sort srt" and "ep_reach debug srt drv (s, refs, out)" and "pool_allocate_event debug srt drv s = (Inr i, s')"
  shows "refs i = 0 \<and> i < length (events s') \<and> rc_getCount (RefCount (events s' ! i)) = 1 \<and>
    batchGeneration (events s' ! i) = None \<and> distinct (map getZeEvent (events s') @ out)"
  using std_sort.allocated_event_free [OF assms] .

lemma fill_all: "provider s = Counter c \<Longrightarrow> pc_freelist c = [] \<Longrightarrow> fst (fill srt sample_ze n s) = None"
  by (induction n arbitrary: s c) (simp_all add: counter_allocate_def sample_ze_def Let_def)

lemma sample_pool_allocates:
  "\<exists>i s'. pool_allocate_event False (sort_key nfree) sample_ze
     (event_pool_new (createProvider sample_ctor QUEUE_IMMEDIATE EVENT_FLAGS_COUNTER)) = (Inr i, s')"
proof -
  let ?s = "event_pool_new (createProvider sample_ctor QUEUE_IMMEDIATE EVENT_FLAGS_COUNTER)"
  have "fst (fill (sort_key nfree) sample_ze EVENTS_BURST ?s) = None"
    by (rule fill_all [of _ "\<lparr>pc_queueType = QUEUE_IMMEDIATE, pc_flags = 1, pc_freelist = [], event_calls = 0\<rparr>"])
      (simp_all add: event_pool_new_def createProvider_def provider_counter_new_def sample_ctor_def has_flag_def EVENT_FLAGS_COUNTER_def)
  then show ?thesis
    by (cases "fill (sort_key nfree) sample_ze EVENTS_BURST ?s")
      (auto simp: pool_allocate_event_def event_pool_new_def pop_event_def Let_def split: prod.splits)
qed

theorem event_pool_hands_out_free_events_witness:
  "\<exists>i s'. pool_allocate_event False (sort_key nfree) sample_ze
     (event_pool_new (createProvider sample_ctor QUEUE_IMMEDIATE EVENT_FLAGS_COUNTER)) = (Inr i, s') \<and>
     i < length (events s') \<and> distinct (map getZeEvent (events s'))"
  using sample_pool_allocates event_pool_hands_out_free_events [OF stable.std_sort_axioms ep_reach.init] by fastforce

section \<open>Profiling\<close>

text \<open>The exact time of a count, of which the code computes an approximation.\<close>

definition exact_ns :: "rat \<Rightarrow> u64 \<Rightarrow> rat" where
  "exact_ns res t = of_nat (unat t) * res"

text \<open>The reported time is at most a nanosecond and one part in \<open>2^53\<close> away.\<close>

definition close_ns :: "rat \<Rightarrow> u64 \<Rightarrow> u64 \<Rightarrow> bool" where
  "close_ns res t v \<longleftrightarrow> \<bar>of_int (uint v) - exact_ns res t\<bar> \<le> exact_ns res t / 2 ^ 53 + 1"

lemma exact_ns_mono: "0 \<le> res \<Longrightarrow> a \<le> b \<Longrightarrow> exact_ns res a \<le> exact_ns res b"
  unfolding exact_ns_def word_le_nat_alt by (intro mult_right_mono) (simp_all only: of_nat_le_iff)

lemma double_of_u64_small: "unat t < 2 ^ 53 \<Longrightarrow> double_of_u64 t = of_nat (unat t)"
  using to_double_int [of "int (unat t)"] by (simp add: double_of_u64_def del: of_nat_unat)

lemma scale_small:
  assumes "unat t < 2 ^ 53" and "exact_ns res t \<le> 2 ^ 63"
  shows "uint (scale res t) = \<lfloor>to_double (exact_ns res t)\<rfloor>"
proof -
  have "to_double (exact_ns res t) \<le> to_double (2 ^ 63)" using assms(2) by (rule to_double_mono)
  also have "\<dots> < 2 ^ 64"
  proof -
    have "\<bar>to_double (2 ^ 63) - 2 ^ 63\<bar> \<le> (2 ^ 63 :: rat) / 2 ^ 53" by (rule to_double_near) simp
    then show ?thesis by (simp add: abs_le_iff)
  qed
  finally have "\<lfloor>to_double (exact_ns res t)\<rfloor> < 2 ^ 64" by (simp add: floor_less_iff)
  moreover have "0 \<le> \<lfloor>to_double (exact_ns res t)\<rfloor>" using to_double_nonneg by simp
  ultimately show ?thesis
    using assms(1) by (simp add: scale_def double_mult_def double_of_u64_small u64_of_double_def exact_ns_def uint_word_of_int)
qed

lemma scale_close:
  assumes "unat t < 2 ^ 53" and "1 \<le> res" and "exact_ns res t \<le> 2 ^ 63"
  shows "close_ns res t (scale res t)"
proof (cases "t = 0")
  case True
  then show ?thesis using scale_small [OF assms(1,3)] by (simp add: close_ns_def exact_ns_def to_double_def)
next
  case False
  then have "1 \<le> (of_nat (unat t) :: rat)" using of_nat_mono [of 1 "unat t"] by (simp add: unat_gt_0 Suc_le_eq del: of_nat_unat)
  then have "1 \<le> exact_ns res t" unfolding exact_ns_def using assms(2) mult_mono [of 1 "of_nat (unat t)" 1 res] by simp
  from to_double_near [OF this] show ?thesis
    unfolding close_ns_def scale_small [OF assms(1,3)] by linarith
qed

lemma scale_ge_ticks:
  assumes "unat t < 2 ^ 53" and "1 \<le> res" and "exact_ns res t \<le> 2 ^ 63"
  shows "uint t \<le> uint (scale res t)"
proof -
  have "of_nat (unat t) \<le> exact_ns res t"
    using mult_left_mono [OF assms(2), of "of_nat (unat t)"] by (simp add: exact_ns_def del: of_nat_unat)
  from to_double_mono [OF this] have "of_int (int (unat t)) \<le> to_double (exact_ns res t)"
    using double_of_u64_small [OF assms(1)] by (simp add: double_of_u64_def)
  then have "int (unat t) \<le> \<lfloor>to_double (exact_ns res t)\<rfloor>" by (simp only: le_floor_iff)
  then show ?thesis using scale_small [OF assms(1,3)] by (simp only: uint_nat)
qed

text \<open>
  C13: for a kernel whose counter did not wrap, on a device whose counter has at most 53 bits and whose
  clock has a resolution of at least a nanosecond, up to \<open>2^63\<close> nanoseconds: the end that profiling
  reports is not before the start, and each of the two, computed with the rounding of \<open>double\<close>,
  differs from the exact time by at most one nanosecond and one part in \<open>2^53\<close>.
\<close>

theorem profiling_interval:
  assumes "isProfilingEnabled e" "\<not> isTimestamped e" "hDevice e = Some d"
    and "unat (timer_mask (dev d)) < 2 ^ 53" "1 \<le> timer_res (dev d)"
    and "ks AND timer_mask (dev d) \<le> ke AND timer_mask (dev d)"
    and "exact_ns (timer_res (dev d)) (ke AND timer_mask (dev d)) \<le> 2 ^ 63"
  shows "\<exists>t0 t1. urEventGetProfilingInfo dev ready (Inr (ks, ke)) COMMAND_START e = (Inr t0, e) \<and>
     urEventGetProfilingInfo dev ready (Inr (ks, ke)) COMMAND_END e = (Inr t1, e) \<and> t0 \<le> t1 \<and>
     close_ns (timer_res (dev d)) (ks AND timer_mask (dev d)) t0 \<and>
     close_ns (timer_res (dev d)) (ke AND timer_mask (dev d)) t1"
proof -
  let ?r = "timer_res (dev d)" and ?m = "timer_mask (dev d)" and ?s = "ks AND timer_mask (dev d)" and ?e = "ke AND timer_mask (dev d)"
  have "?e \<le> ?m" by (simp add: word_and_le1)
  then have small: "unat ?e < 2 ^ 53" "unat ?s < 2 ^ 53"
    using assms(4,6) unfolding word_le_nat_alt by linarith+
  have le: "exact_ns ?r ?s \<le> exact_ns ?r ?e" using exact_ns_mono assms(5,6) by simp
  then have range: "exact_ns ?r ?s \<le> 2 ^ 63" using assms(7) by linarith
  have "uint (scale ?r ?s) \<le> uint (scale ?r ?e)"
    unfolding scale_small [OF small(2) range] scale_small [OF small(1) assms(7)]
    by (intro floor_mono to_double_mono le)
  moreover have "uint ?s \<le> uint (scale ?r ?e)"
    using scale_ge_ticks [OF small(1) assms(5,7)] assms(6) unfolding word_le_def by linarith
  then have "\<not> scale ?r ?e < ?s" by (simp add: word_less_def not_less)
  ultimately show ?thesis
    using assms(1-3) scale_close [OF small(2) assms(5) range] scale_close [OF small(1) assms(5,7)]
    by (simp add: urEventGetProfilingInfo_def adjustEndEventTimestamp_def Let_def word_le_def)
qed

definition sample_event :: ur_event where
  "sample_event = (event_new (Cache_borrowed 0) EVENT_FLAGS_PROFILING_ENABLED)\<lparr>hDevice := Some 0\<rparr>"

definition sample_timer :: "nat \<Rightarrow> ze_device_timer" where
  "sample_timer d = \<lparr>timer_res = 52, timer_mask = 0xffffffff\<rparr>"

lemmas sample_event_defs = sample_event_def sample_timer_def event_new_def isProfilingEnabled_def isTimestamped_def has_flag_def
  EVENT_FLAGS_PROFILING_ENABLED_def profiling_new_def

theorem profiling_interval_witness:
  "\<exists>t0 t1. urEventGetProfilingInfo sample_timer True (Inr (1000, 3000)) COMMAND_START sample_event = (Inr t0, sample_event) \<and>
     urEventGetProfilingInfo sample_timer True (Inr (1000, 3000)) COMMAND_END sample_event = (Inr t1, sample_event) \<and>
     t0 \<le> t1 \<and> close_ns 52 1000 t0 \<and> close_ns 52 3000 t1"
  using profiling_interval [of sample_event 0 sample_timer 1000 3000 True]
  by (simp add: sample_event_defs exact_ns_def)

text \<open>Whole resolutions: small products are exact.\<close>

lemma scale_whole:
  assumes "unat t < 2 ^ 53" and "0 \<le> k" and "int (unat t) * k < 2 ^ 53"
  shows "scale (of_int k) t = word_of_int (int (unat t) * k)"
proof -
  have "to_double (of_int (int (unat t) * k)) = of_int (int (unat t) * k)" using assms(2,3) by (intro to_double_int) auto
  then have "double_mult (double_of_u64 t) (of_int k) = of_int (int (unat t) * k)"
    using double_of_u64_small [OF assms(1)] by (simp add: double_mult_def del: of_nat_unat)
  then show ?thesis by (simp only: scale_def u64_of_double_def floor_of_int)
qed

text \<open>
  The correction for a counter that wrapped compares the end in nanoseconds with the start in ticks,
  so it is not applied where it is meant to be: with 52 nanoseconds per tick and a 32-bit counter the
  kernel below starts 500 ticks before the wrap, ends 100000000 ticks after it, and is reported to end before it started.
\<close>

theorem wrapped_end_before_start:
  "\<exists>t0 t1. urEventGetProfilingInfo sample_timer True (Inr (0xffffffff - 500, 100000000)) COMMAND_START sample_event = (Inr t0, sample_event) \<and>
     urEventGetProfilingInfo sample_timer True (Inr (0xffffffff - 500, 100000000)) COMMAND_END sample_event = (Inr t1, sample_event) \<and> t1 < t0"
  using scale_whole [of "0xffffffff - 500" 52] scale_whole [of 100000000 52]
  by (simp add: urEventGetProfilingInfo_def adjustEndEventTimestamp_def Let_def sample_event_defs)

text \<open>
  Beyond 53 bits the conversion to \<open>double\<close> itself loses ticks. With a counter of 64 bits and a tick of
  one nanosecond, the end of a kernel of no duration can be computed smaller than its start: the
  correction for a wrapped counter is then applied although it did not wrap.
\<close>

theorem rounding_taken_for_wrap:
  "\<exists>t. scale 1 t < t"
proof
  have "exponent_of (2 ^ 53 + 1) = 53" by (rule exponent_unique) simp_all
  then have "to_double (2 ^ 53 + 1) = 2 ^ 53" "to_double (2 ^ 53) = 2 ^ 53"
    using exponent_unique [of 53 "2 ^ 53"] floor_unique [of 4503599627370496 "9007199254740993 / 2 :: rat"]
    by (simp_all add: to_double_def ulp_exp_def round_even_def Let_def)
  then show "scale 1 0x20000000000001 < 0x20000000000001"
    by (simp add: scale_def double_of_u64_def double_mult_def u64_of_double_def)
qed

end
