(* ===== verification/L0_Event_Cache.thy ===== *)
theory L0_Event_Cache
  imports L0_Events
begin

text \<open>
  The cache of event pools a context keeps (adapters/level_zero/v2/event_pool_cache.cpp and .hpp) and
  the creation of events from it (\<open>urEventCreateExp\<close> in event.cpp). The pools are objects of a heap,
  numbered in the order they are made, with the device and the flags each was made for; a slot of the
  cache lists the pools that are in it, \<open>back\<close> last.
\<close>

unbundle bit_operations_syntax

section \<open>The cache\<close>

record pool_cache =
  slots :: "nat list list"
  heap :: "(u64 \<times> event_flags \<times> event_pool) list"

definition pool_index :: "u64 \<Rightarrow> event_flags \<Rightarrow> u64" where
  "pool_index device flags = ucast flags OR push_bit EVENT_FLAGS_USED_BITS device"

definition pool_cache_new :: "nat \<Rightarrow> pool_cache" where
  "pool_cache_new max_devices = \<lparr>slots = replicate (max_devices * 2 ^ EVENT_FLAGS_USED_BITS) [], heap = []\<rparr>"

text \<open>
  \<open>Inr None\<close> is the null pointer for an index out of range; the provider's constructor may throw.
\<close>

definition borrow ::
  "(u64 \<Rightarrow> event_flags \<Rightarrow> ur_result + event_provider) \<Rightarrow> u64 \<Rightarrow> event_flags \<Rightarrow> pool_cache
     \<Rightarrow> (ur_result + nat option) \<times> pool_cache" where
  "borrow providerCreate dev flags s =
     (let i = unat (pool_index dev flags)
      in if length (slots s) \<le> i then (Inr None, s)
         else if slots s ! i = []
         then (case providerCreate dev flags of
                 Inl r \<Rightarrow> (Inl r, s)
               | Inr p \<Rightarrow> (Inr (Some (length (heap s))), s\<lparr>heap := heap s @ [(dev, flags, event_pool_new p)]\<rparr>))
         else (Inr (Some (last (slots s ! i))), s\<lparr>slots := (slots s)[i := butlast (slots s ! i)]\<rparr>))"

definition give_back :: "u64 \<Rightarrow> event_flags \<Rightarrow> nat \<Rightarrow> pool_cache \<Rightarrow> pool_cache" where
  "give_back dev flags r s =
     (let i = unat (pool_index dev flags) in s\<lparr>slots := (slots s)[i := slots s ! i @ [r]]\<rparr>)"

section \<open>Creating an event\<close>

definition UR_EXP_EVENT_FLAG_ENABLE_PROFILING :: u32 where "UR_EXP_EVENT_FLAG_ENABLE_PROFILING = 1"
definition UR_EXP_EVENT_FLAG_IPC_EXP :: u32 where "UR_EXP_EVENT_FLAG_IPC_EXP = 2"
definition UR_EXP_EVENT_FLAGS_MASK :: u32 where "UR_EXP_EVENT_FLAGS_MASK = 0xfffffffc"

datatype event_handle = Pooled nat nat | Detached ur_event

text \<open>\<open>Null_pool\<close>: the pool is used although the cache returned a null pointer, which only an assertion excludes.\<close>

datatype create_outcome = Created event_handle | Create_failed ur_result | Null_pool

definition create_flags :: "u32 \<Rightarrow> event_flags" where
  "create_flags descFlags = EVENT_FLAGS_COUNTER OR
     (if descFlags AND UR_EXP_EVENT_FLAG_ENABLE_PROFILING \<noteq> 0 then EVENT_FLAGS_PROFILING_ENABLED else 0) OR
     (if descFlags AND UR_EXP_EVENT_FLAG_IPC_EXP \<noteq> 0 then EVENT_FLAGS_IPC else 0)"

definition use_pool ::
  "bool \<Rightarrow> (provider_pool list \<Rightarrow> provider_pool list) \<Rightarrow> ze_events \<Rightarrow> event_flags \<Rightarrow> nat \<Rightarrow> pool_cache \<Rightarrow> create_outcome \<times> pool_cache" where
  "use_pool debug srt drv flags r s =
     (case heap s ! r of (dev, fl, pool) \<Rightarrow>
        if has_flag flags EVENT_FLAGS_IPC
        then (case allocateDetached srt drv pool of
                (Inl e, pool') \<Rightarrow> (Create_failed e, s\<lparr>heap := (heap s)[r := (dev, fl, pool')]\<rparr>)
              | (Inr ev, pool') \<Rightarrow> (Created (Detached ev), s\<lparr>heap := (heap s)[r := (dev, fl, pool')]\<rparr>))
        else (case pool_allocate_event debug srt drv pool of
                (Inl e, pool') \<Rightarrow> (Create_failed e, s\<lparr>heap := (heap s)[r := (dev, fl, pool')]\<rparr>)
              | (Inr i, pool') \<Rightarrow> (Created (Pooled r i), s\<lparr>heap := (heap s)[r := (dev, fl, pool')]\<rparr>)))"

text \<open>The handles and pointers are parameters only as far as they may be null.\<close>

definition urEventCreateExp ::
  "(u64 \<Rightarrow> event_flags \<Rightarrow> ur_result + event_provider) \<Rightarrow> bool \<Rightarrow> (provider_pool list \<Rightarrow> provider_pool list) \<Rightarrow> ze_events
     \<Rightarrow> bool \<Rightarrow> u64 option \<Rightarrow> u32 option \<Rightarrow> bool \<Rightarrow> pool_cache \<Rightarrow> create_outcome \<times> pool_cache" where
  "urEventCreateExp providerCreate debug srt drv hContext hDev pEventDesc phEvent s =
     (case hDev of
        None \<Rightarrow> (Create_failed UR_RESULT_ERROR_INVALID_NULL_HANDLE, s)
      | Some dev \<Rightarrow>
          if \<not> hContext then (Create_failed UR_RESULT_ERROR_INVALID_NULL_HANDLE, s)
          else (case pEventDesc of
             None \<Rightarrow> (Create_failed UR_RESULT_ERROR_INVALID_NULL_POINTER, s)
           | Some descFlags \<Rightarrow>
               if \<not> phEvent then (Create_failed UR_RESULT_ERROR_INVALID_NULL_POINTER, s)
               else if descFlags AND UR_EXP_EVENT_FLAGS_MASK \<noteq> 0 then (Create_failed UR_RESULT_ERROR_INVALID_ENUMERATION, s)
               else (let flags = create_flags descFlags
                     in if has_flag flags EVENT_FLAGS_IPC \<and> has_flag flags EVENT_FLAGS_PROFILING_ENABLED
                        then (Create_failed UR_RESULT_ERROR_INVALID_VALUE, s)
                        else (case borrow providerCreate dev flags s of
                                (Inl r, s1) \<Rightarrow> (Create_failed r, s1)
                              | (Inr None, s1) \<Rightarrow> (Null_pool, s1)
                              | (Inr (Some r), s1) \<Rightarrow>
                                  (case use_pool debug srt drv flags r s1 of (res, s2) \<Rightarrow> (res, give_back dev flags r s2))))))"

section \<open>Lending\<close>

definition take_pool ::
  "(u64 \<Rightarrow> event_flags \<Rightarrow> ur_result + event_provider) \<Rightarrow> u64 \<times> event_flags \<Rightarrow> pool_cache \<Rightarrow> nat option \<times> pool_cache" where
  "take_pool create k s = (case borrow create (fst k) (snd k) s of (Inr r, s') \<Rightarrow> (r, s') | (Inl _, s') \<Rightarrow> (None, s'))"

definition give_pool :: "u64 \<times> event_flags \<Rightarrow> nat \<Rightarrow> pool_cache \<Rightarrow> pool_cache" where
  "give_pool k r s = give_back (fst k) (snd k) r s"

definition key_index :: "u64 \<times> event_flags \<Rightarrow> nat" where
  "key_index k = unat (pool_index (fst k) (snd k))"

definition made_at :: "pool_cache \<Rightarrow> nat \<Rightarrow> u64 \<times> event_flags" where
  "made_at s r = (case heap s ! r of (dev, fl, _) \<Rightarrow> (dev, fl))"

definition pool_home :: "pool_cache \<Rightarrow> u64 \<times> event_flags \<Rightarrow> nat \<Rightarrow> bool" where
  "pool_home s k r \<longleftrightarrow> r < length (heap s) \<and> key_index k < length (slots s) \<and> key_index (made_at s r) = key_index k"

definition cache_ok :: "pool_cache \<Rightarrow> bool" where
  "cache_ok s \<longleftrightarrow> (\<forall>i < length (slots s). \<forall>r \<in> set (slots s ! i). r < length (heap s) \<and> key_index (made_at s r) = i)"

lemma mset_concat_update:
  "i < length xss \<Longrightarrow> mset (concat (xss[i := ys])) + mset (xss ! i) = mset (concat xss) + mset ys"
proof (induction xss arbitrary: i)
  case (Cons xs xss)
  then show ?case by (cases i) (auto simp: add.commute add.left_commute)
qed simp

lemma borrow_cases:
  assumes "take_pool create k s = (res, s')"
  obtains (none) "res = None" "s' = s"
  | (made) p where "res = Some (length (heap s))" "key_index k < length (slots s)" "slots s ! key_index k = []"
      "s' = s\<lparr>heap := heap s @ [(fst k, snd k, p)]\<rparr>"
  | (popped) rs r where "res = Some r" "key_index k < length (slots s)" "slots s ! key_index k = rs @ [r]"
      "s' = s\<lparr>slots := (slots s)[key_index k := rs]\<rparr>"
proof -
  note unfolded = assms [unfolded take_pool_def borrow_def Let_def key_index_def [symmetric]]
  show ?thesis
  proof (cases "key_index k < length (slots s)")
    case False
    show ?thesis by (rule none) (use unfolded False in simp_all)
  next
    case True
    show ?thesis
    proof (cases "slots s ! key_index k" rule: rev_cases)
      case Nil
      show ?thesis
      proof (cases "create (fst k) (snd k)")
        case (Inl e)
        show ?thesis by (rule none) (use unfolded True Nil Inl in simp_all)
      next
        case (Inr p)
        show ?thesis by (rule made [of "event_pool_new p"]) (use unfolded True Nil Inr in simp_all)
      qed
    next
      case (snoc rs r)
      show ?thesis by (rule popped [of r rs]) (use unfolded True snoc in simp_all)
    qed
  qed
qed

lemma made_at_append: "r < length (heap s) \<Longrightarrow> made_at (s\<lparr>heap := heap s @ xs\<rparr>) r = made_at s r"
  by (simp add: made_at_def nth_append)

lemma made_at_slots [simp]: "made_at (s\<lparr>slots := x\<rparr>) r = made_at s r"
  by (simp add: made_at_def)

lemma made_at_new: "made_at (s\<lparr>heap := heap s @ [(d, f, p)]\<rparr>) (length (heap s)) = (d, f)"
  by (simp add: made_at_def)

lemma pop_slot:
  assumes "cache_ok s" "i < length (slots s)" "slots s ! i = rs @ [r]"
  shows "cache_ok (s\<lparr>slots := (slots s)[i := rs]\<rparr>)" and "r < length (heap s)" "key_index (made_at s r) = i"
    and "add_mset r (mset (concat ((slots s)[i := rs]))) = mset (concat (slots s))"
proof -
  have slot: "\<forall>x \<in> set (rs @ [r]). x < length (heap s) \<and> key_index (made_at s x) = i"
    using assms unfolding cache_ok_def by metis
  then show "r < length (heap s)" "key_index (made_at s r) = i" by simp_all
  have "\<forall>x \<in> set ((slots s)[i := rs] ! j). x < length (heap s) \<and> key_index (made_at s x) = j" if "j < length (slots s)" for j
    using that slot assms(1) by (cases "j = i") (auto simp: cache_ok_def)
  then show "cache_ok (s\<lparr>slots := (slots s)[i := rs]\<rparr>)" by (simp add: cache_ok_def)
  show "add_mset r (mset (concat ((slots s)[i := rs]))) = mset (concat (slots s))"
    using mset_concat_update [OF assms(2), of rs] assms(3) by simp
qed

lemma push_slot:
  assumes "cache_ok s" "pool_home s k r"
  shows "cache_ok (give_pool k r s)" and "mset (concat (slots (give_pool k r s))) = add_mset r (mset (concat (slots s)))"
    and "heap (give_pool k r s) = heap s"
proof -
  let ?i = "key_index k"
  have i: "?i < length (slots s)" "r < length (heap s)" "key_index (made_at s r) = ?i"
    using assms(2) by (simp_all add: pool_home_def)
  have s': "give_pool k r s = s\<lparr>slots := (slots s)[?i := slots s ! ?i @ [r]]\<rparr>"
    by (simp add: give_pool_def give_back_def key_index_def Let_def)
  have "\<forall>x \<in> set ((slots s)[?i := slots s ! ?i @ [r]] ! j). x < length (heap s) \<and> key_index (made_at s x) = j"
    if "j < length (slots s)" for j
    using that i assms(1) by (cases "j = ?i") (auto simp: cache_ok_def)
  then show "cache_ok (give_pool k r s)" by (simp add: s' cache_ok_def)
  show "mset (concat (slots (give_pool k r s))) = add_mset r (mset (concat (slots s)))"
    using mset_concat_update [OF i(1), of "slots s ! ?i @ [r]"] by (simp add: s')
  show "heap (give_pool k r s) = heap s" by (simp add: s')
qed

interpretation pc: lender "take_pool create" give_pool "\<lambda>s. mset (concat (slots s))" "\<lambda>s. length (heap s)" pool_home cache_ok
  for create
proof unfold_locales
  fix s k r s'
  assume ok: "cache_ok s" and get: "take_pool create k s = (Some r, s')"
  from get show "draws (mset (concat (slots s))) (length (heap s)) (add_mset r (mset (concat (slots s')))) (length (heap s')) \<and>
      cache_ok s' \<and> pool_home s' k r"
  proof (cases rule: borrow_cases)
    case (made p)
    then show ?thesis
      using ok made_at_append [of _ s "[(fst k, snd k, p)]"] made_at_new [of s "fst k" "snd k" p]
      by (auto simp: cache_ok_def pool_home_def less_Suc_eq)
  next
    case (popped rs r')
    with pop_slot [OF ok popped(2,3)] show ?thesis by (auto simp: pool_home_def)
  qed simp
next
  fix s k s'
  assume ok: "cache_ok s" and get: "take_pool create k s = (None, s')"
  from get show "draws (mset (concat (slots s))) (length (heap s)) (mset (concat (slots s'))) (length (heap s')) \<and> cache_ok s'"
    by (cases rule: borrow_cases) (use ok in auto)
next
  fix s k r
  assume "cache_ok s" "pool_home s k r"
  from push_slot [OF this]
  show "length (heap (give_pool k r s)) = length (heap s) \<and>
      mset (concat (slots (give_pool k r s))) = add_mset r (mset (concat (slots s))) \<and> cache_ok (give_pool k r s)"
    by simp
next
  fix s k r k'
  assume home: "pool_home s k r"
  obtain res s' where get: "take_pool create k' s = (res, s')" by force
  from get have "pool_home s' k r"
    by (cases rule: borrow_cases) (use home in \<open>auto simp: pool_home_def made_at_append\<close>)
  with get show "pool_home (snd (take_pool create k' s)) k r" by simp
next
  fix s k r k' r'
  assume "pool_home s k r"
  then show "pool_home (give_pool k' r' s) k r"
    by (simp add: pool_home_def give_pool_def give_back_def Let_def)
qed

section \<open>Slots belong to one device and one set of flags\<close>

text \<open>The three flags of a pool, and devices below \<open>2 ^ 61\<close>, are what fits the index.\<close>

definition indexable :: "u64 \<times> event_flags \<Rightarrow> bool" where
  "indexable k \<longleftrightarrow> unat (fst k) < 2 ^ 61 \<and> unat (snd k) < 2 ^ EVENT_FLAGS_USED_BITS"

lemma take_bit_small: "unat w < 2 ^ n \<Longrightarrow> take_bit n w = w"
  by (simp only: word_unat_eq_iff unsigned_take_bit_eq take_bit_nat_eq_self)

lemma pool_index_bits:
  assumes "indexable (d, f)"
  shows "bit (pool_index d f) n \<longleftrightarrow> (if n < 3 then bit f n else bit d (n - 3))"
proof -
  have f: "take_bit 3 f = f" and d: "take_bit 61 d = d"
    using assms by (simp_all add: indexable_def EVENT_FLAGS_USED_BITS_def take_bit_small)
  have fb: "n < 3" if "bit f n" for n using that by (subst (asm) f [symmetric]) (simp add: bit_take_bit_iff)
  have db: "n < 61" if "bit d n" for n using that by (subst (asm) d [symmetric]) (simp add: bit_take_bit_iff)
  have "bit (pool_index d f) n \<longleftrightarrow> n < 64 \<and> bit f n \<or> 3 \<le> n \<and> n < 64 \<and> bit d (n - 3)"
    by (auto simp: pool_index_def EVENT_FLAGS_USED_BITS_def bit_or_iff bit_push_bit_iff bit_ucast_iff)
  also have "\<dots> \<longleftrightarrow> (if n < 3 then bit f n else bit d (n - 3))"
    using fb [of n] db [of "n - 3"] by (cases "n < 3") auto
  finally show ?thesis .
qed

lemma pool_index_inj:
  assumes "indexable (d, f)" "indexable (d', f')" "pool_index d f = pool_index d' f'"
  shows "d = d' \<and> f = f'"
proof -
  have eq: "(if n < 3 then bit f n else bit d (n - 3)) = (if n < 3 then bit f' n else bit d' (n - 3))" for n
    using pool_index_bits [OF assms(1), of n] pool_index_bits [OF assms(2), of n] assms(3) by simp
  have small: "take_bit 3 f = f" "take_bit 3 f' = f'"
    using assms(1,2) by (simp_all add: indexable_def EVENT_FLAGS_USED_BITS_def take_bit_small)
  have "f = f'"
  proof (rule bit_word_eqI)
    fix n
    show "bit f n = bit f' n"
      using eq [of n] small by (cases "n < 3") (simp, metis bit_take_bit_iff)
  qed
  moreover have "d = d'"
    by (rule bit_word_eqI) (use eq [of "_ + 3"] in simp)
  ultimately show ?thesis by simp
qed

lemma key_index_inj: "indexable k \<Longrightarrow> indexable k' \<Longrightarrow> key_index k = key_index k' \<Longrightarrow> k = k'"
  using pool_index_inj [of "fst k" "snd k" "fst k'" "snd k'"] by (simp add: key_index_def prod_eq_iff word_unat_eq_iff)

lemma pool_index_div: "indexable (d, f) \<Longrightarrow> unat (pool_index d f) div 8 = unat d"
proof -
  assume ok: "indexable (d, f)"
  have "drop_bit 3 (pool_index d f) = d"
  proof (rule bit_word_eqI)
    fix n
    show "bit (drop_bit 3 (pool_index d f)) n = bit d n"
      using pool_index_bits [OF ok, of "3 + n"] by (simp add: bit_drop_bit_eq)
  qed
  then have "unat (drop_bit 3 (pool_index d f)) = unat d" by simp
  then show ?thesis unfolding unat_drop_bit_eq by (simp add: drop_bit_eq_div)
qed

text \<open>
  a context's cache of event pools lends each pool to one user at a time, whatever sequence of
  borrowings and returns it serves, and a user who asks for the pool of a device and of flags gets one
  that was made for that device and those flags.
\<close>

theorem event_pools_exclusive:
  assumes "lend_run (take_pool create) give_pool ops (pool_cache_new n) = (s, held)"
  shows "distinct (map snd held) \<and> set (map snd held) \<inter> set (concat (slots s)) = {} \<and>
     (\<forall>(k, r) \<in> set held. r < length (heap s) \<and> (indexable k \<and> indexable (made_at s r) \<longrightarrow> made_at s r = k))"
proof -
  have concat_nil: "concat (replicate m []) = []" for m by (induction m) simp_all
  have "cache_ok (pool_cache_new n)"
    "draws {#} 0 (mset (concat (slots (pool_cache_new n)))) (length (heap (pool_cache_new n)))"
    by (simp_all add: pool_cache_new_def cache_ok_def concat_nil)
  from pc.lend_exclusive [OF this assms] show ?thesis
    unfolding pool_home_def set_mset_mset using key_index_inj by blast
qed

definition sample_create :: "u64 \<Rightarrow> event_flags \<Rightarrow> ur_result + event_provider" where
  "sample_create d f = Inr (createProvider sample_ctor QUEUE_IMMEDIATE f)"

definition sample_borrowings :: "pool_cache \<times> ((u64 \<times> event_flags) \<times> nat) list" where
  "sample_borrowings = lend_run (take_pool sample_create) give_pool [Take (0, 1), Take (0, 1), Give 0, Take (0, 3)] (pool_cache_new 1)"

lemma sample_borrowings_held: "map snd (snd sample_borrowings) = [2, 0]"
  by code_simp

theorem event_pools_exclusive_witness:
  "\<exists>s held. sample_borrowings = (s, held) \<and> map snd held = [2, 0] \<and> set (map snd held) \<inter> set (concat (slots s)) = {}"
proof -
  obtain s held where run: "sample_borrowings = (s, held)" by force
  with event_pools_exclusive [of sample_create "[Take (0, 1), Take (0, 1), Give 0, Take (0, 3)]" 1 s held]
    sample_borrowings_held show ?thesis
    by (auto simp: sample_borrowings_def)
qed

section \<open>Creation gives the pool back\<close>

lemma create_flags_small: "unat (create_flags x) < 2 ^ EVENT_FLAGS_USED_BITS"
  by (simp add: create_flags_def EVENT_FLAGS_USED_BITS_def EVENT_FLAGS_COUNTER_def EVENT_FLAGS_PROFILING_ENABLED_def EVENT_FLAGS_IPC_def)

lemma has_ipc_flag: "has_flag (create_flags x) EVENT_FLAGS_IPC \<longleftrightarrow> x AND UR_EXP_EVENT_FLAG_IPC_EXP \<noteq> 0"
  by (simp add: has_flag_def create_flags_def EVENT_FLAGS_COUNTER_def EVENT_FLAGS_PROFILING_ENABLED_def EVENT_FLAGS_IPC_def)

lemma use_pool_frame:
  assumes "use_pool debug srt drv flags r s = (res, s')" "r < length (heap s)"
  shows "slots s' = slots s" "length (heap s') = length (heap s)" "made_at s' x = made_at s x" "res \<noteq> Null_pool"
proof -
  obtain d f p where h: "heap s ! r = (d, f, p)" by (cases "heap s ! r")
  have "\<exists>q. s' = s\<lparr>heap := (heap s)[r := (d, f, q)]\<rparr>" and "res \<noteq> Null_pool"
    using assms(1) h by (auto simp: use_pool_def split: if_splits prod.splits sum.splits)
  then show "slots s' = slots s" "length (heap s') = length (heap s)" "made_at s' x = made_at s x" "res \<noteq> Null_pool"
    using h assms(2) by (auto simp: made_at_def nth_list_update)
qed

lemma create_with_pool:
  assumes ok: "cache_ok s" and got: "borrow create dev flags s = (Inr (Some r), s1)"
    and used: "use_pool debug srt drv flags r s1 = (res, s2)"
  shows "cache_ok (give_back dev flags r s2) \<and> length (heap s) \<le> length (heap s2) \<and>
     mset (concat (slots (give_back dev flags r s2))) = mset (concat (slots s)) + mset_set {length (heap s)..<length (heap s2)}"
proof -
  let ?k = "(dev, flags)"
  have take: "take_pool create ?k s = (Some r, s1)" using got by (simp add: take_pool_def)
  have home: "cache_ok s1" "pool_home s1 ?k r" using pc.get_some [OF ok take] by simp_all
  have r: "r < length (heap s1)" using home(2) by (simp add: pool_home_def)
  note frame = use_pool_frame [OF used r]
  have same: "cache_ok s2" "pool_home s2 ?k r"
    using home frame by (simp_all add: cache_ok_def pool_home_def)
  have drawn: "length (heap s) \<le> length (heap s1) \<and>
      add_mset r (mset (concat (slots s1))) = mset (concat (slots s)) + mset_set {length (heap s)..<length (heap s1)}"
    using take
  proof (cases rule: borrow_cases)
    case (popped rs r')
    with pop_slot [OF ok popped(2,3)] show ?thesis by simp
  qed simp_all
  then show ?thesis
    using push_slot [OF same] frame by (simp add: give_pool_def)
qed

text \<open>
  C11: creating an event borrows a pool and always puts it back, on success and when the driver fails:
  afterwards the cache holds the pools it held and those newly made, each in its slot; for a device of the
  platform the pool is never null, and an event is detached exactly if it was asked to be shareable
  between processes.
\<close>

theorem event_create_returns_pool:
  assumes "cache_ok s" and "length (slots s) = max_devices * 8" and "unat dev < max_devices" and "max_devices \<le> 2 ^ 61"
    and run: "urEventCreateExp create debug srt drv ctx (Some dev) desc ph s = (res, s')"
  shows "res \<noteq> Null_pool \<and> cache_ok s' \<and> length (heap s) \<le> length (heap s') \<and>
     mset (concat (slots s')) = mset (concat (slots s)) + mset_set {length (heap s)..<length (heap s')} \<and>
     (\<forall>h. res = Created h \<longrightarrow> (\<exists>x. desc = Some x \<and> ((\<exists>ev. h = Detached ev) \<longleftrightarrow> x AND UR_EXP_EVENT_FLAG_IPC_EXP \<noteq> 0)))"
proof -
  consider (early) e where "res = Create_failed e" "s' = s"
    | (go) x where "desc = Some x"
        "(case borrow create dev (create_flags x) s of
            (Inl r, s1) \<Rightarrow> (Create_failed r, s1)
          | (Inr None, s1) \<Rightarrow> (Null_pool, s1)
          | (Inr (Some r), s1) \<Rightarrow> (case use_pool debug srt drv (create_flags x) r s1 of (res, s2) \<Rightarrow> (res, give_back dev (create_flags x) r s2))) = (res, s')"
    using run by (auto simp: urEventCreateExp_def Let_def split: option.splits if_splits)
  then show ?thesis
  proof cases
    case early
    with assms(1) show ?thesis by simp
  next
    case (go x)
    let ?f = "create_flags x"
    have "indexable (dev, ?f)" using assms(3,4) create_flags_small by (simp add: indexable_def)
    then have "unat (pool_index dev ?f) < length (slots s)"
      using pool_index_div [of dev ?f] assms(2,3) by (simp add: div_less_iff_less_mult [symmetric])
    moreover obtain b s1 where b: "borrow create dev ?f s = (b, s1)" by force
    ultimately have nonnull: "b \<noteq> Inr None" by (auto simp: borrow_def Let_def split: if_splits sum.splits)
    show ?thesis
    proof (cases b)
      case (Inl e)
      with b have "s1 = s" by (auto simp: borrow_def Let_def split: if_splits sum.splits)
      with go b Inl assms(1) show ?thesis by auto
    next
      case (Inr o')
      then obtain r where r: "b = Inr (Some r)" using nonnull by (cases o') auto
      obtain res2 s2 where used: "use_pool debug srt drv ?f r s1 = (res2, s2)" by force
      have eq: "res = res2" "s' = give_back dev ?f r s2" using go b r used by auto
      have "(\<exists>ev. h = Detached ev) \<longleftrightarrow> has_flag ?f EVENT_FLAGS_IPC" if "res = Created h" for h
        using used eq that by (auto simp: use_pool_def split: prod.splits sum.splits if_splits)
      moreover have "res \<noteq> Null_pool"
        using used eq by (auto simp: use_pool_def split: prod.splits sum.splits if_splits)
      ultimately show ?thesis
        using create_with_pool [OF assms(1) b [unfolded r] used] eq go(1) has_ipc_flag [of x]
        by (auto simp: give_back_def Let_def)
    qed
  qed
qed

definition sample_creation :: "create_outcome \<times> pool_cache" where
  "sample_creation = urEventCreateExp sample_create False (sort_key nfree) sample_ze True (Some 0) (Some 2) True (pool_cache_new 1)"

lemma sample_creation_ok:
  "case sample_creation of (res, s) \<Rightarrow> (case res of Created _ \<Rightarrow> True | _ \<Rightarrow> False) \<and> length (heap s) = 1"
  by code_simp

theorem event_create_returns_pool_witness:
  "\<exists>ev s. sample_creation = (Created (Detached ev), s) \<and> mset (concat (slots s)) = {#0#}"
proof -
  obtain res s where run: "sample_creation = (res, s)" by force
  have "(case res of Created _ \<Rightarrow> True | _ \<Rightarrow> False) \<and> length (heap s) = 1"
    using sample_creation_ok by (simp add: run)
  then obtain h where h: "res = Created h" "length (heap s) = 1" by (cases res) simp_all
  have concat_nil: "concat (replicate m []) = []" for m by (induction m) simp_all
  have "cache_ok (pool_cache_new 1)" by (simp add: cache_ok_def pool_cache_new_def)
  from event_create_returns_pool [OF this, of 1 0 sample_create False "sort_key nfree" sample_ze True "Some 2" True res s] run h
  have "mset (concat (slots s)) = {#0#} \<and> (\<exists>ev. h = Detached ev)"
    by (simp add: sample_creation_def pool_cache_new_def EVENT_FLAGS_USED_BITS_def UR_EXP_EVENT_FLAG_IPC_EXP_def concat_nil)
  with run h show ?thesis by auto
qed

end
