(* ===== verification/L0_Batched_Queue.thy ===== *)
theory L0_Batched_Queue
  imports UR_Prelude
begin

text \<open>
  The batched queue of the second Level Zero adapter (adapters/level_zero/v2/queue_batched.cpp and
  .hpp, and the wait lists of command_list_manager.cpp). Operations are recorded in a regular command
  list, the active batch, which is submitted to an immediate list when it is full, when the queue is
  flushed or finished, or when an event of the batch is waited for; generation numbers tell whether
  the batch of an event has been submitted. Operations are numbers chosen by the caller. The driver
  may fail at every call: it is a parameter that sees the number of the call.
\<close>

section \<open>The driver\<close>

datatype ze_call = Close | AppendLists | HostSynchronize | Reset | NewList | ReleaseKernels
  | AppendCommand | AllocEvent | GraphCapture

type_synonym ze_driver_calls = "nat \<Rightarrow> ze_call \<Rightarrow> ur_result"

text \<open>A function returns a result or throws one.\<close>

datatype outcome = Ret ur_result | Thrown ur_result

section \<open>The queue\<close>

text \<open>
  \<open>activeBatch\<close> and \<open>captured\<close> hold the operations recorded in the regular list and in a graph,
  \<open>submitted\<close> those the immediate list has been given, \<open>synced\<close> how many of these the host has waited
  for. \<open>issued\<close> is the list of all operations the user was told are enqueued, with the generation of
  their events; operations that go to the immediate list have none.
\<close>

record batched_queue =
  activeBatch :: "nat list"
  activeList :: nat
  listsMade :: nat
  runBatches :: "nat list"
  regularGenerationNumber :: int
  enqueuedOperationsCounter :: nat
  graphCaptureActive :: bool
  captured :: "nat list"
  submitted :: "nat list"
  synced :: nat
  issued :: "(nat \<times> int option) list"
  calls :: nat

type_synonym queue_op = "batched_queue \<Rightarrow> outcome \<times> batched_queue"

definition initialSlotsForBatches :: nat where "initialSlotsForBatches = 10"
definition maxNumberOfEnqueuedOperations :: nat where "maxNumberOfEnqueuedOperations = 120"

definition queue_new :: "nat \<Rightarrow> batched_queue" where
  "queue_new l = \<lparr>activeBatch = [], activeList = l, listsMade = l + 1, runBatches = [], regularGenerationNumber = 0,
     enqueuedOperationsCounter = 0, graphCaptureActive = False, captured = [], submitted = [], synced = 0, issued = [], calls = 0\<rparr>"

definition call :: "ze_driver_calls \<Rightarrow> ze_call \<Rightarrow> queue_op" where
  "call drv c s = (Ret (drv (calls s) c), s\<lparr>calls := calls s + 1\<rparr>)"

definition call_throws :: "ze_driver_calls \<Rightarrow> ze_call \<Rightarrow> queue_op" where
  "call_throws drv c s =
     (let r = drv (calls s) c in (if r = UR_RESULT_SUCCESS then Ret r else Thrown r, s\<lparr>calls := calls s + 1\<rparr>))"

definition ok :: "(batched_queue \<Rightarrow> batched_queue) \<Rightarrow> queue_op" where
  "ok f s = (Ret UR_RESULT_SUCCESS, f s)"

text \<open>\<open>UR_CALL\<close>: go on only after success.\<close>

definition ur_call :: "queue_op \<Rightarrow> queue_op \<Rightarrow> queue_op" where
  "ur_call f g s = (case f s of (r, s') \<Rightarrow> if r = Ret UR_RESULT_SUCCESS then g s' else (r, s'))"

text \<open>A call whose result is dropped: only an exception stops the caller.\<close>

definition drop_result :: "queue_op \<Rightarrow> queue_op \<Rightarrow> queue_op" where
  "drop_result f g s = (case f s of (Ret _, s') \<Rightarrow> g s' | (Thrown r, s') \<Rightarrow> (Thrown r, s'))"

section \<open>Batches\<close>

definition isActiveBatchEmpty :: "batched_queue \<Rightarrow> bool" where
  "isActiveBatchEmpty s \<longleftrightarrow> enqueuedOperationsCounter s = 0"

definition isLimitOfUsedCommandListsReached :: "batched_queue \<Rightarrow> bool" where
  "isLimitOfUsedCommandListsReached s \<longleftrightarrow> initialSlotsForBatches \<le> length (runBatches s)"

definition isLimitOfEnqueuedCommandsReached :: "batched_queue \<Rightarrow> bool" where
  "isLimitOfEnqueuedCommandsReached s \<longleftrightarrow> maxNumberOfEnqueuedOperations \<le> enqueuedOperationsCounter s"

definition setBatchEmpty :: "batched_queue \<Rightarrow> batched_queue" where
  "setBatchEmpty s = s\<lparr>enqueuedOperationsCounter := 0\<rparr>"

definition markNextIssuedCommand :: "batched_queue \<Rightarrow> batched_queue" where
  "markNextIssuedCommand s = s\<lparr>enqueuedOperationsCounter := enqueuedOperationsCounter s + 1\<rparr>"

definition enqueueCurrentBatchUnlocked :: "ze_driver_calls \<Rightarrow> queue_op" where
  "enqueueCurrentBatchUnlocked drv =
     ur_call (call drv Close) (ur_call (call drv AppendLists) (ok (\<lambda>s. s\<lparr>submitted := submitted s @ activeBatch s\<rparr>)))"

definition renewRegularUnlocked :: "batched_queue \<Rightarrow> batched_queue" where
  "renewRegularUnlocked s = setBatchEmpty
     (s\<lparr>regularGenerationNumber := regularGenerationNumber s + 1, runBatches := runBatches s @ [activeList s],
       activeBatch := [], activeList := listsMade s, listsMade := listsMade s + 1\<rparr>)"

definition hostSynchronize :: "ze_driver_calls \<Rightarrow> queue_op" where
  "hostSynchronize drv = ur_call (call drv HostSynchronize) (ok (\<lambda>s. s\<lparr>synced := length (submitted s)\<rparr>))"

definition batchFinish :: "ze_driver_calls \<Rightarrow> queue_op" where
  "batchFinish drv =
     ur_call (call drv ReleaseKernels)
       (ur_call
          (\<lambda>s. if \<not> isActiveBatchEmpty s
               then ur_call (call drv Reset)
                      (ok (\<lambda>s. (setBatchEmpty (s\<lparr>activeBatch := []\<rparr>))\<lparr>regularGenerationNumber := regularGenerationNumber s + 1\<rparr>)) s
               else (Ret UR_RESULT_SUCCESS, s))
          (ok (\<lambda>s. s\<lparr>runBatches := []\<rparr>)))"

definition queueFinishUnlocked :: "ze_driver_calls \<Rightarrow> queue_op" where
  "queueFinishUnlocked drv s =
     (if graphCaptureActive s then (Ret UR_RESULT_SUCCESS, s)
      else ur_call
             (\<lambda>s. if \<not> isActiveBatchEmpty s then enqueueCurrentBatchUnlocked drv s else (Ret UR_RESULT_SUCCESS, s))
             (ur_call (hostSynchronize drv) (batchFinish drv)) s)"

definition renewBatchUnlocked :: "ze_driver_calls \<Rightarrow> queue_op" where
  "renewBatchUnlocked drv s =
     (if isLimitOfUsedCommandListsReached s then queueFinishUnlocked drv s
      else ur_call (enqueueCurrentBatchUnlocked drv) (ur_call (call_throws drv NewList) (ok renewRegularUnlocked)) s)"

definition onEventWaitListUse :: "ze_driver_calls \<Rightarrow> int \<Rightarrow> queue_op" where
  "onEventWaitListUse drv g s =
     (if g = regularGenerationNumber s then renewBatchUnlocked drv s else (Ret UR_RESULT_SUCCESS, s))"

definition markIssuedCommandInBatch :: "ze_driver_calls \<Rightarrow> queue_op" where
  "markIssuedCommandInBatch drv s =
     (if graphCaptureActive s then (Ret UR_RESULT_SUCCESS, s)
      else ur_call
             (\<lambda>s. if isLimitOfEnqueuedCommandsReached s then ur_call (queueFinishUnlocked drv) (ok setBatchEmpty) s
                  else (Ret UR_RESULT_SUCCESS, s))
             (ok markNextIssuedCommand) s)"

definition queueFinish :: "ze_driver_calls \<Rightarrow> queue_op" where
  "queueFinish drv = queueFinishUnlocked drv"

definition queueFlush :: "ze_driver_calls \<Rightarrow> queue_op" where
  "queueFlush drv s =
     (if graphCaptureActive s then (Ret UR_RESULT_SUCCESS, s)
      else if isActiveBatchEmpty s then (Ret UR_RESULT_SUCCESS, s)
      else renewBatchUnlocked drv s)"

section \<open>Enqueueing\<close>

text \<open>
  The command list manager in use takes the operation: the active batch, or the immediate list while a
  graph is captured. The event, if one is wanted, is allocated first and gets the current generation.
\<close>

definition record_op :: "nat \<Rightarrow> batched_queue \<Rightarrow> batched_queue" where
  "record_op c s =
     (if graphCaptureActive s then s\<lparr>captured := captured s @ [c]\<rparr>
      else s\<lparr>activeBatch := activeBatch s @ [c], issued := issued s @ [(c, Some (regularGenerationNumber s))]\<rparr>)"

definition append_op :: "ze_driver_calls \<Rightarrow> bool \<Rightarrow> nat \<Rightarrow> queue_op" where
  "append_op drv want c =
     ur_call (if want then call_throws drv AllocEvent else ok (\<lambda>s. s)) (ur_call (call drv AppendCommand) (ok (record_op c)))"

datatype after_op = Plain | Finish_if bool | Renew

definition after :: "ze_driver_calls \<Rightarrow> after_op \<Rightarrow> queue_op" where
  "after drv a = (case a of Plain \<Rightarrow> ok (\<lambda>s. s)
     | Finish_if b \<Rightarrow> (if b then queueFinishUnlocked drv else ok (\<lambda>s. s))
     | Renew \<Rightarrow> renewBatchUnlocked drv)"

definition enqueue_op :: "ze_driver_calls \<Rightarrow> after_op \<Rightarrow> bool \<Rightarrow> nat \<Rightarrow> queue_op" where
  "enqueue_op drv a want c =
     drop_result (markIssuedCommandInBatch drv) (ur_call (append_op drv want c) (after drv a))"

text \<open>
  The enqueue functions, each after its wait list has been looked at (see below; the barrier checks
  the event it is given before that). They differ in what
  follows the append: nothing, a finish if the caller blocks, or the submission of the batch. What the
  operation does on the device is the driver's.
\<close>

definition enqueueMemBufferRead :: "ze_driver_calls \<Rightarrow> bool \<Rightarrow> bool \<Rightarrow> nat \<Rightarrow> queue_op" where
  "enqueueMemBufferRead drv blocking want c = enqueue_op drv (Finish_if blocking) want c"

definition enqueueMemBufferWrite :: "ze_driver_calls \<Rightarrow> bool \<Rightarrow> bool \<Rightarrow> nat \<Rightarrow> queue_op" where
  "enqueueMemBufferWrite drv blocking want c = enqueue_op drv (Finish_if blocking) want c"

definition enqueueDeviceGlobalVariableWrite :: "ze_driver_calls \<Rightarrow> bool \<Rightarrow> bool \<Rightarrow> nat \<Rightarrow> queue_op" where
  "enqueueDeviceGlobalVariableWrite drv blocking want c = enqueue_op drv (Finish_if blocking) want c"

definition enqueueDeviceGlobalVariableRead :: "ze_driver_calls \<Rightarrow> bool \<Rightarrow> bool \<Rightarrow> nat \<Rightarrow> queue_op" where
  "enqueueDeviceGlobalVariableRead drv blocking want c = enqueue_op drv (Finish_if blocking) want c"

definition enqueueMemBufferFill :: "ze_driver_calls \<Rightarrow> bool \<Rightarrow> nat \<Rightarrow> queue_op" where
  "enqueueMemBufferFill drv want c = enqueue_op drv Plain want c"

definition enqueueUSMMemcpy :: "ze_driver_calls \<Rightarrow> bool \<Rightarrow> bool \<Rightarrow> nat \<Rightarrow> queue_op" where
  "enqueueUSMMemcpy drv blocking want c = enqueue_op drv (Finish_if blocking) want c"

definition enqueueUSMFreeExp :: "ze_driver_calls \<Rightarrow> bool \<Rightarrow> nat \<Rightarrow> queue_op" where
  "enqueueUSMFreeExp drv want c = enqueue_op drv Renew want c"

definition enqueueMemBufferMap :: "ze_driver_calls \<Rightarrow> bool \<Rightarrow> bool \<Rightarrow> nat \<Rightarrow> queue_op" where
  "enqueueMemBufferMap drv blocking want c = enqueue_op drv (Finish_if blocking) want c"

definition enqueueMemUnmap :: "ze_driver_calls \<Rightarrow> bool \<Rightarrow> nat \<Rightarrow> queue_op" where
  "enqueueMemUnmap drv want c = enqueue_op drv Plain want c"

definition enqueueMemBufferReadRect :: "ze_driver_calls \<Rightarrow> bool \<Rightarrow> bool \<Rightarrow> nat \<Rightarrow> queue_op" where
  "enqueueMemBufferReadRect drv blocking want c = enqueue_op drv (Finish_if blocking) want c"

definition enqueueMemBufferWriteRect :: "ze_driver_calls \<Rightarrow> bool \<Rightarrow> bool \<Rightarrow> nat \<Rightarrow> queue_op" where
  "enqueueMemBufferWriteRect drv blocking want c = enqueue_op drv (Finish_if blocking) want c"

definition enqueueUSMAdvise :: "ze_driver_calls \<Rightarrow> bool \<Rightarrow> nat \<Rightarrow> queue_op" where
  "enqueueUSMAdvise drv want c = enqueue_op drv Plain want c"

definition enqueueUSMMemcpy2D :: "ze_driver_calls \<Rightarrow> bool \<Rightarrow> bool \<Rightarrow> nat \<Rightarrow> queue_op" where
  "enqueueUSMMemcpy2D drv blocking want c = enqueue_op drv (Finish_if blocking) want c"

definition enqueueUSMFill2D :: "ze_driver_calls \<Rightarrow> bool \<Rightarrow> nat \<Rightarrow> queue_op" where
  "enqueueUSMFill2D drv want c = enqueue_op drv Plain want c"

definition enqueueUSMPrefetch :: "ze_driver_calls \<Rightarrow> bool \<Rightarrow> nat \<Rightarrow> queue_op" where
  "enqueueUSMPrefetch drv want c = enqueue_op drv Plain want c"

definition enqueueMemBufferCopyRect :: "ze_driver_calls \<Rightarrow> bool \<Rightarrow> nat \<Rightarrow> queue_op" where
  "enqueueMemBufferCopyRect drv want c = enqueue_op drv Plain want c"

definition enqueueEventsWait :: "ze_driver_calls \<Rightarrow> bool \<Rightarrow> nat \<Rightarrow> queue_op" where
  "enqueueEventsWait drv want c = enqueue_op drv Renew want c"

definition enqueueMemBufferCopy :: "ze_driver_calls \<Rightarrow> bool \<Rightarrow> nat \<Rightarrow> queue_op" where
  "enqueueMemBufferCopy drv want c = enqueue_op drv Plain want c"

definition enqueueUSMFill :: "ze_driver_calls \<Rightarrow> bool \<Rightarrow> nat \<Rightarrow> queue_op" where
  "enqueueUSMFill drv want c = enqueue_op drv Plain want c"

definition enqueueMemImageRead :: "ze_driver_calls \<Rightarrow> bool \<Rightarrow> bool \<Rightarrow> nat \<Rightarrow> queue_op" where
  "enqueueMemImageRead drv blocking want c = enqueue_op drv (Finish_if blocking) want c"

definition enqueueMemImageWrite :: "ze_driver_calls \<Rightarrow> bool \<Rightarrow> bool \<Rightarrow> nat \<Rightarrow> queue_op" where
  "enqueueMemImageWrite drv blocking want c = enqueue_op drv (Finish_if blocking) want c"

definition enqueueMemImageCopy :: "ze_driver_calls \<Rightarrow> bool \<Rightarrow> nat \<Rightarrow> queue_op" where
  "enqueueMemImageCopy drv want c = enqueue_op drv Plain want c"

definition enqueueReadHostPipe :: "ze_driver_calls \<Rightarrow> bool \<Rightarrow> bool \<Rightarrow> nat \<Rightarrow> queue_op" where
  "enqueueReadHostPipe drv blocking want c = enqueue_op drv (Finish_if blocking) want c"

definition enqueueWriteHostPipe :: "ze_driver_calls \<Rightarrow> bool \<Rightarrow> bool \<Rightarrow> nat \<Rightarrow> queue_op" where
  "enqueueWriteHostPipe drv blocking want c = enqueue_op drv (Finish_if blocking) want c"

definition enqueueUSMDeviceAllocExp :: "ze_driver_calls \<Rightarrow> bool \<Rightarrow> nat \<Rightarrow> queue_op" where
  "enqueueUSMDeviceAllocExp drv want c = enqueue_op drv Renew want c"

definition enqueueUSMSharedAllocExp :: "ze_driver_calls \<Rightarrow> bool \<Rightarrow> nat \<Rightarrow> queue_op" where
  "enqueueUSMSharedAllocExp drv want c = enqueue_op drv Renew want c"

definition enqueueUSMHostAllocExp :: "ze_driver_calls \<Rightarrow> bool \<Rightarrow> nat \<Rightarrow> queue_op" where
  "enqueueUSMHostAllocExp drv want c = enqueue_op drv Renew want c"

definition bindlessImagesImageCopyExp :: "ze_driver_calls \<Rightarrow> bool \<Rightarrow> nat \<Rightarrow> queue_op" where
  "bindlessImagesImageCopyExp drv want c = enqueue_op drv Plain want c"

definition bindlessImagesWaitExternalSemaphoreExp :: "ze_driver_calls \<Rightarrow> bool \<Rightarrow> nat \<Rightarrow> queue_op" where
  "bindlessImagesWaitExternalSemaphoreExp drv want c = enqueue_op drv Renew want c"

definition bindlessImagesSignalExternalSemaphoreExp :: "ze_driver_calls \<Rightarrow> bool \<Rightarrow> nat \<Rightarrow> queue_op" where
  "bindlessImagesSignalExternalSemaphoreExp drv want c = enqueue_op drv Renew want c"

definition enqueueTimestampRecordingExp :: "ze_driver_calls \<Rightarrow> bool \<Rightarrow> bool \<Rightarrow> nat \<Rightarrow> queue_op" where
  "enqueueTimestampRecordingExp drv blocking want c = enqueue_op drv (Finish_if blocking) want c"

definition enqueueNativeCommandExp :: "ze_driver_calls \<Rightarrow> bool \<Rightarrow> nat \<Rightarrow> queue_op" where
  "enqueueNativeCommandExp drv want c = enqueue_op drv Plain want c"

definition enqueueKernelLaunchWithArgsExp :: "ze_driver_calls \<Rightarrow> bool \<Rightarrow> nat \<Rightarrow> queue_op" where
  "enqueueKernelLaunchWithArgsExp drv want c = enqueue_op drv Plain want c"

text \<open>
  A barrier may be given an event to signal: \<open>given\<close> tells whether it is counter-based. The event
  takes the current generation as a new one does.
\<close>

definition enqueueEventsWaitWithBarrierExt :: "ze_driver_calls \<Rightarrow> bool option \<Rightarrow> bool \<Rightarrow> nat \<Rightarrow> queue_op" where
  "enqueueEventsWaitWithBarrierExt drv given want c =
     (case given of
        Some False \<Rightarrow> (\<lambda>s. (Ret UR_RESULT_ERROR_INVALID_ARGUMENT, s))
      | Some True \<Rightarrow> enqueue_op drv Renew False c
      | None \<Rightarrow> enqueue_op drv Renew want c)"

definition enqueueEventsWaitWithBarrier :: "ze_driver_calls \<Rightarrow> bool \<Rightarrow> nat \<Rightarrow> queue_op" where
  "enqueueEventsWaitWithBarrier drv want c = enqueueEventsWaitWithBarrierExt drv None want c"

text \<open>Command buffers and graphs go to the immediate list, after the batch.\<close>

definition record_immediate :: "nat \<Rightarrow> batched_queue \<Rightarrow> batched_queue" where
  "record_immediate c s =
     (if graphCaptureActive s then s\<lparr>captured := captured s @ [c]\<rparr>
      else s\<lparr>submitted := submitted s @ [c], issued := issued s @ [(c, None)]\<rparr>)"

definition submit_pending :: "ze_driver_calls \<Rightarrow> queue_op" where
  "submit_pending drv s = (if \<not> isActiveBatchEmpty s then renewBatchUnlocked drv s else (Ret UR_RESULT_SUCCESS, s))"

definition enqueueCommandBufferExp :: "ze_driver_calls \<Rightarrow> nat \<Rightarrow> queue_op" where
  "enqueueCommandBufferExp drv c =
     ur_call (submit_pending drv)
       (ur_call (call_throws drv AllocEvent) (ur_call (call drv AppendCommand) (ok (record_immediate c))))"

definition enqueueGraphExp :: "ze_driver_calls \<Rightarrow> nat \<Rightarrow> queue_op" where
  "enqueueGraphExp drv c =
     ur_call (submit_pending drv)
       (ur_call (call_throws drv AllocEvent) (ur_call (call drv AppendCommand) (ok (record_immediate c))))"

definition queueBeginGraphCapteExp :: "ze_driver_calls \<Rightarrow> queue_op" where
  "queueBeginGraphCapteExp drv =
     ur_call (submit_pending drv) (ur_call (ok (\<lambda>s. s\<lparr>graphCaptureActive := True\<rparr>)) (call drv GraphCapture))"

definition queueBeginCapteIntoGraphExp :: "ze_driver_calls \<Rightarrow> queue_op" where
  "queueBeginCapteIntoGraphExp drv =
     ur_call (submit_pending drv) (ur_call (ok (\<lambda>s. s\<lparr>graphCaptureActive := True\<rparr>)) (call drv GraphCapture))"

definition queueEndGraphCapteExp :: "ze_driver_calls \<Rightarrow> queue_op" where
  "queueEndGraphCapteExp drv = ur_call (call drv GraphCapture) (ok (\<lambda>s. s\<lparr>graphCaptureActive := False\<rparr>))"

text \<open>A host task is appended like the rest, but not counted.\<close>

definition enqueueHostTaskExp :: "ze_driver_calls \<Rightarrow> bool \<Rightarrow> nat \<Rightarrow> queue_op" where
  "enqueueHostTaskExp drv want c = append_op drv want c"

section \<open>Wait lists\<close>

text \<open>
  An event knows its queue, the generation of its batch if it has one, and its operation. The queues
  are numbered. A wait list submits the batches of the events of other queues; the results of these
  submissions are dropped.
\<close>

record batch_event =
  be_queue :: nat
  be_batch :: "int option"
  be_op :: nat

type_synonym queues = "nat \<Rightarrow> batched_queue"

definition onWaitListUse :: "ze_driver_calls \<Rightarrow> batch_event \<Rightarrow> queues \<Rightarrow> outcome \<times> queues" where
  "onWaitListUse drv e qs =
     (case be_batch e of
        None \<Rightarrow> (Ret UR_RESULT_SUCCESS, qs)
      | Some g \<Rightarrow> (case onEventWaitListUse drv g (qs (be_queue e)) of (r, q) \<Rightarrow> (r, qs(be_queue e := q))))"

fun getZeHandlesBuffer :: "ze_driver_calls \<Rightarrow> nat \<Rightarrow> batch_event list \<Rightarrow> queues \<Rightarrow> outcome \<times> queues" where
  "getZeHandlesBuffer drv cur [] qs = (Ret UR_RESULT_SUCCESS, qs)"
| "getZeHandlesBuffer drv cur (e # es) qs =
     (if cur \<noteq> be_queue e
      then (case onWaitListUse drv e qs of
              (Ret _, qs') \<Rightarrow> getZeHandlesBuffer drv cur es qs'
            | (Thrown r, qs') \<Rightarrow> (Thrown r, qs'))
      else getZeHandlesBuffer drv cur es qs)"

definition with_wait_list :: "ze_driver_calls \<Rightarrow> nat \<Rightarrow> batch_event list \<Rightarrow> queue_op \<Rightarrow> queues \<Rightarrow> outcome \<times> queues" where
  "with_wait_list drv cur es f qs =
     (case getZeHandlesBuffer drv cur es qs of
        (Ret _, qs') \<Rightarrow> (case f (qs' cur) of (r, q) \<Rightarrow> (r, qs'(cur := q)))
      | (Thrown r, qs') \<Rightarrow> (Thrown r, qs'))"

text \<open>\<open>urEventWait\<close> does the same for every event and then waits for it: \<open>sync\<close> is the driver's answer.\<close>

fun urEventWait :: "ze_driver_calls \<Rightarrow> (batch_event \<Rightarrow> ur_result) \<Rightarrow> batch_event list \<Rightarrow> queues \<Rightarrow> outcome \<times> queues" where
  "urEventWait drv sync [] qs = (Ret UR_RESULT_SUCCESS, qs)"
| "urEventWait drv sync (e # es) qs =
     (case onWaitListUse drv e qs of
        (Thrown r, qs') \<Rightarrow> (Thrown r, qs')
      | (Ret _, qs') \<Rightarrow> if sync e \<noteq> UR_RESULT_SUCCESS then (Ret (sync e), qs') else urEventWait drv sync es qs')"

section \<open>Reasoning about results\<close>

text \<open>\<open>spec P f Q E\<close>: from \<open>P\<close>, a successful \<open>f\<close> ends in \<open>Q\<close> and any other in \<open>E\<close>.\<close>

definition spec :: "(batched_queue \<Rightarrow> bool) \<Rightarrow> queue_op \<Rightarrow> (batched_queue \<Rightarrow> bool) \<Rightarrow> (batched_queue \<Rightarrow> bool) \<Rightarrow> bool" where
  "spec P f Q E \<longleftrightarrow> (\<forall>s r s'. P s \<longrightarrow> f s = (r, s') \<longrightarrow> (if r = Ret UR_RESULT_SUCCESS then Q s' else E s'))"

lemma specD: "spec P f Q E \<Longrightarrow> P s \<Longrightarrow> f s = (r, s') \<Longrightarrow> if r = Ret UR_RESULT_SUCCESS then Q s' else E s'"
  by (simp add: spec_def)

lemma spec_cong: "(\<And>s. P s \<Longrightarrow> f s = g s) \<Longrightarrow> spec P g Q E \<Longrightarrow> spec P f Q E"
  by (simp add: spec_def)

lemma spec_ur_call: "spec P f Q E \<Longrightarrow> spec Q g R E \<Longrightarrow> spec P (ur_call f g) R E"
  unfolding spec_def ur_call_def by (auto split: prod.splits if_splits)

lemma spec_drop_result: "spec P f Q Q \<Longrightarrow> spec Q g R E \<Longrightarrow> (\<And>s. Q s \<Longrightarrow> E s) \<Longrightarrow> spec P (drop_result f g) R E"
  unfolding spec_def drop_result_def by (fastforce split: prod.splits if_splits outcome.splits)

lemma spec_ok: "(\<And>s. P s \<Longrightarrow> Q (f s)) \<Longrightarrow> spec P (ok f) Q E"
  by (simp add: spec_def ok_def)

lemma spec_call: "(\<And>s. P s \<Longrightarrow> Q (s\<lparr>calls := calls s + 1\<rparr>) \<and> E (s\<lparr>calls := calls s + 1\<rparr>)) \<Longrightarrow> spec P (call drv c) Q E"
  by (simp add: spec_def call_def)

lemma spec_call_throws:
  "(\<And>s. P s \<Longrightarrow> Q (s\<lparr>calls := calls s + 1\<rparr>) \<and> E (s\<lparr>calls := calls s + 1\<rparr>)) \<Longrightarrow> spec P (call_throws drv c) Q E"
  by (simp add: spec_def call_throws_def Let_def)

lemma spec_call_then:
  "(\<And>s. P s \<Longrightarrow> P (s\<lparr>calls := calls s + 1\<rparr>) \<and> E (s\<lparr>calls := calls s + 1\<rparr>)) \<Longrightarrow> spec P g R E \<Longrightarrow> spec P (ur_call (call drv c) g) R E"
  by (rule spec_ur_call [OF spec_call [where Q = P]]) simp_all

lemma spec_throws_then:
  "(\<And>s. P s \<Longrightarrow> P (s\<lparr>calls := calls s + 1\<rparr>) \<and> E (s\<lparr>calls := calls s + 1\<rparr>)) \<Longrightarrow> spec P g R E \<Longrightarrow> spec P (ur_call (call_throws drv c) g) R E"
  by (rule spec_ur_call [OF spec_call_throws [where Q = P]]) simp_all

lemma spec_if: "spec (\<lambda>s. P s \<and> b s) f Q E \<Longrightarrow> spec (\<lambda>s. P s \<and> \<not> b s) g Q E \<Longrightarrow> spec P (\<lambda>s. if b s then f s else g s) Q E"
  by (simp add: spec_def)

lemma spec_skip: "(\<And>s. P s \<Longrightarrow> Q s) \<Longrightarrow> spec P (\<lambda>s. (Ret UR_RESULT_SUCCESS, s)) Q E"
  by (simp add: spec_def)

lemma spec_weaken:
  "spec P f Q E \<Longrightarrow> (\<And>s. P' s \<Longrightarrow> P s) \<Longrightarrow> (\<And>s. Q s \<Longrightarrow> Q' s) \<Longrightarrow> (\<And>s. E s \<Longrightarrow> E' s) \<Longrightarrow> spec P' f Q' E'"
  unfolding spec_def by meson

section \<open>The invariants\<close>

text \<open>
  Generations: an operation of an older generation has been submitted, one of the current generation
  is in the active batch. The counts stay within their limits. As long as no host task is enqueued, a
  batch that counts no operation is empty, and it is empty while a graph is captured.
\<close>

definition gen_inv :: "batched_queue \<Rightarrow> bool" where
  "gen_inv s \<longleftrightarrow> (\<forall>c. (c, None) \<in> set (issued s) \<longrightarrow> c \<in> set (submitted s)) \<and>
     (\<forall>c n. (c, Some n) \<in> set (issued s) \<longrightarrow> n \<le> regularGenerationNumber s \<and>
        (n = regularGenerationNumber s \<longrightarrow> c \<in> set (activeBatch s)) \<and> (n < regularGenerationNumber s \<longrightarrow> c \<in> set (submitted s)))"

definition size_inv :: "batched_queue \<Rightarrow> bool" where
  "size_inv s \<longleftrightarrow> length (runBatches s) \<le> initialSlotsForBatches \<and>
     enqueuedOperationsCounter s \<le> maxNumberOfEnqueuedOperations"

definition tidy :: "batched_queue \<Rightarrow> bool" where
  "tidy s \<longleftrightarrow> (enqueuedOperationsCounter s = 0 \<longrightarrow> activeBatch s = []) \<and> (graphCaptureActive s \<longrightarrow> enqueuedOperationsCounter s = 0)"

definition bq_inv :: "bool \<Rightarrow> batched_queue \<Rightarrow> bool" where
  "bq_inv ht s \<longleftrightarrow> gen_inv s \<and> size_inv s \<and> (\<not> ht \<longrightarrow> tidy s)"

lemmas bq_defs = bq_inv_def gen_inv_def size_inv_def tidy_def

text \<open>After a submission, everything in the batch is submitted.\<close>

definition all_in :: "batched_queue \<Rightarrow> bool" where
  "all_in s \<longleftrightarrow> set (activeBatch s) \<subseteq> set (submitted s)"

lemma bq_inv_calls [simp]: "bq_inv ht (s\<lparr>calls := x\<rparr>) = bq_inv ht s" "all_in (s\<lparr>calls := x\<rparr>) = all_in s"
  by (simp_all add: bq_defs all_in_def)

lemma bq_inv_synced [simp]: "bq_inv ht (s\<lparr>synced := x\<rparr>) = bq_inv ht s" "all_in (s\<lparr>synced := x\<rparr>) = all_in s"
  by (simp_all add: bq_defs all_in_def)

lemma submit_active: "bq_inv ht s \<Longrightarrow> bq_inv ht (s\<lparr>submitted := submitted s @ activeBatch s\<rparr>)"
  by (fastforce simp: bq_defs split: option.splits if_splits)

lemma enqueueCurrentBatch_spec:
  "spec (bq_inv ht) (enqueueCurrentBatchUnlocked drv) (\<lambda>s. bq_inv ht s \<and> all_in s) (bq_inv ht)"
  unfolding enqueueCurrentBatchUnlocked_def
  by (intro spec_call_then spec_ok) (auto simp: submit_active all_in_def)

lemma renew_inv: "bq_inv ht s \<Longrightarrow> all_in s \<Longrightarrow> \<not> isLimitOfUsedCommandListsReached s \<Longrightarrow> bq_inv ht (renewRegularUnlocked s)"
  by (fastforce simp: bq_defs all_in_def renewRegularUnlocked_def setBatchEmpty_def isLimitOfUsedCommandListsReached_def
      split: option.splits if_splits)

lemma reset_inv:
  "bq_inv ht s \<Longrightarrow> all_in s \<Longrightarrow>
     bq_inv ht ((setBatchEmpty (s\<lparr>activeBatch := []\<rparr>))\<lparr>regularGenerationNumber := regularGenerationNumber s + 1\<rparr>)"
  by (fastforce simp: bq_defs all_in_def setBatchEmpty_def split: option.splits if_splits)

definition finished :: "batched_queue \<Rightarrow> bool" where
  "finished s \<longleftrightarrow> enqueuedOperationsCounter s = 0 \<and> runBatches s = [] \<and> synced s = length (submitted s) \<and> \<not> graphCaptureActive s"

lemma hostSynchronize_spec:
  "spec (\<lambda>s. bq_inv ht s \<and> (\<not> isActiveBatchEmpty s \<longrightarrow> all_in s) \<and> \<not> graphCaptureActive s) (hostSynchronize drv)
     (\<lambda>s. bq_inv ht s \<and> (\<not> isActiveBatchEmpty s \<longrightarrow> all_in s) \<and> synced s = length (submitted s) \<and> \<not> graphCaptureActive s) (bq_inv ht)"
  unfolding hostSynchronize_def
  by (intro spec_call_then spec_ok) (simp_all add: isActiveBatchEmpty_def)

lemma batchFinish_spec:
  "spec (\<lambda>s. bq_inv ht s \<and> (\<not> isActiveBatchEmpty s \<longrightarrow> all_in s) \<and> synced s = length (submitted s) \<and> \<not> graphCaptureActive s)
     (batchFinish drv) (\<lambda>s. bq_inv ht s \<and> finished s) (bq_inv ht)"
proof -
  let ?P = "\<lambda>s. bq_inv ht s \<and> (\<not> isActiveBatchEmpty s \<longrightarrow> all_in s) \<and> synced s = length (submitted s) \<and> \<not> graphCaptureActive s"
  let ?F = "\<lambda>s. bq_inv ht s \<and> isActiveBatchEmpty s \<and> synced s = length (submitted s) \<and> \<not> graphCaptureActive s"
  have reset: "spec (\<lambda>s. ?P s \<and> \<not> isActiveBatchEmpty s)
      (ur_call (call drv Reset) (ok (\<lambda>s. (setBatchEmpty (s\<lparr>activeBatch := []\<rparr>))\<lparr>regularGenerationNumber := regularGenerationNumber s + 1\<rparr>)))
      ?F (bq_inv ht)"
    by (intro spec_call_then spec_ok) (simp_all add: reset_inv isActiveBatchEmpty_def, simp add: setBatchEmpty_def)
  have clear: "bq_inv ht (s\<lparr>runBatches := []\<rparr>) \<and> finished (s\<lparr>runBatches := []\<rparr>)" if "?F s" for s
    using that by (auto simp: bq_defs finished_def isActiveBatchEmpty_def)
  show ?thesis
    unfolding batchFinish_def
    by (rule spec_call_then, simp add: isActiveBatchEmpty_def, rule spec_ur_call [OF spec_if [OF reset spec_skip] spec_ok])
      (simp_all add: clear)
qed

lemma queueFinishUnlocked_spec:
  "spec (\<lambda>s. bq_inv ht s \<and> \<not> graphCaptureActive s) (queueFinishUnlocked drv) (\<lambda>s. bq_inv ht s \<and> finished s) (bq_inv ht)"
proof -
  let ?B = "\<lambda>s. bq_inv ht s \<and> (\<not> isActiveBatchEmpty s \<longrightarrow> all_in s) \<and> \<not> graphCaptureActive s"
  have "spec (\<lambda>s. (bq_inv ht s \<and> \<not> graphCaptureActive s) \<and> \<not> isActiveBatchEmpty s) (enqueueCurrentBatchUnlocked drv) ?B (bq_inv ht)"
    unfolding enqueueCurrentBatchUnlocked_def
    by (intro spec_call_then spec_ok) (auto simp: submit_active all_in_def isActiveBatchEmpty_def)
  then have first: "spec (\<lambda>s. bq_inv ht s \<and> \<not> graphCaptureActive s)
      (\<lambda>s. if \<not> isActiveBatchEmpty s then enqueueCurrentBatchUnlocked drv s else (Ret UR_RESULT_SUCCESS, s)) ?B (bq_inv ht)"
    by (rule spec_if) (rule spec_skip, simp)
  have "spec (\<lambda>s. bq_inv ht s \<and> \<not> graphCaptureActive s)
      (ur_call (\<lambda>s. if \<not> isActiveBatchEmpty s then enqueueCurrentBatchUnlocked drv s else (Ret UR_RESULT_SUCCESS, s))
        (ur_call (hostSynchronize drv) (batchFinish drv))) (\<lambda>s. bq_inv ht s \<and> finished s) (bq_inv ht)"
    by (rule spec_ur_call [OF first spec_ur_call [OF hostSynchronize_spec batchFinish_spec]])
  then show ?thesis by (rule spec_cong [rotated]) (simp add: queueFinishUnlocked_def)
qed

text \<open>The other operations keep the invariant, whatever the driver answers.\<close>

lemma queueFinish_keeps: "spec (bq_inv ht) (queueFinishUnlocked drv) (bq_inv ht) (bq_inv ht)"
proof -
  have "spec (\<lambda>s. bq_inv ht s \<and> graphCaptureActive s) (queueFinishUnlocked drv) (bq_inv ht) (bq_inv ht)"
    by (simp add: spec_def queueFinishUnlocked_def)
  then show ?thesis using queueFinishUnlocked_spec [of ht drv] unfolding spec_def by meson
qed

lemma renew_new:
  "spec (\<lambda>s. bq_inv ht s \<and> \<not> isLimitOfUsedCommandListsReached s)
     (ur_call (enqueueCurrentBatchUnlocked drv) (ur_call (call_throws drv NewList) (ok renewRegularUnlocked)))
     (\<lambda>s. bq_inv ht s \<and> enqueuedOperationsCounter s = 0) (bq_inv ht)"
proof (rule spec_ur_call)
  show "spec (\<lambda>s. bq_inv ht s \<and> \<not> isLimitOfUsedCommandListsReached s) (enqueueCurrentBatchUnlocked drv)
      (\<lambda>s. bq_inv ht s \<and> all_in s \<and> \<not> isLimitOfUsedCommandListsReached s) (bq_inv ht)"
    unfolding enqueueCurrentBatchUnlocked_def
    by (intro spec_call_then spec_ok) (auto simp: submit_active all_in_def isLimitOfUsedCommandListsReached_def)
  show "spec (\<lambda>s. bq_inv ht s \<and> all_in s \<and> \<not> isLimitOfUsedCommandListsReached s) (ur_call (call_throws drv NewList) (ok renewRegularUnlocked))
      (\<lambda>s. bq_inv ht s \<and> enqueuedOperationsCounter s = 0) (bq_inv ht)"
    by (intro spec_throws_then spec_ok) (auto simp: renew_inv isLimitOfUsedCommandListsReached_def,
      simp add: renewRegularUnlocked_def setBatchEmpty_def)
qed

lemma renewBatch_spec:
  "spec (\<lambda>s. bq_inv ht s \<and> \<not> graphCaptureActive s) (renewBatchUnlocked drv)
     (\<lambda>s. bq_inv ht s \<and> enqueuedOperationsCounter s = 0) (bq_inv ht)"
proof -
  have "spec (\<lambda>s. (bq_inv ht s \<and> \<not> graphCaptureActive s) \<and> \<not> isLimitOfUsedCommandListsReached s)
      (ur_call (enqueueCurrentBatchUnlocked drv) (ur_call (call_throws drv NewList) (ok renewRegularUnlocked)))
      (\<lambda>s. bq_inv ht s \<and> enqueuedOperationsCounter s = 0) (bq_inv ht)"
    by (rule spec_weaken [OF renew_new]) auto
  moreover have "spec (\<lambda>s. (bq_inv ht s \<and> \<not> graphCaptureActive s) \<and> isLimitOfUsedCommandListsReached s) (queueFinishUnlocked drv)
      (\<lambda>s. bq_inv ht s \<and> enqueuedOperationsCounter s = 0) (bq_inv ht)"
    by (rule spec_weaken [OF queueFinishUnlocked_spec]) (auto simp: finished_def)
  ultimately show ?thesis
    unfolding renewBatchUnlocked_def by (rule spec_if [rotated])
qed

lemmas batch_defs = queueFinishUnlocked_def renewBatchUnlocked_def batchFinish_def hostSynchronize_def enqueueCurrentBatchUnlocked_def
  ur_call_def call_def call_throws_def ok_def renewRegularUnlocked_def setBatchEmpty_def Let_def

lemma finish_capture: "graphCaptureActive (snd (queueFinishUnlocked drv s)) = graphCaptureActive s"
  by (auto simp: batch_defs)

lemma finish_failed_counter:
  "fst (queueFinishUnlocked drv s) \<noteq> Ret UR_RESULT_SUCCESS \<Longrightarrow>
     enqueuedOperationsCounter (snd (queueFinishUnlocked drv s)) = enqueuedOperationsCounter s"
  by (auto simp: batch_defs split: if_splits)

lemma renew_capture: "graphCaptureActive (snd (renewBatchUnlocked drv s)) = graphCaptureActive s"
  by (auto simp: batch_defs)

lemma renewBatch_keeps: "spec (bq_inv ht) (renewBatchUnlocked drv) (bq_inv ht) (bq_inv ht)"
proof -
  have "spec (\<lambda>s. bq_inv ht s \<and> graphCaptureActive s) (renewBatchUnlocked drv) (bq_inv ht) (bq_inv ht)"
    unfolding renewBatchUnlocked_def
  proof (rule spec_if)
    show "spec (\<lambda>s. (bq_inv ht s \<and> graphCaptureActive s) \<and> isLimitOfUsedCommandListsReached s) (queueFinishUnlocked drv) (bq_inv ht) (bq_inv ht)"
      by (rule spec_weaken [OF queueFinish_keeps]) auto
    show "spec (\<lambda>s. (bq_inv ht s \<and> graphCaptureActive s) \<and> \<not> isLimitOfUsedCommandListsReached s)
        (ur_call (enqueueCurrentBatchUnlocked drv) (ur_call (call_throws drv NewList) (ok renewRegularUnlocked))) (bq_inv ht) (bq_inv ht)"
      by (rule spec_weaken [OF renew_new]) auto
  qed
  then show ?thesis using renewBatch_spec [of ht drv] unfolding spec_def by meson
qed

lemma mark_spec:
  "spec (bq_inv ht) (markIssuedCommandInBatch drv)
     (\<lambda>s. bq_inv ht s \<and> (\<not> graphCaptureActive s \<longrightarrow> enqueuedOperationsCounter s \<noteq> 0))
     (\<lambda>s. bq_inv ht s \<and> (\<not> graphCaptureActive s \<longrightarrow> enqueuedOperationsCounter s \<noteq> 0))"
proof -
  have room: "bq_inv ht (markNextIssuedCommand s) \<and> enqueuedOperationsCounter (markNextIssuedCommand s) \<noteq> 0"
    if "bq_inv ht s" "\<not> graphCaptureActive s" "enqueuedOperationsCounter s < maxNumberOfEnqueuedOperations" for s
    using that by (auto simp: bq_defs markNextIssuedCommand_def)
  have "if r = Ret UR_RESULT_SUCCESS then bq_inv ht s' \<and> (\<not> graphCaptureActive s' \<longrightarrow> enqueuedOperationsCounter s' \<noteq> 0)
        else bq_inv ht s' \<and> (\<not> graphCaptureActive s' \<longrightarrow> enqueuedOperationsCounter s' \<noteq> 0)"
    if inv: "bq_inv ht s" and run: "markIssuedCommandInBatch drv s = (r, s')" for s r s'
  proof (cases "graphCaptureActive s \<or> \<not> isLimitOfEnqueuedCommandsReached s")
    case True
    with run inv room [of s] show ?thesis
      by (auto simp: markIssuedCommandInBatch_def ur_call_def ok_def isLimitOfEnqueuedCommandsReached_def split: if_splits)
  next
    case False
    obtain r1 s1 where fin: "queueFinishUnlocked drv s = (r1, s1)" by force
    have post: "if r1 = Ret UR_RESULT_SUCCESS then bq_inv ht s1 \<and> finished s1 else bq_inv ht s1"
      using specD [OF queueFinishUnlocked_spec [of ht drv] _ fin] inv False by simp
    show ?thesis
    proof (cases "r1 = Ret UR_RESULT_SUCCESS")
      case True
      have "setBatchEmpty s1 = s1" using post True by (simp add: finished_def setBatchEmpty_def)
      then show ?thesis
        using True post run fin False room [of s1]
        by (auto simp: markIssuedCommandInBatch_def ur_call_def ok_def finished_def maxNumberOfEnqueuedOperations_def)
    next
      case fail: False
      then show ?thesis
        using post run fin False finish_failed_counter [of drv s]
        by (auto simp: markIssuedCommandInBatch_def ur_call_def ok_def isLimitOfEnqueuedCommandsReached_def maxNumberOfEnqueuedOperations_def)
    qed
  qed
  then show ?thesis unfolding spec_def by blast
qed

lemma record_op_inv:
  assumes "bq_inv ht s" and "\<not> ht \<Longrightarrow> \<not> graphCaptureActive s \<Longrightarrow> enqueuedOperationsCounter s \<noteq> 0"
  shows "bq_inv ht (record_op c s)"
  using assms by (auto simp: bq_defs record_op_def)

lemma append_op_spec:
  "spec (\<lambda>s. bq_inv ht s \<and> (\<not> ht \<longrightarrow> \<not> graphCaptureActive s \<longrightarrow> enqueuedOperationsCounter s \<noteq> 0)) (append_op drv want c)
     (bq_inv ht) (bq_inv ht)"
proof -
  let ?P = "\<lambda>s. bq_inv ht s \<and> (\<not> ht \<longrightarrow> \<not> graphCaptureActive s \<longrightarrow> enqueuedOperationsCounter s \<noteq> 0)"
  have "spec ?P (if want then call_throws drv AllocEvent else ok (\<lambda>s. s)) ?P (bq_inv ht)"
    by (cases want) (auto intro: spec_call_throws spec_ok)
  moreover have "spec ?P (ur_call (call drv AppendCommand) (ok (record_op c))) (bq_inv ht) (bq_inv ht)"
    by (intro spec_call_then spec_ok) (auto intro: record_op_inv)
  ultimately show ?thesis unfolding append_op_def by (rule spec_ur_call)
qed

lemma enqueue_op_keeps: "spec (bq_inv ht) (enqueue_op drv a want c) (bq_inv ht) (bq_inv ht)"
proof -
  have "spec (bq_inv ht) (after drv a) (bq_inv ht) (bq_inv ht)"
    by (cases a) (auto simp: after_def intro: spec_ok queueFinish_keeps renewBatch_keeps)
  moreover have "spec (\<lambda>s. bq_inv ht s \<and> (\<not> graphCaptureActive s \<longrightarrow> enqueuedOperationsCounter s \<noteq> 0)) (append_op drv want c)
      (bq_inv ht) (bq_inv ht)"
    by (rule spec_weaken [OF append_op_spec]) auto
  ultimately show ?thesis
    unfolding enqueue_op_def by (intro spec_drop_result [OF mark_spec spec_ur_call]) auto
qed

lemma host_task_keeps: "spec (bq_inv True) (enqueueHostTaskExp drv want c) (bq_inv True) (bq_inv True)"
  unfolding enqueueHostTaskExp_def by (rule spec_weaken [OF append_op_spec]) auto

lemma submit_pending_spec:
  "spec (bq_inv ht) (submit_pending drv) (\<lambda>s. bq_inv ht s \<and> (\<not> graphCaptureActive s \<longrightarrow> enqueuedOperationsCounter s = 0)) (bq_inv ht)"
proof -
  have "spec (\<lambda>s. bq_inv ht s \<and> \<not> isActiveBatchEmpty s) (renewBatchUnlocked drv)
     (\<lambda>s. bq_inv ht s \<and> (\<not> graphCaptureActive s \<longrightarrow> enqueuedOperationsCounter s = 0)) (bq_inv ht)"
    using renewBatch_spec [of ht drv] renewBatch_keeps [of ht drv] renew_capture [of drv] unfolding spec_def
    by (metis snd_conv)
  then show ?thesis
    unfolding submit_pending_def by (rule spec_if) (auto intro: spec_skip simp: isActiveBatchEmpty_def)
qed

lemma record_immediate_inv: "bq_inv ht s \<Longrightarrow> bq_inv ht (record_immediate c s)"
  by (auto simp: bq_defs record_immediate_def)

lemma immediate_keeps:
  "spec (bq_inv ht) (ur_call (submit_pending drv)
       (ur_call (call_throws drv AllocEvent) (ur_call (call drv AppendCommand) (ok (record_immediate c))))) (bq_inv ht) (bq_inv ht)"
proof (rule spec_ur_call [where Q = "bq_inv ht"])
  show "spec (bq_inv ht) (submit_pending drv) (bq_inv ht) (bq_inv ht)"
    by (rule spec_weaken [OF submit_pending_spec]) simp_all
  show "spec (bq_inv ht) (ur_call (call_throws drv AllocEvent) (ur_call (call drv AppendCommand) (ok (record_immediate c)))) (bq_inv ht) (bq_inv ht)"
    by (intro spec_throws_then spec_call_then spec_ok) (simp_all add: record_immediate_inv)
qed

lemma begin_capture_keeps:
  "spec (bq_inv ht) (ur_call (submit_pending drv) (ur_call (ok (\<lambda>s. s\<lparr>graphCaptureActive := True\<rparr>)) (call drv GraphCapture)))
     (bq_inv ht) (bq_inv ht)"
proof (rule spec_ur_call [OF submit_pending_spec spec_ur_call])
  show "spec (\<lambda>s. bq_inv ht s \<and> (\<not> graphCaptureActive s \<longrightarrow> enqueuedOperationsCounter s = 0))
      (ok (\<lambda>s. s\<lparr>graphCaptureActive := True\<rparr>)) (bq_inv ht) (bq_inv ht)"
    by (rule spec_ok) (auto simp: bq_defs)
  show "spec (bq_inv ht) (call drv GraphCapture) (bq_inv ht) (bq_inv ht)" by (rule spec_call) simp
qed

lemma end_capture_keeps: "spec (bq_inv ht) (queueEndGraphCapteExp drv) (bq_inv ht) (bq_inv ht)"
  unfolding queueEndGraphCapteExp_def by (intro spec_call_then spec_ok) (auto simp: bq_defs)

section \<open>Histories\<close>

text \<open>
  The states of a queue after any calls, with a driver that may fail anywhere; \<open>ht\<close> tells whether
  host tasks are among the calls. Every enqueue function is an instance of \<open>enqueue_op\<close>.
\<close>

inductive bq_reach :: "bool \<Rightarrow> ze_driver_calls \<Rightarrow> batched_queue \<Rightarrow> bool" for ht drv where
  new: "bq_reach ht drv (queue_new l)"
| enqueue: "bq_reach ht drv s \<Longrightarrow> bq_reach ht drv (snd (enqueue_op drv a want c s))"
| command_buffer: "bq_reach ht drv s \<Longrightarrow> bq_reach ht drv (snd (enqueueCommandBufferExp drv c s))"
| graph: "bq_reach ht drv s \<Longrightarrow> bq_reach ht drv (snd (enqueueGraphExp drv c s))"
| host_task: "bq_reach ht drv s \<Longrightarrow> ht \<Longrightarrow> bq_reach ht drv (snd (enqueueHostTaskExp drv want c s))"
| finish: "bq_reach ht drv s \<Longrightarrow> bq_reach ht drv (snd (queueFinish drv s))"
| flush: "bq_reach ht drv s \<Longrightarrow> bq_reach ht drv (snd (queueFlush drv s))"
| wait: "bq_reach ht drv s \<Longrightarrow> bq_reach ht drv (snd (onEventWaitListUse drv g s))"
| begin_capture: "bq_reach ht drv s \<Longrightarrow> bq_reach ht drv (snd (queueBeginGraphCapteExp drv s))"
| begin_capture_into: "bq_reach ht drv s \<Longrightarrow> bq_reach ht drv (snd (queueBeginCapteIntoGraphExp drv s))"
| end_capture: "bq_reach ht drv s \<Longrightarrow> bq_reach ht drv (snd (queueEndGraphCapteExp drv s))"

lemma spec_snd: "spec P f P P \<Longrightarrow> P s \<Longrightarrow> P (snd (f s))"
  by (cases "f s") (auto dest!: specD split: if_splits)

lemma bq_reach_inv: "bq_reach ht drv s \<Longrightarrow> bq_inv ht s"
proof (induction rule: bq_reach.induct)
  case (flush s)
  then show ?case using spec_snd [OF renewBatch_keeps [of ht drv]] by (simp add: queueFlush_def)
next
  case (wait s g)
  then show ?case using spec_snd [OF renewBatch_keeps [of ht drv]] by (simp add: onEventWaitListUse_def)
next
  case (host_task s want c)
  then show ?case using spec_snd [OF host_task_keeps] by (cases ht) simp_all
qed (simp_all add: spec_snd [OF enqueue_op_keeps] spec_snd [OF immediate_keeps] spec_snd [OF queueFinish_keeps]
    spec_snd [OF begin_capture_keeps] spec_snd [OF end_capture_keeps] queueFinish_def enqueueCommandBufferExp_def enqueueGraphExp_def
    queueBeginGraphCapteExp_def queueBeginCapteIntoGraphExp_def,
    simp add: bq_defs queue_new_def initialSlotsForBatches_def)

section \<open>What the queue promises\<close>

lemma finish_issued: "issued (snd (queueFinishUnlocked drv s)) = issued s"
  by (auto simp: batch_defs)

lemma renew_issued: "issued (snd (renewBatchUnlocked drv s)) = issued s"
  by (auto simp: batch_defs)

lemma emptied_submitted:
  assumes "bq_inv False s" "enqueuedOperationsCounter s = 0" "(c, g) \<in> set (issued s)"
  shows "c \<in> set (submitted s)"
  using assms by (cases g) (force simp: bq_defs)+

lemma wait_submits:
  assumes inv: "bq_inv False s" and ev: "(c, Some g) \<in> set (issued s)"
    and wait: "onEventWaitListUse drv g s = (Ret UR_RESULT_SUCCESS, s')"
  shows "c \<in> set (submitted s')"
proof (cases "g = regularGenerationNumber s")
  case False
  then have "g < regularGenerationNumber s" using inv ev by (force simp: bq_defs)
  with False inv ev wait show ?thesis by (force simp: onEventWaitListUse_def bq_defs)
next
  case True
  then have "c \<in> set (activeBatch s)" using inv ev by (auto simp: bq_defs)
  then have cap: "\<not> graphCaptureActive s" using inv by (auto simp: bq_defs)
  have run: "renewBatchUnlocked drv s = (Ret UR_RESULT_SUCCESS, s')" using wait True by (simp add: onEventWaitListUse_def)
  then have "bq_inv False s' \<and> enqueuedOperationsCounter s' = 0"
    using specD [OF renewBatch_spec [of False drv] _ run] inv cap by simp
  moreover have "issued s' = issued s" using renew_issued [of drv s] run by simp
  ultimately show ?thesis using emptied_submitted ev by metis
qed

text \<open>
  C15: after any calls and driver failures, as long as no host task was enqueued: when a queue is told
  that an event of one of its batches is waited for and reports success, the operation of that event
  has been submitted to the device.
\<close>

theorem waited_operation_submitted:
  assumes "bq_reach False drv s" and "(c, Some g) \<in> set (issued s)"
    and "onEventWaitListUse drv g s = (Ret UR_RESULT_SUCCESS, s')"
  shows "c \<in> set (submitted s')"
  using wait_submits [OF bq_reach_inv [OF assms(1)] assms(2,3)] .

text \<open>
  C16: after any calls and driver failures, as long as no host task was enqueued: when finishing a queue
  outside a graph capture reports success, every operation the user has enqueued has been submitted,
  the host has waited for all of them, and all command lists have been given back.
\<close>

theorem finish_completes:
  assumes "bq_reach False drv s" and "\<not> graphCaptureActive s" and "queueFinish drv s = (Ret UR_RESULT_SUCCESS, s')"
  shows "(\<forall>c g. (c, g) \<in> set (issued s) \<longrightarrow> c \<in> set (submitted s')) \<and> synced s' = length (submitted s') \<and> runBatches s' = []"
proof -
  have fin: "bq_inv False s' \<and> finished s'"
    using specD [OF queueFinishUnlocked_spec [of False drv], of s "Ret UR_RESULT_SUCCESS" s'] bq_reach_inv [OF assms(1)] assms(2,3)
    by (simp add: queueFinish_def)
  moreover have "issued s' = issued s" using finish_issued [of drv s] assms(3) by (simp add: queueFinish_def)
  ultimately show ?thesis using emptied_submitted [of s'] by (auto simp: finished_def)
qed

text \<open>
  a queue never keeps more than ten submitted command lists and never counts more than 120
  operations in its batch, whatever is called and wherever the driver fails.
\<close>

theorem batched_queue_bounded:
  assumes "bq_reach ht drv s"
  shows "length (runBatches s) \<le> 10 \<and> enqueuedOperationsCounter s \<le> 120"
  using bq_reach_inv [OF assms] by (simp add: bq_defs initialSlotsForBatches_def maxNumberOfEnqueuedOperations_def)

section \<open>A driver that does not fail\<close>

definition always_ok :: "ze_driver_calls \<Rightarrow> bool" where
  "always_ok drv \<longleftrightarrow> (\<forall>n c. drv n c = UR_RESULT_SUCCESS)"

definition in_order :: "batched_queue \<Rightarrow> bool" where
  "in_order s \<longleftrightarrow> submitted s @ activeBatch s = map fst (issued s) \<and> tidy s"

lemma ok_finish:
  "always_ok drv \<Longrightarrow> in_order s \<Longrightarrow>
     fst (queueFinishUnlocked drv s) = Ret UR_RESULT_SUCCESS \<and> in_order (snd (queueFinishUnlocked drv s)) \<and>
     (\<not> graphCaptureActive s \<longrightarrow> enqueuedOperationsCounter (snd (queueFinishUnlocked drv s)) = 0)"
  by (auto simp: batch_defs always_ok_def in_order_def tidy_def isActiveBatchEmpty_def)

lemma ok_renew:
  "always_ok drv \<Longrightarrow> in_order s \<Longrightarrow>
     fst (renewBatchUnlocked drv s) = Ret UR_RESULT_SUCCESS \<and> in_order (snd (renewBatchUnlocked drv s))"
  by (auto simp: batch_defs always_ok_def in_order_def tidy_def isActiveBatchEmpty_def)

lemma ok_mark:
  assumes "always_ok drv" "in_order s"
  shows "fst (markIssuedCommandInBatch drv s) = Ret UR_RESULT_SUCCESS \<and> in_order (snd (markIssuedCommandInBatch drv s)) \<and>
    (\<not> graphCaptureActive (snd (markIssuedCommandInBatch drv s)) \<longrightarrow> enqueuedOperationsCounter (snd (markIssuedCommandInBatch drv s)) \<noteq> 0)"
proof -
  obtain s1 where fin: "queueFinishUnlocked drv s = (Ret UR_RESULT_SUCCESS, s1)" "in_order s1"
    "\<not> graphCaptureActive s \<longrightarrow> enqueuedOperationsCounter s1 = 0"
    using ok_finish [OF assms] by (cases "queueFinishUnlocked drv s") auto
  moreover have "graphCaptureActive s1 = graphCaptureActive s" using finish_capture [of drv s] fin by simp
  moreover have "activeBatch s1 = []" if "\<not> graphCaptureActive s"
    using that fin by (simp add: in_order_def tidy_def)
  ultimately show ?thesis
    using assms(2) by (auto simp: markIssuedCommandInBatch_def ur_call_def ok_def in_order_def tidy_def setBatchEmpty_def markNextIssuedCommand_def)
qed

lemma ok_append:
  "always_ok drv \<Longrightarrow> in_order s \<Longrightarrow> \<not> graphCaptureActive s \<longrightarrow> enqueuedOperationsCounter s \<noteq> 0 \<Longrightarrow>
     fst (append_op drv want c s) = Ret UR_RESULT_SUCCESS \<and> in_order (snd (append_op drv want c s))"
  by (auto simp: append_op_def ur_call_def call_def call_throws_def ok_def record_op_def always_ok_def in_order_def tidy_def Let_def)

lemma ok_enqueue:
  assumes "always_ok drv" "in_order s"
  shows "fst (enqueue_op drv a want c s) = Ret UR_RESULT_SUCCESS \<and> in_order (snd (enqueue_op drv a want c s))"
proof -
  obtain s1 where mark: "markIssuedCommandInBatch drv s = (Ret UR_RESULT_SUCCESS, s1)" "in_order s1"
    "\<not> graphCaptureActive s1 \<longrightarrow> enqueuedOperationsCounter s1 \<noteq> 0"
    using ok_mark [OF assms] by (cases "markIssuedCommandInBatch drv s") auto
  obtain s2 where app: "append_op drv want c s1 = (Ret UR_RESULT_SUCCESS, s2)" "in_order s2"
    using ok_append [OF assms(1) mark(2,3), of want c] by (cases "append_op drv want c s1") auto
  show ?thesis
    using ok_finish [OF assms(1) app(2)] ok_renew [OF assms(1) app(2)] app mark(1)
    by (cases a) (auto simp: enqueue_op_def drop_result_def ur_call_def after_def ok_def)
qed

lemma ok_pending:
  assumes "always_ok drv" "in_order s"
  shows "fst (submit_pending drv s) = Ret UR_RESULT_SUCCESS \<and> in_order (snd (submit_pending drv s)) \<and>
    (\<not> graphCaptureActive (snd (submit_pending drv s)) \<longrightarrow> activeBatch (snd (submit_pending drv s)) = [] \<and>
       enqueuedOperationsCounter (snd (submit_pending drv s)) = 0)"
  using ok_renew [OF assms] assms
  by (auto simp: submit_pending_def batch_defs always_ok_def in_order_def tidy_def isActiveBatchEmpty_def)

lemma ok_immediate:
  assumes "always_ok drv" "in_order s"
  shows "in_order (snd (ur_call (submit_pending drv)
    (ur_call (call_throws drv AllocEvent) (ur_call (call drv AppendCommand) (ok (record_immediate c)))) s))"
proof -
  obtain s1 where "submit_pending drv s = (Ret UR_RESULT_SUCCESS, s1)" "in_order s1"
    "\<not> graphCaptureActive s1 \<longrightarrow> activeBatch s1 = [] \<and> enqueuedOperationsCounter s1 = 0"
    using ok_pending [OF assms] by (cases "submit_pending drv s") auto
  then show ?thesis
    using assms(1) by (auto simp: ur_call_def call_def call_throws_def ok_def record_immediate_def always_ok_def in_order_def tidy_def Let_def)
qed

lemma ok_begin:
  assumes "always_ok drv" "in_order s"
  shows "in_order (snd (ur_call (submit_pending drv) (ur_call (ok (\<lambda>s. s\<lparr>graphCaptureActive := True\<rparr>)) (call drv GraphCapture)) s))"
proof -
  obtain s1 where "submit_pending drv s = (Ret UR_RESULT_SUCCESS, s1)" "in_order s1"
    "\<not> graphCaptureActive s1 \<longrightarrow> activeBatch s1 = [] \<and> enqueuedOperationsCounter s1 = 0"
    using ok_pending [OF assms] by (cases "submit_pending drv s") auto
  then show ?thesis by (auto simp: ur_call_def call_def ok_def in_order_def tidy_def)
qed

lemma bq_reach_in_order: "bq_reach ht drv s \<Longrightarrow> \<not> ht \<Longrightarrow> always_ok drv \<Longrightarrow> in_order s"
proof (induction rule: bq_reach.induct)
  case (flush s)
  then show ?case using ok_renew [of drv s] by (simp add: queueFlush_def)
next
  case (wait s g)
  then show ?case using ok_renew [of drv s] by (simp add: onEventWaitListUse_def)
next
  case (end_capture s)
  then show ?case by (auto simp: queueEndGraphCapteExp_def ur_call_def call_def ok_def in_order_def tidy_def)
qed (simp_all add: ok_enqueue ok_immediate ok_finish ok_begin queueFinish_def enqueueCommandBufferExp_def enqueueGraphExp_def
    queueBeginGraphCapteExp_def queueBeginCapteIntoGraphExp_def,
    simp add: in_order_def tidy_def queue_new_def)

text \<open>
  C14: with a driver that does not fail, and without host tasks, batching is invisible: the operations
  submitted, followed by those in the active batch, are the operations enqueued, each once and in
  the order the user enqueued them - kernels, copies, command buffers and graphs alike.
\<close>

theorem batching_keeps_order:
  assumes "always_ok drv" and "bq_reach False drv s"
  shows "submitted s @ activeBatch s = map fst (issued s)"
  using bq_reach_in_order [OF assms(2) _ assms(1)] by (simp add: in_order_def)

section \<open>Wait lists across queues\<close>

lemma renew_submitted: "set (submitted s) \<subseteq> set (submitted (snd (renewBatchUnlocked drv s)))"
  by (auto simp: batch_defs)

lemma wait_frame:
  assumes "onWaitListUse drv e qs = (r, qs')"
  shows "issued (qs' q) = issued (qs q) \<and> set (submitted (qs q)) \<subseteq> set (submitted (qs' q)) \<and> (bq_reach ht drv (qs q) \<longrightarrow> bq_reach ht drv (qs' q))"
proof (cases "be_batch e")
  case None
  with assms show ?thesis by (simp add: onWaitListUse_def)
next
  case (Some g)
  let ?q = "be_queue e"
  have "qs' = qs(?q := snd (onEventWaitListUse drv g (qs ?q)))"
    using assms Some by (auto simp: onWaitListUse_def split: prod.splits)
  then show ?thesis
    using renew_issued [of drv "qs q"] renew_submitted [of "qs q" drv] bq_reach.wait [of ht drv "qs q" g]
    by (cases "q = ?q") (simp_all add: onEventWaitListUse_def)
qed

lemma wait_ok:
  assumes "always_ok drv" "bq_reach False drv (qs (be_queue e))" "(be_op e, be_batch e) \<in> set (issued (qs (be_queue e)))"
  shows "\<exists>qs'. onWaitListUse drv e qs = (Ret UR_RESULT_SUCCESS, qs') \<and> be_op e \<in> set (submitted (qs' (be_queue e)))"
proof (cases "be_batch e")
  case None
  then show ?thesis using assms(3) bq_reach_inv [OF assms(2)] by (force simp: onWaitListUse_def bq_defs)
next
  case (Some g)
  have "fst (onEventWaitListUse drv g (qs (be_queue e))) = Ret UR_RESULT_SUCCESS"
    using ok_renew [OF assms(1) bq_reach_in_order [OF assms(2) _ assms(1)]] by (simp add: onEventWaitListUse_def)
  then obtain q where q: "onEventWaitListUse drv g (qs (be_queue e)) = (Ret UR_RESULT_SUCCESS, q)"
    by (metis prod.collapse)
  have "be_op e \<in> set (submitted q)"
    using wait_submits [OF bq_reach_inv [OF assms(2)] _ q] assms(3) Some by simp
  with q Some show ?thesis by (simp add: onWaitListUse_def)
qed

text \<open>
  with a driver that does not fail and without host tasks, when an operation is enqueued on a
  queue with a wait list, the operations of all events of other queues in the list have been submitted
  before the operation itself is recorded, so none of them can keep it waiting forever.
\<close>

theorem wait_list_submits:
  assumes "always_ok drv" and "\<forall>q. bq_reach False drv (qs q)"
    and "\<forall>e \<in> set es. (be_op e, be_batch e) \<in> set (issued (qs (be_queue e)))"
    and "getZeHandlesBuffer drv cur es qs = (r, qs')"
  shows "r = Ret UR_RESULT_SUCCESS \<and> (\<forall>e \<in> set es. be_queue e \<noteq> cur \<longrightarrow> be_op e \<in> set (submitted (qs' (be_queue e)))) \<and>
    (\<forall>q. set (submitted (qs q)) \<subseteq> set (submitted (qs' q)))"
  using assms(2-4)
proof (induction es arbitrary: qs)
  case (Cons e es)
  show ?case
  proof (cases "cur = be_queue e")
    case True
    with Cons show ?thesis by auto
  next
    case False
    obtain qs1 where use: "onWaitListUse drv e qs = (Ret UR_RESULT_SUCCESS, qs1)" "be_op e \<in> set (submitted (qs1 (be_queue e)))"
      using wait_ok [OF assms(1), of qs e] Cons.prems(1,2) by auto
    have frame: "issued (qs1 q) = issued (qs q) \<and> set (submitted (qs q)) \<subseteq> set (submitted (qs1 q)) \<and> bq_reach False drv (qs1 q)" for q
      using wait_frame [OF use(1), of q False] Cons.prems(1) by blast
    have rest: "getZeHandlesBuffer drv cur es qs1 = (r, qs')" using Cons.prems(3) use False by simp
    have "r = Ret UR_RESULT_SUCCESS \<and> (\<forall>e \<in> set es. be_queue e \<noteq> cur \<longrightarrow> be_op e \<in> set (submitted (qs' (be_queue e)))) \<and>
        (\<forall>q. set (submitted (qs1 q)) \<subseteq> set (submitted (qs' q)))"
      by (rule Cons.IH [OF _ _ rest]) (use frame Cons.prems(2) in auto)
    with use(2) frame show ?thesis by (auto simp: subset_iff)
  qed
qed simp

section \<open>Samples\<close>

definition no_fail :: ze_driver_calls where
  "no_fail n c = UR_RESULT_SUCCESS"

lemma always_ok_no_fail: "always_ok no_fail"
  by (simp add: always_ok_def no_fail_def)

lemmas run_defs = batch_defs enqueue_op_def drop_result_def markIssuedCommandInBatch_def append_op_def record_op_def after_def
  markNextIssuedCommand_def isLimitOfEnqueuedCommandsReached_def isLimitOfUsedCommandListsReached_def isActiveBatchEmpty_def
  initialSlotsForBatches_def maxNumberOfEnqueuedOperations_def no_fail_def queue_new_def onEventWaitListUse_def

definition sample_queue :: batched_queue where
  "sample_queue = snd (enqueueKernelLaunchWithArgsExp no_fail True 7 (queue_new 0))"

lemma sample_queue_reach: "bq_reach False no_fail sample_queue"
  unfolding sample_queue_def enqueueKernelLaunchWithArgsExp_def by (intro bq_reach.enqueue bq_reach.new)

lemma sample_queue_state: "issued sample_queue = [(7, Some 0)] \<and> activeBatch sample_queue = [7] \<and> \<not> graphCaptureActive sample_queue \<and>
    regularGenerationNumber sample_queue = 0 \<and> runBatches sample_queue = [] \<and> submitted sample_queue = []"
  by (simp add: sample_queue_def enqueueKernelLaunchWithArgsExp_def run_defs)

theorem waited_operation_submitted_witness:
  "\<exists>s'. onEventWaitListUse no_fail 0 sample_queue = (Ret UR_RESULT_SUCCESS, s') \<and> 7 \<in> set (submitted s')"
proof -
  obtain s' where run: "onEventWaitListUse no_fail 0 sample_queue = (Ret UR_RESULT_SUCCESS, s')"
    using sample_queue_state by (simp add: run_defs)
  with waited_operation_submitted [OF sample_queue_reach _ run] sample_queue_state show ?thesis by simp
qed

theorem finish_completes_witness:
  "\<exists>s'. queueFinish no_fail sample_queue = (Ret UR_RESULT_SUCCESS, s') \<and> 7 \<in> set (submitted s') \<and> runBatches s' = []"
proof -
  obtain s' where run: "queueFinish no_fail sample_queue = (Ret UR_RESULT_SUCCESS, s')"
    by (simp add: sample_queue_def enqueueKernelLaunchWithArgsExp_def queueFinish_def run_defs)
  with finish_completes [OF sample_queue_reach _ run] sample_queue_state show ?thesis by auto
qed

theorem batched_queue_bounded_witness: "length (runBatches sample_queue) \<le> 10"
  using batched_queue_bounded [OF sample_queue_reach] by simp

theorem batching_keeps_order_witness: "submitted sample_queue @ activeBatch sample_queue = [7]"
  using batching_keeps_order [OF always_ok_no_fail sample_queue_reach] sample_queue_state by simp

definition sample_wait :: "outcome \<times> queues" where
  "sample_wait = getZeHandlesBuffer no_fail 1 [\<lparr>be_queue = 0, be_batch = Some 0, be_op = 7\<rparr>] (\<lambda>_. sample_queue)"

theorem wait_list_submits_witness:
  "\<exists>qs. sample_wait = (Ret UR_RESULT_SUCCESS, qs) \<and> 7 \<in> set (submitted (qs 0))"
proof -
  obtain r qs where run: "sample_wait = (r, qs)" by force
  with wait_list_submits [OF always_ok_no_fail, of "\<lambda>_. sample_queue" "[\<lparr>be_queue = 0, be_batch = Some 0, be_op = 7\<rparr>]" 1 r qs]
    sample_queue_reach sample_queue_state show ?thesis
    by (simp add: sample_wait_def)
qed

section \<open>Where the promise does not hold\<close>

text \<open>
  A host task is not counted: a queue that holds nothing else is taken for empty, and finishing it
  reports success although the task was never submitted.
\<close>

theorem host_task_not_finished:
  "\<exists>s s'. enqueueHostTaskExp no_fail True 7 (queue_new 0) = (Ret UR_RESULT_SUCCESS, s) \<and>
     queueFinish no_fail s = (Ret UR_RESULT_SUCCESS, s') \<and> issued s' = [(7, Some 0)] \<and> submitted s' = []"
  by (simp add: enqueueHostTaskExp_def queueFinish_def run_defs)

text \<open>
  When the new command list cannot be had after a batch was submitted, the batch stays the active one:
  the next submission runs its operations a second time.
\<close>

theorem failed_renewal_submits_twice:
  "\<exists>drv s s'. queueFlush drv sample_queue = (Thrown UR_RESULT_ERROR_OUT_OF_HOST_MEMORY, s) \<and>
     queueFinish drv s = (Ret UR_RESULT_SUCCESS, s') \<and> submitted s' = [7, 7]"
proof -
  let ?drv = "\<lambda>n c. if c = NewList then UR_RESULT_ERROR_OUT_OF_HOST_MEMORY else UR_RESULT_SUCCESS"
  show ?thesis
    by (rule exI [of _ ?drv]) (simp add: sample_queue_def enqueueKernelLaunchWithArgsExp_def queueFlush_def queueFinish_def run_defs)
qed

text \<open>
  When starting a capture fails, the queue is left in capture mode: from then on finishing it reports
  success without waiting for anything.
\<close>

theorem failed_capture_disables_finish:
  "\<exists>drv s. queueBeginGraphCapteExp drv (queue_new 0) = (Ret UR_RESULT_ERROR_UNSUPPORTED_FEATURE, s) \<and>
     (\<forall>drv'. queueFinish drv' s = (Ret UR_RESULT_SUCCESS, s))"
proof -
  let ?drv = "\<lambda>n c. if c = GraphCapture then UR_RESULT_ERROR_UNSUPPORTED_FEATURE else UR_RESULT_SUCCESS"
  show ?thesis
    by (rule exI [of _ ?drv]) (simp add: queueBeginGraphCapteExp_def submit_pending_def queueFinish_def run_defs)
qed

end
