(* ===== verification/Msan_Shadow.thy ===== *)
theory Msan_Shadow
  imports San_Common
begin

text \<open>
  The shadow memory of the memory sanitizer (layers/sanitizer/msan/msan_shadow.cpp and .hpp): each byte
  of the application has a shadow byte and each group of four bytes an origin of 32 bits, both in the
  same device memory, which is a function from addresses to bytes. Calls into the adapter and the
  operating system are the fields of the parameter \<open>api\<close>; a fill that succeeds has its effect at once
  and is logged with the events it waits for. The locale \<open>msan_mapping\<close> states what the layout has to
  guarantee; it is interpreted for the CPU and for PVC on the address ranges of the header comments.
\<close>

section \<open>The layout of the CPU\<close>

datatype mapping_type = INVALID | ALLOCATOR | APP | SHADOW | ORIGIN

record mapping_desc =
  start :: u64
  stop :: u64
  mtype :: mapping_type

definition kMemoryLayout :: "mapping_desc list" where
  "kMemoryLayout =
    [\<lparr>start = 0x000000000000, stop = 0x010000000000, mtype = APP\<rparr>,
     \<lparr>start = 0x010000000000, stop = 0x100000000000, mtype = SHADOW\<rparr>,
     \<lparr>start = 0x100000000000, stop = 0x110000000000, mtype = INVALID\<rparr>,
     \<lparr>start = 0x110000000000, stop = 0x200000000000, mtype = ORIGIN\<rparr>,
     \<lparr>start = 0x200000000000, stop = 0x300000000000, mtype = SHADOW\<rparr>,
     \<lparr>start = 0x300000000000, stop = 0x400000000000, mtype = ORIGIN\<rparr>,
     \<lparr>start = 0x400000000000, stop = 0x500000000000, mtype = INVALID\<rparr>,
     \<lparr>start = 0x500000000000, stop = 0x510000000000, mtype = SHADOW\<rparr>,
     \<lparr>start = 0x510000000000, stop = 0x600000000000, mtype = APP\<rparr>,
     \<lparr>start = 0x600000000000, stop = 0x610000000000, mtype = ORIGIN\<rparr>,
     \<lparr>start = 0x610000000000, stop = 0x700000000000, mtype = INVALID\<rparr>,
     \<lparr>start = 0x700000000000, stop = 0x740000000000, mtype = ALLOCATOR\<rparr>,
     \<lparr>start = 0x740000000000, stop = 0x800000000000, mtype = APP\<rparr>]"

section \<open>State and services\<close>

definition MSAN_ORIGIN_GRANULARITY :: u64 where "MSAN_ORIGIN_GRANULARITY = 4"
definition MSAN_MAX_WG_LOCAL :: u32 where "MSAN_MAX_WG_LOCAL = 1024"
definition MSAN_MAX_SG_PRIVATE :: u32 where "MSAN_MAX_SG_PRIVATE = 32"
definition MSAN_PRIVATE_SIZE :: u64 where "MSAN_PRIVATE_SIZE = 0xffffff + 1"

type_synonym event = nat

text \<open>
  \<open>VirtualMemMaps\<close> has the owners the code keeps for each page. \<open>mem\<close> is the memory of the device,
  \<open>vm_mapped\<close> the pages the driver has mapped, \<open>os_mapped\<close> the ranges of the host, \<open>fills\<close> the
  fills submitted with their sizes and wait lists, \<open>usm_freed\<close> and \<open>vm_freed\<close> what was given back, and
  \<open>context_refs\<close> the references to the context the object holds.
\<close>

record msan_shadow =
  ShadowBegin :: u64
  ShadowEnd :: u64
  VirtualMemMaps :: "(u64 \<times> nat list) list"
  LocalShadowOffset :: u64
  PrivateShadowOffset :: u64
  PrivateBasePtr :: u64
  mem :: "u64 \<Rightarrow> u8"
  vm_mapped :: "u64 list"
  os_mapped :: "(u64 \<times> u64) list"
  fills :: "(u64 \<times> u64 \<times> event list) list"
  usm_freed :: "u64 list"
  vm_freed :: "u64 list"
  context_refs :: int

definition new_msan_shadow :: msan_shadow where
  "new_msan_shadow = \<lparr>ShadowBegin = 0, ShadowEnd = 0, VirtualMemMaps = [], LocalShadowOffset = 0,
     PrivateShadowOffset = 0, PrivateBasePtr = 0, mem = (\<lambda>_. 0), vm_mapped = [], os_mapped = [], fills = [],
     usm_freed = [], vm_freed = [], context_refs = 0\<rparr>"

text \<open>The function-local \<open>static\<close> variables: one of each in the process, shared by all shadows.\<close>

record msan_statics =
  SetupResult :: "ur_result option"
  DestoryResult :: "ur_result option"
  LastAllocedSize :: u64
  LastPrivateBaseAllocedSize :: u64
  LastPrivateShadowAllocedSize :: u64

definition msan_statics_init :: msan_statics where
  "msan_statics_init = \<lparr>SetupResult = None, DestoryResult = None, LastAllocedSize = 0,
     LastPrivateBaseAllocedSize = 0, LastPrivateShadowAllocedSize = 0\<rparr>"

record msan_api = usm_services +
  MmapFixedNoReserve :: "u64 \<Rightarrow> u64 \<Rightarrow> bool"
  ProtectMemoryRange :: "u64 \<Rightarrow> u64 \<Rightarrow> bool"
  Munmap :: "u64 \<Rightarrow> u64 \<Rightarrow> bool"
  pfnReserve :: "u64 \<Rightarrow> u64 \<Rightarrow> ur_result + u64"
  GetVirtualMemGranularity :: u64
  pfnPhysicalMemCreate :: "u64 \<Rightarrow> ur_result"
  pfnVirtualMemMap :: "u64 \<Rightarrow> ur_result"
  pfnVirtualMemUnmap :: "u64 \<Rightarrow> ur_result"
  pfnPhysicalMemRelease :: "u64 \<Rightarrow> ur_result"
  pfnVirtualMemFree :: "u64 \<Rightarrow> ur_result"
  pfnUSMFill :: "u64 \<Rightarrow> u8 list \<Rightarrow> u64 \<Rightarrow> ur_result"
  pfnEventsWait :: "event list \<Rightarrow> ur_result"
  new_event :: "nat \<Rightarrow> event"
  GetDeviceLocalMemorySize :: u64

definition pattern_fill :: "u64 \<Rightarrow> nat \<Rightarrow> u8 list \<Rightarrow> (u64 \<Rightarrow> u8) \<Rightarrow> u64 \<Rightarrow> u8" where
  "pattern_fill lo n pat m =
     (\<lambda>s. if unat lo \<le> unat s \<and> unat s < unat lo + n then pat ! ((unat s - unat lo) mod length pat) else m s)"

text \<open>
  \<open>urEnqueueUSMFill\<close>. \<open>OutEvent\<close> is \<open>None\<close> for a null pointer and otherwise the handle it points to.
\<close>

definition USMFill :: "msan_api \<Rightarrow> u64 \<Rightarrow> u8 list \<Rightarrow> u64 \<Rightarrow> event list \<Rightarrow> event option \<Rightarrow> msan_shadow
     \<Rightarrow> ur_result \<times> event option \<times> msan_shadow" where
  "USMFill api Ptr pat Size waits OutEvent sm =
     (if pfnUSMFill api Ptr pat Size \<noteq> UR_RESULT_SUCCESS then (pfnUSMFill api Ptr pat Size, OutEvent, sm)
      else (UR_RESULT_SUCCESS, map_option (\<lambda>_. new_event api (length (fills sm))) OutEvent,
            sm\<lparr>mem := pattern_fill Ptr (unat Size) pat (mem sm), fills := fills sm @ [(Ptr, Size, waits)]\<rparr>))"

section \<open>Mappings\<close>

definition MEM_TO_SHADOW :: "u64 \<Rightarrow> u64" where
  "MEM_TO_SHADOW p = p XOR 0x500000000000"

definition SHADOW_TO_ORIGIN :: "u64 \<Rightarrow> u64" where
  "SHADOW_TO_ORIGIN p = p + 0x100000000000"

definition MsanMemToOrigin_CPU :: "u64 \<Rightarrow> u64" where
  "MsanMemToOrigin_CPU Ptr = SHADOW_TO_ORIGIN (MEM_TO_SHADOW (RoundDownTo Ptr MSAN_ORIGIN_GRANULARITY))"

definition IsDeviceUSM_PVC :: "u64 \<Rightarrow> bool" where
  "IsDeviceUSM_PVC Ptr \<longleftrightarrow> drop_bit 52 Ptr = 0xff0"

definition MsanMemToShadow_PVC :: "u64 \<Rightarrow> u64 \<Rightarrow> u64" where
  "MsanMemToShadow_PVC SB Ptr =
     (if IsDeviceUSM_PVC Ptr then Ptr - 0x500000000000
      else (Ptr AND 0xfffffffffff) + drop_bit 3 (Ptr AND 0x800000000000) + SB)"

definition MsanMemToOrigin_PVC :: "u64 \<Rightarrow> u64 \<Rightarrow> u64" where
  "MsanMemToOrigin_PVC SB Ptr =
     (let AlignedPtr = RoundDownTo Ptr MSAN_ORIGIN_GRANULARITY
      in if IsDeviceUSM_PVC AlignedPtr then AlignedPtr - 0xA00000000000
         else (AlignedPtr AND 0xfffffffffff) + drop_bit 3 (AlignedPtr AND 0x800000000000) + SB + 0x200000000000)"

definition IsDeviceUSM_DG2 :: "u64 \<Rightarrow> bool" where
  "IsDeviceUSM_DG2 Ptr \<longleftrightarrow> drop_bit 48 Ptr \<noteq> 0"

definition MsanMemToShadow_DG2 :: "u64 \<Rightarrow> u64 \<Rightarrow> u64 \<Rightarrow> u64" where
  "MsanMemToShadow_DG2 SB SE Ptr =
     (if Ptr < SB then Ptr + (SB - 0xffff800000000000)
      else Ptr - (0xffffffffffffffff - SE + 1))"

definition MsanMemToOrigin_DG2 :: "u64 \<Rightarrow> u64 \<Rightarrow> u64 \<Rightarrow> u64" where
  "MsanMemToOrigin_DG2 SB SE Ptr =
     (if Ptr < SB then Ptr + (SB - 0xffff800000000000)
      else Ptr - (0xffffffffffffffff - SE + 1))"

definition MsanMemToShadow :: "device_kind \<Rightarrow> msan_shadow \<Rightarrow> u64 \<Rightarrow> u64" where
  "MsanMemToShadow kind sm Ptr =
     (case kind of
        CPU \<Rightarrow> MEM_TO_SHADOW Ptr
      | GPU_PVC \<Rightarrow> MsanMemToShadow_PVC (ShadowBegin sm) Ptr
      | GPU_DG2 \<Rightarrow> MsanMemToShadow_DG2 (ShadowBegin sm) (ShadowEnd sm) Ptr)"

definition MsanMemToOrigin :: "device_kind \<Rightarrow> msan_shadow \<Rightarrow> u64 \<Rightarrow> u64" where
  "MsanMemToOrigin kind sm Ptr =
     (case kind of
        CPU \<Rightarrow> MsanMemToOrigin_CPU Ptr
      | GPU_PVC \<Rightarrow> MsanMemToOrigin_PVC (ShadowBegin sm) Ptr
      | GPU_DG2 \<Rightarrow> MsanMemToOrigin_DG2 (ShadowBegin sm) (ShadowEnd sm) Ptr)"

definition MsanGetShadowSize :: "device_kind \<Rightarrow> u64" where
  "MsanGetShadowSize kind = (if kind = GPU_PVC then 0xf00000000000 else 0x400000000000)"

definition GetStartAddress :: "device_kind \<Rightarrow> u64" where
  "GetStartAddress kind = (if kind = GPU_PVC then 0x100000000000000 else 0)"

section \<open>Set-up and destruction\<close>

text \<open>
  The set-up of the CPU; \<open>None\<close> when a range cannot be mapped, where the process executes itself
  again or dies. The result of \<open>setup_ranges\<close> is \<open>Initialized\<close> and the ranges mapped.
\<close>

fun setup_ranges :: "msan_api \<Rightarrow> mapping_desc list \<Rightarrow> (u64 \<times> u64) list \<Rightarrow> bool \<times> (u64 \<times> u64) list" where
  "setup_ranges api [] ms = (True, ms)"
| "setup_ranges api (d # ds) ms =
     (let Size = stop d - start d;
          IsMap = (mtype d = SHADOW \<or> mtype d = ORIGIN);
          IsProtect = (mtype d = INVALID)
      in if IsMap \<and> \<not> MmapFixedNoReserve api (start d) Size then (False, ms)
         else let ms1 = (if IsMap then ms @ [(start d, Size)] else ms)
              in if IsProtect \<and> \<not> ProtectMemoryRange api (start d) Size then (False, ms1)
                 else setup_ranges api ds ms1)"

definition MsanSetup_CPU :: "msan_api \<Rightarrow> msan_shadow \<Rightarrow> (ur_result \<times> msan_shadow) option" where
  "MsanSetup_CPU api sm =
     (if ShadowBegin sm \<noteq> 0 then Some (UR_RESULT_SUCCESS, sm)
      else let (Initialized, ms) = setup_ranges api kMemoryLayout (os_mapped sm)
           in if \<not> Initialized then None
              else Some (UR_RESULT_SUCCESS,
                     sm\<lparr>os_mapped := ms, ShadowBegin := start (kMemoryLayout ! 1),
                        ShadowEnd := stop (kMemoryLayout ! 9)\<rparr>))"

fun unmap_ranges :: "msan_api \<Rightarrow> mapping_desc list \<Rightarrow> (u64 \<times> u64) list \<Rightarrow> bool \<times> (u64 \<times> u64) list" where
  "unmap_ranges api [] ms = (True, ms)"
| "unmap_ranges api (d # ds) ms =
     (let Size = stop d - start d
      in if mtype d = SHADOW \<or> mtype d = ORIGIN
         then if \<not> Munmap api (start d) Size then (False, ms)
              else unmap_ranges api ds (removeAll (start d, Size) ms)
         else unmap_ranges api ds ms)"

definition MsanDestory_CPU :: "msan_api \<Rightarrow> msan_shadow \<Rightarrow> ur_result \<times> msan_shadow" where
  "MsanDestory_CPU api sm =
     (if ShadowBegin sm = 0 \<and> ShadowEnd sm = 0 then (UR_RESULT_SUCCESS, sm)
      else let (ok, ms) = unmap_ranges api kMemoryLayout (os_mapped sm); sm1 = sm\<lparr>os_mapped := ms\<rparr>
           in if \<not> ok then (UR_RESULT_ERROR_UNKNOWN, sm1)
              else (UR_RESULT_SUCCESS, sm1\<lparr>ShadowBegin := 0, ShadowEnd := 0\<rparr>))"

text \<open>The lambdas of the GPU run once in the process, whichever object calls first.\<close>

definition MsanSetup_GPU :: "msan_api \<Rightarrow> device_kind \<Rightarrow> msan_statics \<times> msan_shadow
     \<Rightarrow> ur_result \<times> msan_statics \<times> msan_shadow" where
  "MsanSetup_GPU api kind = (\<lambda>(st, sm).
     (case SetupResult st of
        Some r \<Rightarrow> (r, st, sm)
      | None \<Rightarrow>
          let ShadowSize = MsanGetShadowSize kind
          in case pfnReserve api (GetStartAddress kind) ShadowSize of
               Inl r \<Rightarrow> (r, st\<lparr>SetupResult := Some r\<rparr>, sm)
             | Inr b \<Rightarrow> (UR_RESULT_SUCCESS, st\<lparr>SetupResult := Some UR_RESULT_SUCCESS\<rparr>,
                         sm\<lparr>ShadowBegin := b, ShadowEnd := b + ShadowSize, context_refs := context_refs sm + 1\<rparr>)))"

definition msan_free :: "msan_api \<Rightarrow> u64 \<Rightarrow> (msan_shadow \<Rightarrow> msan_shadow) \<Rightarrow> msan_shadow
     \<Rightarrow> ur_result \<times> msan_shadow" where
  "msan_free api p clear sm =
     (if p = 0 then (UR_RESULT_SUCCESS, sm)
      else let sm1 = sm\<lparr>usm_freed := usm_freed sm @ [p]\<rparr>
           in if pfnUSMFree api p \<noteq> UR_RESULT_SUCCESS then (pfnUSMFree api p, sm1)
              else (UR_RESULT_SUCCESS, clear sm1))"

definition destory_once :: "msan_api \<Rightarrow> msan_shadow \<Rightarrow> ur_result \<times> msan_shadow" where
  "destory_once api sm =
     (let r = pfnVirtualMemFree api (ShadowBegin sm);
          sm0 = sm\<lparr>vm_freed := vm_freed sm @ [ShadowBegin sm]\<rparr>;
          (r1, sm1) = msan_free api (PrivateShadowOffset sm0) (PrivateShadowOffset_update (\<lambda>_. 0)) sm0
      in if r1 \<noteq> UR_RESULT_SUCCESS then (r1, sm1) else
      let (r2, sm2) = msan_free api (PrivateBasePtr sm1) (PrivateBasePtr_update (\<lambda>_. 0)) sm1
      in if r2 \<noteq> UR_RESULT_SUCCESS then (r2, sm2) else
      let (r3, sm3) = msan_free api (LocalShadowOffset sm2) (LocalShadowOffset_update (\<lambda>_. 0)) sm2
      in if r3 \<noteq> UR_RESULT_SUCCESS then (r3, sm3)
         else (r, sm3\<lparr>context_refs := context_refs sm3 - 1\<rparr>))"

definition MsanDestory_GPU :: "msan_api \<Rightarrow> msan_statics \<times> msan_shadow \<Rightarrow> ur_result \<times> msan_statics \<times> msan_shadow" where
  "MsanDestory_GPU api = (\<lambda>(st, sm).
     (if ShadowBegin sm = 0 then (UR_RESULT_SUCCESS, st, sm)
      else case DestoryResult st of
             Some r \<Rightarrow> (r, st, sm)
           | None \<Rightarrow> let (r, sm1) = destory_once api sm in (r, st\<lparr>DestoryResult := Some r\<rparr>, sm1)))"

section \<open>Poisoning\<close>

definition origin_bytes :: "u32 \<Rightarrow> u8 list" where
  "origin_bytes v = [ucast v, ucast (drop_bit 8 v), ucast (drop_bit 16 v), ucast (drop_bit 24 v)]"

text \<open>The origin is \<open>None\<close> for a null pointer. The CPU writes with \<open>memset\<close> and \<open>std::fill\<close>.\<close>

definition poison_CPU :: "u64 \<Rightarrow> u64 \<Rightarrow> u8 \<Rightarrow> u32 option \<Rightarrow> msan_shadow \<Rightarrow> msan_shadow" where
  "poison_CPU Ptr Size Value Origin sm =
     (let b = MEM_TO_SHADOW Ptr; e = MEM_TO_SHADOW (Ptr + Size - 1);
          m1 = pattern_fill b (unat (e - b + 1)) [Value] (mem sm);
          m2 = (case Origin of
                  None \<Rightarrow> m1
                | Some v \<Rightarrow>
                    if v = 0 then m1
                    else let ob = MsanMemToOrigin_CPU Ptr;
                             oe = MsanMemToOrigin_CPU (Ptr + Size - 1) + MSAN_ORIGIN_GRANULARITY
                         in pattern_fill ob (unat (oe - ob)) (origin_bytes v) m1)
      in sm\<lparr>mem := m2\<rparr>)"

definition events_wait :: "msan_api \<Rightarrow> event list \<Rightarrow> event option \<Rightarrow> msan_shadow
     \<Rightarrow> ur_result \<times> event option \<times> msan_shadow" where
  "events_wait api Events OutEvent sm =
     (if OutEvent = None then (UR_RESULT_SUCCESS, None, sm)
      else if pfnEventsWait api Events \<noteq> UR_RESULT_SUCCESS then (pfnEventsWait api Events, OutEvent, sm)
      else (UR_RESULT_SUCCESS, Some (new_event api (length (fills sm))), sm))"

definition MsanPoison_CPU :: "msan_api \<Rightarrow> u64 \<Rightarrow> u64 \<Rightarrow> u8 \<Rightarrow> u32 option \<Rightarrow> event list \<Rightarrow> event option
     \<Rightarrow> msan_shadow \<Rightarrow> ur_result \<times> event option \<times> msan_shadow" where
  "MsanPoison_CPU api Ptr Size Value Origin Events OutEvent sm =
     events_wait api Events OutEvent (if Size \<noteq> 0 then poison_CPU Ptr Size Value Origin sm else sm)"

text \<open>
  \<open>EnqueueVirtualMemMap\<close>: the loop over the pages; \<open>None\<close> is a loop that does not end. A newly mapped
  page replaces the wait list by what \<open>OutEvent\<close> points to.
\<close>

partial_function (option) vmem_map ::
  "msan_api \<Rightarrow> u64 \<Rightarrow> u64 \<Rightarrow> event option \<Rightarrow> event list \<Rightarrow> msan_shadow
     \<Rightarrow> (ur_result \<times> event list \<times> msan_shadow) option" where
  "vmem_map api MappedPtr VirtualEnd OutEvent Events sm =
     (if MappedPtr \<le> VirtualEnd
      then let PageSize = GetVirtualMemGranularity api
           in if MappedPtr \<in> fst ` set (VirtualMemMaps sm)
              then vmem_map api (MappedPtr + PageSize) VirtualEnd OutEvent Events sm
              else if pfnPhysicalMemCreate api MappedPtr \<noteq> UR_RESULT_SUCCESS
              then Some (pfnPhysicalMemCreate api MappedPtr, Events, sm)
              else if pfnVirtualMemMap api MappedPtr \<noteq> UR_RESULT_SUCCESS
              then Some (pfnVirtualMemMap api MappedPtr, Events, sm)
              else vmem_map api (MappedPtr + PageSize) VirtualEnd OutEvent
                     (case OutEvent of None \<Rightarrow> [] | Some v \<Rightarrow> [v])
                     (sm\<lparr>VirtualMemMaps := (MappedPtr, []) # VirtualMemMaps sm, vm_mapped := MappedPtr # vm_mapped sm\<rparr>)
      else Some (UR_RESULT_SUCCESS, Events, sm))"

definition EnqueueVirtualMemMap :: "msan_api \<Rightarrow> u64 \<Rightarrow> u64 \<Rightarrow> event option \<Rightarrow> event list \<Rightarrow> msan_shadow
     \<Rightarrow> (ur_result \<times> event list \<times> msan_shadow) option" where
  "EnqueueVirtualMemMap api VirtualBegin VirtualEnd OutEvent Events sm =
     vmem_map api (RoundDownTo VirtualBegin (GetVirtualMemGranularity api)) VirtualEnd OutEvent Events sm"

text \<open>The two blocks of \<open>EnqueuePoisonShadowWithOrigin\<close>: the shadow, then the origins.\<close>

definition poison_shadow_part :: "msan_api \<Rightarrow> device_kind \<Rightarrow> u64 \<Rightarrow> u64 \<Rightarrow> u8 \<Rightarrow> event list \<Rightarrow> event option
     \<Rightarrow> msan_shadow \<Rightarrow> (ur_result \<times> event list \<times> event option \<times> msan_shadow) option" where
  "poison_shadow_part api kind Ptr Size Value Events OutEvent sm =
     (let b = MsanMemToShadow kind sm Ptr; e = MsanMemToShadow kind sm (Ptr + Size - 1)
      in case EnqueueVirtualMemMap api b e OutEvent Events sm of
           None \<Rightarrow> None
         | Some (r, Ev, sm1) \<Rightarrow>
             if r \<noteq> UR_RESULT_SUCCESS then Some (r, Ev, OutEvent, sm1)
             else let (r2, Out, sm2) = USMFill api b [Value] (e - b + 1) Ev OutEvent sm1
                  in Some (r2, Ev, Out, sm2))"

definition poison_origin_part :: "msan_api \<Rightarrow> device_kind \<Rightarrow> u64 \<Rightarrow> u64 \<Rightarrow> u32 option \<Rightarrow> event list \<Rightarrow> event list
     \<Rightarrow> event option \<Rightarrow> msan_shadow \<Rightarrow> (ur_result \<times> event option \<times> msan_shadow) option" where
  "poison_origin_part api kind Ptr Size Origin EventWaitList Events OutEvent sm =
     (let b = MsanMemToOrigin kind sm Ptr; e = MsanMemToOrigin kind sm (Ptr + Size - 1) + 4 - 1
      in case EnqueueVirtualMemMap api b e OutEvent Events sm of
           None \<Rightarrow> None
         | Some (r, Ev, sm1) \<Rightarrow>
             if r \<noteq> UR_RESULT_SUCCESS then Some (r, OutEvent, sm1)
             else case Origin of
                    None \<Rightarrow> Some (UR_RESULT_SUCCESS, OutEvent, sm1)
                  | Some v \<Rightarrow>
                      if v = 0 then Some (UR_RESULT_SUCCESS, OutEvent, sm1)
                      else Some (USMFill api b (origin_bytes v) (e - b + 1) EventWaitList OutEvent sm1))"

definition MsanPoison_GPU :: "msan_api \<Rightarrow> device_kind \<Rightarrow> u64 \<Rightarrow> u64 \<Rightarrow> u8 \<Rightarrow> u32 option \<Rightarrow> event list \<Rightarrow> event option
     \<Rightarrow> msan_shadow \<Rightarrow> (ur_result \<times> event option \<times> msan_shadow) option" where
  "MsanPoison_GPU api kind Ptr Size Value Origin EventWaitList OutEvent sm =
     (if Size = 0 then Some (events_wait api EventWaitList OutEvent sm)
      else case poison_shadow_part api kind Ptr Size Value EventWaitList OutEvent sm of
             None \<Rightarrow> None
           | Some (r, Events, Out, sm1) \<Rightarrow>
               if r \<noteq> UR_RESULT_SUCCESS then Some (r, Out, sm1)
               else poison_origin_part api kind Ptr Size Origin EventWaitList Events Out sm1)"

definition EnqueuePoisonShadowWithOrigin :: "msan_api \<Rightarrow> device_kind \<Rightarrow> u64 \<Rightarrow> u64 \<Rightarrow> u8 \<Rightarrow> u32 option
     \<Rightarrow> event list \<Rightarrow> event option \<Rightarrow> msan_shadow \<Rightarrow> (ur_result \<times> event option \<times> msan_shadow) option" where
  "EnqueuePoisonShadowWithOrigin api kind Ptr Size Value Origin EventWaitList OutEvent sm =
     (if kind = CPU then Some (MsanPoison_CPU api Ptr Size Value Origin EventWaitList OutEvent sm)
      else MsanPoison_GPU api kind Ptr Size Value Origin EventWaitList OutEvent sm)"

definition MsanEnqueuePoisonShadow :: "msan_api \<Rightarrow> device_kind \<Rightarrow> u64 \<Rightarrow> u64 \<Rightarrow> u8
     \<Rightarrow> event list \<Rightarrow> event option \<Rightarrow> msan_shadow \<Rightarrow> (ur_result \<times> event option \<times> msan_shadow) option" where
  "MsanEnqueuePoisonShadow api kind Ptr Size Value EventWaitList OutEvent sm =
     EnqueuePoisonShadowWithOrigin api kind Ptr Size Value None EventWaitList OutEvent sm"

section \<open>Release of pages\<close>

text \<open>The loop of \<open>ReleaseShadow\<close> for the allocation \<open>ai\<close>; \<open>operator[]\<close> finds the entry.\<close>

partial_function (option) release_pages ::
  "msan_api \<Rightarrow> nat \<Rightarrow> u64 \<Rightarrow> u64 \<Rightarrow> msan_shadow \<Rightarrow> (ur_result \<times> msan_shadow) option" where
  "release_pages api ai MappedPtr e sm =
     (if MappedPtr \<le> e
      then let PageSize = GetVirtualMemGranularity api
           in case map_of (VirtualMemMaps sm) MappedPtr of
                None \<Rightarrow> release_pages api ai (MappedPtr + PageSize) e sm
              | Some owners \<Rightarrow>
                  let owners1 = removeAll ai owners;
                      sm1 = sm\<lparr>VirtualMemMaps := map (\<lambda>(p, os). (p, if p = MappedPtr then owners1 else os)) (VirtualMemMaps sm)\<rparr>
                  in if owners1 \<noteq> [] then release_pages api ai (MappedPtr + PageSize) e sm1
                     else if pfnVirtualMemUnmap api MappedPtr \<noteq> UR_RESULT_SUCCESS
                     then Some (pfnVirtualMemUnmap api MappedPtr, sm1)
                     else let sm2 = sm1\<lparr>vm_mapped := removeAll MappedPtr (vm_mapped sm1)\<rparr>
                          in if pfnPhysicalMemRelease api MappedPtr \<noteq> UR_RESULT_SUCCESS
                             then Some (pfnPhysicalMemRelease api MappedPtr, sm2)
                             else release_pages api ai (MappedPtr + PageSize) e sm2
      else Some (UR_RESULT_SUCCESS, sm))"

definition ReleaseShadow :: "msan_api \<Rightarrow> device_kind \<Rightarrow> nat \<Rightarrow> u64 \<Rightarrow> u64 \<Rightarrow> msan_shadow
     \<Rightarrow> (ur_result \<times> msan_shadow) option" where
  "ReleaseShadow api kind ai AllocBegin AllocSize sm =
     (if kind = CPU then Some (UR_RESULT_SUCCESS, sm)
      else let b = MsanMemToShadow kind sm AllocBegin; e = MsanMemToShadow kind sm (AllocBegin + AllocSize)
           in release_pages api ai (RoundDownTo b (GetVirtualMemGranularity api)) e sm)"

section \<open>Local and private shadows\<close>

definition msan_local_size :: "msan_api \<Rightarrow> u32 \<Rightarrow> u64" where
  "msan_local_size api NumWG = ucast (min NumWG MSAN_MAX_WG_LOCAL) * GetDeviceLocalMemorySize api"

definition zero_fill :: "msan_api \<Rightarrow> u64 \<Rightarrow> u64 \<Rightarrow> msan_shadow \<Rightarrow> ur_result \<times> msan_shadow" where
  "zero_fill api p n sm = (let (r, _, sm1) = USMFill api p [0] n [] None sm in (r, sm1))"

definition MsanAllocLocalShadow :: "msan_api \<Rightarrow> device_kind \<Rightarrow> u32 \<Rightarrow> msan_statics \<times> msan_shadow
     \<Rightarrow> ur_result \<times> (u64 \<times> u64) option \<times> msan_statics \<times> msan_shadow" where
  "MsanAllocLocalShadow api kind NumWG = (\<lambda>(st, sm).
     (if kind = CPU then (UR_RESULT_SUCCESS, Some (ShadowBegin sm, ShadowEnd sm), st, sm)
      else
      let Required = msan_local_size api NumWG;
          finish = (\<lambda>st s. (UR_RESULT_SUCCESS,
                      Some (LocalShadowOffset s, LocalShadowOffset s + Required - 1), st, s))
      in if Required > LastAllocedSize st
         then let (r1, sm1) = msan_free api (LocalShadowOffset sm) (LocalShadowOffset_update (\<lambda>_. 0)) sm;
                  st1 = (if LocalShadowOffset sm \<noteq> 0 then st\<lparr>LastAllocedSize := 0\<rparr> else st)
              in if r1 \<noteq> UR_RESULT_SUCCESS then (r1, None, st, sm1)
                 else case SafeAllocate api True DEVICE_USM Required of
                        Inl r \<Rightarrow> (r, None, st1, sm1)
                      | Inr p \<Rightarrow>
                          let (r2, sm2) = zero_fill api p Required (sm1\<lparr>LocalShadowOffset := p\<rparr>)
                          in if r2 \<noteq> UR_RESULT_SUCCESS
                             then let (r3, sm3) = msan_free api p (LocalShadowOffset_update (\<lambda>_. 0)) sm2
                                  in if r3 \<noteq> UR_RESULT_SUCCESS then (r3, None, st1, sm3)
                                     else (r2, None, st1\<lparr>LastAllocedSize := 0\<rparr>, sm3)
                             else finish (st1\<lparr>LastAllocedSize := Required\<rparr>) sm2
         else finish st sm))"

definition msan_private_base :: "msan_api \<Rightarrow> u64 \<Rightarrow> msan_statics \<times> msan_shadow
     \<Rightarrow> ur_result \<times> msan_statics \<times> msan_shadow" where
  "msan_private_base api n = (\<lambda>(st, sm).
     (if n > LastPrivateBaseAllocedSize st
      then let (r1, sm1) = msan_free api (PrivateBasePtr sm) (PrivateBasePtr_update (\<lambda>_. 0)) sm;
               st1 = (if PrivateBasePtr sm \<noteq> 0 then st\<lparr>LastPrivateBaseAllocedSize := 0\<rparr> else st)
           in if r1 \<noteq> UR_RESULT_SUCCESS then (r1, st, sm1)
              else case SafeAllocate api True DEVICE_USM n of
                     Inl r \<Rightarrow> (r, st1, sm1)
                   | Inr p \<Rightarrow> (UR_RESULT_SUCCESS, st1\<lparr>LastPrivateBaseAllocedSize := n\<rparr>, sm1\<lparr>PrivateBasePtr := p\<rparr>)
      else (UR_RESULT_SUCCESS, st, sm)))"

definition msan_private_shadow :: "msan_api \<Rightarrow> u64 \<Rightarrow> msan_statics \<times> msan_shadow
     \<Rightarrow> ur_result \<times> msan_statics \<times> msan_shadow" where
  "msan_private_shadow api n = (\<lambda>(st, sm).
     (if n > LastPrivateShadowAllocedSize st
      then let (r1, sm1) = msan_free api (PrivateShadowOffset sm) (PrivateShadowOffset_update (\<lambda>_. 0)) sm;
               st1 = (if PrivateShadowOffset sm \<noteq> 0 then st\<lparr>LastPrivateShadowAllocedSize := 0\<rparr> else st)
           in if r1 \<noteq> UR_RESULT_SUCCESS then (r1, st, sm1)
              else case SafeAllocate api True DEVICE_USM n of
                     Inl r \<Rightarrow> (r, st1, sm1)
                   | Inr p \<Rightarrow>
                       let (r2, sm2) = zero_fill api p n (sm1\<lparr>PrivateShadowOffset := p\<rparr>)
                       in (r2, st1\<lparr>LastPrivateShadowAllocedSize := n\<rparr>, sm2)
      else (UR_RESULT_SUCCESS, st, sm)))"

definition msan_private_rollback :: "msan_statics \<times> msan_shadow \<Rightarrow> msan_statics \<times> msan_shadow" where
  "msan_private_rollback = (\<lambda>(st, sm).
     (let (st1, sm1) =
            (if PrivateBasePtr sm \<noteq> 0
             then (st\<lparr>LastPrivateBaseAllocedSize := 0\<rparr>,
                   sm\<lparr>usm_freed := usm_freed sm @ [PrivateBasePtr sm], PrivateBasePtr := 0\<rparr>)
             else (st, sm))
      in if PrivateShadowOffset sm1 \<noteq> 0
         then (st1\<lparr>LastPrivateShadowAllocedSize := 0\<rparr>,
               sm1\<lparr>usm_freed := usm_freed sm1 @ [PrivateShadowOffset sm1], PrivateShadowOffset := 0\<rparr>)
         else (st1, sm1)))"

text \<open>The result is \<open>Base\<close>, \<open>Begin\<close> and \<open>End\<close>; the CPU leaves \<open>Base\<close> alone.\<close>

definition MsanAllocPrivateShadow :: "msan_api \<Rightarrow> device_kind \<Rightarrow> u32 \<Rightarrow> msan_statics \<times> msan_shadow
     \<Rightarrow> ur_result \<times> (u64 option \<times> u64 \<times> u64) option \<times> msan_statics \<times> msan_shadow" where
  "MsanAllocPrivateShadow api kind NumSG0 w =
     (if kind = CPU then (UR_RESULT_SUCCESS, Some (None, ShadowBegin (snd w), ShadowEnd (snd w)), w)
      else
      let NumSG = min NumSG0 MSAN_MAX_SG_PRIVATE;
          NewPrivateShadowSize = ucast NumSG * MSAN_PRIVATE_SIZE;
          (r1, w1) = msan_private_base api (ucast NumSG * 8) w
      in if r1 \<noteq> UR_RESULT_SUCCESS then (r1, None, msan_private_rollback w1)
         else let (r2, w2) = msan_private_shadow api NewPrivateShadowSize w1
              in if r2 \<noteq> UR_RESULT_SUCCESS then (r2, None, msan_private_rollback w2)
                 else (UR_RESULT_SUCCESS,
                       Some (Some (PrivateBasePtr (snd w2)), PrivateShadowOffset (snd w2),
                             PrivateShadowOffset (snd w2) + NewPrivateShadowSize - 1), w2))"

section \<open>The contract of a layout\<close>

text \<open>
  The application's addresses lie in areas. Inside an area a shadow is a displacement; the shadows
  of different areas do not overlap.
\<close>

locale msan_shadow_map =
  fixes M :: "u64 \<Rightarrow> u64" and R :: "'k \<Rightarrow> u64 \<Rightarrow> bool" and org base sz :: "'k \<Rightarrow> nat"
  assumes shadow_at: "R k a \<Longrightarrow> unat (M a) = base k + (unat a - org k)"
    and area: "R k a \<Longrightarrow> org k \<le> unat a \<and> unat a < org k + sz k"
    and area_full: "R k a \<Longrightarrow> org k \<le> unat c \<Longrightarrow> unat c < org k + sz k \<Longrightarrow> R k c"
    and shadows_fit: "R k a \<Longrightarrow> base k + sz k < 2 ^ 64"
    and shadows_apart: "R k a \<Longrightarrow> R l b \<Longrightarrow> k \<noteq> l \<Longrightarrow> base k + sz k \<le> base l \<or> base l + sz l \<le> base k"
begin

lemma shadow_range: "R k a \<Longrightarrow> base k \<le> unat (M a) \<and> unat (M a) < base k + sz k"
  using shadow_at [of k a] area [of k a] by linarith

lemma area_between: "R k a \<Longrightarrow> R k b \<Longrightarrow> unat a \<le> unat c \<Longrightarrow> unat c \<le> unat b \<Longrightarrow> R k c"
  using area [of k a] area [of k b] area_full [of k a c] by simp

lemma area_unique: "R k a \<Longrightarrow> R l a \<Longrightarrow> k = l"
  using shadow_range [of k a] shadow_range [of l a] shadows_apart [of k a l a] by auto

lemma shadow_order: "R k a \<Longrightarrow> R k b \<Longrightarrow> unat (M a) \<le> unat (M b) \<longleftrightarrow> unat a \<le> unat b"
  using shadow_at [of k a] shadow_at [of k b] area [of k a] area [of k b] by auto

lemma shadow_inj: "R k a \<Longrightarrow> R l b \<Longrightarrow> M a = M b \<longleftrightarrow> a = b"
proof (cases "k = l")
  case True
  assume "R k a" "R l b"
  with True show ?thesis
    using shadow_order [of k a b] shadow_order [of k b a] unfolding word_unat_eq_iff by auto
next
  case False
  assume "R k a" "R l b"
  with False show ?thesis
    using shadow_range [of k a] shadow_range [of l b] shadows_apart [of k a l b] by auto
qed

lemma shadow_length:
  assumes "R k p" "R k q" "unat p \<le> unat q"
  shows "unat (M q - M p + 1) = unat (M q) - unat (M p) + 1"
proof -
  have "unat (M q) - unat (M p) + 1 < 2 ^ 64"
    using shadow_range [OF assms(2)] shadows_fit [OF assms(2)] by linarith
  then show ?thesis using assms shadow_order [of k p q] by (simp add: unat_sub_u64 unat_add_u64)
qed

lemma fill_shadow:
  assumes "R k p" "R k q" "unat p \<le> unat q" "R l a"
  shows "pattern_fill (M p) (unat (M q - M p + 1)) [v] m (M a) =
           (if unat p \<le> unat a \<and> unat a \<le> unat q then v else m (M a))"
proof -
  have le: "unat (M p) \<le> unat (M q)" using assms shadow_order by blast
  have "unat (M p) \<le> unat (M a) \<and> unat (M a) \<le> unat (M q) \<longleftrightarrow> unat p \<le> unat a \<and> unat a \<le> unat q"
  proof (cases "k = l")
    case True
    with assms show ?thesis using shadow_order by auto
  next
    case False
    then have "\<not> R k a" using assms(4) area_unique by blast
    then have "\<not> (unat p \<le> unat a \<and> unat a \<le> unat q)" using assms(1,2) area_between by blast
    moreover have "\<not> (unat (M p) \<le> unat (M a) \<and> unat (M a) \<le> unat (M q))"
      using shadow_range [OF assms(1)] shadow_range [OF assms(2)] shadow_range [OF assms(4)]
        shadows_apart [OF assms(1,4) False] by auto
    ultimately show ?thesis by blast
  qed
  then show ?thesis
    using le by (auto simp: pattern_fill_def shadow_length [OF assms(1-3)])
qed

end

text \<open>With origins: four bytes share an origin, and no origin overlaps a shadow.\<close>

locale msan_mapping = msan_shadow_map M R org base sz
  for M :: "u64 \<Rightarrow> u64" and R :: "'k \<Rightarrow> u64 \<Rightarrow> bool" and org base sz :: "'k \<Rightarrow> nat" +
  fixes OM :: "u64 \<Rightarrow> u64" and obase :: "'k \<Rightarrow> nat"
  assumes origin_at: "R k a \<Longrightarrow> unat (OM a) = obase k + (4 * (unat a div 4) - org k)"
    and aligned: "R k a \<Longrightarrow> org k mod 4 = 0 \<and> sz k mod 4 = 0"
    and origins_fit: "R k a \<Longrightarrow> obase k + sz k < 2 ^ 64"
    and origins_apart: "R k a \<Longrightarrow> R l b \<Longrightarrow> k \<noteq> l \<Longrightarrow> obase k + sz k \<le> obase l \<or> obase l + sz l \<le> obase k"
    and shadow_origin_apart: "R k a \<Longrightarrow> R l b \<Longrightarrow> base k + sz k \<le> obase l \<or> obase l + sz l \<le> base k"
begin

lemma origin_range: "R k a \<Longrightarrow> obase k \<le> unat (OM a) \<and> unat (OM a) + 4 \<le> obase k + sz k"
proof -
  assume a: "R k a"
  obtain o' s' where "org k = 4 * o'" "sz k = 4 * s'"
    using aligned [OF a] by (metis mod_0_imp_dvd dvdE)
  with area [OF a] have "o' \<le> unat a div 4" "unat a div 4 < o' + s'" by auto
  with \<open>org k = 4 * o'\<close> \<open>sz k = 4 * s'\<close> origin_at [OF a] show ?thesis by linarith
qed

lemma origin_byte: "R k a \<Longrightarrow> i < 4 \<Longrightarrow> unat (OM a + of_nat i) = unat (OM a) + i"
proof -
  assume a: "R k a" and i: "i < 4"
  have "unat (of_nat i :: u64) = i" using i by (intro unat_of_nat_u64) simp
  moreover have "unat (OM a) + i < 2 ^ 64" using origin_range [OF a] origins_fit [OF a] i by linarith
  ultimately show ?thesis by (simp add: unat_add_u64)
qed

lemma group_above: "R k a \<Longrightarrow> org k \<le> 4 * (unat a div 4)"
proof -
  assume a: "R k a"
  obtain o' where "org k = 4 * o'" using aligned [OF a] by (metis mod_0_imp_dvd dvdE)
  with area [OF a] show ?thesis by auto
qed

lemma origin_le_iff: "R k a \<Longrightarrow> R k b \<Longrightarrow> unat (OM a) \<le> unat (OM b) \<longleftrightarrow> unat a div 4 \<le> unat b div 4"
  using origin_at [of k a] origin_at [of k b] group_above [of k a] group_above [of k b] by linarith

lemma origin_step: "R k a \<Longrightarrow> R k b \<Longrightarrow> unat a div 4 < unat b div 4 \<Longrightarrow> unat (OM a) + 4 \<le> unat (OM b)"
  using origin_at [of k a] origin_at [of k b] group_above [of k a] group_above [of k b] by linarith

lemma same_origin_iff: "R k a \<Longrightarrow> R l b \<Longrightarrow> OM a = OM b \<longleftrightarrow> k = l \<and> unat a div 4 = unat b div 4"
proof (cases "k = l")
  case True
  assume "R k a" "R l b"
  with True show ?thesis
    using origin_le_iff [of k a b] origin_le_iff [of k b a] unfolding word_unat_eq_iff by auto
next
  case False
  assume ab: "R k a" "R l b"
  with False show ?thesis
    using origin_range [OF ab(1)] origin_range [OF ab(2)] origins_apart [OF ab False] by auto
qed

lemma origin_length:
  assumes "R k p" "R k q" "unat p \<le> unat q"
  shows "unat (OM q + 4 - OM p) = unat (OM q) + 4 - unat (OM p)"
    and "unat (OM q + 4 - 1 - OM p + 1) = unat (OM q) + 4 - unat (OM p)"
    and "unat (OM p) \<le> unat (OM q)"
proof -
  show le: "unat (OM p) \<le> unat (OM q)" using assms origin_le_iff by (simp add: div_le_mono)
  have "unat (OM q + 4) = unat (OM q) + 4"
    using origin_range [OF assms(2)] origins_fit [OF assms(2)] by (subst unat_add_u64) auto
  with le show "unat (OM q + 4 - OM p) = unat (OM q) + 4 - unat (OM p)" by (simp add: unat_sub_u64)
  then show "unat (OM q + 4 - 1 - OM p + 1) = unat (OM q) + 4 - unat (OM p)"
    by (simp add: algebra_simps)
qed

lemma origin_span:
  assumes "R k p" "R k q" "unat p \<le> unat q" "R l a" "i < 4"
  shows "unat (OM p) \<le> unat (OM a) + i \<and> unat (OM a) + i < unat (OM q) + 4 \<longleftrightarrow>
           unat p div 4 \<le> unat a div 4 \<and> unat a div 4 \<le> unat q div 4 \<and> k = l"
proof (cases "k = l")
  case True
  then have a: "R k a" using assms(4) by simp
  have "unat (OM a) + 4 \<le> unat (OM p)" if "unat a div 4 < unat p div 4" using origin_step [OF a assms(1) that] .
  moreover have "unat (OM q) + 4 \<le> unat (OM a)" if "unat q div 4 < unat a div 4" using origin_step [OF assms(2) a that] .
  moreover have "unat (OM p) \<le> unat (OM a)" if "unat p div 4 \<le> unat a div 4" using origin_le_iff [OF assms(1) a] that by simp
  moreover have "unat (OM a) \<le> unat (OM q)" if "unat a div 4 \<le> unat q div 4" using origin_le_iff [OF a assms(2)] that by simp
  ultimately show ?thesis using assms(5) True by linarith
next
  case False
  then show ?thesis
    using origin_range [OF assms(1)] origin_range [OF assms(2)] origin_range [OF assms(4)]
      origins_apart [OF assms(1,4) False] assms(5) by auto
qed

lemma group_between:
  assumes "R k p" "R k q" "unat p div 4 \<le> unat a div 4" "unat a div 4 \<le> unat q div 4"
  shows "R k a"
proof -
  obtain o' s' where os: "org k = 4 * o'" "sz k = 4 * s'"
    using aligned [OF assms(1)] by (metis mod_0_imp_dvd dvdE)
  with area [OF assms(1)] area [OF assms(2)] have "o' \<le> unat p div 4" "unat q div 4 < o' + s'" by auto
  with assms(3,4) have "o' \<le> unat a div 4" "unat a div 4 < o' + s'" by auto
  with os show ?thesis by (intro area_full [OF assms(1)]) auto
qed

lemma fill_origin:
  assumes "R k p" "R k q" "unat p \<le> unat q" "R l a" "i < 4" "length pat = 4"
  shows "pattern_fill (OM p) (unat (OM q) + 4 - unat (OM p)) pat m (OM a + of_nat i) =
           (if unat p div 4 \<le> unat a div 4 \<and> unat a div 4 \<le> unat q div 4 then pat ! i else m (OM a + of_nat i))"
proof -
  have byte: "unat (OM a + of_nat i) = unat (OM a) + i" using origin_byte [OF assms(4,5)] .
  have span: "unat (OM p) \<le> unat (OM a) + i \<and> unat (OM a) + i < unat (OM p) + (unat (OM q) + 4 - unat (OM p)) \<longleftrightarrow>
      unat p div 4 \<le> unat a div 4 \<and> unat a div 4 \<le> unat q div 4"
    using origin_span [OF assms(1-5)] origin_length(3) [OF assms(1-3)] group_between [OF assms(1,2), of a]
      area_unique [of k a l] assms(4) by auto
  have "(unat (OM a) + i - unat (OM p)) mod 4 = i"
    if "unat p div 4 \<le> unat a div 4 \<and> unat a div 4 \<le> unat q div 4"
  proof -
    have a: "R k a" using that group_between [OF assms(1,2)] by blast
    obtain o' where o': "org k = 4 * o'" using aligned [OF a] by (metis mod_0_imp_dvd dvdE)
    define g h where "g = unat p div 4" and "h = unat a div 4"
    have "o' \<le> g" "g \<le> h" using that group_above [OF assms(1)] o' by (auto simp: g_def h_def)
    then have "unat (OM a) + i - unat (OM p) = 4 * (h - g) + i"
      unfolding origin_at [OF a] origin_at [OF assms(1)] o' g_def [symmetric] h_def [symmetric] by simp
    with assms(5) show ?thesis by simp
  qed
  with span show ?thesis by (auto simp: pattern_fill_def byte assms(6))
qed

lemma origin_fill_keeps_shadow:
  assumes "R k p" "R k q" "unat p \<le> unat q" "R l a"
  shows "pattern_fill (OM p) (unat (OM q) + 4 - unat (OM p)) pat m (M a) = m (M a)"
  using shadow_origin_apart [OF assms(4,1)] shadow_range [OF assms(4)] origin_range [OF assms(1)]
    origin_range [OF assms(2)] origin_length(3) [OF assms(1-3)] by (auto simp: pattern_fill_def)

lemma shadow_fill_keeps_origin:
  assumes "R k p" "R k q" "unat p \<le> unat q" "R l a" "i < 4"
  shows "pattern_fill (M p) (unat (M q - M p + 1)) pat m (OM a + of_nat i) = m (OM a + of_nat i)"
  using shadow_origin_apart [OF assms(1,4)] shadow_range [OF assms(1)] shadow_range [OF assms(2)]
    origin_range [OF assms(4)] origin_byte [OF assms(4,5)] shadow_length [OF assms(1-3)]
    shadow_order [OF assms(1,2)] assms(3,5) by (auto simp: pattern_fill_def)

end

section \<open>The layouts\<close>

text \<open>
  The areas of the application: app-1 to app-3 of the CPU; shared, host and device memory of PVC, the
  last above the reserved range; device memory below and above the reserved range of DG2.
\<close>

datatype area = Area1 | Area2 | Area3

definition area_org :: "device_kind \<Rightarrow> msan_shadow \<Rightarrow> area \<Rightarrow> nat" where
  "area_org kind sm k =
     (case kind of
        CPU \<Rightarrow> (case k of Area1 \<Rightarrow> 0 | Area2 \<Rightarrow> 0x510000000000 | Area3 \<Rightarrow> 0x740000000000)
      | GPU_PVC \<Rightarrow> (case k of Area1 \<Rightarrow> 0x700000000000 | Area2 \<Rightarrow> 0x00fff00000000000 | Area3 \<Rightarrow> unat (ShadowEnd sm))
      | GPU_DG2 \<Rightarrow> (case k of Area1 \<Rightarrow> 0xffff800000000000 | Area2 \<Rightarrow> unat (ShadowEnd sm) | Area3 \<Rightarrow> 0))"

definition area_size :: "device_kind \<Rightarrow> msan_shadow \<Rightarrow> area \<Rightarrow> nat" where
  "area_size kind sm k =
     (case kind of
        CPU \<Rightarrow> (case k of Area1 \<Rightarrow> 0x010000000000 | Area2 \<Rightarrow> 0x0f0000000000 | Area3 \<Rightarrow> 0x0c0000000000)
      | GPU_PVC \<Rightarrow> (case k of Area1 \<Rightarrow> 0x100000000000 | Area2 \<Rightarrow> 0x100000000000 | Area3 \<Rightarrow> 0x500000000000)
      | GPU_DG2 \<Rightarrow> (case k of Area1 \<Rightarrow> unat (ShadowBegin sm) - 0xffff800000000000
                            | Area2 \<Rightarrow> 2 ^ 64 - unat (ShadowEnd sm) | Area3 \<Rightarrow> 0))"

definition area_shadow :: "device_kind \<Rightarrow> msan_shadow \<Rightarrow> area \<Rightarrow> nat" where
  "area_shadow kind sm k =
     (case kind of
        CPU \<Rightarrow> (case k of Area1 \<Rightarrow> 0x500000000000 | Area2 \<Rightarrow> 0x010000000000 | Area3 \<Rightarrow> 0x240000000000)
      | GPU_PVC \<Rightarrow> (case k of Area1 \<Rightarrow> unat (ShadowBegin sm) | Area2 \<Rightarrow> unat (ShadowBegin sm) + 0x100000000000
                            | Area3 \<Rightarrow> unat (ShadowEnd sm) - 0x500000000000)
      | GPU_DG2 \<Rightarrow> (case k of Area1 \<Rightarrow> unat (ShadowBegin sm)
                            | Area2 \<Rightarrow> unat (ShadowEnd sm) - (2 ^ 64 - unat (ShadowEnd sm)) | Area3 \<Rightarrow> 0))"

definition area_origin :: "device_kind \<Rightarrow> msan_shadow \<Rightarrow> area \<Rightarrow> nat" where
  "area_origin kind sm k =
     (case kind of
        CPU \<Rightarrow> area_shadow CPU sm k + 0x100000000000
      | _ \<Rightarrow> (case k of Area1 \<Rightarrow> unat (ShadowBegin sm) + 0x200000000000
                     | Area2 \<Rightarrow> unat (ShadowBegin sm) + 0x300000000000
                     | Area3 \<Rightarrow> unat (ShadowEnd sm) - 0xA00000000000))"

text \<open>What the header comments say of the reserved range: it lies in the address range of device memory.\<close>

definition layout_ok :: "device_kind \<Rightarrow> msan_shadow \<Rightarrow> bool" where
  "layout_ok kind sm \<longleftrightarrow>
     (case kind of
        CPU \<Rightarrow> True
      | GPU_PVC \<Rightarrow> 0xff00000000000000 \<le> unat (ShadowBegin sm) \<and> unat (ShadowBegin sm) mod 4 = 0 \<and>
          unat (ShadowEnd sm) = unat (ShadowBegin sm) + 0xf00000000000 \<and> unat (ShadowEnd sm) \<le> 0xff01000000000000
      | GPU_DG2 \<Rightarrow> 0xffff800000000000 \<le> unat (ShadowBegin sm) \<and>
          unat (ShadowEnd sm) = unat (ShadowBegin sm) + 0x400000000000)"

definition in_area :: "device_kind \<Rightarrow> msan_shadow \<Rightarrow> area \<Rightarrow> u64 \<Rightarrow> bool" where
  "in_area kind sm k a \<longleftrightarrow>
     layout_ok kind sm \<and> area_org kind sm k \<le> unat a \<and> unat a < area_org kind sm k + area_size kind sm k"

lemmas area_defs = area_org_def area_size_def area_shadow_def area_origin_def layout_ok_def in_area_def

subsection \<open>CPU\<close>

lemma unat_split: "unat (a :: u64) = unat (drop_bit n a) * 2 ^ n + unat (take_bit n a)"
  unfolding unat_drop_bit_eq unat_take_bit by (simp only: drop_bit_eq_div div_mult_mod_eq)

lemma xor_high:
  "drop_bit 44 (a XOR 0x500000000000 :: u64) = drop_bit 44 a XOR 5"
  "take_bit 44 (a XOR 0x500000000000 :: u64) = take_bit 44 a"
  by (simp_all add: drop_bit_xor take_bit_xor)

lemma cpu_shadow:
  assumes "in_area CPU sm k a"
  shows "unat (MEM_TO_SHADOW a) = area_shadow CPU sm k + (unat a - area_org CPU sm k)"
proof -
  have top: "unat (drop_bit 44 a) = unat a div 2 ^ 44" unfolding unat_drop_bit_eq by (simp add: drop_bit_eq_div)
  have "unat a div 2 ^ 44 = (case k of Area1 \<Rightarrow> 0 | Area2 \<Rightarrow> 5 | Area3 \<Rightarrow> 7)"
    using assms by (cases k) (auto simp: area_defs intro!: div_nat_eqI)
  then have d: "drop_bit 44 a = (case k of Area1 \<Rightarrow> 0 | Area2 \<Rightarrow> 5 | Area3 \<Rightarrow> 7)"
    unfolding top [symmetric] word_unat_eq_iff by (cases k) simp_all
  show ?thesis
    unfolding MEM_TO_SHADOW_def unat_split [of "a XOR 0x500000000000" 44] xor_high
    using assms unat_split [of a 44] unfolding d by (cases k) (simp_all add: area_defs)
qed

lemma RoundDown4: "unat (RoundDownTo a MSAN_ORIGIN_GRANULARITY) = 4 * (unat a div 4)"
  using unat_RoundDownTo [of a 2] by (simp add: MSAN_ORIGIN_GRANULARITY_def)

lemma in_area_aligned:
  assumes "in_area kind sm k a" "kind \<noteq> GPU_DG2"
  shows "in_area kind sm k (RoundDownTo a MSAN_ORIGIN_GRANULARITY)"
proof -
  have "area_org kind sm k mod 4 = 0"
    using assms mod_add_eq [of "unat (ShadowBegin sm)" 4 "0xf00000000000"]
    by (cases kind; cases k) (auto simp: area_defs)
  then obtain o' where "area_org kind sm k = 4 * o'" by (metis mod_0_imp_dvd dvdE)
  with assms(1) show ?thesis unfolding in_area_def RoundDown4 by auto
qed

lemma cpu_origin:
  assumes "in_area CPU sm k a"
  shows "unat (MsanMemToOrigin_CPU a) = area_origin CPU sm k + (4 * (unat a div 4) - area_org CPU sm k)"
proof -
  let ?b = "RoundDownTo a MSAN_ORIGIN_GRANULARITY"
  have b: "in_area CPU sm k ?b" using in_area_aligned [OF assms] by simp
  have "unat (MEM_TO_SHADOW ?b) + 0x100000000000 < 2 ^ 64"
    using cpu_shadow [OF b] b by (cases k) (auto simp: area_defs)
  then show ?thesis
    using cpu_shadow [OF b] RoundDown4 [of a]
    by (simp add: MsanMemToOrigin_CPU_def SHADOW_TO_ORIGIN_def unat_add_u64 area_origin_def)
qed

subsection \<open>PVC\<close>

lemma device_usm_iff: "IsDeviceUSM_PVC a \<longleftrightarrow> 0xff00000000000000 \<le> unat a \<and> unat a < 0xff10000000000000"
proof -
  have "IsDeviceUSM_PVC a \<longleftrightarrow> unat a div 2 ^ 52 = 0xff0"
    unfolding IsDeviceUSM_PVC_def word_unat_eq_iff unat_drop_bit_eq by (simp add: drop_bit_eq_div)
  also have "\<dots> \<longleftrightarrow> 0xff0 * 2 ^ 52 \<le> unat a \<and> unat a < 0xff1 * 2 ^ 52"
    by (auto simp: div_nat_eqI dest: sym [of _ "unat a div 2 ^ 52"])
  finally show ?thesis by simp
qed

lemma and_exp_bit: "(a :: u64) AND 2 ^ n = (if bit a n then 2 ^ n else 0)"
  by (rule bit_word_eqI) (auto simp: bit_simps)

lemma bit_word_iff_odd_unat: "bit (a :: u64) n \<longleftrightarrow> odd (unat a div 2 ^ n)"
  by (simp add: bit_unsigned_iff flip: bit_iff_odd)

text \<open>The part of the address below bit 44, with bit 47 moved to bit 44.\<close>

lemma host_displacement:
  assumes "in_area GPU_PVC sm k a" "k \<noteq> Area3"
  shows "unat ((a AND 0xfffffffffff) + drop_bit 3 (a AND 0x800000000000)) =
           (if k = Area2 then 0x100000000000 else 0) + (unat a - area_org GPU_PVC sm k)"
proof -
  have low: "(0xfffffffffff :: u64) = mask 44" by (simp add: mask_eq_exp_minus_1)
  have "unat a mod 2 ^ 44 = unat a - area_org GPU_PVC sm k"
    using assms by (cases k) (auto simp: area_defs intro!: mod_nat_eqI)
  then have lo: "unat (a AND 0xfffffffffff) = unat a - area_org GPU_PVC sm k"
    unfolding low unat_and_mask .
  have "unat a div 2 ^ 47 = (if k = Area2 then 0x1ff else 0)"
    using assms by (cases k) (auto simp: area_defs intro!: div_nat_eqI)
  then have "bit a 47 \<longleftrightarrow> k = Area2"
    unfolding bit_word_iff_odd_unat by simp
  then have hi: "drop_bit 3 (a AND 0x800000000000) = (if k = Area2 then 0x100000000000 else 0)"
    using and_exp_bit [of a 47] by simp
  show ?thesis
    unfolding hi using lo assms by (subst unat_add_u64) (auto simp: area_defs split: area.splits)
qed

lemma pvc_host_or_device:
  assumes "in_area GPU_PVC sm k a"
  shows "IsDeviceUSM_PVC a \<longleftrightarrow> k = Area3"
  using assms unfolding device_usm_iff by (cases k) (auto simp: area_defs)

lemma unat_minus_u64: "unat (b :: u64) \<le> unat a \<Longrightarrow> unat (a - b) = unat a - unat b"
  by (simp add: unat_sub_u64)

lemma pvc_shadow:
  assumes "in_area GPU_PVC sm k a"
  shows "unat (MsanMemToShadow_PVC (ShadowBegin sm) a) = area_shadow GPU_PVC sm k + (unat a - area_org GPU_PVC sm k)"
proof (cases "k = Area3")
  case True
  then have "unat a - 0x500000000000 = area_shadow GPU_PVC sm k + (unat a - area_org GPU_PVC sm k)"
    and "0x500000000000 \<le> unat a"
    using assms by (auto simp: area_defs)
  with True pvc_host_or_device [OF assms] show ?thesis by (simp add: MsanMemToShadow_PVC_def unat_minus_u64)
next
  case False
  have "(if k = Area2 then 0x100000000000 else 0) + (unat a - area_org GPU_PVC sm k) + unat (ShadowBegin sm) < 2 ^ 64"
    using assms False by (cases k) (auto simp: area_defs)
  with False pvc_host_or_device [OF assms] host_displacement [OF assms False] show ?thesis
    by (cases k) (simp_all add: MsanMemToShadow_PVC_def unat_add_u64 area_shadow_def)
qed

lemma pvc_origin:
  assumes "in_area GPU_PVC sm k a"
  shows "unat (MsanMemToOrigin_PVC (ShadowBegin sm) a) =
           area_origin GPU_PVC sm k + (4 * (unat a div 4) - area_org GPU_PVC sm k)"
proof -
  let ?b = "RoundDownTo a MSAN_ORIGIN_GRANULARITY"
  have b: "in_area GPU_PVC sm k ?b" using in_area_aligned [OF assms] by simp
  show ?thesis
  proof (cases "k = Area3")
    case True
    then have "unat ?b - 0xA00000000000 = area_origin GPU_PVC sm k + (unat ?b - area_org GPU_PVC sm k)"
      and "0xA00000000000 \<le> unat ?b"
      using b by (auto simp: area_defs)
    with True pvc_host_or_device [OF b] show ?thesis
      unfolding RoundDown4 by (simp add: MsanMemToOrigin_PVC_def unat_minus_u64 RoundDown4 Let_def)
  next
    case False
    have "unat (MsanMemToShadow_PVC (ShadowBegin sm) ?b) + 0x200000000000 < 2 ^ 64"
      using pvc_shadow [OF b] b False by (cases k) (auto simp: area_defs)
    moreover have "MsanMemToOrigin_PVC (ShadowBegin sm) a = MsanMemToShadow_PVC (ShadowBegin sm) ?b + 0x200000000000"
      using False pvc_host_or_device [OF b] by (simp add: MsanMemToOrigin_PVC_def MsanMemToShadow_PVC_def Let_def)
    ultimately show ?thesis
      using pvc_shadow [OF b] False RoundDown4 [of a]
      by (cases k) (simp_all add: unat_add_u64 area_origin_def area_shadow_def)
  qed
qed

subsection \<open>DG2\<close>

lemma dg2_shadow:
  assumes "in_area GPU_DG2 sm k a"
  shows "unat (MsanMemToShadow_DG2 (ShadowBegin sm) (ShadowEnd sm) a) =
           area_shadow GPU_DG2 sm k + (unat a - area_org GPU_DG2 sm k)"
proof (cases k)
  case Area1
  have "unat (ShadowBegin sm - 0xffff800000000000) = unat (ShadowBegin sm) - 0xffff800000000000"
    using assms by (subst unat_minus_u64) (auto simp: area_defs)
  moreover have "unat a + (unat (ShadowBegin sm) - 0xffff800000000000) < 2 ^ 64"
    using assms Area1 unat_u64_less [of "ShadowEnd sm"] by (auto simp: area_defs)
  ultimately show ?thesis
    using assms Area1 by (auto simp: MsanMemToShadow_DG2_def area_defs word_less_nat_alt unat_add_u64)
next
  case Area2
  have "unat ((0xffffffffffffffff :: u64) - ShadowEnd sm + 1) = 2 ^ 64 - unat (ShadowEnd sm)"
    using assms unat_u64_less [of "ShadowEnd sm"] by (subst unat_add_u64) (auto simp: unat_minus_u64 area_defs)
  moreover have "\<not> a < ShadowBegin sm" "2 ^ 64 - unat (ShadowEnd sm) \<le> unat a"
    using assms Area2 unat_u64_less [of "ShadowEnd sm"] by (auto simp: area_defs word_less_nat_alt)
  ultimately show ?thesis
    using assms Area2 by (simp add: MsanMemToShadow_DG2_def unat_minus_u64) (auto simp: area_defs)
next
  case Area3
  then show ?thesis using assms by (simp add: area_defs)
qed

text \<open>Every kind of device has a proper shadow; CPU and PVC have proper origins too.\<close>

lemma area_shadow_at:
  "in_area kind sm k a \<Longrightarrow> unat (MsanMemToShadow kind sm a) = area_shadow kind sm k + (unat a - area_org kind sm k)"
  by (cases kind) (simp_all add: MsanMemToShadow_def cpu_shadow pvc_shadow dg2_shadow)

interpretation shadow: msan_shadow_map "MsanMemToShadow kind sm" "in_area kind sm"
    "area_org kind sm" "area_shadow kind sm" "area_size kind sm" for kind sm
proof
  fix k a assume a: "in_area kind sm k a"
  show "area_shadow kind sm k + area_size kind sm k < 2 ^ 64"
    using a unat_u64_less [of "ShadowEnd sm"] by (cases kind; cases k) (auto simp: area_defs)
  fix l b assume "in_area kind sm l b" "k \<noteq> l"
  with a show "area_shadow kind sm k + area_size kind sm k \<le> area_shadow kind sm l \<or>
      area_shadow kind sm l + area_size kind sm l \<le> area_shadow kind sm k"
    by (cases kind; cases k; cases l) (auto simp: area_defs)
qed (auto simp: area_shadow_at in_area_def)

definition has_origins :: "device_kind \<Rightarrow> msan_shadow \<Rightarrow> area \<Rightarrow> u64 \<Rightarrow> bool" where
  "has_origins kind sm k a \<longleftrightarrow> kind \<noteq> GPU_DG2 \<and> in_area kind sm k a"

interpretation layout: msan_mapping "MsanMemToShadow kind sm" "has_origins kind sm"
    "area_org kind sm" "area_shadow kind sm" "area_size kind sm" "MsanMemToOrigin kind sm" "area_origin kind sm"
  for kind sm
proof
  fix k a assume a: "has_origins kind sm k a"
  then show "unat (MsanMemToOrigin kind sm a) = area_origin kind sm k + (4 * (unat a div 4) - area_org kind sm k)"
    by (cases kind) (auto simp: MsanMemToOrigin_def has_origins_def cpu_origin pvc_origin)
  show "area_org kind sm k mod 4 = 0 \<and> area_size kind sm k mod 4 = 0"
    using a mod_add_eq [of "unat (ShadowBegin sm)" 4 "0xf00000000000"]
    by (cases kind; cases k) (auto simp: has_origins_def area_defs)
  show "area_origin kind sm k + area_size kind sm k < 2 ^ 64"
    using a unat_u64_less [of "ShadowEnd sm"] by (cases kind; cases k) (auto simp: has_origins_def area_defs)
  fix l b assume b: "has_origins kind sm l b"
  with a show "area_shadow kind sm k + area_size kind sm k \<le> area_origin kind sm l \<or>
      area_origin kind sm l + area_size kind sm l \<le> area_shadow kind sm k"
    by (cases kind; cases k; cases l) (auto simp: has_origins_def area_defs)
  assume ne: "k \<noteq> l"
  with a b show "area_origin kind sm k + area_size kind sm k \<le> area_origin kind sm l \<or>
      area_origin kind sm l + area_size kind sm l \<le> area_origin kind sm k"
    by (cases kind; cases k; cases l) (auto simp: has_origins_def area_defs)
  from a b ne show "area_shadow kind sm k + area_size kind sm k \<le> area_shadow kind sm l \<or>
      area_shadow kind sm l + area_size kind sm l \<le> area_shadow kind sm k"
    unfolding has_origins_def using shadow.shadows_apart by blast
next
  fix k a and c :: u64 assume a: "has_origins kind sm k a"
  then have i: "in_area kind sm k a" by (simp add: has_origins_def)
  show "unat (MsanMemToShadow kind sm a) = area_shadow kind sm k + (unat a - area_org kind sm k)"
    by (rule shadow.shadow_at [OF i])
  show "area_org kind sm k \<le> unat a \<and> unat a < area_org kind sm k + area_size kind sm k" by (rule shadow.area [OF i])
  show "area_shadow kind sm k + area_size kind sm k < 2 ^ 64" by (rule shadow.shadows_fit [OF i])
  assume "area_org kind sm k \<le> unat c" "unat c < area_org kind sm k + area_size kind sm k"
  with a shadow.area_full [OF i] show "has_origins kind sm k c" by (simp add: has_origins_def)
qed

section \<open>Pages\<close>

definition recorded :: "msan_shadow \<Rightarrow> u64 set" where
  "recorded sm = fst ` set (VirtualMemMaps sm)"

text \<open>Every page the object has recorded is mapped by the driver.\<close>

definition pages_ok :: "msan_shadow \<Rightarrow> bool" where
  "pages_ok sm \<longleftrightarrow> recorded sm \<subseteq> set (vm_mapped sm)"

definition only_maps :: "msan_shadow \<Rightarrow> msan_shadow \<Rightarrow> bool" where
  "only_maps sm sm' \<longleftrightarrow> mem sm' = mem sm \<and> ShadowBegin sm' = ShadowBegin sm \<and> ShadowEnd sm' = ShadowEnd sm \<and>
     recorded sm \<subseteq> recorded sm' \<and> (pages_ok sm \<longrightarrow> pages_ok sm')"

lemma only_maps_refl: "only_maps sm sm"
  by (simp add: only_maps_def)

lemma only_maps_trans: "only_maps s1 s2 \<Longrightarrow> only_maps s2 s3 \<Longrightarrow> only_maps s1 s3"
  unfolding only_maps_def by auto

lemma only_maps_page:
  "only_maps sm (sm\<lparr>VirtualMemMaps := (p, []) # VirtualMemMaps sm, vm_mapped := p # vm_mapped sm\<rparr>)"
  by (auto simp: only_maps_def pages_ok_def recorded_def)

definition msan_services_ok :: "msan_api \<Rightarrow> bool" where
  "msan_services_ok api \<longleftrightarrow>
     pfnPhysicalMemCreate api = (\<lambda>_. UR_RESULT_SUCCESS) \<and> pfnVirtualMemMap api = (\<lambda>_. UR_RESULT_SUCCESS) \<and>
     pfnUSMFill api = (\<lambda>_ _ _. UR_RESULT_SUCCESS) \<and> pfnEventsWait api = (\<lambda>_. UR_RESULT_SUCCESS)"

definition pages_between :: "nat \<Rightarrow> u64 \<Rightarrow> u64 \<Rightarrow> u64 set" where
  "pages_between k p e = {q. unat q mod 2 ^ k = 0 \<and> unat p \<le> unat q \<and> unat q \<le> unat e}"

lemma vmem_map_returns:
  assumes "GetVirtualMemGranularity api = 2 ^ k" and "k < 64"
    and "unat p mod 2 ^ k = 0" and "unat e + 2 ^ k < 2 ^ 64"
  shows "\<exists>r Ev sm'. vmem_map api p e OutEvent Events sm = Some (r, Ev, sm') \<and> only_maps sm sm' \<and>
           (msan_services_ok api \<longrightarrow> r = UR_RESULT_SUCCESS) \<and>
           (r = UR_RESULT_SUCCESS \<longrightarrow> pages_between k p e \<subseteq> recorded sm')"
  using assms(3)
proof (induction "unat e + 1 - unat p" arbitrary: p Events sm rule: less_induct)
  case less
  note step = vmem_map.simps [of api p e OutEvent Events sm, unfolded assms(1) Let_def]
  show ?case
  proof (cases "p \<le> e")
    case False
    then show ?thesis by (auto simp: step only_maps_refl word_le_nat_alt pages_between_def)
  next
    case True
    then have le: "unat p \<le> unat e" by (simp add: word_le_nat_alt)
    have next_p: "unat (p + 2 ^ k) = unat p + 2 ^ k"
      using le assms(4) by (subst unat_add_u64) (simp_all add: unat_pow2 [OF assms(2)])
    have pages: "pages_between k p e \<subseteq> insert p (pages_between k (p + 2 ^ k) e)"
    proof
      fix q assume "q \<in> pages_between k p e"
      with next_multiple [OF less.prems, of "unat q"] show "q \<in> insert p (pages_between k (p + 2 ^ k) e)"
        by (auto simp: pages_between_def next_p word_unat_eq_iff)
    qed
    have advance: ?thesis
      if "vmem_map api p e OutEvent Events sm = vmem_map api (p + 2 ^ k) e OutEvent Ev' sm'" "only_maps sm sm'"
        "p \<in> recorded sm'" for Ev' sm'
    proof -
      have "\<exists>r Ev sm''. vmem_map api (p + 2 ^ k) e OutEvent Ev' sm' = Some (r, Ev, sm'') \<and> only_maps sm' sm'' \<and>
          (msan_services_ok api \<longrightarrow> r = UR_RESULT_SUCCESS) \<and>
          (r = UR_RESULT_SUCCESS \<longrightarrow> pages_between k (p + 2 ^ k) e \<subseteq> recorded sm'')"
        using le less.prems by (intro less.hyps) (simp_all add: next_p diff_less_mono2)
      then obtain r Ev sm'' where r: "vmem_map api (p + 2 ^ k) e OutEvent Ev' sm' = Some (r, Ev, sm'')" "only_maps sm' sm''"
          "msan_services_ok api \<longrightarrow> r = UR_RESULT_SUCCESS" "r = UR_RESULT_SUCCESS \<longrightarrow> pages_between k (p + 2 ^ k) e \<subseteq> recorded sm''"
        by blast
      moreover have "p \<in> recorded sm''" using r(2) that(3) by (auto simp: only_maps_def)
      ultimately show ?thesis
        using pages only_maps_trans [OF that(2) r(2)] that(1) by (intro exI [of _ r] exI [of _ Ev] exI [of _ sm'']) auto
    qed
    show ?thesis
    proof (cases "p \<in> recorded sm")
      case True
      then show ?thesis using \<open>p \<le> e\<close> by (intro advance [of Events sm]) (simp_all add: step only_maps_refl recorded_def)
    next
      case False
      show ?thesis
      proof (cases "pfnPhysicalMemCreate api p = UR_RESULT_SUCCESS \<and> pfnVirtualMemMap api p = UR_RESULT_SUCCESS")
        case True
        with False \<open>p \<le> e\<close> show ?thesis
          by (intro advance [OF _ only_maps_page]) (simp_all add: step recorded_def)
      next
        case failed: False
        with False \<open>p \<le> e\<close> show ?thesis
          by (auto simp: step only_maps_refl msan_services_ok_def recorded_def)
      qed
    qed
  qed
qed

section \<open>Poisoning sets exactly the shadow and the origins of a range\<close>

text \<open>The view of the runtime on the device: the shadow byte and the bytes of the origin of an address.\<close>

definition shadow_of :: "device_kind \<Rightarrow> msan_shadow \<Rightarrow> u64 \<Rightarrow> u8" where
  "shadow_of kind sm a = mem sm (MsanMemToShadow kind sm a)"

definition origin_of :: "device_kind \<Rightarrow> msan_shadow \<Rightarrow> u64 \<Rightarrow> u8 list" where
  "origin_of kind sm a = map (\<lambda>i. mem sm (MsanMemToOrigin kind sm a + of_nat i)) [0..<4]"

definition writes_origin :: "u32 option \<Rightarrow> u64 \<Rightarrow> u64 \<Rightarrow> u64 \<Rightarrow> bool" where
  "writes_origin Origin p q a \<longleftrightarrow>
     (case Origin of None \<Rightarrow> False | Some v \<Rightarrow> v \<noteq> 0 \<and> unat p div 4 \<le> unat a div 4 \<and> unat a div 4 \<le> unat q div 4)"

definition poisoned_range :: "device_kind \<Rightarrow> u64 \<Rightarrow> u64 \<Rightarrow> u8 \<Rightarrow> u32 option \<Rightarrow> msan_shadow \<Rightarrow> msan_shadow \<Rightarrow> bool" where
  "poisoned_range kind p q Value Origin sm sm' \<longleftrightarrow>
     ShadowBegin sm' = ShadowBegin sm \<and> ShadowEnd sm' = ShadowEnd sm \<and>
     (\<forall>k a. has_origins kind sm k a \<longrightarrow>
        shadow_of kind sm' a = (if unat p \<le> unat a \<and> unat a \<le> unat q then Value else shadow_of kind sm a) \<and>
        origin_of kind sm' a = (if writes_origin Origin p q a then origin_bytes (the Origin) else origin_of kind sm a))"

text \<open>The pages of all shadow bytes and origins of a range are mapped.\<close>

definition range_backed :: "device_kind \<Rightarrow> nat \<Rightarrow> u64 \<Rightarrow> u64 \<Rightarrow> msan_shadow \<Rightarrow> bool" where
  "range_backed kind n p q sm \<longleftrightarrow> kind = CPU \<or>
     (\<forall>a i. unat p \<le> unat a \<and> unat a \<le> unat q \<and> i < 4 \<longrightarrow>
        RoundDownTo (MsanMemToShadow kind sm a) (2 ^ n) \<in> recorded sm \<and>
        RoundDownTo (MsanMemToOrigin kind sm a + of_nat i) (2 ^ n) \<in> recorded sm)"

text \<open>The memory after both fills, as CPU and GPU compute it.\<close>

definition both_fills :: "device_kind \<Rightarrow> msan_shadow \<Rightarrow> u64 \<Rightarrow> u64 \<Rightarrow> u8 \<Rightarrow> u32 option \<Rightarrow> u64 \<Rightarrow> u8" where
  "both_fills kind sm p q Value Origin =
     (let M = MsanMemToShadow kind sm; OM = MsanMemToOrigin kind sm;
          m1 = pattern_fill (M p) (unat (M q - M p + 1)) [Value] (mem sm)
      in case Origin of
           None \<Rightarrow> m1
         | Some v \<Rightarrow> if v = 0 then m1
                    else pattern_fill (OM p) (unat (OM q) + 4 - unat (OM p)) (origin_bytes v) m1)"

lemma mappings_only_bounds:
  "ShadowBegin sm' = ShadowBegin sm \<Longrightarrow> ShadowEnd sm' = ShadowEnd sm \<Longrightarrow>
     MsanMemToShadow kind sm' = MsanMemToShadow kind sm \<and> MsanMemToOrigin kind sm' = MsanMemToOrigin kind sm"
  by (cases kind) (simp_all add: fun_eq_iff MsanMemToShadow_def MsanMemToOrigin_def)

lemma both_fills_poison:
  assumes "has_origins kind sm k p" "has_origins kind sm k q" "unat p \<le> unat q"
    and "mem sm' = both_fills kind sm p q Value Origin"
    and "ShadowBegin sm' = ShadowBegin sm" "ShadowEnd sm' = ShadowEnd sm"
  shows "poisoned_range kind p q Value Origin sm sm'"
proof -
  note same = mappings_only_bounds [OF assms(5,6), of kind]
  note range = assms(1-3)
  have len: "length (origin_bytes v) = 4" for v by (simp add: origin_bytes_def)
  have bytes: "map ((!) (origin_bytes v)) [0..<4] = origin_bytes v" for v
    using map_nth [of "origin_bytes v"] by (simp add: len)
  show ?thesis
    unfolding poisoned_range_def shadow_of_def origin_of_def same [THEN conjunct1] same [THEN conjunct2] assms(4)
  proof (intro allI impI conjI assms(5,6))
    fix l a assume a: "has_origins kind sm l a"
    show "both_fills kind sm p q Value Origin (MsanMemToShadow kind sm a) =
        (if unat p \<le> unat a \<and> unat a \<le> unat q then Value else mem sm (MsanMemToShadow kind sm a))"
      using layout.fill_shadow [OF range a] layout.origin_fill_keeps_shadow [OF range a]
      by (simp add: both_fills_def Let_def split: option.split)
    have "both_fills kind sm p q Value Origin (MsanMemToOrigin kind sm a + of_nat i) =
        (if writes_origin Origin p q a then origin_bytes (the Origin) ! i else mem sm (MsanMemToOrigin kind sm a + of_nat i))"
      if "i < 4" for i
      using layout.fill_origin [OF range a that len] layout.shadow_fill_keeps_origin [OF range a that]
      by (simp add: both_fills_def Let_def writes_origin_def split: option.split)
    then have "map (\<lambda>i. both_fills kind sm p q Value Origin (MsanMemToOrigin kind sm a + of_nat i)) [0..<4] =
        map (\<lambda>i. if writes_origin Origin p q a then origin_bytes (the Origin) ! i
                 else mem sm (MsanMemToOrigin kind sm a + of_nat i)) [0..<4]"
      by (intro map_cong) auto
    then show "map (\<lambda>i. both_fills kind sm p q Value Origin (MsanMemToOrigin kind sm a + of_nat i)) [0..<4] =
        (if writes_origin Origin p q a then origin_bytes (the Origin)
         else map (\<lambda>i. mem sm (MsanMemToOrigin kind sm a + of_nat i)) [0..<4])"
      by (cases "writes_origin Origin p q a") (simp_all only: if_True if_False bytes)
  qed
qed

lemma poison_CPU_fills:
  assumes "has_origins CPU sm k Ptr" "has_origins CPU sm k (Ptr + Size - 1)" "unat Ptr \<le> unat (Ptr + Size - 1)"
  shows "mem (poison_CPU Ptr Size Value Origin sm) = both_fills CPU sm Ptr (Ptr + Size - 1) Value Origin"
  using layout.origin_length(1) [OF assms]
  by (simp add: poison_CPU_def both_fills_def Let_def MsanMemToShadow_def MsanMemToOrigin_def
      MSAN_ORIGIN_GRANULARITY_def split: option.split)

text \<open>On the GPU shadows and origins lie inside the reserved range, so the page loops end.\<close>

lemma pvc_inside:
  assumes "has_origins GPU_PVC sm k a"
  shows "unat (MsanMemToShadow GPU_PVC sm a) < unat (ShadowEnd sm)"
    and "unat (MsanMemToOrigin GPU_PVC sm a) + 4 \<le> unat (ShadowEnd sm)"
  using assms layout.shadow_range [OF assms] layout.origin_range [OF assms]
  by (cases k; auto simp: has_origins_def area_defs)+

lemma page_loop:
  assumes "GetVirtualMemGranularity api = 2 ^ n" "n \<le> 55" "unat e < 0xff01000000000000"
  shows "\<exists>r Ev sm'. EnqueueVirtualMemMap api b e OutEvent Events sm = Some (r, Ev, sm') \<and> only_maps sm sm' \<and>
           (msan_services_ok api \<longrightarrow> r = UR_RESULT_SUCCESS) \<and>
           (r = UR_RESULT_SUCCESS \<longrightarrow>
              (\<forall>s. unat b \<le> unat s \<and> unat s \<le> unat e \<longrightarrow> RoundDownTo s (2 ^ n) \<in> recorded sm'))"
proof -
  have "(2 :: nat) ^ n \<le> 2 ^ 55" using assms(2) by (rule power_increasing) simp
  then have "unat e + 2 ^ n < 2 ^ 64" using assms(3) by simp
  then obtain r Ev sm' where r: "EnqueueVirtualMemMap api b e OutEvent Events sm = Some (r, Ev, sm')" "only_maps sm sm'"
      "msan_services_ok api \<longrightarrow> r = UR_RESULT_SUCCESS"
      "r = UR_RESULT_SUCCESS \<longrightarrow> pages_between n (RoundDownTo b (2 ^ n)) e \<subseteq> recorded sm'"
    using vmem_map_returns [OF assms(1) _ RoundDown_range(3) [OF order_refl, of b n], of e OutEvent Events sm] assms(1,2)
    by (auto simp: EnqueueVirtualMemMap_def)
  moreover have "RoundDownTo s (2 ^ n) \<in> pages_between n (RoundDownTo b (2 ^ n)) e"
    if "unat b \<le> unat s" "unat s \<le> unat e" for s
    using RoundDown_range [OF that(1), of n] that(2) by (simp add: pages_between_def)
  ultimately show ?thesis by (intro exI [of _ r] exI [of _ Ev] exI [of _ sm']) auto
qed

lemma USMFill_cases:
  obtains "USMFill api p pat n w out sm = (pfnUSMFill api p pat n, out, sm)" "pfnUSMFill api p pat n \<noteq> UR_RESULT_SUCCESS"
  | out' where "USMFill api p pat n w out sm = (UR_RESULT_SUCCESS, out',
      sm\<lparr>mem := pattern_fill p (unat n) pat (mem sm), fills := fills sm @ [(p, n, w)]\<rparr>)"
  by (cases "pfnUSMFill api p pat n = UR_RESULT_SUCCESS") (auto simp: USMFill_def)

text \<open>After either part the pages of its range are mapped and the memory is \<open>m\<close>.\<close>

definition fills_to :: "(u64 \<Rightarrow> u8) \<Rightarrow> nat \<Rightarrow> u64 \<Rightarrow> u64 \<Rightarrow> msan_shadow \<Rightarrow> msan_shadow \<Rightarrow> bool" where
  "fills_to m n b e sm sm' \<longleftrightarrow> only_maps sm (sm'\<lparr>mem := mem sm\<rparr>) \<and> mem sm' = m \<and>
     (\<forall>s. unat b \<le> unat s \<and> unat s \<le> unat e \<longrightarrow> RoundDownTo s (2 ^ n) \<in> recorded sm')"

lemma only_maps_frame [simp]:
  "only_maps sm (sm'\<lparr>fills := f, mem := m\<rparr>) \<longleftrightarrow> only_maps sm (sm'\<lparr>mem := m\<rparr>)"
  "recorded (sm'\<lparr>mem := m\<rparr>) = recorded sm'" "recorded (sm'\<lparr>mem := m, fills := f\<rparr>) = recorded sm'"
  "pages_ok (sm'\<lparr>mem := m\<rparr>) = pages_ok sm'" "pages_ok (sm'\<lparr>mem := m, fills := f\<rparr>) = pages_ok sm'"
  by (simp_all add: only_maps_def recorded_def pages_ok_def)

lemma only_maps_mem: "only_maps sm sm1 \<Longrightarrow> only_maps sm (sm1\<lparr>mem := mem sm\<rparr>) \<and> mem sm1 = mem sm"
  by (simp add: only_maps_def)

lemma shadow_part_effect:
  assumes api: "GetVirtualMemGranularity api = 2 ^ n" "n \<le> 55"
    and "has_origins GPU_PVC sm k (Ptr + Size - 1)"
  defines "b \<equiv> MsanMemToShadow GPU_PVC sm Ptr" and "e \<equiv> MsanMemToShadow GPU_PVC sm (Ptr + Size - 1)"
  shows "\<exists>r Ev Out sm'. poison_shadow_part api GPU_PVC Ptr Size Value Events OutEvent sm = Some (r, Ev, Out, sm') \<and>
     (msan_services_ok api \<longrightarrow> r = UR_RESULT_SUCCESS) \<and>
     (r = UR_RESULT_SUCCESS \<longrightarrow> fills_to (pattern_fill b (unat (e - b + 1)) [Value] (mem sm)) n b e sm sm')"
proof -
  have "unat e < 0xff01000000000000"
    using pvc_inside(1) [OF assms(3)] assms(3) by (auto simp: e_def has_origins_def in_area_def layout_ok_def)
  then obtain r Ev sm1 where 1: "EnqueueVirtualMemMap api b e OutEvent Events sm = Some (r, Ev, sm1)" "only_maps sm sm1"
      "msan_services_ok api \<longrightarrow> r = UR_RESULT_SUCCESS"
      "r = UR_RESULT_SUCCESS \<longrightarrow>
         (\<forall>s. unat b \<le> unat s \<and> unat s \<le> unat e \<longrightarrow> RoundDownTo s (2 ^ n) \<in> recorded sm1)"
    using page_loop [OF api] by metis
  show ?thesis
  proof (cases "r = UR_RESULT_SUCCESS")
    case False
    with 1 show ?thesis by (auto simp: poison_shadow_part_def b_def e_def)
  next
    case True
    show ?thesis
      by (rule USMFill_cases [of api b "[Value]" "e - b + 1" Ev OutEvent sm1])
        (use 1 True only_maps_mem [OF 1(2)] in \<open>simp_all add: poison_shadow_part_def msan_services_ok_def fills_to_def
           b_def [symmetric] e_def [symmetric]\<close>)
  qed
qed

lemma origin_part_effect:
  assumes api: "GetVirtualMemGranularity api = 2 ^ n" "n \<le> 55"
    and "has_origins GPU_PVC sm k (Ptr + Size - 1)"
  defines "b \<equiv> MsanMemToOrigin GPU_PVC sm Ptr" and "e \<equiv> MsanMemToOrigin GPU_PVC sm (Ptr + Size - 1) + 4 - 1"
  shows "\<exists>r Out sm'. poison_origin_part api GPU_PVC Ptr Size Origin EventWaitList Events OutEvent sm = Some (r, Out, sm') \<and>
     (msan_services_ok api \<longrightarrow> r = UR_RESULT_SUCCESS) \<and>
     (r = UR_RESULT_SUCCESS \<longrightarrow>
        fills_to (case Origin of None \<Rightarrow> mem sm
                  | Some v \<Rightarrow> if v = 0 then mem sm else pattern_fill b (unat (e - b + 1)) (origin_bytes v) (mem sm)) n b e sm sm')"
proof -
  have "unat (3 + MsanMemToOrigin GPU_PVC sm (Ptr + Size - 1)) = unat (MsanMemToOrigin GPU_PVC sm (Ptr + Size - 1)) + 3"
    using pvc_inside(2) [OF assms(3)] unat_u64_less [of "ShadowEnd sm"] by (subst unat_add_u64) auto
  then have "unat e < 0xff01000000000000"
    using pvc_inside(2) [OF assms(3)] assms(3) by (auto simp: e_def has_origins_def in_area_def layout_ok_def)
  then obtain r Ev sm1 where 1: "EnqueueVirtualMemMap api b e OutEvent Events sm = Some (r, Ev, sm1)" "only_maps sm sm1"
      "msan_services_ok api \<longrightarrow> r = UR_RESULT_SUCCESS"
      "r = UR_RESULT_SUCCESS \<longrightarrow>
         (\<forall>s. unat b \<le> unat s \<and> unat s \<le> unat e \<longrightarrow> RoundDownTo s (2 ^ n) \<in> recorded sm1)"
    using page_loop [OF api] by metis
  show ?thesis
  proof (cases "r = UR_RESULT_SUCCESS \<and> Origin \<noteq> None \<and> Origin \<noteq> Some 0")
    case False
    then show ?thesis
      using 1 only_maps_mem [OF 1(2)]
      by (cases Origin) (auto simp: poison_origin_part_def b_def [symmetric] e_def [symmetric] fills_to_def)
  next
    case True
    then obtain v where v: "Origin = Some v" "v \<noteq> 0" by auto
    show ?thesis
      by (rule USMFill_cases [of api b "origin_bytes v" "e - b + 1" EventWaitList OutEvent sm1])
        (use 1 True v only_maps_mem [OF 1(2)] in \<open>simp_all add: poison_origin_part_def msan_services_ok_def fills_to_def
           b_def [symmetric] e_def [symmetric]\<close>)
  qed
qed

lemma fills_to_mappings:
  assumes "fills_to m n b e sm sm'"
  shows "MsanMemToShadow kind sm' = MsanMemToShadow kind sm" "MsanMemToOrigin kind sm' = MsanMemToOrigin kind sm"
    "has_origins kind sm' k a = has_origins kind sm k a"
  using assms mappings_only_bounds [of sm' sm kind]
  by (auto simp: fills_to_def only_maps_def has_origins_def in_area_def layout_ok_def area_org_def area_size_def
      split: device_kind.splits area.splits)

lemma fills_to_trans:
  assumes "fills_to m1 n b1 e1 sm sm1" "fills_to m2 n b2 e2 sm1 sm2"
  shows "fills_to m2 n b1 e1 sm sm2"
  using assms unfolding fills_to_def only_maps_def by auto

lemma range_addresses:
  assumes "has_origins GPU_PVC sm k p" "has_origins GPU_PVC sm k q" "unat p \<le> unat a" "unat a \<le> unat q" "i < 4"
  defines "M \<equiv> MsanMemToShadow GPU_PVC sm" and "OM \<equiv> MsanMemToOrigin GPU_PVC sm"
  shows "unat (M p) \<le> unat (M a) \<and> unat (M a) \<le> unat (M q)"
    and "unat (OM p) \<le> unat (OM a + of_nat i) \<and> unat (OM a + of_nat i) \<le> unat (OM q + 4 - 1)"
proof -
  have a: "has_origins GPU_PVC sm k a" using layout.area_between [OF assms(1-4)] .
  show "unat (M p) \<le> unat (M a) \<and> unat (M a) \<le> unat (M q)"
    using layout.shadow_order [OF assms(1) a] layout.shadow_order [OF a assms(2)] assms(3,4) by (simp add: M_def)
  have "unat (3 + OM q) = unat (OM q) + 3"
    using pvc_inside(2) [OF assms(2)] unat_u64_less [of "ShadowEnd sm"] by (subst unat_add_u64) (auto simp: OM_def)
  moreover have "OM q + 4 - 1 = 3 + OM q" by simp
  ultimately show "unat (OM p) \<le> unat (OM a + of_nat i) \<and> unat (OM a + of_nat i) \<le> unat (OM q + 4 - 1)"
    using layout.origin_byte [OF a assms(5)] layout.origin_le_iff [OF assms(1) a] layout.origin_le_iff [OF a assms(2)]
      assms(3-5) by (simp add: OM_def div_le_mono)
qed

lemma MsanPoison_PVC_effect:
  assumes api: "GetVirtualMemGranularity api = 2 ^ n" "n \<le> 55" and "Size \<noteq> 0"
    and range: "has_origins GPU_PVC sm k Ptr" "has_origins GPU_PVC sm k (Ptr + Size - 1)" "unat Ptr \<le> unat (Ptr + Size - 1)"
  defines "Last \<equiv> Ptr + Size - 1"
  shows "\<exists>r Out sm'. MsanPoison_GPU api GPU_PVC Ptr Size Value Origin Events OutEvent sm = Some (r, Out, sm') \<and>
     (msan_services_ok api \<longrightarrow> r = UR_RESULT_SUCCESS) \<and>
     (r = UR_RESULT_SUCCESS \<longrightarrow>
        poisoned_range GPU_PVC Ptr Last Value Origin sm sm' \<and> range_backed GPU_PVC n Ptr Last sm' \<and>
        (pages_ok sm \<longrightarrow> pages_ok sm'))"
proof -
  let ?M = "MsanMemToShadow GPU_PVC sm" and ?O = "MsanMemToOrigin GPU_PVC sm"
  let ?m1 = "pattern_fill (?M Ptr) (unat (?M Last - ?M Ptr + 1)) [Value] (mem sm)"
  obtain r1 Ev1 Out1 sm1 where 1: "poison_shadow_part api GPU_PVC Ptr Size Value Events OutEvent sm = Some (r1, Ev1, Out1, sm1)"
      "msan_services_ok api \<longrightarrow> r1 = UR_RESULT_SUCCESS"
      "r1 = UR_RESULT_SUCCESS \<longrightarrow> fills_to ?m1 n (?M Ptr) (?M Last) sm sm1"
    using shadow_part_effect [OF api range(2)] unfolding Last_def by blast
  show ?thesis
  proof (cases "r1 = UR_RESULT_SUCCESS")
    case False
    with 1 assms(3) show ?thesis by (auto simp: MsanPoison_GPU_def)
  next
    case True
    then have f1: "fills_to ?m1 n (?M Ptr) (?M Last) sm sm1" using 1(3) by simp
    note same = fills_to_mappings [OF f1]
    have m1: "mem sm1 = ?m1" using f1 by (simp add: fills_to_def)
    have last: "has_origins GPU_PVC sm1 k (Ptr + Size - 1)" using range(2) by (simp only: same(3))
    obtain r Out sm' where 2: "poison_origin_part api GPU_PVC Ptr Size Origin Events Ev1 Out1 sm1 = Some (r, Out, sm')"
        "msan_services_ok api \<longrightarrow> r = UR_RESULT_SUCCESS"
        "r = UR_RESULT_SUCCESS \<longrightarrow>
          fills_to (case Origin of None \<Rightarrow> ?m1 | Some v \<Rightarrow> if v = 0 then ?m1
              else pattern_fill (?O Ptr) (unat (?O Last + 4 - 1 - ?O Ptr + 1)) (origin_bytes v) ?m1)
            n (?O Ptr) (?O Last + 4 - 1) sm1 sm'"
      using origin_part_effect [OF api last, of Origin Events Ev1 Out1] unfolding same m1 Last_def by blast
    have "poisoned_range GPU_PVC Ptr Last Value Origin sm sm' \<and> range_backed GPU_PVC n Ptr Last sm' \<and>
        (pages_ok sm \<longrightarrow> pages_ok sm')" if "r = UR_RESULT_SUCCESS"
    proof (intro conjI)
      note f2 = 2(3) [rule_format, OF that]
      have len: "unat (?O Last + 4 - 1 - ?O Ptr + 1) = unat (?O Last) + 4 - unat (?O Ptr)"
        using layout.origin_length(2) [OF range] by (simp only: Last_def)
      have "mem sm' = both_fills GPU_PVC sm Ptr Last Value Origin"
        using f2 unfolding fills_to_def both_fills_def Let_def len by (simp split: option.split)
      moreover have "ShadowBegin sm' = ShadowBegin sm \<and> ShadowEnd sm' = ShadowEnd sm"
        using f1 f2 by (simp add: fills_to_def only_maps_def)
      ultimately show "poisoned_range GPU_PVC Ptr Last Value Origin sm sm'"
        using both_fills_poison range unfolding Last_def by blast
      show "pages_ok sm \<longrightarrow> pages_ok sm'" using f1 f2 by (simp add: fills_to_def only_maps_def)
      show "range_backed GPU_PVC n Ptr Last sm'"
        unfolding range_backed_def fills_to_mappings [OF f2] same
        using range_addresses [OF range(1,2), folded Last_def] f2 fills_to_trans [OF f1 f2]
        unfolding fills_to_def by blast
    qed
    with 1 2 True assms(3) show ?thesis by (auto simp: MsanPoison_GPU_def)
  qed
qed

lemma poison_effect:
  assumes "GetVirtualMemGranularity api = 2 ^ n" "n \<le> 55" "Size \<noteq> 0" "unat Ptr + unat Size \<le> 2 ^ 64"
    and "has_origins kind sm k Ptr" "has_origins kind sm k (Ptr + Size - 1)" "pages_ok sm"
  shows "\<exists>r Out sm'. EnqueuePoisonShadowWithOrigin api kind Ptr Size Value Origin Events OutEvent sm = Some (r, Out, sm') \<and>
     (msan_services_ok api \<longrightarrow> r = UR_RESULT_SUCCESS) \<and>
     (r = UR_RESULT_SUCCESS \<longrightarrow>
        poisoned_range kind Ptr (Ptr + Size - 1) Value Origin sm sm' \<and>
        range_backed kind n Ptr (Ptr + Size - 1) sm' \<and> pages_ok sm')"
proof -
  have le: "unat Ptr \<le> unat (Ptr + Size - 1)"
    using unat_last_byte [OF assms(3,4)] unat_gt_0 [of Size] assms(3) by linarith
  consider "kind = CPU" | "kind = GPU_PVC"
    using assms(5) by (cases kind) (auto simp: has_origins_def)
  then show ?thesis
  proof cases
    case 1
    define sm1 where "sm1 = poison_CPU Ptr Size Value Origin sm"
    have "poisoned_range CPU Ptr (Ptr + Size - 1) Value Origin sm sm1"
      using both_fills_poison [OF assms(5,6) le] poison_CPU_fills [OF assms(5,6) [unfolded 1] le] 1
      by (simp add: sm1_def poison_CPU_def Let_def)
    moreover have "pages_ok sm1" using assms(7) by (simp add: sm1_def poison_CPU_def Let_def pages_ok_def recorded_def)
    ultimately show ?thesis
      using 1 assms(3) by (auto simp: EnqueuePoisonShadowWithOrigin_def MsanPoison_CPU_def events_wait_def
          range_backed_def sm1_def [symmetric] msan_services_ok_def)
  next
    case 2
    then show ?thesis
      using MsanPoison_PVC_effect [OF assms(1-3) assms(5,6) [unfolded 2] le] assms(7)
      by (fastforce simp: EnqueuePoisonShadowWithOrigin_def)
  qed
qed

text \<open>
  C17: On a CPU or a PVC device, which have a shadow of origins of their own (a DG2 device has not, see
  \<open>dg2_origin_overwrites_shadow\<close>), with mapping granularity a power of two:
  poisoning a range that is not empty and lies in one area of the application with a value and an origin ends and, if the driver does not fail,
  succeeds. On success the shadow bytes of exactly the addresses of the range have the value and the
  origins of exactly the groups of four bytes the range touches are replaced, if an origin is
  given; the shadows and origins of all other addresses of the application, in any area, are as
  before, and all pages involved are mapped.
\<close>

theorem msan_poison_exact:
  assumes "GetVirtualMemGranularity api = 2 ^ n" "n \<le> 55" "Size \<noteq> 0" "unat Ptr + unat Size \<le> 2 ^ 64"
    and "has_origins kind sm k Ptr" "has_origins kind sm k (Ptr + Size - 1)" "pages_ok sm"
  shows "\<exists>r Out sm'. EnqueuePoisonShadowWithOrigin api kind Ptr Size Value Origin Events OutEvent sm = Some (r, Out, sm') \<and>
     (msan_services_ok api \<longrightarrow> r = UR_RESULT_SUCCESS) \<and>
     (r = UR_RESULT_SUCCESS \<longrightarrow>
        poisoned_range kind Ptr (Ptr + Size - 1) Value Origin sm sm' \<and>
        range_backed kind n Ptr (Ptr + Size - 1) sm' \<and> pages_ok sm')"
  using assms by (rule poison_effect)

definition pvc_example :: msan_shadow where
  "pvc_example = new_msan_shadow\<lparr>ShadowBegin := 0xff00000000000000, ShadowEnd := 0xff00f00000000000\<rparr>"

definition msan_api_example :: msan_api where
  "msan_api_example = \<lparr>pfnDeviceAlloc = (\<lambda>_. Inr 0xff00f00000000000), pfnHostAlloc = (\<lambda>_. Inr 0xfff00000000000),
     pfnSharedAlloc = (\<lambda>_. Inr 0x700000000000), pfnUSMFree = (\<lambda>_. UR_RESULT_SUCCESS),
     MmapFixedNoReserve = (\<lambda>_ _. True), ProtectMemoryRange = (\<lambda>_ _. True), Munmap = (\<lambda>_ _. True),
     pfnReserve = (\<lambda>_ _. Inr 0xff00000000000000), GetVirtualMemGranularity = 2 ^ 21,
     pfnPhysicalMemCreate = (\<lambda>_. UR_RESULT_SUCCESS), pfnVirtualMemMap = (\<lambda>_. UR_RESULT_SUCCESS),
     pfnVirtualMemUnmap = (\<lambda>_. UR_RESULT_SUCCESS), pfnPhysicalMemRelease = (\<lambda>_. UR_RESULT_SUCCESS),
     pfnVirtualMemFree = (\<lambda>_. UR_RESULT_SUCCESS), pfnUSMFill = (\<lambda>_ _ _. UR_RESULT_SUCCESS),
     pfnEventsWait = (\<lambda>_. UR_RESULT_SUCCESS), new_event = (\<lambda>n. n), GetDeviceLocalMemorySize = 0x10000\<rparr>"

lemmas msan_examples = pvc_example_def new_msan_shadow_def msan_api_example_def

theorem msan_poison_exact_witness:
  "\<exists>r Out sm'. EnqueuePoisonShadowWithOrigin msan_api_example GPU_PVC 0xff00f00000000002 7 0xff (Some 0x80000001) [] None pvc_example
       = Some (r, Out, sm') \<and>
     (msan_services_ok msan_api_example \<longrightarrow> r = UR_RESULT_SUCCESS) \<and>
     (r = UR_RESULT_SUCCESS \<longrightarrow>
        poisoned_range GPU_PVC 0xff00f00000000002 (0xff00f00000000002 + 7 - 1) 0xff (Some 0x80000001) pvc_example sm' \<and>
        range_backed GPU_PVC 21 0xff00f00000000002 (0xff00f00000000002 + 7 - 1) sm' \<and> pages_ok sm')"
  by (rule msan_poison_exact [of _ _ _ _ _ _ Area3])
    (simp_all add: msan_examples has_origins_def area_defs pages_ok_def recorded_def)

section \<open>The layout of the CPU is mapped\<close>

lemma setup_ranges_maps:
  "setup_ranges api ds ms = (True, ms') \<Longrightarrow>
     set ms' = set ms \<union> {(start d, stop d - start d) | d. d \<in> set ds \<and> mtype d \<in> {SHADOW, ORIGIN}}"
  by (induction ds arbitrary: ms) (auto simp: Let_def split: if_splits)

text \<open>An interval of addresses inside one of the ranges.\<close>

definition inside_range :: "(u64 \<times> u64) list \<Rightarrow> u64 \<Rightarrow> nat \<Rightarrow> bool" where
  "inside_range ms a n \<longleftrightarrow> (\<exists>(lo, sz) \<in> set ms. unat lo \<le> unat a \<and> unat a + n \<le> unat lo + unat sz)"

lemma segment_inside:
  assumes "d \<in> set kMemoryLayout" "mtype d \<in> {SHADOW, ORIGIN}" "unat (start d) \<le> unat a" "unat a + n \<le> unat (stop d)"
    and "{(start d, stop d - start d) | d. d \<in> set kMemoryLayout \<and> mtype d \<in> {SHADOW, ORIGIN}} \<subseteq> set ms"
  shows "inside_range ms a n"
proof -
  have "(start d, stop d - start d) \<in> set ms" using assms by auto
  moreover have "unat (stop d - start d) = unat (stop d) - unat (start d)"
    using assms(3,4) by (intro unat_minus_u64) simp
  ultimately show ?thesis using assms(3,4) unfolding inside_range_def by force
qed

text \<open>
  C20: After the set-up of the CPU has succeeded, the shadow byte of every address of the application
  and all four bytes of its origin lie inside memory that was mapped, different addresses have
  different shadow bytes, two addresses share an origin only if they are in the same group of four
  bytes, and no shadow byte is part of an origin.
\<close>

theorem cpu_setup_covers:
  assumes "ShadowBegin sm = 0" "MsanSetup_CPU api sm = Some (r, sm')"
    and "has_origins CPU sm' k a" "has_origins CPU sm' l b"
  shows "r = UR_RESULT_SUCCESS \<and>
     inside_range (os_mapped sm') (MsanMemToShadow CPU sm' a) 1 \<and> inside_range (os_mapped sm') (MsanMemToOrigin CPU sm' a) 4 \<and>
     (MsanMemToShadow CPU sm' a = MsanMemToShadow CPU sm' b \<longleftrightarrow> a = b) \<and>
     (MsanMemToOrigin CPU sm' a = MsanMemToOrigin CPU sm' b \<longleftrightarrow> unat a div 4 = unat b div 4) \<and>
     (\<forall>i < 4. MsanMemToShadow CPU sm' a \<noteq> MsanMemToOrigin CPU sm' b + of_nat i)"
proof (intro conjI)
  obtain ms where ms: "setup_ranges api kMemoryLayout (os_mapped sm) = (True, ms)" "os_mapped sm' = ms" "r = UR_RESULT_SUCCESS"
    using assms(1,2) by (auto simp: MsanSetup_CPU_def Let_def split: prod.splits if_splits)
  then show "r = UR_RESULT_SUCCESS" by simp
  have seg: "{(start d, stop d - start d) | d. d \<in> set kMemoryLayout \<and> mtype d \<in> {SHADOW, ORIGIN}} \<subseteq> set ms"
    using setup_ranges_maps [OF ms(1)] by blast
  note in_segment = segment_inside [OF _ _ _ _ seg]
  show "inside_range (os_mapped sm') (MsanMemToShadow CPU sm' a) 1"
    unfolding ms(2) using layout.shadow_range [OF assms(3)]
    by (intro in_segment [of "kMemoryLayout ! (case k of Area1 \<Rightarrow> 7 | Area2 \<Rightarrow> 1 | Area3 \<Rightarrow> 4)"])
      (cases k; simp add: kMemoryLayout_def area_shadow_def area_size_def)+
  show "inside_range (os_mapped sm') (MsanMemToOrigin CPU sm' a) 4"
    unfolding ms(2) using layout.origin_range [OF assms(3)]
    by (intro in_segment [of "kMemoryLayout ! (case k of Area1 \<Rightarrow> 9 | Area2 \<Rightarrow> 3 | Area3 \<Rightarrow> 5)"])
      (cases k; simp add: kMemoryLayout_def area_origin_def area_shadow_def area_size_def)+
  show "MsanMemToShadow CPU sm' a = MsanMemToShadow CPU sm' b \<longleftrightarrow> a = b"
    by (rule layout.shadow_inj [OF assms(3,4)])
  show "MsanMemToOrigin CPU sm' a = MsanMemToOrigin CPU sm' b \<longleftrightarrow> unat a div 4 = unat b div 4"
    unfolding layout.same_origin_iff [OF assms(3,4)]
    using layout.group_between [OF assms(3,3), of b] layout.area_unique [OF assms(4)] by auto
  show "\<forall>i < 4. MsanMemToShadow CPU sm' a \<noteq> MsanMemToOrigin CPU sm' b + of_nat i"
    using layout.shadow_origin_apart [OF assms(3,4)] layout.shadow_range [OF assms(3)] layout.origin_range [OF assms(4)]
      layout.origin_byte [OF assms(4)] by fastforce
qed

theorem cpu_setup_covers_witness:
  "\<exists>sm'. MsanSetup_CPU msan_api_example new_msan_shadow = Some (UR_RESULT_SUCCESS, sm') \<and>
     inside_range (os_mapped sm') (MsanMemToShadow CPU sm' 0x7fff00000001) 1 \<and>
     inside_range (os_mapped sm') (MsanMemToOrigin CPU sm' 0x7fff00000001) 4"
proof -
  obtain sm' where "MsanSetup_CPU msan_api_example new_msan_shadow = Some (UR_RESULT_SUCCESS, sm')"
    by (simp add: MsanSetup_CPU_def msan_examples kMemoryLayout_def)
  then show ?thesis
    using cpu_setup_covers [of new_msan_shadow msan_api_example UR_RESULT_SUCCESS sm' Area3 "0x7fff00000001" Area1 0]
    by (auto simp: new_msan_shadow_def has_origins_def area_defs)
qed

section \<open>What does not hold\<close>

text \<open>A range inside one page.\<close>

lemma vmem_map_one_page:
  assumes "msan_services_ok api" "p \<le> e" "\<not> p + GetVirtualMemGranularity api \<le> e"
  shows "vmem_map api p e out Events sm =
     (if p \<in> recorded sm then Some (UR_RESULT_SUCCESS, Events, sm)
      else Some (UR_RESULT_SUCCESS, case out of None \<Rightarrow> [] | Some v \<Rightarrow> [v],
                 sm\<lparr>VirtualMemMaps := (p, []) # VirtualMemMaps sm, vm_mapped := p # vm_mapped sm\<rparr>))"
  using assms by (subst vmem_map.simps, subst (1 2) vmem_map.simps) (simp add: msan_services_ok_def recorded_def)

lemma RoundDownTo_example: "unat p mod 2097152 = 0 \<Longrightarrow> RoundDownTo p 2097152 = p"
  using unat_RoundDownTo [of p 21] div_mult_mod_eq [of "unat p" 2097152] by (simp add: word_unat_eq_iff)

lemma example_services: "msan_services_ok msan_api_example" "GetVirtualMemGranularity msan_api_example = 2097152"
  "pfnVirtualMemUnmap msan_api_example = (\<lambda>_. UR_RESULT_SUCCESS)"
  "pfnPhysicalMemRelease msan_api_example = (\<lambda>_. UR_RESULT_SUCCESS)"
  by (simp_all add: msan_services_ok_def msan_api_example_def)

lemma EnqueueVirtualMemMap_example:
  assumes "unat b mod 2097152 = 0" "b \<le> e" "\<not> b + 2097152 \<le> e"
  shows "EnqueueVirtualMemMap msan_api_example b e out Events sm =
     (if b \<in> recorded sm then Some (UR_RESULT_SUCCESS, Events, sm)
      else Some (UR_RESULT_SUCCESS, case out of None \<Rightarrow> [] | Some v \<Rightarrow> [v],
                 sm\<lparr>VirtualMemMaps := (b, []) # VirtualMemMaps sm, vm_mapped := b # vm_mapped sm\<rparr>))"
  using assms vmem_map_one_page [OF example_services(1), of b e] 
  by (simp add: EnqueueVirtualMemMap_def example_services(2) RoundDownTo_example)

lemma USMFill_example:
  "USMFill msan_api_example p pat n w out sm = (UR_RESULT_SUCCESS, map_option (\<lambda>_. length (fills sm)) out,
     sm\<lparr>mem := pattern_fill p (unat n) pat (mem sm), fills := fills sm @ [(p, n, w)]\<rparr>)"
  by (simp add: USMFill_def msan_api_example_def)

lemma pvc_example_addresses:
  "MsanMemToShadow GPU_PVC sm 0xff00f00000000000 = 0xff00a00000000000"
  "MsanMemToShadow GPU_PVC sm 0xff00f00000000003 = 0xff00a00000000003"
  "MsanMemToShadow GPU_PVC sm 0xff00f00000000004 = 0xff00a00000000004"
  "MsanMemToOrigin GPU_PVC sm 0xff00f00000000000 = 0xff00500000000000"
  "MsanMemToOrigin GPU_PVC sm 0xff00f00000000003 = 0xff00500000000000"
proof -
  have r: "RoundDownTo a MSAN_ORIGIN_GRANULARITY = 0xff00f00000000000" if "unat a div 4 = 0x3fc03c0000000000" for a
    unfolding word_unat_eq_iff RoundDown4 that by simp
  have "RoundDownTo 0xff00f00000000000 MSAN_ORIGIN_GRANULARITY = 0xff00f00000000000"
    "RoundDownTo 0xff00f00000000003 MSAN_ORIGIN_GRANULARITY = 0xff00f00000000000"
    by (intro r; simp)+
  then show "MsanMemToShadow GPU_PVC sm 0xff00f00000000000 = 0xff00a00000000000"
    "MsanMemToShadow GPU_PVC sm 0xff00f00000000003 = 0xff00a00000000003"
    "MsanMemToShadow GPU_PVC sm 0xff00f00000000004 = 0xff00a00000000004"
    "MsanMemToOrigin GPU_PVC sm 0xff00f00000000000 = 0xff00500000000000"
    "MsanMemToOrigin GPU_PVC sm 0xff00f00000000003 = 0xff00500000000000"
    by (simp_all add: MsanMemToShadow_def MsanMemToOrigin_def MsanMemToShadow_PVC_def MsanMemToOrigin_PVC_def device_usm_iff)
qed

lemma release_one_page:
  assumes "pfnVirtualMemUnmap api = (\<lambda>_. UR_RESULT_SUCCESS)" "pfnPhysicalMemRelease api = (\<lambda>_. UR_RESULT_SUCCESS)"
    and "p \<le> e" "\<not> p + GetVirtualMemGranularity api \<le> e" "map_of (VirtualMemMaps sm) p = Some []"
  shows "release_pages api ai p e sm = Some (UR_RESULT_SUCCESS,
     sm\<lparr>VirtualMemMaps := map (\<lambda>(q, os). (q, if q = p then [] else os)) (VirtualMemMaps sm),
        vm_mapped := removeAll p (vm_mapped sm)\<rparr>)"
  using assms by (subst release_pages.simps, subst (1 2) release_pages.simps) simp

lemmas run_example = pvc_example_addresses EnqueuePoisonShadowWithOrigin_def MsanPoison_GPU_def poison_shadow_part_def poison_origin_part_def
  EnqueueVirtualMemMap_example USMFill_example recorded_def Let_def

text \<open>On DG2 the origin of an address is its shadow, so that writing an origin overwrites the shadow.\<close>

definition dg2_example :: msan_shadow where
  "dg2_example = new_msan_shadow\<lparr>ShadowBegin := 0xffff900000000000, ShadowEnd := 0xffffd00000000000\<rparr>"

theorem dg2_origin_overwrites_shadow:
  "MsanMemToOrigin GPU_DG2 sm = MsanMemToShadow GPU_DG2 sm \<and>
   (case EnqueuePoisonShadowWithOrigin msan_api_example GPU_DG2 0xffff800000000000 4 0xff (Some 0x80000001) [] None dg2_example of
      Some (r, _, sm') \<Rightarrow> r = UR_RESULT_SUCCESS \<and> map (shadow_of GPU_DG2 sm') [0xffff800000000000, 0xffff800000000001] = [1, 0]
    | None \<Rightarrow> False)"
proof (rule conjI)
  show "MsanMemToOrigin GPU_DG2 sm = MsanMemToShadow GPU_DG2 sm"
    by (simp add: fun_eq_iff MsanMemToOrigin_def MsanMemToShadow_def MsanMemToOrigin_DG2_def MsanMemToShadow_DG2_def)
  have map: "MsanMemToShadow GPU_DG2 sm 0xffff800000000000 = 0xffff900000000000"
    "MsanMemToShadow GPU_DG2 sm 0xffff800000000001 = 0xffff900000000001"
    "MsanMemToShadow GPU_DG2 sm 0xffff800000000003 = 0xffff900000000003"
    "MsanMemToOrigin GPU_DG2 sm 0xffff800000000000 = 0xffff900000000000"
    "MsanMemToOrigin GPU_DG2 sm 0xffff800000000003 = 0xffff900000000003"
    if "ShadowBegin sm = 0xffff900000000000" for sm
    using that by (simp_all add: MsanMemToOrigin_def MsanMemToShadow_def MsanMemToOrigin_DG2_def MsanMemToShadow_DG2_def)
  have at: "ShadowBegin dg2_example = 0xffff900000000000" "VirtualMemMaps dg2_example = []"
    by (simp_all add: dg2_example_def new_msan_shadow_def)
  show "case EnqueuePoisonShadowWithOrigin msan_api_example GPU_DG2 0xffff800000000000 4 0xff (Some 0x80000001) [] None dg2_example of
      Some (r, _, sm') \<Rightarrow> r = UR_RESULT_SUCCESS \<and> map (shadow_of GPU_DG2 sm') [0xffff800000000000, 0xffff800000000001] = [1, 0]
    | None \<Rightarrow> False"
    by (simp add: run_example map at shadow_of_def pattern_fill_def origin_bytes_def)
qed

text \<open>
  A newly mapped page replaces the wait list of the caller: the fill of the shadow waits for nothing
  when the caller asks for no event, and for the handle \<open>OutEvent\<close> happens to hold otherwise.
\<close>

theorem new_page_drops_wait_list:
  "(case EnqueuePoisonShadowWithOrigin msan_api_example GPU_PVC 0xff00f00000000000 4 0xff None [5] out pvc_example of
      Some (r, _, sm') \<Rightarrow> r = UR_RESULT_SUCCESS \<and> map (\<lambda>(_, _, w). w) (fills sm') = [case out of None \<Rightarrow> [] | Some v \<Rightarrow> [v]]
    | None \<Rightarrow> False)"
  by (cases out) (simp_all add: run_example pvc_example_def new_msan_shadow_def)

text \<open>After one kind of GPU has been set up, the other reports success without a shadow.\<close>

theorem second_kind_has_no_shadow:
  "fst (MsanSetup_GPU api kind (fst (snd (MsanSetup_GPU msan_api_example GPU_PVC (msan_statics_init, new_msan_shadow))), new_msan_shadow))
     = UR_RESULT_SUCCESS \<and>
   ShadowBegin (snd (snd (MsanSetup_GPU api kind
       (fst (snd (MsanSetup_GPU msan_api_example GPU_PVC (msan_statics_init, new_msan_shadow))), new_msan_shadow)))) = 0"
  by (simp add: MsanSetup_GPU_def msan_examples msan_statics_init_def)

text \<open>
  Releasing the shadow of an allocation unmaps its pages but leaves them recorded, so that a later
  fill goes to unmapped memory.
\<close>

theorem release_leaves_pages_recorded:
  "(case EnqueuePoisonShadowWithOrigin msan_api_example GPU_PVC 0xff00f00000000000 4 0xff None [] None pvc_example of
      Some (_, _, sm1) \<Rightarrow> pages_ok sm1 \<and>
        (case ReleaseShadow msan_api_example GPU_PVC 1 0xff00f00000000000 4 sm1 of
           Some (r, sm2) \<Rightarrow> r = UR_RESULT_SUCCESS \<and> \<not> pages_ok sm2
         | None \<Rightarrow> False)
    | None \<Rightarrow> False)"
proof -
  have "ReleaseShadow msan_api_example GPU_PVC 1 0xff00f00000000000 4 sm =
      release_pages msan_api_example 1 0xff00a00000000000 0xff00a00000000004 sm" for sm
    by (simp add: ReleaseShadow_def pvc_example_addresses example_services RoundDownTo_example)
  then show ?thesis
    by (simp add: run_example pvc_example_def new_msan_shadow_def pages_ok_def release_one_page example_services)
qed

text \<open>Destroying the shadow gives back the reserved range and the buffers, but none of the mapped pages.\<close>

theorem destroy_keeps_pages:
  assumes "pfnUSMFree api = (\<lambda>_. UR_RESULT_SUCCESS)" "DestoryResult st = None" "ShadowBegin sm \<noteq> 0"
  shows "\<exists>st' sm'. MsanDestory_GPU api (st, sm) = (pfnVirtualMemFree api (ShadowBegin sm), st', sm') \<and>
     vm_freed sm' = vm_freed sm @ [ShadowBegin sm] \<and> vm_mapped sm' = vm_mapped sm \<and>
     PrivateShadowOffset sm' = 0 \<and> PrivateBasePtr sm' = 0 \<and> LocalShadowOffset sm' = 0"
  using assms by (auto simp: MsanDestory_GPU_def destory_once_def msan_free_def Let_def)

theorem destroy_keeps_pages_witness:
  "\<exists>st' sm'. MsanDestory_GPU msan_api_example (msan_statics_init, pvc_example\<lparr>vm_mapped := [7]\<rparr>) = (UR_RESULT_SUCCESS, st', sm') \<and>
     vm_mapped sm' = [7]"
  using destroy_keeps_pages [of msan_api_example msan_statics_init "pvc_example\<lparr>vm_mapped := [7]\<rparr>"]
  by (auto simp: msan_examples msan_statics_init_def)

end
