(* ===== verification/Msan_Interceptor.thy ===== *)
theory Msan_Interceptor
  imports Msan_Shadow
begin

text \<open>
  Origins and the bookkeeping of the memory sanitizer (layers/sanitizer/msan/msan_origin.hpp,
  msan_interceptor.cpp, msan_report.cpp, sanitizer_common/sanitizer_stackdepot.cpp). An origin is a
  number of 32 bits whose leading bits tell the kind of memory; a depot keeps the stack of the
  allocation for each origin. A stack trace is a value of a type parameter. The assertions on the
  range of the numbers are not compiled in release builds and are hypotheses here.
\<close>

section \<open>Origins\<close>

datatype heap_type = DeviceUSM | HostUSM | SharedUSM | LocalMem | ExportableMem

definition kDeviceUSMShift :: nat where "kDeviceUSMShift = 32 - 2"
definition kHostUSMShift :: nat where "kHostUSMShift = 32 - 3"
definition kSharedUSMShift :: nat where "kSharedUSMShift = 32 - 4"
definition kLocalShift :: nat where "kLocalShift = 32 - 5"
definition kExportableMemShift :: nat where "kExportableMemShift = 32 - 5"
definition kDepthBits :: nat where "kDepthBits = 3"
definition kDepthShift :: nat where "kDepthShift = 32 - kDepthBits - 1"

definition isDeviceUSMOrigin :: "u32 \<Rightarrow> bool" where "isDeviceUSMOrigin raw \<longleftrightarrow> drop_bit kDeviceUSMShift raw = 2"
definition isHostUSMOrigin :: "u32 \<Rightarrow> bool" where "isHostUSMOrigin raw \<longleftrightarrow> drop_bit kHostUSMShift raw = 6"
definition isSharedUSMOrigin :: "u32 \<Rightarrow> bool" where "isSharedUSMOrigin raw \<longleftrightarrow> drop_bit kSharedUSMShift raw = 14"
definition isLocalOrigin :: "u32 \<Rightarrow> bool" where "isLocalOrigin raw \<longleftrightarrow> drop_bit kLocalShift raw = 30"
definition isExportableMemOrigin :: "u32 \<Rightarrow> bool" where "isExportableMemOrigin raw \<longleftrightarrow> drop_bit kExportableMemShift raw = 31"
definition isPrivateOrigin :: "u32 \<Rightarrow> bool" where "isPrivateOrigin raw \<longleftrightarrow> drop_bit kDepthShift raw = push_bit kDepthBits 1"
definition isChainedOrigin :: "u32 \<Rightarrow> bool" where "isChainedOrigin raw \<longleftrightarrow> drop_bit kDepthShift raw > push_bit kDepthBits 1"

definition isHeapOrigin :: "u32 \<Rightarrow> bool" where
  "isHeapOrigin raw \<longleftrightarrow> isDeviceUSMOrigin raw \<or> isHostUSMOrigin raw \<or> isSharedUSMOrigin raw \<or>
     isLocalOrigin raw \<or> isExportableMemOrigin raw"

definition getHeapType :: "u32 \<Rightarrow> heap_type" where
  "getHeapType raw =
     (if isDeviceUSMOrigin raw then DeviceUSM
      else if isHostUSMOrigin raw then HostUSM
      else if isSharedUSMOrigin raw then SharedUSM
      else if isLocalOrigin raw then LocalMem
      else if isExportableMemOrigin raw then ExportableMem
      else DeviceUSM)"

definition id_mask :: "nat \<Rightarrow> u32" where
  "id_mask shift = drop_bit (32 - shift) (- 1)"

definition getHeapId :: "u32 \<Rightarrow> u32" where
  "getHeapId raw =
     (case getHeapType raw of
        DeviceUSM \<Rightarrow> raw AND id_mask kDeviceUSMShift
      | HostUSM \<Rightarrow> raw AND id_mask kHostUSMShift
      | SharedUSM \<Rightarrow> raw AND id_mask kSharedUSMShift
      | LocalMem \<Rightarrow> raw AND id_mask kLocalShift
      | ExportableMem \<Rightarrow> raw AND id_mask kExportableMemShift)"

text \<open>The depot and the counters \<open>_NextIds\<close>.\<close>

record 's origins =
  Depot :: "u32 \<Rightarrow> 's option"
  NextIds :: "heap_type \<Rightarrow> u32"

definition no_origins :: "'s origins" where
  "no_origins = \<lparr>Depot = (\<lambda>_. None), NextIds = (\<lambda>_. 0)\<rparr>"

definition StackDepotPut :: "u32 \<Rightarrow> 's \<Rightarrow> 's origins \<Rightarrow> 's origins" where
  "StackDepotPut k Stack og = og\<lparr>Depot := (Depot og)(k := Some Stack)\<rparr>"

definition StackDepotGet :: "'s \<Rightarrow> u32 \<Rightarrow> 's origins \<Rightarrow> 's" where
  "StackDepotGet none k og = (case Depot og k of Some s \<Rightarrow> s | None \<Rightarrow> none)"

definition type_bits :: "heap_type \<Rightarrow> u32" where
  "type_bits t =
     (case t of
        DeviceUSM \<Rightarrow> push_bit kDeviceUSMShift 2
      | HostUSM \<Rightarrow> push_bit kHostUSMShift 6
      | SharedUSM \<Rightarrow> push_bit kSharedUSMShift 14
      | LocalMem \<Rightarrow> push_bit kLocalShift 30
      | ExportableMem \<Rightarrow> push_bit kExportableMemShift 31)"

definition CreateHeapOrigin :: "'s \<Rightarrow> heap_type \<Rightarrow> 's origins \<Rightarrow> u32 \<times> 's origins" where
  "CreateHeapOrigin Stack t og =
     (let StackId = type_bits t OR NextIds og t;
          og1 = og\<lparr>NextIds := (NextIds og)(t := NextIds og t + 1)\<rparr>
      in (StackId, StackDepotPut StackId Stack og1))"

text \<open>
  The report of a use of an uninitialised value: whether the process is to be aborted, and the kind
  and stack that are printed.
\<close>

definition ReportUsesUninitializedValue :: "'s \<Rightarrow> u32 \<Rightarrow> 's origins \<Rightarrow> bool \<times> (heap_type \<times> 's) option" where
  "ReportUsesUninitializedValue none Origin og =
     (if Origin = 0 then (True, None)
      else if isHeapOrigin Origin
      then let t = getHeapType Origin
           in (\<not> (t = HostUSM \<or> t = SharedUSM), Some (t, StackDepotGet none Origin og))
      else (True, None))"

section \<open>Allocation\<close>

definition kMemInitializedMagic :: u8 where "kMemInitializedMagic = 0"
definition kMemUninitializedMagic :: u8 where "kMemUninitializedMagic = 0xff"

text \<open>
  The devices of the context with their kinds; the shadow object of a kind is a \<open>static\<close> of
  \<open>GetMsanShadowMemory\<close>, so devices of one kind share it.
\<close>

record 's msan_state =
  origin_table :: "'s origins"
  CleanShadowSize :: u64
  DeviceList :: "nat list"
  device_type :: "nat \<Rightarrow> device_kind"
  shadows :: "device_kind \<Rightarrow> msan_shadow"

definition heap_type_of :: "alloc_type \<Rightarrow> heap_type option" where
  "heap_type_of t =
     (case t of
        DEVICE_USM \<Rightarrow> Some DeviceUSM
      | HOST_USM \<Rightarrow> Some HostUSM
      | SHARED_USM \<Rightarrow> Some SharedUSM
      | EXPORTABLE_MEM \<Rightarrow> Some ExportableMem
      | _ \<Rightarrow> None)"

fun EnqueuePoison :: "msan_api \<Rightarrow> u64 \<Rightarrow> u64 \<Rightarrow> u8 \<Rightarrow> u32 \<Rightarrow> nat list \<Rightarrow> 's msan_state \<Rightarrow> 's msan_state option" where
  "EnqueuePoison api p n v Origin [] s = Some s"
| "EnqueuePoison api p n v Origin (d # ds) s =
     (let kind = device_type s d
      in case EnqueuePoisonShadowWithOrigin api kind p n v (Some Origin) [] None (shadows s kind) of
           None \<Rightarrow> None
         | Some (_, _, sm) \<Rightarrow> EnqueuePoison api p n v Origin ds (s\<lparr>shadows := (shadows s)(kind := sm)\<rparr>))"

definition allocate_raw :: "msan_api \<Rightarrow> (u64 \<Rightarrow> ur_result + u64) \<Rightarrow> nat option \<Rightarrow> u64 \<Rightarrow> alloc_type \<Rightarrow> ur_result + u64" where
  "allocate_raw api pfnAllocExportableMemoryExp Device Size t =
     (if t \<noteq> EXPORTABLE_MEM then SafeAllocate api (Device \<noteq> None) t Size
      else if Device = None then Inl UR_RESULT_ERROR_INVALID_ARGUMENT
      else pfnAllocExportableMemoryExp Size)"

text \<open>
  \<open>MsanInterceptor::allocateMemory\<close>. The result is the code and what is stored in \<open>*ResultPtr\<close>;
  \<open>check\<close> is the option \<open>MsanCheckHostAndSharedUSM\<close>, \<open>Stack\<close> the current backtrace. The alignment is
  passed on to the allocator, which is a parameter.
\<close>

definition msan_allocateMemory ::
  "msan_api \<Rightarrow> (u64 \<Rightarrow> ur_result + u64) \<Rightarrow> bool \<Rightarrow> 's \<Rightarrow> nat option \<Rightarrow> u32 \<Rightarrow> u64 \<Rightarrow> alloc_type \<Rightarrow> 's msan_state
     \<Rightarrow> (ur_result \<times> u64 option \<times> 's msan_state) option" where
  "msan_allocateMemory api pfnExport check Stack Device Alignment Size t s =
     (if Alignment AND (Alignment - 1) \<noteq> 0 then Some (UR_RESULT_ERROR_INVALID_ARGUMENT, None, s)
      else case allocate_raw api pfnExport Device Size t of
             Inl r \<Rightarrow> Some (r, None, s)
           | Inr Allocated \<Rightarrow>
               let s1 = s\<lparr>CleanShadowSize := max (CleanShadowSize s) Size\<rparr>;
                   DontCheck = (t = HOST_USM \<or> t = SHARED_USM) \<and> \<not> check
               in case heap_type_of t of
                    None \<Rightarrow> Some (UR_RESULT_ERROR_UNKNOWN, Some Allocated, s1)
                  | Some ht \<Rightarrow>
                      let (HeapOrigin, s2) =
                            (if DontCheck then (0, s1)
                             else let (o1, og) = CreateHeapOrigin Stack ht (origin_table s1)
                                  in (o1, s1\<lparr>origin_table := og\<rparr>));
                          v = (if DontCheck then kMemInitializedMagic else kMemUninitializedMagic);
                          devs = (case Device of Some d \<Rightarrow> [d] | None \<Rightarrow> DeviceList s2)
                      in case EnqueuePoison api Allocated Size v HeapOrigin devs s2 of
                           None \<Rightarrow> None
                         | Some s3 \<Rightarrow> Some (UR_RESULT_SUCCESS, Some Allocated, s3))"

definition msan_releaseMemory :: "msan_api \<Rightarrow> u64 \<Rightarrow> ur_result" where
  "msan_releaseMemory api Ptr = pfnUSMFree api Ptr"

section \<open>Origins identify allocations\<close>

definition shift_of :: "heap_type \<Rightarrow> nat" where
  "shift_of t =
     (case t of DeviceUSM \<Rightarrow> kDeviceUSMShift | HostUSM \<Rightarrow> kHostUSMShift | SharedUSM \<Rightarrow> kSharedUSMShift
      | LocalMem \<Rightarrow> kLocalShift | ExportableMem \<Rightarrow> kExportableMemShift)"

definition lead_of :: "heap_type \<Rightarrow> u32" where
  "lead_of t = (case t of DeviceUSM \<Rightarrow> 2 | HostUSM \<Rightarrow> 6 | SharedUSM \<Rightarrow> 14 | LocalMem \<Rightarrow> 30 | ExportableMem \<Rightarrow> 31)"

lemmas shift_defs = shift_of_def kDeviceUSMShift_def kHostUSMShift_def kSharedUSMShift_def kLocalShift_def kExportableMemShift_def

lemma type_bits_eq: "type_bits t = push_bit (shift_of t) (lead_of t)"
  by (cases t) (simp_all add: type_bits_def shift_of_def lead_of_def)

lemma lead_bits: "drop_bit (shift_of t) (type_bits t OR i) = lead_of t" if "unat (i :: u32) < 2 ^ shift_of t"
proof -
  have "drop_bit (shift_of t) i = 0"
    using that unfolding word_unat_eq_iff unat_drop_bit_eq by (simp add: drop_bit_eq_div)
  moreover have "drop_bit (shift_of t) (push_bit (shift_of t) (lead_of t)) = lead_of t"
    by (cases t) (simp_all add: shift_defs lead_of_def)
  ultimately show ?thesis by (simp add: drop_bit_or type_bits_eq)
qed

lemma origin_kind_tests:
  "isDeviceUSMOrigin raw \<longleftrightarrow> drop_bit 30 raw = 2" "isHostUSMOrigin raw \<longleftrightarrow> drop_bit 29 raw = 6"
  "isSharedUSMOrigin raw \<longleftrightarrow> drop_bit 28 raw = 14" "isLocalOrigin raw \<longleftrightarrow> drop_bit 27 raw = 30"
  "isExportableMemOrigin raw \<longleftrightarrow> drop_bit 27 raw = 31"
  by (simp_all add: isDeviceUSMOrigin_def isHostUSMOrigin_def isSharedUSMOrigin_def isLocalOrigin_def
      isExportableMemOrigin_def shift_defs)

lemma div_nat_iff: "0 < n \<Longrightarrow> m div n = q \<longleftrightarrow> q * n \<le> m \<and> m < Suc q * (n :: nat)"
  using less_eq_div_iff_mult_less_eq [of n q m] div_less_iff_less_mult [of n m "Suc q"] by auto

text \<open>The leading bits of a kind decide all the tests.\<close>

lemma kind_ranges:
  fixes raw :: u32
  shows "drop_bit 30 raw = 2 \<longleftrightarrow> 2 ^ 31 \<le> unat raw \<and> unat raw < 3 * 2 ^ 30"
    "drop_bit 29 raw = 6 \<longleftrightarrow> 3 * 2 ^ 30 \<le> unat raw \<and> unat raw < 7 * 2 ^ 29"
    "drop_bit 28 raw = 14 \<longleftrightarrow> 7 * 2 ^ 29 \<le> unat raw \<and> unat raw < 15 * 2 ^ 28"
    "drop_bit 27 raw = 30 \<longleftrightarrow> 15 * 2 ^ 28 \<le> unat raw \<and> unat raw < 31 * 2 ^ 27"
    "drop_bit 27 raw = 31 \<longleftrightarrow> 31 * 2 ^ 27 \<le> unat raw"
  using unsigned_less [of raw]
  unfolding word_unat_eq_iff unat_drop_bit_eq by (auto simp: drop_bit_eq_div div_nat_iff)

lemma getHeapType_lead:
  "drop_bit (shift_of t) raw = lead_of t \<Longrightarrow> getHeapType raw = t \<and> isHeapOrigin raw"
  by (cases t) (auto simp: getHeapType_def isHeapOrigin_def origin_kind_tests kind_ranges shift_defs lead_of_def)

lemmas getHeapType_create = getHeapType_lead [OF lead_bits]

lemma id_mask_eq: "s \<le> 32 \<Longrightarrow> id_mask s = mask s"
  by (rule bit_word_eqI) (auto simp: id_mask_def bit_simps)

lemma getHeapId_create:
  assumes "unat i < 2 ^ shift_of t"
  shows "getHeapId (type_bits t OR i) = i"
proof -
  have "take_bit (shift_of t) i = i"
    using assms unfolding word_unat_eq_iff unsigned_take_bit_eq by (simp add: take_bit_nat_eq_self)
  moreover have "take_bit (shift_of t) (type_bits t) = 0"
    unfolding type_bits_eq by (rule bit_word_eqI) (auto simp: bit_simps)
  moreover have "(type_bits t OR i) AND id_mask (shift_of t) = take_bit (shift_of t) (type_bits t OR i)"
    by (cases t) (simp_all add: id_mask_eq shift_defs take_bit_eq_mask)
  ultimately have "(type_bits t OR i) AND id_mask (shift_of t) = i" by (simp add: take_bit_or)
  then show ?thesis
    using getHeapType_create [OF assms] by (cases t) (simp_all add: getHeapId_def shift_of_def)
qed

text \<open>A history of allocations: the origins in the order they were made, and the final table.\<close>

fun create_all :: "('s \<times> heap_type) list \<Rightarrow> 's origins \<Rightarrow> u32 list \<times> 's origins" where
  "create_all [] og = ([], og)"
| "create_all ((Stack, t) # rest) og =
     (let (o1, og1) = CreateHeapOrigin Stack t og; (os, og2) = create_all rest og1 in (o1 # os, og2))"

definition made :: "heap_type \<Rightarrow> ('s \<times> heap_type) list \<Rightarrow> nat" where
  "made t allocs = length (filter (\<lambda>(_, u). u = t) allocs)"

text \<open>The table is within capacity: the numbers already given and those to come fit the kind's bits.\<close>

definition fits :: "('s \<times> heap_type) list \<Rightarrow> 's origins \<Rightarrow> bool" where
  "fits allocs og \<longleftrightarrow> (\<forall>t. unat (NextIds og t) + made t allocs \<le> 2 ^ shift_of t)"

lemma shift_bounds: "(2 :: nat) ^ shift_of t < 2 ^ 32"
  by (cases t) (simp_all add: shift_defs)

lemma fits_step:
  assumes "fits ((Stack, t) # rest) og"
  shows "unat (NextIds og t) < 2 ^ shift_of t" "fits rest (snd (CreateHeapOrigin Stack t og))"
    "unat (NextIds og t + 1) = unat (NextIds og t) + 1"
proof -
  have le: "unat (NextIds og u) + made u ((Stack, t) # rest) \<le> 2 ^ shift_of u" for u
    using assms by (simp add: fits_def)
  from le [of t] show lt: "unat (NextIds og t) < 2 ^ shift_of t" by (simp add: made_def)
  have "unat (NextIds og t) + 1 < 2 ^ 32" using lt shift_bounds [of t] by linarith
  then show suc: "unat (NextIds og t + 1) = unat (NextIds og t) + 1" by (simp add: unat_word_ariths)
  have "unat (((NextIds og)(t := NextIds og t + 1)) u) + made u rest \<le> 2 ^ shift_of u" for u
    using le [of u] suc by (cases "u = t") (simp_all add: made_def)
  then show "fits rest (snd (CreateHeapOrigin Stack t og))"
    by (simp add: fits_def CreateHeapOrigin_def StackDepotPut_def Let_def)
qed

lemma create_fresh:
  assumes "unat i < 2 ^ shift_of t" "unat j < 2 ^ shift_of u" "type_bits t OR i = type_bits u OR j"
  shows "t = u \<and> i = j"
  using getHeapType_create [OF assms(1)] getHeapType_create [OF assms(2)] getHeapId_create [OF assms(1)]
    getHeapId_create [OF assms(2)] assms(3) by metis

lemma CreateHeapOrigin_simps [simp]:
  "fst (CreateHeapOrigin Stack t og) = type_bits t OR NextIds og t"
  "Depot (snd (CreateHeapOrigin Stack t og)) = (Depot og)(type_bits t OR NextIds og t := Some Stack)"
  "NextIds (snd (CreateHeapOrigin Stack t og)) = (NextIds og)(t := NextIds og t + 1)"
  by (simp_all add: CreateHeapOrigin_def StackDepotPut_def Let_def)

declare create_all.simps(2) [simp del]

lemma create_all_Cons:
  "create_all ((Stack, t) # rest) og =
     ((type_bits t OR NextIds og t) # fst (create_all rest (snd (CreateHeapOrigin Stack t og))),
      snd (create_all rest (snd (CreateHeapOrigin Stack t og))))"
  using CreateHeapOrigin_simps(1) [of Stack t og]
  by (cases "CreateHeapOrigin Stack t og") (simp add: case_prod_beta create_all.simps(2))

text \<open>An origin that was given before keeps its stack.\<close>

lemma create_all_keeps:
  assumes "fits allocs og" "unat i < unat (NextIds og t)"
  shows "Depot (snd (create_all allocs og)) (type_bits t OR i) = Depot og (type_bits t OR i)"
  using assms
proof (induction allocs arbitrary: og)
  case Nil
  then show ?case by simp
next
  case (Cons x rest)
  obtain Stack u where x: "x = (Stack, u)" by (cases x)
  let ?og = "snd (CreateHeapOrigin Stack u og)"
  note step = fits_step [OF Cons.prems(1) [unfolded x]]
  have "unat (NextIds og t) \<le> 2 ^ shift_of t"
    using Cons.prems(1) unfolding fits_def by (meson add_leD1)
  then have i: "unat i < 2 ^ shift_of t" using Cons.prems(2) by linarith
  have "unat i < unat (NextIds ?og t)" using Cons.prems(2) step(3) by auto
  then have "Depot (snd (create_all rest ?og)) (type_bits t OR i) = Depot ?og (type_bits t OR i)"
    by (rule Cons.IH [OF step(2)])
  moreover have "type_bits t OR i \<noteq> type_bits u OR NextIds og u"
    using create_fresh [OF i step(1)] Cons.prems(2) by auto
  ultimately show ?case by (simp add: x create_all_Cons)
qed

text \<open>What is known of an origin made from the table \<open>og\<close> on, in the table \<open>og'\<close> at the end.\<close>

definition traced :: "'s origins \<Rightarrow> 's origins \<Rightarrow> 's \<times> heap_type \<Rightarrow> u32 \<Rightarrow> bool" where
  "traced og og' alloc raw \<longleftrightarrow>
     (\<exists>i. raw = type_bits (snd alloc) OR i \<and> unat (NextIds og (snd alloc)) \<le> unat i \<and> unat i < 2 ^ shift_of (snd alloc) \<and>
        Depot og' raw = Some (fst alloc))"

lemma traced_fresh:
  assumes "unat i < 2 ^ shift_of t" "unat i < unat (NextIds og t)" "traced og og' alloc raw"
  shows "raw \<noteq> type_bits t OR i"
  using assms create_fresh [OF assms(1)] unfolding traced_def by (metis not_le)

lemma create_all_traced:
  "fits allocs og \<Longrightarrow> distinct (fst (create_all allocs og)) \<and>
     list_all2 (traced og (snd (create_all allocs og))) allocs (fst (create_all allocs og))"
proof (induction allocs arbitrary: og)
  case Nil
  then show ?case by simp
next
  case (Cons x rest)
  obtain Stack t where x: "x = (Stack, t)" by (cases x)
  let ?og = "snd (CreateHeapOrigin Stack t og)" and ?i = "NextIds og t"
  note step = fits_step [OF Cons.prems [unfolded x]]
  note IH = Cons.IH [OF step(2)]
  have i: "unat ?i < unat (NextIds ?og t)" using step(3) by simp
  have "type_bits t OR ?i \<notin> set (fst (create_all rest ?og))"
  proof
    assume "type_bits t OR ?i \<in> set (fst (create_all rest ?og))"
    then obtain n where "n < length (fst (create_all rest ?og))" "fst (create_all rest ?og) ! n = type_bits t OR ?i"
      by (auto simp: in_set_conv_nth)
    with IH traced_fresh [OF step(1) i, of _ "rest ! n"] show False by (auto simp: list_all2_conv_all_nth)
  qed
  moreover have "traced og (snd (create_all rest ?og)) x (type_bits t OR ?i)"
    using step(1) create_all_keeps [OF step(2) i] by (auto simp: traced_def x)
  moreover have "traced og og' y raw" if "traced ?og og' y raw" for og' y raw
    using that step(3) unfolding traced_def by (cases "snd y = t") auto
  then have "list_all2 (traced og (snd (create_all rest ?og))) rest (fst (create_all rest ?og))"
    using IH by (blast intro: list_all2_mono)
  ultimately show ?case using IH by (simp add: x create_all_Cons)
qed

text \<open>
  C19: As long as the allocations of each kind do not use up its numbers, the report for the origin of
  any allocation, made at any time later, names the kind and the stack of that allocation, and
  different allocations have different origins.
\<close>

theorem origins_identify_allocations:
  assumes "fits allocs no_origins" "create_all allocs no_origins = (os, og)"
  shows "distinct os \<and> length os = length allocs \<and>
    (\<forall>n < length allocs.
       snd (ReportUsesUninitializedValue none (os ! n) og) = Some (snd (allocs ! n), fst (allocs ! n)))"
proof -
  have "distinct os" and tr: "list_all2 (traced no_origins og) allocs os"
    using create_all_traced [OF assms(1)] assms(2) by simp_all
  moreover have "snd (ReportUsesUninitializedValue none raw og) = Some (snd alloc, fst alloc)"
    if tr: "traced no_origins og alloc raw" for alloc raw
  proof -
    have "getHeapType raw = snd alloc" "isHeapOrigin raw" "Depot og raw = Some (fst alloc)"
      using tr getHeapType_create unfolding traced_def by blast+
    moreover have "raw \<noteq> 0" using \<open>isHeapOrigin raw\<close> by (auto simp: isHeapOrigin_def origin_kind_tests)
    ultimately show ?thesis by (simp add: ReportUsesUninitializedValue_def StackDepotGet_def Let_def)
  qed
  ultimately show ?thesis by (auto simp: list_all2_conv_all_nth)
qed

definition two_allocations :: "(string \<times> heap_type) list" where
  "two_allocations = [(''main'', DeviceUSM), (''helper'', SharedUSM)]"

theorem origins_identify_allocations_witness:
  "snd (ReportUsesUninitializedValue ''unknown'' (fst (create_all two_allocations no_origins) ! 0)
       (snd (create_all two_allocations no_origins))) = Some (DeviceUSM, ''main'') \<and>
   snd (ReportUsesUninitializedValue ''unknown'' (fst (create_all two_allocations no_origins) ! 1)
       (snd (create_all two_allocations no_origins))) = Some (SharedUSM, ''helper'')"
proof -
  have "unat (NextIds no_origins t) + made t two_allocations \<le> 2 ^ shift_of t" for t
    by (cases t) (simp_all add: no_origins_def made_def shift_defs two_allocations_def)
  then have "fits two_allocations no_origins" unfolding fits_def by blast
  note all = origins_identify_allocations [OF this prod.collapse [symmetric], of "''unknown''", THEN conjunct2, THEN conjunct2, rule_format]
  show ?thesis using all [of 0] all [of 1] by (simp add: two_allocations_def)
qed

section \<open>A fresh allocation is tracked\<close>

text \<open>Every byte of the range has the shadow value and the origin.\<close>

definition marked :: "device_kind \<Rightarrow> u64 \<Rightarrow> u64 \<Rightarrow> u8 \<Rightarrow> u32 \<Rightarrow> msan_shadow \<Rightarrow> bool" where
  "marked kind p q v Origin sm \<longleftrightarrow>
     (\<forall>a. unat p \<le> unat a \<and> unat a \<le> unat q \<longrightarrow>
        shadow_of kind sm a = v \<and> (Origin \<noteq> 0 \<longrightarrow> origin_of kind sm a = origin_bytes Origin))"

definition covers :: "device_kind \<Rightarrow> u64 \<Rightarrow> u64 \<Rightarrow> msan_shadow \<Rightarrow> bool" where
  "covers kind p q sm \<longleftrightarrow> pages_ok sm \<and> (\<exists>k. has_origins kind sm k p \<and> has_origins kind sm k q)"

lemma has_origins_bounds:
  "ShadowBegin sm' = ShadowBegin sm \<Longrightarrow> ShadowEnd sm' = ShadowEnd sm \<Longrightarrow> has_origins kind sm' = has_origins kind sm"
  by (auto simp: fun_eq_iff has_origins_def in_area_def layout_ok_def area_org_def area_size_def
      split: device_kind.splits area.splits)

lemma poison_marks:
  assumes "GetVirtualMemGranularity api = 2 ^ n" "n \<le> 55" "msan_services_ok api"
    and "Size \<noteq> 0" "unat p + unat Size \<le> 2 ^ 64" "covers kind p (p + Size - 1) sm"
  shows "\<exists>out sm'. EnqueuePoisonShadowWithOrigin api kind p Size v (Some Origin) [] None sm = Some (UR_RESULT_SUCCESS, out, sm') \<and>
     marked kind p (p + Size - 1) v Origin sm' \<and> covers kind p (p + Size - 1) sm'"
proof -
  obtain k where k: "has_origins kind sm k p" "has_origins kind sm k (p + Size - 1)" "pages_ok sm"
    using assms(6) by (auto simp: covers_def)
  obtain r out sm' where r: "EnqueuePoisonShadowWithOrigin api kind p Size v (Some Origin) [] None sm = Some (r, out, sm')"
      "r = UR_RESULT_SUCCESS" "poisoned_range kind p (p + Size - 1) v (Some Origin) sm sm'" "pages_ok sm'"
    using poison_effect [OF assms(1,2,4,5) k(1,2,3)] assms(3) by blast
  have in_area: "has_origins kind sm k a" if "unat p \<le> unat a" "unat a \<le> unat (p + Size - 1)" for a
    using layout.area_between [OF k(1,2) that] .
  have "marked kind p (p + Size - 1) v Origin sm'"
    unfolding marked_def
  proof (intro allI impI)
    fix a :: u64 assume a: "unat p \<le> unat a \<and> unat a \<le> unat (p + Size - 1)"
    then have "has_origins kind sm k a" using in_area by blast
    then show "shadow_of kind sm' a = v \<and> (Origin \<noteq> 0 \<longrightarrow> origin_of kind sm' a = origin_bytes Origin)"
      using r(3) a unfolding poisoned_range_def writes_origin_def by (simp add: div_le_mono)
  qed
  moreover have "covers kind p (p + Size - 1) sm'"
    using r(3,4) k has_origins_bounds [of sm' sm kind] by (auto simp: covers_def poisoned_range_def)
  ultimately show ?thesis using r by blast
qed

lemma EnqueuePoison_marks:
  assumes "GetVirtualMemGranularity api = 2 ^ n" "n \<le> 55" "msan_services_ok api"
    and "Size \<noteq> 0" "unat p + unat Size \<le> 2 ^ 64"
    and "\<forall>d \<in> set devs. covers (device_type s d) p (p + Size - 1) (shadows s (device_type s d))"
  shows "\<exists>s'. EnqueuePoison api p Size v Origin devs s = Some s' \<and> origin_table s' = origin_table s \<and>
     device_type s' = device_type s \<and> CleanShadowSize s' = CleanShadowSize s \<and>
     (\<forall>kind. (\<exists>d \<in> set devs. device_type s d = kind) \<or> marked kind p (p + Size - 1) v Origin (shadows s kind) \<longrightarrow>
        marked kind p (p + Size - 1) v Origin (shadows s' kind))"
  using assms(6)
proof (induction devs arbitrary: s)
  case Nil
  then show ?case by simp
next
  case (Cons d devs)
  let ?kind = "device_type s d"
  obtain out sm where sm: "EnqueuePoisonShadowWithOrigin api ?kind p Size v (Some Origin) [] None (shadows s ?kind)
        = Some (UR_RESULT_SUCCESS, out, sm)"
      "marked ?kind p (p + Size - 1) v Origin sm" "covers ?kind p (p + Size - 1) sm"
    using poison_marks [OF assms(1-5), of ?kind "shadows s ?kind" v Origin] Cons.prems by auto
  let ?s = "s\<lparr>shadows := (shadows s)(?kind := sm)\<rparr>"
  have "\<forall>e \<in> set devs. covers (device_type ?s e) p (p + Size - 1) (shadows ?s (device_type ?s e))"
    using Cons.prems sm(3) by simp
  then obtain s' where "EnqueuePoison api p Size v Origin devs ?s = Some s'" "origin_table s' = origin_table s"
     "device_type s' = device_type s" "CleanShadowSize s' = CleanShadowSize s"
     "\<forall>kind. (\<exists>d \<in> set devs. device_type s d = kind) \<or> marked kind p (p + Size - 1) v Origin (shadows ?s kind) \<longrightarrow>
        marked kind p (p + Size - 1) v Origin (shadows s' kind)"
    using Cons.IH [of ?s] by auto
  with sm(1,2) show ?case by (intro exI [of _ s']) auto
qed

text \<open>
  C18: A checked allocation of at least one byte, where neither the driver nor any other service fails (a failing one is
  not reported, see \<open>failed_poison_reported_as_success\<close>), the block lies in one area of the application's memory on
  every device concerned, all of these are CPU or PVC devices, and origins of the kind of memory are left to number: the
  allocation reports success, and every byte of the new block is marked uninitialised on every device
  concerned and carries an origin for which the report names the kind of memory and the stack of this
  allocation.
\<close>

theorem allocation_tracked:
  assumes "GetVirtualMemGranularity api = 2 ^ n" "n \<le> 55" "msan_services_ok api"
    and "Alignment AND (Alignment - 1) = 0" "allocate_raw api pfnExport Device Size t = Inr p" "heap_type_of t = Some ht"
    and "t \<in> {HOST_USM, SHARED_USM} \<longrightarrow> check"
    and "Size \<noteq> 0" "unat p + unat Size \<le> 2 ^ 64"
    and "\<forall>d \<in> set (case Device of Some d \<Rightarrow> [d] | None \<Rightarrow> DeviceList s).
           covers (device_type s d) p (p + Size - 1) (shadows s (device_type s d))"
    and "unat (NextIds (origin_table s) ht) < 2 ^ shift_of ht"
  shows "\<exists>s' Origin. msan_allocateMemory api pfnExport check Stack Device Alignment Size t s = Some (UR_RESULT_SUCCESS, Some p, s') \<and>
     snd (ReportUsesUninitializedValue none Origin (origin_table s')) = Some (ht, Stack) \<and>
     (\<forall>d \<in> set (case Device of Some d \<Rightarrow> [d] | None \<Rightarrow> DeviceList s). \<forall>a. unat p \<le> unat a \<and> unat a \<le> unat (p + Size - 1) \<longrightarrow>
        shadow_of (device_type s d) (shadows s' (device_type s d)) a = kMemUninitializedMagic \<and>
        origin_of (device_type s d) (shadows s' (device_type s d)) a = origin_bytes Origin)"
proof -
  let ?devs = "case Device of Some d \<Rightarrow> [d] | None \<Rightarrow> DeviceList s"
  let ?og = "origin_table s"
  define Origin where "Origin = type_bits ht OR NextIds ?og ht"
  define s2 where "s2 = s\<lparr>CleanShadowSize := max (CleanShadowSize s) Size, origin_table := snd (CreateHeapOrigin Stack ht ?og)\<rparr>"
  have heap: "getHeapType Origin = ht" "isHeapOrigin Origin"
    using getHeapType_create [OF assms(11)] by (simp_all add: Origin_def)
  then have "Origin \<noteq> 0" by (auto simp: isHeapOrigin_def origin_kind_tests)
  obtain s' where s': "EnqueuePoison api p Size kMemUninitializedMagic Origin ?devs s2 = Some s'" "origin_table s' = origin_table s2"
      "\<forall>kind. (\<exists>d \<in> set ?devs. device_type s d = kind) \<longrightarrow>
         marked kind p (p + Size - 1) kMemUninitializedMagic Origin (shadows s' kind)"
    using EnqueuePoison_marks [OF assms(1-3,8,9), of ?devs s2 kMemUninitializedMagic Origin] assms(10) by (auto simp: s2_def)
  have "msan_allocateMemory api pfnExport check Stack Device Alignment Size t s = Some (UR_RESULT_SUCCESS, Some p, s')"
    using assms(4-7) s'(1) CreateHeapOrigin_simps(1) [of Stack ht ?og]
    by (cases "CreateHeapOrigin Stack ht ?og")
      (auto simp: msan_allocateMemory_def Let_def s2_def Origin_def split: option.splits)
  moreover have "snd (ReportUsesUninitializedValue none Origin (origin_table s')) = Some (ht, Stack)"
    using heap \<open>Origin \<noteq> 0\<close> s'(2)
    by (simp add: ReportUsesUninitializedValue_def StackDepotGet_def Let_def s2_def Origin_def)
  ultimately show ?thesis
    using s'(3) \<open>Origin \<noteq> 0\<close> by (intro exI [of _ s'] exI [of _ Origin]) (auto simp: marked_def)
qed

definition msan_state_example :: "string msan_state" where
  "msan_state_example = \<lparr>origin_table = no_origins, CleanShadowSize = 1024, DeviceList = [0], device_type = (\<lambda>_. GPU_PVC),
     shadows = (\<lambda>_. pvc_example)\<rparr>"

theorem allocation_tracked_witness:
  "\<exists>s' Origin. msan_allocateMemory msan_api_example Inr True ''main'' (Some 0) 8 16 DEVICE_USM msan_state_example
        = Some (UR_RESULT_SUCCESS, Some 0xff00f00000000000, s') \<and>
     snd (ReportUsesUninitializedValue ''unknown'' Origin (origin_table s')) = Some (DeviceUSM, ''main'') \<and>
     shadow_of GPU_PVC (shadows s' GPU_PVC) 0xff00f00000000003 = kMemUninitializedMagic \<and>
     origin_of GPU_PVC (shadows s' GPU_PVC) 0xff00f00000000003 = origin_bytes Origin"
proof -
  have "\<exists>s' Origin. msan_allocateMemory msan_api_example Inr True ''main'' (Some 0) 8 16 DEVICE_USM msan_state_example
        = Some (UR_RESULT_SUCCESS, Some 0xff00f00000000000, s') \<and>
     snd (ReportUsesUninitializedValue ''unknown'' Origin (origin_table s')) = Some (DeviceUSM, ''main'') \<and>
     (\<forall>d \<in> set (case Some 0 of Some d \<Rightarrow> [d] | None \<Rightarrow> DeviceList msan_state_example).
       \<forall>a. unat (0xff00f00000000000 :: u64) \<le> unat a \<and> unat a \<le> unat (0xff00f00000000000 + 16 - 1 :: u64) \<longrightarrow>
        shadow_of (device_type msan_state_example d) (shadows s' (device_type msan_state_example d)) a = kMemUninitializedMagic \<and>
        origin_of (device_type msan_state_example d) (shadows s' (device_type msan_state_example d)) a = origin_bytes Origin)"
    by (rule allocation_tracked [where n = 21])
      (auto simp: example_services msan_state_example_def allocate_raw_def msan_api_example_def heap_type_of_def covers_def
        pages_ok_def recorded_def pvc_example_def new_msan_shadow_def has_origins_def area_defs no_origins_def shift_defs
        msan_services_ok_def intro!: exI [of _ Area3])
  then show ?thesis by (auto simp: msan_state_example_def)
qed

section \<open>What does not hold\<close>

text \<open>
  The comment in msan\_origin.hpp gives private origins four leading zeros; the test compares with
  8, so that it accepts the first device origins and rejects the origins the comment describes.
\<close>

theorem private_test_accepts_device:
  "isPrivateOrigin (fst (CreateHeapOrigin Stack DeviceUSM no_origins)) \<and> \<not> isPrivateOrigin 0x00000001 \<and>
   isChainedOrigin (fst (CreateHeapOrigin Stack HostUSM no_origins)) \<and> \<not> isChainedOrigin 0x10000001"
  by (simp add: isPrivateOrigin_def isChainedOrigin_def kDepthShift_def kDepthBits_def type_bits_def no_origins_def
      kDeviceUSMShift_def kHostUSMShift_def)

text \<open>A kind of memory without a heap kind is allocated before the error is returned, and not freed.\<close>

theorem unknown_kind_leaks:
  "msan_allocateMemory msan_api_example Inr True Stack (Some 0) 8 16 MEM_BUFFER s =
     Some (UR_RESULT_ERROR_UNKNOWN, Some 0xff00f00000000000, s\<lparr>CleanShadowSize := max (CleanShadowSize s) 16\<rparr>)"
  by (simp add: msan_allocateMemory_def allocate_raw_def SafeAllocate_def msan_api_example_def heap_type_of_def)

text \<open>The result of poisoning is dropped: without physical memory the allocation succeeds with no shadow.\<close>

definition no_pages_example :: msan_api where
  "no_pages_example = msan_api_example\<lparr>pfnPhysicalMemCreate := (\<lambda>_. UR_RESULT_ERROR_OUT_OF_RESOURCES)\<rparr>"

lemma no_pages_poison:
  "EnqueuePoisonShadowWithOrigin no_pages_example GPU_PVC 0xff00f00000000000 4 v og [] None pvc_example =
     Some (UR_RESULT_ERROR_OUT_OF_RESOURCES, None, pvc_example)"
proof -
  have "EnqueueVirtualMemMap no_pages_example 0xff00a00000000000 0xff00a00000000003 None [] pvc_example =
      Some (UR_RESULT_ERROR_OUT_OF_RESOURCES, [], pvc_example)"
    by (simp add: EnqueueVirtualMemMap_def no_pages_example_def example_services RoundDownTo_example vmem_map.simps
        pvc_example_def new_msan_shadow_def)
  then show ?thesis
    by (simp add: EnqueuePoisonShadowWithOrigin_def MsanPoison_GPU_def poison_shadow_part_def pvc_example_addresses Let_def)
qed

theorem failed_poison_reported_as_success:
  "\<exists>s'. msan_allocateMemory no_pages_example Inr True ''main'' (Some 0) 8 4 DEVICE_USM msan_state_example
      = Some (UR_RESULT_SUCCESS, Some 0xff00f00000000000, s') \<and>
     shadow_of GPU_PVC (shadows s' GPU_PVC) 0xff00f00000000000 = kMemInitializedMagic"
proof -
  have "pfnDeviceAlloc no_pages_example 4 = Inr 0xff00f00000000000"
    by (simp add: no_pages_example_def msan_api_example_def)
  moreover have "mem pvc_example = (\<lambda>_. 0)" by (simp add: pvc_example_def new_msan_shadow_def)
  ultimately show ?thesis
    by (simp add: msan_allocateMemory_def allocate_raw_def SafeAllocate_def heap_type_of_def Let_def case_prod_beta
        msan_state_example_def no_pages_poison shadow_of_def kMemInitializedMagic_def)
qed

end
