(* ===== verification/UR_Adapter_Common.thy ===== *)
theory UR_Adapter_Common
  imports UR_Util
begin

text \<open>
  Helpers the adapters share (source/ur/ur.hpp): returning a value of a query, and rounding the
  size of work groups so that it divides the global size.
\<close>

section \<open>Outcomes of a function of an adapter\<close>

text \<open>A function returns, or returns an error, or an exception leaves it, or it divides by zero.\<close>

datatype 'a outcome = Finished 'a | Failed ur_result | Escaped ur_result | Undefined

section \<open>Returning a value\<close>

text \<open>
  The two pointers of a query may be null: \<open>has_value\<close> and \<open>has_size\<close> say that they are not. The result is what is
  written to each.
\<close>

type_synonym 'v info_result = "ur_result + 'v option \<times> u64 option"

definition getInfoImpl :: "u64 \<Rightarrow> bool \<Rightarrow> bool \<Rightarrow> 'v \<Rightarrow> u64 \<Rightarrow> 'v info_result" where
  "getInfoImpl param_value_size has_value has_size val value_size =
     (if \<not> has_value \<and> \<not> has_size then Inl UR_RESULT_ERROR_INVALID_NULL_POINTER
      else if has_value \<and> param_value_size < value_size then Inl UR_RESULT_ERROR_INVALID_SIZE
      else Inr (if has_value then Some val else None, if has_size then Some value_size else None))"

text \<open>A scalar of type \<open>T\<close>, whose size is an argument here, an array of such, and the text of a string.\<close>

definition getInfo :: "u64 \<Rightarrow> u64 \<Rightarrow> bool \<Rightarrow> bool \<Rightarrow> 'v \<Rightarrow> 'v info_result" where
  "getInfo sizeof_T param_value_size has_value has_size v = getInfoImpl param_value_size has_value has_size v sizeof_T"

definition getInfoArray :: "u64 \<Rightarrow> u64 \<Rightarrow> u64 \<Rightarrow> bool \<Rightarrow> bool \<Rightarrow> 'v list \<Rightarrow> 'v list info_result" where
  "getInfoArray sizeof_T array_length param_value_size has_value has_size vs =
     getInfoImpl param_value_size has_value has_size (take (unat array_length) vs) (array_length * sizeof_T)"

definition getInfo_string :: "u64 \<Rightarrow> bool \<Rightarrow> bool \<Rightarrow> string \<Rightarrow> string info_result" where
  "getInfo_string param_value_size has_value has_size s =
     getInfoArray 1 (of_nat (length s) + 1) param_value_size has_value has_size (s @ [CHR 0x00])"

definition getInfoEmpty :: "u64 \<Rightarrow> bool \<Rightarrow> bool \<Rightarrow> unit info_result" where
  "getInfoEmpty param_value_size has_value has_size = getInfoImpl param_value_size has_value has_size () 0"

text \<open>
  The variant that converts the elements: it clears the memory of the application, writes the elements one after the other, with
  a 32-bit index, and does not look at the size. The memory written is a list of bytes, here with the converted elements as bytes.
\<close>

definition getInfoArray_convert :: "('v \<Rightarrow> u8 list) \<Rightarrow> u64 \<Rightarrow> u64 \<Rightarrow> u64 \<Rightarrow> bool \<Rightarrow> bool \<Rightarrow> 'v list \<Rightarrow> u8 list info_result" where
  "getInfoArray_convert to_ret sizeof_RetType array_length param_value_size has_value has_size vs =
     Inr (if has_value
          then Some (let new = concat (map to_ret (take (unat array_length) vs))
                     in new @ drop (length new) (replicate (unat param_value_size) 0))
          else None,
          if has_size then Some (array_length * sizeof_RetType) else None)"

section \<open>Work group sizes\<close>

function roundToHighestFactorOfGlobalSize :: "u64 \<Rightarrow> u64 \<Rightarrow> u64" where
  "roundToHighestFactorOfGlobalSize ThreadsPerBlockInDim GlobalWorkSizeInDim =
     (if ThreadsPerBlockInDim > 1 \<and> GlobalWorkSizeInDim mod ThreadsPerBlockInDim \<noteq> 0
      then roundToHighestFactorOfGlobalSize (ThreadsPerBlockInDim - 1) GlobalWorkSizeInDim
      else ThreadsPerBlockInDim)"
  by pat_completeness auto
termination
  by (relation "measure (\<lambda>(t, _). unat t)") (auto simp: unat_sub_if' word_less_nat_alt)

declare roundToHighestFactorOfGlobalSize.simps [simp del]

definition isPowerOf2 :: "u64 \<Rightarrow> bool" where
  "isPowerOf2 Value = (Value \<noteq> 0 \<and> Value AND (Value - 1) = 0)"

text \<open>The loop for the inner dimension; the decrement in its condition is of a number above 32.\<close>

function round_inner :: "u64 \<Rightarrow> u64 \<Rightarrow> u64" where
  "round_inner t g =
     (let t1 = roundToHighestFactorOfGlobalSize t g
      in if \<not> isPowerOf2 t1 \<and> t1 > 32 \<and> t1 - 1 \<noteq> 0 then round_inner (t1 - 1) g else t1)"
  by pat_completeness auto

lemma round_le: "roundToHighestFactorOfGlobalSize t g \<le> t"
proof (induction t g rule: roundToHighestFactorOfGlobalSize.induct)
  case (1 t g)
  show ?case
  proof (cases "t > 1 \<and> g mod t \<noteq> 0")
    case True
    have "t - 1 \<le> t" using True by (simp add: word_le_nat_alt unat_sub_if' word_less_nat_alt)
    then show ?thesis
      using 1[OF True] True by (subst roundToHighestFactorOfGlobalSize.simps) simp
  qed (auto simp: roundToHighestFactorOfGlobalSize.simps[of t])
qed

termination round_inner
proof (relation "measure (\<lambda>(t, _). unat t)")
  show "((t1 - 1, g), (t, g)) \<in> measure (\<lambda>(t, _). unat t)"
    if "t1 = roundToHighestFactorOfGlobalSize t g" "\<not> isPowerOf2 t1 \<and> t1 > 32 \<and> t1 - 1 \<noteq> 0" for t g t1
    using that round_le[of t g] by (auto simp: unat_sub_if' word_less_nat_alt word_le_nat_alt)
qed simp

declare round_inner.simps [simp del]

text \<open>The three sizes, from the global sizes, the greatest sizes of a block in each dimension and its greatest total size.\<close>

definition roundToHighestFactorOfGlobalSizeIn3d :: "u64 \<times> u64 \<times> u64 \<Rightarrow> u64 \<times> u64 \<times> u64 \<Rightarrow> u64 \<Rightarrow> u64 \<times> u64 \<times> u64" where
  "roundToHighestFactorOfGlobalSizeIn3d GlobalSize MaxBlockDim MaxBlockSize =
     (let (g0, g1, g2) = GlobalSize; (m0, m1, m2) = MaxBlockDim;
          t0 = round_inner (min g0 (min MaxBlockSize m0)) g0;
          t1 = roundToHighestFactorOfGlobalSize (min g1 (min (MaxBlockSize div t0) m1)) g1;
          t2 = roundToHighestFactorOfGlobalSize (min g2 (min (MaxBlockSize div (t1 * t0)) m2)) g2
      in (t0, t1, t2))"

section \<open>Properties\<close>

lemma getInfoImpl_two_calls:
  "getInfoImpl 0 False True v n = Inr (None, Some n) \<and> getInfoImpl n True False v n = Inr (Some v, None)"
  by (simp add: getInfoImpl_def)

lemma getInfoArray_convert_unchecked:
  "getInfoArray_convert (\<lambda>v. [v, 0]) 2 3 2 True False [1, 2, 3] = Inr (Some [1, 0, 2, 0, 3, 0], None)"
  by (simp add: getInfoArray_convert_def)

text \<open>The result is the greatest divisor of the global size not above the given size.\<close>

lemma round_divides:
  assumes "t \<noteq> 0"
  shows "unat (roundToHighestFactorOfGlobalSize t g) dvd unat g \<and> roundToHighestFactorOfGlobalSize t g \<noteq> 0 \<and>
    (\<forall>d. d dvd unat g \<and> d \<le> unat t \<longrightarrow> d \<le> unat (roundToHighestFactorOfGlobalSize t g))"
  using assms
proof (induction t g rule: roundToHighestFactorOfGlobalSize.induct)
  case (1 t g)
  show ?case
  proof (cases "t > 1 \<and> g mod t \<noteq> 0")
    case True
    then have t: "unat (t - 1) = unat t - 1" "t - 1 \<noteq> 0" "1 < unat t"
      by (auto simp: unat_sub_if' word_less_nat_alt)
    have "\<not> unat t dvd unat g"
      using True by (metis dvd_eq_mod_eq_0 unat_eq_zero unat_mod_distrib)
    then have "d \<le> unat t - 1" if "d dvd unat g" "d \<le> unat t" for d
      using that by (cases "d = unat t") auto
    then show ?thesis
      using 1(1)[OF True t(2)] True t(1) by (subst (1 2 3) roundToHighestFactorOfGlobalSize.simps) simp
  next
    case False
    have "unat t dvd unat g"
    proof (cases "t > 1")
      case True
      then have "g mod t = 0" using False by simp
      then have "unat (g mod t) = 0" by simp
      then show ?thesis by (simp add: dvd_eq_mod_eq_0 unat_mod_distrib)
    next
      case False
      then have "unat t = 1" using "1.prems" by (auto simp: word_less_nat_alt not_less) (metis le_antisym One_nat_def Suc_leI unat_gt_0)
      then show ?thesis by simp
    qed
    then show ?thesis
      using False "1.prems" by (subst (1 2 3) roundToHighestFactorOfGlobalSize.simps) auto
  qed
qed

lemma round_inner_divides:
  assumes "t \<noteq> 0"
  shows "unat (round_inner t g) dvd unat g \<and> round_inner t g \<noteq> 0 \<and> round_inner t g \<le> t \<and> (isPowerOf2 (round_inner t g) \<or> round_inner t g \<le> 32)"
  using assms
proof (induction t g rule: round_inner.induct)
  case (1 t g)
  let ?t = "roundToHighestFactorOfGlobalSize t g"
  note r = round_divides[OF "1.prems", of g] round_le[of t g]
  show ?case
  proof (cases "\<not> isPowerOf2 ?t \<and> ?t > 32 \<and> ?t - 1 \<noteq> 0")
    case True
    have e: "round_inner t g = round_inner (?t - 1) g" using True by (simp add: round_inner.simps[of t] Let_def)
    have "?t - 1 \<le> ?t" using True by (simp add: word_le_nat_alt unat_sub_if' word_less_nat_alt)
    then show ?thesis
      using 1(1)[OF refl True] True r(2) unfolding e by (auto intro: order_trans)
  next
    case False
    have e: "round_inner t g = ?t" using False by (auto simp: round_inner.simps[of t] Let_def)
    have "isPowerOf2 ?t \<or> ?t \<le> 32" using False by auto
    then show ?thesis using r unfolding e by simp
  qed
qed

lemma unat_div_pos:
  assumes "(t :: u64) \<noteq> 0" "t \<le> m"
  shows "m div t \<noteq> 0"
proof
  assume "m div t = 0"
  then have "unat m div unat t = 0" by (simp add: unat_div_distrib[symmetric])
  then show False using assms by (simp add: div_eq_0_iff word_le_nat_alt unat_eq_zero)
qed

lemma le_div_mult: "a \<le> m div b \<Longrightarrow> a * b \<le> (m :: nat)"
  using mult_le_mono1[of a "m div b" b] div_times_less_eq_dividend[of m b] by linarith

lemma min3_nz: "(g :: u64) \<noteq> 0 \<Longrightarrow> a \<noteq> 0 \<Longrightarrow> m \<noteq> 0 \<Longrightarrow> min g (min a m) \<noteq> 0"
  unfolding min_def by presburger

lemma min3_le: "(t :: u64) \<le> min g (min a m) \<Longrightarrow> t \<le> a \<and> t \<le> m"
  unfolding min.bounded_iff by (rule conjI) (rule conjunct1, erule conjunct2, rule conjunct2, erule conjunct2)

lemma round_min:
  assumes "g \<noteq> 0" "a \<noteq> 0" "m \<noteq> 0" "t = roundToHighestFactorOfGlobalSize (min g (min a m)) g"
  shows "unat t dvd unat g" "t \<noteq> 0" "t \<le> m" "t \<le> a"
  using round_divides[OF min3_nz[OF assms(1-3)], of g, folded assms(4)] min3_le[OF round_le[of "min g (min a m)" g, folded assms(4)]]
  by blast+

text \<open>
  The block sizes the CUDA and HIP adapters choose by themselves, for global sizes and limits
  that are not zero: each divides the global size in its dimension and is within the limit of the dimension, no one is
  zero, the number of threads of a block is within the limit for a block, and the inner size is a power of two or at
  most 32.\<close>

theorem block_sizes_fit:
  assumes g: "g0 \<noteq> 0" "g1 \<noteq> 0" "g2 \<noteq> 0" and m: "m0 \<noteq> 0" "m1 \<noteq> 0" "m2 \<noteq> 0" "M \<noteq> 0"
    and r: "roundToHighestFactorOfGlobalSizeIn3d (g0, g1, g2) (m0, m1, m2) M = (t0, t1, t2)"
  shows "unat t0 dvd unat g0 \<and> unat t1 dvd unat g1 \<and> unat t2 dvd unat g2 \<and> t0 \<noteq> 0 \<and> t1 \<noteq> 0 \<and> t2 \<noteq> 0 \<and>
    t0 \<le> m0 \<and> t1 \<le> m1 \<and> t2 \<le> m2 \<and> unat t0 * unat t1 * unat t2 \<le> unat M \<and> (isPowerOf2 t0 \<or> t0 \<le> 32)"
proof -
  note eqs = r[unfolded roundToHighestFactorOfGlobalSizeIn3d_def Let_def prod.case prod.inject]
  have t0: "t0 = round_inner (min g0 (min M m0)) g0"
    by (rule eqs[THEN conjunct1, symmetric])
  have t1: "t1 = roundToHighestFactorOfGlobalSize (min g1 (min (M div t0) m1)) g1"
    unfolding t0 by (rule eqs[THEN conjunct2, THEN conjunct1, symmetric])
  have t2: "t2 = roundToHighestFactorOfGlobalSize (min g2 (min (M div (t1 * t0)) m2)) g2"
    unfolding t1 t0 by (rule eqs[THEN conjunct2, THEN conjunct2, symmetric])
  note ri = round_inner_divides[OF min3_nz[OF g(1) m(4,1)], of g0, folded t0]
  have 0: "t0 \<noteq> 0" "t0 \<le> M" "t0 \<le> m0"
    using ri min3_le[of t0 g0 M m0] by blast+
  note 1 = round_min[OF g(2) unat_div_pos[OF 0(1,2)] m(2) t1]
  have "unat t1 \<le> unat M div unat t0" using 1(4) by (simp add: word_le_nat_alt unat_div_distrib)
  then have le: "unat t1 * unat t0 \<le> unat M" by (rule le_div_mult)
  then have eq: "unat (t1 * t0) = unat t1 * unat t0"
    using unsigned_less[where ?'a = nat and w = M] by (simp add: unat_word_ariths(2))
  have "unat (t1 * t0) \<noteq> 0"
    using 0(1) 1(2) by (simp only: eq mult_is_0 unat_eq_zero simp_thms)
  then have nz: "t1 * t0 \<noteq> 0" by (simp only: unat_eq_zero simp_thms)
  have nle: "t1 * t0 \<le> M" using le by (simp only: word_le_nat_alt eq)
  note 2 = round_min[OF g(3) unat_div_pos[OF nz nle] m(3) t2]
  have "unat t2 \<le> unat M div (unat t1 * unat t0)" using 2(4) eq by (simp add: word_le_nat_alt unat_div_distrib)
  then have "unat t2 * (unat t1 * unat t0) \<le> unat M" by (rule le_div_mult)
  then have "unat t0 * unat t1 * unat t2 \<le> unat M" by (simp add: ac_simps)
  then show ?thesis using ri 0(1,3) 1(1-3) 2(1-3) by (simp only: simp_thms)
qed

text \<open>The inner size is not always a power of two.\<close>

lemma inner_size_24: "roundToHighestFactorOfGlobalSizeIn3d (24, 2, 1) (1024, 1024, 64) 1024 = (24, 2, 1) \<and> \<not> isPowerOf2 24"
proof -
  have r: "roundToHighestFactorOfGlobalSize 24 24 = 24" "roundToHighestFactorOfGlobalSize 2 2 = 2" "roundToHighestFactorOfGlobalSize 1 1 = 1"
    by (subst roundToHighestFactorOfGlobalSize.simps, simp)+
  then have i: "round_inner 24 24 = 24"
    by (subst round_inner.simps) simp
  have m: "min 24 (min 1024 1024) = (24 :: u64)" "min 2 (min (1024 div 24) 1024) = (2 :: u64)" "min 1 (min (1024 div (2 * 24)) 64) = (1 :: u64)"
    by code_simp+
  show ?thesis
    by (simp only: roundToHighestFactorOfGlobalSizeIn3d_def Let_def prod.case m r i simp_thms) (simp add: isPowerOf2_def)
qed

theorem block_sizes_fit_witness:
  "roundToHighestFactorOfGlobalSizeIn3d (24, 2, 1) (1024, 1024, 64) 1024 = (24, 2, 1) \<and>
   unat (24 :: u64) dvd unat (24 :: u64) \<and> unat (24 :: u64) * unat (2 :: u64) * unat (1 :: u64) \<le> unat (1024 :: u64)"
proof -
  have "(24 :: u64) \<noteq> 0" "(2 :: u64) \<noteq> 0" "(1 :: u64) \<noteq> 0" "(1024 :: u64) \<noteq> 0" "(64 :: u64) \<noteq> 0" by simp_all
  from block_sizes_fit[OF this(1-4,4,5,4) inner_size_24[THEN conjunct1]] inner_size_24 show ?thesis by blast
qed

end
