(* ===== verification/San_Buffer.thy ===== *)
theory San_Buffer
  imports San_Common UR_Adapter_Common "HOL-Library.AList"
begin

text \<open>
  Buffers of the address sanitizer (layers/sanitizer/asan/asan_buffer.cpp and .hpp, and the entry points
  for memory objects in asan_ddi.cpp). The layer replaces a buffer by one allocation for each device
  and moves the data when another device uses the buffer. Memory the layer allocates consists of
  numbered blocks, and memory of the application is a function of addresses. In this theory a command of an entry point takes effect
  when it is enqueued, which is right for blocking calls and for queues that finish their work before the next call; the wait lists and the events of the
  entry points are not there. The theory on pending commands has the calls
  whose commands take effect later. The copies \<open>getHandle\<close> makes are always blocking in the code. A copy reads all of its source
  first. Every call into the adapter and the interceptor may fail: the parameter sees the number of
  the call. Locks are not modelled.
\<close>

section \<open>State\<close>

datatype ptr = User u64 | Block nat u64

fun ptr_add :: "ptr \<Rightarrow> u64 \<Rightarrow> ptr" where
  "ptr_add (User a) n = User (a + n)"
| "ptr_add (Block blk off) n = Block blk (off + n)"

text \<open>
  \<open>Allocations\<close> maps a device, or \<open>None\<close> for the host, to a block; an entry that \<open>operator[]\<close> made
  and nothing filled is null. \<open>SubBuffer\<close> has the number of the parent object and the origin.
\<close>

record mem_buffer =
  Allocations :: "(nat option \<times> nat option) list"
  Mappings :: "(ptr \<times> (u64 \<times> u64)) list"
  LastSyncedDevice :: "(nat \<times> nat) option"
  Size :: u64
  HostPtr :: "u64 option"
  SubBuffer :: "(nat \<times> u64) option"
  RefCount :: int

definition MemBuffer :: "u64 \<Rightarrow> u64 option \<Rightarrow> mem_buffer" where
  "MemBuffer n host = \<lparr>Allocations = [], Mappings = [], LastSyncedDevice = None, Size = n, HostPtr = host,
     SubBuffer = None, RefCount = 1\<rparr>"

definition MemBuffer_sub :: "nat \<Rightarrow> u64 \<Rightarrow> u64 \<Rightarrow> mem_buffer" where
  "MemBuffer_sub Parent Origin n = \<lparr>Allocations = [], Mappings = [], LastSyncedDevice = None, Size = n,
     HostPtr = None, SubBuffer = Some (Parent, Origin), RefCount = 1\<rparr>"

text \<open>
  \<open>objects\<close> are all buffers made so far, which the shared pointers of sub-buffers may keep alive, and
  \<open>m_MemBufferMap\<close> holds the numbers of those the layer knows by their handles. \<open>bad_frees\<close> counts the
  bad-free errors the layer has reported. \<open>Events\<close> are the events of copies that
  no one has released, \<open>DeferredEvents\<close> those the context releases later.
\<close>

record world =
  objects :: "mem_buffer list"
  m_MemBufferMap :: "nat list"
  cells :: "nat \<Rightarrow> u64 \<Rightarrow> u8"
  user :: "u64 \<Rightarrow> u8"
  next_block :: nat
  released :: "nat list"
  bad_frees :: nat
  next_event :: nat
  Events :: "nat list"
  DeferredEvents :: "nat list"
  calls :: nat

text \<open>
  What the layer calls: the interceptor's allocation and release (modelled in their own theory), the
  copies and fills of the adapter, the functions of the adapter for objects the layer does not know, and
  which functions the adapter has. \<open>Devices\<close> are the devices of the context.
\<close>

record buffer_api =
  allocateMemory :: "nat \<Rightarrow> nat option \<Rightarrow> u64 \<Rightarrow> u64 \<Rightarrow> ur_result"
  pfnFree :: "nat \<Rightarrow> ur_result"
  pfnUSMMemcpy :: "nat \<Rightarrow> ur_result"
  pfnUSMFill :: "nat \<Rightarrow> ur_result"
  pfnEventsWait :: "nat \<Rightarrow> ur_result"
  pfnMem :: "nat \<Rightarrow> ur_result"
  has_pfn :: "string \<Rightarrow> bool"
  Devices :: "nat list"
  HaltOnError :: bool

section \<open>Calls that may fail\<close>

text \<open>A call returns an error code or a value; \<open>None\<close> is a call that does not return.\<close>

type_synonym 'a act = "world \<Rightarrow> ((ur_result + 'a) \<times> world) option"

definition ret :: "'a \<Rightarrow> 'a act" where
  "ret v w = Some (Inr v, w)"

definition throw :: "ur_result \<Rightarrow> 'a act" where
  "throw r w = Some (Inl r, w)"

definition UR_CALL :: "'a act \<Rightarrow> ('a \<Rightarrow> 'b act) \<Rightarrow> 'b act" where
  "UR_CALL m k w = Option.bind (m w) (\<lambda>(r, w'). case r of Inl e \<Rightarrow> Some (Inl e, w') | Inr v \<Rightarrow> k v w')"

definition UR_ASSERT :: "bool \<Rightarrow> ur_result \<Rightarrow> unit act" where
  "UR_ASSERT c r = (if c then ret () else throw r)"

definition with_world :: "(world \<Rightarrow> 'a act) \<Rightarrow> 'a act" where
  "with_world k w = k w w"

definition modify :: "(world \<Rightarrow> world) \<Rightarrow> unit act" where
  "modify g w = Some (Inr (), g w)"

definition upd_buf :: "nat \<Rightarrow> (mem_buffer \<Rightarrow> mem_buffer) \<Rightarrow> world \<Rightarrow> world" where
  "upd_buf b g w = w\<lparr>objects := (objects w)[b := g (objects w ! b)]\<rparr>"

definition driver_call :: "(nat \<Rightarrow> ur_result) \<Rightarrow> unit act" where
  "driver_call res w =
     (if res (calls w) = UR_RESULT_SUCCESS then Some (Inr (), w\<lparr>calls := calls w + 1\<rparr>)
      else Some (Inl (res (calls w)), w\<lparr>calls := calls w + 1\<rparr>))"

section \<open>Memory\<close>

definition load :: "world \<Rightarrow> ptr \<Rightarrow> u8" where
  "load w p = (case p of User a \<Rightarrow> user w a | Block blk off \<Rightarrow> cells w blk off)"

definition bytes_at :: "world \<Rightarrow> ptr \<Rightarrow> u64 \<Rightarrow> u8 list" where
  "bytes_at w p n = map (\<lambda>i. load w (ptr_add p (of_nat i))) [0..<unat n]"

definition write_bytes :: "u64 \<Rightarrow> u8 list \<Rightarrow> (u64 \<Rightarrow> u8) \<Rightarrow> u64 \<Rightarrow> u8" where
  "write_bytes a bs f x = (if unat (x - a) < length bs then bs ! unat (x - a) else f x)"

definition store :: "ptr \<Rightarrow> u8 list \<Rightarrow> world \<Rightarrow> world" where
  "store p bs w =
     (case p of
        User a \<Rightarrow> w\<lparr>user := write_bytes a bs (user w)\<rparr>
      | Block blk off \<Rightarrow> w\<lparr>cells := (cells w)(blk := write_bytes off bs (cells w blk))\<rparr>)"

definition USMMemcpy :: "buffer_api \<Rightarrow> ptr \<Rightarrow> ptr \<Rightarrow> u64 \<Rightarrow> unit act" where
  "USMMemcpy api dst src n =
     UR_CALL (driver_call (pfnUSMMemcpy api)) (\<lambda>_. modify (\<lambda>w. store dst (bytes_at w src n) w))"

text \<open>The pattern is repeated; the size is a multiple of its length.\<close>

definition fill_bytes :: "u8 list \<Rightarrow> u64 \<Rightarrow> u8 list" where
  "fill_bytes pattern n = map (\<lambda>i. pattern ! (i mod length pattern)) [0..<unat n]"

definition USMFill :: "buffer_api \<Rightarrow> ptr \<Rightarrow> u8 list \<Rightarrow> u64 \<Rightarrow> unit act" where
  "USMFill api dst pattern n =
     UR_CALL (driver_call (pfnUSMFill api)) (\<lambda>_. modify (store dst (fill_bytes pattern n)))"

text \<open>The rows of a two-dimensional copy, one after the other.\<close>

fun copy_rows :: "ptr \<Rightarrow> u64 \<Rightarrow> ptr \<Rightarrow> u64 \<Rightarrow> u64 \<Rightarrow> nat \<Rightarrow> world \<Rightarrow> world" where
  "copy_rows dst dstPitch src srcPitch width 0 w = w"
| "copy_rows dst dstPitch src srcPitch width (Suc h) w =
     copy_rows (ptr_add dst dstPitch) dstPitch (ptr_add src srcPitch) srcPitch width h
       (store dst (bytes_at w src width) w)"

definition USMMemcpy2D :: "buffer_api \<Rightarrow> ptr \<Rightarrow> u64 \<Rightarrow> ptr \<Rightarrow> u64 \<Rightarrow> u64 \<Rightarrow> u64 \<Rightarrow> nat act" where
  "USMMemcpy2D api dst dstPitch src srcPitch width height =
     UR_CALL (driver_call (pfnUSMMemcpy api)) (\<lambda>_. with_world (\<lambda>w.
     UR_CALL (modify (\<lambda>w. (copy_rows dst dstPitch src srcPitch width (unat height) w)
        \<lparr>next_event := next_event w + 1, Events := Events w @ [next_event w]\<rparr>)) (\<lambda>_.
     ret (next_event w))))"

text \<open>A new block for a device or the host, with a size and an alignment and the contents the memory happens to have.\<close>

definition alloc_block :: "buffer_api \<Rightarrow> nat option \<Rightarrow> u64 \<Rightarrow> u64 \<Rightarrow> nat act" where
  "alloc_block api k n align =
     UR_CALL (driver_call (\<lambda>c. allocateMemory api c k n align)) (\<lambda>_. with_world (\<lambda>w.
     UR_CALL (modify (\<lambda>w. w\<lparr>next_block := next_block w + 1\<rparr>)) (\<lambda>_. ret (next_block w))))"

text \<open>
  Release through the interceptor: of a null pointer it reports an error, and ends the process when that
  is configured.
\<close>

definition release_pointer :: "buffer_api \<Rightarrow> nat option \<Rightarrow> unit act" where
  "release_pointer api p w =
     (case p of
        None \<Rightarrow> if HaltOnError api then None else Some (Inr (), w\<lparr>bad_frees := bad_frees w + 1\<rparr>)
      | Some blk \<Rightarrow> UR_CALL (driver_call (pfnFree api)) (\<lambda>_. modify (\<lambda>w. w\<lparr>released := released w @ [blk]\<rparr>)) w)"

section \<open>Buffers\<close>

text \<open>\<open>__builtin_clzl\<close> is undefined for 0; buffers are not empty.\<close>

definition getAlignment :: "u64 \<Rightarrow> u64" where
  "getAlignment n =
     (let MsbIdx = log2_floor (unat n); Alignment = push_bit (MsbIdx + 1) 1
      in if Alignment > 128 then 128 else Alignment)"

definition entry :: "nat option \<Rightarrow> mem_buffer \<Rightarrow> nat option" where
  "entry k buf = (case map_of (Allocations buf) k of Some (Some blk) \<Rightarrow> Some blk | _ \<Rightarrow> None)"

definition set_entry :: "nat option \<Rightarrow> nat option \<Rightarrow> mem_buffer \<Rightarrow> mem_buffer" where
  "set_entry k v buf = buf\<lparr>Allocations := AList.update k v (Allocations buf)\<rparr>"

text \<open>\<open>auto &Allocation = Allocations[Device]\<close>, and the allocation if it is null. The result is the block and whether it is new.\<close>

definition ensure_allocation :: "buffer_api \<Rightarrow> nat \<Rightarrow> nat option \<Rightarrow> (nat \<times> bool) act" where
  "ensure_allocation api b k = with_world (\<lambda>w.
     case entry k (objects w ! b) of
       Some blk \<Rightarrow> ret (blk, False)
     | None \<Rightarrow>
         UR_CALL (modify (upd_buf b (set_entry k None))) (\<lambda>_.
         UR_CALL (alloc_block api k (Size (objects w ! b)) (getAlignment (Size (objects w ! b)))) (\<lambda>blk.
         UR_CALL (modify (upd_buf b (set_entry k (Some blk)))) (\<lambda>_.
         ret (blk, True)))))"

definition copy_host_data :: "buffer_api \<Rightarrow> nat \<Rightarrow> nat \<Rightarrow> bool \<Rightarrow> unit act" where
  "copy_host_data api b blk fresh = with_world (\<lambda>w.
     case HostPtr (objects w ! b) of
       Some host \<Rightarrow> if fresh then USMMemcpy api (Block blk 0) (User host) (Size (objects w ! b)) else ret ()
     | None \<Rightarrow> ret ())"

definition migrate :: "buffer_api \<Rightarrow> nat \<Rightarrow> nat \<Rightarrow> nat \<Rightarrow> unit act" where
  "migrate api b lastBlk blk = with_world (\<lambda>w.
     UR_CALL (ensure_allocation api b None) (\<lambda>(hostBlk, _).
     UR_CALL (USMMemcpy api (Block hostBlk 0) (Block lastBlk 0) (Size (objects w ! b))) (\<lambda>_.
     USMMemcpy api (Block blk 0) (Block hostBlk 0) (Size (objects w ! b)))))"

definition sync_device :: "buffer_api \<Rightarrow> nat \<Rightarrow> nat \<Rightarrow> nat \<Rightarrow> unit act" where
  "sync_device api b dev blk = with_world (\<lambda>w.
     case LastSyncedDevice (objects w ! b) of
       None \<Rightarrow> ret ()
     | Some (lastDev, lastBlk) \<Rightarrow> if dev \<noteq> lastDev then migrate api b lastBlk blk else ret ())"

definition allocate_device :: "buffer_api \<Rightarrow> nat \<Rightarrow> nat \<Rightarrow> nat act" where
  "allocate_device api b dev =
     UR_CALL (ensure_allocation api b (Some dev)) (\<lambda>(blk, fresh).
     UR_CALL (copy_host_data api b blk fresh) (\<lambda>_. ret blk))"

definition getHandle_device :: "buffer_api \<Rightarrow> nat \<Rightarrow> nat \<Rightarrow> ptr act" where
  "getHandle_device api dev b =
     UR_CALL (allocate_device api b dev) (\<lambda>blk.
     UR_CALL (sync_device api b dev blk) (\<lambda>_.
     UR_CALL (modify (upd_buf b (\<lambda>buf. buf\<lparr>LastSyncedDevice := Some (dev, blk)\<rparr>))) (\<lambda>_.
     ret (Block blk 0))))"

definition getHandle_root :: "buffer_api \<Rightarrow> nat option \<Rightarrow> nat \<Rightarrow> ptr act" where
  "getHandle_root api Device b = getHandle_device api (case Device of Some d \<Rightarrow> d | None \<Rightarrow> hd (Devices api)) b"

partial_function (option) getHandle :: "buffer_api \<Rightarrow> nat option \<Rightarrow> nat \<Rightarrow> world \<Rightarrow> ((ur_result + ptr) \<times> world) option" where
  "getHandle api Device b w =
     (case SubBuffer (objects w ! b) of
        Some (Parent, Origin) \<Rightarrow>
          Option.bind (getHandle api Device Parent w)
            (\<lambda>(r, w1). Some (case r of Inl e \<Rightarrow> Inl e | Inr h \<Rightarrow> Inr (ptr_add h Origin), w1))
      | None \<Rightarrow> getHandle_root api Device b w)"

text \<open>\<open>MemBuffer::free\<close>, with the entries in the order they were made.\<close>

fun free_entries :: "buffer_api \<Rightarrow> (nat option \<times> nat option) list \<Rightarrow> unit act" where
  "free_entries api [] = ret ()"
| "free_entries api ((_, p) # es) = UR_CALL (release_pointer api p) (\<lambda>_. free_entries api es)"

definition MemBuffer_free :: "buffer_api \<Rightarrow> nat \<Rightarrow> unit act" where
  "MemBuffer_free api b = with_world (\<lambda>w.
     UR_CALL (free_entries api (Allocations (objects w ! b))) (\<lambda>_.
     modify (upd_buf b (\<lambda>buf. buf\<lparr>Allocations := []\<rparr>))))"

section \<open>Entry points\<close>

text \<open>The first two tests of an entry point: the adapter has the function, and the object is one the layer knows.\<close>

definition need_pfn :: "buffer_api \<Rightarrow> string \<Rightarrow> unit act" where
  "need_pfn api name = UR_ASSERT (has_pfn api name) UR_RESULT_ERROR_UNSUPPORTED_FEATURE"

definition known :: "nat \<Rightarrow> world \<Rightarrow> bool" where
  "known b w \<longleftrightarrow> b \<in> set (m_MemBufferMap w)"

definition intercept :: "buffer_api \<Rightarrow> string \<Rightarrow> nat \<Rightarrow> unit act \<Rightarrow> unit act" where
  "intercept api name b m =
     UR_CALL (need_pfn api name) (\<lambda>_. with_world (\<lambda>w. if known b w then m else driver_call (pfnMem api)))"

definition insertMemBuffer :: "nat \<Rightarrow> world \<Rightarrow> world" where
  "insertMemBuffer b w = w\<lparr>m_MemBufferMap := b # m_MemBufferMap w\<rparr>"

definition eraseMemBuffer :: "nat \<Rightarrow> world \<Rightarrow> world" where
  "eraseMemBuffer b w = w\<lparr>m_MemBufferMap := removeAll b (m_MemBufferMap w)\<rparr>"

text \<open>The loop over the devices of the context that copies the host data.\<close>

fun copy_to_devices :: "buffer_api \<Rightarrow> nat \<Rightarrow> u64 \<Rightarrow> u64 \<Rightarrow> nat list \<Rightarrow> unit act" where
  "copy_to_devices api b Host n [] = ret ()"
| "copy_to_devices api b Host n (hDevice # ds) =
     UR_CALL (getHandle api (Some hDevice) b) (\<lambda>Handle.
     UR_CALL (USMMemcpy api Handle (User Host) n) (\<lambda>_.
     copy_to_devices api b Host n ds))"

text \<open>
  The flags are the two the code tests, \<open>UR_MEM_FLAG_USE_HOST_POINTER\<close> and
  \<open>UR_MEM_FLAG_ALLOC_COPY_HOST_POINTER\<close>; \<open>Host\<close> is the pointer of the properties.
\<close>

definition urMemBufferCreate :: "buffer_api \<Rightarrow> bool \<Rightarrow> bool \<Rightarrow> u64 \<Rightarrow> u64 option \<Rightarrow> bool \<Rightarrow> nat act" where
  "urMemBufferCreate api use_host alloc_copy n Host phBuffer =
     UR_CALL (need_pfn api ''pfnBufferCreate'') (\<lambda>_.
     UR_CALL (UR_ASSERT phBuffer UR_RESULT_ERROR_INVALID_NULL_POINTER) (\<lambda>_. with_world (\<lambda>w0.
     let b = length (objects w0); hostPtrOrNull = (if use_host then Host else None)
     in UR_CALL (modify (\<lambda>w. w\<lparr>objects := objects w @ [MemBuffer n hostPtrOrNull]\<rparr>)) (\<lambda>_.
        UR_CALL (case Host of
                   Some h \<Rightarrow> if alloc_copy then copy_to_devices api b h n (Devices api) else ret ()
                 | None \<Rightarrow> ret ()) (\<lambda>_.
        UR_CALL (modify (insertMemBuffer b)) (\<lambda>_.
        ret b))))))"

datatype mem_info = UR_MEM_INFO_CONTEXT | UR_MEM_INFO_SIZE | UR_MEM_INFO_OTHER

datatype mem_info_value = Info_context nat | Info_size u64

definition of_info :: "'v info_result \<Rightarrow> ('v option \<times> u64 option) act" where
  "of_info r = (case r of Inl e \<Rightarrow> throw e | Inr v \<Rightarrow> ret v)"

text \<open>Handles and sizes have 8 bytes. The layer answers two queries for its buffers; the result \<open>None\<close> is the answer of the adapter.\<close>

definition urMemGetInfo :: "buffer_api \<Rightarrow> nat \<Rightarrow> nat \<Rightarrow> mem_info \<Rightarrow> u64 \<Rightarrow> bool \<Rightarrow> bool \<Rightarrow> (mem_info_value option \<times> u64 option) option act" where
  "urMemGetInfo api Context hMemory propName propSize has_value has_size =
     UR_CALL (need_pfn api ''pfnGetInfo'') (\<lambda>_. with_world (\<lambda>w.
     if known hMemory w
     then (case propName of
             UR_MEM_INFO_CONTEXT \<Rightarrow> UR_CALL (of_info (getInfo 8 propSize has_value has_size (Info_context Context))) (\<lambda>v. ret (Some v))
           | UR_MEM_INFO_SIZE \<Rightarrow>
               UR_CALL (of_info (getInfo 8 propSize has_value has_size (Info_size (Size (objects w ! hMemory))))) (\<lambda>v. ret (Some v))
           | UR_MEM_INFO_OTHER \<Rightarrow> throw UR_RESULT_ERROR_UNSUPPORTED_ENUMERATION)
     else UR_CALL (driver_call (pfnMem api)) (\<lambda>_. ret None)))"

definition urMemRetain :: "buffer_api \<Rightarrow> nat \<Rightarrow> unit act" where
  "urMemRetain api hMem =
     intercept api ''pfnRetain'' hMem (modify (upd_buf hMem (\<lambda>buf. buf\<lparr>RefCount := RefCount buf + 1\<rparr>)))"

definition urMemRelease :: "buffer_api \<Rightarrow> nat \<Rightarrow> unit act" where
  "urMemRelease api hMem =
     intercept api ''pfnRelease'' hMem
       (UR_CALL (modify (upd_buf hMem (\<lambda>buf. buf\<lparr>RefCount := RefCount buf - 1\<rparr>))) (\<lambda>_. with_world (\<lambda>w.
        if RefCount (objects w ! hMem) \<noteq> 0 then ret ()
        else UR_CALL (MemBuffer_free api hMem) (\<lambda>_. modify (eraseMemBuffer hMem)))))"

text \<open>The addition of origin and size is one of 64-bit words. The result is the handle, \<open>None\<close> one of the adapter.\<close>

definition urMemBufferPartition :: "buffer_api \<Rightarrow> nat \<Rightarrow> u64 \<Rightarrow> u64 \<Rightarrow> nat option act" where
  "urMemBufferPartition api hBuffer origin n =
     UR_CALL (need_pfn api ''pfnBufferPartition'') (\<lambda>_. with_world (\<lambda>w.
     if known hBuffer w
     then UR_CALL (UR_ASSERT (\<not> Size (objects w ! hBuffer) < origin + n) UR_RESULT_ERROR_INVALID_BUFFER_SIZE) (\<lambda>_.
          UR_CALL (modify (\<lambda>w. w\<lparr>objects := objects w @ [MemBuffer_sub hBuffer origin n]\<rparr>)) (\<lambda>_.
          UR_CALL (modify (insertMemBuffer (length (objects w)))) (\<lambda>_.
          ret (Some (length (objects w))))))
     else UR_CALL (driver_call (pfnMem api)) (\<lambda>_. ret None)))"

definition urMemGetNativeHandle :: "buffer_api \<Rightarrow> nat \<Rightarrow> nat option \<Rightarrow> ptr option act" where
  "urMemGetNativeHandle api hMem hDevice =
     UR_CALL (need_pfn api ''pfnGetNativeHandle'') (\<lambda>_. with_world (\<lambda>w.
     if known hMem w then UR_CALL (getHandle api hDevice hMem) (\<lambda>Handle. ret (Some Handle))
     else UR_CALL (driver_call (pfnMem api)) (\<lambda>_. ret None)))"

text \<open>A queue is given by its device.\<close>

definition urEnqueueMemBufferRead :: "buffer_api \<Rightarrow> nat \<Rightarrow> nat \<Rightarrow> u64 \<Rightarrow> u64 \<Rightarrow> ptr \<Rightarrow> unit act" where
  "urEnqueueMemBufferRead api Device hBuffer offset n pDst =
     intercept api ''pfnMemBufferRead'' hBuffer
       (UR_CALL (getHandle api (Some Device) hBuffer) (\<lambda>pSrc.
        USMMemcpy api pDst (ptr_add pSrc offset) n))"

definition urEnqueueMemBufferWrite :: "buffer_api \<Rightarrow> nat \<Rightarrow> nat \<Rightarrow> u64 \<Rightarrow> u64 \<Rightarrow> ptr \<Rightarrow> unit act" where
  "urEnqueueMemBufferWrite api Device hBuffer offset n pSrc =
     intercept api ''pfnMemBufferWrite'' hBuffer
       (UR_CALL (getHandle api (Some Device) hBuffer) (\<lambda>pDst.
        USMMemcpy api (ptr_add pDst offset) pSrc n))"

definition urEnqueueMemBufferFill :: "buffer_api \<Rightarrow> nat \<Rightarrow> nat \<Rightarrow> u8 list \<Rightarrow> u64 \<Rightarrow> u64 \<Rightarrow> unit act" where
  "urEnqueueMemBufferFill api Device hBuffer pattern offset n =
     intercept api ''pfnMemBufferFill'' hBuffer
       (UR_CALL (getHandle api (Some Device) hBuffer) (\<lambda>Handle.
        USMFill api (ptr_add Handle offset) pattern n))"

text \<open>The two copies between buffers check that the layer knows both buffers or neither.\<close>

definition intercept2 :: "buffer_api \<Rightarrow> string \<Rightarrow> nat \<Rightarrow> nat \<Rightarrow> unit act \<Rightarrow> unit act" where
  "intercept2 api name s d m =
     UR_CALL (need_pfn api name) (\<lambda>_. with_world (\<lambda>w.
     UR_CALL (UR_ASSERT (known s w \<and> known d w \<or> \<not> known s w \<and> \<not> known d w) UR_RESULT_ERROR_INVALID_MEM_OBJECT) (\<lambda>_.
     if known s w \<and> known d w then m else driver_call (pfnMem api))))"

definition urEnqueueMemBufferCopy :: "buffer_api \<Rightarrow> nat \<Rightarrow> nat \<Rightarrow> nat \<Rightarrow> u64 \<Rightarrow> u64 \<Rightarrow> u64 \<Rightarrow> unit act" where
  "urEnqueueMemBufferCopy api Device hBufferSrc hBufferDst srcOffset dstOffset n =
     intercept2 api ''pfnMemBufferCopy'' hBufferSrc hBufferDst
       (UR_CALL (getHandle api (Some Device) hBufferSrc) (\<lambda>SrcHandle.
        UR_CALL (getHandle api (Some Device) hBufferDst) (\<lambda>DstHandle.
        USMMemcpy api (ptr_add DstHandle dstOffset) (ptr_add SrcHandle srcOffset) n)))"

record rect_offset = offs_x :: u64  offs_y :: u64  offs_z :: u64
record rect_region = region_width :: u64  region_height :: u64  region_depth :: u64

text \<open>The loop over the slices; the result is the list of the events.\<close>

fun copy_slices :: "buffer_api \<Rightarrow> ptr \<Rightarrow> u64 \<Rightarrow> u64 \<Rightarrow> ptr \<Rightarrow> u64 \<Rightarrow> u64 \<Rightarrow> rect_region \<Rightarrow> nat \<Rightarrow> nat \<Rightarrow> nat list act" where
  "copy_slices api dst dstRow dstSlice src srcRow srcSlice Region i 0 = ret []"
| "copy_slices api dst dstRow dstSlice src srcRow srcSlice Region i (Suc left) =
     UR_CALL (USMMemcpy2D api (ptr_add dst (of_nat i * dstSlice)) dstRow (ptr_add src (of_nat i * srcSlice)) srcRow
        (region_width Region) (region_height Region)) (\<lambda>NewEvent.
     UR_CALL (copy_slices api dst dstRow dstSlice src srcRow srcSlice Region (i + 1) left) (\<lambda>evs.
     ret (NewEvent # evs)))"

definition default_pitch :: "u64 \<Rightarrow> u64 \<Rightarrow> u64" where
  "default_pitch pitch deflt = (if pitch = 0 then deflt else pitch)"

definition rect_origin :: "ptr \<Rightarrow> rect_offset \<Rightarrow> u64 \<Rightarrow> u64 \<Rightarrow> ptr" where
  "rect_origin p off row slc = ptr_add (ptr_add (ptr_add p (offs_x off)) (row * offs_y off)) (slc * offs_z off)"

definition EnqueueMemCopyRectHelper ::
  "buffer_api \<Rightarrow> ptr \<Rightarrow> ptr \<Rightarrow> rect_offset \<Rightarrow> rect_offset \<Rightarrow> rect_region \<Rightarrow> u64 \<Rightarrow> u64 \<Rightarrow> u64 \<Rightarrow> u64 \<Rightarrow> unit act" where
  "EnqueueMemCopyRectHelper api pSrc pDst SrcOffset DstOffset Region srcRowPitch srcSlicePitch dstRowPitch dstSlicePitch =
     (let srcRow = default_pitch srcRowPitch (region_width Region);
          srcSlice = default_pitch srcSlicePitch (srcRow * region_height Region);
          dstRow = default_pitch dstRowPitch (region_width Region);
          dstSlice = default_pitch dstSlicePitch (dstRow * region_height Region);
          SrcOrigin = rect_origin pSrc SrcOffset srcRow srcSlice;
          DstOrigin = rect_origin pDst DstOffset dstRow dstSlice
      in UR_CALL (copy_slices api DstOrigin dstRow dstSlice SrcOrigin srcRow srcSlice Region 0 (unat (region_depth Region))) (\<lambda>evs.
         UR_CALL (driver_call (pfnEventsWait api)) (\<lambda>_.
         modify (\<lambda>w. w\<lparr>DeferredEvents := DeferredEvents w @ evs\<rparr>))))"

definition urEnqueueMemBufferReadRect ::
  "buffer_api \<Rightarrow> nat \<Rightarrow> nat \<Rightarrow> rect_offset \<Rightarrow> rect_offset \<Rightarrow> rect_region \<Rightarrow> u64 \<Rightarrow> u64 \<Rightarrow> u64 \<Rightarrow> u64 \<Rightarrow> ptr \<Rightarrow> unit act" where
  "urEnqueueMemBufferReadRect api Device hBuffer bufferOrigin hostOrigin region bufferRowPitch bufferSlicePitch hostRowPitch hostSlicePitch pDst =
     intercept api ''pfnMemBufferReadRect'' hBuffer
       (UR_CALL (getHandle api (Some Device) hBuffer) (\<lambda>SrcHandle.
        EnqueueMemCopyRectHelper api SrcHandle pDst bufferOrigin hostOrigin region
          bufferRowPitch bufferSlicePitch hostRowPitch hostSlicePitch))"

definition urEnqueueMemBufferWriteRect ::
  "buffer_api \<Rightarrow> nat \<Rightarrow> nat \<Rightarrow> rect_offset \<Rightarrow> rect_offset \<Rightarrow> rect_region \<Rightarrow> u64 \<Rightarrow> u64 \<Rightarrow> u64 \<Rightarrow> u64 \<Rightarrow> ptr \<Rightarrow> unit act" where
  "urEnqueueMemBufferWriteRect api Device hBuffer bufferOrigin hostOrigin region bufferRowPitch bufferSlicePitch hostRowPitch hostSlicePitch pSrc =
     intercept api ''pfnMemBufferWriteRect'' hBuffer
       (UR_CALL (getHandle api (Some Device) hBuffer) (\<lambda>DstHandle.
        EnqueueMemCopyRectHelper api pSrc DstHandle hostOrigin bufferOrigin region
          hostRowPitch hostSlicePitch bufferRowPitch bufferSlicePitch))"

definition urEnqueueMemBufferCopyRect ::
  "buffer_api \<Rightarrow> nat \<Rightarrow> nat \<Rightarrow> nat \<Rightarrow> rect_offset \<Rightarrow> rect_offset \<Rightarrow> rect_region \<Rightarrow> u64 \<Rightarrow> u64 \<Rightarrow> u64 \<Rightarrow> u64 \<Rightarrow> unit act" where
  "urEnqueueMemBufferCopyRect api Device hBufferSrc hBufferDst srcOrigin dstOrigin region srcRowPitch srcSlicePitch dstRowPitch dstSlicePitch =
     intercept2 api ''pfnMemBufferCopyRect'' hBufferSrc hBufferDst
       (UR_CALL (getHandle api (Some Device) hBufferSrc) (\<lambda>SrcHandle.
        UR_CALL (getHandle api (Some Device) hBufferDst) (\<lambda>DstHandle.
        EnqueueMemCopyRectHelper api SrcHandle DstHandle srcOrigin dstOrigin region
          srcRowPitch srcSlicePitch dstRowPitch dstSlicePitch)))"

datatype access_mode = UNKNOWN | READ_WRITE | READ_ONLY | WRITE_ONLY

record map_flags = MAP_READ :: bool  MAP_WRITE :: bool  WRITE_INVALIDATE :: bool

definition translate_flags :: "map_flags \<Rightarrow> access_mode" where
  "translate_flags fl =
     (if WRITE_INVALIDATE fl then WRITE_ONLY
      else if MAP_READ fl then (if MAP_WRITE fl then READ_WRITE else READ_ONLY)
      else if MAP_WRITE fl then WRITE_ONLY else UNKNOWN)"

definition map_pointer :: "buffer_api \<Rightarrow> nat \<Rightarrow> u64 \<Rightarrow> u64 \<Rightarrow> ptr act" where
  "map_pointer api hBuffer offset n = with_world (\<lambda>w.
     case HostPtr (objects w ! hBuffer) of
       Some host \<Rightarrow> ret (User (host + offset))
     | None \<Rightarrow> UR_CALL (alloc_block api None n (getAlignment (Size (objects w ! hBuffer)))) (\<lambda>blk. ret (Block blk 0)))"

definition urEnqueueMemBufferMap :: "buffer_api \<Rightarrow> nat \<Rightarrow> nat \<Rightarrow> map_flags \<Rightarrow> u64 \<Rightarrow> u64 \<Rightarrow> ptr option act" where
  "urEnqueueMemBufferMap api Device hBuffer mapFlags offset n =
     UR_CALL (need_pfn api ''pfnMemBufferMap'') (\<lambda>_. with_world (\<lambda>w.
     if known hBuffer w
     then UR_CALL (UR_ASSERT (translate_flags mapFlags \<noteq> UNKNOWN) UR_RESULT_ERROR_INVALID_ARGUMENT) (\<lambda>_.
          UR_CALL (map_pointer api hBuffer offset n) (\<lambda>pRetMap.
          UR_CALL (getHandle api (Some Device) hBuffer) (\<lambda>SrcHandle.
          UR_CALL (USMMemcpy api pRetMap (ptr_add SrcHandle offset) n) (\<lambda>_. with_world (\<lambda>w1.
          UR_CALL (UR_ASSERT (map_of (Mappings (objects w1 ! hBuffer)) pRetMap = None) UR_RESULT_ERROR_INVALID_VALUE) (\<lambda>_.
          UR_CALL (modify (upd_buf hBuffer (\<lambda>buf. buf\<lparr>Mappings := AList.update pRetMap (offset, n) (Mappings buf)\<rparr>))) (\<lambda>_.
          ret (Some pRetMap))))))))
     else UR_CALL (driver_call (pfnMem api)) (\<lambda>_. ret None)))"

text \<open>Mapped memory the layer allocated is a block, and its pointer the beginning of it.\<close>

definition block_of :: "ptr \<Rightarrow> nat option" where
  "block_of p = (case p of Block blk off \<Rightarrow> if off = 0 then Some blk else None | User _ \<Rightarrow> None)"

definition urEnqueueMemUnmap :: "buffer_api \<Rightarrow> nat \<Rightarrow> nat \<Rightarrow> ptr \<Rightarrow> unit act" where
  "urEnqueueMemUnmap api Device hMem pMappedPtr =
     intercept api ''pfnMemUnmap'' hMem (with_world (\<lambda>w.
       case map_of (Mappings (objects w ! hMem)) pMappedPtr of
         None \<Rightarrow> throw UR_RESULT_ERROR_INVALID_VALUE
       | Some (Offset, n) \<Rightarrow>
           UR_CALL (modify (upd_buf hMem (\<lambda>buf. buf\<lparr>Mappings := AList.delete pMappedPtr (Mappings buf)\<rparr>))) (\<lambda>_.
           UR_CALL (getHandle api (Some Device) hMem) (\<lambda>DstHandle.
           UR_CALL (USMMemcpy api (ptr_add DstHandle Offset) pMappedPtr n) (\<lambda>_.
           if HostPtr (objects w ! hMem) = None then release_pointer api (block_of pMappedPtr) else ret ())))))"

end
