(* ===== verification/San_Buffer_Data.thy ===== *)
theory San_Buffer_Data
  imports San_Buffer
begin

text \<open>
  What the buffers of the address sanitizer hold. The data of a buffer is what the allocation of the device synchronised
  last has; getting a handle for any device keeps the data of every buffer, and gives memory with
  the data of this one.
\<close>

section \<open>Running calls\<close>

named_theorems act_simps

lemma ret_Some [act_simps]: "ret v w = Some (r, w') \<longleftrightarrow> r = Inr v \<and> w' = w"
  by (auto simp: ret_def)

lemma throw_Some [act_simps]: "throw e w = Some (r, w') \<longleftrightarrow> r = Inl e \<and> w' = w"
  by (auto simp: throw_def)

lemma modify_Some [act_simps]: "modify g w = Some (r, w') \<longleftrightarrow> r = Inr () \<and> w' = g w"
  by (auto simp: modify_def)

lemma with_world_Some [act_simps]: "with_world k w = Some (r, w') \<longleftrightarrow> k w w = Some (r, w')"
  by (simp add: with_world_def)

lemma UR_ASSERT_Some [act_simps]:
  "UR_ASSERT c e w = Some (r, w') \<longleftrightarrow> w' = w \<and> r = (if c then Inr () else Inl e)"
  by (auto simp: UR_ASSERT_def ret_def throw_def)

lemma UR_CALL_Some [act_simps]:
  "UR_CALL m k w = Some (r, w') \<longleftrightarrow>
     (\<exists>e. m w = Some (Inl e, w') \<and> r = Inl e) \<or> (\<exists>v w1. m w = Some (Inr v, w1) \<and> k v w1 = Some (r, w'))"
  by (cases "m w") (auto simp: UR_CALL_def split: sum.split_asm)

lemma driver_call_Some [act_simps]:
  "driver_call f w = Some (r, w') \<longleftrightarrow>
     w' = w\<lparr>calls := calls w + 1\<rparr> \<and> r = (if f (calls w) = UR_RESULT_SUCCESS then Inr () else Inl (f (calls w)))"
  by (auto simp: driver_call_def)

section \<open>Memory\<close>

lemma ptr_add_add [simp]: "ptr_add (ptr_add p a) c = ptr_add p (a + c)"
  by (cases p) (auto simp: add.assoc)

lemma ptr_add_0 [simp]: "ptr_add p 0 = p"
  by (cases p) auto

lemma length_bytes_at [simp]: "length (bytes_at w p n) = unat n"
  by (simp add: bytes_at_def)

lemma nth_bytes_at [simp]: "i < unat n \<Longrightarrow> bytes_at w p n ! i = load w (ptr_add p (of_nat i))"
  by (simp add: bytes_at_def)

lemma unat_less: "i < unat (n :: u64) \<Longrightarrow> i < 2 ^ 64"
  using unsigned_less[where ?'a = nat and w = n] by simp

lemma write_bytes_at:
  "i < length bs \<Longrightarrow> i < 2 ^ 64 \<Longrightarrow> write_bytes a bs f (a + of_nat i) = bs ! i"
  by (simp add: write_bytes_def unat_of_nat take_bit_nat_eq_self)

lemma write_bytes_in:
  "length bs = unat (n :: u64) \<Longrightarrow> i < unat n \<Longrightarrow> write_bytes a bs f (a + of_nat i) = bs ! i"
  using write_bytes_at[of i bs a f] unat_less[of i n] by simp

lemma bytes_at_Block_cong:
  "cells w blk = cells w' blk \<Longrightarrow> bytes_at w (Block blk off) n = bytes_at w' (Block blk off) n"
  by (simp add: bytes_at_def load_def)

lemma bytes_at_calls [simp]: "bytes_at (w\<lparr>calls := c\<rparr>) p n = bytes_at w p n"
  by (cases p) (simp_all add: bytes_at_def load_def)

lemma bytes_at_User_cong: "user w = user w' \<Longrightarrow> bytes_at w (User a) n = bytes_at w' (User a) n"
  by (simp add: bytes_at_def load_def)

lemma bytes_at_store [simp]: "length bs = unat n \<Longrightarrow> bytes_at (store p bs w) p n = bs"
  by (rule nth_equalityI; cases p)
     (auto simp: load_def store_def write_bytes_in)

lemma store_Block [simp]:
  "cells (store (Block blk off) bs w) = (cells w)(blk := write_bytes off bs (cells w blk))"
  "user (store (Block blk off) bs w) = user w"
  "objects (store p bs w) = objects w" "m_MemBufferMap (store p bs w) = m_MemBufferMap w"
  "next_block (store p bs w) = next_block w" "released (store p bs w) = released w"
  "bad_frees (store p bs w) = bad_frees w" "next_event (store p bs w) = next_event w"
  "Events (store p bs w) = Events w" "DeferredEvents (store p bs w) = DeferredEvents w"
  "calls (store p bs w) = calls w"
  "cells (store (User a) bs w) = cells w" "user (store (User a) bs w) = write_bytes a bs (user w)"
  by (simp_all add: store_def split: ptr.splits)

section \<open>Buffers in order\<close>

definition blocks_ok :: "world \<Rightarrow> bool" where
  "blocks_ok w \<longleftrightarrow>
     (\<forall>b < length (objects w). \<forall>k blk. entry k (objects w ! b) = Some blk \<longrightarrow> blk < next_block w) \<and>
     (\<forall>b < length (objects w). \<forall>c < length (objects w). \<forall>k l blk.
        entry k (objects w ! b) = Some blk \<and> entry l (objects w ! c) = Some blk \<longrightarrow> b = c \<and> k = l)"

lemma blocks_okI:
  assumes "\<And>b k blk. b < length (objects w) \<Longrightarrow> entry k (objects w ! b) = Some blk \<Longrightarrow> blk < next_block w"
    and "\<And>b c k l blk. b < length (objects w) \<Longrightarrow> c < length (objects w) \<Longrightarrow> entry k (objects w ! b) = Some blk \<Longrightarrow>
           entry l (objects w ! c) = Some blk \<Longrightarrow> b = c \<and> k = l"
  shows "blocks_ok w"
  unfolding blocks_ok_def using assms by blast

lemma blocks_below: "blocks_ok w \<Longrightarrow> b < length (objects w) \<Longrightarrow> entry k (objects w ! b) = Some blk \<Longrightarrow> blk < next_block w"
  unfolding blocks_ok_def by blast

lemma blocks_inj:
  "blocks_ok w \<Longrightarrow> b < length (objects w) \<Longrightarrow> c < length (objects w) \<Longrightarrow> entry k (objects w ! b) = Some blk \<Longrightarrow>
     entry l (objects w ! c) = Some blk \<Longrightarrow> b = c \<and> k = l"
  unfolding blocks_ok_def by blast

text \<open>The device synchronised last has its allocation in the table.\<close>

definition synced :: "mem_buffer \<Rightarrow> bool" where
  "synced buf \<longleftrightarrow> (\<forall>d blk. LastSyncedDevice buf = Some (d, blk) \<longrightarrow> entry (Some d) buf = Some blk)"

definition contents :: "world \<Rightarrow> nat \<Rightarrow> u8 list option" where
  "contents w b =
     map_option (\<lambda>(_, blk). bytes_at w (Block blk 0) (Size (objects w ! b))) (LastSyncedDevice (objects w ! b))"

lemma entry_set_entry [simp]: "entry k (set_entry l v buf) = (if k = l then v else entry k buf)"
  by (simp add: entry_def set_entry_def update_conv' split: option.splits)

lemma set_entry_simps [simp]:
  "LastSyncedDevice (set_entry k v buf) = LastSyncedDevice buf" "Size (set_entry k v buf) = Size buf"
  "HostPtr (set_entry k v buf) = HostPtr buf" "SubBuffer (set_entry k v buf) = SubBuffer buf"
  "RefCount (set_entry k v buf) = RefCount buf" "Mappings (set_entry k v buf) = Mappings buf"
  by (simp_all add: set_entry_def)

lemma upd_buf_simps [simp]:
  "length (objects (upd_buf b g w)) = length (objects w)"
  "b < length (objects w) \<Longrightarrow> objects (upd_buf b g w) ! b = g (objects w ! b)"
  "c \<noteq> b \<Longrightarrow> objects (upd_buf b g w) ! c = objects w ! c"
  "m_MemBufferMap (upd_buf b g w) = m_MemBufferMap w" "cells (upd_buf b g w) = cells w"
  "user (upd_buf b g w) = user w" "next_block (upd_buf b g w) = next_block w"
  "released (upd_buf b g w) = released w" "bad_frees (upd_buf b g w) = bad_frees w"
  "next_event (upd_buf b g w) = next_event w" "Events (upd_buf b g w) = Events w"
  "DeferredEvents (upd_buf b g w) = DeferredEvents w" "calls (upd_buf b g w) = calls w"
  by (simp_all add: upd_buf_def)

text \<open>
  The steps of \<open>getHandle\<close> before the last one: they add blocks to one buffer, and write only to blocks
  of this buffer other than the one synchronised last.
\<close>

definition same_attributes :: "mem_buffer \<Rightarrow> mem_buffer \<Rightarrow> bool" where
  "same_attributes p q \<longleftrightarrow> Size q = Size p \<and> HostPtr q = HostPtr p \<and> SubBuffer q = SubBuffer p \<and>
     RefCount q = RefCount p \<and> Mappings q = Mappings p"

definition same_outside :: "nat \<Rightarrow> world \<Rightarrow> world \<Rightarrow> bool" where
  "same_outside b w w' \<longleftrightarrow>
     length (objects w') = length (objects w) \<and> (\<forall>c. c \<noteq> b \<longrightarrow> objects w' ! c = objects w ! c) \<and>
     same_attributes (objects w ! b) (objects w' ! b) \<and>
     user w' = user w \<and> m_MemBufferMap w' = m_MemBufferMap w \<and> released w' = released w \<and>
     bad_frees w' = bad_frees w \<and> Events w' = Events w \<and> DeferredEvents w' = DeferredEvents w"

definition keeps_block :: "nat \<Rightarrow> world \<Rightarrow> nat \<Rightarrow> bool" where
  "keeps_block b w blk \<longleftrightarrow> blk < next_block w \<and>
     ((\<forall>k. entry k (objects w ! b) \<noteq> Some blk) \<or> (\<exists>d. LastSyncedDevice (objects w ! b) = Some (d, blk)))"

definition extends :: "nat \<Rightarrow> world \<Rightarrow> world \<Rightarrow> bool" where
  "extends b w w' \<longleftrightarrow>
     same_outside b w w' \<and> LastSyncedDevice (objects w' ! b) = LastSyncedDevice (objects w ! b) \<and>
     next_block w \<le> next_block w' \<and> blocks_ok w' \<and>
     (\<forall>k blk. entry k (objects w ! b) = Some blk \<longrightarrow> entry k (objects w' ! b) = Some blk) \<and>
     (\<forall>k blk. entry k (objects w' ! b) = Some blk \<longrightarrow> entry k (objects w ! b) = Some blk \<or> next_block w \<le> blk) \<and>
     (\<forall>blk. keeps_block b w blk \<longrightarrow> cells w' blk = cells w blk)"

lemma same_attributes_refl [simp]: "same_attributes p p"
  by (simp add: same_attributes_def)

lemma same_outside_refl [simp]: "same_outside b w w"
  by (simp add: same_outside_def)

lemma same_outside_trans: "same_outside b w w1 \<Longrightarrow> same_outside b w1 w2 \<Longrightarrow> same_outside b w w2"
  by (auto simp: same_outside_def same_attributes_def)

lemma extends_refl [simp]: "blocks_ok w \<Longrightarrow> extends b w w"
  by (simp add: extends_def)

lemma extends_new:
  "extends b w w' \<Longrightarrow> entry k (objects w' ! b) = Some blk \<Longrightarrow> blk < next_block w \<Longrightarrow> entry k (objects w ! b) = Some blk"
  by (auto simp: extends_def not_less[symmetric])

lemma keeps_block_extends: "keeps_block b w blk \<Longrightarrow> extends b w w1 \<Longrightarrow> keeps_block b w1 blk"
  unfolding keeps_block_def extends_def by (metis leD le_trans not_le)

lemma extends_trans: "extends b w w1 \<Longrightarrow> extends b w1 w2 \<Longrightarrow> extends b w w2"
  using keeps_block_extends[of b w _ w1] unfolding extends_def
  by (auto intro: same_outside_trans) (metis order_trans)+

lemma extends_blocks_ok: "extends b w w' \<Longrightarrow> blocks_ok w'"
  by (simp add: extends_def)

lemma blocks_ok_calls [simp]: "blocks_ok (w\<lparr>calls := n\<rparr>) = blocks_ok w"
  by (simp add: blocks_ok_def)

section \<open>The steps of getHandle\<close>

lemma blocks_ok_sub:
  assumes ok: "blocks_ok w" and len: "length (objects w') = length (objects w)" and nb: "next_block w \<le> next_block w'"
    and e: "\<And>c k blk. c < length (objects w) \<Longrightarrow> entry k (objects w' ! c) = Some blk \<Longrightarrow> entry k (objects w ! c) = Some blk"
  shows "blocks_ok w'"
proof (rule blocks_okI)
  show "blk < next_block w'" if "c < length (objects w')" "entry k (objects w' ! c) = Some blk" for c k blk
    using blocks_below[OF ok, of c k blk] that nb e[of c k blk] len by simp
  show "c = d \<and> k = l" if "c < length (objects w')" "d < length (objects w')" "entry k (objects w' ! c) = Some blk"
    "entry l (objects w' ! d) = Some blk" for c d k l blk
    using blocks_inj[OF ok, of c d k blk l] that e[of c k blk] e[of d l blk] len by simp
qed

lemma blocks_ok_cong:
  assumes "blocks_ok w" "length (objects w') = length (objects w)" "next_block w \<le> next_block w'"
    and "\<And>c k. c < length (objects w) \<Longrightarrow> entry k (objects w' ! c) = entry k (objects w ! c)"
  shows "blocks_ok w'"
  by (rule blocks_ok_sub[OF assms(1-3)]) (simp add: assms(4))

lemma blocks_ok_fresh:
  assumes ok: "blocks_ok w" and len: "length (objects w') = length (objects w)" and nb: "next_block w' = next_block w + 1"
    and e: "\<And>c l. c < length (objects w) \<Longrightarrow>
       entry l (objects w' ! c) = (if c = b \<and> l = k then Some (next_block w) else entry l (objects w ! c))"
  shows "blocks_ok w'"
proof (rule blocks_okI)
  show "blk < next_block w'" if "c < length (objects w')" "entry l (objects w' ! c) = Some blk" for c l blk
    using that blocks_below[OF ok, of c l blk] len nb by (auto simp: e split: if_splits)
  show "c = d \<and> l = m" if "c < length (objects w')" "d < length (objects w')" "entry l (objects w' ! c) = Some blk"
    "entry m (objects w' ! d) = Some blk" for c d l m blk
    using that len blocks_inj[OF ok, of c d l blk m] blocks_below[OF ok, of c l blk] blocks_below[OF ok, of d m blk]
    by (auto simp: e split: if_splits)
qed

lemma extends_null:
  "blocks_ok w \<Longrightarrow> entry k (objects w ! b) = None \<Longrightarrow> b < length (objects w) \<Longrightarrow>
     extends b w ((upd_buf b (set_entry k None) w)\<lparr>calls := c\<rparr>)"
  by (auto simp: extends_def same_outside_def same_attributes_def nth_list_update upd_buf_def
      intro!: blocks_ok_cong[of w])

lemma extends_fresh:
  assumes ok: "blocks_ok w" and "entry k (objects w ! b) = None" and b: "b < length (objects w)"
  shows "extends b w ((upd_buf b (set_entry k (Some (next_block w))) w)\<lparr>calls := c, next_block := next_block w + 1\<rparr>)"
    (is "extends b w ?w")
proof -
  have "blocks_ok ?w"
    by (rule blocks_ok_fresh[OF ok, of _ b k]) (auto simp: b nth_list_update upd_buf_def)
  then show ?thesis
    using assms by (auto simp: extends_def same_outside_def same_attributes_def)
qed

lemma upd_buf_null_fill:
  "b < length (objects w) \<Longrightarrow>
     upd_buf b (set_entry k (Some v)) ((upd_buf b (set_entry k None) w)\<lparr>calls := c, next_block := n\<rparr>) =
     (upd_buf b (set_entry k (Some v)) w)\<lparr>calls := c, next_block := n\<rparr>"
  by (simp add: upd_buf_def set_entry_def)

lemma ensure_allocation_cases:
  assumes "ensure_allocation api b k w = Some (r, w')" "b < length (objects w)"
  obtains (known) blk where "entry k (objects w ! b) = Some blk" "r = Inr (blk, False)" "w' = w"
  | (failed) e where "entry k (objects w ! b) = None" "r = Inl e" "w' = (upd_buf b (set_entry k None) w)\<lparr>calls := calls w + 1\<rparr>"
  | (fresh) "entry k (objects w ! b) = None" "r = Inr (next_block w, True)"
      "w' = (upd_buf b (set_entry k (Some (next_block w))) w)\<lparr>calls := calls w + 1, next_block := next_block w + 1\<rparr>"
  using assms by (auto simp: ensure_allocation_def act_simps alloc_block_def upd_buf_null_fill split: option.splits if_splits)

lemma ensure_allocation_extends:
  assumes run: "ensure_allocation api b k w = Some (r, w')" and ok: "blocks_ok w" and b: "b < length (objects w)"
  shows "extends b w w'"
  by (rule ensure_allocation_cases[OF run b])
     (use ok b in \<open>simp_all only: extends_refl extends_null extends_fresh\<close>)

lemma ensure_allocation_block:
  assumes run: "ensure_allocation api b k w = Some (Inr (blk, fresh), w')" and b: "b < length (objects w)"
  shows "entry k (objects w' ! b) = Some blk" "cells w' = cells w" "user w' = user w"
    "entry k (objects w ! b) = (if fresh then None else Some blk)"
  by (rule ensure_allocation_cases[OF run b]; use b in force)+

lemma USMMemcpy_run:
  assumes "USMMemcpy api dst src n w = Some (r, w')"
  shows "w' = w\<lparr>calls := calls w + 1\<rparr> \<and> r \<noteq> Inr () \<or>
         w' = store dst (bytes_at w src n) (w\<lparr>calls := calls w + 1\<rparr>) \<and> r = Inr ()"
  using assms by (auto simp: USMMemcpy_def act_simps split: if_splits)

lemma USMMemcpy_extends:
  assumes "USMMemcpy api (Block blk 0) src n w = Some (r, w')" "blocks_ok w"
    and "entry k (objects w ! b) = Some blk" "\<And>d. LastSyncedDevice (objects w ! b) \<noteq> Some (d, blk)"
  shows "extends b w w'"
proof -
  have "cells w' c = cells w c" if "keeps_block b w c" for c
    using USMMemcpy_run[OF assms(1)] that assms(3,4) by (auto simp: keeps_block_def)
  moreover have "blocks_ok w'" "same_outside b w w'" "objects w' = objects w" "next_block w' = next_block w"
    using USMMemcpy_run[OF assms(1)] assms(2) by (auto simp: same_outside_def intro: blocks_ok_cong[of w])
  ultimately show ?thesis
    by (simp add: extends_def)
qed

lemma synced_extends: "synced (objects w ! b) \<Longrightarrow> extends b w w' \<Longrightarrow> synced (objects w' ! b)"
  by (auto simp: synced_def extends_def)

lemma synced_other:
  assumes "synced (objects w ! b)" "LastSyncedDevice (objects w ! b) = Some (d, lastb)" "blocks_ok w" "b < length (objects w)"
    and "entry k (objects w ! b) = Some blk" "k \<noteq> Some d"
  shows "lastb \<noteq> blk"
  using assms blocks_inj[of w b b "Some d" lastb k] by (auto simp: synced_def)

lemma extends_length: "extends b w w' \<Longrightarrow> length (objects w') = length (objects w)"
  by (simp add: extends_def same_outside_def)

lemma extends_attributes: "extends b w w' \<Longrightarrow> Size (objects w' ! b) = Size (objects w ! b)"
  by (simp add: extends_def same_outside_def same_attributes_def)

lemma migrate_spec:
  assumes run: "migrate api b lastb blk w = Some (r, w')" and ok: "blocks_ok w" and b: "b < length (objects w)"
    and sy: "synced (objects w ! b)" and ls: "LastSyncedDevice (objects w ! b) = Some (d, lastb)"
    and e: "entry (Some dev) (objects w ! b) = Some blk" and ne: "dev \<noteq> d"
  shows "extends b w w'"
    and "r = Inr () \<Longrightarrow> bytes_at w' (Block blk 0) (Size (objects w ! b)) = bytes_at w (Block lastb 0) (Size (objects w ! b))"
proof -
  let ?n = "Size (objects w ! b)"
  obtain r1 w1 where 1: "ensure_allocation api b None w = Some (r1, w1)"
    using run by (auto simp: migrate_def act_simps)
  have x1: "extends b w w1"
    by (rule ensure_allocation_extends[OF 1 ok b])
  have "extends b w w' \<and> (r = Inr () \<longrightarrow> bytes_at w' (Block blk 0) ?n = bytes_at w (Block lastb 0) ?n)"
  proof (cases r1)
    case (Inl e)
    then show ?thesis using run 1 x1 by (auto simp: migrate_def act_simps)
  next
    case (Inr v)
    obtain host fresh where v: "v = (host, fresh)" by (cases v)
    obtain r2 w2 where 2: "USMMemcpy api (Block host 0) (Block lastb 0) ?n w1 = Some (r2, w2)"
      and rest: "(r2 \<noteq> Inr () \<and> w' = w2 \<and> r \<noteq> Inr ()) \<or> USMMemcpy api (Block blk 0) (Block host 0) ?n w2 = Some (r, w')"
      using run 1 Inr v by (auto simp: migrate_def act_simps)
    have ok1: "blocks_ok w1" and b1: "b < length (objects w1)" and sy1: "synced (objects w1 ! b)"
      and ls1: "LastSyncedDevice (objects w1 ! b) = Some (d, lastb)" and e1: "entry (Some dev) (objects w1 ! b) = Some blk"
      using x1 b e ls synced_extends[OF sy x1] by (auto simp: extends_def same_outside_def)
    have eh: "entry None (objects w1 ! b) = Some host" and c1: "cells w1 = cells w"
      using ensure_allocation_block[OF 1[unfolded Inr v] b] by auto
    have nh: "lastb \<noteq> host" and nb: "lastb \<noteq> blk"
      using synced_other[OF sy1 ls1 ok1 b1 eh] synced_other[OF sy1 ls1 ok1 b1 e1] ne by auto
    have x2: "extends b w1 w2"
      by (rule USMMemcpy_extends[OF 2 ok1 eh]) (use ls1 nh in auto)
    have x3: "extends b w2 w''" if "USMMemcpy api (Block blk 0) (Block host 0) ?n w2 = Some (r, w'')" for w''
      by (rule USMMemcpy_extends[OF that extends_blocks_ok[OF x2], of "Some dev"]) (use x2 ls1 nb e1 in \<open>auto simp: extends_def\<close>)
    have "bytes_at w' (Block blk 0) ?n = bytes_at w (Block lastb 0) ?n" if "r = Inr ()"
    proof -
      have r2: "r2 = Inr ()" and 3: "USMMemcpy api (Block blk 0) (Block host 0) ?n w2 = Some (r, w')"
        using rest that run 1 Inr v 2 by (auto simp: migrate_def act_simps)
      have "bytes_at w' (Block blk 0) ?n = bytes_at w2 (Block host 0) ?n"
        using USMMemcpy_run[OF 3] that by auto
      also have "\<dots> = bytes_at w1 (Block lastb 0) ?n"
        using USMMemcpy_run[OF 2] r2 by auto
      finally show ?thesis
        using c1 by (simp cong: bytes_at_Block_cong add: bytes_at_Block_cong[of w1 lastb w])
    qed
    then show ?thesis
      using rest x3 extends_trans[OF x1 x2] extends_trans by blast
  qed
  then show "extends b w w'"
    and "r = Inr () \<Longrightarrow> bytes_at w' (Block blk 0) ?n = bytes_at w (Block lastb 0) ?n"
    by auto
qed

lemma copy_host_data_spec:
  assumes run: "copy_host_data api b blk fresh w = Some (r, w')" and ok: "blocks_ok w"
    and e: "entry (Some dev) (objects w ! b) = Some blk"
    and ne: "fresh \<Longrightarrow> \<forall>d. LastSyncedDevice (objects w ! b) \<noteq> Some (d, blk)"
  shows "extends b w w'" "\<not> fresh \<Longrightarrow> w' = w \<and> r = Inr ()"
    "fresh \<Longrightarrow> r = Inr () \<Longrightarrow> HostPtr (objects w ! b) = Some host \<Longrightarrow>
       bytes_at w' (Block blk 0) (Size (objects w ! b)) = bytes_at w (User host) (Size (objects w ! b))"
proof -
  have "extends b w w'" if "fresh" "HostPtr (objects w ! b) = Some h" for h
    using run that USMMemcpy_extends[OF _ ok e] ne by (auto simp: copy_host_data_def act_simps)
  then show "extends b w w'"
    using run ok by (cases fresh) (auto simp: copy_host_data_def act_simps split: option.splits)
  show "\<not> fresh \<Longrightarrow> w' = w \<and> r = Inr ()"
    using run by (auto simp: copy_host_data_def act_simps split: option.splits)
  assume "fresh" "r = Inr ()" "HostPtr (objects w ! b) = Some host"
  then show "bytes_at w' (Block blk 0) (Size (objects w ! b)) = bytes_at w (User host) (Size (objects w ! b))"
    using run USMMemcpy_run[of api "Block blk 0" "User host" "Size (objects w ! b)" w r w']
    by (auto simp: copy_host_data_def act_simps)
qed

lemma sync_device_spec:
  assumes run: "sync_device api b dev blk w = Some (r, w')" and ok: "blocks_ok w" and b: "b < length (objects w)"
    and sy: "synced (objects w ! b)" and e: "entry (Some dev) (objects w ! b) = Some blk"
  shows "extends b w w'"
    and "r = Inr () \<Longrightarrow> contents w b = Some bs \<Longrightarrow> bytes_at w' (Block blk 0) (Size (objects w ! b)) = bs"
    and "LastSyncedDevice (objects w ! b) = None \<Longrightarrow> w' = w \<and> r = Inr ()"
  using run sy e ok migrate_spec[OF _ ok b sy _ e]
  by (auto simp: sync_device_def act_simps contents_def synced_def split: option.splits if_splits)

lemma keeps_lastSynced:
  assumes "blocks_ok w" "b < length (objects w)" "synced (objects w ! b)" "LastSyncedDevice (objects w ! b) = Some (d, blk)"
  shows "keeps_block b w blk"
  using assms blocks_below[of w b "Some d" blk] by (auto simp: keeps_block_def synced_def)

lemma contents_extends:
  assumes "extends b w w'" "blocks_ok w" "b < length (objects w)" "synced (objects w ! b)"
  shows "contents w' b = contents w b"
  using assms keeps_lastSynced[OF assms(2-4)] bytes_at_Block_cong[of w' _ w]
  by (cases "LastSyncedDevice (objects w ! b)") (auto simp: contents_def extends_def same_outside_def same_attributes_def)

lemma fresh_not_synced:
  assumes "synced (objects w ! b)" "entry (Some dev) (objects w ! b) = None" "extends b w w1" "b < length (objects w)"
    and "entry (Some dev) (objects w1 ! b) = Some blk"
  shows "LastSyncedDevice (objects w1 ! b) \<noteq> Some (d, blk)"
proof
  assume ls: "LastSyncedDevice (objects w1 ! b) = Some (d, blk)"
  have "Some dev = Some d"
    using synced_other[OF synced_extends[OF assms(1,3)] ls extends_blocks_ok[OF assms(3)] _ assms(5)] assms(4)
      extends_length[OF assms(3)] by auto
  moreover have "LastSyncedDevice (objects w ! b) = Some (d, blk)"
    using ls assms(3) by (simp add: extends_def)
  ultimately show False
    using assms(1,2) by (simp add: synced_def)
qed

lemma allocate_device_spec:
  assumes run: "allocate_device api b dev w = Some (r, w')" and ok: "blocks_ok w" and b: "b < length (objects w)"
    and sy: "synced (objects w ! b)"
  shows "extends b w w'" "r = Inr blk \<Longrightarrow> entry (Some dev) (objects w' ! b) = Some blk"
    "r = Inr blk \<Longrightarrow> HostPtr (objects w ! b) = Some h \<Longrightarrow> entry (Some dev) (objects w ! b) = None \<Longrightarrow>
       bytes_at w' (Block blk 0) (Size (objects w ! b)) = bytes_at w (User h) (Size (objects w ! b))"
proof -
  obtain r1 w1 where 1: "ensure_allocation api b (Some dev) w = Some (r1, w1)"
    using run by (auto simp: allocate_device_def act_simps)
  have x1: "extends b w w1"
    by (rule ensure_allocation_extends[OF 1 ok b])
  have "extends b w w' \<and> (r = Inr blk \<longrightarrow> entry (Some dev) (objects w' ! b) = Some blk \<and>
     (HostPtr (objects w ! b) = Some h \<longrightarrow> entry (Some dev) (objects w ! b) = None \<longrightarrow>
      bytes_at w' (Block blk 0) (Size (objects w ! b)) = bytes_at w (User h) (Size (objects w ! b))))"
  proof (cases r1)
    case (Inl e)
    then show ?thesis using run 1 x1 by (auto simp: allocate_device_def act_simps)
  next
    case (Inr v)
    obtain c fresh where v: "v = (c, fresh)" by (cases v)
    note blk1 = ensure_allocation_block[OF 1[unfolded Inr v] b]
    obtain r2 where 2: "copy_host_data api b c fresh w1 = Some (r2, w')" and r: "r = Inr blk \<Longrightarrow> r2 = Inr () \<and> blk = c"
      using run 1 Inr v by (auto simp: allocate_device_def act_simps)
    have "\<forall>d. LastSyncedDevice (objects w1 ! b) \<noteq> Some (d, c)" if "fresh"
      using fresh_not_synced[OF sy _ x1 b blk1(1)] blk1(4) that by simp
    note x2 = copy_host_data_spec[OF 2 extends_blocks_ok[OF x1] blk1(1) this]
    have e2: "entry (Some dev) (objects w' ! b) = Some c"
      using x2(1) blk1(1) by (simp add: extends_def)
    have "bytes_at w' (Block blk 0) (Size (objects w ! b)) = bytes_at w (User h) (Size (objects w ! b))"
      if "r = Inr blk" "HostPtr (objects w ! b) = Some h" "entry (Some dev) (objects w ! b) = None"
      using x2(3)[of h] r[OF that(1)] that blk1(4) x1 bytes_at_User_cong[OF blk1(3)]
      by (cases fresh) (auto simp: extends_def same_outside_def same_attributes_def)
    then show ?thesis
      using e2 r extends_trans[OF x1 x2(1)] by blast
  qed
  then show "extends b w w'" "r = Inr blk \<Longrightarrow> entry (Some dev) (objects w' ! b) = Some blk"
    "r = Inr blk \<Longrightarrow> HostPtr (objects w ! b) = Some h \<Longrightarrow> entry (Some dev) (objects w ! b) = None \<Longrightarrow>
       bytes_at w' (Block blk 0) (Size (objects w ! b)) = bytes_at w (User h) (Size (objects w ! b))"
    by auto
qed

lemma getHandle_device_cases:
  assumes run: "getHandle_device api dev b w = Some (r, w')" and ok: "blocks_ok w" and b: "b < length (objects w)"
    and sy: "synced (objects w ! b)"
  obtains (failed) e where "r = Inl e" "extends b w w'"
  | (handle) blk w1 where "r = Inr (Block blk 0)" "extends b w w1" "entry (Some dev) (objects w1 ! b) = Some blk"
      "w' = upd_buf b (\<lambda>buf. buf\<lparr>LastSyncedDevice := Some (dev, blk)\<rparr>) w1"
      "\<And>bs. contents w b = Some bs \<Longrightarrow> bytes_at w1 (Block blk 0) (Size (objects w ! b)) = bs"
      "\<And>host. LastSyncedDevice (objects w ! b) = None \<Longrightarrow> HostPtr (objects w ! b) = Some host \<Longrightarrow>
         entry (Some dev) (objects w ! b) = None \<Longrightarrow>
         bytes_at w1 (Block blk 0) (Size (objects w ! b)) = bytes_at w (User host) (Size (objects w ! b))"
proof -
  obtain r2 w2 where 2: "allocate_device api b dev w = Some (r2, w2)"
    using run by (auto simp: getHandle_device_def act_simps)
  note x2 = allocate_device_spec[OF 2 ok b sy]
  show ?thesis
  proof (cases r2)
    case (Inl e)
    then show ?thesis using failed run 2 x2(1) by (auto simp: getHandle_device_def act_simps)
  next
    case (Inr blk)
    obtain r3 w3 where 3: "sync_device api b dev blk w2 = Some (r3, w3)"
      and fin: "(\<exists>e. r = Inl e) \<and> w' = w3 \<or> r3 = Inr () \<and> r = Inr (Block blk 0) \<and>
         w' = upd_buf b (\<lambda>buf. buf\<lparr>LastSyncedDevice := Some (dev, blk)\<rparr>) w3"
      using run 2 Inr by (auto simp: getHandle_device_def act_simps)
    have b2: "b < length (objects w2)" using b extends_length[OF x2(1)] by simp
    note x3 = sync_device_spec[OF 3 extends_blocks_ok[OF x2(1)] b2 synced_extends[OF sy x2(1)] x2(2)[OF Inr]]
    have x13: "extends b w w3" by (rule extends_trans[OF x2(1) x3(1)])
    have e3: "entry (Some dev) (objects w3 ! b) = Some blk"
      using x3(1) x2(2)[OF Inr] by (simp add: extends_def)
    have data: "bytes_at w3 (Block blk 0) (Size (objects w ! b)) = bs" if "r3 = Inr ()" "contents w b = Some bs" for bs
      using x3(2)[of bs] that contents_extends[OF x2(1) ok b sy] extends_attributes[OF x2(1)] by simp
    have host: "bytes_at w3 (Block blk 0) (Size (objects w ! b)) = bytes_at w (User h) (Size (objects w ! b))"
      if "LastSyncedDevice (objects w ! b) = None" "HostPtr (objects w ! b) = Some h" "entry (Some dev) (objects w ! b) = None" for h
      using x2(3)[OF Inr that(2,3)] x3(3) x2(1) that(1) by (simp add: extends_def)
    from fin show ?thesis
    proof (elim disjE)
      assume "r3 = Inr () \<and> r = Inr (Block blk 0) \<and> w' = upd_buf b (\<lambda>buf. buf\<lparr>LastSyncedDevice := Some (dev, blk)\<rparr>) w3"
      then show ?thesis using handle[of blk w3] x13 e3 data host by blast
    qed (use failed x13 in blast)
  qed
qed

section \<open>Sub-buffers\<close>

text \<open>The buffer that has the memory of a sub-buffer, and where in it the sub-buffer begins.\<close>

function resolve :: "mem_buffer list \<Rightarrow> nat \<Rightarrow> nat \<times> u64" where
  "resolve bufs b =
     (case SubBuffer (bufs ! b) of
        Some (Parent, Origin) \<Rightarrow>
          if Parent < b then (fst (resolve bufs Parent), snd (resolve bufs Parent) + Origin) else (b, 0)
      | None \<Rightarrow> (b, 0))"
  by pat_completeness auto
termination
  by (relation "measure snd") auto

declare resolve.simps [simp del]

abbreviation root :: "world \<Rightarrow> nat \<Rightarrow> nat" where
  "root w b \<equiv> fst (resolve (objects w) b)"

abbreviation base :: "world \<Rightarrow> nat \<Rightarrow> u64" where
  "base w b \<equiv> snd (resolve (objects w) b)"

definition parents_ok :: "mem_buffer list \<Rightarrow> bool" where
  "parents_ok bufs \<longleftrightarrow> (\<forall>b < length bufs. \<forall>p og. SubBuffer (bufs ! b) = Some (p, og) \<longrightarrow>
     p < b \<and> unat og + unat (Size (bufs ! b)) \<le> unat (Size (bufs ! p)))"

lemma resolve_root:
  "parents_ok bufs \<Longrightarrow> b < length bufs \<Longrightarrow> SubBuffer (bufs ! fst (resolve bufs b)) = None \<and> fst (resolve bufs b) \<le> b"
proof (induction b rule: less_induct)
  case (less b)
  show ?case
  proof (cases "SubBuffer (bufs ! b)")
    case (Some po)
    then obtain p og where po: "SubBuffer (bufs ! b) = Some (p, og)" "p < b"
      using less.prems by (cases po) (auto simp: parents_ok_def)
    then show ?thesis
      using less.IH[of p] less.prems by (simp add: resolve.simps[of bufs b])
  qed (simp add: resolve.simps)
qed

lemma resolve_range:
  "parents_ok bufs \<Longrightarrow> b < length bufs \<Longrightarrow>
     unat (snd (resolve bufs b)) + unat (Size (bufs ! b)) \<le> unat (Size (bufs ! fst (resolve bufs b)))"
proof (induction b rule: less_induct)
  case (less b)
  show ?case
  proof (cases "SubBuffer (bufs ! b)")
    case (Some po)
    then obtain p og where po: "SubBuffer (bufs ! b) = Some (p, og)" "p < b"
        "unat og + unat (Size (bufs ! b)) \<le> unat (Size (bufs ! p))"
      using less.prems by (cases po) (auto simp: parents_ok_def)
    let ?r = "resolve bufs p"
    have IH: "unat (snd ?r) + unat (Size (bufs ! p)) \<le> unat (Size (bufs ! fst ?r))"
      using less.IH[of p] less.prems po(2) by simp
    have "unat (Size (bufs ! fst ?r)) < 2 ^ 64"
      using unsigned_less[where ?'a = nat and w = "Size (bufs ! fst ?r)"] by simp
    then have "unat (snd ?r + og) = unat (snd ?r) + unat og"
      using IH po(3) by (subst unat_plus_if') simp
    then show ?thesis
      using po IH by (simp add: resolve.simps[of bufs b])
  qed (simp add: resolve.simps)
qed

lemma resolve_cong:
  assumes "\<And>c. SubBuffer (bufs' ! c) = SubBuffer (bufs ! c)"
  shows "resolve bufs' b = resolve bufs b"
  using assms
proof (induction b rule: less_induct)
  case (less b)
  then show ?case
    by (simp add: resolve.simps[of bufs' b] resolve.simps[of bufs b] split: option.splits)
qed

lemma map_sum_same [simp]: "map_sum (\<lambda>a. a) (\<lambda>h. h) s = s"
  by (cases s) auto

lemma act_result_cases:
  obtains (None) "m = None" | (Inl) e w' where "m = Some (Inl e, w')" | (Inr) v w' where "m = Some (Inr v, w')"
  by (cases m; cases "fst (the m)") (auto simp: prod_eq_iff)

lemma getHandle_resolve:
  assumes "parents_ok (objects w)" "b < length (objects w)"
  shows "getHandle api Device b w =
     map_option (\<lambda>(r, w1). (map_sum id (\<lambda>h. ptr_add h (base w b)) r, w1)) (getHandle_root api Device (root w b) w)"
  using assms(2)
proof (induction b rule: less_induct)
  case (less b)
  show ?case
  proof (cases "SubBuffer (objects w ! b)")
    case None
    then show ?thesis
      by (cases "getHandle_root api Device b w")
         (auto simp: getHandle.simps[of _ _ b] resolve.simps[of _ b] map_sum.id split: sum.splits)
  next
    case (Some po)
    then obtain p og where po: "SubBuffer (objects w ! b) = Some (p, og)" "p < b"
      using assms(1) less.prems by (cases po) (auto simp: parents_ok_def)
    show ?thesis
      using less.IH[OF po(2)] less.prems po
      by (cases "getHandle_root api Device (root w p) w" rule: act_result_cases)
         (auto simp: getHandle.simps[of _ _ b] resolve.simps[of _ b])
  qed
qed

section \<open>All buffers\<close>

definition sane :: "world \<Rightarrow> nat \<Rightarrow> bool" where
  "sane w b \<longleftrightarrow> b < length (objects w) \<and> synced (objects w ! b)"

definition buffers_wf :: "world \<Rightarrow> bool" where
  "buffers_wf w \<longleftrightarrow> blocks_ok w \<and> parents_ok (objects w) \<and> (\<forall>b \<in> set (m_MemBufferMap w). sane w b)"

lemma known_sane: "buffers_wf w \<Longrightarrow> known b w \<Longrightarrow> sane w b"
  by (simp add: buffers_wf_def known_def)

text \<open>The layer knows the buffer, and the one that has its memory.\<close>

definition live :: "world \<Rightarrow> nat \<Rightarrow> bool" where
  "live w b \<longleftrightarrow> known b w \<and> known (root w b) w"

text \<open>What a buffer or sub-buffer holds.\<close>

definition view :: "world \<Rightarrow> nat \<Rightarrow> u8 list option" where
  "view w b = map_option (\<lambda>bs. take (unat (Size (objects w ! b))) (drop (unat (base w b)) bs)) (contents w (root w b))"

text \<open>Nothing but the place of the data changes, and buffers that had no data may have got some.\<close>

definition same_data :: "world \<Rightarrow> world \<Rightarrow> bool" where
  "same_data w w' \<longleftrightarrow>
     buffers_wf w' \<and> length (objects w') = length (objects w) \<and> (\<forall>c. same_attributes (objects w ! c) (objects w' ! c)) \<and>
     user w' = user w \<and> m_MemBufferMap w' = m_MemBufferMap w \<and> released w' = released w \<and> bad_frees w' = bad_frees w \<and>
     Events w' = Events w \<and> DeferredEvents w' = DeferredEvents w \<and> next_block w \<le> next_block w' \<and>
     (\<forall>c. sane w c \<longrightarrow> sane w' c \<and> (contents w c \<noteq> None \<longrightarrow> contents w' c = contents w c)) \<and>
     (\<forall>blk < next_block w. (\<forall>c < length (objects w). \<forall>k. entry k (objects w ! c) \<noteq> Some blk) \<longrightarrow>
        cells w' blk = cells w blk \<and> (\<forall>c < length (objects w). \<forall>k. entry k (objects w' ! c) \<noteq> Some blk))"

lemma same_data_refl [simp]: "buffers_wf w \<Longrightarrow> same_data w w"
  by (simp add: same_data_def)

lemma same_data_resolve: "same_data w w' \<Longrightarrow> resolve (objects w') b = resolve (objects w) b"
  by (rule resolve_cong) (auto simp: same_data_def same_attributes_def)

lemma same_data_live: "same_data w w' \<Longrightarrow> live w' b = live w b"
  by (simp add: live_def known_def same_data_resolve) (simp add: same_data_def)

lemma same_data_view:
  "same_data w w' \<Longrightarrow> sane w (root w b) \<Longrightarrow> view w b = Some bs \<Longrightarrow> view w' b = Some bs"
  by (auto simp: view_def same_data_resolve) (auto simp: same_data_def same_attributes_def)

lemma same_data_trans: "same_data w w1 \<Longrightarrow> same_data w1 w2 \<Longrightarrow> same_data w w2"
  unfolding same_data_def same_attributes_def known_def by (auto simp: order_trans)

lemma wf_live:
  assumes "buffers_wf w" "live w b"
  shows "b < length (objects w)" "sane w (root w b)" "root w b < length (objects w)" "synced (objects w ! root w b)"
    "SubBuffer (objects w ! root w b) = None"
    "unat (base w b) + unat (Size (objects w ! b)) \<le> unat (Size (objects w ! root w b))"
  using assms resolve_root[of "objects w" b] resolve_range[of "objects w" b] by (auto simp: buffers_wf_def live_def known_def sane_def)

lemma same_outside_parents:
  assumes "same_outside b w w'" "parents_ok (objects w)"
  shows "parents_ok (objects w')" "same_attributes (objects w ! c) (objects w' ! c)"
proof -
  show *: "same_attributes (objects w ! c) (objects w' ! c)" for c
    using assms by (cases "c = b") (auto simp: same_outside_def)
  show "parents_ok (objects w')"
    using assms * by (auto simp: parents_ok_def same_attributes_def same_outside_def)
qed

text \<open>The data of other buffers stays, because none of their blocks is one of this buffer.\<close>

lemma extends_same_data:
  assumes wf: "buffers_wf w" and b: "b < length (objects w)" and x: "extends b w w1" and w': "same_outside b w1 w'"
    and low: "next_block w' = next_block w1" "cells w' = cells w1" "\<And>k. entry k (objects w' ! b) = entry k (objects w1 ! b)"
    and sy: "synced (objects w ! b) \<Longrightarrow> synced (objects w' ! b)"
    and data: "\<And>bs. synced (objects w ! b) \<Longrightarrow> contents w b = Some bs \<Longrightarrow> contents w' b = Some bs"
  shows "same_data w w'"
proof -
  have so: "same_outside b w w'"
    using x w' by (auto simp: extends_def intro: same_outside_trans)
  have ok: "blocks_ok w" using wf by (simp add: buffers_wf_def)
  have ent: "entry k (objects w' ! c) = (if c = b then entry k (objects w1 ! b) else entry k (objects w ! c))" for c k
    using so low(3) by (simp add: same_outside_def)
  have ok': "blocks_ok w'"
    by (rule blocks_ok_cong[OF extends_blocks_ok[OF x]])
       (use x w' low in \<open>auto simp: ent extends_def same_outside_def\<close>)
  have kept: "cells w' blk = cells w blk" if "keeps_block b w blk" for blk
    using x low(2) that by (simp add: extends_def)
  have other: "contents w' c = contents w c" if c: "c \<noteq> b" "sane w c" for c
  proof -
    have "keeps_block b w blk" if "LastSyncedDevice (objects w ! c) = Some (d, blk)" for d blk
      using that c blocks_below[OF ok, of c "Some d" blk] blocks_inj[OF ok _ b, of c "Some d" blk]
      by (auto simp: keeps_block_def synced_def sane_def)
    then show ?thesis
      using so c bytes_at_Block_cong[of w' _ w, OF kept]
      by (cases "LastSyncedDevice (objects w ! c)") (auto simp: contents_def same_outside_def)
  qed
  have sane: "sane w' c" if "sane w c" for c
    using that sy so by (cases "c = b") (auto simp: sane_def same_outside_def)
  have all: "contents w' c = contents w c" if "sane w c" "contents w c \<noteq> None" for c
    using that data other[of c] by (cases "c = b") (auto simp: sane_def)
  have free: "cells w' blk = cells w blk \<and> (\<forall>c < length (objects w). \<forall>k. entry k (objects w' ! c) \<noteq> Some blk)"
    if "blk < next_block w" "\<forall>c < length (objects w). \<forall>k. entry k (objects w ! c) \<noteq> Some blk" for blk
    using that b kept[of blk] extends_new[OF x, of _ blk] by (auto simp: ent keeps_block_def)
  have "buffers_wf w'"
    using wf so ok' sane same_outside_parents(1)[OF so] by (auto simp: buffers_wf_def same_outside_def)
  moreover have "next_block w \<le> next_block w'" "parents_ok (objects w)"
    using low x wf by (auto simp: extends_def buffers_wf_def)
  ultimately show ?thesis
    using so same_outside_parents(2)[OF so] sane all free by (simp add: same_data_def same_outside_def)
qed

lemma same_outside_synced:
  "b < length (objects w) \<Longrightarrow> same_outside b w (upd_buf b (\<lambda>buf. buf\<lparr>LastSyncedDevice := v\<rparr>) w)"
  by (simp add: same_outside_def same_attributes_def)

lemma getHandle_device_data:
  assumes run: "getHandle_device api dev b w = Some (r, w')" and wf: "buffers_wf w" and k: "sane w b"
  shows "same_data w w'"
    and "r = Inr h \<Longrightarrow> \<exists>blk. h = Block blk 0 \<and> LastSyncedDevice (objects w' ! b) = Some (dev, blk) \<and>
           entry (Some dev) (objects w' ! b) = Some blk"
    and "r = Inr h \<Longrightarrow> LastSyncedDevice (objects w ! b) = None \<Longrightarrow> HostPtr (objects w ! b) = Some host \<Longrightarrow>
           entry (Some dev) (objects w ! b) = None \<Longrightarrow> contents w' b = Some (bytes_at w (User host) (Size (objects w ! b)))"
proof -
  have ok: "blocks_ok w" and b: "b < length (objects w)" and sy: "synced (objects w ! b)"
    using wf k by (auto simp: buffers_wf_def sane_def)
  have "same_data w w' \<and> (r = Inr h \<longrightarrow> (\<exists>blk. h = Block blk 0 \<and> LastSyncedDevice (objects w' ! b) = Some (dev, blk) \<and>
           entry (Some dev) (objects w' ! b) = Some blk)) \<and> (r = Inr h \<longrightarrow> LastSyncedDevice (objects w ! b) = None \<longrightarrow>
           HostPtr (objects w ! b) = Some host \<longrightarrow> entry (Some dev) (objects w ! b) = None \<longrightarrow>
           contents w' b = Some (bytes_at w (User host) (Size (objects w ! b))))"
  proof (cases rule: getHandle_device_cases[OF run ok b sy])
    case (1 e)
    have "same_data w w'"
      by (rule extends_same_data[OF wf b 1(2)])
         (auto simp: synced_extends[OF sy 1(2)] contents_extends[OF 1(2) ok b sy])
    then show ?thesis using 1 by simp
  next
    case (2 blk w1)
    have b1: "b < length (objects w1)" and size1: "Size (objects w1 ! b) = Size (objects w ! b)"
      using b extends_length[OF 2(2)] extends_attributes[OF 2(2)] by auto
    have e: "entry l (buf\<lparr>LastSyncedDevice := v\<rparr>) = entry l buf" for l buf v
      by (simp add: entry_def)
    have c: "contents w' b = Some (bytes_at w1 (Block blk 0) (Size (objects w ! b)))"
      using b1 size1 bytes_at_Block_cong[of w' blk w1] by (simp add: 2(4) contents_def)
    have "same_data w w'"
      by (rule extends_same_data[OF wf b 2(2)])
         (use b1 2 in \<open>auto simp: same_outside_synced e synced_def c[unfolded 2(4)]\<close>)
    then show ?thesis
      using 2 b1 c e by auto
  qed
  then show "same_data w w'"
    and "r = Inr h \<Longrightarrow> \<exists>blk. h = Block blk 0 \<and> LastSyncedDevice (objects w' ! b) = Some (dev, blk) \<and>
           entry (Some dev) (objects w' ! b) = Some blk"
    and "r = Inr h \<Longrightarrow> LastSyncedDevice (objects w ! b) = None \<Longrightarrow> HostPtr (objects w ! b) = Some host \<Longrightarrow>
           entry (Some dev) (objects w ! b) = None \<Longrightarrow> contents w' b = Some (bytes_at w (User host) (Size (objects w ! b)))"
    by auto
qed

text \<open>A handle taken on a device stays good when another is taken on this device.\<close>

lemma getHandle_device_keeps_handle:
  assumes run: "getHandle_device api dev b w = Some (r, w')" and wf: "buffers_wf w" and k: "sane w b"
    and c: "LastSyncedDevice (objects w ! c) = Some (dev, blk)"
  shows "LastSyncedDevice (objects w' ! c) = Some (dev, blk)"
proof -
  have ok: "blocks_ok w" and b: "b < length (objects w)" and sy: "synced (objects w ! b)"
    using wf k by (auto simp: buffers_wf_def sane_def)
  show ?thesis
  proof (cases rule: getHandle_device_cases[OF run ok b sy])
    case 1
    then show ?thesis using c by (cases "c = b") (auto simp: extends_def same_outside_def)
  next
    case (2 blk' w1)
    have "blk' = blk" if "c = b"
      using 2(2,3) c sy that by (auto simp: extends_def synced_def)
    then show ?thesis
      using 2(2,4) c b extends_length[OF 2(2)] by (cases "c = b") (auto simp: extends_def same_outside_def)
  qed
qed

text \<open>A handle is the beginning of the buffer in the block of the device that is now synchronised.\<close>

definition handle_ok :: "world \<Rightarrow> nat \<Rightarrow> nat \<Rightarrow> ptr \<Rightarrow> bool" where
  "handle_ok w d b h \<longleftrightarrow> (\<exists>blk. LastSyncedDevice (objects w ! root w b) = Some (d, blk) \<and> h = Block blk (base w b))"

lemma getHandle_data:
  assumes run: "getHandle api Device b w = Some (r, w')" and wf: "buffers_wf w" and b: "b < length (objects w)" and k: "sane w (root w b)"
  shows "same_data w w'" "r = Inr h \<Longrightarrow> handle_ok w' (case Device of Some d \<Rightarrow> d | None \<Rightarrow> hd (Devices api)) b h"
    "handle_ok w d c h' \<Longrightarrow> d = (case Device of Some d \<Rightarrow> d | None \<Rightarrow> hd (Devices api)) \<Longrightarrow> handle_ok w' d c h'"
proof -
  have p: "parents_ok (objects w)" using wf by (simp add: buffers_wf_def)
  obtain r0 where 0: "getHandle_device api (case Device of Some d \<Rightarrow> d | None \<Rightarrow> hd (Devices api)) (root w b) w = Some (r0, w')"
    and r: "r = map_sum id (\<lambda>h. ptr_add h (base w b)) r0"
    using run by (auto simp: getHandle_resolve[OF p b] getHandle_root_def)
  show s: "same_data w w'"
    by (rule getHandle_device_data(1)[OF 0 wf k])
  show "handle_ok w' (case Device of Some d \<Rightarrow> d | None \<Rightarrow> hd (Devices api)) b h" if rh: "r = Inr h"
  proof -
    obtain h0 where "r0 = Inr h0" "h = ptr_add h0 (base w b)"
      using r rh by (cases r0) auto
    then show ?thesis
      using getHandle_device_data(2)[OF 0 wf k] by (auto simp: handle_ok_def same_data_resolve[OF s])
  qed
  show "handle_ok w' d c h'" if "handle_ok w d c h'" "d = (case Device of Some d \<Rightarrow> d | None \<Rightarrow> hd (Devices api))"
    using that getHandle_device_keeps_handle[OF 0 wf k, of "root w c"] same_data_resolve[OF s]
    by (auto simp: handle_ok_def live_def)
qed

lemma take_drop_bytes_at:
  assumes "unat off + unat n \<le> unat m"
  shows "take (unat n) (drop (unat off) (bytes_at w p m)) = bytes_at w (ptr_add p off) n"
proof (rule nth_equalityI)
  fix i assume i: "i < length (take (unat n) (drop (unat off) (bytes_at w p m)))"
  have "of_nat (unat off + i) = off + of_nat i" by simp
  then show "take (unat n) (drop (unat off) (bytes_at w p m)) ! i = bytes_at w (ptr_add p off) n ! i"
    using i assms by (simp del: of_nat_add)
qed (use assms in simp)

lemma handle_ok_view:
  assumes "buffers_wf w" "live w b" "handle_ok w d b h"
  shows "view w b = Some (bytes_at w h (Size (objects w ! b)))"
  using assms take_drop_bytes_at[OF wf_live(6)[OF assms(1,2)], of w "Block _ 0"]
  by (auto simp: view_def contents_def handle_ok_def)

end
