(* ===== verification/San_Buffer_Ops.thy ===== *)
theory San_Buffer_Ops
  imports San_Buffer_Data
begin

text \<open>
  The entry points for buffers do what they do on plain arrays: a sequence of reads, writes, fills and copies on
  queues of any devices, each complete before the next call and with calls that fail in between, behaves as one array of bytes for each buffer.
  Commands that are still pending when the next call is made follow in the theory on pending commands.
\<close>

section \<open>Writing through a handle\<close>

definition splice :: "u8 list \<Rightarrow> nat \<Rightarrow> u8 list \<Rightarrow> u8 list" where
  "splice bs off new = take off bs @ new @ drop (off + length new) bs"

lemma length_splice [simp]: "off + length new \<le> length bs \<Longrightarrow> length (splice bs off new) = length bs"
  by (simp add: splice_def)

lemma nth_splice:
  "off + length new \<le> length bs \<Longrightarrow> i < length bs \<Longrightarrow>
     splice bs off new ! i = (if off \<le> i \<and> i < off + length new then new ! (i - off) else bs ! i)"
  by (auto simp: splice_def nth_append)

lemma write_bytes_of_nat:
  assumes "unat a + length bs \<le> 2 ^ 64" "i < 2 ^ 64"
  shows "write_bytes a bs f (of_nat i) = (if unat a \<le> i \<and> i < unat a + length bs then bs ! (i - unat a) else f (of_nat i))"
proof -
  have "unat (of_nat i :: u64) = i" using assms(2) by (simp add: unat_of_nat take_bit_nat_eq_self)
  moreover have "unat a < 2 ^ 64" using unsigned_less[where ?'a = nat and w = a] by simp
  ultimately show ?thesis
    using assms by (auto simp: write_bytes_def unat_sub_if')
qed

lemma bytes_at_store_splice:
  assumes "unat off + length new \<le> unat n"
  shows "bytes_at (store (Block blk off) new w) (Block blk 0) n = splice (bytes_at w (Block blk 0) n) (unat off) new"
proof (rule nth_equalityI)
  fix i assume i: "i < length (bytes_at (store (Block blk off) new w) (Block blk 0) n)"
  have n: "unat n < 2 ^ 64" using unsigned_less[where ?'a = nat and w = n] by simp
  have "bytes_at (store (Block blk off) new w) (Block blk 0) n ! i = write_bytes off new (cells w blk) (of_nat i)"
    using i by (simp add: load_def)
  also have "\<dots> = splice (bytes_at w (Block blk 0) n) (unat off) new ! i"
    using assms i n by (subst write_bytes_of_nat) (simp_all add: nth_splice load_def)
  finally show "bytes_at (store (Block blk off) new w) (Block blk 0) n ! i = splice (bytes_at w (Block blk 0) n) (unat off) new ! i" .
qed (use assms in simp)

section \<open>Arrays\<close>

text \<open>One array for each of some buffers, and the memory of the application.\<close>

type_synonym arrays = "(nat \<rightharpoonup> u8 list) \<times> (u64 \<Rightarrow> u8)"

definition represents :: "world \<Rightarrow> arrays \<Rightarrow> bool" where
  "represents w s \<longleftrightarrow> snd s = user w \<and> (\<forall>r bs. fst s r = Some bs \<longrightarrow> known r w \<and> contents w r = Some bs)"

lemma represents_same_data: "represents w s \<Longrightarrow> buffers_wf w \<Longrightarrow> same_data w w' \<Longrightarrow> represents w' s"
  using known_sane[of w] by (auto simp: represents_def same_data_def known_def)

lemma represents_calls [simp]: "represents (w\<lparr>calls := n\<rparr>) s = represents w s"
  by (simp add: represents_def contents_def known_def bytes_at_def load_def)

lemma wf_calls [simp]: "buffers_wf (w\<lparr>calls := n\<rparr>) = buffers_wf w"
  by (simp add: buffers_wf_def sane_def)

lemma wf_store [simp]: "buffers_wf (store p bs w) = buffers_wf w"
  by (simp add: buffers_wf_def blocks_ok_def sane_def)

lemma represents_store_User:
  "represents w (A, U) \<Longrightarrow> represents (store (User a) bs w) (A, write_bytes a bs U)"
  by (auto simp: represents_def known_def contents_def bytes_at_def load_def)

text \<open>The blocks of different buffers are different.\<close>

lemma contents_store_other:
  assumes wf: "buffers_wf w" and r: "sane w r" "LastSyncedDevice (objects w ! r) = Some (d, blk)" and c: "sane w c" "c \<noteq> r"
  shows "contents (store (Block blk off) new w) c = contents w c"
proof (cases "LastSyncedDevice (objects w ! c)")
  case (Some p)
  obtain e x where p: "p = (e, x)" by (cases p)
  have "x \<noteq> blk"
    using Some p r c blocks_inj[of w c r "Some e" blk "Some d"] wf by (auto simp: buffers_wf_def synced_def sane_def)
  then show ?thesis
    using Some p by (simp add: contents_def bytes_at_def load_def)
qed (simp add: contents_def)

lemma represents_store_Block:
  assumes wf: "buffers_wf w" and rep: "represents w (A, U)" and h: "handle_ok w q b h" and l: "live w b"
    and A: "A (root w b) = Some bs" and n: "unat off + length new \<le> unat (Size (objects w ! b))"
  shows "represents (store (ptr_add h off) new w) (A(root w b \<mapsto> splice bs (unat (base w b) + unat off) new), U)"
proof -
  let ?r = "root w b"
  obtain d blk where ls: "LastSyncedDevice (objects w ! ?r) = Some (d, blk)" and hb: "h = Block blk (base w b)"
    using h by (auto simp: handle_ok_def)
  have range: "unat (base w b) + unat off + length new \<le> unat (Size (objects w ! ?r))"
    using wf_live(6)[OF wf l] n by simp
  moreover have "unat (Size (objects w ! ?r)) < 2 ^ 64"
    using unsigned_less[where ?'a = nat and w = "Size (objects w ! ?r)"] by simp
  ultimately have sum: "unat (base w b + off) = unat (base w b) + unat off"
    by (subst unat_plus_if') simp
  have bs: "bytes_at w (Block blk 0) (Size (objects w ! ?r)) = bs"
  proof -
    have "contents w ?r = Some bs" using rep A by (simp add: represents_def)
    then show ?thesis using ls by (simp add: contents_def)
  qed
  have other: "contents (store (Block blk (base w b + off)) new w) r = contents w r" if r: "known r w" "r \<noteq> ?r" for r
    by (rule contents_store_other[OF wf wf_live(2)[OF wf l] ls known_sane[OF wf r(1)] r(2)])
  have self: "contents (store (Block blk (base w b + off)) new w) ?r = Some (splice bs (unat (base w b) + unat off) new)"
    using ls bs sum range bytes_at_store_splice[of "base w b + off" new "Size (objects w ! ?r)" blk w]
    by (simp add: contents_def)
  show ?thesis
    unfolding represents_def
  proof (intro conjI allI impI)
    fix r bs' assume a: "fst (A(?r \<mapsto> splice bs (unat (base w b) + unat off) new), U) r = Some bs'"
    have "known r w" using a rep A by (auto simp: represents_def split: if_splits)
    then show "known r (store (ptr_add h off) new w)" by (simp add: known_def)
    show "contents (store (ptr_add h off) new w) r = Some bs'"
      using a self other[OF \<open>known r w\<close>] rep hb by (auto simp: represents_def split: if_splits)
  qed (use rep hb in \<open>simp add: represents_def\<close>)
qed

lemma represents_bytes:
  assumes "buffers_wf w" "represents w (A, U)" "handle_ok w q b h" "live w b" "A (root w b) = Some bs"
    and "unat off + unat n \<le> unat (Size (objects w ! b))"
  shows "bytes_at w (ptr_add h off) n = take (unat n) (drop (unat (base w b) + unat off) bs)"
proof -
  have "view w b = Some (bytes_at w h (Size (objects w ! b)))"
    by (rule handle_ok_view[OF assms(1,4,3)])
  moreover have "view w b = Some (take (unat (Size (objects w ! b))) (drop (unat (base w b)) bs))"
    using assms(2,5) by (auto simp: view_def represents_def)
  ultimately have "bytes_at w h (Size (objects w ! b)) = take (unat (Size (objects w ! b))) (drop (unat (base w b)) bs)"
    by simp
  then show ?thesis
    using take_drop_bytes_at[OF assms(6), of w h, symmetric] assms(6)
    by (simp add: drop_take min_def add.commute)
qed

section \<open>Operations\<close>

text \<open>An operation with its device; host addresses are addresses of the application.\<close>

datatype data_op =
    Read nat nat u64 u64 u64
  | Write nat nat u64 u64 u64
  | Fill nat nat "u8 list" u64 u64
  | Copy nat nat nat u64 u64 u64

fun run_op :: "buffer_api \<Rightarrow> data_op \<Rightarrow> unit act" where
  "run_op api (Read q b off n dst) = urEnqueueMemBufferRead api q b off n (User dst)"
| "run_op api (Write q b off n src) = urEnqueueMemBufferWrite api q b off n (User src)"
| "run_op api (Fill q b pattern off n) = urEnqueueMemBufferFill api q b pattern off n"
| "run_op api (Copy q s d so dof n) = urEnqueueMemBufferCopy api q s d so dof n"

text \<open>The same on arrays: \<open>place\<close> gives the array of a buffer and where in it the buffer begins.\<close>

definition slice_at :: "(nat \<Rightarrow> nat \<times> u64) \<Rightarrow> arrays \<Rightarrow> nat \<Rightarrow> u64 \<Rightarrow> u64 \<Rightarrow> u8 list" where
  "slice_at place s b off n =
     take (unat n) (drop (unat (snd (place b)) + unat off) (the (fst s (fst (place b)))))"

definition splice_at :: "(nat \<Rightarrow> nat \<times> u64) \<Rightarrow> nat \<Rightarrow> u64 \<Rightarrow> u8 list \<Rightarrow> arrays \<Rightarrow> arrays" where
  "splice_at place b off new s =
     ((fst s)(fst (place b) \<mapsto> splice (the (fst s (fst (place b)))) (unat (snd (place b)) + unat off) new), snd s)"

definition user_bytes :: "(u64 \<Rightarrow> u8) \<Rightarrow> u64 \<Rightarrow> u64 \<Rightarrow> u8 list" where
  "user_bytes U a n = map (\<lambda>i. U (a + of_nat i)) [0..<unat n]"

fun array_op :: "(nat \<Rightarrow> nat \<times> u64) \<Rightarrow> data_op \<Rightarrow> arrays \<Rightarrow> arrays" where
  "array_op place (Read q b off n dst) s = (fst s, write_bytes dst (slice_at place s b off n) (snd s))"
| "array_op place (Write q b off n src) s = splice_at place b off (user_bytes (snd s) src n) s"
| "array_op place (Fill q b pattern off n) s = splice_at place b off (fill_bytes pattern n) s"
| "array_op place (Copy q s d so dof n) t = splice_at place d dof (slice_at place t s so n) t"

text \<open>The range is within the buffer, and the buffer is one with an array.\<close>

definition in_range :: "world \<Rightarrow> arrays \<Rightarrow> nat \<Rightarrow> u64 \<Rightarrow> u64 \<Rightarrow> bool" where
  "in_range w s b off n \<longleftrightarrow>
     live w b \<and> fst s (root w b) \<noteq> None \<and> unat off + unat n \<le> unat (Size (objects w ! b))"

fun op_ok :: "world \<Rightarrow> arrays \<Rightarrow> data_op \<Rightarrow> bool" where
  "op_ok w s (Read q b off n dst) = in_range w s b off n"
| "op_ok w s (Write q b off n src) = in_range w s b off n"
| "op_ok w s (Fill q b pattern off n) = in_range w s b off n"
| "op_ok w s (Copy q b d so dof n) = (in_range w s b so n \<and> in_range w s d dof n)"

lemma intercept_Some:
  assumes "intercept api name b m w = Some (r, w')" "known b w"
  shows "(\<exists>e. r = Inl e) \<and> w' = w \<or> m w = Some (r, w')"
  using assms by (auto simp: intercept_def need_pfn_def act_simps split: if_splits)

lemma intercept2_Some:
  assumes "intercept2 api name s d m w = Some (r, w')" "known s w" "known d w"
  shows "(\<exists>e. r = Inl e) \<and> w' = w \<or> m w = Some (r, w')"
  using assms by (auto simp: intercept2_def need_pfn_def act_simps split: if_splits)

text \<open>What the state of the buffers says is the same when only the number of calls and the memory differ.\<close>

definition same_buffers :: "world \<Rightarrow> world \<Rightarrow> bool" where
  "same_buffers w w' \<longleftrightarrow> buffers_wf w' \<and> length (objects w') = length (objects w) \<and>
     (\<forall>c. same_attributes (objects w ! c) (objects w' ! c)) \<and> m_MemBufferMap w' = m_MemBufferMap w"

lemma same_data_buffers: "same_data w w' \<Longrightarrow> same_buffers w w'"
  by (simp add: same_data_def same_buffers_def)

lemma same_buffers_trans: "same_buffers w w1 \<Longrightarrow> same_buffers w1 w2 \<Longrightarrow> same_buffers w w2"
  by (simp add: same_buffers_def same_attributes_def)

lemma same_buffers_resolve: "same_buffers w w' \<Longrightarrow> resolve (objects w') = resolve (objects w)"
  by (rule ext, rule resolve_cong) (auto simp: same_buffers_def same_attributes_def)

lemma same_buffers_in_range: "same_buffers w w' \<Longrightarrow> in_range w' s b off n = in_range w s b off n"
  by (simp add: in_range_def live_def known_def same_buffers_resolve) (simp add: same_buffers_def same_attributes_def)

lemma same_buffers_op_ok: "same_buffers w w' \<Longrightarrow> op_ok w' s x = op_ok w s x"
  by (cases x) (simp_all add: same_buffers_in_range)

lemma same_buffers_memory [simp]: "buffers_wf w \<Longrightarrow> same_buffers w (store p bs (w\<lparr>calls := n\<rparr>))" "buffers_wf w \<Longrightarrow> same_buffers w (w\<lparr>calls := n\<rparr>)"
  by (simp_all add: same_buffers_def)

lemma handle_ok_calls [simp]: "handle_ok (w\<lparr>calls := n\<rparr>) q b h = handle_ok w q b h" "live (w\<lparr>calls := n\<rparr>) b = live w b"
  by (simp_all add: handle_ok_def live_def known_def)

lemma bytes_at_user: "represents w s \<Longrightarrow> bytes_at w (User a) n = user_bytes (snd s) a n"
  by (simp add: represents_def bytes_at_def load_def user_bytes_def)

lemma store_splice_at:
  assumes "buffers_wf w" "represents w s" "handle_ok w q b h" "in_range w s b off n" "length new = unat n"
  shows "represents (store (ptr_add h off) new (w\<lparr>calls := c\<rparr>)) (splice_at (resolve (objects w)) b off new s)"
  using assms represents_store_Block[of "w\<lparr>calls := c\<rparr>" "fst s" "snd s" q b h _ off new]
  by (auto simp: in_range_def splice_at_def)

lemma bytes_at_slice:
  assumes "buffers_wf w" "represents w s" "handle_ok w q b h" "in_range w s b off n"
  shows "bytes_at w (ptr_add h off) n = slice_at (resolve (objects w)) s b off n"
  using assms represents_bytes[of w "fst s" "snd s" q b h _ off n] by (auto simp: in_range_def slice_at_def)

lemma getHandle_represents:
  assumes "getHandle api (Some q) b w = Some (r, w')" "buffers_wf w" "represents w s" "in_range w s b off n"
  shows "same_buffers w w'" "buffers_wf w'" "represents w' s" "r = Inr h \<Longrightarrow> handle_ok w' q b h"
    "handle_ok w q c h' \<Longrightarrow> handle_ok w' q c h'"
  using getHandle_data[OF assms(1,2)] assms(2-4) represents_same_data[of w s w'] wf_live(1,2)[OF assms(2), of b]
  by (auto simp: in_range_def same_data_buffers same_data_def)

lemma getHandle_call:
  assumes run: "UR_CALL (getHandle api (Some q) b) k w = Some (r, w')" and wf: "buffers_wf w" and rep: "represents w s"
    and ok: "in_range w s b off n"
  obtains (failed) e where "r = Inl e" "same_buffers w w'" "represents w' s"
  | (handle) h w1 where "k h w1 = Some (r, w')" "buffers_wf w1" "same_buffers w w1" "represents w1 s" "handle_ok w1 q b h"
      "\<And>c h'. handle_ok w q c h' \<Longrightarrow> handle_ok w1 q c h'"
  using run getHandle_represents[OF _ wf rep ok] by (auto simp: act_simps)

lemma intercept_handle:
  assumes run: "intercept api name b (UR_CALL (getHandle api (Some q) b) k) w = Some (r, w')" and wf: "buffers_wf w"
    and rep: "represents w s" and ok: "in_range w s b off n"
  obtains (failed) e where "r = Inl e" "same_buffers w w'" "represents w' s"
  | (handle) h w1 where "k h w1 = Some (r, w')" "buffers_wf w1" "same_buffers w w1" "represents w1 s" "handle_ok w1 q b h"
proof -
  have "known b w" using ok by (simp add: in_range_def live_def)
  from intercept_Some[OF run this] show ?thesis
  proof (elim disjE)
    assume "(\<exists>e. r = Inl e) \<and> w' = w"
    then show ?thesis using failed wf rep same_data_buffers[OF same_data_refl[OF wf]] by blast
  next
    assume "UR_CALL (getHandle api (Some q) b) k w = Some (r, w')"
    from getHandle_call[OF this wf rep ok] show ?thesis using failed handle by metis
  qed
qed

lemma Read_refines:
  assumes run: "urEnqueueMemBufferRead api q b off n (User dst) w = Some (r, w')" and wf: "buffers_wf w" and rep: "represents w s"
    and ok: "in_range w s b off n"
  shows "same_buffers w w' \<and> represents w' (if r = Inr () then array_op (resolve (objects w)) (Read q b off n dst) s else s)"
proof (cases rule: intercept_handle[OF run[unfolded urEnqueueMemBufferRead_def] wf rep ok])
  case (2 h w1)
  have "bytes_at w1 (ptr_add h off) n = slice_at (resolve (objects w)) s b off n"
    using bytes_at_slice[OF 2(2,4,5)] ok 2(3) by (simp add: same_buffers_in_range same_buffers_resolve)
  then show ?thesis
    using USMMemcpy_run[OF 2(1)] 2 represents_store_User[of "w1\<lparr>calls := calls w1 + 1\<rparr>" "fst s" "snd s"]
    by (auto intro: same_buffers_trans)
qed simp

text \<open>The three operations that write end with a store to a handle.\<close>

lemma store_refines:
  assumes w1: "buffers_wf w1" "same_buffers w w1" "represents w1 s" "handle_ok w1 q b h" and ok: "in_range w s b off n"
    and run: "r \<noteq> Inr () \<and> w' = w1\<lparr>calls := calls w1 + 1\<rparr> \<or>
              r = Inr () \<and> w' = store (ptr_add h off) new (w1\<lparr>calls := calls w1 + 1\<rparr>)"
    and len: "length new = unat n"
  shows "same_buffers w w' \<and> represents w' (if r = Inr () then splice_at (resolve (objects w)) b off new s else s)"
  using run store_splice_at[OF w1(1,3,4), of off n new "calls w1 + 1"] ok len w1 same_buffers_resolve[OF w1(2)]
  by (auto simp: same_buffers_in_range intro: same_buffers_trans)

lemma Write_refines:
  assumes run: "urEnqueueMemBufferWrite api q b off n (User src) w = Some (r, w')" and wf: "buffers_wf w" and rep: "represents w s"
    and ok: "in_range w s b off n"
  shows "same_buffers w w' \<and> represents w' (if r = Inr () then array_op (resolve (objects w)) (Write q b off n src) s else s)"
proof (cases rule: intercept_handle[OF run[unfolded urEnqueueMemBufferWrite_def] wf rep ok])
  case (2 h w1)
  show ?thesis
    using store_refines[OF 2(2-5) ok, of r w' "user_bytes (snd s) src n"] USMMemcpy_run[OF 2(1)] bytes_at_user[OF 2(4), of src n]
    by (auto simp: user_bytes_def)
qed simp

lemma Fill_refines:
  assumes run: "urEnqueueMemBufferFill api q b pattern off n w = Some (r, w')" and wf: "buffers_wf w" and rep: "represents w s"
    and ok: "in_range w s b off n"
  shows "same_buffers w w' \<and> represents w' (if r = Inr () then array_op (resolve (objects w)) (Fill q b pattern off n) s else s)"
proof (cases rule: intercept_handle[OF run[unfolded urEnqueueMemBufferFill_def] wf rep ok])
  case (2 h w1)
  show ?thesis
    using store_refines[OF 2(2-5) ok, of r w' "fill_bytes pattern n"] 2(1)
    by (auto simp: USMFill_def act_simps fill_bytes_def split: if_splits)
qed simp


lemma Copy_refines:
  assumes run: "urEnqueueMemBufferCopy api q b d so dof n w = Some (r, w')" and wf: "buffers_wf w" and rep: "represents w s"
    and ok: "in_range w s b so n" "in_range w s d dof n"
  shows "same_buffers w w' \<and> represents w' (if r = Inr () then array_op (resolve (objects w)) (Copy q b d so dof n) s else s)"
proof -
  have k: "known b w" "known d w" using ok by (auto simp: in_range_def live_def)
  from intercept2_Some[OF run[unfolded urEnqueueMemBufferCopy_def] k] show ?thesis
  proof (elim disjE)
    assume "UR_CALL (getHandle api (Some q) b) (\<lambda>SrcHandle. UR_CALL (getHandle api (Some q) d)
      (\<lambda>DstHandle. USMMemcpy api (ptr_add DstHandle dof) (ptr_add SrcHandle so) n)) w = Some (r, w')"
    from getHandle_call[OF this wf rep ok(1)] show ?thesis
    proof cases
      case (2 h w1)
      have ok1: "in_range w1 s b so n" "in_range w1 s d dof n" using ok 2(3) by (simp_all add: same_buffers_in_range)
      note g = 2
      from getHandle_call[OF g(1,2,4) ok1(2)] show ?thesis
      proof cases
        case 1
        then show ?thesis using g(3) by (auto intro: same_buffers_trans)
      next
        case (2 hd w2)
        have w2: "same_buffers w w2" by (rule same_buffers_trans[OF g(3) 2(3)])
        have "handle_ok w2 q b h" by (rule 2(6)[OF g(5)])
        then have eq: "bytes_at w2 (ptr_add h so) n = slice_at (resolve (objects w)) s b so n"
          using bytes_at_slice[OF 2(2,4)] ok(1) w2 by (simp add: same_buffers_in_range same_buffers_resolve)
        have "length (slice_at (resolve (objects w)) s b so n) = unat n"
          unfolding eq[symmetric] by simp
        then show ?thesis
          using store_refines[OF 2(2) w2 2(4,5) ok(2), of r w' "slice_at (resolve (objects w)) s b so n"] USMMemcpy_run[OF 2(1)] eq
          by auto
      qed
    qed simp
  qed (use wf rep in \<open>auto simp: same_data_buffers\<close>)
qed

lemma run_op_refines:
  assumes "run_op api x w = Some (r, w')" "buffers_wf w" "represents w s" "op_ok w s x"
  shows "same_buffers w w' \<and> represents w' (if r = Inr () then array_op (resolve (objects w)) x s else s)"
proof (cases x)
  case (Read q b off n dst)
  then show ?thesis using assms Read_refines[of api q b off n dst w r w' s] by (simp only: run_op.simps op_ok.simps)
next
  case (Write q b off n src)
  then show ?thesis using assms Write_refines[of api q b off n src w r w' s] by (simp only: run_op.simps op_ok.simps)
next
  case (Fill q b pattern off n)
  then show ?thesis using assms Fill_refines[of api q b pattern off n w r w' s] by (simp only: run_op.simps op_ok.simps)
next
  case (Copy q b d so dof n)
  then show ?thesis using assms Copy_refines[of api q b d so dof n w r w' s] by (simp only: run_op.simps op_ok.simps)
qed

section \<open>Sequences of operations\<close>

fun run_ops :: "buffer_api \<Rightarrow> data_op list \<Rightarrow> world \<Rightarrow> ((ur_result + unit) list \<times> world) option" where
  "run_ops api [] w = Some ([], w)"
| "run_ops api (x # xs) w =
     Option.bind (run_op api x w) (\<lambda>(r, w1). Option.bind (run_ops api xs w1) (\<lambda>(rs, w2). Some (r # rs, w2)))"

text \<open>On arrays, only the operations that returned success take place.\<close>

fun array_ops :: "(nat \<Rightarrow> nat \<times> u64) \<Rightarrow> data_op list \<Rightarrow> (ur_result + unit) list \<Rightarrow> arrays \<Rightarrow> arrays" where
  "array_ops place (x # xs) (r # rs) s = array_ops place xs rs (if r = Inr () then array_op place x s else s)"
| "array_ops place _ _ s = s"

lemma dom_array_op: "op_ok w s x \<Longrightarrow> dom (fst (array_op (resolve (objects w)) x s)) = dom (fst s)"
  by (cases x) (auto simp: splice_at_def in_range_def)

lemma op_ok_dom:
  assumes "dom (fst s') = dom (fst s)"
  shows "op_ok w s' x = op_ok w s x"
proof -
  have "fst s' r = None \<longleftrightarrow> fst s r = None" for r using assms by blast
  then show ?thesis by (cases x) (simp_all add: in_range_def)
qed

section \<open>Calls return\<close>

definition total :: "'a act \<Rightarrow> bool" where
  "total m \<longleftrightarrow> (\<forall>w. m w \<noteq> None)"

named_theorems totals

lemma total_ret [totals]: "total (ret v)"
  by (simp add: total_def ret_def)

lemma total_throw [totals]: "total (throw e)"
  by (simp add: total_def throw_def)

lemma total_modify [totals]: "total (modify g)"
  by (simp add: total_def modify_def)

lemma total_driver_call [totals]: "total (driver_call f)"
  by (simp add: total_def driver_call_def)

lemma total_UR_ASSERT [totals]: "total (UR_ASSERT c e)"
  by (simp add: UR_ASSERT_def totals)

lemma total_with_world [totals]: "(\<And>w. total (k w)) \<Longrightarrow> total (with_world k)"
  by (simp add: total_def with_world_def)

lemma UR_CALL_returns: "m w \<noteq> None \<Longrightarrow> (\<And>v w1. m w = Some (Inr v, w1) \<Longrightarrow> k v w1 \<noteq> None) \<Longrightarrow> UR_CALL m k w \<noteq> None"
  by (cases "m w" rule: act_result_cases) (auto simp: UR_CALL_def)

lemma total_UR_CALL [totals]: "total m \<Longrightarrow> (\<And>v. total (k v)) \<Longrightarrow> total (UR_CALL m k)"
  unfolding total_def by (intro allI UR_CALL_returns) (simp_all only: not_False_eq_True simp_thms)

lemma total_copies [totals]:
  "total (USMMemcpy api dst src n)" "total (USMFill api dst pattern n)" "total (alloc_block api k n al)"
  by (auto simp: USMMemcpy_def USMFill_def alloc_block_def intro!: totals)

lemma total_ensure [totals]: "total (ensure_allocation api b k)"
  by (auto simp: ensure_allocation_def intro!: totals split: option.splits)

lemma total_device [totals]: "total (getHandle_device api dev b)"
  by (auto simp: getHandle_device_def allocate_device_def copy_host_data_def sync_device_def migrate_def
      intro!: totals split: option.splits)

lemma getHandle_returns:
  "buffers_wf w \<Longrightarrow> live w b \<Longrightarrow> getHandle api Device b w \<noteq> None"
  using total_device[of api _ "root w b"] getHandle_resolve[of w b api Device] wf_live(1)[of w b]
  by (simp add: buffers_wf_def getHandle_root_def total_def)

lemma getHandle_call_returns:
  "buffers_wf w \<Longrightarrow> live w b \<Longrightarrow> (\<And>h w1. getHandle api Device b w = Some (Inr h, w1) \<Longrightarrow> k h w1 \<noteq> None) \<Longrightarrow>
     UR_CALL (getHandle api Device b) k w \<noteq> None"
  by (rule UR_CALL_returns[OF getHandle_returns])

text \<open>
  Getting a handle for a buffer, or a sub-buffer, on any device returns, whatever the interceptor and the adapter
  answer: every buffer keeps the bytes it holds, sub-buffers too, the memory of the application does
  not change, and on success the handle points to the bytes the buffer holds.\<close>

theorem getHandle_keeps_data:
  assumes "buffers_wf w" "live w b"
  shows "\<exists>r w'. getHandle api Device b w = Some (r, w') \<and>
    buffers_wf w' \<and> user w' = user w \<and> m_MemBufferMap w' = m_MemBufferMap w \<and>
    (\<forall>c bs. live w c \<and> view w c = Some bs \<longrightarrow> live w' c \<and> view w' c = Some bs) \<and>
    (\<forall>h. r = Inr h \<longrightarrow> view w' b = Some (bytes_at w' h (Size (objects w ! b))))"
proof -
  obtain r w' where run: "getHandle api Device b w = Some (r, w')"
    using getHandle_returns[OF assms, of api Device] by auto
  note d = getHandle_data[OF run assms(1) wf_live(1,2)[OF assms]]
  have "buffers_wf w'" "user w' = user w" "m_MemBufferMap w' = m_MemBufferMap w" "Size (objects w' ! b) = Size (objects w ! b)"
    using d(1) by (auto simp: same_data_def same_attributes_def)
  then show ?thesis
    using run handle_ok_view[of w' b] d(2) assms same_data_live[OF d(1)] same_data_view[OF d(1)] wf_live(2)[OF assms(1)]
    by auto
qed

section \<open>Calls succeed\<close>

text \<open>An adapter with all functions, whose calls all succeed.\<close>

definition good_api :: "buffer_api \<Rightarrow> bool" where
  "good_api api \<longleftrightarrow>
     (\<forall>c. (\<forall>k n al. allocateMemory api c k n al = UR_RESULT_SUCCESS) \<and> pfnFree api c = UR_RESULT_SUCCESS \<and>
        pfnUSMMemcpy api c = UR_RESULT_SUCCESS \<and> pfnUSMFill api c = UR_RESULT_SUCCESS \<and>
        pfnEventsWait api c = UR_RESULT_SUCCESS \<and> pfnMem api c = UR_RESULT_SUCCESS) \<and>
     (\<forall>name. has_pfn api name)"

definition safe :: "'a act \<Rightarrow> bool" where
  "safe m \<longleftrightarrow> (\<forall>w e w'. m w \<noteq> Some (Inl e, w'))"

named_theorems safes

lemma safe_ret [safes]: "safe (ret v)"
  by (simp add: safe_def ret_def)

lemma safe_modify [safes]: "safe (modify g)"
  by (simp add: safe_def modify_def)

lemma safe_driver_call [safes]: "(\<And>c. f c = UR_RESULT_SUCCESS) \<Longrightarrow> safe (driver_call f)"
  by (simp add: safe_def driver_call_def)

lemma safe_with_world [safes]: "(\<And>w. safe (k w)) \<Longrightarrow> safe (with_world k)"
  by (simp add: safe_def with_world_def)

lemma safe_UR_CALL [safes]: "safe m \<Longrightarrow> (\<And>v. safe (k v)) \<Longrightarrow> safe (UR_CALL m k)"
  by (auto simp: safe_def UR_CALL_Some)

lemma safe_need_pfn [safes]: "good_api api \<Longrightarrow> safe (need_pfn api name)"
  by (simp add: need_pfn_def UR_ASSERT_def good_api_def safes)

lemma safe_copies [safes]:
  "good_api api \<Longrightarrow> safe (USMMemcpy api dst src n)" "good_api api \<Longrightarrow> safe (USMFill api dst pattern n)"
  "good_api api \<Longrightarrow> safe (alloc_block api k n al)"
  by (auto simp: USMMemcpy_def USMFill_def alloc_block_def good_api_def intro!: safes)

lemma safe_ensure [safes]: "good_api api \<Longrightarrow> safe (ensure_allocation api b k)"
  by (auto simp: ensure_allocation_def intro!: safes split: option.splits)

lemma safe_device [safes]: "good_api api \<Longrightarrow> safe (getHandle_device api dev b)"
  by (auto simp: getHandle_device_def allocate_device_def copy_host_data_def sync_device_def migrate_def
      intro!: safes split: option.splits)

lemma getHandle_succeeds:
  assumes "good_api api" "parents_ok (objects w)" "b < length (objects w)"
  shows "getHandle api Device b w \<noteq> Some (Inl e, w')"
proof
  assume "getHandle api Device b w = Some (Inl e, w')"
  then obtain r where "getHandle_root api Device (root w b) w = Some (r, w')" "map_sum id (\<lambda>h. ptr_add h (base w b)) r = Inl e"
    by (auto simp: getHandle_resolve[OF assms(2,3)])
  then show False
    using safe_device[OF assms(1)] by (cases r) (auto simp: getHandle_root_def safe_def)
qed

section \<open>An example\<close>

text \<open>A buffer of two bytes on device 0 and a sub-buffer of its second byte; one copy of the adapter fails.\<close>

definition two_bytes :: world where
  "two_bytes =
     \<lparr>objects = [(MemBuffer 2 None)\<lparr>Allocations := [(Some 0, Some 0)], LastSyncedDevice := Some (0, 0)\<rparr>, MemBuffer_sub 0 1 1],
      m_MemBufferMap = [1, 0], cells = \<lambda>_ _. 7, user = \<lambda>_. 9, next_block = 1, released = [], bad_frees = 0,
      next_event = 0, Events = [], DeferredEvents = [], calls = 0\<rparr>"

definition flaky_api :: buffer_api where
  "flaky_api =
     \<lparr>allocateMemory = \<lambda>_ _ _ _. UR_RESULT_SUCCESS, pfnFree = \<lambda>_. UR_RESULT_SUCCESS,
      pfnUSMMemcpy = \<lambda>c. if c = 5 then UR_RESULT_ERROR_OUT_OF_RESOURCES else UR_RESULT_SUCCESS,
      pfnUSMFill = \<lambda>_. UR_RESULT_SUCCESS, pfnEventsWait = \<lambda>_. UR_RESULT_SUCCESS, pfnMem = \<lambda>_. UR_RESULT_SUCCESS,
      has_pfn = \<lambda>_. True, Devices = [0, 1], HaltOnError = False\<rparr>"

lemma two_bytes_fields [simp]:
  "objects two_bytes ! 0 = (MemBuffer 2 None)\<lparr>Allocations := [(Some 0, Some 0)], LastSyncedDevice := Some (0, 0)\<rparr>"
  "objects two_bytes ! Suc 0 = MemBuffer_sub 0 1 1" "length (objects two_bytes) = 2"
  "m_MemBufferMap two_bytes = [1, 0]" "cells two_bytes = (\<lambda>_ _. 7)" "user two_bytes = (\<lambda>_. 9)" "next_block two_bytes = 1"
  by (simp_all add: two_bytes_def)

lemma two_bytes_resolve [simp]:
  "resolve (objects two_bytes) 0 = (0, 0)" "resolve (objects two_bytes) (Suc 0) = (0, 1)"
  by (simp_all add: resolve.simps MemBuffer_def MemBuffer_sub_def)

lemma two_bytes_wf: "buffers_wf two_bytes"
  by (auto simp: buffers_wf_def blocks_ok_def parents_ok_def sane_def synced_def entry_def MemBuffer_def MemBuffer_sub_def
      less_2_cases_iff split: if_splits)

lemma two_bytes_live: "live two_bytes 0" "live two_bytes (Suc 0)"
  by (simp_all add: live_def known_def)

lemma two_bytes_contents: "contents two_bytes 0 = Some [7, 7]"
  by (simp add: contents_def MemBuffer_def bytes_at_def load_def upt_rec)

theorem getHandle_keeps_data_witness:
  "buffers_wf two_bytes \<and> live two_bytes (Suc 0) \<and> (\<exists>r w'. getHandle flaky_api (Some 1) (Suc 0) two_bytes = Some (r, w') \<and>
     view w' (Suc 0) = Some [7])"
proof -
  have v: "view two_bytes (Suc 0) = Some [7]"
    by (simp add: view_def two_bytes_contents MemBuffer_sub_def)
  obtain r w' where "getHandle flaky_api (Some 1) (Suc 0) two_bytes = Some (r, w')"
    "\<forall>c bs. live two_bytes c \<and> view two_bytes c = Some bs \<longrightarrow> live w' c \<and> view w' c = Some bs"
    using getHandle_keeps_data[OF two_bytes_wf two_bytes_live(2), of flaky_api "Some 1"] by blast
  then show ?thesis
    using v two_bytes_wf two_bytes_live by blast
qed

section \<open>Reads, writes, fills and copies return\<close>

lemma intercept_returns: "m w \<noteq> None \<Longrightarrow> intercept api name b m w \<noteq> None"
  by (auto simp: intercept_def need_pfn_def UR_ASSERT_def UR_CALL_def ret_def throw_def with_world_def driver_call_def)

lemma intercept2_returns: "m w \<noteq> None \<Longrightarrow> intercept2 api name b d m w \<noteq> None"
  by (auto simp: intercept2_def need_pfn_def UR_ASSERT_def UR_CALL_def ret_def throw_def with_world_def driver_call_def)

lemma live_getHandle:
  assumes "getHandle api Device b w = Some (r, w1)" "buffers_wf w" "live w b"
  shows "buffers_wf w1" "live w1 c = live w c"
  using getHandle_data(1)[OF assms(1,2) wf_live(1,2)[OF assms(2,3)]] by (auto simp: same_data_def same_data_live)

lemma intercept_handle_returns:
  "buffers_wf w \<Longrightarrow> live w b \<Longrightarrow> (\<And>h. total (k h)) \<Longrightarrow>
     intercept api name b (UR_CALL (getHandle api Device b) k) w \<noteq> None"
  by (rule intercept_returns, rule getHandle_call_returns) (simp_all add: total_def)

lemma run_op_returns:
  assumes wf: "buffers_wf w" and ok: "op_ok w s x"
  shows "run_op api x w \<noteq> None"
proof (cases x)
  case (Copy q b d so dof n)
  have l: "live w b" "live w d" using ok Copy by (auto simp: in_range_def)
  show ?thesis
    unfolding Copy run_op.simps urEnqueueMemBufferCopy_def
    by (intro intercept2_returns getHandle_call_returns total_copies[unfolded total_def, rule_format])
       (use wf l live_getHandle in auto)
qed (use wf ok in \<open>simp_all only: run_op.simps op_ok.simps in_range_def urEnqueueMemBufferRead_def urEnqueueMemBufferWrite_def
       urEnqueueMemBufferFill_def intercept_handle_returns total_copies not_False_eq_True\<close>)

lemma run_op_succeeds:
  assumes api: "good_api api" and wf: "buffers_wf w" and ok: "op_ok w s x"
  shows "run_op api x w \<noteq> Some (Inl e, w')"
proof -
  have np: "need_pfn api name v \<noteq> Some (Inl a, v')" for name v a v'
    using safe_need_pfn[OF api] by (simp add: safe_def)
  have gh: "getHandle api Device b v \<noteq> Some (Inl a, v')" if "buffers_wf v" "live v b" for Device b v a v'
    using getHandle_succeeds[OF api] that wf_live(1)[of v b] by (simp add: buffers_wf_def)
  have cp: "USMMemcpy api dst src n v \<noteq> Some (Inl a, v')" "USMFill api dst pattern n v \<noteq> Some (Inl a, v')" for dst src pattern n v a v'
    using safe_copies[OF api] by (simp_all add: safe_def)
  have nw: "w1 = w" if "need_pfn api name w = Some (Inr u, w1)" for name u w1
    using that by (auto simp: need_pfn_def act_simps split: if_splits)
  show ?thesis
    using ok np gh cp wf live_getHandle[OF _ wf]
    by (cases x)
       (auto simp: in_range_def live_def urEnqueueMemBufferRead_def urEnqueueMemBufferWrite_def urEnqueueMemBufferFill_def
         urEnqueueMemBufferCopy_def intercept_def intercept2_def act_simps dest!: nw)
qed

text \<open>
  Operations each of which completes before the next call: whatever the devices of the queues and whatever calls into the interceptor and the adapter fail,
  they behave as on one array of bytes for each buffer. An operation that
  returns success has its effect on the arrays, and one that returns an error has none.\<close>

lemma run_ops_arrays:
  assumes "buffers_wf w" "represents w s" "list_all (op_ok w s) xs"
  shows "\<exists>rs w'. run_ops api xs w = Some (rs, w') \<and> length rs = length xs \<and>
    represents w' (array_ops (resolve (objects w)) xs rs s) \<and> (good_api api \<longrightarrow> rs = replicate (length xs) (Inr ()))"
  using assms
proof (induction xs arbitrary: w s)
  case (Cons x xs)
  obtain r w1 where 1: "run_op api x w = Some (r, w1)"
    using run_op_returns[OF Cons.prems(1), of s x api] Cons.prems(3) by auto
  let ?s = "if r = Inr () then array_op (resolve (objects w)) x s else s"
  have w1: "same_buffers w w1" "represents w1 ?s"
    using run_op_refines[OF 1] Cons.prems by auto
  have "dom (fst ?s) = dom (fst s)" using dom_array_op[of w s x] Cons.prems(3) by simp
  then have "list_all (op_ok w1 ?s) xs"
    using Cons.prems(3) same_buffers_op_ok[OF w1(1)] op_ok_dom[of ?s s] by (simp add: list_all_iff)
  moreover have "buffers_wf w1" using w1(1) by (simp add: same_buffers_def)
  ultimately obtain rs w' where "run_ops api xs w1 = Some (rs, w')" "length rs = length xs"
    "represents w' (array_ops (resolve (objects w1)) xs rs ?s)" "good_api api \<longrightarrow> rs = replicate (length xs) (Inr ())"
    using Cons.IH[of w1 ?s] w1(2) by blast
  moreover have "r = Inr ()" if "good_api api"
    using run_op_succeeds[OF that Cons.prems(1), of s x] Cons.prems(3) 1 by (cases r) auto
  ultimately show ?case
    using 1 same_buffers_resolve[OF w1(1)] by auto
qed simp

lemma two_bytes_represents: "represents two_bytes ([0 \<mapsto> [7, 7]], \<lambda>_. 9)"
  by (simp add: represents_def known_def two_bytes_contents)

end
