(* ===== verification/San_Buffer_Entry.thy ===== *)
theory San_Buffer_Entry
  imports San_Buffer_Ops
begin

text \<open>
  Making, dividing, mapping and releasing buffers of the address sanitizer.
\<close>

section \<open>Creation\<close>

text \<open>Nothing changes but one buffer.\<close>

definition others_same :: "nat \<Rightarrow> world \<Rightarrow> world \<Rightarrow> bool" where
  "others_same b w w' \<longleftrightarrow> same_buffers w w' \<and> user w' = user w \<and>
     (\<forall>c. sane w c \<longrightarrow> sane w' c \<and> (c \<noteq> b \<and> contents w c \<noteq> None \<longrightarrow> contents w' c = contents w c))"

lemma others_same_trans: "others_same b w w1 \<Longrightarrow> others_same b w1 w2 \<Longrightarrow> others_same b w w2"
  by (auto simp: others_same_def intro: same_buffers_trans)

lemma same_data_others: "same_data w w' \<Longrightarrow> others_same b w w'"
  by (auto simp: others_same_def same_data_buffers) (auto simp: same_data_def)

lemma sane_memory [simp]: "sane (store p bs w) c = sane w c" "sane (w\<lparr>calls := n\<rparr>) c = sane w c"
  by (simp_all add: sane_def)

lemma contents_calls [simp]: "contents (w\<lparr>calls := n\<rparr>) c = contents w c"
  by (simp add: contents_def bytes_at_def load_def)

lemma store_others:
  assumes "buffers_wf w" "sane w b" "LastSyncedDevice (objects w ! b) = Some (d, blk)"
  shows "others_same b w (store (Block blk off) new (w\<lparr>calls := n\<rparr>))"
  using contents_store_other[of "w\<lparr>calls := n\<rparr>" b d blk _ off new] assms by (auto simp: others_same_def)

lemma others_same_calls [simp]: "buffers_wf w \<Longrightarrow> others_same b w (w\<lparr>calls := n\<rparr>)"
  by (simp add: others_same_def)

lemma copy_step:
  assumes wf: "buffers_wf w" and b: "sane w b" "SubBuffer (objects w ! b) = None" "Size (objects w ! b) = n"
    and g: "getHandle api (Some d) b w = Some (Inr h, w1)" and c: "USMMemcpy api h (User host) n w1 = Some (r, w')"
  shows "others_same b w w'" "r = Inr () \<Longrightarrow> contents w' b = Some (bytes_at w (User host) n)"
proof -
  have root: "resolve (objects w) b = (b, 0)" using b(2) by (simp add: resolve.simps)
  note s = getHandle_data[OF g wf, unfolded root, simplified, OF b(1)[unfolded sane_def, THEN conjunct1] b(1)]
  have s1: "buffers_wf w1" "sane w1 b" "user w1 = user w" "Size (objects w1 ! b) = n" "resolve (objects w1) b = (b, 0)"
    using s(1) b root same_data_resolve[OF s(1)] by (auto simp: same_data_def same_attributes_def)
  obtain blk where h: "LastSyncedDevice (objects w1 ! b) = Some (d, blk)" "h = Block blk 0"
    using s(2)[of h] s1(5) by (auto simp: handle_ok_def)
  have "others_same b w1 w'"
    using USMMemcpy_run[OF c] h store_others[OF s1(1,2) h(1)] s1 by auto
  then show "others_same b w w'"
    by (rule others_same_trans[OF same_data_others[OF s(1)]])
  show "contents w' b = Some (bytes_at w (User host) n)" if "r = Inr ()"
    using USMMemcpy_run[OF c] that h s1 bytes_at_User_cong[OF s1(3)] by (auto simp: contents_def)
qed

lemma copy_to_devices_data:
  assumes "copy_to_devices api b host n ds w = Some (r, w')" "buffers_wf w" "sane w b" "SubBuffer (objects w ! b) = None"
    "Size (objects w ! b) = n"
  shows "others_same b w w' \<and>
    (r = Inr () \<and> (ds \<noteq> [] \<or> contents w b = Some (bytes_at w (User host) n)) \<longrightarrow> contents w' b = Some (bytes_at w (User host) n))"
  using assms
proof (induction ds arbitrary: w)
  case Nil
  then show ?case by (auto simp: act_simps others_same_def same_data_buffers)
next
  case (Cons d ds)
  note wf = Cons.prems(2-5)
  consider (no_handle) e where "getHandle api (Some d) b w = Some (Inl e, w')" "r = Inl e"
    | (no_copy) h w1 e where "getHandle api (Some d) b w = Some (Inr h, w1)" "USMMemcpy api h (User host) n w1 = Some (Inl e, w')" "r = Inl e"
    | (copied) h w1 w2 where "getHandle api (Some d) b w = Some (Inr h, w1)" "USMMemcpy api h (User host) n w1 = Some (Inr (), w2)"
        "copy_to_devices api b host n ds w2 = Some (r, w')"
    using Cons.prems(1) by (auto simp: act_simps)
  then show ?case
  proof cases
    case no_handle
    have "resolve (objects w) b = (b, 0)" using wf(3) by (simp add: resolve.simps)
    then show ?thesis
      using getHandle_data(1)[OF no_handle(1) wf(1)] wf(2) no_handle(2) same_data_others by (auto simp: sane_def)
  next
    case no_copy
    then show ?thesis using copy_step(1)[OF wf no_copy(1,2)] by simp
  next
    case copied
    note s = copy_step[OF wf copied(1,2)]
    have w2: "buffers_wf w2" "sane w2 b" "SubBuffer (objects w2 ! b) = None" "Size (objects w2 ! b) = n" "user w2 = user w"
      using s(1) wf by (auto simp: others_same_def same_buffers_def same_attributes_def)
    then show ?thesis
      using Cons.IH[OF copied(3) w2(1-4)] s others_same_trans[OF s(1)] bytes_at_User_cong[OF w2(5)] by auto
  qed
qed

lemma resolve_append:
  "parents_ok bufs \<Longrightarrow> b < length bufs \<Longrightarrow> resolve (bufs @ [x]) b = resolve bufs b"
proof (induction b rule: less_induct)
  case (less b)
  have "p < b" if "SubBuffer (bufs ! b) = Some (p, og)" for p og
    using less.prems that by (auto simp: parents_ok_def)
  then show ?case
    using less by (auto simp: resolve.simps[of _ b] nth_append split: option.splits)
qed

text \<open>A world with one more buffer, that has no memory yet.\<close>

abbreviation add_buffer :: "mem_buffer \<Rightarrow> world \<Rightarrow> world" where
  "add_buffer buf w \<equiv> w\<lparr>objects := objects w @ [buf]\<rparr>"

lemma add_buffer:
  assumes wf: "buffers_wf w" and buf: "Allocations buf = []" "LastSyncedDevice buf = None"
    and sub: "\<forall>p og. SubBuffer buf = Some (p, og) \<longrightarrow> p < length (objects w) \<and> unat og + unat (Size buf) \<le> unat (Size (objects w ! p))"
  shows "buffers_wf (add_buffer buf w)" "sane (add_buffer buf w) (length (objects w))"
    "sane w c \<Longrightarrow> sane (add_buffer buf w) c" "sane w c \<Longrightarrow> contents (add_buffer buf w) c = contents w c"
proof -
  have e: "entry k buf = None" for k using buf by (simp add: entry_def)
  have "blocks_ok (add_buffer buf w)"
  proof (rule blocks_okI)
    show "blk < next_block (add_buffer buf w)"
      if "b < length (objects (add_buffer buf w))" "entry k (objects (add_buffer buf w) ! b) = Some blk" for b k blk
      using that e wf blocks_below[of w b k blk] by (cases "b = length (objects w)") (auto simp: nth_append buffers_wf_def)
    show "b = c \<and> k = l"
      if "b < length (objects (add_buffer buf w))" "c < length (objects (add_buffer buf w))"
        "entry k (objects (add_buffer buf w) ! b) = Some blk" "entry l (objects (add_buffer buf w) ! c) = Some blk" for b c k l blk
      using that e wf blocks_inj[of w b c k blk l]
      by (cases "b = length (objects w)"; cases "c = length (objects w)") (auto simp: nth_append buffers_wf_def)
  qed
  moreover have "parents_ok (objects w @ [buf])"
    using wf sub by (auto simp: buffers_wf_def parents_ok_def nth_append less_Suc_eq)
  ultimately show "buffers_wf (add_buffer buf w)" "sane (add_buffer buf w) (length (objects w))"
    "sane w c \<Longrightarrow> sane (add_buffer buf w) c" "sane w c \<Longrightarrow> contents (add_buffer buf w) c = contents w c"
    using wf buf by (auto simp: buffers_wf_def sane_def synced_def nth_append contents_def bytes_at_def load_def)
qed

lemma live_add_buffer:
  assumes "buffers_wf w" "live w c"
  shows "live (add_buffer buf w) c" "root (add_buffer buf w) c = root w c" "root w c < length (objects w)"
    "Allocations buf = [] \<Longrightarrow> view (add_buffer buf w) c = view w c"
  using assms wf_live[OF assms] resolve_append[of "objects w" c buf]
  by (auto simp: live_def known_def buffers_wf_def view_def contents_def nth_append bytes_at_def load_def)

lemma others_same_view:
  assumes "others_same b w w'" "sane w (root w c)" "root w c \<noteq> b" "view w c = Some bs"
  shows "view w' c = Some bs"
  using assms same_buffers_resolve[of w w']
  by (auto simp: others_same_def view_def same_buffers_def same_attributes_def)

lemma others_same_live: "others_same b w w' \<Longrightarrow> live w' c = live w c"
  using same_buffers_resolve[of w w'] by (auto simp: others_same_def live_def known_def same_buffers_def)

lemma insert_buffer [simp]:
  "known c (insertMemBuffer b w) \<longleftrightarrow> c = b \<or> known c w" "objects (insertMemBuffer b w) = objects w"
  "contents (insertMemBuffer b w) c = contents w c" "view (insertMemBuffer b w) c = view w c"
  "set (m_MemBufferMap (insertMemBuffer b w)) = insert b (set (m_MemBufferMap w))"
  "sane (insertMemBuffer b w) c = sane w c" "blocks_ok (insertMemBuffer b w) = blocks_ok w"
  by (simp_all add: insertMemBuffer_def known_def contents_def view_def bytes_at_def load_def blocks_ok_def sane_def)

lemma insert_buffer_wf: "buffers_wf w \<Longrightarrow> sane w b \<Longrightarrow> buffers_wf (insertMemBuffer b w)"
  by (simp add: buffers_wf_def)

lemma copy_to_devices_returns:
  assumes "buffers_wf w" "sane w b" "SubBuffer (objects w ! b) = None" "Size (objects w ! b) = n"
  shows "copy_to_devices api b host n ds w \<noteq> None \<and> (good_api api \<longrightarrow> copy_to_devices api b host n ds w \<noteq> Some (Inl e, w'))"
  using assms
proof (induction ds arbitrary: w)
  case (Cons d ds)
  have b: "b < length (objects w)" "resolve (objects w) b = (b, 0)" "parents_ok (objects w)"
    using Cons.prems by (simp_all add: resolve.simps sane_def buffers_wf_def)
  have g: "getHandle api (Some d) b w \<noteq> None"
    using total_device[of api d b] getHandle_resolve[OF b(3,1), of api "Some d"] b(2) by (simp add: getHandle_root_def total_def)
  have step: "copy_to_devices api b host n ds w2 \<noteq> None \<and> (good_api api \<longrightarrow> copy_to_devices api b host n ds w2 \<noteq> Some (Inl e, w'))"
    if "getHandle api (Some d) b w = Some (Inr h, w1)" "USMMemcpy api h (User host) n w1 = Some (Inr (), w2)" for h w1 w2
  proof -
    have "others_same b w w2" by (rule copy_step(1)[OF Cons.prems that])
    then show ?thesis using Cons.IH Cons.prems by (auto simp: others_same_def same_buffers_def same_attributes_def)
  qed
  have "copy_to_devices api b host n (d # ds) w \<noteq> None"
    unfolding copy_to_devices.simps
    by (intro UR_CALL_returns g total_copies[unfolded total_def, rule_format]) (use step in auto)
  then show ?case
    using step getHandle_succeeds[of api w b] b safe_copies(1)[of api] by (auto simp: act_simps safe_def)
qed (simp add: ret_def)

text \<open>
  Creating a buffer with a copy of host data, on any number of devices, returns; a new buffer of
  the layer holds the host's bytes, every other buffer keeps its own, and nothing can fail but the calls into the
  interceptor and the adapter.\<close>

theorem urMemBufferCreate_copies_host:
  assumes wf: "buffers_wf w" and ds: "Devices api \<noteq> []"
  shows "\<exists>r w'. urMemBufferCreate api use_host True n (Some host) True w = Some (r, w') \<and> buffers_wf w' \<and>
    (\<forall>c bs. live w c \<and> view w c = Some bs \<longrightarrow> live w' c \<and> view w' c = Some bs) \<and>
    (\<forall>b. r = Inr b \<longrightarrow> \<not> known b w \<and> live w' b \<and> view w' b = Some (bytes_at w (User host) n)) \<and>
    (good_api api \<longrightarrow> (\<exists>b. r = Inr b))"
proof (cases "has_pfn api ''pfnBufferCreate''")
  case False
  then show ?thesis
    using wf by (auto simp: urMemBufferCreate_def need_pfn_def UR_ASSERT_def UR_CALL_def throw_def good_api_def)
next
  case True
  define buf where "buf = MemBuffer n (if use_host then Some host else None)"
  let ?b = "length (objects w)" and ?w = "add_buffer buf w"
  have buf: "Allocations buf = []" "LastSyncedDevice buf = None" "SubBuffer buf = None" "Size buf = n"
    by (simp_all add: buf_def MemBuffer_def)
  have "\<forall>p og. SubBuffer buf = Some (p, og) \<longrightarrow> p < ?b \<and> unat og + unat (Size buf) \<le> unat (Size (objects w ! p))"
    using buf(3) by simp
  note a = add_buffer[OF wf buf(1,2) this]
  have b: "buffers_wf ?w" "sane ?w ?b" "SubBuffer (objects ?w ! ?b) = None" "Size (objects ?w ! ?b) = n"
    using a buf by (auto simp: nth_append)
  have "copy_to_devices api ?b host n (Devices api) ?w \<noteq> None"
    by (rule copy_to_devices_returns[OF b, THEN conjunct1])
  then obtain r1 w1 where 1: "copy_to_devices api ?b host n (Devices api) ?w = Some (r1, w1)"
    by auto
  note o = copy_to_devices_data[OF 1 b]
  have keep: "live w1 c" "view w1 c = Some bs" if "live w c" "view w c = Some bs" for c bs
  proof -
    have "view ?w c = Some bs" "live ?w c" "root ?w c \<noteq> ?b" "sane ?w (root ?w c)"
      using live_add_buffer(1,2,4)[OF wf that(1), of buf] live_add_buffer(3)[OF wf that(1)] that
        a(3)[OF wf_live(2)[OF wf that(1)]] buf by auto
    then show "live w1 c" "view w1 c = Some bs"
      using others_same_view[of ?b ?w w1 c bs] others_same_live[of ?b ?w w1 c] o by auto
  qed
  have w1: "buffers_wf w1" "sane w1 ?b" "resolve (objects w1) ?b = (?b, 0)" "Size (objects w1 ! ?b) = n" "m_MemBufferMap w1 = m_MemBufferMap w"
    using o b by (auto simp: others_same_def same_buffers_def same_attributes_def resolve.simps)
  have "\<not> known ?b w" using wf by (auto simp: buffers_wf_def known_def sane_def)
  moreover have "urMemBufferCreate api use_host True n (Some host) True w =
      Some (case r1 of Inl e \<Rightarrow> (Inl e, w1) | Inr _ \<Rightarrow> (Inr ?b, insertMemBuffer ?b w1))"
    using True 1 by (cases r1)
      (simp_all add: urMemBufferCreate_def need_pfn_def UR_ASSERT_def UR_CALL_def ret_def with_world_def modify_def buf_def Let_def)
  moreover have "live (insertMemBuffer ?b w1) c" if "live w1 c" for c
    using that by (simp add: live_def)
  moreover have "view w1 ?b = Some (bytes_at w (User host) n)" "live (insertMemBuffer ?b w1) ?b" if "r1 = Inr ()"
    using o that ds w1 bytes_at_User_cong[of ?w w] by (simp_all add: view_def live_def)
  moreover have "r1 = Inr ()" if "good_api api"
    using copy_to_devices_returns[OF b, of api host "Devices api"] 1 that by (cases r1) auto
  ultimately show ?thesis
    using keep w1 insert_buffer_wf[OF w1(1,2)] by (cases r1) auto
qed

section \<open>Sub-buffers\<close>

text \<open>
  Dividing a buffer, where origin and size do not overflow: the call fails, and changes nothing, exactly when
  the adapter has no such function or the region does not fit; otherwise the new buffer holds the bytes of the
  region, and every buffer keeps its own.\<close>

theorem urMemBufferPartition_view:
  assumes wf: "buffers_wf w" and l: "live w b" and n: "unat origin + unat n < 2 ^ 64"
  shows "\<exists>r w'. urMemBufferPartition api b origin n w = Some (r, w') \<and> buffers_wf w' \<and>
    (\<forall>c bs. live w c \<and> view w c = Some bs \<longrightarrow> live w' c \<and> view w' c = Some bs) \<and>
    (if \<not> has_pfn api ''pfnBufferPartition'' then r = Inl UR_RESULT_ERROR_UNSUPPORTED_FEATURE \<and> w' = w
     else if unat (Size (objects w ! b)) < unat origin + unat n then r = Inl UR_RESULT_ERROR_INVALID_BUFFER_SIZE \<and> w' = w
     else \<exists>c. r = Inr (Some c) \<and> \<not> known c w \<and> live w' c \<and>
            view w' c = map_option (\<lambda>bs. take (unat n) (drop (unat origin) bs)) (view w b))"
proof -
  have k: "known b w" using l by (simp add: live_def)
  have sum: "unat (origin + n) = unat origin + unat n" using n by (subst unat_plus_if') simp
  define buf where "buf = MemBuffer_sub b origin n"
  let ?c = "length (objects w)" and ?w = "insertMemBuffer (length (objects w)) (add_buffer (MemBuffer_sub b origin n) w)"
  have buf: "Allocations buf = []" "LastSyncedDevice buf = None" "SubBuffer buf = Some (b, origin)" "Size buf = n"
    by (simp_all add: buf_def MemBuffer_sub_def)
  show ?thesis
  proof (cases "has_pfn api ''pfnBufferPartition'' \<and> unat origin + unat n \<le> unat (Size (objects w ! b))")
    case False
    then show ?thesis
      using wf k sum
      by (auto simp: urMemBufferPartition_def need_pfn_def UR_ASSERT_def UR_CALL_def ret_def throw_def with_world_def word_less_nat_alt)
  next
    case True
    have sub: "\<forall>p og. SubBuffer buf = Some (p, og) \<longrightarrow> p < ?c \<and> unat og + unat (Size buf) \<le> unat (Size (objects w ! p))"
      using True buf wf_live(1)[OF wf l] by simp
    note a = add_buffer[OF wf buf(1,2) sub, unfolded buf_def]
    have run: "urMemBufferPartition api b origin n w = Some (Inr (Some ?c), ?w)"
      using True k sum
      by (auto simp: urMemBufferPartition_def need_pfn_def UR_ASSERT_def UR_CALL_def ret_def with_world_def modify_def word_less_nat_alt)
    have new: "\<not> known ?c w" using wf by (auto simp: buffers_wf_def known_def sane_def)
    have p: "parents_ok (objects w)" "b < ?c" using wf wf_live(1)[OF wf l] by (auto simp: buffers_wf_def)
    have res: "resolve (objects ?w) ?c = (root w b, base w b + origin)"
      using resolve_append[OF p, of "MemBuffer_sub b origin n"] p(2) by (simp add: resolve.simps[of _ ?c] nth_append MemBuffer_sub_def)
    have kept: "live ?w c \<and> view ?w c = Some bs" if "live w c" "view w c = Some bs" for c bs
      using live_add_buffer(1,4)[OF wf that(1), of "MemBuffer_sub b origin n"] that by (auto simp: live_def MemBuffer_sub_def)
    have "unat (base w b) + unat origin \<le> unat (Size (objects w ! root w b))"
      using wf_live(6)[OF wf l] True by linarith
    then have "unat (base w b + origin) = unat (base w b) + unat origin"
      using unsigned_less[where ?'a = nat and w = "Size (objects w ! root w b)"] by (subst unat_plus_if') simp
    moreover have "contents ?w (root w b) = contents w (root w b)"
      using a(4)[OF wf_live(2)[OF wf l]] by simp
    moreover have "Size (objects ?w ! ?c) = n" by (simp add: nth_append MemBuffer_sub_def)
    ultimately have "view ?w ?c = map_option (\<lambda>bs. take (unat n) (drop (unat origin) bs)) (view w b)"
      using True unfolding view_def res
      by (auto simp: option.map_comp o_def drop_take min_def add.commute intro!: map_option_cong)
    moreover have "live ?w ?c" using res l by (simp add: live_def) (simp add: known_def)
    moreover have "buffers_wf ?w" using insert_buffer_wf[OF a(1,2)] .
    ultimately show ?thesis
      using run new kept True by auto
  qed
qed

text \<open>The sum of origin and size is not checked for overflow: a region before the buffer is accepted.\<close>

lemma urMemBufferPartition_overflow:
  "\<exists>w'. urMemBufferPartition flaky_api 0 (- 8) 9 two_bytes = Some (Inr (Some 2), w') \<and>
     SubBuffer (objects w' ! 2) = Some (0, - 8) \<and> Size (objects w' ! 0) = 2"
  by (simp add: urMemBufferPartition_def need_pfn_def UR_ASSERT_def UR_CALL_def ret_def with_world_def modify_def known_def flaky_api_def
      insertMemBuffer_def MemBuffer_def MemBuffer_sub_def nth_append)

section \<open>Release\<close>

lemma free_entries_good:
  assumes "good_api api" "list_all (\<lambda>(k, p). p \<noteq> None) es"
  shows "free_entries api es w = Some (Inr (), w\<lparr>calls := calls w + length es, released := released w @ map (the \<circ> snd) es\<rparr>)"
  using assms(2)
proof (induction es arbitrary: w)
  case (Cons e es)
  obtain k blk where e: "e = (k, Some blk)" using Cons.prems by (cases e) auto
  then show ?case
    using Cons assms(1) by (simp add: UR_CALL_def release_pointer_def driver_call_def modify_def good_api_def)
qed (simp add: ret_def)

definition released_world :: "nat \<Rightarrow> world \<Rightarrow> world" where
  "released_world b w = eraseMemBuffer b (upd_buf b (\<lambda>buf. buf\<lparr>RefCount := 0, Allocations := []\<rparr>)
     (w\<lparr>calls := calls w + length (Allocations (objects w ! b)),
        released := released w @ map (the \<circ> snd) (Allocations (objects w ! b))\<rparr>))"

lemma urMemRelease_last:
  assumes "good_api api" "known b w" "b < length (objects w)" "RefCount (objects w ! b) = 1"
    "list_all (\<lambda>(k, p). p \<noteq> None) (Allocations (objects w ! b))"
  shows "urMemRelease api b w = Some (Inr (), released_world b w)"
  using assms free_entries_good[OF assms(1,5), of "upd_buf b (\<lambda>buf. buf\<lparr>RefCount := RefCount buf - 1\<rparr>) w"]
  by (simp add: urMemRelease_def intercept_def need_pfn_def UR_ASSERT_def UR_CALL_def ret_def with_world_def modify_def
      good_api_def MemBuffer_free_def released_world_def) (simp add: upd_buf_def)

lemma erase_buffer [simp]:
  "known c (eraseMemBuffer b w) \<longleftrightarrow> c \<noteq> b \<and> known c w" "objects (eraseMemBuffer b w) = objects w"
  "cells (eraseMemBuffer b w) = cells w" "next_block (eraseMemBuffer b w) = next_block w" "user (eraseMemBuffer b w) = user w"
  "released (eraseMemBuffer b w) = released w" "set (m_MemBufferMap (eraseMemBuffer b w)) = set (m_MemBufferMap w) - {b}"
  by (auto simp: eraseMemBuffer_def known_def)

lemma released_world_fields:
  assumes "b < length (objects w)"
  shows "objects (released_world b w) ! b = (objects w ! b)\<lparr>RefCount := 0, Allocations := []\<rparr>"
    "c \<noteq> b \<Longrightarrow> objects (released_world b w) ! c = objects w ! c" "length (objects (released_world b w)) = length (objects w)"
    "cells (released_world b w) = cells w" "next_block (released_world b w) = next_block w" "user (released_world b w) = user w"
    "known c (released_world b w) \<longleftrightarrow> c \<noteq> b \<and> known c w"
    "set (m_MemBufferMap (released_world b w)) = set (m_MemBufferMap w) - {b}"
    "released (released_world b w) = released w @ map (the \<circ> snd) (Allocations (objects w ! b))"
  using assms by (auto simp: released_world_def upd_buf_def known_def)

lemma released_world_wf:
  assumes wf: "buffers_wf w" and b: "b < length (objects w)"
  shows "buffers_wf (released_world b w)" "resolve (objects (released_world b w)) = resolve (objects w)"
    "sane w c \<Longrightarrow> c \<noteq> b \<Longrightarrow> contents (released_world b w) c = contents w c"
proof -
  note f = released_world_fields[OF b]
  have e: "entry k ((objects w ! b)\<lparr>RefCount := 0, Allocations := []\<rparr>) = None" for k by (simp add: entry_def)
  have ent: "entry k (objects (released_world b w) ! c) = Some blk \<Longrightarrow> entry k (objects w ! c) = Some blk" for k c blk
    using e f(1,2) by (cases "c = b") auto
  have "blocks_ok (released_world b w)"
    by (rule blocks_ok_sub[of w]) (use wf ent f in \<open>auto simp: buffers_wf_def\<close>)
  moreover have "SubBuffer (objects (released_world b w) ! c) = SubBuffer (objects w ! c)" "Size (objects (released_world b w) ! c) = Size (objects w ! c)" for c
    using f(1,2) by (cases "c = b"; simp)+
  moreover from this show "resolve (objects (released_world b w)) = resolve (objects w)"
    by (intro ext resolve_cong)
  moreover have "sane (released_world b w) c" if "known c w" "c \<noteq> b" for c
    using known_sane[OF wf that(1)] that(2) f by (simp add: sane_def)
  ultimately show "buffers_wf (released_world b w)"
    using wf by (simp add: buffers_wf_def parents_ok_def f known_def)
  show "contents (released_world b w) c = contents w c" if "sane w c" "c \<noteq> b"
    using f that by (simp add: contents_def bytes_at_def load_def)
qed

text \<open>
  Releasing the last reference of a buffer whose allocations all succeeded, where no call fails, gives all its
  blocks back, takes it from the table of the layer, and keeps what every buffer holds whose
  memory is not in this one.\<close>

theorem urMemRelease_frees:
  assumes "buffers_wf w" "known b w" "good_api api" "RefCount (objects w ! b) = 1"
    "list_all (\<lambda>(k, p). p \<noteq> None) (Allocations (objects w ! b))"
  shows "\<exists>w'. urMemRelease api b w = Some (Inr (), w') \<and> buffers_wf w' \<and> \<not> known b w' \<and>
    released w' = released w @ map (the \<circ> snd) (Allocations (objects w ! b)) \<and> bad_frees w' = bad_frees w \<and>
    (\<forall>c bs. live w c \<and> c \<noteq> b \<and> root w c \<noteq> b \<and> view w c = Some bs \<longrightarrow> live w' c \<and> view w' c = Some bs)"
proof -
  have b: "b < length (objects w)" using known_sane[OF assms(1,2)] by (simp add: sane_def)
  note f = released_world_fields[OF b] and g = released_world_wf[OF assms(1) b]
  have "live (released_world b w) c \<and> view (released_world b w) c = Some bs"
    if "live w c" "c \<noteq> b" "root w c \<noteq> b" "view w c = Some bs" for c bs
    using that g(2) g(3)[OF wf_live(2)[OF assms(1) that(1)]] f(2)[of c] f(7) by (simp add: live_def view_def)
  moreover have "bad_frees (released_world b w) = bad_frees w"
    by (simp add: released_world_def eraseMemBuffer_def)
  ultimately show ?thesis
    using urMemRelease_last[OF assms(3,2) b assms(4,5)] f(7,9) g(1) by auto
qed

section \<open>Mapping\<close>

lemma getHandle_good:
  assumes "good_api api" "buffers_wf w" "live w b"
  obtains h w' where "getHandle api (Some q) b w = Some (Inr h, w')" "same_data w w'" "handle_ok w' q b h"
proof -
  obtain r w' where run: "getHandle api (Some q) b w = Some (r, w')"
    using getHandle_returns[OF assms(2,3), of api "Some q"] by auto
  have "parents_ok (objects w)" using assms(2) by (simp add: buffers_wf_def)
  then obtain h where r: "r = Inr h"
    using getHandle_succeeds[OF assms(1) _ wf_live(1)[OF assms(2,3)], of "Some q"] run by (cases r) auto
  then show ?thesis
    using getHandle_data[OF run assms(2) wf_live(1,2)[OF assms(2,3)]] run that by auto
qed

lemma USMMemcpy_good: "good_api api \<Longrightarrow> USMMemcpy api dst src n w = Some (Inr (), store dst (bytes_at w src n) (w\<lparr>calls := calls w + 1\<rparr>))"
  by (simp add: USMMemcpy_def UR_CALL_def driver_call_def modify_def good_api_def)

text \<open>Memory that is of no buffer.\<close>

definition unowned :: "world \<Rightarrow> nat \<Rightarrow> bool" where
  "unowned w blk \<longleftrightarrow> blk < next_block w \<and> (\<forall>c < length (objects w). \<forall>k. entry k (objects w ! c) \<noteq> Some blk)"

lemma unowned_same_data: "same_data w w' \<Longrightarrow> unowned w blk \<Longrightarrow> unowned w' blk \<and> cells w' blk = cells w blk"
  unfolding unowned_def same_data_def by auto

lemma contents_store_unowned:
  assumes "unowned w blk" "sane w c"
  shows "contents (store (Block blk off) new w) c = contents w c"
proof (cases "LastSyncedDevice (objects w ! c)")
  case (Some p)
  then have "snd p \<noteq> blk" using assms by (cases p) (auto simp: unowned_def sane_def synced_def)
  then show ?thesis using Some by (cases p) (simp add: contents_def bytes_at_def load_def)
qed (simp add: contents_def)

lemma represents_store_unowned:
  "buffers_wf w \<Longrightarrow> represents w s \<Longrightarrow> unowned w blk \<Longrightarrow> represents (store (Block blk off) new w) s"
  using known_sane[of w] contents_store_unowned[of w blk] by (auto simp: represents_def known_def)

text \<open>A change of the mappings of a buffer.\<close>

abbreviation set_mappings :: "nat \<Rightarrow> ((ptr \<times> (u64 \<times> u64)) list \<Rightarrow> (ptr \<times> (u64 \<times> u64)) list) \<Rightarrow> world \<Rightarrow> world" where
  "set_mappings b f \<equiv> upd_buf b (\<lambda>buf. buf\<lparr>Mappings := f (Mappings buf)\<rparr>)"

lemma set_mappings_nth:
  "objects (set_mappings b f w) ! c = (objects w ! c)\<lparr>Mappings := if b < length (objects w) \<and> c = b then f (Mappings (objects w ! b)) else Mappings (objects w ! c)\<rparr>"
  by (cases "b < length (objects w)") (auto simp: upd_buf_def nth_list_update list_update_beyond not_less)

lemma set_mappings_same [simp]:
  "resolve (objects (set_mappings b f w)) c = resolve (objects w) c" "contents (set_mappings b f w) c = contents w c"
  "sane (set_mappings b f w) c = sane w c" "known c (set_mappings b f w) = known c w" "live (set_mappings b f w) c = live w c"
  "unowned (set_mappings b f w) blk = unowned w blk" "represents (set_mappings b f w) s = represents w s"
proof -
  show r: "resolve (objects (set_mappings b f w)) c = resolve (objects w) c" for c
    by (rule resolve_cong) (simp add: set_mappings_nth)
  show k: "known c (set_mappings b f w) = known c w" for c
    by (simp add: known_def)
  show c: "contents (set_mappings b f w) c = contents w c" for c
    by (simp add: contents_def set_mappings_nth bytes_at_def load_def)
  show "sane (set_mappings b f w) c = sane w c"
    by (simp add: sane_def set_mappings_nth synced_def entry_def)
  show "unowned (set_mappings b f w) blk = unowned w blk"
    by (simp add: unowned_def set_mappings_nth entry_def)
  show "live (set_mappings b f w) c = live w c" "represents (set_mappings b f w) s = represents w s"
    by (simp_all add: live_def represents_def r k c)
qed

lemma set_mappings_wf [simp]: "buffers_wf w \<Longrightarrow> buffers_wf (set_mappings b f w)"
  using blocks_ok_cong[of w "set_mappings b f w"]
  by (auto simp: buffers_wf_def parents_ok_def set_mappings_nth entry_def)

lemma set_mappings_in_range [simp]: "in_range (set_mappings b f w) s c off n = in_range w s c off n"
  by (simp add: in_range_def) (simp add: set_mappings_nth)

lemma take_drop_splice:
  "off + length new \<le> n \<Longrightarrow> bs + n \<le> length cs \<Longrightarrow>
     take n (drop bs (splice cs (bs + off) new)) = splice (take n (drop bs cs)) off new"
  by (rule nth_equalityI) (auto simp: nth_splice)

lemma map_pointer_fresh:
  assumes "good_api api" "HostPtr (objects w ! b) = None"
  shows "map_pointer api b off n w = Some (Inr (Block (next_block w) 0), w\<lparr>calls := calls w + 1, next_block := next_block w + 1\<rparr>)"
  using assms by (simp add: map_pointer_def alloc_block_def UR_CALL_def driver_call_def modify_def ret_def with_world_def good_api_def)

lemma next_block_wf:
  assumes "buffers_wf w"
  shows "buffers_wf (w\<lparr>calls := c, next_block := next_block w + 1\<rparr>)" (is "buffers_wf ?w")
    "unowned (w\<lparr>calls := c, next_block := next_block w + 1\<rparr>) (next_block w)"
    "represents (w\<lparr>calls := c, next_block := next_block w + 1\<rparr>) s = represents w s"
    "live (w\<lparr>calls := c, next_block := next_block w + 1\<rparr>) b = live w b"
proof -
  have "blocks_ok w" using assms by (simp add: buffers_wf_def)
  then have "blocks_ok ?w" by (rule blocks_ok_cong) simp_all
  then show "buffers_wf ?w" using assms by (simp add: buffers_wf_def sane_def)
  show "unowned ?w (next_block w)"
    using blocks_below[OF \<open>blocks_ok w\<close>] by (force simp: unowned_def)
  show "represents ?w s = represents w s" "live ?w b = live w b"
    by (simp_all add: represents_def contents_def known_def bytes_at_def load_def live_def)
qed

text \<open>Mapping a part of a buffer without a host pointer.\<close>

lemma map_good:
  assumes api: "good_api api" and wf: "buffers_wf w" and rep: "represents w s" and ok: "in_range w s b off n"
    and host: "HostPtr (objects w ! b) = None" and fl: "translate_flags fl \<noteq> UNKNOWN"
    and fresh: "map_of (Mappings (objects w ! b)) (Block (next_block w) 0) = None"
  obtains w1 where "urEnqueueMemBufferMap api q b fl off n w = Some (Inr (Some (Block (next_block w) 0)), w1)"
    "buffers_wf w1" "represents w1 s" "unowned w1 (next_block w)" "resolve (objects w1) = resolve (objects w)"
    "in_range w1 s b off n" "HostPtr (objects w1 ! b) = None" "Size (objects w1 ! b) = Size (objects w ! b)"
    "bytes_at w1 (Block (next_block w) 0) n = slice_at (resolve (objects w)) s b off n" "released w1 = released w"
    "Mappings (objects w1 ! b) = AList.update (Block (next_block w) 0) (off, n) (Mappings (objects w ! b))"
proof -
  let ?m = "next_block w" and ?w0 = "w\<lparr>calls := calls w + 1, next_block := next_block w + 1\<rparr>"
  have l: "live w b" using ok by (simp add: in_range_def)
  note w0 = next_block_wf[OF wf, of "calls w + 1"]
  obtain h w2 where g: "getHandle api (Some q) b ?w0 = Some (Inr h, w2)" and sd: "same_data ?w0 w2" and h: "handle_ok w2 q b h"
    using getHandle_good[OF api w0(1), of b q] w0(4) l by blast
  have w2: "buffers_wf w2" "represents w2 s" "unowned w2 ?m" "same_buffers w w2" "released w2 = released w"
    using sd w0 represents_same_data[OF _ w0(1) sd] rep unowned_same_data[OF sd] by (auto simp: same_data_def same_buffers_def)
  define w3 where "w3 = store (Block ?m 0) (bytes_at w2 (ptr_add h off) n) (w2\<lparr>calls := calls w2 + 1\<rparr>)"
  have attr: "Mappings (objects w2 ! b) = Mappings (objects w ! b)" and b: "b < length (objects w2)"
    using w2(4) wf_live(1)[OF wf l] by (auto simp: same_buffers_def same_attributes_def)
  have un: "unowned w3 ?m" "buffers_wf w3" "represents w3 s" "same_buffers w w3"
    using w2 represents_store_unowned[of "w2\<lparr>calls := calls w2 + 1\<rparr>" s ?m]
    by (auto simp: w3_def unowned_def intro: same_buffers_trans)
  let ?w1 = "set_mappings b (AList.update (Block ?m 0) (off, n)) w3"
  have "urEnqueueMemBufferMap api q b fl off n w = Some (Inr (Some (Block ?m 0)), ?w1)"
    using api l fl fresh attr g map_pointer_fresh[OF api host, of off n] USMMemcpy_good[OF api, of "Block ?m 0" "ptr_add h off" n w2]
    by (simp add: urEnqueueMemBufferMap_def need_pfn_def UR_ASSERT_def UR_CALL_def ret_def with_world_def modify_def good_api_def
        live_def w3_def)
  moreover have "bytes_at ?w1 (Block ?m 0) n = slice_at (resolve (objects w)) s b off n"
  proof -
    have "bytes_at ?w1 (Block ?m 0) n = bytes_at w3 (Block ?m 0) n" by (rule bytes_at_Block_cong) simp
    also have "\<dots> = bytes_at w2 (ptr_add h off) n" by (simp add: w3_def)
    finally show ?thesis
      using bytes_at_slice[OF w2(1,2) h] ok w2(4) by (simp add: same_buffers_in_range same_buffers_resolve)
  qed
  moreover have "resolve (objects ?w1) = resolve (objects w)" "in_range ?w1 s b off n"
    using same_buffers_resolve[OF un(4)] same_buffers_in_range[OF un(4), of s b off n] ok by (auto simp: fun_eq_iff)
  moreover have "HostPtr (objects ?w1 ! b) = None" "Size (objects ?w1 ! b) = Size (objects w ! b)"
    using un(4) host by (simp_all add: set_mappings_nth same_buffers_def same_attributes_def)
  ultimately show ?thesis
    using that[of ?w1] un attr b w2(5) by (simp add: w3_def)
qed

lemma released_same [simp]:
  "buffers_wf (w\<lparr>calls := c, released := rl\<rparr>) = buffers_wf w" "represents (w\<lparr>calls := c, released := rl\<rparr>) s = represents w s"
  by (simp_all add: buffers_wf_def sane_def blocks_ok_def represents_def known_def contents_def bytes_at_def load_def)

lemma unmap_good:
  assumes api: "good_api api" and wf: "buffers_wf w" and rep: "represents w s" and ok: "in_range w s b off n"
    and host: "HostPtr (objects w ! b) = None" and mp: "map_of (Mappings (objects w ! b)) (Block m 0) = Some (off, n)"
    and un: "unowned w m"
  obtains w2 where "urEnqueueMemUnmap api q b (Block m 0) w = Some (Inr (), w2)" "buffers_wf w2"
    "represents w2 (splice_at (resolve (objects w)) b off (bytes_at w (Block m 0) n) s)" "released w2 = released w @ [m]"
    "Mappings (objects w2 ! b) = AList.delete (Block m 0) (Mappings (objects w ! b))"
    "resolve (objects w2) = resolve (objects w)" "Size (objects w2 ! b) = Size (objects w ! b)"
proof -
  let ?w0 = "set_mappings b (AList.delete (Block m 0)) w"
  have l: "live w b" using ok by (simp add: in_range_def)
  have b: "b < length (objects w)" by (rule wf_live(1)[OF wf l])
  have w0: "buffers_wf ?w0" "represents ?w0 s" "live ?w0 b" "unowned ?w0 m" "in_range ?w0 s b off n" using wf rep l un ok by simp_all
  obtain h w1 where g: "getHandle api (Some q) b ?w0 = Some (Inr h, w1)" and sd: "same_data ?w0 w1" and h: "handle_ok w1 q b h"
    using getHandle_good[OF api w0(1,3)] by blast
  have w1: "buffers_wf w1" "represents w1 s" "in_range w1 s b off n" "resolve (objects w1) = resolve (objects w)"
    using sd represents_same_data[OF w0(2,1) sd] same_buffers_in_range[OF same_data_buffers[OF sd], of s b off n] w0(5)
      same_buffers_resolve[OF same_data_buffers[OF sd]] by (auto simp: same_data_def fun_eq_iff)
  have d: "bytes_at w1 (Block m 0) n = bytes_at w (Block m 0) n"
    by (rule bytes_at_Block_cong) (use unowned_same_data[OF sd w0(4)] in simp)
  have attr: "Mappings (objects w1 ! b) = AList.delete (Block m 0) (Mappings (objects w ! b))" "Size (objects w1 ! b) = Size (objects w ! b)"
      "released w1 = released w" "length (objects w1) = length (objects w)"
    using sd b by (auto simp: same_data_def same_attributes_def)
  define w2 where "w2 = store (ptr_add h off) (bytes_at w (Block m 0) n) (w1\<lparr>calls := calls w1 + 1\<rparr>)"
  have "represents w2 (splice_at (resolve (objects w)) b off (bytes_at w (Block m 0) n) s)"
    using store_splice_at[OF w1(1,2) h w1(3), of "bytes_at w (Block m 0) n"] w1(4) by (simp add: w2_def)
  moreover have "urEnqueueMemUnmap api q b (Block m 0) w = Some (Inr (), w2\<lparr>calls := calls w2 + 1, released := released w2 @ [m]\<rparr>)"
    using api l mp host g d USMMemcpy_good[OF api, of "ptr_add h off" "Block m 0" n w1]
    by (simp add: urEnqueueMemUnmap_def intercept_def need_pfn_def UR_ASSERT_def UR_CALL_def ret_def with_world_def modify_def good_api_def
        live_def w2_def release_pointer_def block_of_def driver_call_def)
  ultimately show ?thesis
    using that attr w1(1,4) by (auto simp: w2_def)
qed

text \<open>
  C22: Mapping a part of a buffer that has no host pointer, where no call fails and each command completes before the next call, gives memory with the bytes
  of this part and changes no buffer. When the application has written to this memory and done nothing else, unmapping it once, on a queue of any
  device, puts the bytes into the buffer, releases the memory and removes the mapping.\<close>

theorem map_unmap_roundtrip:
  assumes api: "good_api api" and wf: "buffers_wf w" and l: "live w b" and v: "view w b = Some bs"
    and n: "unat off + unat n \<le> unat (Size (objects w ! b))"
    and host: "HostPtr (objects w ! b) = None" and fl: "translate_flags fl \<noteq> UNKNOWN"
    and fresh: "Block (next_block w) 0 \<notin> fst ` set (Mappings (objects w ! b))"
  shows "\<exists>p w1. urEnqueueMemBufferMap api q b fl off n w = Some (Inr (Some p), w1) \<and>
    bytes_at w1 p n = take (unat n) (drop (unat off) bs) \<and> view w1 b = Some bs \<and>
    (\<forall>new q'. length new = unat n \<longrightarrow> (\<exists>w2. urEnqueueMemUnmap api q' b p (store p new w1) = Some (Inr (), w2) \<and> buffers_wf w2 \<and>
       view w2 b = Some (splice bs (unat off) new) \<and> released w2 = released w @ [next_block w] \<and>
       Mappings (objects w2 ! b) = Mappings (objects w ! b)))"
proof -
  let ?m = "next_block w" and ?k = "unat (Size (objects w ! b))"
  obtain cs where cs: "contents w (root w b) = Some cs" and bs: "bs = take ?k (drop (unat (base w b)) cs)"
    using v by (auto simp: view_def)
  define s where "s = ([root w b \<mapsto> cs], user w)"
  have rep: "represents w s" and ok: "in_range w s b off n"
    using cs l n by (auto simp: s_def represents_def live_def in_range_def)
  have len: "unat (base w b) + ?k \<le> length cs"
    using wf_live(6)[OF wf l] cs by (auto simp: contents_def)
  have vw: "view x b = Some bs" if "represents x s" "resolve (objects x) = resolve (objects w)" "Size (objects x ! b) = Size (objects w ! b)" for x
    using that bs by (simp add: view_def represents_def s_def)
  have f: "map_of (Mappings (objects w ! b)) (Block ?m 0) = None"
    using fresh by (simp add: map_of_eq_None_iff)
  obtain w1 where w1: "urEnqueueMemBufferMap api q b fl off n w = Some (Inr (Some (Block ?m 0)), w1)" "buffers_wf w1" "represents w1 s"
    "unowned w1 ?m" "resolve (objects w1) = resolve (objects w)" "in_range w1 s b off n" "HostPtr (objects w1 ! b) = None"
    "Size (objects w1 ! b) = Size (objects w ! b)"
    "bytes_at w1 (Block ?m 0) n = slice_at (resolve (objects w)) s b off n" "released w1 = released w"
    "Mappings (objects w1 ! b) = AList.update (Block ?m 0) (off, n) (Mappings (objects w ! b))"
    using map_good[OF api wf rep ok host fl f] by metis
  have unmap: "\<exists>w2. urEnqueueMemUnmap api q' b (Block ?m 0) (store (Block ?m 0) new w1) = Some (Inr (), w2) \<and> buffers_wf w2 \<and>
       view w2 b = Some (splice bs (unat off) new) \<and> released w2 = released w @ [?m] \<and> Mappings (objects w2 ! b) = Mappings (objects w ! b)"
    if new: "length new = unat n" for new q'
  proof -
    let ?x = "store (Block ?m 0) new w1"
    have x: "buffers_wf ?x" "represents ?x s" "unowned ?x ?m" "in_range ?x s b off n"
      "map_of (Mappings (objects ?x ! b)) (Block ?m 0) = Some (off, n)"
      using w1 represents_store_unowned[OF w1(2-4), of 0 new]
      by (auto simp: unowned_def in_range_def live_def known_def update_conv')
    obtain w2 where w2: "urEnqueueMemUnmap api q' b (Block ?m 0) ?x = Some (Inr (), w2)" "buffers_wf w2"
      "represents w2 (splice_at (resolve (objects ?x)) b off (bytes_at ?x (Block ?m 0) n) s)" "released w2 = released ?x @ [?m]"
      "Mappings (objects w2 ! b) = AList.delete (Block ?m 0) (Mappings (objects ?x ! b))"
      "resolve (objects w2) = resolve (objects ?x)" "Size (objects w2 ! b) = Size (objects ?x ! b)"
      using unmap_good[OF api x(1,2,4) _ x(5,3), of q'] w1(7) by (metis store_Block(3))
    have "contents w2 (root w b) = Some (splice cs (unat (base w b) + unat off) new)"
      using w2(3) new w1(5) by (simp add: splice_at_def represents_def s_def)
    then have "view w2 b = Some (splice bs (unat off) new)"
      using w2(6,7) w1(5,8) take_drop_splice[of "unat off" new ?k "unat (base w b)" cs] len n new bs by (simp add: view_def)
    then show ?thesis
      using w2 w1 fresh by (simp add: delete_update_same delete_id)
  qed
  moreover have "slice_at (resolve (objects w)) s b off n = take (unat n) (drop (unat off) bs)"
    using n by (simp add: slice_at_def s_def bs drop_take min_def add.commute)
  ultimately show ?thesis
    using w1(1,3,5,8,9) vw[of w1] by auto
qed

section \<open>Where the code fails\<close>

lemmas run_defs = ret_def throw_def UR_CALL_def UR_ASSERT_def with_world_def modify_def driver_call_def upd_buf_def store_def load_def
  USMMemcpy_def alloc_block_def release_pointer_def entry_def set_entry_def ensure_allocation_def copy_host_data_def migrate_def
  sync_device_def allocate_device_def getHandle_device_def getHandle_root_def MemBuffer_free_def need_pfn_def known_def
  intercept_def insertMemBuffer_def eraseMemBuffer_def MemBuffer_def MemBuffer_sub_def getHandle.simps[of _ _ 0]

text \<open>An adapter that fails in one call, and worlds with one or no buffer.\<close>

definition failing_api :: "nat \<Rightarrow> bool \<Rightarrow> buffer_api" where
  "failing_api n halt =
     \<lparr>allocateMemory = \<lambda>c _ _ _. if c = n then UR_RESULT_ERROR_OUT_OF_RESOURCES else UR_RESULT_SUCCESS,
      pfnFree = \<lambda>c. if c = n then UR_RESULT_ERROR_OUT_OF_RESOURCES else UR_RESULT_SUCCESS,
      pfnUSMMemcpy = \<lambda>c. if c = n then UR_RESULT_ERROR_OUT_OF_RESOURCES else UR_RESULT_SUCCESS,
      pfnUSMFill = \<lambda>_. UR_RESULT_SUCCESS, pfnEventsWait = \<lambda>_. UR_RESULT_SUCCESS, pfnMem = \<lambda>_. UR_RESULT_SUCCESS,
      has_pfn = \<lambda>_. True, Devices = [0], HaltOnError = halt\<rparr>"

definition start_world :: "mem_buffer list \<Rightarrow> world" where
  "start_world bufs =
     \<lparr>objects = bufs, m_MemBufferMap = [0..<length bufs], cells = \<lambda>_ _. 7, user = \<lambda>_. 9, next_block = 0, released = [],
      bad_frees = 0, next_event = 0, Events = [], DeferredEvents = [], calls = 0\<rparr>"

text \<open>
  A buffer with a host pointer whose copy to the device fails: the allocation stays in the table without the data, and
  the next call returns it with success.
\<close>

lemma getHandle_after_failed_host_copy:
  "\<exists>w1 w2. getHandle (failing_api 1 False) (Some 0) 0 (start_world [MemBuffer 1 (Some 100)]) =
        Some (Inl UR_RESULT_ERROR_OUT_OF_RESOURCES, w1) \<and>
     getHandle (failing_api 1 False) (Some 0) 0 w1 = Some (Inr (Block 0 0), w2) \<and>
     contents w2 0 = Some [7] \<and> bytes_at w2 (User 100) 1 = [9]"
  by (simp add: run_defs failing_api_def start_world_def contents_def bytes_at_def)

text \<open>After a failed allocation the null entry stays in the table: releasing the buffer reports a bad free, or ends the process.\<close>

lemma urMemRelease_after_failed_allocation:
  "\<exists>w1 w2. getHandle (failing_api 0 False) (Some 0) 0 (start_world [MemBuffer 1 None]) =
        Some (Inl UR_RESULT_ERROR_OUT_OF_RESOURCES, w1) \<and>
     urMemRelease (failing_api 0 False) 0 w1 = Some (Inr (), w2) \<and> bad_frees w2 = 1 \<and>
     urMemRelease (failing_api 0 True) 0 w1 = None"
  by (simp add: run_defs failing_api_def start_world_def urMemRelease_def)

text \<open>When a release of memory fails the count is 0 already: the next call makes it negative, returns success and frees nothing.\<close>

lemma urMemRelease_after_failure:
  "\<exists>w1 w2 w3. getHandle (failing_api 1 False) (Some 0) 0 (start_world [MemBuffer 1 None]) = Some (Inr (Block 0 0), w1) \<and>
     urMemRelease (failing_api 1 False) 0 w1 = Some (Inl UR_RESULT_ERROR_OUT_OF_RESOURCES, w2) \<and>
     urMemRelease (failing_api 1 False) 0 w2 = Some (Inr (), w3) \<and> released w3 = [] \<and> RefCount (objects w3 ! 0) = - 1 \<and> known 0 w3"
  by (simp add: run_defs failing_api_def start_world_def urMemRelease_def)

text \<open>A creation that fails in a copy forgets the buffer and the memory it has.\<close>

lemma urMemBufferCreate_failure_leaks:
  "\<exists>w1. urMemBufferCreate (failing_api 1 False) False True 1 (Some 100) True (start_world []) =
        Some (Inl UR_RESULT_ERROR_OUT_OF_RESOURCES, w1) \<and>
     entry (Some 0) (objects w1 ! 0) = Some 0 \<and> m_MemBufferMap w1 = [] \<and> released w1 = []"
  by (simp add: run_defs failing_api_def start_world_def urMemBufferCreate_def Let_def)

text \<open>A sub-buffer does not keep its parent's memory: after the parent is released it gets a new block, without the data.\<close>

lemma parent_released:
  "\<exists>w1 w2. urMemRelease flaky_api 0 two_bytes = Some (Inr (), w1) \<and> released w1 = [0] \<and> known 1 w1 \<and>
     getHandle flaky_api (Some 0) (Suc 0) w1 = Some (Inr (Block 1 1), w2)"
  by (simp add: run_defs flaky_api_def two_bytes_def urMemRelease_def getHandle.simps[of _ _ "Suc 0"])

text \<open>A mapping that fails after its memory was allocated does not give the memory back.\<close>

lemma urEnqueueMemBufferMap_failure_leaks:
  "\<exists>w1. urEnqueueMemBufferMap (failing_api 1 False) 0 0 \<lparr>MAP_READ = True, MAP_WRITE = False, WRITE_INVALIDATE = False\<rparr> 0 1
        (start_world [MemBuffer 1 None]) = Some (Inl UR_RESULT_ERROR_OUT_OF_RESOURCES, w1) \<and>
     next_block w1 = 1 \<and> released w1 = [] \<and> Mappings (objects w1 ! 0) = []"
  by (simp add: run_defs failing_api_def start_world_def urEnqueueMemBufferMap_def map_pointer_def translate_flags_def)

text \<open>
  Mapping the same part of a buffer with a host pointer twice: the second call fails, after it has written the data of the
  device over what the application wrote to the mapped memory.
\<close>

lemma urEnqueueMemBufferMap_twice:
  "\<exists>w1 w2. urEnqueueMemBufferMap (failing_api 99 False) 0 0 \<lparr>MAP_READ = True, MAP_WRITE = True, WRITE_INVALIDATE = False\<rparr> 0 1
        (start_world [MemBuffer 1 (Some 100)]) = Some (Inr (Some (User 100)), w1) \<and>
     urEnqueueMemBufferMap (failing_api 99 False) 0 0 \<lparr>MAP_READ = True, MAP_WRITE = True, WRITE_INVALIDATE = False\<rparr> 0 1
        (store (User 100) [5] w1) = Some (Inl UR_RESULT_ERROR_INVALID_VALUE, w2) \<and> user w2 100 = 9"
  by (simp add: run_defs failing_api_def start_world_def urEnqueueMemBufferMap_def map_pointer_def translate_flags_def
      bytes_at_def write_bytes_def)

text \<open>An unmapping whose copy fails has removed the mapping: it cannot be repeated, and the memory stays allocated.\<close>

lemma urEnqueueMemUnmap_failure:
  "\<exists>w1 w2 w3. urEnqueueMemBufferMap (failing_api 3 False) 0 0 \<lparr>MAP_READ = True, MAP_WRITE = True, WRITE_INVALIDATE = False\<rparr> 0 1
        (start_world [MemBuffer 1 None]) = Some (Inr (Some (Block 0 0)), w1) \<and>
     urEnqueueMemUnmap (failing_api 3 False) 0 0 (Block 0 0) w1 = Some (Inl UR_RESULT_ERROR_OUT_OF_RESOURCES, w2) \<and>
     urEnqueueMemUnmap (failing_api 3 False) 0 0 (Block 0 0) w2 = Some (Inl UR_RESULT_ERROR_INVALID_VALUE, w3) \<and> released w3 = []"
  by (simp add: run_defs failing_api_def start_world_def urEnqueueMemBufferMap_def urEnqueueMemUnmap_def map_pointer_def
      translate_flags_def bytes_at_def)

section \<open>Examples\<close>

definition ideal_api :: buffer_api where
  "ideal_api =
     \<lparr>allocateMemory = \<lambda>_ _ _ _. UR_RESULT_SUCCESS, pfnFree = \<lambda>_. UR_RESULT_SUCCESS, pfnUSMMemcpy = \<lambda>_. UR_RESULT_SUCCESS,
      pfnUSMFill = \<lambda>_. UR_RESULT_SUCCESS, pfnEventsWait = \<lambda>_. UR_RESULT_SUCCESS, pfnMem = \<lambda>_. UR_RESULT_SUCCESS,
      has_pfn = \<lambda>_. True, Devices = [0, 1], HaltOnError = False\<rparr>"

lemma ideal_api: "good_api ideal_api" "Devices ideal_api = [0, 1]"
  by (simp_all add: good_api_def ideal_api_def)

lemma two_bytes_views: "view two_bytes 0 = Some [7, 7]" "view two_bytes (Suc 0) = Some [7]"
  by (simp_all add: view_def two_bytes_contents MemBuffer_sub_def MemBuffer_def)

theorem urMemBufferCreate_copies_host_witness:
  "buffers_wf two_bytes \<and> (\<exists>b w'. urMemBufferCreate ideal_api False True 1 (Some 100) True two_bytes = Some (Inr b, w') \<and>
     view w' b = Some [9] \<and> view w' 0 = Some [7, 7])"
proof -
  obtain b w' where 1: "urMemBufferCreate ideal_api False True 1 (Some 100) True two_bytes = Some (Inr b, w')"
    "view w' b = Some (bytes_at two_bytes (User 100) 1)"
    "\<forall>c bs. live two_bytes c \<and> view two_bytes c = Some bs \<longrightarrow> live w' c \<and> view w' c = Some bs"
    using urMemBufferCreate_copies_host[OF two_bytes_wf, of ideal_api False 1 100] ideal_api by auto
  moreover have "view w' 0 = Some [7, 7]" using 1(3) two_bytes_live(1) two_bytes_views(1) by blast
  ultimately show ?thesis
    using two_bytes_wf by (auto simp: bytes_at_def load_def)
qed

theorem urMemBufferPartition_view_witness:
  "buffers_wf two_bytes \<and> (\<exists>c w'. urMemBufferPartition ideal_api 0 1 1 two_bytes = Some (Inr (Some c), w') \<and> view w' c = Some [7])"
proof -
  have "unat (Size (objects two_bytes ! 0)) = 2" by (simp add: MemBuffer_def)
  then show ?thesis
    using urMemBufferPartition_view[OF two_bytes_wf two_bytes_live(1), of 1 1 ideal_api] two_bytes_wf two_bytes_views
    by (auto simp: ideal_api_def)
qed

theorem urMemRelease_frees_witness:
  "known 0 two_bytes \<and> (\<exists>w'. urMemRelease ideal_api 0 two_bytes = Some (Inr (), w') \<and> released w' = [0] \<and> \<not> known 0 w')"
proof -
  have k: "known 0 two_bytes" by (simp add: known_def)
  have "RefCount (objects two_bytes ! 0) = 1" "list_all (\<lambda>(k, p). p \<noteq> None) (Allocations (objects two_bytes ! 0))"
    by (simp_all add: MemBuffer_def)
  from urMemRelease_frees[OF two_bytes_wf k ideal_api(1) this] show ?thesis
    using k by (auto simp: MemBuffer_def two_bytes_def)
qed

theorem map_unmap_roundtrip_witness:
  "live two_bytes 0 \<and> (\<exists>p w1 w2. urEnqueueMemBufferMap ideal_api 1 0 \<lparr>MAP_READ = True, MAP_WRITE = True, WRITE_INVALIDATE = False\<rparr> 1 1
       two_bytes = Some (Inr (Some p), w1) \<and> bytes_at w1 p 1 = [7] \<and>
     urEnqueueMemUnmap ideal_api 0 0 p (store p [5] w1) = Some (Inr (), w2) \<and> view w2 0 = Some [7, 5])"
proof -
  have p: "unat (1 :: u64) + unat (1 :: u64) \<le> unat (Size (objects two_bytes ! 0))" "HostPtr (objects two_bytes ! 0) = None"
    "translate_flags \<lparr>MAP_READ = True, MAP_WRITE = True, WRITE_INVALIDATE = False\<rparr> \<noteq> UNKNOWN"
    "Block (next_block two_bytes) 0 \<notin> fst ` set (Mappings (objects two_bytes ! 0))"
    by (simp_all add: MemBuffer_def translate_flags_def)
  obtain p w1 where 1: "urEnqueueMemBufferMap ideal_api 1 0 \<lparr>MAP_READ = True, MAP_WRITE = True, WRITE_INVALIDATE = False\<rparr> 1 1 two_bytes = Some (Inr (Some p), w1)"
    "bytes_at w1 p 1 = take (unat (1 :: u64)) (drop (unat (1 :: u64)) [7, 7])"
    "\<forall>new q'. length new = unat (1 :: u64) \<longrightarrow> (\<exists>w2. urEnqueueMemUnmap ideal_api q' 0 p (store p new w1) = Some (Inr (), w2) \<and>
       view w2 0 = Some (splice [7, 7] (unat (1 :: u64)) new))"
    using map_unmap_roundtrip[OF ideal_api(1) two_bytes_wf two_bytes_live(1) two_bytes_views(1) p, of 1] by blast
  obtain w2 where "urEnqueueMemUnmap ideal_api 0 0 p (store p [5] w1) = Some (Inr (), w2)" "view w2 0 = Some (splice [7, 7] (unat (1 :: u64)) [5])"
    using 1(3)[rule_format, of "[5]" 0] by auto
  then show ?thesis
    using 1 two_bytes_live by (auto simp: splice_def)
qed

end
