(* ===== verification/San_Buffer_Rect.thy ===== *)
theory San_Buffer_Rect
  imports San_Buffer_Ops
begin

text \<open>
  Rectangular copies of the address sanitizer: a copy in three dimensions, made of copies of slices made of
  copies of rows, moves exactly the bytes of the region.
\<close>

section \<open>Memory as one function\<close>

fun space :: "ptr \<Rightarrow> nat option" where
  "space (User a) = None"
| "space (Block blk off) = Some blk"

fun offset_of :: "ptr \<Rightarrow> u64" where
  "offset_of (User a) = a"
| "offset_of (Block blk off) = off"

lemma ptr_eqI: "space p = space q \<Longrightarrow> offset_of p = offset_of q \<Longrightarrow> p = q"
  by (cases p; cases q) auto

lemma space_add [simp]: "space (ptr_add p n) = space p" "offset_of (ptr_add p n) = offset_of p + n"
  by (cases p; simp)+

definition put_at :: "ptr \<Rightarrow> u8 list \<Rightarrow> (ptr \<Rightarrow> u8) \<Rightarrow> ptr \<Rightarrow> u8" where
  "put_at p bs M q = (if space q = space p \<and> unat (offset_of q - offset_of p) < length bs
     then bs ! unat (offset_of q - offset_of p) else M q)"

definition get :: "(ptr \<Rightarrow> u8) \<Rightarrow> ptr \<Rightarrow> u64 \<Rightarrow> u8 list" where
  "get M p n = map (\<lambda>i. M (ptr_add p (of_nat i))) [0..<unat n]"

lemma load_store: "load (store p bs w) = put_at p bs (load w)"
proof
  show "load (store p bs w) q = put_at p bs (load w) q" for q
    by (cases p; cases q) (auto simp: load_def put_at_def write_bytes_def)
qed

lemma bytes_at_get: "bytes_at w p n = get (load w) p n"
  by (simp add: bytes_at_def get_def)

lemma put_at_other: "space q \<noteq> space p \<Longrightarrow> put_at p bs M q = M q"
  by (simp add: put_at_def)

lemma get_put_at_other: "space p \<noteq> space q \<Longrightarrow> get (put_at p bs M) q n = get M q n"
  by (simp add: get_def put_at_other)

text \<open>The bytes of a row, and the effect of copying a list of rows.\<close>

definition in_row :: "ptr \<Rightarrow> u64 \<Rightarrow> ptr \<Rightarrow> bool" where
  "in_row p n q \<longleftrightarrow> (\<exists>i < unat n. q = ptr_add p (of_nat i))"

definition copy_row :: "u64 \<Rightarrow> ptr \<times> ptr \<Rightarrow> (ptr \<Rightarrow> u8) \<Rightarrow> ptr \<Rightarrow> u8" where
  "copy_row n r M = put_at (fst r) (get M (snd r) n) M"

lemma in_row_iff: "in_row p n q \<longleftrightarrow> space q = space p \<and> unat (offset_of q - offset_of p) < unat n"
proof
  assume "in_row p n q"
  then obtain i where "i < unat n" "q = ptr_add p (of_nat i)" by (auto simp: in_row_def)
  then show "space q = space p \<and> unat (offset_of q - offset_of p) < unat n"
    using unat_less[of i n] by (simp add: unat_of_nat take_bit_nat_eq_self)
next
  assume "space q = space p \<and> unat (offset_of q - offset_of p) < unat n"
  then show "in_row p n q"
    unfolding in_row_def by (intro exI[of _ "unat (offset_of q - offset_of p)"]) (auto intro: ptr_eqI)
qed

lemma copy_row_in: "i < unat n \<Longrightarrow> copy_row n (a, c) M (ptr_add a (of_nat i)) = M (ptr_add c (of_nat i))"
  using unat_less[of i n] by (simp add: copy_row_def put_at_def get_def unat_of_nat take_bit_nat_eq_self)

lemma copy_row_out: "\<not> in_row (fst r) n q \<Longrightarrow> copy_row n r M q = M q"
  by (auto simp: copy_row_def put_at_def in_row_iff get_def)

lemma copy_rows_list:
  assumes "\<forall>r \<in> set rows. space (snd r) \<noteq> S \<and> space (fst r) = S"
    and "sorted_wrt (\<lambda>r r'. \<forall>q. \<not> (in_row (fst r) n q \<and> in_row (fst r') n q)) rows"
  shows "(a, c) \<in> set rows \<Longrightarrow> i < unat n \<Longrightarrow> fold (copy_row n) rows M (ptr_add a (of_nat i)) = M (ptr_add c (of_nat i))"
    and "\<forall>r \<in> set rows. \<not> in_row (fst r) n q \<Longrightarrow> fold (copy_row n) rows M q = M q"
proof -
  show out: "fold (copy_row n) rs M q = M q" if "\<forall>r \<in> set rs. \<not> in_row (fst r) n q" for rs M q
    using that by (induction rs arbitrary: M) (auto simp: copy_row_out)
  show "fold (copy_row n) rows M (ptr_add a (of_nat i)) = M (ptr_add c (of_nat i))" if "(a, c) \<in> set rows" "i < unat n"
    using that assms
  proof (induction rows arbitrary: M)
    case (Cons r rows)
    have s: "copy_row n r M (ptr_add c (of_nat i)) = M (ptr_add c (of_nat i))"
      using Cons.prems(1,3) by (auto simp: copy_row_def put_at_def)
    show ?case
    proof (cases "(a, c) \<in> set rows")
      case True
      then show ?thesis using Cons.IH[OF True] Cons.prems s by simp
    next
      case False
      then have r: "r = (a, c)" using Cons.prems(1) by simp
      have "in_row a n (ptr_add a (of_nat i))" using Cons.prems(2) by (auto simp: in_row_def)
      then have "\<forall>r' \<in> set rows. \<not> in_row (fst r') n (ptr_add a (of_nat i))"
        using Cons.prems(4) r by auto
      then show ?thesis using out Cons.prems(2) by (simp add: r copy_row_in)
    qed
  qed simp
qed

section \<open>The loops\<close>

definition slice_rows :: "ptr \<Rightarrow> u64 \<Rightarrow> ptr \<Rightarrow> u64 \<Rightarrow> nat \<Rightarrow> (ptr \<times> ptr) list" where
  "slice_rows dst dR src sR h = map (\<lambda>y. (ptr_add dst (of_nat y * dR), ptr_add src (of_nat y * sR))) [0..<h]"

lemma slice_rows_Suc: "slice_rows dst dR src sR (Suc h) = (dst, src) # slice_rows (ptr_add dst dR) dR (ptr_add src sR) sR h"
  by (simp add: slice_rows_def upt_conv_Cons map_Suc_upt[symmetric] o_def algebra_simps del: upt_Suc)

lemma copy_rows_load: "load (copy_rows dst dR src sR n h w) = fold (copy_row n) (slice_rows dst dR src sR h) (load w)"
proof (induction h arbitrary: dst src w)
  case (Suc h)
  then show ?case by (simp add: slice_rows_Suc load_store bytes_at_get copy_row_def)
qed (simp add: slice_rows_def)

lemma copy_rows_rest [simp]:
  "objects (copy_rows dst dR src sR n h w) = objects w" "m_MemBufferMap (copy_rows dst dR src sR n h w) = m_MemBufferMap w"
  "next_event (copy_rows dst dR src sR n h w) = next_event w" "Events (copy_rows dst dR src sR n h w) = Events w"
  "DeferredEvents (copy_rows dst dR src sR n h w) = DeferredEvents w" "released (copy_rows dst dR src sR n h w) = released w"
  by (induction h arbitrary: dst src w) simp_all

definition all_rows :: "ptr \<Rightarrow> u64 \<Rightarrow> u64 \<Rightarrow> ptr \<Rightarrow> u64 \<Rightarrow> u64 \<Rightarrow> nat \<Rightarrow> nat list \<Rightarrow> (ptr \<times> ptr) list" where
  "all_rows dst dR dS src sR sS h zs =
     concat (map (\<lambda>z. slice_rows (ptr_add dst (of_nat z * dS)) dR (ptr_add src (of_nat z * sS)) sR h) zs)"

lemma USMMemcpy2D_good:
  assumes "good_api api"
  shows "\<exists>w'. USMMemcpy2D api dst dR src sR n h w = Some (Inr (next_event w), w') \<and>
    load w' = fold (copy_row n) (slice_rows dst dR src sR (unat h)) (load w) \<and> objects w' = objects w \<and>
    m_MemBufferMap w' = m_MemBufferMap w \<and> next_event w' = next_event w + 1 \<and> Events w' = Events w @ [next_event w] \<and>
    DeferredEvents w' = DeferredEvents w"
proof -
  have "load (w'\<lparr>next_event := a, Events := e\<rparr>) = load w'" "load (w'\<lparr>calls := c\<rparr>) = load w'" for w' a e c
    by (simp_all add: load_def fun_eq_iff split: ptr.splits)
  then show ?thesis
    using assms by (simp add: USMMemcpy2D_def UR_CALL_def driver_call_def modify_def ret_def with_world_def good_api_def copy_rows_load)
qed

lemma copy_slices_good:
  assumes "good_api api"
  shows "\<exists>w'. copy_slices api dst dR dS src sR sS Region i d w = Some (Inr [next_event w..<next_event w + d], w') \<and>
    load w' = fold (copy_row (region_width Region)) (all_rows dst dR dS src sR sS (unat (region_height Region)) [i..<i + d]) (load w) \<and>
    objects w' = objects w \<and> m_MemBufferMap w' = m_MemBufferMap w \<and>
    Events w' = Events w @ [next_event w..<next_event w + d] \<and> DeferredEvents w' = DeferredEvents w"
proof (induction d arbitrary: i w)
  case (Suc d)
  obtain w1 where w1: "USMMemcpy2D api (ptr_add dst (of_nat i * dS)) dR (ptr_add src (of_nat i * sS)) sR (region_width Region)
      (region_height Region) w = Some (Inr (next_event w), w1)"
    "load w1 = fold (copy_row (region_width Region)) (slice_rows (ptr_add dst (of_nat i * dS)) dR (ptr_add src (of_nat i * sS)) sR (unat (region_height Region))) (load w)"
    "objects w1 = objects w" "m_MemBufferMap w1 = m_MemBufferMap w" "next_event w1 = next_event w + 1"
    "Events w1 = Events w @ [next_event w]" "DeferredEvents w1 = DeferredEvents w"
    using USMMemcpy2D_good[OF assms] by metis
  have u: "[j..<j + Suc d] = j # [Suc j..<Suc (j + d)]" for j
    by (simp add: upt_conv_Cons del: upt_Suc)
  show ?case
    using Suc.IH[of "i + 1" w1] w1 unfolding u by (auto simp: UR_CALL_def ret_def all_rows_def simp del: upt_Suc)
qed (simp add: ret_def all_rows_def)

section \<open>Regions\<close>

text \<open>A place in the region: slice, row and column.\<close>

definition region_at :: "ptr \<Rightarrow> u64 \<Rightarrow> u64 \<Rightarrow> nat \<Rightarrow> nat \<Rightarrow> nat \<Rightarrow> ptr" where
  "region_at p row slc z y x = ptr_add p (of_nat z * slc + of_nat y * row + of_nat x)"

lemma all_rows_product:
  "all_rows dst dR dS src sR sS h zs =
     map (\<lambda>(z, y). (region_at dst dR dS z y 0, region_at src sR sS z y 0)) (List.product zs [0..<h])"
  by (induction zs) (simp_all add: all_rows_def slice_rows_def region_at_def o_def)

lemma distinct_sorted_wrt:
  "distinct xs \<Longrightarrow> (\<And>x y. x \<in> set xs \<Longrightarrow> y \<in> set xs \<Longrightarrow> x \<noteq> y \<Longrightarrow> P x y) \<Longrightarrow> sorted_wrt P xs"
  by (induction xs) auto

text \<open>Where the rows do not reach into the next row nor the slices into the next slice, and the region does not wrap around.\<close>

definition pitches_ok :: "rect_region \<Rightarrow> u64 \<Rightarrow> u64 \<Rightarrow> bool" where
  "pitches_ok r row slc \<longleftrightarrow>
     unat (region_width r) \<le> unat row \<and> unat row * unat (region_height r) \<le> unat slc \<and>
     unat slc * unat (region_depth r) \<le> 2 ^ 64"

lemma two_level:
  assumes "y * R + i < (S :: nat)" "y' * R + i' < S" "z * S + (y * R + i) = z' * S + (y' * R + i')" "i < R" "i' < R"
  shows "z = z' \<and> y = y' \<and> i = i'"
proof -
  have "z = (z * S + (y * R + i)) div S" "z' = (z' * S + (y' * R + i')) div S" using assms(1,2) by (simp_all add: div_mult_self3 mult.commute)
  then have z: "z = z'" using assms(3) by metis
  then have e: "y * R + i = y' * R + i'" using assms(3) by simp
  have "y = (y * R + i) div R" "y' = (y' * R + i') div R" using assms(4,5) by (simp_all add: mult.commute)
  then have "y = y'" using e by metis
  then show ?thesis using z e by simp
qed

lemma region_nat:
  assumes "pitches_ok r row slc" "z < unat (region_depth r)" "y < unat (region_height r)" "x < unat (region_width r)"
  shows "y * unat row + x < unat slc" "z * unat slc + (y * unat row + x) < 2 ^ 64" "x < unat row"
    "unat (of_nat z * slc + of_nat y * row + of_nat x) = z * unat slc + (y * unat row + x)"
proof -
  show x: "x < unat row" using assms(1,4) by (simp add: pitches_ok_def)
  have "y * unat row + unat row \<le> unat (region_height r) * unat row"
    using assms(3) by (metis Suc_leI add.commute mult_Suc mult_le_mono1)
  then show s: "y * unat row + x < unat slc" using x assms(1) by (simp add: pitches_ok_def mult.commute)
  have "z * unat slc + unat slc \<le> unat (region_depth r) * unat slc"
    using assms(2) by (metis Suc_leI add.commute mult_Suc mult_le_mono1)
  then show l: "z * unat slc + (y * unat row + x) < 2 ^ 64" using s assms(1) by (simp add: pitches_ok_def mult.commute)
  have "of_nat z * slc + of_nat y * row + of_nat x = (of_nat (z * unat slc + (y * unat row + x)) :: u64)" by simp
  then show "unat (of_nat z * slc + of_nat y * row + of_nat x) = z * unat slc + (y * unat row + x)"
    using l by (simp add: unat_of_nat take_bit_nat_eq_self del: of_nat_add of_nat_mult)
qed

lemma region_inj:
  assumes p: "pitches_ok r row slc" and "z < unat (region_depth r)" "y < unat (region_height r)" "x < unat (region_width r)"
    and "z' < unat (region_depth r)" "y' < unat (region_height r)" "x' < unat (region_width r)"
    and eq: "region_at d row slc z y x = region_at d row slc z' y' x'"
  shows "z = z' \<and> y = y' \<and> x = x'"
proof -
  have "of_nat z * slc + of_nat y * row + of_nat x = of_nat z' * slc + of_nat y' * row + of_nat x'"
    using eq by (cases d) (auto simp: region_at_def)
  then have "z * unat slc + (y * unat row + x) = z' * unat slc + (y' * unat row + x')"
    using region_nat(4)[OF p assms(2-4)] region_nat(4)[OF p assms(5-7)] by simp
  then show ?thesis
    using two_level region_nat(1,3)[OF p assms(2-4)] region_nat(1,3)[OF p assms(5-7)] by blast
qed

lemma all_rows_exact:
  assumes p: "pitches_ok r dR dS" and sp: "space src \<noteq> space dst"
    and M': "M' = fold (copy_row (region_width r)) (all_rows dst dR dS src sR sS (unat (region_height r)) [0..<unat (region_depth r)]) M"
  shows "z < unat (region_depth r) \<Longrightarrow> y < unat (region_height r) \<Longrightarrow> x < unat (region_width r) \<Longrightarrow>
      M' (region_at dst dR dS z y x) = M (region_at src sR sS z y x)"
    and "\<nexists>z y x. z < unat (region_depth r) \<and> y < unat (region_height r) \<and> x < unat (region_width r) \<and> q = region_at dst dR dS z y x \<Longrightarrow>
      M' q = M q"
proof -
  let ?ix = "List.product [0..<unat (region_depth r)] [0..<unat (region_height r)]"
  let ?rows = "all_rows dst dR dS src sR sS (unat (region_height r)) [0..<unat (region_depth r)]"
  have row: "in_row (region_at dst dR dS z y 0) (region_width r) q' \<longleftrightarrow> (\<exists>x < unat (region_width r). q' = region_at dst dR dS z y x)" for z y q'
    by (simp add: in_row_def region_at_def add.assoc)
  have "sorted_wrt (\<lambda>i j. \<forall>q. \<not> (in_row (region_at dst dR dS (fst i) (snd i) 0) (region_width r) q \<and>
      in_row (region_at dst dR dS (fst j) (snd j) 0) (region_width r) q)) ?ix"
  proof (rule distinct_sorted_wrt)
    fix i j assume i: "i \<in> set ?ix" and j: "j \<in> set ?ix" and ne: "i \<noteq> j"
    have "region_at dst dR dS (fst i) (snd i) x \<noteq> region_at dst dR dS (fst j) (snd j) x'"
      if "x < unat (region_width r)" "x' < unat (region_width r)" for x x'
      using region_inj[OF p, of "fst i" "snd i" x "fst j" "snd j" x' dst] i j ne that by (auto simp: prod_eq_iff)
    then show "\<forall>q. \<not> (in_row (region_at dst dR dS (fst i) (snd i) 0) (region_width r) q \<and>
      in_row (region_at dst dR dS (fst j) (snd j) 0) (region_width r) q)"
      unfolding row by metis
  qed (simp add: distinct_product)
  then have sorted: "sorted_wrt (\<lambda>i j. \<forall>q. \<not> (in_row (fst i) (region_width r) q \<and> in_row (fst j) (region_width r) q)) ?rows"
    by (simp add: all_rows_product sorted_wrt_map case_prod_unfold)
  have spaces: "\<forall>i \<in> set ?rows. space (snd i) \<noteq> space dst \<and> space (fst i) = space dst"
    using sp by (auto simp: all_rows_product region_at_def)
  note rows = copy_rows_list[OF spaces sorted]
  show "M' (region_at dst dR dS z y x) = M (region_at src sR sS z y x)"
    if "z < unat (region_depth r)" "y < unat (region_height r)" "x < unat (region_width r)"
  proof -
    have "(region_at dst dR dS z y 0, region_at src sR sS z y 0) \<in> set ?rows"
      using that by (auto simp: all_rows_product)
    from rows(1)[OF this that(3)] show ?thesis by (simp add: M' region_at_def add.assoc)
  qed
  show "M' q = M q"
    if "\<nexists>z y x. z < unat (region_depth r) \<and> y < unat (region_height r) \<and> x < unat (region_width r) \<and> q = region_at dst dR dS z y x"
    unfolding M' by (rule rows(2)) (use that in \<open>auto simp: all_rows_product row\<close>)
qed

definition row_pitch :: "rect_region \<Rightarrow> u64 \<Rightarrow> u64" where
  "row_pitch r row = default_pitch row (region_width r)"

definition slice_pitch :: "rect_region \<Rightarrow> u64 \<Rightarrow> u64 \<Rightarrow> u64" where
  "slice_pitch r row slc = default_pitch slc (row_pitch r row * region_height r)"

text \<open>
  C23: A rectangular copy between different memories, where no call fails and the pitches of the destination keep
  rows and slices apart, with pitches of 0 standing for those of a region without gaps: every byte of the region
  is copied from its place in the source, no other byte of any memory changes, and all events of the copies
  are handed over to be released later.\<close>

theorem rect_copy_exact:
  assumes api: "good_api api" and sp: "space pSrc \<noteq> space pDst"
    and p: "pitches_ok r (row_pitch r dstRow) (slice_pitch r dstRow dstSlice)"
  shows "\<exists>w'. EnqueueMemCopyRectHelper api pSrc pDst so dof r srcRow srcSlice dstRow dstSlice w = Some (Inr (), w') \<and>
    (\<forall>z y x. z < unat (region_depth r) \<and> y < unat (region_height r) \<and> x < unat (region_width r) \<longrightarrow>
       load w' (region_at (rect_origin pDst dof (row_pitch r dstRow) (slice_pitch r dstRow dstSlice)) (row_pitch r dstRow) (slice_pitch r dstRow dstSlice) z y x) =
       load w (region_at (rect_origin pSrc so (row_pitch r srcRow) (slice_pitch r srcRow srcSlice)) (row_pitch r srcRow) (slice_pitch r srcRow srcSlice) z y x)) \<and>
    (\<forall>q. (\<nexists>z y x. z < unat (region_depth r) \<and> y < unat (region_height r) \<and> x < unat (region_width r) \<and>
         q = region_at (rect_origin pDst dof (row_pitch r dstRow) (slice_pitch r dstRow dstSlice)) (row_pitch r dstRow) (slice_pitch r dstRow dstSlice) z y x) \<longrightarrow>
       load w' q = load w q) \<and>
    (\<exists>evs. Events w' = Events w @ evs \<and> DeferredEvents w' = DeferredEvents w @ evs \<and> length evs = unat (region_depth r))"
proof -
  let ?dR = "row_pitch r dstRow" and ?dS = "slice_pitch r dstRow dstSlice"
  let ?sR = "row_pitch r srcRow" and ?sS = "slice_pitch r srcRow srcSlice"
  let ?d = "rect_origin pDst dof ?dR ?dS" and ?s = "rect_origin pSrc so ?sR ?sS"
  have sp': "space ?s \<noteq> space ?d" using sp by (simp add: rect_origin_def)
  obtain w1 where w1: "copy_slices api ?d ?dR ?dS ?s ?sR ?sS r 0 (unat (region_depth r)) w =
      Some (Inr [next_event w..<next_event w + unat (region_depth r)], w1)"
    "load w1 = fold (copy_row (region_width r)) (all_rows ?d ?dR ?dS ?s ?sR ?sS (unat (region_height r)) [0..<unat (region_depth r)]) (load w)"
    "Events w1 = Events w @ [next_event w..<next_event w + unat (region_depth r)]" "DeferredEvents w1 = DeferredEvents w"
    using copy_slices_good[OF api, of ?d ?dR ?dS ?s ?sR ?sS r 0 "unat (region_depth r)" w] by auto
  let ?w = "w1\<lparr>calls := calls w1 + 1, DeferredEvents := DeferredEvents w1 @ [next_event w..<next_event w + unat (region_depth r)]\<rparr>"
  have "EnqueueMemCopyRectHelper api pSrc pDst so dof r srcRow srcSlice dstRow dstSlice w = Some (Inr (), ?w)"
    using w1(1) api
    by (simp add: EnqueueMemCopyRectHelper_def Let_def UR_CALL_def driver_call_def modify_def good_api_def row_pitch_def slice_pitch_def)
  moreover have "load ?w = load w1"
    by (simp add: load_def fun_eq_iff split: ptr.splits)
  ultimately show ?thesis
    using all_rows_exact[OF p sp' w1(2)] w1(3,4) by auto
qed

text \<open>Two slices of one row of a byte, from a buffer to the application.\<close>

theorem rect_copy_exact_witness:
  "\<exists>w'. EnqueueMemCopyRectHelper (flaky_api\<lparr>pfnUSMMemcpy := \<lambda>_. UR_RESULT_SUCCESS\<rparr>) (Block 0 0) (User 100)
      \<lparr>offs_x = 0, offs_y = 0, offs_z = 0\<rparr> \<lparr>offs_x = 0, offs_y = 0, offs_z = 0\<rparr>
      \<lparr>region_width = 1, region_height = 1, region_depth = 2\<rparr> 0 0 0 4 two_bytes = Some (Inr (), w') \<and>
    load w' (User 104) = 7 \<and> load w' (User 101) = 9 \<and> length (DeferredEvents w') = 2"
proof -
  let ?r = "\<lparr>region_width = 1, region_height = 1, region_depth = 2\<rparr> :: rect_region"
  let ?o = "\<lparr>offs_x = 0, offs_y = 0, offs_z = 0\<rparr> :: rect_offset"
  have api: "good_api (flaky_api\<lparr>pfnUSMMemcpy := \<lambda>_. UR_RESULT_SUCCESS\<rparr>)" by (simp add: good_api_def flaky_api_def)
  have p: "pitches_ok ?r (row_pitch ?r 0) (slice_pitch ?r 0 4)" by (simp add: pitches_ok_def row_pitch_def slice_pitch_def default_pitch_def)
  have sp: "space (Block 0 0) \<noteq> space (User 100)" by simp
  have at: "region_at (rect_origin (User 100) ?o (row_pitch ?r 0) (slice_pitch ?r 0 4)) (row_pitch ?r 0) (slice_pitch ?r 0 4) z y x =
      User (100 + (of_nat z * 4 + of_nat y + of_nat x))" for z y x
    by (simp add: region_at_def rect_origin_def row_pitch_def slice_pitch_def default_pitch_def)
  obtain w' where w': "EnqueueMemCopyRectHelper (flaky_api\<lparr>pfnUSMMemcpy := \<lambda>_. UR_RESULT_SUCCESS\<rparr>) (Block 0 0) (User 100) ?o ?o ?r 0 0 0 4 two_bytes = Some (Inr (), w')"
    "\<forall>z y x. z < unat (2 :: u64) \<and> y < unat (1 :: u64) \<and> x < unat (1 :: u64) \<longrightarrow> load w' (User (100 + (of_nat z * 4 + of_nat y + of_nat x))) = 7"
    "\<forall>q. (\<nexists>z y x. z < unat (2 :: u64) \<and> y < unat (1 :: u64) \<and> x < unat (1 :: u64) \<and> q = User (100 + (of_nat z * 4 + of_nat y + of_nat x))) \<longrightarrow>
       load w' q = load two_bytes q"
    "\<exists>evs. DeferredEvents w' = DeferredEvents two_bytes @ evs \<and> length evs = unat (2 :: u64)"
    using rect_copy_exact[OF api sp p, of ?o ?o 0 0 two_bytes] unfolding at by (auto simp: region_at_def rect_origin_def load_def)
  have "load w' (User 104) = 7" using w'(2)[rule_format, of 1 0 0] by simp
  moreover have "load w' (User 101) = 9"
  proof -
    have "of_nat z * 4 \<noteq> (1 :: u64)" if "z < 2" for z
      using that by (auto simp: less_2_cases_iff)
    then have "load w' (User 101) = load two_bytes (User 101)"
      by (intro w'(3)[rule_format]) auto
    then show ?thesis by (simp add: load_def)
  qed
  moreover have "length (DeferredEvents w') = 2" using w'(4) by (auto simp: two_bytes_def)
  ultimately show ?thesis using w'(1) by blast
qed

text \<open>
  When the copy of a later slice fails, the events of the earlier ones are neither waited for nor handed over, and
  their bytes are already copied.
\<close>

lemma copy_slices_two:
  "copy_slices api dst dR dS src sR sS r i 2 =
     UR_CALL (USMMemcpy2D api (ptr_add dst (of_nat i * dS)) dR (ptr_add src (of_nat i * sS)) sR (region_width r) (region_height r))
       (\<lambda>e. UR_CALL (copy_slices api dst dR dS src sR sS r (i + 1) 1) (\<lambda>evs. ret (e # evs)))"
  by (simp add: numeral_2_eq_2)

lemma rect_failure_leaks_events:
  "\<exists>w'. EnqueueMemCopyRectHelper (flaky_api\<lparr>pfnUSMMemcpy := \<lambda>c. if c = 1 then UR_RESULT_ERROR_OUT_OF_RESOURCES else UR_RESULT_SUCCESS\<rparr>)
      (Block 0 0) (User 100) \<lparr>offs_x = 0, offs_y = 0, offs_z = 0\<rparr> \<lparr>offs_x = 0, offs_y = 0, offs_z = 0\<rparr>
      \<lparr>region_width = 1, region_height = 1, region_depth = 2\<rparr> 0 0 0 0 two_bytes = Some (Inl UR_RESULT_ERROR_OUT_OF_RESOURCES, w') \<and>
    Events w' = [0] \<and> DeferredEvents w' = [] \<and> user w' 100 = 7"
  by (simp add: EnqueueMemCopyRectHelper_def Let_def UR_CALL_def driver_call_def modify_def ret_def with_world_def USMMemcpy2D_def
      default_pitch_def rect_origin_def copy_slices_two flaky_api_def store_def bytes_at_def load_def write_bytes_def two_bytes_def)

end
