(* ===== verification/San_Buffer_Pending.thy ===== *)
theory San_Buffer_Pending
  imports San_Buffer_Ops
begin

text \<open>
  Buffers of the address sanitizer with commands that take effect later. An entry point gets the handle of the buffer at
  once, and moves the data to the device of the queue with blocking copies of its own if it has to, but the copy or fill it
  enqueues may be pending when it returns. Here a call leaves such a command, and commands complete
  one after the other in the order of the calls, as the wait lists of an application or an in-order queue have it.
  The buffers are still arrays as long as a buffer changes its device only when nothing is pending; when it changes with a command pending,
  the data moves without the effect of that command, whatever the next call waits for.
\<close>

section \<open>Commands\<close>

datatype command = Cmd_Copy ptr ptr u64 | Cmd_Fill ptr "u8 list" u64 | Cmd_Adapter

text \<open>The effect of a command when it completes; that of one the adapter makes of its own objects is not on memory of the layer.\<close>

fun execute :: "command \<Rightarrow> world \<Rightarrow> world" where
  "execute (Cmd_Copy dst src n) w = store dst (bytes_at w src n) w"
| "execute (Cmd_Fill dst pattern n) w = store dst (fill_bytes pattern n) w"
| "execute Cmd_Adapter w = w"

abbreviation drain :: "command list \<Rightarrow> world \<Rightarrow> world" where
  "drain ps w \<equiv> fold execute ps w"

definition enqueue_memcpy :: "buffer_api \<Rightarrow> ptr \<Rightarrow> ptr \<Rightarrow> u64 \<Rightarrow> command act" where
  "enqueue_memcpy api dst src n = UR_CALL (driver_call (pfnUSMMemcpy api)) (\<lambda>_. ret (Cmd_Copy dst src n))"

definition enqueue_fill :: "buffer_api \<Rightarrow> ptr \<Rightarrow> u8 list \<Rightarrow> u64 \<Rightarrow> command act" where
  "enqueue_fill api dst pattern n = UR_CALL (driver_call (pfnUSMFill api)) (\<lambda>_. ret (Cmd_Fill dst pattern n))"

text \<open>The entry points, up to the command they leave.\<close>

definition enqueue_one :: "buffer_api \<Rightarrow> string \<Rightarrow> nat \<Rightarrow> nat \<Rightarrow> (ptr \<Rightarrow> command act) \<Rightarrow> command act" where
  "enqueue_one api name Device hBuffer k =
     UR_CALL (need_pfn api name) (\<lambda>_. with_world (\<lambda>w.
     if known hBuffer w then UR_CALL (getHandle api (Some Device) hBuffer) k
     else UR_CALL (driver_call (pfnMem api)) (\<lambda>_. ret Cmd_Adapter)))"

fun enqueue_entry :: "buffer_api \<Rightarrow> data_op \<Rightarrow> command act" where
  "enqueue_entry api (Read q b off n dst) = enqueue_one api ''pfnMemBufferRead'' q b (\<lambda>pSrc. enqueue_memcpy api (User dst) (ptr_add pSrc off) n)"
| "enqueue_entry api (Write q b off n src) = enqueue_one api ''pfnMemBufferWrite'' q b (\<lambda>pDst. enqueue_memcpy api (ptr_add pDst off) (User src) n)"
| "enqueue_entry api (Fill q b pattern off n) = enqueue_one api ''pfnMemBufferFill'' q b (\<lambda>Handle. enqueue_fill api (ptr_add Handle off) pattern n)"
| "enqueue_entry api (Copy q s d so dof n) =
     UR_CALL (need_pfn api ''pfnMemBufferCopy'') (\<lambda>_. with_world (\<lambda>w.
     UR_CALL (UR_ASSERT (known s w \<and> known d w \<or> \<not> known s w \<and> \<not> known d w) UR_RESULT_ERROR_INVALID_MEM_OBJECT) (\<lambda>_.
     if known s w \<and> known d w
     then UR_CALL (getHandle api (Some q) s) (\<lambda>SrcHandle.
          UR_CALL (getHandle api (Some q) d) (\<lambda>DstHandle.
          enqueue_memcpy api (ptr_add DstHandle dof) (ptr_add SrcHandle so) n))
     else UR_CALL (driver_call (pfnMem api)) (\<lambda>_. ret Cmd_Adapter))))"

text \<open>A call whose command completes at once is the entry point of the theory before.\<close>

definition complete_now :: "((ur_result + command) \<times> world) \<Rightarrow> (ur_result + unit) \<times> world" where
  "complete_now p = (case p of (Inl e, w) \<Rightarrow> (Inl e, w) | (Inr c, w) \<Rightarrow> (Inr (), execute c w))"

lemma UR_CALL_complete_now:
  assumes "\<And>v w. map_option complete_now (k v w) = k' v w"
  shows "map_option complete_now (UR_CALL m k w) = UR_CALL m k' w"
  using assms by (cases "m w" rule: act_result_cases) (simp_all add: UR_CALL_def complete_now_def)

lemma complete_now_memcpy: "map_option complete_now (enqueue_memcpy api dst src n w) = USMMemcpy api dst src n w"
  unfolding enqueue_memcpy_def USMMemcpy_def by (rule UR_CALL_complete_now) (simp add: ret_def modify_def complete_now_def)

lemma complete_now_fill: "map_option complete_now (enqueue_fill api dst pattern n w) = USMFill api dst pattern n w"
  unfolding enqueue_fill_def USMFill_def by (rule UR_CALL_complete_now) (simp add: ret_def modify_def complete_now_def)

lemma complete_now_adapter: "map_option complete_now (UR_CALL (driver_call f) (\<lambda>_. ret Cmd_Adapter) w) = driver_call f w"
  by (simp add: driver_call_def UR_CALL_def complete_now_def ret_def)

lemma complete_now_one:
  assumes "\<And>h w. map_option complete_now (k h w) = k' h w"
  shows "map_option complete_now (enqueue_one api name q b k w) = intercept api name b (UR_CALL (getHandle api (Some q) b) k') w"
  unfolding enqueue_one_def intercept_def
  by (rule UR_CALL_complete_now) (simp add: with_world_def complete_now_adapter UR_CALL_complete_now[OF assms])

lemma enqueue_completes: "run_op api x w = map_option complete_now (enqueue_entry api x w)"
proof (cases x)
  case (Copy q s d so dof n)
  show ?thesis
    unfolding Copy run_op.simps enqueue_entry.simps urEnqueueMemBufferCopy_def intercept2_def
    by (rule UR_CALL_complete_now[symmetric])
      (simp add: with_world_def, intro conjI impI UR_CALL_complete_now, simp_all add: complete_now_adapter UR_CALL_complete_now complete_now_memcpy)
qed (simp_all add: urEnqueueMemBufferRead_def urEnqueueMemBufferWrite_def urEnqueueMemBufferFill_def complete_now_one complete_now_memcpy complete_now_fill)

section \<open>Histories with pending commands\<close>

text \<open>A call, blocking or not, or the completion of the oldest command. A blocking call returns when its command, and so all before it, has completed.\<close>

datatype step = Call data_op bool | Complete

fun call_step :: "bool \<Rightarrow> (ur_result + command) \<times> world \<Rightarrow> command list \<Rightarrow> (ur_result + unit) \<times> world \<times> command list" where
  "call_step blocking (Inl e, w) ps = (Inl e, w, ps)"
| "call_step blocking (Inr c, w) ps = (Inr (), if blocking then (drain (ps @ [c]) w, []) else (w, ps @ [c]))"

fun run_steps :: "buffer_api \<Rightarrow> step list \<Rightarrow> world \<times> command list \<Rightarrow> ((ur_result + unit) list \<times> world \<times> command list) option" where
  "run_steps api [] (w, ps) = Some ([], w, ps)"
| "run_steps api (Complete # xs) (w, ps) = (case ps of [] \<Rightarrow> run_steps api xs (w, []) | c # cs \<Rightarrow> run_steps api xs (execute c w, cs))"
| "run_steps api (Call x blocking # xs) (w, ps) =
     Option.bind (enqueue_entry api x w) (\<lambda>p. case call_step blocking p ps of
       (r, st) \<Rightarrow> Option.bind (run_steps api xs st) (\<lambda>(rs, st'). Some (r # rs, st')))"

fun calls_of :: "step list \<Rightarrow> data_op list" where
  "calls_of [] = []"
| "calls_of (Call x _ # xs) = x # calls_of xs"
| "calls_of (Complete # xs) = calls_of xs"

text \<open>The buffer is on the device: its data was last used there.\<close>

definition on_device :: "world \<Rightarrow> nat \<Rightarrow> nat \<Rightarrow> bool" where
  "on_device w q b \<longleftrightarrow> (case LastSyncedDevice (objects w ! root w b) of Some (d, _) \<Rightarrow> d = q | None \<Rightarrow> False)"

fun settled :: "world \<Rightarrow> data_op \<Rightarrow> bool" where
  "settled w (Read q b off n dst) = on_device w q b"
| "settled w (Write q b off n src) = on_device w q b"
| "settled w (Fill q b pattern off n) = on_device w q b"
| "settled w (Copy q s d so dof n) = (on_device w q s \<and> on_device w q d)"

text \<open>Every call finds nothing pending, or the buffers it uses on the device of its queue.\<close>

fun settled_run :: "buffer_api \<Rightarrow> step list \<Rightarrow> world \<times> command list \<Rightarrow> bool" where
  "settled_run api [] (w, ps) = True"
| "settled_run api (Complete # xs) (w, ps) = (case ps of [] \<Rightarrow> settled_run api xs (w, []) | c # cs \<Rightarrow> settled_run api xs (execute c w, cs))"
| "settled_run api (Call x blocking # xs) (w, ps) =
     ((ps = [] \<or> settled w x) \<and>
      (case enqueue_entry api x w of None \<Rightarrow> True | Some p \<Rightarrow> settled_run api xs (snd (call_step blocking p ps))))"

section \<open>Pending commands and calls\<close>

lemma execute_fields [simp]:
  "objects (execute c w) = objects w" "m_MemBufferMap (execute c w) = m_MemBufferMap w" "calls (execute c w) = calls w"
  by (cases c; simp add: store_def split: ptr.split)+

lemma drain_fields [simp]:
  "objects (drain ps w) = objects w" "m_MemBufferMap (drain ps w) = m_MemBufferMap w" "calls (drain ps w) = calls w"
  by (induction ps arbitrary: w) simp_all

lemma execute_wf [simp]: "buffers_wf (execute c w) = buffers_wf w"
  by (cases c) simp_all

lemma drain_wf [simp]: "buffers_wf (drain ps w) = buffers_wf w"
  by (induction ps arbitrary: w) simp_all

lemma drain_known [simp]: "known b (drain ps w) = known b w" "live (drain ps w) b = live w b"
  by (simp_all add: known_def live_def)

lemma store_calls: "store p bs (w\<lparr>calls := n\<rparr>) = (store p bs w)\<lparr>calls := n\<rparr>"
  by (simp add: store_def split: ptr.split)

lemma execute_calls: "execute c (w\<lparr>calls := n\<rparr>) = (execute c w)\<lparr>calls := n\<rparr>"
  by (cases c) (simp_all add: store_calls)

lemma drain_calls: "drain ps (w\<lparr>calls := n\<rparr>) = (drain ps w)\<lparr>calls := n\<rparr>"
  by (induction ps arbitrary: w) (simp_all add: execute_calls)

text \<open>On its device a buffer has its handle without any call.\<close>

lemma getHandle_settled:
  assumes wf: "buffers_wf w" and l: "live w b" and d: "on_device w q b"
  shows "getHandle api (Some q) b w = Some (Inr (Block (snd (the (LastSyncedDevice (objects w ! root w b)))) (base w b)), w)"
proof -
  let ?r = "root w b"
  obtain blk where ls: "LastSyncedDevice (objects w ! ?r) = Some (q, blk)" using d by (auto simp: on_device_def split: option.splits)
  have s: "sane w ?r" using wf_live(2)[OF wf l] .
  then have e: "entry (Some q) (objects w ! ?r) = Some blk" using ls by (simp add: sane_def synced_def)
  have u: "upd_buf ?r (\<lambda>buf. buf\<lparr>LastSyncedDevice := Some (q, blk)\<rparr>) w = w"
    using ls by (simp add: upd_buf_def flip: ls)
  have "getHandle_root api (Some q) ?r w = Some (Inr (Block blk 0), w)"
    by (simp add: getHandle_root_def getHandle_device_def allocate_device_def ensure_allocation_def copy_host_data_def sync_device_def
        UR_CALL_def with_world_def ret_def modify_def e ls u split: option.split)
  moreover have "parents_ok (objects w)" "b < length (objects w)" using wf wf_live(1)[OF wf l] by (simp_all add: buffers_wf_def)
  ultimately show ?thesis using getHandle_resolve[of w b api "Some q"] ls by simp
qed

text \<open>A call does the same before the pending commands complete as after.\<close>

definition drains :: "command list \<Rightarrow> world \<Rightarrow> 'a act \<Rightarrow> bool" where
  "drains ps w m \<longleftrightarrow> m (drain ps w) = map_option (apsnd (drain ps)) (m w)"

lemma drains_Nil: "drains [] w m"
  by (cases "m w" rule: act_result_cases) (simp_all add: drains_def)

lemma drains_UR_CALL:
  assumes "drains ps w m" "\<And>v w1. m w = Some (Inr v, w1) \<Longrightarrow> drains ps w1 (k v)"
  shows "drains ps w (UR_CALL m k)"
  using assms by (cases "m w" rule: act_result_cases) (simp_all add: drains_def UR_CALL_def)

lemma drains_basic:
  "drains ps w (ret v)" "drains ps w (UR_ASSERT c e)" "drains ps w (need_pfn api name)" "drains ps w (driver_call f)"
  by (simp_all add: drains_def ret_def throw_def UR_ASSERT_def need_pfn_def driver_call_def drain_calls)

lemma drains_enqueue:
  "drains ps w (enqueue_memcpy api dst src n)" "drains ps w (enqueue_fill api dst pattern n)"
  "drains ps w (UR_CALL (driver_call f) (\<lambda>_. ret Cmd_Adapter))"
  by (simp_all add: enqueue_memcpy_def enqueue_fill_def drains_UR_CALL drains_basic)

lemma drains_getHandle:
  assumes "buffers_wf w" "live w b" "on_device w q b"
  shows "drains ps w (getHandle api (Some q) b)" "getHandle api (Some q) b w = Some (Inr h, w1) \<Longrightarrow> w1 = w"
proof -
  have "on_device (drain ps w) q b" using assms(3) by (simp add: on_device_def)
  then show "drains ps w (getHandle api (Some q) b)"
    using getHandle_settled[OF assms, of api] getHandle_settled[of "drain ps w" b q api] assms by (simp add: drains_def)
  show "getHandle api (Some q) b w = Some (Inr h, w1) \<Longrightarrow> w1 = w" using getHandle_settled[OF assms, of api] by simp
qed

lemma need_pfn_state: "need_pfn api name w = Some (Inr v, w1) \<Longrightarrow> w1 = w"
  by (auto simp: need_pfn_def UR_ASSERT_def ret_def throw_def split: if_splits)

lemma drains_with_world: "drains ps w (k w) \<Longrightarrow> k (drain ps w) = k w \<Longrightarrow> drains ps w (with_world k)"
  by (simp add: drains_def with_world_def)

lemma drains_one:
  assumes "buffers_wf w" "live w b" "on_device w q b" "\<And>h. drains ps w (k h)"
  shows "drains ps w (enqueue_one api name q b k)"
  unfolding enqueue_one_def
proof (rule drains_UR_CALL[OF drains_basic(3)])
  fix v w1 assume "need_pfn api name w = Some (Inr v, w1)"
  then have w1: "w1 = w" by (rule need_pfn_state)
  have "drains ps w (UR_CALL (getHandle api (Some q) b) k)"
    by (rule drains_UR_CALL[OF drains_getHandle(1)[OF assms(1-3)]]) (use drains_getHandle(2)[OF assms(1-3)] assms(4) in blast)
  then show "drains ps w1 (with_world (\<lambda>w. if known b w then UR_CALL (getHandle api (Some q) b) k
      else UR_CALL (driver_call (pfnMem api)) (\<lambda>_. ret Cmd_Adapter)))"
    unfolding w1 by (intro drains_with_world) (simp_all add: drains_enqueue)
qed

lemma drains_op:
  assumes wf: "buffers_wf w" and ok: "op_ok w s x" and st: "settled w x"
  shows "drains ps w (enqueue_entry api x)"
proof (cases x)
  case (Copy q b d so dof n)
  have l: "live w b" "live w d" "on_device w q b" "on_device w q d" using ok st Copy by (auto simp: in_range_def)
  let ?copy = "\<lambda>h. UR_CALL (getHandle api (Some q) d) (\<lambda>h'. enqueue_memcpy api (ptr_add h' dof) (ptr_add h so) n)"
  have 2: "drains ps w (?copy h)" for h
    by (rule drains_UR_CALL[OF drains_getHandle(1)[OF wf l(2,4)] drains_enqueue(1)])
  have 1: "drains ps w (UR_CALL (getHandle api (Some q) b) ?copy)"
    by (rule drains_UR_CALL[OF drains_getHandle(1)[OF wf l(1,3)]]) (use drains_getHandle(2)[OF wf l(1,3)] 2 in blast)
  show ?thesis
    unfolding Copy enqueue_entry.simps
  proof (rule drains_UR_CALL[OF drains_basic(3)], drule need_pfn_state)
    fix v w1 assume w1: "w1 = w"
    show "drains ps w1 (with_world (\<lambda>w. UR_CALL (UR_ASSERT (known b w \<and> known d w \<or> \<not> known b w \<and> \<not> known d w) UR_RESULT_ERROR_INVALID_MEM_OBJECT)
        (\<lambda>_. if known b w \<and> known d w then UR_CALL (getHandle api (Some q) b) ?copy
             else UR_CALL (driver_call (pfnMem api)) (\<lambda>_. ret Cmd_Adapter))))"
      unfolding w1 using l 1 by (intro drains_with_world) (simp_all add: live_def drains_def UR_ASSERT_def UR_CALL_def ret_def)
  qed
qed (use wf ok st in \<open>auto simp: in_range_def intro!: drains_one drains_enqueue\<close>)

section \<open>Buffers are arrays\<close>

lemma drain_snoc: "drain (ps @ [c]) w = execute c (drain ps w)"
  by simp

lemma op_ok_drain: "op_ok (drain ps w) s = op_ok w s"
proof
  show "op_ok (drain ps w) s x = op_ok w s x" for x by (cases x) (simp_all add: in_range_def)
qed

text \<open>One call: when the commands have completed, the state is that of the call after which nothing was pending.\<close>

lemma call_step_drain:
  assumes "buffers_wf w" "op_ok w s x" "ps = [] \<or> settled w x" "enqueue_entry api x w = Some p" "call_step blocking p ps = (r, w', ps')"
  shows "run_op api x (drain ps w) = Some (r, drain ps' w')"
proof -
  have "drains ps w (enqueue_entry api x)" using assms(3) drains_op[OF assms(1,2)] by (auto simp: drains_Nil)
  then have e: "enqueue_entry api x (drain ps w) = Some (apsnd (drain ps) p)" using assms(4) by (simp add: drains_def)
  obtain q v where p: "p = (q, v)" by (cases p)
  show ?thesis
    using e assms(5) unfolding enqueue_completes p by (cases q) (auto simp: complete_now_def split: if_splits)
qed

lemma call_refines:
  assumes wf: "buffers_wf w" and rep: "represents (drain ps w) s" and ok: "list_all (op_ok w s) (x # xs)" and st: "ps = [] \<or> settled w x"
  obtains p r w1 ps1 s1 where "enqueue_entry api x w = Some p" "call_step blocking p ps = (r, w1, ps1)" "buffers_wf w1"
    "s1 = (if r = Inr () then array_op (resolve (objects w)) x s else s)" "represents (drain ps1 w1) s1" "list_all (op_ok w1 s1) xs"
    "resolve (objects w1) = resolve (objects w)" "good_api api \<longrightarrow> r = Inr ()"
proof -
  have ok': "op_ok w s x" "op_ok (drain ps w) s x" using ok by (simp_all add: op_ok_drain)
  have wf': "buffers_wf (drain ps w)" using wf by simp
  obtain p where p: "enqueue_entry api x w = Some p"
    using run_op_returns[OF wf ok'(1), of api] by (cases "enqueue_entry api x w") (auto simp: enqueue_completes)
  obtain r w1 ps1 where c: "call_step blocking p ps = (r, w1, ps1)" by (metis prod.exhaust)
  have run: "run_op api x (drain ps w) = Some (r, drain ps1 w1)" by (rule call_step_drain[OF wf ok'(1) st p c])
  define s1 where "s1 = (if r = Inr () then array_op (resolve (objects w)) x s else s)"
  have w1: "same_buffers (drain ps w) (drain ps1 w1)" "represents (drain ps1 w1) s1"
    using run_op_refines[OF run wf' rep ok'(2)] unfolding drain_fields s1_def by (rule conjunct1, rule conjunct2)
  have "dom (fst s1) = dom (fst s)" using dom_array_op[OF ok'(1)] by (simp add: s1_def)
  then have "list_all (op_ok (drain ps1 w1) s1) xs"
    using ok same_buffers_op_ok[OF w1(1)] op_ok_dom[of s1 s] by (simp add: list_all_iff op_ok_drain)
  moreover have "r = Inr ()" if "good_api api" using run_op_succeeds[OF that wf' ok'(2)] run by (cases r) auto
  moreover have "resolve (objects w1) = resolve (objects w)" using same_buffers_resolve[OF w1(1)] by simp
  moreover have "buffers_wf w1" using w1(1) by (simp add: same_buffers_def)
  ultimately show thesis using that[OF p c _ s1_def w1(2)] by (simp add: op_ok_drain)
qed

text \<open>
  C21: Reads, writes, fills and copies on queues of any devices, blocking or with commands that complete later in the order of the calls, behave as on one array of bytes for
  each buffer and the memory of the application, where sub-buffers are parts of the array of their parent, under one condition: a call on another device than the one a buffer was
  last used on finds no command pending. Every call returns, whatever calls into the interceptor and the adapter fail, and
  when the commands still pending have completed too, the calls that
  returned success have had their effect on the arrays, in their order, and those that returned an error none. Where no call fails, all operations
  succeed.\<close>

theorem buffers_are_arrays:
  assumes "buffers_wf w" "represents (drain ps w) s" "list_all (op_ok w s) (calls_of xs)" "settled_run api xs (w, ps)"
  shows "\<exists>rs w' ps'. run_steps api xs (w, ps) = Some (rs, w', ps') \<and> length rs = length (calls_of xs) \<and>
    represents (drain ps' w') (array_ops (resolve (objects w)) (calls_of xs) rs s) \<and>
    (good_api api \<longrightarrow> rs = replicate (length (calls_of xs)) (Inr ()))"
  using assms
proof (induction xs arbitrary: w ps s)
  case (Cons x xs)
  show ?case
  proof (cases x)
    case Complete
    show ?thesis
    proof (cases ps)
      case (Cons c cs)
      then show ?thesis using Cons.IH[of "execute c w" cs s] Cons.prems Complete op_ok_drain[of "[c]" w s] by simp
    qed (use Cons.IH[of w "[]" s] Cons.prems Complete in simp)
  next
    case (Call y blocking)
    obtain p r w1 ps1 s1 where 1: "enqueue_entry api y w = Some p" "call_step blocking p ps = (r, w1, ps1)" "buffers_wf w1"
      "s1 = (if r = Inr () then array_op (resolve (objects w)) y s else s)" "represents (drain ps1 w1) s1" "list_all (op_ok w1 s1) (calls_of xs)"
      "resolve (objects w1) = resolve (objects w)" "good_api api \<longrightarrow> r = Inr ()"
      by (rule call_refines[OF Cons.prems(1,2), of y "calls_of xs" api blocking]) (use Cons.prems(3,4) Call in simp_all)
    have "settled_run api xs (w1, ps1)" using Cons.prems(4) Call 1(1,2) by simp
    from Cons.IH[OF 1(3,5,6) this] obtain rs w' ps' where "run_steps api xs (w1, ps1) = Some (rs, w', ps')" "length rs = length (calls_of xs)"
      "represents (drain ps' w') (array_ops (resolve (objects w1)) (calls_of xs) rs s1)"
      "good_api api \<longrightarrow> rs = replicate (length (calls_of xs)) (Inr ())" by blast
    then show ?thesis using Call 1 by auto
  qed
qed simp

declare getHandle.simps [code]

lemma two_settled:
  "settled_run flaky_api [Call (Write 0 1 0 1 100) False, Call (Fill 0 0 [5] 0 1) False, Complete, Complete, Call (Read 1 0 0 2 200) True] (two_bytes, [])"
  by code_simp

theorem buffers_are_arrays_witness:
  "\<exists>rs w' ps'. run_steps flaky_api [Call (Write 0 1 0 1 100) False, Call (Fill 0 0 [5] 0 1) False, Complete, Complete, Call (Read 1 0 0 2 200) True]
      (two_bytes, []) = Some (rs, w', ps') \<and> length rs = 3 \<and>
    represents (drain ps' w') (array_ops (resolve (objects two_bytes)) [Write 0 1 0 1 100, Fill 0 0 [5] 0 1, Read 1 0 0 2 200] rs ([0 \<mapsto> [7, 7]], \<lambda>_. 9))"
proof -
  let ?xs = "[Call (Write 0 1 0 1 100) False, Call (Fill 0 0 [5] 0 1) False, Complete, Complete, Call (Read 1 0 0 2 200) True]"
  have "list_all (op_ok two_bytes ([0 \<mapsto> [7, 7]], \<lambda>_. 9)) (calls_of ?xs)"
    using two_bytes_live by (simp add: in_range_def MemBuffer_def MemBuffer_sub_def)
  then show ?thesis
    using buffers_are_arrays[OF two_bytes_wf _ _ two_settled, of "([0 \<mapsto> [7, 7]], \<lambda>_. 9)"] two_bytes_represents by fastforce
qed

text \<open>The condition is needed. A fill is pending on device 0 when a read on device 1 is called, which waits for the fill: it completes after it. The data has moved before,
  and the read delivers the bytes from before the fill.\<close>

lemma pending_fill_not_migrated:
  "map_option (\<lambda>(rs, w, ps). (rs, ps, user w 200))
     (run_steps (flaky_api\<lparr>pfnUSMMemcpy := \<lambda>_. UR_RESULT_SUCCESS\<rparr>)
        [Call (Fill 0 0 [1] 0 2) False, Call (Read 1 0 0 2 200) False, Complete, Complete] (two_bytes, [])) =
   Some ([Inr (), Inr ()], [], 7)"
  by code_simp

end
