(* ===== verification/Cuda_Kernel_Args.thy ===== *)
theory Cuda_Kernel_Args
  imports UR_Adapter_Common
begin

text \<open>
  The arguments of a kernel of the CUDA adapter (adapters/cuda/kernel.hpp). The values are kept in one array of bytes, with a
  list of pointers for the driver whose last is the implicit global offset. For an argument in local memory the value is
  its offset in the local memory of a block, which the adapter lays out. Positions in the arrays are
  natural numbers; sizes, offsets and the sums of them are 64-bit words.
\<close>

section \<open>State\<close>

datatype arg_ptr = Implicit | At nat

record mem_obj_arg =
  Mem :: nat
  Index_of :: int
  AccessFlags :: u32

record kernel_args =
  Storage :: "u8 list"
  ParamSizes :: "u64 list"
  ArgPointers :: "arg_ptr list"
  InsertPos :: u64
  AlignedLocalMemSize :: "u64 list"
  OriginalLocalMemSize :: "u64 list"
  WorkGroupMemory :: u64
  MemObjArgs :: "mem_obj_arg list"
  ImplicitOffsetArgs :: "u8 list"

definition MaxParamBytes :: u64 where
  "MaxParamBytes = 4000"

definition new_args :: kernel_args where
  "new_args = \<lparr>Storage = replicate 4000 0, ParamSizes = [], ArgPointers = [Implicit], InsertPos = 0,
     AlignedLocalMemSize = [], OriginalLocalMemSize = [], WorkGroupMemory = 0, MemObjArgs = [], ImplicitOffsetArgs = replicate 12 0\<rparr>"

section \<open>Operations\<close>

text \<open>\<open>std::vector::resize\<close>, and \<open>memcpy\<close> into one of the two arrays.\<close>

definition resize :: "nat \<Rightarrow> 'a \<Rightarrow> 'a list \<Rightarrow> 'a list" where
  "resize n d xs = take n xs @ replicate (n - length xs) d"

definition overwrite :: "nat \<Rightarrow> u8 list \<Rightarrow> u8 list \<Rightarrow> u8 list" where
  "overwrite p bs xs = take p xs @ bs @ drop (p + length bs) xs"

definition memcpy_to :: "arg_ptr \<Rightarrow> u8 list \<Rightarrow> kernel_args \<Rightarrow> kernel_args" where
  "memcpy_to p bs st =
     (case p of
        At a \<Rightarrow> st\<lparr>Storage := overwrite a bs (Storage st)\<rparr>
      | Implicit \<Rightarrow> st\<lparr>ImplicitOffsetArgs := overwrite 0 bs (ImplicitOffsetArgs st)\<rparr>)"

text \<open>The bytes of a \<open>size_t\<close> in memory, lowest first.\<close>

definition size_bytes :: "u64 \<Rightarrow> u8 list" where
  "size_bytes x = map (\<lambda>i. ucast (drop_bit (8 * i) x)) [0..<8]"

definition expand :: "nat \<Rightarrow> kernel_args \<Rightarrow> kernel_args" where
  "expand Index st =
     (if Index + 2 > length (ArgPointers st)
      then st\<lparr>ArgPointers := resize (Index + 2) (last (ArgPointers st)) (ArgPointers st),
              ParamSizes := resize (Index + 1) 0 (ParamSizes st),
              AlignedLocalMemSize := resize (Index + 1) 0 (AlignedLocalMemSize st),
              OriginalLocalMemSize := resize (Index + 1) 0 (OriginalLocalMemSize st)\<rparr>
      else st)"

definition insert_arg :: "nat \<Rightarrow> u64 \<Rightarrow> u8 list \<Rightarrow> u64 \<Rightarrow> kernel_args \<Rightarrow> kernel_args" where
  "insert_arg Index n Arg LocalSize st =
     st\<lparr>ParamSizes := (ParamSizes st)[Index := n],
        Storage := overwrite (unat (InsertPos st)) Arg (Storage st),
        ArgPointers := (ArgPointers st)[Index := At (unat (InsertPos st))],
        AlignedLocalMemSize := (AlignedLocalMemSize st)[Index := LocalSize],
        InsertPos := InsertPos st + n\<rparr>"

text \<open>An exception leaves the state as it is at that point, so the state is returned with it.\<close>

definition addArg :: "nat \<Rightarrow> u64 \<Rightarrow> u8 list \<Rightarrow> u64 \<Rightarrow> kernel_args \<Rightarrow> (ur_result + unit) \<times> kernel_args" where
  "addArg Index n Arg LocalSize st0 =
     (let st = expand Index st0
      in if ParamSizes st ! Index = 0
         then if InsertPos st + n > MaxParamBytes then (Inl UR_RESULT_ERROR_OUT_OF_RESOURCES, st)
              else (Inr (), insert_arg Index n Arg LocalSize st)
         else if n \<noteq> ParamSizes st ! Index then (Inl UR_RESULT_ERROR_INVALID_ARGUMENT, st)
         else (Inr (), (memcpy_to (ArgPointers st ! Index) Arg st)
                \<lparr>AlignedLocalMemSize := (AlignedLocalMemSize st)[Index := LocalSize]\<rparr>))"

definition LocalOffset :: "nat \<Rightarrow> kernel_args \<Rightarrow> u64" where
  "LocalOffset Index st = WorkGroupMemory st + sum_list (take Index (AlignedLocalMemSize st))"

text \<open>The largest vector type has 128 bytes. For a size of 0 the remainder is undefined in the program.\<close>

definition align_local :: "u64 \<Rightarrow> u64 \<Rightarrow> u64 \<times> u64" where
  "align_local off n =
     (let Alignment = min 128 n; Pad = off mod Alignment;
          AlignedLocalOffset = (if Pad \<noteq> 0 then off + (Alignment - Pad) else off)
      in (n + (AlignedLocalOffset - off), AlignedLocalOffset))"

definition note_size :: "nat \<Rightarrow> u64 \<Rightarrow> kernel_args \<Rightarrow> kernel_args" where
  "note_size Index n st =
     (let st1 = (if Index + 2 > length (ArgPointers st)
                 then st\<lparr>AlignedLocalMemSize := resize (Index + 1) 0 (AlignedLocalMemSize st),
                         OriginalLocalMemSize := resize (Index + 1) 0 (OriginalLocalMemSize st)\<rparr>
                 else st)
      in st1\<lparr>OriginalLocalMemSize := (OriginalLocalMemSize st1)[Index := n]\<rparr>)"

definition calcAlignedLocalArgument :: "nat \<Rightarrow> u64 \<Rightarrow> kernel_args \<Rightarrow> (u64 \<times> u64) \<times> kernel_args" where
  "calcAlignedLocalArgument Index n st =
     (let st1 = note_size Index n st in (align_local (LocalOffset Index st1) n, st1))"

text \<open>The loop of \<open>updateLocalArgOffset\<close> over the argument indices.\<close>

fun update_loop :: "nat list \<Rightarrow> kernel_args \<Rightarrow> kernel_args" where
  "update_loop [] st = st"
| "update_loop (SuccIndex # is) st =
     (let OriginalLocalSize = OriginalLocalMemSize st ! SuccIndex
      in if OriginalLocalSize = 0 then update_loop is st
         else let ((SuccAlignedLocalSize, SuccAlignedLocalOffset), st1) = calcAlignedLocalArgument SuccIndex OriginalLocalSize st;
                  st2 = st1\<lparr>AlignedLocalMemSize := (AlignedLocalMemSize st1)[SuccIndex := SuccAlignedLocalSize]\<rparr>
              in update_loop is (memcpy_to (ArgPointers st2 ! SuccIndex) (size_bytes SuccAlignedLocalOffset) st2))"

definition updateLocalArgOffset :: "nat \<Rightarrow> kernel_args \<Rightarrow> kernel_args" where
  "updateLocalArgOffset StartIndex st = update_loop [StartIndex..<length (ArgPointers st) - 1] st"

definition addLocalArg :: "nat \<Rightarrow> u64 \<Rightarrow> kernel_args \<Rightarrow> (ur_result + unit) \<times> kernel_args" where
  "addLocalArg Index n st =
     (let ((AlignedLocalSize, AlignedLocalOffset), st1) = calcAlignedLocalArgument Index n st;
          (r, st2) = addArg Index 8 (size_bytes AlignedLocalOffset) AlignedLocalSize st1
      in case r of Inl e \<Rightarrow> (Inl e, st2) | Inr _ \<Rightarrow> (Inr (), updateLocalArgOffset (Index + 1) st2))"

text \<open>The memory objects among the arguments, at most one for each index.\<close>

fun put_mem_obj :: "mem_obj_arg \<Rightarrow> mem_obj_arg list \<Rightarrow> mem_obj_arg list" where
  "put_mem_obj a [] = [a]"
| "put_mem_obj a (Arg # as) = (if Index_of Arg = Index_of a then a # as else Arg # put_mem_obj a as)"

definition addMemObjArg :: "int \<Rightarrow> nat \<Rightarrow> u32 \<Rightarrow> kernel_args \<Rightarrow> kernel_args" where
  "addMemObjArg Index hMem Flags st =
     st\<lparr>MemObjArgs := put_mem_obj \<lparr>Mem = hMem, Index_of = Index, AccessFlags = Flags\<rparr> (MemObjArgs st)\<rparr>"

definition setWorkGroupMemory :: "u64 \<Rightarrow> kernel_args \<Rightarrow> kernel_args" where
  "setWorkGroupMemory MemSize st =
     (if WorkGroupMemory st = MemSize then st
      else updateLocalArgOffset 0 (st\<lparr>WorkGroupMemory := MemSize\<rparr>))"

definition setImplicitOffset :: "u32 \<times> u32 \<times> u32 \<Rightarrow> kernel_args \<Rightarrow> kernel_args" where
  "setImplicitOffset off st =
     (let bytes = (\<lambda>x :: u32. map (\<lambda>i. ucast (drop_bit (8 * i) x)) [0..<4])
      in st\<lparr>ImplicitOffsetArgs := (case off of (a, b, c) \<Rightarrow> bytes a @ bytes b @ bytes c)\<rparr>)"

text \<open>The sum is one of \<open>int\<close>s and the result a \<open>uint32_t\<close>: the total modulo 2 to the 32.\<close>

definition getLocalSize :: "kernel_args \<Rightarrow> u32" where
  "getLocalSize st = ucast (sum_list (AlignedLocalMemSize st) + WorkGroupMemory st)"

definition getNumArgs :: "kernel_args \<Rightarrow> nat" where
  "getNumArgs st = length (ArgPointers st) - 1"

section \<open>The memory objects among the arguments\<close>

lemma put_mem_obj_index: "distinct (map Index_of as) \<Longrightarrow> distinct (map Index_of (put_mem_obj a as)) \<and>
   set (map Index_of (put_mem_obj a as)) = insert (Index_of a) (set (map Index_of as))"
  by (induction as) auto

lemma put_mem_obj_lookup:
  "map_of (map (\<lambda>m. (Index_of m, m)) (put_mem_obj a as)) = (map_of (map (\<lambda>m. (Index_of m, m)) as))(Index_of a \<mapsto> a)"
  by (induction as) (auto simp: fun_eq_iff)

section \<open>The array of the values\<close>

abbreviation nargs :: "kernel_args \<Rightarrow> nat" where
  "nargs st \<equiv> length (ParamSizes st)"

text \<open>What the driver reads for an argument.\<close>

definition arg_bytes :: "kernel_args \<Rightarrow> nat \<Rightarrow> u8 list" where
  "arg_bytes st i =
     (case ArgPointers st ! i of At p \<Rightarrow> take (unat (ParamSizes st ! i)) (drop p (Storage st)) | Implicit \<Rightarrow> [])"

definition arg_at :: "kernel_args \<Rightarrow> nat \<Rightarrow> nat \<Rightarrow> bool" where
  "arg_at st i p \<longleftrightarrow> ArgPointers st ! i = At p \<and> p + unat (ParamSizes st ! i) \<le> unat (InsertPos st)"

definition args_ok :: "kernel_args \<Rightarrow> bool" where
  "args_ok st \<longleftrightarrow>
     length (ArgPointers st) = nargs st + 1 \<and> last (ArgPointers st) = Implicit \<and>
     length (AlignedLocalMemSize st) = nargs st \<and> length (OriginalLocalMemSize st) = nargs st \<and>
     length (Storage st) = 4000 \<and> unat (InsertPos st) \<le> 4000 \<and>
     unat (InsertPos st) = sum_list (map unat (ParamSizes st)) \<and>
     (\<forall>i < nargs st. ParamSizes st ! i \<noteq> 0 \<longrightarrow> (\<exists>p. arg_at st i p)) \<and>
     (\<forall>i < nargs st. \<forall>j < nargs st. \<forall>p q. i \<noteq> j \<and> ParamSizes st ! i \<noteq> 0 \<and> ParamSizes st ! j \<noteq> 0 \<and> arg_at st i p \<and> arg_at st j q \<longrightarrow>
        p + unat (ParamSizes st ! i) \<le> q \<or> q + unat (ParamSizes st ! j) \<le> p)"

lemma args_ok_lengths:
  assumes "args_ok st"
  shows "length (ArgPointers st) = nargs st + 1" "last (ArgPointers st) = Implicit" "length (AlignedLocalMemSize st) = nargs st"
    "length (OriginalLocalMemSize st) = nargs st" "length (Storage st) = 4000" "unat (InsertPos st) \<le> 4000"
    "unat (InsertPos st) = sum_list (map unat (ParamSizes st))"
  using assms unfolding args_ok_def by blast+

lemma args_ok_slot: "args_ok st \<Longrightarrow> i < nargs st \<Longrightarrow> ParamSizes st ! i \<noteq> 0 \<Longrightarrow> \<exists>p. arg_at st i p"
  unfolding args_ok_def by blast

lemma sum_list_update_zero: "j < length xs \<Longrightarrow> xs ! j = 0 \<Longrightarrow> sum_list (map unat (xs[j := n])) = sum_list (map unat xs) + unat n"
  for xs :: "u64 list"
  by (induction xs arbitrary: j) (auto split: nat.splits)

lemma length_overwrite [simp]: "p + length bs \<le> length xs \<Longrightarrow> length (overwrite p bs xs) = length xs"
  by (simp add: overwrite_def)

lemma overwrite_same: "p + length bs \<le> length xs \<Longrightarrow> take (length bs) (drop p (overwrite p bs xs)) = bs"
  by (simp add: overwrite_def)

lemma overwrite_other:
  assumes "p + length bs \<le> length xs" "q + n \<le> p \<or> p + length bs \<le> q"
  shows "take n (drop q (overwrite p bs xs)) = take n (drop q xs)"
proof (rule nth_equalityI)
  show "length (take n (drop q (overwrite p bs xs))) = length (take n (drop q xs))" using assms(1) by simp
  fix i assume i: "i < length (take n (drop q (overwrite p bs xs)))"
  have "q \<le> length xs" using i assms(1) by (simp, linarith)
  moreover have "overwrite p bs xs ! (q + i) = xs ! (q + i)"
    using assms i by (auto simp: overwrite_def nth_append)
  ultimately show "take n (drop q (overwrite p bs xs)) ! i = take n (drop q xs) ! i" using i assms(1) by (simp add: nth_drop)
qed

lemma length_size_bytes [simp]: "length (size_bytes x) = 8"
  by (simp add: size_bytes_def)

text \<open>Writing a value of the right size where the argument already is.\<close>

lemma memcpy_arg:
  assumes ok: "args_ok st" and j: "j < nargs st" "ParamSizes st ! j \<noteq> 0" and len: "length bs = unat (ParamSizes st ! j)"
  shows "args_ok (memcpy_to (ArgPointers st ! j) bs st)" "arg_bytes (memcpy_to (ArgPointers st ! j) bs st) j = bs"
    "i < nargs st \<Longrightarrow> i \<noteq> j \<Longrightarrow> ParamSizes st ! i \<noteq> 0 \<Longrightarrow> arg_bytes (memcpy_to (ArgPointers st ! j) bs st) i = arg_bytes st i"
    "\<exists>p. memcpy_to (ArgPointers st ! j) bs st = st\<lparr>Storage := overwrite p bs (Storage st)\<rparr>"
proof -
  obtain p where p: "arg_at st j p" using ok j by (auto simp: args_ok_def)
  have fit: "p + length bs \<le> length (Storage st)" using p ok len by (auto simp: arg_at_def args_ok_def)
  have m: "memcpy_to (ArgPointers st ! j) bs st = st\<lparr>Storage := overwrite p bs (Storage st)\<rparr>"
    using p by (simp add: memcpy_to_def arg_at_def)
  then show "\<exists>p. memcpy_to (ArgPointers st ! j) bs st = st\<lparr>Storage := overwrite p bs (Storage st)\<rparr>" by blast
  have at: "arg_at (st\<lparr>Storage := xs\<rparr>) = arg_at st" for xs by (simp add: arg_at_def fun_eq_iff)
  show "args_ok (memcpy_to (ArgPointers st ! j) bs st)"
    using ok fit unfolding m by (simp add: args_ok_def at)
  show "arg_bytes (memcpy_to (ArgPointers st ! j) bs st) j = bs"
    unfolding m using p fit len overwrite_same[of p bs "Storage st"] by (simp add: arg_bytes_def arg_at_def)
  show "arg_bytes (memcpy_to (ArgPointers st ! j) bs st) i = arg_bytes st i" if i: "i < nargs st" "i \<noteq> j" "ParamSizes st ! i \<noteq> 0"
  proof -
    obtain q where q: "arg_at st i q" using ok i by (auto simp: args_ok_def)
    have "q + unat (ParamSizes st ! i) \<le> p \<or> p + length bs \<le> q"
      using ok i j p q len unfolding args_ok_def by auto
    then show ?thesis
      unfolding m using overwrite_other[OF fit] q by (simp add: arg_bytes_def arg_at_def)
  qed
qed

lemma resize_nth: "i < n \<Longrightarrow> resize n d xs ! i = (if i < length xs then xs ! i else d)"
  by (simp add: resize_def nth_append)

lemma length_resize [simp]: "length (resize n d xs) = n"
  by (simp add: resize_def)

lemma resize_id: "length xs = n \<Longrightarrow> resize n d xs = xs"
  by (simp add: resize_def)

lemma sum_list_resize: "length xs \<le> n \<Longrightarrow> f d = 0 \<Longrightarrow> sum_list (map f (resize n d xs)) = sum_list (map f xs)" for f :: "_ \<Rightarrow> nat"
  by (simp add: resize_def sum_list_replicate)

lemma last_nth: "length xs = Suc n \<Longrightarrow> last xs = xs ! n"
  by (cases xs rule: rev_cases) (auto simp: nth_append)

text \<open>Making room for more arguments.\<close>

lemma expand_ok:
  assumes ok: "args_ok st"
  shows "args_ok (expand k st)" "nargs (expand k st) = max (nargs st) (k + 1)"
    "i < nargs st \<Longrightarrow> ParamSizes (expand k st) ! i = ParamSizes st ! i"
    "i < nargs st \<Longrightarrow> AlignedLocalMemSize (expand k st) ! i = AlignedLocalMemSize st ! i"
    "i < nargs st \<Longrightarrow> OriginalLocalMemSize (expand k st) ! i = OriginalLocalMemSize st ! i"
    "i < nargs st \<Longrightarrow> arg_bytes (expand k st) i = arg_bytes st i"
    "nargs st \<le> i \<Longrightarrow> i < nargs (expand k st) \<Longrightarrow> ParamSizes (expand k st) ! i = 0 \<and> AlignedLocalMemSize (expand k st) ! i = 0 \<and>
       OriginalLocalMemSize (expand k st) ! i = 0"
    "InsertPos (expand k st) = InsertPos st" "WorkGroupMemory (expand k st) = WorkGroupMemory st"
    "ImplicitOffsetArgs (expand k st) = ImplicitOffsetArgs st" "expand k (expand k st) = expand k st"
proof -
  have "args_ok (expand k st) \<and> nargs (expand k st) = max (nargs st) (k + 1)"
  proof (cases "k < nargs st")
    case True
    then show ?thesis using ok by (auto simp: expand_def args_ok_def)
  next
    case False
    let ?st = "expand k st"
    have f: "ParamSizes ?st = resize (k + 1) 0 (ParamSizes st)" "ArgPointers ?st = resize (k + 2) Implicit (ArgPointers st)"
      "AlignedLocalMemSize ?st = resize (k + 1) 0 (AlignedLocalMemSize st)" "OriginalLocalMemSize ?st = resize (k + 1) 0 (OriginalLocalMemSize st)"
      "Storage ?st = Storage st" "InsertPos ?st = InsertPos st"
      using False ok by (auto simp: expand_def args_ok_def)
    have old: "ParamSizes ?st ! i \<noteq> 0 \<Longrightarrow> i < nargs ?st \<Longrightarrow> i < nargs st \<and> arg_at ?st i = arg_at st i \<and> ParamSizes ?st ! i = ParamSizes st ! i" for i
      using f False ok by (auto simp: resize_nth arg_at_def fun_eq_iff args_ok_def split: if_splits)
    have "last (ArgPointers ?st) = ArgPointers ?st ! (k + 1)"
      by (rule last_nth) (simp add: f)
    moreover have "ArgPointers ?st ! (k + 1) = Implicit"
      using ok False last_nth[of "ArgPointers st" "nargs st"] by (auto simp: f resize_nth args_ok_def not_less le_Suc_eq)
    ultimately have l: "last (ArgPointers ?st) = Implicit" by simp
    have "\<exists>p. arg_at ?st i p" if "i < nargs ?st" "ParamSizes ?st ! i \<noteq> 0" for i
      using old[OF that(2,1)] ok that(2) by (auto simp: args_ok_def)
    moreover have "p + unat (ParamSizes ?st ! i) \<le> q \<or> q + unat (ParamSizes ?st ! j) \<le> p"
      if "i < nargs ?st" "j < nargs ?st" "i \<noteq> j" "ParamSizes ?st ! i \<noteq> 0" "ParamSizes ?st ! j \<noteq> 0" "arg_at ?st i p" "arg_at ?st j q" for i j p q
      using old[OF that(4,1)] old[OF that(5,2)] ok that unfolding args_ok_def by metis
    ultimately show ?thesis
      using False ok l f sum_list_resize[of "ParamSizes st" "k + 1" unat 0] unfolding args_ok_def by (auto simp: max_def)
  qed
  then show "args_ok (expand k st)" "nargs (expand k st) = max (nargs st) (k + 1)" by auto
  then show "expand k (expand k st) = expand k st"
    by (simp add: expand_def[of k "expand k st"] args_ok_def)
qed (use ok in \<open>auto simp: expand_def resize_nth args_ok_def arg_bytes_def split: arg_ptr.splits\<close>)

text \<open>Adding an argument at a place that has none, and replacing one.\<close>

lemma new_arg_ok:
  assumes ok: "args_ok st" and j: "j < nargs st" "ParamSizes st ! j = 0" and len: "length bs = unat n" "unat n < 2 ^ 63"
    and room: "\<not> InsertPos st + n > MaxParamBytes"
  shows "args_ok (insert_arg j n bs ls st)" "arg_bytes (insert_arg j n bs ls st) j = bs"
    "i < nargs st \<Longrightarrow> i \<noteq> j \<Longrightarrow> ParamSizes st ! i \<noteq> 0 \<Longrightarrow> arg_bytes (insert_arg j n bs ls st) i = arg_bytes st i"
proof -
  let ?p = "unat (InsertPos st)" and ?s = "insert_arg j n bs ls st"
  have ne: "ArgPointers st \<noteq> []" using args_ok_lengths(1)[OF ok] by force
  have ip: "?p \<le> 4000" "length (Storage st) = 4000" using ok by (auto simp: args_ok_def)
  then have sum: "unat (InsertPos st + n) = ?p + unat n" using len(2) by (subst unat_plus_if') simp
  then have fit: "?p + length bs \<le> 4000" using room len(1) by (simp add: MaxParamBytes_def word_less_nat_alt)
  have at: "arg_at ?s i p \<longleftrightarrow> (if i = j then p = ?p else ArgPointers st ! i = At p \<and> p + unat (ParamSizes st ! i) \<le> ?p + unat n)"
    if "i < nargs st" for i p
    using that j ok sum by (auto simp: arg_at_def insert_arg_def args_ok_def)
  have old: "ArgPointers st ! i = At p \<Longrightarrow> p + unat (ParamSizes st ! i) \<le> ?p" if "i < nargs st" "ParamSizes st ! i \<noteq> 0" for i p
    using ok that by (auto simp: args_ok_def arg_at_def)
  have ps: "ParamSizes ?s ! i = (if i = j then n else ParamSizes st ! i)" if "i < nargs st" for i
    using that j by (simp add: insert_arg_def)
  have "\<exists>p. arg_at ?s i p" if i: "i < nargs st" "ParamSizes ?s ! i \<noteq> 0" for i
  proof (cases "i = j")
    case False
    then obtain p where "arg_at st i p" using i args_ok_slot[OF ok, of i] by (auto simp: insert_arg_def)
    then have "arg_at ?s i p" using False i(1) by (simp add: at) (simp add: arg_at_def)
    then show ?thesis by blast
  qed (use i at in auto)
  moreover have "p + unat (ParamSizes ?s ! i) \<le> q \<or> q + unat (ParamSizes ?s ! k) \<le> p"
    if a: "i < nargs st" "k < nargs st" "i \<noteq> k" "ParamSizes ?s ! i \<noteq> 0" "ParamSizes ?s ! k \<noteq> 0" "arg_at ?s i p" "arg_at ?s k q" for i k p q
  proof (cases "i = j \<or> k = j")
    case True
    then show ?thesis using a old[of i p] old[of k q] by (auto simp: at ps)
  next
    case False
    then have "arg_at st i p" "arg_at st k q" using a old[of i p] old[of k q] by (auto simp: at ps) (auto simp: arg_at_def)
    then show ?thesis using a False ok unfolding args_ok_def by (simp add: ps)
  qed
  moreover have "nargs ?s = nargs st" "length (ArgPointers ?s) = nargs st + 1" "last (ArgPointers ?s) = Implicit"
    "length (AlignedLocalMemSize ?s) = nargs st" "length (OriginalLocalMemSize ?s) = nargs st"
    "length (Storage ?s) = 4000" "unat (InsertPos ?s) \<le> 4000" "unat (InsertPos ?s) = sum_list (map unat (ParamSizes ?s))"
    using args_ok_lengths[OF ok] ne fit sum len(1) j by (simp_all add: insert_arg_def last_list_update sum_list_update_zero)
  ultimately show "args_ok ?s"
    unfolding args_ok_def by simp
  show "arg_bytes ?s j = bs"
    using j ok fit ip overwrite_same[of ?p bs "Storage st"] len(1) by (simp add: arg_bytes_def insert_arg_def args_ok_def)
  show "arg_bytes ?s i = arg_bytes st i" if i: "i < nargs st" "i \<noteq> j" "ParamSizes st ! i \<noteq> 0"
  proof -
    obtain q where q: "arg_at st i q" using ok i by (auto simp: args_ok_def)
    then show ?thesis
      using overwrite_other[of ?p bs "Storage st" q "unat (ParamSizes st ! i)"] fit ip i by (simp add: arg_bytes_def insert_arg_def arg_at_def)
  qed
qed

lemma addArg_ok:
  assumes ok: "args_ok st" and len: "length bs = unat n" "unat n < 2 ^ 63"
    and new: "ParamSizes (expand k st) ! k = 0 \<Longrightarrow> unat (InsertPos st) + unat n \<le> 4000"
    and old: "ParamSizes (expand k st) ! k \<noteq> 0 \<Longrightarrow> ParamSizes (expand k st) ! k = n"
  obtains st' where "addArg k n bs ls st = (Inr (), st')" "args_ok st'" "ParamSizes st' = (ParamSizes (expand k st))[k := n]"
    "AlignedLocalMemSize st' = (AlignedLocalMemSize (expand k st))[k := ls]"
    "OriginalLocalMemSize st' = OriginalLocalMemSize (expand k st)" "WorkGroupMemory st' = WorkGroupMemory st"
    "arg_bytes st' k = bs" "ImplicitOffsetArgs st' = ImplicitOffsetArgs st"
    "\<And>i. i < nargs st' \<Longrightarrow> i \<noteq> k \<Longrightarrow> ParamSizes (expand k st) ! i \<noteq> 0 \<Longrightarrow> arg_bytes st' i = arg_bytes (expand k st) i"
proof (cases "ParamSizes (expand k st) ! k = 0")
  case True
  let ?E = "expand k st"
  note E = expand_ok[OF ok, where k = k]
  have k: "k < nargs ?E" using E by simp
  have "unat (InsertPos ?E + n) = unat (InsertPos st) + unat n"
    using new[OF True] len(2) by (subst unat_plus_if') (simp add: E)
  then have room: "\<not> InsertPos ?E + n > MaxParamBytes"
    using new[OF True] by (simp add: MaxParamBytes_def word_less_nat_alt)
  note n = new_arg_ok[OF E(1) k True len room]
  show ?thesis
  proof (rule that)
    show "addArg k n bs ls st = (Inr (), insert_arg k n bs ls ?E)" using True room by (simp add: addArg_def Let_def)
  qed (use n E in \<open>auto simp: insert_arg_def\<close>)
next
  case False
  let ?E = "expand k st"
  note E = expand_ok[OF ok, where k = k]
  have k: "k < nargs ?E" using E by simp
  have l: "length bs = unat (ParamSizes ?E ! k)" using old[OF False] len by simp
  note m = memcpy_arg[OF E(1) k False l]
  obtain p where p: "memcpy_to (ArgPointers ?E ! k) bs ?E = ?E\<lparr>Storage := overwrite p bs (Storage ?E)\<rparr>" using m(4) by blast
  let ?M = "memcpy_to (ArgPointers ?E ! k) bs ?E"
  have al: "args_ok (x\<lparr>AlignedLocalMemSize := (AlignedLocalMemSize x)[k := ls]\<rparr>)" if "args_ok x" for x
    using that by (auto simp: args_ok_def arg_at_def)
  have ab: "arg_bytes (x\<lparr>AlignedLocalMemSize := ys\<rparr>) = arg_bytes x" for x ys
    by (auto simp: arg_bytes_def fun_eq_iff split: arg_ptr.splits)
  have same: "(ParamSizes ?E)[k := n] = ParamSizes ?E" using old[OF False] list_update_id[of "ParamSizes ?E" k] by simp
  have M: "ParamSizes ?M = ParamSizes ?E" "AlignedLocalMemSize ?M = AlignedLocalMemSize ?E" "OriginalLocalMemSize ?M = OriginalLocalMemSize ?E"
    "WorkGroupMemory ?M = WorkGroupMemory st" "ImplicitOffsetArgs ?M = ImplicitOffsetArgs st" by (simp_all add: p E)
  show ?thesis
  proof (rule that)
    show "addArg k n bs ls st = (Inr (), ?M\<lparr>AlignedLocalMemSize := (AlignedLocalMemSize ?M)[k := ls]\<rparr>)"
      using False old[OF False] by (simp add: addArg_def Let_def M)
    show "args_ok (?M\<lparr>AlignedLocalMemSize := (AlignedLocalMemSize ?M)[k := ls]\<rparr>)" using al m(1) by blast
  qed (use m(2,3) in \<open>simp_all add: ab same M\<close>)
qed

section \<open>What the arguments mean\<close>

text \<open>
  For each index: nothing yet, a value, or a number of bytes of local memory. \<open>kind_ok\<close> says that the arrays agree with it,
  \<open>placed\<close> that the value of a local argument is its place after the local arguments before it.
\<close>

datatype arg_value = Unset | Plain "u8 list" | Local u64

definition kind_ok :: "arg_value \<Rightarrow> kernel_args \<Rightarrow> nat \<Rightarrow> bool" where
  "kind_ok v st i \<longleftrightarrow>
     (case v of
        Unset \<Rightarrow> ParamSizes st ! i = 0 \<and> OriginalLocalMemSize st ! i = 0 \<and> AlignedLocalMemSize st ! i = 0
      | Plain bs \<Rightarrow> bs \<noteq> [] \<and> unat (ParamSizes st ! i) = length bs \<and> arg_bytes st i = bs \<and> OriginalLocalMemSize st ! i = 0 \<and>
          AlignedLocalMemSize st ! i = 0
      | Local n \<Rightarrow> n \<noteq> 0 \<and> ParamSizes st ! i = 8 \<and> OriginalLocalMemSize st ! i = n)"

definition placed :: "arg_value \<Rightarrow> kernel_args \<Rightarrow> nat \<Rightarrow> bool" where
  "placed v st i \<longleftrightarrow>
     (case v of
        Local n \<Rightarrow> AlignedLocalMemSize st ! i = fst (align_local (LocalOffset i st) n) \<and>
          arg_bytes st i = size_bytes (snd (align_local (LocalOffset i st) n))
      | _ \<Rightarrow> True)"

definition args_upto :: "nat \<Rightarrow> arg_value list \<Rightarrow> kernel_args \<Rightarrow> bool" where
  "args_upto s vs st \<longleftrightarrow> args_ok st \<and> length vs = nargs st \<and> (\<forall>i < nargs st. kind_ok (vs ! i) st i) \<and>
     (\<forall>i < min s (nargs st). placed (vs ! i) st i)"

text \<open>One round of the loop.\<close>

lemma LocalOffset_cong:
  "take i (AlignedLocalMemSize st) = take i (AlignedLocalMemSize st') \<Longrightarrow> WorkGroupMemory st = WorkGroupMemory st' \<Longrightarrow>
   LocalOffset i st = LocalOffset i st'"
  by (simp add: LocalOffset_def)

lemma note_size_same: "args_ok st \<Longrightarrow> i < nargs st \<Longrightarrow> note_size i (OriginalLocalMemSize st ! i) st = st"
  using args_ok_lengths(1)[of st] by (simp add: note_size_def)

lemma update_round:
  assumes inv: "args_upto s vs st" and s: "s < nargs st"
  obtains st' where "update_loop (s # is) st = update_loop is st'" "args_upto (Suc s) vs st'" "nargs st' = nargs st"
    "WorkGroupMemory st' = WorkGroupMemory st" "ImplicitOffsetArgs st' = ImplicitOffsetArgs st"
proof (cases "OriginalLocalMemSize st ! s = 0")
  case True
  then have "placed (vs ! s) st s"
    using inv s by (fastforce simp: args_upto_def kind_ok_def placed_def split: arg_value.splits)
  then have "args_upto (Suc s) vs st" using inv by (auto simp: args_upto_def less_Suc_eq)
  then show ?thesis using that[of st] True by simp
next
  case False
  have ok: "args_ok st" and k: "\<And>i. i < nargs st \<Longrightarrow> kind_ok (vs ! i) st i" and pl: "\<And>i. i < s \<Longrightarrow> placed (vs ! i) st i"
    using inv s by (auto simp: args_upto_def)
  let ?n = "OriginalLocalMemSize st ! s"
  let ?r = "align_local (LocalOffset s st) ?n"
  have v: "vs ! s = Local ?n" and ps: "ParamSizes st ! s = 8"
    using k[OF s] False by (auto simp: kind_ok_def split: arg_value.splits)
  define st1 where "st1 = st\<lparr>AlignedLocalMemSize := (AlignedLocalMemSize st)[s := fst ?r]\<rparr>"
  have ok1: "args_ok st1" using ok by (auto simp: args_ok_def arg_at_def st1_def)
  have f1: "ParamSizes st1 = ParamSizes st" "ArgPointers st1 = ArgPointers st" "OriginalLocalMemSize st1 = OriginalLocalMemSize st"
    "AlignedLocalMemSize st1 = (AlignedLocalMemSize st)[s := fst ?r]" "WorkGroupMemory st1 = WorkGroupMemory st"
    "ImplicitOffsetArgs st1 = ImplicitOffsetArgs st" "arg_bytes st1 = arg_bytes st"
    by (auto simp: st1_def arg_bytes_def fun_eq_iff split: arg_ptr.splits)
  define st2 where "st2 = memcpy_to (ArgPointers st1 ! s) (size_bytes (snd ?r)) st1"
  note m = memcpy_arg[OF ok1, of s "size_bytes (snd ?r)", folded st2_def, unfolded f1]
  have m: "args_ok st2" "arg_bytes st2 s = size_bytes (snd ?r)"
    "\<And>i. i < nargs st \<Longrightarrow> i \<noteq> s \<Longrightarrow> ParamSizes st ! i \<noteq> 0 \<Longrightarrow> arg_bytes st2 i = arg_bytes st i"
    "\<exists>p. st2 = st1\<lparr>Storage := overwrite p (size_bytes (snd ?r)) (Storage st1)\<rparr>"
    using m s ps by (simp_all add: f1 st2_def)
  have f2: "ParamSizes st2 = ParamSizes st" "OriginalLocalMemSize st2 = OriginalLocalMemSize st"
    "AlignedLocalMemSize st2 = (AlignedLocalMemSize st)[s := fst ?r]" "WorkGroupMemory st2 = WorkGroupMemory st"
    "ImplicitOffsetArgs st2 = ImplicitOffsetArgs st"
    using m(4) f1 by auto
  have lo: "LocalOffset i st2 = LocalOffset i st" if "i \<le> s" for i
    by (rule LocalOffset_cong) (use that in \<open>simp_all add: f2 take_update_cancel\<close>)
  have "update_loop (s # is) st = update_loop is st2"
    using False s ok
    by (simp add: Let_def calcAlignedLocalArgument_def note_size_same st2_def st1_def split: prod.splits)
  moreover have "kind_ok (vs ! i) st2 i" if i: "i < nargs st" for i
  proof (cases "i = s")
    case False
    have "vs ! i \<noteq> Unset \<Longrightarrow> ParamSizes st ! i \<noteq> 0" using k[OF i] by (auto simp: kind_ok_def split: arg_value.splits)
    then have "vs ! i \<noteq> Unset \<Longrightarrow> arg_bytes st2 i = arg_bytes st i" using m(3)[OF i False] by blast
    then show ?thesis using k[OF i] False by (auto simp: kind_ok_def f2 split: arg_value.splits)
  qed (use k[OF i] v in \<open>auto simp: kind_ok_def f2\<close>)
  moreover have "placed (vs ! i) st2 i" if i: "i < Suc s" for i
  proof (cases "i = s")
    case True
    then show ?thesis using m(2) v s args_ok_lengths(3)[OF ok] by (simp add: placed_def lo f2)
  next
    case False
    then show ?thesis using pl[of i] k[of i] m(3)[of i] i s lo[of i] by (auto simp: placed_def kind_ok_def f2 split: arg_value.splits)
  qed
  ultimately show ?thesis
    using that[of st2] m(1) f2 inv by (auto simp: args_upto_def)
qed

lemma updateLocalArgOffset_ok:
  assumes "args_upto s vs st"
  shows "args_upto (nargs st) vs (updateLocalArgOffset s st)" "nargs (updateLocalArgOffset s st) = nargs st"
    "WorkGroupMemory (updateLocalArgOffset s st) = WorkGroupMemory st"
    "ImplicitOffsetArgs (updateLocalArgOffset s st) = ImplicitOffsetArgs st"
proof -
  have "args_upto (nargs st) vs (update_loop [s..<nargs st] st) \<and> nargs (update_loop [s..<nargs st] st) = nargs st \<and>
    WorkGroupMemory (update_loop [s..<nargs st] st) = WorkGroupMemory st \<and>
    ImplicitOffsetArgs (update_loop [s..<nargs st] st) = ImplicitOffsetArgs st"
    using assms
  proof (induction "nargs st - s" arbitrary: s st)
    case 0
    then show ?case by (auto simp: args_upto_def min_def split: if_splits)
  next
    case (Suc d)
    then have s: "s < nargs st" by simp
    obtain st' where st': "update_loop (s # [Suc s..<nargs st]) st = update_loop [Suc s..<nargs st] st'" "args_upto (Suc s) vs st'"
      "nargs st' = nargs st" "WorkGroupMemory st' = WorkGroupMemory st" "ImplicitOffsetArgs st' = ImplicitOffsetArgs st"
      using update_round[OF Suc.prems s] by metis
    then show ?case using Suc.hyps(1)[of st' "Suc s"] Suc.hyps(2) s by (simp add: upt_conv_Cons)
  qed
  moreover have "length (ArgPointers st) - 1 = nargs st" using assms args_ok_lengths(1) by (auto simp: args_upto_def)
  ultimately show "args_upto (nargs st) vs (updateLocalArgOffset s st)" "nargs (updateLocalArgOffset s st) = nargs st"
    "WorkGroupMemory (updateLocalArgOffset s st) = WorkGroupMemory st"
    "ImplicitOffsetArgs (updateLocalArgOffset s st) = ImplicitOffsetArgs st"
    unfolding updateLocalArgOffset_def by auto
qed

section \<open>The operations on the meaning\<close>

definition room_for :: "nat \<Rightarrow> arg_value list \<Rightarrow> arg_value list" where
  "room_for k vs = resize (max (length vs) (k + 1)) Unset vs"

lemma room_for_nth [simp]: "i < length vs \<Longrightarrow> room_for k vs ! i = vs ! i"
  "length vs \<le> i \<Longrightarrow> i < k + 1 \<Longrightarrow> room_for k vs ! i = Unset" "length (room_for k vs) = max (length vs) (k + 1)"
  by (auto simp: room_for_def resize_nth less_max_iff_disj)

lemma expand_upto:
  assumes inv: "args_upto (nargs st) vs st"
  shows "args_upto (nargs (expand k st)) (room_for k vs) (expand k st)"
proof -
  have ok: "args_ok st" and len: "length vs = nargs st" using inv by (auto simp: args_upto_def)
  note E = expand_ok[OF ok, where k = k]
  have lo: "LocalOffset i (expand k st) = LocalOffset i st" if "i < nargs st" for i
    using that args_ok_lengths(1,3)[OF ok] by (auto simp: LocalOffset_def expand_def resize_def)
  have "kind_ok (room_for k vs ! i) (expand k st) i \<and> placed (room_for k vs ! i) (expand k st) i" if i: "i < nargs (expand k st)" for i
  proof (cases "i < nargs st")
    case True
    then show ?thesis using inv len E(3-6)[OF True] lo[OF True]
      by (auto simp: args_upto_def kind_ok_def placed_def split: arg_value.splits)
  next
    case False
    then show ?thesis using i E(2) E(7)[of i] len by (auto simp: kind_ok_def placed_def less_max_iff_disj)
  qed
  then show ?thesis using E len by (auto simp: args_upto_def)
qed

text \<open>A value.\<close>

lemma addArg_value:
  assumes inv: "args_upto (nargs st) vs st" and bs: "bs \<noteq> []"
    and slot: "room_for k vs ! k = Unset \<and> unat (InsertPos st) + length bs \<le> 4000 \<or>
      (\<exists>as. room_for k vs ! k = Plain as \<and> length as = length bs)"
  obtains st' where "addArg k (of_nat (length bs)) bs 0 st = (Inr (), st')" "args_upto (nargs st') ((room_for k vs)[k := Plain bs]) st'"
    "WorkGroupMemory st' = WorkGroupMemory st" "ImplicitOffsetArgs st' = ImplicitOffsetArgs st"
proof -
  let ?E = "expand k st"
  have ok: "args_ok st" using inv by (auto simp: args_upto_def)
  note E = expand_ok[OF ok, where k = k]
  have I: "args_upto (nargs ?E) (room_for k vs) ?E" using expand_upto[OF inv] .
  have k: "k < nargs ?E" using E by simp
  have kk: "kind_ok (room_for k vs ! i) ?E i" "placed (room_for k vs ! i) ?E i" if "i < nargs ?E" for i using I that by (auto simp: args_upto_def)
  have z: "OriginalLocalMemSize ?E ! k = 0" "AlignedLocalMemSize ?E ! k = 0" using kk(1)[OF k] slot by (auto simp: kind_ok_def)
  have big: "length bs \<le> 4000"
  proof -
    have "unat (ParamSizes ?E ! k) \<le> 4000"
      using args_ok_slot[OF E(1) k] args_ok_lengths(6)[OF E(1)] by (cases "ParamSizes ?E ! k = 0") (auto simp: arg_at_def)
    then show ?thesis using slot kk(1)[OF k] bs by (auto simp: kind_ok_def)
  qed
  have len: "length bs = unat (of_nat (length bs) :: u64)" "unat (of_nat (length bs) :: u64) < 2 ^ 63"
    using big by (simp_all add: unat_of_nat)
  have new: "unat (InsertPos st) + unat (of_nat (length bs) :: u64) \<le> 4000" if "ParamSizes ?E ! k = 0"
    using slot that kk(1)[OF k] bs len(1) by (auto simp: kind_ok_def)
  have old: "ParamSizes ?E ! k = of_nat (length bs)" if "ParamSizes ?E ! k \<noteq> 0"
  proof -
    have "unat (ParamSizes ?E ! k) = length bs" using slot that kk(1)[OF k] by (auto simp: kind_ok_def)
    then show ?thesis using len(1) by (metis word_unat_eq_iff)
  qed
  obtain st' where st': "addArg k (of_nat (length bs)) bs 0 st = (Inr (), st')" "args_ok st'"
    "ParamSizes st' = (ParamSizes ?E)[k := of_nat (length bs)]"
    "AlignedLocalMemSize st' = (AlignedLocalMemSize ?E)[k := 0]"
    "OriginalLocalMemSize st' = OriginalLocalMemSize ?E" "WorkGroupMemory st' = WorkGroupMemory st"
    "arg_bytes st' k = bs" "ImplicitOffsetArgs st' = ImplicitOffsetArgs st"
    "\<And>i. i < nargs st' \<Longrightarrow> i \<noteq> k \<Longrightarrow> ParamSizes ?E ! i \<noteq> 0 \<Longrightarrow> arg_bytes st' i = arg_bytes ?E i"
    by (rule addArg_ok[OF ok len new old]) auto
  have al: "AlignedLocalMemSize st' = AlignedLocalMemSize ?E" using st'(4) z list_update_id[of "AlignedLocalMemSize ?E" k] by simp
  have lo: "LocalOffset i st' = LocalOffset i ?E" for i by (rule LocalOffset_cong) (simp_all add: al st' E)
  have "kind_ok ((room_for k vs)[k := Plain bs] ! i) st' i \<and> placed ((room_for k vs)[k := Plain bs] ! i) st' i" if i: "i < nargs ?E" for i
  proof (cases "i = k")
    case True
    then show ?thesis using i z bs st' len(1) I by (auto simp: kind_ok_def placed_def al args_upto_def)
  next
    case False
    have "room_for k vs ! i \<noteq> Unset \<Longrightarrow> ParamSizes ?E ! i \<noteq> 0" using kk(1)[OF i] by (auto simp: kind_ok_def split: arg_value.splits)
    then have "room_for k vs ! i \<noteq> Unset \<Longrightarrow> arg_bytes st' i = arg_bytes ?E i" using st'(3) st'(9)[of i] False i by simp
    then show ?thesis using kk[OF i] False st' by (auto simp: kind_ok_def placed_def al lo split: arg_value.splits)
  qed
  then show ?thesis using that[OF st'(1)] st' I by (auto simp: args_upto_def)
qed

text \<open>An argument in local memory.\<close>

lemma expand_note_size:
  assumes "args_ok st"
  shows "expand k (note_size k n st) = (expand k st)\<lparr>OriginalLocalMemSize := (OriginalLocalMemSize (expand k st))[k := n]\<rparr>"
    "LocalOffset k (note_size k n st) = LocalOffset k (expand k st)"
  using args_ok_lengths[OF assms] by (auto simp: expand_def note_size_def LocalOffset_def resize_id)

lemma addArg_expand: "expand k st = expand k st' \<Longrightarrow> addArg k n bs ls st = addArg k n bs ls st'"
  by (simp add: addArg_def)

lemma addLocalArg_ok:
  assumes inv: "args_upto (nargs st) vs st" and n: "n \<noteq> 0"
    and slot: "room_for k vs ! k = Unset \<and> unat (InsertPos st) + 8 \<le> 4000 \<or> (\<exists>m. room_for k vs ! k = Local m)"
  obtains st' where "addLocalArg k n st = (Inr (), st')" "args_upto (nargs st') ((room_for k vs)[k := Local n]) st'"
    "WorkGroupMemory st' = WorkGroupMemory st" "ImplicitOffsetArgs st' = ImplicitOffsetArgs st"
proof -
  let ?E = "expand k st"
  have ok: "args_ok st" using inv by (auto simp: args_upto_def)
  note E = expand_ok[OF ok, where k = k]
  have I: "args_upto (nargs ?E) (room_for k vs) ?E" using expand_upto[OF inv] .
  have k: "k < nargs ?E" using E by simp
  have kk: "kind_ok (room_for k vs ! i) ?E i" "placed (room_for k vs ! i) ?E i" if "i < nargs ?E" for i using I that by (auto simp: args_upto_def)
  define F where "F = ?E\<lparr>OriginalLocalMemSize := (OriginalLocalMemSize ?E)[k := n]\<rparr>"
  let ?r = "align_local (LocalOffset k ?E) n"
  have F3: "expand k F = F" using args_ok_lengths(1)[OF E(1)] k unfolding expand_def[of k F] by (simp add: F_def)
  have F: "args_ok F" "ParamSizes F = ParamSizes ?E" "expand k F = F" "InsertPos F = InsertPos st" "arg_bytes F = arg_bytes ?E"
    "AlignedLocalMemSize F = AlignedLocalMemSize ?E" "OriginalLocalMemSize F = (OriginalLocalMemSize ?E)[k := n]"
    "WorkGroupMemory F = WorkGroupMemory st" "ImplicitOffsetArgs F = ImplicitOffsetArgs st"
    using E(1,8,9,10) F3 by (auto simp: F_def args_ok_def arg_at_def arg_bytes_def fun_eq_iff split: arg_ptr.splits)
  have new: "unat (InsertPos F) + unat (8 :: u64) \<le> 4000" if "ParamSizes (expand k F) ! k = 0"
    using slot that kk(1)[OF k] by (auto simp: kind_ok_def F)
  have old: "ParamSizes (expand k F) ! k = 8" if "ParamSizes (expand k F) ! k \<noteq> 0"
    using slot that kk(1)[OF k] by (auto simp: kind_ok_def F)
  obtain st' where st': "addArg k 8 (size_bytes (snd ?r)) (fst ?r) F = (Inr (), st')" "args_ok st'"
    "ParamSizes st' = (ParamSizes ?E)[k := 8]" "AlignedLocalMemSize st' = (AlignedLocalMemSize ?E)[k := fst ?r]"
    "OriginalLocalMemSize st' = (OriginalLocalMemSize ?E)[k := n]" "WorkGroupMemory st' = WorkGroupMemory st"
    "arg_bytes st' k = size_bytes (snd ?r)" "ImplicitOffsetArgs st' = ImplicitOffsetArgs st"
    "\<And>i. i < nargs st' \<Longrightarrow> i \<noteq> k \<Longrightarrow> ParamSizes ?E ! i \<noteq> 0 \<Longrightarrow> arg_bytes st' i = arg_bytes ?E i"
    by (rule addArg_ok[OF F(1) _ _ new old, where bs = "size_bytes (snd ?r)" and ls = "fst ?r"])
      (auto simp: F)
  have "expand k (note_size k n st) = expand k F" using expand_note_size(1)[OF ok] F(3) by (simp add: F_def)
  from addArg_expand[OF this] have run: "addLocalArg k n st = (Inr (), updateLocalArgOffset (k + 1) st')"
    using st'(1) by (simp add: addLocalArg_def calcAlignedLocalArgument_def expand_note_size[OF ok] Let_def case_prod_beta)
  have lo: "LocalOffset i st' = LocalOffset i ?E" if "i \<le> k" for i
    by (rule LocalOffset_cong) (use that in \<open>simp_all add: st' E take_update_cancel\<close>)
  let ?vs = "(room_for k vs)[k := Local n]"
  have len: "length (room_for k vs) = nargs ?E" using I by (simp add: args_upto_def)
  have ab: "arg_bytes st' i = arg_bytes ?E i" if i: "i < nargs ?E" "i \<noteq> k" "room_for k vs ! i \<noteq> Unset" for i
  proof -
    have "ParamSizes ?E ! i \<noteq> 0" using kk(1)[OF i(1)] i(3) by (auto simp: kind_ok_def split: arg_value.splits)
    then show ?thesis using st'(3) st'(9)[of i] i by simp
  qed
  have "kind_ok (?vs ! i) st' i" if i: "i < nargs ?E" for i
    using kk(1)[OF i] ab[OF i] n len k args_ok_lengths(4)[OF E(1)] st'(3-5)
    by (cases "i = k") (auto simp: kind_ok_def split: arg_value.splits)
  moreover have "placed (?vs ! i) st' i" if i: "i < k + 1" for i
    using kk(2)[of i] ab[of i] len k args_ok_lengths(3)[OF E(1)] st'(4,7) i lo[of i]
    by (cases "i = k") (auto simp: placed_def split: arg_value.splits)
  ultimately have "args_upto (k + 1) ?vs st'" using st' len by (auto simp: args_upto_def)
  from updateLocalArgOffset_ok[OF this] show ?thesis using that[OF run] st' by simp
qed

lemma setWorkGroupMemory_ok:
  assumes inv: "args_upto (nargs st) vs st"
  shows "args_upto (nargs (setWorkGroupMemory m st)) vs (setWorkGroupMemory m st)" "WorkGroupMemory (setWorkGroupMemory m st) = m"
    "ImplicitOffsetArgs (setWorkGroupMemory m st) = ImplicitOffsetArgs st"
proof -
  have "args_upto 0 vs (st\<lparr>WorkGroupMemory := m\<rparr>)"
    using inv by (auto simp: args_upto_def args_ok_def arg_at_def kind_ok_def arg_bytes_def split: arg_value.splits arg_ptr.splits)
  from updateLocalArgOffset_ok[OF this]
  show "args_upto (nargs (setWorkGroupMemory m st)) vs (setWorkGroupMemory m st)" "WorkGroupMemory (setWorkGroupMemory m st) = m"
    "ImplicitOffsetArgs (setWorkGroupMemory m st) = ImplicitOffsetArgs st"
    using inv by (auto simp: setWorkGroupMemory_def)
qed

end
