(* ===== verification/Cuda_Kernel_Layout.thy ===== *)
theory Cuda_Kernel_Layout
  imports Cuda_Kernel_Args
begin

text \<open>
  Kernel arguments of the CUDA adapter, continued: whole sequences of calls on the arguments of a kernel. The arguments a
  kernel is launched with are a function of the last value set for each index, the places of the arguments in local
  memory among them, and no call fails when the parameters of the kernel fit. The last section has the sequences of calls
  for which this is not so.
\<close>

section \<open>The layout of the local memory\<close>

text \<open>The reference: each argument follows the one before it, at the next multiple of its size or of 128.\<close>

definition align_up :: "nat \<Rightarrow> nat \<Rightarrow> nat" where
  "align_up off a = (if off mod a = 0 then off else off + (a - off mod a))"

fun layout :: "nat \<Rightarrow> arg_value list \<Rightarrow> nat list \<times> nat" where
  "layout off [] = ([], off)"
| "layout off (Local n # vs) =
     (let o1 = align_up off (min 128 (unat n)); (os, tot) = layout (o1 + unat n) vs in (o1 # os, tot))"
| "layout off (v # vs) = (let (os, tot) = layout off vs in (off # os, tot))"

text \<open>The parts of local memory, as pairs of place and size.\<close>

definition regions :: "nat \<Rightarrow> arg_value list \<Rightarrow> (nat \<times> nat) list" where
  "regions off vs = [(p, unat n). (p, Local n) \<leftarrow> zip (fst (layout off vs)) vs]"

definition regions_ok :: "nat \<Rightarrow> nat \<Rightarrow> (nat \<times> nat) list \<Rightarrow> bool" where
  "regions_ok off tot rs \<longleftrightarrow>
     sorted_wrt (\<lambda>(p, n) (q, m). p + n \<le> q) rs \<and>
     list_all (\<lambda>(p, n). off \<le> p \<and> p + n \<le> tot \<and> p mod min 128 n = 0) rs"

lemma align_up_ge: "off \<le> align_up off a"
  by (simp add: align_up_def)

lemma align_up_mod: "0 < a \<Longrightarrow> align_up off a mod a = 0"
proof -
  assume a: "0 < a"
  have "(off + (a - off mod a)) mod a = (off mod a + (a - off mod a)) mod a" by (simp add: mod_add_left_eq)
  also have "\<dots> = 0" using a mod_less_divisor[of a off] by simp
  finally show ?thesis by (simp add: align_up_def)
qed

lemma layout_ge: "off \<le> snd (layout off vs)"
proof (induction off vs rule: layout.induct)
  case (2 off n vs)
  then show ?case using align_up_ge[of off "min 128 (unat n)"] by (auto simp: Let_def case_prod_beta)
qed (auto simp: case_prod_beta)

lemma length_layout: "length (fst (layout off vs)) = length vs"
  by (induction off vs rule: layout.induct) (auto simp: Let_def case_prod_beta)

lemma layout_append:
  "layout off (vs @ ws) = (fst (layout off vs) @ fst (layout (snd (layout off vs)) ws), snd (layout (snd (layout off vs)) ws))"
  by (induction off vs rule: layout.induct) (auto simp: Let_def case_prod_beta)

lemma regions_layout:
  assumes "Local 0 \<notin> set vs"
  shows "regions_ok off (snd (layout off vs)) (regions off vs)"
  using assms
proof (induction off vs rule: layout.induct)
  case (2 off n vs)
  let ?p = "align_up off (min 128 (unat n))"
  let ?rs = "regions (?p + unat n) vs" and ?t = "snd (layout (?p + unat n) vs)"
  have n: "0 < unat n" using 2(2) by (auto simp: unat_gt_0)
  have IH: "regions_ok (?p + unat n) ?t ?rs" using 2 by simp
  have "regions off (Local n # vs) = (?p, unat n) # ?rs" "snd (layout off (Local n # vs)) = ?t"
    by (simp_all add: regions_def Let_def case_prod_beta)
  moreover have "\<forall>r \<in> set ?rs. ?p + unat n \<le> fst r" using IH by (auto simp: regions_ok_def list_all_iff)
  moreover have "?p mod min 128 (unat n) = 0" by (rule align_up_mod) (use n in simp)
  ultimately show ?case
    using IH align_up_ge[of off "min 128 (unat n)"] layout_ge[of "?p + unat n" vs]
    by (fastforce simp: regions_ok_def list_all_iff)
qed (auto simp: regions_def regions_ok_def Let_def case_prod_beta)

section \<open>The words of the program and the layout\<close>

lemma align_local_sum: "off + fst (align_local off n) = snd (align_local off n) + n"
  by (simp add: align_local_def Let_def)

lemma unat_align_local:
  assumes "n \<noteq> 0" "align_up (unat off) (min 128 (unat n)) < 2 ^ 64"
  shows "unat (snd (align_local off n)) = align_up (unat off) (min 128 (unat n))"
proof -
  have a: "unat (min 128 n) = min 128 (unat n)" by (simp add: min_def word_le_nat_alt)
  have p: "unat (off mod min 128 n) = unat off mod min 128 (unat n)" by (simp add: unat_mod a)
  have "0 < min 128 (unat n)" using assms(1) by (simp add: unat_gt_0)
  then have lt: "unat off mod min 128 (unat n) < min 128 (unat n)" by (rule mod_less_divisor)
  then have "unat (min 128 n - off mod min 128 n) = min 128 (unat n) - unat off mod min 128 (unat n)"
    by (subst unat_sub) (simp_all add: word_le_nat_alt a p)
  then have s: "unat (off + (min 128 n - off mod min 128 n)) = unat off + (min 128 (unat n) - unat off mod min 128 (unat n))"
    if "unat off mod min 128 (unat n) \<noteq> 0"
    using assms(2) that by (subst unat_plus_if') (auto simp: align_up_def)
  have z: "off mod min 128 n = 0 \<longleftrightarrow> unat off mod min 128 (unat n) = 0" using p by (simp add: word_unat_eq_iff)
  show ?thesis using s by (simp add: align_local_def Let_def align_up_def z)
qed

lemma LocalOffset_Suc: "i < length (AlignedLocalMemSize st) \<Longrightarrow> LocalOffset (Suc i) st = LocalOffset i st + AlignedLocalMemSize st ! i"
  by (simp add: LocalOffset_def take_Suc_conv_app_nth)

lemma layout_step:
  assumes i: "i < length vs"
  shows "layout g (take (Suc i) vs) = (fst (layout g (take i vs)) @ fst (layout (snd (layout g (take i vs))) [vs ! i]),
    snd (layout (snd (layout g (take i vs))) [vs ! i]))"
  using i by (simp add: take_Suc_conv_app_nth layout_append)

lemma layout_take_le: "snd (layout g (take i vs)) \<le> snd (layout g vs)"
  using layout_ge[of "snd (layout g (take i vs))" "drop i vs"] layout_append[of g "take i vs" "drop i vs"] by simp

lemma layout_nth:
  assumes "i < length vs"
  shows "fst (layout g vs) ! i = fst (layout (snd (layout g (take i vs))) [vs ! i]) ! 0"
proof -
  have "vs = take i vs @ [vs ! i] @ drop (Suc i) vs" using assms by (simp add: id_take_nth_drop[symmetric])
  then have "layout g vs = layout g (take i vs @ [vs ! i] @ drop (Suc i) vs)" by simp
  then show ?thesis using assms
    by (simp add: layout_append nth_append length_layout del: append_Cons)
qed

text \<open>When the total has 64 bits, the offsets of the program are the ones of the layout.\<close>

lemma LocalOffset_layout:
  assumes inv: "args_upto (nargs st) vs st" and total: "snd (layout (unat (WorkGroupMemory st)) vs) < 2 ^ 64"
  shows "i \<le> length vs \<Longrightarrow> unat (LocalOffset i st) = snd (layout (unat (WorkGroupMemory st)) (take i vs))"
proof (induction i)
  case 0
  then show ?case by (simp add: LocalOffset_def)
next
  case (Suc i)
  let ?g = "unat (WorkGroupMemory st)"
  have i: "i < length vs" "i < nargs st" "i < length (AlignedLocalMemSize st)"
    using Suc.prems inv args_ok_lengths(3)[of st] by (auto simp: args_upto_def)
  have kp: "kind_ok (vs ! i) st i" "placed (vs ! i) st i" using inv i by (auto simp: args_upto_def)
  have IH: "unat (LocalOffset i st) = snd (layout ?g (take i vs))" using Suc by simp
  have le: "snd (layout ?g (take (Suc i) vs)) < 2 ^ 64" using layout_take_le[of ?g "Suc i" vs] total by linarith
  show ?case
  proof (cases "vs ! i")
    case (Local n)
    let ?p = "align_up (unat (LocalOffset i st)) (min 128 (unat n))"
    have n: "n \<noteq> 0" using kp Local by (simp add: kind_ok_def)
    have l: "snd (layout ?g (take (Suc i) vs)) = ?p + unat n" using layout_step[OF i(1), of ?g] Local IH by (simp add: Let_def)
    have "LocalOffset (Suc i) st = snd (align_local (LocalOffset i st) n) + n"
      using LocalOffset_Suc[OF i(3)] kp Local align_local_sum[of "LocalOffset i st" n] by (simp add: placed_def)
    moreover have "unat (snd (align_local (LocalOffset i st) n)) = ?p" by (rule unat_align_local) (use n l le in auto)
    ultimately show ?thesis using l le by (simp add: unat_plus_if')
  qed (use layout_step[OF i(1), of ?g] kp IH LocalOffset_Suc[OF i(3)] in \<open>auto simp: kind_ok_def\<close>)
qed

text \<open>What the driver reads.\<close>

fun driver_bytes :: "nat \<Rightarrow> arg_value \<Rightarrow> u8 list" where
  "driver_bytes off Unset = []"
| "driver_bytes off (Plain bs) = bs"
| "driver_bytes off (Local n) = size_bytes (of_nat off)"

lemma arg_bytes_layout:
  assumes inv: "args_upto (nargs st) vs st" and total: "snd (layout (unat (WorkGroupMemory st)) vs) < 2 ^ 64" and i: "i < length vs"
  shows "arg_bytes st i = driver_bytes (fst (layout (unat (WorkGroupMemory st)) vs) ! i) (vs ! i)"
proof -
  let ?g = "unat (WorkGroupMemory st)"
  have kp: "kind_ok (vs ! i) st i" "placed (vs ! i) st i" using inv i by (auto simp: args_upto_def)
  have lo: "unat (LocalOffset i st) = snd (layout ?g (take i vs))" using LocalOffset_layout[OF inv total] i by simp
  show ?thesis
  proof (cases "vs ! i")
    case (Local n)
    let ?p = "align_up (unat (LocalOffset i st)) (min 128 (unat n))"
    have "snd (layout ?g (take (Suc i) vs)) = ?p + unat n" using layout_step[OF i, of ?g] Local lo by (simp add: Let_def)
    then have "?p < 2 ^ 64" using layout_take_le[of ?g "Suc i" vs] total by linarith
    then have "unat (snd (align_local (LocalOffset i st) n)) = ?p" using kp Local by (intro unat_align_local) (simp add: kind_ok_def)
    then have "snd (align_local (LocalOffset i st) n) = of_nat ?p" by (metis of_nat_unat ucast_id)
    then show ?thesis using kp Local lo layout_nth[OF i, of ?g] by (simp add: placed_def Let_def)
  qed (use kp in \<open>auto simp: kind_ok_def arg_bytes_def split: arg_ptr.splits\<close>)
qed

lemma getLocalSize_layout:
  assumes inv: "args_upto (nargs st) vs st" and total: "snd (layout (unat (WorkGroupMemory st)) vs) < 2 ^ 32"
  shows "unat (getLocalSize st) = snd (layout (unat (WorkGroupMemory st)) vs)"
proof -
  have t: "snd (layout (unat (WorkGroupMemory st)) vs) < 2 ^ 64" using total by simp
  have len: "length vs = length (AlignedLocalMemSize st)" using inv args_ok_lengths(3)[of st] by (auto simp: args_upto_def)
  have "LocalOffset (length vs) st = WorkGroupMemory st + sum_list (AlignedLocalMemSize st)" by (simp add: LocalOffset_def len)
  then have "unat (sum_list (AlignedLocalMemSize st) + WorkGroupMemory st) = snd (layout (unat (WorkGroupMemory st)) vs)"
    using LocalOffset_layout[OF inv t, of "length vs"] by (simp add: add.commute)
  then show ?thesis using total by (simp add: getLocalSize_def unsigned_ucast_eq take_bit_nat_eq_self)
qed

section \<open>Sequences of calls\<close>

datatype arg_op = SetValue nat "u8 list" | SetLocal nat u64 | SetGroup u64

fun exec_op :: "arg_op \<Rightarrow> kernel_args \<Rightarrow> (ur_result + unit) \<times> kernel_args" where
  "exec_op (SetValue i bs) st = addArg i (of_nat (length bs)) bs 0 st"
| "exec_op (SetLocal i n) st = addLocalArg i n st"
| "exec_op (SetGroup m) st = (Inr (), setWorkGroupMemory m st)"

fun exec_ops :: "arg_op list \<Rightarrow> kernel_args \<Rightarrow> (ur_result + unit) \<times> kernel_args" where
  "exec_ops [] st = (Inr (), st)"
| "exec_ops (x # xs) st = (case exec_op x st of (Inl e, st') \<Rightarrow> (Inl e, st') | (Inr _, st') \<Rightarrow> exec_ops xs st')"

text \<open>The meaning of a sequence: the last value for each index, and the memory of the work group.\<close>

fun mean_op :: "arg_op \<Rightarrow> arg_value list \<times> u64 \<Rightarrow> arg_value list \<times> u64" where
  "mean_op (SetValue i bs) (vs, g) = ((room_for i vs)[i := Plain bs], g)"
| "mean_op (SetLocal i n) (vs, g) = ((room_for i vs)[i := Local n], g)"
| "mean_op (SetGroup m) (vs, g) = (vs, m)"

text \<open>The parameters of the kernel: the size of a value, or a pointer to local memory.\<close>

datatype arg_kind = ByValue nat | InLocal

fun slot_size :: "arg_kind \<Rightarrow> nat" where
  "slot_size (ByValue n) = n"
| "slot_size InLocal = 8"

fun has_kind :: "arg_kind \<Rightarrow> arg_value \<Rightarrow> bool" where
  "has_kind k Unset = True"
| "has_kind k (Plain bs) = (k = ByValue (length bs))"
| "has_kind k (Local n) = (k = InLocal)"

fun well_op :: "arg_kind list \<Rightarrow> arg_op \<Rightarrow> bool" where
  "well_op sig (SetValue i bs) = (i < length sig \<and> sig ! i = ByValue (length bs) \<and> bs \<noteq> [])"
| "well_op sig (SetLocal i n) = (i < length sig \<and> sig ! i = InLocal \<and> n \<noteq> 0)"
| "well_op sig (SetGroup m) = True"

definition well_args :: "arg_kind list \<Rightarrow> arg_value list \<Rightarrow> bool" where
  "well_args sig vs \<longleftrightarrow> length vs \<le> length sig \<and> (\<forall>i < length vs. has_kind (sig ! i) (vs ! i))"

definition args_sim :: "arg_kind list \<Rightarrow> arg_value list \<times> u64 \<Rightarrow> kernel_args \<Rightarrow> bool" where
  "args_sim sig a st \<longleftrightarrow> args_upto (nargs st) (fst a) st \<and> WorkGroupMemory st = snd a \<and> well_args sig (fst a)"

text \<open>There is room for an argument that has no value yet.\<close>

lemma slot_room:
  assumes inv: "args_upto (nargs st) vs st" and w: "well_args sig vs" and fits: "sum_list (map slot_size sig) \<le> 4000"
    and k: "k < length sig" and un: "room_for k vs ! k = Unset"
  shows "unat (InsertPos st) + slot_size (sig ! k) \<le> 4000"
proof -
  define f where "f i = (if i < nargs st then unat (ParamSizes st ! i) else 0)" for i
  have ok: "args_ok st" and len: "length vs = nargs st" using inv by (auto simp: args_upto_def)
  have kd: "kind_ok (vs ! i) st i" "has_kind (sig ! i) (vs ! i)" if "i < nargs st" for i
    using that inv w len by (auto simp: args_upto_def well_args_def)
  have f_le: "f i \<le> slot_size (sig ! i)" for i
    using kd[of i] by (auto simp: f_def kind_ok_def split: arg_value.splits)
  have fk: "f k = 0" using kd[of k] un len by (auto simp: f_def kind_ok_def)
  have "unat (InsertPos st) = sum f {..<nargs st}"
    using args_ok_lengths(7)[OF ok] by (simp add: sum_list_sum_nth f_def lessThan_atLeast0)
  also have "\<dots> = sum f {..<length sig}"
    by (rule sum.mono_neutral_left) (use w len in \<open>auto simp: well_args_def f_def\<close>)
  also have "\<dots> = sum f ({..<length sig} - {k})" using k fk by (simp add: sum.remove[of _ k])
  also have "\<dots> \<le> (\<Sum>i \<in> {..<length sig} - {k}. slot_size (sig ! i))" by (rule sum_mono) (rule f_le)
  finally have "unat (InsertPos st) + slot_size (sig ! k) \<le> (\<Sum>i < length sig. slot_size (sig ! i))"
    using k by (simp add: sum.remove[of "{..<length sig}" k])
  then show ?thesis using fits by (simp add: sum_list_sum_nth lessThan_atLeast0)
qed

lemma well_args_set:
  "well_args sig vs \<Longrightarrow> k < length sig \<Longrightarrow> has_kind (sig ! k) v \<Longrightarrow> well_args sig ((room_for k vs)[k := v])"
  by (auto simp: well_args_def nth_list_update less_max_iff_disj)
    (metis Suc_eq_plus1 has_kind.simps(1) less_Suc_eq_le not_le_imp_less room_for_nth(1,2))

lemma slot_kind: "well_args sig vs \<Longrightarrow> has_kind (sig ! k) (room_for k vs ! k)"
  by (cases "k < length vs") (auto simp: well_args_def)

lemma exec_op_sim:
  assumes sim: "args_sim sig (vs, g) st" and fits: "sum_list (map slot_size sig) \<le> 4000" and well: "well_op sig x"
  obtains st' where "exec_op x st = (Inr (), st')" "args_sim sig (mean_op x (vs, g)) st'" "ImplicitOffsetArgs st' = ImplicitOffsetArgs st"
proof -
  have inv: "args_upto (nargs st) vs st" and w: "well_args sig vs" and g: "WorkGroupMemory st = g" using sim by (auto simp: args_sim_def)
  note room = slot_room[OF inv w fits]
  show ?thesis
  proof (cases x)
    case (SetValue k bs)
    have "room_for k vs ! k = Unset \<and> unat (InsertPos st) + length bs \<le> 4000 \<or> (\<exists>as. room_for k vs ! k = Plain as \<and> length as = length bs)"
      using room[of k] slot_kind[OF w, of k] well SetValue by (cases "room_for k vs ! k") auto
    then show ?thesis using addArg_value[OF inv] well SetValue that well_args_set[OF w] g by (auto simp: args_sim_def)
  next
    case (SetLocal k n)
    have "room_for k vs ! k = Unset \<and> unat (InsertPos st) + 8 \<le> 4000 \<or> (\<exists>m. room_for k vs ! k = Local m)"
      using room[of k] slot_kind[OF w, of k] well SetLocal by (cases "room_for k vs ! k") auto
    then show ?thesis using addLocalArg_ok[OF inv] well SetLocal that well_args_set[OF w] g by (auto simp: args_sim_def)
  next
    case (SetGroup m)
    then show ?thesis using setWorkGroupMemory_ok[OF inv] that w by (auto simp: args_sim_def)
  qed
qed

lemma exec_ops_sim:
  assumes "args_sim sig a st" "sum_list (map slot_size sig) \<le> 4000" "list_all (well_op sig) xs"
  shows "\<exists>st'. exec_ops xs st = (Inr (), st') \<and> args_sim sig (fold mean_op xs a) st' \<and> ImplicitOffsetArgs st' = ImplicitOffsetArgs st"
  using assms
proof (induction xs arbitrary: a st)
  case (Cons x xs)
  obtain st1 where "exec_op x st = (Inr (), st1)" "args_sim sig (mean_op x a) st1" "ImplicitOffsetArgs st1 = ImplicitOffsetArgs st"
    using exec_op_sim[of sig "fst a" "snd a" st x] Cons.prems by auto
  then show ?case using Cons.IH[of "mean_op x a" st1] Cons.prems by auto
qed auto

lemma args_sim_new: "args_sim sig ([], 0) new_args"
  by (simp add: args_sim_def args_upto_def args_ok_def new_args_def well_args_def)

lemma no_empty_local: "args_upto (nargs st) vs st \<Longrightarrow> Local 0 \<notin> set vs"
  by (fastforce simp: args_upto_def kind_ok_def in_set_conv_nth)

text \<open>
  C24: For every sequence of calls that set values, local arguments and the memory of the work group of a kernel whose parameters
  take at most 4000 bytes, in any order and as often as one likes, every call succeeds, and afterwards the driver reads for each index
  the value set last; for a local argument that is its place in a layout in which the arguments lie in the order of
  their indices, each aligned to its size or to 128, apart from each other and from the memory of the work group, and within the size of local memory that
  the kernel is launched with. The offset of the launch is not touched.\<close>

theorem kernel_args_meaning:
  assumes "sum_list (map slot_size sig) \<le> 4000" "list_all (well_op sig) xs"
    and "fold mean_op xs ([], 0) = (vs, g)" "layout (unat g) vs = (places, tot)" "tot < 2 ^ 32"
  shows "\<exists>st. exec_ops xs new_args = (Inr (), st) \<and> getNumArgs st = length vs \<and>
    map (arg_bytes st) [0..<length vs] = map2 driver_bytes places vs \<and> unat (getLocalSize st) = tot \<and>
    regions_ok (unat g) tot (regions (unat g) vs) \<and> ImplicitOffsetArgs st = replicate 12 0"
proof -
  obtain st where st: "exec_ops xs new_args = (Inr (), st)" "args_sim sig (vs, g) st" "ImplicitOffsetArgs st = ImplicitOffsetArgs new_args"
    using exec_ops_sim[OF args_sim_new assms(1,2)] assms(3) by auto
  then have inv: "args_upto (nargs st) vs st" and g: "WorkGroupMemory st = g" by (auto simp: args_sim_def)
  have pl: "places = fst (layout (unat g) vs)" and tot: "tot = snd (layout (unat g) vs)" using assms(4) by simp_all
  have t: "snd (layout (unat (WorkGroupMemory st)) vs) < 2 ^ 64" "snd (layout (unat (WorkGroupMemory st)) vs) < 2 ^ 32" using assms(5) tot g by simp_all
  have "map (arg_bytes st) [0..<length vs] = map2 driver_bytes places vs"
    using arg_bytes_layout[OF inv t(1)] by (intro nth_equalityI) (simp_all add: pl length_layout g)
  moreover have "getNumArgs st = length vs" using inv args_ok_lengths(1)[of st] by (simp add: args_upto_def getNumArgs_def)
  ultimately show ?thesis
    using st getLocalSize_layout[OF inv t(2)] regions_layout[OF no_empty_local[OF inv]] g tot by (auto simp: new_args_def)
qed

theorem kernel_args_meaning_witness:
  "\<exists>st. exec_ops [SetLocal 2 64, SetValue 0 [1, 2, 3, 4], SetLocal 1 6, SetGroup 16] new_args = (Inr (), st) \<and> getNumArgs st = 3 \<and>
    arg_bytes st 0 = [1, 2, 3, 4] \<and> arg_bytes st 1 = size_bytes 18 \<and> arg_bytes st 2 = size_bytes 64 \<and> unat (getLocalSize st) = 128"
proof -
  let ?xs = "[SetLocal 2 64, SetValue 0 [1, 2, 3, 4], SetLocal 1 6, SetGroup 16]" and ?sig = "[ByValue 4, InLocal, InLocal]"
  let ?vs = "[Plain [1, 2, 3, 4], Local 6, Local 64]"
  have a: "sum_list (map slot_size ?sig) \<le> 4000" "list_all (well_op ?sig) ?xs" "fold mean_op ?xs ([], 0) = (?vs, 16)"
    "layout (unat (16 :: u64)) ?vs = ([16, 18, 64], 128)" by code_simp+
  have b: "(128 :: nat) < 2 ^ 32" by simp
  have 3: "length ?vs = 3" by simp
  have 2: "map f [0..<3] = [f 0, f 1, f 2]" for f :: "nat \<Rightarrow> u8 list" by (simp add: upt_rec numeral_2_eq_2)
  from kernel_args_meaning[OF a b] show ?thesis unfolding 3 2 by auto
qed

section \<open>Calls that go wrong\<close>

text \<open>A value of 8 bytes where there was a local argument before is overwritten when the layout changes.\<close>

lemma stale_local_size:
  "let (r, st) = exec_ops [SetLocal 0 4, SetValue 0 [1, 2, 3, 4, 5, 6, 7, 8]] new_args; st' = setWorkGroupMemory 32 st
   in r = Inr () \<and> arg_bytes st 0 = [1, 2, 3, 4, 5, 6, 7, 8] \<and> getLocalSize st = 0 \<and>
      arg_bytes st' 0 = [32, 0, 0, 0, 0, 0, 0, 0] \<and> getLocalSize st' = 36"
  by code_simp

text \<open>A local argument where there is a value of another size is refused, but the next update writes 8 bytes at that value,
  here over the value that follows it.\<close>

lemma refused_local_overwrites:
  "let (r, st) = exec_ops [SetValue 0 [1, 2, 3, 4], SetValue 1 [5, 6, 7, 8], SetLocal 0 16] new_args; st' = setWorkGroupMemory 32 st
   in r = Inl UR_RESULT_ERROR_INVALID_ARGUMENT \<and> arg_bytes st 0 = [1, 2, 3, 4] \<and> arg_bytes st 1 = [5, 6, 7, 8] \<and>
      arg_bytes st' 0 = [32, 0, 0, 0] \<and> arg_bytes st' 1 = [0, 0, 0, 0]"
  by code_simp

text \<open>A local argument for which there is no room is refused, but the next update writes its place over the offset of the launch.\<close>

lemma refused_local_overwrites_offset:
  assumes "length bs = 3996"
  shows "\<exists>st st'. exec_ops [SetValue 0 bs] new_args = (Inr (), st) \<and>
    addLocalArg 1 16 st = (Inl UR_RESULT_ERROR_OUT_OF_RESOURCES, st') \<and>
    ImplicitOffsetArgs (setWorkGroupMemory 32 st') = [32, 0, 0, 0, 0, 0, 0, 0, 0, 0, 0, 0]"
proof -
  define st where "st = new_args\<lparr>Storage := overwrite 0 bs (Storage new_args), ParamSizes := [3996],
    ArgPointers := [At 0, Implicit], InsertPos := 3996, AlignedLocalMemSize := [0], OriginalLocalMemSize := [0]\<rparr>"
  define st' where "st' = st\<lparr>ParamSizes := [3996, 0], ArgPointers := [At 0, Implicit, Implicit],
    AlignedLocalMemSize := [0, 0], OriginalLocalMemSize := [0, 16]\<rparr>"
  have "exec_ops [SetValue 0 bs] new_args = (Inr (), st)"
    using assms by (simp add: addArg_def Let_def expand_def insert_arg_def resize_def new_args_def MaxParamBytes_def st_def)
  moreover have "addLocalArg 1 16 st = (Inl UR_RESULT_ERROR_OUT_OF_RESOURCES, st')"
    by (simp add: addLocalArg_def calcAlignedLocalArgument_def note_size_def addArg_def Let_def expand_def resize_def new_args_def
        MaxParamBytes_def st_def st'_def case_prod_beta)
  moreover have "ImplicitOffsetArgs (setWorkGroupMemory 32 st') = overwrite 0 (size_bytes 32) (replicate 12 0)"
    by (simp add: setWorkGroupMemory_def updateLocalArgOffset_def calcAlignedLocalArgument_def note_size_def Let_def new_args_def
        st_def st'_def case_prod_beta upt_rec LocalOffset_def align_local_def memcpy_to_def)
  moreover have "overwrite 0 (size_bytes 32) (replicate 12 0) = [32, 0, 0, 0, 0, 0, 0, 0, 0, 0, 0, 0]" by code_simp
  ultimately show ?thesis by auto
qed

text \<open>The size of local memory is computed with 32 bits.\<close>

lemma getLocalSize_wraps:
  "let (r, st) = exec_ops [SetLocal 0 0x100000010] new_args in r = Inr () \<and> getLocalSize st = 16"
  by code_simp

text \<open>A null pointer as a value, set with size 0, cannot replace a value that is there.\<close>

lemma null_after_value:
  assumes "args_upto (nargs st) vs st" "k < nargs st" "vs ! k = Plain bs"
  shows "addArg k 0 [] 0 st = (Inl UR_RESULT_ERROR_INVALID_ARGUMENT, st)"
proof -
  have "expand k st = st" using assms args_ok_lengths(1)[of st] by (simp add: args_upto_def expand_def)
  moreover have "ParamSizes st ! k \<noteq> 0" using assms by (force simp: args_upto_def kind_ok_def)
  ultimately show ?thesis by (auto simp: addArg_def)
qed

end
