(* ===== verification/Cuda_Launch.thy ===== *)
theory Cuda_Launch
  imports Cuda_Kernel_Layout
begin

text \<open>
  Launching a kernel in the CUDA adapter (adapters/cuda/enqueue.cpp), from the arguments and the sizes of the application to
  the parameters of the call of the driver. The queue, its
  streams and the driver call itself are outside; the two calls of the driver on the way, the query for the best size of a block and the setting of
  an attribute, are arguments.
\<close>

section \<open>Devices, kernels and the driver\<close>

record cuda_device =
  MaxWorkItemSizes :: "u64 list"
  MaxWorkGroupSize :: u64
  MaxRegsPerBlock :: u64
  MaxCapacityLocalMem :: u32
  MaxChosenLocalMem :: u32

record cuda_kernel =
  Args :: kernel_args
  ReqdThreadsPerBlock :: "u64 list"
  MaxThreadsPerBlock :: "u64 list"
  MaxLinearThreadsPerBlock :: u64
  RegsPerThread :: u64
  has_offset_variant :: bool

record driver =
  occupancy :: "u32 \<Rightarrow> u64 \<Rightarrow> ur_result + u64"
  set_attribute :: "bool \<Rightarrow> u32 \<Rightarrow> ur_result"
  allow_cluster :: ur_result

section \<open>Sizes of a launch\<close>

text \<open>The sizes of the dimensions there are not are 1.\<close>

definition normalized :: "nat \<Rightarrow> u64 list \<Rightarrow> u64 list" where
  "normalized WorkDim sizes = map (\<lambda>i. if i < WorkDim then sizes ! i else 1) [0..<3]"

definition guessLocalWorkSize :: "driver \<Rightarrow> cuda_device \<Rightarrow> u64 list \<Rightarrow> nat \<Rightarrow> cuda_kernel \<Rightarrow> u64 list outcome" where
  "guessLocalWorkSize drv dev GlobalWorkSize WorkDim k =
     (let g = normalized WorkDim GlobalWorkSize; m = MaxWorkItemSizes dev
      in case occupancy drv (getLocalSize (Args k)) (m ! 0) of
           Inl e \<Rightarrow> Escaped e
         | Inr MaxBlockSize \<Rightarrow>
             (case roundToHighestFactorOfGlobalSizeIn3d (g ! 0, g ! 1, g ! 2) (m ! 0, m ! 1, m ! 2) MaxBlockSize of
                (t0, t1, t2) \<Rightarrow> if t0 = 0 \<or> t1 * t0 = 0 then Undefined else Finished [t0, t1, t2]))"

definition hasExceededMaxRegistersPerBlock :: "cuda_device \<Rightarrow> cuda_kernel \<Rightarrow> u64 \<Rightarrow> bool" where
  "hasExceededMaxRegistersPerBlock dev k BlockSize \<longleftrightarrow> BlockSize * RegsPerThread k > MaxRegsPerBlock dev"

text \<open>The loop over the sizes the application gives: the threads so far and their product.\<close>

fun check_sizes :: "cuda_device \<Rightarrow> cuda_kernel \<Rightarrow> u64 list \<Rightarrow> u64 list \<Rightarrow> nat list \<Rightarrow> u64 list \<Rightarrow> u64 \<Rightarrow> ur_result + u64 list \<times> u64" where
  "check_sizes dev k G L [] T p = Inr (T, p)"
| "check_sizes dev k G L (i # is) T p =
     (if ReqdThreadsPerBlock k ! i \<noteq> 0 \<and> ReqdThreadsPerBlock k ! i \<noteq> L ! i then Inl UR_RESULT_ERROR_INVALID_WORK_GROUP_SIZE
      else if MaxThreadsPerBlock k ! i \<noteq> 0 \<and> MaxThreadsPerBlock k ! i < L ! i then Inl UR_RESULT_ERROR_INVALID_WORK_GROUP_SIZE
      else if L ! i > MaxWorkItemSizes dev ! i then Inl UR_RESULT_ERROR_INVALID_WORK_GROUP_SIZE
      else if L ! i = 0 \<or> G ! i mod L ! i \<noteq> 0 then Inl UR_RESULT_ERROR_INVALID_WORK_GROUP_SIZE
      else check_sizes dev k G L is (T[i := L ! i]) (p * L ! i))"

definition given_sizes :: "cuda_device \<Rightarrow> cuda_kernel \<Rightarrow> u64 list \<Rightarrow> u64 list \<Rightarrow> nat \<Rightarrow> u64 list \<Rightarrow> u64 list outcome" where
  "given_sizes dev k G L WorkDim T =
     (case check_sizes dev k G L [0..<WorkDim] T 1 of
        Inl e \<Rightarrow> Failed e
      | Inr (T', KernelLocalWorkGroupSize) \<Rightarrow>
          if MaxLinearThreadsPerBlock k \<noteq> 0 \<and> MaxLinearThreadsPerBlock k < KernelLocalWorkGroupSize
          then Failed UR_RESULT_ERROR_INVALID_WORK_GROUP_SIZE
          else if hasExceededMaxRegistersPerBlock dev k KernelLocalWorkGroupSize then Failed UR_RESULT_ERROR_OUT_OF_RESOURCES
          else Finished T')"

definition blocks :: "nat \<Rightarrow> u64 list \<Rightarrow> u64 list \<Rightarrow> u64 list" where
  "blocks WorkDim G T = map (\<lambda>i. if i < WorkDim then (G ! i + T ! i - 1) div T ! i else 1) [0..<3]"

text \<open>The offset of the launch for the variant of the kernel that takes one, and whether that variant is to be used.\<close>

definition implicit_offset :: "nat \<Rightarrow> u64 list option \<Rightarrow> u32 \<times> u32 \<times> u32" where
  "implicit_offset WorkDim off =
     (case off of None \<Rightarrow> (0, 0, 0)
      | Some os \<Rightarrow> (let o1 = (\<lambda>i. if i < WorkDim then ucast (os ! i) else 0) in (o1 0, o1 1, o1 2)))"

definition offset_used :: "nat \<Rightarrow> u64 list option \<Rightarrow> bool" where
  "offset_used WorkDim off = (case off of None \<Rightarrow> False | Some os \<Rightarrow> list_ex (\<lambda>i. os ! i \<noteq> 0) [0..<WorkDim])"

text \<open>The checks of the local memory, the last of which set an attribute of the function.\<close>

definition check_local_mem :: "driver \<Rightarrow> cuda_device \<Rightarrow> bool \<Rightarrow> u32 \<Rightarrow> ur_result" where
  "check_local_mem drv dev with_offset LocalSize =
     (if LocalSize > MaxCapacityLocalMem dev then UR_RESULT_ERROR_ADAPTER_SPECIFIC
      else if MaxChosenLocalMem dev \<noteq> 0
      then if LocalSize > MaxChosenLocalMem dev then UR_RESULT_ERROR_ADAPTER_SPECIFIC
           else set_attribute drv with_offset (MaxChosenLocalMem dev)
      else if LocalSize > 48 * 1024 then set_attribute drv with_offset LocalSize
      else UR_RESULT_SUCCESS)"

record launch_params =
  ThreadsPerBlock :: "u64 list"
  BlocksPerGrid :: "u64 list"
  with_offset :: bool

text \<open>What follows once the threads of a block are known.\<close>

definition finish_params ::
  "driver \<Rightarrow> cuda_device \<Rightarrow> nat \<Rightarrow> u64 list option \<Rightarrow> u64 list \<Rightarrow> u64 list \<Rightarrow> cuda_kernel \<Rightarrow>
   launch_params outcome \<times> cuda_kernel" where
  "finish_params drv dev WorkDim off G T k =
     (if MaxWorkGroupSize dev < T ! 0 * T ! 1 * T ! 2 then (Failed UR_RESULT_ERROR_INVALID_WORK_GROUP_SIZE, k)
      else if list_ex (\<lambda>i. T ! i = 0) [0..<WorkDim] then (Undefined, k)
      else let k1 = (if has_offset_variant k then k\<lparr>Args := setImplicitOffset (implicit_offset WorkDim off) (Args k)\<rparr> else k);
               w = (has_offset_variant k \<and> offset_used WorkDim off);
               r = check_local_mem drv dev w (getLocalSize (Args k1))
           in if r \<noteq> UR_RESULT_SUCCESS then (Failed r, k1)
              else (Finished \<lparr>ThreadsPerBlock = T, BlocksPerGrid = blocks WorkDim G T, with_offset = w\<rparr>, k1))"

definition setKernelParams ::
  "driver \<Rightarrow> cuda_device \<Rightarrow> nat \<Rightarrow> u64 list option \<Rightarrow> u64 list \<Rightarrow> u64 list option \<Rightarrow> u64 list \<Rightarrow> cuda_kernel \<Rightarrow>
   launch_params outcome \<times> cuda_kernel" where
  "setKernelParams drv dev WorkDim off G L T k =
     (case (case L of Some l \<Rightarrow> given_sizes dev k G l WorkDim T | None \<Rightarrow> guessLocalWorkSize drv dev G WorkDim k) of
        Failed e \<Rightarrow> (Failed e, k)
      | Escaped e \<Rightarrow> (Failed e, k)
      | Undefined \<Rightarrow> (Undefined, k)
      | Finished T' \<Rightarrow> finish_params drv dev WorkDim off G T' k)"

section \<open>Launching\<close>

text \<open>The elements of the list of properties; the flags are those of its first element.\<close>

datatype launch_prop = ExtProps | Cluster u32 u32 u32 | WorkGroup u64 | OtherProp

record launch_props =
  cooperative :: bool
  serialize :: bool
  chain :: "launch_prop list"

datatype launch_attr = Attr_Cooperative | Attr_Serialization | Attr_Cluster u32 u32 u32

text \<open>The arguments of the call of the driver, whose dimensions are \<open>unsigned int\<close>s: the sizes are cut to 32 bits on the way.\<close>

record launch_call =
  gridDim :: "u32 list"
  blockDim :: "u32 list"
  offset_variant :: bool
  LocalSize_of :: u32
  launch_attribute :: "launch_attr list"

datatype launch_result = Barrier | Launch launch_call

definition count_flags :: "launch_props \<Rightarrow> u32" where
  "count_flags p = (if cooperative p then 1 else 0) + (if serialize p then 1 else 0)"

text \<open>The first pass: the number of properties and the memory of the work group.\<close>

fun scan_props :: "launch_prop list \<Rightarrow> u32 \<times> u64 \<Rightarrow> u32 \<times> u64" where
  "scan_props [] r = r"
| "scan_props (p # ps) (n, GroupMem) =
     scan_props ps (if p \<noteq> ExtProps then n + 1 else n, case p of WorkGroup m \<Rightarrow> m | _ \<Rightarrow> GroupMem)"

text \<open>The second pass: the attributes of the launch. The order of the dimensions is reversed.\<close>

definition cluster_attr :: "nat \<Rightarrow> u32 \<Rightarrow> u32 \<Rightarrow> u32 \<Rightarrow> launch_attr" where
  "cluster_attr workDim c0 c1 c2 =
     (if workDim = 3 then Attr_Cluster c2 c1 c0 else if workDim = 2 then Attr_Cluster c1 c0 c2 else Attr_Cluster c0 c1 c2)"

fun chain_attrs :: "driver \<Rightarrow> nat \<Rightarrow> launch_prop list \<Rightarrow> launch_attr list \<Rightarrow> launch_attr list outcome" where
  "chain_attrs drv workDim [] as = Finished as"
| "chain_attrs drv workDim (ExtProps # ps) as = chain_attrs drv workDim ps as"
| "chain_attrs drv workDim (Cluster c0 c1 c2 # ps) as =
     (if allow_cluster drv \<noteq> UR_RESULT_SUCCESS then Escaped (allow_cluster drv)
      else chain_attrs drv workDim ps (as @ [cluster_attr workDim c0 c1 c2]))"
| "chain_attrs drv workDim (WorkGroup m # ps) as = chain_attrs drv workDim ps as"
| "chain_attrs drv workDim (OtherProp # ps) as = Failed UR_RESULT_ERROR_INVALID_ENUMERATION"

definition flag_attrs :: "launch_props \<Rightarrow> launch_attr list" where
  "flag_attrs p = (if cooperative p then [Attr_Cooperative] else []) @ (if serialize p then [Attr_Serialization] else [])"

text \<open>The part before the queue is used, of the plain launch and of the one with attributes. \<open>same_device\<close> says that the kernel is one of the device of the queue.\<close>

definition use_group_memory :: "u64 \<Rightarrow> cuda_kernel \<Rightarrow> cuda_kernel" where
  "use_group_memory GroupMem k =
     (if GroupMem \<noteq> 0 then k\<lparr>Args := setWorkGroupMemory GroupMem (Args k)\<rparr> else k)"

definition launch_with ::
  "driver \<Rightarrow> cuda_device \<Rightarrow> nat \<Rightarrow> u64 list option \<Rightarrow> u64 list \<Rightarrow> u64 list option \<Rightarrow> u32 \<Rightarrow> launch_attr list \<Rightarrow> cuda_kernel \<Rightarrow>
   launch_result outcome \<times> cuda_kernel" where
  "launch_with drv dev workDim off G L LocalSize as k =
     (case setKernelParams drv dev workDim off G L [32, 1, 1] k of
        (Failed e, k') \<Rightarrow> (Failed e, k')
      | (Escaped e, k') \<Rightarrow> (Escaped e, k')
      | (Undefined, k') \<Rightarrow> (Undefined, k')
      | (Finished p, k') \<Rightarrow> (Finished (Launch \<lparr>gridDim = map ucast (BlocksPerGrid p), blockDim = map ucast (ThreadsPerBlock p),
          offset_variant = with_offset p, LocalSize_of = LocalSize, launch_attribute = as\<rparr>), k'))"

definition enqueueKernelLaunch ::
  "driver \<Rightarrow> bool \<Rightarrow> cuda_device \<Rightarrow> nat \<Rightarrow> u64 list option \<Rightarrow> u64 list \<Rightarrow> u64 list option \<Rightarrow> u64 \<Rightarrow> cuda_kernel \<Rightarrow>
   launch_result outcome \<times> cuda_kernel" where
  "enqueueKernelLaunch drv same_device dev workDim off G L GroupMem k =
     (if \<not> same_device then (Failed UR_RESULT_ERROR_INVALID_KERNEL, k)
      else if \<not> (workDim > 0 \<and> workDim < 4) then (Failed UR_RESULT_ERROR_INVALID_WORK_DIMENSION, k)
      else if G ! 0 = 0 then (Finished Barrier, k)
      else let k1 = use_group_memory GroupMem k
           in launch_with drv dev workDim off G L (getLocalSize (Args k1)) [] k1)"

definition urEnqueueKernelLaunch ::
  "driver \<Rightarrow> bool \<Rightarrow> cuda_device \<Rightarrow> nat \<Rightarrow> u64 list option \<Rightarrow> u64 list \<Rightarrow> u64 list option \<Rightarrow> launch_props option \<Rightarrow> cuda_kernel \<Rightarrow>
   launch_result outcome \<times> cuda_kernel" where
  "urEnqueueKernelLaunch drv same_device dev workDim off G L props k =
     (let (n, GroupMem) = (case props of None \<Rightarrow> (0, 0) | Some p \<Rightarrow> scan_props (chain p) (count_flags p, 0))
      in if n = 0 \<or> GroupMem \<noteq> 0 \<and> n = 1
         then enqueueKernelLaunch drv same_device dev workDim off G L GroupMem k
         else if \<not> same_device then (Failed UR_RESULT_ERROR_INVALID_KERNEL, k)
         else if \<not> (workDim > 0 \<and> workDim < 4) then (Failed UR_RESULT_ERROR_INVALID_WORK_DIMENSION, k)
         else case props of
                None \<Rightarrow> (Failed UR_RESULT_ERROR_INVALID_NULL_POINTER, k)
              | Some p \<Rightarrow>
                  if G ! 0 = 0 then (Finished Barrier, k)
                  else let k1 = use_group_memory GroupMem k
                       in case chain_attrs drv workDim (chain p) (flag_attrs p) of
                            Failed e \<Rightarrow> (Failed e, k1)
                          | Escaped e \<Rightarrow> (Escaped e, k1)
                          | Undefined \<Rightarrow> (Undefined, k1)
                          | Finished as \<Rightarrow> launch_with drv dev workDim off G L (getLocalSize (Args k1)) as k1)"

section \<open>Setting the arguments\<close>

text \<open>A memory object: a buffer with its address, or an image, with the answer of the driver about its format and its surface.\<close>

datatype arg_mem = Buffer nat u64 | Image nat "ur_result + bool" u64

text \<open>The arguments of a launch: index and size of local memory, bytes of a value, size and address of a pointer, flags and object, sampler.
  At most 8 bytes of the address are read.\<close>

datatype exp_arg =
    Arg_Local nat u64
  | Arg_Value nat "u8 list"
  | Arg_Pointer nat u64 u64
  | Arg_MemObj nat u32 "arg_mem option"
  | Arg_Sampler nat u32
  | Arg_Other

definition setKernelArgMemObj :: "nat \<Rightarrow> u32 \<Rightarrow> arg_mem option \<Rightarrow> kernel_args \<Rightarrow> (ur_result + unit) \<times> kernel_args" where
  "setKernelArgMemObj argIndex memoryAccess hArgValue st =
     (case hArgValue of
        None \<Rightarrow> addArg argIndex 0 [] 0 st
      | Some (Buffer h CuPtr) \<Rightarrow> addArg argIndex 8 (size_bytes CuPtr) 0 (addMemObjArg (int argIndex) h memoryAccess st)
      | Some (Image h format CuSurf) \<Rightarrow>
          (let st1 = addMemObjArg (int argIndex) h memoryAccess st
           in case format of
                Inl e \<Rightarrow> (Inl e, st1)
              | Inr supported \<Rightarrow>
                  if \<not> supported then (Inl UR_RESULT_ERROR_ADAPTER_SPECIFIC, st1)
                  else addArg argIndex 8 (size_bytes CuSurf) 0 st1))"

definition u32_bytes :: "u32 \<Rightarrow> u8 list" where
  "u32_bytes x = map (\<lambda>i. ucast (drop_bit (8 * i) x)) [0..<4]"

fun set_exp_arg :: "exp_arg \<Rightarrow> kernel_args \<Rightarrow> (ur_result + unit) \<times> kernel_args" where
  "set_exp_arg (Arg_Local i n) st = addLocalArg i n st"
| "set_exp_arg (Arg_Value i bs) st = addArg i (of_nat (length bs)) bs 0 st"
| "set_exp_arg (Arg_Pointer i n p) st = addArg i n (take (unat n) (size_bytes p)) 0 st"
| "set_exp_arg (Arg_MemObj i flags m) st = setKernelArgMemObj i flags m st"
| "set_exp_arg (Arg_Sampler i Props) st = addArg i 4 (u32_bytes Props) 0 st"
| "set_exp_arg Arg_Other st = (Inl UR_RESULT_ERROR_INVALID_ENUMERATION, st)"

fun set_exp_args :: "exp_arg list \<Rightarrow> kernel_args \<Rightarrow> (ur_result + unit) \<times> kernel_args" where
  "set_exp_args [] st = (Inr (), st)"
| "set_exp_args (a # as) st = (case set_exp_arg a st of (Inl e, st') \<Rightarrow> (Inl e, st') | (Inr _, st') \<Rightarrow> set_exp_args as st')"

definition urEnqueueKernelLaunchWithArgsExp ::
  "driver \<Rightarrow> bool \<Rightarrow> cuda_device \<Rightarrow> nat \<Rightarrow> u64 list option \<Rightarrow> u64 list \<Rightarrow> u64 list option \<Rightarrow> exp_arg list \<Rightarrow> launch_props option \<Rightarrow>
   cuda_kernel \<Rightarrow> launch_result outcome \<times> cuda_kernel" where
  "urEnqueueKernelLaunchWithArgsExp drv same_device dev workDim off G L pArgs props k =
     (case set_exp_args pArgs (Args k) of
        (Inl e, st) \<Rightarrow> (Failed e, k\<lparr>Args := st\<rparr>)
      | (Inr _, st) \<Rightarrow> urEnqueueKernelLaunch drv same_device dev workDim off G L props (k\<lparr>Args := st\<rparr>))"

text \<open>The size of a block the adapter suggests for a kernel.\<close>

definition urKernelGetSuggestedLocalWorkSize :: "driver \<Rightarrow> bool \<Rightarrow> cuda_device \<Rightarrow> nat \<Rightarrow> u64 list \<Rightarrow> cuda_kernel \<Rightarrow> u64 list outcome" where
  "urKernelGetSuggestedLocalWorkSize drv same_context dev workDim G k =
     (if \<not> same_context then Failed UR_RESULT_ERROR_INVALID_KERNEL
      else if \<not> (workDim > 0 \<and> workDim < 4) then Failed UR_RESULT_ERROR_INVALID_WORK_DIMENSION
      else case guessLocalWorkSize drv dev G workDim k of
             Finished T \<Rightarrow> Finished (take workDim T) | Failed e \<Rightarrow> Failed e | Escaped e \<Rightarrow> Failed e | Undefined \<Rightarrow> Undefined)"

end
