(* ===== verification/Cuda_Launch_Props.thy ===== *)
theory Cuda_Launch_Props
  imports Cuda_Launch
begin

text \<open>
  Launching a kernel, continued: a launch that is made has exactly the work items the application asked for, in blocks within the limits of the device and
  the kernel, and passes the arguments it was given.
\<close>

section \<open>The sizes of a block\<close>

definition device_ok :: "cuda_device \<Rightarrow> bool" where
  "device_ok dev \<longleftrightarrow> MaxWorkItemSizes dev ! 0 \<noteq> 0 \<and> MaxWorkItemSizes dev ! 1 \<noteq> 0 \<and> MaxWorkItemSizes dev ! 2 \<noteq> 0 \<and>
     unat (MaxWorkItemSizes dev ! 0) * unat (MaxWorkItemSizes dev ! 1) * unat (MaxWorkItemSizes dev ! 2) < 2 ^ 64"

definition threads_ok :: "cuda_device \<Rightarrow> nat \<Rightarrow> u64 list \<Rightarrow> u64 list \<Rightarrow> bool" where
  "threads_ok dev d G T \<longleftrightarrow> length T = 3 \<and>
     (\<forall>i < 3. T ! i \<noteq> 0 \<and> unat (T ! i) dvd unat (normalized d G ! i) \<and> T ! i \<le> MaxWorkItemSizes dev ! i)"

lemma less_3: "(\<forall>i < 3. P i) \<longleftrightarrow> P 0 \<and> P 1 \<and> P (2 :: nat)"
  by (auto simp: less_Suc_eq numeral_3_eq_3 numeral_2_eq_2)

lemma normalized_nth [simp]: "i < 3 \<Longrightarrow> normalized d G ! i = (if i < d then G ! i else 1)" "length (normalized d G) = 3"
  by (simp_all add: normalized_def)

text \<open>The sizes the application gives.\<close>

definition size_accepted :: "cuda_device \<Rightarrow> cuda_kernel \<Rightarrow> u64 list \<Rightarrow> u64 list \<Rightarrow> nat \<Rightarrow> bool" where
  "size_accepted dev k G L i \<longleftrightarrow>
     (ReqdThreadsPerBlock k ! i = 0 \<or> ReqdThreadsPerBlock k ! i = L ! i) \<and> (MaxThreadsPerBlock k ! i = 0 \<or> L ! i \<le> MaxThreadsPerBlock k ! i) \<and>
     L ! i \<le> MaxWorkItemSizes dev ! i \<and> L ! i \<noteq> 0 \<and> unat (L ! i) dvd unat (G ! i)"

lemma mod_dvd: "(g :: u64) mod l = 0 \<longleftrightarrow> unat l dvd unat g"
  by (simp add: word_unat_eq_iff unat_mod mod_eq_0_iff_dvd)

lemma check_sizes_iff:
  "check_sizes dev k G L is T p =
     (if list_all (size_accepted dev k G L) is then Inr (fold (\<lambda>i T. T[i := L ! i]) is T, fold (\<lambda>i p. p * L ! i) is p)
      else Inl UR_RESULT_ERROR_INVALID_WORK_GROUP_SIZE)"
  by (induction "is" arbitrary: T p) (auto simp: size_accepted_def mod_dvd not_less)

lemma length_fold_update: "length (fold (\<lambda>i T. T[i := L ! i]) is T) = length T"
  by (induction "is" arbitrary: T) auto

lemma fold_update_nth:
  "fold (\<lambda>i T. T[i := L ! i]) [0..<d] T ! i = (if i < d \<and> i < length T then L ! i else T ! i)"
proof (induction d)
  case (Suc d)
  then show ?case
    by (cases "i = d") (auto simp: length_fold_update list_update_beyond not_less nth_list_update_neq)
qed simp

lemma given_threads:
  assumes "given_sizes dev k G L d [32, 1, 1] = Finished T" "0 < d" "d \<le> 3"
  shows "T = normalized d L" "list_all (size_accepted dev k G L) [0..<d]"
proof -
  have T: "T = fold (\<lambda>i T. T[i := L ! i]) [0..<d] [32, 1, 1]" "list_all (size_accepted dev k G L) [0..<d]"
    using assms(1) by (auto simp: given_sizes_def check_sizes_iff split: if_splits)
  have one: "[32, 1, 1 :: u64] ! i = 1" if "d \<le> i" "i < 3" for i
    using that assms(2) by (auto simp: less_Suc_eq numeral_3_eq_3)
  show "T = normalized d L"
    by (rule nth_equalityI) (use assms one in \<open>auto simp: T(1) fold_update_nth length_fold_update\<close>)
  show "list_all (size_accepted dev k G L) [0..<d]" using T(2) .
qed

lemma given_threads_ok:
  assumes "given_sizes dev k G L d [32, 1, 1] = Finished T" "0 < d" "d \<le> 3" "device_ok dev"
  shows "threads_ok dev d G T"
proof -
  have one: "1 \<le> x" if "x \<noteq> 0" for x :: u64 using that by (simp add: word_le_nat_alt unat_gt_0 Suc_le_eq)
  have "MaxWorkItemSizes dev ! i \<noteq> 0" if "i < 3" for i
    using that assms(4) by (auto simp: device_ok_def less_Suc_eq numeral_3_eq_3 numeral_2_eq_2)
  then have "threads_ok dev d G (normalized d L)"
    using given_threads(2)[OF assms(1-3)] one by (auto simp: threads_ok_def size_accepted_def list_all_iff)
  then show ?thesis using given_threads(1)[OF assms(1-3)] by simp
qed

text \<open>The sizes the adapter chooses.\<close>

lemma round_0: "roundToHighestFactorOfGlobalSize 0 g = 0" "round_inner 0 g = 0"
  by (subst roundToHighestFactorOfGlobalSize.simps, simp)
    (subst round_inner.simps, subst roundToHighestFactorOfGlobalSize.simps, simp add: Let_def)

lemma min_0: "min 0 x = (0 :: u64)" "min x 0 = (0 :: u64)"
  by (simp_all add: min_def word_le_nat_alt unat_eq_zero)

lemma guess_threads_ok:
  assumes "guessLocalWorkSize drv dev G d k = Finished T" "d \<le> 3" "device_ok dev" "list_all (\<lambda>i. T ! i \<noteq> 0) [0..<d]"
  shows "threads_ok dev d G T"
proof -
  let ?g = "normalized d G" and ?m = "MaxWorkItemSizes dev"
  obtain M t0 t1 t2 where r: "roundToHighestFactorOfGlobalSizeIn3d (?g ! 0, ?g ! 1, ?g ! 2) (?m ! 0, ?m ! 1, ?m ! 2) M = (t0, t1, t2)"
    and T: "T = [t0, t1, t2]" "t0 \<noteq> 0" "t1 * t0 \<noteq> 0"
    using assms(1) by (auto simp: guessLocalWorkSize_def Let_def split: sum.splits prod.splits if_splits)
  note eqs = r[unfolded roundToHighestFactorOfGlobalSizeIn3d_def Let_def prod.case prod.inject]
  have t1: "t1 \<noteq> 0" using T(3) by auto
  note e0 = eqs[THEN conjunct1] and e1 = eqs[THEN conjunct2, THEN conjunct1] and e2 = eqs[THEN conjunct2, THEN conjunct2]
  have g0: "?g ! 0 \<noteq> 0" "M \<noteq> 0"
    using T(2) e0 round_0 min_0 by metis+
  have g1: "?g ! 1 \<noteq> 0" using t1 e1 round_0 min_0 by metis
  have g2: "?g ! 2 \<noteq> 0"
  proof (cases "d = 3")
    case True
    then have "t2 \<noteq> 0" using assms(4) T(1) by (simp add: upt_rec)
    then show ?thesis using e2 round_0 min_0 by metis
  qed (use assms(2) in simp)
  show ?thesis
    using block_sizes_fit[OF g0(1) g1 g2 _ _ _ g0(2) r] assms(3) T(1)
    by (auto simp: threads_ok_def less_3 device_ok_def simp del: normalized_nth)
qed

section \<open>The grid\<close>

lemma unat_blocks:
  assumes "t \<noteq> 0" "unat t dvd unat g" "unat g + unat t \<le> 2 ^ 64"
  shows "unat ((g + t - 1 :: u64) div t) * unat t = unat g"
proof -
  have t: "0 < unat t" using assms(1) by (simp add: unat_gt_0)
  obtain q where q: "unat g = unat t * q" using assms(2) by (auto elim: dvdE)
  have t1: "unat (t - 1) = unat t - 1" using assms(1) by (simp add: unat_sub_if' unat_gt_0 Suc_le_eq)
  have "unat (g + (t - 1)) = unat g + (unat t - 1)"
    using assms(3) t t1 by (subst unat_plus_if') auto
  then have "unat (g + t - 1) = unat t * q + (unat t - 1)" by (simp add: q add_diff_eq)
  moreover have "(unat t * q + (unat t - 1)) div unat t = q" using t by (subst div_mult_self4) simp_all
  ultimately have "unat ((g + t - 1) div t) = q" by (simp only: unat_div_distrib)
  then show ?thesis using q by simp
qed

lemma blocks_cover:
  assumes "threads_ok dev d G T" "\<forall>i < d. unat (G ! i) + unat (MaxWorkItemSizes dev ! i) \<le> 2 ^ 64"
  shows "map2 (\<lambda>b t. unat b * unat t) (blocks d G T) T = map unat (normalized d G)"
proof (rule nth_equalityI)
  show "length (map2 (\<lambda>b t. unat b * unat t) (blocks d G T) T) = length (map unat (normalized d G))"
    using assms(1) by (simp add: blocks_def threads_ok_def)
  fix i assume "i < length (map2 (\<lambda>b t. unat b * unat t) (blocks d G T) T)"
  then have i: "i < 3" using assms(1) by (simp add: blocks_def threads_ok_def)
  have t: "T ! i \<noteq> 0" "unat (T ! i) dvd unat (normalized d G ! i)" "T ! i \<le> MaxWorkItemSizes dev ! i" "length T = 3"
    using assms(1) i by (auto simp: threads_ok_def)
  show "map2 (\<lambda>b t. unat b * unat t) (blocks d G T) T ! i = map unat (normalized d G) ! i"
  proof (cases "i < d")
    case True
    have "unat (G ! i) + unat (T ! i) \<le> 2 ^ 64"
      using assms(2)[rule_format, OF True] t(3) by (simp add: word_le_nat_alt)
    then show ?thesis using unat_blocks[OF t(1), of "G ! i"] t i True by (simp add: blocks_def)
  qed (use i t in \<open>simp add: blocks_def\<close>)
qed

lemma unat_prod3:
  assumes "threads_ok dev d G T" "device_ok dev"
  shows "unat (T ! 0 * T ! 1 * T ! 2) = unat (T ! 0) * unat (T ! 1) * unat (T ! 2)"
proof -
  let ?t = "\<lambda>i. unat (T ! i)" and ?m = "\<lambda>i. unat (MaxWorkItemSizes dev ! i)"
  have le: "?t 0 \<le> ?m 0" "?t 1 \<le> ?m 1" "?t 2 \<le> ?m 2" using assms(1) by (auto simp: threads_ok_def word_le_nat_alt less_3)
  have "?t 0 * ?t 1 * ?t 2 \<le> ?m 0 * ?m 1 * ?m 2" using le by (intro mult_le_mono)
  then have lt: "?t 0 * ?t 1 * ?t 2 < 2 ^ 64" using assms(2) by (simp add: device_ok_def)
  have "0 < ?t 2" using assms(1) by (auto simp: threads_ok_def less_3 unat_gt_0)
  then have "?t 0 * ?t 1 * 1 \<le> ?t 0 * ?t 1 * ?t 2" by (intro mult_le_mono) auto
  then have "?t 0 * ?t 1 < 2 ^ 64" using lt by (simp only: mult_1_right)
  then have "unat (T ! 0 * T ! 1) = ?t 0 * ?t 1" by (simp add: unat_word_ariths(2))
  then show ?thesis using lt by (simp add: unat_word_ariths(2))
qed

lemma getLocalSize_offset [simp]: "getLocalSize (setImplicitOffset x st) = getLocalSize st"
  by (simp add: getLocalSize_def setImplicitOffset_def Let_def)

text \<open>
  C26: Whenever the parameters of a launch are accepted, for one to three dimensions on a device whose limits are not zero and no overflow of the global sizes:
  in each dimension the number of blocks times the number of threads of a block is the global size the application asked for;
  the threads of a block divide the global size and are within the limits of each dimension and of the group; when the
  application gives a local size they are that size, and it agrees with the size the kernel requires, if it requires one; and the local memory is within the capacity
  of the device.
  Nothing is claimed about the size the kernel requires when the application gives no local size, see \<open>guess_ignores_required_size\<close>;
  and the driver gets these numbers as they are only below 2 to the 32, see \<open>grid_truncated\<close>.\<close>

theorem launch_covers:
  assumes "setKernelParams drv dev d off G L [32, 1, 1] k = (Finished p, k')" "0 < d" "d \<le> 3" "device_ok dev"
    and "\<forall>i < d. unat (G ! i) + unat (MaxWorkItemSizes dev ! i) \<le> 2 ^ 64"
  shows "map2 (\<lambda>b t. unat b * unat t) (BlocksPerGrid p) (ThreadsPerBlock p) = map unat (normalized d G) \<and>
    threads_ok dev d G (ThreadsPerBlock p) \<and> prod_list (map unat (ThreadsPerBlock p)) \<le> unat (MaxWorkGroupSize dev) \<and>
    (\<forall>l. L = Some l \<longrightarrow> ThreadsPerBlock p = normalized d l \<and> (\<forall>i < d. ReqdThreadsPerBlock k ! i = 0 \<or> ReqdThreadsPerBlock k ! i = l ! i)) \<and>
    getLocalSize (Args k') \<le> MaxCapacityLocalMem dev"
proof -
  obtain T where T: "(case L of Some l \<Rightarrow> given_sizes dev k G l d [32, 1, 1] | None \<Rightarrow> guessLocalWorkSize drv dev G d k) = Finished T"
    and fin: "finish_params drv dev d off G T k = (Finished p, k')"
    using assms(1) by (auto simp: setKernelParams_def split: outcome.splits)
  have p: "ThreadsPerBlock p = T" "BlocksPerGrid p = blocks d G T" "\<not> MaxWorkGroupSize dev < T ! 0 * T ! 1 * T ! 2"
    "list_all (\<lambda>i. T ! i \<noteq> 0) [0..<d]" "getLocalSize (Args k') \<le> MaxCapacityLocalMem dev"
    using fin by (auto simp: finish_params_def Let_def check_local_mem_def list_all_iff list_ex_iff not_less split: if_splits)
  have ok: "threads_ok dev d G T"
    using T guess_threads_ok[OF _ assms(3,4) p(4)] given_threads_ok[OF _ assms(2-4)] by (auto split: option.splits)
  have "length T = 3" using ok by (simp add: threads_ok_def)
  then have len: "T = [T ! 0, T ! 1, T ! 2]" by (auto simp: numeral_3_eq_3 numeral_2_eq_2 length_Suc_conv)
  have "prod_list (map unat T) = unat (T ! 0 * T ! 1 * T ! 2)"
    using unat_prod3[OF ok assms(4)] by (subst len) (simp add: ac_simps)
  then have "prod_list (map unat T) \<le> unat (MaxWorkGroupSize dev)" using p(3) by (simp add: word_le_nat_alt not_less)
  moreover have "T = normalized d l \<and> (\<forall>i < d. ReqdThreadsPerBlock k ! i = 0 \<or> ReqdThreadsPerBlock k ! i = l ! i)" if "L = Some l" for l
    using T that given_threads[of dev k G l d T] assms(2,3) by (auto simp: list_all_iff size_accepted_def)
  ultimately show ?thesis using blocks_cover[OF ok assms(5)] ok p(5) unfolding p(1,2) by (intro conjI allI impI) auto
qed

definition demo_driver :: driver where
  "demo_driver = \<lparr>occupancy = (\<lambda>_ _. Inr 256), set_attribute = (\<lambda>_ _. UR_RESULT_SUCCESS), allow_cluster = UR_RESULT_SUCCESS\<rparr>"

definition demo_device :: cuda_device where
  "demo_device = \<lparr>MaxWorkItemSizes = [1024, 1024, 64], MaxWorkGroupSize = 1024, MaxRegsPerBlock = 65536, MaxCapacityLocalMem = 49152,
     MaxChosenLocalMem = 0\<rparr>"

definition demo_kernel :: cuda_kernel where
  "demo_kernel = \<lparr>Args = new_args, ReqdThreadsPerBlock = [0, 0, 0], MaxThreadsPerBlock = [0, 0, 0], MaxLinearThreadsPerBlock = 0,
     RegsPerThread = 32, has_offset_variant = True\<rparr>"

lemma demo_device_limits: "MaxWorkGroupSize demo_device = 1024" "MaxCapacityLocalMem demo_device = 49152" "MaxChosenLocalMem demo_device = 0"
  by (simp_all add: demo_device_def)

lemma demo_device_ok: "device_ok demo_device"
  by (simp add: device_ok_def demo_device_def)

lemma demo_params:
  "setKernelParams demo_driver demo_device 2 (Some [7, 0]) [96, 4] (Some [32, 2]) [32, 1, 1] demo_kernel =
     (Finished \<lparr>ThreadsPerBlock = [32, 2, 1], BlocksPerGrid = [3, 2, 1], with_offset = True\<rparr>,
      demo_kernel\<lparr>Args := setImplicitOffset (7, 0, 0) new_args\<rparr>)"
proof -
  have "given_sizes demo_device demo_kernel [96, 4] [32, 2] 2 [32, 1, 1] = Finished [32, 2, 1]" by code_simp
  moreover have "blocks 2 [96, 4] [32, 2, 1] = [3, 2, 1]" "implicit_offset 2 (Some [7, 0]) = (7, 0, 0)" "offset_used 2 (Some [7, 0])" by code_simp+
  moreover have "getLocalSize new_args = 0" by (simp add: getLocalSize_def new_args_def)
  ultimately show ?thesis
    by (simp add: setKernelParams_def finish_params_def Let_def check_local_mem_def demo_device_def demo_kernel_def upt_rec)
qed

theorem launch_covers_witness:
  "\<exists>p k'. setKernelParams demo_driver demo_device 2 (Some [7, 0]) [96, 4] (Some [32, 2]) [32, 1, 1] demo_kernel = (Finished p, k') \<and>
     map2 (\<lambda>b t. unat b * unat t) (BlocksPerGrid p) (ThreadsPerBlock p) = [96, 4, 1] \<and> ThreadsPerBlock p = [32, 2, 1] \<and>
     threads_ok demo_device 2 [96, 4] (ThreadsPerBlock p) \<and> prod_list (map unat (ThreadsPerBlock p)) \<le> 1024 \<and> getLocalSize (Args k') \<le> 49152"
proof -
  have "\<forall>i < 2. unat ([96, 4 :: u64] ! i) + unat (MaxWorkItemSizes demo_device ! i) \<le> 2 ^ 64"
    by (auto simp: demo_device_def less_2_cases_iff)
  note lim = this
  have d: "0 < (2 :: nat)" "(2 :: nat) \<le> 3" by simp_all
  have n: "map unat (normalized 2 [96, 4 :: u64]) = [96, 4, 1]" "normalized 2 [32, 2 :: u64] = [32, 2, 1]"
    by (simp_all add: normalized_def upt_rec)
  have g: "unat (MaxWorkGroupSize demo_device) = 1024" by (simp add: demo_device_limits)
  obtain p k' where r: "setKernelParams demo_driver demo_device 2 (Some [7, 0]) [96, 4] (Some [32, 2]) [32, 1, 1] demo_kernel = (Finished p, k')"
    using demo_params by blast
  note c = launch_covers[OF r d demo_device_ok lim, unfolded n g demo_device_limits(2)]
  note c2 = c[THEN conjunct2] and c3 = c[THEN conjunct2, THEN conjunct2]
  have t: "ThreadsPerBlock p = [32, 2, 1]" using c3[THEN conjunct2, THEN conjunct1] n(2) by simp
  show ?thesis
    by (intro exI[of _ p] exI[of _ k'] conjI)
      (fact r, fact c[THEN conjunct1], fact t, fact c2[THEN conjunct1], fact c3[THEN conjunct1], fact c3[THEN conjunct2, THEN conjunct2])
qed

section \<open>Sizes and offsets that go wrong\<close>

text \<open>Without a local size the adapter chooses one, and the size the kernel requires plays no part in it: the launch is the same whatever
  the kernel requires.\<close>

lemma guess_ignores_required_size:
  assumes "setKernelParams drv dev d off G None T k = (Finished p, k')"
  shows "setKernelParams drv dev d off G None T (k\<lparr>ReqdThreadsPerBlock := r\<rparr>) = (Finished p, k'\<lparr>ReqdThreadsPerBlock := r\<rparr>)"
proof -
  have "guessLocalWorkSize drv dev G d (k\<lparr>ReqdThreadsPerBlock := r\<rparr>) = guessLocalWorkSize drv dev G d k"
    by (simp add: guessLocalWorkSize_def)
  then show ?thesis using assms by (auto simp: setKernelParams_def finish_params_def Let_def split: outcome.splits if_splits)
qed

text \<open>A global size of zero in another dimension than the first divides by zero when the adapter chooses the local size.\<close>

lemma zero_global_size:
  assumes "occupancy drv (getLocalSize (Args k)) (MaxWorkItemSizes dev ! 0) = Inr M" "1 < d" "G ! 1 = 0"
  shows "setKernelParams drv dev d off G None T k = (Undefined, k)"
  using assms by (auto simp: setKernelParams_def guessLocalWorkSize_def Let_def roundToHighestFactorOfGlobalSizeIn3d_def min_0 round_0)

text \<open>An offset of 2 to the 32 selects the variant of the kernel with an offset and passes the offset 0.\<close>

lemma offset_truncated: "offset_used 1 (Some [0x100000000]) \<and> implicit_offset 1 (Some [0x100000000]) = (0, 0, 0)"
  by code_simp

text \<open>A launch of 2 to the 32 plus 1 blocks of one thread is accepted and passed to the driver as a launch of one block.\<close>

lemma grid_truncated:
  "\<exists>k'. enqueueKernelLaunch demo_driver True demo_device 1 None [0x100000001] (Some [1]) 0 demo_kernel =
     (Finished (Launch \<lparr>gridDim = [1, 1, 1], blockDim = [1, 1, 1], offset_variant = False, LocalSize_of = 0, launch_attribute = []\<rparr>), k')"
proof -
  have "given_sizes demo_device demo_kernel [0x100000001] [1] 1 [32, 1, 1] = Finished [1, 1, 1]" by code_simp
  moreover have "map ucast (blocks 1 [0x100000001] [1, 1, 1]) = [1, 1, 1 :: u32]" "\<not> offset_used 1 None" by code_simp+
  moreover have "getLocalSize new_args = 0" by (simp add: getLocalSize_def new_args_def)
  ultimately show ?thesis
    by (simp add: enqueueKernelLaunch_def launch_with_def use_group_memory_def setKernelParams_def finish_params_def Let_def
        check_local_mem_def demo_device_def demo_kernel_def upt_rec)
qed

section \<open>The arguments of a launch\<close>

text \<open>The arguments as calls on the arguments of the kernel. The ones without: a null memory object, an image of an unsupported
  format, an unknown kind.\<close>

fun op_of :: "exp_arg \<Rightarrow> arg_op option" where
  "op_of (Arg_Local i n) = Some (SetLocal i n)"
| "op_of (Arg_Value i bs) = Some (SetValue i bs)"
| "op_of (Arg_Pointer i n p) = (if n \<le> 8 then Some (SetValue i (take (unat n) (size_bytes p))) else None)"
| "op_of (Arg_MemObj i flags (Some (Buffer h p))) = Some (SetValue i (size_bytes p))"
| "op_of (Arg_MemObj i flags (Some (Image h (Inr True) p))) = Some (SetValue i (size_bytes p))"
| "op_of (Arg_Sampler i Props) = Some (SetValue i (u32_bytes Props))"
| "op_of _ = None"

lemma set_exp_arg_op: "op_of a = Some x \<Longrightarrow> \<exists>ms. set_exp_arg a st = exec_op x (st\<lparr>MemObjArgs := ms\<rparr>)"
proof (induction a rule: op_of.induct)
  case (3 i n p)
  then have "n \<le> 8" "x = SetValue i (take (unat n) (size_bytes p))" by (auto split: if_splits)
  moreover from this have "of_nat (min 8 (unat n)) = n" by (simp add: word_le_nat_alt min_absorb2)
  ultimately show ?case by (intro exI[of _ "MemObjArgs st"]) simp
qed (auto simp: setKernelArgMemObj_def addMemObjArg_def u32_bytes_def intro: exI[of _ "MemObjArgs st"])

lemma args_sim_cong:
  assumes f: "Storage st' = Storage st" "ParamSizes st' = ParamSizes st" "ArgPointers st' = ArgPointers st" "InsertPos st' = InsertPos st"
    "AlignedLocalMemSize st' = AlignedLocalMemSize st" "OriginalLocalMemSize st' = OriginalLocalMemSize st" "WorkGroupMemory st' = WorkGroupMemory st"
  shows "args_sim sig a st' \<longleftrightarrow> args_sim sig a st"
proof -
  have e: "arg_at st' = arg_at st" "arg_bytes st' = arg_bytes st" "LocalOffset i st' = LocalOffset i st" for i
    by (simp_all add: arg_at_def arg_bytes_def LocalOffset_def fun_eq_iff f split: arg_ptr.split)
  have "kind_ok v st' i = kind_ok v st i" "placed v st' i = placed v st i" for v i
    by (simp_all add: kind_ok_def placed_def e f split: arg_value.split)
  then show ?thesis by (simp add: args_sim_def args_upto_def args_ok_def e f)
qed

lemma args_sim_mem_objs: "args_sim sig a (st\<lparr>MemObjArgs := ms\<rparr>) \<longleftrightarrow> args_sim sig a st"
  by (rule args_sim_cong) simp_all

lemma args_sim_offset: "args_sim sig a (setImplicitOffset x st) \<longleftrightarrow> args_sim sig a st"
  by (rule args_sim_cong) (simp_all add: setImplicitOffset_def Let_def)

lemma set_exp_args_sim:
  assumes "args_sim sig a st" "sum_list (map slot_size sig) \<le> 4000" "map op_of as = map Some xs" "list_all (well_op sig) xs"
  shows "\<exists>st'. set_exp_args as st = (Inr (), st') \<and> args_sim sig (fold mean_op xs a) st'"
  using assms
proof (induction as arbitrary: xs a st)
  case (Cons y as)
  then obtain x ys where xs: "xs = x # ys" "op_of y = Some x" "map op_of as = map Some ys" by (cases xs) auto
  obtain ms where m: "set_exp_arg y st = exec_op x (st\<lparr>MemObjArgs := ms\<rparr>)" using set_exp_arg_op[OF xs(2)] by blast
  have "args_sim sig (fst a, snd a) (st\<lparr>MemObjArgs := ms\<rparr>)" "well_op sig x" using Cons.prems xs by (simp_all add: args_sim_mem_objs)
  then obtain st1 where "exec_op x (st\<lparr>MemObjArgs := ms\<rparr>) = (Inr (), st1)" "args_sim sig (mean_op x (fst a, snd a)) st1"
    using exec_op_sim[OF _ Cons.prems(2)] by metis
  then show ?case using Cons.IH[of "mean_op x a" st1 ys] Cons.prems xs m by simp
qed simp

text \<open>The memory of the work group among the properties of the launch.\<close>

definition group_memory :: "launch_props option \<Rightarrow> u64" where
  "group_memory props = (case props of None \<Rightarrow> 0 | Some p \<Rightarrow> snd (scan_props (chain p) (count_flags p, 0)))"

lemma launch_with_args:
  assumes "launch_with drv dev d off G L n as k = (Finished (Launch c), k')"
  shows "LocalSize_of c = n" "args_sim sig a (Args k') \<longleftrightarrow> args_sim sig a (Args k)" "n = getLocalSize (Args k) \<Longrightarrow> n \<le> MaxCapacityLocalMem dev"
  using assms
  by (auto simp: launch_with_def setKernelParams_def finish_params_def Let_def check_local_mem_def args_sim_offset
      split: outcome.splits prod.splits if_splits)

lemma use_group_memory_sim:
  assumes "args_sim sig (vs, g) (Args k)"
  shows "args_sim sig (vs, if m \<noteq> 0 then m else g) (Args (use_group_memory m k))"
  using assms setWorkGroupMemory_ok[of "Args k" vs m] by (simp add: args_sim_def use_group_memory_def)

lemma urEnqueueKernelLaunch_launch:
  assumes "urEnqueueKernelLaunch drv same dev d off G L props k = (Finished (Launch c), k')"
  obtains as where "launch_with drv dev d off G L (getLocalSize (Args (use_group_memory (group_memory props) k))) as
    (use_group_memory (group_memory props) k) = (Finished (Launch c), k')"
proof (cases props)
  case None
  then show ?thesis using assms that[of "[]"]
    by (auto simp: urEnqueueKernelLaunch_def enqueueKernelLaunch_def group_memory_def Let_def split: if_splits)
next
  case (Some p)
  obtain n m where nm: "scan_props (chain p) (count_flags p, 0) = (n, m)" by fastforce
  then have g: "group_memory props = m" by (simp add: group_memory_def Some)
  show ?thesis using assms that
    by (auto simp: urEnqueueKernelLaunch_def enqueueKernelLaunch_def Some nm Let_def g[unfolded Some] split: if_splits outcome.splits)
qed

text \<open>
  C25: When a kernel is launched with arguments, the driver reads for each index the value given last, by this launch or before it; local arguments lie apart in a layout
  after the memory of the work group, which is the one of this launch if it has any; and the local memory of
  the launch is exactly the size of that layout, within the capacity of the device.\<close>

theorem launch_passes_args:
  assumes "urEnqueueKernelLaunchWithArgsExp drv same dev d off G L pArgs props k = (Finished (Launch c), k')"
    and "args_sim sig a (Args k)" "sum_list (map slot_size sig) \<le> 4000" "map op_of pArgs = map Some xs" "list_all (well_op sig) xs"
    and "fold mean_op xs a = (vs, g)" "layout (unat (if group_memory props \<noteq> 0 then group_memory props else g)) vs = (places, tot)" "tot < 2 ^ 32"
  shows "map (arg_bytes (Args k')) [0..<length vs] = map2 driver_bytes places vs \<and> unat (LocalSize_of c) = tot \<and>
    tot \<le> unat (MaxCapacityLocalMem dev) \<and>
    regions_ok (unat (if group_memory props \<noteq> 0 then group_memory props else g)) tot
      (regions (unat (if group_memory props \<noteq> 0 then group_memory props else g)) vs)"
proof -
  let ?m = "group_memory props"
  let ?g = "if ?m \<noteq> 0 then ?m else g"
  obtain st where st: "set_exp_args pArgs (Args k) = (Inr (), st)" "args_sim sig (vs, g) st"
    using set_exp_args_sim[OF assms(2-5)] assms(6) by auto
  let ?k = "k\<lparr>Args := st\<rparr>"
  have "urEnqueueKernelLaunch drv same dev d off G L props ?k = (Finished (Launch c), k')"
    using assms(1) st(1) by (simp add: urEnqueueKernelLaunchWithArgsExp_def)
  then obtain as where l: "launch_with drv dev d off G L (getLocalSize (Args (use_group_memory ?m ?k))) as (use_group_memory ?m ?k) = (Finished (Launch c), k')"
    by (rule urEnqueueKernelLaunch_launch)
  have sim: "args_sim sig (vs, ?g) (Args (use_group_memory ?m ?k))"
    by (rule use_group_memory_sim) (simp add: st(2))
  then have sim': "args_sim sig (vs, ?g) (Args k')" using launch_with_args(2)[OF l] by blast
  have inv: "args_upto (nargs (Args k')) vs (Args k')" "WorkGroupMemory (Args k') = ?g"
    and inv0: "args_upto (nargs (Args (use_group_memory ?m ?k))) vs (Args (use_group_memory ?m ?k))" "WorkGroupMemory (Args (use_group_memory ?m ?k)) = ?g"
    using sim sim' by (simp_all add: args_sim_def)
  have pl: "places = fst (layout (unat ?g) vs)" "tot = snd (layout (unat ?g) vs)" using assms(7) by simp_all
  have t: "snd (layout (unat ?g) vs) < 2 ^ 64" "snd (layout (unat ?g) vs) < 2 ^ 32" using assms(8) pl by simp_all
  have "map (arg_bytes (Args k')) [0..<length vs] = map2 driver_bytes places vs"
    using arg_bytes_layout[OF inv(1), unfolded inv(2), OF t(1)] by (intro nth_equalityI) (simp_all add: pl length_layout)
  moreover have "unat (LocalSize_of c) = tot"
    using launch_with_args(1)[OF l] getLocalSize_layout[OF inv0(1), unfolded inv0(2), OF t(2)] pl by simp
  moreover have "LocalSize_of c \<le> MaxCapacityLocalMem dev" using launch_with_args(1,3)[OF l] by simp
  ultimately show ?thesis
    using regions_layout[OF no_empty_local[OF inv(1)], of "unat ?g"] pl(2) by (simp add: word_le_nat_alt)
qed

definition demo_args :: "exp_arg list" where
  "demo_args = [Arg_Value 0 [1, 2, 3, 4], Arg_Local 1 64]"

definition demo_props :: "launch_props option" where
  "demo_props = Some \<lparr>cooperative = False, serialize = False, chain = [ExtProps, WorkGroup 16]\<rparr>"

lemma demo_meaning:
  "map op_of demo_args = map Some [SetValue 0 [1, 2, 3, 4], SetLocal 1 64]" "sum_list (map slot_size [ByValue 4, InLocal]) \<le> 4000"
  "list_all (well_op [ByValue 4, InLocal]) [SetValue 0 [1, 2, 3, 4], SetLocal 1 64]"
  "fold mean_op [SetValue 0 [1, 2, 3, 4], SetLocal 1 64] ([], 0) = ([Plain [1, 2, 3, 4], Local 64], 0)"
  "layout (unat (16 :: u64)) [Plain [1, 2, 3, 4], Local 64] = ([16, 64], 128)" "group_memory demo_props = 16"
  by code_simp+

lemma demo_launch:
  "\<exists>c k'. urEnqueueKernelLaunchWithArgsExp demo_driver True demo_device 2 None [96, 4] (Some [32, 2]) demo_args demo_props demo_kernel =
     (Finished (Launch c), k')"
proof -
  let ?sig = "[ByValue 4, InLocal]" and ?vs = "[Plain [1, 2, 3, 4], Local 64]"
  have "args_sim ?sig ([], 0) (Args demo_kernel)" by (simp add: demo_kernel_def args_sim_new)
  from set_exp_args_sim[OF this demo_meaning(2,1,3)] demo_meaning(4)
  obtain st where st: "set_exp_args demo_args (Args demo_kernel) = (Inr (), st)" "args_sim ?sig (?vs, 0) st" by auto
  let ?k = "use_group_memory 16 (demo_kernel\<lparr>Args := st\<rparr>)"
  have "args_sim ?sig (?vs, 16) (Args ?k)" using use_group_memory_sim[of ?sig ?vs 0 "demo_kernel\<lparr>Args := st\<rparr>" 16] st(2) by simp
  then have "args_upto (nargs (Args ?k)) ?vs (Args ?k)" "WorkGroupMemory (Args ?k) = 16" by (simp_all add: args_sim_def)
  then have "unat (getLocalSize (Args ?k)) = 128" using getLocalSize_layout[of "Args ?k" ?vs] demo_meaning(5) by simp
  then have small: "getLocalSize (Args ?k) \<le> 48 * 1024" by (simp add: word_le_nat_alt)
  have same: "given_sizes demo_device ?k = given_sizes demo_device demo_kernel"
    by (intro ext) (simp add: given_sizes_def check_sizes_iff[abs_def] size_accepted_def[abs_def] hasExceededMaxRegistersPerBlock_def use_group_memory_def)
  have "given_sizes demo_device demo_kernel [96, 4] [32, 2] 2 [32, 1, 1] = Finished [32, 2, 1]" by code_simp
  then have "\<exists>p k'. setKernelParams demo_driver demo_device 2 None [96, 4] (Some [32, 2]) [32, 1, 1] ?k = (Finished p, k')"
    using small by (auto simp: setKernelParams_def same finish_params_def Let_def check_local_mem_def demo_device_limits not_less upt_rec)
  moreover have "scan_props [ExtProps, WorkGroup 16] (0, 0) = (1, 16)" by simp
  ultimately show ?thesis
    using st(1) by (auto simp: urEnqueueKernelLaunchWithArgsExp_def urEnqueueKernelLaunch_def demo_props_def count_flags_def
        enqueueKernelLaunch_def launch_with_def Let_def)
qed

theorem launch_passes_args_witness:
  "\<exists>c k'. urEnqueueKernelLaunchWithArgsExp demo_driver True demo_device 2 None [96, 4] (Some [32, 2]) demo_args demo_props demo_kernel =
     (Finished (Launch c), k') \<and> map (arg_bytes (Args k')) [0..<2] = [[1, 2, 3, 4], size_bytes 64] \<and> unat (LocalSize_of c) = 128"
proof -
  let ?r = "urEnqueueKernelLaunchWithArgsExp demo_driver True demo_device 2 None [96, 4] (Some [32, 2]) demo_args demo_props demo_kernel"
  let ?xs = "[SetValue 0 [1, 2, 3, 4], SetLocal 1 64]" and ?sig = "[ByValue 4, InLocal]" and ?vs = "[Plain [1, 2, 3, 4], Local 64]"
  obtain c k' where r: "?r = (Finished (Launch c), k')" using demo_launch by blast
  have sim: "args_sim ?sig ([], 0) (Args demo_kernel)" by (simp add: demo_kernel_def args_sim_new)
  have l: "layout (unat (if group_memory demo_props \<noteq> 0 then group_memory demo_props else 0)) ?vs = ([16, 64], 128)"
    using demo_meaning(5,6) by simp
  have "(128 :: nat) < 2 ^ 32" by simp
  note p = launch_passes_args[OF r sim demo_meaning(2,1,3,4) l this]
  have "map2 driver_bytes [16, 64] ?vs = [[1, 2, 3, 4], size_bytes 64]" "length ?vs = 2" by simp_all
  then show ?thesis using r p[THEN conjunct1] p[THEN conjunct2, THEN conjunct1] by (intro exI[of _ c] exI[of _ k']) (simp add: upt_rec)
qed

section \<open>Calls that go wrong\<close>

text \<open>The memory of a work group stays with the kernel: a launch without any uses the one of the launch before.\<close>

lemma group_memory_stays:
  assumes "args_sim sig (vs, g) (Args k)" "g \<noteq> 0"
  shows "WorkGroupMemory (Args (use_group_memory (group_memory None) k)) = g"
  using assms by (simp add: group_memory_def use_group_memory_def args_sim_def)

text \<open>When the driver refuses a cluster, the exception leaves the entry point.\<close>

lemma cluster_exception:
  "fst (urEnqueueKernelLaunchWithArgsExp (demo_driver\<lparr>allow_cluster := UR_RESULT_ERROR_INVALID_VALUE\<rparr>) True demo_device 1 None [96] (Some [32]) []
     (Some \<lparr>cooperative = False, serialize = False, chain = [ExtProps, Cluster 2 1 1]\<rparr>) demo_kernel) = Escaped UR_RESULT_ERROR_INVALID_VALUE"
  by code_simp

text \<open>A property for no memory of the work group makes a launch with a list of no attributes.\<close>

lemma empty_attribute_list:
  "fst (urEnqueueKernelLaunch demo_driver True demo_device 1 None [96] (Some [32]) (Some \<lparr>cooperative = False, serialize = False,
     chain = [ExtProps, WorkGroup 0]\<rparr>) demo_kernel) =
   Finished (Launch \<lparr>gridDim = [3, 1, 1], blockDim = [32, 1, 1], offset_variant = False, LocalSize_of = 0,
     launch_attribute = []\<rparr>) \<and> scan_props [ExtProps, WorkGroup 0] (0, 0) = (1, 0)"
  by code_simp

end
