(* ===== verification/Hip_Launch.thy ===== *)
theory Hip_Launch
  imports Cuda_Launch_Props
begin

text \<open>
  The arguments of a kernel and the parameters of a launch in the HIP adapter (adapters/hip/kernel.hpp and
  adapters/hip/enqueue.cpp). The adapter began as a copy of the one for CUDA and has
  changed since: its kernels have no work group memory and no limits of their own on the threads of a block, and its checks of the sizes
  are others. The definitions here are those of the HIP sources, with a state of their own; only what both sources take from the
  common code, and the pure helpers on arrays, are shared. The theorem says when the two adapters agree, the lemmas
  after it where they do not. The limits of a device, which the source keeps as \<open>int\<close>s, are not negative.
\<close>

section \<open>The arguments of a kernel\<close>

record hip_args =
  hStorage :: "u8 list"
  hParamSizes :: "u64 list"
  hArgPointers :: "arg_ptr list"
  hInsertPos :: u64
  hAlignedLocalMemSize :: "u64 list"
  hOriginalLocalMemSize :: "u64 list"
  hMemObjArgs :: "mem_obj_arg list"
  hImplicitOffsetArgs :: "u8 list"

definition MAX_PARAM_BYTES :: u64 where
  "MAX_PARAM_BYTES = 4000"

definition hip_new_args :: hip_args where
  "hip_new_args = \<lparr>hStorage = replicate 4000 0, hParamSizes = [], hArgPointers = [Implicit], hInsertPos = 0,
     hAlignedLocalMemSize = [], hOriginalLocalMemSize = [], hMemObjArgs = [], hImplicitOffsetArgs = replicate 12 0\<rparr>"

definition hip_memcpy_to :: "arg_ptr \<Rightarrow> u8 list \<Rightarrow> hip_args \<Rightarrow> hip_args" where
  "hip_memcpy_to p bs st =
     (case p of
        At a \<Rightarrow> st\<lparr>hStorage := overwrite a bs (hStorage st)\<rparr>
      | Implicit \<Rightarrow> st\<lparr>hImplicitOffsetArgs := overwrite 0 bs (hImplicitOffsetArgs st)\<rparr>)"

definition hip_addArg :: "nat \<Rightarrow> u64 \<Rightarrow> u8 list \<Rightarrow> u64 \<Rightarrow> hip_args \<Rightarrow> (ur_result + unit) \<times> hip_args" where
  "hip_addArg Index n Arg LocalSize st0 =
     (let st = (if Index + 2 > length (hArgPointers st0)
                then st0\<lparr>hArgPointers := resize (Index + 2) (last (hArgPointers st0)) (hArgPointers st0),
                         hParamSizes := resize (Index + 1) 0 (hParamSizes st0),
                         hAlignedLocalMemSize := resize (Index + 1) 0 (hAlignedLocalMemSize st0),
                         hOriginalLocalMemSize := resize (Index + 1) 0 (hOriginalLocalMemSize st0)\<rparr>
                else st0)
      in if hParamSizes st ! Index = 0
         then if hInsertPos st + n > MAX_PARAM_BYTES then (Inl UR_RESULT_ERROR_OUT_OF_RESOURCES, st)
              else (Inr (), st\<lparr>hParamSizes := (hParamSizes st)[Index := n],
                      hStorage := overwrite (unat (hInsertPos st)) Arg (hStorage st),
                      hArgPointers := (hArgPointers st)[Index := At (unat (hInsertPos st))],
                      hAlignedLocalMemSize := (hAlignedLocalMemSize st)[Index := LocalSize],
                      hInsertPos := hInsertPos st + n\<rparr>)
         else if n \<noteq> hParamSizes st ! Index then (Inl UR_RESULT_ERROR_INVALID_ARGUMENT, st)
         else (Inr (), (hip_memcpy_to (hArgPointers st ! Index) Arg st)
                \<lparr>hAlignedLocalMemSize := (hAlignedLocalMemSize st)[Index := LocalSize]\<rparr>))"

text \<open>The padded size and the place of a local argument. For a size of 0 the remainder is undefined in the program.\<close>

definition hip_calcAlignedLocalArgument :: "nat \<Rightarrow> u64 \<Rightarrow> hip_args \<Rightarrow> (u64 \<times> u64) \<times> hip_args" where
  "hip_calcAlignedLocalArgument Index n st =
     (let st1 = (if Index + 2 > length (hArgPointers st)
                 then st\<lparr>hAlignedLocalMemSize := resize (Index + 1) 0 (hAlignedLocalMemSize st),
                         hOriginalLocalMemSize := resize (Index + 1) 0 (hOriginalLocalMemSize st)\<rparr>
                 else st);
          st2 = st1\<lparr>hOriginalLocalMemSize := (hOriginalLocalMemSize st1)[Index := n]\<rparr>;
          LocalOffset = fold (\<lambda>x acc. acc + x) (take Index (hAlignedLocalMemSize st2)) 0;
          Alignment = min (8 * 16) n;
          Pad = LocalOffset mod Alignment;
          AlignedLocalOffset = (if Pad \<noteq> 0 then LocalOffset + (Alignment - Pad) else LocalOffset)
      in ((n + (AlignedLocalOffset - LocalOffset), AlignedLocalOffset), st2))"

fun hip_update_loop :: "nat list \<Rightarrow> hip_args \<Rightarrow> hip_args" where
  "hip_update_loop [] st = st"
| "hip_update_loop (SuccIndex # is) st =
     (if hOriginalLocalMemSize st ! SuccIndex = 0 then hip_update_loop is st
      else let ((SuccAlignedLocalSize, SuccAlignedLocalOffset), st1) =
                 hip_calcAlignedLocalArgument SuccIndex (hOriginalLocalMemSize st ! SuccIndex) st;
               st2 = st1\<lparr>hAlignedLocalMemSize := (hAlignedLocalMemSize st1)[SuccIndex := SuccAlignedLocalSize]\<rparr>
           in hip_update_loop is (hip_memcpy_to (hArgPointers st2 ! SuccIndex) (size_bytes SuccAlignedLocalOffset) st2))"

definition hip_updateLocalArgOffset :: "nat \<Rightarrow> hip_args \<Rightarrow> hip_args" where
  "hip_updateLocalArgOffset StartIndex st = hip_update_loop [StartIndex..<length (hArgPointers st) - 1] st"

definition hip_addLocalArg :: "nat \<Rightarrow> u64 \<Rightarrow> hip_args \<Rightarrow> (ur_result + unit) \<times> hip_args" where
  "hip_addLocalArg Index n st =
     (let ((AlignedLocalSize, AlignedLocalOffset), st1) = hip_calcAlignedLocalArgument Index n st
      in case hip_addArg Index 8 (size_bytes AlignedLocalOffset) AlignedLocalSize st1 of
           (Inl e, st2) \<Rightarrow> (Inl e, st2)
         | (Inr _, st2) \<Rightarrow> (Inr (), hip_updateLocalArgOffset (Index + 1) st2))"

definition hip_addMemObjArg :: "int \<Rightarrow> nat \<Rightarrow> u32 \<Rightarrow> hip_args \<Rightarrow> hip_args" where
  "hip_addMemObjArg Index hMem Flags st =
     st\<lparr>hMemObjArgs := put_mem_obj \<lparr>Mem = hMem, Index_of = Index, AccessFlags = Flags\<rparr> (hMemObjArgs st)\<rparr>"

definition hip_setImplicitOffset :: "u32 list \<Rightarrow> hip_args \<Rightarrow> hip_args" where
  "hip_setImplicitOffset ImplicitOffset st =
     st\<lparr>hImplicitOffsetArgs := concat (map (\<lambda>x. map (\<lambda>i. ucast (drop_bit (8 * i) x)) [0..<4]) ImplicitOffset)\<rparr>"

text \<open>The accumulator is an \<open>int\<close> and the elements are 64-bit: every partial sum is cut to 32 bits.\<close>

definition hip_getLocalSize :: "hip_args \<Rightarrow> u32" where
  "hip_getLocalSize st = fold (\<lambda>x acc. ucast (ucast acc + x)) (hAlignedLocalMemSize st) 0"

section \<open>The parameters of a launch\<close>

record hip_device =
  hMaxBlockDim :: "u64 list"
  hMaxWorkGroupSize :: u64
  hMaxCapacityLocalMem :: u32
  hMaxChosenLocalMem :: u32

record hip_kernel =
  hArgs :: hip_args
  hReqdThreadsPerBlock :: "u64 list"
  getWithOffsetParameter :: bool

fun hip_normalize :: "u64 list \<Rightarrow> nat list \<Rightarrow> u64 list \<Rightarrow> u64 list" where
  "hip_normalize GlobalWorkSize [] n = n"
| "hip_normalize GlobalWorkSize (i # is) n = hip_normalize GlobalWorkSize is (n[i := GlobalWorkSize ! i])"

definition hip_guessLocalWorkSize :: "driver \<Rightarrow> hip_device \<Rightarrow> u64 list \<Rightarrow> nat \<Rightarrow> hip_kernel \<Rightarrow> u64 list outcome" where
  "hip_guessLocalWorkSize drv Device GlobalWorkSize WorkDim Kernel =
     (let g = hip_normalize GlobalWorkSize [0..<WorkDim] [1, 1, 1]; m = hMaxBlockDim Device
      in case occupancy drv (hip_getLocalSize (hArgs Kernel)) (m ! 0) of
           Inl e \<Rightarrow> Escaped e
         | Inr MaxBlockSize \<Rightarrow>
             (case roundToHighestFactorOfGlobalSizeIn3d (g ! 0, g ! 1, g ! 2) (m ! 0, m ! 1, m ! 2) MaxBlockSize of
                (t0, t1, t2) \<Rightarrow> if t0 = 0 \<or> t1 * t0 = 0 then Undefined else Finished [t0, t1, t2]))"

text \<open>The third assertion of the loop is on the pointer to the sizes, which is not null here.\<close>

fun hip_check_sizes :: "hip_device \<Rightarrow> hip_kernel \<Rightarrow> u64 list \<Rightarrow> u64 list \<Rightarrow> nat list \<Rightarrow> u64 list \<Rightarrow> u64 list outcome" where
  "hip_check_sizes dev k G L [] T = Finished T"
| "hip_check_sizes dev k G L (i # is) T =
     (if \<not> (hReqdThreadsPerBlock k ! i = 0 \<or> L ! i = hReqdThreadsPerBlock k ! i) then Failed UR_RESULT_ERROR_INVALID_WORK_GROUP_SIZE
      else if \<not> L ! i \<le> hMaxBlockDim dev ! i then Failed UR_RESULT_ERROR_INVALID_WORK_GROUP_SIZE
      else if L ! i = 0 then Undefined
      else if G ! i mod L ! i \<noteq> 0 then Failed UR_RESULT_ERROR_INVALID_WORK_GROUP_SIZE
      else hip_check_sizes dev k G L is (T[i := L ! i]))"

text \<open>The loop that fills the blocks, and the one that fills the offset and notes that one is not zero.\<close>

fun hip_blocks :: "u64 list \<Rightarrow> u64 list \<Rightarrow> nat list \<Rightarrow> u64 list \<Rightarrow> u64 list outcome" where
  "hip_blocks G T [] B = Finished B"
| "hip_blocks G T (i # is) B =
     (if T ! i = 0 then Undefined else hip_blocks G T is (B[i := (G ! i + T ! i - 1) div T ! i]))"

fun hip_offset :: "u64 list \<Rightarrow> nat list \<Rightarrow> u32 list \<times> bool \<Rightarrow> u32 list \<times> bool" where
  "hip_offset os [] r = r"
| "hip_offset os (i # is) (ImplicitOffset, w) = hip_offset os is (ImplicitOffset[i := ucast (os ! i)], w \<or> os ! i \<noteq> 0)"

definition hip_check_local_mem :: "driver \<Rightarrow> hip_device \<Rightarrow> bool \<Rightarrow> u32 \<Rightarrow> ur_result" where
  "hip_check_local_mem drv dev w LocalSize =
     (if LocalSize > hMaxCapacityLocalMem dev then UR_RESULT_ERROR_ADAPTER_SPECIFIC
      else if hMaxChosenLocalMem dev \<noteq> 0
      then if LocalSize > hMaxChosenLocalMem dev then UR_RESULT_ERROR_ADAPTER_SPECIFIC
           else set_attribute drv w (hMaxChosenLocalMem dev)
      else UR_RESULT_SUCCESS)"

definition hip_set_offset :: "nat \<Rightarrow> u64 list option \<Rightarrow> hip_kernel \<Rightarrow> bool \<times> hip_kernel" where
  "hip_set_offset WorkDim off k =
     (if getWithOffsetParameter k
      then let (ImplicitOffset, w) = (case off of None \<Rightarrow> ([0, 0, 0], False) | Some os \<Rightarrow> hip_offset os [0..<WorkDim] ([0, 0, 0], False))
           in (w, k\<lparr>hArgs := hip_setImplicitOffset ImplicitOffset (hArgs k)\<rparr>)
      else (False, k))"

definition hip_setKernelParams ::
  "driver \<Rightarrow> hip_device \<Rightarrow> nat \<Rightarrow> u64 list option \<Rightarrow> u64 list \<Rightarrow> u64 list option \<Rightarrow> u64 list \<Rightarrow> u64 list \<Rightarrow> hip_kernel \<Rightarrow>
   launch_params outcome \<times> hip_kernel" where
  "hip_setKernelParams drv dev WorkDim off G L ThreadsPerBlock0 BlocksPerGrid0 k =
     (case (case L of Some l \<Rightarrow> hip_check_sizes dev k G l [0..<WorkDim] ThreadsPerBlock0
                    | None \<Rightarrow> hip_guessLocalWorkSize drv dev G WorkDim k) of
        Failed e \<Rightarrow> (Failed e, k)
      | Escaped e \<Rightarrow> (Failed e, k)
      | Undefined \<Rightarrow> (Undefined, k)
      | Finished T \<Rightarrow>
          if \<not> hMaxWorkGroupSize dev \<ge> T ! 0 * T ! 1 * T ! 2 then (Failed UR_RESULT_ERROR_INVALID_WORK_GROUP_SIZE, k)
          else case hip_blocks G T [0..<WorkDim] BlocksPerGrid0 of
                 Finished B \<Rightarrow>
                   (let (w, k1) = hip_set_offset WorkDim off k;
                        r = hip_check_local_mem drv dev w (hip_getLocalSize (hArgs k1))
                    in if r \<noteq> UR_RESULT_SUCCESS then (Failed r, k1)
                       else (Finished \<lparr>ThreadsPerBlock = T, BlocksPerGrid = B, with_offset = w\<rparr>, k1))
               | _ \<Rightarrow> (Undefined, k))"

section \<open>Agreement with the CUDA adapter\<close>

text \<open>The arguments, device and kernel of the CUDA adapter with what the HIP adapter does not have left out.\<close>

definition as_hip_args :: "kernel_args \<Rightarrow> hip_args" where
  "as_hip_args st = \<lparr>hStorage = Storage st, hParamSizes = ParamSizes st, hArgPointers = ArgPointers st, hInsertPos = InsertPos st,
     hAlignedLocalMemSize = AlignedLocalMemSize st, hOriginalLocalMemSize = OriginalLocalMemSize st, hMemObjArgs = MemObjArgs st,
     hImplicitOffsetArgs = ImplicitOffsetArgs st\<rparr>"

definition as_hip_device :: "cuda_device \<Rightarrow> hip_device" where
  "as_hip_device dev = \<lparr>hMaxBlockDim = MaxWorkItemSizes dev, hMaxWorkGroupSize = MaxWorkGroupSize dev,
     hMaxCapacityLocalMem = MaxCapacityLocalMem dev, hMaxChosenLocalMem = MaxChosenLocalMem dev\<rparr>"

definition as_hip_kernel :: "cuda_kernel \<Rightarrow> hip_kernel" where
  "as_hip_kernel k = \<lparr>hArgs = as_hip_args (Args k), hReqdThreadsPerBlock = ReqdThreadsPerBlock k, getWithOffsetParameter = has_offset_variant k\<rparr>"

lemma as_hip_device_sel [simp]:
  "hMaxBlockDim (as_hip_device dev) = MaxWorkItemSizes dev" "hMaxWorkGroupSize (as_hip_device dev) = MaxWorkGroupSize dev"
  "hMaxCapacityLocalMem (as_hip_device dev) = MaxCapacityLocalMem dev" "hMaxChosenLocalMem (as_hip_device dev) = MaxChosenLocalMem dev"
  by (simp_all add: as_hip_device_def)

lemma as_hip_kernel_sel [simp]:
  "hArgs (as_hip_kernel k) = as_hip_args (Args k)" "hReqdThreadsPerBlock (as_hip_kernel k) = ReqdThreadsPerBlock k"
  "getWithOffsetParameter (as_hip_kernel k) = has_offset_variant k"
  by (simp_all add: as_hip_kernel_def)

lemma as_hip_args_new: "as_hip_args new_args = hip_new_args"
  by (simp add: as_hip_args_def new_args_def hip_new_args_def)

subsection \<open>Setting the arguments\<close>

lemma hip_memcpy_to: "hip_memcpy_to p bs (as_hip_args st) = as_hip_args (memcpy_to p bs st)"
  by (simp add: hip_memcpy_to_def memcpy_to_def as_hip_args_def split: arg_ptr.split)

lemma hip_addArg: "hip_addArg i n bs l (as_hip_args st) = apsnd as_hip_args (addArg i n bs l st)"
proof -
  have e: "(if i + 2 > length (hArgPointers (as_hip_args st))
      then (as_hip_args st)\<lparr>hArgPointers := resize (i + 2) (last (hArgPointers (as_hip_args st))) (hArgPointers (as_hip_args st)),
        hParamSizes := resize (i + 1) 0 (hParamSizes (as_hip_args st)),
        hAlignedLocalMemSize := resize (i + 1) 0 (hAlignedLocalMemSize (as_hip_args st)),
        hOriginalLocalMemSize := resize (i + 1) 0 (hOriginalLocalMemSize (as_hip_args st))\<rparr>
      else as_hip_args st) = as_hip_args (expand i st)"
    by (simp add: expand_def as_hip_args_def)
  show ?thesis
    unfolding hip_addArg_def e
    by (simp add: addArg_def Let_def MAX_PARAM_BYTES_def MaxParamBytes_def insert_arg_def hip_memcpy_to_def memcpy_to_def as_hip_args_def
        split: arg_ptr.split)
qed

lemma fold_plus: "fold (\<lambda>x acc. acc + x) xs a = a + sum_list xs" for a :: "'a :: comm_monoid_add"
  by (induction xs arbitrary: a) (simp_all add: ac_simps)

lemma hip_calc:
  assumes "WorkGroupMemory st = 0"
  shows "hip_calcAlignedLocalArgument i n (as_hip_args st) = apsnd as_hip_args (calcAlignedLocalArgument i n st)"
  using assms
  by (simp add: hip_calcAlignedLocalArgument_def calcAlignedLocalArgument_def align_local_def note_size_def LocalOffset_def Let_def fold_plus
      as_hip_args_def)

lemma group_memory_kept [simp]:
  "WorkGroupMemory (memcpy_to p bs st) = WorkGroupMemory st" "WorkGroupMemory (snd (addArg i n bs l st)) = WorkGroupMemory st"
  "WorkGroupMemory (snd (calcAlignedLocalArgument i n st)) = WorkGroupMemory st"
  "WorkGroupMemory (setImplicitOffset x st) = WorkGroupMemory st"
  by (simp_all add: memcpy_to_def addArg_def expand_def insert_arg_def calcAlignedLocalArgument_def note_size_def setImplicitOffset_def Let_def
      split: arg_ptr.split)

lemma update_loop_group_memory [simp]: "WorkGroupMemory (update_loop is st) = WorkGroupMemory st"
proof (induction "is" st rule: update_loop.induct)
  case (2 i "is" st)
  obtain a b st1 where c: "calcAlignedLocalArgument i (OriginalLocalMemSize st ! i) st = ((a, b), st1)" by (metis prod.exhaust)
  then have "WorkGroupMemory st1 = WorkGroupMemory st" using group_memory_kept(3)[of i "OriginalLocalMemSize st ! i" st] by simp
  then show ?case using 2 c by (simp add: Let_def)
qed simp

lemma hip_update_loop:
  "WorkGroupMemory st = 0 \<Longrightarrow> hip_update_loop is (as_hip_args st) = as_hip_args (update_loop is st)"
proof (induction "is" st rule: update_loop.induct)
  case (2 i "is" st)
  obtain a b st1 where c: "calcAlignedLocalArgument i (OriginalLocalMemSize st ! i) st = ((a, b), st1)" by (metis prod.exhaust)
  then have w: "WorkGroupMemory st1 = 0" using group_memory_kept(3)[of i "OriginalLocalMemSize st ! i" st] 2 by simp
  have s: "hOriginalLocalMemSize (as_hip_args st) = OriginalLocalMemSize st" by (simp add: as_hip_args_def)
  have u: "(as_hip_args st1)\<lparr>hAlignedLocalMemSize := (hAlignedLocalMemSize (as_hip_args st1))[i := a]\<rparr> =
      as_hip_args (st1\<lparr>AlignedLocalMemSize := (AlignedLocalMemSize st1)[i := a]\<rparr>)"
    "hArgPointers (as_hip_args st') = ArgPointers st'" for st' by (simp_all add: as_hip_args_def)
  show ?case using 2 c w
    by (simp add: Let_def hip_calc s u hip_memcpy_to del: kernel_args.update_convs hip_args.update_convs)
qed simp

lemma hip_addLocalArg:
  assumes "WorkGroupMemory st = 0"
  shows "hip_addLocalArg i n (as_hip_args st) = apsnd as_hip_args (addLocalArg i n st)"
proof -
  obtain a b st1 where c: "calcAlignedLocalArgument i n st = ((a, b), st1)" by (metis prod.exhaust)
  obtain r st2 where d: "addArg i 8 (size_bytes b) a st1 = (r, st2)" by (metis prod.exhaust)
  have "WorkGroupMemory st1 = 0" using group_memory_kept(3)[of i n st] c assms by simp
  then have w: "WorkGroupMemory st2 = 0" using group_memory_kept(2)[of i 8 "size_bytes b" a st1] d by simp
  have p: "hArgPointers (as_hip_args st') = ArgPointers st'" for st' by (simp add: as_hip_args_def)
  show ?thesis using c d w assms
    by (simp add: hip_addLocalArg_def addLocalArg_def hip_calc hip_addArg hip_updateLocalArgOffset_def updateLocalArgOffset_def
        hip_update_loop p split: sum.split)
qed

lemma addLocalArg_group_memory [simp]: "WorkGroupMemory (snd (addLocalArg i n st)) = WorkGroupMemory st"
proof -
  obtain a b st1 where c: "calcAlignedLocalArgument i n st = ((a, b), st1)" by (metis prod.exhaust)
  obtain r st2 where d: "addArg i 8 (size_bytes b) a st1 = (r, st2)" by (metis prod.exhaust)
  have "WorkGroupMemory st1 = WorkGroupMemory st" using group_memory_kept(3)[of i n st] c by simp
  then have "WorkGroupMemory st2 = WorkGroupMemory st" using group_memory_kept(2)[of i 8 "size_bytes b" a st1] d by simp
  then show ?thesis using c d by (simp add: addLocalArg_def updateLocalArgOffset_def split: sum.split)
qed

text \<open>The settings of arguments the two adapters share, one after the other, and their results. The application may go on after an error.\<close>

datatype setting = Set_Value nat "u8 list" | Set_Local nat u64 | Set_MemObj nat nat u32

fun cuda_set :: "setting \<Rightarrow> kernel_args \<Rightarrow> (ur_result + unit) \<times> kernel_args" where
  "cuda_set (Set_Value i bs) st = addArg i (of_nat (length bs)) bs 0 st"
| "cuda_set (Set_Local i n) st = addLocalArg i n st"
| "cuda_set (Set_MemObj i h f) st = (Inr (), addMemObjArg (int i) h f st)"

fun hip_set :: "setting \<Rightarrow> hip_args \<Rightarrow> (ur_result + unit) \<times> hip_args" where
  "hip_set (Set_Value i bs) st = hip_addArg i (of_nat (length bs)) bs 0 st"
| "hip_set (Set_Local i n) st = hip_addLocalArg i n st"
| "hip_set (Set_MemObj i h f) st = (Inr (), hip_addMemObjArg (int i) h f st)"

fun set_all :: "('s \<Rightarrow> 'a \<Rightarrow> 'r \<times> 'a) \<Rightarrow> 's list \<Rightarrow> 'a \<Rightarrow> 'r list \<times> 'a" where
  "set_all f [] st = ([], st)"
| "set_all f (x # xs) st = (let (r, st1) = f x st; (rs, st2) = set_all f xs st1 in (r # rs, st2))"

lemma hip_set_eq:
  assumes "WorkGroupMemory st = 0"
  shows "hip_set x (as_hip_args st) = apsnd as_hip_args (cuda_set x st)" "WorkGroupMemory (snd (cuda_set x st)) = 0"
proof -
  have "hip_addMemObjArg i h f (as_hip_args st) = as_hip_args (addMemObjArg i h f st)" for i h f
    by (simp add: hip_addMemObjArg_def addMemObjArg_def as_hip_args_def)
  then show "hip_set x (as_hip_args st) = apsnd as_hip_args (cuda_set x st)"
    using assms by (cases x) (simp_all add: hip_addArg hip_addLocalArg)
  show "WorkGroupMemory (snd (cuda_set x st)) = 0" using assms by (cases x) (simp_all add: addMemObjArg_def)
qed

lemma hip_set_all:
  assumes "set_all cuda_set xs st = (rs, st')" "WorkGroupMemory st = 0"
  shows "set_all hip_set xs (as_hip_args st) = (rs, as_hip_args st') \<and> WorkGroupMemory st' = 0"
  using assms
proof (induction xs arbitrary: st rs)
  case (Cons x xs)
  obtain r st1 where x: "cuda_set x st = (r, st1)" by (metis prod.exhaust)
  then obtain qs where "set_all cuda_set xs st1 = (qs, st')" "rs = r # qs" using Cons.prems by (auto simp: Let_def split: prod.splits)
  then show ?case using Cons.IH[of st1 qs] x hip_set_eq[OF Cons.prems(2), of x] by simp
qed simp

subsection \<open>The sizes of a launch\<close>

lemma hip_local_size_fold:
  "fold (\<lambda>x acc. ucast (ucast acc + x)) xs (ucast a) = (ucast (a + sum_list xs) :: u32)" for a :: u64
proof (induction xs arbitrary: a)
  case (Cons x xs)
  have "(ucast (ucast (ucast a :: u32) + x :: u64) :: u32) = ucast (a + x)"
    by (simp add: word_uint_eq_iff unsigned_ucast_eq take_bit_eq_mod uint_word_ariths(1) uint_mod mod_mod_cancel mod_simps)
  then show ?case using Cons[of "a + x"] by (simp add: ac_simps)
qed simp

lemma hip_getLocalSize: "WorkGroupMemory st = 0 \<Longrightarrow> hip_getLocalSize (as_hip_args st) = getLocalSize st"
  using hip_local_size_fold[of "AlignedLocalMemSize st" 0]
  by (simp add: hip_getLocalSize_def getLocalSize_def as_hip_args_def)

lemma hip_normalize_fold: "hip_normalize G is n = fold (\<lambda>i n. n[i := G ! i]) is n"
  by (induction "is" arbitrary: n) simp_all

lemma hip_normalize: "d \<le> 3 \<Longrightarrow> hip_normalize G [0..<d] [1, 1, 1] = normalized d G"
  by (rule nth_equalityI)
    (auto simp: hip_normalize_fold fold_update_nth length_fold_update less_Suc_eq numeral_3_eq_3 normalized_def)

lemma hip_guess:
  assumes "WorkGroupMemory (Args k) = 0" "d \<le> 3"
  shows "hip_guessLocalWorkSize drv (as_hip_device dev) G d (as_hip_kernel k) = guessLocalWorkSize drv dev G d k"
  using assms by (simp add: hip_guessLocalWorkSize_def guessLocalWorkSize_def hip_getLocalSize hip_normalize Let_def)

text \<open>The limits on a block that only the kernels of the CUDA adapter have, and that the local size is within.\<close>

definition cuda_only_limits :: "cuda_device \<Rightarrow> cuda_kernel \<Rightarrow> u64 list \<Rightarrow> nat \<Rightarrow> bool" where
  "cuda_only_limits dev k l d \<longleftrightarrow>
     (let n = fold (\<lambda>i p. p * l ! i) [0..<d] 1
      in list_all (\<lambda>i. MaxThreadsPerBlock k ! i = 0 \<or> l ! i \<le> MaxThreadsPerBlock k ! i) [0..<d] \<and>
         (MaxLinearThreadsPerBlock k = 0 \<or> n \<le> MaxLinearThreadsPerBlock k) \<and> n * RegsPerThread k \<le> MaxRegsPerBlock dev)"

lemma hip_check_sizes_eq:
  assumes "list_all (\<lambda>i. l ! i \<noteq> 0 \<and> (MaxThreadsPerBlock k ! i = 0 \<or> l ! i \<le> MaxThreadsPerBlock k ! i)) is"
  shows "hip_check_sizes (as_hip_device dev) (as_hip_kernel k) G l is T =
    (case check_sizes dev k G l is T p of Inl e \<Rightarrow> Failed e | Inr (T', _) \<Rightarrow> Finished T')"
  using assms by (induction "is" arbitrary: T p) (auto simp: not_less)

lemma hip_given_sizes:
  assumes "cuda_only_limits dev k l d" "list_all (\<lambda>i. l ! i \<noteq> 0) [0..<d]"
  shows "hip_check_sizes (as_hip_device dev) (as_hip_kernel k) G l [0..<d] T = given_sizes dev k G l d T"
proof -
  have "list_all (\<lambda>i. l ! i \<noteq> 0 \<and> (MaxThreadsPerBlock k ! i = 0 \<or> l ! i \<le> MaxThreadsPerBlock k ! i)) [0..<d]"
    using assms by (auto simp: cuda_only_limits_def Let_def list_all_iff)
  from hip_check_sizes_eq[OF this, of dev G T 1] show ?thesis
    using assms(1) by (auto simp: given_sizes_def check_sizes_iff hasExceededMaxRegistersPerBlock_def cuda_only_limits_def Let_def not_less)
qed

lemma hip_blocks_fold:
  "hip_blocks G T is B =
     (if list_ex (\<lambda>i. T ! i = 0) is then Undefined else Finished (fold (\<lambda>i B. B[i := map2 (\<lambda>g t. (g + t - 1) div t) G T ! i]) is B))"
  if "\<forall>i \<in> set is. i < length G \<and> i < length T"
  using that by (induction "is" arbitrary: B) auto

lemma hip_blocks:
  assumes "d \<le> 3" "d \<le> length G" "length T = 3"
  shows "hip_blocks G T [0..<d] [1, 1, 1] = (if list_ex (\<lambda>i. T ! i = 0) [0..<d] then Undefined else Finished (blocks d G T))"
proof -
  have "fold (\<lambda>i B. B[i := map2 (\<lambda>g t. (g + t - 1) div t) G T ! i]) [0..<d] [1, 1, 1] = blocks d G T"
    by (rule nth_equalityI)
      (use assms in \<open>auto simp: fold_update_nth length_fold_update blocks_def less_Suc_eq numeral_3_eq_3\<close>)
  then show ?thesis using hip_blocks_fold[of "[0..<d]" G T "[1, 1, 1]"] assms by simp
qed

lemma hip_offset_fold:
  "hip_offset os is (n, w) = (fold (\<lambda>i n. n[i := map ucast os ! i]) is n, w \<or> list_ex (\<lambda>i. os ! i \<noteq> 0) is)"
  if "\<forall>i \<in> set is. i < length os"
  using that by (induction "is" arbitrary: n w) auto

lemma hip_offset:
  assumes "d \<le> 3" "d \<le> length os"
  shows "hip_offset os [0..<d] ([0, 0, 0], False) =
    (case implicit_offset d (Some os) of (a, b, c) \<Rightarrow> ([a, b, c], offset_used d (Some os)))"
proof -
  have "fold (\<lambda>i n. n[i := map ucast os ! i]) [0..<d] [0, 0, 0] = map (\<lambda>i. if i < d then ucast (os ! i) else 0) [0..<3]"
    by (rule nth_equalityI)
      (use assms in \<open>auto simp: fold_update_nth length_fold_update less_Suc_eq numeral_3_eq_3\<close>)
  then show ?thesis using hip_offset_fold[of "[0..<d]" os "[0, 0, 0]" False] assms
    by (simp add: implicit_offset_def offset_used_def upt_rec Let_def numeral_2_eq_2)
qed

lemma hip_set_offset:
  assumes "d \<le> 3" "\<forall>os. off = Some os \<longrightarrow> d \<le> length os"
  shows "hip_set_offset d off (as_hip_kernel k) =
    (has_offset_variant k \<and> offset_used d off,
     as_hip_kernel (if has_offset_variant k then k\<lparr>Args := setImplicitOffset (implicit_offset d off) (Args k)\<rparr> else k))"
  using assms
  by (cases off) (auto simp: hip_set_offset_def hip_offset hip_setImplicitOffset_def setImplicitOffset_def offset_used_def implicit_offset_def
      as_hip_kernel_def as_hip_args_def Let_def split: prod.split)

lemma threads_length:
  "given_sizes dev k G l d [32, 1, 1] = Finished T \<Longrightarrow> length T = 3" "guessLocalWorkSize drv dev G d k = Finished T \<Longrightarrow> length T = 3"
  by (auto simp: given_sizes_def check_sizes_iff length_fold_update guessLocalWorkSize_def Let_def split: if_splits sum.splits prod.splits)

text \<open>The CUDA adapter asks for local memory beyond 48 KiB unless the user chose a size; the HIP adapter does not.\<close>

definition no_carveout :: "cuda_device \<Rightarrow> cuda_kernel \<Rightarrow> bool" where
  "no_carveout dev k \<longleftrightarrow> MaxChosenLocalMem dev \<noteq> 0 \<or> getLocalSize (Args k) \<le> 48 * 1024"

lemma hip_finish:
  assumes "WorkGroupMemory (Args k) = 0" "no_carveout dev k" "d \<le> 3" "d \<le> length G" "length T = 3" "\<forall>os. off = Some os \<longrightarrow> d \<le> length os"
  shows "(if \<not> hMaxWorkGroupSize (as_hip_device dev) \<ge> T ! 0 * T ! 1 * T ! 2 then (Failed UR_RESULT_ERROR_INVALID_WORK_GROUP_SIZE, as_hip_kernel k)
      else case hip_blocks G T [0..<d] [1, 1, 1] of
             Finished B \<Rightarrow>
               (let (w, k1) = hip_set_offset d off (as_hip_kernel k);
                    r = hip_check_local_mem drv (as_hip_device dev) w (hip_getLocalSize (hArgs k1))
                in if r \<noteq> UR_RESULT_SUCCESS then (Failed r, k1)
                   else (Finished \<lparr>ThreadsPerBlock = T, BlocksPerGrid = B, with_offset = w\<rparr>, k1))
           | _ \<Rightarrow> (Undefined, as_hip_kernel k)) =
    apsnd as_hip_kernel (finish_params drv dev d off G T k)"
proof -
  have m: "hip_check_local_mem drv (as_hip_device dev) w (getLocalSize (Args k)) = check_local_mem drv dev w (getLocalSize (Args k))" for w
    using assms(2) by (auto simp: hip_check_local_mem_def check_local_mem_def no_carveout_def not_less)
  show ?thesis using assms(1)
    by (simp add: finish_params_def Let_def hip_blocks[OF assms(3,4,5)] hip_set_offset[OF assms(3,6)] hip_getLocalSize m not_le)
qed

text \<open>
  C27: Whatever values, local arguments and memory objects an application sets on a new kernel, in any order and also after errors, each call has the same result in the HIP
  adapter as in the CUDA adapter, and leaves the same arguments. A launch of the kernel with one to three dimensions then gets the same parameters in both,
  errors included, and sets the same offset, under three conditions: no element of the local size, if one is given, is zero;
  it is within the limits on a block that only the CUDA adapter checks (the greatest number of threads of the kernel, in each dimension and together, and the registers of the device);
  and the local memory is at most 48 KiB, or its size was chosen by the user. The devices have the same limits and the kernel requires the same size of a block.\<close>

theorem hip_agrees_with_cuda:
  assumes "set_all cuda_set xs new_args = (rs, Args k)" "d \<le> 3" "d \<le> length G" "\<forall>os. off = Some os \<longrightarrow> d \<le> length os"
    and "\<forall>l. L = Some l \<longrightarrow> list_all (\<lambda>i. l ! i \<noteq> 0) [0..<d] \<and> cuda_only_limits dev k l d" "no_carveout dev k"
  shows "set_all hip_set xs hip_new_args = (rs, hArgs (as_hip_kernel k)) \<and>
    hip_setKernelParams drv (as_hip_device dev) d off G L [32, 1, 1] [1, 1, 1] (as_hip_kernel k) =
      apsnd as_hip_kernel (setKernelParams drv dev d off G L [32, 1, 1] k)"
proof -
  have "WorkGroupMemory new_args = 0" by (simp add: new_args_def)
  from hip_set_all[OF assms(1) this] have s: "set_all hip_set xs hip_new_args = (rs, as_hip_args (Args k))" and w: "WorkGroupMemory (Args k) = 0"
    by (simp_all add: as_hip_args_new)
  let ?T = "case L of Some l \<Rightarrow> given_sizes dev k G l d [32, 1, 1] | None \<Rightarrow> guessLocalWorkSize drv dev G d k"
  have T: "(case L of Some l \<Rightarrow> hip_check_sizes (as_hip_device dev) (as_hip_kernel k) G l [0..<d] [32, 1, 1]
      | None \<Rightarrow> hip_guessLocalWorkSize drv (as_hip_device dev) G d (as_hip_kernel k)) = ?T"
    using assms(5) by (cases L) (simp_all add: hip_guess w assms(2) hip_given_sizes)
  have "length T = 3" if "?T = Finished T" for T using that threads_length by (auto split: option.splits)
  note fin = hip_finish[OF w assms(6,2,3) this assms(4)]
  have "hip_setKernelParams drv (as_hip_device dev) d off G L [32, 1, 1] [1, 1, 1] (as_hip_kernel k) =
      apsnd as_hip_kernel (setKernelParams drv dev d off G L [32, 1, 1] k)"
    unfolding hip_setKernelParams_def T setKernelParams_def by (cases ?T) (simp_all only: outcome.case apsnd_conv fin)
  with s show ?thesis by simp
qed

text \<open>Two arguments, one in local memory, and a launch with an offset.\<close>

definition both_settings :: "setting list" where
  "both_settings = [Set_Local 1 64, Set_Value 0 [1, 2, 3, 4], Set_Value 0 [5], Set_Local 1 32]"

definition both_kernel :: cuda_kernel where
  "both_kernel = demo_kernel\<lparr>Args := snd (set_all cuda_set both_settings new_args)\<rparr>"

theorem hip_agrees_with_cuda_witness:
  "fst (set_all hip_set both_settings hip_new_args) = [Inr (), Inr (), Inl UR_RESULT_ERROR_INVALID_ARGUMENT, Inr ()] \<and>
   hip_setKernelParams demo_driver (as_hip_device demo_device) 2 (Some [7, 0]) [96, 4] (Some [32, 2]) [32, 1, 1] [1, 1, 1] (as_hip_kernel both_kernel) =
     apsnd as_hip_kernel (setKernelParams demo_driver demo_device 2 (Some [7, 0]) [96, 4] (Some [32, 2]) [32, 1, 1] both_kernel)"
proof -
  have "let (rs, st) = set_all cuda_set both_settings new_args
    in rs = [Inr (), Inr (), Inl UR_RESULT_ERROR_INVALID_ARGUMENT, Inr ()] \<and> getLocalSize st \<le> 48 * 1024" by code_simp
  then have r: "fst (set_all cuda_set both_settings new_args) = [Inr (), Inr (), Inl UR_RESULT_ERROR_INVALID_ARGUMENT, Inr ()]"
    and m: "getLocalSize (snd (set_all cuda_set both_settings new_args)) \<le> 48 * 1024"
    by (simp_all add: Let_def case_prod_unfold)
  have s: "set_all cuda_set both_settings new_args = ([Inr (), Inr (), Inl UR_RESULT_ERROR_INVALID_ARGUMENT, Inr ()], Args both_kernel)"
    by (rule prod_eqI) (simp_all add: r both_kernel_def)
  have "cuda_only_limits demo_device demo_kernel [32, 2] 2" by code_simp
  then have "cuda_only_limits demo_device both_kernel [32, 2] 2" by (simp add: cuda_only_limits_def both_kernel_def)
  moreover have "no_carveout demo_device both_kernel" using m by (simp add: no_carveout_def both_kernel_def)
  ultimately have lim: "cuda_only_limits demo_device both_kernel [32, 2] 2" "no_carveout demo_device both_kernel" by simp_all
  have "set_all hip_set both_settings hip_new_args = ([Inr (), Inr (), Inl UR_RESULT_ERROR_INVALID_ARGUMENT, Inr ()], hArgs (as_hip_kernel both_kernel)) \<and>
   hip_setKernelParams demo_driver (as_hip_device demo_device) 2 (Some [7, 0]) [96, 4] (Some [32, 2]) [32, 1, 1] [1, 1, 1] (as_hip_kernel both_kernel) =
     apsnd as_hip_kernel (setKernelParams demo_driver demo_device 2 (Some [7, 0]) [96, 4] (Some [32, 2]) [32, 1, 1] both_kernel)"
    by (rule hip_agrees_with_cuda[OF s]) (simp_all add: lim upt_rec)
  then show ?thesis by simp
qed

section \<open>Where the adapters differ\<close>

text \<open>A local size of zero is an error of the CUDA adapter and a division by zero of the HIP adapter.\<close>

lemma hip_zero_local_size:
  assumes "0 < d" "l ! 0 = 0" "ReqdThreadsPerBlock k ! 0 = 0"
  shows "setKernelParams drv dev d off G (Some l) T k = (Failed UR_RESULT_ERROR_INVALID_WORK_GROUP_SIZE, k)"
    "hip_setKernelParams drv (as_hip_device dev) d off G (Some l) T B (as_hip_kernel k) = (Undefined, as_hip_kernel k)"
  using assms by (auto simp: setKernelParams_def hip_setKernelParams_def given_sizes_def upt_rec word_le_nat_alt word_less_nat_alt)

end
