(* ===== verification/Native_Cpu_Args.thy ===== *)
theory Native_Cpu_Args
  imports UR_Adapter_Common
begin

text \<open>
  The arguments of a kernel of the native CPU adapter (adapters/native_cpu/kernel.hpp). A value is copied into a block of the adapter, a pointer of the
  application is kept as it is, and an argument in local memory becomes a place in a pool that has a part for each thread. The heap is a
  map from blocks to their bytes, as long as they were allocated; freeing what is not a block of the adapter, and copying where there is no room, are undefined
  and give \<open>None\<close>. Allocations succeed.
\<close>

section \<open>Memory\<close>

text \<open>Pointers: null, into the memory of the application, a block of the adapter, or a place in the pool for local memory.\<close>

datatype host_ptr = P_Null | P_App nat | P_Block nat | P_Local u64

record host_mem =
  blocks :: "nat \<rightharpoonup> u8 list"
  app_mem :: "nat \<rightharpoonup> u8 list"
  next_block :: nat

text \<open>The alignment is halved until it is not larger than the size, and the size is rounded up to a multiple of it.\<close>

function malloc_alignment :: "nat \<Rightarrow> nat \<Rightarrow> nat" where
  "malloc_alignment alignment sz = (if alignment > sz then malloc_alignment (alignment div 2) sz else alignment)"
  by pat_completeness auto
termination
  by (relation "measure fst") auto

declare malloc_alignment.simps [simp del]

definition malloc_size :: "nat \<Rightarrow> nat" where
  "malloc_size sz = (let alignment = malloc_alignment 128 sz in (sz + alignment - 1) div alignment * alignment)"

definition aligned_malloc :: "nat \<Rightarrow> host_mem \<Rightarrow> host_ptr \<times> host_mem" where
  "aligned_malloc Size h = (P_Block (next_block h), h\<lparr>blocks := (blocks h)(next_block h \<mapsto> replicate (malloc_size Size) 0), next_block := next_block h + 1\<rparr>)"

definition aligned_free :: "host_ptr \<Rightarrow> host_mem \<Rightarrow> host_mem option" where
  "aligned_free p h =
     (case p of
        P_Null \<Rightarrow> Some h
      | P_Block b \<Rightarrow> if blocks h b = None then None else Some (h\<lparr>blocks := (blocks h)(b := None)\<rparr>)
      | _ \<Rightarrow> None)"

definition put_bytes :: "'a list \<Rightarrow> 'a list option \<Rightarrow> 'a list option" where
  "put_bytes bs m = (case m of Some old \<Rightarrow> if length bs \<le> length old then Some (bs @ drop (length bs) old) else None | None \<Rightarrow> None)"

definition memcpy_host :: "host_ptr \<Rightarrow> u8 list \<Rightarrow> host_mem \<Rightarrow> host_mem option" where
  "memcpy_host p bs h =
     (case p of
        P_Block b \<Rightarrow> map_option (\<lambda>m. h\<lparr>blocks := (blocks h)(b \<mapsto> m)\<rparr>) (put_bytes bs (blocks h b))
      | P_App a \<Rightarrow> map_option (\<lambda>m. h\<lparr>app_mem := (app_mem h)(a \<mapsto> m)\<rparr>) (put_bytes bs (app_mem h a))
      | _ \<Rightarrow> None)"

definition read_host :: "host_ptr \<Rightarrow> nat \<Rightarrow> host_mem \<Rightarrow> u8 list option" where
  "read_host p n h =
     (case (case p of P_Block b \<Rightarrow> blocks h b | P_App a \<Rightarrow> app_mem h a | _ \<Rightarrow> None) of
        Some m \<Rightarrow> if n \<le> length m then Some (take n m) else None
      | None \<Rightarrow> None)"

section \<open>Arguments\<close>

record ncpu_args =
  Indices :: "host_ptr list"
  ParamSizes :: "nat list"
  OwnsMem :: "bool list"

definition no_args :: ncpu_args where
  "no_args = \<lparr>Indices = [], ParamSizes = [], OwnsMem = []\<rparr>"

definition vec_resize :: "nat \<Rightarrow> 'a \<Rightarrow> 'a list \<Rightarrow> 'a list" where
  "vec_resize n d xs = xs @ replicate (n - length xs) d"

definition args_resize :: "nat \<Rightarrow> ncpu_args \<Rightarrow> ncpu_args" where
  "args_resize n a = \<lparr>Indices = vec_resize n P_Null (Indices a), ParamSizes = vec_resize n 0 (ParamSizes a), OwnsMem = vec_resize n False (OwnsMem a)\<rparr>"

definition args_addArg :: "nat \<Rightarrow> u8 list \<Rightarrow> ncpu_args \<times> host_mem \<Rightarrow> (ncpu_args \<times> host_mem) option" where
  "args_addArg Index Arg s =
     (case s of (a, h) \<Rightarrow>
        let Size = length Arg; grows = Index + 1 > length (Indices a); a1 = (if grows then args_resize (Index + 1) a else a);
            owned = (\<not> grows \<and> OwnsMem a ! Index); NeedAlloc = (\<not> (owned \<and> ParamSizes a ! Index = Size))
        in case (if owned \<and> NeedAlloc then aligned_free (Indices a ! Index) h else Some h) of
             None \<Rightarrow> None
           | Some h1 \<Rightarrow>
               (if NeedAlloc then
                  case aligned_malloc Size h1 of (p, h2) \<Rightarrow>
                    map_option (Pair (a1\<lparr>Indices := (Indices a1)[Index := p], ParamSizes := (ParamSizes a1)[Index := Size], OwnsMem := (OwnsMem a1)[Index := True]\<rparr>))
                      (memcpy_host p Arg h2)
                else map_option (Pair a1) (memcpy_host (Indices a1 ! Index) Arg h1)))"

definition args_addPtrArg :: "nat \<Rightarrow> host_ptr \<Rightarrow> ncpu_args \<Rightarrow> ncpu_args" where
  "args_addPtrArg Index Arg a =
     (if Index + 1 > length (Indices a) then
        let a1 = args_resize (Index + 1) a
        in a1\<lparr>Indices := (Indices a1)[Index := Arg], ParamSizes := (ParamSizes a1)[Index := 8], OwnsMem := (OwnsMem a1)[Index := False]\<rparr>
      else a\<lparr>Indices := (Indices a)[Index := Arg]\<rparr>)"

text \<open>The copy of the arguments, and their destruction.\<close>

fun copy_owned :: "bool list \<Rightarrow> nat list \<Rightarrow> ncpu_args \<times> host_mem \<Rightarrow> (ncpu_args \<times> host_mem) option" where
  "copy_owned OtherOwns [] s = Some s"
| "copy_owned OtherOwns (Index # ns) (a, h) =
     (if \<not> OtherOwns ! Index then copy_owned OtherOwns ns (a, h)
      else case read_host (Indices a ! Index) (ParamSizes a ! Index) h of
             None \<Rightarrow> None
           | Some bs \<Rightarrow> (case args_addArg Index bs (a, h) of None \<Rightarrow> None | Some s \<Rightarrow> copy_owned OtherOwns ns s))"

definition args_copy :: "ncpu_args \<Rightarrow> host_mem \<Rightarrow> (ncpu_args \<times> host_mem) option" where
  "args_copy Other h = copy_owned (OwnsMem Other) [0..<length (Indices Other)] (Other\<lparr>OwnsMem := replicate (length (OwnsMem Other)) False\<rparr>, h)"

fun free_owned :: "ncpu_args \<Rightarrow> nat list \<Rightarrow> host_mem \<Rightarrow> host_mem option" where
  "free_owned a [] h = Some h"
| "free_owned a (Index # ns) h =
     (if \<not> OwnsMem a ! Index then free_owned a ns h
      else case aligned_free (Indices a ! Index) h of None \<Rightarrow> None | Some h' \<Rightarrow> free_owned a ns h')"

definition args_destroy :: "ncpu_args \<Rightarrow> host_mem \<Rightarrow> host_mem option" where
  "args_destroy a h = free_owned a [0..<length (Indices a)] h"

section \<open>The kernel\<close>

record local_arg_info =
  argIndex :: nat
  argSize :: u64

record ncpu_kernel =
  Args :: ncpu_args
  localArgInfo :: "local_arg_info list"
  localMemPoolSize :: u64

definition kernel_addArg :: "u8 list \<Rightarrow> nat \<Rightarrow> ncpu_kernel \<times> host_mem \<Rightarrow> (ur_result \<times> ncpu_kernel \<times> host_mem) option" where
  "kernel_addArg Arg Index s =
     (case s of (k, h) \<Rightarrow>
        if Arg = [] then Some (UR_RESULT_ERROR_INVALID_KERNEL_ARGUMENT_SIZE, k, h)
        else map_option (\<lambda>(a, h'). (UR_RESULT_SUCCESS, k\<lparr>Args := a\<rparr>, h')) (args_addArg Index Arg (Args k, h)))"

definition kernel_addPtrArg :: "host_ptr \<Rightarrow> nat \<Rightarrow> ncpu_kernel \<Rightarrow> ur_result \<times> ncpu_kernel" where
  "kernel_addPtrArg Ptr Index k =
     (if Ptr = P_Null then (UR_RESULT_ERROR_INVALID_NULL_POINTER, k) else (UR_RESULT_SUCCESS, k\<lparr>Args := args_addPtrArg Index Ptr (Args k)\<rparr>))"

text \<open>A memory object is the place of its memory; the result for a null pointer is dropped.\<close>

definition addMemObjArg_ncpu :: "host_ptr option \<Rightarrow> nat \<Rightarrow> ncpu_kernel \<Rightarrow> ur_result \<times> ncpu_kernel" where
  "addMemObjArg_ncpu ArgValue Index k =
     (case ArgValue of
        None \<Rightarrow> (UR_RESULT_SUCCESS, snd (kernel_addPtrArg P_Null Index k))
      | Some mem \<Rightarrow> (UR_RESULT_SUCCESS, snd (kernel_addPtrArg mem Index k)))"

definition kernel_addLocalArg :: "nat \<Rightarrow> u64 \<Rightarrow> ncpu_kernel \<Rightarrow> ncpu_kernel" where
  "kernel_addLocalArg Index Size k =
     k\<lparr>Args := args_addPtrArg Index P_Null (Args k), localArgInfo := localArgInfo k @ [\<lparr>argIndex = Index, argSize = Size\<rparr>]\<rparr>"

definition reqSize :: "u64 \<Rightarrow> local_arg_info list \<Rightarrow> u64" where
  "reqSize numParallelThreads es = foldl (\<lambda>r entry. r + argSize entry * numParallelThreads) 0 es"

definition updateMemPool :: "u64 \<Rightarrow> ncpu_kernel \<Rightarrow> ncpu_kernel" where
  "updateMemPool numParallelThreads k =
     (let r = reqSize numParallelThreads (localArgInfo k) in if r = 0 \<or> r = localMemPoolSize k then k else k\<lparr>localMemPoolSize := r\<rparr>)"

fun local_places :: "u64 \<Rightarrow> u64 \<Rightarrow> u64 \<Rightarrow> local_arg_info list \<Rightarrow> host_ptr list \<Rightarrow> host_ptr list" where
  "local_places numThreads threadId offset [] Result = Result"
| "local_places numThreads threadId offset (entry # es) Result =
     local_places numThreads threadId (offset + argSize entry * numThreads) es (Result[argIndex entry := P_Local (offset + argSize entry * threadId)])"

definition getArgs :: "u64 \<Rightarrow> u64 \<Rightarrow> ncpu_kernel \<Rightarrow> host_ptr list" where
  "getArgs numThreads threadId k = local_places numThreads threadId 0 (localArgInfo k) (Indices (Args k))"

end
