(* ===== verification/Native_Cpu_Args_Props.thy ===== *)
theory Native_Cpu_Args_Props
  imports Native_Cpu_Args
begin

text \<open>
  The arguments of a kernel of the native CPU adapter, continued: who owns which block, what the kernel reads, the copy that a launch makes,
  the parts of the pool for local memory, and the sequences of calls for which the code goes wrong.
\<close>

section \<open>Ownership\<close>

abbreviation nargs :: "ncpu_args \<Rightarrow> nat" where
  "nargs a \<equiv> length (Indices a)"

definition own :: "ncpu_args \<Rightarrow> nat set" where
  "own a = {b. \<exists>i < nargs a. OwnsMem a ! i \<and> Indices a ! i = P_Block b}"

definition args_wf :: "ncpu_args \<Rightarrow> host_mem \<Rightarrow> bool" where
  "args_wf a h \<longleftrightarrow> length (ParamSizes a) = nargs a \<and> length (OwnsMem a) = nargs a \<and>
     (\<forall>i < nargs a. OwnsMem a ! i \<longrightarrow> (\<exists>b bs. Indices a ! i = P_Block b \<and> blocks h b = Some bs \<and> ParamSizes a ! i \<le> length bs)) \<and>
     (\<forall>i < nargs a. \<forall>j < nargs a. OwnsMem a ! i \<and> OwnsMem a ! j \<and> Indices a ! i = Indices a ! j \<longrightarrow> i = j)"

definition heap_ok :: "host_mem \<Rightarrow> bool" where
  "heap_ok h \<longleftrightarrow> (\<forall>b. blocks h b \<noteq> None \<longrightarrow> b < next_block h)"

text \<open>The blocks of others.\<close>

definition rest :: "ncpu_args \<Rightarrow> host_mem \<Rightarrow> nat \<rightharpoonup> u8 list" where
  "rest a h = blocks h |` (- own a)"

text \<open>What the kernel finds at an index.\<close>

datatype arg_meaning = Value "u8 list" | Pointer host_ptr | Broken

definition block_value :: "host_ptr \<Rightarrow> nat \<Rightarrow> host_mem \<Rightarrow> arg_meaning" where
  "block_value p n h = (case p of P_Block b \<Rightarrow> (case blocks h b of Some bs \<Rightarrow> Value (take n bs) | None \<Rightarrow> Broken) | _ \<Rightarrow> Broken)"

definition meaning :: "ncpu_args \<Rightarrow> host_mem \<Rightarrow> nat \<Rightarrow> arg_meaning" where
  "meaning a h i = (if OwnsMem a ! i then block_value (Indices a ! i) (ParamSizes a ! i) h else Pointer (Indices a ! i))"

lemma vec_resize_nth: "i < max n (length xs) \<Longrightarrow> vec_resize n d xs ! i = (if i < length xs then xs ! i else d)"
  by (simp add: vec_resize_def nth_append)

lemma length_vec_resize [simp]: "length (vec_resize n d xs) = max n (length xs)"
  by (simp add: vec_resize_def)

lemma args_wfD:
  assumes "args_wf a h"
  shows "length (ParamSizes a) = nargs a" "length (OwnsMem a) = nargs a"
    "i < nargs a \<Longrightarrow> OwnsMem a ! i \<Longrightarrow> \<exists>b bs. Indices a ! i = P_Block b \<and> blocks h b = Some bs \<and> ParamSizes a ! i \<le> length bs"
    "i < nargs a \<Longrightarrow> j < nargs a \<Longrightarrow> OwnsMem a ! i \<Longrightarrow> OwnsMem a ! j \<Longrightarrow> Indices a ! i = Indices a ! j \<Longrightarrow> i = j"
  using assms unfolding args_wf_def by blast+

lemma own_blocks: "args_wf a h \<Longrightarrow> b \<in> own a \<Longrightarrow> blocks h b \<noteq> None"
  unfolding own_def args_wf_def by fastforce

text \<open>Growing the vectors changes nothing that is there.\<close>

lemma resize_fields:
  "Indices (args_resize n a) = vec_resize n P_Null (Indices a)" "ParamSizes (args_resize n a) = vec_resize n 0 (ParamSizes a)"
  "OwnsMem (args_resize n a) = vec_resize n False (OwnsMem a)"
  by (simp_all add: args_resize_def)

lemma resize_owned:
  assumes "args_wf a h" "i < max n (nargs a)"
  shows "OwnsMem (args_resize n a) ! i \<longleftrightarrow> i < nargs a \<and> OwnsMem a ! i" "i < nargs a \<Longrightarrow> Indices (args_resize n a) ! i = Indices a ! i"
    "i < nargs a \<Longrightarrow> ParamSizes (args_resize n a) ! i = ParamSizes a ! i"
  using assms args_wfD(1,2)[OF assms(1)] by (simp_all add: resize_fields vec_resize_nth)

lemma resize_wf:
  assumes wf: "args_wf a h"
  shows "args_wf (args_resize n a) h" "own (args_resize n a) = own a" "nargs (args_resize n a) = max n (nargs a)"
    "i < nargs a \<Longrightarrow> meaning (args_resize n a) h i = meaning a h i"
proof -
  let ?a = "args_resize n a"
  note r = resize_owned[OF wf]
  show l: "nargs ?a = max n (nargs a)" by (simp add: resize_fields)
  have o: "OwnsMem ?a ! i \<longleftrightarrow> i < nargs a \<and> OwnsMem a ! i" if "i < nargs ?a" for i using r(1)[of i n] that l by simp
  have x: "Indices ?a ! i = Indices a ! i" "ParamSizes ?a ! i = ParamSizes a ! i" if "i < nargs a" for i using r(2,3)[of i n] that by simp_all
  have "(i < nargs ?a \<and> OwnsMem ?a ! i \<and> Indices ?a ! i = P_Block b) = (i < nargs a \<and> OwnsMem a ! i \<and> Indices a ! i = P_Block b)" for i b
    using o[of i] x(1)[of i] l by auto
  then show "own ?a = own a" unfolding own_def by presburger
  have 1: "\<exists>b bs. Indices ?a ! i = P_Block b \<and> blocks h b = Some bs \<and> ParamSizes ?a ! i \<le> length bs" if "i < nargs ?a" "OwnsMem ?a ! i" for i
    using o[OF that(1)] that(2) x[of i] args_wfD(3)[OF wf, of i] by simp
  have 2: "i = j" if "i < nargs ?a" "j < nargs ?a" "OwnsMem ?a ! i" "OwnsMem ?a ! j" "Indices ?a ! i = Indices ?a ! j" for i j
    using o[OF that(1)] o[OF that(2)] that(3-5) x[of i] x[of j] args_wfD(4)[OF wf, of i j] by simp
  have 3: "length (ParamSizes ?a) = nargs ?a" "length (OwnsMem ?a) = nargs ?a" using args_wfD(1,2)[OF wf] by (simp_all add: resize_fields)
  show "args_wf ?a h" unfolding args_wf_def using 1 2 3 by blast
  show "i < nargs a \<Longrightarrow> meaning ?a h i = meaning a h i" using o[of i] x[of i] l by (simp add: meaning_def)
qed

text \<open>Writing an owned block.\<close>

lemma put_own:
  assumes wf: "args_wf a h" and i: "i < nargs a" and o: "OwnsMem a ! i" and p: "Indices a ! i = P_Block b" and l: "ParamSizes a ! i \<le> length bs"
  defines "h' \<equiv> h\<lparr>blocks := (blocks h)(b \<mapsto> bs)\<rparr>"
  shows "args_wf a h'" "rest a h' = rest a h" "meaning a h' i = Value (take (ParamSizes a ! i) bs)" "j < nargs a \<Longrightarrow> j \<noteq> i \<Longrightarrow> meaning a h' j = meaning a h j"
proof -
  have "\<exists>c cs. Indices a ! j = P_Block c \<and> blocks h' c = Some cs \<and> ParamSizes a ! j \<le> length cs" if "j < nargs a" "OwnsMem a ! j" for j
    using args_wfD(3)[OF wf that] args_wfD(4)[OF wf that(1) i that(2) o] p l by (cases "j = i") (auto simp: h'_def)
  then show "args_wf a h'" unfolding args_wf_def using args_wfD(1,2,4)[OF wf] by blast
  have "b \<in> own a" using i o p by (auto simp: own_def)
  then show "rest a h' = rest a h" by (auto simp: rest_def h'_def restrict_map_def fun_eq_iff)
  show "meaning a h' i = Value (take (ParamSizes a ! i) bs)" using o p by (simp add: meaning_def block_value_def h'_def)
  show "meaning a h' j = meaning a h j" if "j < nargs a" "j \<noteq> i"
    using args_wfD(4)[OF wf that(1) i _ o] that(2) p by (auto simp: meaning_def block_value_def h'_def split: host_ptr.split)
qed

text \<open>A new block for an index without one.\<close>

lemma new_own:
  fixes bs :: "u8 list"
  assumes wf: "args_wf a h" and ok: "heap_ok h" and i: "i < nargs a" and o: "\<not> OwnsMem a ! i" and sz: "sz \<le> length bs"
  defines "a' \<equiv> a\<lparr>Indices := (Indices a)[i := P_Block (next_block h)], ParamSizes := (ParamSizes a)[i := sz], OwnsMem := (OwnsMem a)[i := True]\<rparr>"
    and "h' \<equiv> h\<lparr>blocks := (blocks h)(next_block h \<mapsto> bs), next_block := next_block h + 1\<rparr>"
  shows "args_wf a' h'" "heap_ok h'" "rest a' h' = rest a h" "meaning a' h' i = Value (take sz bs)" "j < nargs a \<Longrightarrow> j \<noteq> i \<Longrightarrow> meaning a' h' j = meaning a h j"
proof -
  note l = args_wfD(1,2)[OF wf]
  let ?n = "next_block h"
  have fresh: "blocks h ?n = None" using ok unfolding heap_ok_def by fastforce
  have nb: "Indices a ! j \<noteq> P_Block ?n" if "j < nargs a" "OwnsMem a ! j" for j using args_wfD(3)[OF wf that] fresh by auto
  have n: "nargs a' = nargs a" "OwnsMem a' ! j = (j = i \<or> OwnsMem a ! j)" "Indices a' ! j = (if j = i then P_Block ?n else Indices a ! j)"
    "ParamSizes a' ! j = (if j = i then sz else ParamSizes a ! j)" if "j < nargs a" for j
    using that l i by (simp_all add: a'_def nth_list_update)
  have 1: "\<exists>b cs. Indices a' ! j = P_Block b \<and> blocks h' b = Some cs \<and> ParamSizes a' ! j \<le> length cs" if "j < nargs a" "OwnsMem a' ! j" for j
    using that n[OF that(1)] nb[OF that(1)] args_wfD(3)[OF wf that(1)] sz by (cases "j = i") (auto simp: h'_def)
  have 2: "j = k" if "j < nargs a" "k < nargs a" "OwnsMem a' ! j" "OwnsMem a' ! k" "Indices a' ! j = Indices a' ! k" for j k
    using that n[OF that(1)] n[OF that(2)] nb[OF that(1)] nb[OF that(2)] args_wfD(4)[OF wf that(1,2)] by (auto split: if_splits)
  have "nargs a' = nargs a" "length (ParamSizes a') = nargs a'" "length (OwnsMem a') = nargs a'" using l by (simp_all add: a'_def)
  then show "args_wf a' h'" unfolding args_wf_def using 1 2 by presburger
  show "heap_ok h'" using ok by (auto simp: heap_ok_def h'_def less_Suc_eq)
  have "b \<in> own a' \<longleftrightarrow> b = ?n \<or> b \<in> own a" for b
  proof
    assume "b \<in> own a'"
    then obtain j where "j < nargs a" "OwnsMem a' ! j" "Indices a' ! j = P_Block b" by (auto simp: own_def a'_def)
    then show "b = ?n \<or> b \<in> own a" using n[of j] by (auto simp: own_def split: if_splits)
  next
    assume "b = ?n \<or> b \<in> own a"
    then show "b \<in> own a'"
    proof
      assume "b = ?n"
      then show ?thesis using n[OF i] i by (auto simp: own_def)
    next
      assume "b \<in> own a"
      then obtain j where "j < nargs a" "OwnsMem a ! j" "Indices a ! j = P_Block b" by (auto simp: own_def)
      then show ?thesis using n[of j] o by (auto simp: own_def)
    qed
  qed
  then show "rest a' h' = rest a h" using fresh by (auto simp: rest_def h'_def restrict_map_def fun_eq_iff)
  show "meaning a' h' i = Value (take sz bs)" using n[OF i] by (simp add: meaning_def block_value_def h'_def)
  show "meaning a' h' j = meaning a h j" if "j < nargs a" "j \<noteq> i"
    using n[OF that(1)] that nb[OF that(1)] by (auto simp: meaning_def block_value_def h'_def split: host_ptr.split)
qed

text \<open>Giving a block up.\<close>

lemma drop_own:
  assumes wf: "args_wf a h" and i: "i < nargs a" and o: "OwnsMem a ! i" and p: "Indices a ! i = P_Block b"
  defines "a' \<equiv> a\<lparr>OwnsMem := (OwnsMem a)[i := False]\<rparr>" and "h' \<equiv> h\<lparr>blocks := (blocks h)(b := None)\<rparr>"
  shows "args_wf a' h'" "rest a' h' = rest a h" "j < nargs a \<Longrightarrow> j \<noteq> i \<Longrightarrow> meaning a' h' j = meaning a h j"
proof -
  note l = args_wfD(1,2)[OF wf]
  have n: "OwnsMem a' ! j = (j \<noteq> i \<and> OwnsMem a ! j)" if "j < nargs a" for j using that l i by (simp add: a'_def nth_list_update)
  have nb: "Indices a ! j \<noteq> P_Block b" if "j < nargs a" "j \<noteq> i" "OwnsMem a ! j" for j using args_wfD(4)[OF wf that(1) i that(3) o] that(2) p by auto
  have 1: "\<exists>c cs. Indices a ! j = P_Block c \<and> blocks h' c = Some cs \<and> ParamSizes a ! j \<le> length cs" if "j < nargs a" "OwnsMem a' ! j" for j
  proof -
    have "j \<noteq> i" "OwnsMem a ! j" using n[OF that(1)] that(2) by simp_all
    then show ?thesis using args_wfD(3)[OF wf that(1)] nb[OF that(1)] by (auto simp: h'_def)
  qed
  have 2: "j = k" if "j < nargs a" "k < nargs a" "OwnsMem a' ! j" "OwnsMem a' ! k" "Indices a ! j = Indices a ! k" for j k
    using that n[OF that(1)] n[OF that(2)] args_wfD(4)[OF wf that(1,2)] by simp
  have f: "Indices a' = Indices a" "ParamSizes a' = ParamSizes a" "length (OwnsMem a') = nargs a" using l by (simp_all add: a'_def)
  show "args_wf a' h'" unfolding args_wf_def f using 1 2 l by blast
  have "c \<in> own a' \<longleftrightarrow> c \<noteq> b \<and> c \<in> own a" for c
  proof -
    have "(j < nargs a \<and> OwnsMem a' ! j \<and> Indices a ! j = P_Block c) = (j < nargs a \<and> OwnsMem a ! j \<and> Indices a ! j = P_Block c \<and> c \<noteq> b)" for j
      using n[of j] nb[of j] p by auto
    then show ?thesis unfolding own_def f by auto
  qed
  moreover have "b \<in> own a" using i o p by (auto simp: own_def)
  ultimately show "rest a' h' = rest a h" by (auto simp: rest_def h'_def restrict_map_def fun_eq_iff)
  show "meaning a' h' j = meaning a h j" if "j < nargs a" "j \<noteq> i"
    using n[OF that(1)] that nb[OF that] by (auto simp: meaning_def block_value_def f h'_def split: host_ptr.split)
qed

section \<open>Setting arguments\<close>

text \<open>What setting a value at an index promises.\<close>

definition value_set :: "ncpu_args \<Rightarrow> host_mem \<Rightarrow> nat \<Rightarrow> u8 list \<Rightarrow> ncpu_args \<Rightarrow> host_mem \<Rightarrow> bool" where
  "value_set a h i bs a' h' \<longleftrightarrow> args_wf a' h' \<and> heap_ok h' \<and> rest a' h' = rest a h \<and> app_mem h' = app_mem h \<and> nargs a' = max (i + 1) (nargs a) \<and>
     meaning a' h' i = Value bs \<and> OwnsMem a' ! i \<and>
     (\<forall>j < nargs a'. j \<noteq> i \<longrightarrow> (OwnsMem a' ! j \<longleftrightarrow> j < nargs a \<and> OwnsMem a ! j)) \<and>
     (\<forall>j < nargs a. j \<noteq> i \<longrightarrow> meaning a' h' j = meaning a h j \<and> Indices a' ! j = Indices a ! j \<and> ParamSizes a' ! j = ParamSizes a ! j)"

lemma malloc_alignment_pos: "1 \<le> sz \<Longrightarrow> 1 \<le> a \<Longrightarrow> 1 \<le> malloc_alignment a sz"
proof (induction a sz rule: malloc_alignment.induct)
  case (1 a sz)
  then show ?case by (subst malloc_alignment.simps) (auto simp: Suc_le_eq div_greater_zero_iff)
qed

lemma malloc_size_enough: "sz \<le> malloc_size sz"
proof (cases "sz = 0")
  case False
  let ?a = "malloc_alignment 128 sz"
  have a: "0 < ?a" using False malloc_alignment_pos[of sz 128] by simp
  have "?a * ((sz + ?a - 1) div ?a) + (sz + ?a - 1) mod ?a = sz + ?a - 1" by simp
  moreover have "(sz + ?a - 1) mod ?a < ?a" using a by simp
  ultimately have "sz + ?a - 1 < ?a * ((sz + ?a - 1) div ?a) + ?a" by linarith
  then show ?thesis using a by (simp add: malloc_size_def Let_def mult.commute)
qed simp

text \<open>The bytes of a new block: those that are copied, and what is left of the block.\<close>

definition fresh_bytes :: "u8 list \<Rightarrow> u8 list" where
  "fresh_bytes bs = bs @ drop (length bs) (replicate (malloc_size (length bs)) 0)"

lemma fresh_bytes [simp]: "take (length bs) (fresh_bytes bs) = bs" "length bs \<le> length (fresh_bytes bs)"
  by (simp_all add: fresh_bytes_def)

lemma malloc_copy:
  "(case aligned_malloc (length bs) h of (p, h2) \<Rightarrow> map_option (Pair (f p)) (memcpy_host p bs h2)) =
   Some (f (P_Block (next_block h)), h\<lparr>blocks := (blocks h)(next_block h \<mapsto> fresh_bytes bs), next_block := next_block h + 1\<rparr>)"
  by (simp add: aligned_malloc_def memcpy_host_def put_bytes_def malloc_size_enough fresh_bytes_def)

lemma new_value_set:
  assumes wf: "args_wf a h" and ok: "heap_ok h" and i: "i < nargs a" and o: "\<not> OwnsMem a ! i"
  shows "value_set a h i bs (a\<lparr>Indices := (Indices a)[i := P_Block (next_block h)], ParamSizes := (ParamSizes a)[i := length bs], OwnsMem := (OwnsMem a)[i := True]\<rparr>)
    (h\<lparr>blocks := (blocks h)(next_block h \<mapsto> fresh_bytes bs), next_block := next_block h + 1\<rparr>)"
  using new_own[OF wf ok i o fresh_bytes(2)[of bs]] args_wfD(1,2)[OF wf] i by (simp add: value_set_def nth_list_update)

lemma ncpu_addArg_ok:
  assumes wf: "args_wf a h" and ok: "heap_ok h"
  shows "\<exists>a' h'. args_addArg i bs (a, h) = Some (a', h') \<and> value_set a h i bs a' h'"
proof (cases "i < nargs a")
  case False
  let ?a = "args_resize (i + 1) a"
  note r = resize_wf[OF wf, where n = "i + 1"]
  have i: "i < nargs ?a" using r(3) by simp
  have o: "OwnsMem ?a ! j \<longleftrightarrow> j < nargs a \<and> OwnsMem a ! j" if "j < nargs ?a" for j using resize_owned(1)[OF wf, of j "i + 1"] that r(3) by simp
  have x: "Indices ?a ! j = Indices a ! j" "ParamSizes ?a ! j = ParamSizes a ! j" if "j < nargs a" for j
    using resize_owned(2,3)[OF wf, of j "i + 1"] that by simp_all
  have n: "\<not> OwnsMem ?a ! i" using o[OF i] False by simp
  have e: "args_addArg i bs (a, h) = Some (?a\<lparr>Indices := (Indices ?a)[i := P_Block (next_block h)], ParamSizes := (ParamSizes ?a)[i := length bs], OwnsMem := (OwnsMem ?a)[i := True]\<rparr>,
    h\<lparr>blocks := (blocks h)(next_block h \<mapsto> fresh_bytes bs), next_block := next_block h + 1\<rparr>)"
    using False malloc_copy by (simp add: args_addArg_def Let_def)
  show ?thesis using new_value_set[OF r(1) ok i n, of bs] e r(2,3,4) o x False by (simp add: value_set_def rest_def)
next
  case True
  show ?thesis
  proof (cases "OwnsMem a ! i")
    case False
    then have "args_addArg i bs (a, h) = Some (a\<lparr>Indices := (Indices a)[i := P_Block (next_block h)], ParamSizes := (ParamSizes a)[i := length bs], OwnsMem := (OwnsMem a)[i := True]\<rparr>,
      h\<lparr>blocks := (blocks h)(next_block h \<mapsto> fresh_bytes bs), next_block := next_block h + 1\<rparr>)"
      using True malloc_copy by (simp add: args_addArg_def Let_def)
    then show ?thesis using new_value_set[OF wf ok True False, of bs] by blast
  next
    case o: True
    obtain b cs where b: "Indices a ! i = P_Block b" "blocks h b = Some cs" "ParamSizes a ! i \<le> length cs" using args_wfD(3)[OF wf True o] by blast
    show ?thesis
    proof (cases "ParamSizes a ! i = length bs")
      case same: True
      let ?cs = "bs @ drop (length bs) cs"
      have "args_addArg i bs (a, h) = Some (a, h\<lparr>blocks := (blocks h)(b \<mapsto> ?cs)\<rparr>)"
        using True o b same by (simp add: args_addArg_def Let_def memcpy_host_def put_bytes_def)
      moreover have "heap_ok (h\<lparr>blocks := (blocks h)(b \<mapsto> ?cs)\<rparr>)" using ok b(2) by (auto simp: heap_ok_def)
      moreover have "ParamSizes a ! i \<le> length ?cs" using same by simp
      note put = put_own[OF wf True o b(1) this]
      ultimately show ?thesis using put o True same by (simp add: value_set_def)
    next
      case other: False
      let ?a = "a\<lparr>OwnsMem := (OwnsMem a)[i := False]\<rparr>" and ?h = "h\<lparr>blocks := (blocks h)(b := None)\<rparr>"
      note d = drop_own[OF wf True o b(1)]
      have ok': "heap_ok ?h" using ok by (auto simp: heap_ok_def)
      have n: "\<not> OwnsMem ?a ! i" "i < nargs ?a" using True args_wfD(2)[OF wf] by simp_all
      have "args_addArg i bs (a, h) = Some (?a\<lparr>Indices := (Indices ?a)[i := P_Block (next_block ?h)], ParamSizes := (ParamSizes ?a)[i := length bs], OwnsMem := (OwnsMem ?a)[i := True]\<rparr>,
        ?h\<lparr>blocks := (blocks ?h)(next_block ?h \<mapsto> fresh_bytes bs), next_block := next_block ?h + 1\<rparr>)"
        using True o b other malloc_copy[where bs = bs and h = ?h] by (simp add: args_addArg_def Let_def aligned_free_def)
      then show ?thesis using new_value_set[OF d(1) ok' n(2,1), of bs] d(2,3) True args_wfD(2)[OF wf] by (simp add: value_set_def nth_list_update)
    qed
  qed
qed

text \<open>Setting a pointer at an index that has no block.\<close>

lemma addPtrArg_ok:
  fixes p :: host_ptr
  assumes wf: "args_wf a h" and o: "i < nargs a \<Longrightarrow> \<not> OwnsMem a ! i"
  defines "a' \<equiv> args_addPtrArg i p a"
  shows "args_wf a' h" "rest a' h = rest a h" "nargs a' = max (i + 1) (nargs a)" "meaning a' h i = Pointer p"
    "j < nargs a' \<Longrightarrow> OwnsMem a' ! j \<longleftrightarrow> j < nargs a \<and> OwnsMem a ! j" "j < nargs a \<Longrightarrow> j \<noteq> i \<Longrightarrow> meaning a' h j = meaning a h j"
proof -
  define b where "b = (if i + 1 > nargs a then args_resize (i + 1) a else a)"
  have b: "args_wf b h" "own b = own a" "nargs b = max (i + 1) (nargs a)" "\<And>j. j < nargs a \<Longrightarrow> meaning b h j = meaning a h j"
    "\<And>j. j < nargs b \<Longrightarrow> OwnsMem b ! j \<longleftrightarrow> j < nargs a \<and> OwnsMem a ! j"
    using resize_wf[OF wf, where n = "i + 1"] wf resize_owned(1)[OF wf, where n = "i + 1"] by (auto simp: b_def)
  have i: "i < nargs b" "\<not> OwnsMem b ! i" using b(3,5) o by auto
  note l = args_wfD(1,2)[OF b(1)]
  have f: "Indices a' = (Indices b)[i := p]" "length (ParamSizes a') = nargs b" "OwnsMem a' = OwnsMem b" "\<And>j. j \<noteq> i \<Longrightarrow> ParamSizes a' ! j = ParamSizes b ! j"
    using l i(2) list_update_id[of "OwnsMem b" i] by (auto simp: a'_def args_addPtrArg_def b_def Let_def)
  have ne: "j \<noteq> i" if "OwnsMem b ! j" for j using that i(2) by blast
  have 1: "\<exists>c cs. Indices a' ! j = P_Block c \<and> blocks h c = Some cs \<and> ParamSizes a' ! j \<le> length cs" if "j < nargs b" "OwnsMem b ! j" for j
    using args_wfD(3)[OF b(1) that] ne[OF that(2)] f by simp
  have 2: "j = k" if "j < nargs b" "k < nargs b" "OwnsMem b ! j" "OwnsMem b ! k" "Indices a' ! j = Indices a' ! k" for j k
    using args_wfD(4)[OF b(1) that(1-4)] that(5) ne[OF that(3)] ne[OF that(4)] f by simp
  have n: "nargs a' = nargs b" using f(1) by simp
  show "args_wf a' h" unfolding args_wf_def n f(2,3) using 1 2 l by blast
  have "(j < nargs a' \<and> OwnsMem a' ! j \<and> Indices a' ! j = P_Block c) = (j < nargs b \<and> OwnsMem b ! j \<and> Indices b ! j = P_Block c)" for j c
    using ne[of j] f n by auto
  then have "own a' = own b" unfolding own_def by presburger
  then show "rest a' h = rest a h" using b(2) by (simp add: rest_def)
  show "nargs a' = max (i + 1) (nargs a)" using n b(3) by simp
  show "meaning a' h i = Pointer p" using i f by (simp add: meaning_def)
  show "j < nargs a' \<Longrightarrow> OwnsMem a' ! j \<longleftrightarrow> j < nargs a \<and> OwnsMem a ! j" using b(5) f(3) n by simp
  have "j \<noteq> i \<Longrightarrow> meaning a' h j = meaning b h j" using f by (simp add: meaning_def)
  then show "j < nargs a \<Longrightarrow> j \<noteq> i \<Longrightarrow> meaning a' h j = meaning a h j" using b(4)[of j] by simp
qed

section \<open>Destruction and copies\<close>

definition owned_of :: "ncpu_args \<Rightarrow> nat list \<Rightarrow> nat set" where
  "owned_of a ns = {b. \<exists>i \<in> set ns. OwnsMem a ! i \<and> Indices a ! i = P_Block b}"

lemma free_owned_ok:
  assumes "distinct ns" "\<forall>i \<in> set ns. OwnsMem a ! i \<longrightarrow> (\<exists>b. Indices a ! i = P_Block b \<and> blocks h b \<noteq> None)"
    "\<forall>i \<in> set ns. \<forall>j \<in> set ns. OwnsMem a ! i \<and> OwnsMem a ! j \<and> Indices a ! i = Indices a ! j \<longrightarrow> i = j"
  shows "\<exists>h'. free_owned a ns h = Some h' \<and> blocks h' = blocks h |` (- owned_of a ns) \<and> app_mem h' = app_mem h \<and> next_block h' = next_block h"
  using assms
proof (induction ns arbitrary: h)
  case (Cons i ns)
  have d: "distinct ns" and p3: "\<forall>i \<in> set ns. \<forall>j \<in> set ns. OwnsMem a ! i \<and> OwnsMem a ! j \<and> Indices a ! i = Indices a ! j \<longrightarrow> i = j"
    using Cons.prems(1,3) by simp_all
  show ?case
  proof (cases "OwnsMem a ! i")
    case False
    then have "owned_of a (i # ns) = owned_of a ns" by (auto simp: owned_of_def)
    then show ?thesis using Cons.IH[OF d _ p3, of h] Cons.prems(2) False by simp
  next
    case True
    then obtain b where b: "Indices a ! i = P_Block b" "blocks h b \<noteq> None" using Cons.prems(2) by auto
    let ?h = "h\<lparr>blocks := (blocks h)(b := None)\<rparr>"
    have f: "free_owned a (i # ns) h = free_owned a ns ?h" using True b by (auto simp: aligned_free_def)
    have other: "Indices a ! j \<noteq> P_Block b" if "j \<in> set ns" "OwnsMem a ! j" for j
      using Cons.prems(1,3) that True b(1) by (metis distinct.simps(2) list.set_intros(1,2))
    have p2: "\<forall>j \<in> set ns. OwnsMem a ! j \<longrightarrow> (\<exists>c. Indices a ! j = P_Block c \<and> blocks ?h c \<noteq> None)"
      using Cons.prems(2) other by fastforce
    obtain h' where h': "free_owned a ns ?h = Some h'" "blocks h' = blocks ?h |` (- owned_of a ns)" "app_mem h' = app_mem ?h" "next_block h' = next_block ?h"
      using Cons.IH[OF d p2 p3] by blast
    have "owned_of a (i # ns) = insert b (owned_of a ns)" using True b(1) by (auto simp: owned_of_def)
    then have "blocks h' = blocks h |` (- owned_of a (i # ns))" unfolding h'(2) by (auto simp: restrict_map_def fun_eq_iff)
    then show ?thesis using f h' by simp
  qed
qed (simp add: owned_of_def restrict_map_def fun_eq_iff)

lemma destroy_ok:
  assumes "args_wf a h"
  shows "\<exists>h'. args_destroy a h = Some h' \<and> blocks h' = rest a h \<and> app_mem h' = app_mem h \<and> next_block h' = next_block h"
proof -
  have 1: "\<forall>i \<in> set [0..<nargs a]. OwnsMem a ! i \<longrightarrow> (\<exists>b. Indices a ! i = P_Block b \<and> blocks h b \<noteq> None)"
    using args_wfD(3)[OF assms] by fastforce
  have 2: "\<forall>i \<in> set [0..<nargs a]. \<forall>j \<in> set [0..<nargs a]. OwnsMem a ! i \<and> OwnsMem a ! j \<and> Indices a ! i = Indices a ! j \<longrightarrow> i = j"
    using args_wfD(4)[OF assms] by simp
  have "owned_of a [0..<nargs a] = own a" by (auto simp: own_def owned_of_def)
  then show ?thesis using free_owned_ok[OF _ 1 2] by (simp add: args_destroy_def rest_def)
qed

text \<open>The arguments mean the same in a heap with the same owned blocks.\<close>

lemma same_blocks:
  assumes wf: "args_wf a h" and b: "\<And>b. b \<in> own a \<Longrightarrow> blocks h' b = blocks h b"
  shows "args_wf a h'" "i < nargs a \<Longrightarrow> meaning a h' i = meaning a h i" "own a \<subseteq> dom (blocks h')"
proof -
  have o: "\<exists>b bs. Indices a ! i = P_Block b \<and> blocks h b = Some bs \<and> blocks h' b = Some bs \<and> ParamSizes a ! i \<le> length bs"
    if i: "i < nargs a" "OwnsMem a ! i" for i
  proof -
    obtain c cs where c: "Indices a ! i = P_Block c" "blocks h c = Some cs" "ParamSizes a ! i \<le> length cs" using args_wfD(3)[OF wf i] by blast
    then have "c \<in> own a" using i by (auto simp: own_def)
    then show ?thesis using c b by auto
  qed
  show "args_wf a h'" unfolding args_wf_def using o args_wfD(1,2,4)[OF wf] by blast
  show "i < nargs a \<Longrightarrow> meaning a h' i = meaning a h i" using o[of i] by (auto simp: meaning_def block_value_def)
  show "own a \<subseteq> dom (blocks h')" using o by (fastforce simp: own_def)
qed

lemma copy_owned_ok:
  assumes wf: "args_wf a h" and "args_wf c g" "heap_ok g" "rest c g = blocks h" "app_mem g = app_mem h" "nargs c = nargs a" "distinct ns" "set ns \<subseteq> {..<nargs a}"
    "\<forall>i \<in> set ns. OwnsMem a ! i \<longrightarrow> \<not> OwnsMem c ! i \<and> Indices c ! i = Indices a ! i \<and> ParamSizes c ! i = ParamSizes a ! i"
  shows "\<exists>c' g'. copy_owned (OwnsMem a) ns (c, g) = Some (c', g') \<and> args_wf c' g' \<and> heap_ok g' \<and> rest c' g' = blocks h \<and> app_mem g' = app_mem h \<and> nargs c' = nargs a \<and>
    (\<forall>i < nargs a. meaning c' g' i = (if i \<in> set ns \<and> OwnsMem a ! i then meaning a h i else meaning c g i))"
  using assms(2-)
proof (induction ns arbitrary: c g)
  case (Cons i ns)
  show ?case
  proof (cases "OwnsMem a ! i")
    case False
    have e: "(if j \<in> set (i # ns) \<and> OwnsMem a ! j then x else y) = (if j \<in> set ns \<and> OwnsMem a ! j then x else y)" for j and x y :: arg_meaning using False by auto
    have "copy_owned (OwnsMem a) (i # ns) (c, g) = copy_owned (OwnsMem a) ns (c, g)" using False by simp
    then show ?thesis using Cons.IH[OF Cons.prems(1-5)] Cons.prems(6-8) unfolding e by simp
  next
    case o: True
    have i: "i < nargs a" "\<not> OwnsMem c ! i" "Indices c ! i = Indices a ! i" "ParamSizes c ! i = ParamSizes a ! i" using Cons.prems(7,8) o by auto
    obtain b bs where b: "Indices a ! i = P_Block b" "blocks h b = Some bs" "ParamSizes a ! i \<le> length bs" using args_wfD(3)[OF wf i(1) o] by blast
    let ?bs = "take (ParamSizes a ! i) bs"
    have m: "meaning a h i = Value ?bs" using o b by (simp add: meaning_def block_value_def)
    have "rest c g b = Some bs" using Cons.prems(3) b(2) by simp
    then have "blocks g b = Some bs" by (simp add: rest_def restrict_map_def split: if_splits)
    then have r: "read_host (Indices c ! i) (ParamSizes c ! i) g = Some ?bs" using b i(3,4) by (simp add: read_host_def)
    obtain c2 g2 where 2: "args_addArg i ?bs (c, g) = Some (c2, g2)" "value_set c g i ?bs c2 g2" using ncpu_addArg_ok[OF Cons.prems(1,2)] by blast
    have v: "args_wf c2 g2" "heap_ok g2" "rest c2 g2 = blocks h" "app_mem g2 = app_mem h" "nargs c2 = nargs a" "meaning c2 g2 i = Value ?bs"
      "\<And>j. j < nargs a \<Longrightarrow> j \<noteq> i \<Longrightarrow> OwnsMem c2 ! j = OwnsMem c ! j \<and> meaning c2 g2 j = meaning c g j \<and> Indices c2 ! j = Indices c ! j \<and> ParamSizes c2 ! j = ParamSizes c ! j"
      using 2(2) Cons.prems(3,4,5) i(1) unfolding value_set_def by auto
    have n: "i \<notin> set ns" "set ns \<subseteq> {..<nargs a}" "distinct ns" using Cons.prems(6,7) by auto
    have "\<forall>j \<in> set ns. OwnsMem a ! j \<longrightarrow> \<not> OwnsMem c2 ! j \<and> Indices c2 ! j = Indices a ! j \<and> ParamSizes c2 ! j = ParamSizes a ! j"
    proof
      fix j assume j: "j \<in> set ns"
      then have "j < nargs a" "j \<noteq> i" using n by auto
      then show "OwnsMem a ! j \<longrightarrow> \<not> OwnsMem c2 ! j \<and> Indices c2 ! j = Indices a ! j \<and> ParamSizes c2 ! j = ParamSizes a ! j"
        using v(7) Cons.prems(8) j by simp
    qed
    from Cons.IH[OF v(1-5) n(3,2) this] obtain c' g' where 3: "copy_owned (OwnsMem a) ns (c2, g2) = Some (c', g')" "args_wf c' g'" "heap_ok g'" "rest c' g' = blocks h"
      "app_mem g' = app_mem h" "nargs c' = nargs a" "\<forall>j < nargs a. meaning c' g' j = (if j \<in> set ns \<and> OwnsMem a ! j then meaning a h j else meaning c2 g2 j)" by blast
    have "meaning c' g' j = (if j \<in> set (i # ns) \<and> OwnsMem a ! j then meaning a h j else meaning c g j)" if "j < nargs a" for j
      using 3(7) that v(6) v(7)[of j] m o n(1) by (cases "j = i") auto
    moreover have "copy_owned (OwnsMem a) (i # ns) (c, g) = Some (c', g')" using o r 2(1) 3(1) by simp
    ultimately show ?thesis using 3(2-6) by blast
  qed
qed simp

lemma copy_ok:
  assumes wf: "args_wf a h" and ok: "heap_ok h"
  shows "\<exists>c g. args_copy a h = Some (c, g) \<and> args_wf c g \<and> heap_ok g \<and> rest c g = blocks h \<and> app_mem g = app_mem h \<and> nargs c = nargs a \<and>
    (\<forall>i < nargs a. meaning c g i = meaning a h i)"
proof -
  let ?c = "a\<lparr>OwnsMem := replicate (length (OwnsMem a)) False\<rparr>"
  note l = args_wfD(1,2)[OF wf]
  have o: "\<not> OwnsMem ?c ! i" if "i < nargs a" for i using that l by simp
  have w: "args_wf ?c h" using l by (simp add: args_wf_def)
  have "own ?c = {}" using o by (auto simp: own_def)
  then have r: "rest ?c h = blocks h" by (simp add: rest_def restrict_map_def)
  have n: "\<forall>i \<in> set [0..<nargs a]. OwnsMem a ! i \<longrightarrow> \<not> OwnsMem ?c ! i \<and> Indices ?c ! i = Indices a ! i \<and> ParamSizes ?c ! i = ParamSizes a ! i" using l by simp
  have m: "meaning ?c h i = meaning a h i" if "i < nargs a" "\<not> OwnsMem a ! i" for i using that o by (simp add: meaning_def)
  have s: "distinct [0..<nargs a]" "set [0..<nargs a] \<subseteq> {..<nargs a}" "nargs ?c = nargs a" "app_mem h = app_mem h" by auto
  obtain c g where c: "copy_owned (OwnsMem a) [0..<nargs a] (?c, h) = Some (c, g)" "args_wf c g" "heap_ok g" "rest c g = blocks h" "app_mem g = app_mem h" "nargs c = nargs a"
    "\<forall>i < nargs a. meaning c g i = (if i \<in> set [0..<nargs a] \<and> OwnsMem a ! i then meaning a h i else meaning ?c h i)"
    using copy_owned_ok[OF wf w ok r s(4,3,1,2) n] by blast
  have "\<forall>i < nargs a. meaning c g i = meaning a h i" using c(7) m by simp
  then show ?thesis using c(1-6) by (auto simp: args_copy_def)
qed

end
