(* ===== verification/Native_Cpu_Range.thy ===== *)
theory Native_Cpu_Range
  imports UR_Adapter_Common
begin

text \<open>
  Launching a kernel on the native CPU adapter (adapters/native_cpu/enqueue.cpp and nativecpu_state.hpp): the checks of the sizes,
  the split of the work groups among the threads of the pool, and the work items each task runs.
  Sizes are 64-bit words. The kernel is called once for each work item; the variant that is compiled with the oneAPI construction kit
  calls it once for each group instead.
\<close>

section \<open>The range\<close>

record NDRDescT =
  GlobalOffset :: "u64 list"
  GlobalSize :: "u64 list"
  LocalSize :: "u64 list"

definition new_NDRDescT :: "nat \<Rightarrow> u64 list option \<Rightarrow> u64 list \<Rightarrow> u64 list option \<Rightarrow> NDRDescT" where
  "new_NDRDescT WorkDim GlobalWorkOffset GlobalWorkSize LocalWorkSize =
     (let L = (\<lambda>I. case LocalWorkSize of Some l \<Rightarrow> l ! I | None \<Rightarrow> 1)
      in \<lparr>GlobalOffset = map (\<lambda>I. if I < WorkDim then (case GlobalWorkOffset of Some os \<Rightarrow> os ! I | None \<Rightarrow> 0) else 0) [0..<3],
          GlobalSize = map (\<lambda>I. if I < WorkDim then GlobalWorkSize ! I else 1) [0..<3],
          LocalSize = map (\<lambda>I. if I < WorkDim then L I else if L 0 \<noteq> 0 then 1 else 0) [0..<3]\<rparr>)"

text \<open>What the kernel reads about the work item it runs for.\<close>

record ncpu_state =
  MGlobal_id :: "u64 \<times> u64 \<times> u64"
  MGlobal_range :: "u64 list"
  MWorkGroup_id :: "u64 \<times> u64 \<times> u64"
  MLocal_id :: "u64 \<times> u64 \<times> u64"
  MWorkGroup_size :: "u64 list"
  MNumGroups :: "u64 list"
  MGlobalOffset :: "u64 list"
  NumSubGroups :: nat
  SubGroup_id :: nat
  SubGroup_local_id :: nat
  SubGroup_size :: nat

definition getState :: "NDRDescT \<Rightarrow> ncpu_state" where
  "getState ndr = \<lparr>MGlobal_id = (0, 0, 0), MGlobal_range = GlobalSize ndr, MWorkGroup_id = (0, 0, 0), MLocal_id = (0, 0, 0),
     MWorkGroup_size = LocalSize ndr, MNumGroups = map2 (div) (GlobalSize ndr) (LocalSize ndr), MGlobalOffset = GlobalOffset ndr,
     NumSubGroups = 32, SubGroup_id = 0, SubGroup_local_id = 0, SubGroup_size = 1\<rparr>"

definition state_update :: "u64 \<times> u64 \<times> u64 \<Rightarrow> u64 \<times> u64 \<times> u64 \<Rightarrow> ncpu_state \<Rightarrow> ncpu_state" where
  "state_update g l st =
     (case (g, l) of ((g0, g1, g2), (l0, l1, l2)) \<Rightarrow>
        st\<lparr>MWorkGroup_id := g, MLocal_id := l,
           MGlobal_id := (MWorkGroup_size st ! 0 * g0 + l0 + MGlobalOffset st ! 0, MWorkGroup_size st ! 1 * g1 + l1 + MGlobalOffset st ! 1,
             MWorkGroup_size st ! 2 * g2 + l2 + MGlobalOffset st ! 2)\<rparr>)"

section \<open>The tasks\<close>

definition next_group :: "u64 \<Rightarrow> u64 \<Rightarrow> u64 \<times> u64 \<times> u64 \<Rightarrow> u64 \<times> u64 \<times> u64" where
  "next_group numWG0 numWG1 g =
     (case g of (g0, g1, g2) \<Rightarrow>
        if g0 + 1 = numWG0 then if g1 + 1 = numWG1 then (0, 0, g2 + 1) else (0, g1 + 1, g2) else (g0 + 1, g1, g2))"

text \<open>The loop of a task over its groups, from the linear number \<open>g3\<close> to the end of its range.\<close>

function task_groups :: "u64 \<Rightarrow> u64 \<Rightarrow> u64 \<Rightarrow> u64 \<times> u64 \<times> u64 \<Rightarrow> u64 \<Rightarrow> (u64 \<times> u64 \<times> u64) list" where
  "task_groups numWG0 numWG1 rangeEnd g g3 =
     (if g3 < rangeEnd then g # task_groups numWG0 numWG1 rangeEnd (next_group numWG0 numWG1 g) (g3 + 1) else [])"
  by pat_completeness auto
termination
proof (relation "measure (\<lambda>(_, _, e, _, g3). unat e - unat g3)")
  show "((n0, n1, e, next_group n0 n1 g, g3 + 1), n0, n1, e, g, g3) \<in> measure (\<lambda>(_, _, e, _, g3). unat e - unat g3)"
    if "g3 < e" for n0 n1 e :: u64 and g g3
    using that unsigned_less[where ?'a = nat and w = e] by (simp add: word_less_nat_alt unat_word_ariths(1))
qed simp

declare task_groups.simps [simp del]

definition local_items :: "u64 list \<Rightarrow> (u64 \<times> u64 \<times> u64) list" where
  "local_items L = [(of_nat l0, of_nat l1, of_nat l2). l2 \<leftarrow> [0..<unat (L ! 2)], l1 \<leftarrow> [0..<unat (L ! 1)], l0 \<leftarrow> [0..<unat (L ! 0)]]"

text \<open>The states the kernel is called with by one task.\<close>

definition run_task :: "NDRDescT \<Rightarrow> u64 \<Rightarrow> u64 \<Rightarrow> (u64 \<times> u64 \<times> u64) \<times> u64 \<times> u64 \<Rightarrow> ncpu_state list" where
  "run_task ndr numWG0 numWG1 r =
     (case r of (g, g3, e) \<Rightarrow> [state_update h l (getState ndr). h \<leftarrow> task_groups numWG0 numWG1 e g g3, l \<leftarrow> local_items (LocalSize ndr)])"

text \<open>The ranges of the threads: where each starts, as a group and as a linear number, and where it ends.\<close>

fun split_groups :: "u64 \<Rightarrow> u64 \<Rightarrow> u64 \<Rightarrow> u64 \<Rightarrow> nat list \<Rightarrow> (u64 \<times> u64 \<times> u64) \<times> u64 \<Rightarrow> ((u64 \<times> u64 \<times> u64) \<times> u64 \<times> u64) list" where
  "split_groups numWG0 numWG1 numWGPerThread remainderWG [] s = []"
| "split_groups numWG0 numWG1 numWGPerThread remainderWG (t # ts) (g, s3) =
     (let e3 = s3 + (numWGPerThread + (if of_nat t < remainderWG then 1 else 0))
      in if e3 = s3 then []
         else (g, s3, e3) # split_groups numWG0 numWG1 numWGPerThread remainderWG ts
           ((e3 mod numWG0, e3 div numWG0 mod numWG1, e3 div (numWG0 * numWG1)), e3))"

definition launch_tasks :: "NDRDescT \<Rightarrow> u64 \<Rightarrow> ncpu_state list list" where
  "launch_tasks ndr numParallelThreads =
     (let numWG0 = GlobalSize ndr ! 0 div LocalSize ndr ! 0; numWG1 = GlobalSize ndr ! 1 div LocalSize ndr ! 1;
          numWG2 = GlobalSize ndr ! 2 div LocalSize ndr ! 2; numWG = numWG0 * numWG1 * numWG2;
          numWGPerThread = numWG div numParallelThreads; remainderWG = numWG - numWGPerThread * numParallelThreads
      in map (run_task ndr numWG0 numWG1)
           (split_groups numWG0 numWG1 numWGPerThread remainderWG [0..<unat numParallelThreads] ((0, 0, 0), 0)))"

section \<open>The checks\<close>

record ncpu_limits =
  ReqdWGSize :: "u64 list option"
  MaxWGSize :: "u64 list option"
  MaxLinearWGSize :: "u64 option"

fun ncpu_check_sizes :: "ncpu_limits \<Rightarrow> u64 list \<Rightarrow> nat list \<Rightarrow> u64 \<Rightarrow> ur_result + u64" where
  "ncpu_check_sizes k L [] TotalNumWIs = Inr TotalNumWIs"
| "ncpu_check_sizes k L (Dim # ds) TotalNumWIs =
     (if (case ReqdWGSize k of Some r \<Rightarrow> L ! Dim \<noteq> r ! Dim | None \<Rightarrow> False) then Inl UR_RESULT_ERROR_INVALID_WORK_GROUP_SIZE
      else if (case MaxWGSize k of Some r \<Rightarrow> L ! Dim > r ! Dim | None \<Rightarrow> False) then Inl UR_RESULT_ERROR_INVALID_WORK_GROUP_SIZE
      else ncpu_check_sizes k L ds (TotalNumWIs * L ! Dim))"

definition ncpu_given_sizes :: "ncpu_limits \<Rightarrow> nat \<Rightarrow> u64 list option \<Rightarrow> ur_result" where
  "ncpu_given_sizes k workDim LocalWorkSize =
     (case LocalWorkSize of
        None \<Rightarrow> UR_RESULT_SUCCESS
      | Some L \<Rightarrow>
          (case ncpu_check_sizes k L [0..<workDim] 1 of
             Inl e \<Rightarrow> e
           | Inr TotalNumWIs \<Rightarrow>
               (case MaxLinearWGSize k of
                  Some m \<Rightarrow> if TotalNumWIs > m then UR_RESULT_ERROR_INVALID_WORK_GROUP_SIZE else UR_RESULT_SUCCESS
                | None \<Rightarrow> UR_RESULT_SUCCESS)))"

definition umulll_overflow :: "u64 \<Rightarrow> u64 \<Rightarrow> bool \<times> u64" where
  "umulll_overflow a b = (unat a * unat b \<ge> 2 ^ 64, a * b)"

definition too_many_items :: "NDRDescT \<Rightarrow> bool" where
  "too_many_items ndr =
     (case umulll_overflow (GlobalSize ndr ! 0) (GlobalSize ndr ! 1) of (o1, numWI) \<Rightarrow> o1 \<or> fst (umulll_overflow numWI (GlobalSize ndr ! 2)))"

text \<open>The whole launch: the tasks given to the pool. \<open>flags\<close> and \<open>other_props\<close> say that the list of properties has flags or an element of another kind.\<close>

definition ncpu_launch ::
  "bool \<Rightarrow> bool \<Rightarrow> nat \<Rightarrow> u64 list option \<Rightarrow> u64 list \<Rightarrow> u64 list option \<Rightarrow> u64 \<Rightarrow> ncpu_limits \<Rightarrow> ncpu_state list list outcome" where
  "ncpu_launch flags other_props workDim off G L numThreads k =
     (if flags \<or> other_props then Failed UR_RESULT_ERROR_UNSUPPORTED_FEATURE
      else if \<not> (workDim > 0 \<and> workDim < 4) then Failed UR_RESULT_ERROR_INVALID_WORK_DIMENSION
      else if G ! 0 = 0 then Failed UR_RESULT_ERROR_UNSUPPORTED_FEATURE
      else if ncpu_given_sizes k workDim L \<noteq> UR_RESULT_SUCCESS then Failed (ncpu_given_sizes k workDim L)
      else let ndr = new_NDRDescT workDim off G L
           in if too_many_items ndr then Failed UR_RESULT_ERROR_OUT_OF_RESOURCES
              else if LocalSize ndr ! 0 = 0 \<or> LocalSize ndr ! 1 = 0 \<or> LocalSize ndr ! 2 = 0 \<or> numThreads = 0 then Undefined
              else Finished (launch_tasks ndr numThreads))"

end
