(* ===== verification/Native_Cpu_Items.thy ===== *)
theory Native_Cpu_Items
  imports Native_Cpu_Range
begin

text \<open>
  Launching a kernel on the native CPU adapter, continued: together the tasks of a launch run the kernel once for each work item, and no task has more than
  one group more than another.
\<close>

section \<open>Words and numbers\<close>

lemma of_nat_u64 [simp]:
  "a < 2 ^ 64 \<Longrightarrow> unat (of_nat a :: u64) = a"
  by (simp add: unat_of_nat)

lemma of_nat_u64_eq: "a < 2 ^ 64 \<Longrightarrow> b < 2 ^ 64 \<Longrightarrow> (of_nat a :: u64) = of_nat b \<longleftrightarrow> a = b"
  by (metis of_nat_u64)

lemma of_nat_u64_less: "a < 2 ^ 64 \<Longrightarrow> b < 2 ^ 64 \<Longrightarrow> (of_nat a :: u64) < of_nat b \<longleftrightarrow> a < b"
  by (simp only: word_less_nat_alt of_nat_u64)

lemma of_nat_u64_div: "a < 2 ^ 64 \<Longrightarrow> b < 2 ^ 64 \<Longrightarrow> (of_nat a :: u64) div of_nat b = of_nat (a div b)"
  by (simp only: word_arith_nat_div of_nat_u64)

lemma of_nat_u64_mod: "a < 2 ^ 64 \<Longrightarrow> b < 2 ^ 64 \<Longrightarrow> (of_nat a :: u64) mod of_nat b = of_nat (a mod b)"
  by (simp only: word_arith_nat_mod of_nat_u64)

lemma of_nat_unat_u64 [simp]: "of_nat (unat x) = (x :: u64)"
  by simp

section \<open>Groups by number\<close>

definition coords :: "nat \<Rightarrow> nat \<Rightarrow> nat \<Rightarrow> u64 \<times> u64 \<times> u64" where
  "coords N0 N1 k = (of_nat (k mod N0), of_nat (k div N0 mod N1), of_nat (k div (N0 * N1)))"

lemma next_coords:
  assumes N: "0 < N0" "0 < N1" "N0 < 2 ^ 64" "N1 < 2 ^ 64"
  shows "next_group (of_nat N0) (of_nat N1) (coords N0 N1 k) = coords N0 N1 (Suc k)"
proof -
  have inc: "(of_nat a + 1 = (of_nat b :: u64)) \<longleftrightarrow> Suc a = b" if "a < b" "b < 2 ^ 64" for a b
    using of_nat_u64_eq[of "Suc a" b] that by (simp add: add.commute)
  have i0: "(of_nat (k mod N0) + 1 = (of_nat N0 :: u64)) \<longleftrightarrow> Suc (k mod N0) = N0" using inc[of "k mod N0" N0] N by simp
  have i1: "(of_nat (k div N0 mod N1) + 1 = (of_nat N1 :: u64)) \<longleftrightarrow> Suc (k div N0 mod N1) = N1" using inc[of "k div N0 mod N1" N1] N by simp
  show ?thesis
    unfolding next_group_def coords_def div_mult2_eq prod.case i0 i1
    by (simp add: mod_Suc div_Suc add.commute)
qed

lemma task_groups_coords:
  assumes N: "0 < N0" "0 < N1" "N0 < 2 ^ 64" "N1 < 2 ^ 64" and k: "k \<le> e" "e < 2 ^ 64"
  shows "task_groups (of_nat N0) (of_nat N1) (of_nat e) (coords N0 N1 k) (of_nat k) = map (coords N0 N1) [k..<e]"
  using k
proof (induction "e - k" arbitrary: k)
  case 0
  then show ?case by (simp add: task_groups.simps)
next
  case (Suc d)
  have lt: "(of_nat k :: u64) < of_nat e" using Suc by (simp add: of_nat_u64_less)
  have "of_nat k + 1 = (of_nat (Suc k) :: u64)" by simp
  then show ?case
    using Suc lt next_coords[OF N] by (simp add: task_groups.simps[of _ _ _ "coords N0 N1 k"] upt_conv_Cons del: of_nat_Suc)
qed

section \<open>The split\<close>

lemma coords_end:
  assumes "e < 2 ^ 64" "N0 * N1 < 2 ^ 64" "N0 < 2 ^ 64" "N1 < 2 ^ 64"
  shows "(of_nat e mod of_nat N0, of_nat e div of_nat N0 mod of_nat N1, of_nat e div (of_nat N0 * of_nat N1)) = coords N0 N1 e"
proof -
  have "e div N0 < 2 ^ 64" using assms(1) div_le_dividend[of e N0] by linarith
  then show ?thesis
    using assms by (simp add: coords_def of_nat_u64_mod of_nat_u64_div del: of_nat_mult add: of_nat_mult[symmetric])
qed

text \<open>The first number of the range of a thread.\<close>

definition range_start :: "nat \<Rightarrow> nat \<Rightarrow> nat \<Rightarrow> nat" where
  "range_start per rem t = per * t + min t rem"

lemma range_start_Suc: "range_start per rem (Suc t) = range_start per rem t + (per + (if t < rem then 1 else 0))"
  by (simp add: range_start_def)

lemma range_start_mono: "t \<le> u \<Longrightarrow> range_start per rem t \<le> range_start per rem u"
  unfolding range_start_def by (intro add_mono mult_le_mono2 min.mono) auto

lemma split_groups_ranges:
  assumes N: "0 < N0" "0 < N1" "N0 < 2 ^ 64" "N1 < 2 ^ 64" "N0 * N1 < 2 ^ 64"
    and W: "range_start per rem P < 2 ^ 64" "P < 2 ^ 64" "rem \<le> P" and t: "t \<le> P"
  shows "\<exists>u \<le> P. t \<le> u \<and> range_start per rem u = range_start per rem P \<and>
    split_groups (of_nat N0) (of_nat N1) (of_nat per) (of_nat rem) [t..<P]
      (coords N0 N1 (range_start per rem t), of_nat (range_start per rem t)) =
    map (\<lambda>v. (coords N0 N1 (range_start per rem v), of_nat (range_start per rem v), of_nat (range_start per rem (Suc v)))) [t..<u]"
  using t
proof (induction "P - t" arbitrary: t)
  case 0
  then show ?case by auto
next
  case (Suc d)
  then have tP: "t < P" by simp
  let ?s = "range_start per rem t" and ?e = "range_start per rem (Suc t)"
  have le: "?s \<le> ?e" "?e \<le> range_start per rem P" using tP by (simp_all add: range_start_mono)
  then have lt: "?s < 2 ^ 64" "?e < 2 ^ 64" using W by simp_all
  have c: "(of_nat t :: u64) < of_nat rem \<longleftrightarrow> t < rem" using tP W by (intro of_nat_u64_less) auto
  have e: "of_nat ?s + (of_nat per + (if (of_nat t :: u64) < of_nat rem then 1 else 0)) = (of_nat ?e :: u64)"
    unfolding c range_start_Suc by simp
  show ?case
  proof (cases "?e = ?s")
    case True
    then have "per = 0" "rem \<le> t" by (auto simp: range_start_Suc split: if_splits)
    then have "range_start per rem t = range_start per rem P" using tP by (simp add: range_start_def)
    moreover have "split_groups (of_nat N0) (of_nat N1) (of_nat per) (of_nat rem) [t..<P] (coords N0 N1 ?s, of_nat ?s) = []"
      using tP e True by (simp add: upt_conv_Cons Let_def)
    ultimately show ?thesis using tP by (intro exI[of _ t]) simp
  next
    case False
    then have ne: "(of_nat ?e :: u64) \<noteq> of_nat ?s" using lt by (simp add: of_nat_u64_eq)
    obtain u where u: "u \<le> P" "Suc t \<le> u" "range_start per rem u = range_start per rem P"
      "split_groups (of_nat N0) (of_nat N1) (of_nat per) (of_nat rem) [Suc t..<P] (coords N0 N1 ?e, of_nat ?e) =
       map (\<lambda>v. (coords N0 N1 (range_start per rem v), of_nat (range_start per rem v), of_nat (range_start per rem (Suc v)))) [Suc t..<u]"
    proof -
      have "d = P - Suc t" "Suc t \<le> P" using Suc.hyps(2) tP by simp_all
      then show ?thesis using Suc.hyps(1)[of "Suc t"] that by blast
    qed
    have "split_groups (of_nat N0) (of_nat N1) (of_nat per) (of_nat rem) [t..<P] (coords N0 N1 ?s, of_nat ?s) =
      (coords N0 N1 ?s, of_nat ?s, of_nat ?e) #
      split_groups (of_nat N0) (of_nat N1) (of_nat per) (of_nat rem) [Suc t..<P] (coords N0 N1 ?e, of_nat ?e)"
      using tP e ne coords_end[OF lt(2) N(5,3,4)] by (simp add: upt_conv_Cons Let_def)
    then show ?thesis using u by (intro exI[of _ u]) (simp add: upt_conv_Cons)
  qed
qed

section \<open>All groups\<close>

lemma concat_ranges:
  fixes f :: "nat \<Rightarrow> nat"
  assumes "\<And>v. f v \<le> f (Suc v)"
  shows "concat (map (\<lambda>v. [f v..<f (Suc v)]) [t..<t + n]) = [f t..<f (t + n)]"
proof (induction n)
  case (Suc n)
  have "f t \<le> f (t + n)" using assms by (rule lift_Suc_mono_le) simp
  moreover have "f (t + n) \<le> f (Suc (t + n))" using assms .
  ultimately have "[f t..<f (Suc (t + n))] = [f t..<f (t + n)] @ [f (t + n)..<f (Suc (t + n))]"
    using upt_add_eq_append[of "f t" "f (t + n)" "f (Suc (t + n)) - f (t + n)"] by simp
  then show ?case using Suc by simp
qed simp

lemma split_covers:
  assumes N: "0 < N0" "0 < N1" "N0 < 2 ^ 64" "N1 < 2 ^ 64" "N0 * N1 < 2 ^ 64"
    and W: "W < 2 ^ 64" "0 < P" "P < 2 ^ 64"
  defines "rs \<equiv> split_groups (of_nat N0) (of_nat N1) (of_nat (W div P)) (of_nat (W mod P)) [0..<P] ((0, 0, 0), 0)"
  shows "concat (map (\<lambda>(g, g3, e). task_groups (of_nat N0) (of_nat N1) e g g3) rs) = map (coords N0 N1) [0..<W]" "length rs \<le> P"
    "\<forall>r \<in> set rs. case r of (g, g3, e) \<Rightarrow> length (task_groups (of_nat N0) (of_nat N1) e g g3) \<in> {W div P, W div P + 1}"
proof -
  let ?f = "range_start (W div P) (W mod P)"
  have WP: "?f P = W" using W(2) by (simp add: range_start_def min_absorb2 mod_less_divisor less_imp_le)
  have c0: "coords N0 N1 (?f 0) = (0, 0, 0)" "?f 0 = 0" by (simp_all add: coords_def range_start_def)
  obtain u where u: "u \<le> P" "?f u = ?f P" "rs = map (\<lambda>v. (coords N0 N1 (?f v), of_nat (?f v), of_nat (?f (Suc v)))) [0..<u]"
    using split_groups_ranges[OF N, of "W div P" "W mod P" P 0] W mod_less_divisor[OF W(2), of W] c0 WP unfolding rs_def by auto
  have loop: "task_groups (of_nat N0) (of_nat N1) (of_nat (?f (Suc v))) (coords N0 N1 (?f v)) (of_nat (?f v)) = map (coords N0 N1) [?f v..<?f (Suc v)]"
    if "v < u" for v
  proof (rule task_groups_coords[OF N(1-4)])
    show "?f v \<le> ?f (Suc v)" by (simp add: range_start_mono)
    have "?f (Suc v) \<le> ?f P" using that u(1) by (intro range_start_mono) simp
    then show "?f (Suc v) < 2 ^ 64" using WP W(1) by simp
  qed
  have "concat (map (\<lambda>(g, g3, e). task_groups (of_nat N0) (of_nat N1) e g g3) rs) =
    concat (map (\<lambda>v. map (coords N0 N1) [?f v..<?f (Suc v)]) [0..<u])"
    unfolding u(3) by (rule arg_cong[where f = concat]) (simp add: loop)
  also have "\<dots> = map (coords N0 N1) (concat (map (\<lambda>v. [?f v..<?f (Suc v)]) [0..<u]))" by (simp add: map_concat comp_def)
  also have "\<dots> = map (coords N0 N1) [0..<W]"
    using concat_ranges[of ?f 0 u] range_start_mono[of _ "Suc _"] u(2) WP c0(2) by (simp add: range_start_mono)
  finally show "concat (map (\<lambda>(g, g3, e). task_groups (of_nat N0) (of_nat N1) e g g3) rs) = map (coords N0 N1) [0..<W]" .
  show "length rs \<le> P" using u by simp
  show "\<forall>r \<in> set rs. case r of (g, g3, e) \<Rightarrow> length (task_groups (of_nat N0) (of_nat N1) e g g3) \<in> {W div P, W div P + 1}"
  proof -
    have "length (task_groups (of_nat N0) (of_nat N1) (of_nat (?f (Suc v))) (coords N0 N1 (?f v)) (of_nat (?f v))) \<in> {W div P, W div P + 1}"
      if "v < u" for v
      unfolding loop[OF that] by (simp add: range_start_Suc)
    then show ?thesis unfolding u(3) by auto
  qed
qed

section \<open>All work items\<close>

text \<open>The numbers of a range.\<close>

definition box :: "nat \<Rightarrow> nat \<Rightarrow> nat \<Rightarrow> (nat \<times> nat \<times> nat) set" where
  "box a b c = {..<a} \<times> {..<b} \<times> {..<c}"

lemma card_box: "card (box a b c) = a * b * c"
  by (simp add: box_def card_cartesian_product)

definition words3 :: "nat \<times> nat \<times> nat \<Rightarrow> u64 \<times> u64 \<times> u64" where
  "words3 p = (case p of (x, y, z) \<Rightarrow> (of_nat x, of_nat y, of_nat z))"

lemma digit_bound: "x < a \<Longrightarrow> y < b \<Longrightarrow> x + a * y < a * (b :: nat)"
proof -
  assume "x < a" "y < b"
  then have "x + a * y < a * Suc y" by simp
  also have "\<dots> \<le> a * b" using \<open>y < b\<close> by (intro mult_le_mono2) simp
  finally show ?thesis .
qed

lemma coords_box:
  assumes "0 < N0" "0 < N1"
  shows "coords N0 N1 ` {..<N0 * N1 * N2} = words3 ` box N0 N1 N2"
proof -
  have "(\<lambda>k. (k mod N0, k div N0 mod N1, k div (N0 * N1))) ` {..<N0 * N1 * N2} = box N0 N1 N2" (is "?f ` _ = _")
  proof (intro equalityI subsetI)
    fix p assume "p \<in> ?f ` {..<N0 * N1 * N2}"
    then show "p \<in> box N0 N1 N2" using assms by (auto simp: box_def less_mult_imp_div_less mult.commute)
  next
    fix p assume "p \<in> box N0 N1 N2"
    then obtain x y z where p: "p = (x, y, z)" "x < N0" "y < N1" "z < N2" by (auto simp: box_def)
    let ?k = "x + N0 * (y + N1 * z)"
    have d: "?k div N0 = y + N1 * z" "?k mod N0 = x" using p by simp_all
    have "y + N1 * z < N1 * N2" using p(3,4) by (rule digit_bound)
    then have "?k < N0 * (N1 * N2)" by (rule digit_bound[OF p(2)])
    moreover have "?f ?k = (x, y, z)" using d p(3) by (simp add: div_mult2_eq)
    ultimately show "p \<in> ?f ` {..<N0 * N1 * N2}" using p(1) by (auto intro!: image_eqI[of _ _ ?k] simp: mult.assoc)
  qed
  moreover have "coords N0 N1 ` {..<N0 * N1 * N2} = words3 ` (?f ` {..<N0 * N1 * N2})"
    unfolding image_image by (simp add: coords_def words3_def)
  ultimately show ?thesis by simp
qed

lemma set_local_items: "set (local_items L) = words3 ` box (unat (L ! 0)) (unat (L ! 1)) (unat (L ! 2))"
  by (force simp: local_items_def words3_def box_def)

lemma length_local_items: "length (local_items L) = unat (L ! 0) * unat (L ! 1) * unat (L ! 2)"
  by (simp add: local_items_def length_concat comp_def sum_list_triv)

text \<open>The identifier of a work item from those of its group and its place in the group.\<close>

definition item_id :: "u64 list \<Rightarrow> u64 list \<Rightarrow> u64 \<times> u64 \<times> u64 \<Rightarrow> u64 \<times> u64 \<times> u64 \<Rightarrow> u64 \<times> u64 \<times> u64" where
  "item_id L off g l = (case (g, l) of ((g0, g1, g2), (l0, l1, l2)) \<Rightarrow> (L ! 0 * g0 + l0 + off ! 0, L ! 1 * g1 + l1 + off ! 1, L ! 2 * g2 + l2 + off ! 2))"

definition shift_by :: "u64 list \<Rightarrow> nat \<times> nat \<times> nat \<Rightarrow> u64 \<times> u64 \<times> u64" where
  "shift_by off p = (case p of (x, y, z) \<Rightarrow> (of_nat x + off ! 0, of_nat y + off ! 1, of_nat z + off ! 2))"

lemma id_of_update: "MGlobal_id (state_update g l (getState ndr)) = item_id (LocalSize ndr) (GlobalOffset ndr) g l"
  by (simp add: state_update_def getState_def item_id_def split: prod.splits)

lemma digits:
  "x < N * b \<Longrightarrow> \<exists>g l. g < N \<and> l < b \<and> x = b * g + l" for x N b :: nat
proof -
  assume x: "x < N * b"
  then have "0 < b" by (cases b) auto
  then have "x mod b < b" "x div b < N" "x = b * (x div b) + x mod b" using x by (simp_all add: less_mult_imp_div_less)
  then show ?thesis by blast
qed

lemma item_id_box:
  "(\<lambda>(g, l). item_id L off g l) ` (words3 ` box N0 N1 N2 \<times> words3 ` box (unat (L ! 0)) (unat (L ! 1)) (unat (L ! 2))) =
   shift_by off ` box (N0 * unat (L ! 0)) (N1 * unat (L ! 1)) (N2 * unat (L ! 2))"
  (is "?f ` _ = _ ` box ?a ?b ?c")
proof (intro equalityI subsetI)
  fix p assume "p \<in> ?f ` (words3 ` box N0 N1 N2 \<times> words3 ` box (unat (L ! 0)) (unat (L ! 1)) (unat (L ! 2)))"
  then obtain g0 g1 g2 l0 l1 l2 where g: "g0 < N0" "g1 < N1" "g2 < N2" and l: "l0 < unat (L ! 0)" "l1 < unat (L ! 1)" "l2 < unat (L ! 2)"
    and p: "p = item_id L off (words3 (g0, g1, g2)) (words3 (l0, l1, l2))" by (auto simp: box_def)
  have "p = shift_by off (l0 + unat (L ! 0) * g0, l1 + unat (L ! 1) * g1, l2 + unat (L ! 2) * g2)"
    by (simp add: p item_id_def words3_def shift_by_def)
  moreover have "(l0 + unat (L ! 0) * g0, l1 + unat (L ! 1) * g1, l2 + unat (L ! 2) * g2) \<in> box ?a ?b ?c"
    using digit_bound[OF l(1) g(1)] digit_bound[OF l(2) g(2)] digit_bound[OF l(3) g(3)] by (simp add: box_def mult.commute)
  ultimately show "p \<in> shift_by off ` box ?a ?b ?c" by blast
next
  fix p assume "p \<in> shift_by off ` box ?a ?b ?c"
  then obtain x y z where x: "x < ?a" "y < ?b" "z < ?c" and p: "p = shift_by off (x, y, z)" by (auto simp: box_def)
  obtain g0 l0 g1 l1 g2 l2 where d: "g0 < N0" "l0 < unat (L ! 0)" "x = unat (L ! 0) * g0 + l0" "g1 < N1" "l1 < unat (L ! 1)" "y = unat (L ! 1) * g1 + l1"
    "g2 < N2" "l2 < unat (L ! 2)" "z = unat (L ! 2) * g2 + l2"
    using digits[OF x(1)] digits[OF x(2)] digits[OF x(3)] by blast
  have "p = ?f (words3 (g0, g1, g2), words3 (l0, l1, l2))"
    by (simp add: p d item_id_def words3_def shift_by_def)
  then show "p \<in> ?f ` (words3 ` box N0 N1 N2 \<times> words3 ` box (unat (L ! 0)) (unat (L ! 1)) (unat (L ! 2)))"
    using d by (auto simp: box_def intro!: image_eqI)
qed

lemma inj_shift: "a \<le> 2 ^ 64 \<Longrightarrow> b \<le> 2 ^ 64 \<Longrightarrow> c \<le> 2 ^ 64 \<Longrightarrow> inj_on (shift_by off) (box a b c)"
  by (auto simp: inj_on_def box_def shift_by_def of_nat_u64_eq)

text \<open>The tasks of a launch.\<close>

definition range_ok :: "NDRDescT \<Rightarrow> bool" where
  "range_ok ndr \<longleftrightarrow> unat (GlobalSize ndr ! 0) * unat (GlobalSize ndr ! 1) * unat (GlobalSize ndr ! 2) < 2 ^ 64 \<and>
     (\<forall>i < 3. LocalSize ndr ! i \<noteq> 0 \<and> unat (LocalSize ndr ! i) dvd unat (GlobalSize ndr ! i))"

abbreviation (input) groups_in :: "NDRDescT \<Rightarrow> nat \<Rightarrow> nat" where
  "groups_in ndr i \<equiv> unat (GlobalSize ndr ! i) div unat (LocalSize ndr ! i)"

lemma prod_le3: "a \<le> a' \<Longrightarrow> b \<le> b' \<Longrightarrow> c \<le> c' \<Longrightarrow> a * b * c \<le> a' * b' * (c' :: nat)"
  by (intro mult_le_mono)

lemma prod_bounds:
  assumes "a * b * c < (m :: nat)" "0 < a" "0 < b" "0 < c"
  shows "a < m" "b < m" "c < m" "a * b < m"
proof -
  have "a * 1 * 1 \<le> a * b * c" "1 * b * 1 \<le> a * b * c" "1 * 1 * c \<le> a * b * c" "a * b * 1 \<le> a * b * c"
    using assms by (intro prod_le3; simp)+
  then show "a < m" "b < m" "c < m" "a * b < m" using assms(1) by linarith+
qed

lemma word_remainder: "of_nat W - of_nat (W div unat P) * P = (of_nat (W mod unat P) :: u64)"
proof -
  have "(of_nat W :: u64) = of_nat (W div unat P) * of_nat (unat P) + of_nat (W mod unat P)"
    by (simp only: of_nat_mult[symmetric] of_nat_add[symmetric] div_mult_mod_eq)
  then show ?thesis by simp
qed

lemma launch_tasks_nat:
  assumes ok: "range_ok ndr"
  shows "launch_tasks ndr P = map (run_task ndr (of_nat (groups_in ndr 0)) (of_nat (groups_in ndr 1)))
    (split_groups (of_nat (groups_in ndr 0)) (of_nat (groups_in ndr 1)) (of_nat (groups_in ndr 0 * groups_in ndr 1 * groups_in ndr 2 div unat P))
      (of_nat (groups_in ndr 0 * groups_in ndr 1 * groups_in ndr 2 mod unat P)) [0..<unat P] ((0, 0, 0), 0))"
    "groups_in ndr 0 * groups_in ndr 1 * groups_in ndr 2 < 2 ^ 64"
proof -
  let ?W = "groups_in ndr 0 * groups_in ndr 1 * groups_in ndr 2"
  show W: "?W < 2 ^ 64"
  proof -
    have "?W \<le> unat (GlobalSize ndr ! 0) * unat (GlobalSize ndr ! 1) * unat (GlobalSize ndr ! 2)" by (rule prod_le3) simp_all
    also have "\<dots> < 2 ^ 64" using ok unfolding range_ok_def by blast
    finally show ?thesis .
  qed
  have d: "GlobalSize ndr ! i div LocalSize ndr ! i = of_nat (groups_in ndr i)" for i by (simp add: word_arith_nat_div)
  have w: "of_nat (groups_in ndr 0) * of_nat (groups_in ndr 1) * of_nat (groups_in ndr 2) = (of_nat ?W :: u64)" by simp
  have q: "of_nat ?W div P = of_nat (?W div unat P)" using W by (simp only: word_arith_nat_div of_nat_u64)
  note word_remainder[of ?W P]
  then show "launch_tasks ndr P = map (run_task ndr (of_nat (groups_in ndr 0)) (of_nat (groups_in ndr 1)))
    (split_groups (of_nat (groups_in ndr 0)) (of_nat (groups_in ndr 1)) (of_nat (?W div unat P)) (of_nat (?W mod unat P)) [0..<unat P] ((0, 0, 0), 0))"
    unfolding launch_tasks_def Let_def d w q by (simp only:)
qed

lemma concat_run_tasks:
  "map MGlobal_id (concat (map (run_task ndr n0 n1) rs)) =
   [item_id (LocalSize ndr) (GlobalOffset ndr) g l. g \<leftarrow> concat (map (\<lambda>(g, g3, e). task_groups n0 n1 e g g3) rs), l \<leftarrow> local_items (LocalSize ndr)]"
  by (induction rs) (auto simp: run_task_def map_concat comp_def id_of_update split: prod.splits)

lemma set_pairs: "set [f g l. g \<leftarrow> xs, l \<leftarrow> ys] = (\<lambda>(g, l). f g l) ` (set xs \<times> set ys)"
  by (induction xs) auto

lemma launch_tasks_ids:
  assumes ok: "range_ok ndr" and P: "P \<noteq> 0"
  shows "set (map MGlobal_id (concat (launch_tasks ndr P))) =
      shift_by (GlobalOffset ndr) ` box (unat (GlobalSize ndr ! 0)) (unat (GlobalSize ndr ! 1)) (unat (GlobalSize ndr ! 2))"
    "distinct (map MGlobal_id (concat (launch_tasks ndr P)))" "length (launch_tasks ndr P) \<le> unat P"
proof -
  let ?N = "groups_in ndr" and ?L = "\<lambda>i. unat (LocalSize ndr ! i)" and ?G = "\<lambda>i. unat (GlobalSize ndr ! i)"
  let ?W = "?N 0 * ?N 1 * ?N 2" and ?off = "GlobalOffset ndr"
  note launch = launch_tasks_nat(1)[OF ok, of P] launch_tasks_nat(2)[OF ok]
  have P': "0 < unat P" "unat P < 2 ^ 64" using P unsigned_less[where ?'a = nat and w = P] by (simp_all add: unat_gt_0)
  have G: "?N i * ?L i = ?G i" if "i < 3" for i using ok that by (simp add: range_ok_def)
  let ?ids = "map MGlobal_id (concat (launch_tasks ndr P))"
  have main: "?ids = [item_id (LocalSize ndr) ?off g l. g \<leftarrow> map (coords (?N 0) (?N 1)) [0..<?W], l \<leftarrow> local_items (LocalSize ndr)] \<and> length (launch_tasks ndr P) \<le> unat P"
  proof (cases "?W = 0")
    case True
    then have "launch_tasks ndr P = []" unfolding launch(1) True using P' by (simp add: upt_conv_Cons Let_def)
    then show ?thesis using True by simp
  next
    case False
    then have N: "0 < ?N 0" "0 < ?N 1" "0 < ?N 2" by simp_all
    note b = prod_bounds[OF launch(2) N]
    note sc = split_covers[OF N(1,2) b(1,2,4) launch(2) P']
    show ?thesis using sc(1,2) by (simp only: launch(1) concat_run_tasks length_map)
  qed
  then show "length (launch_tasks ndr P) \<le> unat P" by blast
  have "set ?ids = (\<lambda>(g, l). item_id (LocalSize ndr) ?off g l) ` (coords (?N 0) (?N 1) ` {..<?W} \<times> set (local_items (LocalSize ndr)))"
    unfolding main[THEN conjunct1] set_pairs by (simp add: lessThan_atLeast0)
  also have "\<dots> = shift_by ?off ` box (?G 0) (?G 1) (?G 2)"
  proof (cases "?W = 0")
    case True
    then have "box (?G 0) (?G 1) (?G 2) = {}" using G[of 0] G[of 1] G[of 2] by (auto simp: box_def)
    then show ?thesis unfolding True by simp
  next
    case False
    then have "coords (?N 0) (?N 1) ` {..<?W} = words3 ` box (?N 0) (?N 1) (?N 2)" by (intro coords_box) simp_all
    moreover have "?N 0 * ?L 0 = ?G 0" "?N 1 * ?L 1 = ?G 1" "?N 2 * ?L 2 = ?G 2" using G by simp_all
    ultimately show ?thesis by (simp only: set_local_items item_id_box)
  qed
  finally show set_ids: "set ?ids = shift_by ?off ` box (?G 0) (?G 1) (?G 2)" .
  have "length ?ids = ?W * (?L 0 * ?L 1 * ?L 2)"
    using main by (simp add: length_concat comp_def sum_list_triv length_local_items)
  also have "\<dots> = (?N 0 * ?L 0) * (?N 1 * ?L 1) * (?N 2 * ?L 2)" by (simp only: ac_simps)
  also have "\<dots> = ?G 0 * ?G 1 * ?G 2" using G by simp
  also have "\<dots> = card (set ?ids)"
    unfolding set_ids using unsigned_less[where ?'a = nat and w = "GlobalSize ndr ! _"]
    by (subst card_image[OF inj_shift]) (simp_all add: card_box less_imp_le)
  finally show "distinct ?ids" by (simp add: card_distinct)
qed

section \<open>The launch\<close>

text \<open>The sizes divide: what the adapter does not check.\<close>

definition sizes_divide :: "nat \<Rightarrow> u64 list \<Rightarrow> u64 list option \<Rightarrow> bool" where
  "sizes_divide d G L = (case L of None \<Rightarrow> True | Some l \<Rightarrow> list_all (\<lambda>i. unat (l ! i) dvd unat (G ! i)) [0..<d])"

lemma ndr_range_ok:
  assumes "\<not> too_many_items (new_NDRDescT d off G L)" "sizes_divide d G L"
    and "\<not> (LocalSize (new_NDRDescT d off G L) ! 0 = 0 \<or> LocalSize (new_NDRDescT d off G L) ! 1 = 0 \<or> LocalSize (new_NDRDescT d off G L) ! 2 = 0)"
  shows "range_ok (new_NDRDescT d off G L)"
proof -
  let ?n = "new_NDRDescT d off G L"
  have u: "unat a * unat b < 2 ^ 64 \<Longrightarrow> unat (a * b) = unat a * unat b" for a b :: u64 by (simp add: unat_word_ariths(2))
  have "unat (GlobalSize ?n ! 0) * unat (GlobalSize ?n ! 1) * unat (GlobalSize ?n ! 2) < 2 ^ 64"
    using assms(1) u[of "GlobalSize ?n ! 0" "GlobalSize ?n ! 1"] by (auto simp: too_many_items_def umulll_overflow_def not_le simp del: power_numeral)
  moreover have nz: "LocalSize ?n ! i \<noteq> 0" if "i < 3" for i
    using that assms(3) by (auto simp: less_Suc_eq numeral_3_eq_3 numeral_2_eq_2)
  moreover have "unat (LocalSize ?n ! i) dvd unat (GlobalSize ?n ! i)" if "i < 3" for i
    using that nz[OF that] assms(2) by (auto simp: new_NDRDescT_def Let_def sizes_divide_def list_all_iff split: option.splits if_splits)
  ultimately show ?thesis by (simp add: range_ok_def)
qed

text \<open>
  C28: When the native CPU adapter accepts a launch and the local sizes divide the global sizes, its tasks together call the kernel exactly once for each
  work item of the range, with the identifiers from the offset up to the offset plus the size in each dimension; there are at most as many
  tasks as threads.\<close>

theorem every_item_once:
  assumes "ncpu_launch flags other_props d off G L P k = Finished tasks" "sizes_divide d G L"
  shows "distinct (map MGlobal_id (concat tasks)) \<and> length tasks \<le> unat P \<and>
    set (map MGlobal_id (concat tasks)) = shift_by (GlobalOffset (new_NDRDescT d off G L)) `
      box (unat (GlobalSize (new_NDRDescT d off G L) ! 0)) (unat (GlobalSize (new_NDRDescT d off G L) ! 1)) (unat (GlobalSize (new_NDRDescT d off G L) ! 2))"
proof -
  let ?n = "new_NDRDescT d off G L"
  have f: "tasks = launch_tasks ?n P" "P \<noteq> 0" "\<not> too_many_items ?n" "\<not> (LocalSize ?n ! 0 = 0 \<or> LocalSize ?n ! 1 = 0 \<or> LocalSize ?n ! 2 = 0)"
    using assms(1) by (auto simp: ncpu_launch_def Let_def split: if_splits)
  note r = ndr_range_ok[OF f(3) assms(2) f(4)]
  show ?thesis unfolding f(1) using launch_tasks_ids[OF r f(2)] by blast
qed

definition no_limits :: ncpu_limits where
  "no_limits = \<lparr>ReqdWGSize = None, MaxWGSize = None, MaxLinearWGSize = None\<rparr>"

theorem every_item_once_witness:
  "\<exists>tasks. ncpu_launch False False 2 (Some [10, 0]) [4, 6] (Some [2, 3]) 3 no_limits = Finished tasks \<and> distinct (map MGlobal_id (concat tasks)) \<and>
     set (map MGlobal_id (concat tasks)) = shift_by [10, 0, 0] ` box 4 6 1"
proof -
  let ?n = "new_NDRDescT 2 (Some [10, 0]) [4, 6] (Some [2, 3])"
  have n: "GlobalOffset ?n = [10, 0, 0]" "GlobalSize ?n = [4, 6, 1]" "LocalSize ?n = [2, 3, 1]" by code_simp+
  have "\<not> too_many_items ?n" by (simp add: too_many_items_def umulll_overflow_def n)
  then have f: "ncpu_launch False False 2 (Some [10, 0]) [4, 6] (Some [2, 3]) 3 no_limits = Finished (launch_tasks ?n 3)"
    by (simp add: ncpu_launch_def n no_limits_def ncpu_given_sizes_def upt_rec Let_def)
  have d: "sizes_divide 2 [4, 6] (Some [2, 3])" by code_simp
  show ?thesis using every_item_once[OF f d] f by (intro exI[of _ "launch_tasks ?n 3"]) (simp add: n)
qed

text \<open>The threads are used evenly.\<close>

lemma balanced_tasks:
  assumes "0 < N0" "0 < N1" "N0 < 2 ^ 64" "N1 < 2 ^ 64" "N0 * N1 < 2 ^ 64" "W < 2 ^ 64" "0 < P" "P < 2 ^ 64"
  shows "list_all (\<lambda>(g, g3, e). length (task_groups (of_nat N0) (of_nat N1) e g g3) \<in> {W div P, W div P + 1})
    (split_groups (of_nat N0) (of_nat N1) (of_nat (W div P)) (of_nat (W mod P)) [0..<P] ((0, 0, 0), 0))"
  unfolding list_all_iff using split_covers(3)[OF assms] .

text \<open>When a local size does not divide the global size, the rest is dropped without an error.\<close>

lemma rest_dropped:
  "map (map MGlobal_id) (launch_tasks (new_NDRDescT 1 None [5] (Some [2])) 1) = [[(0, 0, 0), (1, 0, 0), (2, 0, 0), (3, 0, 0)]]"
  by code_simp

text \<open>A local size of zero divides by zero, and so does a pool without threads.\<close>

lemma ncpu_check_ok: "ncpu_check_sizes no_limits l ds p = Inr (fold (\<lambda>i p. p * l ! i) ds p)"
  by (induction ds arbitrary: p) (simp_all add: no_limits_def)

lemma zero_local_undefined:
  assumes "0 < d" "d < 4" "G ! 0 \<noteq> 0" "\<not> too_many_items (new_NDRDescT d off G (Some l))" "l ! 0 = 0"
  shows "ncpu_launch False False d off G (Some l) P no_limits = Undefined"
  using assms by (auto simp: ncpu_launch_def new_NDRDescT_def Let_def ncpu_given_sizes_def ncpu_check_ok) (simp add: no_limits_def)

end
