(* ===== verification/Native_Cpu_Kernel.thy ===== *)
theory Native_Cpu_Kernel
  imports Native_Cpu_Args_Props Native_Cpu_Items
begin

text \<open>
  The kernels of the native CPU adapter over their whole life: any sequence of settings, the copy of a launch and the destruction of both;
  the pool for local memory, and sequences of calls for which the code goes wrong.
\<close>

section \<open>Histories\<close>

datatype arg_setting = Set_Value nat "u8 list" | Set_Pointer nat host_ptr

definition apply_setting :: "arg_setting \<Rightarrow> ncpu_kernel \<times> host_mem \<Rightarrow> (ncpu_kernel \<times> host_mem) option" where
  "apply_setting s kh =
     (case s of
        Set_Value i bs \<Rightarrow> map_option snd (kernel_addArg bs i kh)
      | Set_Pointer i p \<Rightarrow> Some (snd (kernel_addPtrArg p i (fst kh)), snd kh))"

fun run_settings :: "arg_setting list \<Rightarrow> ncpu_kernel \<times> host_mem \<Rightarrow> (ncpu_kernel \<times> host_mem) option" where
  "run_settings [] kh = Some kh"
| "run_settings (s # ss) kh = (case apply_setting s kh of None \<Rightarrow> None | Some kh' \<Rightarrow> run_settings ss kh')"

text \<open>What the settings ask for: the last one of an index counts, refused ones do not.\<close>

definition wanted :: "arg_setting \<Rightarrow> (nat \<rightharpoonup> arg_meaning) \<Rightarrow> nat \<rightharpoonup> arg_meaning" where
  "wanted s m =
     (case s of Set_Value i bs \<Rightarrow> if bs = [] then m else m(i \<mapsto> Value bs) | Set_Pointer i p \<Rightarrow> if p = P_Null then m else m(i \<mapsto> Pointer p))"

text \<open>An index is for values or for pointers.\<close>

definition of_kind :: "(nat \<Rightarrow> bool) \<Rightarrow> arg_setting \<Rightarrow> bool" where
  "of_kind is_value s = (case s of Set_Value i bs \<Rightarrow> is_value i | Set_Pointer i p \<Rightarrow> \<not> is_value i)"

definition new_kernel :: ncpu_kernel where
  "new_kernel = \<lparr>Args = no_args, localArgInfo = [], localMemPoolSize = 0\<rparr>"

definition settled :: "(nat \<Rightarrow> bool) \<Rightarrow> host_mem \<Rightarrow> (nat \<rightharpoonup> arg_meaning) \<Rightarrow> ncpu_args \<Rightarrow> host_mem \<Rightarrow> bool" where
  "settled is_value h0 m a h \<longleftrightarrow> args_wf a h \<and> heap_ok h \<and> rest a h = blocks h0 \<and> app_mem h = app_mem h0 \<and>
     (\<forall>i < nargs a. OwnsMem a ! i \<longrightarrow> is_value i) \<and> (\<forall>i v. m i = Some v \<longrightarrow> i < nargs a \<and> meaning a h i = v)"

lemma settled_pointer:
  assumes s: "settled is_value h0 m (Args k) h" and n: "\<not> is_value i"
  shows "settled is_value h0 (m(i \<mapsto> Pointer p)) (args_addPtrArg i p (Args k)) h"
proof -
  have wf: "args_wf (Args k) h" using s by (simp add: settled_def)
  have o: "i < nargs (Args k) \<Longrightarrow> \<not> OwnsMem (Args k) ! i" using n s by (auto simp: settled_def)
  let ?a = "args_addPtrArg i p (Args k)"
  note a = addPtrArg_ok[OF wf o, where p = p]
  have "j < nargs ?a \<and> meaning ?a h j = v" if "(m(i \<mapsto> Pointer p)) j = Some v" for j v
  proof (cases "j = i")
    case True
    then show ?thesis using that a(3,4) by simp
  next
    case False
    then have "j < nargs (Args k)" "meaning (Args k) h j = v" using that s by (simp_all add: settled_def)
    then show ?thesis using False a(3) a(6)[of j] by simp
  qed
  then show ?thesis using a(1,2,5) s unfolding settled_def by simp
qed

lemma settled_step:
  assumes s: "settled is_value h0 m (Args k) h" and k: "of_kind is_value x"
  shows "\<exists>k' h'. apply_setting x (k, h) = Some (k', h') \<and> settled is_value h0 (wanted x m) (Args k') h'"
proof (cases x)
  case (Set_Value i bs)
  show ?thesis
  proof (cases "bs = []")
    case True
    then show ?thesis using Set_Value s by (simp add: apply_setting_def kernel_addArg_def wanted_def)
  next
    case False
    have wf: "args_wf (Args k) h" "heap_ok h" using s by (simp_all add: settled_def)
    obtain a' h' where a: "args_addArg i bs (Args k, h) = Some (a', h')" "value_set (Args k) h i bs a' h'" using ncpu_addArg_ok[OF wf] by blast
    have "is_value i" using k Set_Value by (simp add: of_kind_def)
    then have o: "\<forall>j < nargs a'. OwnsMem a' ! j \<longrightarrow> is_value j" using a(2) s unfolding value_set_def settled_def by metis
    have m: "j < nargs a' \<and> meaning a' h' j = v" if "(m(i \<mapsto> Value bs)) j = Some v" for j v
    proof (cases "j = i")
      case True
      then show ?thesis using that a(2) by (simp add: value_set_def)
    next
      case False
      then have "j < nargs (Args k)" "meaning (Args k) h j = v" using that s by (simp_all add: settled_def)
      then show ?thesis using False a(2) by (simp add: value_set_def)
    qed
    have "settled is_value h0 (m(i \<mapsto> Value bs)) a' h'" using a(2) o m s unfolding settled_def value_set_def by simp
    then show ?thesis using False Set_Value a(1) by (simp add: apply_setting_def kernel_addArg_def wanted_def)
  qed
next
  case (Set_Pointer i p)
  show ?thesis
  proof (cases "p = P_Null")
    case True
    then show ?thesis using Set_Pointer s by (simp add: apply_setting_def kernel_addPtrArg_def wanted_def)
  next
    case False
    have "\<not> is_value i" using k Set_Pointer by (simp add: of_kind_def)
    then show ?thesis using settled_pointer[OF s, of i p] False Set_Pointer by (simp add: apply_setting_def kernel_addPtrArg_def wanted_def)
  qed
qed

lemma settled_run:
  assumes "settled is_value h0 m (Args k) h" "list_all (of_kind is_value) ss"
  shows "\<exists>k' h'. run_settings ss (k, h) = Some (k', h') \<and> settled is_value h0 (fold wanted ss m) (Args k') h'"
  using assms
proof (induction ss arbitrary: m k h)
  case (Cons s ss)
  obtain k' h' where "apply_setting s (k, h) = Some (k', h')" "settled is_value h0 (wanted s m) (Args k') h'"
    using settled_step[OF Cons.prems(1), of s] Cons.prems(2) by auto
  then show ?case using Cons.IH[of "wanted s m" k' h'] Cons.prems(2) by simp
qed auto

text \<open>
  C33: For any sequence of settings of the arguments of a kernel of the native CPU adapter that uses each index either for values or for pointers, no call is undefined and
  the memory of the application is not touched; the kernel finds at each index the value or pointer set last. The copy that a launch makes finds the same, also after the
  arguments of the kernel are destroyed, and when the copy is destroyed too, the heap is as it was before: nothing is freed twice and nothing is left.\<close>

theorem kernel_args_life:
  assumes "heap_ok h" "list_all (of_kind is_value) ss"
  shows "\<exists>k h1 c h2 h3 h4. run_settings ss (new_kernel, h) = Some (k, h1) \<and> app_mem h1 = app_mem h \<and>
    (\<forall>i v. fold wanted ss Map.empty i = Some v \<longrightarrow> i < length (Indices (Args k)) \<and> meaning (Args k) h1 i = v) \<and>
    args_copy (Args k) h1 = Some (c, h2) \<and> args_destroy (Args k) h2 = Some h3 \<and>
    (\<forall>i v. fold wanted ss Map.empty i = Some v \<longrightarrow> meaning c h2 i = v \<and> meaning c h3 i = v) \<and>
    args_destroy c h3 = Some h4 \<and> blocks h4 = blocks h \<and> app_mem h4 = app_mem h"
proof -
  have "settled is_value h Map.empty (Args new_kernel) h"
    using assms(1) by (simp add: settled_def new_kernel_def no_args_def args_wf_def rest_def own_def restrict_map_def)
  then obtain k h1 where 1: "run_settings ss (new_kernel, h) = Some (k, h1)" "settled is_value h (fold wanted ss Map.empty) (Args k) h1"
    using settled_run[OF _ assms(2)] by blast
  let ?a = "Args k"
  have s: "args_wf ?a h1" "heap_ok h1" "rest ?a h1 = blocks h" "app_mem h1 = app_mem h"
    "\<And>i v. fold wanted ss Map.empty i = Some v \<Longrightarrow> i < nargs ?a \<and> meaning ?a h1 i = v" using 1(2) by (simp_all add: settled_def)
  obtain c h2 where 2: "args_copy ?a h1 = Some (c, h2)" "args_wf c h2" "rest c h2 = blocks h1" "app_mem h2 = app_mem h1" "nargs c = nargs ?a"
    "\<forall>i < nargs ?a. meaning c h2 i = meaning ?a h1 i" using copy_ok[OF s(1,2)] by blast
  have h1: "blocks h1 b = (if b \<in> own c then None else blocks h2 b)" for b using fun_cong[OF 2(3), of b] by (simp add: rest_def restrict_map_def split: if_splits)
  have "blocks h2 b = blocks h1 b" "b \<notin> own c" if "b \<in> own ?a" for b using own_blocks[OF s(1) that] h1[of b] by (simp_all split: if_splits)
  note oa = this
  have wf2: "args_wf ?a h2" using same_blocks(1)[OF s(1) oa(1)] by blast
  obtain h3 where 3: "args_destroy ?a h2 = Some h3" "blocks h3 = rest ?a h2" "app_mem h3 = app_mem h2" using destroy_ok[OF wf2] by blast
  have c3: "blocks h3 b = blocks h2 b" if "b \<in> own c" for b using that oa(2) 3(2) by (auto simp: rest_def restrict_map_def)
  note wf3 = same_blocks[OF 2(2) c3]
  obtain h4 where 4: "args_destroy c h3 = Some h4" "blocks h4 = rest c h3" "app_mem h4 = app_mem h3" using destroy_ok[OF wf3(1)] by blast
  have "blocks h4 = blocks h1 |` (- own ?a)" unfolding 4(2) rest_def 3(2) by (auto simp: h1 restrict_map_def)
  then have b: "blocks h4 = blocks h" using s(3) by (simp add: rest_def)
  have m: "meaning c h2 i = v \<and> meaning c h3 i = v" if "fold wanted ss Map.empty i = Some v" for i v
    using s(5)[OF that] 2(5,6) wf3(2)[of i] by simp
  show ?thesis using 1(1) s(4,5) 2(1,4) 3(1,3) 4(1,3) b m by (intro exI[of _ k] exI[of _ h1] exI[of _ c] exI[of _ h2] exI[of _ h3] exI[of _ h4]) simp
qed

definition empty_mem :: host_mem where
  "empty_mem = \<lparr>blocks = Map.empty, app_mem = [7 \<mapsto> replicate 8 0], next_block = 0\<rparr>"

theorem kernel_args_life_witness:
  "\<exists>k h1. run_settings [Set_Value 0 [1, 2], Set_Pointer 2 (P_App 7), Set_Value 0 [3]] (new_kernel, empty_mem) = Some (k, h1) \<and>
     meaning (Args k) h1 0 = Value [3] \<and> meaning (Args k) h1 2 = Pointer (P_App 7)"
proof -
  let ?ss = "[Set_Value 0 [1, 2], Set_Pointer 2 (P_App 7), Set_Value 0 [3]]"
  have "heap_ok empty_mem" by (simp add: heap_ok_def empty_mem_def)
  moreover have "list_all (of_kind (\<lambda>i. i = 0)) ?ss" by (simp add: of_kind_def)
  moreover have "fold wanted ?ss Map.empty 0 = Some (Value [3])" "fold wanted ?ss Map.empty 2 = Some (Pointer (P_App 7))" by (simp_all add: wanted_def)
  ultimately show ?thesis using kernel_args_life[of empty_mem "\<lambda>i. i = 0" ?ss] by blast
qed

section \<open>Local memory\<close>

text \<open>The part of the pool that a thread has for an entry of the list of local arguments, and its size.\<close>

definition local_offset :: "nat \<Rightarrow> local_arg_info list \<Rightarrow> nat \<Rightarrow> nat \<Rightarrow> nat" where
  "local_offset n es e t = (\<Sum>x \<leftarrow> take e es. unat (argSize x) * n) + unat (argSize (es ! e)) * t"

abbreviation local_size :: "local_arg_info list \<Rightarrow> nat \<Rightarrow> nat" where
  "local_size es e \<equiv> unat (argSize (es ! e))"

definition pool_size :: "nat \<Rightarrow> local_arg_info list \<Rightarrow> nat" where
  "pool_size n es = (\<Sum>x \<leftarrow> es. unat (argSize x) * n)"

lemma reqSize_sum: "foldl (\<lambda>r entry. r + argSize entry * N) r es = r + of_nat (pool_size (unat N) es)"
  by (induction es arbitrary: r) (simp_all add: pool_size_def algebra_simps)

lemma reqSize_nat: "pool_size (unat N) es < 2 ^ 64 \<Longrightarrow> unat (reqSize N es) = pool_size (unat N) es"
  unfolding reqSize_def reqSize_sum by (simp add: unat_of_nat take_bit_nat_def)

lemma local_places_length [simp]: "length (local_places N T off es R) = length R"
  by (induction es arbitrary: off R) simp_all

lemma local_places_other: "i \<notin> argIndex ` set es \<Longrightarrow> local_places N T off es R ! i = R ! i"
  by (induction es arbitrary: off R) (auto simp: nth_list_update)

lemma local_places_nth:
  assumes "e < length es" "distinct (map argIndex es)" "argIndex (es ! e) < length R"
  shows "local_places N T off es R ! argIndex (es ! e) = P_Local (off + of_nat (local_offset (unat N) es e (unat T)))"
  using assms
proof (induction es arbitrary: off R e)
  case (Cons x es)
  show ?case
  proof (cases e)
    case 0
    then have "argIndex x \<notin> argIndex ` set es" "argIndex x < length R" using Cons.prems(2,3) by auto
    then show ?thesis using 0 by (simp add: local_places_other local_offset_def)
  next
    case (Suc d)
    then show ?thesis using Cons.IH[of d "R[argIndex x := P_Local (off + argSize x * T)]" "off + argSize x * N"] Cons.prems
      by (simp add: local_offset_def algebra_simps)
  qed
qed simp

lemma take_sum_le: "e < length es \<Longrightarrow> (\<Sum>x \<leftarrow> take e es. f x) + f (es ! e) \<le> (\<Sum>x \<leftarrow> es. f x :: nat)"
  by (induction es arbitrary: e) (auto simp: take_Cons nth_Cons split: nat.split)

lemma take_sum_mono: "e < d \<Longrightarrow> d < length es \<Longrightarrow> (\<Sum>x \<leftarrow> take e es. f x) + f (es ! e) \<le> (\<Sum>x \<leftarrow> take d es. f x :: nat)"
  using take_sum_le[of e "take d es" f] by simp

text \<open>A part is inside the pool, and inside the part of its entry.\<close>

lemma local_offset_fits:
  assumes "e < length es" "t < n"
  shows "local_offset n es e t + local_size es e \<le> (\<Sum>x \<leftarrow> take e es. unat (argSize x) * n) + local_size es e * n"
    "local_offset n es e t + local_size es e \<le> pool_size n es"
proof -
  have "local_size es e * t + local_size es e = local_size es e * (t + 1)" by simp
  also have "\<dots> \<le> local_size es e * n" using assms(2) by (intro mult_le_mono2) simp
  finally show a: "local_offset n es e t + local_size es e \<le> (\<Sum>x \<leftarrow> take e es. unat (argSize x) * n) + local_size es e * n"
    by (simp add: local_offset_def)
  then show "local_offset n es e t + local_size es e \<le> pool_size n es"
    using take_sum_le[OF assms(1), of "\<lambda>x. unat (argSize x) * n"] by (simp add: pool_size_def)
qed

lemma local_parts_apart:
  assumes "e < length es" "d < length es" "t < n" "u < n" "(e, t) \<noteq> (d, u)"
  shows "local_offset n es e t + local_size es e \<le> local_offset n es d u \<or> local_offset n es d u + local_size es d \<le> local_offset n es e t"
proof -
  let ?f = "\<lambda>x. unat (argSize x) * n"
  have less: "local_offset n es e t + local_size es e \<le> local_offset n es d u" if "e < d" "e < length es" "d < length es" "t < n" for e d t u
    using local_offset_fits(1)[OF that(2,4)] take_sum_mono[OF that(1,3), of ?f] by (simp add: local_offset_def)
  have same: "local_offset n es e t + local_size es e \<le> local_offset n es e u" if "t < u" for e t u
  proof -
    have "local_size es e * (t + 1) \<le> local_size es e * u" using that by (intro mult_le_mono2) simp
    then show ?thesis by (simp add: local_offset_def)
  qed
  consider "e < d" | "d < e" | "e = d" "t < u" | "e = d" "u < t" using assms(5) by (metis linorder_neqE_nat)
  then show ?thesis
  proof cases
    case 1 then show ?thesis using less assms by blast
  next
    case 2 then show ?thesis using less assms by blast
  next
    case 3 then show ?thesis using same by simp
  next
    case 4 then show ?thesis using same by simp
  qed
qed

text \<open>Two threads, or two local arguments, have parts that do not overlap, in a pool of exactly the size needed.\<close>

lemma local_memory_apart:
  assumes "distinct (map argIndex (localArgInfo k))" "list_all (\<lambda>x. argIndex x < length (Indices (Args k))) (localArgInfo k)"
    "pool_size (unat N) (localArgInfo k) < 2 ^ 64" "e < length (localArgInfo k)" "d < length (localArgInfo k)" "T < N" "U < N" "(e, T) \<noteq> (d, U)"
  shows "\<exists>p q. getArgs N T (updateMemPool N k) ! argIndex (localArgInfo k ! e) = P_Local p \<and> getArgs N U (updateMemPool N k) ! argIndex (localArgInfo k ! d) = P_Local q \<and>
    unat p + unat (argSize (localArgInfo k ! e)) \<le> pool_size (unat N) (localArgInfo k) \<and>
    (unat p + unat (argSize (localArgInfo k ! e)) \<le> unat q \<or> unat q + unat (argSize (localArgInfo k ! d)) \<le> unat p) \<and>
    (pool_size (unat N) (localArgInfo k) \<noteq> 0 \<longrightarrow> unat (localMemPoolSize (updateMemPool N k)) = pool_size (unat N) (localArgInfo k))"
proof -
  let ?es = "localArgInfo k" and ?n = "unat N"
  have f: "localArgInfo (updateMemPool N k) = ?es" "Args (updateMemPool N k) = Args k" by (simp_all add: updateMemPool_def Let_def)
  have tu: "unat T < ?n" "unat U < ?n" "(e, unat T) \<noteq> (d, unat U)" using assms(6-8) by (auto simp: word_less_nat_alt word_unat_eq_iff)
  have g: "getArgs N V (updateMemPool N k) ! argIndex (?es ! c) = P_Local (of_nat (local_offset ?n ?es c (unat V)))" if "c < length ?es" for c V
  proof -
    have "argIndex (?es ! c) < nargs (Args k)" using assms(2) that by (simp add: list_all_length)
    then show ?thesis using local_places_nth[OF that assms(1), of "Indices (Args k)" N V 0] by (simp add: getArgs_def f)
  qed
  have w: "unat (of_nat (local_offset ?n ?es c t) :: u64) = local_offset ?n ?es c t" if "c < length ?es" "t < ?n" for c t
    using local_offset_fits(2)[OF that] assms(3) by (simp add: unat_of_nat take_bit_nat_def)
  have "pool_size ?n ?es \<noteq> 0 \<longrightarrow> unat (localMemPoolSize (updateMemPool N k)) = pool_size ?n ?es"
    using reqSize_nat[OF assms(3)] by (auto simp: updateMemPool_def Let_def)
  then show ?thesis
    using g[OF assms(4), of T] g[OF assms(5), of U] w[OF assms(4) tu(1)] w[OF assms(5) tu(2)] local_offset_fits(2)[OF assms(4) tu(1)] local_parts_apart[OF assms(4,5) tu(1,2,3)] by simp
qed

section \<open>A launch with its arguments\<close>

datatype ncpu_exp_arg = Exp_Value nat "u8 list" | Exp_Pointer nat host_ptr | Exp_Mem nat "host_ptr option" | Exp_Local nat u64 | Exp_Sampler nat

definition set_exp_arg_ncpu :: "ncpu_exp_arg \<Rightarrow> ncpu_kernel \<times> host_mem \<Rightarrow> (ur_result \<times> ncpu_kernel \<times> host_mem) option" where
  "set_exp_arg_ncpu x kh =
     (case x of
        Exp_Value i bs \<Rightarrow> kernel_addArg bs i kh
      | Exp_Pointer i p \<Rightarrow> (case kernel_addPtrArg p i (fst kh) of (r, k) \<Rightarrow> Some (r, k, snd kh))
      | Exp_Mem i mem \<Rightarrow> (case addMemObjArg_ncpu mem i (fst kh) of (r, k) \<Rightarrow> Some (r, k, snd kh))
      | Exp_Local i sz \<Rightarrow> Some (UR_RESULT_SUCCESS, kernel_addLocalArg i sz (fst kh), snd kh)
      | Exp_Sampler i \<Rightarrow> Some (UR_RESULT_ERROR_UNSUPPORTED_FEATURE, fst kh, snd kh))"

fun set_exp_args_ncpu :: "ncpu_exp_arg list \<Rightarrow> ncpu_kernel \<times> host_mem \<Rightarrow> (ur_result \<times> ncpu_kernel \<times> host_mem) option" where
  "set_exp_args_ncpu [] kh = Some (UR_RESULT_SUCCESS, kh)"
| "set_exp_args_ncpu (x # xs) kh =
     (case set_exp_arg_ncpu x kh of
        None \<Rightarrow> None
      | Some (r, kh') \<Rightarrow> if r \<noteq> UR_RESULT_SUCCESS then Some (r, kh') else set_exp_args_ncpu xs kh')"

text \<open>The launch copies the kernel; the copy has no pool yet.\<close>

definition ncpu_launch_with_args ::
  "ncpu_exp_arg list \<Rightarrow> bool \<Rightarrow> bool \<Rightarrow> nat \<Rightarrow> u64 list option \<Rightarrow> u64 list \<Rightarrow> u64 list option \<Rightarrow> u64 \<Rightarrow> ncpu_limits \<Rightarrow> ncpu_kernel \<times> host_mem \<Rightarrow>
   (ncpu_state list list \<times> ncpu_kernel \<times> ncpu_kernel \<times> host_mem) outcome" where
  "ncpu_launch_with_args xs flags other_props d off G L N lim kh =
     (case set_exp_args_ncpu xs kh of
        None \<Rightarrow> Undefined
      | Some (r, k, h) \<Rightarrow>
          if r \<noteq> UR_RESULT_SUCCESS then Failed r
          else case ncpu_launch flags other_props d off G L N lim of
                 Failed e \<Rightarrow> Failed e
               | Escaped e \<Rightarrow> Escaped e
               | Undefined \<Rightarrow> Undefined
               | Finished tasks \<Rightarrow>
                   (case args_copy (Args k) h of
                      None \<Rightarrow> Undefined
                    | Some (c, h') \<Rightarrow> Finished (tasks, k, updateMemPool N (k\<lparr>Args := c, localMemPoolSize := 0\<rparr>), h')))"

fun exp_index :: "ncpu_exp_arg \<Rightarrow> nat" where
  "exp_index (Exp_Value i _) = i"
| "exp_index (Exp_Pointer i _) = i"
| "exp_index (Exp_Mem i _) = i"
| "exp_index (Exp_Local i _) = i"
| "exp_index (Exp_Sampler i) = i"

text \<open>Arguments the adapter can take, and what they ask for.\<close>

fun exp_ok :: "ncpu_exp_arg \<Rightarrow> bool" where
  "exp_ok (Exp_Value i bs) = (bs \<noteq> [])"
| "exp_ok (Exp_Pointer i p) = (\<exists>a. p = P_App a)"
| "exp_ok (Exp_Mem i m) = (\<exists>a. m = Some (P_App a))"
| "exp_ok (Exp_Local i sz) = True"
| "exp_ok (Exp_Sampler i) = False"

fun exp_meaning :: "ncpu_exp_arg \<Rightarrow> arg_meaning" where
  "exp_meaning (Exp_Value i bs) = Value bs"
| "exp_meaning (Exp_Pointer i p) = Pointer p"
| "exp_meaning (Exp_Mem i m) = Pointer (case m of Some p \<Rightarrow> p | None \<Rightarrow> P_Null)"
| "exp_meaning (Exp_Local i sz) = Pointer P_Null"
| "exp_meaning (Exp_Sampler i) = Broken"

fun local_of :: "ncpu_exp_arg \<Rightarrow> local_arg_info list" where
  "local_of (Exp_Local i sz) = [\<lparr>argIndex = i, argSize = sz\<rparr>]"
| "local_of _ = []"

fun is_exp_value :: "ncpu_exp_arg \<Rightarrow> bool" where
  "is_exp_value (Exp_Value _ _) = True"
| "is_exp_value _ = False"

lemma settled_exp:
  assumes s: "settled is_value h0 m (Args k) h" and ok: "exp_ok x" and v: "is_value (exp_index x) = is_exp_value x"
  shows "\<exists>k' h'. set_exp_arg_ncpu x (k, h) = Some (UR_RESULT_SUCCESS, k', h') \<and> settled is_value h0 (m(exp_index x \<mapsto> exp_meaning x)) (Args k') h' \<and>
    localArgInfo k' = localArgInfo k @ local_of x"
proof (cases x)
  case (Exp_Value i bs)
  obtain k' h' where 1: "apply_setting (Set_Value i bs) (k, h) = Some (k', h')" "settled is_value h0 (wanted (Set_Value i bs) m) (Args k') h'"
    using settled_step[OF s, of "Set_Value i bs"] v Exp_Value by (auto simp: of_kind_def)
  obtain r where 2: "kernel_addArg bs i (k, h) = Some (r, k', h')" using 1(1) by (auto simp: apply_setting_def)
  have 3: "r = UR_RESULT_SUCCESS \<and> localArgInfo k' = localArgInfo k" using 2 ok Exp_Value by (auto simp: kernel_addArg_def)
  have "settled is_value h0 (m(i \<mapsto> Value bs)) (Args k') h'" using 1(2) ok Exp_Value by (simp add: wanted_def)
  then show ?thesis using 2 3 Exp_Value by (simp add: set_exp_arg_ncpu_def)
next
  case (Exp_Pointer i p)
  then show ?thesis using settled_pointer[OF s, of i p] v ok by (auto simp: set_exp_arg_ncpu_def kernel_addPtrArg_def)
next
  case (Exp_Mem i p)
  then obtain a where "p = Some (P_App a)" using ok by auto
  then show ?thesis using settled_pointer[OF s, of i "P_App a"] v Exp_Mem by (auto simp: set_exp_arg_ncpu_def kernel_addPtrArg_def addMemObjArg_ncpu_def)
next
  case (Exp_Local i sz)
  then show ?thesis using settled_pointer[OF s, of i P_Null] v by (auto simp: set_exp_arg_ncpu_def kernel_addLocalArg_def)
next
  case (Exp_Sampler i)
  then show ?thesis using ok by simp
qed

lemma settled_exps:
  assumes "settled is_value h0 m (Args k) h" "list_all exp_ok xs" "\<forall>x \<in> set xs. is_value (exp_index x) = is_exp_value x"
  shows "\<exists>k' h'. set_exp_args_ncpu xs (k, h) = Some (UR_RESULT_SUCCESS, k', h') \<and> settled is_value h0 (fold (\<lambda>x m. m(exp_index x \<mapsto> exp_meaning x)) xs m) (Args k') h' \<and>
    localArgInfo k' = localArgInfo k @ concat (map local_of xs)"
  using assms
proof (induction xs arbitrary: m k h)
  case (Cons x xs)
  obtain k' h' where 1: "set_exp_arg_ncpu x (k, h) = Some (UR_RESULT_SUCCESS, k', h')" "settled is_value h0 (m(exp_index x \<mapsto> exp_meaning x)) (Args k') h'"
    "localArgInfo k' = localArgInfo k @ local_of x" using settled_exp[OF Cons.prems(1), of x] Cons.prems(2,3) by auto
  then show ?case using Cons.IH[OF 1(2)] Cons.prems(2,3) by simp
qed simp

lemma wanted_map:
  "distinct (map exp_index xs) \<Longrightarrow> x \<in> set xs \<Longrightarrow> fold (\<lambda>x m. m(exp_index x \<mapsto> exp_meaning x)) xs m (exp_index x) = Some (exp_meaning x)"
proof (induction xs arbitrary: m)
  case (Cons y xs)
  have other: "fold (\<lambda>x m. m(exp_index x \<mapsto> exp_meaning x)) ys n i = n i" if "i \<notin> exp_index ` set ys" for ys n i
    using that by (induction ys arbitrary: n) auto
  show ?case
  proof (cases "x \<in> set xs")
    case True
    then show ?thesis using Cons by simp
  next
    case False
    then have x: "x = y" and y: "exp_index y \<notin> exp_index ` set xs" using Cons.prems by auto
    show ?thesis unfolding x using other[OF y, of "m(exp_index y \<mapsto> exp_meaning y)"] by (simp only: fold_simps fun_upd_same)
  qed
qed simp

lemma local_of_index: "set (local_of x) \<noteq> {} \<Longrightarrow> map argIndex (local_of x) = [exp_index x]"
  by (cases x) simp_all

lemma local_indices:
  "distinct (map exp_index xs) \<Longrightarrow> distinct (map argIndex (concat (map local_of xs))) \<and>
     argIndex ` set (concat (map local_of xs)) = exp_index ` {x \<in> set xs. local_of x \<noteq> []}"
proof (induction xs)
  case (Cons x xs)
  then show ?case using local_of_index[of x] by (cases "local_of x = []") (auto simp: image_Un)
qed simp

text \<open>
  C32: When the native CPU adapter accepts the sizes of a launch, a launch of a new kernel with values that are not empty, pointers and memory objects that are not null, and local
  arguments, all at different indices and no samplers among them, succeeds; the copy of the kernel that the tasks run
  with finds at every index the value or pointer given, in every thread, the memory of the application is not changed, and if the local memory of all threads has less than 2 to the 64 bytes, each thread has for each local argument
  a part of the pool that overlaps with no other.\<close>

theorem launch_with_args_complete:
  assumes "heap_ok h" "list_all exp_ok xs" "distinct (map exp_index xs)" "ncpu_launch flags other_props d off G L N lim = Finished tasks"
  shows "\<exists>k k' h'. ncpu_launch_with_args xs flags other_props d off G L N lim (new_kernel, h) = Finished (tasks, k, k', h') \<and> app_mem h' = app_mem h \<and>
    (\<forall>x T. x \<in> set xs \<and> local_of x = [] \<longrightarrow> getArgs N T k' ! exp_index x = Indices (Args k') ! exp_index x \<and> meaning (Args k') h' (exp_index x) = exp_meaning x) \<and>
    (\<forall>e c T U. pool_size (unat N) (concat (map local_of xs)) < 2 ^ 64 \<and> e < length (concat (map local_of xs)) \<and> c < length (concat (map local_of xs)) \<and> T < N \<and> U < N \<and> (e, T) \<noteq> (c, U) \<longrightarrow>
       (\<exists>p q. getArgs N T k' ! argIndex (concat (map local_of xs) ! e) = P_Local p \<and> getArgs N U k' ! argIndex (concat (map local_of xs) ! c) = P_Local q \<and>
          unat p + unat (argSize (concat (map local_of xs) ! e)) \<le> pool_size (unat N) (concat (map local_of xs)) \<and>
          (unat p + unat (argSize (concat (map local_of xs) ! e)) \<le> unat q \<or> unat q + unat (argSize (concat (map local_of xs) ! c)) \<le> unat p)))"
proof -
  let ?v = "\<lambda>i. \<exists>x \<in> set xs. exp_index x = i \<and> is_exp_value x" and ?es = "concat (map local_of xs)"
  have A: "settled ?v h Map.empty (Args new_kernel) h" and l0: "localArgInfo new_kernel = []"
    using assms(1) by (simp_all add: settled_def new_kernel_def no_args_def args_wf_def rest_def own_def restrict_map_def)
  have B: "\<forall>x \<in> set xs. ?v (exp_index x) = is_exp_value x" using assms(3) by (auto simp: distinct_map inj_on_def)
  obtain k h1 where 1: "set_exp_args_ncpu xs (new_kernel, h) = Some (UR_RESULT_SUCCESS, k, h1)"
    "settled ?v h (fold (\<lambda>x m. m(exp_index x \<mapsto> exp_meaning x)) xs Map.empty) (Args k) h1" "localArgInfo k = ?es"
    using settled_exps[OF A assms(2) B] by (auto simp: l0)
  have s: "args_wf (Args k) h1" "heap_ok h1" "app_mem h1 = app_mem h" using 1(2) by (simp_all add: settled_def)
  have m: "exp_index x < nargs (Args k) \<and> meaning (Args k) h1 (exp_index x) = exp_meaning x" if "x \<in> set xs" for x
    using 1(2) wanted_map[OF assms(3) that] by (simp add: settled_def)
  obtain c h2 where 2: "args_copy (Args k) h1 = Some (c, h2)" "app_mem h2 = app_mem h1" "nargs c = nargs (Args k)"
    "\<forall>i < nargs (Args k). meaning c h2 i = meaning (Args k) h1 i" using copy_ok[OF s(1,2)] by blast
  let ?kc = "k\<lparr>Args := c, localMemPoolSize := 0\<rparr>"
  let ?k = "updateMemPool N ?kc"
  have k: "Args ?k = c" "localArgInfo ?k = ?es" using 1(3) by (simp_all add: updateMemPool_def Let_def)
  note li = local_indices[OF assms(3)]
  have a: "getArgs N T ?k ! exp_index x = Indices (Args ?k) ! exp_index x \<and> meaning (Args ?k) h2 (exp_index x) = exp_meaning x"
    if "x \<in> set xs" "local_of x = []" for x T
  proof -
    have "exp_index x \<notin> argIndex ` set ?es" using that li assms(3) by (auto simp: distinct_map inj_on_def)
    then show ?thesis using m[OF that(1)] 2(4) by (simp add: getArgs_def k local_places_other)
  qed
  have i: "list_all (\<lambda>x. argIndex x < length (Indices (Args ?kc))) (localArgInfo ?kc)"
  proof -
    have "argIndex y < nargs c" if "y \<in> set ?es" for y
    proof -
      have "argIndex y \<in> exp_index ` {x \<in> set xs. local_of x \<noteq> []}" using li that by blast
      then show ?thesis using m 2(3) by auto
    qed
    then show ?thesis using 1(3) by (simp add: list_all_iff)
  qed
  have "localArgInfo ?kc = ?es" using 1(3) by simp
  note b = local_memory_apart[of ?kc N, unfolded this, OF conjunct1[OF li] i[unfolded this]]
  have "ncpu_launch_with_args xs flags other_props d off G L N lim (new_kernel, h) = Finished (tasks, k, ?k, h2)"
    using 1(1) 2(1) assms(4) by (simp add: ncpu_launch_with_args_def)
  moreover have "\<exists>p q. getArgs N T ?k ! argIndex (?es ! e) = P_Local p \<and> getArgs N U ?k ! argIndex (?es ! c) = P_Local q \<and>
      unat p + unat (argSize (?es ! e)) \<le> pool_size (unat N) ?es \<and> (unat p + unat (argSize (?es ! e)) \<le> unat q \<or> unat q + unat (argSize (?es ! c)) \<le> unat p)"
    if "pool_size (unat N) ?es < 2 ^ 64 \<and> e < length ?es \<and> c < length ?es \<and> T < N \<and> U < N \<and> (e, T) \<noteq> (c, U)" for e c T U
    using b[of e c T U] that by blast
  moreover have "app_mem h2 = app_mem h" using 2(2) s(3) by simp
  ultimately show ?thesis using a by (intro exI conjI) (assumption, assumption, blast, blast)
qed

theorem launch_with_args_complete_witness:
  "\<exists>tasks k k' h' p q. ncpu_launch_with_args [Exp_Local 1 24, Exp_Value 0 [5]] False False 2 None [6, 1] (Some [3, 1]) 2 no_limits (new_kernel, empty_mem) = Finished (tasks, k, k', h') \<and>
     meaning (Args k') h' 0 = Value [5] \<and> getArgs 2 0 k' ! 1 = P_Local p \<and> getArgs 2 1 k' ! 1 = P_Local q \<and> (unat p + 24 \<le> unat q \<or> unat q + 24 \<le> unat p)"
proof -
  let ?n = "new_NDRDescT 2 None [6, 1] (Some [3, 1])" and ?xs = "[Exp_Local 1 24, Exp_Value 0 [5]]"
  have n: "GlobalSize ?n = [6, 1, 1]" "LocalSize ?n = [3, 1, 1]" by code_simp+
  have "\<not> too_many_items ?n" by (simp add: too_many_items_def umulll_overflow_def n)
  then have f: "ncpu_launch False False 2 None [6, 1] (Some [3, 1]) 2 no_limits = Finished (launch_tasks ?n 2)"
    by (simp add: ncpu_launch_def n no_limits_def ncpu_given_sizes_def upt_rec Let_def)
  have e: "heap_ok empty_mem" "list_all exp_ok ?xs" "distinct (map exp_index ?xs)" by (simp_all add: heap_ok_def empty_mem_def)
  obtain k k' h' where 1: "ncpu_launch_with_args ?xs False False 2 None [6, 1] (Some [3, 1]) 2 no_limits (new_kernel, empty_mem) = Finished (launch_tasks ?n 2, k, k', h')"
    and 2: "\<forall>x T. x \<in> set ?xs \<and> local_of x = [] \<longrightarrow> getArgs 2 T k' ! exp_index x = Indices (Args k') ! exp_index x \<and> meaning (Args k') h' (exp_index x) = exp_meaning x"
    and 3: "\<forall>e c T U. pool_size (unat (2 :: u64)) (concat (map local_of ?xs)) < 2 ^ 64 \<and> e < length (concat (map local_of ?xs)) \<and> c < length (concat (map local_of ?xs)) \<and> T < 2 \<and> U < 2 \<and> (e, T) \<noteq> (c, U) \<longrightarrow>
       (\<exists>p q. getArgs 2 T k' ! argIndex (concat (map local_of ?xs) ! e) = P_Local p \<and> getArgs 2 U k' ! argIndex (concat (map local_of ?xs) ! c) = P_Local q \<and>
          unat p + unat (argSize (concat (map local_of ?xs) ! e)) \<le> pool_size (unat (2 :: u64)) (concat (map local_of ?xs)) \<and>
          (unat p + unat (argSize (concat (map local_of ?xs) ! e)) \<le> unat q \<or> unat q + unat (argSize (concat (map local_of ?xs) ! c)) \<le> unat p))"
    using launch_with_args_complete[OF e f] by blast
  have l: "concat (map local_of ?xs) = [\<lparr>argIndex = 1, argSize = 24\<rparr>]" by simp
  have p: "pool_size (unat (2 :: u64)) [\<lparr>argIndex = 1, argSize = 24\<rparr>] = 48" by (simp add: pool_size_def)
  have "meaning (Args k') h' 0 = Value [5]" using 2[rule_format, of "Exp_Value 0 [5]"] by simp
  then show ?thesis using 1 3[unfolded l p, rule_format, of 0 0 0 1] by simp blast
qed

section \<open>Where the code goes wrong\<close>

text \<open>An index that had a value and gets a pointer keeps its mark as owner: the next value of the same size is written over the memory of the application,
  and the destruction frees the memory of the application.\<close>

lemma value_over_pointer:
  "\<exists>k h. run_settings [Set_Value 0 (replicate 8 1), Set_Pointer 0 (P_App 7), Set_Value 0 (replicate 8 2)] (new_kernel, empty_mem) = Some (k, h) \<and>
     app_mem h 7 = Some (replicate 8 2)"
  by (simp add: apply_setting_def kernel_addArg_def kernel_addPtrArg_def args_addArg_def args_addPtrArg_def new_kernel_def no_args_def args_resize_def vec_resize_def
      aligned_malloc_def memcpy_host_def put_bytes_def malloc_size_enough empty_mem_def Let_def)

lemma pointer_over_value_freed:
  "\<exists>k h. run_settings [Set_Value 0 [1, 2], Set_Pointer 0 (P_App 7)] (new_kernel, empty_mem) = Some (k, h) \<and> args_destroy (Args k) h = None \<and> blocks h 0 \<noteq> None"
  by (simp add: apply_setting_def kernel_addArg_def kernel_addPtrArg_def args_addArg_def args_addPtrArg_def new_kernel_def no_args_def args_resize_def vec_resize_def
      aligned_malloc_def memcpy_host_def put_bytes_def malloc_size_enough empty_mem_def Let_def args_destroy_def aligned_free_def)

text \<open>A null memory object is reported as set, but the argument stays the one of before, and when there was none there is no such index.\<close>

lemma null_memory_object_ignored: "addMemObjArg_ncpu None i k = (UR_RESULT_SUCCESS, k)"
  by (simp add: addMemObjArg_ncpu_def kernel_addPtrArg_def)

text \<open>An index that had a local argument and gets a value is still taken from the pool, until the list of local arguments is cleared.\<close>

lemma local_hides_value:
  "\<exists>k h. kernel_addArg [1] 0 (kernel_addLocalArg 0 16 new_kernel, empty_mem) = Some (UR_RESULT_SUCCESS, k, h) \<and> meaning (Args k) h 0 = Value [1] \<and>
     getArgs 4 1 k ! 0 = P_Local 16"
  by (simp add: kernel_addLocalArg_def kernel_addArg_def args_addArg_def args_addPtrArg_def new_kernel_def no_args_def args_resize_def vec_resize_def
      aligned_malloc_def memcpy_host_def put_bytes_def malloc_size_enough empty_mem_def Let_def getArgs_def meaning_def block_value_def)

text \<open>The places are not aligned: an argument of eight bytes after one of three bytes is at an odd place.\<close>

lemma local_place_unaligned: "getArgs 1 0 (kernel_addLocalArg 1 8 (kernel_addLocalArg 0 3 new_kernel)) ! 1 = P_Local 3"
  by (simp add: kernel_addLocalArg_def args_addPtrArg_def new_kernel_def no_args_def args_resize_def vec_resize_def getArgs_def)

text \<open>The size of the pool wraps around.\<close>

lemma pool_size_wraps: "reqSize 16 [\<lparr>argIndex = 0, argSize = 2 ^ 60 + 1\<rparr>] = 16"
  by (simp add: reqSize_def)

end
