(* ===== verification/Native_Cpu_Memory.thy ===== *)
theory Native_Cpu_Memory
  imports Native_Cpu_Items
begin

text \<open>
  Memory of the native CPU adapter: USM allocations with the header in front of them (adapters/native_cpu/context.hpp and usm.cpp), and the commands that
  fill and copy memory (enqueue.cpp). Memory is a function from 64-bit addresses to bytes. The block that \<open>aligned_alloc\<close> returns is an argument.
\<close>

section \<open>USM allocations\<close>

datatype usm_type = UR_USM_TYPE_UNKNOWN | UR_USM_TYPE_HOST | UR_USM_TYPE_DEVICE | UR_USM_TYPE_SHARED

record usm_alloc_info =
  usm_kind :: usm_type
  base_ptr :: u64
  usm_size :: u64
  base_alloc_ptr :: u64

definition usm_alloc_info_null_entry :: usm_alloc_info where
  "usm_alloc_info_null_entry = \<lparr>usm_kind = UR_USM_TYPE_UNKNOWN, base_ptr = 0, usm_size = 0, base_alloc_ptr = 0\<rparr>"

definition alloc_header_size :: u64 where "alloc_header_size = 48"

definition get_padding :: "u64 \<Rightarrow> u64" where
  "get_padding alignment =
     (if alignment = 0 \<or> alloc_header_size mod alignment = 0 then 0
      else if alignment \<le> alloc_header_size then alignment - alloc_header_size mod alignment
      else alignment - alloc_header_size)"

text \<open>The context: the headers by address, the pointers handed out, and the blocks that are allocated, with their sizes.\<close>

record ncpu_context =
  headers :: "u64 \<rightharpoonup> usm_alloc_info"
  allocations :: "u64 set"
  live_blocks :: "u64 \<rightharpoonup> u64"

definition block_size :: "u64 \<Rightarrow> u64 \<Rightarrow> u64" where
  "block_size alignment sz = alloc_header_size + get_padding alignment + sz"

definition get_alloc_info_addr :: "u64 \<Rightarrow> u64" where
  "get_alloc_info_addr ptr = ptr - alloc_header_size"

definition add_alloc :: "u64 option \<Rightarrow> u64 \<Rightarrow> usm_type \<Rightarrow> u64 \<Rightarrow> ncpu_context \<Rightarrow> u64 option \<times> ncpu_context" where
  "add_alloc block alignment type sz c =
     (let al = max alignment 8
      in case block of
           None \<Rightarrow> (None, c)
         | Some alloc \<Rightarrow>
             let ptr = alloc_header_size + get_padding al + alloc
             in (Some ptr, c\<lparr>headers := (headers c)(get_alloc_info_addr ptr \<mapsto> \<lparr>usm_kind = type, base_ptr = ptr, usm_size = sz, base_alloc_ptr = alloc\<rparr>),
                   allocations := insert ptr (allocations c), live_blocks := (live_blocks c)(alloc \<mapsto> block_size al sz)\<rparr>))"

definition alloc_helper :: "u64 option \<Rightarrow> u64 option \<Rightarrow> u64 \<Rightarrow> bool \<Rightarrow> usm_type \<Rightarrow> ncpu_context \<Rightarrow> (ur_result + u64) \<times> ncpu_context" where
  "alloc_helper block align sz has_result type c =
     (let alignment = (case align of Some a \<Rightarrow> if a \<noteq> 0 then a else 1 | None \<Rightarrow> 1)
      in if \<not> isPowerOf2 alignment then (Inl UR_RESULT_ERROR_UNSUPPORTED_ALIGNMENT, c)
         else if \<not> has_result then (Inl UR_RESULT_ERROR_INVALID_NULL_POINTER, c)
         else if \<not> 0 < sz then (Inl UR_RESULT_ERROR_INVALID_USM_SIZE, c)
         else case add_alloc block alignment type sz c of
                (None, c') \<Rightarrow> (Inl UR_RESULT_ERROR_OUT_OF_RESOURCES, c')
              | (Some ptr, c') \<Rightarrow> (Inr ptr, c'))"

text \<open>Freeing reads the header; memory that has none gives no result.\<close>

definition remove_alloc :: "u64 \<Rightarrow> ncpu_context \<Rightarrow> (ur_result \<times> ncpu_context) option" where
  "remove_alloc ptr c =
     (case headers c (get_alloc_info_addr ptr) of
        None \<Rightarrow> None
      | Some info \<Rightarrow>
          if usm_kind info = UR_USM_TYPE_UNKNOWN then Some (UR_RESULT_ERROR_INVALID_MEM_OBJECT, c)
          else if live_blocks c (base_alloc_ptr info) = None then None
          else Some (UR_RESULT_SUCCESS, c\<lparr>headers := (headers c)(get_alloc_info_addr ptr := None), allocations := allocations c - {ptr},
                 live_blocks := (live_blocks c)(base_alloc_ptr info := None)\<rparr>))"

definition urUSMFree_ncpu :: "u64 \<Rightarrow> ncpu_context \<Rightarrow> (ur_result \<times> ncpu_context) option" where
  "urUSMFree_ncpu pMem c = (if pMem = 0 then Some (UR_RESULT_ERROR_INVALID_NULL_POINTER, c) else remove_alloc pMem c)"

definition get_alloc_info_entry :: "u64 \<Rightarrow> ncpu_context \<Rightarrow> usm_alloc_info option" where
  "get_alloc_info_entry ptr c = (if ptr \<in> allocations c then headers c (get_alloc_info_addr ptr) else Some usm_alloc_info_null_entry)"

section \<open>Commands\<close>

definition memcpy_mem :: "u64 \<Rightarrow> u8 list \<Rightarrow> (u64 \<Rightarrow> u8) \<Rightarrow> u64 \<Rightarrow> u8" where
  "memcpy_mem dst bs M a = (if unat (a - dst) < length bs then bs ! unat (a - dst) else M a)"

definition read_mem :: "u64 \<Rightarrow> nat \<Rightarrow> (u64 \<Rightarrow> u8) \<Rightarrow> u8 list" where
  "read_mem src n M = map (\<lambda>i. M (src + of_nat i)) [0..<n]"

text \<open>Filling a buffer: the counter has 32 bits.\<close>

partial_function (option) buffer_fill_loop :: "u64 \<Rightarrow> u64 \<Rightarrow> u8 list \<Rightarrow> 32 word \<Rightarrow> (u64 \<Rightarrow> u8) \<Rightarrow> (u64 \<Rightarrow> u8) option" where
  "buffer_fill_loop startingPtr steps pattern i M =
     (if ucast i < steps then buffer_fill_loop startingPtr steps pattern (i + 1) (memcpy_mem (startingPtr + ucast i * of_nat (length pattern)) pattern M)
      else Some M)"

definition buffer_fill :: "u64 \<Rightarrow> u64 \<Rightarrow> u64 \<Rightarrow> u8 list \<Rightarrow> (u64 \<Rightarrow> u8) \<Rightarrow> (u64 \<Rightarrow> u8) option" where
  "buffer_fill mem offset sz pattern M = buffer_fill_loop (mem + offset) (sz div of_nat (length pattern)) pattern 0 M"

text \<open>Filling USM memory: with a pattern of one, two, four or eight bytes the elements are set one after the other, with other patterns by copies.\<close>

fun usm_fill_loop :: "nat \<Rightarrow> u64 \<Rightarrow> u8 list \<Rightarrow> u64 \<Rightarrow> (u64 \<Rightarrow> u8) \<Rightarrow> u64 \<Rightarrow> u8" where
  "usm_fill_loop 0 ptr pattern step M = M"
| "usm_fill_loop (Suc n) ptr pattern step M = usm_fill_loop n ptr pattern (step + of_nat (length pattern)) (memcpy_mem (ptr + step) pattern M)"

definition usm_fill :: "u64 \<Rightarrow> u8 list option \<Rightarrow> u64 \<Rightarrow> u64 \<Rightarrow> (u64 \<Rightarrow> u8) \<Rightarrow> ur_result \<times> (u64 \<Rightarrow> u8)" where
  "usm_fill ptr pPattern patternSize sz M =
     (case pPattern of
        None \<Rightarrow> (UR_RESULT_ERROR_INVALID_NULL_POINTER, M)
      | Some pattern \<Rightarrow>
          if ptr = 0 then (UR_RESULT_ERROR_INVALID_NULL_POINTER, M)
          else if patternSize = 0 \<or> sz = 0 \<or> \<not> patternSize \<le> sz \<or> sz mod patternSize \<noteq> 0 then (UR_RESULT_ERROR_INVALID_SIZE, M)
          else (UR_RESULT_SUCCESS, usm_fill_loop (unat sz div unat patternSize) ptr pattern 0 M))"

text \<open>Copies of rectangles, byte by byte, between a buffer and other memory.\<close>

definition rect_place :: "u64 \<Rightarrow> u64 \<times> u64 \<times> u64 \<Rightarrow> u64 \<Rightarrow> u64 \<Rightarrow> nat \<times> nat \<times> nat \<Rightarrow> u64" where
  "rect_place mem origin RowPitch SlicePitch p =
     (case (origin, p) of ((x, y, z), (w, h, d)) \<Rightarrow> mem + ((of_nat d + z) * SlicePitch + (of_nat h + y) * RowPitch + of_nat w + x))"

definition rect_order :: "u64 \<times> u64 \<times> u64 \<Rightarrow> (nat \<times> nat \<times> nat) list" where
  "rect_order region = (case region of (width, height, depth) \<Rightarrow> [(w, h, d). w \<leftarrow> [0..<unat width], h \<leftarrow> [0..<unat height], d \<leftarrow> [0..<unat depth]])"

definition rect_row_pitch :: "u64 \<Rightarrow> u64 \<times> u64 \<times> u64 \<Rightarrow> u64" where
  "rect_row_pitch RowPitch region = (if RowPitch = 0 then fst region else RowPitch)"

definition rect_slice_pitch :: "u64 \<Rightarrow> u64 \<Rightarrow> u64 \<times> u64 \<times> u64 \<Rightarrow> u64" where
  "rect_slice_pitch SlicePitch RowPitch region = (if SlicePitch = 0 then rect_row_pitch RowPitch region * fst (snd region) else SlicePitch)"

definition MemBufferReadWriteRect_impl ::
  "bool \<Rightarrow> u64 \<Rightarrow> u64 \<times> u64 \<times> u64 \<Rightarrow> u64 \<times> u64 \<times> u64 \<Rightarrow> u64 \<times> u64 \<times> u64 \<Rightarrow> u64 \<Rightarrow> u64 \<Rightarrow> u64 \<Rightarrow> u64 \<Rightarrow> u64 \<Rightarrow> (u64 \<Rightarrow> u8) \<Rightarrow> u64 \<Rightarrow> u8" where
  "MemBufferReadWriteRect_impl IsRead mem BufferOffset HostOffset region BufferRowPitch BufferSlicePitch HostRowPitch HostSlicePitch DstMem M =
     (let buff = rect_place mem BufferOffset (rect_row_pitch BufferRowPitch region) (rect_slice_pitch BufferSlicePitch BufferRowPitch region);
          hst = rect_place DstMem HostOffset (rect_row_pitch HostRowPitch region) (rect_slice_pitch HostSlicePitch HostRowPitch region)
      in fold (\<lambda>p M. if IsRead then M(hst p := M (buff p)) else M(buff p := M (hst p))) (rect_order region) M)"

text \<open>The copy of a command.\<close>

definition doCopy_impl :: "u64 \<Rightarrow> u64 \<Rightarrow> u64 \<Rightarrow> (u64 \<Rightarrow> u8) \<Rightarrow> u64 \<Rightarrow> u8" where
  "doCopy_impl DstPtr SrcPtr Size M = (if SrcPtr = DstPtr \<or> Size = 0 then M else memcpy_mem DstPtr (read_mem SrcPtr (unat Size) M) M)"

end
