(* ===== verification/Native_Cpu_Memory_Props.thy ===== *)
theory Native_Cpu_Memory_Props
  imports Native_Cpu_Memory
begin

text \<open>
  Memory of the native CPU adapter, continued: USM pointers are aligned and their headers are in front of them, fills write exactly the pattern,
  and copies of rectangles move exactly the region.
\<close>

section \<open>USM allocations\<close>

lemma padding_nat:
  assumes "al \<noteq> 0" "unat al < 2 ^ 32"
  shows "unat (alloc_header_size + get_padding al) mod unat al = 0" "unat (alloc_header_size + get_padding al) = 48 + unat (get_padding al)"
    "unat (get_padding al) < 2 ^ 32"
proof -
  have 48: "unat alloc_header_size = 48" by (simp add: alloc_header_size_def)
  have al: "0 < unat al" using assms(1) by (simp add: unat_gt_0)
  have pad: "unat (get_padding al) = (if 48 mod unat al = 0 then 0 else if unat al \<le> 48 then unat al - 48 mod unat al else unat al - 48)"
  proof -
    have "alloc_header_size mod al \<le> al" using al by (simp add: word_le_nat_alt unat_mod less_imp_le)
    then show ?thesis using al 48 by (auto simp: get_padding_def unat_mod unat_sub word_le_nat_alt unat_eq_0 simp flip: unat_0_iff)
  qed
  show p: "unat (get_padding al) < 2 ^ 32" using assms(2) unfolding pad by (auto split: if_splits)
  then show s: "unat (alloc_header_size + get_padding al) = 48 + unat (get_padding al)" using 48 by (simp add: unat_word_ariths(1))
  show "unat (alloc_header_size + get_padding al) mod unat al = 0"
  proof (cases "48 mod unat al = 0 \<or> unat al > 48")
    case True
    then show ?thesis unfolding s pad by auto
  next
    case False
    have "48 mod unat al < unat al" using al by simp
    then have "48 + (unat al - 48 mod unat al) = unat al * (48 div unat al) + unat al" using mult_div_mod_eq[of "unat al" 48] by linarith
    then show ?thesis unfolding s pad using False by simp
  qed
qed

text \<open>The alignment the adapter uses is a multiple of the one asked for.\<close>

lemma small_power: "isPowerOf2 v \<Longrightarrow> unat v < 8 \<Longrightarrow> unat v dvd 8"
proof -
  assume p: "isPowerOf2 v" and "unat v < 8"
  then consider "unat v = 0" | "unat v = 1" | "unat v = 2" | "unat v = 3" | "unat v = 4" | "unat v = 5" | "unat v = 6" | "unat v = 7" by linarith
  moreover have "v = of_nat (unat v)" by simp
  ultimately have "v \<in> {1, 2, 4}" using p by cases (auto simp: isPowerOf2_def)
  then show ?thesis by auto
qed

lemma max_align: "isPowerOf2 v \<Longrightarrow> unat v dvd unat (max v 8)"
  using small_power[of v] by (cases "unat v = 8") (auto simp: max_def word_le_nat_alt)

definition asked_alignment :: "u64 option \<Rightarrow> u64" where
  "asked_alignment align = (case align of Some a \<Rightarrow> if a \<noteq> 0 then a else 1 | None \<Rightarrow> 1)"

text \<open>What \<open>aligned_alloc\<close> promises: an address that is a multiple of the alignment, and room for the size without wrapping around.\<close>

definition block_fits :: "u64 \<Rightarrow> u64 \<Rightarrow> u64 \<Rightarrow> bool" where
  "block_fits blk al sz \<longleftrightarrow> unat blk mod unat al = 0 \<and> unat blk + 48 + unat (get_padding al) + unat sz < 2 ^ 64"

text \<open>
  C34: When a USM allocation of the native CPU adapter succeeds in a block as \<open>aligned_alloc\<close> promises it, the pointer is a multiple of the alignment that was asked for, the header is directly
  in front of it and inside the block, the bytes of the allocation end exactly at the end of the block, the query returns the type and size, and freeing the pointer succeeds and brings the context
  back to what it was.\<close>

theorem usm_alloc_free:
  assumes ok: "alloc_helper (Some blk) align sz True type c = (Inr p, c')" and al: "unat (asked_alignment align) < 2 ^ 32" and t: "type \<noteq> UR_USM_TYPE_UNKNOWN"
    and blk: "block_fits blk (max (asked_alignment align) 8) sz"
    and fresh: "live_blocks c blk = None" "p \<notin> allocations c" "headers c (p - 48) = None"
  shows "unat p mod unat (asked_alignment align) = 0 \<and> unat blk + 48 \<le> unat p \<and> unat (p - 48) = unat p - 48 \<and>
    (\<exists>n. live_blocks c' blk = Some n \<and> unat p + unat sz = unat blk + unat n) \<and>
    get_alloc_info_entry p c' = Some \<lparr>usm_kind = type, base_ptr = p, usm_size = sz, base_alloc_ptr = blk\<rparr> \<and>
    urUSMFree_ncpu p c' = Some (UR_RESULT_SUCCESS, c)"
proof -
  let ?a = "asked_alignment align" and ?al = "max (asked_alignment align) 8"
  have pw: "isPowerOf2 ?a" and p: "p = alloc_header_size + get_padding ?al + blk"
    and c': "c' = c\<lparr>headers := (headers c)(get_alloc_info_addr p \<mapsto> \<lparr>usm_kind = type, base_ptr = p, usm_size = sz, base_alloc_ptr = blk\<rparr>),
      allocations := insert p (allocations c), live_blocks := (live_blocks c)(blk \<mapsto> block_size ?al sz)\<rparr>"
    using ok by (auto simp: alloc_helper_def add_alloc_def Let_def asked_alignment_def split: if_splits option.splits)
  have al0: "?al \<noteq> 0" "unat ?al < 2 ^ 32" using al by (auto simp: max_def word_le_nat_alt)
  note pn = padding_nat[OF al0]
  have b: "unat blk mod unat ?al = 0" "unat blk + 48 + unat (get_padding ?al) + unat sz < 2 ^ 64" using blk by (simp_all add: block_fits_def)
  have up: "unat p = 48 + unat (get_padding ?al) + unat blk" using b(2) pn(2) unfolding p by (subst unat_word_ariths(1)) simp
  have "unat p mod unat ?al = 0" using pn(1,2) b(1) unfolding up by (metis add.commute add_0 mod_add_left_eq)
  then have 1: "unat p mod unat ?a = 0" using max_align[OF pw] by (metis dvd_trans mod_0_imp_dvd dvd_imp_mod_0)
  have n: "unat (block_size ?al sz) = 48 + unat (get_padding ?al) + unat sz" using b(2) pn(2) unfolding block_size_def by (subst unat_word_ariths(1)) simp
  have 48: "get_alloc_info_addr p = p - 48" by (simp add: get_alloc_info_addr_def alloc_header_size_def)
  have 2: "unat (p - 48) = unat p - 48" using up by (simp add: unat_sub word_le_nat_alt)
  have "p \<noteq> 0" using up by auto
  moreover have "c\<lparr>headers := (headers c)(p - 48 := None), allocations := allocations c - {p}, live_blocks := (live_blocks c)(blk := None)\<rparr> = c"
    using fresh by (simp add: fun_upd_idem)
  ultimately have 3: "urUSMFree_ncpu p c' = Some (UR_RESULT_SUCCESS, c)"
    using fresh t by (simp add: urUSMFree_ncpu_def remove_alloc_def c' 48)
  show ?thesis using 1 2 3 up n by (simp add: c' get_alloc_info_entry_def)
qed

definition no_context :: ncpu_context where
  "no_context = \<lparr>headers = Map.empty, allocations = {}, live_blocks = Map.empty\<rparr>"

theorem usm_alloc_free_witness:
  "\<exists>c'. alloc_helper (Some 4096) (Some 64) 100 True UR_USM_TYPE_HOST no_context = (Inr 4160, c') \<and> urUSMFree_ncpu 4160 c' = Some (UR_RESULT_SUCCESS, no_context)"
proof -
  obtain c' where a: "alloc_helper (Some 4096) (Some 64) 100 True UR_USM_TYPE_HOST no_context = (Inr 4160, c')"
    by (simp add: alloc_helper_def add_alloc_def isPowerOf2_def get_padding_def alloc_header_size_def max_def)
  moreover have "block_fits 4096 (max (asked_alignment (Some 64)) 8) 100" by (simp add: block_fits_def asked_alignment_def get_padding_def alloc_header_size_def max_def)
  ultimately show ?thesis using usm_alloc_free[OF a] by (simp add: asked_alignment_def no_context_def)
qed

text \<open>Near the largest size the size of the block wraps around.\<close>

lemma usm_size_wraps: "block_size 8 (- 16) = 32"
  by (simp add: block_size_def get_padding_def alloc_header_size_def)

section \<open>Fills\<close>

text \<open>A pattern repeated from an address on.\<close>

definition filled :: "u64 \<Rightarrow> u8 list \<Rightarrow> nat \<Rightarrow> (u64 \<Rightarrow> u8) \<Rightarrow> u64 \<Rightarrow> u8" where
  "filled ptr pattern n M a = (if unat (a - ptr) < n * length pattern then pattern ! (unat (a - ptr) mod length pattern) else M a)"

lemma filled_Suc:
  assumes "(k + 1) * length pattern \<le> 2 ^ 64"
  shows "memcpy_mem (ptr + of_nat (k * length pattern)) pattern (filled ptr pattern k M) = filled ptr pattern (Suc k) M"
proof
  fix a :: u64
  let ?n = "length pattern" and ?d = "unat (a - ptr)"
  have d: "?d < 2 ^ 64" using unsigned_less[where ?'a = nat and w = "a - ptr"] by simp
  have o: "a - (ptr + of_nat (k * ?n)) = of_nat ?d - of_nat (k * ?n)" by (simp add: algebra_simps)
  show "memcpy_mem (ptr + of_nat (k * ?n)) pattern (filled ptr pattern k M) a = filled ptr pattern (Suc k) M a"
  proof (cases "k * ?n \<le> ?d")
    case True
    then have "a - (ptr + of_nat (k * ?n)) = of_nat (?d - k * ?n)" unfolding o by (subst of_nat_diff) simp_all
    then have u: "unat (a - (ptr + of_nat (k * ?n))) = ?d - k * ?n" using d by (simp only: of_nat_u64)
    show ?thesis
    proof (cases "?d < (k + 1) * ?n")
      case in_pattern: True
      have l: "?d - k * ?n < ?n" using True in_pattern by simp
      have "?d mod ?n = (?d - k * ?n + k * ?n) mod ?n" using True by simp
      also have "\<dots> = ?d - k * ?n" using l by (simp only: mod_mult_self1 mod_less)
      finally have "?d mod ?n = ?d - k * ?n" .
      with l show ?thesis using u in_pattern by (simp add: memcpy_mem_def filled_def)
    next
      case False
      then have "\<not> ?d - k * ?n < ?n" "\<not> ?d < k * ?n" using True by (simp_all add: not_less)
      then show ?thesis using u False by (simp add: memcpy_mem_def filled_def)
    qed
  next
    case False
    then have "?d < (k + 1) * ?n" by simp
    have "unat (a - (ptr + of_nat (k * ?n))) = 2 ^ 64 - (k * ?n - ?d)"
    proof -
      have k: "k * ?n < 2 ^ 64" using assms False by (cases pattern) auto
      have "of_nat ?d - of_nat (k * ?n) = (of_nat (2 ^ 64 - (k * ?n - ?d)) :: u64)"
        using False k by (simp add: of_nat_diff)
      moreover have "2 ^ 64 - (k * ?n - ?d) < 2 ^ 64" using False by simp
      ultimately show ?thesis unfolding o by (simp only: of_nat_u64)
    qed
    moreover have "\<not> 2 ^ 64 - (k * ?n - ?d) < ?n" using assms by simp
    ultimately show ?thesis using False by (simp add: memcpy_mem_def filled_def)
  qed
qed

lemma filled_0 [simp]: "filled ptr pattern 0 M = M"
  by (simp add: filled_def fun_eq_iff)

lemma usm_fill_loop_filled:
  "(k + n) * length pattern \<le> 2 ^ 64 \<Longrightarrow> usm_fill_loop n ptr pattern (of_nat (k * length pattern)) (filled ptr pattern k M) = filled ptr pattern (k + n) M"
proof (induction n arbitrary: k)
  case (Suc n)
  have "(k + 1) * length pattern \<le> (k + Suc n) * length pattern" by (rule mult_le_mono1) simp
  then have f: "memcpy_mem (ptr + of_nat (k * length pattern)) pattern (filled ptr pattern k M) = filled ptr pattern (Suc k) M"
    using Suc.prems by (intro filled_Suc) linarith
  have "of_nat (k * length pattern) + of_nat (length pattern) = (of_nat (Suc k * length pattern) :: u64)" by (simp add: add.commute)
  then show ?case using Suc.IH[of "Suc k"] Suc.prems by (simp only: usm_fill_loop.simps f add_Suc_shift)
qed simp

text \<open>A fill of USM memory that is accepted writes the pattern over the whole range.\<close>

lemma usm_fill_exact:
  assumes "usm_fill ptr (Some pattern) patternSize sz M = (UR_RESULT_SUCCESS, M')" "unat patternSize = length pattern"
  shows "M' a = (if unat (a - ptr) < unat sz then pattern ! (unat (a - ptr) mod length pattern) else M a)"
proof -
  have c: "patternSize \<noteq> 0" "sz mod patternSize = 0" "M' = usm_fill_loop (unat sz div unat patternSize) ptr pattern 0 M"
    using assms(1) by (auto simp: usm_fill_def split: if_splits)
  have "unat sz mod length pattern = 0" using c(2) assms(2) by (metis unat_0 unat_mod)
  then have n: "unat sz div length pattern * length pattern = unat sz" by (simp add: mod_eq_0_iff_dvd)
  have "unat sz \<le> 2 ^ 64" using unsigned_less[where ?'a = nat and w = sz] by simp
  then show ?thesis using usm_fill_loop_filled[of 0 "unat sz div length pattern" pattern ptr M] n unfolding c(3) assms(2) by (simp add: filled_def)
qed

text \<open>The fill of a buffer.\<close>

lemma unat_ucast32: "unat (ucast (i :: 32 word) :: u64) = unat i"
proof -
  have "unat i < 2 ^ 32" using unsigned_less[where ?'a = nat and w = i] by simp
  then have "unat i < 2 ^ 64" by (rule less_trans) simp
  then show ?thesis by (simp add: unsigned_ucast_eq take_bit_nat_eq_self)
qed

lemma buffer_fill_filled:
  assumes "k \<le> unat steps" "unat steps < 2 ^ 32" "unat steps * length pattern \<le> 2 ^ 64"
  shows "buffer_fill_loop ptr steps pattern (of_nat k) (filled ptr pattern k M) = Some (filled ptr pattern (unat steps) M)"
  using assms(1)
proof (induction "unat steps - k" arbitrary: k)
  case 0
  then have k: "k = unat steps" by simp
  have "unat (of_nat k :: 32 word) = k" using 0 assms(2) by (simp add: unat_of_nat take_bit_nat_def)
  then have "\<not> ucast (of_nat k :: 32 word) < steps" using 0 by (simp only: word_less_nat_alt unat_ucast32)
  then show ?case using k by (subst buffer_fill_loop.simps) simp
next
  case (Suc m)
  then have k: "k < unat steps" by simp
  have u: "ucast (of_nat k :: 32 word) = (of_nat k :: u64)" using k assms(2) by (simp add: word_unat_eq_iff unat_ucast32 unat_of_nat take_bit_nat_def)
  have lt: "(of_nat k :: u64) < steps" using k unsigned_less[where ?'a = nat and w = steps] by (simp add: word_less_nat_alt)
  have "(k + 1) * length pattern \<le> unat steps * length pattern" using k by (intro mult_le_mono1) simp
  then have f: "memcpy_mem (ptr + of_nat (k * length pattern)) pattern (filled ptr pattern k M) = filled ptr pattern (Suc k) M"
    using assms(3) by (intro filled_Suc) linarith
  have m: "of_nat k * of_nat (length pattern) = (of_nat (k * length pattern) :: u64)" "(of_nat k :: 32 word) + 1 = of_nat (Suc k)" by (simp_all add: add.commute)
  have "buffer_fill_loop ptr steps pattern (of_nat k) (filled ptr pattern k M) = buffer_fill_loop ptr steps pattern (of_nat (Suc k)) (filled ptr pattern (Suc k) M)"
    by (subst buffer_fill_loop.simps) (simp only: u lt if_True m f)
  then show ?case using Suc.hyps(1)[of "Suc k"] Suc.hyps(2) k by simp
qed

lemma buffer_fill_forever:
  assumes "2 ^ 32 \<le> unat steps"
  shows "buffer_fill_loop ptr steps pattern i M = None"
proof -
  have "\<not> 2 ^ 32 \<le> unat s" if "buffer_fill_loop p s pat j N = Some r" for p s pat j N r
  proof (rule buffer_fill_loop.raw_induct[OF _ that, where P = "\<lambda>p s pat j N r. \<not> 2 ^ 32 \<le> unat s"])
    fix f :: "u64 \<Rightarrow> u64 \<Rightarrow> u8 list \<Rightarrow> 32 word \<Rightarrow> (u64 \<Rightarrow> u8) \<Rightarrow> (u64 \<Rightarrow> u8) option" and p s pat j N r
    assume ih: "\<And>p s pat j N r. f p s pat j N = Some r \<Longrightarrow> \<not> 2 ^ 32 \<le> unat s"
      and body: "(if ucast j < s then f p s pat (j + 1) (memcpy_mem (p + ucast j * word_of_nat (length pat)) pat N) else Some N) = Some r"
    have "ucast j < s" if "2 ^ 32 \<le> unat s"
      using unsigned_less[where ?'a = nat and w = j] that by (simp add: word_less_nat_alt unat_ucast32)
    then show "\<not> 2 ^ 32 \<le> unat s" using body ih by (metis (no_types, lifting))
  qed
  then show ?thesis using assms by fastforce
qed

text \<open>
  C35: Filling a buffer of the native CPU adapter with a pattern writes the pattern as often as it fits and nothing else, when it fits less than 2 to the 32 times;
  otherwise the command never returns, because its counter has 32 bits.\<close>

theorem buffer_fill_exact:
  assumes "pattern \<noteq> []" "length pattern < 2 ^ 64"
  shows "buffer_fill mem offset sz pattern M =
    (if unat sz div length pattern < 2 ^ 32
     then Some (\<lambda>a. if unat (a - (mem + offset)) < unat sz div length pattern * length pattern
       then pattern ! (unat (a - (mem + offset)) mod length pattern) else M a)
     else None)"
proof -
  let ?s = "sz div of_nat (length pattern)"
  have s: "unat ?s = unat sz div length pattern" using assms(2) by (simp add: unat_div unat_of_nat take_bit_nat_def)
  have "unat sz div length pattern * length pattern \<le> unat sz" by simp
  moreover have "unat sz < 2 ^ 64" using unsigned_less[where ?'a = nat and w = sz] by simp
  ultimately have l: "unat ?s * length pattern \<le> 2 ^ 64" unfolding s by linarith
  show ?thesis
  proof (cases "unat sz div length pattern < 2 ^ 32")
    case True
    then show ?thesis using buffer_fill_filled[of 0 ?s pattern "mem + offset" M] l s by (simp add: buffer_fill_def filled_def[abs_def])
  next
    case False
    then show ?thesis using buffer_fill_forever[of ?s] s by (simp add: buffer_fill_def)
  qed
qed

theorem buffer_fill_exact_witness:
  "\<exists>M. buffer_fill 1000 16 10 [1, 2, 3] (\<lambda>a. 0) = Some M \<and> M 1016 = 1 \<and> M 1024 = 3 \<and> M 1025 = 0"
  using buffer_fill_exact[of "[1, 2, 3]" 1000 16 10 "\<lambda>a. 0"] by simp

text \<open>A copy reads everything before it writes, so that the parts may overlap.\<close>

lemma doCopy_exact: "doCopy_impl DstPtr SrcPtr Size M a = (if unat (a - DstPtr) < unat Size then M (SrcPtr + (a - DstPtr)) else M a)"
  by (auto simp: doCopy_impl_def memcpy_mem_def read_mem_def)

section \<open>Rectangles\<close>

lemma copy_each:
  assumes "distinct ps" "inj_on dst (set ps)" "dst ` set ps \<inter> src ` set ps = {}"
  shows "p \<in> set ps \<Longrightarrow> fold (\<lambda>p M. M(dst p := M (src p))) ps M (dst p) = M (src p)"
    "a \<notin> dst ` set ps \<Longrightarrow> fold (\<lambda>p M. M(dst p := M (src p))) ps M a = M a"
proof -
  have out: "a \<notin> dst ` set qs \<Longrightarrow> fold (\<lambda>p M. M(dst p := M (src p))) qs M a = M a" for qs M a
    by (induction qs arbitrary: M) auto
  show "a \<notin> dst ` set ps \<Longrightarrow> fold (\<lambda>p M. M(dst p := M (src p))) ps M a = M a" by (rule out)
  show "p \<in> set ps \<Longrightarrow> fold (\<lambda>p M. M(dst p := M (src p))) ps M (dst p) = M (src p)"
    using assms
  proof (induction ps arbitrary: M)
    case (Cons q ps)
    show ?case
    proof (cases "p = q")
      case True
      have "dst q \<notin> dst ` set ps" using Cons.prems(2,3) by (auto simp: inj_on_def)
      note out[OF this, of "M(dst q := M (src q))"]
      then show ?thesis unfolding True by (simp only: fold_simps fun_upd_same)
    next
      case False
      then have p: "p \<in> set ps" using Cons.prems(1) by simp
      have "src p \<noteq> dst q" using Cons.prems(4) p by (metis IntI empty_iff image_eqI list.set_intros)
      then show ?thesis using Cons.IH[OF p, of "M(dst q := M (src q))"] Cons.prems(2-4) by (simp add: inj_on_insert disjoint_iff)
    qed
  qed simp
qed

lemma rect_order_set: "set (rect_order (W, H, D)) = box (unat W) (unat H) (unat D)"
  unfolding rect_order_def box_def by (auto intro!: image_eqI UN_I)

lemma rect_order_distinct: "distinct (rect_order r)"
proof -
  have d: "distinct ys \<Longrightarrow> distinct xs \<Longrightarrow> distinct [(x, y). x \<leftarrow> xs, y \<leftarrow> ys]" for xs :: "nat list" and ys :: "(nat \<times> nat) list"
    by (induction xs) (auto simp: distinct_map inj_on_def)
  have e: "distinct [(h, d). h \<leftarrow> [0..<H], d \<leftarrow> [0..<D]]" for H D :: nat
    by (induction H) (auto simp: distinct_map inj_on_def)
  obtain W H D where r: "r = (W, H, D)" by (cases r)
  have "rect_order r = [(x, y). x \<leftarrow> [0..<unat W], y \<leftarrow> [(h, d). h \<leftarrow> [0..<unat H], d \<leftarrow> [0..<unat D]]]"
    by (simp add: r rect_order_def map_concat comp_def)
  then show ?thesis using d[OF e] by simp
qed

text \<open>The places of a region differ when a row fits its pitch, a slice its pitch, and all slices the address space.\<close>

definition pitches_fit :: "u64 \<times> u64 \<times> u64 \<Rightarrow> u64 \<Rightarrow> u64 \<Rightarrow> bool" where
  "pitches_fit region row slc \<longleftrightarrow>
     (case region of (W, H, D) \<Rightarrow> unat W \<le> unat row \<and> unat H * unat row \<le> unat slc \<and> unat D * unat slc \<le> 2 ^ 64)"

lemma digits_unique: "b * g + l = b * g' + l' \<Longrightarrow> l < b \<Longrightarrow> l' < b \<Longrightarrow> g = g' \<and> l = (l' :: nat)"
  by (metis add.commute div_mult_self2 mod_mult_self2 mod_less div_less add_0 less_nat_zero_code neq0_conv not_less0)

lemma rect_place_inj:
  assumes fit: "pitches_fit (W, H, D) row slc"
  shows "inj_on (rect_place mem origin row slc) (box (unat W) (unat H) (unat D))"
proof (rule inj_onI)
  fix p q assume p: "p \<in> box (unat W) (unat H) (unat D)" and q: "q \<in> box (unat W) (unat H) (unat D)"
    and e: "rect_place mem origin row slc p = rect_place mem origin row slc q"
  obtain x y z where o: "origin = (x, y, z)" by (cases origin)
  obtain w h d where pp: "p = (w, h, d)" "w < unat W" "h < unat H" "d < unat D" using p by (auto simp: box_def)
  obtain w' h' d' where qq: "q = (w', h', d')" "w' < unat W" "h' < unat H" "d' < unat D" using q by (auto simp: box_def)
  have f: "unat W \<le> unat row" "unat H * unat row \<le> unat slc" "unat D * unat slc \<le> 2 ^ 64" using fit by (simp_all add: pitches_fit_def)
  have row: "unat row * i + j < unat slc" if "i < unat H" "j < unat W" for i j
    using digit_bound[of j "unat row" i "unat H"] that f(1,2) by (simp add: mult.commute add.commute)
  let ?o = "\<lambda>w h d. unat slc * d + (unat row * h + w)"
  have bound: "?o i j k < 2 ^ 64" if "i < unat W" "j < unat H" "k < unat D" for i j k
    using digit_bound[of "unat row * j + i" "unat slc" k "unat D"] row[OF that(2,1)] that(3) f(3) by (simp add: mult.commute add.commute)
  have place: "rect_place mem origin row slc (i, j, k) = of_nat (?o i j k) + (mem + z * slc + y * row + x)" for i j k
    by (simp add: rect_place_def o algebra_simps)
  have "(of_nat (?o w h d) :: u64) = of_nat (?o w' h' d')" using e unfolding pp(1) qq(1) place by simp
  then have eq: "?o w h d = ?o w' h' d'" using bound[OF pp(2-4)] bound[OF qq(2-4)] of_nat_u64_eq by blast
  note 1 = digits_unique[OF eq row[OF pp(3,2)] row[OF qq(3,2)]]
  have "w < unat row" "w' < unat row" using pp qq f(1) by simp_all
  then have "h = h' \<and> w = w'" using digits_unique 1 by blast
  then show "p = q" using 1 pp qq by simp
qed

text \<open>
  Reading or writing a rectangle of a buffer of the native CPU adapter, with pitches that fit the region where they are given and the defaults where they are zero, moves each byte of the region from its place in the
  source to its place in the destination and changes no other byte, when source and destination do not overlap.\<close>

theorem rectangle_moved:
  assumes fit: "pitches_fit region (rect_row_pitch dR region) (rect_slice_pitch dS dR region)"
    and dst: "dst = rect_place dmem dorig (rect_row_pitch dR region) (rect_slice_pitch dS dR region)" and src: "src = rect_place smem sorig (rect_row_pitch sR region) (rect_slice_pitch sS sR region)"
    and apart: "dst ` set (rect_order region) \<inter> src ` set (rect_order region) = {}"
    and M': "M' = (if IsRead then MemBufferReadWriteRect_impl True smem sorig dorig region sR sS dR dS dmem M
      else MemBufferReadWriteRect_impl False dmem dorig sorig region dR dS sR sS smem M)"
  shows "(\<forall>w h d. w < unat (fst region) \<and> h < unat (fst (snd region)) \<and> d < unat (snd (snd region)) \<longrightarrow> M' (dst (w, h, d)) = M (src (w, h, d))) \<and>
    (\<forall>a. a \<notin> dst ` set (rect_order region) \<longrightarrow> M' a = M a)"
proof -
  obtain W H D where r: "region = (W, H, D)" by (cases region)
  have i: "inj_on dst (set (rect_order region))" unfolding dst r rect_order_set using fit rect_place_inj unfolding r by blast
  have m: "M' = fold (\<lambda>p M. M(dst p := M (src p))) (rect_order region) M" by (simp add: M' MemBufferReadWriteRect_impl_def dst src Let_def)
  note c = copy_each[OF rect_order_distinct i apart]
  have "M' (dst (w, h, d)) = M (src (w, h, d))" if "w < unat W" "h < unat H" "d < unat D" for w h d
    unfolding m by (rule c(1)) (use that in \<open>simp add: r rect_order_set box_def\<close>)
  moreover have "M' a = M a" if "a \<notin> dst ` set (rect_order region)" for a unfolding m by (rule c(2)[OF that])
  ultimately show ?thesis by (simp add: r)
qed

theorem rectangle_moved_witness:
  "MemBufferReadWriteRect_impl True 100 (1, 1, 0) (0, 0, 0) (2, 2, 1) 4 16 0 0 500 (\<lambda>a. ucast a) 503 = 110"
proof -
  let ?dst = "rect_place 500 (0, 0, 0) (rect_row_pitch 0 (2, 2, 1)) (rect_slice_pitch 0 0 (2, 2, 1))" and ?src = "rect_place 100 (1, 1, 0) (rect_row_pitch 4 (2, 2, 1)) (rect_slice_pitch 16 4 (2, 2, 1))"
  have o: "rect_order (2, 2, 1) = [(0, 0, 0), (0, 1, 0), (1, 0, 0), (1, 1, 0)]" by code_simp
  have f: "pitches_fit (2, 2, 1) (rect_row_pitch 0 (2, 2, 1)) (rect_slice_pitch 0 0 (2, 2, 1))" by (simp add: pitches_fit_def rect_row_pitch_def rect_slice_pitch_def)
  have a: "?dst ` set (rect_order (2, 2, 1)) \<inter> ?src ` set (rect_order (2, 2, 1)) = {}" by (simp add: o rect_place_def rect_row_pitch_def rect_slice_pitch_def)
  have m: "?dst (1, 1, 0) = 503" "?src (1, 1, 0) = 110" by (simp_all add: rect_place_def rect_row_pitch_def rect_slice_pitch_def)
  have "MemBufferReadWriteRect_impl True 100 (1, 1, 0) (0, 0, 0) (2, 2, 1) 4 16 0 0 500 (\<lambda>a. ucast a) (?dst (1, 1, 0)) = ucast (?src (1, 1, 0))"
    using rectangle_moved[OF f refl refl a refl, of True "\<lambda>a. ucast a"] by simp
  then show ?thesis unfolding m by simp
qed

end
