(* ===== verification/Native_Cpu_Pool.thy ===== *)
theory Native_Cpu_Pool
  imports UR_Adapter_Common "HOL-Library.Multiset"
begin

text \<open>
  The thread pool, the events and the queue of the native CPU adapter (adapters/native_cpu/threadpool.hpp, event.hpp, event.cpp,
  queue.hpp and the scheduling in enqueue.cpp). The workers and the application run interleaved, each step being what one thread does
  between two points where it may block or be seen by another. Tasks and events are numbered in
  the order in which they are made. A task has the events its command waits for; what it computes is in the theory of the launch.
\<close>

section \<open>Workers\<close>

text \<open>
  A worker waits for work, runs a task, with the events the task has still to wait for, has just made an event complete whose callback it has to call,
  has finished the task but not counted it yet, or has ended.\<close>

datatype phase = Waiting | Executing nat "nat list" | Calling nat nat "nat list" | Finishing | Exited

record worker_thread =
  m_threadId :: nat
  m_tasks :: "nat list"
  m_numTasks :: nat
  m_isRunning :: bool
  at_phase :: phase

definition new_worker :: "nat \<Rightarrow> worker_thread" where
  "new_worker threadId = \<lparr>m_threadId = threadId, m_tasks = [], m_numTasks = 0, m_isRunning = True, at_phase = Waiting\<rparr>"

definition worker_schedule :: "nat \<Rightarrow> worker_thread \<Rightarrow> worker_thread" where
  "worker_schedule task w = w\<lparr>m_tasks := m_tasks w @ [task], m_numTasks := m_numTasks w + 1\<rparr>"

definition worker_stop :: "worker_thread \<Rightarrow> worker_thread" where
  "worker_stop w = w\<lparr>m_isRunning := False\<rparr>"

text \<open>Taking a task from the queue, leaving the loop, and counting the task that is done.\<close>

definition worker_take :: "(nat \<Rightarrow> nat list) \<Rightarrow> worker_thread \<Rightarrow> worker_thread option" where
  "worker_take waits w =
     (case (at_phase w, m_tasks w) of
        (Waiting, t # ts) \<Rightarrow> Some (w\<lparr>m_tasks := ts, at_phase := Executing t (waits t)\<rparr>)
      | _ \<Rightarrow> None)"

definition worker_leave :: "worker_thread \<Rightarrow> worker_thread option" where
  "worker_leave w =
     (if at_phase w = Waiting \<and> \<not> m_isRunning w \<and> m_tasks w = [] then Some (w\<lparr>at_phase := Exited\<rparr>) else None)"

definition worker_count :: "worker_thread \<Rightarrow> worker_thread option" where
  "worker_count w = (if at_phase w = Finishing then Some (w\<lparr>m_numTasks := m_numTasks w - 1, at_phase := Waiting\<rparr>) else None)"

text \<open>The pool: its list is built from the front. The best worker is the first one with the fewest tasks.\<close>

definition simple_thread_pool :: "nat \<Rightarrow> worker_thread list" where
  "simple_thread_pool m_numThreads = rev (map new_worker [0..<m_numThreads])"

fun best_worker :: "worker_thread list \<Rightarrow> nat" where
  "best_worker [] = 0"
| "best_worker [w] = 0"
| "best_worker (w # v # ws) =
     (let i = best_worker (v # ws) in if m_numTasks ((v # ws) ! i) < m_numTasks w then Suc i else 0)"

definition pool_schedule :: "nat \<Rightarrow> worker_thread list \<Rightarrow> worker_thread list" where
  "pool_schedule task ws = ws[best_worker ws := worker_schedule task (ws ! best_worker ws)]"

definition num_pending_tasks :: "worker_thread list \<Rightarrow> nat" where
  "num_pending_tasks ws = sum_list (map m_numTasks ws)"

section \<open>Events and the queue\<close>

record ncpu_event =
  tasksinfo :: "nat list"
  ev_done :: bool
  has_callback :: bool
  callback_runs :: nat
  ev_refs :: nat

definition new_event :: ncpu_event where
  "new_event = \<lparr>tasksinfo = [], ev_done = False, has_callback = False, callback_runs = 0, ev_refs = 1\<rparr>"

text \<open>The application is between calls, or in an enqueue: the event, the events to wait for, how many tasks are still to be scheduled, and the tasks that are;
  or it has just made an event complete, in a wait or in a round of \<open>finish\<close>, and has to call its callback;
  or it destroys the pool: the worker it has told to stop and waits for.\<close>

datatype host_state = Host_Idle | Host_Enqueue nat "nat list" nat "nat list" | Host_Callback nat bool | Host_Stopping nat

record ncpu =
  m_workers :: "worker_thread list"
  task_waits :: "nat list list"
  completed :: "nat list"
  evs :: "ncpu_event list"
  queue_events :: "nat set"
  host :: host_state

definition new_ncpu :: "nat \<Rightarrow> ncpu" where
  "new_ncpu n = \<lparr>m_workers = simple_thread_pool n, task_waits = [], completed = [], evs = [], queue_events = {}, host = Host_Idle\<rparr>"

definition waits_of :: "ncpu \<Rightarrow> nat \<Rightarrow> nat list" where
  "waits_of w t = (if t < length (task_waits w) then task_waits w ! t else [])"

text \<open>
  \<open>ur_event_handle_t_::wait\<close>: when it does not block, the tasks of the event are complete. A thread that finds the event not done takes it out of the queue and sets
  \<open>done\<close> with the mutex held; \<open>run_callback\<close> is what it does after it has released the mutex, where other threads may come in between. The callback ends the timing of
  the command; commands that the adapter runs at once have none.\<close>

definition event_waits :: "ncpu \<Rightarrow> nat \<Rightarrow> bool" where
  "event_waits w e \<longleftrightarrow> \<not> ev_done (evs w ! e) \<and> \<not> set (tasksinfo (evs w ! e)) \<subseteq> set (completed w)"

definition event_wait :: "nat \<Rightarrow> ncpu \<Rightarrow> ncpu" where
  "event_wait e w =
     (if ev_done (evs w ! e) then w
      else w\<lparr>evs := (evs w)[e := (evs w ! e)\<lparr>ev_done := True\<rparr>], queue_events := queue_events w - {e}\<rparr>)"

definition run_callback :: "nat \<Rightarrow> ncpu \<Rightarrow> ncpu" where
  "run_callback e w =
     (if has_callback (evs w ! e) then w\<lparr>evs := (evs w)[e := (evs w ! e)\<lparr>callback_runs := callback_runs (evs w ! e) + 1\<rparr>]\<rparr> else w)"

datatype execution_status = UR_EVENT_STATUS_COMPLETE | UR_EVENT_STATUS_SUBMITTED

definition getExecutionStatus :: "ncpu_event \<Rightarrow> execution_status" where
  "getExecutionStatus ev = (if ev_done ev then UR_EVENT_STATUS_COMPLETE else UR_EVENT_STATUS_SUBMITTED)"

text \<open>Making the event of a command, scheduling a task, and giving the tasks to the event.\<close>

definition begin_enqueue :: "nat list \<Rightarrow> nat \<Rightarrow> ncpu \<Rightarrow> ncpu" where
  "begin_enqueue waits n w =
     w\<lparr>evs := evs w @ [new_event], queue_events := insert (length (evs w)) (queue_events w), host := Host_Enqueue (length (evs w)) waits n []\<rparr>"

definition schedule_one :: "nat \<Rightarrow> nat list \<Rightarrow> nat \<Rightarrow> nat list \<Rightarrow> ncpu \<Rightarrow> ncpu" where
  "schedule_one e waits n ts w =
     w\<lparr>m_workers := pool_schedule (length (task_waits w)) (m_workers w), task_waits := task_waits w @ [waits],
       host := Host_Enqueue e waits n (ts @ [length (task_waits w)])\<rparr>"

definition set_tasksinfo :: "nat \<Rightarrow> nat list \<Rightarrow> bool \<Rightarrow> ncpu \<Rightarrow> ncpu" where
  "set_tasksinfo e ts cb w = w\<lparr>evs := (evs w)[e := (evs w ! e)\<lparr>tasksinfo := ts, has_callback := cb\<rparr>], host := Host_Idle\<rparr>"

text \<open>
  The application waits for an event, or for one in a round of \<open>finish\<close>, where it takes a reference before and gives it back after; what it does after a wait that
  made the event complete is \<open>host_callback\<close>.\<close>

definition add_refs :: "(nat \<Rightarrow> nat) \<Rightarrow> nat \<Rightarrow> ncpu \<Rightarrow> ncpu" where
  "add_refs f e w = w\<lparr>evs := (evs w)[e := (evs w ! e)\<lparr>ev_refs := f (ev_refs (evs w ! e))\<rparr>]\<rparr>"

definition host_wait :: "nat \<Rightarrow> ncpu \<Rightarrow> ncpu" where
  "host_wait e w = (if ev_done (evs w ! e) then w else (event_wait e w)\<lparr>host := Host_Callback e False\<rparr>)"

definition finish_round :: "nat \<Rightarrow> ncpu \<Rightarrow> ncpu" where
  "finish_round e w =
     (let w1 = add_refs Suc e w
      in if ev_done (evs w1 ! e) then add_refs (\<lambda>n. n - 1) e w1 else (event_wait e w1)\<lparr>host := Host_Callback e True\<rparr>)"

definition host_callback :: "nat \<Rightarrow> bool \<Rightarrow> ncpu \<Rightarrow> ncpu" where
  "host_callback e finishing w =
     (let w1 = run_callback e w; w2 = (if finishing then add_refs (\<lambda>n. n - 1) e w1 else w1) in w2\<lparr>host := Host_Idle\<rparr>)"

text \<open>The pool is destroyed one worker after the other: each is told to stop and then waited for.\<close>

definition stop_worker :: "nat \<Rightarrow> ncpu \<Rightarrow> ncpu" where
  "stop_worker k w = w\<lparr>m_workers := (m_workers w)[k := worker_stop (m_workers w ! k)], host := Host_Stopping k\<rparr>"

section \<open>Steps\<close>

text \<open>The steps of the worker at a position of the list.\<close>

inductive worker_step :: "ncpu \<Rightarrow> ncpu \<Rightarrow> bool" where
  take: "worker_step w (w\<lparr>m_workers := (m_workers w)[i := v]\<rparr>)"
    if "i < length (m_workers w)" "worker_take (waits_of w) (m_workers w ! i) = Some v"
| skip: "worker_step w (w\<lparr>m_workers := (m_workers w)[i := (m_workers w ! i)\<lparr>at_phase := Executing t es\<rparr>]\<rparr>)"
    if "i < length (m_workers w)" "at_phase (m_workers w ! i) = Executing t (e # es)" "ev_done (evs w ! e)"
| wait: "worker_step w ((event_wait e w)\<lparr>m_workers := (m_workers w)[i := (m_workers w ! i)\<lparr>at_phase := Calling t e es\<rparr>]\<rparr>)"
    if "i < length (m_workers w)" "at_phase (m_workers w ! i) = Executing t (e # es)" "\<not> event_waits w e" "\<not> ev_done (evs w ! e)"
| call: "worker_step w ((run_callback e w)\<lparr>m_workers := (m_workers w)[i := (m_workers w ! i)\<lparr>at_phase := Executing t es\<rparr>]\<rparr>)"
    if "i < length (m_workers w)" "at_phase (m_workers w ! i) = Calling t e es"
| run: "worker_step w (w\<lparr>m_workers := (m_workers w)[i := (m_workers w ! i)\<lparr>at_phase := Finishing\<rparr>], completed := completed w @ [t]\<rparr>)"
    if "i < length (m_workers w)" "at_phase (m_workers w ! i) = Executing t []"
| count: "worker_step w (w\<lparr>m_workers := (m_workers w)[i := v]\<rparr>)"
    if "i < length (m_workers w)" "worker_count (m_workers w ! i) = Some v"
| leave: "worker_step w (w\<lparr>m_workers := (m_workers w)[i := v]\<rparr>)"
    if "i < length (m_workers w)" "worker_leave (m_workers w ! i) = Some v"

text \<open>
  The steps of the application, which uses one thread. A command that the adapter runs at once, in the thread of the application, is an event with no task and no
  callback, after the waits for the events of its list; nobody else can see the event before.\<close>

inductive host_step :: "ncpu \<Rightarrow> ncpu \<Rightarrow> bool" where
  enqueue: "host_step w (begin_enqueue waits n w)" if "host w = Host_Idle" "\<forall>e \<in> set waits. e < length (evs w)"
| schedule: "host_step w (schedule_one e waits n ts w)" if "host w = Host_Enqueue e waits (Suc n) ts"
| publish: "host_step w (set_tasksinfo e ts cb w)" if "host w = Host_Enqueue e waits 0 ts" "cb \<or> ts = []"
| wait: "host_step w (host_wait e w)" if "host w = Host_Idle" "e < length (evs w)" "\<not> event_waits w e"
| finish: "host_step w (finish_round e w)" if "host w = Host_Idle" "e \<in> queue_events w" "\<not> event_waits w e"
| callback: "host_step w (host_callback e f w)" if "host w = Host_Callback e f"
| stop: "host_step w (stop_worker 0 w)" if "host w = Host_Idle"
| join: "host_step w (stop_worker (Suc k) w)" if "host w = Host_Stopping k" "k < length (m_workers w)" "at_phase (m_workers w ! k) = Exited"

inductive ncpu_reachable :: "nat \<Rightarrow> ncpu \<Rightarrow> bool" for n where
  start: "ncpu_reachable n (new_ncpu n)"
| work: "ncpu_reachable n w'" if "ncpu_reachable n w" "worker_step w w'"
| host: "ncpu_reachable n w'" if "ncpu_reachable n w" "host_step w w'"

text \<open>The body of the loop of a worker as a function: what the worker at a position does next, when it is not blocked.\<close>

definition worker_next :: "nat \<Rightarrow> ncpu \<Rightarrow> ncpu option" where
  "worker_next i w =
     (if i < length (m_workers w) then
        let v = m_workers w ! i; put = (\<lambda>v'. (m_workers w)[i := v'])
        in case at_phase v of
             Waiting \<Rightarrow>
               (case worker_take (waits_of w) v of
                  Some v' \<Rightarrow> Some (w\<lparr>m_workers := put v'\<rparr>)
                | None \<Rightarrow> map_option (\<lambda>v'. w\<lparr>m_workers := put v'\<rparr>) (worker_leave v))
           | Executing t [] \<Rightarrow> Some (w\<lparr>m_workers := put (v\<lparr>at_phase := Finishing\<rparr>), completed := completed w @ [t]\<rparr>)
           | Executing t (e # es) \<Rightarrow>
               if ev_done (evs w ! e) then Some (w\<lparr>m_workers := put (v\<lparr>at_phase := Executing t es\<rparr>)\<rparr>)
               else if event_waits w e then None else Some ((event_wait e w)\<lparr>m_workers := put (v\<lparr>at_phase := Calling t e es\<rparr>)\<rparr>)
           | Calling t e es \<Rightarrow> Some ((run_callback e w)\<lparr>m_workers := put (v\<lparr>at_phase := Executing t es\<rparr>)\<rparr>)
           | Finishing \<Rightarrow> map_option (\<lambda>v'. w\<lparr>m_workers := put v'\<rparr>) (worker_count v)
           | Exited \<Rightarrow> None
      else None)"

inductive_cases worker_stepE: "worker_step w w'"
inductive_cases host_stepE: "host_step w w'"

end
