(* ===== verification/Native_Cpu_Pool_Inv.thy ===== *)
theory Native_Cpu_Pool_Inv
  imports Native_Cpu_Pool
begin

text \<open>
  The thread pool of the native CPU adapter, continued: the invariant of all interleavings, that the pool never blocks itself,
  and that waiting for an event means that its tasks have run, each once and after the tasks of the events it waits for.
\<close>

section \<open>The invariant\<close>

text \<open>The task a worker is in, with the events it has still to wait for, the tasks it has, that one first, and the callback it is about to call.\<close>

definition in_task :: "worker_thread \<Rightarrow> (nat \<times> nat list) option" where
  "in_task v = (case at_phase v of Executing t es \<Rightarrow> Some (t, es) | Calling t e es \<Rightarrow> Some (t, es) | _ \<Rightarrow> None)"

definition held :: "worker_thread \<Rightarrow> nat list" where
  "held v = (case in_task v of Some (t, es) \<Rightarrow> [t] | None \<Rightarrow> []) @ m_tasks v"

definition calls :: "worker_thread \<Rightarrow> nat list" where
  "calls v = (case at_phase v of Calling t e es \<Rightarrow> [e] | _ \<Rightarrow> [])"

lemma in_task_simps [simp]:
  "at_phase v = Executing t es \<Longrightarrow> in_task v = Some (t, es)" "at_phase v = Calling t e es \<Longrightarrow> in_task v = Some (t, es)"
  "at_phase v = Waiting \<Longrightarrow> in_task v = None" "at_phase v = Finishing \<Longrightarrow> in_task v = None" "at_phase v = Exited \<Longrightarrow> in_task v = None"
  by (simp_all add: in_task_def)

lemma in_task_upd [simp]:
  "in_task (v\<lparr>m_tasks := ts\<rparr>) = in_task v" "in_task (v\<lparr>m_numTasks := n\<rparr>) = in_task v" "in_task (v\<lparr>m_isRunning := b\<rparr>) = in_task v"
  by (simp_all add: in_task_def)

lemma calls_simps [simp]:
  "at_phase v = Executing t es \<Longrightarrow> calls v = []" "at_phase v = Calling t e es \<Longrightarrow> calls v = [e]"
  "at_phase v = Waiting \<Longrightarrow> calls v = []" "at_phase v = Finishing \<Longrightarrow> calls v = []" "at_phase v = Exited \<Longrightarrow> calls v = []"
  by (simp_all add: calls_def)

abbreviation ntasks :: "ncpu \<Rightarrow> nat" where
  "ntasks w \<equiv> length (task_waits w)"

definition published :: "ncpu \<Rightarrow> nat \<Rightarrow> bool" where
  "published w e \<longleftrightarrow> e < length (evs w) \<and> (case host w of Host_Enqueue e' _ _ _ \<Rightarrow> e \<noteq> e' | _ \<Rightarrow> True)"

definition tasks_once :: "ncpu \<Rightarrow> bool" where
  "tasks_once w \<longleftrightarrow> mset (concat (map held (m_workers w))) + mset (completed w) = mset [0..<ntasks w]"

definition worker_ok :: "ncpu \<Rightarrow> worker_thread \<Rightarrow> bool" where
  "worker_ok w v \<longleftrightarrow>
     sorted_wrt (<) (held v) \<and>
     (\<forall>t es. in_task v = Some (t, es) \<longrightarrow> (\<exists>ps. waits_of w t = ps @ es \<and> (\<forall>e \<in> set ps. ev_done (evs w ! e)))) \<and>
     (at_phase v = Exited \<longrightarrow> m_tasks v = [] \<and> \<not> m_isRunning v) \<and>
     m_numTasks v = length (m_tasks v) + (case at_phase v of Waiting \<Rightarrow> 0 | Exited \<Rightarrow> 0 | _ \<Rightarrow> 1)"

text \<open>Which workers have been told to stop, and which have ended.\<close>

definition running_ok :: "host_state \<Rightarrow> worker_thread list \<Rightarrow> bool" where
  "running_ok h ws \<longleftrightarrow>
     (\<forall>i < length ws. (m_isRunning (ws ! i) \<longleftrightarrow> (case h of Host_Stopping k \<Rightarrow> k < i | _ \<Rightarrow> True)) \<and>
        (case h of Host_Stopping k \<Rightarrow> i < k \<longrightarrow> at_phase (ws ! i) = Exited | _ \<Rightarrow> True))"

definition event_ok :: "ncpu \<Rightarrow> nat \<Rightarrow> bool" where
  "event_ok w e \<longleftrightarrow>
     set (tasksinfo (evs w ! e)) \<subseteq> {..<ntasks w} \<and>
     (ev_done (evs w ! e) \<longrightarrow> published w e \<and> set (tasksinfo (evs w ! e)) \<subseteq> set (completed w)) \<and>
     ev_refs (evs w ! e) = (if host w = Host_Callback e True then 2 else 1) \<and>
     (e \<in> queue_events w \<longleftrightarrow> \<not> ev_done (evs w ! e))"

text \<open>The events that are complete and whose callback a thread has still to call, and how often callbacks have run.\<close>

definition calling :: "ncpu \<Rightarrow> nat multiset" where
  "calling w = mset (concat (map calls (m_workers w))) + (case host w of Host_Callback e f \<Rightarrow> {#e#} | _ \<Rightarrow> {#})"

definition call_ok :: "nat multiset \<Rightarrow> nat \<Rightarrow> ncpu_event \<Rightarrow> bool" where
  "call_ok cs e ev \<longleftrightarrow> count cs e \<le> of_bool (ev_done ev) \<and>
     callback_runs ev = (if ev_done ev \<and> count cs e = 0 then of_bool (has_callback ev) else 0)"

definition calls_ok :: "ncpu \<Rightarrow> bool" where
  "calls_ok w \<longleftrightarrow> set_mset (calling w) \<subseteq> {..<length (evs w)} \<and> (\<forall>e < length (evs w). call_ok (calling w) e (evs w ! e))"

definition waits_ok :: "ncpu \<Rightarrow> bool" where
  "waits_ok w \<longleftrightarrow> (\<forall>t < ntasks w. \<forall>e \<in> set (task_waits w ! t). published w e \<and> (\<forall>u \<in> set (tasksinfo (evs w ! e)). u < t))"

definition log_ok :: "ncpu \<Rightarrow> bool" where
  "log_ok w \<longleftrightarrow> (\<forall>i < length (completed w). \<forall>e \<in> set (waits_of w (completed w ! i)). set (tasksinfo (evs w ! e)) \<subseteq> set (take i (completed w)))"

definition host_ok :: "ncpu \<Rightarrow> bool" where
  "host_ok w \<longleftrightarrow>
     (case host w of
        Host_Enqueue e ws n ts \<Rightarrow>
          e < length (evs w) \<and> tasksinfo (evs w ! e) = [] \<and> \<not> ev_done (evs w ! e) \<and> set ts \<subseteq> {..<ntasks w} \<and> (\<forall>e' \<in> set ws. published w e')
      | _ \<Rightarrow> True)"

definition ncpu_inv :: "ncpu \<Rightarrow> bool" where
  "ncpu_inv w \<longleftrightarrow> m_workers w \<noteq> [] \<and> running_ok (host w) (m_workers w) \<and> tasks_once w \<and> (\<forall>v \<in> set (m_workers w). worker_ok w v) \<and>
     (\<forall>e < length (evs w). event_ok w e) \<and> queue_events w \<subseteq> {..<length (evs w)} \<and> waits_ok w \<and> log_ok w \<and> host_ok w \<and> calls_ok w"

lemmas inv_defs = ncpu_inv_def tasks_once_def worker_ok_def event_ok_def waits_ok_def log_ok_def host_ok_def

lemma ncpu_invD:
  assumes "ncpu_inv w"
  shows "m_workers w \<noteq> []" "tasks_once w" "v \<in> set (m_workers w) \<Longrightarrow> worker_ok w v" "e < length (evs w) \<Longrightarrow> event_ok w e"
    "queue_events w \<subseteq> {..<length (evs w)}" "waits_ok w" "log_ok w" "host_ok w" "running_ok (host w) (m_workers w)" "calls_ok w"
  using assms unfolding ncpu_inv_def by auto

section \<open>The tasks are at one place\<close>

lemma mset_calling_update:
  "i < length ws \<Longrightarrow> mset (concat (map f (ws[i := v]))) + mset (f (ws ! i)) = mset (concat (map f ws)) + mset (f v)"
proof (induction ws arbitrary: i)
  case (Cons a ws)
  show ?case
  proof (cases i)
    case 0
    then show ?thesis by (simp add: ac_simps)
  next
    case (Suc j)
    then have "mset (concat (map f (ws[j := v]))) + mset (f (ws ! j)) = mset (concat (map f ws)) + mset (f v)"
      using Cons by simp
    then show ?thesis using Suc by (simp add: add.assoc)
  qed
qed simp

lemmas mset_held_update = mset_calling_update [where f = held]

text \<open>The callbacks to be called when one worker changes.\<close>

lemma calling_update:
  "i < length (m_workers w) \<Longrightarrow> m_workers w' = (m_workers w)[i := v] \<Longrightarrow> host w' = host w \<Longrightarrow>
     calling w' + mset (calls (m_workers w ! i)) = calling w + mset (calls v)"
  using mset_calling_update [where f = calls and ws = "m_workers w" and v = v and i = i] by (simp add: calling_def ac_simps)

lemma calling_cong: "map calls (m_workers w') = map calls (m_workers w) \<Longrightarrow> (\<nexists>e f. host w = Host_Callback e f) \<Longrightarrow>
    (\<nexists>e f. host w' = Host_Callback e f) \<Longrightarrow> calling w' = calling w"
  by (cases "host w"; cases "host w'") (simp_all add: calling_def)

lemma tasks_once_all:
  assumes "tasks_once w"
  shows "distinct (completed w)" "set (completed w) \<subseteq> {..<ntasks w}"
    "v \<in> set (m_workers w) \<Longrightarrow> t \<in> set (held v) \<Longrightarrow> t < ntasks w \<and> t \<notin> set (completed w)"
    "t < ntasks w \<Longrightarrow> t \<notin> set (completed w) \<Longrightarrow> \<exists>v \<in> set (m_workers w). t \<in> set (held v)"
proof -
  have m: "mset (concat (map held (m_workers w)) @ completed w) = mset [0..<ntasks w]" using assms by (simp add: tasks_once_def)
  have d: "distinct (concat (map held (m_workers w)) @ completed w)" by (subst mset_eq_imp_distinct_iff[OF m]) simp
  have s: "set (concat (map held (m_workers w)) @ completed w) = {..<ntasks w}" using mset_eq_setD[OF m] by (simp add: lessThan_atLeast0)
  show "distinct (completed w)" using d by simp
  show "set (completed w) \<subseteq> {..<ntasks w}" using s by auto
  show "t < ntasks w \<and> t \<notin> set (completed w)" if "v \<in> set (m_workers w)" "t \<in> set (held v)"
  proof -
    have t: "t \<in> set (concat (map held (m_workers w)))" using that by auto
    then have "t < ntasks w" using s by auto
    moreover have "t \<notin> set (completed w)" using d t by (auto simp del: set_concat)
    ultimately show ?thesis by blast
  qed
  show "\<exists>v \<in> set (m_workers w). t \<in> set (held v)" if "t < ntasks w" "t \<notin> set (completed w)"
  proof -
    have "t \<in> set (concat (map held (m_workers w)) @ completed w)" using that(1) s by blast
    then show ?thesis using that(2) by auto
  qed
qed

section \<open>Steps of a worker\<close>

text \<open>A step that changes one worker and leaves it the same tasks.\<close>

text \<open>A change of the workers alone.\<close>

lemma only_workers [simp]:
  "waits_of (w\<lparr>m_workers := ws\<rparr>) = waits_of w" "published (w\<lparr>m_workers := ws\<rparr>) = published w"
  "worker_ok (w\<lparr>m_workers := ws\<rparr>) = worker_ok w" "event_ok (w\<lparr>m_workers := ws\<rparr>) = event_ok w"
  "waits_ok (w\<lparr>m_workers := ws\<rparr>) = waits_ok w" "log_ok (w\<lparr>m_workers := ws\<rparr>) = log_ok w" "host_ok (w\<lparr>m_workers := ws\<rparr>) = host_ok w"
proof -
  show wo: "waits_of (w\<lparr>m_workers := ws\<rparr>) = waits_of w" by (simp add: waits_of_def fun_eq_iff)
  show pu: "published (w\<lparr>m_workers := ws\<rparr>) = published w" by (simp add: published_def fun_eq_iff)
  show "worker_ok (w\<lparr>m_workers := ws\<rparr>) = worker_ok w" by (simp add: worker_ok_def fun_eq_iff wo)
  show "event_ok (w\<lparr>m_workers := ws\<rparr>) = event_ok w" by (simp add: event_ok_def fun_eq_iff pu)
  show "waits_ok (w\<lparr>m_workers := ws\<rparr>) = waits_ok w" by (simp add: waits_ok_def pu)
  show "log_ok (w\<lparr>m_workers := ws\<rparr>) = log_ok w" by (simp add: log_ok_def wo)
  show "host_ok (w\<lparr>m_workers := ws\<rparr>) = host_ok w" by (cases "host w") (simp_all add: host_ok_def pu)
qed

lemma one_worker:
  assumes inv: "ncpu_inv w" and i: "i < length (m_workers w)" and v: "worker_ok w v" "mset (held v) = mset (held (m_workers w ! i))"
    "m_isRunning v = m_isRunning (m_workers w ! i)" "at_phase (m_workers w ! i) \<noteq> Exited" "calls v = calls (m_workers w ! i)"
  shows "ncpu_inv (w\<lparr>m_workers := (m_workers w)[i := v]\<rparr>)"
proof -
  let ?ws = "(m_workers w)[i := v]"
  have "mset (concat (map held ?ws)) = mset (concat (map held (m_workers w)))"
    using mset_held_update[OF i, of v] v(2) by simp
  then have t: "tasks_once (w\<lparr>m_workers := ?ws\<rparr>)" using ncpu_invD(2)[OF inv] by (simp add: tasks_once_def)
  have o: "worker_ok w u" if "u \<in> set ?ws" for u
    using that v(1) ncpu_invD(3)[OF inv, of u] set_update_subset_insert[of "m_workers w" i v] by blast
  have r: "running_ok (host w) ?ws"
    using ncpu_invD(9)[OF inv] v(3,4) i by (auto simp: running_ok_def nth_list_update split: host_state.split)
  have "calling (w\<lparr>m_workers := ?ws\<rparr>) = calling w" using calling_update[OF i, of "w\<lparr>m_workers := ?ws\<rparr>" v] v(5) by simp
  then have c: "calls_ok (w\<lparr>m_workers := ?ws\<rparr>)" using ncpu_invD(10)[OF inv] by (simp add: calls_ok_def)
  show ?thesis unfolding ncpu_inv_def only_workers using t o r c ncpu_invD[OF inv] by simp
qed

lemma take_inv:
  assumes inv: "ncpu_inv w" and i: "i < length (m_workers w)" and v: "worker_take (waits_of w) (m_workers w ! i) = Some v"
  shows "ncpu_inv (w\<lparr>m_workers := (m_workers w)[i := v]\<rparr>)"
proof (rule one_worker[OF inv i])
  have ok: "worker_ok w (m_workers w ! i)" using inv i by (simp add: ncpu_invD)
  obtain t ts where t: "at_phase (m_workers w ! i) = Waiting" "m_tasks (m_workers w ! i) = t # ts"
    "v = (m_workers w ! i)\<lparr>m_tasks := ts, at_phase := Executing t (waits_of w t)\<rparr>"
    using v by (auto simp: worker_take_def split: phase.splits list.splits)
  then show "worker_ok w v" using ok by (auto simp: worker_ok_def held_def)
  show "mset (held v) = mset (held (m_workers w ! i))" using t by (simp add: held_def)
  show "m_isRunning v = m_isRunning (m_workers w ! i)" "at_phase (m_workers w ! i) \<noteq> Exited" "calls v = calls (m_workers w ! i)" using t by simp_all
qed

lemma count_inv:
  assumes inv: "ncpu_inv w" and i: "i < length (m_workers w)" and v: "worker_count (m_workers w ! i) = Some v"
  shows "ncpu_inv (w\<lparr>m_workers := (m_workers w)[i := v]\<rparr>)"
proof (rule one_worker[OF inv i])
  have ok: "worker_ok w (m_workers w ! i)" using inv i by (simp add: ncpu_invD)
  then show "worker_ok w v" using v by (auto simp: worker_ok_def held_def worker_count_def split: if_splits)
  show "mset (held v) = mset (held (m_workers w ! i))" using v by (auto simp: held_def worker_count_def split: if_splits)
  show "m_isRunning v = m_isRunning (m_workers w ! i)" "at_phase (m_workers w ! i) \<noteq> Exited" "calls v = calls (m_workers w ! i)"
    using v by (auto simp: worker_count_def split: if_splits)
qed

lemma leave_inv:
  assumes inv: "ncpu_inv w" and i: "i < length (m_workers w)" and v: "worker_leave (m_workers w ! i) = Some v"
  shows "ncpu_inv (w\<lparr>m_workers := (m_workers w)[i := v]\<rparr>)"
proof (rule one_worker[OF inv i])
  have ok: "worker_ok w (m_workers w ! i)" using inv i by (simp add: ncpu_invD)
  then show "worker_ok w v" using v by (auto simp: worker_ok_def held_def worker_leave_def split: if_splits)
  show "mset (held v) = mset (held (m_workers w ! i))" using v by (auto simp: held_def worker_leave_def split: if_splits)
  show "m_isRunning v = m_isRunning (m_workers w ! i)" "at_phase (m_workers w ! i) \<noteq> Exited" "calls v = calls (m_workers w ! i)"
    using v by (auto simp: worker_leave_def split: if_splits)
qed

text \<open>
  Changes of the events alone: \<open>done\<close> is set and the event leaves the queue, or the count of callbacks or of references changes. \<open>events_later\<close> is what they all keep.\<close>

definition events_later :: "ncpu \<Rightarrow> ncpu \<Rightarrow> bool" where
  "events_later w w' \<longleftrightarrow> task_waits w' = task_waits w \<and> completed w' = completed w \<and> length (evs w') = length (evs w) \<and>
     (\<forall>e. tasksinfo (evs w' ! e) = tasksinfo (evs w ! e) \<and> (ev_done (evs w ! e) \<longrightarrow> ev_done (evs w' ! e)))"

lemma event_wait_fields [simp]:
  "m_workers (event_wait e w) = m_workers w" "task_waits (event_wait e w) = task_waits w" "completed (event_wait e w) = completed w"
  "host (event_wait e w) = host w" "length (evs (event_wait e w)) = length (evs w)"
  by (simp_all add: event_wait_def)

lemma run_callback_fields [simp]:
  "m_workers (run_callback e w) = m_workers w" "task_waits (run_callback e w) = task_waits w" "completed (run_callback e w) = completed w"
  "host (run_callback e w) = host w" "length (evs (run_callback e w)) = length (evs w)" "queue_events (run_callback e w) = queue_events w"
  by (simp_all add: run_callback_def)

lemma add_refs_fields [simp]:
  "m_workers (add_refs f e w) = m_workers w" "task_waits (add_refs f e w) = task_waits w" "completed (add_refs f e w) = completed w"
  "host (add_refs f e w) = host w" "length (evs (add_refs f e w)) = length (evs w)" "queue_events (add_refs f e w) = queue_events w"
  by (simp_all add: add_refs_def)

lemma event_wait_nth:
  "e < length (evs w) \<Longrightarrow> evs (event_wait e w) ! e' = (if e' = e \<and> \<not> ev_done (evs w ! e) then (evs w ! e)\<lparr>ev_done := True\<rparr> else evs w ! e')"
  by (simp add: event_wait_def nth_list_update)

lemma run_callback_nth:
  "e < length (evs w) \<Longrightarrow> evs (run_callback e w) ! e' =
     (if e' = e then (evs w ! e)\<lparr>callback_runs := callback_runs (evs w ! e) + of_bool (has_callback (evs w ! e))\<rparr> else evs w ! e')"
  by (simp add: run_callback_def nth_list_update)

lemma add_refs_nth:
  "e < length (evs w) \<Longrightarrow> evs (add_refs f e w) ! e' = (if e' = e then (evs w ! e)\<lparr>ev_refs := f (ev_refs (evs w ! e))\<rparr> else evs w ! e')"
  by (simp add: add_refs_def nth_list_update)

lemma event_wait_event:
  assumes "e < length (evs w)"
  shows "tasksinfo (evs (event_wait e w) ! e') = tasksinfo (evs w ! e')" "ev_refs (evs (event_wait e w) ! e') = ev_refs (evs w ! e')"
    "ev_done (evs (event_wait e w) ! e') \<longleftrightarrow> ev_done (evs w ! e') \<or> e' = e"
  using assms by (auto simp: event_wait_nth)

lemma events_laterI:
  assumes "e < length (evs w)"
  shows "events_later w (event_wait e w)" "events_later w (run_callback e w)" "events_later w (add_refs f e w)"
  using assms by (auto simp: events_later_def event_wait_nth run_callback_nth add_refs_nth)

text \<open>A worker is fine in a later state.\<close>

lemma worker_ok_mono:
  assumes "worker_ok w v" "\<And>t es. in_task v = Some (t, es) \<Longrightarrow> waits_of w' t = waits_of w t"
    "\<And>t es e. in_task v = Some (t, es) \<Longrightarrow> e \<in> set (waits_of w t) \<Longrightarrow> ev_done (evs w ! e) \<Longrightarrow> ev_done (evs w' ! e)"
  shows "worker_ok w' v"
proof -
  have "\<exists>ps. waits_of w' t = ps @ es \<and> (\<forall>e \<in> set ps. ev_done (evs w' ! e))" if x: "in_task v = Some (t, es)" for t es
  proof -
    obtain ps where "waits_of w t = ps @ es" "\<forall>e \<in> set ps. ev_done (evs w ! e)" using assms(1) x unfolding worker_ok_def by blast
    then show ?thesis using assms(2)[OF x] assms(3)[OF x] by (intro exI[of _ ps]) simp
  qed
  then show ?thesis using assms(1) unfolding worker_ok_def by blast
qed

text \<open>A change of the events keeps the invariant when the events and the callbacks stay in order.\<close>

lemma events_later_inv:
  assumes inv: "ncpu_inv w" and l: "events_later w w'" and m: "m_workers w' = m_workers w" and h: "published w' = published w" "host_ok w'" "running_ok (host w') (m_workers w')"
    and e: "\<And>e. e < length (evs w) \<Longrightarrow> event_ok w' e" "queue_events w' \<subseteq> queue_events w" and c: "calls_ok w'"
  shows "ncpu_inv w'"
proof -
  have wo: "waits_of w' = waits_of w" using l by (simp add: events_later_def waits_of_def fun_eq_iff)
  have "worker_ok w' v" if "v \<in> set (m_workers w)" for v
    using l by (intro worker_ok_mono[OF ncpu_invD(3)[OF inv that]]) (simp_all add: wo events_later_def)
  moreover have "waits_ok w'" "log_ok w'" "tasks_once w'" "queue_events w' \<subseteq> {..<length (evs w')}"
    using ncpu_invD(2,5,6,7)[OF inv] l e(2) by (auto simp: events_later_def waits_ok_def log_ok_def tasks_once_def wo h(1) m)
  ultimately show ?thesis using ncpu_invD(1)[OF inv] l e(1) c h(2,3) by (simp add: ncpu_inv_def m events_later_def)
qed

text \<open>The thread that makes an event complete: the event and the callback it takes over.\<close>

lemma completed_event_ok:
  assumes inv: "ncpu_inv w" and e: "published w e" "\<not> event_waits w e" "\<not> ev_done (evs w ! e)" and x: "x < length (evs w)"
    and p: "published w' = published w" and refs: "\<And>x. x < length (evs w) \<Longrightarrow> ev_refs (evs w' ! x) = (if host w' = Host_Callback x True then 2 else 1)"
    and l: "events_later w w'" "\<And>x. ev_done (evs w' ! x) \<longleftrightarrow> ev_done (evs w ! x) \<or> x = e" "queue_events w' = queue_events w - {e}"
  shows "event_ok w' x"
proof -
  have "set (tasksinfo (evs w ! e)) \<subseteq> set (completed w)" using e(2,3) by (simp add: event_waits_def)
  then show ?thesis using ncpu_invD(4)[OF inv x] refs[OF x] l e(1) by (auto simp: event_ok_def events_later_def p)
qed

lemma call_taken:
  assumes inv: "ncpu_inv w" and e: "e < length (evs w)" "\<not> ev_done (evs w ! e)"
    and l: "length (evs w') = length (evs w)" "calling w' = add_mset e (calling w)"
      "\<And>x. ev_done (evs w' ! x) \<longleftrightarrow> ev_done (evs w ! x) \<or> x = e" "\<And>x. callback_runs (evs w' ! x) = callback_runs (evs w ! x)"
      "\<And>x. has_callback (evs w' ! x) = has_callback (evs w ! x)"
  shows "calls_ok w'"
proof -
  have "call_ok (add_mset e (calling w)) x (evs w' ! x)" if "x < length (evs w)" for x
    using ncpu_invD(10)[OF inv] that e(2) l(3-5)[of x] by (cases "x = e") (auto simp: calls_ok_def call_ok_def count_eq_zero_iff dest: spec[of _ x])
  then show ?thesis using ncpu_invD(10)[OF inv] l(1,2) e(1) by (auto simp: calls_ok_def)
qed

lemma call_made:
  assumes inv: "ncpu_inv w" and l: "length (evs w') = length (evs w)" "calling w = add_mset e (calling w')"
      "\<And>x. ev_done (evs w' ! x) \<longleftrightarrow> ev_done (evs w ! x)"
      "\<And>x. callback_runs (evs w' ! x) = callback_runs (evs w ! x) + (if x = e then of_bool (has_callback (evs w ! e)) else 0)"
      "\<And>x. has_callback (evs w' ! x) = has_callback (evs w ! x)"
  shows "calls_ok w'"
proof -
  have "call_ok (calling w') x (evs w' ! x)" if "x < length (evs w)" for x
  proof -
    have "call_ok (add_mset e (calling w')) x (evs w ! x)" using ncpu_invD(10)[OF inv] that l(2) by (simp add: calls_ok_def)
    then show ?thesis using l(3-5)[of x] by (cases "x = e") (auto simp: call_ok_def of_bool_def count_eq_zero_iff split: if_splits)
  qed
  then show ?thesis using ncpu_invD(10)[OF inv] l(1,2) by (auto simp: calls_ok_def)
qed

lemma worker_event:
  assumes inv: "ncpu_inv w" and i: "i < length (m_workers w)" and p: "in_task (m_workers w ! i) = Some (t, es)"
  shows "t < ntasks w" "t \<notin> set (completed w)" "e \<in> set (waits_of w t) \<Longrightarrow> published w e" "worker_ok w (m_workers w ! i)"
    "\<exists>ps. waits_of w t = ps @ es \<and> (\<forall>e \<in> set ps. ev_done (evs w ! e))"
proof -
  show ok: "worker_ok w (m_workers w ! i)" using inv i by (simp add: ncpu_invD)
  then show "\<exists>ps. waits_of w t = ps @ es \<and> (\<forall>e \<in> set ps. ev_done (evs w ! e))" using p unfolding worker_ok_def by blast
  have "t \<in> set (held (m_workers w ! i))" using p by (simp add: held_def)
  then show t: "t < ntasks w" "t \<notin> set (completed w)" using tasks_once_all(3)[OF ncpu_invD(2)[OF inv] nth_mem[OF i]] by blast+
  show "published w e" if "e \<in> set (waits_of w t)" using that t(1) ncpu_invD(6)[OF inv] by (simp add: waits_of_def waits_ok_def)
qed

text \<open>One worker changes together with the events: it stays in its task, with the same events to wait for or one less, which is complete.\<close>

lemma worker_and_events_inv:
  assumes inv: "ncpu_inv w" and i: "i < length (m_workers w)" and p: "in_task (m_workers w ! i) = Some (t, es)" "in_task v = Some (t, es')"
    and v: "m_tasks v = m_tasks (m_workers w ! i)" "m_numTasks v = m_numTasks (m_workers w ! i)" "m_isRunning v = m_isRunning (m_workers w ! i)"
    and es: "es' = es \<or> (\<exists>e. es = e # es' \<and> ev_done (evs w' ! e))"
    and l: "events_later w w'" and w': "host w' = host w" "queue_events w' \<subseteq> queue_events w" and e: "\<And>e. e < length (evs w) \<Longrightarrow> event_ok w' e"
    and c: "calls_ok (w'\<lparr>m_workers := (m_workers w)[i := v]\<rparr>)"
  shows "ncpu_inv (w'\<lparr>m_workers := (m_workers w)[i := v]\<rparr>)"
proof -
  let ?ws = "(m_workers w)[i := v]"
  note we = worker_event[OF inv i p(1)]
  have wo: "waits_of w' = waits_of w" and pu: "published w' = published w"
    using l w'(1) by (simp_all add: events_later_def waits_of_def published_def fun_eq_iff)
  obtain ps where ps: "waits_of w t = ps @ es" "\<forall>e \<in> set ps. ev_done (evs w ! e)" using we(5) by blast
  then have "\<exists>qs. waits_of w' t = qs @ es' \<and> (\<forall>e \<in> set qs. ev_done (evs w' ! e))"
    using es l by (auto simp: wo events_later_def intro: exI[of _ "ps @ [_]"])
  moreover have h: "held v = held (m_workers w ! i)" using p v(1) by (simp add: held_def)
  moreover have "at_phase v \<noteq> Exited" "at_phase v \<noteq> Waiting" "at_phase (m_workers w ! i) \<noteq> Exited" "at_phase (m_workers w ! i) \<noteq> Waiting"
    using p by (auto simp: in_task_def)
  ultimately have ok: "worker_ok w' v" using we(4) p v by (auto simp: worker_ok_def split: phase.splits)
  have 1: "worker_ok w' u" if "u \<in> set ?ws" for u
  proof -
    have "worker_ok w' u" if "u \<in> set (m_workers w)"
      using l by (intro worker_ok_mono[OF ncpu_invD(3)[OF inv that]]) (simp_all add: wo events_later_def)
    then show ?thesis using that ok set_update_subset_insert[of "m_workers w" i v] by blast
  qed
  have "mset (concat (map held ?ws)) = mset (concat (map held (m_workers w)))" using mset_held_update[OF i, of v] h by simp
  then have 2: "tasks_once (w'\<lparr>m_workers := ?ws\<rparr>)" using ncpu_invD(2)[OF inv] l by (simp add: tasks_once_def events_later_def)
  have 3: "running_ok (host w) ?ws"
    using ncpu_invD(9)[OF inv] v(3) i \<open>at_phase (m_workers w ! i) \<noteq> Exited\<close> by (auto simp: running_ok_def nth_list_update split: host_state.split)
  have 4: "waits_ok w'" "log_ok w'" using ncpu_invD(6,7)[OF inv] l by (simp_all add: events_later_def waits_ok_def log_ok_def wo pu)
  have 5: "host_ok w'"
  proof (cases "host w")
    case (Host_Enqueue x a b d)
    then have x: "x < length (evs w)" "\<not> published w x" using ncpu_invD(8)[OF inv] by (simp_all add: host_ok_def published_def)
    then have "\<not> ev_done (evs w' ! x)" using e[OF x(1)] by (auto simp: event_ok_def pu)
    then show ?thesis using ncpu_invD(8)[OF inv] Host_Enqueue l w'(1) by (simp add: host_ok_def events_later_def pu)
  qed (simp_all add: host_ok_def w'(1))
  show ?thesis unfolding ncpu_inv_def only_workers
    using 1 2 3 4 5 e c l w' ncpu_invD(1,5)[OF inv] by (auto simp: events_later_def)
qed

lemma skip_inv:
  assumes inv: "ncpu_inv w" and i: "i < length (m_workers w)" and p: "at_phase (m_workers w ! i) = Executing t (e # es)" and e: "ev_done (evs w ! e)"
  shows "ncpu_inv (w\<lparr>m_workers := (m_workers w)[i := (m_workers w ! i)\<lparr>at_phase := Executing t es\<rparr>]\<rparr>)"
proof -
  let ?v = "(m_workers w ! i)\<lparr>at_phase := Executing t es\<rparr>"
  have p': "in_task (m_workers w ! i) = Some (t, e # es)" "in_task ?v = Some (t, es)" using p by simp_all
  have "calling (w\<lparr>m_workers := (m_workers w)[i := ?v]\<rparr>) = calling w" using calling_update[OF i, of "w\<lparr>m_workers := (m_workers w)[i := ?v]\<rparr>" ?v] p by simp
  then have "calls_ok (w\<lparr>m_workers := (m_workers w)[i := ?v]\<rparr>)" using ncpu_invD(10)[OF inv] by (simp add: calls_ok_def)
  then show ?thesis using ncpu_invD(4)[OF inv] e by (intro worker_and_events_inv[OF inv i p']) (simp_all add: events_later_def)
qed

lemma wait_inv:
  assumes inv: "ncpu_inv w" and i: "i < length (m_workers w)" and p: "at_phase (m_workers w ! i) = Executing t (e # es)"
    and e: "\<not> event_waits w e" "\<not> ev_done (evs w ! e)"
  shows "ncpu_inv ((event_wait e w)\<lparr>m_workers := (m_workers w)[i := (m_workers w ! i)\<lparr>at_phase := Calling t e es\<rparr>]\<rparr>)"
proof -
  let ?w = "event_wait e w" and ?v = "(m_workers w ! i)\<lparr>at_phase := Calling t e es\<rparr>"
  have p': "in_task (m_workers w ! i) = Some (t, e # es)" "in_task ?v = Some (t, es)" using p by simp_all
  have "e \<in> set (waits_of w t)" using worker_event(5)[OF inv i p'(1)] by auto
  then have pub: "published w e" by (rule worker_event(3)[OF inv i p'(1)])
  then have el: "e < length (evs w)" by (simp add: published_def)
  note ev = event_wait_event[OF el] and l = events_laterI(1)[OF el]
  have q: "queue_events ?w = queue_events w - {e}" using e(2) by (simp add: event_wait_def)
  have 1: "event_ok ?w x" if "x < length (evs w)" for x
    using ncpu_invD(4)[OF inv] by (intro completed_event_ok[OF inv pub e that _ _ l _ q]) (simp_all add: ev published_def fun_eq_iff event_ok_def)
  have "calling (?w\<lparr>m_workers := (m_workers w)[i := ?v]\<rparr>) = add_mset e (calling w)"
    using calling_update[OF i, of "?w\<lparr>m_workers := (m_workers w)[i := ?v]\<rparr>" ?v] p by simp
  then have "calls_ok (?w\<lparr>m_workers := (m_workers w)[i := ?v]\<rparr>)"
    using el e(2) by (intro call_taken[OF inv el e(2)]) (auto simp: event_wait_nth)
  then show ?thesis using 1 l q by (intro worker_and_events_inv[OF inv i p']) (auto simp: ev)
qed

lemma run_callback_event_ok: "e < length (evs w) \<Longrightarrow> event_ok (run_callback e w) x = event_ok w x"
  by (simp add: event_ok_def run_callback_nth published_def)

lemma call_inv:
  assumes inv: "ncpu_inv w" and i: "i < length (m_workers w)" and p: "at_phase (m_workers w ! i) = Calling t e es"
  shows "ncpu_inv ((run_callback e w)\<lparr>m_workers := (m_workers w)[i := (m_workers w ! i)\<lparr>at_phase := Executing t es\<rparr>]\<rparr>)"
proof -
  let ?w = "run_callback e w" and ?v = "(m_workers w ! i)\<lparr>at_phase := Executing t es\<rparr>"
  have p': "in_task (m_workers w ! i) = Some (t, es)" "in_task ?v = Some (t, es)" using p by simp_all
  have c: "calling w = add_mset e (calling (?w\<lparr>m_workers := (m_workers w)[i := ?v]\<rparr>))"
    using calling_update[OF i, of "?w\<lparr>m_workers := (m_workers w)[i := ?v]\<rparr>" ?v] p by simp
  then have el: "e < length (evs w)" using ncpu_invD(10)[OF inv] by (auto simp: calls_ok_def)
  have "calls_ok (?w\<lparr>m_workers := (m_workers w)[i := ?v]\<rparr>)"
    using el by (intro call_made[OF inv _ c]) (auto simp: run_callback_nth)
  then show ?thesis using ncpu_invD(4)[OF inv] events_laterI(2)[OF el]
    by (intro worker_and_events_inv[OF inv i p']) (simp_all add: run_callback_event_ok[OF el])
qed

text \<open>Running the task.\<close>

lemma run_inv:
  assumes inv: "ncpu_inv w" and i: "i < length (m_workers w)" and p: "at_phase (m_workers w ! i) = Executing t []"
  shows "ncpu_inv (w\<lparr>m_workers := (m_workers w)[i := (m_workers w ! i)\<lparr>at_phase := Finishing\<rparr>], completed := completed w @ [t]\<rparr>)"
    (is "ncpu_inv ?w")
proof -
  let ?v = "(m_workers w ! i)\<lparr>at_phase := Finishing\<rparr>" and ?w = "w\<lparr>m_workers := (m_workers w)[i := (m_workers w ! i)\<lparr>at_phase := Finishing\<rparr>], completed := completed w @ [t]\<rparr>"
  note we = worker_event[OF inv i in_task_simps(1)[OF p]]
  have wo: "waits_of ?w = waits_of w" and pu: "published ?w = published w" by (simp_all add: waits_of_def published_def fun_eq_iff)
  have "held (m_workers w ! i) = t # held ?v" using p by (simp add: held_def)
  then have "add_mset t (mset (concat (map held ((m_workers w)[i := ?v])))) = mset (concat (map held (m_workers w)))"
    using mset_held_update[OF i, of ?v] by simp
  then have 1: "tasks_once ?w" using ncpu_invD(2)[OF inv] by (simp add: tasks_once_def) (metis add_mset_add_single union_mset_add_mset_left)
  have "worker_ok w ?v" using we(4) p by (simp add: worker_ok_def held_def)
  then have 2: "worker_ok ?w v" if "v \<in> set ((m_workers w)[i := ?v])" for v
  proof -
    have "worker_ok w v" using that \<open>worker_ok w ?v\<close> ncpu_invD(3)[OF inv, of v] set_update_subset_insert[of "m_workers w" i ?v] by blast
    then show ?thesis by (simp add: worker_ok_def wo)
  qed
  have 3: "running_ok (host w) ((m_workers w)[i := ?v])"
    using ncpu_invD(9)[OF inv] p i by (auto simp: running_ok_def nth_list_update split: host_state.split)
  have 4: "event_ok ?w e" if "e < length (evs w)" for e using ncpu_invD(4)[OF inv that] by (auto simp: event_ok_def pu)
  have "set (tasksinfo (evs w ! e)) \<subseteq> set (completed w)" if "e \<in> set (waits_of w t)" for e
  proof -
    have "ev_done (evs w ! e)" using that we(5) by auto
    moreover have "e < length (evs w)" using we(3)[OF that] by (simp add: published_def)
    ultimately show ?thesis using ncpu_invD(4)[OF inv] by (simp add: event_ok_def)
  qed
  then have 5: "log_ok ?w" using ncpu_invD(7)[OF inv] by (simp add: log_ok_def wo nth_append less_Suc_eq)
  have 6: "waits_ok ?w" using ncpu_invD(6)[OF inv] by (simp add: waits_ok_def pu)
  have 7: "host_ok ?w" using ncpu_invD(8)[OF inv] by (cases "host w") (simp_all add: host_ok_def pu)
  have "calling ?w = calling w" using calling_update[OF i, of ?w ?v] p by simp
  then have 8: "calls_ok ?w" using ncpu_invD(10)[OF inv] by (simp add: calls_ok_def)
  show ?thesis using ncpu_invD(1,5)[OF inv] 1 2 3 4 5 6 7 8 by (simp add: ncpu_inv_def)
qed

lemma worker_step_inv: "worker_step w w' \<Longrightarrow> ncpu_inv w \<Longrightarrow> ncpu_inv w'"
  by (erule worker_step.cases) (simp_all add: take_inv skip_inv wait_inv call_inv run_inv count_inv leave_inv)

section \<open>Steps of the application\<close>

lemma idle_published: "host w = Host_Idle \<Longrightarrow> published w e \<longleftrightarrow> e < length (evs w)"
  by (simp add: published_def)

lemma log_ok_later:
  assumes inv: "ncpu_inv w" and c: "completed w' = completed w" and o: "\<And>t. t < ntasks w \<Longrightarrow> waits_of w' t = waits_of w t"
    and e: "\<And>e. published w e \<Longrightarrow> tasksinfo (evs w' ! e) = tasksinfo (evs w ! e)"
  shows "log_ok w'"
  unfolding log_ok_def
proof (intro allI impI ballI)
  fix i x assume i: "i < length (completed w')" and x: "x \<in> set (waits_of w' (completed w' ! i))"
  have t: "completed w ! i < ntasks w" using i c subsetD[OF tasks_once_all(2)[OF ncpu_invD(2)[OF inv]] nth_mem, of i] by simp
  then have x': "x \<in> set (waits_of w (completed w ! i))" using x o c by simp
  then have "published w x" using t ncpu_invD(6)[OF inv] by (simp add: waits_of_def waits_ok_def)
  then show "set (tasksinfo (evs w' ! x)) \<subseteq> set (take i (completed w'))"
    using x' i ncpu_invD(7)[OF inv] e c by (simp add: log_ok_def)
qed

lemma worker_ok_later:
  assumes inv: "ncpu_inv w" and v: "v \<in> set (m_workers w)" and o: "\<And>t. t < ntasks w \<Longrightarrow> waits_of w' t = waits_of w t"
    and e: "\<And>e. published w e \<Longrightarrow> ev_done (evs w ! e) \<Longrightarrow> ev_done (evs w' ! e)"
  shows "worker_ok w' v"
proof (rule worker_ok_mono[OF ncpu_invD(3)[OF inv v]])
  fix t es assume p: "in_task v = Some (t, es)"
  obtain i where i: "i < length (m_workers w)" "v = m_workers w ! i" using v by (metis in_set_conv_nth)
  note we = worker_event[OF inv i(1) p[unfolded i(2)]]
  show "waits_of w' t = waits_of w t" by (rule o[OF we(1)])
  show "ev_done (evs w' ! x)" if "x \<in> set (waits_of w t)" "ev_done (evs w ! x)" for x using we(3)[OF that(1)] that(2) e by blast
qed

lemma enqueue_inv:
  assumes inv: "ncpu_inv w" and h: "host w = Host_Idle" and ws: "\<forall>e \<in> set waits. e < length (evs w)"
  shows "ncpu_inv (begin_enqueue waits n w)"
proof -
  let ?w = "begin_enqueue waits n w"
  have f: "m_workers ?w = m_workers w" "task_waits ?w = task_waits w" "completed ?w = completed w" "evs ?w = evs w @ [new_event]"
    "queue_events ?w = insert (length (evs w)) (queue_events w)" "host ?w = Host_Enqueue (length (evs w)) waits n []" by (simp_all add: begin_enqueue_def)
  have wo: "waits_of ?w = waits_of w" by (simp add: waits_of_def f fun_eq_iff)
  have pu: "published ?w e \<longleftrightarrow> published w e" for e using h by (auto simp: published_def f)
  have old: "evs ?w ! e = evs w ! e" if "published w e" for e using that by (simp add: published_def f nth_append)
  have q: "queue_events w \<subseteq> {..<length (evs w)}" by (rule ncpu_invD(5)[OF inv])
  have 1: "worker_ok ?w v" if "v \<in> set (m_workers w)" for v by (rule worker_ok_later[OF inv that]) (simp_all add: wo old)
  have 2: "event_ok ?w e" if "e < length (evs ?w)" for e
  proof (cases "e < length (evs w)")
    case True
    then show ?thesis using ncpu_invD(4)[OF inv True] by (simp add: event_ok_def f pu h nth_append)
  next
    case False
    then have "e = length (evs w)" using that f by simp
    then show ?thesis by (simp add: event_ok_def f new_event_def)
  qed
  have 3: "queue_events ?w \<subseteq> {..<length (evs ?w)}" using q by (auto simp: f)
  have 4: "waits_ok ?w" using ncpu_invD(6)[OF inv] old by (simp add: waits_ok_def f(2) pu)
  have 5: "log_ok ?w" by (rule log_ok_later[OF inv f(3)]) (simp_all add: wo old)
  have 6: "host_ok ?w" using ws h by (simp add: host_ok_def f new_event_def pu idle_published)
  have 7: "running_ok (host ?w) (m_workers ?w)" using ncpu_invD(9)[OF inv] h by (simp add: f running_ok_def)
  have 8: "tasks_once ?w" using ncpu_invD(2)[OF inv] by (simp add: tasks_once_def f)
  have c: "calling ?w = calling w" by (rule calling_cong) (simp_all add: f h)
  have "length (evs w) \<notin># calling w" using ncpu_invD(10)[OF inv] by (auto simp: calls_ok_def)
  then have "call_ok (calling w) (length (evs w)) new_event" by (simp add: call_ok_def new_event_def not_in_iff)
  then have 9: "calls_ok ?w" using ncpu_invD(10)[OF inv] unfolding calls_ok_def c by (auto simp: f nth_append less_Suc_eq)
  show ?thesis using ncpu_invD(1)[OF inv] 1 2 3 4 5 6 7 8 9 by (simp add: ncpu_inv_def f(1))
qed

text \<open>Scheduling a task.\<close>

lemma best_worker_less: "ws \<noteq> [] \<Longrightarrow> best_worker ws < length ws"
  by (induction ws rule: best_worker.induct) (auto simp: Let_def)

lemma best_worker_least: "i < length ws \<Longrightarrow> m_numTasks (ws ! best_worker ws) \<le> m_numTasks (ws ! i)"
proof (induction ws arbitrary: i rule: best_worker.induct)
  case (3 w v ws)
  show ?case
  proof (cases i)
    case 0
    then show ?thesis by (auto simp: Let_def)
  next
    case (Suc j)
    then have "m_numTasks ((v # ws) ! best_worker (v # ws)) \<le> m_numTasks ((v # ws) ! j)" using 3 by simp
    then show ?thesis using Suc by (auto simp: Let_def)
  qed
qed auto

lemma schedule_inv:
  assumes inv: "ncpu_inv w" and h: "host w = Host_Enqueue e waits (Suc n) ts"
  shows "ncpu_inv (schedule_one e waits n ts w)"
proof -
  let ?w = "schedule_one e waits n ts w" and ?b = "best_worker (m_workers w)" and ?t = "ntasks w"
  let ?v = "worker_schedule ?t (m_workers w ! ?b)"
  have b: "?b < length (m_workers w)" by (rule best_worker_less[OF ncpu_invD(1)[OF inv]])
  have f: "m_workers ?w = (m_workers w)[?b := ?v]" "task_waits ?w = task_waits w @ [waits]" "completed ?w = completed w" "evs ?w = evs w"
    "queue_events ?w = queue_events w" "host ?w = Host_Enqueue e waits n (ts @ [?t])" by (simp_all add: schedule_one_def pool_schedule_def)
  have wo: "waits_of ?w t = waits_of w t" if "t < ?t" for t using that by (simp add: waits_of_def f nth_append)
  have pu: "published ?w = published w" using h by (simp add: published_def f fun_eq_iff)
  have later: "worker_ok ?w v" if "v \<in> set (m_workers w)" for v by (rule worker_ok_later[OF inv that wo]) (simp_all add: f)
  have hv: "held ?v = held (m_workers w ! ?b) @ [?t]" by (simp add: held_def worker_schedule_def)
  have "m_isRunning (m_workers w ! ?b)" using ncpu_invD(9)[OF inv] b h by (simp add: running_ok_def)
  moreover have "x < ?t" if "x \<in> set (held (m_workers w ! ?b))" for x
    using tasks_once_all(3)[OF ncpu_invD(2)[OF inv] nth_mem[OF b] that] by blast
  ultimately have "worker_ok ?w ?v"
    using later[OF nth_mem[OF b]] unfolding worker_ok_def hv by (auto simp: worker_schedule_def sorted_wrt_append)
  then have 1: "worker_ok ?w v" if "v \<in> set (m_workers ?w)" for v
    using that later[of v] set_update_subset_insert[of "m_workers w" ?b ?v] by (auto simp: f)
  have 2: "event_ok ?w x" if "x < length (evs w)" for x using ncpu_invD(4)[OF inv that] by (auto simp: event_ok_def f pu h)
  have ho: "tasksinfo (evs w ! e) = []" "e < length (evs w)" "\<not> ev_done (evs w ! e)" "set ts \<subseteq> {..<?t}" "\<forall>x \<in> set waits. published w x"
    using ncpu_invD(8)[OF inv] h by (simp_all add: host_ok_def)
  have "u < ?t" if "x \<in> set waits" "u \<in> set (tasksinfo (evs w ! x))" for x u
  proof -
    have "x < length (evs w)" using that(1) ho(5) by (simp add: published_def)
    then show ?thesis using ncpu_invD(4)[OF inv] that(2) by (auto simp: event_ok_def)
  qed
  then have 3: "waits_ok ?w" using ncpu_invD(6)[OF inv] ho(5) by (simp add: waits_ok_def f pu nth_append less_Suc_eq)
  have 4: "log_ok ?w" by (rule log_ok_later[OF inv f(3) wo]) (simp_all add: f)
  have 5: "host_ok ?w" using ho by (auto simp: host_ok_def f pu)
  have 6: "running_ok (host ?w) (m_workers ?w)"
    using ncpu_invD(9)[OF inv] h b by (auto simp: running_ok_def f nth_list_update worker_schedule_def)
  have "mset (concat (map held ((m_workers w)[?b := ?v]))) = add_mset ?t (mset (concat (map held (m_workers w))))"
    using mset_held_update[OF b, of ?v] by (simp add: hv)
  then have 7: "tasks_once ?w" using ncpu_invD(2)[OF inv] by (simp add: tasks_once_def f)
  have "map calls ((m_workers w)[?b := ?v]) = map calls (m_workers w)"
    using b by (intro nth_equalityI) (simp_all add: nth_list_update calls_def worker_schedule_def)
  then have "calling ?w = calling w" by (intro calling_cong) (simp_all add: f h)
  then have 8: "calls_ok ?w" using ncpu_invD(10)[OF inv] by (simp add: calls_ok_def f)
  show ?thesis using ncpu_invD(1,5)[OF inv] 1 2 3 4 5 6 7 8 by (simp add: ncpu_inv_def f)
qed

text \<open>Giving the tasks to the event.\<close>

lemma publish_inv:
  assumes inv: "ncpu_inv w" and h: "host w = Host_Enqueue e waits 0 ts"
  shows "ncpu_inv (set_tasksinfo e ts cb w)"
proof -
  let ?w = "set_tasksinfo e ts cb w"
  have ho: "e < length (evs w)" "\<not> ev_done (evs w ! e)" "set ts \<subseteq> {..<ntasks w}"
    using ncpu_invD(8)[OF inv] h by (simp_all add: host_ok_def)
  have f: "m_workers ?w = m_workers w" "task_waits ?w = task_waits w" "completed ?w = completed w" "length (evs ?w) = length (evs w)"
    "queue_events ?w = queue_events w" "host ?w = Host_Idle" by (simp_all add: set_tasksinfo_def)
  have n: "evs ?w ! x = (if x = e then (evs w ! e)\<lparr>tasksinfo := ts, has_callback := cb\<rparr> else evs w ! x)" for x using ho(1) by (simp add: set_tasksinfo_def nth_list_update)
  have wo: "waits_of ?w = waits_of w" by (simp add: waits_of_def f fun_eq_iff)
  have ne: "published w x \<Longrightarrow> x \<noteq> e \<and> published ?w x" for x using h by (simp add: published_def f)
  have 1: "worker_ok ?w v" if "v \<in> set (m_workers w)" for v by (rule worker_ok_later[OF inv that]) (auto simp: wo n)
  have 2: "event_ok ?w x" if "x < length (evs w)" for x
    using ncpu_invD(4)[OF inv that] ho ne[of x] by (cases "x = e") (simp_all add: event_ok_def n f h)
  have 3: "waits_ok ?w" using ncpu_invD(6)[OF inv] ne by (simp add: waits_ok_def f n)
  have 4: "log_ok ?w" by (rule log_ok_later[OF inv f(3)]) (use ne in \<open>simp_all add: wo n\<close>)
  have 5: "running_ok (host ?w) (m_workers ?w)" using ncpu_invD(9)[OF inv] h by (simp add: running_ok_def f)
  have 6: "tasks_once ?w" using ncpu_invD(2)[OF inv] by (simp add: tasks_once_def f)
  have 7: "host_ok ?w" by (simp add: host_ok_def f)
  have c: "calling ?w = calling w" by (rule calling_cong) (simp_all add: f h)
  have 8: "calls_ok ?w" using ncpu_invD(10)[OF inv] ho(1,2) unfolding calls_ok_def c by (auto simp: f n call_ok_def count_eq_zero_iff)
  show ?thesis using ncpu_invD(1,5)[OF inv] 1 2 3 4 5 6 7 8 by (simp add: ncpu_inv_def f)
qed

text \<open>Waiting in the application, the rounds of \<open>finish\<close>, and what follows them.\<close>

lemma host_completes_inv:
  assumes inv: "ncpu_inv w" and h: "host w = Host_Idle" and e: "e < length (evs w)" "\<not> event_waits w e" "\<not> ev_done (evs w ! e)"
    and l: "events_later w w'" "m_workers w' = m_workers w" "host w' = Host_Callback e f" "queue_events w' = queue_events w - {e}"
    and ev: "\<And>x. evs w' ! x = (if x = e then (evs w ! e)\<lparr>ev_done := True, ev_refs := (if f then 2 else 1)\<rparr> else evs w ! x)"
  shows "ncpu_inv w'"
proof (rule events_later_inv[OF inv l(1,2)])
  show pu: "published w' = published w" using l(1,3) h by (simp add: published_def events_later_def fun_eq_iff)
  have pe: "published w e" using e(1) h by (simp add: published_def)
  have refs: "ev_refs (evs w ! x) = 1" if "x < length (evs w)" for x using ncpu_invD(4)[OF inv that] h by (simp add: event_ok_def)
  show "event_ok w' x" if "x < length (evs w)" for x
    by (rule completed_event_ok[OF inv pe e(2,3) that pu _ l(1) _ l(4)]) (simp_all add: ev refs l(3))
  have "calling w' = add_mset e (calling w)" by (simp add: calling_def l(2,3) h)
  then show "calls_ok w'" using l(1) by (intro call_taken[OF inv e(1,3)]) (simp_all add: ev events_later_def)
  show "running_ok (host w') (m_workers w')" using ncpu_invD(9)[OF inv] by (simp add: running_ok_def l(2,3) h)
qed (simp_all add: host_ok_def l(3,4))

lemma host_wait_inv:
  assumes inv: "ncpu_inv w" and h: "host w = Host_Idle" and e: "e < length (evs w)" "\<not> event_waits w e"
  shows "ncpu_inv (host_wait e w)"
proof (cases "ev_done (evs w ! e)")
  case False
  have r: "ev_refs (evs w ! e) = 1" using ncpu_invD(4)[OF inv e(1)] h by (simp add: event_ok_def)
  let ?w = "(event_wait e w)\<lparr>host := Host_Callback e False\<rparr>"
  have "ncpu_inv ?w"
    using events_laterI(1)[OF e(1)] False e(1) r
    by (intro host_completes_inv[OF inv h e False]) (auto simp: event_wait_nth events_later_def, auto simp: event_wait_def)
  then show ?thesis using False by (simp add: host_wait_def)
qed (simp add: inv host_wait_def)

lemma finish_round_eq:
  assumes inv: "ncpu_inv w" and e: "e \<in> queue_events w"
  shows "e < length (evs w)" "\<not> ev_done (evs w ! e)" "finish_round e w = (event_wait e (add_refs Suc e w))\<lparr>host := Host_Callback e True\<rparr>"
proof -
  show el: "e < length (evs w)" using e ncpu_invD(5)[OF inv] by blast
  show d: "\<not> ev_done (evs w ! e)" using e ncpu_invD(4)[OF inv el] by (simp add: event_ok_def)
  show "finish_round e w = (event_wait e (add_refs Suc e w))\<lparr>host := Host_Callback e True\<rparr>"
    using d by (simp add: finish_round_def Let_def add_refs_nth[OF el])
qed

lemma finish_round_inv:
  assumes inv: "ncpu_inv w" and h: "host w = Host_Idle" and e: "e \<in> queue_events w" "\<not> event_waits w e"
  shows "ncpu_inv (finish_round e w)"
proof -
  note eq = finish_round_eq[OF inv e(1)]
  have r: "ev_refs (evs w ! e) = 1" using ncpu_invD(4)[OF inv eq(1)] h by (simp add: event_ok_def)
  let ?u = "add_refs Suc e w"
  have u: "e < length (evs ?u)" "\<not> ev_done (evs ?u ! e)" using eq(1,2) by (simp_all add: add_refs_nth)
  have l: "events_later w (event_wait e ?u)"
    using events_laterI(3)[OF eq(1), of Suc] events_laterI(1)[OF u(1)] by (simp add: events_later_def)
  have q: "queue_events (event_wait e ?u) = queue_events w - {e}" using u(2) by (simp add: event_wait_def)
  have n: "evs (event_wait e ?u) ! x = (if x = e then (evs w ! e)\<lparr>ev_done := True, ev_refs := 2\<rparr> else evs w ! x)" for x
    unfolding event_wait_nth[OF u(1)] add_refs_nth[OF eq(1)] using eq(2) r by simp
  show ?thesis unfolding eq(3)
    using l by (intro host_completes_inv[where f = True, OF inv h eq(1) e(2) eq(2)]) (simp_all add: n q events_later_def)
qed

lemma host_callback_fields:
  "m_workers (host_callback e f w) = m_workers w" "task_waits (host_callback e f w) = task_waits w" "completed (host_callback e f w) = completed w"
  "host (host_callback e f w) = Host_Idle" "length (evs (host_callback e f w)) = length (evs w)" "queue_events (host_callback e f w) = queue_events w"
  by (simp_all add: host_callback_def Let_def)

lemma host_callback_nth:
  "e < length (evs w) \<Longrightarrow> evs (host_callback e f w) ! x =
     (if x = e then (evs w ! e)\<lparr>callback_runs := callback_runs (evs w ! e) + of_bool (has_callback (evs w ! e)),
                                 ev_refs := ev_refs (evs w ! e) - of_bool f\<rparr> else evs w ! x)"
  by (simp add: host_callback_def Let_def add_refs_nth run_callback_nth)

lemma host_callback_inv:
  assumes inv: "ncpu_inv w" and h: "host w = Host_Callback e f"
  shows "ncpu_inv (host_callback e f w)"
proof -
  let ?w = "host_callback e f w"
  note f = host_callback_fields
  have c: "calling w = add_mset e (calling ?w)" by (simp add: calling_def f h)
  then have el: "e < length (evs w)" using ncpu_invD(10)[OF inv] by (auto simp: calls_ok_def)
  note n = host_callback_nth[OF el]
  have pu: "published ?w = published w" by (simp add: published_def f h fun_eq_iff)
  show ?thesis
  proof (rule events_later_inv[OF inv])
    show "events_later w ?w" by (simp add: events_later_def f n)
    show "event_ok ?w x" if "x < length (evs w)" for x
      using ncpu_invD(4)[OF inv that] by (auto simp: event_ok_def f n pu h)
    show "calls_ok ?w" by (rule call_made[OF inv _ c]) (simp_all add: f n)
    show "running_ok (host ?w) (m_workers ?w)" using ncpu_invD(9)[OF inv] by (simp add: running_ok_def f h)
  qed (simp_all add: f pu host_ok_def)
qed

lemma stop_inv:
  assumes inv: "ncpu_inv w" and h: "host w = Host_Idle \<and> k = 0 \<or> (\<exists>j. k = Suc j \<and> host w = Host_Stopping j \<and> j < length (m_workers w) \<and> at_phase (m_workers w ! j) = Exited)"
  shows "ncpu_inv (stop_worker k w)"
proof -
  let ?w = "stop_worker k w" and ?v = "worker_stop (m_workers w ! k)"
  have f: "m_workers ?w = (m_workers w)[k := ?v]" "task_waits ?w = task_waits w" "completed ?w = completed w" "evs ?w = evs w"
    "queue_events ?w = queue_events w" "host ?w = Host_Stopping k" by (simp_all add: stop_worker_def)
  have wo: "waits_of ?w = waits_of w" by (simp add: waits_of_def f fun_eq_iff)
  have pu: "published ?w = published w" using h by (auto simp: published_def f fun_eq_iff)
  have later: "worker_ok ?w v" if "v \<in> set (m_workers w)" for v by (rule worker_ok_later[OF inv that]) (simp_all add: wo f)
  have 1: "worker_ok ?w v" if "v \<in> set (m_workers ?w)" for v
  proof -
    obtain i where i: "i < length (m_workers w)" "v = m_workers ?w ! i" using \<open>v \<in> _\<close> by (auto simp: in_set_conv_nth f)
    show ?thesis using later[OF nth_mem[OF i(1)]] i by (cases "i = k") (simp_all add: f worker_ok_def held_def worker_stop_def)
  qed
  have 2: "event_ok ?w x" if "x < length (evs w)" for x using ncpu_invD(4)[OF inv that] h by (auto simp: event_ok_def f pu)
  have 3: "waits_ok ?w" "log_ok ?w" using ncpu_invD(6,7)[OF inv] by (simp_all add: waits_ok_def log_ok_def f pu wo)
  have n: "m_workers ?w ! i = (if i = k then ?v else m_workers w ! i)" if "i < length (m_workers w)" for i using that by (cases "i = k") (simp_all add: f)
  have l: "length (m_workers ?w) = length (m_workers w)" by (simp add: f)
  have 4: "running_ok (host ?w) (m_workers ?w)"
    using ncpu_invD(9)[OF inv] h unfolding running_ok_def l f(6) by (auto simp: n worker_stop_def less_Suc_eq)
  have "map held (m_workers ?w) = map held (m_workers w)" by (intro nth_equalityI) (simp_all add: l n held_def worker_stop_def)
  then have 5: "tasks_once ?w" using ncpu_invD(2)[OF inv] by (simp add: tasks_once_def f(2,3))
  have 6: "host_ok ?w" by (simp add: host_ok_def f)
  have "map calls (m_workers ?w) = map calls (m_workers w)" by (intro nth_equalityI) (simp_all add: l n calls_def worker_stop_def)
  then have "calling ?w = calling w" using h by (intro calling_cong) (auto simp: f(6))
  then have 7: "calls_ok ?w" using ncpu_invD(10)[OF inv] by (simp add: calls_ok_def f)
  show ?thesis using ncpu_invD(1,5)[OF inv] 1 2 3 4 5 6 7 by (simp add: ncpu_inv_def f)
qed

lemma host_step_inv: "host_step w w' \<Longrightarrow> ncpu_inv w \<Longrightarrow> ncpu_inv w'"
  by (induction rule: host_step.induct)
    (simp_all add: enqueue_inv schedule_inv publish_inv host_wait_inv finish_round_inv host_callback_inv stop_inv)

lemma new_inv: "0 < n \<Longrightarrow> ncpu_inv (new_ncpu n)"
proof -
  assume n: "0 < n"
  have v: "held v = [] \<and> calls v = [] \<and> worker_ok (new_ncpu n) v \<and> m_isRunning v" if "v \<in> set (simple_thread_pool n)" for v
    using that by (auto simp: simple_thread_pool_def new_worker_def held_def worker_ok_def in_task_def calls_def)
  have "concat (map held (simple_thread_pool n)) = []" using v by simp
  then have "tasks_once (new_ncpu n)" by (simp add: tasks_once_def new_ncpu_def)
  moreover have "calls_ok (new_ncpu n)" using v by (auto simp: calls_ok_def calling_def new_ncpu_def)
  moreover have "running_ok Host_Idle (simple_thread_pool n)" using v by (simp add: running_ok_def)
  moreover have "simple_thread_pool n \<noteq> []" using n by (simp add: simple_thread_pool_def)
  ultimately show ?thesis using v by (simp add: ncpu_inv_def new_ncpu_def waits_ok_def log_ok_def host_ok_def)
qed

lemma ncpu_reachable_inv: "ncpu_reachable n w \<Longrightarrow> 0 < n \<Longrightarrow> ncpu_inv w"
  by (induction rule: ncpu_reachable.induct) (auto intro: new_inv worker_step_inv host_step_inv)

end
