(* ===== verification/Native_Cpu_Pool_Live.thy ===== *)
theory Native_Cpu_Pool_Live
  imports Native_Cpu_Pool_Inv
begin

text \<open>
  The thread pool of the native CPU adapter, continued: whatever the interleaving, the workers finish all tasks in a bounded number of steps,
  a task runs once and after the tasks it depends on, finishing a queue and destroying the pool leave no task behind.
\<close>

section \<open>Systems that run down\<close>

text \<open>Steps that keep an invariant and lower a measure, and that do not stop before a goal is met.\<close>

locale draining =
  fixes step :: "'s \<Rightarrow> 's \<Rightarrow> bool" and inv :: "'s \<Rightarrow> bool" and work :: "'s \<Rightarrow> nat" and goal :: "'s \<Rightarrow> bool"
  assumes step_inv: "inv s \<Longrightarrow> step s s' \<Longrightarrow> inv s'"
    and step_work: "inv s \<Longrightarrow> step s s' \<Longrightarrow> work s' < work s"
    and progress: "inv s \<Longrightarrow> \<not> goal s \<Longrightarrow> \<exists>s'. step s s'"
begin

lemma runs_inv: "step\<^sup>*\<^sup>* s s' \<Longrightarrow> inv s \<Longrightarrow> inv s'"
  by (induction rule: rtranclp_induct) (auto intro: step_inv)

lemma run_bounded: "(step ^^ k) s s' \<Longrightarrow> inv s \<Longrightarrow> k + work s' \<le> work s"
proof (induction k arbitrary: s')
  case (Suc k)
  then obtain u where u: "(step ^^ k) s u" "step u s'" by auto
  have "inv u" using u(1) Suc.prems(2) by (auto intro: runs_inv relpowp_imp_rtranclp)
  then show ?case using Suc.IH[OF u(1) Suc.prems(2)] step_work[OF _ u(2)] by simp
qed simp

lemma stuck_goal: "step\<^sup>*\<^sup>* s s' \<Longrightarrow> inv s \<Longrightarrow> \<nexists>s''. step s' s'' \<Longrightarrow> goal s'"
  using progress runs_inv by blast

lemma reaches_end: "inv s \<Longrightarrow> \<exists>s'. step\<^sup>*\<^sup>* s s' \<and> (\<nexists>s''. step s' s'')"
proof (induction "work s" arbitrary: s rule: less_induct)
  case less
  show ?case
  proof (cases "\<exists>u. step s u")
    case True
    then obtain u where u: "step s u" by blast
    then obtain s' where "step\<^sup>*\<^sup>* u s'" "\<nexists>s''. step s' s''" using less step_work step_inv by blast
    then show ?thesis using u by (meson converse_rtranclp_into_rtranclp)
  next
    case False
    then show ?thesis by blast
  qed
qed

lemma reaches_goal: "inv s \<Longrightarrow> \<exists>s'. step\<^sup>*\<^sup>* s s' \<and> goal s'"
  using reaches_end stuck_goal by blast

end

section \<open>The work that is left\<close>

definition worker_work :: "(nat \<Rightarrow> nat list) \<Rightarrow> worker_thread \<Rightarrow> nat" where
  "worker_work waits v = sum_list (map (\<lambda>t. 3 + 2 * length (waits t)) (m_tasks v)) +
     (case at_phase v of Waiting \<Rightarrow> 1 | Executing t es \<Rightarrow> 3 + 2 * length es | Calling t e es \<Rightarrow> 4 + 2 * length es | Finishing \<Rightarrow> 2 | Exited \<Rightarrow> 0)"

definition pool_work :: "ncpu \<Rightarrow> nat" where
  "pool_work w = sum_list (map (worker_work (waits_of w)) (m_workers w))"

lemma sum_list_update_less: "i < length xs \<Longrightarrow> (f v :: nat) < f (xs ! i) \<Longrightarrow> sum_list (map f (xs[i := v])) < sum_list (map f xs)"
proof (induction xs arbitrary: i)
  case (Cons a xs)
  then show ?case by (cases i) simp_all
qed simp

lemma waits_of_kept [simp]: "waits_of (event_wait e w) = waits_of w" "waits_of (run_callback e w) = waits_of w"
  by (simp_all add: waits_of_def fun_eq_iff)

lemma worker_step_work: "worker_step w w' \<Longrightarrow> pool_work w' < pool_work w"
proof (induction rule: worker_step.induct)
  case (take i w v)
  then have "worker_work (waits_of w) v < worker_work (waits_of w) (m_workers w ! i)"
    by (auto simp: worker_work_def worker_take_def split: phase.splits list.splits)
  then show ?case using take(1) by (simp add: pool_work_def sum_list_update_less)
next
  case (skip i w t e es)
  then have "worker_work (waits_of w) ((m_workers w ! i)\<lparr>at_phase := Executing t es\<rparr>) < worker_work (waits_of w) (m_workers w ! i)"
    by (simp add: worker_work_def)
  then show ?case using skip(1) by (simp add: pool_work_def sum_list_update_less)
next
  case (wait i w t e es)
  then have "worker_work (waits_of w) ((m_workers w ! i)\<lparr>at_phase := Calling t e es\<rparr>) < worker_work (waits_of w) (m_workers w ! i)"
    by (simp add: worker_work_def)
  then show ?case using wait(1) by (simp add: pool_work_def sum_list_update_less)
next
  case (call i w t e es)
  then have "worker_work (waits_of w) ((m_workers w ! i)\<lparr>at_phase := Executing t es\<rparr>) < worker_work (waits_of w) (m_workers w ! i)"
    by (simp add: worker_work_def)
  then show ?case using call(1) by (simp add: pool_work_def sum_list_update_less)
next
  case (run i w t)
  have wo: "waits_of (w\<lparr>m_workers := ws, completed := c\<rparr>) = waits_of w" for ws c by (simp add: waits_of_def fun_eq_iff)
  have "worker_work (waits_of w) ((m_workers w ! i)\<lparr>at_phase := Finishing\<rparr>) < worker_work (waits_of w) (m_workers w ! i)"
    using run by (simp add: worker_work_def)
  then show ?case using run(1) by (simp add: pool_work_def sum_list_update_less wo)
next
  case (count i w v)
  then have "worker_work (waits_of w) v < worker_work (waits_of w) (m_workers w ! i)"
    by (auto simp: worker_work_def worker_count_def split: if_splits)
  then show ?case using count(1) by (simp add: pool_work_def sum_list_update_less)
next
  case (leave i w v)
  then have "worker_work (waits_of w) v < worker_work (waits_of w) (m_workers w ! i)"
    by (auto simp: worker_work_def worker_leave_def split: if_splits)
  then show ?case using leave(1) by (simp add: pool_work_def sum_list_update_less)
qed

section \<open>Progress\<close>

definition all_run :: "ncpu \<Rightarrow> bool" where
  "all_run w \<longleftrightarrow> mset (completed w) = mset [0..<length (task_waits w)]"

lemma all_run_set: "all_run w \<Longrightarrow> set (completed w) = {..<ntasks w}"
  by (drule mset_eq_setD[OF iffD1[OF all_run_def]]) (simp add: lessThan_atLeast0)

lemma not_all_run:
  assumes "tasks_once w" "\<not> all_run w"
  shows "\<exists>t < ntasks w. t \<notin> set (completed w)"
proof (rule ccontr)
  assume "\<not> ?thesis"
  then have "set (completed w) = set [0..<ntasks w]" using tasks_once_all(2)[OF assms(1)] by auto
  then have "mset (completed w) = mset [0..<ntasks w]" using tasks_once_all(1)[OF assms(1)] by (subst set_eq_iff_mset_eq_distinct[symmetric]) simp_all
  then show False using assms(2) by (simp add: all_run_def)
qed

lemma worker_progress:
  assumes inv: "ncpu_inv w" and i: "i < length (m_workers w)" and t: "t \<in> set (held (m_workers w ! i))"
    and least: "\<And>u. u < t \<Longrightarrow> u \<in> set (completed w)"
  shows "\<exists>w'. worker_step w w'"
proof (cases "at_phase (m_workers w ! i)")
  case Waiting
  then have "m_tasks (m_workers w ! i) \<noteq> []" using t by (auto simp: held_def)
  then obtain v where "worker_take (waits_of w) (m_workers w ! i) = Some v" using Waiting by (auto simp: worker_take_def neq_Nil_conv)
  then show ?thesis using worker_step.take[OF i] by blast
next
  case (Executing u es)
  note we = worker_event[OF inv i in_task_simps(1)[OF Executing]]
  have "u \<le> t" using we(4) t Executing by (auto simp: worker_ok_def held_def)
  then have u: "u = t" using we(2) least[of u] by fastforce
  show ?thesis
  proof (cases es)
    case Nil
    then show ?thesis using worker_step.run[OF i] Executing by blast
  next
    case (Cons e es')
    then have e: "e \<in> set (waits_of w t)" using we(5) u by auto
    then have "x \<in> set (completed w)" if "x \<in> set (tasksinfo (evs w ! e))" for x
      using that we(1) u ncpu_invD(6)[OF inv] by (intro least) (simp add: waits_ok_def waits_of_def)
    then have "\<not> event_waits w e" by (auto simp: event_waits_def)
    then show ?thesis using worker_step.wait[OF i] worker_step.skip[OF i] Executing Cons by blast
  qed
next
  case (Calling u e es)
  then show ?thesis using worker_step.call[OF i] by blast
next
  case Finishing
  then show ?thesis using worker_step.count[OF i] by (simp add: worker_count_def) blast
next
  case Exited
  then show ?thesis using t ncpu_invD(3)[OF inv nth_mem[OF i]] by (simp add: held_def worker_ok_def)
qed

lemma pool_progress: "ncpu_inv w \<Longrightarrow> \<not> all_run w \<Longrightarrow> \<exists>w'. worker_step w w'"
proof -
  assume inv: "ncpu_inv w" and n: "\<not> all_run w"
  let ?P = "\<lambda>t. t < ntasks w \<and> t \<notin> set (completed w)"
  obtain t where t: "?P t" "\<And>u. u < t \<Longrightarrow> \<not> ?P u"
    using not_all_run[OF ncpu_invD(2)[OF inv] n] exists_least_iff[of ?P] by blast
  then obtain i where i: "i < length (m_workers w)" "t \<in> set (held (m_workers w ! i))"
    using tasks_once_all(4)[OF ncpu_invD(2)[OF inv], of t] by (metis in_set_conv_nth)
  show ?thesis by (rule worker_progress[OF inv i]) (use t in fastforce)
qed

interpretation pool: draining worker_step ncpu_inv pool_work all_run
  by unfold_locales (simp_all add: worker_step_inv worker_step_work pool_progress)

section \<open>Destroying the pool\<close>

definition closing_inv :: "ncpu \<Rightarrow> bool" where
  "closing_inv w \<longleftrightarrow> ncpu_inv w \<and> (case host w of Host_Stopping k \<Rightarrow> k \<le> length (m_workers w) | _ \<Rightarrow> False)"

definition closing_step :: "ncpu \<Rightarrow> ncpu \<Rightarrow> bool" where
  "closing_step w w' \<longleftrightarrow> worker_step w w' \<or> host_step w w'"

definition closing_work :: "ncpu \<Rightarrow> nat" where
  "closing_work w = pool_work w + (case host w of Host_Stopping k \<Rightarrow> length (m_workers w) - k | _ \<Rightarrow> 0)"

definition closed :: "ncpu \<Rightarrow> bool" where
  "closed w \<longleftrightarrow> host w = Host_Stopping (length (m_workers w))"

lemma worker_step_host: "worker_step w w' \<Longrightarrow> host w' = host w \<and> length (m_workers w') = length (m_workers w) \<and> task_waits w' = task_waits w"
  by (induction rule: worker_step.induct) simp_all

lemma stop_worker_work: "pool_work (stop_worker k w) = pool_work w"
proof -
  have "worker_work x (worker_stop v) = worker_work x v" for x v by (simp add: worker_work_def worker_stop_def)
  then have "map (worker_work x) ((m_workers w)[k := worker_stop (m_workers w ! k)]) = map (worker_work x) (m_workers w)" for x
    by (simp add: map_update) (metis list_update_beyond list_update_id length_map nth_map not_le_imp_less)
  moreover have "waits_of (stop_worker k w) = waits_of w" by (simp add: waits_of_def stop_worker_def fun_eq_iff)
  ultimately show ?thesis by (simp add: pool_work_def) (simp add: stop_worker_def)
qed

lemma stopping_host_step:
  assumes "host_step w w'" "host w = Host_Stopping k"
  shows "w' = stop_worker (Suc k) w \<and> k < length (m_workers w)"
  using assms by (cases rule: host_step.cases) simp_all

lemma closing_progress:
  assumes c: "closing_inv w" and n: "\<not> closed w"
  shows "\<exists>w'. closing_step w w'"
proof (cases "all_run w")
  case False
  then show ?thesis using c pool_progress by (auto simp: closing_inv_def closing_step_def)
next
  case True
  obtain k where h: "host w = Host_Stopping k" and k: "k < length (m_workers w)"
    using c n by (auto simp: closing_inv_def closed_def split: host_state.splits)
  have inv: "ncpu_inv w" using c by (simp add: closing_inv_def)
  note all_run_set[OF True]
  then have held: "held (m_workers w ! k) = []"
    using tasks_once_all(3)[OF ncpu_invD(2)[OF inv] nth_mem[OF k]] by (metis lessThan_iff list.set_intros(1) neq_Nil_conv)
  have s: "\<not> m_isRunning (m_workers w ! k)" using ncpu_invD(9)[OF inv] k h by (simp add: running_ok_def)
  show ?thesis
  proof (cases "at_phase (m_workers w ! k)")
    case Waiting
    then show ?thesis using worker_step.leave[OF k] s held by (auto simp: closing_step_def worker_leave_def held_def)
  next
    case Finishing
    then show ?thesis using worker_step.count[OF k] by (auto simp: closing_step_def worker_count_def)
  next
    case Exited
    then show ?thesis using host_step.join[OF h k] by (auto simp: closing_step_def)
  next
    case (Calling t e es)
    then show ?thesis using worker_step.call[OF k] by (auto simp: closing_step_def)
  qed (use held in \<open>simp add: held_def\<close>)
qed

lemma closing_step_ok:
  assumes c: "closing_inv w" and s: "closing_step w w'"
  shows "closing_inv w'" "closing_work w' < closing_work w"
proof -
  obtain k where h: "host w = Host_Stopping k" "k \<le> length (m_workers w)" and inv: "ncpu_inv w"
    using c by (auto simp: closing_inv_def split: host_state.splits)
  have "closing_inv w' \<and> closing_work w' < closing_work w"
  proof (cases "worker_step w w'")
    case True
    then show ?thesis using worker_step_host[OF True] worker_step_inv[OF True inv] worker_step_work[OF True] h by (simp add: closing_inv_def closing_work_def)
  next
    case False
    then have hs: "host_step w w'" using s by (simp add: closing_step_def)
    then have w': "w' = stop_worker (Suc k) w" "k < length (m_workers w)" using stopping_host_step h(1) by blast+
    have "ncpu_inv w'" by (rule host_step_inv[OF hs inv])
    then show ?thesis using w'(2) h stop_worker_work[of "Suc k" w]
      by (simp add: closing_inv_def closing_work_def w'(1)) (simp add: stop_worker_def)
  qed
  then show "closing_inv w'" "closing_work w' < closing_work w" by blast+
qed

interpretation closing: draining closing_step closing_inv closing_work closed
  by unfold_locales (simp_all add: closing_step_ok closing_progress)

lemma closed_all_run:
  assumes inv: "ncpu_inv w" and c: "closed w"
  shows "all_run w" "v \<in> set (m_workers w) \<Longrightarrow> at_phase v = Exited"
proof -
  have x: "at_phase (m_workers w ! i) = Exited" if "i < length (m_workers w)" for i
    using ncpu_invD(9)[OF inv] c that by (simp add: running_ok_def closed_def)
  then show "v \<in> set (m_workers w) \<Longrightarrow> at_phase v = Exited" by (auto simp: in_set_conv_nth)
  show "all_run w"
  proof (rule ccontr)
    assume "\<not> all_run w"
    then obtain t where "t < ntasks w" "t \<notin> set (completed w)" using not_all_run ncpu_invD(2)[OF inv] by blast
    then obtain v where v: "v \<in> set (m_workers w)" "t \<in> set (held v)" using tasks_once_all(4)[OF ncpu_invD(2)[OF inv]] by blast
    have "at_phase v = Exited" using v(1) x by (auto simp: in_set_conv_nth)
    then show False using ncpu_invD(3)[OF inv v(1)] v(2) by (simp add: held_def worker_ok_def)
  qed
qed

end
