(* ===== verification/Native_Cpu_Pool_Props.thy ===== *)
theory Native_Cpu_Pool_Props
  imports Native_Cpu_Pool_Live
begin

text \<open>
  The thread pool of the native CPU adapter, continued: what the application can rely on, and the places where the code
  does less than its interface says.
\<close>

section \<open>Finishing the queue\<close>

text \<open>Every task belongs to an event, or to the command that is being enqueued.\<close>

definition owned :: "ncpu \<Rightarrow> bool" where
  "owned w \<longleftrightarrow>
     (\<forall>t < ntasks w. (\<exists>e < length (evs w). t \<in> set (tasksinfo (evs w ! e))) \<or> (case host w of Host_Enqueue _ _ _ ts \<Rightarrow> t \<in> set ts | _ \<Rightarrow> False))"

lemma kept_tasks:
  "x < length (evs w) \<Longrightarrow> tasksinfo (evs (event_wait e w) ! x) = tasksinfo (evs w ! x)"
  "x < length (evs w) \<Longrightarrow> tasksinfo (evs (run_callback e w) ! x) = tasksinfo (evs w ! x)"
  "x < length (evs w) \<Longrightarrow> tasksinfo (evs (add_refs f e w) ! x) = tasksinfo (evs w ! x)"
  by (cases "x = e"; simp add: event_wait_def run_callback_def add_refs_def)+

lemma owned_later:
  assumes "owned w" "task_waits w' = task_waits w" "host w' = host w \<or> (\<forall>e a n ts. host w \<noteq> Host_Enqueue e a n ts)" "length (evs w') = length (evs w)"
    "\<And>x. x < length (evs w) \<Longrightarrow> tasksinfo (evs w' ! x) = tasksinfo (evs w ! x)"
  shows "owned w'"
  unfolding owned_def
proof (intro allI impI)
  fix t assume t: "t < ntasks w'"
  then show "(\<exists>e < length (evs w'). t \<in> set (tasksinfo (evs w' ! e))) \<or> (case host w' of Host_Enqueue _ _ _ ts \<Rightarrow> t \<in> set ts | _ \<Rightarrow> False)"
    using assms unfolding owned_def by (cases "host w") fastforce+
qed

lemma worker_step_owned: "worker_step w w' \<Longrightarrow> owned w \<Longrightarrow> owned w'"
  by (induction rule: worker_step.induct) (auto elim!: owned_later simp: kept_tasks)

lemma host_step_owned: "host_step w w' \<Longrightarrow> ncpu_inv w \<Longrightarrow> owned w \<Longrightarrow> owned w'"
proof (induction rule: host_step.induct)
  case (enqueue w waits n)
  then show ?case by (auto simp: owned_def begin_enqueue_def nth_append intro: less_SucI)
next
  case (schedule w e waits n ts)
  then show ?case by (auto simp: owned_def schedule_one_def less_Suc_eq)
next
  case (publish w e waits ts cb)
  have e: "e < length (evs w)" "tasksinfo (evs w ! e) = []" using ncpu_invD(8)[OF publish(3)] publish(1) by (simp_all add: host_ok_def)
  have "(\<exists>x < length (evs w). t \<in> set (tasksinfo (evs w ! x))) \<or> t \<in> set ts" if "t < ntasks w" for t
    using publish(1,4) that by (simp add: owned_def)
  then have "\<exists>x < length (evs w). t \<in> set (tasksinfo (evs (set_tasksinfo e ts cb w) ! x))" if "t < ntasks w" for t
  proof -
    consider x where "x < length (evs w)" "t \<in> set (tasksinfo (evs w ! x))" | "t \<in> set ts"
      using \<open>t < ntasks w\<close> publish(1,4) by (auto simp: owned_def)
    then show ?thesis
    proof cases
      case 1
      then have "x \<noteq> e" using e(2) by auto
      then show ?thesis using 1 by (intro exI[of _ x]) (simp add: set_tasksinfo_def)
    next
      case 2
      then show ?thesis using e(1) by (intro exI[of _ e]) (simp add: set_tasksinfo_def)
    qed
  qed
  then show ?case by (simp add: owned_def set_tasksinfo_def)
next
  case (wait w e)
  then show ?case by (auto elim!: owned_later simp: kept_tasks host_wait_def)
next
  case (finish w e)
  then show ?case by (auto elim!: owned_later simp: kept_tasks finish_round_eq)
next
  case (callback w e f)
  then show ?case by (auto elim!: owned_later simp: kept_tasks host_callback_def Let_def)
next
  case (stop w)
  then show ?case by (simp add: owned_def stop_worker_def)
next
  case (join w k)
  then show ?case by (simp add: owned_def stop_worker_def)
qed

lemma owned_new: "owned (new_ncpu n)"
  by (simp add: owned_def new_ncpu_def)

lemma ncpu_reachable_owned: "ncpu_reachable n w \<Longrightarrow> 0 < n \<Longrightarrow> owned w"
  by (induction rule: ncpu_reachable.induct)
    (auto simp: owned_new intro: worker_step_owned host_step_owned ncpu_reachable_inv)

text \<open>The rounds of \<open>finish\<close> among the steps of the workers.\<close>

definition finish_inv :: "ncpu \<Rightarrow> bool" where
  "finish_inv w \<longleftrightarrow> ncpu_inv w \<and> owned w \<and> (host w = Host_Idle \<or> (\<exists>e f. host w = Host_Callback e f))"

definition finish_step :: "ncpu \<Rightarrow> ncpu \<Rightarrow> bool" where
  "finish_step w w' \<longleftrightarrow> worker_step w w' \<or>
     host w = Host_Idle \<and> (\<exists>e \<in> queue_events w. \<not> event_waits w e \<and> w' = finish_round e w) \<or>
     (\<exists>e f. host w = Host_Callback e f \<and> w' = host_callback e f w)"

definition finish_work :: "ncpu \<Rightarrow> nat" where
  "finish_work w = pool_work w + 2 * card (queue_events w) + (if host w = Host_Idle then 0 else 1)"

lemma worker_step_queue: "worker_step w w' \<Longrightarrow> queue_events w' \<subseteq> queue_events w"
  by (induction rule: worker_step.induct) (auto simp: event_wait_def)

lemma finite_queue: "ncpu_inv w \<Longrightarrow> finite (queue_events w)"
  using ncpu_invD(5) finite_subset by blast

lemma pool_work_kept:
  assumes "m_workers w' = m_workers w" "task_waits w' = task_waits w"
  shows "pool_work w' = pool_work w"
proof -
  have "waits_of w' = waits_of w" using assms(2) by (simp add: waits_of_def fun_eq_iff)
  then show ?thesis by (simp add: pool_work_def assms(1))
qed

lemma finish_step_ok:
  assumes f: "finish_inv w" and s: "finish_step w w'"
  shows "finish_inv w'" "finish_work w' < finish_work w"
proof -
  have inv: "ncpu_inv w" "owned w" "host w = Host_Idle \<or> (\<exists>e f. host w = Host_Callback e f)" using f by (simp_all add: finish_inv_def)
  consider (work) "worker_step w w'" | (round) e where "host w = Host_Idle" "e \<in> queue_events w" "\<not> event_waits w e" "w' = finish_round e w"
    | (callback) e g where "host w = Host_Callback e g" "w' = host_callback e g w" using s by (auto simp: finish_step_def)
  then have "finish_inv w' \<and> finish_work w' < finish_work w"
  proof cases
    case work
    then show ?thesis using inv worker_step_inv[OF work] worker_step_owned[OF work] worker_step_host[OF work] worker_step_work[OF work]
        card_mono[OF finite_queue[OF inv(1)] worker_step_queue[OF work]] by (auto simp: finish_inv_def finish_work_def)
  next
    case round
    have hs: "host_step w w'" unfolding round(4) by (rule host_step.finish[OF round(1-3)])
    note eq = finish_round_eq[OF inv(1) round(2)]
    have w': "m_workers w' = m_workers w" "task_waits w' = task_waits w" "host w' = Host_Callback e True" "queue_events w' = queue_events w - {e}"
      using eq by (simp_all add: round(4)) (simp add: event_wait_def add_refs_nth)
    have "card (queue_events w') < card (queue_events w)" unfolding w'(4) by (rule card_Diff1_less[OF finite_queue[OF inv(1)] round(2)])
    then show ?thesis using host_step_inv[OF hs] host_step_owned[OF hs] inv w' round(1) pool_work_kept[OF w'(1,2)]
      by (auto simp: finish_inv_def finish_work_def)
  next
    case callback
    have hs: "host_step w w'" unfolding callback(2) by (rule host_step.callback[OF callback(1)])
    show ?thesis using host_step_inv[OF hs] host_step_owned[OF hs] inv callback pool_work_kept[of w' w]
      by (simp add: finish_inv_def finish_work_def host_callback_fields)
  qed
  then show "finish_inv w'" "finish_work w' < finish_work w" by blast+
qed

lemma finish_progress:
  assumes f: "finish_inv w" and n: "queue_events w \<noteq> {}"
  shows "\<exists>w'. finish_step w w'"
proof -
  obtain e where e: "e \<in> queue_events w" using n by blast
  have inv: "ncpu_inv w" "host w = Host_Idle \<or> (\<exists>e f. host w = Host_Callback e f)" using f by (simp_all add: finish_inv_def)
  show ?thesis
  proof (cases "event_waits w e")
    case True
    have el: "e < length (evs w)" using e ncpu_invD(5)[OF inv(1)] by blast
    have "\<not> all_run w"
    proof
      assume "all_run w"
      note all_run_set[OF this]
      then show False using True ncpu_invD(4)[OF inv(1) el] by (simp add: event_waits_def event_ok_def)
    qed
    then show ?thesis using pool_progress[OF inv(1)] by (auto simp: finish_step_def)
  next
    case False
    then show ?thesis using e inv(2) by (auto simp: finish_step_def)
  qed
qed

interpretation finishing: draining finish_step finish_inv finish_work "\<lambda>w. queue_events w = {}"
  by unfold_locales (simp_all add: finish_step_ok finish_progress)

lemma empty_queue_all_run:
  assumes f: "finish_inv w" and q: "queue_events w = {}"
  shows "all_run w" "\<forall>e < length (evs w). getExecutionStatus (evs w ! e) = UR_EVENT_STATUS_COMPLETE"
proof -
  have inv: "ncpu_inv w" "owned w" "host w = Host_Idle \<or> (\<exists>e f. host w = Host_Callback e f)" using f by (simp_all add: finish_inv_def)
  have d: "ev_done (evs w ! e) \<and> set (tasksinfo (evs w ! e)) \<subseteq> set (completed w)" if "e < length (evs w)" for e
    using ncpu_invD(4)[OF inv(1) that] q by (auto simp: event_ok_def)
  then show "\<forall>e < length (evs w). getExecutionStatus (evs w ! e) = UR_EVENT_STATUS_COMPLETE" by (simp add: getExecutionStatus_def)
  have "t \<in> set (completed w)" if "t < ntasks w" for t
  proof -
    obtain e where "e < length (evs w)" "t \<in> set (tasksinfo (evs w ! e))" using inv(2,3) \<open>t < ntasks w\<close> by (auto simp: owned_def)
    then show ?thesis using d by blast
  qed
  then show "all_run w" using not_all_run[OF ncpu_invD(2)[OF inv(1)]] by blast
qed

section \<open>Steps as a function\<close>

lemma worker_step_next: "worker_step w w' \<longleftrightarrow> (\<exists>i. worker_next i w = Some w')"
proof
  assume "worker_step w w'"
  then show "\<exists>i. worker_next i w = Some w'"
  proof (induction rule: worker_step.induct)
    case (take i w v)
    then have "worker_next i w = Some (w\<lparr>m_workers := (m_workers w)[i := v]\<rparr>)"
      by (auto simp: worker_next_def worker_take_def Let_def split: phase.splits list.splits)
    then show ?case by blast
  next
    case (skip i w t e es)
    then have "worker_next i w = Some (w\<lparr>m_workers := (m_workers w)[i := (m_workers w ! i)\<lparr>at_phase := Executing t es\<rparr>]\<rparr>)"
      by (simp add: worker_next_def)
    then show ?case by blast
  next
    case (wait i w t e es)
    then have "worker_next i w = Some ((event_wait e w)\<lparr>m_workers := (m_workers w)[i := (m_workers w ! i)\<lparr>at_phase := Calling t e es\<rparr>]\<rparr>)"
      by (simp add: worker_next_def)
    then show ?case by blast
  next
    case (call i w t e es)
    then have "worker_next i w = Some ((run_callback e w)\<lparr>m_workers := (m_workers w)[i := (m_workers w ! i)\<lparr>at_phase := Executing t es\<rparr>]\<rparr>)"
      by (simp add: worker_next_def)
    then show ?case by blast
  next
    case (run i w t)
    then have "worker_next i w = Some (w\<lparr>m_workers := (m_workers w)[i := (m_workers w ! i)\<lparr>at_phase := Finishing\<rparr>], completed := completed w @ [t]\<rparr>)"
      by (simp add: worker_next_def)
    then show ?case by blast
  next
    case (count i w v)
    then have "worker_next i w = Some (w\<lparr>m_workers := (m_workers w)[i := v]\<rparr>)" by (auto simp: worker_next_def worker_count_def split: if_splits)
    then show ?case by blast
  next
    case (leave i w v)
    then have "worker_next i w = Some (w\<lparr>m_workers := (m_workers w)[i := v]\<rparr>)"
      by (auto simp: worker_next_def worker_leave_def worker_take_def split: if_splits)
    then show ?case by blast
  qed
next
  assume "\<exists>i. worker_next i w = Some w'"
  then obtain i where n: "worker_next i w = Some w'" by blast
  then have i: "i < length (m_workers w)" by (simp add: worker_next_def split: if_splits)
  show "worker_step w w'"
  proof (cases "at_phase (m_workers w ! i)")
    case (Executing t es)
    then show ?thesis using n i by (cases es) (auto simp: worker_next_def Let_def intro: worker_step.skip worker_step.wait worker_step.run split: if_splits)
  next
    case (Calling t e es)
    then show ?thesis using n i by (auto simp: worker_next_def intro: worker_step.call)
  qed (use n i in \<open>auto simp: worker_next_def Let_def intro: worker_step.take worker_step.leave worker_step.count split: option.splits\<close>)
qed

text \<open>Letting the workers of a list of positions do a step each.\<close>

definition run_workers :: "nat list \<Rightarrow> ncpu \<Rightarrow> ncpu" where
  "run_workers ps w = fold (\<lambda>i w. case worker_next i w of Some w' \<Rightarrow> w' | None \<Rightarrow> w) ps w"

lemma run_workers_reachable: "ncpu_reachable n w \<Longrightarrow> ncpu_reachable n (run_workers ps w)"
proof (induction ps arbitrary: w)
  case (Cons i ps)
  have "ncpu_reachable n (case worker_next i w of Some w' \<Rightarrow> w' | None \<Rightarrow> w)"
    using Cons.prems ncpu_reachable.work worker_step_next by (auto split: option.split)
  then show ?case using Cons.IH by (simp add: run_workers_def)
qed (simp add: run_workers_def)

text \<open>A pool of two workers, and a command of two tasks before a command that waits for it.\<close>

definition sample :: ncpu where
  "sample = set_tasksinfo 1 [2] True (schedule_one 1 [0] 0 [] (begin_enqueue [0] 1
     (set_tasksinfo 0 [0, 1] True (schedule_one 0 [] 0 [0] (schedule_one 0 [] 1 [] (begin_enqueue [] 2 (new_ncpu 2)))))))"

lemma sample_reachable: "ncpu_reachable 2 sample"
  unfolding sample_def
  apply (rule ncpu_reachable.host[OF _ host_step.publish])
   apply (rule ncpu_reachable.host[OF _ host_step.schedule])
    apply (rule ncpu_reachable.host[OF _ host_step.enqueue])
      apply (rule ncpu_reachable.host[OF _ host_step.publish])
       apply (rule ncpu_reachable.host[OF _ host_step.schedule])
        apply (rule ncpu_reachable.host[OF _ host_step.schedule])
         apply (rule ncpu_reachable.host[OF _ host_step.enqueue])
           apply (rule ncpu_reachable.start)
          apply (simp_all add: set_tasksinfo_def schedule_one_def begin_enqueue_def new_ncpu_def)
  done

section \<open>What the application relies on\<close>

text \<open>
  C29: Whatever the application has enqueued and however the threads are interleaved, the workers of the pool alone make only a bounded number
  of steps, and when none of them can go on, every task that was scheduled has run, exactly once: the pool does not block itself, although tasks
  wait for events inside the workers.\<close>

theorem pool_drains:
  assumes "ncpu_reachable n w" "0 < n"
  shows "(\<forall>k w'. (worker_step ^^ k) w w' \<longrightarrow> k \<le> pool_work w) \<and>
    (\<forall>w'. worker_step\<^sup>*\<^sup>* w w' \<and> (\<nexists>w''. worker_step w' w'') \<longrightarrow> mset (completed w') = mset [0..<length (task_waits w')])"
proof -
  note inv = ncpu_reachable_inv[OF assms]
  have "k \<le> pool_work w" if "(worker_step ^^ k) w w'" for k w' using pool.run_bounded[OF that inv] by simp
  then show ?thesis using pool.stuck_goal[OF _ inv] by (simp add: all_run_def)
qed

theorem pool_drains_witness:
  "task_waits sample = [[], [], [0]] \<and> completed sample = [] \<and> (\<exists>w'. worker_step\<^sup>*\<^sup>* sample w' \<and> mset (completed w') = mset [0..<length (task_waits w')])"
proof -
  have s: "task_waits sample = [[], [], [0]]" "completed sample = []" by code_simp+
  obtain w' where "worker_step\<^sup>*\<^sup>* sample w'" "\<nexists>w''. worker_step w' w''"
    using pool.reaches_end[OF ncpu_reachable_inv[OF sample_reachable]] by auto
  then show ?thesis using pool_drains[OF sample_reachable] s by auto
qed

text \<open>
  C30: In every state that the pool can reach, with the application in one thread, no task has run twice, a task has run only after all tasks of the events its command
  waits for, and an event is reported as complete only when its tasks have run. Its callback, if one was set, is called at most once, only when the event is
  complete, and has been called once no thread is left between making the event complete and calling it; in between, the event is complete and the callback has not run.
\<close>

theorem tasks_in_order:
  assumes "ncpu_reachable n w" "0 < n"
  shows "distinct (completed w) \<and>
    (\<forall>i e. i < length (completed w) \<and> e \<in> set (waits_of w (completed w ! i)) \<longrightarrow> set (tasksinfo (evs w ! e)) \<subseteq> set (take i (completed w))) \<and>
    (\<forall>e. e < length (evs w) \<and> getExecutionStatus (evs w ! e) = UR_EVENT_STATUS_COMPLETE \<longrightarrow> set (tasksinfo (evs w ! e)) \<subseteq> set (completed w)) \<and>
    (\<forall>e. e < length (evs w) \<longrightarrow> callback_runs (evs w ! e) =
       (if has_callback (evs w ! e) \<and> getExecutionStatus (evs w ! e) = UR_EVENT_STATUS_COMPLETE \<and> e \<notin># calling w then 1 else 0))"
proof -
  note inv = ncpu_reachable_inv[OF assms]
  have "log_ok w" by (rule ncpu_invD(7)[OF inv])
  then have "\<forall>i e. i < length (completed w) \<and> e \<in> set (waits_of w (completed w ! i)) \<longrightarrow> set (tasksinfo (evs w ! e)) \<subseteq> set (take i (completed w))"
    by (simp add: log_ok_def)
  moreover have "set (tasksinfo (evs w ! e)) \<subseteq> set (completed w)"
    if "e < length (evs w)" "getExecutionStatus (evs w ! e) = UR_EVENT_STATUS_COMPLETE" for e
    using ncpu_invD(4)[OF inv that(1)] that(2) by (auto simp: event_ok_def getExecutionStatus_def split: if_splits)
  moreover have "callback_runs (evs w ! e) =
      (if has_callback (evs w ! e) \<and> getExecutionStatus (evs w ! e) = UR_EVENT_STATUS_COMPLETE \<and> e \<notin># calling w then 1 else 0)"
    if "e < length (evs w)" for e
  proof -
    have "call_ok (calling w) e (evs w ! e)" using ncpu_invD(10)[OF inv] that by (simp add: calls_ok_def)
    then show ?thesis by (auto simp: call_ok_def getExecutionStatus_def count_eq_zero_iff)
  qed
  ultimately show ?thesis using tasks_once_all(1)[OF ncpu_invD(2)[OF inv]] by blast
qed

theorem tasks_in_order_witness:
  "completed (run_workers [1, 1, 1, 0, 0, 0, 0, 0, 0, 0] sample) = [1, 0, 2] \<and> waits_of (run_workers [1, 1, 1, 0, 0, 0, 0, 0, 0, 0] sample) 2 = [0] \<and>
   set (tasksinfo (evs (run_workers [1, 1, 1, 0, 0, 0, 0, 0, 0, 0] sample) ! 0)) \<subseteq> set (take 2 [1, 0, 2]) \<and>
   callback_runs (evs (run_workers [1, 1, 1, 0, 0, 0, 0, 0, 0, 0] sample) ! 0) = 1"
proof -
  let ?w = "run_workers [1, 1, 1, 0, 0, 0, 0, 0, 0, 0] sample"
  have s: "completed ?w = [1, 0, 2]" "waits_of ?w 2 = [0]" "has_callback (evs ?w ! 0)" "getExecutionStatus (evs ?w ! 0) = UR_EVENT_STATUS_COMPLETE"
    "length (evs ?w) = 2" "concat (map calls (m_workers ?w)) = []" "host ?w = Host_Idle" by code_simp+
  note t = tasks_in_order[OF run_workers_reachable[OF sample_reachable], of "[1, 1, 1, 0, 0, 0, 0, 0, 0, 0]"]
  have "e \<in> set (waits_of ?w (completed ?w ! 2)) \<Longrightarrow> set (tasksinfo (evs ?w ! e)) \<subseteq> set (take 2 (completed ?w))" for e
    using t s(1) by (metis (no_types, lifting) length_Cons lessI list.size(3) numeral_2_eq_2 zero_less_numeral)
  moreover have "calling ?w = {#}" unfolding calling_def s(6,7) by simp
  then have "callback_runs (evs ?w ! 0) = 1" using t s(3-5) by simp
  ultimately show ?thesis using s(1,2) by fastforce
qed

text \<open>
  C31: Finishing a queue of the native CPU adapter always ends: its rounds and the steps of the workers are bounded in number, they do not stop before the queue is
  empty, and when the queue is empty every task of every command has run and every event is complete.\<close>

theorem queue_finish_completes:
  assumes "ncpu_reachable n w" "0 < n" "host w = Host_Idle"
  shows "(\<forall>k w'. (finish_step ^^ k) w w' \<longrightarrow> k \<le> finish_work w) \<and>
    (\<forall>w'. finish_step\<^sup>*\<^sup>* w w' \<and> (\<nexists>w''. finish_step w' w'') \<longrightarrow> queue_events w' = {}) \<and>
    (\<forall>w'. finish_step\<^sup>*\<^sup>* w w' \<and> queue_events w' = {} \<longrightarrow> mset (completed w') = mset [0..<length (task_waits w')] \<and>
       (\<forall>e < length (evs w'). getExecutionStatus (evs w' ! e) = UR_EVENT_STATUS_COMPLETE))"
proof -
  have f: "finish_inv w" using assms ncpu_reachable_inv ncpu_reachable_owned by (simp add: finish_inv_def)
  have 1: "k \<le> finish_work w" if "(finish_step ^^ k) w w'" for k w' using finishing.run_bounded[OF that f] by simp
  have 2: "queue_events w' = {}" if "finish_step\<^sup>*\<^sup>* w w'" "\<nexists>w''. finish_step w' w''" for w' using finishing.stuck_goal[OF that(1) f that(2)] .
  have 3: "mset (completed w') = mset [0..<length (task_waits w')] \<and> (\<forall>e < length (evs w'). getExecutionStatus (evs w' ! e) = UR_EVENT_STATUS_COMPLETE)"
    if "finish_step\<^sup>*\<^sup>* w w'" "queue_events w' = {}" for w'
    using empty_queue_all_run[OF finishing.runs_inv[OF that(1) f] that(2)] by (simp add: all_run_def)
  show ?thesis using 1 2 3 by blast
qed

theorem queue_finish_completes_witness:
  "queue_events sample = {0, 1} \<and> (\<exists>w'. finish_step\<^sup>*\<^sup>* sample w' \<and> queue_events w' = {} \<and> mset (completed w') = mset [0..<length (task_waits w')])"
proof -
  have s: "host sample = Host_Idle" "queue_events sample = {0, 1}" by code_simp+
  have f: "finish_inv sample" using s(1) ncpu_reachable_inv[OF sample_reachable] ncpu_reachable_owned[OF sample_reachable] by (simp add: finish_inv_def)
  obtain w' where "finish_step\<^sup>*\<^sup>* sample w'" "queue_events w' = {}" using finishing.reaches_goal[OF f] by blast
  then show ?thesis using queue_finish_completes[OF sample_reachable _ s(1)] s(2) by auto
qed

text \<open>Destroying the pool ends all its threads and leaves no task behind.\<close>

lemma destroy_completes:
  assumes r: "ncpu_reachable n w" "0 < n" and h: "host w = Host_Idle" and s: "closing_step\<^sup>*\<^sup>* (stop_worker 0 w) w'" "\<nexists>w''. closing_step w' w''"
  shows "closed w'" "all_run w'" "\<forall>v \<in> set (m_workers w'). at_phase v = Exited"
proof -
  have "ncpu_inv (stop_worker 0 w)" using ncpu_reachable_inv[OF r] h by (simp add: stop_inv)
  then have c: "closing_inv (stop_worker 0 w)" by (simp add: closing_inv_def) (simp add: stop_worker_def)
  show "closed w'" by (rule closing.stuck_goal[OF s(1) c s(2)])
  moreover have "ncpu_inv w'" using closing.runs_inv[OF s(1) c] by (simp add: closing_inv_def)
  ultimately show "all_run w'" "\<forall>v \<in> set (m_workers w'). at_phase v = Exited" using closed_all_run by blast+
qed

text \<open>A task goes to a worker that has no more tasks than any other.\<close>

lemma pool_schedule_spec:
  assumes "ws \<noteq> []"
  shows "num_pending_tasks (pool_schedule t ws) = num_pending_tasks ws + 1" "i < length ws \<Longrightarrow> m_numTasks (ws ! best_worker ws) \<le> m_numTasks (ws ! i)"
    "m_tasks (pool_schedule t ws ! best_worker ws) = m_tasks (ws ! best_worker ws) @ [t]"
proof -
  have b: "best_worker ws < length ws" by (rule best_worker_less[OF assms])
  have "i < length xs \<Longrightarrow> sum_list (map m_numTasks (xs[i := worker_schedule t (xs ! i)])) = sum_list (map m_numTasks xs) + 1" for xs i
  proof (induction xs arbitrary: i)
    case (Cons x xs)
    then show ?case by (cases i) (simp_all add: worker_schedule_def)
  qed simp
  then show "num_pending_tasks (pool_schedule t ws) = num_pending_tasks ws + 1" using b by (simp add: num_pending_tasks_def pool_schedule_def)
  show "i < length ws \<Longrightarrow> m_numTasks (ws ! best_worker ws) \<le> m_numTasks (ws ! i)" by (rule best_worker_least)
  show "m_tasks (pool_schedule t ws ! best_worker ws) = m_tasks (ws ! best_worker ws) @ [t]" using b by (simp add: pool_schedule_def worker_schedule_def)
qed

section \<open>Where the code does less\<close>

text \<open>An event is not reported as complete until somebody waits for it: an application that only asks for the status asks forever.\<close>

lemma polling_never_completes:
  assumes "worker_step\<^sup>*\<^sup>* w w'" "ncpu_inv w" "e < length (evs w)" "\<forall>t < ntasks w. e \<notin> set (task_waits w ! t)"
    "getExecutionStatus (evs w ! e) = UR_EVENT_STATUS_SUBMITTED"
  shows "getExecutionStatus (evs w' ! e) = UR_EVENT_STATUS_SUBMITTED"
proof -
  have "ncpu_inv w' \<and> task_waits w' = task_waits w \<and> length (evs w') = length (evs w) \<and> \<not> ev_done (evs w' ! e)"
    using assms(1)
  proof (induction rule: rtranclp_induct)
    case base
    then show ?case using assms(2,5) by (simp add: getExecutionStatus_def split: if_splits)
  next
    case (step u v)
    have "length (evs v) = length (evs u) \<and> \<not> ev_done (evs v ! e)" using step(2,3)
    proof (induction rule: worker_step.induct)
      case (wait i u t d es)
      note we = worker_event[OF conjunct1[OF wait(5)] wait(1) in_task_simps(1)[OF wait(2)]]
      have d: "d \<in> set (waits_of u t)" using we(5) by auto
      then have "d \<noteq> e" "d < length (evs u)" using we(1) we(3)[OF d] wait(5) assms(4) by (auto simp: waits_of_def published_def)
      then show ?case using wait(5) by (simp add: event_wait_event)
    next
      case (call i u t d es)
      then show ?case using assms(3) by (cases "d = e") (simp_all add: run_callback_def)
    qed simp_all
    then show ?case using step worker_step_inv worker_step_host by metis
  qed
  then show ?thesis by (simp add: getExecutionStatus_def)
qed

text \<open>The event is in the queue before it knows its tasks: when another thread finishes the queue in between, the event is complete before its task has run.\<close>

lemma finish_during_enqueue:
  defines "w \<equiv> schedule_one 0 [] 0 [] (begin_enqueue [] 1 (new_ncpu 1))"
  shows "0 \<in> queue_events w \<and> \<not> event_waits w 0 \<and>
    (let w' = set_tasksinfo 0 [0] True (host_callback 0 True (finish_round 0 w))
     in getExecutionStatus (evs w' ! 0) = UR_EVENT_STATUS_COMPLETE \<and> tasksinfo (evs w' ! 0) = [0] \<and> completed w' = [] \<and> queue_events w' = {})"
  unfolding w_def by code_simp

text \<open>Finishing the queue gives back only the reference it took: the one of the command stays, also when the application has not asked for the event.\<close>

lemma finish_keeps_reference:
  assumes "ncpu_reachable n w" "0 < n" "e < length (evs w)" "host w = Host_Idle"
  shows "ev_refs (evs w ! e) = 1"
  using ncpu_invD(4)[OF ncpu_reachable_inv[OF assms(1,2)] assms(3)] assms(4) by (simp add: event_ok_def)

text \<open>
  An event is complete before its callback has run, which sets the end of its timing: while a worker is between the two, the application finds the event
  complete, a wait for it returns at once, and the time it reads is not there yet.\<close>

lemma complete_before_callback:
  "\<exists>w. ncpu_reachable 2 w \<and> 0 < length (evs w) \<and> has_callback (evs w ! 0) \<and> getExecutionStatus (evs w ! 0) = UR_EVENT_STATUS_COMPLETE \<and>
     callback_runs (evs w ! 0) = 0 \<and> host_wait 0 w = w"
proof (intro exI conjI)
  let ?w = "run_workers [1, 1, 1, 0, 0, 0, 0, 0] sample"
  show "ncpu_reachable 2 ?w" by (rule run_workers_reachable[OF sample_reachable])
  show "0 < length (evs ?w)" "has_callback (evs ?w ! 0)" "getExecutionStatus (evs ?w ! 0) = UR_EVENT_STATUS_COMPLETE" "callback_runs (evs ?w ! 0) = 0"
    by code_simp+
  then show "host_wait 0 ?w = ?w" by (simp add: host_wait_def getExecutionStatus_def split: if_splits)
qed

end
