(* ===== verification/Spec2Isabelle.thy ===== *)
theory Spec2Isabelle
  imports UR_RefCount UR_Select UR_Registry UR_Loader UR_Validation UR_Stream_Queue Asan_Lifecycle
    UR_Pool_Config L0_Command_Lists L0_Event_Cache L0_Batched_Queue Msan_Interceptor San_Buffer_Entry San_Buffer_Rect San_Buffer_Pending
    Hip_Launch
    Native_Cpu_Kernel Native_Cpu_Memory_Props Native_Cpu_Pool_Props
begin

text \<open>
  \<^bold>\<open>The program.\<close> Unified Runtime is the layer between a heterogeneous programming model and the drivers
  of devices. An application links the loader (src/source/loader), which discovers adapters, selects
  devices and passes each entry point through optional layers (validation, tracing, sanitizer) to
  an adapter (src/source/adapters: Level Zero in two generations, CUDA, HIP, OpenCL, native CPU,
  offload, mock). Adapters share the code of src/source/common. The parts that keep state and make
  decisions are modelled here; the entry points a script generates from the specification
  only forward their arguments.

  \<^bold>\<open>How the parts interact.\<close> \<open>urLoaderInit\<close> (UR\_Loader) takes the lock of the loader's singleton,
  builds the context, whose adapters come from the registry (UR\_Registry), reading environment
  variables with the common parsers (UR\_Util), and initialises the layers. \<open>urDeviceGetSelected\<close>
  (UR\_Select) filters what the adapters report. Every call then passes the validation layer
  (UR\_Validation), which counts handles, and the sanitizer, which replaces allocations by larger
  ones with redzones (Asan\_Interceptor), writes shadow memory (Asan\_Shadow, San\_Common) and delays
  frees in a quarantine (Asan\_Lifecycle); it keeps the data of a buffer on each device that uses it (San\_Buffer and
  its successors). The memory sanitizer (Msan\_Interceptor) marks new memory as uninitialised in its own shadow and
  remembers where it came from (Msan\_Shadow). In the Level Zero adapter a queue takes command lists from a
  cache (L0\_Command\_Lists) and events from a pool (L0\_Events) that the context's pool cache lends
  (L0\_Event\_Cache) and whose driver events come from a provider (L0\_Event\_Providers); the batched
  queue (L0\_Batched\_Queue) collects operations and submits them. The CUDA and HIP adapters take streams from a queue
  (UR\_Stream\_Queue), keep the arguments of kernels (Cuda\_Kernel\_Args) and compute the grid of a launch (Cuda\_Launch, Hip\_Launch).
  The native CPU adapter keeps arguments of its own (Native\_Cpu\_Args), splits a launch into tasks (Native\_Cpu\_Range) and gives them to
  threads that wait for events and run them (Native\_Cpu\_Pool).

  \<^bold>\<open>Theories and sources\<close> (paths below src/source):
  \<^item> UR\_Prelude: result codes of the API, strings and numbers of the C++ library, the loop of map
    insertions the parsers share, and the generic lemmas and simplification sets.
  \<^item> UR\_Util: common/ur\_util.hpp and .cpp. \<open>getenv_to_map\<close>, \<open>getenv_to_vec\<close>, \<open>multiplyWithOverflowCheck\<close>
    and the small helpers; round trips of the parsers with the spelling of maps and lists, types of
    what they return for any input, saturation of the product.
  \<^item> UR\_RefCount: common/ur\_ref\_count.hpp and the \<open>Rc\<close> and \<open>AtomicSingleton\<close> templates. The contract
    \<open>refcounted\<close> of a retain and a release is interpreted on their counts; exactly one release of a
    legal history destroys.
  \<^item> UR\_Select: \<open>urDeviceGetSelected\<close> of loader/ur\_lib.cpp, from the selector string to the handles
    returned, with an abstract specification of the selection by accept and discard filters.
  \<^item> UR\_Registry: loader/ur\_adapter\_registry.hpp, ur\_manifests.hpp, ur\_loader.cpp: pre-filter,
    discovery of libraries, forced loading, mocking.
  \<^item> UR\_Loader: the configuration object and the life cycle of loader/ur\_lib.cpp.
  \<^item> UR\_Validation: loader/layers/validation: bounds checks, the tracker of references, switches and
    the entry points of adapters. The tracker refines a map of counts.
  \<^item> UR\_Stream\_Queue: common/cuda-hip/stream\_queue.hpp: rotation of streams, reuse, synchronisation.
  \<^item> UR\_Pool\_Config: common/umf\_pools/disjoint\_pool\_config\_parser.cpp.
  \<^item> San\_Common: loader/layers/sanitizer/sanitizer\_common. Rounding on 64-bit words.
  \<^item> Asan\_Shadow, Asan\_Interceptor, Asan\_Lifecycle: loader/layers/sanitizer/asan. The locale of a
    shadow mapping is interpreted on the mappings of CPU, PVC and DG2; the shadow written for an
    allocation marks exactly its bytes, and each block is freed once.
  \<^item> Msan\_Shadow, Msan\_Interceptor: loader/layers/sanitizer/msan. The locales of a shadow mapping and of its origins are interpreted
    on CPU, PVC and DG2; an allocation is marked byte by byte on every device, and a reported origin names its allocation.
  \<^item> San\_Buffer, San\_Buffer\_Data, San\_Buffer\_Ops, San\_Buffer\_Entry, San\_Buffer\_Rect: asan\_buffer and the entry points for
    buffers in asan\_ddi.cpp, where each command completes before the next call. Buffers with copies on many devices refine byte arrays, whatever calls of
    the driver fail; mapping and unmapping, host data and rectangles.
  \<^item> San\_Buffer\_Pending: the same entry points with commands that are pending when they return. Buffers are still arrays if a buffer changes its
    device only when nothing is pending, and a lemma shows what goes wrong otherwise.
  \<^item> UR\_Adapter\_Common: ur/ur.hpp. Returning a queried value, rounding work group sizes, and the outcomes of adapter functions.
  \<^item> Cuda\_Kernel\_Args, Cuda\_Kernel\_Layout: adapters/cuda/kernel.hpp. The places of arguments in a fixed buffer and in local memory;
    any sequence of settings refines a map from indices to values with a disjoint, aligned layout.
  \<^item> Cuda\_Launch, Cuda\_Launch\_Props: adapters/cuda/enqueue.cpp. The grid covers the range within the
    limits of the device, and the driver is given the arguments that were set.
  \<^item> Hip\_Launch: the arguments of a kernel in adapters/hip/kernel.hpp and the parameters of a launch in adapters/hip/enqueue.cpp, with
    definitions of their own. The two adapters agree where none of the checks that only one of them makes applies.
  \<^item> Native\_Cpu\_Range, Native\_Cpu\_Items: adapters/native\_cpu/enqueue.cpp, nativecpu\_state.hpp. The tasks of a launch run each work item once.
  \<^item> Native\_Cpu\_Args, Native\_Cpu\_Args\_Props, Native\_Cpu\_Kernel: kernel.hpp and launches with arguments. Blocks have one owner, copies outlive
    the kernel, and threads have parts of local memory of their own.
  \<^item> Native\_Cpu\_Memory, Native\_Cpu\_Memory\_Props: context.hpp, usm.cpp and the commands of enqueue.cpp on memory.
  \<^item> Native\_Cpu\_Pool, Native\_Cpu\_Pool\_Inv, Native\_Cpu\_Pool\_Live, Native\_Cpu\_Pool\_Props: threadpool.hpp, event.hpp, event.cpp, queue.hpp. Steps of the
    workers and of the application with an invariant of all interleavings, where completing an event and calling its callback are two steps; the locale \<open>draining\<close> of systems that run down to
    a goal is interpreted on the workers, on finishing a queue and on destroying the pool.
  \<^item> UR\_Double: \<open>double\<close> as far as the code computes with it: rounding to nearest, ties to even, of the products and sums of
    numbers that are not negative, with the bounds of the error. Infinite values do not occur.
  \<^item> L0\_Lending: the contract \<open>lender\<close> of a cache that lends resources, with its history lemma.
  \<^item> L0\_Command\_Lists, L0\_Event\_Providers, L0\_Events, L0\_Event\_Cache: adapters/level\_zero/v2,
    command\_list\_cache, event\_provider, event\_provider\_counter, event\_provider\_normal, event\_pool,
    event, event\_pool\_cache. Each cache interprets \<open>lender\<close>, so that no resource has two holders.
  \<^item> L0\_Batched\_Queue: adapters/level\_zero/v2/queue\_batched and the wait lists of
    command\_list\_manager.cpp. Order, submission and completion of operations, with a small logic of
    pre- and postconditions for methods that may fail half-way.

  \<^bold>\<open>How the code is rendered.\<close> A class is a record, a method a function from the record to a result and
  the new record; an exception or error code is a value of a sum. Machine integers are words of their
  width wherever the code computes with them. What an adapter, the driver or the C++ library supplies
  is a parameter: the driver sees the number of the call and may fail at any one of them,
  \<open>std::sort\<close> and \<open>std::hash\<close> are only assumed to do what the standard says. Code under a mutex is one
  step; the atomic operations of the counts and of the singleton, and what a thread of the native CPU pool does between
  two points where it may block, are steps of their own, so that histories are interleavings. Undefined behaviour,
  such as a division by zero or freeing memory of the application, is an outcome of its own.

  \<^bold>\<open>Bounds and termination.\<close> No fuel is used. Structural recursion is used for loops over lists;
  loops over strings and the recursion of the event provider are \<open>function\<close>s with a measure; the
  mapping of shadow pages steps through 64-bit addresses and could wrap, so it is a partial function
  with result \<open>None\<close> when it does not end, and the property on poisoning proves that it does. The counter of a fill on the native CPU
  has 32 bits, so that its loop is a partial function too, and it is proved when it ends. The steps of
  the native CPU pool lower a measure (\<open>pool_work\<close>), which bounds every run of the workers. Bursts
  of 64 events, 120 operations in a batch and 10 unfinished batches are the constants of the code.
  Times of events are computed with the rounding of \<open>double\<close>, and the property on profiling bounds the error.

  \<^bold>\<open>Not modelled.\<close> Code generated from the specification (ur\_print.hpp, ur\_libapi.cpp, ur\_ldrddi.cpp,
  ur\_trcddi.cpp, ur\_api.cpp, all but the adapter entry points of ur\_valddi.cpp), since it forwards or
  prints; what the CUDA, HIP, OpenCL and offload adapters translate into one driver call each, and the creation
  and queries of their kernels; the first Level Zero adapter; the thread sanitizer, and programs, kernels and
  launch preparation of the other sanitizers; of the native CPU adapter the oneTBB pool, the variant for the construction
  kit and profiling times; the logger, tracing and tools; Windows and macOS branches. What a device
  does with a submitted operation is outside the sources. Weak memory orders are not distinguished.

  \<^bold>\<open>Open.\<close> The remaining event queries and constructors of Level Zero, its immediate queues and command buffers, launch preparation of the
  sanitizers and the options parser have state of their own and could be added in the same way.
\<close>

end
